(* ===== verification/NdnPrelude.thy ===== *)
theory NdnPrelude
  imports Complex_Main "HOL-Library.Word" "HOL-Library.Sublist"
begin

text \<open>
  Shared vocabulary of the development: simulation time, gates, C strings, errors, and the
  generic lemmas on lists and on runs of operations that the component theories use.

  Simulation time (\<^verbatim>\<open>simtime_t\<close>) is a fixed-point number; it is an \<open>int\<close> here, counted in
  picoseconds (the simulator's default resolution).  \<open>SimTime_ms\<close> and \<open>SimTime_s\<close> are the two
  unit conversions the code uses.  Times stay far below the 64-bit range of the simulator
  (about 106 days), which stops the simulation with an error when it is left.
\<close>

section \<open>Simulation time\<close>

type_synonym simtime = int

definition SimTime_ms :: "int \<Rightarrow> simtime" where
  "SimTime_ms n = n * 1000000000"

definition SimTime_s :: "int \<Rightarrow> simtime" where
  "SimTime_s n = n * 1000000000000"

lemma SimTime_ms_mono [simp]: "SimTime_ms a \<le> SimTime_ms b \<longleftrightarrow> a \<le> b"
  by (simp add: SimTime_ms_def)

lemma SimTime_ms_pos [simp]: "0 < SimTime_ms a \<longleftrightarrow> 0 < a"
  by (simp add: SimTime_ms_def)

lemma SimTime_ms_nonneg [simp]: "0 \<le> SimTime_ms a \<longleftrightarrow> 0 \<le> a"
  by (simp add: SimTime_ms_def zero_le_mult_iff)

text \<open>
  The conversion of a non-negative or negative \<^verbatim>\<open>double\<close> to an integer type in C truncates
  towards zero.
\<close>

definition c_int_of_double :: "rat \<Rightarrow> int" where
  "c_int_of_double x = (if 0 \<le> x then \<lfloor>x\<rfloor> else \<lceil>x\<rceil>)"

section \<open>Errors\<close>

text \<open>
  \<open>RuntimeError\<close> is the simulator's exception \<^verbatim>\<open>cRuntimeError\<close>, raised by the code itself, by a
  failed \<^verbatim>\<open>check_and_cast\<close> or by \<^verbatim>\<open>scheduleAt\<close> on a message that is already scheduled.
  \<open>UndefinedBehaviour\<close> marks an access that the C++ standard leaves undefined.
\<close>

datatype sim_error = RuntimeError string | UndefinedBehaviour string | AssertionFailed string

definition bind_result :: "'e + 'a \<Rightarrow> ('a \<Rightarrow> 'e + 'b) \<Rightarrow> 'e + 'b" where
  "bind_result r f = (case r of Inl e \<Rightarrow> Inl e | Inr a \<Rightarrow> f a)"

lemma bind_result_simps [simp]:
  "bind_result (Inl e) f = Inl e"
  "bind_result (Inr a) f = f a"
  by (simp_all add: bind_result_def)

lemma bind_result_Inr_iff:
  "bind_result r f = Inr b \<longleftrightarrow> (\<exists>a. r = Inr a \<and> f a = Inr b)"
  by (cases r) auto

text \<open>\<^verbatim>\<open>ASSERT\<close> stops the simulation with an error when its condition is false.\<close>

definition assert_that :: "bool \<Rightarrow> string \<Rightarrow> sim_error + unit" where
  "assert_that c what = (if c then Inr () else Inl (AssertionFailed what))"

lemma assert_that_simps [simp]:
  "bind_result (assert_that c what) f = (if c then f () else Inl (AssertionFailed what))"
  by (simp add: assert_that_def)

section \<open>Lifecycle operations\<close>

text \<open>The operations of \<^verbatim>\<open>common/lifecycle/NodeOperations.h\<close>; each is done in numbered stages.\<close>

datatype lifecycle_operation = NodeStart | NodeShutdown | NodeCrash | OtherOperation

section \<open>Gates and C strings\<close>

text \<open>A gate is used through \<^verbatim>\<open>isName\<close> and \<^verbatim>\<open>getIndex\<close> only.\<close>

record gate =
  gate_name :: string
  gate_index :: int

definition isName :: "gate \<Rightarrow> string \<Rightarrow> bool" where
  "isName g s \<longleftrightarrow> gate_name g = s"

text \<open>
  \<open>strncmp_eq s t n\<close> is \<^verbatim>\<open>!strncmp(s, t, n)\<close>: at most \<open>n\<close> characters are compared and the
  comparison stops at the end of either string.  Strings hold no NUL character.
\<close>

fun strncmp_eq :: "string \<Rightarrow> string \<Rightarrow> nat \<Rightarrow> bool" where
  "strncmp_eq s t 0 = True"
| "strncmp_eq [] [] (Suc n) = True"
| "strncmp_eq (a # s) (b # t) (Suc n) = (a = b \<and> strncmp_eq s t n)"
| "strncmp_eq s t (Suc n) = False"

lemma strncmp_eq_prefix: "strncmp_eq p s (length p) \<longleftrightarrow> prefix p s"
proof (induction p arbitrary: s)
  case Nil
  then show ?case by simp
next
  case (Cons a p)
  then show ?case by (cases s) auto
qed

section \<open>Lists\<close>

text \<open>Scanning a vector from the front for the first element with a property.\<close>

fun find_index :: "('a \<Rightarrow> bool) \<Rightarrow> 'a list \<Rightarrow> nat option" where
  "find_index P [] = None"
| "find_index P (x # xs) = (if P x then Some 0 else map_option Suc (find_index P xs))"

lemma find_index_None_iff: "find_index P xs = None \<longleftrightarrow> (\<forall>x \<in> set xs. \<not> P x)"
  by (induction xs) auto

lemma find_index_Some_iff:
  "find_index P xs = Some i \<longleftrightarrow> i < length xs \<and> P (xs ! i) \<and> (\<forall>j < i. \<not> P (xs ! j))"
proof (induction xs arbitrary: i)
  case Nil
  then show ?case by simp
next
  case (Cons x xs)
  show ?case
  proof (cases i)
    case 0
    then show ?thesis using Cons by (auto simp: All_less_Suc2)
  next
    case (Suc k)
    then show ?thesis using Cons.IH [of k] by (auto simp: All_less_Suc2)
  qed
qed

lemma find_index_less: "find_index P xs = Some i \<Longrightarrow> i < length xs"
  by (simp add: find_index_Some_iff)

text \<open>Erasing the first element with a property, as the \<^verbatim>\<open>erase(it); return\<close> loops do.\<close>

fun erase_first :: "('a \<Rightarrow> bool) \<Rightarrow> 'a list \<Rightarrow> 'a list" where
  "erase_first P [] = []"
| "erase_first P (x # xs) = (if P x then xs else x # erase_first P xs)"

lemma set_erase_first_subset: "set (erase_first P xs) \<subseteq> set xs"
  by (induction xs) auto

lemma length_erase_first:
  "length (erase_first P xs) = (if \<exists>x \<in> set xs. P x then length xs - 1 else length xs)"
proof (induction xs)
  case (Cons x xs)
  then show ?case by (cases xs) (auto split: if_splits)
qed simp

lemma erase_first_idem: "\<forall>x \<in> set xs. \<not> P x \<Longrightarrow> erase_first P xs = xs"
  by (induction xs) auto

lemma subseq_erase_first: "subseq (erase_first P xs) xs"
  by (induction xs) auto

lemma distinct_map_filter_erase_first:
  "distinct (map f (filter Q xs)) \<Longrightarrow> distinct (map f (filter Q (erase_first P xs)))"
proof (induction xs)
  case (Cons x xs)
  have "set (erase_first P xs) \<subseteq> set xs" by (rule set_erase_first_subset)
  with Cons show ?case by (auto split: if_splits)
qed simp

text \<open>
  A list whose elements are pairwise related in order keeps that under append of one
  element and under taking a subsequence.
\<close>

lemma sorted_wrt_snoc:
  "sorted_wrt R (xs @ [x]) \<longleftrightarrow> sorted_wrt R xs \<and> (\<forall>y \<in> set xs. R y x)"
  by (simp add: sorted_wrt_append)

lemma sorted_wrt_erase_first: "sorted_wrt R xs \<Longrightarrow> sorted_wrt R (erase_first P xs)"
proof (induction xs)
  case (Cons x xs)
  have "set (erase_first P xs) \<subseteq> set xs" by (rule set_erase_first_subset)
  with Cons show ?case by auto
qed simp

lemma find_append:
  "find P (xs @ ys) = (case find P xs of None \<Rightarrow> find P ys | Some x \<Rightarrow> Some x)"
  by (induction xs) auto

lemma list_all_update: "list_all P xs \<Longrightarrow> P x \<Longrightarrow> list_all P (xs[i := x])"
  by (induction xs arbitrary: i) (auto split: nat.splits)

section \<open>Runs of operations\<close>

text \<open>
  A component with a state and a set of operations: whatever every operation keeps is kept
  by every finite run.  Each component interprets this locale with its own operations.
\<close>

locale component =
  fixes exec :: "'op \<Rightarrow> 's \<Rightarrow> 's"
    and inv :: "'s \<Rightarrow> bool"
  assumes exec_inv: "inv s \<Longrightarrow> inv (exec op s)"
begin

lemma run_inv: "inv s \<Longrightarrow> inv (fold exec ops s)"
proof (induction ops arbitrary: s)
  case Nil
  then show ?case by simp
next
  case (Cons op ops)
  from Cons.prems have "inv (exec op s)" by (rule exec_inv)
  then have "inv (fold exec ops (exec op s))" by (rule Cons.IH)
  then show ?case by simp
qed

lemma run_prefix_inv: "inv s \<Longrightarrow> inv (fold exec (take n ops) s)"
  by (rule run_inv)

end

text \<open>The same for operations that may raise: a run stops at the first error.\<close>

fun run_result :: "('op \<Rightarrow> 's \<Rightarrow> 'e + 's) \<Rightarrow> 'op list \<Rightarrow> 's \<Rightarrow> 'e + 's" where
  "run_result exec [] s = Inr s"
| "run_result exec (op # ops) s = bind_result (exec op s) (run_result exec ops)"

locale fallible_component =
  fixes exec :: "'op \<Rightarrow> 's \<Rightarrow> 'e + 's"
    and inv :: "'s \<Rightarrow> bool"
  assumes exec_keeps: "inv s \<Longrightarrow> exec op s = Inr s' \<Longrightarrow> inv s'"
begin

lemma run_keeps: "inv s \<Longrightarrow> run_result exec ops s = Inr s' \<Longrightarrow> inv s'"
proof (induction ops arbitrary: s)
  case Nil
  then show ?case by simp
next
  case (Cons op ops)
  from Cons.prems(2) obtain s1 where "exec op s = Inr s1" "run_result exec ops s1 = Inr s'"
    by (auto simp: bind_result_Inr_iff)
  with Cons.prems(1) Cons.IH show ?case by (blast intro: exec_keeps)
qed

end

locale safe_component = fallible_component exec inv
  for exec :: "'op \<Rightarrow> 's \<Rightarrow> 'e + 's" and inv :: "'s \<Rightarrow> bool" +
  fixes admissible :: "'op \<Rightarrow> bool"
  assumes exec_returns: "inv s \<Longrightarrow> admissible op \<Longrightarrow> \<exists>s'. exec op s = Inr s'"
begin

lemma run_safe:
  "inv s \<Longrightarrow> list_all admissible ops \<Longrightarrow> \<exists>s'. run_result exec ops s = Inr s' \<and> inv s'"
proof (induction ops arbitrary: s)
  case Nil
  then show ?case by simp
next
  case (Cons op ops)
  then have "inv s" and "admissible op" by simp_all
  then obtain s1 where s1: "exec op s = Inr s1" "inv s1"
    using exec_returns exec_keeps by blast
  with Cons.IH [OF s1(2)] Cons.prems show ?case by simp
qed

end

lemma find_distinct_key:
  "distinct (map key xs) \<Longrightarrow> d \<in> set xs \<Longrightarrow> find (\<lambda>x. key x = key d) xs = Some d"
  by (induction xs) auto

text \<open>Association lists with distinct keys.\<close>

lemma map_of_filter_values:
  "distinct (map fst t) \<Longrightarrow> map_of (filter (\<lambda>(a, e). P e) t) a =
     (case map_of t a of None \<Rightarrow> None | Some e \<Rightarrow> if P e then Some e else None)"
  by (induction t) (auto split: option.split dest: map_of_SomeD simp: image_iff, force+)

section \<open>Data refinement\<close>

text \<open>
  A component that implements an abstract machine: in a state with the invariant, an operation whose
  precondition holds in the abstract state returns, keeps the invariant, and takes the abstract state
  to the one the specification gives.  A run whose preconditions hold along the abstract run then
  returns, in a state that abstracts to the end of the abstract run.
\<close>

fun legal_run :: "('a \<Rightarrow> 'op \<Rightarrow> bool) \<Rightarrow> ('op \<Rightarrow> 'a \<Rightarrow> 'a) \<Rightarrow> 'op list \<Rightarrow> 'a \<Rightarrow> bool" where
  "legal_run pre spec [] a \<longleftrightarrow> True"
| "legal_run pre spec (op # ops) a \<longleftrightarrow> pre a op \<and> legal_run pre spec ops (spec op a)"

locale forward_simulation =
  fixes exec :: "'op \<Rightarrow> 's \<Rightarrow> 'e + 's"
    and rel :: "'s \<Rightarrow> 'a \<Rightarrow> bool"
    and pre :: "'a \<Rightarrow> 'op \<Rightarrow> bool"
    and spec :: "'op \<Rightarrow> 'a \<Rightarrow> 'a"
  assumes step: "rel s a \<Longrightarrow> pre a op \<Longrightarrow> \<exists>s'. exec op s = Inr s' \<and> rel s' (spec op a)"
begin

lemma run_step:
  "rel s a \<Longrightarrow> legal_run pre spec ops a \<Longrightarrow> \<exists>s'. run_result exec ops s = Inr s' \<and> rel s' (fold spec ops a)"
proof (induction ops arbitrary: s a)
  case (Cons op ops)
  then obtain s1 where s1: "exec op s = Inr s1" "rel s1 (spec op a)"
    using step [of s a op] by auto
  with Cons.IH [OF s1(2)] Cons.prems show ?case by simp
qed simp

end

text \<open>
  A component that follows its specification as long as it does not stop: a permitted operation either
  returns, and keeps the relation, or stops with an error, and then the state and the operation are of a
  known kind.  A run either returns, or it stops at such a point, up to which it has kept the relation.
\<close>

locale stopping_simulation =
  fixes exec :: "'op \<Rightarrow> 's \<Rightarrow> 'e + 's"
    and rel :: "'s \<Rightarrow> 'a \<Rightarrow> bool"
    and pre :: "'a \<Rightarrow> 'op \<Rightarrow> bool"
    and spec :: "'op \<Rightarrow> 'a \<Rightarrow> 'a"
    and stops :: "'s \<Rightarrow> 'op \<Rightarrow> 'e \<Rightarrow> bool"
  assumes step_or_stop: "rel s a \<Longrightarrow> pre a op \<Longrightarrow>
    (\<exists>s'. exec op s = Inr s' \<and> rel s' (spec op a)) \<or> (\<exists>e. exec op s = Inl e \<and> stops s op e)"
begin

lemma run_or_stop:
  "rel s a \<Longrightarrow> legal_run pre spec ops a \<Longrightarrow>
     (\<exists>s'. run_result exec ops s = Inr s' \<and> rel s' (fold spec ops a))
     \<or> (\<exists>xs op ys s' e. ops = xs @ op # ys \<and> run_result exec xs s = Inr s' \<and> rel s' (fold spec xs a)
          \<and> stops s' op e \<and> run_result exec ops s = Inl e)"
proof (induction ops arbitrary: s a)
  case (Cons op ops)
  then have legal: "pre a op" "legal_run pre spec ops (spec op a)" by simp_all
  from step_or_stop [OF Cons.prems(1) legal(1)] show ?case
  proof (elim disjE exE conjE)
    fix e assume "exec op s = Inl e" "stops s op e"
    then have "op # ops = [] @ op # ops \<and> run_result exec [] s = Inr s \<and> rel s (fold spec [] a)
      \<and> stops s op e \<and> run_result exec (op # ops) s = Inl e" using Cons.prems(1) by simp
    then show ?thesis by blast
  next
    fix s1 assume s1: "exec op s = Inr s1" "rel s1 (spec op a)"
    from Cons.IH [OF s1(2) legal(2)] show ?thesis
    proof (elim disjE exE conjE)
      fix xs op' ys s' e
      assume "ops = xs @ op' # ys" "run_result exec xs s1 = Inr s'" "rel s' (fold spec xs (spec op a))"
        "stops s' op' e" "run_result exec ops s1 = Inl e"
      then have "op # ops = (op # xs) @ op' # ys \<and> run_result exec (op # xs) s = Inr s'
        \<and> rel s' (fold spec (op # xs) a) \<and> stops s' op' e \<and> run_result exec (op # ops) s = Inl e" using s1(1) by simp
      then show ?thesis by blast
    qed (use s1(1) in simp)
  qed
qed simp

lemma run_kept: "rel s a \<Longrightarrow> legal_run pre spec ops a \<Longrightarrow> run_result exec ops s = Inr s' \<Longrightarrow> rel s' (fold spec ops a)"
  using run_or_stop [of s a ops] by auto

end

sublocale forward_simulation \<subseteq> never_stops: stopping_simulation exec rel pre spec "\<lambda>s op e. False"
  by unfold_locales (use step in blast)

text \<open>The case of an abstraction function.\<close>

locale data_refinement =
  fixes exec :: "'op \<Rightarrow> 's \<Rightarrow> 'e + 's"
    and inv :: "'s \<Rightarrow> bool"
    and abstract :: "'s \<Rightarrow> 'a"
    and pre :: "'a \<Rightarrow> 'op \<Rightarrow> bool"
    and spec :: "'op \<Rightarrow> 'a \<Rightarrow> 'a"
  assumes simulates:
    "inv s \<Longrightarrow> pre (abstract s) op \<Longrightarrow> \<exists>s'. exec op s = Inr s' \<and> inv s' \<and> abstract s' = spec op (abstract s)"

sublocale data_refinement \<subseteq> sim: forward_simulation exec "\<lambda>s a. inv s \<and> abstract s = a" pre spec
  by unfold_locales (use simulates in blast)

context data_refinement begin

lemma run_simulates:
  "inv s \<Longrightarrow> legal_run pre spec ops (abstract s) \<Longrightarrow>
   \<exists>s'. run_result exec ops s = Inr s' \<and> inv s' \<and> abstract s' = fold spec ops (abstract s)"
  using sim.run_step [of s "abstract s" ops] by simp

end

section \<open>Computations that return\<close>

text \<open>\<open>returns P r\<close>: the result \<open>r\<close> is not an error, and its value satisfies \<open>P\<close>.\<close>

definition returns :: "('a \<Rightarrow> bool) \<Rightarrow> 'e + 'a \<Rightarrow> bool" where
  "returns P r \<longleftrightarrow> (\<exists>a. r = Inr a \<and> P a)"

lemma returns_simps [simp]:
  "returns P (Inr a) \<longleftrightarrow> P a"
  "\<not> returns P (Inl e)"
  by (simp_all add: returns_def)

lemma returns_bind: "returns P r \<Longrightarrow> (\<And>a. P a \<Longrightarrow> returns Q (f a)) \<Longrightarrow> returns Q (bind_result r f)"
  by (auto simp: returns_def)

lemma returns_mono: "returns P r \<Longrightarrow> (\<And>a. P a \<Longrightarrow> Q a) \<Longrightarrow> returns Q r"
  by (auto simp: returns_def)

lemma returns_run:
  "P s \<Longrightarrow> (\<And>op s. op \<in> set ops \<Longrightarrow> P s \<Longrightarrow> returns P (exec op s)) \<Longrightarrow> returns P (run_result exec ops s)"
  by (induction ops arbitrary: s) (auto intro!: returns_bind [where P = P])

lemma returns_D: "returns P r \<Longrightarrow> \<exists>a. r = Inr a \<and> P a"
  by (simp add: returns_def)

text \<open>\<open>yields Q r\<close>: the value of the result \<open>r\<close> satisfies \<open>Q\<close>, if it is not an error.\<close>

definition yields :: "('a \<Rightarrow> bool) \<Rightarrow> 'e + 'a \<Rightarrow> bool" where
  "yields Q r \<longleftrightarrow> (case r of Inl _ \<Rightarrow> True | Inr x \<Rightarrow> Q x)"

lemma yields_simps [simp]: "yields Q (Inr x) = Q x" "yields Q (Inl e)"
  by (simp_all add: yields_def)

lemma yields_bind: "yields Q r \<Longrightarrow> (\<And>x. Q x \<Longrightarrow> yields R (f x)) \<Longrightarrow> yields R (bind_result r f)"
  by (cases r) simp_all

lemma yields_bind_any: "(\<And>x. yields R (f x)) \<Longrightarrow> yields R (bind_result r f)"
  by (cases r) simp_all

lemma yields_iff: "yields Q r \<longleftrightarrow> (\<forall>x. r = Inr x \<longrightarrow> Q x)"
  by (cases r) simp_all

lemma yieldsD: "yields Q r \<Longrightarrow> r = Inr x \<Longrightarrow> Q x"
  by simp

lemma yields_run: "Q s \<Longrightarrow> (\<And>op s. Q s \<Longrightarrow> yields Q (exec op s)) \<Longrightarrow> yields Q (run_result exec ops s)"
  by (induction ops arbitrary: s) (auto intro!: yields_bind [where Q = Q])

lemma legal_run_True: "legal_run (\<lambda>s op. True) spec ops s"
  by (induction ops arbitrary: s) simp_all

lemma run_result_total: "run_result (\<lambda>op s. Inr (f op s)) ops s = Inr (fold f ops s)"
  by (induction ops arbitrary: s) simp_all

lemma run_result_append: "run_result exec (xs @ ys) s = bind_result (run_result exec xs s) (run_result exec ys)"
proof (induction xs arbitrary: s)
  case (Cons x xs)
  then show ?case by (cases "exec x s") simp_all
qed simp

lemma returns_run_snoc:
  "run_result exec ops s = Inr s' \<Longrightarrow> returns P (exec op s') \<Longrightarrow> returns P (run_result exec (ops @ [op]) s)"
  by (auto simp: run_result_append returns_def)

end
