(* ===== verification/MacAddresses.thy ===== *)
theory MacAddresses
  imports NdnPrelude
begin

text \<open>
  IEEE 802 MAC addresses, \<^verbatim>\<open>inet/linklayer/common/MACAddress.{h,cc}\<close>.  The class holds a 64-bit
  word of which the low 48 bits are used; \<open>mac_wf\<close> says the top 16 bits are zero.  The
  operations are those of the class: byte access, parsing from and printing to hexadecimal
  text, comparison, multicast and auto addresses.  The last section proves that printing and
  parsing are inverse, and that parsing accepts exactly twelve hexadecimal digits.
\<close>

unbundle bit_operations_syntax

section \<open>The class\<close>

datatype MACAddress = MACAddress (address: "64 word")

definition MAC_ADDRESS_SIZE :: nat where
  "MAC_ADDRESS_SIZE = 6"

definition MAC_ADDRESS_MASK :: "64 word" where
  "MAC_ADDRESS_MASK = 0xffffffffffff"

text \<open>The constructor from a 64-bit integer keeps its low 48 bits.\<close>

definition MACAddress_of_bits :: "64 word \<Rightarrow> MACAddress" where
  "MACAddress_of_bits bits = MACAddress (bits AND MAC_ADDRESS_MASK)"

definition mac_wf :: "MACAddress \<Rightarrow> bool" where
  "mac_wf a \<longleftrightarrow> address a AND MAC_ADDRESS_MASK = address a"

definition byte_offset :: "nat \<Rightarrow> nat" where
  "byte_offset k = (MAC_ADDRESS_SIZE - k - 1) * 8"

definition get_byte :: "MACAddress \<Rightarrow> nat \<Rightarrow> 8 word" where
  "get_byte a k = ucast (0xff AND drop_bit (byte_offset k) (address a))"

definition getAddressByte :: "MACAddress \<Rightarrow> nat \<Rightarrow> sim_error + 8 word" where
  "getAddressByte a k =
     (if k \<ge> MAC_ADDRESS_SIZE then Inl (RuntimeError ''Array of size 6 indexed'')
      else Inr (get_byte a k))"

definition put_byte :: "nat \<Rightarrow> 8 word \<Rightarrow> MACAddress \<Rightarrow> MACAddress" where
  "put_byte k v a =
     MACAddress ((address a AND NOT (push_bit (byte_offset k) 0xff))
                 OR push_bit (byte_offset k) (ucast v))"

definition setAddressByte :: "nat \<Rightarrow> 8 word \<Rightarrow> MACAddress \<Rightarrow> sim_error + MACAddress" where
  "setAddressByte k v a =
     (if k \<ge> MAC_ADDRESS_SIZE then Inl (RuntimeError ''Array of size 6 indexed'')
      else Inr (put_byte k v a))"

definition getAddressBytes :: "MACAddress \<Rightarrow> 8 word list" where
  "getAddressBytes a = map (get_byte a) [0..<MAC_ADDRESS_SIZE]"

definition setAddressBytes :: "8 word list \<Rightarrow> MACAddress" where
  "setAddressBytes bs =
     fold (\<lambda>i a. put_byte i (bs ! i) a) [0..<MAC_ADDRESS_SIZE] (MACAddress 0)"

definition UNSPECIFIED_ADDRESS :: MACAddress where
  "UNSPECIFIED_ADDRESS = MACAddress 0"

definition setBroadcast :: MACAddress where
  "setBroadcast = MACAddress MAC_ADDRESS_MASK"

definition isBroadcast :: "MACAddress \<Rightarrow> bool" where
  "isBroadcast a \<longleftrightarrow> address a = MAC_ADDRESS_MASK"

definition isMulticast :: "MACAddress \<Rightarrow> bool" where
  "isMulticast a \<longleftrightarrow> get_byte a 0 AND 1 \<noteq> 0"

definition isUnspecified :: "MACAddress \<Rightarrow> bool" where
  "isUnspecified a \<longleftrightarrow> address a = 0"

definition compareTo :: "MACAddress \<Rightarrow> MACAddress \<Rightarrow> int" where
  "compareTo a b = (if address a < address b then -1 else if address a = address b then 0 else 1)"

text \<open>
  The comparison operators \<^verbatim>\<open><\<close> and \<^verbatim>\<open>>\<close> of the class order addresses by their integer, a
  linear order.
\<close>

definition mac_less :: "MACAddress \<Rightarrow> MACAddress \<Rightarrow> bool" where
  "mac_less a b \<longleftrightarrow> address a < address b"

instantiation MACAddress :: linorder
begin

definition less_eq_MACAddress :: "MACAddress \<Rightarrow> MACAddress \<Rightarrow> bool" where
  "less_eq_MACAddress a b \<longleftrightarrow> address a \<le> address b"

definition less_MACAddress :: "MACAddress \<Rightarrow> MACAddress \<Rightarrow> bool" where
  "less_MACAddress = mac_less"

instance
proof
  fix a b c :: MACAddress
  show "a < b \<longleftrightarrow> a \<le> b \<and> \<not> b \<le> a"
    by (auto simp: less_eq_MACAddress_def less_MACAddress_def mac_less_def)
  show "a \<le> a" by (simp add: less_eq_MACAddress_def)
  show "a \<le> b \<Longrightarrow> b \<le> c \<Longrightarrow> a \<le> c" by (simp add: less_eq_MACAddress_def)
  show "a \<le> b \<Longrightarrow> b \<le> a \<Longrightarrow> a = b"
    by (simp add: less_eq_MACAddress_def MACAddress.expand)
  show "a \<le> b \<or> b \<le> a" by (auto simp: less_eq_MACAddress_def)
qed

end

section \<open>Parsing and printing\<close>

text \<open>\<^verbatim>\<open>isxdigit\<close>, \<^verbatim>\<open>isdigit\<close> and \<^verbatim>\<open>islower\<close> of the C library, on ASCII.\<close>

definition isdigit :: "char \<Rightarrow> bool" where
  "isdigit c \<longleftrightarrow> 48 \<le> (of_char c :: nat) \<and> (of_char c :: nat) \<le> 57"

definition islower :: "char \<Rightarrow> bool" where
  "islower c \<longleftrightarrow> 97 \<le> (of_char c :: nat) \<and> (of_char c :: nat) \<le> 122"

definition isxdigit :: "char \<Rightarrow> bool" where
  "isxdigit c \<longleftrightarrow> isdigit c \<or> (97 \<le> (of_char c :: nat) \<and> (of_char c :: nat) \<le> 102)
     \<or> (65 \<le> (of_char c :: nat) \<and> (of_char c :: nat) \<le> 70)"

definition hex_value :: "char \<Rightarrow> 8 word" where
  "hex_value c =
     (if isdigit c then of_nat (of_char c - 48)
      else if islower c then of_nat (of_char c - 97 + 10)
      else of_nat (of_char c - 65 + 10))"

text \<open>The syntax check: the number of hexadecimal digits, or \<open>None\<close> for a foreign character.\<close>

fun count_hex_digits :: "string \<Rightarrow> nat \<Rightarrow> nat option" where
  "count_hex_digits [] n = Some n"
| "count_hex_digits (c # s) n =
     (if isxdigit c then count_hex_digits s (n + 1)
      else if c \<noteq> CHR '' '' \<and> c \<noteq> CHR '':'' \<and> c \<noteq> CHR ''-'' then None
      else count_hex_digits s n)"

definition skip_to_digit :: "string \<Rightarrow> string" where
  "skip_to_digit s = dropWhile (\<lambda>c. \<not> isxdigit c) s"

text \<open>One pass of the conversion loop: the rest of the text and the address so far.\<close>

definition parse_byte :: "nat \<Rightarrow> string \<times> MACAddress \<Rightarrow> string \<times> MACAddress" where
  "parse_byte pos = (\<lambda>(s, a).
     if s = [] then (s, put_byte pos 0 a)
     else let s1 = skip_to_digit s in
       if s1 = [] then (s1, put_byte pos 0 a)
       else let d = push_bit 4 (hex_value (hd s1)); s2 = skip_to_digit (tl s1) in
         if s2 = [] then (s2, put_byte pos 0 a)
         else (tl s2, put_byte pos (d + hex_value (hd s2)) a))"

text \<open>
  \<open>tryParse\<close> returns the success flag and the new value of the object; the argument is
  \<open>None\<close> for a null pointer.
\<close>

definition tryParse :: "string option \<Rightarrow> MACAddress \<Rightarrow> bool \<times> MACAddress" where
  "tryParse hexstr a =
     (case hexstr of None \<Rightarrow> (False, a)
      | Some s \<Rightarrow>
        (case count_hex_digits s 0 of None \<Rightarrow> (False, a)
         | Some n \<Rightarrow>
            if n \<noteq> 2 * MAC_ADDRESS_SIZE then (False, a)
            else (True, snd (fold parse_byte [0..<MAC_ADDRESS_SIZE] (s, MACAddress 0)))))"

definition setAddress :: "string option \<Rightarrow> MACAddress \<Rightarrow> sim_error + MACAddress" where
  "setAddress hexstr a =
     (let (ok, a') = tryParse hexstr a in
      if \<not> ok then Inl (RuntimeError ''MACAddress: wrong address syntax'') else Inr a')"

text \<open>The constructor \<^verbatim>\<open>MACAddress(const char *)\<close>.\<close>

definition MACAddress_of_string :: "string \<Rightarrow> sim_error + MACAddress" where
  "MACAddress_of_string s = setAddress (Some s) (MACAddress 0)"

definition hex_char :: "nat \<Rightarrow> char" where
  "hex_char n = (if n < 10 then char_of (48 + n) else char_of (65 + (n - 10)))"

text \<open>\<^verbatim>\<open>sprintf("%2.2X-", b)\<close>: two upper-case digits and a hyphen.\<close>

definition sprintf_byte :: "8 word \<Rightarrow> string" where
  "sprintf_byte b = [hex_char (unat b div 16), hex_char (unat b mod 16), CHR ''-'']"

definition mac_str :: "MACAddress \<Rightarrow> string" where
  "mac_str a = butlast (concat (map (\<lambda>i. sprintf_byte (get_byte a i)) [0..<MAC_ADDRESS_SIZE]))"

definition BROADCAST_ADDRESS :: MACAddress where
  "BROADCAST_ADDRESS = snd (tryParse (Some ''ff:ff:ff:ff:ff:ff'') (MACAddress 0))"

section \<open>Auto addresses and multicast addresses\<close>

text \<open>The static counter \<^verbatim>\<open>autoAddressCtr\<close> is a 32-bit unsigned integer.\<close>

definition generateAutoAddress :: "32 word \<Rightarrow> MACAddress \<times> 32 word" where
  "generateAutoAddress ctr =
     (let ctr' = ctr + 1 in
      (MACAddress_of_bits (0x0AAA00000000 + (ucast ctr' AND 0xffffffff)), ctr'))"

text \<open>
  An IPv4 multicast address, as its four bytes, most significant first; the code asserts
  that it is one (class D).
\<close>

definition makeMulticastAddress :: "8 word list \<Rightarrow> sim_error + MACAddress" where
  "makeMulticastAddress ip =
     (if ip ! 0 AND 0xf0 \<noteq> 0xe0 then Inl (AssertionFailed ''addr.isMulticast()'')
      else Inr (put_byte 5 (ip ! 3) (put_byte 4 (ip ! 2) (put_byte 3 (ip ! 1 AND 0x7f)
             (put_byte 2 0x5e (put_byte 1 0x00 (put_byte 0 0x01 (MACAddress 0))))))))"

section \<open>Bytes of an address\<close>

lemma bit_mask48: "bit (MAC_ADDRESS_MASK) n \<longleftrightarrow> n < 48"
proof -
  have "MAC_ADDRESS_MASK = mask 48" by (simp add: MAC_ADDRESS_MASK_def mask_eq_exp_minus_1)
  then have "bit MAC_ADDRESS_MASK n = bit (mask 48 :: 64 word) n" by (simp only:)
  then show ?thesis unfolding bit_mask_iff by auto
qed

lemma bit_ff64: "bit (255 :: 64 word) n \<longleftrightarrow> n < 8"
proof -
  have "(0xff :: 64 word) = mask 8" by (simp add: mask_eq_exp_minus_1)
  then have "bit (0xff :: 64 word) n = bit (mask 8 :: 64 word) n" by (simp only:)
  then show ?thesis unfolding bit_mask_iff by auto
qed

lemma bit_ff_int: "bit (255 :: int) n \<longleftrightarrow> n < 8"
proof -
  have "(255 :: int) = mask 8" by (simp add: mask_eq_exp_minus_1)
  then have "bit (255 :: int) n = bit (mask 8 :: int) n" by (simp only:)
  then show ?thesis unfolding bit_mask_iff by auto
qed

lemma bit_ff_nat: "bit (255 :: nat) n \<longleftrightarrow> n < 8"
proof -
  have "(255 :: nat) = mask 8" by (simp add: mask_eq_exp_minus_1)
  then have "bit (255 :: nat) n = bit (mask 8 :: nat) n" by (simp only:)
  then show ?thesis unfolding bit_mask_iff by auto
qed

lemma bit_put_byte:
  assumes "k < 6" "n < 64"
  shows "bit (address (put_byte k v a)) n \<longleftrightarrow>
    (if byte_offset k \<le> n \<and> n < byte_offset k + 8 then bit v (n - byte_offset k)
     else bit (address a) n)"
proof -
  have k: "byte_offset k + 8 \<le> 64" using assms(1) by (simp add: byte_offset_def MAC_ADDRESS_SIZE_def)
  have "\<not> bit v (n - byte_offset k)" if "\<not> n < byte_offset k + 8"
  proof -
    from that have "8 \<le> n - byte_offset k" by arith
    then show ?thesis by (auto dest: bit_imp_le_length)
  qed
  with assms k show ?thesis
    by (auto simp: put_byte_def bit_simps bit_ff64 bit_ff_int bit_ff_nat)
qed

lemma bit_get_byte: "k < 6 \<Longrightarrow> bit (get_byte a k) n \<longleftrightarrow> n < 8 \<and> bit (address a) (byte_offset k + n)"
  by (auto simp: get_byte_def bit_simps bit_ff64 bit_ff_int bit_ff_nat)

lemma mac_wf_iff: "mac_wf a \<longleftrightarrow> (\<forall>n. 48 \<le> n \<longrightarrow> \<not> bit (address a) n)"
proof
  assume "mac_wf a"
  then have "bit (address a AND MAC_ADDRESS_MASK) n = bit (address a) n" for n
    by (simp add: mac_wf_def)
  then show "\<forall>n. 48 \<le> n \<longrightarrow> \<not> bit (address a) n"
    unfolding bit_and_iff bit_mask48 by (meson not_less)
next
  assume "\<forall>n. 48 \<le> n \<longrightarrow> \<not> bit (address a) n"
  then show "mac_wf a"
    unfolding mac_wf_def bit_eq_iff bit_and_iff bit_mask48 by (meson not_less)
qed


lemma byte_offset_cases:
  assumes "j < 6" "k < 6" "n < 8"
  shows "byte_offset k \<le> byte_offset j + n \<and> byte_offset j + n < byte_offset k + 8 \<longleftrightarrow> j = k"
  using assms by (auto simp: byte_offset_def MAC_ADDRESS_SIZE_def)

lemma get_put_byte:
  assumes "j < 6" "k < 6"
  shows "get_byte (put_byte k v a) j = (if j = k then v else get_byte a j)"
proof (rule bit_word_eqI)
  fix n assume "n < LENGTH(8)"
  then have n: "n < 8" by simp
  then have "byte_offset j + n < 64"
    using assms(1) by (auto simp: byte_offset_def MAC_ADDRESS_SIZE_def)
  with n assms byte_offset_cases [OF assms n]
  show "bit (get_byte (put_byte k v a) j) n = bit (if j = k then v else get_byte a j) n"
    by (auto simp: bit_get_byte bit_put_byte)
qed

lemma mac_wf_put_byte:
  assumes "k < 6" "mac_wf a"
  shows "mac_wf (put_byte k v a)"
proof -
  have "\<not> bit (address (put_byte k v a)) n" if n: "48 \<le> n" for n
  proof (cases "n < 64")
    case True
    have "byte_offset k + 8 \<le> 48"
      using assms(1) by (simp add: byte_offset_def MAC_ADDRESS_SIZE_def)
    with True n assms show ?thesis by (simp add: bit_put_byte mac_wf_iff)
  next
    case False
    then show ?thesis by (auto dest: bit_imp_le_length)
  qed
  then show ?thesis by (simp add: mac_wf_iff)
qed

lemma mac_eqI:
  assumes "mac_wf a" "mac_wf b" "\<And>k. k < 6 \<Longrightarrow> get_byte a k = get_byte b k"
  shows "a = b"
proof -
  have "bit (address a) n = bit (address b) n" for n
  proof (cases "n < 48")
    case True
    define k where "k = 5 - n div 8"
    have k: "k < 6" "byte_offset k + n mod 8 = n"
      using True by (auto simp: k_def byte_offset_def MAC_ADDRESS_SIZE_def)
    have "bit (get_byte a k) (n mod 8) = bit (get_byte b k) (n mod 8)"
      using assms(3) [OF k(1)] by simp
    with k show ?thesis by (simp add: bit_get_byte)
  next
    case False
    with assms(1,2) show ?thesis by (simp add: mac_wf_iff)
  qed
  then have "address a = address b" by (simp add: bit_eq_iff)
  then show ?thesis by (rule MACAddress.expand)
qed

lemma get_byte_fold_put:
  "j < 6 \<Longrightarrow> set ks \<subseteq> {..<6} \<Longrightarrow>
   get_byte (fold (\<lambda>i. put_byte i (f i)) ks a) j = (if j \<in> set ks then f j else get_byte a j)"
  by (induction ks arbitrary: a) (auto simp: get_put_byte)

lemma mac_wf_fold_put:
  "mac_wf a \<Longrightarrow> set ks \<subseteq> {..<6} \<Longrightarrow> mac_wf (fold (\<lambda>i. put_byte i (f i)) ks a)"
  by (induction ks arbitrary: a) (auto simp: mac_wf_put_byte)

lemma mac_wf_zero [simp]: "mac_wf (MACAddress 0)"
  by (simp add: mac_wf_def)

lemma mac_wf_of_bits: "mac_wf (MACAddress_of_bits w)"
  by (simp add: mac_wf_def MACAddress_of_bits_def and.assoc)

lemma upto_6: "[0..<MAC_ADDRESS_SIZE] = [0, 1, 2, 3, 4, 5]"
  by (simp add: MAC_ADDRESS_SIZE_def upt_rec)

lemma set_upto_6: "set [0..<MAC_ADDRESS_SIZE] = {..<6}"
  by (auto simp: MAC_ADDRESS_SIZE_def)

lemma get_byte_setAddressBytes: "k < 6 \<Longrightarrow> get_byte (setAddressBytes bs) k = bs ! k"
  unfolding setAddressBytes_def using get_byte_fold_put [of k "[0..<MAC_ADDRESS_SIZE]"]
  by (simp only: set_upto_6) simp

lemma mac_wf_setAddressBytes: "mac_wf (setAddressBytes bs)"
  unfolding setAddressBytes_def by (rule mac_wf_fold_put) (simp_all only: set_upto_6 mac_wf_zero subset_refl)

lemma filter_ConsD:
  "filter P s = x # xs \<Longrightarrow> \<exists>t. dropWhile (\<lambda>c. \<not> P c) s = x # t \<and> filter P t = xs"
  by (induction s) (auto split: if_splits)

fun hex_pairs :: "string \<Rightarrow> 8 word list" where
  "hex_pairs (h # l # ds) = (push_bit 4 (hex_value h) + hex_value l) # hex_pairs ds"
| "hex_pairs ds = []"

lemma parse_byte_digits:
  assumes "filter isxdigit s = h # l # ds"
  shows "\<exists>s'. parse_byte pos (s, a) = (s', put_byte pos (push_bit 4 (hex_value h) + hex_value l) a)
           \<and> filter isxdigit s' = ds"
proof -
  obtain t where t: "skip_to_digit s = h # t" "filter isxdigit t = l # ds"
    using filter_ConsD [OF assms] by (auto simp: skip_to_digit_def)
  obtain u where u: "skip_to_digit t = l # u" "filter isxdigit u = ds"
    using filter_ConsD [OF t(2)] by (auto simp: skip_to_digit_def)
  from assms have "s \<noteq> []" by auto
  with t u show ?thesis by (simp add: parse_byte_def Let_def)
qed

lemma fold_parse_byte:
  "length (filter isxdigit s) = 2 * n \<Longrightarrow>
   snd (fold parse_byte [i..<i + n] (s, a))
     = fold (\<lambda>k. put_byte k (hex_pairs (filter isxdigit s) ! (k - i))) [i..<i + n] a"
proof (induction n arbitrary: i s a)
  case 0
  then show ?case by simp
next
  case (Suc n)
  then obtain h l ds where ds: "filter isxdigit s = h # l # ds" "length ds = 2 * n"
    by (auto simp: length_Suc_conv)
  obtain s' where s': "parse_byte i (s, a) = (s', put_byte i (push_bit 4 (hex_value h) + hex_value l) a)"
    "filter isxdigit s' = ds"
    using parse_byte_digits [OF ds(1)] by blast
  have upt: "[i..<i + Suc n] = i # [Suc i..<Suc i + n]" by (simp add: upt_rec)
  have "fold (\<lambda>k. put_byte k (hex_pairs ds ! (k - Suc i))) [Suc i..<Suc i + n] b
      = fold (\<lambda>k. put_byte k (hex_pairs (h # l # ds) ! (k - i))) [Suc i..<Suc i + n] b" for b
    by (rule fold_cong) (auto simp: Suc_diff_le Suc_le_eq nth_Cons')
  with s' ds Suc.IH [of s' "Suc i"] show ?case by (simp only: upt ds fold_simps) simp
qed

definition separator :: "char \<Rightarrow> bool" where
  "separator c \<longleftrightarrow> c = CHR '' '' \<or> c = CHR '':'' \<or> c = CHR ''-''"

lemma count_hex_digits_eq:
  "count_hex_digits s n =
     (if \<forall>c \<in> set s. isxdigit c \<or> separator c then Some (n + length (filter isxdigit s)) else None)"
  by (induction s n rule: count_hex_digits.induct) (auto simp: separator_def)

lemma unat_8_nibbles: "push_bit 4 (of_nat (unat b div 16)) + of_nat (unat b mod 16) = (b :: 8 word)"
proof -
  have "(of_nat (unat b) :: 8 word) = of_nat (unat b div 16 * 16 + unat b mod 16)"
    by (simp only: div_mult_mod_eq)
  also have "\<dots> = of_nat (unat b div 16) * 16 + of_nat (unat b mod 16)"
    by (simp only: of_nat_add of_nat_mult of_nat_numeral)
  finally show ?thesis by (simp add: push_bit_eq_mult)
qed

lemma hex_char_digit:
  assumes "n < 16"
  shows "isxdigit (hex_char n)" and "hex_value (hex_char n) = of_nat n"
proof -
  from assms have "n \<in> {0, 1, 2, 3, 4, 5, 6, 7, 8, 9, 10, 11, 12, 13, 14, 15}"
    by (simp add: insert_iff) presburger
  then show "isxdigit (hex_char n)" and "hex_value (hex_char n) = of_nat n"
    by (auto simp: hex_char_def isxdigit_def isdigit_def islower_def hex_value_def)
qed

lemma not_isxdigit_hyphen: "\<not> isxdigit (CHR ''-'')"
  by (simp add: isxdigit_def isdigit_def)

lemma filter_sprintf_byte:
  "filter isxdigit (sprintf_byte b) = [hex_char (unat b div 16), hex_char (unat b mod 16)]"
proof -
  have "unat b < 256" using unsigned_less [of b] by simp
  then have "unat b div 16 < 16" by simp
  then show ?thesis by (simp add: sprintf_byte_def hex_char_digit not_isxdigit_hyphen)
qed

lemma hex_pairs_sprintf_byte:
  "hex_pairs (filter isxdigit (sprintf_byte b) @ ds) = b # hex_pairs ds"
proof -
  have "unat b < 256" using unsigned_less [of b] by simp
  then have "unat b div 16 < 16" by simp
  then show ?thesis by (simp add: filter_sprintf_byte hex_char_digit unat_8_nibbles)
qed

lemma hex_pairs_sprintf_bytes:
  "hex_pairs (filter isxdigit (concat (map sprintf_byte bs))) = bs"
  by (induction bs) (simp_all add: hex_pairs_sprintf_byte)

lemma length_filter_sprintf_bytes:
  "length (filter isxdigit (concat (map sprintf_byte bs))) = 2 * length bs"
  by (induction bs) (simp_all add: filter_sprintf_byte)

lemma sprintf_byte_chars: "c \<in> set (sprintf_byte b) \<Longrightarrow> isxdigit c \<or> separator c"
proof -
  have "unat b < 256" using unsigned_less [of b] by simp
  then have "unat b div 16 < 16" by simp
  then show "c \<in> set (sprintf_byte b) \<Longrightarrow> isxdigit c \<or> separator c"
    by (auto simp: sprintf_byte_def hex_char_digit separator_def)
qed

lemma mac_str_eq: "mac_str a = butlast (concat (map sprintf_byte (getAddressBytes a)))"
  by (simp add: mac_str_def getAddressBytes_def comp_def)

lemma mac_str_snoc: "concat (map sprintf_byte (getAddressBytes a)) = mac_str a @ ''-''"
  by (simp add: mac_str_def getAddressBytes_def upto_6 sprintf_byte_def)

lemma filter_mac_str:
  "filter isxdigit (mac_str a) = filter isxdigit (concat (map sprintf_byte (getAddressBytes a)))"
  by (simp add: mac_str_snoc not_isxdigit_hyphen)

lemma setAddressBytes_getAddressBytes: "mac_wf a \<Longrightarrow> setAddressBytes (getAddressBytes a) = a"
proof (rule mac_eqI)
  fix k :: nat assume "k < 6"
  then show "get_byte (setAddressBytes (getAddressBytes a)) k = get_byte a k"
    by (simp add: get_byte_setAddressBytes getAddressBytes_def MAC_ADDRESS_SIZE_def)
qed (simp_all add: mac_wf_setAddressBytes)

lemma tryParse_eq:
  "tryParse (Some s) a =
     (if list_all (\<lambda>c. isxdigit c \<or> separator c) s \<and> length (filter isxdigit s) = 12
      then (True, setAddressBytes (hex_pairs (filter isxdigit s)))
      else (False, a))"
  using fold_parse_byte [of s 6 0 "MACAddress 0"]
  by (auto simp: tryParse_def count_hex_digits_eq setAddressBytes_def MAC_ADDRESS_SIZE_def list_all_iff)

lemma tryParse_mac_str: "mac_wf a \<Longrightarrow> tryParse (Some (mac_str a)) b = (True, a)"
proof -
  assume wf: "mac_wf a"
  have "length (getAddressBytes a) = 6" by (simp add: getAddressBytes_def MAC_ADDRESS_SIZE_def)
  then have len: "length (filter isxdigit (mac_str a)) = 2 * 6"
    by (simp only: filter_mac_str length_filter_sprintf_bytes)
  have "set (mac_str a) \<subseteq> set (concat (map sprintf_byte (getAddressBytes a)))"
    by (auto simp: mac_str_snoc)
  then have chars: "\<forall>c \<in> set (mac_str a). isxdigit c \<or> separator c"
    using sprintf_byte_chars by fastforce
  have "hex_pairs (filter isxdigit (mac_str a)) = getAddressBytes a"
    by (simp only: filter_mac_str hex_pairs_sprintf_bytes)
  with wf len chars show ?thesis
    by (simp add: tryParse_eq list_all_iff setAddressBytes_getAddressBytes)
qed

section \<open>Properties\<close>

text \<open>
  \<^verbatim>\<open>tryParse\<close> accepts a string exactly when it holds hexadecimal digits, spaces, colons and
  hyphens only and has twelve digits; wherever the separators stand, the address is then the
  six bytes read from the digits in pairs.  A rejected string leaves the object unchanged.
\<close>

theorem tryParse_spec:
  "tryParse (Some s) a =
     (if list_all (\<lambda>c. isxdigit c \<or> separator c) s \<and> length (filter isxdigit s) = 12
      then (True, setAddressBytes (hex_pairs (filter isxdigit s)))
      else (False, a))"
  by (rule tryParse_eq)

text \<open>
  Printing an address with \<^verbatim>\<open>str()\<close> and constructing a \<^verbatim>\<open>MACAddress\<close> from the text gives the
  address back, for every 48-bit address.
\<close>

theorem mac_str_roundtrip: "mac_wf a \<Longrightarrow> MACAddress_of_string (mac_str a) = Inr a"
  by (simp add: MACAddress_of_string_def setAddress_def tryParse_mac_str)

theorem mac_str_roundtrip_witness:
  "mac_wf (MACAddress 0x0AAA00000001) \<and>
   MACAddress_of_string (mac_str (MACAddress 0x0AAA00000001)) = Inr (MACAddress 0x0AAA00000001)"
proof -
  have "mac_wf (MACAddress 0x0AAA00000001)" by (simp add: mac_wf_def MAC_ADDRESS_MASK_def)
  with mac_str_roundtrip show ?thesis by blast
qed

text \<open>
  The byte operations agree: setting one byte changes exactly that byte (and an index of 6
  or more raises), every operation keeps the top 16 bits zero, and copying the bytes out and
  back is the identity.
\<close>

theorem mac_bytes:
  "setAddressByte k v a = Inr a' \<Longrightarrow> mac_wf a \<Longrightarrow>
     mac_wf a' \<and> getAddressByte a' k = Inr v
     \<and> (\<forall>j. j \<noteq> k \<longrightarrow> getAddressByte a' j = getAddressByte a j)
     \<and> setAddressBytes (getAddressBytes a') = a'"
  by (auto simp: setAddressByte_def getAddressByte_def MAC_ADDRESS_SIZE_def get_put_byte
      mac_wf_put_byte setAddressBytes_getAddressBytes split: if_splits)

theorem mac_bytes_witness:
  "\<exists>a'. setAddressByte 2 0x5e (MACAddress 0) = Inr a' \<and> getAddressByte a' 2 = Inr 0x5e"
proof -
  have "setAddressByte 2 0x5e (MACAddress 0) = Inr (put_byte 2 0x5e (MACAddress 0))"
    by (simp add: setAddressByte_def MAC_ADDRESS_SIZE_def)
  with mac_bytes [OF this mac_wf_zero] show ?thesis by blast
qed

end
