(* ===== verification/NdnPackets.thy ===== *)
theory NdnPackets
  imports MacAddresses
begin

text \<open>
  The NDN packets of \<^verbatim>\<open>inet/networklayer/ndn/packets/NdnPackets.msg\<close>: the message class
  \<^verbatim>\<open>NdnPacket\<close> with its two subclasses \<^verbatim>\<open>Interest\<close> and \<^verbatim>\<open>Data\<close>, as records that extend one
  another, and the sum \<open>packet\<close> of the dynamic classes a pointer to an \<^verbatim>\<open>NdnPacket\<close> can have.
  The attributes every simulator message has and the code uses (name, kind, arrival gate,
  control info, byte length) are fields of the base record.
\<close>

text \<open>\<^verbatim>\<open>Ieee802Ctrl\<close>, the control information exchanged with the link layer.\<close>

record ieee802ctrl =
  ctrl_src :: MACAddress
  ctrl_dest :: MACAddress

record ndn_packet =
  pk_name :: string
  pk_kind :: int
  pk_arrivalGate :: gate
  pk_controlInfo :: "ieee802ctrl option"
  pk_byteLength :: nat
  pk_type :: int
  pk_hopCount :: int
  pk_seqNo :: int
  pk_prefixLength :: int
  pk_flood :: bool

record interest = ndn_packet +
  canBePrefix :: bool
  mustBeFresh :: bool
  forwardingHint :: "8 word list"
  nonce :: "8 word list"
  interestLifetimeMs :: "32 word"
  hopLimit :: "32 word"
  parameters :: "8 word list"

record data_packet = ndn_packet +
  contentType :: "32 word"
  freshnessPeriod :: "32 word"
  finalBlockId :: "8 word list"
  content :: "8 word list"
  signatureType :: "32 word"
  keyLocator :: "8 word list"

datatype packet = Interest interest | Data data_packet | NdnPacket ndn_packet

definition nullGate :: gate where
  "nullGate = \<lparr>gate_name = '''', gate_index = 0\<rparr>"

text \<open>The packets as \<^verbatim>\<open>new Interest(name)\<close> and \<^verbatim>\<open>new Data(name)\<close> construct them: the field defaults.\<close>

definition new_Interest :: "string \<Rightarrow> interest" where
  "new_Interest nm =
     \<lparr>pk_name = nm, pk_kind = 0, pk_arrivalGate = nullGate, pk_controlInfo = None,
      pk_byteLength = 0, pk_type = 0, pk_hopCount = 0, pk_seqNo = 0, pk_prefixLength = 1,
      pk_flood = False, canBePrefix = False, mustBeFresh = False, forwardingHint = [],
      nonce = [], interestLifetimeMs = 4000, hopLimit = 256, parameters = []\<rparr>"

definition new_Data :: "string \<Rightarrow> data_packet" where
  "new_Data nm =
     \<lparr>pk_name = nm, pk_kind = 0, pk_arrivalGate = nullGate, pk_controlInfo = None,
      pk_byteLength = 0, pk_type = 0, pk_hopCount = 0, pk_seqNo = 0, pk_prefixLength = 1,
      pk_flood = False, contentType = 0, freshnessPeriod = 0, finalBlockId = [],
      content = [], signatureType = 0, keyLocator = []\<rparr>"

text \<open>The base part of a packet, whatever its class.\<close>

fun packet_base :: "packet \<Rightarrow> ndn_packet" where
  "packet_base (Interest i) = ndn_packet.truncate i"
| "packet_base (Data d) = ndn_packet.truncate d"
| "packet_base (NdnPacket b) = b"

abbreviation getName :: "packet \<Rightarrow> string" where
  "getName p \<equiv> pk_name (packet_base p)"

abbreviation getType :: "packet \<Rightarrow> int" where
  "getType p \<equiv> pk_type (packet_base p)"

abbreviation getKind :: "packet \<Rightarrow> int" where
  "getKind p \<equiv> pk_kind (packet_base p)"

abbreviation getArrivalGate :: "packet \<Rightarrow> gate" where
  "getArrivalGate p \<equiv> pk_arrivalGate (packet_base p)"

abbreviation getControlInfo :: "packet \<Rightarrow> ieee802ctrl option" where
  "getControlInfo p \<equiv> pk_controlInfo (packet_base p)"

lemma packet_base_fields [simp]:
  "pk_name (ndn_packet.truncate r) = pk_name r"
  "pk_kind (ndn_packet.truncate r) = pk_kind r"
  "pk_arrivalGate (ndn_packet.truncate r) = pk_arrivalGate r"
  "pk_controlInfo (ndn_packet.truncate r) = pk_controlInfo r"
  "pk_type (ndn_packet.truncate r) = pk_type r"
  "pk_hopCount (ndn_packet.truncate r) = pk_hopCount r"
  "pk_seqNo (ndn_packet.truncate r) = pk_seqNo r"
  "pk_prefixLength (ndn_packet.truncate r) = pk_prefixLength r"
  by (simp_all add: ndn_packet.defs)

text \<open>\<^verbatim>\<open>check_and_cast\<close> to a subclass raises when the object has another class.\<close>

fun cast_Interest :: "packet \<Rightarrow> sim_error + interest" where
  "cast_Interest (Interest i) = Inr i"
| "cast_Interest p = Inl (RuntimeError ''check_and_cast(): Cannot cast to Interest'')"

fun cast_Data :: "packet \<Rightarrow> sim_error + data_packet" where
  "cast_Data (Data d) = Inr d"
| "cast_Data p = Inl (RuntimeError ''check_and_cast(): Cannot cast to Data'')"

text \<open>
  \<^verbatim>\<open>dup()\<close> of a message copies all fields except the control info; \<^verbatim>\<open>removeControlInfo()\<close> takes
  it off the message.
\<close>

definition dup_interest :: "interest \<Rightarrow> interest" where
  "dup_interest i = i\<lparr>pk_controlInfo := None\<rparr>"

definition dup_data :: "data_packet \<Rightarrow> data_packet" where
  "dup_data d = d\<lparr>pk_controlInfo := None\<rparr>"

fun removeControlInfo :: "packet \<Rightarrow> packet" where
  "removeControlInfo (Interest i) = Interest (i\<lparr>pk_controlInfo := None\<rparr>)"
| "removeControlInfo (Data d) = Data (d\<lparr>pk_controlInfo := None\<rparr>)"
| "removeControlInfo (NdnPacket b) = NdnPacket (b\<lparr>pk_controlInfo := None\<rparr>)"

lemma dup_interest_fields [simp]:
  "pk_name (dup_interest i) = pk_name i"
  "pk_kind (dup_interest i) = pk_kind i"
  "pk_type (dup_interest i) = pk_type i"
  "pk_arrivalGate (dup_interest i) = pk_arrivalGate i"
  "pk_controlInfo (dup_interest i) = None"
  "interestLifetimeMs (dup_interest i) = interestLifetimeMs i"
  by (simp_all add: dup_interest_def)

lemma dup_data_fields [simp]:
  "pk_name (dup_data d) = pk_name d"
  "pk_type (dup_data d) = pk_type d"
  "pk_seqNo (dup_data d) = pk_seqNo d"
  "pk_hopCount (dup_data d) = pk_hopCount d"
  "freshnessPeriod (dup_data d) = freshnessPeriod d"
  by (simp_all add: dup_data_def)

end
