(* ===== verification/TlvTools.thy ===== *)
theory TlvTools
  imports NdnPackets
begin

text \<open>
  The TLV encoder of \<^verbatim>\<open>inet/networklayer/ndn/packets/Tools.{h,cc}\<close>.  The output buffer is a
  memory \<open>nat \<Rightarrow> 8 word\<close> with arbitrary contents, written at increasing positions and patched
  at the length bytes, as the code does.  \<^verbatim>\<open>memcpy\<close> of an \<^verbatim>\<open>unsigned\<close> writes its four bytes in
  the host's order, little endian here.  The simulator's string tokenizer is the parameter
  \<open>tok\<close>: it yields the components of a name split at \<^verbatim>\<open>/\<close>.
\<close>

section \<open>Type codes\<close>

definition INTEREST :: int where "INTEREST = 5"
definition DATA :: int where "DATA = 6"

definition tlv_NAME :: "8 word" where "tlv_NAME = 7"
definition tlv_GENERIC_NAME_COMPONENT :: "8 word" where "tlv_GENERIC_NAME_COMPONENT = 8"
definition tlv_CAN_BE_PREFIX :: "8 word" where "tlv_CAN_BE_PREFIX = 33"
definition tlv_MUST_BE_FRESH :: "8 word" where "tlv_MUST_BE_FRESH = 18"
definition tlv_FORWARDING_HINT :: "8 word" where "tlv_FORWARDING_HINT = 30"
definition tlv_NONCE :: "8 word" where "tlv_NONCE = 10"
definition tlv_INTEREST_LIFETIME :: "8 word" where "tlv_INTEREST_LIFETIME = 12"
definition tlv_HOP_LIMIT :: "8 word" where "tlv_HOP_LIMIT = 34"
definition tlv_PARAMETERS :: "8 word" where "tlv_PARAMETERS = 35"
definition tlv_META_INFO :: "8 word" where "tlv_META_INFO = 20"
definition tlv_CONTENT :: "8 word" where "tlv_CONTENT = 21"
definition tlv_CONTENT_TYPE :: "8 word" where "tlv_CONTENT_TYPE = 24"
definition tlv_FRESHNESS_PERIOD :: "8 word" where "tlv_FRESHNESS_PERIOD = 25"
definition tlv_FINAL_BLOCK_ID :: "8 word" where "tlv_FINAL_BLOCK_ID = 26"
definition tlv_SIGNATURE_TYPE :: "8 word" where "tlv_SIGNATURE_TYPE = 27"
definition tlv_KEY_LOCATOR :: "8 word" where "tlv_KEY_LOCATOR = 28"
definition OMITTED :: "32 word" where "OMITTED = 255"

lemmas tlv_codes =
  tlv_NAME_def tlv_GENERIC_NAME_COMPONENT_def tlv_CAN_BE_PREFIX_def tlv_MUST_BE_FRESH_def
  tlv_FORWARDING_HINT_def tlv_NONCE_def tlv_INTEREST_LIFETIME_def tlv_HOP_LIMIT_def
  tlv_PARAMETERS_def tlv_META_INFO_def tlv_CONTENT_def tlv_CONTENT_TYPE_def
  tlv_FRESHNESS_PERIOD_def tlv_FINAL_BLOCK_ID_def tlv_SIGNATURE_TYPE_def tlv_KEY_LOCATOR_def

section \<open>Writing to the buffer\<close>

type_synonym buf = "nat \<Rightarrow> 8 word"

fun put_bytes :: "buf \<Rightarrow> nat \<Rightarrow> 8 word list \<Rightarrow> buf" where
  "put_bytes b p [] = b"
| "put_bytes b p (x # xs) = put_bytes (b(p := x)) (Suc p) xs"

definition bytes_of_u32 :: "32 word \<Rightarrow> 8 word list" where
  "bytes_of_u32 w = [ucast w, ucast (drop_bit 8 w), ucast (drop_bit 16 w), ucast (drop_bit 24 w)]"

definition bytes_of_string :: "string \<Rightarrow> 8 word list" where
  "bytes_of_string s = map of_char s"

text \<open>One block \<^verbatim>\<open>tlv[pos] = type; tlv[pos+1] = size; pos += 2; copy; pos += size\<close>.\<close>

definition put_tlv :: "8 word \<Rightarrow> 8 word list \<Rightarrow> buf \<times> nat \<Rightarrow> buf \<times> nat" where
  "put_tlv t xs = (\<lambda>(b, pos).
     (put_bytes (b(pos := t, pos + 1 := of_nat (length xs))) (pos + 2) xs, pos + 2 + length xs))"

definition put_tlv_if :: "bool \<Rightarrow> 8 word \<Rightarrow> 8 word list \<Rightarrow> buf \<times> nat \<Rightarrow> buf \<times> nat" where
  "put_tlv_if c t xs s = (if c then put_tlv t xs s else s)"

section \<open>Names\<close>

text \<open>\<^verbatim>\<open>encodeName(name, tlv + base)\<close>: the buffer and the number of bytes written.\<close>

definition encodeName :: "(string \<Rightarrow> string list) \<Rightarrow> string \<Rightarrow> buf \<Rightarrow> nat \<Rightarrow> buf \<times> nat" where
  "encodeName tok nm b base =
     (let (b1, pos) = fold (\<lambda>c. put_tlv tlv_GENERIC_NAME_COMPONENT (bytes_of_string c)) (tok nm)
                        (b(base := tlv_NAME), base + 2)
      in (b1(base + 1 := of_nat (pos - base - 2)), pos - base))"

definition computeTlvNameSize :: "(string \<Rightarrow> string list) \<Rightarrow> string \<Rightarrow> nat" where
  "computeTlvNameSize tok nm = fold (\<lambda>c pos. pos + (length c + 2)) (tok nm) 2"

section \<open>Packets\<close>

definition encodeInterest :: "(string \<Rightarrow> string list) \<Rightarrow> interest \<Rightarrow> buf \<Rightarrow> buf \<times> nat" where
  "encodeInterest tok i b0 =
     (let b = b0(0 := of_int INTEREST);
          (b, n) = encodeName tok (pk_name i) b 2;
          s = (b, n + 2);
          s = put_tlv_if (canBePrefix i) tlv_CAN_BE_PREFIX [] s;
          s = put_tlv_if (mustBeFresh i) tlv_MUST_BE_FRESH [] s;
          s = put_tlv_if (length (forwardingHint i) \<noteq> 0) tlv_FORWARDING_HINT (forwardingHint i) s;
          s = put_tlv_if (length (nonce i) \<noteq> 0) tlv_NONCE (nonce i) s;
          s = put_tlv_if (interestLifetimeMs i \<noteq> 4000) tlv_INTEREST_LIFETIME
                (bytes_of_u32 (interestLifetimeMs i)) s;
          s = put_tlv_if (hopLimit i \<noteq> 256) tlv_HOP_LIMIT (bytes_of_u32 (hopLimit i)) s;
          (b, pos) = put_tlv_if (length (parameters i) \<noteq> 0) tlv_PARAMETERS (parameters i) s
      in (b(1 := of_nat (pos - 2)), pos))"

text \<open>
  The MetaInfo block is opened by its first field: \<open>metaInfoPos\<close> is 0 until then.  Its size
  is an \<^verbatim>\<open>unsigned char\<close>, accumulated from the length bytes read back from the buffer.
\<close>

record meta_state =
  ms_buf :: buf
  ms_pos :: nat
  metaInfoSize :: "8 word"
  metaInfoPos :: nat

definition open_meta :: "meta_state \<Rightarrow> meta_state" where
  "open_meta s =
     (if metaInfoPos s = 0
      then s\<lparr>metaInfoPos := ms_pos s, ms_buf := (ms_buf s)(ms_pos s := tlv_META_INFO),
             ms_pos := ms_pos s + 2\<rparr>
      else s)"

definition put_meta :: "bool \<Rightarrow> 8 word \<Rightarrow> 8 word list \<Rightarrow> meta_state \<Rightarrow> meta_state" where
  "put_meta c t xs s0 =
     (if c then
        (let s = open_meta s0;
             b = (ms_buf s)(ms_pos s := t, ms_pos s + 1 := of_nat (length xs));
             size = metaInfoSize s + (b (ms_pos s + 1) + 2);
             pos = ms_pos s + 2
         in s\<lparr>ms_buf := put_bytes b pos xs, ms_pos := pos + length xs, metaInfoSize := size\<rparr>)
      else s0)"

definition encodeData :: "(string \<Rightarrow> string list) \<Rightarrow> data_packet \<Rightarrow> buf \<Rightarrow> buf \<times> nat" where
  "encodeData tok d b0 =
     (let b = b0(0 := of_int DATA);
          (b, n) = encodeName tok (pk_name d) b 2;
          s = \<lparr>ms_buf = b, ms_pos = n + 2, metaInfoSize = 0, metaInfoPos = 0\<rparr>;
          s = put_meta (contentType d \<noteq> OMITTED) tlv_CONTENT_TYPE (bytes_of_u32 (contentType d)) s;
          s = put_meta (freshnessPeriod d \<noteq> 0) tlv_FRESHNESS_PERIOD
                (bytes_of_u32 (freshnessPeriod d)) s;
          s = put_meta (length (finalBlockId d) \<noteq> 0) tlv_FINAL_BLOCK_ID (finalBlockId d) s;
          b = (if metaInfoSize s \<noteq> 0 then (ms_buf s)(metaInfoPos s + 1 := metaInfoSize s)
               else ms_buf s);
          (b, pos) = put_tlv_if (length (content d) \<noteq> 0) tlv_CONTENT (content d) (b, ms_pos s);
          signatureInfoSize = (3 :: 8 word);
          signatureInfoPos = pos;
          b = b(signatureInfoPos := tlv_META_INFO);
          (b, pos) = put_tlv tlv_SIGNATURE_TYPE (bytes_of_u32 (signatureType d)) (b, pos + 2);
          (b, pos) = put_tlv_if (length (keyLocator d) \<noteq> 0) tlv_KEY_LOCATOR (keyLocator d) (b, pos);
          signatureInfoSize =
            (if length (keyLocator d) \<noteq> 0 then signatureInfoSize + (of_nat (length (keyLocator d)) + 2)
             else signatureInfoSize);
          b = b(signatureInfoPos + 1 := signatureInfoSize)
      in (b(1 := of_nat (pos - 2)), pos))"

definition encodePacket :: "(string \<Rightarrow> string list) \<Rightarrow> packet \<Rightarrow> buf \<Rightarrow> sim_error + (buf \<times> nat)" where
  "encodePacket tok p b =
     (if getType p = INTEREST then bind_result (cast_Interest p) (\<lambda>i. Inr (encodeInterest tok i b))
      else if getType p = DATA then bind_result (cast_Data p) (\<lambda>d. Inr (encodeData tok d b))
      else Inr (b, 0))"

definition interestTlvSize :: "(string \<Rightarrow> string list) \<Rightarrow> interest \<Rightarrow> nat" where
  "interestTlvSize tok i =
     (let pos = 2;
          pos = pos + computeTlvNameSize tok (pk_name i);
          pos = (if canBePrefix i then pos + 2 else pos);
          pos = (if mustBeFresh i then pos + 2 else pos);
          pos = (if length (forwardingHint i) \<noteq> 0 then pos + (length (forwardingHint i) + 2) else pos);
          pos = (if length (nonce i) \<noteq> 0 then pos + (length (nonce i) + 2) else pos);
          pos = (if interestLifetimeMs i \<noteq> 4000 then pos + (4 + 2) else pos);
          pos = (if hopLimit i \<noteq> 256 then pos + (4 + 2) else pos);
          pos = (if length (parameters i) \<noteq> 0 then pos + (length (parameters i) + 2) else pos)
      in pos)"

definition dataTlvSize :: "(string \<Rightarrow> string list) \<Rightarrow> data_packet \<Rightarrow> nat" where
  "dataTlvSize tok d =
     (let pos = 2;
          pos = pos + computeTlvNameSize tok (pk_name d);
          hasMetaInfo = False;
          (hasMetaInfo, pos) = (if contentType d \<noteq> OMITTED then (True, pos + (4 + 2)) else (hasMetaInfo, pos));
          (hasMetaInfo, pos) = (if freshnessPeriod d \<noteq> 0 then (True, pos + (4 + 2)) else (hasMetaInfo, pos));
          (hasMetaInfo, pos) = (if length (finalBlockId d) \<noteq> 0
             then (True, pos + (length (finalBlockId d) + 2)) else (hasMetaInfo, pos));
          pos = (if hasMetaInfo then pos + 2 else pos);
          pos = (if length (content d) \<noteq> 0 then pos + (length (content d) + 2) else pos);
          pos = pos + 2;
          pos = pos + (4 + 2);
          pos = (if length (keyLocator d) \<noteq> 0 then pos + (length (keyLocator d) + 2) else pos)
      in pos)"

definition computeTlvPacketSize :: "(string \<Rightarrow> string list) \<Rightarrow> packet \<Rightarrow> sim_error + nat" where
  "computeTlvPacketSize tok p =
     (if getType p = INTEREST then bind_result (cast_Interest p) (\<lambda>i. Inr (interestTlvSize tok i))
      else if getType p = DATA then bind_result (cast_Data p) (\<lambda>d. Inr (dataTlvSize tok d))
      else Inr 0)"

definition isCorrect :: "packet \<Rightarrow> bool" where
  "isCorrect p = True"

section \<open>What the encoder writes\<close>

text \<open>
  The abstract wire format: a block is a type byte, a length byte and the value; a packet is
  one block whose value is the sequence of its field blocks.
\<close>

definition tlv :: "8 word \<Rightarrow> 8 word list \<Rightarrow> 8 word list" where
  "tlv t xs = t # of_nat (length xs) # xs"

definition tlv_if :: "bool \<Rightarrow> 8 word \<Rightarrow> 8 word list \<Rightarrow> 8 word list" where
  "tlv_if c t xs = (if c then tlv t xs else [])"

definition name_components :: "(string \<Rightarrow> string list) \<Rightarrow> string \<Rightarrow> 8 word list" where
  "name_components tok nm = concat (map (\<lambda>c. tlv tlv_GENERIC_NAME_COMPONENT (bytes_of_string c)) (tok nm))"

definition interest_fields :: "(string \<Rightarrow> string list) \<Rightarrow> interest \<Rightarrow> 8 word list" where
  "interest_fields tok i =
     tlv tlv_NAME (name_components tok (pk_name i))
     @ tlv_if (canBePrefix i) tlv_CAN_BE_PREFIX []
     @ tlv_if (mustBeFresh i) tlv_MUST_BE_FRESH []
     @ tlv_if (forwardingHint i \<noteq> []) tlv_FORWARDING_HINT (forwardingHint i)
     @ tlv_if (nonce i \<noteq> []) tlv_NONCE (nonce i)
     @ tlv_if (interestLifetimeMs i \<noteq> 4000) tlv_INTEREST_LIFETIME (bytes_of_u32 (interestLifetimeMs i))
     @ tlv_if (hopLimit i \<noteq> 256) tlv_HOP_LIMIT (bytes_of_u32 (hopLimit i))
     @ tlv_if (parameters i \<noteq> []) tlv_PARAMETERS (parameters i)"

definition meta_fields :: "data_packet \<Rightarrow> 8 word list" where
  "meta_fields d =
     tlv_if (contentType d \<noteq> OMITTED) tlv_CONTENT_TYPE (bytes_of_u32 (contentType d))
     @ tlv_if (freshnessPeriod d \<noteq> 0) tlv_FRESHNESS_PERIOD (bytes_of_u32 (freshnessPeriod d))
     @ tlv_if (finalBlockId d \<noteq> []) tlv_FINAL_BLOCK_ID (finalBlockId d)"

definition signature_fields :: "data_packet \<Rightarrow> 8 word list" where
  "signature_fields d =
     tlv tlv_SIGNATURE_TYPE (bytes_of_u32 (signatureType d))
     @ tlv_if (keyLocator d \<noteq> []) tlv_KEY_LOCATOR (keyLocator d)"

definition bytes :: "buf \<Rightarrow> nat \<Rightarrow> 8 word list" where
  "bytes b n = map b [0..<n]"

text \<open>
  \<open>written s\<close> is what the encoder has written in state \<open>s\<close> (buffer and position);
  \<open>appends s s' xs\<close> says that from \<open>s\<close> to \<open>s'\<close> exactly \<open>xs\<close> was written at the end.
\<close>

definition written :: "buf \<times> nat \<Rightarrow> 8 word list" where
  "written s = bytes (fst s) (snd s)"

definition appends :: "buf \<times> nat \<Rightarrow> buf \<times> nat \<Rightarrow> 8 word list \<Rightarrow> bool" where
  "appends s s' xs \<longleftrightarrow> written s' = written s @ xs"

lemma length_bytes [simp]: "length (bytes b n) = n"
  by (simp add: bytes_def)

lemma length_tlv [simp]: "length (tlv t xs) = length xs + 2"
  by (simp add: tlv_def)

lemma tlv_not_Nil [simp]: "tlv t xs \<noteq> []"
  by (simp add: tlv_def)

lemma bytes_upd_ge [simp]: "n \<le> k \<Longrightarrow> bytes (b(k := v)) n = bytes b n"
  by (simp add: bytes_def)

lemma bytes_upd_less: "k < n \<Longrightarrow> bytes (b(k := v)) n = (bytes b n)[k := v]"
  by (rule nth_equalityI) (auto simp: bytes_def nth_list_update)

lemma bytes_Suc: "bytes b (Suc n) = bytes b n @ [b n]"
  by (simp add: bytes_def)

lemma length_written [simp]: "length (written s) = snd s"
  by (simp add: written_def)

lemma appends_length: "appends s s' xs \<Longrightarrow> snd s' = snd s + length xs"
  using length_written [of s'] by (simp add: appends_def del: length_written) simp

lemma appends_trans: "appends s t xs \<Longrightarrow> appends t u ys \<Longrightarrow> appends s u (xs @ ys)"
  by (simp add: appends_def)

lemma appends_refl [simp]: "appends s s []"
  by (simp add: appends_def)

lemma appends_put_byte: "appends (b, p) (b(p := x), Suc p) [x]"
  by (simp add: appends_def written_def bytes_Suc)

lemma appends_put_bytes: "appends (b, p) (put_bytes b p xs, p + length xs) xs"
proof (induction xs arbitrary: b p)
  case Nil
  then show ?case by simp
next
  case (Cons x xs)
  have "appends (b(p := x), Suc p) (put_bytes b p (x # xs), p + length (x # xs)) xs"
    using Cons.IH [of "b(p := x)" "Suc p"] by (simp only: put_bytes.simps list.size add_Suc add_Suc_right add_0_right)
  from appends_trans [OF appends_put_byte this] show ?case by simp
qed

lemma appends_put_tlv: "appends s (put_tlv t xs s) (tlv t xs)"
proof (cases s)
  case (Pair b p)
  define b1 where "b1 = b(p := t, p + 1 := of_nat (length xs))"
  have "appends (b, p) (b1, p + 2) [t, of_nat (length xs)]"
    by (simp add: appends_def written_def b1_def bytes_Suc)
  from appends_trans [OF this appends_put_bytes [of b1 "p + 2" xs]] Pair
  show ?thesis by (simp add: put_tlv_def b1_def tlv_def)
qed

lemma appends_put_tlv_if: "appends s (put_tlv_if c t xs s) (tlv_if c t xs)"
  by (simp add: put_tlv_if_def tlv_if_def appends_put_tlv)

lemma appends_fold_components:
  "appends s (fold (\<lambda>c. put_tlv t (f c)) cs s) (concat (map (\<lambda>c. tlv t (f c)) cs))"
proof (induction cs arbitrary: s)
  case (Cons c cs)
  from appends_trans [OF appends_put_tlv [of s t "f c"] Cons.IH] show ?case by simp
qed simp

lemma encodeName_appends:
  "encodeName tok nm b base = (b', n) \<Longrightarrow>
   appends (b, base) (b', base + n) (tlv tlv_NAME (name_components tok nm))"
proof -
  assume enc: "encodeName tok nm b base = (b', n)"
  define s0 where "s0 = (b(base := tlv_NAME), base + 2)"
  define s1 where "s1 = fold (\<lambda>c. put_tlv tlv_GENERIC_NAME_COMPONENT (bytes_of_string c)) (tok nm) s0"
  let ?xs = "name_components tok nm"
  have app: "appends s0 s1 ?xs"
    unfolding s1_def name_components_def by (rule appends_fold_components)
  have b': "b' = (fst s1)(base + 1 := of_nat (snd s1 - base - 2))" and n: "n = snd s1 - base"
    using enc by (simp_all add: encodeName_def s0_def s1_def Let_def split: prod.splits)
  have len: "snd s1 = base + 2 + length ?xs"
    using appends_length [OF app] by (simp add: s0_def)
  have "written s0 = bytes b base @ [tlv_NAME, b (base + 1)]"
    by (simp add: s0_def written_def bytes_Suc)
  with app have "bytes (fst s1) (snd s1) = bytes b base @ [tlv_NAME, b (base + 1)] @ ?xs"
    by (simp add: appends_def written_def)
  with len show ?thesis
    by (simp add: appends_def written_def b' n bytes_upd_less tlv_def list_update_append)
qed

lemma length_name_components:
  "length (tlv tlv_NAME (name_components tok nm)) = computeTlvNameSize tok nm"
proof -
  have "fold (\<lambda>c pos. pos + (length c + 2)) cs n
      = n + length (concat (map (\<lambda>c. tlv tlv_GENERIC_NAME_COMPONENT (bytes_of_string c)) cs))" for cs n
    by (induction cs arbitrary: n) (simp_all add: bytes_of_string_def)
  then show ?thesis by (simp add: computeTlvNameSize_def name_components_def)
qed

lemma length_bytes_of_u32 [simp]: "length (bytes_of_u32 w) = 4"
  by (simp add: bytes_of_u32_def)

lemma length_tlv_if [simp]: "length (tlv_if c t xs) = (if c then length xs + 2 else 0)"
  by (simp add: tlv_if_def)

lemma patch_length:
  assumes "appends (b, 2) s xs" "written (b, 2) = [t, u]"
  shows "bytes ((fst s)(1 := of_nat (snd s - 2))) (snd s) = tlv t xs"
proof -
  have "snd s = 2 + length xs" using appends_length [OF assms(1)] by simp
  with assms show ?thesis by (simp add: appends_def written_def bytes_upd_less tlv_def)
qed

lemma encodeInterest_bytes:
  assumes "encodeInterest tok i b0 = (b', n)"
  shows "bytes b' n = tlv (of_int INTEREST) (interest_fields tok i)"
proof -
  define b where "b = b0(0 := of_int INTEREST)"
  obtain b1 m where name: "encodeName tok (pk_name i) b 2 = (b1, m)" by fastforce
  define s1 where "s1 = put_tlv_if (canBePrefix i) tlv_CAN_BE_PREFIX [] (b1, m + 2)"
  define s2 where "s2 = put_tlv_if (mustBeFresh i) tlv_MUST_BE_FRESH [] s1"
  define s3 where "s3 = put_tlv_if (length (forwardingHint i) \<noteq> 0) tlv_FORWARDING_HINT (forwardingHint i) s2"
  define s4 where "s4 = put_tlv_if (length (nonce i) \<noteq> 0) tlv_NONCE (nonce i) s3"
  define s5 where "s5 = put_tlv_if (interestLifetimeMs i \<noteq> 4000) tlv_INTEREST_LIFETIME
                          (bytes_of_u32 (interestLifetimeMs i)) s4"
  define s6 where "s6 = put_tlv_if (hopLimit i \<noteq> 256) tlv_HOP_LIMIT (bytes_of_u32 (hopLimit i)) s5"
  define s7 where "s7 = put_tlv_if (length (parameters i) \<noteq> 0) tlv_PARAMETERS (parameters i) s6"
  have "appends (b, 2) (b1, m + 2) (tlv tlv_NAME (name_components tok (pk_name i)))"
    using encodeName_appends [OF name] by (simp add: add.commute)
  note app = appends_trans [OF this appends_trans [OF appends_put_tlv_if appends_trans [OF appends_put_tlv_if
    appends_trans [OF appends_put_tlv_if appends_trans [OF appends_put_tlv_if appends_trans [OF appends_put_tlv_if
    appends_trans [OF appends_put_tlv_if appends_put_tlv_if]]]]]]]
  have "appends (b, 2) s7 (interest_fields tok i)"
    using app unfolding s7_def s6_def s5_def s4_def s3_def s2_def s1_def interest_fields_def
    by (simp only: length_0_conv)
  moreover have "b' = (fst s7)(1 := of_nat (snd s7 - 2))" "n = snd s7"
    using assms name
    by (simp_all add: encodeInterest_def Let_def b_def s1_def s2_def s3_def s4_def s5_def s6_def s7_def
        split: prod.splits)
  moreover have "written (b, 2) = [of_int INTEREST, b0 1]"
    by (simp add: b_def written_def bytes_def upt_rec)
  ultimately show ?thesis
    by (simp only: patch_length)
qed

lemma appends_open_meta:
  "0 < ms_pos s \<Longrightarrow> metaInfoPos s = 0 \<Longrightarrow>
   appends (ms_buf s, ms_pos s) (ms_buf (open_meta s), ms_pos (open_meta s))
     [tlv_META_INFO, ms_buf s (ms_pos s + 1)]"
  by (simp add: open_meta_def appends_def written_def bytes_Suc)

text \<open>
  The MetaInfo phase started at position \<open>mp\<close>: either nothing was written yet, or the block
  header stands at \<open>mp\<close> (its length byte still open) and the fields follow.
\<close>

definition meta_inv :: "buf \<Rightarrow> nat \<Rightarrow> 8 word list \<Rightarrow> meta_state \<Rightarrow> bool" where
  "meta_inv b mp xs s \<longleftrightarrow>
     0 < mp \<and> metaInfoSize s = of_nat (length xs) \<and>
     (if xs = [] then metaInfoPos s = 0 \<and> ms_pos s = mp \<and> ms_buf s = b
      else metaInfoPos s = mp \<and>
        (\<exists>v. appends (b, mp) (ms_buf s, ms_pos s) (tlv_META_INFO # v # xs)))"

lemma meta_inv_put:
  assumes "meta_inv b mp xs s"
  shows "meta_inv b mp (xs @ tlv_if c t ys) (put_meta c t ys s)"
proof (cases c)
  case False
  with assms show ?thesis by (simp add: put_meta_def tlv_if_def)
next
  case True
  define s1 where "s1 = open_meta s"
  define b1 where "b1 = (ms_buf s1)(ms_pos s1 := t, ms_pos s1 + 1 := of_nat (length ys))"
  have s': "put_meta c t ys s = s1\<lparr>ms_buf := put_bytes b1 (ms_pos s1 + 2) ys,
      ms_pos := ms_pos s1 + 2 + length ys, metaInfoSize := metaInfoSize s1 + (of_nat (length ys) + 2)\<rparr>"
    using True by (simp add: put_meta_def s1_def b1_def Let_def)
  have "\<exists>v. appends (b, mp) (ms_buf s1, ms_pos s1) (tlv_META_INFO # v # xs)"
    and mp: "metaInfoPos s1 = mp" "metaInfoSize s1 = of_nat (length xs)" "0 < mp"
    using assms appends_open_meta [of s] by (auto simp: meta_inv_def s1_def open_meta_def split: if_splits)
  then obtain v where "appends (b, mp) (ms_buf s1, ms_pos s1) (tlv_META_INFO # v # xs)" by blast
  moreover have "appends (ms_buf s1, ms_pos s1) (put_bytes b1 (ms_pos s1 + 2) ys, ms_pos s1 + 2 + length ys) (tlv t ys)"
    using appends_put_tlv [of "(ms_buf s1, ms_pos s1)" t ys] by (simp add: put_tlv_def b1_def)
  ultimately have "appends (b, mp) (put_bytes b1 (ms_pos s1 + 2) ys, ms_pos s1 + 2 + length ys)
      ((tlv_META_INFO # v # xs) @ tlv t ys)"
    by (rule appends_trans)
  with mp True show ?thesis
    unfolding s' meta_inv_def tlv_if_def tlv_def by auto
qed

lemma meta_inv_length: "meta_inv b mp xs s \<Longrightarrow> ms_pos s = (if xs = [] then mp else mp + 2 + length xs)"
  using appends_length [of "(b, mp)" "(ms_buf s, ms_pos s)"] by (fastforce simp: meta_inv_def)

text \<open>
  Closing the block: the length byte is patched when the accumulated size is not 0.  That is
  the case as soon as there is a field and the sizes sum up to less than 256.
\<close>

definition close_meta :: "meta_state \<Rightarrow> buf" where
  "close_meta s = (if metaInfoSize s \<noteq> 0 then (ms_buf s)(metaInfoPos s + 1 := metaInfoSize s) else ms_buf s)"

lemma of_nat_8_eq_0: "n < 256 \<Longrightarrow> (of_nat n :: 8 word) = 0 \<longleftrightarrow> n = 0"
  by (auto simp: word_of_nat_eq_0_iff dest: nat_dvd_not_less)

lemma close_meta_appends:
  assumes "meta_inv b mp xs s" "length xs < 256"
  shows "appends (b, mp) (close_meta s, ms_pos s) (tlv_if (xs \<noteq> []) tlv_META_INFO xs)"
proof (cases "xs = []")
  case True
  with assms show ?thesis by (simp add: meta_inv_def close_meta_def tlv_if_def)
next
  case False
  with assms obtain v where v: "appends (b, mp) (ms_buf s, ms_pos s) (tlv_META_INFO # v # xs)"
    and s: "metaInfoPos s = mp" "metaInfoSize s = of_nat (length xs)"
    by (auto simp: meta_inv_def)
  from False assms(2) s have "metaInfoSize s \<noteq> 0" by (simp add: of_nat_8_eq_0)
  with v s False appends_length [OF v] show ?thesis
    by (simp add: close_meta_def appends_def written_def bytes_upd_less tlv_if_def tlv_def list_update_append)
qed

text \<open>
  The SignatureInfo block as it is written: type code MetaInfo, a length byte that starts
  from 3, then the signature type (6 bytes) and the key locator.
\<close>

definition signature_block :: "data_packet \<Rightarrow> 8 word list" where
  "signature_block d =
     tlv_META_INFO # (of_nat (length (signature_fields d)) - 3) # signature_fields d"

definition data_fields :: "(string \<Rightarrow> string list) \<Rightarrow> data_packet \<Rightarrow> 8 word list" where
  "data_fields tok d =
     tlv tlv_NAME (name_components tok (pk_name d))
     @ tlv_if (meta_fields d \<noteq> []) tlv_META_INFO (meta_fields d)
     @ tlv_if (content d \<noteq> []) tlv_CONTENT (content d)
     @ signature_block d"

lemma appends_signature_block:
  fixes d :: data_packet and b :: buf and pos :: nat
  defines "s1 \<equiv> put_tlv tlv_SIGNATURE_TYPE (bytes_of_u32 (signatureType d)) (b(pos := tlv_META_INFO), pos + 2)"
  defines "s2 \<equiv> put_tlv_if (length (keyLocator d) \<noteq> 0) tlv_KEY_LOCATOR (keyLocator d) s1"
  defines "sz \<equiv> (if length (keyLocator d) \<noteq> 0 then (3 :: 8 word) + (of_nat (length (keyLocator d)) + 2) else 3)"
  shows "appends (b, pos) ((fst s2)(pos + 1 := sz), snd s2) (signature_block d)"
proof -
  let ?b = "b(pos := tlv_META_INFO)"
  have sig: "appends (?b, pos + 2) s2 (signature_fields d)"
    unfolding s1_def s2_def signature_fields_def length_0_conv
    by (rule appends_trans [OF appends_put_tlv appends_put_tlv_if])
  then have app: "written s2 = bytes b pos @ [tlv_META_INFO, b (pos + 1)] @ signature_fields d"
    by (simp add: appends_def written_def bytes_Suc)
  have len: "snd s2 = pos + 2 + length (signature_fields d)"
    using appends_length [OF sig] by simp
  have "sz = of_nat (length (signature_fields d)) - 3"
    by (simp add: sz_def signature_fields_def)
  with app len show ?thesis
    by (simp add: appends_def written_def bytes_upd_less signature_block_def list_update_append)
qed

lemma encodeData_bytes:
  assumes enc: "encodeData tok d b0 = (b', n)" and small: "length (meta_fields d) < 256"
  shows "bytes b' n = tlv (of_int DATA) (data_fields tok d)"
proof -
  define b where "b = b0(0 := of_int DATA)"
  obtain b1 m where name: "encodeName tok (pk_name d) b 2 = (b1, m)" by fastforce
  define s0 where "s0 = \<lparr>ms_buf = b1, ms_pos = m + 2, metaInfoSize = 0, metaInfoPos = 0\<rparr>"
  define s1 where "s1 = put_meta (contentType d \<noteq> OMITTED) tlv_CONTENT_TYPE (bytes_of_u32 (contentType d)) s0"
  define s2 where "s2 = put_meta (freshnessPeriod d \<noteq> 0) tlv_FRESHNESS_PERIOD
                          (bytes_of_u32 (freshnessPeriod d)) s1"
  define s3 where "s3 = put_meta (length (finalBlockId d) \<noteq> 0) tlv_FINAL_BLOCK_ID (finalBlockId d) s2"
  define c where "c = put_tlv_if (length (content d) \<noteq> 0) tlv_CONTENT (content d) (close_meta s3, ms_pos s3)"
  define g1 where "g1 = put_tlv tlv_SIGNATURE_TYPE (bytes_of_u32 (signatureType d))
                          ((fst c)(snd c := tlv_META_INFO), snd c + 2)"
  define g2 where "g2 = put_tlv_if (length (keyLocator d) \<noteq> 0) tlv_KEY_LOCATOR (keyLocator d) g1"
  define sz where "sz = (if length (keyLocator d) \<noteq> 0 then (3 :: 8 word) + (of_nat (length (keyLocator d)) + 2) else 3)"
  define e where "e = ((fst g2)(snd c + 1 := sz), snd g2)"
  have app1: "appends (b, 2) (b1, m + 2) (tlv tlv_NAME (name_components tok (pk_name d)))"
    using encodeName_appends [OF name] by (simp add: add.commute)
  have "meta_inv b1 (m + 2) [] s0" by (simp add: meta_inv_def s0_def)
  then have "meta_inv b1 (m + 2) (meta_fields d) s3"
    unfolding s1_def s2_def s3_def meta_fields_def length_0_conv
    using meta_inv_put by (metis append.left_neutral append.assoc)
  then have app2: "appends (b1, m + 2) (close_meta s3, ms_pos s3) (tlv_if (meta_fields d \<noteq> []) tlv_META_INFO (meta_fields d))"
    using small by (rule close_meta_appends)
  have app3: "appends (close_meta s3, ms_pos s3) c (tlv_if (content d \<noteq> []) tlv_CONTENT (content d))"
    unfolding c_def length_0_conv by (rule appends_put_tlv_if)
  have app4: "appends c e (signature_block d)"
    using appends_signature_block [where d = d and b = "fst c" and pos = "snd c"] by (simp add: e_def g1_def g2_def sz_def)
  have "appends (b, 2) e (data_fields tok d)"
    unfolding data_fields_def
    by (rule appends_trans [OF app1 appends_trans [OF app2 appends_trans [OF app3 app4]]])
  moreover have "encodeData tok d b0 = ((fst e)(1 := of_nat (snd e - 2)), snd e)"
    using name
    by (simp add: encodeData_def Let_def case_prod_beta b_def s0_def s1_def s2_def s3_def
        close_meta_def e_def sz_def g2_def g1_def c_def)
  with enc have "b' = (fst e)(1 := of_nat (snd e - 2))" "n = snd e" by auto
  moreover have "written (b, 2) = [of_int DATA, b0 1]"
    by (simp add: b_def written_def bytes_def upt_rec)
  ultimately show ?thesis
    by (simp only: patch_length)
qed

section \<open>Sizes\<close>

lemma interest_fields_length: "length (interest_fields tok i) + 2 = interestTlvSize tok i"
  by (simp add: interest_fields_def interestTlvSize_def length_name_components [symmetric])

lemma put_meta_length:
  "ms_pos (put_meta c t xs s) =
     (if c then (if metaInfoPos s = 0 then ms_pos s + 2 else ms_pos s) + 2 + length xs else ms_pos s)"
  "0 < ms_pos s \<Longrightarrow> metaInfoPos (put_meta c t xs s) = 0 \<longleftrightarrow> \<not> c \<and> metaInfoPos s = 0"
  by (simp_all add: put_meta_def open_meta_def Let_def)

lemma put_tlv_if_length: "snd (put_tlv_if c t xs s) = snd s + (if c then length xs + 2 else 0)"
  using appends_length [OF appends_put_tlv_if [of s c t xs]] by simp

lemma encodeName_length: "snd (encodeName tok nm b base) = computeTlvNameSize tok nm"
proof -
  obtain b' n where e: "encodeName tok nm b base = (b', n)" by fastforce
  from appends_length [OF encodeName_appends [OF e]] show ?thesis
    by (simp only: e length_name_components snd_conv)
qed

lemma encodeInterest_length: "snd (encodeInterest tok i b) = interestTlvSize tok i"
proof -
  obtain b' n where e: "encodeInterest tok i b = (b', n)" by fastforce
  from arg_cong [OF encodeInterest_bytes [OF e], of length] show ?thesis
    by (simp add: e interest_fields_length [symmetric])
qed

lemma encodeData_length: "snd (encodeData tok d b) = dataTlvSize tok d"
proof -
  have name: "snd (encodeName tok (pk_name d) c 2) = computeTlvNameSize tok (pk_name d)" for c
    by (rule encodeName_length)
  have tlv: "snd (put_tlv t xs s) = snd s + length xs + 2" for t xs s
    using appends_length [OF appends_put_tlv [of s t xs]] by simp
  show ?thesis
    by (simp add: encodeData_def dataTlvSize_def Let_def case_prod_beta put_tlv_if_length put_meta_length
        name tlv)
qed

section \<open>Reading the format back\<close>

text \<open>
  A decoder of the abstract format, to say what the bytes mean to a receiver: it splits a
  byte sequence into blocks and fails when a block runs past the end.
\<close>

function parse_tlvs :: "8 word list \<Rightarrow> (8 word \<times> 8 word list) list option" where
  "parse_tlvs [] = Some []"
| "parse_tlvs [t] = None"
| "parse_tlvs (t # l # xs) =
     (if unat l \<le> length xs
      then map_option ((#) (t, take (unat l) xs)) (parse_tlvs (drop (unat l) xs))
      else None)"
  by pat_completeness auto
termination
  by (relation "measure length") auto

lemma unat_of_nat_8: "n < 256 \<Longrightarrow> unat (of_nat n :: 8 word) = n"
  by (simp add: unat_of_nat)

lemma parse_tlvs_tlv:
  "length xs < 256 \<Longrightarrow> parse_tlvs (tlv t xs @ ys) = map_option ((#) (t, xs)) (parse_tlvs ys)"
  by (simp add: tlv_def unat_of_nat_8)

lemma parse_tlvs_tlv_if:
  "length xs < 256 \<Longrightarrow> parse_tlvs (tlv_if c t xs @ ys) =
     map_option ((@) (if c then [(t, xs)] else [])) (parse_tlvs ys)"
  by (cases c; cases "parse_tlvs ys") (simp_all add: tlv_if_def parse_tlvs_tlv)

lemma parse_tlvs_components:
  "\<forall>c \<in> set cs. length (f c) < 256 \<Longrightarrow>
   parse_tlvs (concat (map (\<lambda>c. tlv t (f c)) cs)) = Some (map (\<lambda>c. (t, f c)) cs)"
  by (induction cs) (simp_all add: parse_tlvs_tlv)

text \<open>The fields a receiver reads from an Interest.\<close>

definition interest_wire :: "(string \<Rightarrow> string list) \<Rightarrow> interest \<Rightarrow> (8 word \<times> 8 word list) list" where
  "interest_wire tok i =
     (tlv_NAME, name_components tok (pk_name i))
     # (if canBePrefix i then [(tlv_CAN_BE_PREFIX, [])] else [])
     @ (if mustBeFresh i then [(tlv_MUST_BE_FRESH, [])] else [])
     @ (if forwardingHint i \<noteq> [] then [(tlv_FORWARDING_HINT, forwardingHint i)] else [])
     @ (if nonce i \<noteq> [] then [(tlv_NONCE, nonce i)] else [])
     @ (if interestLifetimeMs i \<noteq> 4000 then [(tlv_INTEREST_LIFETIME, bytes_of_u32 (interestLifetimeMs i))] else [])
     @ (if hopLimit i \<noteq> 256 then [(tlv_HOP_LIMIT, bytes_of_u32 (hopLimit i))] else [])
     @ (if parameters i \<noteq> [] then [(tlv_PARAMETERS, parameters i)] else [])"

definition u32_of_bytes :: "8 word list \<Rightarrow> 32 word" where
  "u32_of_bytes bs = ucast (bs ! 0) OR push_bit 8 (ucast (bs ! 1)) OR push_bit 16 (ucast (bs ! 2))
                     OR push_bit 24 (ucast (bs ! 3))"

lemma u32_of_bytes_of_u32: "u32_of_bytes (bytes_of_u32 w) = w"
proof (rule bit_word_eqI)
  fix n assume "n < LENGTH(32)"
  then have "n < 8 \<or> (8 \<le> n \<and> n < 16) \<or> (16 \<le> n \<and> n < 24) \<or> (24 \<le> n \<and> n < 32)" by auto
  then show "bit (u32_of_bytes (bytes_of_u32 w)) n = bit w n"
    by (auto simp: u32_of_bytes_def bytes_of_u32_def bit_simps)
qed

lemma parse_tlvs_Some_append: "map_option ((@) xs) (Some ys) = Some (xs @ ys)"
  by simp

lemma parse_interest_fields:
  assumes "length (interest_fields tok i) < 256"
  shows "parse_tlvs (interest_fields tok i) = Some (interest_wire tok i)"
proof -
  have "length (name_components tok (pk_name i)) < 256" "length (forwardingHint i) < 256"
    "length (nonce i) < 256" "length (parameters i) < 256"
    using assms by (auto simp: interest_fields_def split: if_splits)
  then show ?thesis
    using parse_tlvs_tlv_if [of "parameters i" "parameters i \<noteq> []" tlv_PARAMETERS "[]"]
    by (simp add: interest_fields_def interest_wire_def parse_tlvs_tlv parse_tlvs_tlv_if)
qed

lemma bytes_of_small_u32:
  assumes "unat w < 256"
  shows "bytes_of_u32 w = [ucast w, 0, 0, 0]"
proof -
  have "unat (drop_bit k w) = 0" if "8 \<le> k" for k
  proof -
    have "(2 :: nat) ^ 8 \<le> 2 ^ k" using that by (intro power_increasing) auto
    with assms have "unat w < 2 ^ k" by simp
    then have "drop_bit k (unat w) = 0" by (simp add: drop_bit_eq_div)
    then show ?thesis by (simp only: unat_drop_bit_eq)
  qed
  then have "drop_bit k w = 0" if "8 \<le> k" for k
    using that by (simp add: unat_eq_zero)
  then show ?thesis by (simp add: bytes_of_u32_def)
qed

lemma parse_signature_block:
  assumes "unat (signatureType d) < 256" "keyLocator d = []"
  shows "parse_tlvs (signature_block d) = None"
  using assms by (simp add: signature_block_def signature_fields_def tlv_if_def tlv_def bytes_of_small_u32)

section \<open>Properties\<close>

text \<open>
  C30: the size function and the encoder agree: for every packet (of any class, with any name
  and any field sizes) \<^verbatim>\<open>computeTlvPacketSize\<close> returns the number of bytes \<^verbatim>\<open>encodePacket\<close> writes,
  and one raises exactly when the other does.
\<close>

theorem tlv_size_agrees:
  "computeTlvPacketSize tok p =
     (case encodePacket tok p b of Inl e \<Rightarrow> Inl e | Inr (b', n) \<Rightarrow> Inr n)"
  by (cases p) (auto simp: computeTlvPacketSize_def encodePacket_def INTEREST_def DATA_def
      encodeInterest_length [symmetric, of _ _ b] encodeData_length [symmetric, of _ _ b] split: prod.splits)

text \<open>
  C29: an Interest survives the wire: what \<^verbatim>\<open>encodePacket\<close> writes is one well-formed Interest
  block, and reading its fields back gives the name components, the two flags, the forwarding
  hint, nonce, lifetime, hop limit and parameters of the Interest, each exactly once and in the
  order of the format, as long as the packet fits the one-byte lengths.
\<close>

theorem interest_wire_roundtrip:
  assumes "getType p = INTEREST" "encodePacket tok p b = Inr (b', n)" "n < 258"
  shows "\<exists>i. p = Interest i \<and>
           parse_tlvs (bytes b' n) = Some [(of_int INTEREST, interest_fields tok i)] \<and>
           parse_tlvs (interest_fields tok i) = Some (interest_wire tok i) \<and>
           (interestLifetimeMs i \<noteq> 4000 \<longrightarrow>
              map_option u32_of_bytes (map_of (interest_wire tok i) tlv_INTEREST_LIFETIME)
                = Some (interestLifetimeMs i))"
proof -
  from assms obtain i where p: "p = Interest i" and enc: "encodeInterest tok i b = (b', n)"
    by (cases p) (auto simp: encodePacket_def)
  have len: "length (interest_fields tok i) < 256"
    using assms(3) encodeInterest_length [of tok i b] interest_fields_length [of tok i] enc by simp
  then have "parse_tlvs (bytes b' n) = Some [(of_int INTEREST, interest_fields tok i)]"
    using parse_tlvs_tlv [OF len, of "of_int INTEREST" "[]"] encodeInterest_bytes [OF enc] by simp
  with p parse_interest_fields [OF len] show ?thesis
    by (auto simp: interest_wire_def u32_of_bytes_of_u32 tlv_codes)
qed

theorem interest_wire_roundtrip_witness:
  "\<exists>i. parse_tlvs (bytes (fst (encodeInterest (\<lambda>_. [''a'']) ((new_Interest ''/a'')\<lparr>pk_type := 5\<rparr>) (\<lambda>_. 0))) 7)
     = Some [(of_int INTEREST, interest_fields (\<lambda>_. [''a'']) i)]"
proof -
  let ?i = "(new_Interest ''/a'')\<lparr>pk_type := 5\<rparr>"
  let ?tok = "\<lambda>_ :: string. [''a'']"
  have n: "snd (encodeInterest ?tok ?i (\<lambda>_. 0)) = 7"
    by (simp add: encodeInterest_length interestTlvSize_def computeTlvNameSize_def new_Interest_def)
  then have "encodePacket ?tok (Interest ?i) (\<lambda>_. 0) = Inr (fst (encodeInterest ?tok ?i (\<lambda>_. 0)), 7)"
    by (simp add: encodePacket_def INTEREST_def prod_eq_iff)
  from interest_wire_roundtrip [OF _ this] show ?thesis
    by (auto simp: INTEREST_def)
qed

text \<open>
  What \<^verbatim>\<open>encodePacket\<close> writes for a Data packet with no key locator is not a readable packet.
  The outer block and the fields before the signature are right, but the signature block
  announces 3 bytes where 6 follow, so a reader that splits the fields of any Data packet
  with one of the defined signature types runs past the end.
\<close>

theorem data_wire_unreadable:
  assumes "getType (Data d) = DATA" "encodePacket tok (Data d) b = Inr (b', n)" "n < 258"
    and "unat (signatureType d) < 256" "keyLocator d = []"
  shows "parse_tlvs (bytes b' n) = Some [(of_int DATA, data_fields tok d)] \<and>
         parse_tlvs (data_fields tok d) = None"
proof -
  from assms(1,2) have enc: "encodeData tok d b = (b', n)"
    by (simp add: encodePacket_def INTEREST_def DATA_def)
  have "length (tlv_if (meta_fields d \<noteq> []) tlv_META_INFO (meta_fields d))
      = (if meta_fields d \<noteq> [] then length (meta_fields d) + 2 else 0)" by simp
  have size: "dataTlvSize tok d = n" using encodeData_length [of tok d b] enc by simp
  then have small: "length (meta_fields d) < 256" "length (content d) < 256"
      "length (name_components tok (pk_name d)) < 256"
    using assms(3) length_name_components [of tok "pk_name d"]
    by (auto simp: dataTlvSize_def meta_fields_def Let_def split: if_splits)
  have bs: "bytes b' n = tlv (of_int DATA) (data_fields tok d)"
    by (rule encodeData_bytes [OF enc small(1)])
  have "length (bytes b' n) = length (tlv (of_int DATA) (data_fields tok d))" by (simp only: bs)
  with assms(3) have "length (data_fields tok d) < 256" by simp
  then have "parse_tlvs (bytes b' n) = Some [(of_int DATA, data_fields tok d)]"
    using parse_tlvs_tlv [of "data_fields tok d" "of_int DATA" "[]"] by (simp add: bs)
  moreover have "parse_tlvs (data_fields tok d) = None"
    using small parse_signature_block [OF assms(4,5)]
    by (simp add: data_fields_def parse_tlvs_tlv parse_tlvs_tlv_if)
  ultimately show ?thesis ..
qed

theorem data_wire_unreadable_witness:
  "parse_tlvs (data_fields (\<lambda>_. [''a'']) ((new_Data ''/a'')\<lparr>pk_type := 6\<rparr>)) = None"
proof -
  let ?d = "(new_Data ''/a'')\<lparr>pk_type := 6\<rparr>"
  let ?tok = "\<lambda>_ :: string. [''a'']"
  have n: "snd (encodeData ?tok ?d (\<lambda>_. 0)) = 23"
    by (simp add: encodeData_length dataTlvSize_def computeTlvNameSize_def new_Data_def OMITTED_def)
  then have "encodePacket ?tok (Data ?d) (\<lambda>_. 0) = Inr (fst (encodeData ?tok ?d (\<lambda>_. 0)), 23)"
    by (simp add: encodePacket_def INTEREST_def DATA_def prod_eq_iff)
  from data_wire_unreadable [OF _ this] show ?thesis
    by (simp add: DATA_def new_Data_def)
qed

end
