(* ===== verification/FibTable.thy ===== *)
theory FibTable
  imports NdnPackets
begin

text \<open>
  The forwarding information base, \<^verbatim>\<open>inet/networklayer/contract/ndn/IFib.h\<close> (its entries) and
  \<^verbatim>\<open>inet/networklayer/ndn/FibBase.{h,cc}\<close> (the table): prefixes learned from Data packets or
  registered by local applications, each with the face and MAC address of the next hop and an
  expiry time.  A name is matched by the first entry whose prefix starts it; the main result is
  that, under the invariant every operation keeps, this first match is the longest match.
\<close>

section \<open>Entries and table\<close>

record fib_entry =
  fe_macDest :: MACAddress
  fe_prefix :: string
  fe_face :: gate
  fe_expireAt :: simtime
  fe_erased :: bool

definition new_FibEntry :: "simtime \<Rightarrow> string \<Rightarrow> gate \<Rightarrow> MACAddress \<Rightarrow> int \<Rightarrow> fib_entry" where
  "new_FibEntry now pfx face dest entryLifetime =
     \<lparr>fe_macDest = dest, fe_prefix = pfx, fe_face = face,
      fe_expireAt = now + SimTime_ms entryLifetime, fe_erased = False\<rparr>"

text \<open>\<^verbatim>\<open>IFib::Notification\<close>, emitted with the signal \<^verbatim>\<open>entryExpired\<close>.\<close>

record fib_notification =
  fn_prefix :: string
  fn_face :: gate
  fn_macDest :: MACAddress

text \<open>
  \<open>fib_checkExpired\<close> is the arrival time of the timer message when it is scheduled.
  \<open>fib_faults\<close> lists the accesses outside an object that the table has made so far: the text
  buffer of \<^verbatim>\<open>print\<close> is too short for its lines.  The standard leaves everything after such an
  access open; the model goes on as if only bytes of the caller's stack that are no part of the
  state had been overwritten, and keeps the record so that every statement can mention it.
\<close>

record fib =
  fib_entries :: "fib_entry list"
  fib_checkExpired :: "simtime option"
  fib_maxSize :: nat
  fib_entryLifetime :: int
  fib_numAdded :: nat
  fib_numRemoved :: nat
  fib_numMatched :: nat
  fib_numMissed :: nat
  fib_numExpired :: nat
  fib_faults :: "sim_error list"

definition fib_initialize :: "nat \<Rightarrow> int \<Rightarrow> fib" where
  "fib_initialize maxSize entryLifetime =
     \<lparr>fib_entries = [], fib_checkExpired = None, fib_maxSize = maxSize,
      fib_entryLifetime = entryLifetime, fib_numAdded = 0, fib_numRemoved = 0,
      fib_numMatched = 0, fib_numMissed = 0, fib_numExpired = 0, fib_faults = []\<rparr>"

section \<open>Operations\<close>

text \<open>\<open>Some i\<close> stands for the result \<^verbatim>\<open>true\<close> with \<^verbatim>\<open>*index = i\<close>.\<close>

definition fe_matches :: "string \<Rightarrow> fib_entry \<Rightarrow> bool" where
  "fe_matches name e \<longleftrightarrow> strncmp_eq (fe_prefix e) name (length (fe_prefix e))"

definition fib_match :: "fib \<Rightarrow> string \<Rightarrow> nat option" where
  "fib_match F name = (if fib_entries F = [] then None else find_index (fe_matches name) (fib_entries F))"

definition fib_lookup :: "string \<Rightarrow> fib \<Rightarrow> fib_entry option \<times> fib" where
  "fib_lookup name F =
     (case fib_match F name of
        Some index \<Rightarrow>
          if fe_erased (fib_entries F ! index) then (None, F)
          else (Some (fib_entries F ! index), F\<lparr>fib_numMatched := fib_numMatched F + 1\<rparr>)
      | None \<Rightarrow> (None, F\<lparr>fib_numMissed := fib_numMissed F + 1\<rparr>))"

definition fib_registerPrefix :: "simtime \<Rightarrow> string \<Rightarrow> gate \<Rightarrow> MACAddress \<Rightarrow> fib \<Rightarrow> bool \<times> fib" where
  "fib_registerPrefix now pfx face dest F =
     (if fib_match F pfx = None \<and> length (fib_entries F) < fib_maxSize F
      then (True, F\<lparr>fib_entries := fib_entries F @ [new_FibEntry now pfx face dest 100000],
                    fib_numAdded := fib_numAdded F + 1\<rparr>)
      else (False, F))"

text \<open>
  \<^verbatim>\<open>std::string prefix(name, length)\<close> copies \<^verbatim>\<open>length\<close> characters: a negative length raises,
  and a length beyond the end of the name reads outside of it.
\<close>

definition std_string :: "string \<Rightarrow> int \<Rightarrow> sim_error + string" where
  "std_string name n =
     (if n < 0 then Inl (RuntimeError ''std::length_error'')
      else if int (length name) < n then Inl (UndefinedBehaviour ''read past the end of name'')
      else Inr (take (nat n) name))"

text \<open>
  \<^verbatim>\<open>print\<close>: one line for the header and one for each entry, written with \<^verbatim>\<open>sprintf\<close> and the
  format \<^verbatim>\<open>"%-32s %-15s %-17s\n"\<close> into a buffer of 65 characters.  A text that, with its NUL,
  is longer than the buffer is written past its end.
\<close>

definition pad_right :: "nat \<Rightarrow> string \<Rightarrow> string" where
  "pad_right n s = s @ replicate (n - length s) CHR '' ''"

definition fib_row :: "string \<Rightarrow> string \<Rightarrow> string \<Rightarrow> string" where
  "fib_row pfx face mac =
     pad_right 32 pfx @ '' '' @ pad_right 15 face @ '' '' @ pad_right 17 mac @ [CHR 0x0A]"

definition sprintf_into :: "nat \<Rightarrow> string \<Rightarrow> string \<Rightarrow> sim_error list" where
  "sprintf_into bytes buf txt =
     (if bytes < length txt + 1 then [UndefinedBehaviour (''sprintf writes past the end of '' @ buf)] else [])"

definition fib_print :: "fib \<Rightarrow> sim_error list" where
  "fib_print F =
     concat (map (sprintf_into 65 ''FibBase::print: buf'')
       (fib_row ''Prefix'' ''Face'' ''MAC@'' #
        map (\<lambda>e. fib_row (fe_prefix e) (gate_name (fe_face e)) (mac_str (fe_macDest e))) (fib_entries F)))"

definition fib_create :: "simtime \<Rightarrow> string \<Rightarrow> int \<Rightarrow> gate \<Rightarrow> MACAddress \<Rightarrow> fib \<Rightarrow> sim_error + (bool \<times> fib)" where
  "fib_create now name len face dest F =
     (case fib_match F name of
        Some index \<Rightarrow>
          Inr (True, F\<lparr>fib_entries := (fib_entries F)[index := (fib_entries F ! index)
                 \<lparr>fe_macDest := dest, fe_erased := False,
                  fe_expireAt := now + SimTime_ms (fib_entryLifetime F)\<rparr>]\<rparr>)
      | None \<Rightarrow>
          if length (fib_entries F) \<ge> fib_maxSize F then Inr (False, F)
          else bind_result (std_string name len) (\<lambda>pfx.
            let F' = F\<lparr>fib_entries := fib_entries F @ [new_FibEntry now pfx face dest (fib_entryLifetime F)],
                       fib_numAdded := fib_numAdded F + 1,
                       fib_checkExpired := (if fib_checkExpired F = None then Some (now + SimTime_ms 1000)
                                            else fib_checkExpired F)\<rparr>
            in Inr (True, F'\<lparr>fib_faults := fib_faults F' @ fib_print F'\<rparr>)))"

definition fib_remove :: "string \<Rightarrow> fib \<Rightarrow> bool \<times> fib" where
  "fib_remove pfx F =
     (if fib_entries F = [] then (False, F)
      else if \<exists>e \<in> set (fib_entries F). fe_prefix e = pfx
      then (True, F\<lparr>fib_entries := erase_first (\<lambda>e. fe_prefix e = pfx) (fib_entries F),
                    fib_numRemoved := fib_numRemoved F + 1\<rparr>)
      else (False, F))"

text \<open>The loop of \<^verbatim>\<open>cleanExpired\<close>: entries, notifications emitted, expiries counted.\<close>

fun fib_clean_loop :: "simtime \<Rightarrow> fib_entry list \<Rightarrow> fib_entry list \<times> fib_notification list \<times> nat" where
  "fib_clean_loop now [] = ([], [], 0)"
| "fib_clean_loop now (e # es) =
     (let (es', ns, k) = fib_clean_loop now es in
      if \<not> fe_erased e \<and> fe_expireAt e \<le> now
      then (e\<lparr>fe_erased := True\<rparr> # es',
            \<lparr>fn_prefix = fe_prefix e, fn_face = fe_face e, fn_macDest = fe_macDest e\<rparr> # ns, Suc k)
      else (e # es', ns, k))"

definition fib_cleanExpired :: "simtime \<Rightarrow> fib \<Rightarrow> fib_notification list \<times> fib" where
  "fib_cleanExpired now F =
     (let (es, ns, k) = fib_clean_loop now (fib_entries F)
      in (ns, F\<lparr>fib_entries := es, fib_numExpired := fib_numExpired F + k\<rparr>))"

text \<open>
  \<^verbatim>\<open>handleMessage\<close>: the timer message is not scheduled while it is handled; other messages
  are deleted.
\<close>

definition fib_handleMessage :: "simtime \<Rightarrow> bool \<Rightarrow> fib \<Rightarrow> fib_notification list \<times> fib" where
  "fib_handleMessage now isSelfMessage F =
     (if isSelfMessage
      then let (ns, F1) = fib_cleanExpired now (F\<lparr>fib_checkExpired := None\<rparr>)
           in (ns, if fib_entries F1 \<noteq> [] then F1\<lparr>fib_checkExpired := Some (now + SimTime_ms 1000)\<rparr> else F1)
      else ([], F))"

section \<open>Matching\<close>

lemma fe_matches_prefix: "fe_matches name e \<longleftrightarrow> prefix (fe_prefix e) name"
  by (simp add: fe_matches_def strncmp_eq_prefix)

lemma fib_match_eq: "fib_match F name = find_index (fe_matches name) (fib_entries F)"
  by (simp add: fib_match_def)

lemma fib_match_None: "fib_match F name = None \<longleftrightarrow> (\<forall>e \<in> set (fib_entries F). \<not> prefix (fe_prefix e) name)"
  by (simp add: fib_match_eq find_index_None_iff fe_matches_prefix)

lemma fib_match_Some:
  "fib_match F name = Some i \<longleftrightarrow>
     i < length (fib_entries F) \<and> prefix (fe_prefix (fib_entries F ! i)) name
     \<and> (\<forall>j < i. \<not> prefix (fe_prefix (fib_entries F ! j)) name)"
  by (simp add: fib_match_eq find_index_Some_iff fe_matches_prefix)

section \<open>The buffer of print\<close>

text \<open>Every line has at least 67 characters, so each of them overruns the buffer.\<close>

definition print_overrun :: sim_error where
  "print_overrun = UndefinedBehaviour ''sprintf writes past the end of FibBase::print: buf''"

lemma length_fib_row: "67 \<le> length (fib_row pfx face mac)"
  by (simp add: fib_row_def pad_right_def)

lemma fib_print_overruns: "fib_print F = replicate (Suc (length (fib_entries F))) print_overrun"
proof -
  have "sprintf_into 65 ''FibBase::print: buf'' (fib_row p f m) = [print_overrun]" for p f m
    using length_fib_row [of p f m] by (simp add: sprintf_into_def print_overrun_def)
  moreover have "concat (map (\<lambda>e. [print_overrun]) es) = replicate (length es) print_overrun" for es :: "fib_entry list"
    by (induction es) simp_all
  ultimately show ?thesis by (simp add: fib_print_def comp_def)
qed

lemma fib_create_faults:
  assumes "fib_create now name len face dest F = Inr (ok, F')"
  shows "length (fib_entries F') = length (fib_entries F) \<and> fib_faults F' = fib_faults F
    \<or> ok \<and> length (fib_entries F') = Suc (length (fib_entries F))
      \<and> fib_faults F' = fib_faults F @ replicate (Suc (length (fib_entries F'))) print_overrun"
  using assms
  by (auto simp: fib_create_def bind_result_Inr_iff Let_def fib_print_overruns split: option.splits if_splits)

section \<open>Invariant\<close>

text \<open>
  No prefix in the table starts a prefix that comes after it, the size is bounded by
  \<^verbatim>\<open>maxSize\<close>, and the counters account for the entries.
\<close>

definition not_shadowed :: "fib_entry \<Rightarrow> fib_entry \<Rightarrow> bool" where
  "not_shadowed e e' \<longleftrightarrow> \<not> prefix (fe_prefix e) (fe_prefix e')"

definition fib_inv :: "fib \<Rightarrow> bool" where
  "fib_inv F \<longleftrightarrow> sorted_wrt not_shadowed (fib_entries F)
     \<and> length (fib_entries F) \<le> fib_maxSize F
     \<and> fib_numAdded F = fib_numRemoved F + length (fib_entries F)"

lemma fib_inv_initialize: "fib_inv (fib_initialize n l)"
  by (simp add: fib_inv_def fib_initialize_def)

lemma sorted_wrt_not_shadowed_cong:
  "map fe_prefix es = map fe_prefix es' \<Longrightarrow> sorted_wrt not_shadowed es = sorted_wrt not_shadowed es'"
proof -
  have "sorted_wrt not_shadowed xs = sorted_wrt (\<lambda>p q. \<not> prefix p q) (map fe_prefix xs)" for xs
    by (simp add: sorted_wrt_map not_shadowed_def [abs_def])
  then show "map fe_prefix es = map fe_prefix es' \<Longrightarrow> sorted_wrt not_shadowed es = sorted_wrt not_shadowed es'"
    by simp
qed

lemma fib_clean_loop_prefixes: "map fe_prefix (fst (fib_clean_loop now es)) = map fe_prefix es"
  by (induction es) (auto simp: Let_def split: prod.splits)

lemma fib_clean_loop_eq:
  "fib_clean_loop now es =
     (map (\<lambda>e. if \<not> fe_erased e \<and> fe_expireAt e \<le> now then e\<lparr>fe_erased := True\<rparr> else e) es,
      map (\<lambda>e. \<lparr>fn_prefix = fe_prefix e, fn_face = fe_face e, fn_macDest = fe_macDest e\<rparr>)
        (filter (\<lambda>e. \<not> fe_erased e \<and> fe_expireAt e \<le> now) es),
      length (filter (\<lambda>e. \<not> fe_erased e \<and> fe_expireAt e \<le> now) es))"
  by (induction es) auto

lemma fib_inv_append:
  assumes "fib_inv F" "fib_match F name = None" "prefix (fe_prefix e) name"
    and "length (fib_entries F) < fib_maxSize F"
  shows "fib_inv (F\<lparr>fib_entries := fib_entries F @ [e], fib_numAdded := fib_numAdded F + 1\<rparr>)"
proof -
  have "not_shadowed e' e" if "e' \<in> set (fib_entries F)" for e'
    using that assms(2,3) by (auto simp: fib_match_None not_shadowed_def dest: prefix_order.order_trans)
  with assms(1,4) show ?thesis by (simp add: fib_inv_def sorted_wrt_snoc)
qed

lemma fib_inv_lookup: "fib_inv F \<Longrightarrow> fib_inv (snd (fib_lookup name F))"
  by (auto simp: fib_lookup_def fib_inv_def split: option.splits)

lemma fib_inv_registerPrefix: "fib_inv F \<Longrightarrow> fib_inv (snd (fib_registerPrefix now pre face dest F))"
  using fib_inv_append [of F pre "new_FibEntry now pre face dest 100000"]
  by (simp add: fib_registerPrefix_def new_FibEntry_def)

lemma fib_inv_create:
  assumes "fib_inv F" "fib_create now name len face dest F = Inr (ok, F')"
  shows "fib_inv F'"
proof (cases "fib_match F name")
  case (Some i)
  have "sorted_wrt not_shadowed ((fib_entries F)[i := (fib_entries F ! i)
      \<lparr>fe_macDest := dest, fe_erased := False, fe_expireAt := now + SimTime_ms (fib_entryLifetime F)\<rparr>])
      = sorted_wrt not_shadowed (fib_entries F)"
    using Some by (intro sorted_wrt_not_shadowed_cong nth_equalityI) (auto simp: fib_match_Some nth_list_update)
  with assms Some show ?thesis by (auto simp: fib_create_def fib_inv_def)
next
  case None
  show ?thesis
  proof (cases "length (fib_entries F) \<ge> fib_maxSize F")
    case True
    with None assms show ?thesis by (simp add: fib_create_def)
  next
    case False
    with None assms(2) obtain p where "std_string name len = Inr p"
      and F': "fib_entries F' = fib_entries F @ [new_FibEntry now p face dest (fib_entryLifetime F)]"
        "fib_numAdded F' = fib_numAdded F + 1" "fib_maxSize F' = fib_maxSize F" "fib_numRemoved F' = fib_numRemoved F"
      by (auto simp: fib_create_def bind_result_Inr_iff Let_def)
    then have "prefix p name" by (auto simp: std_string_def take_is_prefix split: if_splits)
    with fib_inv_append [OF assms(1) None, of "new_FibEntry now p face dest (fib_entryLifetime F)"] False
    show ?thesis by (simp add: F' fib_inv_def new_FibEntry_def)
  qed
qed

lemma fib_inv_remove: "fib_inv F \<Longrightarrow> fib_inv (snd (fib_remove pre F))"
  by (auto simp: fib_remove_def fib_inv_def sorted_wrt_erase_first length_erase_first Suc_diff_Suc
      dest: length_pos_if_in_set)

lemma fib_inv_cleanExpired: "fib_inv F \<Longrightarrow> fib_inv (snd (fib_cleanExpired now F))"
  using sorted_wrt_not_shadowed_cong [OF fib_clean_loop_prefixes [of now "fib_entries F"]]
  by (simp add: fib_cleanExpired_def fib_inv_def fib_clean_loop_eq)

lemma fib_inv_handleMessage: "fib_inv F \<Longrightarrow> fib_inv (snd (fib_handleMessage now self F))"
  using fib_inv_cleanExpired [of "F\<lparr>fib_checkExpired := None\<rparr>" now]
  by (auto simp: fib_handleMessage_def fib_inv_def Let_def split: prod.splits)

section \<open>The first match is the longest match\<close>

text \<open>
  Specification: \<open>longest_match es name e\<close> says that \<open>e\<close> is the entry with the longest prefix
  of the name.
\<close>

definition longest_match :: "fib_entry list \<Rightarrow> string \<Rightarrow> fib_entry \<Rightarrow> bool" where
  "longest_match es name e \<longleftrightarrow> e \<in> set es \<and> prefix (fe_prefix e) name \<and>
     (\<forall>e' \<in> set es. prefix (fe_prefix e') name \<longrightarrow> length (fe_prefix e') \<le> length (fe_prefix e))"

lemma prefix_length_eq: "prefix xs ys \<Longrightarrow> length ys \<le> length xs \<Longrightarrow> xs = ys"
  by (auto simp: prefix_def)

lemma fib_match_longest:
  assumes inv: "fib_inv F" and m: "fib_match F name = Some i"
  shows "longest_match (fib_entries F) name (fib_entries F ! i)"
  unfolding longest_match_def
proof (intro conjI ballI impI)
  let ?es = "fib_entries F"
  from m have i: "i < length ?es" "prefix (fe_prefix (?es ! i)) name"
    and first: "\<forall>j < i. \<not> prefix (fe_prefix (?es ! j)) name"
    by (simp_all add: fib_match_Some)
  show "?es ! i \<in> set ?es" "prefix (fe_prefix (?es ! i)) name" using i by simp_all
  fix e' assume "e' \<in> set ?es" and p: "prefix (fe_prefix e') name"
  then obtain j where j: "j < length ?es" "e' = ?es ! j" by (auto simp: in_set_conv_nth)
  have "i \<le> j" using first p j(2) by (meson not_less)
  show "length (fe_prefix e') \<le> length (fe_prefix (?es ! i))"
  proof (cases "i = j")
    case True
    with j show ?thesis by simp
  next
    case False
    with \<open>i \<le> j\<close> j inv have "\<not> prefix (fe_prefix (?es ! i)) (fe_prefix e')"
      by (auto simp: fib_inv_def sorted_wrt_iff_nth_less not_shadowed_def)
    with i(2) p prefix_same_cases have "prefix (fe_prefix e') (fe_prefix (?es ! i))" by blast
    then show ?thesis by (rule prefix_length_le)
  qed
qed

lemma not_shadowed_nth:
  "fib_inv F \<Longrightarrow> i < j \<Longrightarrow> j < length (fib_entries F) \<Longrightarrow>
   \<not> prefix (fe_prefix (fib_entries F ! i)) (fe_prefix (fib_entries F ! j))"
  by (auto simp: fib_inv_def sorted_wrt_iff_nth_less not_shadowed_def)

lemma longest_match_unique:
  assumes inv: "fib_inv F" and e: "longest_match (fib_entries F) name e" "longest_match (fib_entries F) name e'"
  shows "e = e'"
proof -
  have "fe_prefix e = fe_prefix e'"
    using e prefix_same_cases [of "fe_prefix e" name "fe_prefix e'"]
      prefix_length_eq [of "fe_prefix e" "fe_prefix e'"] prefix_length_eq [of "fe_prefix e'" "fe_prefix e"]
    by (auto simp: longest_match_def)
  moreover obtain i j where ij: "i < length (fib_entries F)" "e = fib_entries F ! i"
    "j < length (fib_entries F)" "e' = fib_entries F ! j"
    using e by (auto simp: longest_match_def in_set_conv_nth)
  ultimately have "\<not> i < j" "\<not> j < i"
    using inv not_shadowed_nth [of F i j] not_shadowed_nth [of F j i] by auto
  with ij show ?thesis by simp
qed

lemma fib_lookup_iff:
  assumes "fib_inv F"
  shows "fst (fib_lookup name F) = Some e \<longleftrightarrow> longest_match (fib_entries F) name e \<and> \<not> fe_erased e"
proof (cases "fib_match F name")
  case None
  then have "\<forall>e \<in> set (fib_entries F). \<not> prefix (fe_prefix e) name" by (simp add: fib_match_None)
  with None show ?thesis by (auto simp: fib_lookup_def longest_match_def)
next
  case (Some i)
  from fib_match_longest [OF assms Some] have l: "longest_match (fib_entries F) name (fib_entries F ! i)" .
  with longest_match_unique [OF assms l]
  have "longest_match (fib_entries F) name e \<longleftrightarrow> e = fib_entries F ! i" by blast
  with Some show ?thesis by (simp add: fib_lookup_def) auto
qed

section \<open>Runs of the table\<close>

datatype fib_op =
    FibLookup string
  | FibRegister simtime string gate MACAddress
  | FibCreate simtime string int gate MACAddress
  | FibRemove string
  | FibHandleMessage simtime bool

fun fib_exec :: "fib_op \<Rightarrow> fib \<Rightarrow> sim_error + fib" where
  "fib_exec (FibLookup name) F = Inr (snd (fib_lookup name F))"
| "fib_exec (FibRegister now pfx face dest) F = Inr (snd (fib_registerPrefix now pfx face dest F))"
| "fib_exec (FibCreate now name len face dest) F =
     bind_result (fib_create now name len face dest F) (\<lambda>r. Inr (snd r))"
| "fib_exec (FibRemove pfx) F = Inr (snd (fib_remove pfx F))"
| "fib_exec (FibHandleMessage now self) F = Inr (snd (fib_handleMessage now self F))"

fun fib_admissible :: "fib_op \<Rightarrow> bool" where
  "fib_admissible (FibCreate now name len face dest) \<longleftrightarrow> 0 \<le> len \<and> len \<le> int (length name)"
| "fib_admissible op \<longleftrightarrow> True"

lemma fib_create_returns:
  "0 \<le> len \<Longrightarrow> len \<le> int (length name) \<Longrightarrow> \<exists>r. fib_create now name len face dest F = Inr r"
  by (auto simp: fib_create_def std_string_def Let_def split: option.splits)

interpretation fib_runs: safe_component fib_exec fib_inv fib_admissible
proof unfold_locales
  fix F F' op
  show "fib_inv F \<Longrightarrow> fib_exec op F = Inr F' \<Longrightarrow> fib_inv F'"
    by (cases op) (auto simp: fib_inv_lookup fib_inv_registerPrefix fib_inv_remove fib_inv_handleMessage
        bind_result_Inr_iff intro: fib_inv_create)
  show "fib_inv F \<Longrightarrow> fib_admissible op \<Longrightarrow> \<exists>F'. fib_exec op F = Inr F'"
    using fib_create_returns by (cases op) (fastforce simp: bind_result_Inr_iff)+
qed

lemma fib_lookup_after_create:
  assumes c: "fib_create now name len face dest F = Inr (True, F')"
  shows "\<exists>e. fst (fib_lookup name F') = Some e \<and> fe_macDest e = dest
           \<and> fe_expireAt e = now + SimTime_ms (fib_entryLifetime F)
           \<and> fe_face e = (case fib_match F name of Some i \<Rightarrow> fe_face (fib_entries F ! i) | None \<Rightarrow> face)"
proof (cases "fib_match F name")
  case (Some i)
  define e where "e = (fib_entries F ! i)\<lparr>fe_macDest := dest, fe_erased := False,
    fe_expireAt := now + SimTime_ms (fib_entryLifetime F)\<rparr>"
  from c Some have F': "F' = F\<lparr>fib_entries := (fib_entries F)[i := e]\<rparr>"
    by (simp add: fib_create_def e_def)
  from Some have "fib_match F' name = Some i"
    by (auto simp: fib_match_Some F' e_def nth_list_update)
  moreover have "fib_entries F' ! i = e" using Some by (simp add: F' fib_match_Some)
  ultimately show ?thesis using Some by (simp add: fib_lookup_def e_def)
next
  case None
  with c obtain p where p: "std_string name len = Inr p"
    and F': "fib_entries F' = fib_entries F @ [new_FibEntry now p face dest (fib_entryLifetime F)]"
    by (auto simp: fib_create_def bind_result_Inr_iff Let_def split: if_splits)
  have "prefix p name" using p by (auto simp: std_string_def take_is_prefix split: if_splits)
  with None have "fib_match F' name = Some (length (fib_entries F))"
    by (auto simp: fib_match_Some fib_match_None F' new_FibEntry_def nth_append)
  then show ?thesis using None by (simp add: fib_lookup_def F' new_FibEntry_def)
qed

section \<open>Properties\<close>

text \<open>
  C5: longest-prefix match.  After any run of table operations from the empty table, \<^verbatim>\<open>lookup\<close>
  returns an entry exactly when that entry has the longest prefix of the name in the table and
  is not marked obsolete, although the code takes the first match it meets.
\<close>

theorem fib_lookup_longest_prefix:
  assumes "run_result fib_exec ops (fib_initialize maxSize lifetime) = Inr F"
  shows "fst (fib_lookup name F) = Some e \<longleftrightarrow> longest_match (fib_entries F) name e \<and> \<not> fe_erased e"
  by (rule fib_lookup_iff [OF fib_runs.run_keeps [OF fib_inv_initialize assms]])

theorem fib_lookup_longest_prefix_witness:
  "\<exists>F e. run_result fib_exec [FibRegister 0 ''/a/b'' nullGate (MACAddress 1),
                             FibRegister 0 ''/a'' nullGate (MACAddress 2)]
          (fib_initialize 10 5) = Inr F \<and>
        length (fib_entries F) = 2 \<and> fst (fib_lookup ''/a/b/c'' F) = Some e \<and> fe_macDest e = MACAddress 1"
proof -
  let ?e1 = "new_FibEntry 0 ''/a/b'' nullGate (MACAddress 1) 100000"
  let ?e2 = "new_FibEntry 0 ''/a'' nullGate (MACAddress 2) 100000"
  let ?F = "(fib_initialize 10 5)\<lparr>fib_entries := [?e1, ?e2], fib_numAdded := 2\<rparr>"
  have run: "run_result fib_exec [FibRegister 0 ''/a/b'' nullGate (MACAddress 1),
      FibRegister 0 ''/a'' nullGate (MACAddress 2)] (fib_initialize 10 5) = Inr ?F"
    by (simp add: fib_registerPrefix_def fib_match_eq fe_matches_def new_FibEntry_def fib_initialize_def)
  have "longest_match (fib_entries ?F) ''/a/b/c'' ?e1 \<and> \<not> fe_erased ?e1"
    by (simp add: longest_match_def new_FibEntry_def)
  then have "fst (fib_lookup ''/a/b/c'' ?F) = Some ?e1"
    using fib_lookup_longest_prefix [OF run] by simp
  with run show ?thesis by (intro exI [of _ ?F] exI [of _ ?e1]) (simp add: new_FibEntry_def)
qed

text \<open>
  The table is safe under every sequence of admissible calls (prefix lengths within the
  name): no call raises, the size never exceeds \<^verbatim>\<open>maxSize\<close>, and the counters \<^verbatim>\<open>numAdded\<close> and
  \<^verbatim>\<open>numRemoved\<close> account exactly for the entries that are there.
\<close>

theorem fib_runs_safe:
  assumes "list_all fib_admissible ops"
  shows "\<exists>F. run_result fib_exec ops (fib_initialize maxSize lifetime) = Inr F \<and>
           length (fib_entries F) \<le> fib_maxSize F \<and>
           fib_numAdded F = fib_numRemoved F + length (fib_entries F)"
  using fib_runs.run_safe [OF fib_inv_initialize assms] by (auto simp: fib_inv_def)

theorem fib_runs_safe_witness:
  "\<exists>F. run_result fib_exec [FibCreate 0 ''/a/b'' 2 nullGate (MACAddress 1), FibHandleMessage 7 True]
         (fib_initialize 10 5) = Inr F \<and> fib_numAdded F = fib_numRemoved F + length (fib_entries F)"
proof -
  have "list_all fib_admissible [FibCreate 0 ''/a/b'' 2 nullGate (MACAddress 1), FibHandleMessage 7 True]"
    by simp
  from fib_runs_safe [OF this] show ?thesis by blast
qed

text \<open>
  Learning.  When \<^verbatim>\<open>create\<close> succeeds for a name, the next lookup of that name finds a live
  entry with the new MAC address and a fresh expiry time; the face is the new one only if the
  name had no match before, otherwise the old entry keeps its face.
\<close>

theorem fib_create_then_lookup:
  assumes "fib_create now name len face dest F = Inr (True, F')"
  shows "\<exists>e. fst (fib_lookup name F') = Some e \<and> fe_macDest e = dest
           \<and> fe_expireAt e = now + SimTime_ms (fib_entryLifetime F)
           \<and> fe_face e = (case fib_match F name of Some i \<Rightarrow> fe_face (fib_entries F ! i) | None \<Rightarrow> face)"
  by (rule fib_lookup_after_create [OF assms])

theorem fib_create_then_lookup_witness:
  "\<exists>F' e. fib_create 3 ''/a/b'' 2 nullGate (MACAddress 9) (fib_initialize 10 5) = Inr (True, F')
       \<and> fst (fib_lookup ''/a/b'' F') = Some e \<and> fe_macDest e = MACAddress 9"
proof -
  obtain F' where F': "fib_create 3 ''/a/b'' 2 nullGate (MACAddress 9) (fib_initialize 10 5) = Inr (True, F')"
    by (simp add: fib_create_def std_string_def fib_match_eq fib_initialize_def Let_def)
  from fib_create_then_lookup [OF this] F' show ?thesis by blast
qed

text \<open>
  Every insertion by \<^verbatim>\<open>create\<close> writes past the end of the buffer of \<^verbatim>\<open>print\<close>, once for the
  header and once for each entry, the new one included, whatever the names are.
\<close>

theorem fib_create_overruns:
  assumes "fib_match F name = None" "length (fib_entries F) < fib_maxSize F" "0 \<le> len" "len \<le> int (length name)"
  shows "\<exists>F'. fib_create now name len face dest F = Inr (True, F')
    \<and> fib_faults F' = fib_faults F @ replicate (length (fib_entries F) + 2) print_overrun"
  using assms by (auto simp: fib_create_def std_string_def Let_def fib_print_overruns)

theorem fib_create_overruns_witness:
  "\<exists>F'. fib_create 3 ''/a/b'' 2 nullGate (MACAddress 9) (fib_initialize 10 5) = Inr (True, F')
     \<and> fib_faults F' = [print_overrun, print_overrun]"
proof -
  have "fib_match (fib_initialize 10 5) ''/a/b'' = None" by (simp add: fib_match_eq fib_initialize_def)
  from fib_create_overruns [OF this, of 2 3 nullGate "MACAddress 9"] show ?thesis
    by (simp add: fib_initialize_def numeral_2_eq_2)
qed

text \<open>
  A prefix registered by a local application does not stay: it is given a lifetime of 100
  seconds, so the first run of the expiry timer after that marks it obsolete, and from then on
  lookups of names below the prefix find nothing, however often the application is asked for.
\<close>

theorem fib_local_prefix_expires:
  assumes reg: "fib_registerPrefix t pfx face mac F = (True, F1)"
    and late: "t + SimTime_ms 100000 \<le> now"
    and name: "prefix pfx name" "fib_match F name = None"
  shows "fst (fib_lookup name (snd (fib_handleMessage now True F1))) = None"
proof -
  define e where "e = new_FibEntry t pfx face mac 100000"
  from reg have F1: "fib_entries F1 = fib_entries F @ [e]"
    by (auto simp: fib_registerPrefix_def e_def split: if_splits)
  define F2 where "F2 = snd (fib_handleMessage now True F1)"
  have ents: "fib_entries F2 = fst (fib_clean_loop now (fib_entries F1))"
    by (auto simp: F2_def fib_handleMessage_def fib_cleanExpired_def Let_def split: prod.splits)
  have "map fe_prefix (fib_entries F2) = map fe_prefix (fib_entries F) @ [pfx]"
    by (simp add: ents fib_clean_loop_prefixes F1 e_def new_FibEntry_def)
  then have pre: "fe_prefix (fib_entries F2 ! i) = (map fe_prefix (fib_entries F) @ [pfx]) ! i"
    if "i < length (fib_entries F2)" for i using that by (metis nth_map)
  have len: "length (fib_entries F2) = Suc (length (fib_entries F))"
    by (simp add: ents fib_clean_loop_eq F1)
  have "fib_match F2 name = Some (length (fib_entries F))"
    using name by (auto simp: fib_match_Some fib_match_None pre len nth_append)
  moreover have "fe_erased (fib_entries F2 ! length (fib_entries F))"
    using late by (simp add: ents fib_clean_loop_eq F1 nth_append e_def new_FibEntry_def)
  ultimately show ?thesis by (simp add: fib_lookup_def F2_def [symmetric])
qed

theorem fib_local_prefix_expires_witness:
  "\<exists>F1. fib_registerPrefix 0 ''/air'' nullGate (MACAddress 1) (fib_initialize 10 5) = (True, F1) \<and>
     fst (fib_lookup ''/air/0'' (snd (fib_handleMessage (SimTime_ms 100000) True F1))) = None"
proof -
  obtain F1 where F1: "fib_registerPrefix 0 ''/air'' nullGate (MACAddress 1) (fib_initialize 10 5) = (True, F1)"
    by (simp add: fib_registerPrefix_def fib_match_eq fib_initialize_def)
  have "fib_match (fib_initialize 10 5) ''/air/0'' = None" by (simp add: fib_match_eq fib_initialize_def)
  from fib_local_prefix_expires [OF F1 _ _ this, of "SimTime_ms 100000"] F1 show ?thesis by auto
qed

end
