(* ===== verification/PitTable.thy ===== *)
theory PitTable
  imports NdnPackets
begin

text \<open>
  The pending interest table, \<^verbatim>\<open>inet/networklayer/contract/ndn/IPit.h\<close> (its entries) and
  \<^verbatim>\<open>inet/networklayer/ndn/PitBase.{h,cc}\<close> (the table): the Interests this node has forwarded and
  not yet satisfied, each with the face and MAC address it came from and its expiry time.  The
  first locale is the contract the forwarding strategy relies on; the table interprets it.
\<close>

section \<open>The contract of a table of pending names\<close>

locale pending_table =
  fixes pending :: "'t \<Rightarrow> string list"
    and lookup :: "string \<Rightarrow> 't \<Rightarrow> 'e option \<times> 't"
    and create :: "'k \<Rightarrow> 't \<Rightarrow> bool \<times> 't"
    and key :: "'k \<Rightarrow> string"
    and remove :: "string \<Rightarrow> 't \<Rightarrow> bool \<times> 't"
  assumes lookup_iff: "fst (lookup n t) = None \<longleftrightarrow> n \<notin> set (pending t)"
    and pending_lookup: "pending (snd (lookup n t)) = pending t"
    and pending_create: "pending (snd (create k t)) = pending t @ (if fst (create k t) then [key k] else [])"
    and pending_remove: "pending (snd (remove n t)) = remove1 n (pending t)"
    and remove_iff: "fst (remove n t) \<longleftrightarrow> n \<in> set (pending t)"
begin

lemma distinct_create:
  "distinct (pending t) \<Longrightarrow> fst (lookup (key k) t) = None \<Longrightarrow> distinct (pending (snd (create k t)))"
  by (simp add: pending_create lookup_iff)

lemma distinct_remove: "distinct (pending t) \<Longrightarrow> distinct (pending (snd (remove n t)))"
  by (simp add: pending_remove)

lemma lookup_after_create: "fst (create k t) \<Longrightarrow> fst (lookup (key k) (snd (create k t))) \<noteq> None"
  by (simp add: pending_create lookup_iff)

lemma lookup_after_remove:
  "distinct (pending t) \<Longrightarrow>
   fst (lookup m (snd (remove n t))) = None \<longleftrightarrow> m = n \<or> fst (lookup m t) = None"
  by (auto simp: pending_remove lookup_iff)

lemma consumed_once:
  "distinct (pending t) \<Longrightarrow> fst (remove n t) \<Longrightarrow> \<not> fst (remove n (snd (remove n t)))"
  by (simp add: remove_iff pending_remove)

end

section \<open>Entries and table\<close>

record pit_entry =
  pe_macSrc :: MACAddress
  pe_interest :: interest
  pe_face :: gate
  pe_erased :: bool
  pe_expireAt :: simtime

definition new_PitEntry :: "simtime \<Rightarrow> interest \<Rightarrow> gate \<Rightarrow> MACAddress \<Rightarrow> pit_entry" where
  "new_PitEntry now i face src =
     \<lparr>pe_macSrc = src, pe_interest = i, pe_face = face, pe_erased = False,
      pe_expireAt = now + SimTime_ms (uint (interestLifetimeMs i))\<rparr>"

text \<open>\<^verbatim>\<open>IPit::Notification\<close>, emitted with the signal \<^verbatim>\<open>interestTimeout\<close>.\<close>

record pit_notification =
  pn_interest :: interest
  pn_face :: gate
  pn_macSrc :: MACAddress

text \<open>\<open>pit_sizeStat\<close> collects the histogram samples, newest last.\<close>

record pit =
  pit_entries :: "pit_entry list"
  pit_maxSize :: nat
  pit_checkTimeout :: "simtime option"
  pit_interestLifetime :: int
  pit_numAdded :: nat
  pit_numRemoved :: nat
  pit_numMatched :: nat
  pit_numMissed :: nat
  pit_numTimeout :: nat
  pit_sizeStat :: "nat list"

definition pit_initialize :: "nat \<Rightarrow> int \<Rightarrow> pit" where
  "pit_initialize maxSize interestLifetime =
     \<lparr>pit_entries = [], pit_maxSize = maxSize, pit_checkTimeout = None,
      pit_interestLifetime = interestLifetime, pit_numAdded = 0, pit_numRemoved = 0,
      pit_numMatched = 0, pit_numMissed = 0, pit_numTimeout = 0, pit_sizeStat = []\<rparr>"

section \<open>Operations\<close>

text \<open>The condition \<^verbatim>\<open>!isErased() && !strcmp(getInterest()->getName(), name)\<close> of the loops.\<close>

definition pe_live :: "string \<Rightarrow> pit_entry \<Rightarrow> bool" where
  "pe_live name e \<longleftrightarrow> \<not> pe_erased e \<and> pk_name (pe_interest e) = name"

definition pit_create :: "simtime \<Rightarrow> interest \<Rightarrow> MACAddress \<Rightarrow> pit \<Rightarrow> bool \<times> pit" where
  "pit_create now i src P =
     (if length (pit_entries P) = pit_maxSize P then (False, P)
      else (True, P\<lparr>pit_entries := pit_entries P @ [new_PitEntry now (dup_interest i) (pk_arrivalGate i) src],
                    pit_numAdded := pit_numAdded P + 1,
                    pit_checkTimeout := (if pit_checkTimeout P = None then Some (now + SimTime_ms 1000)
                                         else pit_checkTimeout P)\<rparr>))"

definition pit_remove :: "string \<Rightarrow> pit \<Rightarrow> bool \<times> pit" where
  "pit_remove name P =
     (if pit_entries P = [] then (False, P)
      else if \<exists>e \<in> set (pit_entries P). pe_live name e
      then (True, P\<lparr>pit_entries := erase_first (pe_live name) (pit_entries P),
                    pit_numRemoved := pit_numRemoved P + 1\<rparr>)
      else (False, P))"

definition pit_lookup :: "string \<Rightarrow> pit \<Rightarrow> pit_entry option \<times> pit" where
  "pit_lookup name P =
     (if pit_entries P = [] then (None, P)
      else let P1 = P\<lparr>pit_sizeStat := pit_sizeStat P @ [length (pit_entries P)]\<rparr> in
        (case find (pe_live name) (pit_entries P) of
           Some e \<Rightarrow> (Some e, P1\<lparr>pit_numMatched := pit_numMatched P + 1\<rparr>)
         | None \<Rightarrow> (None, P1\<lparr>pit_numMissed := pit_numMissed P + 1\<rparr>)))"

text \<open>First loop of \<^verbatim>\<open>cleanTimedout\<close>: expired entries are counted, signalled and marked.\<close>

fun pit_mark_loop :: "simtime \<Rightarrow> pit_entry list \<Rightarrow> pit_entry list \<times> pit_notification list \<times> nat" where
  "pit_mark_loop now [] = ([], [], 0)"
| "pit_mark_loop now (e # es) =
     (let (es', ns, k) = pit_mark_loop now es in
      if \<not> pe_erased e \<and> pe_expireAt e \<le> now
      then (e\<lparr>pe_erased := True\<rparr> # es',
            \<lparr>pn_interest = pe_interest e, pn_face = pe_face e, pn_macSrc = pe_macSrc e\<rparr> # ns, Suc k)
      else (e # es', ns, k))"

text \<open>Second loop: marked entries are deleted and counted.\<close>

fun pit_erase_loop :: "pit_entry list \<Rightarrow> pit_entry list \<times> nat" where
  "pit_erase_loop [] = ([], 0)"
| "pit_erase_loop (e # es) =
     (let (es', k) = pit_erase_loop es in if pe_erased e then (es', Suc k) else (e # es', k))"

definition pit_cleanTimedout :: "simtime \<Rightarrow> pit \<Rightarrow> pit_notification list \<times> pit" where
  "pit_cleanTimedout now P =
     (let (es1, ns, k) = pit_mark_loop now (pit_entries P);
          (es2, r) = pit_erase_loop es1
      in (ns, P\<lparr>pit_entries := es2, pit_numTimeout := pit_numTimeout P + k,
                pit_numRemoved := pit_numRemoved P + r\<rparr>))"

definition pit_handleMessage :: "simtime \<Rightarrow> bool \<Rightarrow> pit \<Rightarrow> pit_notification list \<times> pit" where
  "pit_handleMessage now isSelfMessage P =
     (if isSelfMessage
      then let (ns, P1) = pit_cleanTimedout now (P\<lparr>pit_checkTimeout := None\<rparr>)
           in (ns, if pit_entries P1 \<noteq> [] then P1\<lparr>pit_checkTimeout := Some (now + SimTime_s 1)\<rparr> else P1)
      else ([], P))"

section \<open>The loops\<close>

definition pe_expired :: "simtime \<Rightarrow> pit_entry \<Rightarrow> bool" where
  "pe_expired now e \<longleftrightarrow> \<not> pe_erased e \<and> pe_expireAt e \<le> now"

definition pe_notification :: "pit_entry \<Rightarrow> pit_notification" where
  "pe_notification e = \<lparr>pn_interest = pe_interest e, pn_face = pe_face e, pn_macSrc = pe_macSrc e\<rparr>"

lemma pit_mark_loop_eq:
  "pit_mark_loop now es =
     (map (\<lambda>e. if pe_expired now e then e\<lparr>pe_erased := True\<rparr> else e) es,
      map pe_notification (filter (pe_expired now) es), length (filter (pe_expired now) es))"
  by (induction es) (auto simp: pe_expired_def pe_notification_def)

lemma pit_erase_loop_eq:
  "pit_erase_loop es = (filter (\<lambda>e. \<not> pe_erased e) es, length (filter pe_erased es))"
  by (induction es) auto

lemma filter_marked:
  "filter (\<lambda>e. \<not> pe_erased e) (map (\<lambda>e. if pe_expired now e then e\<lparr>pe_erased := True\<rparr> else e) es)
     = filter (\<lambda>e. \<not> pe_erased e \<and> \<not> pe_expired now e) es"
  by (induction es) (auto simp: pe_expired_def)

section \<open>Invariant\<close>

text \<open>
  Between two calls no entry is marked, the size is bounded, the counters account for the
  entries, and the timer is scheduled as long as there is an entry.
\<close>

definition pit_inv :: "pit \<Rightarrow> bool" where
  "pit_inv P \<longleftrightarrow> list_all (\<lambda>e. \<not> pe_erased e) (pit_entries P)
     \<and> length (pit_entries P) \<le> pit_maxSize P
     \<and> pit_numAdded P = pit_numRemoved P + length (pit_entries P)
     \<and> (pit_entries P \<noteq> [] \<longrightarrow> pit_checkTimeout P \<noteq> None)"

lemma pit_inv_initialize: "pit_inv (pit_initialize n l)"
  by (simp add: pit_inv_def pit_initialize_def)

lemma pit_inv_create: "pit_inv P \<Longrightarrow> pit_inv (snd (pit_create now i src P))"
  by (auto simp: pit_create_def pit_inv_def new_PitEntry_def)

lemma pit_inv_lookup: "pit_inv P \<Longrightarrow> pit_inv (snd (pit_lookup name P))"
  by (auto simp: pit_lookup_def pit_inv_def Let_def split: option.splits)

lemma pit_inv_remove: "pit_inv P \<Longrightarrow> pit_inv (snd (pit_remove name P))"
  using set_erase_first_subset [of "pe_live name" "pit_entries P"]
  by (auto simp: pit_remove_def pit_inv_def list_all_iff length_erase_first Suc_diff_Suc
      dest: length_pos_if_in_set)

lemma live_clean:
  "list_all (\<lambda>e. \<not> pe_erased e) es \<Longrightarrow>
   filter (\<lambda>e. \<not> pe_erased e \<and> \<not> pe_expired now e) es = filter (\<lambda>e. now < pe_expireAt e) es"
  by (rule filter_cong) (auto simp: list_all_iff pe_expired_def)

lemma pit_cleanTimedout_eq:
  assumes "list_all (\<lambda>e. \<not> pe_erased e) (pit_entries P)"
  shows "pit_cleanTimedout now P =
     (map pe_notification (filter (\<lambda>e. pe_expireAt e \<le> now) (pit_entries P)),
      P\<lparr>pit_entries := filter (\<lambda>e. now < pe_expireAt e) (pit_entries P),
        pit_numTimeout := pit_numTimeout P + length (filter (\<lambda>e. pe_expireAt e \<le> now) (pit_entries P)),
        pit_numRemoved := pit_numRemoved P + length (filter (\<lambda>e. pe_expireAt e \<le> now) (pit_entries P))\<rparr>)"
proof -
  have ex: "filter (pe_expired now) (pit_entries P) = filter (\<lambda>e. pe_expireAt e \<le> now) (pit_entries P)"
    using assms by (intro filter_cong) (auto simp: list_all_iff pe_expired_def)
  have "length (filter pe_erased (map (\<lambda>e. if pe_expired now e then e\<lparr>pe_erased := True\<rparr> else e) es))
      = length (filter (pe_expired now) es)" if "list_all (\<lambda>e. \<not> pe_erased e) es" for es
    using that by (induction es) (auto simp: pe_expired_def)
  with assms ex show ?thesis
    by (simp add: pit_cleanTimedout_def pit_mark_loop_eq pit_erase_loop_eq filter_marked live_clean)
qed

lemma pit_inv_handleMessage: "pit_inv P \<Longrightarrow> pit_inv (snd (pit_handleMessage now self P))"
proof -
  assume inv: "pit_inv P"
  have "length (filter (\<lambda>e. pe_expireAt e \<le> now) es) + length (filter (\<lambda>e. now < pe_expireAt e) es) = length es"
    for es :: "pit_entry list"
    by (induction es) auto
  from inv this [of "pit_entries P"] show ?thesis
    by (auto simp: pit_handleMessage_def pit_inv_def pit_cleanTimedout_eq Let_def list_all_iff
        intro: order.trans [OF length_filter_le])
qed

section \<open>The table fulfils the contract\<close>

definition pit_pending :: "pit \<Rightarrow> string list" where
  "pit_pending P = map (\<lambda>e. pk_name (pe_interest e)) (filter (\<lambda>e. \<not> pe_erased e) (pit_entries P))"

lemma pit_pending_iff: "n \<in> set (pit_pending P) \<longleftrightarrow> (\<exists>e \<in> set (pit_entries P). pe_live n e)"
  by (auto simp: pit_pending_def pe_live_def)

lemma pit_pending_erase_first:
  "map (\<lambda>e. pk_name (pe_interest e)) (filter (\<lambda>e. \<not> pe_erased e) (erase_first (pe_live n) es))
     = remove1 n (map (\<lambda>e. pk_name (pe_interest e)) (filter (\<lambda>e. \<not> pe_erased e) es))"
  by (induction es) (auto simp: pe_live_def)

lemma find_None_live: "find (pe_live n) (pit_entries P) = None \<longleftrightarrow> n \<notin> set (pit_pending P)"
  by (auto simp: pit_pending_iff find_None_iff)

interpretation pit: pending_table pit_pending pit_lookup "\<lambda>(now, i, src). pit_create now i src"
  "\<lambda>(now, i, src). pk_name i" pit_remove
proof unfold_locales
  fix n k P
  show "fst (pit_lookup n P) = None \<longleftrightarrow> n \<notin> set (pit_pending P)"
    using find_None_live [of n P] by (auto simp: pit_lookup_def pit_pending_def Let_def split: option.splits)
  show "pit_pending (snd (pit_lookup n P)) = pit_pending P"
    by (simp add: pit_lookup_def pit_pending_def Let_def split: option.splits)
  show "pit_pending (snd ((\<lambda>(now, i, src). pit_create now i src) k P)) =
      pit_pending P @ (if fst ((\<lambda>(now, i, src). pit_create now i src) k P) then [(\<lambda>(now, i, src). pk_name i) k] else [])"
    by (cases k) (simp add: pit_create_def pit_pending_def new_PitEntry_def)
  show "pit_pending (snd (pit_remove n P)) = remove1 n (pit_pending P)"
  proof (cases "n \<in> set (pit_pending P)")
    case True
    then show ?thesis
      by (auto simp: pit_remove_def pit_pending_iff) (simp add: pit_pending_def pit_pending_erase_first)
  next
    case False
    then show ?thesis by (auto simp: pit_remove_def pit_pending_iff remove1_idem)
  qed
  show "fst (pit_remove n P) \<longleftrightarrow> n \<in> set (pit_pending P)"
    by (auto simp: pit_remove_def pit_pending_iff)
qed

section \<open>Runs of the table\<close>

datatype pit_op =
    PitCreate simtime interest MACAddress
  | PitLookup string
  | PitRemove string
  | PitHandleMessage simtime bool

fun pit_exec :: "pit_op \<Rightarrow> pit \<Rightarrow> pit" where
  "pit_exec (PitCreate now i src) P = snd (pit_create now i src P)"
| "pit_exec (PitLookup name) P = snd (pit_lookup name P)"
| "pit_exec (PitRemove name) P = snd (pit_remove name P)"
| "pit_exec (PitHandleMessage now self) P = snd (pit_handleMessage now self P)"

interpretation pit_runs: component pit_exec pit_inv
proof unfold_locales
  fix P op
  show "pit_inv P \<Longrightarrow> pit_inv (pit_exec op P)"
    by (cases op) (simp_all add: pit_inv_create pit_inv_lookup pit_inv_remove pit_inv_handleMessage)
qed

section \<open>Properties\<close>

text \<open>
  C11: after any sequence of calls on the table, its size is within \<^verbatim>\<open>maxSize\<close>, the counters
  account for the entries (\<^verbatim>\<open>numAdded\<close> minus \<^verbatim>\<open>numRemoved\<close>), and the timeout timer is scheduled
  whenever an Interest is pending, so no pending Interest is forgotten.
\<close>

theorem pit_runs_invariant:
  defines "run \<equiv> \<lambda>ops maxSize lifetime. fold pit_exec ops (pit_initialize maxSize lifetime)"
  shows "length (pit_entries (run ops maxSize lifetime)) \<le> pit_maxSize (run ops maxSize lifetime)
    \<and> pit_numAdded (run ops maxSize lifetime)
        = pit_numRemoved (run ops maxSize lifetime) + length (pit_entries (run ops maxSize lifetime))
    \<and> (pit_entries (run ops maxSize lifetime) = [] \<or> (\<exists>t. pit_checkTimeout (run ops maxSize lifetime) = Some t))"
  using pit_runs.run_inv [OF pit_inv_initialize, of ops maxSize lifetime]
  by (auto simp: run_def pit_inv_def)

text \<open>
  The timeout sweep is exact.  In every state the table can reach, the timer message at
  time \<open>now\<close> keeps precisely the Interests that expire later, in their order, and signals each
  of the others once, oldest first; the counters grow by the number of timeouts, and the timer
  is scheduled one second later if something is left.
\<close>

theorem pit_sweep_exact:
  assumes "P = fold pit_exec ops (pit_initialize maxSize lifetime)"
    and "pit_handleMessage now True P = (ns, P')"
  shows "ns = map pe_notification (filter (\<lambda>e. pe_expireAt e \<le> now) (pit_entries P))
    \<and> pit_entries P' = filter (\<lambda>e. now < pe_expireAt e) (pit_entries P)
    \<and> pit_numTimeout P' = pit_numTimeout P + length ns
    \<and> pit_checkTimeout P' = (if pit_entries P' = [] then None else Some (now + SimTime_s 1))"
proof -
  have "pit_inv P" unfolding assms(1) by (rule pit_runs.run_inv [OF pit_inv_initialize])
  then have "list_all (\<lambda>e. \<not> pe_erased e) (pit_entries P)" by (simp add: pit_inv_def)
  with assms(2) show ?thesis
    by (auto simp: pit_handleMessage_def pit_cleanTimedout_eq simp del: filter_empty_conv split: if_splits)
qed

theorem pit_sweep_exact_witness:
  "\<exists>P ns P'. P = fold pit_exec [PitCreate 0 (new_Interest ''/a'') (MACAddress 1)] (pit_initialize 5 4000)
     \<and> pit_handleMessage (SimTime_ms 4000) True P = (ns, P') \<and> length ns = 1 \<and> pit_entries P' = []"
proof -
  define P where "P = fold pit_exec [PitCreate 0 (new_Interest ''/a'') (MACAddress 1)] (pit_initialize 5 4000)"
  obtain ns P' where h: "pit_handleMessage (SimTime_ms 4000) True P = (ns, P')" by fastforce
  have "pit_entries P = [new_PitEntry 0 (dup_interest (new_Interest ''/a'')) nullGate (MACAddress 1)]"
    by (simp add: P_def pit_create_def pit_initialize_def new_Interest_def)
  with pit_sweep_exact [OF P_def h] have "length ns = 1" "pit_entries P' = []"
    by (simp_all add: new_PitEntry_def new_Interest_def)
  with P_def h show ?thesis by blast
qed

text \<open>
  At most one pending Interest per name is consumed once.  If the names pending are
  distinct and \<^verbatim>\<open>create\<close> is only called after a failed lookup, as the forwarder does, they stay
  distinct; the lookup after \<^verbatim>\<open>create\<close> finds the Interest with its face and MAC address, and
  after one \<^verbatim>\<open>remove\<close> of the name neither \<^verbatim>\<open>lookup\<close> nor a second \<^verbatim>\<open>remove\<close> finds anything.
\<close>

theorem pit_create_consume:
  assumes "distinct (pit_pending P)" "fst (pit_lookup (pk_name i) P) = None"
    and "pit_create now i src P = (True, P')"
  shows "distinct (pit_pending P') \<and>
         fst (pit_lookup (pk_name i) P') = Some (new_PitEntry now (dup_interest i) (pk_arrivalGate i) src) \<and>
         fst (pit_remove (pk_name i) P') \<and>
         fst (pit_lookup (pk_name i) (snd (pit_remove (pk_name i) P'))) = None \<and>
         \<not> fst (pit_remove (pk_name i) (snd (pit_remove (pk_name i) P')))"
proof -
  have dist: "distinct (pit_pending P')"
    using pit.distinct_create [of P "(now, i, src)"] assms by simp
  have entries: "pit_entries P' = pit_entries P @ [new_PitEntry now (dup_interest i) (pk_arrivalGate i) src]"
    using assms(3) by (auto simp: pit_create_def split: if_splits)
  have "find (pe_live (pk_name i)) (pit_entries P) = None"
    using assms(2) pit.lookup_iff [of "pk_name i" P] by (simp add: find_None_live)
  then have "find (pe_live (pk_name i)) (pit_entries P')
      = Some (new_PitEntry now (dup_interest i) (pk_arrivalGate i) src)"
    by (simp add: entries find_append pe_live_def new_PitEntry_def)
  then have l: "fst (pit_lookup (pk_name i) P') = Some (new_PitEntry now (dup_interest i) (pk_arrivalGate i) src)"
    by (simp add: pit_lookup_def entries)
  then have r: "fst (pit_remove (pk_name i) P')"
    using pit.lookup_iff [of "pk_name i" P'] by (simp add: pit.remove_iff)
  show ?thesis
    using dist l r pit.consumed_once [OF dist r] pit.lookup_after_remove [OF dist] by simp
qed

theorem pit_create_consume_witness:
  "\<exists>P'. pit_create 0 (new_Interest ''/a'') (MACAddress 1) (pit_initialize 5 4000) = (True, P')
     \<and> fst (pit_remove ''/a'' P')"
proof -
  obtain P' where P': "pit_create 0 (new_Interest ''/a'') (MACAddress 1) (pit_initialize 5 4000) = (True, P')"
    by (simp add: pit_create_def pit_initialize_def)
  have "distinct (pit_pending (pit_initialize 5 4000))"
    and "fst (pit_lookup (pk_name (new_Interest ''/a'')) (pit_initialize 5 4000)) = None"
    by (simp_all add: pit_pending_def pit_initialize_def pit_lookup_def)
  from pit_create_consume [OF this P'] P' show ?thesis by (auto simp: new_Interest_def)
qed

end
