(* ===== verification/ContentStore.thy ===== *)
theory ContentStore
  imports NdnPackets
begin

text \<open>
  The content store, \<^verbatim>\<open>inet/networklayer/contract/ndn/ICs.h\<close> (its entries) and
  \<^verbatim>\<open>inet/networklayer/ndn/CsBase.{h,cc}\<close> (the table): the Data packets this node caches, in
  order of arrival, each with a freshness flag that a timer clears.  The first locale is the
  contract of a bounded first-in first-out cache with one item per name; the table interprets it.
\<close>

section \<open>The contract of a bounded cache\<close>

text \<open>
  \<open>adds op\<close> is the item that an operation offers to the cache, if it offers one.  An item with a
  known key is not stored again; the oldest item leaves a full cache.
\<close>

locale bounded_cache =
  fixes items :: "'t \<Rightarrow> 'd list"
    and capacity :: "'t \<Rightarrow> nat"
    and get :: "string \<Rightarrow> 't \<Rightarrow> 'd option"
    and exec :: "'o \<Rightarrow> 't \<Rightarrow> 't"
    and adds :: "'o \<Rightarrow> 'd option"
    and key :: "'d \<Rightarrow> string"
  assumes get_eq: "get n t = find (\<lambda>d. key d = n) (items t)"
    and capacity_exec: "capacity (exec op t) = capacity t"
    and items_keep: "adds op = None \<Longrightarrow> items (exec op t) = items t"
    and items_add: "adds op = Some d \<Longrightarrow> items (exec op t) =
      (if capacity t = 0 \<or> key d \<in> key ` set (items t) then items t
       else (if length (items t) = capacity t then tl (items t) else items t) @ [d])"
begin

lemma exec_cases:
  assumes "length (items t) \<le> capacity t"
  obtains (kept) "items (exec op t) = items t"
    | (room) d where "adds op = Some d" "items (exec op t) = items t @ [d]"
        "length (items t) < capacity t" "key d \<notin> key ` set (items t)"
    | (full) d where "adds op = Some d" "items (exec op t) = tl (items t) @ [d]"
        "length (items t) = capacity t" "capacity t \<noteq> 0" "key d \<notin> key ` set (items t)"
proof (cases "adds op")
  case None
  then show ?thesis using kept items_keep by simp
next
  case (Some d)
  show ?thesis
  proof (cases "capacity t = 0 \<or> key d \<in> key ` set (items t)")
    case True
    then show ?thesis using kept items_add [OF Some] by simp
  next
    case False
    then show ?thesis using room full items_add [OF Some] Some assms
      by (cases "length (items t) = capacity t") auto
  qed
qed

lemma bounded_exec: "length (items t) \<le> capacity t \<Longrightarrow> length (items (exec op t)) \<le> capacity (exec op t)"
  by (rule exec_cases [of t op]) (simp_all add: capacity_exec)

lemma distinct_exec:
  assumes "length (items t) \<le> capacity t" "distinct (map key (items t))"
  shows "distinct (map key (items (exec op t)))"
  using assms(1)
proof (cases rule: exec_cases [where op = op])
  case (full d)
  have "key d \<notin> key ` set (tl (items t))" using full(5) by (cases "items t") auto
  moreover have "distinct (map key (tl (items t)))" using assms(2) by (cases "items t") auto
  ultimately show ?thesis using full(2) by simp
qed (use assms(2) in auto)

lemma get_distinct: "distinct (map key (items t)) \<Longrightarrow> d \<in> set (items t) \<Longrightarrow> get (key d) t = Some d"
  unfolding get_eq by (rule find_distinct_key)

text \<open>
  An item at position \<open>i\<close> outlives \<open>i\<close> evictions, and evictions start when the cache is full.
\<close>

lemma retained:
  "length (items t) \<le> capacity t \<Longrightarrow> i < length (items t) \<Longrightarrow> items t ! i = x \<Longrightarrow>
   length (filter (\<lambda>op. adds op \<noteq> None) ops) \<le> i + (capacity t - length (items t)) \<Longrightarrow>
   x \<in> set (items (fold exec ops t))"
proof (induction ops arbitrary: t i)
  case Nil
  then show ?case by auto
next
  case (Cons op ops)
  have bounded: "length (items (exec op t)) \<le> capacity (exec op t)"
    using Cons.prems(1) by (rule bounded_exec)
  from Cons.prems(1) show ?case
  proof (cases rule: exec_cases [where op = op])
    case kept
    with Cons.prems Cons.IH [OF bounded, of i] show ?thesis
      by (auto simp: capacity_exec split: if_splits)
  next
    case (room d)
    with Cons.prems Cons.IH [OF bounded, of i] show ?thesis by (simp add: capacity_exec nth_append)
  next
    case (full d)
    with Cons.prems have "0 < i" by simp
    moreover have "tl (items t) ! (i - 1) = items t ! i"
      using \<open>0 < i\<close> Cons.prems(2) by (simp add: nth_tl)
    moreover have "i - 1 < length (tl (items t))" using \<open>0 < i\<close> Cons.prems(2) by simp
    ultimately have "items (exec op t) ! (i - 1) = x" "i - 1 < length (items (exec op t))"
      using full(2) Cons.prems(3) by (simp_all add: nth_append)
    moreover have "length (filter (\<lambda>op. adds op \<noteq> None) ops)
        \<le> (i - 1) + (capacity (exec op t) - length (items (exec op t)))"
      using full Cons.prems(4) \<open>0 < i\<close> by simp
    ultimately show ?thesis using Cons.IH [OF bounded, of "i - 1"] by simp
  qed
qed

lemma retained_after_add:
  assumes "length (items t) \<le> capacity t" "key d \<notin> key ` set (items t)" "adds op = Some d"
    and few: "length (filter (\<lambda>op. adds op \<noteq> None) ops) < capacity t"
  shows "d \<in> set (items (fold exec ops (exec op t)))"
proof -
  let ?s = "items (exec op t)"
  have last: "?s ! (length ?s - 1) = d" "0 < length ?s"
    using assms(2) few items_add [OF assms(3), of t] by (auto simp: nth_append)
  have bounded: "length ?s \<le> capacity (exec op t)" using assms(1) by (rule bounded_exec)
  then have room: "length (filter (\<lambda>op. adds op \<noteq> None) ops) \<le> (length ?s - 1) + (capacity (exec op t) - length ?s)"
    using few last(2) capacity_exec [of op t] by linarith
  have "length ?s - 1 < length ?s" using last(2) by simp
  from retained [OF bounded this last(1) room] show ?thesis .
qed

end

section \<open>Entries and table\<close>

record cs_entry =
  ce_data :: data_packet
  ce_fresh :: bool
  ce_staleAt :: simtime

definition new_CsEntry :: "simtime \<Rightarrow> data_packet \<Rightarrow> cs_entry" where
  "new_CsEntry now d =
     (let fresh = (0 < freshnessPeriod d) in
      \<lparr>ce_data = d, ce_fresh = fresh,
       ce_staleAt = (if fresh then now + SimTime_ms (uint (freshnessPeriod d)) else 0)\<rparr>)"

record cs =
  cs_entries :: "cs_entry list"
  cs_checkDataStale :: "simtime option"
  cs_maxSize :: nat
  cs_numHit :: nat
  cs_numMiss :: nat
  cs_numAdded :: nat
  cs_numRemoved :: nat
  cs_numStale :: nat

definition cs_initialize :: "nat \<Rightarrow> cs" where
  "cs_initialize maxSize =
     \<lparr>cs_entries = [], cs_checkDataStale = None, cs_maxSize = maxSize, cs_numHit = 0,
      cs_numMiss = 0, cs_numAdded = 0, cs_numRemoved = 0, cs_numStale = 0\<rparr>"

section \<open>Operations\<close>

definition ce_named :: "string \<Rightarrow> cs_entry \<Rightarrow> bool" where
  "ce_named name e \<longleftrightarrow> pk_name (ce_data e) = name"

definition cs_lookup :: "interest \<Rightarrow> cs \<Rightarrow> data_packet option \<times> cs" where
  "cs_lookup i C =
     (if cs_entries C = [] then (None, C)
      else (case find (ce_named (pk_name i)) (cs_entries C) of
        Some e \<Rightarrow>
          if mustBeFresh i then
            (if ce_fresh e then (Some (ce_data e), C\<lparr>cs_numHit := cs_numHit C + 1\<rparr>)
             else (None, C\<lparr>cs_numMiss := cs_numMiss C + 1\<rparr>))
          else (Some (ce_data e), C\<lparr>cs_numHit := cs_numHit C + 1\<rparr>)
      | None \<Rightarrow> (None, C\<lparr>cs_numMiss := cs_numMiss C + 1\<rparr>)))"

definition schedule_stale_check :: "simtime \<Rightarrow> cs \<Rightarrow> cs" where
  "schedule_stale_check now C =
     (if cs_checkDataStale C = None then C\<lparr>cs_checkDataStale := Some (now + SimTime_ms 1000)\<rparr> else C)"

definition cs_add :: "simtime \<Rightarrow> data_packet \<Rightarrow> cs \<Rightarrow> bool \<times> cs" where
  "cs_add now d C =
     (if cs_maxSize C = 0 then (False, C)
      else (case find_index (ce_named (pk_name d)) (cs_entries C) of
        Some k \<Rightarrow>
          let e = cs_entries C ! k;
              C1 = (if freshnessPeriod d \<noteq> 0
                    then C\<lparr>cs_entries := (cs_entries C)[k := e\<lparr>ce_fresh := True,
                             ce_staleAt := now + SimTime_ms (uint (freshnessPeriod d))\<rparr>]\<rparr>
                    else C);
              C2 = schedule_stale_check now C1
          in (True, C2\<lparr>cs_numAdded := cs_numAdded C2 + 1\<rparr>)
      | None \<Rightarrow>
          let C1 = (if length (cs_entries C) = cs_maxSize C then C\<lparr>cs_entries := tl (cs_entries C)\<rparr> else C);
              C2 = C1\<lparr>cs_entries := cs_entries C1 @ [new_CsEntry now (dup_data d)]\<rparr>;
              C3 = schedule_stale_check now C2
          in (True, C3\<lparr>cs_numAdded := cs_numAdded C3 + 1\<rparr>)))"

definition cs_remove :: "string \<Rightarrow> cs \<Rightarrow> bool \<times> cs" where
  "cs_remove name C = (False, C)"

fun cs_stale_loop :: "simtime \<Rightarrow> cs_entry list \<Rightarrow> cs_entry list \<times> nat" where
  "cs_stale_loop now [] = ([], 0)"
| "cs_stale_loop now (e # es) =
     (let (es', k) = cs_stale_loop now es in
      if ce_staleAt e > 0 \<and> ce_staleAt e \<le> now then (e\<lparr>ce_fresh := False\<rparr> # es', Suc k) else (e # es', k))"

definition cs_cleanStaled :: "simtime \<Rightarrow> cs \<Rightarrow> cs" where
  "cs_cleanStaled now C =
     (let (es, k) = cs_stale_loop now (cs_entries C)
      in C\<lparr>cs_entries := es, cs_numStale := cs_numStale C + k\<rparr>)"

definition cs_handleMessage :: "simtime \<Rightarrow> bool \<Rightarrow> cs \<Rightarrow> cs" where
  "cs_handleMessage now isSelfMessage C =
     (if isSelfMessage
      then let C1 = cs_cleanStaled now (C\<lparr>cs_checkDataStale := None\<rparr>)
           in if cs_entries C1 \<noteq> [] then C1\<lparr>cs_checkDataStale := Some (now + SimTime_ms 1000)\<rparr> else C1
      else C)"

section \<open>Runs of the table, and its contract\<close>

text \<open>Simulation time is not negative, so the operations carry it as a \<open>nat\<close>.\<close>

datatype cs_op = CsAdd nat data_packet | CsLookup interest | CsRemove string | CsHandleMessage nat bool

fun cs_exec :: "cs_op \<Rightarrow> cs \<Rightarrow> cs" where
  "cs_exec (CsAdd now d) C = snd (cs_add (int now) d C)"
| "cs_exec (CsLookup i) C = snd (cs_lookup i C)"
| "cs_exec (CsRemove name) C = snd (cs_remove name C)"
| "cs_exec (CsHandleMessage now self) C = cs_handleMessage (int now) self C"

fun cs_adds :: "cs_op \<Rightarrow> data_packet option" where
  "cs_adds (CsAdd now d) = Some (dup_data d)"
| "cs_adds _ = None"

definition cs_items :: "cs \<Rightarrow> data_packet list" where
  "cs_items C = map ce_data (cs_entries C)"

text \<open>The answer to an Interest that does not ask for fresh data.\<close>

definition cs_get :: "string \<Rightarrow> cs \<Rightarrow> data_packet option" where
  "cs_get name C = fst (cs_lookup ((new_Interest name)\<lparr>mustBeFresh := False\<rparr>) C)"

lemma length_cs_items: "length (cs_items C) = length (cs_entries C)"
  by (simp add: cs_items_def)

lemma find_map_ce_data:
  "find (\<lambda>d. pk_name d = n) (map ce_data es) = map_option ce_data (find (ce_named n) es)"
  by (induction es) (auto simp: ce_named_def)

lemma cs_lookup_stale_ok:
  "\<not> mustBeFresh i \<Longrightarrow> fst (cs_lookup i C) = find (\<lambda>d. pk_name d = pk_name i) (cs_items C)"
  by (auto simp: cs_lookup_def cs_items_def find_map_ce_data split: option.splits)

lemma find_index_ce: "find_index (ce_named n) (cs_entries C) = None \<longleftrightarrow> n \<notin> pk_name ` set (cs_items C)"
  by (auto simp: find_index_None_iff cs_items_def ce_named_def)

lemma schedule_stale_check_fields [simp]:
  "cs_entries (schedule_stale_check now C) = cs_entries C"
  "cs_maxSize (schedule_stale_check now C) = cs_maxSize C"
  "cs_numAdded (schedule_stale_check now C) = cs_numAdded C"
  "cs_checkDataStale (schedule_stale_check now C) \<noteq> None"
  by (auto simp: schedule_stale_check_def)

lemma cs_items_add:
  "cs_items (snd (cs_add now d C)) =
     (if cs_maxSize C = 0 \<or> pk_name d \<in> pk_name ` set (cs_items C) then cs_items C
      else (if length (cs_items C) = cs_maxSize C then tl (cs_items C) else cs_items C) @ [dup_data d])"
proof (cases "find_index (ce_named (pk_name d)) (cs_entries C)")
  case None
  then have "pk_name d \<notin> pk_name ` set (cs_items C)" by (simp add: find_index_ce)
  then show ?thesis using None
    by (simp add: cs_add_def Let_def new_CsEntry_def cs_items_def map_tl)
next
  case (Some k)
  then have "pk_name d \<in> pk_name ` set (cs_items C)" using find_index_ce [of "pk_name d" C] by simp
  moreover have "map ce_data ((cs_entries C)[k := e]) = cs_items C" if "ce_data e = ce_data (cs_entries C ! k)" for e
    using that find_index_less [OF Some]
    by (simp add: cs_items_def map_update) (metis list_update_id map_update)
  ultimately show ?thesis using Some by (simp add: cs_add_def Let_def cs_items_def)
qed

lemma cs_stale_loop_eq:
  "cs_stale_loop now es =
     (map (\<lambda>e. if ce_staleAt e > 0 \<and> ce_staleAt e \<le> now then e\<lparr>ce_fresh := False\<rparr> else e) es,
      length (filter (\<lambda>e. ce_staleAt e > 0 \<and> ce_staleAt e \<le> now) es))"
  by (induction es) auto

lemma cs_items_handleMessage: "cs_items (cs_handleMessage now self C) = cs_items C"
  by (simp add: cs_handleMessage_def cs_cleanStaled_def cs_stale_loop_eq cs_items_def Let_def comp_def
      if_distrib [of ce_data] cong: if_cong)

lemma cs_items_lookup: "cs_items (snd (cs_lookup i C)) = cs_items C"
  by (simp add: cs_lookup_def cs_items_def split: option.splits)

interpretation cs: bounded_cache cs_items cs_maxSize cs_get cs_exec cs_adds pk_name
proof unfold_locales
  fix n C op and d :: data_packet
  show "cs_get n C = find (\<lambda>d. pk_name d = n) (cs_items C)"
    using cs_lookup_stale_ok [of "(new_Interest n)\<lparr>mustBeFresh := False\<rparr>" C]
    by (simp add: cs_get_def new_Interest_def)
  show "cs_maxSize (cs_exec op C) = cs_maxSize C"
    by (cases op) (simp_all add: cs_add_def cs_lookup_def cs_remove_def cs_handleMessage_def
        cs_cleanStaled_def cs_stale_loop_eq Let_def split: option.splits)
  show "cs_adds op = None \<Longrightarrow> cs_items (cs_exec op C) = cs_items C"
    by (cases op) (simp_all add: cs_items_lookup cs_items_handleMessage cs_remove_def)
  show "cs_adds op = Some d \<Longrightarrow> cs_items (cs_exec op C) =
      (if cs_maxSize C = 0 \<or> pk_name d \<in> pk_name ` set (cs_items C) then cs_items C
       else (if length (cs_items C) = cs_maxSize C then tl (cs_items C) else cs_items C) @ [d])"
    by (cases op) (auto simp: cs_items_add)
qed

section \<open>Invariant\<close>

text \<open>
  One entry per name, bounded size, a fresh entry has a time at which it goes stale, and the
  timer is scheduled while there is an entry.
\<close>

abbreviation fresh_timed :: "cs_entry \<Rightarrow> bool" where
  "fresh_timed e \<equiv> ce_fresh e \<longrightarrow> 0 < ce_staleAt e"

definition cs_inv :: "cs \<Rightarrow> bool" where
  "cs_inv C \<longleftrightarrow> distinct (map pk_name (cs_items C)) \<and> length (cs_items C) \<le> cs_maxSize C
     \<and> list_all fresh_timed (cs_entries C)
     \<and> (cs_entries C \<noteq> [] \<longrightarrow> cs_checkDataStale C \<noteq> None)"

lemma cs_inv_initialize: "cs_inv (cs_initialize n)"
  by (simp add: cs_inv_def cs_initialize_def cs_items_def)

lemma fresh_expiry: "0 \<le> now \<Longrightarrow> p \<noteq> 0 \<Longrightarrow> 0 < now + SimTime_ms (uint (p :: 32 word))"
  by (simp add: add_nonneg_pos le_neq_trans [OF uint_nonnegative] uint_0_iff)

lemma list_all_tl: "list_all P xs \<Longrightarrow> list_all P (tl xs)"
  by (cases xs) simp_all

lemma fresh_timed_add:
  assumes "0 \<le> now" "list_all fresh_timed (cs_entries C)"
  shows "list_all fresh_timed (cs_entries (snd (cs_add now d C)))"
proof -
  have new: "fresh_timed (new_CsEntry now x)" for x
    using fresh_expiry [OF assms(1), of "freshnessPeriod x"]
    by (simp add: new_CsEntry_def Let_def word_gt_0)
  show ?thesis
    using assms(2) new fresh_expiry [OF assms(1), of "freshnessPeriod d"]
    by (simp add: cs_add_def Let_def list_all_update list_all_tl split: option.split)
qed

lemma fresh_timed_exec:
  assumes "list_all fresh_timed (cs_entries C)"
  shows "list_all fresh_timed (cs_entries (cs_exec op C))"
proof (cases op)
  case (CsAdd now d)
  then show ?thesis using fresh_timed_add [of "int now" C d] assms by simp
qed (use assms in \<open>auto simp: cs_lookup_def cs_remove_def cs_handleMessage_def
      cs_cleanStaled_def cs_stale_loop_eq Let_def list_all_iff split: option.splits\<close>)

lemma timer_exec:
  "(cs_entries C \<noteq> [] \<longrightarrow> cs_checkDataStale C \<noteq> None) \<Longrightarrow>
   cs_entries (cs_exec op C) \<noteq> [] \<longrightarrow> cs_checkDataStale (cs_exec op C) \<noteq> None"
  by (cases op) (auto simp: cs_add_def cs_lookup_def cs_remove_def cs_handleMessage_def
      cs_cleanStaled_def cs_stale_loop_eq Let_def simp del: not_None_eq split: option.splits)

interpretation cs_runs: component cs_exec cs_inv
proof unfold_locales
  fix C op
  show "cs_inv C \<Longrightarrow> cs_inv (cs_exec op C)"
    using cs.bounded_exec [of C op] cs.distinct_exec [of C op] fresh_timed_exec [of C op] timer_exec [of C op]
    by (simp add: cs_inv_def)
qed

lemma cs_exec_inv:
  "cs_inv C \<Longrightarrow> cs_inv (cs_exec op C)"
  using cs_runs.run_inv [of C "[op]"] by simp

lemma cs_inv_handleMessage: "cs_inv C \<Longrightarrow> cs_inv (cs_handleMessage now self C)"
  using cs_items_handleMessage [of now self C]
  by (auto simp: cs_inv_def) (auto simp: cs_handleMessage_def cs_cleanStaled_def cs_stale_loop_eq Let_def list_all_iff)

section \<open>Properties\<close>

text \<open>
  C37: after any sequence of operations the content store holds at most \<^verbatim>\<open>maxSize\<close> packets, no
  two of them with the same name, and the freshness timer is scheduled as long as a packet is
  stored.
\<close>

theorem cs_runs_invariant:
  defines "run \<equiv> \<lambda>ops maxSize. fold cs_exec ops (cs_initialize maxSize)"
  shows "distinct (map (\<lambda>e. pk_name (ce_data e)) (cs_entries (run ops maxSize)))
    \<and> length (cs_entries (run ops maxSize)) \<le> maxSize
    \<and> (cs_entries (run ops maxSize) = [] \<or> (\<exists>t. cs_checkDataStale (run ops maxSize) = Some t))"
proof -
  have "cs_maxSize (run ops maxSize) = maxSize"
    unfolding run_def by (induction ops rule: rev_induct) (simp_all add: cs_initialize_def cs.capacity_exec)
  then show ?thesis
    using cs_runs.run_inv [OF cs_inv_initialize, of ops maxSize]
    by (auto simp: cs_inv_def cs_items_def comp_def run_def)
qed

text \<open>
  C12: a Data packet stays available.  Once a Data whose name is not cached yet is added to a
  reachable store, every Interest for its name that does not ask for fresh data is answered with
  that packet (without its control info), until at least \<^verbatim>\<open>maxSize\<close> more packets were added:
  the eviction is first in first out, and lookups and freshness sweeps do not disturb it.
\<close>

theorem cs_retention:
  assumes "C = fold cs_exec ops (cs_initialize maxSize)"
    and "pk_name d \<notin> pk_name ` set (cs_items C)"
    and "length (filter (\<lambda>op. cs_adds op \<noteq> None) ops') < maxSize"
    and "pk_name i = pk_name d" "\<not> mustBeFresh i"
  shows "fst (cs_lookup i (fold cs_exec ops' (snd (cs_add (int now) d C)))) = Some (dup_data d)"
proof -
  have max: "cs_maxSize C = maxSize"
    unfolding assms(1) by (induction ops rule: rev_induct) (simp_all add: cs_initialize_def cs.capacity_exec)
  have inv: "cs_inv C" unfolding assms(1) by (rule cs_runs.run_inv [OF cs_inv_initialize])
  let ?C = "fold cs_exec ops' (cs_exec (CsAdd now d) C)"
  have "dup_data d \<in> set (cs_items ?C)"
    by (rule cs.retained_after_add) (use inv assms max in \<open>simp_all add: cs_inv_def\<close>)
  moreover have "distinct (map pk_name (cs_items ?C))"
    using cs_runs.run_inv [OF cs_exec_inv [OF inv, of "CsAdd now d"], of ops'] by (simp add: cs_inv_def)
  ultimately have "cs_get (pk_name d) ?C = Some (dup_data d)"
    using cs.get_distinct [of ?C "dup_data d"] by simp
  then show ?thesis
    using cs_lookup_stale_ok [OF assms(5)] cs.get_eq [of "pk_name d" ?C] assms(4) by simp
qed

theorem cs_retention_witness:
  "fst (cs_lookup (new_Interest ''/a'')
     (fold cs_exec [CsAdd 7 (new_Data ''/b''), CsHandleMessage 9 True]
       (snd (cs_add (int 5) (new_Data ''/a'') (fold cs_exec [CsAdd 1 (new_Data ''/c'')] (cs_initialize 2))))))
   = Some (dup_data (new_Data ''/a''))"
  by (rule cs_retention [where ops = "[CsAdd 1 (new_Data ''/c'')]" and maxSize = 2])
    (simp_all add: new_Data_def new_Interest_def cs_items_add cs_initialize_def, simp add: cs_items_def)

text \<open>
  Freshness.  Right after a sweep at time \<open>now\<close> of a reachable store, an Interest that asks
  for fresh data is only answered with a stored packet of its name whose freshness period has not
  elapsed; and it is answered exactly if the store holds that name and the packet is marked fresh.
\<close>

theorem cs_fresh_answer:
  assumes "C = fold cs_exec ops (cs_initialize maxSize)" "mustBeFresh i"
  shows "fst (cs_lookup i (cs_handleMessage now True C)) =
    map_option ce_data (find (\<lambda>e. pk_name (ce_data e) = pk_name i \<and> ce_fresh e \<and> now < ce_staleAt e) (cs_entries C))"
proof -
  have inv: "cs_inv C" unfolding assms(1) by (rule cs_runs.run_inv [OF cs_inv_initialize])
  define sweep where "sweep = (\<lambda>e. if ce_staleAt e > 0 \<and> ce_staleAt e \<le> now then e\<lparr>ce_fresh := False\<rparr> else e :: cs_entry)"
  have entries: "cs_entries (cs_handleMessage now True C) = map sweep (cs_entries C)"
    by (simp add: cs_handleMessage_def cs_cleanStaled_def cs_stale_loop_eq Let_def sweep_def)
  have lookup: "fst (cs_lookup i C') = (case find (ce_named (pk_name i)) (cs_entries C') of
      Some e \<Rightarrow> if ce_fresh e then Some (ce_data e) else None | None \<Rightarrow> None)" for C'
    using assms(2) by (auto simp: cs_lookup_def split: option.splits)
  have "(case find (ce_named n) (map sweep es) of Some e \<Rightarrow> if ce_fresh e then Some (ce_data e) else None | None \<Rightarrow> None)
      = map_option ce_data (find (\<lambda>e. pk_name (ce_data e) = n \<and> ce_fresh e \<and> now < ce_staleAt e) es)"
    if "list_all fresh_timed es" "distinct (map (\<lambda>e. pk_name (ce_data e)) es)" for n es
    using that
  proof (induction es)
    case (Cons e es)
    have "find (\<lambda>e. pk_name (ce_data e) = n \<and> ce_fresh e \<and> now < ce_staleAt e) es = None"
      if "pk_name (ce_data e) = n"
      using Cons.prems(2) that by (auto simp: find_None_iff) (metis imageI)
    with Cons show ?case by (auto simp: sweep_def ce_named_def)
  qed simp
  with inv show ?thesis unfolding lookup entries by (simp add: cs_inv_def cs_items_def comp_def)
qed

theorem cs_fresh_answer_witness:
  "fst (cs_lookup ((new_Interest ''/a'')\<lparr>mustBeFresh := True\<rparr>)
     (cs_handleMessage 2 True (fold cs_exec [CsAdd 1 ((new_Data ''/a'')\<lparr>freshnessPeriod := 100\<rparr>)] (cs_initialize 2))))
   = Some ((new_Data ''/a'')\<lparr>freshnessPeriod := 100\<rparr>)"
  by (subst cs_fresh_answer [where ops = "[CsAdd 1 ((new_Data ''/a'')\<lparr>freshnessPeriod := 100\<rparr>)]" and maxSize = 2])
    (simp_all add: new_Data_def new_Interest_def cs_initialize_def cs_add_def schedule_stale_check_def new_CsEntry_def
      dup_data_def SimTime_ms_def)

text \<open>
  A freshness sweep counts every packet whose freshness has run out, also those counted by an
  earlier sweep: two sweeps at the same time count each of them twice in \<^verbatim>\<open>numStale\<close>.
\<close>

theorem cs_stale_recounted:
  "cs_numStale (cs_handleMessage now True (cs_handleMessage now True C))
     = cs_numStale C + 2 * length (filter (\<lambda>e. 0 < ce_staleAt e \<and> ce_staleAt e \<le> now) (cs_entries C))"
proof -
  have "length (filter (\<lambda>e. 0 < ce_staleAt e \<and> ce_staleAt e \<le> now)
      (map (\<lambda>e. if 0 < ce_staleAt e \<and> ce_staleAt e \<le> now then e\<lparr>ce_fresh := False\<rparr> else e) es))
      = length (filter (\<lambda>e. 0 < ce_staleAt e \<and> ce_staleAt e \<le> now) es)" for es :: "cs_entry list"
    by (induction es) auto
  from this [of "cs_entries C"] show ?thesis
    by (simp add: cs_handleMessage_def cs_cleanStaled_def cs_stale_loop_eq Let_def filter_map)
qed

end
