(* ===== verification/NdnForwarding.thy ===== *)
theory NdnForwarding
  imports TlvTools FibTable PitTable ContentStore
begin

text \<open>
  The forwarding strategy, \<^verbatim>\<open>inet/networklayer/ndn/ForwardingBase.{h,cc}\<close>: the module that
  receives every NDN packet of a node from the link layer and from the applications, looks it up
  in the content store, the pending interest table and the forwarding information base, and
  sends it on, possibly after a random delay.  The packets it sends are collected, oldest first,
  in the field \<open>fw_sent\<close>.

  Random numbers are arguments: \<open>u\<close> is the result of the call of \<^verbatim>\<open>uniform\<close> that handling the
  message may make.
\<close>

section \<open>State and messages\<close>

datatype fw_output = SendLower packet int | SendUpper packet int

text \<open>
  The fields \<open>sd_*\<close> are those of the message \<^verbatim>\<open>sendDelayedPacket\<close>; \<open>sd_packet\<close> is \<open>None\<close> while its
  pointer does not point to a packet that is alive, and \<open>fw_timer\<close> is the time the message is
  scheduled for.  \<open>fw_lowerGates\<close> and \<open>fw_upperGates\<close> are the sizes of the gate vectors.
\<close>

record fw =
  fw_myMacAddress :: MACAddress
  fw_ndnMacMapping :: int
  fw_forwarding :: bool
  fw_cacheUnsolicited :: bool
  fw_lowerGates :: nat
  fw_upperGates :: nat
  fw_waiting :: bool
  sd_packet :: "packet option"
  sd_type :: int
  sd_face :: int
  sd_macDest :: string
  sd_macSrc :: string
  fw_timer :: "simtime option"
  fw_pit :: pit
  fw_fib :: fib
  fw_cs :: cs
  fw_sent :: "fw_output list"
  fw_numIntReceived :: nat
  fw_numIntFwd :: nat
  fw_numIntCanceled :: nat
  fw_numIntDuplicated :: nat
  fw_numDataCanceled :: nat
  fw_numDataReceived :: nat
  fw_numDataUnsolicited :: nat
  fw_numDataFwd :: nat

text \<open>What can arrive: the module's own timer, an NDN packet, another packet, another message.\<close>

datatype fw_message = SelfTimer | NdnMsg packet | OtherPacket string int gate | PlainMessage

text \<open>\<^verbatim>\<open>enum NdnMacMappingCodes\<close> and the constants of the header.\<close>

definition IB_DB :: int where "IB_DB = 11"
definition IB_DU :: int where "IB_DU = 12"
definition IU_DB :: int where "IU_DB = 13"
definition IU_DU :: int where "IU_DU = 14"

definition DW :: rat where "DW = 255"
definition DEFER_SLOT_TIME :: rat where "DEFER_SLOT_TIME = 28 / 1000"
definition TIMEOUT_CODE :: int where "TIMEOUT_CODE = 100"
definition REGISTER_PREFIX_CODE :: int where "REGISTER_PREFIX_CODE = 15"
definition DEFAULT_MAC_IF :: int where "DEFAULT_MAC_IF = 0"

text \<open>The address of the last interface, or of the first one that has the address 1.\<close>

fun selectMacAddress :: "MACAddress list \<Rightarrow> MACAddress \<Rightarrow> sim_error + MACAddress" where
  "selectMacAddress [] mine = Inr mine"
| "selectMacAddress (a # as) mine =
     bind_result (MACAddress_of_string ''00-00-00-00-00-01'') (\<lambda>one.
       if a = one then Inr a else selectMacAddress as a)"

definition fw_initialize ::
  "int \<Rightarrow> bool \<Rightarrow> bool \<Rightarrow> nat \<Rightarrow> nat \<Rightarrow> MACAddress list \<Rightarrow> pit \<Rightarrow> fib \<Rightarrow> cs \<Rightarrow> sim_error + fw" where
  "fw_initialize ndnMacMapping forwarding cacheUnsolicited lowerGates upperGates macs P B C =
     bind_result (selectMacAddress macs (MACAddress 0)) (\<lambda>mac. Inr
       \<lparr>fw_myMacAddress = mac, fw_ndnMacMapping = ndnMacMapping, fw_forwarding = forwarding,
        fw_cacheUnsolicited = cacheUnsolicited, fw_lowerGates = lowerGates, fw_upperGates = upperGates,
        fw_waiting = False, sd_packet = None, sd_type = 0, sd_face = 0, sd_macDest = '''', sd_macSrc = '''',
        fw_timer = None, fw_pit = P, fw_fib = B, fw_cs = C, fw_sent = [],
        fw_numIntReceived = 0, fw_numIntFwd = 0, fw_numIntCanceled = 0, fw_numIntDuplicated = 0,
        fw_numDataCanceled = 0, fw_numDataReceived = 0, fw_numDataUnsolicited = 0, fw_numDataFwd = 0\<rparr>)"

section \<open>Sending and delaying\<close>

text \<open>\<^verbatim>\<open>send\<close> on a vector gate raises when the index is out of range.\<close>

definition send_lower :: "packet \<Rightarrow> int \<Rightarrow> fw \<Rightarrow> sim_error + fw" where
  "send_lower p face F =
     (if 0 \<le> face \<and> face < int (fw_lowerGates F) then Inr (F\<lparr>fw_sent := fw_sent F @ [SendLower p face]\<rparr>)
      else Inl (RuntimeError ''send: lowerLayerOut index out of range''))"

definition send_upper :: "packet \<Rightarrow> int \<Rightarrow> fw \<Rightarrow> sim_error + fw" where
  "send_upper p face F =
     (if 0 \<le> face \<and> face < int (fw_upperGates F) then Inr (F\<lparr>fw_sent := fw_sent F @ [SendUpper p face]\<rparr>)
      else Inl (RuntimeError ''send: upperLayerOut index out of range''))"

text \<open>\<^verbatim>\<open>scheduleAt\<close> raises for a time in the past and for a message that is already scheduled.\<close>

definition fw_scheduleAt :: "simtime \<Rightarrow> simtime \<Rightarrow> fw \<Rightarrow> sim_error + fw" where
  "fw_scheduleAt now t F =
     (if t < now then Inl (RuntimeError ''scheduleAt: time in the past'')
      else if fw_timer F \<noteq> None then Inl (RuntimeError ''scheduleAt: message is currently scheduled'')
      else Inr (F\<lparr>fw_timer := Some t\<rparr>))"

text \<open>
  The delays in milliseconds.  The call \<^verbatim>\<open>SimTime(delay, SIMTIME_MS)\<close> takes an integer, so the
  fraction of the delay is lost.
\<close>

definition computeInterestRandomDelay :: "rat \<Rightarrow> rat" where
  "computeInterestRandomDelay u = (DW + u) * DEFER_SLOT_TIME"

definition computeDataRandomDelay :: "rat \<Rightarrow> rat" where
  "computeDataRandomDelay u = u * DEFER_SLOT_TIME"

text \<open>\<^verbatim>\<open>setControlInfo\<close> raises if the message has control info attached already.\<close>

fun setControlInfo :: "ieee802ctrl \<Rightarrow> packet \<Rightarrow> sim_error + packet" where
  "setControlInfo c (Interest i) =
     (if pk_controlInfo i \<noteq> None then Inl (RuntimeError ''setControlInfo: already has control info'')
      else Inr (Interest (i\<lparr>pk_controlInfo := Some c\<rparr>)))"
| "setControlInfo c (Data d) =
     (if pk_controlInfo d \<noteq> None then Inl (RuntimeError ''setControlInfo: already has control info'')
      else Inr (Data (d\<lparr>pk_controlInfo := Some c\<rparr>)))"
| "setControlInfo c (NdnPacket b) =
     (if pk_controlInfo b \<noteq> None then Inl (RuntimeError ''setControlInfo: already has control info'')
      else Inr (NdnPacket (b\<lparr>pk_controlInfo := Some c\<rparr>)))"

definition ndnToMacMapping :: "fw \<Rightarrow> packet \<Rightarrow> MACAddress \<Rightarrow> sim_error + packet" where
  "ndnToMacMapping F p macDest =
     bind_result (MACAddress_of_string ''ff:ff:ff:ff:ff:ff'') (\<lambda>bcast.
       let dest = (if getType p = INTEREST then
                     (if fw_ndnMacMapping F = IB_DB \<or> fw_ndnMacMapping F = IB_DU then bcast else macDest)
                   else if getType p = DATA then
                     (if fw_ndnMacMapping F = IB_DB \<or> fw_ndnMacMapping F = IU_DB then bcast else macDest)
                   else MACAddress 0)
       in setControlInfo \<lparr>ctrl_src = fw_myMacAddress F, ctrl_dest = dest\<rparr> p)"

definition forwardInterestToRemote ::
  "simtime \<Rightarrow> interest \<Rightarrow> int \<Rightarrow> MACAddress \<Rightarrow> MACAddress \<Rightarrow> fw \<Rightarrow> sim_error + fw" where
  "forwardInterestToRemote now i face macSrc macDest F =
     (let (created, P) = pit_create now i macSrc (fw_pit F); F1 = F\<lparr>fw_pit := P\<rparr> in
      if created
      then bind_result (ndnToMacMapping F1 (Interest i) macDest) (\<lambda>p. send_lower p face F1)
      else Inr F1)"

definition forwardDataToRemote :: "data_packet \<Rightarrow> int \<Rightarrow> MACAddress \<Rightarrow> fw \<Rightarrow> sim_error + fw" where
  "forwardDataToRemote d face macDest F =
     bind_result (ndnToMacMapping F (Data d) macDest) (\<lambda>p. send_lower p face F)"

definition forwardInterestToLocal ::
  "simtime \<Rightarrow> interest \<Rightarrow> int \<Rightarrow> MACAddress \<Rightarrow> fw \<Rightarrow> sim_error + fw" where
  "forwardInterestToLocal now i face macSrc F =
     (let (created, P) = pit_create now i macSrc (fw_pit F); F1 = F\<lparr>fw_pit := P\<rparr> in
      if created then send_upper (Interest i) face F1 else Inr F1)"

definition forwardDataToLocal :: "data_packet \<Rightarrow> int \<Rightarrow> fw \<Rightarrow> sim_error + fw" where
  "forwardDataToLocal d face F = send_upper (Data d) face F"

section \<open>Handlers\<close>

definition fw_cs_add :: "simtime \<Rightarrow> data_packet \<Rightarrow> fw \<Rightarrow> fw" where
  "fw_cs_add now d F = F\<lparr>fw_cs := snd (cs_add now d (fw_cs F))\<rparr>"

definition fw_pit_remove :: "string \<Rightarrow> fw \<Rightarrow> fw" where
  "fw_pit_remove name F = F\<lparr>fw_pit := snd (pit_remove name (fw_pit F))\<rparr>"

definition processLLInterest :: "simtime \<Rightarrow> rat \<Rightarrow> interest \<Rightarrow> MACAddress \<Rightarrow> fw \<Rightarrow> sim_error + fw" where
  "processLLInterest now u i macSrc F0 =
     (let F1 = F0\<lparr>fw_numIntReceived := fw_numIntReceived F0 + 1\<rparr>;
          (cached, C) = cs_lookup i (fw_cs F1);
          F2 = F1\<lparr>fw_cs := C\<rparr>
      in case cached of
        Some d \<Rightarrow> forwardDataToRemote (dup_data d) (gate_index (pk_arrivalGate i)) macSrc F2
      | None \<Rightarrow>
        (let (pe, P) = pit_lookup (pk_name i) (fw_pit F2); F3 = F2\<lparr>fw_pit := P\<rparr> in
         case pe of
           Some _ \<Rightarrow> Inr (F3\<lparr>fw_numIntDuplicated := fw_numIntDuplicated F3 + 1\<rparr>)
         | None \<Rightarrow>
           (let (fe, B) = fib_lookup (pk_name i) (fw_fib F3); F4 = F3\<lparr>fw_fib := B\<rparr>;
                i' = i\<lparr>pk_hopCount := pk_hopCount i + 1\<rparr>
            in case fe of
              Some e \<Rightarrow>
                if isName (fe_face e) ''lowerLayerIn'' \<and> fw_forwarding F4 then
                  bind_result (forwardInterestToRemote now i' (gate_index (fe_face e)) macSrc (fe_macDest e) F4)
                    (\<lambda>F5. Inr (F5\<lparr>fw_numIntFwd := fw_numIntFwd F5 + 1\<rparr>))
                else if isName (fe_face e) ''upperLayerIn'' then
                  forwardInterestToLocal now i' (gate_index (fe_face e)) macSrc F4
                else Inr F4
            | None \<Rightarrow>
                if pk_flood i \<and> fw_forwarding F4 then
                  bind_result
                    (fw_scheduleAt now (now + SimTime_ms (c_int_of_double (computeInterestRandomDelay u)))
                      (F4\<lparr>sd_packet := Some (Interest i'), sd_type := INTEREST, sd_face := DEFAULT_MAC_IF,
                          sd_macDest := ''ff:ff:ff:ff:ff:ff'', sd_macSrc := mac_str macSrc\<rparr>))
                    (\<lambda>F5. Inr (F5\<lparr>fw_waiting := True\<rparr>))
                else Inr F4)))"

text \<open>
  The part of \<^verbatim>\<open>processLLData\<close> after the FIB has learned the prefix: forwarding along the PIT
  entry, then removing the entry and caching the packet.
\<close>

definition satisfyPitEntry :: "simtime \<Rightarrow> rat \<Rightarrow> data_packet \<Rightarrow> pit_entry \<Rightarrow> fw \<Rightarrow> sim_error + fw" where
  "satisfyPitEntry now u d e F =
     (let d' = d\<lparr>pk_hopCount := pk_hopCount d + 1\<rparr> in
      if isName (pe_face e) ''lowerLayerIn'' \<and> fw_forwarding F then
        bind_result
          (fw_scheduleAt now (now + SimTime_ms (c_int_of_double (computeDataRandomDelay u)))
            (F\<lparr>sd_packet := Some (Data d'), sd_type := DATA, sd_face := gate_index (pe_face e),
               sd_macDest := mac_str (pe_macSrc e)\<rparr>))
          (\<lambda>F1. Inr (fw_cs_add now d' (fw_pit_remove (pk_name d) (F1\<lparr>fw_waiting := True\<rparr>))))
      else if isName (pe_face e) ''upperLayerIn'' then
        bind_result (forwardDataToLocal d' (gate_index (pe_face e)) F)
          (\<lambda>F1. Inr (fw_cs_add now d' (fw_pit_remove (pk_name d) F1)))
      else Inr (fw_cs_add now d (fw_pit_remove (pk_name d) F)))"

definition processLLData :: "simtime \<Rightarrow> rat \<Rightarrow> data_packet \<Rightarrow> MACAddress \<Rightarrow> fw \<Rightarrow> sim_error + fw" where
  "processLLData now u d macSrc F0 =
     (let (pe, P) = pit_lookup (pk_name d) (fw_pit F0); F1 = F0\<lparr>fw_pit := P\<rparr> in
      case pe of
        Some e \<Rightarrow>
          (let F2 = F1\<lparr>fw_numDataReceived := fw_numDataReceived F1 + 1\<rparr> in
           bind_result (fib_create now (pk_name d) (pk_prefixLength d) (pk_arrivalGate d) macSrc (fw_fib F2)) (\<lambda>(_, B).
             satisfyPitEntry now u d e (F2\<lparr>fw_fib := B\<rparr>)))
      | None \<Rightarrow>
          (let F2 = (if fw_cacheUnsolicited F1 then fw_cs_add now d F1 else F1)
           in Inr (F2\<lparr>fw_numDataUnsolicited := fw_numDataUnsolicited F2 + 1\<rparr>)))"

definition processHLInterest :: "simtime \<Rightarrow> interest \<Rightarrow> fw \<Rightarrow> sim_error + fw" where
  "processHLInterest now i F0 =
     (let (cached, C) = cs_lookup i (fw_cs F0); F1 = F0\<lparr>fw_cs := C\<rparr> in
      case cached of
        Some d \<Rightarrow> forwardDataToLocal (dup_data d) (gate_index (pk_arrivalGate i)) F1
      | None \<Rightarrow>
        (let (pe, P) = pit_lookup (pk_name i) (fw_pit F1); F2 = F1\<lparr>fw_pit := P\<rparr> in
         case pe of
           Some _ \<Rightarrow> Inr (F2\<lparr>fw_numIntDuplicated := fw_numIntDuplicated F2 + 1\<rparr>)
         | None \<Rightarrow>
           (let (fe, B) = fib_lookup (pk_name i) (fw_fib F2); F3 = F2\<lparr>fw_fib := B\<rparr> in
            case fe of
              Some e \<Rightarrow>
                if isName (fe_face e) ''lowerLayerIn'' then
                  forwardInterestToRemote now i (gate_index (fe_face e)) (fw_myMacAddress F3) (fe_macDest e) F3
                else if isName (fe_face e) ''upperLayerIn'' then
                  forwardInterestToLocal now i (gate_index (fe_face e)) (fw_myMacAddress F3) F3
                else Inr F3
            | None \<Rightarrow>
                bind_result (MACAddress_of_string ''ff:ff:ff:ff:ff:ff'') (\<lambda>bcast.
                  forwardInterestToRemote now i DEFAULT_MAC_IF (fw_myMacAddress F3) bcast F3))))"

definition processHLData :: "simtime \<Rightarrow> data_packet \<Rightarrow> fw \<Rightarrow> sim_error + fw" where
  "processHLData now d F0 =
     (let (pe, P) = pit_lookup (pk_name d) (fw_pit F0); F1 = F0\<lparr>fw_pit := P\<rparr> in
      case pe of
        Some e \<Rightarrow>
          bind_result
            (if isName (pe_face e) ''lowerLayerIn'' then forwardDataToRemote d (gate_index (pe_face e)) (pe_macSrc e) F1
             else if isName (pe_face e) ''upperLayerIn'' then forwardDataToLocal d (gate_index (pe_face e)) F1
             else Inr F1)
            (\<lambda>F2. Inr (fw_cs_add now d (fw_pit_remove (pk_name d) F2)))
      | None \<Rightarrow> Inr (if fw_cacheUnsolicited F1 then fw_cs_add now d F1 else F1))"

definition dispatchPacket :: "simtime \<Rightarrow> rat \<Rightarrow> packet \<Rightarrow> fw \<Rightarrow> sim_error + fw" where
  "dispatchPacket now u p F =
     (if isName (getArrivalGate p) ''lowerLayerIn'' then
        (case getControlInfo p of
           None \<Rightarrow> Inl (RuntimeError ''check_and_cast(): Cannot cast to Ieee802Ctrl'')
         | Some ctrl \<Rightarrow>
             let p' = removeControlInfo p in
             if getType p' = INTEREST then
               bind_result (cast_Interest p') (\<lambda>i. processLLInterest now u i (ctrl_src ctrl) F)
             else if getType p' = DATA then
               bind_result (cast_Data p') (\<lambda>d. processLLData now u d (ctrl_src ctrl) F)
             else Inr F)
      else if isName (getArrivalGate p) ''upperLayerIn'' then
        (if getType p = INTEREST then bind_result (cast_Interest p) (\<lambda>i. processHLInterest now i F)
         else if getType p = DATA then bind_result (cast_Data p) (\<lambda>d. processHLData now d F)
         else Inr F)
      else Inr F)"

text \<open>The transmission of the delayed packet, when its timer fires.\<close>

definition sendDelayed :: "simtime \<Rightarrow> fw \<Rightarrow> sim_error + fw" where
  "sendDelayed now F =
     (case sd_packet F of
        None \<Rightarrow> Inl (UndefinedBehaviour ''the delayed packet is not alive'')
      | Some p \<Rightarrow>
          bind_result
            (if sd_type F = INTEREST then
               bind_result (cast_Interest p) (\<lambda>i.
               bind_result (MACAddress_of_string (sd_macSrc F)) (\<lambda>src.
               bind_result (MACAddress_of_string (sd_macDest F)) (\<lambda>dest.
               bind_result (forwardInterestToRemote now (dup_interest i) (sd_face F) src dest F) (\<lambda>F1.
                 Inr (F1\<lparr>fw_numIntFwd := fw_numIntFwd F1 + 1\<rparr>)))))
             else
               bind_result (cast_Data p) (\<lambda>d.
               bind_result (MACAddress_of_string (sd_macDest F)) (\<lambda>dest.
               bind_result (forwardDataToRemote (dup_data d) (sd_face F) dest F) (\<lambda>F1.
                 Inr (F1\<lparr>fw_numDataFwd := fw_numDataFwd F1 + 1\<rparr>)))))
            (\<lambda>F1. Inr (F1\<lparr>sd_packet := None, fw_waiting := False\<rparr>)))"

definition fw_registerPrefix :: "simtime \<Rightarrow> string \<Rightarrow> gate \<Rightarrow> fw \<Rightarrow> fw" where
  "fw_registerPrefix now name g F =
     F\<lparr>fw_fib := snd (fib_registerPrefix now name g (fw_myMacAddress F) (fw_fib F))\<rparr>"

text \<open>A packet that arrives while a transmission is delayed is dropped, and may cancel it.\<close>

definition whileWaiting :: "packet \<Rightarrow> fw \<Rightarrow> sim_error + fw" where
  "whileWaiting p F =
     (case sd_packet F of
        None \<Rightarrow> Inl (UndefinedBehaviour ''the delayed packet is not alive'')
      | Some q \<Rightarrow> Inr
          (if getName p = getName q then
             (let F1 = F\<lparr>fw_timer := None, sd_packet := None, fw_waiting := False\<rparr> in
              if getType p = INTEREST then F1\<lparr>fw_numIntCanceled := fw_numIntCanceled F1 + 1\<rparr>
              else F1\<lparr>fw_numDataCanceled := fw_numDataCanceled F1 + 1\<rparr>)
           else F))"

fun fw_handleMessage :: "simtime \<Rightarrow> rat \<Rightarrow> fw_message \<Rightarrow> fw \<Rightarrow> sim_error + fw" where
  "fw_handleMessage now u SelfTimer F = sendDelayed now (F\<lparr>fw_timer := None\<rparr>)"
| "fw_handleMessage now u (NdnMsg p) F =
     (if getKind p = REGISTER_PREFIX_CODE then Inr (fw_registerPrefix now (getName p) (getArrivalGate p) F)
      else if fw_waiting F then whileWaiting p F
      else dispatchPacket now u p F)"
| "fw_handleMessage now u (OtherPacket name kind g) F =
     (if kind = REGISTER_PREFIX_CODE then Inr (fw_registerPrefix now name g F)
      else Inl (RuntimeError ''check_and_cast(): Cannot cast to NdnPacket''))"
| "fw_handleMessage now u PlainMessage F = Inr F"

text \<open>
  \<^verbatim>\<open>receiveSignal\<close> for the signal \<^verbatim>\<open>interestTimeout\<close>; the other signals only print.  The signal
  arrives while the table sweeps its entries, so the timer of the table and the notifications
  make one step.
\<close>

definition receiveTimeout :: "pit_notification \<Rightarrow> fw \<Rightarrow> sim_error + fw" where
  "receiveTimeout n F =
     (if isName (pn_face n) ''upperLayerIn'' then
        send_upper (Interest ((dup_interest (pn_interest n))\<lparr>pk_kind := TIMEOUT_CODE\<rparr>)) (gate_index (pn_face n)) F
      else Inr F)"

definition fw_pitTimer :: "simtime \<Rightarrow> fw \<Rightarrow> sim_error + fw" where
  "fw_pitTimer now F =
     (let (ns, P) = pit_handleMessage now True (fw_pit F)
      in run_result receiveTimeout ns (F\<lparr>fw_pit := P\<rparr>))"

section \<open>Invariant\<close>

text \<open>
  A gate of the module has an index within its gate vector; the faces and addresses stored in
  the tables are such gates and 48-bit addresses.
\<close>

definition gate_ok :: "nat \<Rightarrow> nat \<Rightarrow> gate \<Rightarrow> bool" where
  "gate_ok nl nu g \<longleftrightarrow> (isName g ''lowerLayerIn'' \<longrightarrow> 0 \<le> gate_index g \<and> gate_index g < int nl)
     \<and> (isName g ''upperLayerIn'' \<longrightarrow> 0 \<le> gate_index g \<and> gate_index g < int nu)"

definition pit_ok :: "nat \<Rightarrow> nat \<Rightarrow> pit \<Rightarrow> bool" where
  "pit_ok nl nu P \<longleftrightarrow> pit_inv P \<and> distinct (pit_pending P)
     \<and> list_all (\<lambda>e. gate_ok nl nu (pe_face e) \<and> mac_wf (pe_macSrc e)) (pit_entries P)"

definition fib_ok :: "nat \<Rightarrow> nat \<Rightarrow> fib \<Rightarrow> bool" where
  "fib_ok nl nu B \<longleftrightarrow> fib_inv B \<and> list_all (\<lambda>e. gate_ok nl nu (fe_face e)) (fib_entries B)"

definition cs_ok :: "cs \<Rightarrow> bool" where
  "cs_ok C \<longleftrightarrow> cs_inv C \<and> list_all (\<lambda>d. pk_type d = DATA) (cs_items C)"

definition mac_string :: "string \<Rightarrow> bool" where
  "mac_string s \<longleftrightarrow> returns mac_wf (MACAddress_of_string s)"

text \<open>The tables and constants; and the state of the delayed transmission.\<close>

definition fw_base :: "nat \<Rightarrow> nat \<Rightarrow> fw \<Rightarrow> bool" where
  "fw_base nl nu F \<longleftrightarrow> fw_lowerGates F = nl \<and> fw_upperGates F = nu \<and> 0 < nl \<and> mac_wf (fw_myMacAddress F)
     \<and> pit_ok nl nu (fw_pit F) \<and> fib_ok nl nu (fw_fib F) \<and> cs_ok (fw_cs F)"

definition fw_idle :: "nat \<Rightarrow> nat \<Rightarrow> fw \<Rightarrow> bool" where
  "fw_idle nl nu F \<longleftrightarrow> fw_base nl nu F \<and> \<not> fw_waiting F \<and> fw_timer F = None"

fun delayed_packet_ok :: "nat \<Rightarrow> nat \<Rightarrow> int \<Rightarrow> string \<Rightarrow> string list \<Rightarrow> packet option \<Rightarrow> bool" where
  "delayed_packet_ok nl nu type macSrc pending (Some (Interest i)) \<longleftrightarrow>
     type = INTEREST \<and> pk_type i = INTEREST \<and> gate_ok nl nu (pk_arrivalGate i)
     \<and> mac_string macSrc \<and> pk_name i \<notin> set pending"
| "delayed_packet_ok nl nu type macSrc pending (Some (Data d)) \<longleftrightarrow> type = DATA \<and> pk_type d = DATA"
| "delayed_packet_ok nl nu type macSrc pending _ \<longleftrightarrow> False"

definition delayed_ok :: "nat \<Rightarrow> nat \<Rightarrow> fw \<Rightarrow> bool" where
  "delayed_ok nl nu F \<longleftrightarrow> 0 \<le> sd_face F \<and> sd_face F < int nl \<and> mac_string (sd_macDest F)
     \<and> delayed_packet_ok nl nu (sd_type F) (sd_macSrc F) (pit_pending (fw_pit F)) (sd_packet F)"

definition fw_busy :: "nat \<Rightarrow> nat \<Rightarrow> fw \<Rightarrow> bool" where
  "fw_busy nl nu F \<longleftrightarrow> fw_base nl nu F \<and> fw_waiting F \<and> fw_timer F \<noteq> None \<and> delayed_ok nl nu F"

definition fw_inv :: "nat \<Rightarrow> nat \<Rightarrow> fw \<Rightarrow> bool" where
  "fw_inv nl nu F \<longleftrightarrow> fw_idle nl nu F \<or> fw_busy nl nu F"

subsection \<open>The tables under the invariant\<close>

lemma mac_string_mac_str: "mac_wf a \<Longrightarrow> mac_string (mac_str a)"
  by (simp add: mac_string_def MACAddress_of_string_def setAddress_def tryParse_mac_str)

lemma broadcast_string: "MACAddress_of_string ''ff:ff:ff:ff:ff:ff'' = Inr BROADCAST_ADDRESS"
  by (simp add: MACAddress_of_string_def setAddress_def tryParse_eq isxdigit_def separator_def)
     code_simp

lemma mac_wf_BROADCAST: "mac_wf BROADCAST_ADDRESS"
  unfolding BROADCAST_ADDRESS_def tryParse_eq by (simp add: mac_wf_setAddressBytes)

lemma mac_string_broadcast: "mac_string ''ff:ff:ff:ff:ff:ff''"
  by (simp add: mac_string_def broadcast_string mac_wf_BROADCAST)

lemma pit_ok_create:
  assumes "pit_ok nl nu P" "gate_ok nl nu (pk_arrivalGate i)" "mac_wf src" "pk_name i \<notin> set (pit_pending P)"
  shows "pit_ok nl nu (snd (pit_create now i src P))"
proof -
  have "fst (pit_lookup (pk_name i) P) = None" using assms(4) by (simp add: pit.lookup_iff)
  then have "distinct (pit_pending (snd (pit_create now i src P)))"
    using pit.distinct_create [of P "(now, i, src)"] assms(1) by (simp add: pit_ok_def)
  moreover have "list_all (\<lambda>e. gate_ok nl nu (pe_face e) \<and> mac_wf (pe_macSrc e)) (pit_entries (snd (pit_create now i src P)))"
    using assms by (simp add: pit_ok_def pit_create_def new_PitEntry_def)
  ultimately show ?thesis using assms(1) pit_inv_create by (simp add: pit_ok_def)
qed

lemma pit_ok_lookup: "pit_ok nl nu P \<Longrightarrow> pit_ok nl nu (snd (pit_lookup name P))"
  using pit_inv_lookup [of P name] pit.pending_lookup [of name P]
  by (auto simp: pit_ok_def) (auto simp: pit_lookup_def Let_def split: option.splits)

lemma pit_ok_found:
  "pit_ok nl nu P \<Longrightarrow> fst (pit_lookup name P) = Some e \<Longrightarrow> gate_ok nl nu (pe_face e) \<and> mac_wf (pe_macSrc e)"
  by (auto simp: pit_ok_def pit_lookup_def Let_def list_all_iff find_Some_iff split: if_splits option.splits)

lemma pit_ok_remove:
  assumes "pit_ok nl nu P"
  shows "pit_ok nl nu (snd (pit_remove name P))"
  using assms pit_inv_remove [of P name] pit.distinct_remove [of P name]
    set_erase_first_subset [of "pe_live name" "pit_entries P"]
  by (auto simp: pit_ok_def) (auto simp: pit_remove_def list_all_iff)

lemma pit_ok_handleMessage:
  assumes "pit_ok nl nu P" "pit_handleMessage now True P = (ns, P')"
  shows "pit_ok nl nu P' \<and> set (pit_pending P') \<subseteq> set (pit_pending P)
    \<and> list_all (\<lambda>n. gate_ok nl nu (pn_face n)) ns"
proof -
  have inv: "pit_inv P" and "list_all (\<lambda>e. \<not> pe_erased e) (pit_entries P)"
    using assms(1) by (simp_all add: pit_ok_def pit_inv_def)
  then have eq: "pit_entries P' = filter (\<lambda>e. now < pe_expireAt e) (pit_entries P)"
    "ns = map pe_notification (filter (\<lambda>e. pe_expireAt e \<le> now) (pit_entries P))"
    using assms(2) by (auto simp: pit_handleMessage_def pit_cleanTimedout_eq simp del: filter_empty_conv split: if_splits)
  have "distinct (map f (filter Q (filter R es)))" if "distinct (map f (filter Q es))" for f :: "pit_entry \<Rightarrow> string" and Q R es
    using that by (induction es) auto
  then have "distinct (pit_pending P')"
    using assms(1) by (simp add: pit_ok_def pit_pending_def eq(1) del: filter_filter)
  moreover have "set (pit_pending P') \<subseteq> set (pit_pending P)" by (auto simp: pit_pending_def eq(1))
  moreover have "pit_inv P'" using pit_inv_handleMessage [OF inv, of now True] assms(2) by simp
  ultimately show ?thesis
    using assms(1) by (auto simp: pit_ok_def list_all_iff eq pe_notification_def)
qed

lemma cs_ok_exec:
  assumes "cs_ok C" "\<And>d. cs_adds op = Some d \<Longrightarrow> pk_type d = DATA"
  shows "cs_ok (cs_exec op C)"
proof -
  have "list_all (\<lambda>d. pk_type d = DATA) (cs_items (cs_exec op C))"
    using assms by (cases "cs_adds op") (auto simp: cs_ok_def cs.items_keep cs.items_add list_all_tl)
  then show ?thesis using assms(1) cs_exec_inv by (simp add: cs_ok_def)
qed

lemma cs_ok_add: "cs_ok C \<Longrightarrow> pk_type d = DATA \<Longrightarrow> 0 \<le> now \<Longrightarrow> cs_ok (snd (cs_add now d C))"
  using cs_ok_exec [of C "CsAdd (nat now) d"] by simp

lemma cs_ok_lookup: "cs_ok C \<Longrightarrow> cs_ok (snd (cs_lookup i C))"
  using cs_ok_exec [of C "CsLookup i"] by simp

lemma cs_ok_found: "cs_ok C \<Longrightarrow> fst (cs_lookup i C) = Some d \<Longrightarrow> pk_type d = DATA"
  by (auto simp: cs_ok_def cs_lookup_def cs_items_def list_all_iff find_Some_iff split: if_splits option.splits)

lemma cs_ok_handleMessage: "cs_ok C \<Longrightarrow> cs_ok (cs_handleMessage now self C)"
  using cs_inv_handleMessage [of C now self] by (simp add: cs_ok_def cs_items_handleMessage)

lemma fib_ok_lookup: "fib_ok nl nu B \<Longrightarrow> fib_ok nl nu (snd (fib_lookup name B))"
  using fib_inv_lookup [of B name] by (auto simp: fib_ok_def) (auto simp: fib_lookup_def split: option.splits)

lemma fib_ok_found: "fib_ok nl nu B \<Longrightarrow> fst (fib_lookup name B) = Some e \<Longrightarrow> gate_ok nl nu (fe_face e)"
  by (auto simp: fib_ok_def fib_lookup_def list_all_iff fib_match_Some split: if_splits option.splits)

lemma fib_ok_registerPrefix:
  "fib_ok nl nu B \<Longrightarrow> gate_ok nl nu g \<Longrightarrow> fib_ok nl nu (snd (fib_registerPrefix now pfx g mac B))"
  using fib_inv_registerPrefix [of B now pfx g mac]
  by (auto simp: fib_ok_def) (auto simp: fib_registerPrefix_def new_FibEntry_def)

lemma fib_ok_create:
  assumes "fib_ok nl nu B" "gate_ok nl nu g" "0 \<le> len" "len \<le> int (length name)"
  shows "returns (\<lambda>(ok, B'). fib_ok nl nu B') (fib_create now name len g mac B)"
proof -
  obtain ok B' where r: "fib_create now name len g mac B = Inr (ok, B')"
    using fib_create_returns [OF assms(3,4)] by fastforce
  have "fib_inv B'" using fib_inv_create r assms(1) by (fastforce simp: fib_ok_def)
  moreover have "list_all (\<lambda>e. gate_ok nl nu (fe_face e)) (fib_entries B')"
    using r assms(1,2)
    by (auto simp: fib_create_def bind_result_Inr_iff Let_def fib_ok_def new_FibEntry_def fib_match_Some list_all_iff
        dest!: set_update_subset_insert [THEN subsetD] split: option.splits if_splits)
  ultimately show ?thesis using r by (simp add: fib_ok_def)
qed

lemma fib_ok_handleMessage: "fib_ok nl nu B \<Longrightarrow> fib_ok nl nu (snd (fib_handleMessage now self B))"
  using fib_inv_handleMessage [of B now self]
  by (auto simp: fib_ok_def)
     (auto simp: fib_handleMessage_def fib_cleanExpired_def fib_clean_loop_eq Let_def list_all_iff)

subsection \<open>The forwarding operations under the invariant\<close>

lemma returns_ndnToMacMapping:
  "getControlInfo p = None \<Longrightarrow> returns (\<lambda>p'. True) (ndnToMacMapping F p dest)"
  by (cases p) (simp_all add: ndnToMacMapping_def broadcast_string Let_def)

lemma base_sent [simp]:
  "fw_base nl nu (F\<lparr>fw_sent := x\<rparr>) = fw_base nl nu F"
  "fw_idle nl nu (F\<lparr>fw_sent := x\<rparr>) = fw_idle nl nu F"
  "fw_busy nl nu (F\<lparr>fw_sent := x\<rparr>) = fw_busy nl nu F"
  by (simp_all add: fw_base_def fw_idle_def fw_busy_def delayed_ok_def)

text \<open>The handlers change a state only within the base invariant and leave the timer alone.\<close>

definition fw_rest :: "nat \<Rightarrow> nat \<Rightarrow> fw \<Rightarrow> fw \<Rightarrow> bool" where
  "fw_rest nl nu F F' \<longleftrightarrow> fw_base nl nu F' \<and> fw_waiting F' = fw_waiting F \<and> fw_timer F' = fw_timer F"

lemma rest_refl: "fw_base nl nu F \<Longrightarrow> fw_rest nl nu F F"
  by (simp add: fw_rest_def)

lemma send_lower_rest:
  "fw_base nl nu F \<Longrightarrow> 0 \<le> face \<Longrightarrow> face < int nl \<Longrightarrow> returns (fw_rest nl nu F) (send_lower p face F)"
  by (simp add: send_lower_def fw_rest_def) (simp add: fw_base_def)

lemma send_upper_rest:
  "fw_base nl nu F \<Longrightarrow> 0 \<le> face \<Longrightarrow> face < int nu \<Longrightarrow> returns (fw_rest nl nu F) (send_upper p face F)"
  by (simp add: send_upper_def fw_rest_def) (simp add: fw_base_def)

lemma forwardDataToRemote_rest:
  assumes "fw_base nl nu F" "0 \<le> face" "face < int nl" "pk_controlInfo d = None"
  shows "returns (fw_rest nl nu F) (forwardDataToRemote d face mac F)"
  unfolding forwardDataToRemote_def
  by (rule returns_bind [OF returns_ndnToMacMapping send_lower_rest]) (use assms in simp_all)

lemma forwardDataToLocal_rest:
  "fw_base nl nu F \<Longrightarrow> 0 \<le> face \<Longrightarrow> face < int nu \<Longrightarrow> returns (fw_rest nl nu F) (forwardDataToLocal d face F)"
  by (simp add: forwardDataToLocal_def send_upper_rest)

lemma base_create:
  assumes "fw_base nl nu F" "gate_ok nl nu (pk_arrivalGate i)" "mac_wf src"
    and "pk_name i \<notin> set (pit_pending (fw_pit F))"
  shows "fw_base nl nu (F\<lparr>fw_pit := snd (pit_create now i src (fw_pit F))\<rparr>)"
  using assms pit_ok_create by (simp add: fw_base_def)

lemma forwardInterestToRemote_rest:
  assumes "fw_base nl nu F" "gate_ok nl nu (pk_arrivalGate i)" "mac_wf src"
    and "pk_name i \<notin> set (pit_pending (fw_pit F))" "0 \<le> face" "face < int nl" "pk_controlInfo i = None"
  shows "returns (fw_rest nl nu F) (forwardInterestToRemote now i face src dest F)"
proof -
  let ?F = "F\<lparr>fw_pit := snd (pit_create now i src (fw_pit F))\<rparr>"
  have base: "fw_base nl nu ?F" by (rule base_create) (use assms in simp_all)
  have "returns (fw_rest nl nu ?F) (bind_result (ndnToMacMapping ?F (Interest i) dest) (\<lambda>p. send_lower p face ?F))"
    by (rule returns_bind [OF returns_ndnToMacMapping send_lower_rest [OF base]]) (use assms in simp_all)
  then have "returns (fw_rest nl nu F) (bind_result (ndnToMacMapping ?F (Interest i) dest) (\<lambda>p. send_lower p face ?F))"
    by (rule returns_mono) (simp add: fw_rest_def)
  with base show ?thesis by (simp add: forwardInterestToRemote_def Let_def fw_rest_def case_prod_beta)
qed

lemma forwardInterestToLocal_rest:
  assumes "fw_base nl nu F" "gate_ok nl nu (pk_arrivalGate i)" "mac_wf src"
    and "pk_name i \<notin> set (pit_pending (fw_pit F))" "0 \<le> face" "face < int nu"
  shows "returns (fw_rest nl nu F) (forwardInterestToLocal now i face src F)"
proof -
  let ?F = "F\<lparr>fw_pit := snd (pit_create now i src (fw_pit F))\<rparr>"
  have base: "fw_base nl nu ?F" by (rule base_create) (use assms in simp_all)
  have "returns (fw_rest nl nu F) (send_upper (Interest i) face ?F)"
    by (rule returns_mono [OF send_upper_rest [OF base]]) (use assms in \<open>simp_all add: fw_rest_def\<close>)
  with base show ?thesis by (simp add: forwardInterestToLocal_def Let_def fw_rest_def case_prod_beta)
qed

lemma base_cs_add: "fw_base nl nu F \<Longrightarrow> pk_type d = DATA \<Longrightarrow> 0 \<le> now \<Longrightarrow> fw_base nl nu (fw_cs_add now d F)"
  using cs_ok_add [of "fw_cs F" d now] by (simp add: fw_base_def fw_cs_add_def)

lemma base_pit_remove: "fw_base nl nu F \<Longrightarrow> fw_base nl nu (fw_pit_remove name F)"
  using pit_ok_remove by (simp add: fw_base_def fw_pit_remove_def)

lemma base_cs_lookup: "fw_base nl nu F \<Longrightarrow> fw_base nl nu (F\<lparr>fw_cs := snd (cs_lookup i (fw_cs F))\<rparr>)"
  using cs_ok_lookup [of "fw_cs F" i] by (simp add: fw_base_def)

lemma base_pit_lookup: "fw_base nl nu F \<Longrightarrow> fw_base nl nu (F\<lparr>fw_pit := snd (pit_lookup n (fw_pit F))\<rparr>)"
  using pit_ok_lookup by (simp add: fw_base_def)

lemma base_fib_lookup: "fw_base nl nu F \<Longrightarrow> fw_base nl nu (F\<lparr>fw_fib := snd (fib_lookup n (fw_fib F))\<rparr>)"
  using fib_ok_lookup by (simp add: fw_base_def)

lemma idle_iff_base:
  "fw_idle nl nu F \<Longrightarrow> fw_rest nl nu F F' \<Longrightarrow> fw_idle nl nu F'"
  by (simp add: fw_idle_def fw_rest_def)

lemma pending_find:
  "fst (pit_lookup n P) = None \<Longrightarrow> n \<notin> set (pit_pending P)"
  by (simp add: pit.lookup_iff)

lemma base_counters [simp]:
  "fw_base nl nu (F\<lparr>fw_numIntReceived := a\<rparr>) = fw_base nl nu F"
  "fw_base nl nu (F\<lparr>fw_numIntFwd := a\<rparr>) = fw_base nl nu F"
  "fw_base nl nu (F\<lparr>fw_numIntDuplicated := a\<rparr>) = fw_base nl nu F"
  "fw_base nl nu (F\<lparr>fw_numIntCanceled := a\<rparr>) = fw_base nl nu F"
  "fw_base nl nu (F\<lparr>fw_numDataCanceled := a\<rparr>) = fw_base nl nu F"
  "fw_base nl nu (F\<lparr>fw_numDataReceived := a\<rparr>) = fw_base nl nu F"
  "fw_base nl nu (F\<lparr>fw_numDataFwd := a\<rparr>) = fw_base nl nu F"
  "fw_base nl nu (F\<lparr>fw_numDataUnsolicited := a\<rparr>) = fw_base nl nu F"
  by (simp_all add: fw_base_def)

lemma base_delay [simp]:
  "fw_base nl nu (F\<lparr>fw_waiting := w\<rparr>) = fw_base nl nu F"
  "fw_base nl nu (F\<lparr>fw_timer := t\<rparr>) = fw_base nl nu F"
  "fw_base nl nu (F\<lparr>sd_packet := p\<rparr>) = fw_base nl nu F"
  "fw_base nl nu (F\<lparr>sd_type := ty\<rparr>) = fw_base nl nu F"
  "fw_base nl nu (F\<lparr>sd_face := f\<rparr>) = fw_base nl nu F"
  "fw_base nl nu (F\<lparr>sd_macDest := s\<rparr>) = fw_base nl nu F"
  "fw_base nl nu (F\<lparr>sd_macSrc := s\<rparr>) = fw_base nl nu F"
  by (simp_all add: fw_base_def)

lemma delay_nonneg:
  "0 \<le> u \<Longrightarrow> 0 \<le> SimTime_ms (c_int_of_double (computeInterestRandomDelay u))"
  "0 \<le> u \<Longrightarrow> 0 \<le> SimTime_ms (c_int_of_double (computeDataRandomDelay u))"
  by (simp_all add: computeInterestRandomDelay_def computeDataRandomDelay_def c_int_of_double_def
      DW_def DEFER_SLOT_TIME_def)

text \<open>The handlers of an Interest, with the state after the three lookups written out.\<close>

definition looked_up :: "interest \<Rightarrow> fw \<Rightarrow> fw" where
  "looked_up i F = F\<lparr>fw_cs := snd (cs_lookup i (fw_cs F)),
     fw_pit := snd (pit_lookup (pk_name i) (fw_pit F)), fw_fib := snd (fib_lookup (pk_name i) (fw_fib F))\<rparr>"

lemma processHLInterest_eq:
  "processHLInterest now i F =
     (case fst (cs_lookup i (fw_cs F)) of
        Some d \<Rightarrow> forwardDataToLocal (dup_data d) (gate_index (pk_arrivalGate i)) (F\<lparr>fw_cs := snd (cs_lookup i (fw_cs F))\<rparr>)
      | None \<Rightarrow>
        case fst (pit_lookup (pk_name i) (fw_pit F)) of
          Some _ \<Rightarrow> Inr (F\<lparr>fw_cs := snd (cs_lookup i (fw_cs F)), fw_pit := snd (pit_lookup (pk_name i) (fw_pit F)),
                         fw_numIntDuplicated := fw_numIntDuplicated F + 1\<rparr>)
        | None \<Rightarrow>
          case fst (fib_lookup (pk_name i) (fw_fib F)) of
            Some e \<Rightarrow> if isName (fe_face e) ''lowerLayerIn'' then
                forwardInterestToRemote now i (gate_index (fe_face e)) (fw_myMacAddress F) (fe_macDest e) (looked_up i F)
              else if isName (fe_face e) ''upperLayerIn'' then
                forwardInterestToLocal now i (gate_index (fe_face e)) (fw_myMacAddress F) (looked_up i F)
              else Inr (looked_up i F)
          | None \<Rightarrow> forwardInterestToRemote now i DEFAULT_MAC_IF (fw_myMacAddress F) BROADCAST_ADDRESS (looked_up i F))"
  by (simp add: processHLInterest_def case_prod_beta Let_def broadcast_string looked_up_def split: option.split)

lemma processLLInterest_eq:
  fixes F0 i
  defines "F \<equiv> F0\<lparr>fw_numIntReceived := fw_numIntReceived F0 + 1\<rparr>" and "i' \<equiv> i\<lparr>pk_hopCount := pk_hopCount i + 1\<rparr>"
  shows "processLLInterest now u i macSrc F0 =
     (case fst (cs_lookup i (fw_cs F0)) of
        Some d \<Rightarrow> forwardDataToRemote (dup_data d) (gate_index (pk_arrivalGate i)) macSrc (F\<lparr>fw_cs := snd (cs_lookup i (fw_cs F))\<rparr>)
      | None \<Rightarrow>
        case fst (pit_lookup (pk_name i) (fw_pit F0)) of
          Some _ \<Rightarrow> Inr (F\<lparr>fw_cs := snd (cs_lookup i (fw_cs F)), fw_pit := snd (pit_lookup (pk_name i) (fw_pit F)),
                         fw_numIntDuplicated := fw_numIntDuplicated F + 1\<rparr>)
        | None \<Rightarrow>
          case fst (fib_lookup (pk_name i) (fw_fib F0)) of
            Some e \<Rightarrow> if isName (fe_face e) ''lowerLayerIn'' \<and> fw_forwarding F0 then
                bind_result (forwardInterestToRemote now i' (gate_index (fe_face e)) macSrc (fe_macDest e) (looked_up i F))
                  (\<lambda>F5. Inr (F5\<lparr>fw_numIntFwd := fw_numIntFwd F5 + 1\<rparr>))
              else if isName (fe_face e) ''upperLayerIn'' then
                forwardInterestToLocal now i' (gate_index (fe_face e)) macSrc (looked_up i F)
              else Inr (looked_up i F)
          | None \<Rightarrow> if pk_flood i \<and> fw_forwarding F0 then
                bind_result
                  (fw_scheduleAt now (now + SimTime_ms (c_int_of_double (computeInterestRandomDelay u)))
                    ((looked_up i F)\<lparr>sd_packet := Some (Interest i'), sd_type := INTEREST, sd_face := DEFAULT_MAC_IF,
                        sd_macDest := ''ff:ff:ff:ff:ff:ff'', sd_macSrc := mac_str macSrc\<rparr>))
                  (\<lambda>F5. Inr (F5\<lparr>fw_waiting := True\<rparr>))
              else Inr (looked_up i F))"
  by (auto simp: processLLInterest_def case_prod_beta Let_def looked_up_def F_def i'_def split: option.split)

lemma idle_looked_up: "fw_idle nl nu F \<Longrightarrow> fw_idle nl nu (looked_up i F)"
  using cs_ok_lookup [of "fw_cs F" i] pit_ok_lookup fib_ok_lookup
  by (simp add: looked_up_def fw_idle_def fw_base_def)

lemma idle_looked_up_partly:
  "fw_idle nl nu F \<Longrightarrow> fw_idle nl nu (F\<lparr>fw_cs := snd (cs_lookup i (fw_cs F))\<rparr>)"
  "fw_idle nl nu F \<Longrightarrow>
   fw_idle nl nu (F\<lparr>fw_cs := snd (cs_lookup i (fw_cs F)), fw_pit := snd (pit_lookup n (fw_pit F)), fw_numIntDuplicated := k\<rparr>)"
  using cs_ok_lookup [of "fw_cs F" i] pit_ok_lookup by (simp_all add: fw_idle_def fw_base_def)

lemma pending_looked_up: "pit_pending (fw_pit (looked_up i F)) = pit_pending (fw_pit F)"
  by (simp add: looked_up_def pit.pending_lookup)

lemma idle_base: "fw_idle nl nu F \<Longrightarrow> fw_base nl nu F"
  by (simp add: fw_idle_def)

lemma fib_found_gate: "fw_idle nl nu F \<Longrightarrow> fst (fib_lookup n (fw_fib F)) = Some e \<Longrightarrow> gate_ok nl nu (fe_face e)"
  using fib_ok_found [of nl nu "fw_fib F" n e] by (simp add: fw_idle_def fw_base_def)

lemma gate_okD:
  "gate_ok nl nu g \<Longrightarrow> isName g ''lowerLayerIn'' \<Longrightarrow> 0 \<le> gate_index g \<and> gate_index g < int nl"
  "gate_ok nl nu g \<Longrightarrow> isName g ''upperLayerIn'' \<Longrightarrow> 0 \<le> gate_index g \<and> gate_index g < int nu"
  by (simp_all add: gate_ok_def)

lemma idle_nl: "fw_idle nl nu F \<Longrightarrow> 0 < nl \<and> mac_wf (fw_myMacAddress F)"
  by (simp add: fw_idle_def fw_base_def)

lemma processHLInterest_idle:
  assumes F: "fw_idle nl nu F" and g: "gate_ok nl nu (pk_arrivalGate i)" "isName (pk_arrivalGate i) ''upperLayerIn''"
    and c: "pk_controlInfo i = None"
  shows "returns (fw_idle nl nu) (processHLInterest now i F)"
proof -
  note lu = idle_looked_up [OF F, of i] and idle = idle_iff_base
  have local_data: "returns (fw_idle nl nu) (forwardDataToLocal d (gate_index (pk_arrivalGate i)) F')"
    if "fw_idle nl nu F'" for d F'
    by (rule returns_mono [OF forwardDataToLocal_rest idle_iff_base [OF that]])
      (use that idle_base gate_okD(2) [OF g] in simp_all)
  have remote: "returns (fw_idle nl nu) (forwardInterestToRemote now i face (fw_myMacAddress F) dest (looked_up i F))"
    if "0 \<le> face" "face < int nl" "pk_name i \<notin> set (pit_pending (fw_pit F))" for face dest
    by (rule returns_mono [OF forwardInterestToRemote_rest idle_iff_base [OF lu]])
      (use that g c lu idle_base idle_nl [OF F] in \<open>simp_all add: pending_looked_up\<close>)
  have loc: "returns (fw_idle nl nu) (forwardInterestToLocal now i face (fw_myMacAddress F) (looked_up i F))"
    if "0 \<le> face" "face < int nu" "pk_name i \<notin> set (pit_pending (fw_pit F))" for face
    by (rule returns_mono [OF forwardInterestToLocal_rest idle_iff_base [OF lu]])
      (use that g c lu idle_base idle_nl [OF F] in \<open>simp_all add: pending_looked_up\<close>)
  show ?thesis unfolding processHLInterest_eq
    using F lu gate_okD [OF fib_found_gate [OF F]] idle_nl [OF F]
    by (auto simp: pit.lookup_iff DEFAULT_MAC_IF_def split: option.split
        intro!: local_data remote loc idle_looked_up_partly)
qed

lemma idle_counters [simp]:
  "fw_idle nl nu (F\<lparr>fw_numIntReceived := a\<rparr>) = fw_idle nl nu F"
  "fw_idle nl nu (F\<lparr>fw_numIntFwd := a\<rparr>) = fw_idle nl nu F"
  "fw_idle nl nu (F\<lparr>fw_numDataReceived := a\<rparr>) = fw_idle nl nu F"
  "fw_idle nl nu (F\<lparr>fw_numDataFwd := a\<rparr>) = fw_idle nl nu F"
  "fw_idle nl nu (F\<lparr>fw_numDataUnsolicited := a\<rparr>) = fw_idle nl nu F"
  by (simp_all add: fw_idle_def)

lemma delay_busy:
  assumes "fw_idle nl nu F" "now \<le> t"
    and "0 \<le> sd_face F" "sd_face F < int nl" "mac_string (sd_macDest F)"
    and "delayed_packet_ok nl nu (sd_type F) (sd_macSrc F) (pit_pending (fw_pit F)) (sd_packet F)"
  shows "\<exists>F'. fw_scheduleAt now t F = Inr F' \<and> fw_busy nl nu (F'\<lparr>fw_waiting := True\<rparr>)"
  using assms by (simp add: fw_scheduleAt_def fw_idle_def fw_busy_def delayed_ok_def)

lemma processLLInterest_inv:
  assumes F: "fw_idle nl nu F" and g: "gate_ok nl nu (pk_arrivalGate i)" "isName (pk_arrivalGate i) ''lowerLayerIn''"
    and c: "pk_controlInfo i = None" and t: "pk_type i = INTEREST" and mac: "mac_wf src" and u: "0 \<le> u"
  shows "returns (fw_inv nl nu) (processLLInterest now u i src F)"
proof -
  define F1 where "F1 = F\<lparr>fw_numIntReceived := fw_numIntReceived F + 1\<rparr>"
  define i' where "i' = i\<lparr>pk_hopCount := pk_hopCount i + 1\<rparr>"
  have F1: "fw_idle nl nu F1" using F by (simp add: F1_def)
  have same: "fw_pit F1 = fw_pit F" "fw_fib F1 = fw_fib F" "fw_cs F1 = fw_cs F" by (simp_all add: F1_def)
  note lu = idle_looked_up [OF F1, of i]
  have i': "gate_ok nl nu (pk_arrivalGate i')" "pk_controlInfo i' = None" "pk_name i' = pk_name i" "pk_type i' = INTEREST"
    using g c t by (simp_all add: i'_def)
  have inv: "fw_inv nl nu F'" if "fw_idle nl nu F'" for F' using that by (simp add: fw_inv_def)
  have data: "returns (fw_inv nl nu) (forwardDataToRemote (dup_data d) (gate_index (pk_arrivalGate i)) src F')"
    if "fw_idle nl nu F'" for d F'
    by (rule returns_mono [OF forwardDataToRemote_rest inv [OF idle_iff_base [OF that]]])
      (use that idle_base gate_okD(1) [OF g] in \<open>simp_all add: dup_data_def\<close>)
  have remote: "returns (fw_inv nl nu) (bind_result (forwardInterestToRemote now i' face src dest (looked_up i F1))
      (\<lambda>F5. Inr (F5\<lparr>fw_numIntFwd := fw_numIntFwd F5 + 1\<rparr>)))"
    if "0 \<le> face" "face < int nl" "pk_name i \<notin> set (pit_pending (fw_pit F))" for face dest
    by (rule returns_bind [OF returns_mono [OF forwardInterestToRemote_rest idle_iff_base [OF lu]]])
      (use that i' mac lu idle_base in \<open>auto simp: pending_looked_up same intro: inv\<close>)
  have loc: "returns (fw_inv nl nu) (forwardInterestToLocal now i' face src (looked_up i F1))"
    if "0 \<le> face" "face < int nu" "pk_name i \<notin> set (pit_pending (fw_pit F))" for face
    by (rule returns_mono [OF forwardInterestToLocal_rest inv [OF idle_iff_base [OF lu]]])
      (use that i' mac lu idle_base in \<open>simp_all add: pending_looked_up same\<close>)
  have flood: "returns (fw_inv nl nu) (bind_result
      (fw_scheduleAt now (now + SimTime_ms (c_int_of_double (computeInterestRandomDelay u)))
        ((looked_up i F1)\<lparr>sd_packet := Some (Interest i'), sd_type := INTEREST, sd_face := DEFAULT_MAC_IF,
           sd_macDest := ''ff:ff:ff:ff:ff:ff'', sd_macSrc := mac_str src\<rparr>))
      (\<lambda>F5. Inr (F5\<lparr>fw_waiting := True\<rparr>)))" (is "returns _ (bind_result (fw_scheduleAt _ ?t ?F) _)")
    if "pk_name i \<notin> set (pit_pending (fw_pit F))"
  proof -
    have "fw_idle nl nu ?F" using lu by (simp add: fw_idle_def)
    then have "\<exists>F'. fw_scheduleAt now ?t ?F = Inr F' \<and> fw_busy nl nu (F'\<lparr>fw_waiting := True\<rparr>)"
      by (rule delay_busy)
        (use i' that idle_nl [OF F] mac delay_nonneg [OF u] in
          \<open>simp_all add: mac_string_broadcast mac_string_mac_str DEFAULT_MAC_IF_def pending_looked_up same\<close>)
    then show ?thesis by (auto simp: fw_inv_def)
  qed
  show ?thesis unfolding processLLInterest_eq F1_def [symmetric] i'_def [symmetric]
    using F1 lu gate_okD [OF fib_found_gate [OF F]]
    by (auto simp: pit.lookup_iff simp del: One_nat_def split: option.split
        intro!: data remote loc flood inv idle_looked_up_partly)
qed

lemma idle_cs_add: "fw_idle nl nu F \<Longrightarrow> pk_type d = DATA \<Longrightarrow> 0 \<le> now \<Longrightarrow> fw_idle nl nu (fw_cs_add now d F)"
  using base_cs_add [of nl nu F d now] by (simp add: fw_idle_def fw_cs_add_def)

lemma idle_pit_remove: "fw_idle nl nu F \<Longrightarrow> fw_idle nl nu (fw_pit_remove name F)"
  using base_pit_remove [of nl nu F name] by (simp add: fw_idle_def fw_pit_remove_def)

lemma busy_cs_add: "fw_busy nl nu F \<Longrightarrow> pk_type d = DATA \<Longrightarrow> 0 \<le> now \<Longrightarrow> fw_busy nl nu (fw_cs_add now d F)"
  using base_cs_add [of nl nu F d now] by (simp add: fw_busy_def fw_cs_add_def delayed_ok_def)

lemma delayed_packet_ok_mono:
  "delayed_packet_ok nl nu ty s ns p \<Longrightarrow> set ns' \<subseteq> set ns \<Longrightarrow> delayed_packet_ok nl nu ty s ns' p"
  by (cases "(nl, nu, ty, s, ns, p)" rule: delayed_packet_ok.cases) auto

lemma busy_pit_remove:
  assumes "fw_busy nl nu F"
  shows "fw_busy nl nu (fw_pit_remove name F)"
proof -
  have "set (pit_pending (snd (pit_remove name (fw_pit F)))) \<subseteq> set (pit_pending (fw_pit F))"
    by (auto simp: pit.pending_remove dest: set_remove1_subset [THEN subsetD])
  then show ?thesis using assms base_pit_remove [of nl nu F name] delayed_packet_ok_mono
    by (auto simp: fw_busy_def fw_pit_remove_def delayed_ok_def)
qed

lemma idle_pit_lookup: "fw_idle nl nu F \<Longrightarrow> fw_idle nl nu (F\<lparr>fw_pit := snd (pit_lookup n (fw_pit F))\<rparr>)"
  using base_pit_lookup [of nl nu F n] by (simp add: fw_idle_def)

lemma pit_found_gate:
  "fw_idle nl nu F \<Longrightarrow> fst (pit_lookup n (fw_pit F)) = Some e \<Longrightarrow> gate_ok nl nu (pe_face e) \<and> mac_wf (pe_macSrc e)"
  using pit_ok_found [of nl nu "fw_pit F" n e] by (simp add: fw_idle_def fw_base_def)

lemma processHLData_idle:
  assumes F: "fw_idle nl nu F" and c: "pk_controlInfo d = None" and t: "pk_type d = DATA" and now: "0 \<le> now"
  shows "returns (fw_idle nl nu) (processHLData now d F)"
proof -
  define F1 where "F1 = F\<lparr>fw_pit := snd (pit_lookup (pk_name d) (fw_pit F))\<rparr>"
  have F1: "fw_idle nl nu F1" unfolding F1_def by (rule idle_pit_lookup [OF F])
  have solicited: "returns (fw_idle nl nu) (bind_result r (\<lambda>F2. Inr (fw_cs_add now d (fw_pit_remove (pk_name d) F2))))"
    if "returns (fw_rest nl nu F1) r" for r
    by (rule returns_bind [OF that]) (simp add: idle_cs_add idle_pit_remove idle_iff_base [OF F1] t now)
  have "returns (fw_rest nl nu F1)
      (if isName (pe_face e) ''lowerLayerIn'' then forwardDataToRemote d (gate_index (pe_face e)) (pe_macSrc e) F1
       else if isName (pe_face e) ''upperLayerIn'' then forwardDataToLocal d (gate_index (pe_face e)) F1
       else Inr F1)" if "fst (pit_lookup (pk_name d) (fw_pit F)) = Some e" for e
    using gate_okD [OF conjunct1 [OF pit_found_gate [OF F that]]] idle_base [OF F1] c
    by (auto simp: rest_refl intro!: forwardDataToRemote_rest forwardDataToLocal_rest)
  with solicited F1 t now show ?thesis
    by (auto simp: processHLData_def case_prod_beta Let_def F1_def [symmetric] idle_cs_add idle_pit_remove split: option.split)
qed

lemma satisfyPitEntry_inv:
  assumes F: "fw_idle nl nu F" and e: "gate_ok nl nu (pe_face e) \<and> mac_wf (pe_macSrc e)"
    and t: "pk_type d = DATA" and u: "0 \<le> u" and now: "0 \<le> now"
  shows "returns (fw_inv nl nu) (satisfyPitEntry now u d e F)"
proof -
  define d' where "d' = d\<lparr>pk_hopCount := pk_hopCount d + 1\<rparr>"
  have t': "pk_type d' = DATA" using t by (simp add: d'_def)
  have inv: "fw_inv nl nu F'" if "fw_idle nl nu F' \<or> fw_busy nl nu F'" for F' using that by (simp add: fw_inv_def)
  have remote: "returns (fw_inv nl nu) (bind_result
       (fw_scheduleAt now (now + SimTime_ms (c_int_of_double (computeDataRandomDelay u)))
         (F\<lparr>sd_packet := Some (Data d'), sd_type := DATA, sd_face := gate_index (pe_face e),
             sd_macDest := mac_str (pe_macSrc e)\<rparr>))
       (\<lambda>F4. Inr (fw_cs_add now d' (fw_pit_remove (pk_name d) (F4\<lparr>fw_waiting := True\<rparr>)))))"
    (is "returns _ (bind_result (fw_scheduleAt _ ?t ?F) _)") if "isName (pe_face e) ''lowerLayerIn''"
  proof -
    have "fw_idle nl nu ?F" using F by (simp add: fw_idle_def)
    then have "\<exists>F'. fw_scheduleAt now ?t ?F = Inr F' \<and> fw_busy nl nu (F'\<lparr>fw_waiting := True\<rparr>)"
      by (rule delay_busy) (use e that gate_okD(1) [OF conjunct1 [OF e]] delay_nonneg [OF u] t in
          \<open>simp_all add: mac_string_mac_str d'_def\<close>)
    then show ?thesis using now t' by (auto simp: fw_inv_def busy_cs_add busy_pit_remove)
  qed
  have loc: "returns (fw_inv nl nu) (bind_result (forwardDataToLocal d' (gate_index (pe_face e)) F)
       (\<lambda>F4. Inr (fw_cs_add now d' (fw_pit_remove (pk_name d) F4))))" if "isName (pe_face e) ''upperLayerIn''"
    by (rule returns_bind [OF forwardDataToLocal_rest [OF idle_base [OF F]]])
      (use gate_okD(2) [OF conjunct1 [OF e] that] now t' in \<open>simp_all add: inv idle_cs_add idle_pit_remove idle_iff_base [OF F]\<close>)
  show ?thesis unfolding satisfyPitEntry_def Let_def d'_def [symmetric]
    using remote loc by (simp add: inv idle_cs_add idle_pit_remove F now t)
qed

lemma processLLData_inv:
  assumes F: "fw_idle nl nu F" and g: "gate_ok nl nu (pk_arrivalGate d)" and len: "0 \<le> pk_prefixLength d"
      "pk_prefixLength d \<le> int (length (pk_name d))"
    and t: "pk_type d = DATA" and u: "0 \<le> u" and now: "0 \<le> now"
  shows "returns (fw_inv nl nu) (processLLData now u d src F)"
proof -
  define F1 where "F1 = F\<lparr>fw_pit := snd (pit_lookup (pk_name d) (fw_pit F))\<rparr>"
  have F1: "fw_idle nl nu F1" unfolding F1_def by (rule idle_pit_lookup [OF F])
  define F2 where "F2 = F1\<lparr>fw_numDataReceived := fw_numDataReceived F1 + 1\<rparr>"
  have fib: "fib_ok nl nu (fw_fib F2)" using F1 by (simp add: F2_def fw_idle_def fw_base_def)
  have F3: "fw_idle nl nu (F2\<lparr>fw_fib := B\<rparr>)" if "fib_ok nl nu B" for B
    using F1 that by (simp add: F2_def fw_idle_def fw_base_def)
  have solicited: "returns (fw_inv nl nu)
     (bind_result (fib_create now (pk_name d) (pk_prefixLength d) (pk_arrivalGate d) src (fw_fib F2)) (\<lambda>(_, B).
       satisfyPitEntry now u d e (F2\<lparr>fw_fib := B\<rparr>)))" if "fst (pit_lookup (pk_name d) (fw_pit F)) = Some e" for e
    by (rule returns_bind [OF fib_ok_create [OF fib g len]])
      (use satisfyPitEntry_inv [OF F3 pit_found_gate [OF F that] t u now] in auto)
  have unsolicited: "fw_inv nl nu (F2\<lparr>fw_numDataUnsolicited := k\<rparr>)"
    if "F2 = F1 \<or> F2 = fw_cs_add now d F1" for F2 k
    using that F1 now t by (auto simp: fw_inv_def idle_cs_add)
  show ?thesis
  proof (cases "fst (pit_lookup (pk_name d) (fw_pit F))")
    case None
    then show ?thesis using unsolicited by (simp add: processLLData_def case_prod_beta Let_def F1_def)
  next
    case (Some e)
    then show ?thesis using solicited [OF Some] by (simp add: processLLData_def case_prod_beta Let_def F2_def F1_def)
  qed
qed

subsection \<open>Every message keeps the invariant\<close>

fun class_ok :: "packet \<Rightarrow> bool" where
  "class_ok (Interest i) \<longleftrightarrow> pk_type i = INTEREST"
| "class_ok (Data d) \<longleftrightarrow> pk_type d = DATA \<and> 0 \<le> pk_prefixLength d \<and> pk_prefixLength d \<le> int (length (pk_name d))"
| "class_ok (NdnPacket b) \<longleftrightarrow> pk_type b \<noteq> INTEREST \<and> pk_type b \<noteq> DATA"

text \<open>
  The packets the environment may deliver: from an existing gate, with the type that belongs to
  the class, with control info exactly if they come from the link layer, and Data with a prefix
  length within the name.
\<close>

definition packet_ok :: "nat \<Rightarrow> nat \<Rightarrow> packet \<Rightarrow> bool" where
  "packet_ok nl nu p \<longleftrightarrow> class_ok p \<and> gate_ok nl nu (getArrivalGate p) \<and>
     (if isName (getArrivalGate p) ''lowerLayerIn''
      then (case getControlInfo p of None \<Rightarrow> False | Some c \<Rightarrow> mac_wf (ctrl_src c))
      else getControlInfo p = None)"

fun message_ok :: "nat \<Rightarrow> nat \<Rightarrow> fw_message \<Rightarrow> bool" where
  "message_ok nl nu (NdnMsg p) \<longleftrightarrow> packet_ok nl nu p"
| "message_ok nl nu (OtherPacket name kind g) \<longleftrightarrow> kind = REGISTER_PREFIX_CODE \<and> gate_ok nl nu g"
| "message_ok nl nu PlainMessage \<longleftrightarrow> True"
| "message_ok nl nu SelfTimer \<longleftrightarrow> False"

lemma INTEREST_DATA [simp]: "INTEREST \<noteq> DATA" "DATA \<noteq> INTEREST"
  by (simp_all add: INTEREST_def DATA_def)

lemma lower_not_upper: "isName g ''lowerLayerIn'' \<Longrightarrow> \<not> isName g ''upperLayerIn''"
  by (simp add: isName_def)

lemma inv_idle: "fw_idle nl nu F \<Longrightarrow> fw_inv nl nu F"
  by (simp add: fw_inv_def)

lemma dispatchPacket_inv:
  assumes F: "fw_idle nl nu F" and p: "packet_ok nl nu p" and u: "0 \<le> u" and now: "0 \<le> now"
  shows "returns (fw_inv nl nu) (dispatchPacket now u p F)"
proof (cases p)
  case (Interest i)
  have "returns (fw_inv nl nu) (processLLInterest now u (i\<lparr>pk_controlInfo := None\<rparr>) (ctrl_src c) F)"
    if "isName (pk_arrivalGate i) ''lowerLayerIn''" "pk_controlInfo i = Some c" for c
    by (rule processLLInterest_inv [OF F]) (use p u that in \<open>auto simp: packet_ok_def Interest\<close>)
  moreover have "returns (fw_inv nl nu) (processHLInterest now i F)"
    if "isName (pk_arrivalGate i) ''upperLayerIn''"
    by (rule returns_mono [OF processHLInterest_idle [OF F] inv_idle])
      (use p that lower_not_upper in \<open>auto simp: packet_ok_def Interest split: if_splits\<close>)
  ultimately show ?thesis using p F
    by (auto simp: dispatchPacket_def Interest packet_ok_def inv_idle split: option.splits if_splits)
next
  case (Data d)
  have "returns (fw_inv nl nu) (processLLData now u (d\<lparr>pk_controlInfo := None\<rparr>) (ctrl_src c) F)" for c
    by (rule processLLData_inv [OF F]) (use p u now in \<open>auto simp: packet_ok_def Data\<close>)
  moreover have "returns (fw_inv nl nu) (processHLData now d F)"
    if "isName (pk_arrivalGate d) ''upperLayerIn''"
    by (rule returns_mono [OF processHLData_idle [OF F _ _ now] inv_idle])
      (use p that lower_not_upper in \<open>auto simp: packet_ok_def Data split: if_splits\<close>)
  ultimately show ?thesis using p F
    by (auto simp: dispatchPacket_def Data packet_ok_def inv_idle split: option.splits if_splits)
next
  case (NdnPacket b)
  then show ?thesis using p F
    by (auto simp: dispatchPacket_def packet_ok_def inv_idle split: option.splits if_splits)
qed

lemma mac_stringD: "mac_string s \<Longrightarrow> \<exists>a. MACAddress_of_string s = Inr a \<and> mac_wf a"
  by (simp add: mac_string_def returns_def)

lemma sendDelayed_idle:
  assumes "fw_busy nl nu F"
  shows "returns (fw_idle nl nu) (sendDelayed now (F\<lparr>fw_timer := None\<rparr>))"
proof -
  let ?F = "F\<lparr>fw_timer := None\<rparr>"
  have base: "fw_base nl nu ?F" and d: "delayed_ok nl nu F"
    and face: "0 \<le> sd_face F" "sd_face F < int nl" using assms by (simp_all add: fw_busy_def delayed_ok_def)
  obtain dest where dest: "MACAddress_of_string (sd_macDest F) = Inr dest"
    using d mac_stringD by (auto simp: delayed_ok_def)
  have idle: "fw_idle nl nu (F'\<lparr>sd_packet := None, fw_waiting := False\<rparr>)" if "fw_rest nl nu ?F F'" for F'
    using that by (simp add: fw_idle_def fw_rest_def)
  consider (interest) i src where "sd_packet F = Some (Interest i)" "sd_type F = INTEREST"
      "gate_ok nl nu (pk_arrivalGate i)" "MACAddress_of_string (sd_macSrc F) = Inr src" "mac_wf src"
      "pk_name i \<notin> set (pit_pending (fw_pit F))"
    | (data) x where "sd_packet F = Some (Data x)" "sd_type F = DATA"
    using d by (cases "(nl, nu, sd_type F, sd_macSrc F, pit_pending (fw_pit F), sd_packet F)"
        rule: delayed_packet_ok.cases) (auto simp: delayed_ok_def dest!: mac_stringD)
  then show ?thesis
  proof cases
    case interest
    have "returns (fw_rest nl nu ?F) (forwardInterestToRemote now (dup_interest i) (sd_face F) src dest ?F)"
      by (rule forwardInterestToRemote_rest [OF base]) (use interest face in simp_all)
    then have "returns (\<lambda>F'. fw_idle nl nu (F'\<lparr>fw_numIntFwd := fw_numIntFwd F' + 1, sd_packet := None, fw_waiting := False\<rparr>))
        (forwardInterestToRemote now (dup_interest i) (sd_face F) src dest ?F)"
      by (rule returns_mono) (drule idle, simp add: fw_idle_def)
    then show ?thesis using interest dest by (auto simp: sendDelayed_def returns_def)
  next
    case data
    have "returns (fw_rest nl nu ?F) (forwardDataToRemote (dup_data x) (sd_face F) dest ?F)"
      by (rule forwardDataToRemote_rest [OF base]) (use face in \<open>simp_all add: dup_data_def\<close>)
    then have "returns (\<lambda>F'. fw_idle nl nu (F'\<lparr>fw_numDataFwd := fw_numDataFwd F' + 1, sd_packet := None, fw_waiting := False\<rparr>))
        (forwardDataToRemote (dup_data x) (sd_face F) dest ?F)"
      by (rule returns_mono) (drule idle, simp add: fw_idle_def)
    then show ?thesis using data dest by (auto simp: sendDelayed_def returns_def)
  qed
qed

lemma whileWaiting_inv: "fw_busy nl nu F \<Longrightarrow> returns (fw_inv nl nu) (whileWaiting p F)"
  by (cases "sd_packet F") (auto simp: whileWaiting_def fw_inv_def fw_busy_def delayed_ok_def fw_idle_def Let_def)

lemma registerPrefix_inv:
  assumes "fw_inv nl nu F" "gate_ok nl nu g"
  shows "fw_inv nl nu (fw_registerPrefix now name g F)"
proof -
  have "fw_base nl nu F \<Longrightarrow> fw_base nl nu (fw_registerPrefix now name g F)"
    using fib_ok_registerPrefix [OF _ assms(2)] by (simp add: fw_base_def fw_registerPrefix_def)
  with assms(1) show ?thesis
    by (auto simp: fw_inv_def fw_idle_def fw_busy_def delayed_ok_def) (simp_all add: fw_registerPrefix_def)
qed

lemma handleMessage_inv:
  assumes "fw_inv nl nu F" "message_ok nl nu m" "0 \<le> u" "0 \<le> now"
  shows "returns (fw_inv nl nu) (fw_handleMessage now u m F)"
proof (cases m)
  case (NdnMsg p)
  consider "fw_idle nl nu F" "\<not> fw_waiting F" | "fw_busy nl nu F" "fw_waiting F"
    using assms(1) by (auto simp: fw_inv_def fw_idle_def fw_busy_def)
  then show ?thesis using assms
    by cases (simp_all add: NdnMsg registerPrefix_inv packet_ok_def dispatchPacket_inv [unfolded packet_ok_def] whileWaiting_inv)
qed (use assms in \<open>simp_all add: registerPrefix_inv\<close>)

lemma inv_base: "fw_inv nl nu F \<Longrightarrow> fw_base nl nu F"
  by (auto simp: fw_inv_def fw_idle_def fw_busy_def)

lemma pitTimer_inv:
  assumes "fw_inv nl nu F"
  shows "returns (fw_inv nl nu) (fw_pitTimer now F)"
proof -
  obtain ns P where P: "pit_handleMessage now True (fw_pit F) = (ns, P)" by fastforce
  have "pit_ok nl nu (fw_pit F)" using inv_base [OF assms] by (simp add: fw_base_def)
  note ok = pit_ok_handleMessage [OF this P]
  have "fw_inv nl nu (F\<lparr>fw_pit := P\<rparr>)"
    using assms ok delayed_packet_ok_mono [of nl nu "sd_type F" "sd_macSrc F" "pit_pending (fw_pit F)" "sd_packet F" "pit_pending P"]
    by (auto simp: fw_inv_def fw_idle_def fw_busy_def fw_base_def delayed_ok_def)
  moreover have "returns (fw_inv nl nu) (receiveTimeout n F')" if "n \<in> set ns" "fw_inv nl nu F'" for n F'
  proof -
    have "gate_ok nl nu (pn_face n)" using ok that(1) by (simp add: list_all_iff)
    moreover have "fw_upperGates F' = nu" using inv_base [OF that(2)] by (simp add: fw_base_def)
    ultimately show ?thesis using that(2) gate_okD(2)
      by (auto simp: receiveTimeout_def send_upper_def fw_inv_def)
  qed
  ultimately show ?thesis unfolding fw_pitTimer_def P by (simp add: returns_run)
qed

section \<open>Runs of the forwarder\<close>

text \<open>
  What happens to a node's network layer: a message arrives (with the time and the random number
  it may use), or one of the four timers fires; a timer that is not scheduled does not fire.
\<close>

datatype fw_event = Arrive nat rat fw_message | DelayTimer | PitTimer | FibTimer | CsTimer

fun fw_exec :: "fw_event \<Rightarrow> fw \<Rightarrow> sim_error + fw" where
  "fw_exec (Arrive now u m) F = fw_handleMessage (int now) u m F"
| "fw_exec DelayTimer F =
     (case fw_timer F of None \<Rightarrow> Inr F | Some t \<Rightarrow> fw_handleMessage t 0 SelfTimer F)"
| "fw_exec PitTimer F =
     (case pit_checkTimeout (fw_pit F) of None \<Rightarrow> Inr F | Some t \<Rightarrow> fw_pitTimer t F)"
| "fw_exec FibTimer F =
     (case fib_checkExpired (fw_fib F) of None \<Rightarrow> Inr F
      | Some t \<Rightarrow> Inr (F\<lparr>fw_fib := snd (fib_handleMessage t True (fw_fib F))\<rparr>))"
| "fw_exec CsTimer F =
     (case cs_checkDataStale (fw_cs F) of None \<Rightarrow> Inr F
      | Some t \<Rightarrow> Inr (F\<lparr>fw_cs := cs_handleMessage t True (fw_cs F)\<rparr>))"

fun fw_admissible :: "nat \<Rightarrow> nat \<Rightarrow> fw_event \<Rightarrow> bool" where
  "fw_admissible nl nu (Arrive now u m) \<longleftrightarrow> message_ok nl nu m \<and> 0 \<le> u"
| "fw_admissible nl nu _ \<longleftrightarrow> True"

lemma fibTimer_inv: "fw_inv nl nu F \<Longrightarrow> fw_inv nl nu (F\<lparr>fw_fib := snd (fib_handleMessage t s (fw_fib F))\<rparr>)"
  using fib_ok_handleMessage [of nl nu "fw_fib F" t s]
  by (auto simp: fw_inv_def fw_idle_def fw_busy_def fw_base_def delayed_ok_def)

lemma csTimer_inv: "fw_inv nl nu F \<Longrightarrow> fw_inv nl nu (F\<lparr>fw_cs := cs_handleMessage t s (fw_cs F)\<rparr>)"
  using cs_ok_handleMessage [of "fw_cs F" t s]
  by (auto simp: fw_inv_def fw_idle_def fw_busy_def fw_base_def delayed_ok_def)

lemma fw_exec_inv:
  assumes "fw_inv nl nu F" "fw_admissible nl nu ev"
  shows "returns (fw_inv nl nu) (fw_exec ev F)"
proof (cases ev)
  case (Arrive now u m)
  then show ?thesis using assms handleMessage_inv by simp
next
  case DelayTimer
  show ?thesis
  proof (cases "fw_timer F")
    case (Some t)
    then have "fw_busy nl nu F" using assms(1) by (auto simp: fw_inv_def fw_idle_def)
    then show ?thesis using returns_mono [OF sendDelayed_idle inv_idle] by (simp add: DelayTimer Some)
  qed (simp add: DelayTimer assms)
qed (use assms in \<open>auto simp: pitTimer_inv fibTimer_inv csTimer_inv split: option.split\<close>)

text \<open>Admissible events are an argument of the run, so the invariant is stated for those.\<close>

definition fw_exec_ok :: "nat \<Rightarrow> nat \<Rightarrow> fw_event \<Rightarrow> fw \<Rightarrow> sim_error + fw" where
  "fw_exec_ok nl nu ev F =
     (if fw_admissible nl nu ev then fw_exec ev F else Inr F)"

interpretation fw_runs: safe_component "fw_exec_ok nl nu" "fw_inv nl nu" "fw_admissible nl nu"
proof unfold_locales
  fix F F' ev
  show "fw_inv nl nu F \<Longrightarrow> fw_exec_ok nl nu ev F = Inr F' \<Longrightarrow> fw_inv nl nu F'"
    using fw_exec_inv [of nl nu F ev] by (auto simp: fw_exec_ok_def returns_def split: if_splits)
  show "fw_inv nl nu F \<Longrightarrow> fw_admissible nl nu ev \<Longrightarrow> \<exists>F'. fw_exec_ok nl nu ev F = Inr F'"
    using fw_exec_inv [of nl nu F ev] by (auto simp: fw_exec_ok_def returns_def)
qed

lemma run_exec_ok:
  "list_all (fw_admissible nl nu) evs \<Longrightarrow> run_result (fw_exec_ok nl nu) evs F = run_result fw_exec evs F"
proof (induction evs arbitrary: F)
  case (Cons ev evs)
  then show ?case by (cases "fw_exec ev F") (simp_all add: fw_exec_ok_def)
qed simp

lemma fw_run_inv:
  assumes "fw_inv nl nu F" "list_all (fw_admissible nl nu) evs"
  shows "\<exists>F'. run_result fw_exec evs F = Inr F' \<and> fw_inv nl nu F'"
  using fw_runs.run_safe [OF assms] run_exec_ok [OF assms(2)] by simp

lemma initialize_inv:
  assumes "list_all mac_wf macs" "0 < nl"
  shows "returns (fw_inv nl nu) (fw_initialize mapping fwd unsol nl nu macs (pit_initialize n l) (fib_initialize n' l') (cs_initialize n''))"
proof -
  have one: "\<exists>a. MACAddress_of_string ''00-00-00-00-00-01'' = Inr a"
    by (simp add: MACAddress_of_string_def setAddress_def tryParse_eq isxdigit_def isdigit_def islower_def separator_def)
  have "returns mac_wf (selectMacAddress macs mine)" if "mac_wf mine" for mine
    using assms(1) that one by (induction macs arbitrary: mine) auto
  from this [OF mac_wf_zero] show ?thesis unfolding fw_initialize_def
    by (rule returns_bind)
       (use assms(2) in \<open>simp add: fw_inv_def fw_idle_def fw_base_def pit_ok_def fib_ok_def cs_ok_def
          pit_inv_initialize fib_inv_initialize cs_inv_initialize\<close>,
        simp add: pit_initialize_def pit_pending_def fib_initialize_def cs_initialize_def cs_items_def)
qed

end
