(* ===== verification/NdnHops.thy ===== *)
theory NdnHops
  imports NdnForwarding
begin

text \<open>
  One hop of a packet through an idle forwarder, for each way a packet can take: what is sent, what the
  tables hold afterwards, and that the node is idle again.  These lemmas are the interface between the
  forwarder and the network of several nodes.
\<close>

section \<open>What the handlers do\<close>

text \<open>The address an outgoing packet carries, by the mapping code.\<close>

definition interest_dest :: "fw \<Rightarrow> MACAddress \<Rightarrow> MACAddress" where
  "interest_dest F mac = (if fw_ndnMacMapping F \<in> {IB_DB, IB_DU} then BROADCAST_ADDRESS else mac)"

definition data_dest :: "fw \<Rightarrow> MACAddress \<Rightarrow> MACAddress" where
  "data_dest F mac = (if fw_ndnMacMapping F \<in> {IB_DB, IU_DB} then BROADCAST_ADDRESS else mac)"

definition with_ctrl_i :: "fw \<Rightarrow> MACAddress \<Rightarrow> interest \<Rightarrow> packet" where
  "with_ctrl_i F dest i =
     Interest (i\<lparr>pk_controlInfo := Some \<lparr>ctrl_src = fw_myMacAddress F, ctrl_dest = interest_dest F dest\<rparr>\<rparr>)"

definition with_ctrl_d :: "fw \<Rightarrow> MACAddress \<Rightarrow> data_packet \<Rightarrow> packet" where
  "with_ctrl_d F dest d =
     Data (d\<lparr>pk_controlInfo := Some \<lparr>ctrl_src = fw_myMacAddress F, ctrl_dest = data_dest F dest\<rparr>\<rparr>)"

lemma forwardDataToRemote_eq:
  assumes "pk_type d = DATA" "pk_controlInfo d = None" "0 \<le> face" "face < int (fw_lowerGates F)"
  shows "forwardDataToRemote d face mac F = Inr (F\<lparr>fw_sent := fw_sent F @ [SendLower (with_ctrl_d F mac d) face]\<rparr>)"
  using assms INTEREST_DATA(2)
  by (simp add: forwardDataToRemote_def ndnToMacMapping_def broadcast_string send_lower_def with_ctrl_d_def data_dest_def
      del: INTEREST_DATA)

lemma forwardInterestToRemote_eq:
  assumes "pk_type i = INTEREST" "pk_controlInfo i = None" "0 \<le> face" "face < int (fw_lowerGates F)"
  shows "forwardInterestToRemote now i face src mac F =
    (if length (pit_entries (fw_pit F)) = pit_maxSize (fw_pit F) then Inr F
     else Inr (F\<lparr>fw_pit := snd (pit_create now i src (fw_pit F)),
                 fw_sent := fw_sent F @ [SendLower (with_ctrl_i F mac i) face]\<rparr>))"
  using assms
  by (simp add: forwardInterestToRemote_def ndnToMacMapping_def broadcast_string send_lower_def with_ctrl_i_def
      interest_dest_def Let_def pit_create_def)

lemma handle_idle_interest:
  assumes "fw_idle nl nu F" "packet_ok nl nu (Interest i)" "isName (pk_arrivalGate i) ''lowerLayerIn''"
    and "pk_kind i \<noteq> REGISTER_PREFIX_CODE" "pk_controlInfo i = Some c"
  shows "fw_handleMessage now u (NdnMsg (Interest i)) F
    = processLLInterest now u (i\<lparr>pk_controlInfo := None\<rparr>) (ctrl_src c) F"
  using assms by (simp add: fw_idle_def dispatchPacket_def packet_ok_def)

lemma handle_idle_data:
  assumes "fw_idle nl nu F" "packet_ok nl nu (Data d)" "isName (pk_arrivalGate d) ''lowerLayerIn''"
    and "pk_kind d \<noteq> REGISTER_PREFIX_CODE" "pk_controlInfo d = Some c"
  shows "fw_handleMessage now u (NdnMsg (Data d)) F
    = processLLData now u (d\<lparr>pk_controlInfo := None\<rparr>) (ctrl_src c) F"
  using assms INTEREST_DATA(2) by (simp add: fw_idle_def dispatchPacket_def packet_ok_def del: INTEREST_DATA)

lemma looked_up_fields [simp]:
  "fw_sent (looked_up i F) = fw_sent F"
  "fw_lowerGates (looked_up i F) = fw_lowerGates F"
  "fw_ndnMacMapping (looked_up i F) = fw_ndnMacMapping F"
  "fw_myMacAddress (looked_up i F) = fw_myMacAddress F"
  "fw_numIntFwd (looked_up i F) = fw_numIntFwd F"
  "pit_entries (fw_pit (looked_up i F)) = pit_entries (fw_pit F)"
  "pit_maxSize (fw_pit (looked_up i F)) = pit_maxSize (fw_pit F)"
  by (auto simp: looked_up_def pit_lookup_def Let_def split: option.splits)

lemma idle_gate:
  "fw_idle nl nu F \<Longrightarrow> packet_ok nl nu p \<Longrightarrow> isName (getArrivalGate p) ''lowerLayerIn'' \<Longrightarrow>
   0 \<le> gate_index (getArrivalGate p) \<and> gate_index (getArrivalGate p) < int (fw_lowerGates F)"
  by (auto simp: fw_idle_def fw_base_def packet_ok_def gate_ok_def)

lemma sendDelayed_interest_eq:
  assumes "sd_packet F = Some (Interest i)" "sd_type F = INTEREST"
    and "MACAddress_of_string (sd_macSrc F) = Inr src" "MACAddress_of_string (sd_macDest F) = Inr dest"
    and "pk_type i = INTEREST" "0 \<le> sd_face F" "sd_face F < int (fw_lowerGates F)"
    and "length (pit_entries (fw_pit F)) < pit_maxSize (fw_pit F)"
  shows "sendDelayed now F = Inr (F\<lparr>fw_pit := snd (pit_create now (dup_interest i) src (fw_pit F)),
      fw_sent := fw_sent F @ [SendLower (with_ctrl_i F dest (dup_interest i)) (sd_face F)],
      fw_numIntFwd := fw_numIntFwd F + 1, sd_packet := None, fw_waiting := False\<rparr>)"
  using assms by (simp add: sendDelayed_def forwardInterestToRemote_eq)

lemma sendDelayed_data_eq:
  assumes "sd_packet F = Some (Data d)" "sd_type F = DATA" "MACAddress_of_string (sd_macDest F) = Inr dest"
    and "pk_type d = DATA" "0 \<le> sd_face F" "sd_face F < int (fw_lowerGates F)"
  shows "sendDelayed now F = Inr (F\<lparr>fw_sent := fw_sent F @ [SendLower (with_ctrl_d F dest (dup_data d)) (sd_face F)],
      fw_numDataFwd := fw_numDataFwd F + 1, sd_packet := None, fw_waiting := False\<rparr>)"
  using assms INTEREST_DATA by (simp add: sendDelayed_def forwardDataToRemote_eq dup_data_def del: INTEREST_DATA)

section \<open>What a node keeps\<close>

definition same_node :: "fw \<Rightarrow> fw \<Rightarrow> bool" where
  "same_node F F' \<longleftrightarrow> fw_myMacAddress F' = fw_myMacAddress F \<and> fw_ndnMacMapping F' = fw_ndnMacMapping F
     \<and> fw_forwarding F' = fw_forwarding F \<and> fw_lowerGates F' = fw_lowerGates F \<and> fw_upperGates F' = fw_upperGates F"

lemma same_node_refl [simp]: "same_node F F"
  by (simp add: same_node_def)

lemma same_node_trans: "same_node F F' \<Longrightarrow> same_node F' F'' \<Longrightarrow> same_node F F''"
  by (simp add: same_node_def)

lemma inv_not_waiting: "fw_inv nl nu F \<Longrightarrow> \<not> fw_waiting F \<Longrightarrow> fw_idle nl nu F"
  by (auto simp: fw_inv_def fw_busy_def)

lemma handled_idle:
  assumes "fw_idle nl nu F" "packet_ok nl nu p" "pk_kind (packet_base p) \<noteq> REGISTER_PREFIX_CODE" "0 \<le> u" "0 \<le> now"
    and "fw_handleMessage now u (NdnMsg p) F = Inr F'" "\<not> fw_waiting F'"
  shows "fw_idle nl nu F'"
  using handleMessage_inv [of nl nu F "NdnMsg p" u now] assms inv_not_waiting
  by (auto simp: fw_inv_def [of nl nu F] returns_def simp del: fw_handleMessage.simps)

lemma looked_up_more [simp]:
  "fw_forwarding (looked_up i F) = fw_forwarding F" "fw_upperGates (looked_up i F) = fw_upperGates F"
  "fw_waiting (looked_up i F) = fw_waiting F" "fw_timer (looked_up i F) = fw_timer F"
  by (simp_all add: looked_up_def)

lemma same_node_looked_up [simp]: "same_node F (looked_up i F)"
  by (simp add: same_node_def)

lemma pit_create_found:
  assumes "length (pit_entries P) < pit_maxSize P" "pk_name i \<notin> set (pit_pending P)" "pk_controlInfo i = None"
  shows "fst (pit_lookup (pk_name i) (snd (pit_create now i src P))) = Some (new_PitEntry now i (pk_arrivalGate i) src)"
proof -
  have none: "find (pe_live (pk_name i)) (pit_entries P) = None" using assms(2) by (simp add: find_None_live)
  have "find (pe_live (pk_name i)) (pit_entries P @ [new_PitEntry now i (pk_arrivalGate i) src])
      = Some (new_PitEntry now i (pk_arrivalGate i) src)"
    by (simp add: find_append none) (simp add: pe_live_def new_PitEntry_def)
  moreover have "dup_interest i = i" using assms(3) by (simp add: dup_interest_def)
  ultimately show ?thesis using assms(1) by (simp add: pit_create_def pit_lookup_def Let_def)
qed

lemma pit_create_entries:
  assumes "length (pit_entries P) < pit_maxSize P" "pk_controlInfo i = None"
  shows "pit_entries (snd (pit_create now i src P)) = pit_entries P @ [new_PitEntry now i (pk_arrivalGate i) src]"
proof -
  have "dup_interest i = i" using assms(2) by (simp add: dup_interest_def)
  then show ?thesis using assms(1) by (simp add: pit_create_def)
qed

section \<open>Interests\<close>

definition open_to :: "interest \<Rightarrow> fw \<Rightarrow> bool" where
  "open_to i F \<longleftrightarrow> fst (cs_lookup (i\<lparr>pk_controlInfo := None\<rparr>) (fw_cs F)) = None
     \<and> pk_name i \<notin> set (pit_pending (fw_pit F)) \<and> length (pit_entries (fw_pit F)) < pit_maxSize (fw_pit F)"

lemma ll_interest_remote:
  assumes "fw_idle nl nu F" "packet_ok nl nu (Interest i)" "isName (pk_arrivalGate i) ''lowerLayerIn''"
    and "pk_kind i \<noteq> REGISTER_PREFIX_CODE" "pk_controlInfo i = Some c" "open_to i F"
    and e: "fst (fib_lookup (pk_name i) (fw_fib F)) = Some e" "isName (fe_face e) ''lowerLayerIn''" "fw_forwarding F"
  defines "i' \<equiv> i\<lparr>pk_controlInfo := None, pk_hopCount := pk_hopCount i + 1\<rparr>"
  shows "\<exists>F'. fw_handleMessage now u (NdnMsg (Interest i)) F = Inr F' \<and> same_node F F' \<and> \<not> fw_waiting F'
    \<and> fw_sent F' = fw_sent F @ [SendLower (with_ctrl_i F (fe_macDest e) i') (gate_index (fe_face e))]
    \<and> pit_entries (fw_pit F') = pit_entries (fw_pit F) @ [new_PitEntry now i' (pk_arrivalGate i) (ctrl_src c)]
    \<and> fst (pit_lookup (pk_name i) (fw_pit F')) = Some (new_PitEntry now i' (pk_arrivalGate i) (ctrl_src c))"
proof -
  have gate: "0 \<le> gate_index (fe_face e)" "gate_index (fe_face e) < int (fw_lowerGates F)"
    using gate_okD(1) [OF fib_found_gate [OF assms(1) e(1)] e(2)] assms(1) by (simp_all add: fw_idle_def fw_base_def)
  have i': "pk_type i' = INTEREST" "pk_controlInfo i' = None" "pk_name i' = pk_name i" "pk_arrivalGate i' = pk_arrivalGate i"
    using assms(2) by (simp_all add: packet_ok_def i'_def)
  define F1 where "F1 = looked_up (i\<lparr>pk_controlInfo := None\<rparr>) (F\<lparr>fw_numIntReceived := fw_numIntReceived F + 1\<rparr>)"
  have F1: "same_node F F1" "fw_sent F1 = fw_sent F" "fw_waiting F1 = fw_waiting F" "with_ctrl_i F1 = with_ctrl_i F"
    "pit_entries (fw_pit F1) = pit_entries (fw_pit F)" "pit_maxSize (fw_pit F1) = pit_maxSize (fw_pit F)"
    "pit_pending (fw_pit F1) = pit_pending (fw_pit F)"
    by (simp_all add: F1_def same_node_def with_ctrl_i_def [abs_def] interest_dest_def pending_looked_up)
  have "fst (pit_lookup (pk_name i) (fw_pit F)) = None" using assms(6) by (simp add: open_to_def pit.lookup_iff)
  then have "fw_handleMessage now u (NdnMsg (Interest i)) F =
      bind_result (forwardInterestToRemote now i' (gate_index (fe_face e)) (ctrl_src c) (fe_macDest e) F1)
        (\<lambda>F5. Inr (F5\<lparr>fw_numIntFwd := fw_numIntFwd F5 + 1\<rparr>))"
    unfolding handle_idle_interest [OF assms(1-5)] processLLInterest_eq
    using assms(6) e by (simp add: F1_def i'_def open_to_def)
  also have "\<dots> = Inr (F1\<lparr>fw_pit := snd (pit_create now i' (ctrl_src c) (fw_pit F1)),
      fw_sent := fw_sent F @ [SendLower (with_ctrl_i F (fe_macDest e) i') (gate_index (fe_face e))],
      fw_numIntFwd := fw_numIntFwd F1 + 1\<rparr>)"
    using gate i' F1 assms(6) by (simp add: forwardInterestToRemote_eq open_to_def same_node_def)
  finally show ?thesis
    using F1 pit_create_found [of "fw_pit F1" i' now "ctrl_src c"] pit_create_entries [of "fw_pit F1" i' now "ctrl_src c"] i' assms(1,6)
    by (simp add: open_to_def same_node_def fw_idle_def)
qed

lemma ll_interest_local:
  assumes "fw_idle nl nu F" "packet_ok nl nu (Interest i)" "isName (pk_arrivalGate i) ''lowerLayerIn''"
    and "pk_kind i \<noteq> REGISTER_PREFIX_CODE" "pk_controlInfo i = Some c" "open_to i F"
    and e: "fst (fib_lookup (pk_name i) (fw_fib F)) = Some e" "isName (fe_face e) ''upperLayerIn''"
  defines "i' \<equiv> i\<lparr>pk_controlInfo := None, pk_hopCount := pk_hopCount i + 1\<rparr>"
  shows "\<exists>F'. fw_handleMessage now u (NdnMsg (Interest i)) F = Inr F' \<and> same_node F F' \<and> \<not> fw_waiting F'
    \<and> fw_sent F' = fw_sent F @ [SendUpper (Interest i') (gate_index (fe_face e))]
    \<and> pit_entries (fw_pit F') = pit_entries (fw_pit F) @ [new_PitEntry now i' (pk_arrivalGate i) (ctrl_src c)]
    \<and> fst (pit_lookup (pk_name i) (fw_pit F')) = Some (new_PitEntry now i' (pk_arrivalGate i) (ctrl_src c))"
proof -
  have gate: "0 \<le> gate_index (fe_face e)" "gate_index (fe_face e) < int (fw_upperGates F)"
    using gate_okD(2) [OF fib_found_gate [OF assms(1) e(1)] e(2)] assms(1) by (simp_all add: fw_idle_def fw_base_def)
  have i': "pk_controlInfo i' = None" "pk_name i' = pk_name i" "pk_arrivalGate i' = pk_arrivalGate i"
    by (simp_all add: i'_def)
  define F1 where "F1 = looked_up (i\<lparr>pk_controlInfo := None\<rparr>) (F\<lparr>fw_numIntReceived := fw_numIntReceived F + 1\<rparr>)"
  have F1: "same_node F F1" "fw_sent F1 = fw_sent F" "fw_waiting F1 = fw_waiting F"
    "pit_entries (fw_pit F1) = pit_entries (fw_pit F)" "pit_maxSize (fw_pit F1) = pit_maxSize (fw_pit F)"
    "pit_pending (fw_pit F1) = pit_pending (fw_pit F)"
    by (simp_all add: F1_def same_node_def pending_looked_up)
  have "fst (pit_lookup (pk_name i) (fw_pit F)) = None" using assms(6) by (simp add: open_to_def pit.lookup_iff)
  then have "fw_handleMessage now u (NdnMsg (Interest i)) F = forwardInterestToLocal now i' (gate_index (fe_face e)) (ctrl_src c) F1"
    unfolding handle_idle_interest [OF assms(1-5)] processLLInterest_eq
    using assms(6) e lower_not_upper [of "fe_face e"] by (auto simp: F1_def i'_def open_to_def)
  also have "\<dots> = Inr (F1\<lparr>fw_pit := snd (pit_create now i' (ctrl_src c) (fw_pit F1)),
      fw_sent := fw_sent F @ [SendUpper (Interest i') (gate_index (fe_face e))]\<rparr>)"
    using gate F1 assms(6)
    by (simp add: forwardInterestToLocal_def send_upper_def open_to_def same_node_def pit_create_def)
  finally show ?thesis
    using F1 pit_create_found [of "fw_pit F1" i' now "ctrl_src c"] pit_create_entries [of "fw_pit F1" i' now "ctrl_src c"] i' assms(1,6)
    by (simp add: open_to_def same_node_def fw_idle_def)
qed

lemma hl_interest_remote:
  assumes "fw_idle nl nu F" "packet_ok nl nu (Interest i)" "isName (pk_arrivalGate i) ''upperLayerIn''"
    and "pk_kind i \<noteq> REGISTER_PREFIX_CODE" "pk_controlInfo i = None" "open_to i F"
    and e: "fst (fib_lookup (pk_name i) (fw_fib F)) = Some e" "isName (fe_face e) ''lowerLayerIn''"
  shows "\<exists>F'. fw_handleMessage now u (NdnMsg (Interest i)) F = Inr F' \<and> same_node F F' \<and> \<not> fw_waiting F'
    \<and> fw_sent F' = fw_sent F @ [SendLower (with_ctrl_i F (fe_macDest e) i) (gate_index (fe_face e))]
    \<and> fst (pit_lookup (pk_name i) (fw_pit F')) = Some (new_PitEntry now i (pk_arrivalGate i) (fw_myMacAddress F))"
proof -
  have gate: "0 \<le> gate_index (fe_face e)" "gate_index (fe_face e) < int (fw_lowerGates F)"
    using gate_okD(1) [OF fib_found_gate [OF assms(1) e(1)] e(2)] assms(1) by (simp_all add: fw_idle_def fw_base_def)
  have type: "pk_type i = INTEREST" using assms(2) by (simp add: packet_ok_def)
  have i: "i\<lparr>pk_controlInfo := None\<rparr> = i" using assms(5) by simp
  define F1 where "F1 = looked_up i F"
  have F1: "same_node F F1" "fw_sent F1 = fw_sent F" "fw_waiting F1 = fw_waiting F" "with_ctrl_i F1 = with_ctrl_i F"
    "pit_entries (fw_pit F1) = pit_entries (fw_pit F)" "pit_maxSize (fw_pit F1) = pit_maxSize (fw_pit F)"
    "pit_pending (fw_pit F1) = pit_pending (fw_pit F)"
    by (simp_all add: F1_def with_ctrl_i_def [abs_def] interest_dest_def pending_looked_up)
  have "fst (pit_lookup (pk_name i) (fw_pit F)) = None" using assms(6) by (simp add: open_to_def pit.lookup_iff)
  then have "fw_handleMessage now u (NdnMsg (Interest i)) F =
      forwardInterestToRemote now i (gate_index (fe_face e)) (fw_myMacAddress F) (fe_macDest e) F1"
    using assms(1,3,4,6) e type lower_not_upper [of "pk_arrivalGate i"]
    by (auto simp: dispatchPacket_def processHLInterest_eq fw_idle_def F1_def open_to_def i)
  also have "\<dots> = Inr (F1\<lparr>fw_pit := snd (pit_create now i (fw_myMacAddress F) (fw_pit F1)),
      fw_sent := fw_sent F @ [SendLower (with_ctrl_i F (fe_macDest e) i) (gate_index (fe_face e))]\<rparr>)"
    using gate type F1 assms(5,6) by (simp add: forwardInterestToRemote_eq open_to_def same_node_def)
  finally show ?thesis
    using F1 pit_create_found [of "fw_pit F1" i now "fw_myMacAddress F"] assms(1,5,6)
    by (simp add: open_to_def same_node_def fw_idle_def)
qed

section \<open>Data\<close>

lemma pit_gone:
  assumes "fw_idle nl nu F"
  shows "n \<notin> set (pit_pending (snd (pit_remove n (snd (pit_lookup n (fw_pit F))))))"
proof -
  have "distinct (pit_pending (snd (pit_lookup n (fw_pit F))))"
    using assms by (simp add: pit.pending_lookup fw_idle_def fw_base_def pit_ok_def)
  then show ?thesis by (simp add: pit.pending_remove)
qed

lemma hl_data_remote:
  assumes "fw_idle nl nu F" "packet_ok nl nu (Data d)" "isName (pk_arrivalGate d) ''upperLayerIn''"
    and "pk_kind d \<noteq> REGISTER_PREFIX_CODE" "pk_controlInfo d = None"
    and e: "fst (pit_lookup (pk_name d) (fw_pit F)) = Some e" "isName (pe_face e) ''lowerLayerIn''"
  shows "\<exists>F'. fw_handleMessage now u (NdnMsg (Data d)) F = Inr F' \<and> same_node F F' \<and> \<not> fw_waiting F'
    \<and> fw_sent F' = fw_sent F @ [SendLower (with_ctrl_d F (pe_macSrc e) d) (gate_index (pe_face e))]
    \<and> pk_name d \<notin> set (pit_pending (fw_pit F')) \<and> fw_cs F' = snd (cs_add now d (fw_cs F))"
proof -
  have gate: "0 \<le> gate_index (pe_face e)" "gate_index (pe_face e) < int (fw_lowerGates F)"
    using gate_okD(1) [OF conjunct1 [OF pit_found_gate [OF assms(1) e(1)]] e(2)] assms(1)
    by (simp_all add: fw_idle_def fw_base_def)
  have type: "pk_type d = DATA" using assms(2) by (simp add: packet_ok_def)
  define F1 where "F1 = F\<lparr>fw_pit := snd (pit_lookup (pk_name d) (fw_pit F))\<rparr>"
  have F1: "with_ctrl_d F1 = with_ctrl_d F" "fw_lowerGates F1 = fw_lowerGates F"
    by (simp_all add: F1_def with_ctrl_d_def [abs_def] data_dest_def)
  have "fw_handleMessage now u (NdnMsg (Data d)) F = processHLData now d F"
    using assms(1-5) type lower_not_upper [of "pk_arrivalGate d"] INTEREST_DATA(2)
    by (auto simp: dispatchPacket_def fw_idle_def simp del: INTEREST_DATA)
  also have "\<dots> = Inr (fw_cs_add now d (fw_pit_remove (pk_name d)
      (F1\<lparr>fw_sent := fw_sent F @ [SendLower (with_ctrl_d F (pe_macSrc e) d) (gate_index (pe_face e))]\<rparr>)))"
    using e gate type assms(5) F1
    by (simp add: processHLData_def case_prod_beta Let_def F1_def [symmetric] forwardDataToRemote_eq)
  finally show ?thesis
    using pit_gone [OF assms(1)] assms(1)
    by (simp add: fw_cs_add_def fw_pit_remove_def F1_def same_node_def fw_idle_def)
qed

lemma ll_data_local:
  assumes "fw_idle nl nu F" "packet_ok nl nu (Data d)" "isName (pk_arrivalGate d) ''lowerLayerIn''"
    and "pk_kind d \<noteq> REGISTER_PREFIX_CODE" "pk_controlInfo d = Some c"
    and e: "fst (pit_lookup (pk_name d) (fw_pit F)) = Some e" "isName (pe_face e) ''upperLayerIn''"
  defines "d' \<equiv> d\<lparr>pk_controlInfo := None, pk_hopCount := pk_hopCount d + 1\<rparr>"
  shows "\<exists>F'. fw_handleMessage now u (NdnMsg (Data d)) F = Inr F' \<and> same_node F F' \<and> \<not> fw_waiting F'
    \<and> fw_sent F' = fw_sent F @ [SendUpper (Data d') (gate_index (pe_face e))]
    \<and> pk_name d \<notin> set (pit_pending (fw_pit F')) \<and> fw_cs F' = snd (cs_add now d' (fw_cs F))"
proof -
  have gate: "0 \<le> gate_index (pe_face e)" "gate_index (pe_face e) < int (fw_upperGates F)"
    using gate_okD(2) [OF conjunct1 [OF pit_found_gate [OF assms(1) e(1)]] e(2)] assms(1)
    by (simp_all add: fw_idle_def fw_base_def)
  have len: "0 \<le> pk_prefixLength d" "pk_prefixLength d \<le> int (length (pk_name d))"
    using assms(2) by (simp_all add: packet_ok_def)
  obtain r B where fib: "fib_create now (pk_name d) (pk_prefixLength d) (pk_arrivalGate d) (ctrl_src c) (fw_fib F) = Inr (r, B)"
    using fib_create_returns [OF len] by fastforce
  have "\<not> fw_waiting F" using assms(1) by (simp add: fw_idle_def)
  then show ?thesis unfolding handle_idle_data [OF assms(1-5)]
    using e gate fib pit_gone [OF assms(1)] lower_not_upper [of "pe_face e"]
    by (auto simp: processLLData_def case_prod_beta Let_def satisfyPitEntry_def forwardDataToLocal_def
        send_upper_def fw_cs_add_def fw_pit_remove_def d'_def same_node_def)
qed

lemma ll_data_remote:
  assumes "fw_idle nl nu F" "packet_ok nl nu (Data d)" "isName (pk_arrivalGate d) ''lowerLayerIn''"
    and "pk_kind d \<noteq> REGISTER_PREFIX_CODE" "pk_controlInfo d = Some c"
    and e: "fst (pit_lookup (pk_name d) (fw_pit F)) = Some e" "isName (pe_face e) ''lowerLayerIn''" "fw_forwarding F"
    and u: "0 \<le> u"
  defines "d' \<equiv> d\<lparr>pk_controlInfo := None, pk_hopCount := pk_hopCount d + 1\<rparr>"
  shows "\<exists>F1 F2. fw_handleMessage now u (NdnMsg (Data d)) F = Inr F1 \<and> fw_waiting F1
    \<and> fw_timer F1 = Some (now + SimTime_ms (c_int_of_double (computeDataRandomDelay u)))
    \<and> fw_sent F1 = fw_sent F \<and> pk_name d \<notin> set (pit_pending (fw_pit F1)) \<and> fw_cs F1 = snd (cs_add now d' (fw_cs F))
    \<and> fw_exec DelayTimer F1 = Inr F2 \<and> same_node F F2 \<and> \<not> fw_waiting F2 \<and> fw_timer F2 = None
    \<and> fw_sent F2 = fw_sent F @ [SendLower (with_ctrl_d F (pe_macSrc e) d') (gate_index (pe_face e))]
    \<and> fw_pit F2 = fw_pit F1 \<and> fw_cs F2 = fw_cs F1"
proof -
  have gate: "0 \<le> gate_index (pe_face e)" "gate_index (pe_face e) < int (fw_lowerGates F)"
    using gate_okD(1) [OF conjunct1 [OF pit_found_gate [OF assms(1) e(1)]] e(2)] assms(1)
    by (simp_all add: fw_idle_def fw_base_def)
  have len: "0 \<le> pk_prefixLength d" "pk_prefixLength d \<le> int (length (pk_name d))" and type: "pk_type d = DATA"
    using assms(2) by (simp_all add: packet_ok_def)
  obtain r B where fib: "fib_create now (pk_name d) (pk_prefixLength d) (pk_arrivalGate d) (ctrl_src c) (fw_fib F) = Inr (r, B)"
    using fib_create_returns [OF len] by fastforce
  define t where "t = now + SimTime_ms (c_int_of_double (computeDataRandomDelay u))"
  have t: "now \<le> t" using delay_nonneg(2) [OF u] by (simp add: t_def)
  define P where "P = snd (pit_remove (pk_name d) (snd (pit_lookup (pk_name d) (fw_pit F))))"
  define F1 where "F1 = F\<lparr>fw_pit := P, fw_numDataReceived := fw_numDataReceived F + 1, fw_fib := B,
    sd_packet := Some (Data d'), sd_type := DATA, sd_face := gate_index (pe_face e),
    sd_macDest := mac_str (pe_macSrc e), fw_timer := Some t, fw_waiting := True, fw_cs := snd (cs_add now d' (fw_cs F))\<rparr>"
  have h: "fw_handleMessage now u (NdnMsg (Data d)) F = Inr F1"
    unfolding handle_idle_data [OF assms(1-5)]
    using e fib assms(1) t
    by (simp add: processLLData_def case_prod_beta Let_def satisfyPitEntry_def fw_scheduleAt_def t_def [symmetric]
        fw_cs_add_def fw_pit_remove_def d'_def F1_def P_def fw_idle_def)
  have "MACAddress_of_string (mac_str (pe_macSrc e)) = Inr (pe_macSrc e)"
    using pit_found_gate [OF assms(1) e(1)] by (simp add: MACAddress_of_string_def setAddress_def tryParse_mac_str)
  then have "sendDelayed t (F1\<lparr>fw_timer := None\<rparr>) = Inr (F1\<lparr>fw_timer := None,
      fw_sent := fw_sent F1 @ [SendLower (with_ctrl_d (F1\<lparr>fw_timer := None\<rparr>) (pe_macSrc e) (dup_data d')) (gate_index (pe_face e))],
      fw_numDataFwd := fw_numDataFwd F1 + 1, sd_packet := None, fw_waiting := False\<rparr>)"
    using type gate by (subst sendDelayed_data_eq) (simp_all add: F1_def d'_def)
  moreover have "with_ctrl_d (F1\<lparr>fw_timer := None\<rparr>) = with_ctrl_d F"
    by (simp add: with_ctrl_d_def [abs_def] data_dest_def F1_def)
  moreover have "dup_data d' = d'" by (simp add: dup_data_def d'_def)
  moreover have F1: "fw_sent F1 = fw_sent F" "fw_timer F1 = Some t" "fw_waiting F1" "fw_pit F1 = P" "fw_cs F1 = snd (cs_add now d' (fw_cs F))"
    "same_node F F1"
    by (simp_all add: F1_def same_node_def)
  ultimately obtain F2 where "fw_exec DelayTimer F1 = Inr F2" "same_node F F2" "\<not> fw_waiting F2" "fw_timer F2 = None"
    "fw_sent F2 = fw_sent F @ [SendLower (with_ctrl_d F (pe_macSrc e) d') (gate_index (pe_face e))]"
    "fw_pit F2 = fw_pit F1" "fw_cs F2 = fw_cs F1" by (simp add: same_node_def)
  then show ?thesis using h F1 pit_gone [OF assms(1), of "pk_name d"] unfolding t_def [symmetric] P_def
    by (intro exI [of _ F1] exI [of _ F2]) simp
qed

end
