(* ===== verification/FibPrinting.thy ===== *)
theory FibPrinting
  imports NdnForwarding
begin

text \<open>
  When the forwarder makes accesses outside an object: \<^verbatim>\<open>FibBase::create\<close> prints the table after
  every insertion, into a buffer that is too short, and no other event of a node does anything of
  the kind.
\<close>

section \<open>Prefixes learned from Data, and what printing them does\<close>

fun brings_data :: "fw_event \<Rightarrow> bool" where
  "brings_data (Arrive now u (NdnMsg (Data d))) \<longleftrightarrow> pk_kind d \<noteq> REGISTER_PREFIX_CODE"
| "brings_data ev \<longleftrightarrow> False"

text \<open>The FIB has the same number of entries and has made no access outside an object.\<close>

definition fib_quiet :: "fib \<Rightarrow> fw \<Rightarrow> bool" where
  "fib_quiet B F \<longleftrightarrow> length (fib_entries (fw_fib F)) = length (fib_entries B) \<and> fib_faults (fw_fib F) = fib_faults B"

lemma quiet_frame [simp]:
  "fib_quiet B (F\<lparr>fw_pit := x1\<rparr>) = fib_quiet B F" "fib_quiet B (F\<lparr>fw_cs := x2\<rparr>) = fib_quiet B F"
  "fib_quiet B (F\<lparr>fw_sent := x3\<rparr>) = fib_quiet B F" "fib_quiet B (F\<lparr>fw_timer := x4\<rparr>) = fib_quiet B F"
  "fib_quiet B (F\<lparr>fw_waiting := x5\<rparr>) = fib_quiet B F" "fib_quiet B (F\<lparr>sd_packet := x6\<rparr>) = fib_quiet B F"
  "fib_quiet B (F\<lparr>sd_type := x7\<rparr>) = fib_quiet B F" "fib_quiet B (F\<lparr>sd_face := x8\<rparr>) = fib_quiet B F"
  "fib_quiet B (F\<lparr>sd_macDest := x9\<rparr>) = fib_quiet B F" "fib_quiet B (F\<lparr>sd_macSrc := x9\<rparr>) = fib_quiet B F"
  "fib_quiet B (F\<lparr>fw_numIntReceived := n\<rparr>) = fib_quiet B F" "fib_quiet B (F\<lparr>fw_numIntFwd := n\<rparr>) = fib_quiet B F"
  "fib_quiet B (F\<lparr>fw_numIntCanceled := n\<rparr>) = fib_quiet B F" "fib_quiet B (F\<lparr>fw_numIntDuplicated := n\<rparr>) = fib_quiet B F"
  "fib_quiet B (F\<lparr>fw_numDataCanceled := n\<rparr>) = fib_quiet B F" "fib_quiet B (F\<lparr>fw_numDataReceived := n\<rparr>) = fib_quiet B F"
  "fib_quiet B (F\<lparr>fw_numDataUnsolicited := n\<rparr>) = fib_quiet B F" "fib_quiet B (F\<lparr>fw_numDataFwd := n\<rparr>) = fib_quiet B F"
  "fib_quiet B (fw_cs_add now d F) = fib_quiet B F" "fib_quiet B (fw_pit_remove nm F) = fib_quiet B F"
  "fib_quiet B (F\<lparr>fw_fib := snd (fib_lookup nm X)\<rparr>) = fib_quiet B (F\<lparr>fw_fib := X\<rparr>)"
  "fib_quiet B (F\<lparr>fw_fib := fw_fib G\<rparr>) = fib_quiet B G"
  by (simp_all add: fib_quiet_def fw_cs_add_def fw_pit_remove_def fib_lookup_def split: option.splits)

lemma fib_quiet_self: "fib_quiet (fw_fib F) F"
  by (simp add: fib_quiet_def)

lemma quiet_send:
  assumes "fib_quiet B F"
  shows "yields (fib_quiet B) (send_lower p g F)" "yields (fib_quiet B) (send_upper p g F)"
    "yields (fib_quiet B) (fw_scheduleAt now t F)"
  using assms by (simp_all add: send_lower_def send_upper_def fw_scheduleAt_def)

lemma quiet_forward:
  assumes "fib_quiet B F"
  shows "yields (fib_quiet B) (forwardInterestToRemote now i g src dst F)"
    "yields (fib_quiet B) (forwardInterestToLocal now i g src F)"
    "yields (fib_quiet B) (forwardDataToRemote d g dst F)" "yields (fib_quiet B) (forwardDataToLocal d g F)"
  using assms
  by (auto simp: forwardInterestToRemote_def forwardInterestToLocal_def forwardDataToRemote_def forwardDataToLocal_def
      case_prod_beta Let_def intro!: yields_bind_any quiet_send)

lemma quiet_handlers:
  assumes "fib_quiet B F"
  shows "yields (fib_quiet B) (processLLInterest now u i src F)" "yields (fib_quiet B) (processHLInterest now i F)"
    "yields (fib_quiet B) (processHLData now d F)" "yields (fib_quiet B) (satisfyPitEntry now u d e F)"
    "yields (fib_quiet B) (whileWaiting p F)"
  using assms
  by (auto simp: processLLInterest_def processHLInterest_def processHLData_def satisfyPitEntry_def whileWaiting_def
      case_prod_beta Let_def intro!: quiet_send quiet_forward yields_bind [where Q = "fib_quiet B"] split: option.split)
    (auto intro!: quiet_forward yields_bind_any)

lemma quiet_sendDelayed:
  assumes "fib_quiet B F"
  shows "yields (fib_quiet B) (sendDelayed now F)"
proof -
  have sent: "yields (fib_quiet B) (bind_result (forwardInterestToRemote now i g src dest F) (\<lambda>F1. Inr (F1\<lparr>fw_numIntFwd := fw_numIntFwd F1 + 1\<rparr>)))"
    "yields (fib_quiet B) (bind_result (forwardDataToRemote d g dest F) (\<lambda>F1. Inr (F1\<lparr>fw_numDataFwd := fw_numDataFwd F1 + 1\<rparr>)))"
    for i d g src dest
    by (rule yields_bind [OF quiet_forward(1) [OF assms]], simp)
      (rule yields_bind [OF quiet_forward(3) [OF assms]], simp)
  have "yields (fib_quiet B) (bind_result (cast_Interest p) (\<lambda>i. bind_result (MACAddress_of_string s1) (\<lambda>src.
      bind_result (MACAddress_of_string s2) (\<lambda>dest. bind_result (forwardInterestToRemote now (dup_interest i) g src dest F)
        (\<lambda>F1. Inr (F1\<lparr>fw_numIntFwd := fw_numIntFwd F1 + 1\<rparr>))))))"
    "yields (fib_quiet B) (bind_result (cast_Data p) (\<lambda>d. bind_result (MACAddress_of_string s1) (\<lambda>dest.
      bind_result (forwardDataToRemote (dup_data d) g dest F) (\<lambda>F1. Inr (F1\<lparr>fw_numDataFwd := fw_numDataFwd F1 + 1\<rparr>)))))"
    for p s1 s2 g
    by (rule yields_bind_any, rule yields_bind_any, rule yields_bind_any, rule sent)
      (rule yields_bind_any, rule yields_bind_any, rule sent)
  then show ?thesis unfolding sendDelayed_def
    by (auto intro!: yields_bind [where Q = "fib_quiet B"] simp del: One_nat_def add_Suc_right split: option.split)
qed

text \<open>
  The event is a Data that made the FIB longer: \<^verbatim>\<open>create\<close> inserted an entry, then it printed the
  table.
\<close>

definition learned :: "fw_event \<Rightarrow> fw \<Rightarrow> fw \<Rightarrow> bool" where
  "learned ev A B \<longleftrightarrow> brings_data ev \<and> length (fib_entries (fw_fib A)) < length (fib_entries (fw_fib B))"

definition overruns :: "fw_event \<Rightarrow> fw \<Rightarrow> fw \<Rightarrow> bool" where
  "overruns ev A B \<longleftrightarrow> fib_faults (fw_fib B) = fib_faults (fw_fib A) @
     (if learned ev A B then replicate (Suc (length (fib_entries (fw_fib B)))) print_overrun else [])"

lemma overruns_quiet: "fib_quiet (fw_fib A) B \<Longrightarrow> overruns ev A B"
  by (simp add: overruns_def learned_def fib_quiet_def)

lemma overruns_processLLData:
  assumes "processLLData now u d src A = Inr B" "brings_data ev"
  shows "overruns ev A B"
proof (cases "fst (pit_lookup (pk_name d) (fw_pit A))")
  case None
  then show ?thesis using assms(1) by (auto simp: processLLData_def case_prod_beta Let_def fib_quiet_self intro!: overruns_quiet)
next
  case (Some e)
  let ?F = "A\<lparr>fw_pit := snd (pit_lookup (pk_name d) (fw_pit A)), fw_numDataReceived := Suc (fw_numDataReceived A)\<rparr>"
  from assms(1) Some obtain ok X where X: "fib_create now (pk_name d) (pk_prefixLength d) (pk_arrivalGate d) src (fw_fib A) = Inr (ok, X)"
    and B: "satisfyPitEntry now u d e (?F\<lparr>fw_fib := X\<rparr>) = Inr B"
    by (auto simp: processLLData_def case_prod_beta Let_def bind_result_Inr_iff)
  have "fib_quiet X (?F\<lparr>fw_fib := X\<rparr>)" by (simp add: fib_quiet_def)
  then have "fib_quiet X B" using quiet_handlers(4) B by (fastforce simp: yields_iff)
  with fib_create_faults [OF X] assms(2) show ?thesis by (auto simp: overruns_def learned_def fib_quiet_def)
qed

lemma overruns_dispatch:
  assumes "dispatchPacket now u p A = Inr B" "getKind p \<noteq> REGISTER_PREFIX_CODE"
  shows "overruns (Arrive t v (NdnMsg p)) A B"
proof -
  have "yields (fib_quiet (fw_fib A)) (processLLInterest now u i src A)"
    "yields (fib_quiet (fw_fib A)) (processHLInterest now i A)" "yields (fib_quiet (fw_fib A)) (processHLData now d A)" for i src d
    by (simp_all add: quiet_handlers fib_quiet_self)
  moreover have "\<exists>d. p = Data d" if "cast_Data p = Inr d \<or> cast_Data (removeControlInfo p) = Inr d" for d
    using that by (cases p) auto
  ultimately show ?thesis using assms
    by (cases p) (fastforce simp: dispatchPacket_def Let_def bind_result_Inr_iff yields_iff fib_quiet_self
        intro: overruns_quiet overruns_processLLData split: if_splits option.splits)+
qed

lemma fw_exec_overruns:
  assumes "fw_exec ev A = Inr B"
  shows "overruns ev A B"
proof (cases ev)
  case (Arrive t v m)
  then show ?thesis
  proof (cases m)
    case SelfTimer
    with assms Arrive have "sendDelayed (int t) (A\<lparr>fw_timer := None\<rparr>) = Inr B" by simp
    then have "fib_quiet (fw_fib A) B"
      using quiet_sendDelayed [of "fw_fib A" "A\<lparr>fw_timer := None\<rparr>" "int t"] by (simp add: yields_iff fib_quiet_self)
    then show ?thesis by (rule overruns_quiet)
  next
    case (NdnMsg p)
    then show ?thesis using assms Arrive overruns_dispatch [of "int t" v p A B t v]
        quiet_handlers(5) [OF fib_quiet_self, of A p]
      by (auto simp: yields_iff fw_registerPrefix_def fib_registerPrefix_def overruns_def [of _ A] learned_def
          fib_quiet_def split: if_splits packet.splits elim!: brings_data.elims)
  next
    case (OtherPacket n k g)
    then show ?thesis using assms Arrive
      by (auto simp: fw_registerPrefix_def fib_registerPrefix_def overruns_def learned_def split: if_splits)
  next
    case PlainMessage
    then show ?thesis using assms Arrive by (simp add: overruns_quiet fib_quiet_self)
  qed
next
  case DelayTimer
  then show ?thesis using assms quiet_sendDelayed [of "fw_fib A" "A\<lparr>fw_timer := None\<rparr>"]
    by (auto simp: yields_iff fib_quiet_self split: option.splits intro: overruns_quiet)
next
  case PitTimer
  have "yields (fib_quiet (fw_fib A)) (receiveTimeout n F)" if "fib_quiet (fw_fib A) F" for n F
    using that by (simp add: receiveTimeout_def quiet_send)
  then have "yields (fib_quiet (fw_fib A)) (fw_pitTimer t A)" for t
    by (auto simp: fw_pitTimer_def case_prod_beta fib_quiet_self intro!: yields_run)
  then show ?thesis using assms PitTimer
    by (auto simp: yields_iff fib_quiet_self split: option.splits intro: overruns_quiet)
next
  case FibTimer
  then show ?thesis using assms
    by (auto simp: overruns_def learned_def fib_handleMessage_def fib_cleanExpired_def case_prod_beta Let_def split: option.splits)
next
  case CsTimer
  then show ?thesis using assms by (auto simp: fib_quiet_self split: option.splits intro!: overruns_quiet)
qed

end
