(* ===== verification/ForwardingProperties.thy ===== *)
theory ForwardingProperties
  imports NdnHops FibPrinting
begin

text \<open>
  What the forwarding strategy does with each kind of packet, stated over \<open>fw_handleMessage\<close> and
  over runs of events: safety, caching, aggregation, forwarding along the FIB, delayed flooding
  and its suppression, consumption of pending Interests and their timeouts.
\<close>

text \<open>A small node for the concrete instances of the properties.\<close>

definition sample_fw :: "pit \<Rightarrow> fib \<Rightarrow> cs \<Rightarrow> fw" where
  "sample_fw P B C =
     \<lparr>fw_myMacAddress = MACAddress 7, fw_ndnMacMapping = IU_DU, fw_forwarding = True,
      fw_cacheUnsolicited = False, fw_lowerGates = 2, fw_upperGates = 2, fw_waiting = False,
      sd_packet = None, sd_type = 0, sd_face = 0, sd_macDest = [], sd_macSrc = [],
      fw_timer = None, fw_pit = P, fw_fib = B, fw_cs = C, fw_sent = [],
      fw_numIntReceived = 0, fw_numIntFwd = 0, fw_numIntCanceled = 0, fw_numIntDuplicated = 0,
      fw_numDataCanceled = 0, fw_numDataReceived = 0, fw_numDataUnsolicited = 0, fw_numDataFwd = 0\<rparr>"

definition lower0 :: gate where "lower0 = \<lparr>gate_name = ''lowerLayerIn'', gate_index = 0\<rparr>"
definition upper0 :: gate where "upper0 = \<lparr>gate_name = ''upperLayerIn'', gate_index = 0\<rparr>"

definition sample_ctrl :: ieee802ctrl where
  "sample_ctrl = \<lparr>ctrl_src = MACAddress 9, ctrl_dest = MACAddress 7\<rparr>"

definition sample_interest :: "string \<Rightarrow> interest" where
  "sample_interest n = (new_Interest n)\<lparr>pk_type := INTEREST, pk_arrivalGate := lower0,
     pk_controlInfo := Some sample_ctrl, pk_flood := True\<rparr>"

definition sample_data :: "string \<Rightarrow> data_packet" where
  "sample_data n = (new_Data n)\<lparr>pk_type := DATA, pk_arrivalGate := lower0, pk_controlInfo := Some sample_ctrl\<rparr>"

lemma mac_wf_small: "mac_wf (MACAddress 7)" "mac_wf (MACAddress 9)"
  by (simp_all add: mac_wf_def MAC_ADDRESS_MASK_def)

lemma sample_inv:
  "pit_ok 2 2 P \<Longrightarrow> fib_ok 2 2 B \<Longrightarrow> cs_ok C \<Longrightarrow> fw_inv 2 2 (sample_fw P B C)"
  by (simp add: fw_inv_def fw_idle_def fw_base_def sample_fw_def mac_wf_small)

lemma sample_packets:
  "packet_ok 2 2 (Interest (sample_interest n))"
  "n \<noteq> [] \<Longrightarrow> packet_ok 2 2 (Data (sample_data n))"
  by (cases n; simp add: packet_ok_def sample_interest_def sample_data_def new_Interest_def new_Data_def
      gate_ok_def lower0_def isName_def sample_ctrl_def mac_wf_small)+

lemma sample_fields [simp]:
  "pk_name (sample_interest n) = n" "pk_arrivalGate (sample_interest n) = lower0" "pk_kind (sample_interest n) = 0"
  "pk_controlInfo (sample_interest n) = Some sample_ctrl" "pk_flood (sample_interest n)"
  "pk_type (sample_interest n) = INTEREST" "\<not> mustBeFresh (sample_interest n)"
  "pk_name (sample_data n) = n" "pk_arrivalGate (sample_data n) = lower0" "pk_kind (sample_data n) = 0"
  "pk_controlInfo (sample_data n) = Some sample_ctrl" "pk_type (sample_data n) = DATA"
  "isName lower0 ''lowerLayerIn''" "gate_index lower0 = 0" "isName upper0 ''upperLayerIn''" "gate_index upper0 = 0"
  "0 \<noteq> REGISTER_PREFIX_CODE"
  "fw_pit (sample_fw P B C) = P" "fw_fib (sample_fw P B C) = B" "fw_cs (sample_fw P B C) = C"
  "\<not> fw_waiting (sample_fw P B C)" "fw_forwarding (sample_fw P B C)" "fw_sent (sample_fw P B C) = []"
  by (simp_all add: sample_interest_def sample_data_def new_Interest_def new_Data_def lower0_def upper0_def isName_def
      REGISTER_PREFIX_CODE_def sample_fw_def)

lemma empty_tables:
  "pit_ok 2 2 (pit_initialize 9 4000)" "fib_ok 2 2 (fib_initialize 9 1000)" "cs_ok (cs_initialize 9)"
  "pit_pending (pit_initialize 9 4000) = []" "fst (fib_lookup n (fib_initialize 9 1000)) = None"
  "fst (cs_lookup i (cs_initialize 9)) = None" "pit_entries (pit_initialize 9 4000) = []"
  "pit_maxSize (pit_initialize 9 4000) = 9" "fst (pit_lookup n (pit_initialize 9 4000)) = None"
  by (simp_all add: pit_ok_def fib_ok_def cs_ok_def pit_inv_initialize fib_inv_initialize cs_inv_initialize)
     (simp_all add: pit_initialize_def fib_initialize_def cs_initialize_def cs_items_def pit_pending_def
       fib_lookup_def fib_match_def cs_lookup_def pit_lookup_def)

section \<open>Properties\<close>

text \<open>
  C1: the forwarder raises no error, and its only undefined behaviour is the printing of the FIB.
  Started on any interfaces (at least one) and with empty tables, it handles every sequence of
  well-formed packets, prefix registrations and timers to the end: no cast fails, no message is
  scheduled twice or sent through a gate that does not exist, no address string fails to parse,
  no deleted packet is used.  Afterwards the pending names are distinct, and a transmission is
  waiting exactly if its timer is scheduled.  The events that access memory outside an object
  are exactly the Data packets from which the FIB learns a new prefix: \<^verbatim>\<open>create\<close> then prints the
  table, and every line of it, the header included, is written past the end of \<^verbatim>\<open>char buf[65]\<close>.
  The run is the one in which these bytes hit nothing that is used afterwards.
\<close>

theorem fw_safe:
  assumes "list_all mac_wf macs" "0 < nl" "list_all (fw_admissible nl nu) evs"
    and "fw_initialize mapping fwd unsol nl nu macs (pit_initialize n l) (fib_initialize n' l') (cs_initialize n'') = Inr F0"
  shows "\<exists>F. run_result fw_exec evs F0 = Inr F \<and> distinct (pit_pending (fw_pit F)) \<and>
    (fw_waiting F \<longleftrightarrow> fw_timer F \<noteq> None) \<and> (fw_waiting F \<longrightarrow> sd_packet F \<noteq> None) \<and>
    fib_faults (fw_fib F0) = [] \<and>
    (\<forall>as ev bs. evs = as @ ev # bs \<longrightarrow> (\<exists>A B. run_result fw_exec as F0 = Inr A \<and> fw_exec ev A = Inr B \<and>
      fib_faults (fw_fib B) = fib_faults (fw_fib A) @
        (if learned ev A B then replicate (Suc (length (fib_entries (fw_fib B)))) print_overrun else [])))"
proof -
  have "fw_inv nl nu F0"
    using initialize_inv [OF assms(1,2)] assms(4) by (metis returns_simps(1))
  from fw_run_inv [OF this assms(3)] obtain F where F: "run_result fw_exec evs F0 = Inr F" "fw_inv nl nu F" by blast
  have "fib_faults (fw_fib F0) = []"
    using assms(4) by (auto simp: fw_initialize_def bind_result_Inr_iff fib_initialize_def)
  moreover have "\<exists>A B. run_result fw_exec as F0 = Inr A \<and> fw_exec ev A = Inr B \<and> overruns ev A B"
    if "evs = as @ ev # bs" for as ev bs
    using F(1) that fw_exec_overruns by (auto simp: run_result_append bind_result_Inr_iff)
  ultimately show ?thesis using F
    by (cases "sd_packet F")
      (auto simp: overruns_def fw_inv_def fw_idle_def fw_busy_def fw_base_def pit_ok_def delayed_ok_def)
qed

text \<open>An application asks for \<^verbatim>\<open>/a/1\<close>, and the Data with that name comes from the link layer.\<close>

definition safe_events :: "fw_event list" where
  "safe_events =
     [Arrive 5 0 (NdnMsg (Interest ((sample_interest ''/a/1'')\<lparr>pk_arrivalGate := upper0, pk_controlInfo := None\<rparr>))),
      Arrive 6 0 (NdnMsg (Data ((sample_data ''/a/1'')\<lparr>pk_prefixLength := 2\<rparr>)))]"

lemma safe_events_learn:
  "case fw_initialize 12 True False 2 2 [MACAddress 7] (pit_initialize 9 4000) (fib_initialize 9 1000) (cs_initialize 9) of
     Inr F0 \<Rightarrow> (case run_result fw_exec safe_events F0 of
       Inr F \<Rightarrow> fib_faults (fw_fib F) = [print_overrun, print_overrun] \<and> length (fw_sent F) = 2 | Inl _ \<Rightarrow> False)
   | Inl _ \<Rightarrow> False"
  by code_simp

theorem fw_safe_witness:
  "\<exists>F0 F. fw_initialize 12 True False 2 2 [MACAddress 7] (pit_initialize 9 4000) (fib_initialize 9 1000) (cs_initialize 9) = Inr F0
     \<and> run_result fw_exec safe_events F0 = Inr F \<and> distinct (pit_pending (fw_pit F))
     \<and> length (fw_sent F) = 2 \<and> fib_faults (fw_fib F) = [print_overrun, print_overrun]"
proof -
  have mac: "list_all mac_wf [MACAddress 7]" by (simp add: mac_wf_def MAC_ADDRESS_MASK_def)
  have adm: "list_all (fw_admissible 2 2) safe_events"
    by (simp add: safe_events_def packet_ok_def gate_ok_def upper0_def lower0_def isName_def sample_interest_def
        sample_data_def new_Interest_def new_Data_def sample_ctrl_def mac_wf_small REGISTER_PREFIX_CODE_def)
  obtain F0 where F0: "fw_initialize 12 True False 2 2 [MACAddress 7] (pit_initialize 9 4000) (fib_initialize 9 1000)
      (cs_initialize 9) = Inr F0"
    using initialize_inv [OF mac, of 2 2] unfolding returns_def by fastforce
  have "0 < (2::nat)" by simp
  from fw_safe [OF mac this adm F0] obtain F where "run_result fw_exec safe_events F0 = Inr F"
    "distinct (pit_pending (fw_pit F))" by blast
  with F0 safe_events_learn show ?thesis by auto
qed

text \<open>
  C33: an Interest from the link layer that the content store can answer is answered at once
  with the cached packet, on the face it came from and towards its sender (or as a broadcast,
  as the mapping says); the PIT and the FIB are not touched, so nothing is left pending.
\<close>

theorem fw_cached_answer:
  assumes "fw_inv nl nu F" "\<not> fw_waiting F" "packet_ok nl nu (Interest i)"
    and "isName (pk_arrivalGate i) ''lowerLayerIn''" "pk_kind i \<noteq> REGISTER_PREFIX_CODE" "pk_controlInfo i = Some c"
    and hit: "fst (cs_lookup (i\<lparr>pk_controlInfo := None\<rparr>) (fw_cs F)) = Some d"
  shows "\<exists>F'. fw_handleMessage now u (NdnMsg (Interest i)) F = Inr F' \<and> fw_pit F' = fw_pit F \<and> fw_fib F' = fw_fib F
    \<and> fw_sent F' = fw_sent F @ [SendLower (with_ctrl_d F (ctrl_src c) (dup_data d)) (gate_index (pk_arrivalGate i))]"
proof -
  have idle: "fw_idle nl nu F" using assms(1,2) by (auto simp: fw_inv_def fw_busy_def)
  then have "pk_type d = DATA" using hit cs_ok_found by (auto simp: fw_idle_def fw_base_def)
  moreover have "with_ctrl_d (F\<lparr>fw_numIntReceived := a, fw_cs := b\<rparr>) = with_ctrl_d F" for a b
    by (simp add: with_ctrl_d_def [abs_def] data_dest_def)
  ultimately show ?thesis
    using handle_idle_interest [OF idle assms(3-6)] hit idle_gate [OF idle assms(3)] assms(4)
    by (simp add: processLLInterest_eq forwardDataToRemote_eq dup_data_def)
qed

theorem fw_cached_answer_witness:
  "\<exists>F'. fw_handleMessage 5 0 (NdnMsg (Interest (sample_interest ''/a'')))
       (sample_fw (pit_initialize 9 4000) (fib_initialize 9 1000)
         (snd (cs_add 0 (sample_data ''/a'') (cs_initialize 9)))) = Inr F' \<and> length (fw_sent F') = 1"
proof -
  let ?C = "snd (cs_add 0 (sample_data ''/a'') (cs_initialize 9))"
  have C: "cs_ok ?C" using cs_ok_add [OF empty_tables(3), of "sample_data ''/a''" 0] by simp
  have "fst (cs_lookup ((sample_interest ''/a'')\<lparr>pk_controlInfo := None\<rparr>) ?C) = Some (dup_data (sample_data ''/a''))"
    by (simp add: cs_lookup_stale_ok cs_items_add) (simp add: cs_initialize_def cs_items_def)
  from fw_cached_answer [OF sample_inv [OF empty_tables(1,2) C] _ sample_packets(1), of "''/a''" sample_ctrl] this
  show ?thesis by fastforce
qed

text \<open>
  An Interest whose name is already pending is not forwarded again: nothing is sent, the
  pending names stay as they are, and the duplicate is counted.
\<close>

theorem fw_aggregates:
  assumes "fw_inv nl nu F" "\<not> fw_waiting F" "packet_ok nl nu (Interest i)"
    and "isName (pk_arrivalGate i) ''lowerLayerIn''" "pk_kind i \<noteq> REGISTER_PREFIX_CODE" "pk_controlInfo i = Some c"
    and "fst (cs_lookup (i\<lparr>pk_controlInfo := None\<rparr>) (fw_cs F)) = None" "pk_name i \<in> set (pit_pending (fw_pit F))"
  shows "\<exists>F'. fw_handleMessage now u (NdnMsg (Interest i)) F = Inr F' \<and> fw_sent F' = fw_sent F
    \<and> pit_entries (fw_pit F') = pit_entries (fw_pit F) \<and> fw_timer F' = None
    \<and> fw_numIntDuplicated F' = fw_numIntDuplicated F + 1"
proof -
  have idle: "fw_idle nl nu F" using assms(1,2) by (auto simp: fw_inv_def fw_busy_def)
  obtain e where "fst (pit_lookup (pk_name i) (fw_pit F)) = Some e"
    using assms(8) pit.lookup_iff [of "pk_name i" "fw_pit F"] by auto
  moreover have "pit_entries (snd (pit_lookup n P)) = pit_entries P" for n P
    by (simp add: pit_lookup_def Let_def split: option.split)
  ultimately show ?thesis
    using handle_idle_interest [OF idle assms(3-6)] assms(7) idle by (simp add: processLLInterest_eq fw_idle_def)
qed

theorem fw_aggregates_witness:
  "\<exists>F'. fw_handleMessage 5 0 (NdnMsg (Interest (sample_interest ''/a'')))
       (sample_fw (snd (pit_create 0 (sample_interest ''/a'') (MACAddress 9) (pit_initialize 9 4000)))
         (fib_initialize 9 1000) (cs_initialize 9)) = Inr F' \<and> fw_sent F' = []"
proof -
  let ?P = "snd (pit_create 0 (sample_interest ''/a'') (MACAddress 9) (pit_initialize 9 4000))"
  have "gate_ok 2 2 lower0" by (simp add: gate_ok_def lower0_def isName_def)
  then have P: "pit_ok 2 2 ?P" by (intro pit_ok_create) (simp_all add: empty_tables mac_wf_small)
  have "''/a'' \<in> set (pit_pending ?P)"
    by (simp add: pit_pending_def pit_create_def empty_tables new_PitEntry_def)
  with fw_aggregates [OF sample_inv [OF P empty_tables(2,3)] _ sample_packets(1), of "''/a''" sample_ctrl]
  show ?thesis by (fastforce simp: empty_tables)
qed

text \<open>
  C3: a new Interest from the link layer follows the longest matching prefix of the FIB.  If that
  entry is live and points to the link layer (and this node forwards and its PIT has room), then
  exactly one packet is sent: the Interest with its hop count increased, on the face of the entry
  and towards the MAC address of the entry, or as a broadcast when \<^verbatim>\<open>ndnMacMapping\<close> says so for
  Interests (as its default does, and then the address of the entry is not used); and exactly one
  PIT entry is added, with the face and the MAC address the Interest came from.
\<close>

theorem fw_forwards_longest_match:
  assumes "fw_inv nl nu F" "\<not> fw_waiting F" "packet_ok nl nu (Interest i)"
    and "isName (pk_arrivalGate i) ''lowerLayerIn''" "pk_kind i \<noteq> REGISTER_PREFIX_CODE" "pk_controlInfo i = Some c"
    and "fst (cs_lookup (i\<lparr>pk_controlInfo := None\<rparr>) (fw_cs F)) = None" "pk_name i \<notin> set (pit_pending (fw_pit F))"
    and e: "longest_match (fib_entries (fw_fib F)) (pk_name i) e" "\<not> fe_erased e"
    and "isName (fe_face e) ''lowerLayerIn''" "fw_forwarding F"
    and room: "length (pit_entries (fw_pit F)) < pit_maxSize (fw_pit F)"
  defines "i' \<equiv> i\<lparr>pk_controlInfo := None, pk_hopCount := pk_hopCount i + 1\<rparr>"
  shows "\<exists>F'. fw_handleMessage now u (NdnMsg (Interest i)) F = Inr F'
    \<and> fw_sent F' = fw_sent F @ [SendLower (with_ctrl_i F (fe_macDest e) i') (gate_index (fe_face e))]
    \<and> pit_entries (fw_pit F') = pit_entries (fw_pit F) @ [new_PitEntry now i' (pk_arrivalGate i) (ctrl_src c)]
    \<and> \<not> fw_waiting F'"
proof -
  have idle: "fw_idle nl nu F" using assms(1,2) by (rule inv_not_waiting)
  have fib: "fst (fib_lookup (pk_name i) (fw_fib F)) = Some e"
    using e fib_lookup_iff idle by (simp add: fw_idle_def fw_base_def fib_ok_def)
  have "open_to i F" using assms(7,8,13) by (simp add: open_to_def)
  from ll_interest_remote [OF idle assms(3-6) this fib assms(11,12), of now u] show ?thesis by (auto simp: i'_def)
qed

theorem fw_forwards_longest_match_witness:
  "\<exists>F'. fw_handleMessage 5 0 (NdnMsg (Interest (sample_interest ''/a'')))
       (sample_fw (pit_initialize 9 4000)
         (snd (fib_registerPrefix 0 ''/'' lower0 (MACAddress 9) (fib_initialize 9 1000))) (cs_initialize 9)) = Inr F'
     \<and> length (fw_sent F') = 1"
proof -
  let ?B = "snd (fib_registerPrefix 0 ''/'' lower0 (MACAddress 9) (fib_initialize 9 1000))"
  have g: "gate_ok 2 2 lower0" by (simp add: gate_ok_def lower0_def isName_def)
  have B: "fib_ok 2 2 ?B" by (rule fib_ok_registerPrefix [OF empty_tables(2) g])
  have entries: "fib_entries ?B = [new_FibEntry 0 ''/'' lower0 (MACAddress 9) 100000]"
    by (simp add: fib_registerPrefix_def fib_initialize_def fib_match_def)
  show ?thesis
    using fw_forwards_longest_match [OF sample_inv [OF empty_tables(1) B empty_tables(3)] _ sample_packets(1) [of "''/a''"],
      where e = "new_FibEntry 0 ''/'' lower0 (MACAddress 9) 100000" and c = sample_ctrl]
    by (fastforce simp: empty_tables entries longest_match_def new_FibEntry_def)
qed

text \<open>The delays, in whole milliseconds.\<close>

lemma interest_delay_ms:
  assumes "0 \<le> u" "u < DW"
  shows "7 \<le> c_int_of_double (computeInterestRandomDelay u) \<and> c_int_of_double (computeInterestRandomDelay u) \<le> 14"
proof -
  have "0 \<le> computeInterestRandomDelay u" "7 \<le> computeInterestRandomDelay u" "computeInterestRandomDelay u < 15"
    using assms by (simp_all add: computeInterestRandomDelay_def DW_def DEFER_SLOT_TIME_def)
  then show ?thesis by (auto simp: c_int_of_double_def le_floor_iff) linarith?
qed

lemma data_delay_ms:
  assumes "0 \<le> u" "u < DW - 1"
  shows "0 \<le> c_int_of_double (computeDataRandomDelay u) \<and> c_int_of_double (computeDataRandomDelay u) \<le> 7"
proof -
  have "0 \<le> computeDataRandomDelay u" "computeDataRandomDelay u < 8"
    using assms by (simp_all add: computeDataRandomDelay_def DW_def DEFER_SLOT_TIME_def)
  then show ?thesis by (auto simp: c_int_of_double_def) linarith?
qed

text \<open>
  C31: controlled flooding.  A new Interest with the flooding flag and no FIB entry is held back
  for 7 to 14 milliseconds and nothing is sent meanwhile; when the timer fires undisturbed, the
  Interest (hop count increased) goes out on interface 0 as a broadcast, and the PIT entry made at
  that moment holds the MAC address of the original sender, although it went through the text
  field of the timer message.
\<close>

theorem fw_floods_after_delay:
  assumes "fw_inv nl nu F" "\<not> fw_waiting F" "packet_ok nl nu (Interest i)"
    and "isName (pk_arrivalGate i) ''lowerLayerIn''" "pk_kind i \<noteq> REGISTER_PREFIX_CODE" "pk_controlInfo i = Some c"
    and "fst (cs_lookup (i\<lparr>pk_controlInfo := None\<rparr>) (fw_cs F)) = None" "pk_name i \<notin> set (pit_pending (fw_pit F))"
    and "fst (fib_lookup (pk_name i) (fw_fib F)) = None" "pk_flood i" "fw_forwarding F"
    and room: "length (pit_entries (fw_pit F)) < pit_maxSize (fw_pit F)"
    and u: "0 \<le> u" "u < DW"
  defines "i' \<equiv> i\<lparr>pk_controlInfo := None, pk_hopCount := pk_hopCount i + 1\<rparr>"
  shows "\<exists>F1 t F2. fw_handleMessage now u (NdnMsg (Interest i)) F = Inr F1
    \<and> fw_sent F1 = fw_sent F \<and> pit_entries (fw_pit F1) = pit_entries (fw_pit F)
    \<and> fw_timer F1 = Some t \<and> now + SimTime_ms 7 \<le> t \<and> t \<le> now + SimTime_ms 14
    \<and> fw_exec DelayTimer F1 = Inr F2
    \<and> fw_sent F2 = fw_sent F @ [SendLower (with_ctrl_i F BROADCAST_ADDRESS i') 0]
    \<and> pit_entries (fw_pit F2) = pit_entries (fw_pit F) @ [new_PitEntry t i' (pk_arrivalGate i) (ctrl_src c)]
    \<and> \<not> fw_waiting F2 \<and> fw_timer F2 = None"
proof -
  have idle: "fw_idle nl nu F" using assms(1,2) by (auto simp: fw_inv_def fw_busy_def)
  have miss: "fst (pit_lookup (pk_name i) (fw_pit F)) = None" using assms(8) by (simp add: pit.lookup_iff)
  define t where "t = now + SimTime_ms (c_int_of_double (computeInterestRandomDelay u))"
  have t: "now + SimTime_ms 7 \<le> t" "t \<le> now + SimTime_ms 14"
    using interest_delay_ms [OF u] by (simp_all add: t_def)
  have "0 \<le> SimTime_ms 7" by simp
  with t(1) have past: "\<not> t < now" by linarith
  define F1 where "F1 = (looked_up (i\<lparr>pk_controlInfo := None\<rparr>) (F\<lparr>fw_numIntReceived := fw_numIntReceived F + 1\<rparr>))
    \<lparr>sd_packet := Some (Interest i'), sd_type := INTEREST, sd_face := DEFAULT_MAC_IF,
     sd_macDest := ''ff:ff:ff:ff:ff:ff'', sd_macSrc := mac_str (ctrl_src c), fw_timer := Some t, fw_waiting := True\<rparr>"
  have h: "fw_handleMessage now u (NdnMsg (Interest i)) F = Inr F1"
    unfolding handle_idle_interest [OF idle assms(3-6)] processLLInterest_eq
    using assms(7,9-11) miss idle past
    by (simp add: fw_scheduleAt_def t_def [symmetric] F1_def i'_def fw_idle_def)
  have mac: "MACAddress_of_string (mac_str (ctrl_src c)) = Inr (ctrl_src c)"
    using assms(3,4,6) by (simp add: packet_ok_def MACAddress_of_string_def setAddress_def tryParse_mac_str)
  have type: "pk_type i' = INTEREST" "pk_controlInfo i' = None" "dup_interest i' = i'"
    using assms(3) by (simp_all add: packet_ok_def i'_def dup_interest_def)
  have gates: "0 < fw_lowerGates F" using idle_nl [OF idle] idle by (simp add: fw_idle_def fw_base_def)
  have ctrl: "with_ctrl_i (F1\<lparr>fw_timer := None\<rparr>) = with_ctrl_i F"
    by (simp add: with_ctrl_i_def [abs_def] interest_dest_def F1_def)
  let ?F1 = "F1\<lparr>fw_timer := None\<rparr>"
  have pit: "pit_entries (fw_pit F1) = pit_entries (fw_pit F)" "pit_maxSize (fw_pit F1) = pit_maxSize (fw_pit F)"
    "fw_lowerGates F1 = fw_lowerGates F" "fw_sent F1 = fw_sent F"
    by (simp_all add: F1_def)
  have "sendDelayed t ?F1 = Inr (?F1\<lparr>fw_pit := snd (pit_create t (dup_interest i') (ctrl_src c) (fw_pit ?F1)),
      fw_sent := fw_sent ?F1 @ [SendLower (with_ctrl_i ?F1 BROADCAST_ADDRESS (dup_interest i')) (sd_face ?F1)],
      fw_numIntFwd := fw_numIntFwd ?F1 + 1, sd_packet := None, fw_waiting := False\<rparr>)"
    by (rule sendDelayed_interest_eq)
      (use mac type gates room pit in \<open>simp_all add: F1_def broadcast_string DEFAULT_MAC_IF_def\<close>)
  moreover have "fw_timer F1 = Some t" "sd_face F1 = 0" by (simp_all add: F1_def DEFAULT_MAC_IF_def)
  moreover have "pit_create t i' (ctrl_src c) (fw_pit F1) = (True, snd (pit_create t i' (ctrl_src c) (fw_pit F1)))"
    "pit_entries (snd (pit_create t i' (ctrl_src c) (fw_pit F1)))
       = pit_entries (fw_pit F) @ [new_PitEntry t i' (pk_arrivalGate i) (ctrl_src c)]"
    using room type(3) by (simp_all add: pit_create_def pit) (simp add: i'_def)
  ultimately obtain F2 where "fw_exec DelayTimer F1 = Inr F2"
    "fw_sent F2 = fw_sent F @ [SendLower (with_ctrl_i F BROADCAST_ADDRESS i') 0]"
    "pit_entries (fw_pit F2) = pit_entries (fw_pit F) @ [new_PitEntry t i' (pk_arrivalGate i) (ctrl_src c)]"
    "\<not> fw_waiting F2" "fw_timer F2 = None" "fw_timer F1 = Some t"
    using ctrl type(3) by (simp add: pit)
  then show ?thesis using h t pit by blast
qed

theorem fw_floods_after_delay_witness:
  "\<exists>F1 F2. fw_handleMessage 0 0 (NdnMsg (Interest (sample_interest ''/a'')))
       (sample_fw (pit_initialize 9 4000) (fib_initialize 9 1000) (cs_initialize 9)) = Inr F1
     \<and> fw_sent F1 = [] \<and> fw_exec DelayTimer F1 = Inr F2 \<and> length (fw_sent F2) = 1"
proof -
  let ?F = "sample_fw (pit_initialize 9 4000) (fib_initialize 9 1000) (cs_initialize 9)"
  have "fw_inv 2 2 ?F" by (rule sample_inv [OF empty_tables(1,2,3)])
  from fw_floods_after_delay [OF this _ sample_packets(1) [of "''/a''"], where c = sample_ctrl and u = 0 and now = 0]
  obtain F1 t F2 where "fw_handleMessage 0 0 (NdnMsg (Interest (sample_interest ''/a''))) ?F = Inr F1"
    "fw_sent F1 = []" "fw_exec DelayTimer F1 = Inr F2"
    "fw_sent F2 = [SendLower (with_ctrl_i ?F BROADCAST_ADDRESS
       ((sample_interest ''/a'')\<lparr>pk_controlInfo := None, pk_hopCount := pk_hopCount (sample_interest ''/a'') + 1\<rparr>)) 0]"
    by (auto simp: empty_tables DW_def simp del: fw_handleMessage.simps fw_exec.simps)
  then show ?thesis by (intro exI [of _ F1] exI [of _ F2]) (simp del: fw_handleMessage.simps fw_exec.simps)
qed

text \<open>
  C36: while a transmission is delayed the node is deaf: whatever packet arrives (except a prefix
  registration), nothing is sent and none of the three tables changes, so every other Interest and
  Data of that time is lost; and a packet with the name of the delayed one, of whatever type,
  cancels the transmission for good.
\<close>

theorem fw_deaf_while_waiting:
  assumes "fw_inv nl nu F" "fw_waiting F" "getKind p \<noteq> REGISTER_PREFIX_CODE"
  shows "\<exists>F' q. fw_handleMessage now u (NdnMsg p) F = Inr F' \<and> sd_packet F = Some q
    \<and> fw_sent F' = fw_sent F \<and> fw_pit F' = fw_pit F \<and> fw_fib F' = fw_fib F \<and> fw_cs F' = fw_cs F
    \<and> (if getName p = getName q then \<not> fw_waiting F' \<and> fw_exec DelayTimer F' = Inr F' else F' = F)"
proof -
  have busy: "fw_busy nl nu F" using assms(1,2) by (auto simp: fw_inv_def fw_idle_def)
  then obtain q where "sd_packet F = Some q" by (cases "sd_packet F") (auto simp: fw_busy_def delayed_ok_def)
  then show ?thesis using assms(2,3) by (simp add: whileWaiting_def Let_def)
qed

theorem fw_deaf_while_waiting_witness:
  "\<exists>F F'. fw_handleMessage 0 0 (NdnMsg (Interest (sample_interest ''/a'')))
       (sample_fw (pit_initialize 9 4000) (fib_initialize 9 1000) (cs_initialize 9)) = Inr F
     \<and> fw_handleMessage 3 0 (NdnMsg (Data (sample_data ''/b''))) F = Inr F' \<and> F' = F \<and> fw_waiting F"
proof -
  let ?F = "sample_fw (pit_initialize 9 4000) (fib_initialize 9 1000) (cs_initialize 9)"
  have inv: "fw_inv 2 2 ?F" by (rule sample_inv [OF empty_tables(1,2,3)])
  have "message_ok 2 2 (NdnMsg (Interest (sample_interest ''/a'')))" by (simp add: sample_packets)
  from handleMessage_inv [OF inv this] obtain F
    where F: "fw_handleMessage 0 0 (NdnMsg (Interest (sample_interest ''/a''))) ?F = Inr F" "fw_inv 2 2 F"
    by (fastforce simp: returns_def simp del: fw_handleMessage.simps)
  have idle: "fw_idle 2 2 ?F" using inv by (simp add: fw_inv_def fw_busy_def)
  have eq: "fw_handleMessage 0 0 (NdnMsg (Interest (sample_interest ''/a''))) ?F
      = processLLInterest 0 0 ((sample_interest ''/a'')\<lparr>pk_controlInfo := None\<rparr>) (ctrl_src sample_ctrl) ?F"
    by (rule handle_idle_interest [OF idle sample_packets(1)]) simp_all
  have pk: "sd_packet F = Some (Interest ((sample_interest ''/a'')\<lparr>pk_controlInfo := None,
      pk_hopCount := pk_hopCount (sample_interest ''/a'') + 1\<rparr>)) \<and> fw_waiting F"
    using F(1) unfolding eq processLLInterest_eq
    by (auto simp: bind_result_Inr_iff fw_scheduleAt_def pit.lookup_iff empty_tables split: option.splits if_splits)
  have "getKind (Data (sample_data ''/b'')) \<noteq> REGISTER_PREFIX_CODE" by simp
  from fw_deaf_while_waiting [OF F(2) conjunct2 [OF pk] this, of 3 0] F(1) pk
  show ?thesis by (fastforce simp del: fw_handleMessage.simps)
qed

text \<open>
  Data for a local application.  Data from the link layer whose name a local application
  asked for is delivered to that application at once, exactly one time, with its hop count
  increased; its name is then no longer pending, and it has been offered to the content store.
\<close>

theorem fw_data_to_application:
  assumes "fw_inv nl nu F" "\<not> fw_waiting F" "packet_ok nl nu (Data d)"
    and "isName (pk_arrivalGate d) ''lowerLayerIn''" "pk_kind d \<noteq> REGISTER_PREFIX_CODE" "pk_controlInfo d = Some c"
    and e: "fst (pit_lookup (pk_name d) (fw_pit F)) = Some e" "isName (pe_face e) ''upperLayerIn''"
  defines "d' \<equiv> d\<lparr>pk_controlInfo := None, pk_hopCount := pk_hopCount d + 1\<rparr>"
  shows "\<exists>F'. fw_handleMessage now u (NdnMsg (Data d)) F = Inr F'
    \<and> fw_sent F' = fw_sent F @ [SendUpper (Data d') (gate_index (pe_face e))]
    \<and> pk_name d \<notin> set (pit_pending (fw_pit F')) \<and> fw_cs F' = snd (cs_add now d' (fw_cs F)) \<and> \<not> fw_waiting F'"
proof -
  have idle: "fw_idle nl nu F" using assms(1,2) by (rule inv_not_waiting)
  from ll_data_local [OF idle assms(3-6) e, of now u] show ?thesis by (auto simp: d'_def)
qed

theorem fw_data_to_application_witness:
  "\<exists>F'. fw_handleMessage 5 0 (NdnMsg (Data (sample_data ''/a'')))
       (sample_fw (snd (pit_create 0 ((sample_interest ''/a'')\<lparr>pk_arrivalGate := upper0\<rparr>) (MACAddress 7) (pit_initialize 9 4000)))
         (fib_initialize 9 1000) (cs_initialize 9)) = Inr F' \<and> length (fw_sent F') = 1"
proof -
  let ?i = "(sample_interest ''/a'')\<lparr>pk_arrivalGate := upper0\<rparr>"
  let ?P = "snd (pit_create 0 ?i (MACAddress 7) (pit_initialize 9 4000))"
  have "gate_ok 2 2 upper0" by (simp add: gate_ok_def upper0_def isName_def)
  then have P: "pit_ok 2 2 ?P" by (intro pit_ok_create) (simp_all add: empty_tables mac_wf_small)
  have entries: "pit_entries ?P = [new_PitEntry 0 (dup_interest ?i) upper0 (MACAddress 7)]"
    by (simp add: pit_create_def empty_tables)
  then have e: "fst (pit_lookup (pk_name (sample_data ''/a'')) ?P) = Some (new_PitEntry 0 (dup_interest ?i) upper0 (MACAddress 7))"
    by (simp add: pit_lookup_def pe_live_def new_PitEntry_def)
  have face: "isName (pe_face (new_PitEntry 0 (dup_interest ?i) upper0 (MACAddress 7))) ''upperLayerIn''"
    by (simp add: new_PitEntry_def)
  have inv: "fw_inv 2 2 (sample_fw ?P (fib_initialize 9 1000) (cs_initialize 9))"
    by (rule sample_inv [OF P empty_tables(2,3)])
  have "\<exists>F'. fw_handleMessage 5 0 (NdnMsg (Data (sample_data ''/a''))) (sample_fw ?P (fib_initialize 9 1000) (cs_initialize 9)) = Inr F'
    \<and> fw_sent F' = fw_sent (sample_fw ?P (fib_initialize 9 1000) (cs_initialize 9)) @
       [SendUpper (Data ((sample_data ''/a'')\<lparr>pk_controlInfo := None, pk_hopCount := pk_hopCount (sample_data ''/a'') + 1\<rparr>))
         (gate_index (pe_face (new_PitEntry 0 (dup_interest ?i) upper0 (MACAddress 7))))]"
    using fw_data_to_application [OF inv _ sample_packets(2), of "''/a''" sample_ctrl, simplified, OF e [simplified] face] by fastforce
  then show ?thesis by fastforce
qed

text \<open>
  C4: Data for another node.  Data from the link layer whose name was requested by another node
  is held back for at most 7 milliseconds; when its timer fires undisturbed, exactly one copy goes
  out, on the face the Interest came from, and towards the MAC address it came from, or as a
  broadcast when \<^verbatim>\<open>ndnMacMapping\<close> says so for Data (as its default does).  The name stops being
  pending and the packet is offered to the content store already when the Data arrives.
\<close>

theorem fw_data_to_requester:
  assumes "fw_inv nl nu F" "\<not> fw_waiting F" "packet_ok nl nu (Data d)"
    and "isName (pk_arrivalGate d) ''lowerLayerIn''" "pk_kind d \<noteq> REGISTER_PREFIX_CODE" "pk_controlInfo d = Some c"
    and e: "fst (pit_lookup (pk_name d) (fw_pit F)) = Some e" "isName (pe_face e) ''lowerLayerIn''" "fw_forwarding F"
    and u: "0 \<le> u" "u < DW - 1"
  defines "d' \<equiv> d\<lparr>pk_controlInfo := None, pk_hopCount := pk_hopCount d + 1\<rparr>"
  shows "\<exists>F1 t F2. fw_handleMessage now u (NdnMsg (Data d)) F = Inr F1
    \<and> fw_sent F1 = fw_sent F \<and> pk_name d \<notin> set (pit_pending (fw_pit F1))
    \<and> fw_cs F1 = snd (cs_add now d' (fw_cs F))
    \<and> fw_timer F1 = Some t \<and> now \<le> t \<and> t \<le> now + SimTime_ms 7
    \<and> fw_exec DelayTimer F1 = Inr F2
    \<and> fw_sent F2 = fw_sent F @ [SendLower (with_ctrl_d F (pe_macSrc e) d') (gate_index (pe_face e))]
    \<and> \<not> fw_waiting F2 \<and> fw_timer F2 = None"
proof -
  have idle: "fw_idle nl nu F" using assms(1,2) by (rule inv_not_waiting)
  let ?t = "now + SimTime_ms (c_int_of_double (computeDataRandomDelay u))"
  have t: "now \<le> ?t" "?t \<le> now + SimTime_ms 7" using data_delay_ms [OF u] by simp_all
  from ll_data_remote [OF idle assms(3-6) e u(1), of now] obtain F1 F2 where
    "fw_handleMessage now u (NdnMsg (Data d)) F = Inr F1" "fw_timer F1 = Some ?t" "fw_sent F1 = fw_sent F"
    "pk_name d \<notin> set (pit_pending (fw_pit F1))" "fw_cs F1 = snd (cs_add now d' (fw_cs F))" "fw_exec DelayTimer F1 = Inr F2"
    "\<not> fw_waiting F2" "fw_timer F2 = None"
    "fw_sent F2 = fw_sent F @ [SendLower (with_ctrl_d F (pe_macSrc e) d') (gate_index (pe_face e))]"
    unfolding d'_def by blast
  with t show ?thesis by (intro exI [of _ F1] exI [of _ ?t] exI [of _ F2]) simp
qed

theorem fw_data_to_requester_witness:
  "\<exists>F1 F2. fw_handleMessage 5 0 (NdnMsg (Data (sample_data ''/a'')))
       (sample_fw (snd (pit_create 0 (sample_interest ''/a'') (MACAddress 9) (pit_initialize 9 4000)))
         (fib_initialize 9 1000) (cs_initialize 9)) = Inr F1
     \<and> fw_exec DelayTimer F1 = Inr F2 \<and> length (fw_sent F2) = 1"
proof -
  let ?P = "snd (pit_create 0 (sample_interest ''/a'') (MACAddress 9) (pit_initialize 9 4000))"
  let ?e = "new_PitEntry 0 (dup_interest (sample_interest ''/a'')) lower0 (MACAddress 9)"
  let ?F = "sample_fw ?P (fib_initialize 9 1000) (cs_initialize 9)"
  have "gate_ok 2 2 lower0" by (simp add: gate_ok_def lower0_def isName_def)
  then have P: "pit_ok 2 2 ?P" by (intro pit_ok_create) (simp_all add: empty_tables mac_wf_small)
  have "pit_entries ?P = [?e]" by (simp add: pit_create_def empty_tables)
  then have e: "fst (pit_lookup (pk_name (sample_data ''/a'')) (fw_pit ?F)) = Some ?e"
    by (simp add: pit_lookup_def pe_live_def new_PitEntry_def)
  have face: "isName (pe_face ?e) ''lowerLayerIn''" by (simp add: new_PitEntry_def)
  have inv: "fw_inv 2 2 ?F" by (rule sample_inv [OF P empty_tables(2,3)])
  have ok: "packet_ok 2 2 (Data (sample_data ''/a''))" by (simp add: sample_packets)
  obtain F1 F2 where "fw_handleMessage 5 0 (NdnMsg (Data (sample_data ''/a''))) ?F = Inr F1"
    "fw_exec DelayTimer F1 = Inr F2" "length (fw_sent F2) = 1"
    using fw_data_to_requester [OF inv _ ok _ _ _ e face, where c = sample_ctrl and u = 0 and now = 5]
    by (auto simp: DW_def simp del: fw_handleMessage.simps fw_exec.simps)
  then show ?thesis by blast
qed

text \<open>
  Data nobody asked for is never forwarded: nothing is sent, nothing is learned from it and no
  Interest is satisfied by it; it is cached only if the node caches unsolicited Data.
\<close>

theorem fw_unsolicited_data:
  assumes "fw_inv nl nu F" "\<not> fw_waiting F" "packet_ok nl nu (Data d)"
    and "isName (pk_arrivalGate d) ''lowerLayerIn''" "pk_kind d \<noteq> REGISTER_PREFIX_CODE" "pk_controlInfo d = Some c"
    and "pk_name d \<notin> set (pit_pending (fw_pit F))"
  shows "\<exists>F'. fw_handleMessage now u (NdnMsg (Data d)) F = Inr F' \<and> fw_sent F' = fw_sent F
    \<and> pit_entries (fw_pit F') = pit_entries (fw_pit F) \<and> fw_fib F' = fw_fib F \<and> fw_timer F' = None
    \<and> fw_cs F' = (if fw_cacheUnsolicited F then snd (cs_add now (d\<lparr>pk_controlInfo := None\<rparr>) (fw_cs F)) else fw_cs F)"
proof -
  have idle: "fw_idle nl nu F" using assms(1,2) by (auto simp: fw_inv_def fw_busy_def)
  have "fst (pit_lookup (pk_name d) (fw_pit F)) = None" using assms(7) by (simp add: pit.lookup_iff)
  moreover have "pit_entries (snd (pit_lookup n P)) = pit_entries P" for n P
    by (simp add: pit_lookup_def Let_def split: option.split)
  ultimately show ?thesis
    unfolding handle_idle_data [OF idle assms(3-6)]
    using idle by (auto simp: processLLData_def case_prod_beta Let_def fw_cs_add_def fw_idle_def)
qed

theorem fw_unsolicited_data_witness:
  "\<exists>F'. fw_handleMessage 5 0 (NdnMsg (Data (sample_data ''/a'')))
       (sample_fw (pit_initialize 9 4000) (fib_initialize 9 1000) (cs_initialize 9)) = Inr F' \<and> fw_sent F' = []"
proof -
  have "packet_ok 2 2 (Data (sample_data ''/a''))" by (simp add: sample_packets)
  from fw_unsolicited_data [OF sample_inv [OF empty_tables(1,2,3)] _ this, where c = sample_ctrl]
  show ?thesis by (fastforce simp: empty_tables simp del: fw_handleMessage.simps)
qed

text \<open>
  C35: timeouts reach the applications.  When the timer of the PIT fires, every Interest of a local
  application that has expired is handed back to it, once and marked with the timeout code, oldest
  first; expired Interests of other nodes are dropped silently, and the live ones stay.
\<close>

theorem fw_timeouts_reach_applications:
  assumes "fw_inv nl nu F" "pit_checkTimeout (fw_pit F) = Some now"
  shows "\<exists>F'. fw_exec PitTimer F = Inr F' \<and>
    fw_sent F' = fw_sent F @
      map (\<lambda>e. SendUpper (Interest ((dup_interest (pe_interest e))\<lparr>pk_kind := TIMEOUT_CODE\<rparr>)) (gate_index (pe_face e)))
        (filter (\<lambda>e. pe_expireAt e \<le> now \<and> isName (pe_face e) ''upperLayerIn'') (pit_entries (fw_pit F)))
    \<and> pit_entries (fw_pit F') = filter (\<lambda>e. now < pe_expireAt e) (pit_entries (fw_pit F))"
proof -
  have base: "fw_base nl nu F" by (rule inv_base [OF assms(1)])
  then have clean: "list_all (\<lambda>e. \<not> pe_erased e) (pit_entries (fw_pit F))"
    and gates: "list_all (\<lambda>e. gate_ok nl nu (pe_face e)) (pit_entries (fw_pit F))" and nu: "fw_upperGates F = nu"
    by (auto simp: fw_base_def pit_ok_def pit_inv_def list_all_iff)
  obtain ns P where P: "pit_handleMessage now True (fw_pit F) = (ns, P)" by fastforce
  then have ns: "ns = map pe_notification (filter (\<lambda>e. pe_expireAt e \<le> now) (pit_entries (fw_pit F)))"
    and entries: "pit_entries P = filter (\<lambda>e. now < pe_expireAt e) (pit_entries (fw_pit F))"
    using clean by (auto simp: pit_handleMessage_def pit_cleanTimedout_eq simp del: filter_empty_conv split: if_splits)
  have run: "run_result receiveTimeout (map pe_notification es) G = Inr (G\<lparr>fw_sent := fw_sent G @
      map (\<lambda>e. SendUpper (Interest ((dup_interest (pe_interest e))\<lparr>pk_kind := TIMEOUT_CODE\<rparr>)) (gate_index (pe_face e)))
        (filter (\<lambda>e. isName (pe_face e) ''upperLayerIn'') es)\<rparr>)"
    if "list_all (\<lambda>e. gate_ok nl nu (pe_face e)) es" "fw_upperGates G = nu" for es G
    using that
  proof (induction es arbitrary: G)
    case (Cons e es)
    then show ?case
      by (auto simp: receiveTimeout_def send_upper_def pe_notification_def dest: gate_okD(2))
  qed simp
  have "list_all (\<lambda>e. gate_ok nl nu (pe_face e)) (filter (\<lambda>e. pe_expireAt e \<le> now) (pit_entries (fw_pit F)))"
    using gates by (simp add: list_all_iff)
  from run [OF this, of "F\<lparr>fw_pit := P\<rparr>"] nu show ?thesis
    by (simp add: assms(2) fw_pitTimer_def P ns entries conj_commute)
qed

theorem fw_timeouts_reach_applications_witness:
  "\<exists>F'. fw_exec PitTimer (sample_fw
       (snd (pit_create 0 ((sample_interest ''/a'')\<lparr>pk_arrivalGate := upper0, interestLifetimeMs := 500\<rparr>)
         (MACAddress 7) (pit_initialize 9 4000))) (fib_initialize 9 1000) (cs_initialize 9)) = Inr F' \<and> length (fw_sent F') = 1"
proof -
  let ?i = "(sample_interest ''/a'')\<lparr>pk_arrivalGate := upper0, interestLifetimeMs := 500\<rparr>"
  let ?P = "snd (pit_create 0 ?i (MACAddress 7) (pit_initialize 9 4000))"
  have "gate_ok 2 2 upper0" by (simp add: gate_ok_def upper0_def isName_def)
  then have P: "pit_ok 2 2 ?P" by (intro pit_ok_create) (simp_all add: empty_tables mac_wf_small)
  have "pit_entries ?P = [new_PitEntry 0 (dup_interest ?i) upper0 (MACAddress 7)]"
    and t: "pit_checkTimeout (fw_pit (sample_fw ?P (fib_initialize 9 1000) (cs_initialize 9))) = Some (SimTime_ms 1000)"
    by (simp_all add: pit_create_def empty_tables) (simp add: pit_initialize_def)
  with fw_timeouts_reach_applications [OF sample_inv [OF P empty_tables(2,3)] t] show ?thesis
    by (fastforce simp: new_PitEntry_def SimTime_ms_def simp del: fw_exec.simps)
qed

text \<open>
  A full PIT loses Interests without a trace: an Interest that would follow a FIB entry is
  neither sent nor recorded when the table is full, yet it is counted as forwarded.
\<close>

theorem fw_full_pit_counts_lost_interest:
  assumes "fw_inv nl nu F" "\<not> fw_waiting F" "packet_ok nl nu (Interest i)"
    and "isName (pk_arrivalGate i) ''lowerLayerIn''" "pk_kind i \<noteq> REGISTER_PREFIX_CODE" "pk_controlInfo i = Some c"
    and "fst (cs_lookup (i\<lparr>pk_controlInfo := None\<rparr>) (fw_cs F)) = None" "pk_name i \<notin> set (pit_pending (fw_pit F))"
    and e: "fst (fib_lookup (pk_name i) (fw_fib F)) = Some e" "isName (fe_face e) ''lowerLayerIn''" "fw_forwarding F"
    and full: "length (pit_entries (fw_pit F)) = pit_maxSize (fw_pit F)"
  shows "\<exists>F'. fw_handleMessage now u (NdnMsg (Interest i)) F = Inr F' \<and> fw_sent F' = fw_sent F
    \<and> pit_entries (fw_pit F') = pit_entries (fw_pit F) \<and> fw_numIntFwd F' = fw_numIntFwd F + 1"
proof -
  have idle: "fw_idle nl nu F" using assms(1,2) by (auto simp: fw_inv_def fw_busy_def)
  have "fst (pit_lookup (pk_name i) (fw_pit F)) = None" using assms(8) by (simp add: pit.lookup_iff)
  then show ?thesis unfolding handle_idle_interest [OF idle assms(3-6)] processLLInterest_eq
    using assms(7) e full by (simp add: forwardInterestToRemote_def pit_create_def)
qed

theorem fw_full_pit_counts_lost_interest_witness:
  "\<exists>F'. fw_handleMessage 5 0 (NdnMsg (Interest (sample_interest ''/a'')))
       (sample_fw (pit_initialize 0 4000)
         (snd (fib_registerPrefix 0 ''/'' lower0 (MACAddress 9) (fib_initialize 9 1000))) (cs_initialize 9)) = Inr F'
     \<and> fw_sent F' = []"
proof -
  let ?B = "snd (fib_registerPrefix 0 ''/'' lower0 (MACAddress 9) (fib_initialize 9 1000))"
  let ?e = "new_FibEntry 0 ''/'' lower0 (MACAddress 9) 100000"
  have g: "gate_ok 2 2 lower0" by (simp add: gate_ok_def lower0_def isName_def)
  have B: "fib_ok 2 2 ?B" by (rule fib_ok_registerPrefix [OF empty_tables(2) g])
  have P: "pit_ok 2 2 (pit_initialize 0 4000)"
    by (simp add: pit_ok_def pit_inv_initialize) (simp add: pit_initialize_def pit_pending_def)
  have "fst (fib_lookup ''/a'' ?B) = Some ?e"
    by (simp add: fib_registerPrefix_def fib_initialize_def fib_lookup_def fib_match_def fe_matches_def new_FibEntry_def)
  then show ?thesis
    using fw_full_pit_counts_lost_interest [OF sample_inv [OF P B empty_tables(3)] _ sample_packets(1) [of "''/a''"],
      where c = sample_ctrl and e = ?e]
    by (fastforce simp: empty_tables new_FibEntry_def pit_initialize_def pit_pending_def simp del: fw_handleMessage.simps)
qed

end
