(* ===== verification/CText.thy ===== *)
theory CText
  imports MacAddresses
begin

text \<open>
  The routines of the C library that the code uses to read and write text: decimal conversion,
  \<^verbatim>\<open>atoi\<close>, \<^verbatim>\<open>strtok\<close> and \<^verbatim>\<open>fgets\<close>.  A string holds no NUL character; a file is its text.
\<close>

section \<open>Decimal numbers\<close>

fun decimal_nat :: "nat \<Rightarrow> string" where
  "decimal_nat n = (if n < 10 then [char_of (48 + n)] else decimal_nat (n div 10) @ [char_of (48 + n mod 10)])"

declare decimal_nat.simps [simp del]

text \<open>\<^verbatim>\<open>std::to_string\<close> and the conversion \<^verbatim>\<open>%d\<close>.\<close>

definition decimal :: "int \<Rightarrow> string" where
  "decimal n = (if n < 0 then CHR ''-'' # decimal_nat (nat (- n)) else decimal_nat (nat n))"

text \<open>
  \<^verbatim>\<open>atoi\<close>: white space, an optional sign, digits up to the first other character.  A value outside the
  range of \<^verbatim>\<open>int\<close> is undefined behaviour.
\<close>

definition isspace :: "char \<Rightarrow> bool" where
  "isspace c \<longleftrightarrow> c = CHR '' '' \<or> (9 \<le> (of_char c :: nat) \<and> (of_char c :: nat) \<le> 13)"

fun digits_value :: "string \<Rightarrow> nat \<Rightarrow> nat" where
  "digits_value [] n = n"
| "digits_value (c # s) n = (if isdigit c then digits_value s (10 * n + (of_char c - 48)) else n)"

definition strtol10 :: "string \<Rightarrow> int" where
  "strtol10 s =
     (case dropWhile isspace s of
        [] \<Rightarrow> 0
      | c # r \<Rightarrow>
          if c = CHR ''-'' then - int (digits_value r 0)
          else if c = CHR ''+'' then int (digits_value r 0)
          else int (digits_value (c # r) 0))"

definition atoi :: "string \<Rightarrow> sim_error + int" where
  "atoi s = (if - (2 ^ 31) \<le> strtol10 s \<and> strtol10 s < 2 ^ 31 then Inr (strtol10 s)
             else Inl (UndefinedBehaviour ''atoi''))"

section \<open>Lines and tokens\<close>

text \<open>\<^verbatim>\<open>fgets\<close> with room for \<open>n\<close> characters: the characters read and the rest of the file.\<close>

fun fgets :: "nat \<Rightarrow> string \<Rightarrow> string \<times> string" where
  "fgets 0 s = ([], s)"
| "fgets (Suc n) [] = ([], [])"
| "fgets (Suc n) (c # s) =
     (if c = CHR 0x0A then ([c], s) else (let (l, rest) = fgets n s in (c # l, rest)))"

lemma length_fgets: "length (snd (fgets n s)) \<le> length s"
  by (induction n s rule: fgets.induct) (auto simp: Let_def split: prod.split)

lemma fgets_shorter: "0 < n \<Longrightarrow> s \<noteq> [] \<Longrightarrow> length (snd (fgets n s)) < length s"
proof (cases n; cases s)
  fix m c r
  assume "n = Suc m" "s = c # r"
  with length_fgets [of m r] show "length (snd (fgets n s)) < length s"
    by (auto simp: Let_def less_Suc_eq_le split: prod.split)
qed auto

text \<open>\<^verbatim>\<open>strtok\<close> with the delimiters space and tab: the token, and where the next call goes on.\<close>

definition is_delim :: "char \<Rightarrow> bool" where
  "is_delim c \<longleftrightarrow> c = CHR '' '' \<or> c = CHR 0x09"

definition strtok :: "string \<Rightarrow> string option \<times> string" where
  "strtok s =
     (let s = dropWhile is_delim s in
      if s = [] then (None, [])
      else (Some (takeWhile (\<lambda>c. \<not> is_delim c) s), drop 1 (dropWhile (\<lambda>c. \<not> is_delim c) s)))"

section \<open>Their laws\<close>

lemma isdigit_decimal_digit: "n < 10 \<Longrightarrow> isdigit (char_of (48 + n :: nat))"
  by (simp add: isdigit_def)

lemma decimal_nat_digits: "\<forall>c \<in> set (decimal_nat n). isdigit c"
proof (induction n rule: decimal_nat.induct)
  case (1 n)
  then show ?case by (subst decimal_nat.simps) (auto simp: isdigit_decimal_digit)
qed

lemma decimal_nat_not_Nil [simp]: "decimal_nat n \<noteq> []"
  by (subst decimal_nat.simps) simp

lemma digits_value_append:
  "\<forall>c \<in> set s. isdigit c \<Longrightarrow> digits_value (s @ t) n = digits_value t (digits_value s n)"
  by (induction s arbitrary: n) auto

lemma digits_value_decimal_nat: "digits_value (decimal_nat n) 0 = n"
proof (induction n rule: decimal_nat.induct)
  case (1 n)
  show ?case
  proof (cases "n < 10")
    case True
    then show ?thesis by (subst decimal_nat.simps) (simp add: isdigit_decimal_digit)
  next
    case False
    then have "decimal_nat n = decimal_nat (n div 10) @ [char_of (48 + n mod 10)]"
      by (subst decimal_nat.simps) simp
    moreover have "digits_value (decimal_nat (n div 10)) 0 = n div 10" using 1 False by blast
    moreover have "isdigit (char_of (48 + n mod 10))" by (simp add: isdigit_decimal_digit)
    ultimately show ?thesis by (simp add: digits_value_append decimal_nat_digits)
  qed
qed

lemma isdigit_facts: "isdigit c \<Longrightarrow> \<not> isspace c \<and> c \<noteq> CHR ''-'' \<and> c \<noteq> CHR ''+'' \<and> \<not> is_delim c \<and> c \<noteq> CHR 0x0A
    \<and> c \<noteq> CHR 0x0D \<and> c \<noteq> CHR ''#''"
  by (auto simp: isdigit_def isspace_def is_delim_def)

lemma strtol10_decimal: "strtol10 (decimal n) = n"
proof (cases "n < 0")
  case True
  then show ?thesis by (simp add: decimal_def strtol10_def digits_value_decimal_nat isspace_def)
next
  case False
  obtain c r where d: "decimal_nat (nat n) = c # r" by (cases "decimal_nat (nat n)") simp_all
  then have "isdigit c" using decimal_nat_digits [of "nat n"] by simp
  moreover have "digits_value (c # r) 0 = nat n" using digits_value_decimal_nat [of "nat n"] d by simp
  ultimately show ?thesis using False d isdigit_facts [of c] by (simp add: decimal_def strtol10_def)
qed

lemma atoi_decimal: "- (2 ^ 31) \<le> n \<Longrightarrow> n < 2 ^ 31 \<Longrightarrow> atoi (decimal n) = Inr n"
  by (simp add: atoi_def strtol10_decimal)

lemma length_decimal_nat: "n < 10 ^ k \<Longrightarrow> 0 < k \<Longrightarrow> length (decimal_nat n) \<le> k"
proof (induction n arbitrary: k rule: decimal_nat.induct)
  case (1 n)
  show ?case
  proof (cases "n < 10")
    case True
    then show ?thesis using 1(3) by (subst decimal_nat.simps) simp
  next
    case False
    then obtain j where j: "k = Suc j" "0 < j" using 1(2,3) by (cases k; cases "k - 1") auto
    then have "n div 10 < 10 ^ j" using 1(2) by auto
    with 1(1) [OF False this j(2)] j False show ?thesis by (subst decimal_nat.simps) simp
  qed
qed

lemma length_decimal: "- (2 ^ 31) \<le> n \<Longrightarrow> n < 2 ^ 31 \<Longrightarrow> length (decimal n) \<le> 11"
  using length_decimal_nat [of "nat n" 10] length_decimal_nat [of "nat (- n)" 10]
  by (cases "n < 0") (simp_all add: decimal_def nat_less_iff)

text \<open>A token is text without a delimiter; it is read back from the front of a line.\<close>

definition is_token :: "string \<Rightarrow> bool" where
  "is_token w \<longleftrightarrow> w \<noteq> [] \<and> (\<forall>c \<in> set w. \<not> is_delim c \<and> c \<noteq> CHR 0x0A \<and> c \<noteq> CHR 0x0D)"

lemma is_token_decimal: "is_token (decimal n)"
  using isdigit_facts decimal_nat_digits by (auto simp: is_token_def decimal_def is_delim_def)

lemma strtok_token:
  assumes "is_token w"
  shows "is_delim d \<Longrightarrow> strtok (w @ d # s) = (Some w, s)" and "strtok w = (Some w, [])"
proof -
  from assms have w: "dropWhile is_delim (w @ t) = w @ t" "takeWhile (\<lambda>c. \<not> is_delim c) w = w"
    "dropWhile (\<lambda>c. \<not> is_delim c) w = []" for t
    by (cases w; auto simp: is_token_def)+
  have w': "takeWhile (\<lambda>c. \<not> is_delim c) (w @ d # s) = w" "dropWhile (\<lambda>c. \<not> is_delim c) (w @ d # s) = d # s"
    if "is_delim d" for d s
    using assms that by (simp_all add: is_token_def takeWhile_append2 dropWhile_append2)
  show "is_delim d \<Longrightarrow> strtok (w @ d # s) = (Some w, s)"
    using assms w' by (simp add: strtok_def w)
  show "strtok w = (Some w, [])"
    using assms w(1) [of "[]"] by (simp add: strtok_def w(2,3)) (simp add: is_token_def)
qed

lemma fgets_line:
  "\<forall>c \<in> set l. c \<noteq> CHR 0x0A \<Longrightarrow> length l < n \<Longrightarrow> fgets n (l @ CHR 0x0A # s) = (l @ [CHR 0x0A], s)"
proof (induction l arbitrary: n)
  case Nil
  then show ?case by (cases n) simp_all
next
  case (Cons c l)
  then show ?case by (cases n) simp_all
qed

end
