(* ===== verification/NdnApplications.thy ===== *)
theory NdnApplications
  imports TlvTools CText
begin

text \<open>
  The two NDN applications, \<^verbatim>\<open>inet/applications/ndnApps/ConsumerAppBase.{h,cc}\<close> and
  \<^verbatim>\<open>ProducerAppBase.{h,cc}\<close>.  A consumer expresses Interests for names below its prefix, keeps the
  send times of the last 100 of them, retransmits after a timeout and measures round trip times;
  a producer registers its prefix and answers Interests with Data.  Random numbers and the value
  of the parameter \<^verbatim>\<open>sendInterval\<close> are arguments; \<open>tok\<close> is the tokenizer of the packet size
  computation.  What an application sends is collected with the time it leaves the application.
\<close>

section \<open>The consumer\<close>

definition HISTORY_SIZE :: int where "HISTORY_SIZE = 100"
definition APP_TIMEOUT_CODE :: int where "APP_TIMEOUT_CODE = 100"

text \<open>
  The history arrays are lists of 100 elements; the elements of \<open>co_numRetxHistory\<close> hold no value
  until they are written.  The statistics are the lists of collected values, newest last.
\<close>

record consumer =
  co_up :: bool
  co_cPrefix :: string
  co_numInterests :: int
  co_interestReTx :: int
  co_interestLifetime :: int
  co_startTime :: simtime
  co_stopTime :: simtime
  co_timer :: "simtime option"
  co_firstSendTimeHistory :: "simtime list"
  co_lastSendTimeHistory :: "simtime list"
  co_numRetxHistory :: "16 word option list"
  co_allRttStat :: "int list"
  co_lastRttStat :: "int list"
  co_retxStat :: "int list"
  co_hopCountStat :: "int list"
  co_numIntSent :: int
  co_numDataReceived :: int
  co_numUnsatisfied :: int
  co_intSeqNo :: int
  co_expressed :: "(simtime \<times> interest) list"
  co_resent :: "(simtime \<times> interest) list"

datatype app_message = ExpressTimer | AppPacket packet | AppForeignPacket | AppPlainMessage

text \<open>The random numbers of one new Interest.\<close>

record interest_draw =
  draw_l1 :: nat
  draw_l2 :: nat
  draw_nonce :: "8 word list"

text \<open>The C remainder of a negative number is negative, so such a sequence number is no index.\<close>

definition history_index :: "int \<Rightarrow> sim_error + nat" where
  "history_index seqNo =
     (if seqNo < 0 \<and> seqNo mod HISTORY_SIZE \<noteq> 0 then Inl (UndefinedBehaviour ''negative array index'')
      else Inr (nat (seqNo mod HISTORY_SIZE)))"

definition scheduleNextInterest :: "simtime \<Rightarrow> simtime option \<Rightarrow> simtime \<Rightarrow> consumer \<Rightarrow> sim_error + consumer" where
  "scheduleNextInterest now previous sendInterval A =
     (let next = (case previous of
                    None \<Rightarrow> (if now \<le> co_startTime A then co_startTime A else now)
                  | Some p \<Rightarrow> p + sendInterval)
      in if co_stopTime A < 0 \<or> next < co_stopTime A then
           (if next < now then Inl (RuntimeError ''scheduleAt: time in the past'')
            else if co_timer A \<noteq> None then Inl (RuntimeError ''scheduleAt: message is currently scheduled'')
            else Inr (A\<lparr>co_timer := Some next\<rparr>))
         else Inr A)"

definition startApp :: "simtime \<Rightarrow> consumer \<Rightarrow> sim_error + consumer" where
  "startApp now A =
     (if co_numInterests A = -1 \<or> co_intSeqNo A < co_numInterests A
      then scheduleNextInterest now None 0 A else Inr A)"

definition consumer_initialize ::
  "simtime \<Rightarrow> bool \<Rightarrow> string \<Rightarrow> int \<Rightarrow> int \<Rightarrow> int \<Rightarrow> simtime \<Rightarrow> simtime \<Rightarrow> sim_error + consumer" where
  "consumer_initialize now up pfx numInterests interestReTx interestLifetime startTime stopTime =
     (let A = \<lparr>co_up = up, co_cPrefix = pfx, co_numInterests = numInterests, co_interestReTx = interestReTx,
               co_interestLifetime = interestLifetime, co_startTime = startTime, co_stopTime = stopTime,
               co_timer = None, co_firstSendTimeHistory = replicate 100 0, co_lastSendTimeHistory = replicate 100 0,
               co_numRetxHistory = replicate 100 None, co_allRttStat = [], co_lastRttStat = [], co_retxStat = [],
               co_hopCountStat = [], co_numIntSent = 0, co_numDataReceived = 0, co_numUnsatisfied = 0,
               co_intSeqNo = 0, co_expressed = [], co_resent = []\<rparr>
      in if up then startApp now A else Inr A)"

definition createNextInterest ::
  "(string \<Rightarrow> string list) \<Rightarrow> simtime \<Rightarrow> interest_draw \<Rightarrow> consumer \<Rightarrow> sim_error + (interest \<times> consumer)" where
  "createNextInterest tok now r A =
     (let l1_comp = decimal (int (draw_l1 r) + 1);
          interestName = co_cPrefix A @ ''/'' @ l1_comp @ ''/'' @ decimal (int (draw_l2 r));
          i = (new_Interest interestName)
                \<lparr>pk_type := 5, pk_prefixLength := int (length (co_cPrefix A)) + int (length l1_comp) + 1,
                 pk_kind := 0, pk_hopCount := 0, pk_seqNo := co_intSeqNo A, pk_flood := (co_intSeqNo A = 0),
                 canBePrefix := False, mustBeFresh := True, interestLifetimeMs := of_int (co_interestLifetime A),
                 nonce := draw_nonce r\<rparr>
      in bind_result (computeTlvPacketSize tok (Interest i)) (\<lambda>size.
         bind_result (history_index (co_intSeqNo A)) (\<lambda>k.
           Inr (i\<lparr>pk_byteLength := size\<rparr>,
                A\<lparr>co_firstSendTimeHistory := (co_firstSendTimeHistory A)[k := now],
                  co_lastSendTimeHistory := (co_lastSendTimeHistory A)[k := now],
                  co_numRetxHistory := (co_numRetxHistory A)[k := Some 0]\<rparr>))))"

definition expressInterest :: "simtime \<Rightarrow> interest \<Rightarrow> consumer \<Rightarrow> consumer" where
  "expressInterest now i A =
     A\<lparr>co_expressed := co_expressed A @ [(now, i)], co_intSeqNo := co_intSeqNo A + 1,
       co_numIntSent := co_numIntSent A + 1\<rparr>"

definition onData :: "simtime \<Rightarrow> data_packet \<Rightarrow> consumer \<Rightarrow> sim_error + consumer" where
  "onData now d A =
     (let recent = \<not> (co_intSeqNo A - pk_seqNo d > HISTORY_SIZE) in
      bind_result (if recent then map_sum id Some (history_index (pk_seqNo d)) else Inr None) (\<lambda>slot.
      bind_result (case slot of None \<Rightarrow> Inr (0, 0, 0)
        | Some k \<Rightarrow> (case co_numRetxHistory A ! k of
              None \<Rightarrow> Inl (UndefinedBehaviour ''numRetxHistory read before it is written'')
            | Some n \<Rightarrow> Inr (now - co_firstSendTimeHistory A ! k, now - co_lastSendTimeHistory A ! k, sint n)))
        (\<lambda>(allRtt, lastRtt, numRetx).
          Inr (A\<lparr>co_allRttStat := co_allRttStat A @ [allRtt * 1000],
                 co_lastRttStat := co_lastRttStat A @ [lastRtt * 1000],
                 co_retxStat := co_retxStat A @ [numRetx],
                 co_hopCountStat := co_hopCountStat A @ [pk_hopCount d],
                 co_numDataReceived := co_numDataReceived A + 1\<rparr>))))"

text \<open>\<open>u\<close> is the value of \<^verbatim>\<open>uniform(1,2)\<close>; \<^verbatim>\<open>SimTime(u, SIMTIME_MS)\<close> takes an integer.\<close>

definition onTimeout :: "simtime \<Rightarrow> rat \<Rightarrow> interest \<Rightarrow> consumer \<Rightarrow> sim_error + consumer" where
  "onTimeout now u i A =
     bind_result (history_index (pk_seqNo i)) (\<lambda>k.
       case co_numRetxHistory A ! k of
         None \<Rightarrow> Inl (UndefinedBehaviour ''numRetxHistory read before it is written'')
       | Some n \<Rightarrow> Inr
          (if sint n < co_interestReTx A then
             A\<lparr>co_lastSendTimeHistory := (co_lastSendTimeHistory A)[k := now],
               co_numRetxHistory := (co_numRetxHistory A)[k := Some (n + 1)],
               co_resent := co_resent A @ [(now + SimTime_ms (c_int_of_double u),
                 i\<lparr>pk_hopCount := 0, pk_kind := 0, pk_flood := True\<rparr>)]\<rparr>
           else A\<lparr>co_numUnsatisfied := co_numUnsatisfied A + 1\<rparr>))"

fun consumer_handleMessage ::
  "(string \<Rightarrow> string list) \<Rightarrow> simtime \<Rightarrow> interest_draw \<Rightarrow> simtime \<Rightarrow> rat \<Rightarrow> app_message \<Rightarrow> consumer \<Rightarrow> sim_error + consumer" where
  "consumer_handleMessage tok now r sendInterval u m A =
     (if \<not> co_up A then Inl (RuntimeError ''Application is not running'')
      else case m of
        ExpressTimer \<Rightarrow>
          bind_result (createNextInterest tok now r (A\<lparr>co_timer := None\<rparr>)) (\<lambda>(i, A1).
            let A2 = expressInterest now i A1 in
            if co_numIntSent A2 < co_numInterests A2 then scheduleNextInterest now (Some now) sendInterval A2
            else Inr A2)
      | AppPacket p \<Rightarrow>
          if getKind p = APP_TIMEOUT_CODE then bind_result (cast_Interest p) (\<lambda>i. onTimeout now u i A)
          else if getType p = 6 then bind_result (cast_Data p) (\<lambda>d. onData now d A)
          else Inr A
      | AppForeignPacket \<Rightarrow> Inl (RuntimeError ''check_and_cast(): Cannot cast to NdnPacket'')
      | AppPlainMessage \<Rightarrow> Inr A)"

section \<open>The producer\<close>

definition REGISTER_PREFIX :: int where "REGISTER_PREFIX = 15"

record producer =
  pr_up :: bool
  pr_pPrefix :: string
  pr_dataFreshness :: int
  pr_startTime :: simtime
  pr_stopTime :: simtime
  pr_numIntReceived :: int
  pr_numDataSent :: int
  pr_sent :: "(simtime \<times> packet) list"

definition producer_registerPrefix :: "simtime \<Rightarrow> producer \<Rightarrow> producer" where
  "producer_registerPrefix now R =
     R\<lparr>pr_sent := pr_sent R @ [(now, Interest ((new_Interest (pr_pPrefix R))\<lparr>pk_kind := REGISTER_PREFIX\<rparr>))]\<rparr>"

definition producer_initialize :: "simtime \<Rightarrow> bool \<Rightarrow> string \<Rightarrow> int \<Rightarrow> simtime \<Rightarrow> simtime \<Rightarrow> producer" where
  "producer_initialize now up pfx dataFreshness startTime stopTime =
     (let R = \<lparr>pr_up = up, pr_pPrefix = pfx, pr_dataFreshness = dataFreshness, pr_startTime = startTime,
               pr_stopTime = stopTime, pr_numIntReceived = 0, pr_numDataSent = 0, pr_sent = []\<rparr>
      in if strncmp_eq pfx ''/'' 1 then producer_registerPrefix now R else R)"

definition processInterest :: "(string \<Rightarrow> string list) \<Rightarrow> simtime \<Rightarrow> packet \<Rightarrow> producer \<Rightarrow> sim_error + producer" where
  "processInterest tok now p R =
     (if getType p = 5 then
        bind_result (cast_Interest p) (\<lambda>i.
          let R1 = R\<lparr>pr_numIntReceived := pr_numIntReceived R + 1\<rparr> in
          if now \<ge> pr_startTime R1 \<and> (pr_stopTime R1 < 0 \<or> now < pr_stopTime R1) then
            let d = (new_Data (pk_name i))
                      \<lparr>pk_seqNo := pk_seqNo i, pk_prefixLength := int (length (pr_pPrefix R1)), pk_type := 6,
                       pk_hopCount := 0, freshnessPeriod := of_int (pr_dataFreshness R1)\<rparr>
            in bind_result (computeTlvPacketSize tok (Data d)) (\<lambda>size.
                 Inr (R1\<lparr>pr_sent := pr_sent R1 @ [(now + SimTime_ms (c_int_of_double (3/2)), Data (d\<lparr>pk_byteLength := size\<rparr>))],
                         pr_numDataSent := pr_numDataSent R1 + 1\<rparr>))
          else Inr R1)
      else Inr R)"

fun producer_handleMessage :: "(string \<Rightarrow> string list) \<Rightarrow> simtime \<Rightarrow> app_message \<Rightarrow> producer \<Rightarrow> sim_error + producer" where
  "producer_handleMessage tok now m R =
     (if \<not> pr_up R then Inl (RuntimeError ''Application is not running'')
      else case m of
        AppPacket p \<Rightarrow> processInterest tok now p R
      | AppForeignPacket \<Rightarrow> Inl (RuntimeError ''check_and_cast(): Cannot cast to NdnPacket'')
      | _ \<Rightarrow> Inr R)"

section \<open>Runs of a consumer\<close>

text \<open>The timer fires at the time it is scheduled for, or another message is delivered.\<close>

datatype consumer_event = Fire interest_draw simtime | Deliver simtime rat app_message

fun consumer_exec :: "(string \<Rightarrow> string list) \<Rightarrow> consumer_event \<Rightarrow> consumer \<Rightarrow> sim_error + consumer" where
  "consumer_exec tok (Fire r sendInterval) A =
     (case co_timer A of None \<Rightarrow> Inr A
      | Some t \<Rightarrow> consumer_handleMessage tok t r sendInterval 0 ExpressTimer A)"
| "consumer_exec tok (Deliver now u m) A =
     (if m = ExpressTimer then Inr A
      else consumer_handleMessage tok now \<lparr>draw_l1 = 0, draw_l2 = 0, draw_nonce = []\<rparr> 0 u m A)"

text \<open>The number of retransmissions that the counters still allow.\<close>

definition retx_credit :: "int \<Rightarrow> 16 word option \<Rightarrow> int" where
  "retx_credit reTx s = (case s of None \<Rightarrow> 0 | Some n \<Rightarrow> reTx - sint n)"

definition history_inv :: "consumer \<Rightarrow> bool" where
  "history_inv A \<longleftrightarrow> 0 \<le> co_intSeqNo A \<and> co_numIntSent A = co_intSeqNo A
     \<and> int (length (co_expressed A)) = co_intSeqNo A
     \<and> length (co_firstSendTimeHistory A) = 100 \<and> length (co_lastSendTimeHistory A) = 100
     \<and> length (co_numRetxHistory A) = 100
     \<and> (\<forall>k < 100. int k < co_intSeqNo A \<longrightarrow> co_numRetxHistory A ! k \<noteq> None)
     \<and> (\<forall>j < length (co_expressed A). co_intSeqNo A - int j \<le> 100 \<longrightarrow>
          co_firstSendTimeHistory A ! (j mod 100) = fst (co_expressed A ! j))"

definition retx_inv :: "consumer \<Rightarrow> bool" where
  "retx_inv A \<longleftrightarrow> list_all (\<lambda>s. 0 \<le> retx_credit (co_interestReTx A) s \<and> (\<forall>n. s = Some n \<longrightarrow> 0 \<le> sint n)) (co_numRetxHistory A)
     \<and> int (length (co_resent A)) + sum_list (map (retx_credit (co_interestReTx A)) (co_numRetxHistory A))
         \<le> co_interestReTx A * co_intSeqNo A"

definition timer_inv :: "consumer \<Rightarrow> bool" where
  "timer_inv A \<longleftrightarrow> co_numIntSent A \<le> (if co_numInterests A = -1 then 1 else max 0 (co_numInterests A))
     \<and> (co_timer A \<noteq> None \<longrightarrow> co_numIntSent A < co_numInterests A \<or> co_numInterests A = -1 \<and> co_numIntSent A = 0)"

definition consumer_inv :: "int \<Rightarrow> int \<Rightarrow> consumer \<Rightarrow> bool" where
  "consumer_inv numInterests reTx A \<longleftrightarrow> history_inv A \<and> timer_inv A
     \<and> co_numInterests A = numInterests \<and> co_interestReTx A = reTx
     \<and> (0 \<le> reTx \<and> reTx < 2 ^ 15 \<longrightarrow> retx_inv A)"

lemma history_index_nonneg: "0 \<le> n \<Longrightarrow> history_index n = Inr (nat n mod 100)"
  by (simp add: history_index_def HISTORY_SIZE_def nat_mod_distrib)

lemma sum_list_int_update:
  "k < length xs \<Longrightarrow> sum_list (map f (xs[k := x])) = sum_list (map f xs) - f (xs ! k) + (f x :: int)"
  by (induction xs arbitrary: k) (auto split: nat.split simp: nth_Cons')

lemma history_slot:
  assumes "history_inv A" "0 \<le> n" "n < co_intSeqNo A"
  obtains c where "co_numRetxHistory A ! (nat n mod 100) = Some c"
proof -
  have "int (nat n mod 100) < co_intSeqNo A"
    using assms(2,3) by (meson le_less_trans mod_less_eq_dividend nat_less_iff of_nat_0_le_iff zless_nat_conj
        le_nat_iff of_nat_le_iff dual_order.strict_trans1)
  then have "co_numRetxHistory A ! (nat n mod 100) \<noteq> None" using assms(1) by (simp add: history_inv_def)
  with that show thesis by auto
qed

lemma createNextInterest_eq:
  assumes "history_inv A"
  shows "\<exists>i. createNextInterest tok now r A = Inr (i,
     A\<lparr>co_firstSendTimeHistory := (co_firstSendTimeHistory A)[nat (co_intSeqNo A) mod 100 := now],
       co_lastSendTimeHistory := (co_lastSendTimeHistory A)[nat (co_intSeqNo A) mod 100 := now],
       co_numRetxHistory := (co_numRetxHistory A)[nat (co_intSeqNo A) mod 100 := Some 0]\<rparr>)"
  using assms
  by (simp add: createNextInterest_def Let_def computeTlvPacketSize_def INTEREST_def history_index_nonneg history_inv_def)

lemma schedule_fields:
  assumes "scheduleNextInterest now p iv A = Inr A'"
  shows "\<exists>t. A' = A\<lparr>co_timer := t\<rparr>"
proof -
  have "A = A\<lparr>co_timer := co_timer A\<rparr>" by simp
  moreover have "A' = A \<or> (\<exists>t. A' = A\<lparr>co_timer := t\<rparr>)"
    using assms by (auto simp: scheduleNextInterest_def Let_def split: if_splits)
  ultimately show ?thesis by metis
qed

lemma mod_eq_window:
  assumes "j < n" "int n - int j < 100"
  shows "j mod 100 \<noteq> n mod (100 :: nat)"
proof
  assume "j mod 100 = n mod (100 :: nat)"
  then have "(int n - int j) mod 100 = 0" by (metis mod_diff_cong of_nat_mod of_nat_numeral diff_self mod_0)
  with assms show False by (simp add: mod_pos_pos_trivial)
qed

lemma history_inv_express:
  assumes "history_inv A"
  defines "k \<equiv> nat (co_intSeqNo A) mod 100"
  shows "history_inv (expressInterest now i (A\<lparr>co_timer := t, co_firstSendTimeHistory := (co_firstSendTimeHistory A)[k := now],
       co_lastSendTimeHistory := (co_lastSendTimeHistory A)[k := now],
       co_numRetxHistory := (co_numRetxHistory A)[k := Some 0]\<rparr>))"
proof -
  let ?n = "length (co_expressed A)"
  have n: "co_intSeqNo A = int ?n" using assms(1) by (simp add: history_inv_def)
  have "(co_firstSendTimeHistory A)[k := now] ! (j mod 100) = fst ((co_expressed A @ [(now, i)]) ! j)"
    if "j < Suc ?n" "co_intSeqNo A + 1 - int j \<le> 100" for j
  proof (cases "j = ?n")
    case True
    then show ?thesis using assms(1) by (simp add: history_inv_def k_def n)
  next
    case False
    then have "j < ?n" using that by simp
    with that have "j mod 100 \<noteq> ?n mod 100" by (intro mod_eq_window) (simp_all add: n)
    then show ?thesis using assms(1) that \<open>j < ?n\<close> by (auto simp: history_inv_def k_def n nth_append)
  qed
  moreover have "(co_numRetxHistory A)[k := Some 0] ! m \<noteq> None" if "m < 100" "int m < co_intSeqNo A + 1" for m
  proof (cases "m = ?n")
    case True
    then show ?thesis using assms(1) that(1) by (simp add: history_inv_def k_def n)
  next
    case False
    then show ?thesis using assms(1) that by (cases "m = k") (auto simp: history_inv_def n)
  qed
  ultimately show ?thesis using assms(1) by (simp add: history_inv_def expressInterest_def)
qed

lemma retx_inv_express:
  assumes "history_inv A" "retx_inv A" "0 \<le> co_interestReTx A"
  defines "k \<equiv> nat (co_intSeqNo A) mod 100"
  shows "retx_inv (expressInterest now i (A\<lparr>co_timer := t, co_firstSendTimeHistory := (co_firstSendTimeHistory A)[k := now],
       co_lastSendTimeHistory := (co_lastSendTimeHistory A)[k := now],
       co_numRetxHistory := (co_numRetxHistory A)[k := Some 0]\<rparr>))"
proof -
  let ?R = "co_interestReTx A"
  have k: "k < length (co_numRetxHistory A)" using assms(1) by (simp add: history_inv_def k_def)
  have ok: "list_all (\<lambda>s. 0 \<le> retx_credit ?R s \<and> (\<forall>n. s = Some n \<longrightarrow> 0 \<le> sint n)) (co_numRetxHistory A)"
    using assms(2) by (simp add: retx_inv_def)
  then have "0 \<le> retx_credit ?R (co_numRetxHistory A ! k)" using k by (simp add: list_all_length)
  moreover have "list_all (\<lambda>s. 0 \<le> retx_credit ?R s \<and> (\<forall>n. s = Some n \<longrightarrow> 0 \<le> sint n)) ((co_numRetxHistory A)[k := Some 0])"
    using ok assms(3) by (auto simp: list_all_iff retx_credit_def dest!: set_update_subset_insert [THEN subsetD])
  moreover have "retx_credit ?R (Some 0) = ?R" by (simp add: retx_credit_def)
  ultimately show ?thesis
    using assms(2) by (simp add: retx_inv_def expressInterest_def sum_list_int_update [OF k] algebra_simps)
qed

definition expressed :: "simtime \<Rightarrow> interest \<Rightarrow> consumer \<Rightarrow> consumer" where
  "expressed t i A = expressInterest t i (A\<lparr>co_timer := None,
     co_firstSendTimeHistory := (co_firstSendTimeHistory A)[nat (co_intSeqNo A) mod 100 := t],
     co_lastSendTimeHistory := (co_lastSendTimeHistory A)[nat (co_intSeqNo A) mod 100 := t],
     co_numRetxHistory := (co_numRetxHistory A)[nat (co_intSeqNo A) mod 100 := Some 0]\<rparr>)"

lemma expressed_fields [simp]:
  "co_numIntSent (expressed t i A) = co_numIntSent A + 1"
  "co_numInterests (expressed t i A) = co_numInterests A"
  "co_interestReTx (expressed t i A) = co_interestReTx A"
  "co_timer (expressed t i A) = None"
  by (simp_all add: expressed_def expressInterest_def)

lemma fire_result:
  assumes "history_inv A" "consumer_handleMessage tok t r iv u ExpressTimer A = Inr A'"
  shows "\<exists>i t'. A' = (expressed t i A)\<lparr>co_timer := t'\<rparr> \<and> (t' \<noteq> None \<longrightarrow> co_numIntSent A + 1 < co_numInterests A)"
proof -
  have h0: "history_inv (A\<lparr>co_timer := None\<rparr>)" using assms(1) by (simp add: history_inv_def)
  from createNextInterest_eq [OF h0, of tok t r] obtain i A1 where
    c: "createNextInterest tok t r (A\<lparr>co_timer := None\<rparr>) = Inr (i, A1)" and A1: "expressInterest t i A1 = expressed t i A"
    by (auto simp: expressed_def)
  have up: "co_up A" using assms(2) by (cases "co_up A") simp_all
  have step: "(if co_numIntSent A + 1 < co_numInterests A
      then scheduleNextInterest t (Some t) iv (expressed t i A) else Inr (expressed t i A)) = Inr A'"
    using assms(2) up by (simp add: c A1 Let_def cong del: if_weak_cong)
  show ?thesis
  proof (cases "co_numIntSent A + 1 < co_numInterests A")
    case True
    with step schedule_fields show ?thesis by fastforce
  next
    case False
    then have "A' = expressed t i A" using step by simp
    moreover have "expressed t i A = (expressed t i A)\<lparr>co_timer := None\<rparr>"
      by (simp add: expressed_def expressInterest_def)
    ultimately show ?thesis by metis
  qed
qed

lemma fire_inv:
  assumes "consumer_inv N R A" "co_timer A = Some t"
    and "consumer_handleMessage tok t r iv u ExpressTimer A = Inr A'"
  shows "consumer_inv N R A'"
proof -
  have h: "history_inv A" and timer: "timer_inv A" and const: "co_numInterests A = N" "co_interestReTx A = R"
    using assms(1) by (simp_all add: consumer_inv_def)
  obtain i t' where A': "A' = (expressed t i A)\<lparr>co_timer := t'\<rparr>"
    and lim: "t' \<noteq> None \<longrightarrow> co_numIntSent A + 1 < co_numInterests A"
    using fire_result [OF h assms(3)] by blast
  have "history_inv (expressed t i A)" unfolding expressed_def by (rule history_inv_express [OF h])
  then have "history_inv A'" by (simp add: A' history_inv_def)
  moreover have "co_numIntSent A < co_numInterests A \<or> co_numInterests A = -1 \<and> co_numIntSent A = 0"
    using timer assms(2) by (simp add: timer_inv_def)
  then have "timer_inv A'" using lim by (auto simp: A' timer_inv_def)
  moreover have "retx_inv A'" if "0 \<le> R" "R < 2 ^ 15"
  proof -
    have "retx_inv A" "0 \<le> co_interestReTx A" using assms(1) that by (simp_all add: consumer_inv_def)
    then have "retx_inv (expressed t i A)" unfolding expressed_def by (rule retx_inv_express [OF h])
    then show ?thesis by (simp add: A' retx_inv_def)
  qed
  ultimately show ?thesis using const by (simp add: consumer_inv_def A')
qed

lemma onData_inv:
  assumes "consumer_inv N R A" "onData now d A = Inr A'"
  shows "consumer_inv N R A'"
proof -
  obtain a b c e where "A' = A\<lparr>co_allRttStat := a, co_lastRttStat := b, co_retxStat := c, co_hopCountStat := e,
      co_numDataReceived := co_numDataReceived A + 1\<rparr>"
    using assms(2) by (auto simp: onData_def Let_def bind_result_Inr_iff)
  then have "history_inv A' = history_inv A" "timer_inv A' = timer_inv A" "retx_inv A' = retx_inv A"
    "co_interestReTx A' = co_interestReTx A" "co_numInterests A' = co_numInterests A"
    by (simp_all add: history_inv_def timer_inv_def retx_inv_def)
  then show ?thesis using assms(1) by (simp add: consumer_inv_def)
qed

lemma sint_succ_16:
  assumes "sint (n :: 16 word) < r" "r < 2 ^ 15"
  shows "sint (n + 1) = sint n + 1"
proof -
  have "- (2 ^ 15) \<le> sint n" using sint_ge [of n] by simp
  then show ?thesis using assms
    by (simp add: sint_word_ariths signed_take_bit_int_eq_self)
qed

lemma onTimeout_inv:
  assumes "consumer_inv N R A" "onTimeout now u i A = Inr A'"
  shows "consumer_inv N R A'"
proof -
  obtain k n where k: "history_index (pk_seqNo i) = Inr k" "co_numRetxHistory A ! k = Some n"
    and A': "A' = (if sint n < co_interestReTx A then
             A\<lparr>co_lastSendTimeHistory := (co_lastSendTimeHistory A)[k := now],
               co_numRetxHistory := (co_numRetxHistory A)[k := Some (n + 1)],
               co_resent := co_resent A @ [(now + SimTime_ms (c_int_of_double u),
                 i\<lparr>pk_hopCount := 0, pk_kind := 0, pk_flood := True\<rparr>)]\<rparr>
           else A\<lparr>co_numUnsatisfied := co_numUnsatisfied A + 1\<rparr>)"
    using assms(2) by (auto simp: onTimeout_def bind_result_Inr_iff split: option.splits)
  have h: "history_inv A" and timer: "timer_inv A" and const: "co_numInterests A = N" "co_interestReTx A = R"
    using assms(1) by (simp_all add: consumer_inv_def)
  have "k < 100" using k(1) by (auto simp: history_index_def HISTORY_SIZE_def nat_less_iff split: if_splits)
  then have len: "k < length (co_numRetxHistory A)" using h by (simp add: history_inv_def)
  have "(co_numRetxHistory A)[k := Some m] ! j \<noteq> None" if "co_numRetxHistory A ! j \<noteq> None" "j < 100" for m j
    using that len by (cases "j = k") simp_all
  then have "history_inv A'" using h by (simp add: A' history_inv_def)
  moreover have "timer_inv A'" using timer by (auto simp: A' timer_inv_def)
  moreover have "retx_inv A'" if "0 \<le> R" "R < 2 ^ 15"
  proof (cases "sint n < co_interestReTx A")
    case True
    have inv: "retx_inv A" using assms(1) that by (simp add: consumer_inv_def)
    then have "0 \<le> sint n" using len k(2) by (auto simp: retx_inv_def list_all_length)
    moreover have s: "sint (n + 1) = sint n + 1" using sint_succ_16 [OF True] that(2) const by simp
    ultimately have "list_all (\<lambda>s. 0 \<le> retx_credit (co_interestReTx A) s \<and> (\<forall>n. s = Some n \<longrightarrow> 0 \<le> sint n))
        ((co_numRetxHistory A)[k := Some (n + 1)])"
      using inv True by (auto simp: retx_inv_def list_all_iff retx_credit_def dest!: set_update_subset_insert [THEN subsetD])
    then show ?thesis using inv True s k(2)
      by (simp add: A' retx_inv_def sum_list_int_update [OF len] retx_credit_def)
  next
    case False
    moreover have "retx_inv A" using assms(1) that by (simp add: consumer_inv_def)
    ultimately show ?thesis using const by (auto simp: A' retx_inv_def)
  qed
  ultimately show ?thesis using const by (simp add: consumer_inv_def A')
qed

interpretation consumer_runs: fallible_component "consumer_exec tok" "consumer_inv N R"
proof unfold_locales
  fix A A' ev
  assume inv: "consumer_inv N R A" and run: "consumer_exec tok ev A = Inr A'"
  show "consumer_inv N R A'"
  proof (cases ev)
    case (Fire r iv)
    then show ?thesis using inv run fire_inv [OF inv]
      by (cases "co_timer A") (simp_all del: consumer_handleMessage.simps)
  next
    case (Deliver now u m)
    then show ?thesis using inv run onTimeout_inv [OF inv] onData_inv [OF inv]
      by (cases m) (auto simp: bind_result_Inr_iff split: if_splits)
  qed
qed

lemma consumer_inv_initialize:
  assumes "consumer_initialize now up pfx numInterests reTx lifetime start stop = Inr A"
  shows "consumer_inv numInterests reTx A"
proof -
  let ?A = "\<lparr>co_up = up, co_cPrefix = pfx, co_numInterests = numInterests, co_interestReTx = reTx,
      co_interestLifetime = lifetime, co_startTime = start, co_stopTime = stop,
      co_timer = None, co_firstSendTimeHistory = replicate 100 0, co_lastSendTimeHistory = replicate 100 0,
      co_numRetxHistory = replicate 100 None, co_allRttStat = [], co_lastRttStat = [], co_retxStat = [],
      co_hopCountStat = [], co_numIntSent = 0, co_numDataReceived = 0, co_numUnsatisfied = 0,
      co_intSeqNo = 0, co_expressed = [], co_resent = []\<rparr>"
  have credit: "retx_credit reTx None = 0" by (simp add: retx_credit_def)
  have inv: "consumer_inv numInterests reTx ?A"
    by (simp add: consumer_inv_def history_inv_def timer_inv_def retx_inv_def credit list_all_length sum_list_replicate)
  have "A = ?A \<or> (\<exists>t. A = ?A\<lparr>co_timer := t\<rparr> \<and> (numInterests = -1 \<or> 0 < numInterests))"
    using assms by (auto simp: consumer_initialize_def startApp_def Let_def dest: schedule_fields split: if_splits)
  then show ?thesis using inv
    by (auto simp: consumer_inv_def history_inv_def timer_inv_def retx_inv_def)
qed

section \<open>Properties\<close>

text \<open>
  Round trip times.  In every state a consumer can reach, Data for one of its Interests is
  accepted without an error, and the time recorded for it is the time since that Interest was
  first expressed, as long as it is among the last 100 Interests; for an older one the consumer
  records zero instead of a wrong time from a slot that has been reused.
\<close>

theorem consumer_round_trip_time:
  assumes "consumer_initialize t0 up pfx numInterests reTx lifetime start stop = Inr A0"
    and "run_result (consumer_exec tok) evs A0 = Inr A"
    and "0 \<le> pk_seqNo d" "pk_seqNo d < co_intSeqNo A"
  shows "\<exists>A'. onData now d A = Inr A' \<and> co_numDataReceived A' = co_numDataReceived A + 1 \<and>
     co_allRttStat A' = co_allRttStat A @
       [if co_intSeqNo A - pk_seqNo d > 100 then 0 else (now - fst (co_expressed A ! nat (pk_seqNo d))) * 1000]"
proof -
  have inv: "consumer_inv numInterests reTx A"
    by (rule consumer_runs.run_keeps [OF consumer_inv_initialize [OF assms(1)] assms(2)])
  then have h: "history_inv A" by (simp add: consumer_inv_def)
  let ?j = "nat (pk_seqNo d)"
  obtain c where c: "co_numRetxHistory A ! (?j mod 100) = Some c" by (rule history_slot [OF h assms(3,4)])
  have "?j < length (co_expressed A)" using h assms(3,4) by (simp add: history_inv_def nat_less_iff)
  then have slot: "co_firstSendTimeHistory A ! (?j mod 100) = fst (co_expressed A ! ?j)"
    if "co_intSeqNo A - pk_seqNo d \<le> 100"
    using h assms(3) that by (simp add: history_inv_def)
  show ?thesis
  proof (cases "co_intSeqNo A - pk_seqNo d > 100")
    case True
    then show ?thesis by (simp add: onData_def HISTORY_SIZE_def Let_def)
  next
    case False
    then show ?thesis using slot c assms(3) by (simp add: onData_def HISTORY_SIZE_def Let_def history_index_nonneg)
  qed
qed

theorem consumer_round_trip_time_witness:
  "\<exists>A0 A A'. consumer_initialize 0 True ''/air'' 3 1 4000 5 (-1) = Inr A0
     \<and> run_result (consumer_exec (\<lambda>s. [s])) [Fire \<lparr>draw_l1 = 0, draw_l2 = 7, draw_nonce = [1, 2, 3, 4]\<rparr> 10] A0 = Inr A
     \<and> onData 25 ((new_Data ''/air/1/7'')\<lparr>pk_seqNo := 0\<rparr>) A = Inr A' \<and> co_allRttStat A' = [20 * 1000]"
proof -
  obtain A0 where A0: "consumer_initialize 0 True ''/air'' 3 1 4000 5 (-1) = Inr A0" "co_timer A0 = Some 5"
    "co_numIntSent A0 = 0" "co_up A0" "co_expressed A0 = []" "co_allRttStat A0 = []" "co_stopTime A0 = -1"
    by (simp add: consumer_initialize_def startApp_def scheduleNextInterest_def Let_def)
  have inv: "history_inv A0" "co_numInterests A0 = 3"
    using consumer_inv_initialize [OF A0(1)] by (simp_all add: consumer_inv_def)
  have n0: "co_intSeqNo A0 = 0" using inv A0 by (simp add: history_inv_def)
  let ?r = "\<lparr>draw_l1 = 0, draw_l2 = 7, draw_nonce = [1, 2, 3, 4 :: 8 word]\<rparr>"
  have "history_inv (A0\<lparr>co_timer := None\<rparr>)" using inv by (simp add: history_inv_def)
  from createNextInterest_eq [OF this, of "\<lambda>s. [s]" 5 ?r]
  obtain A where A: "run_result (consumer_exec (\<lambda>s. [s])) [Fire ?r 10] A0 = Inr A"
    and s: "co_intSeqNo A = 1" "length (co_expressed A) = 1" "fst (co_expressed A ! 0) = 5" "co_allRttStat A = []"
    using A0 n0 inv
    by (auto simp: expressInterest_def scheduleNextInterest_def Let_def)
  have "0 \<le> pk_seqNo ((new_Data ''/air/1/7'')\<lparr>pk_seqNo := 0\<rparr>)"
    "pk_seqNo ((new_Data ''/air/1/7'')\<lparr>pk_seqNo := 0\<rparr>) < co_intSeqNo A" using s by simp_all
  from consumer_round_trip_time [OF A0(1) A this, of 25] obtain A' where
    "onData 25 ((new_Data ''/air/1/7'')\<lparr>pk_seqNo := 0\<rparr>) A = Inr A'" "co_allRttStat A' = [20 * 1000]"
    using s by auto
  with A0(1) A show ?thesis by blast
qed

text \<open>
  C39: retransmissions are bounded.  Whatever happens to a consumer, it never sends more than
  \<^verbatim>\<open>interestReTx\<close> retransmissions per Interest it has expressed, on the whole (for a parameter within
  the range of the counters).
\<close>

theorem consumer_retransmissions_bounded:
  assumes "consumer_initialize t0 up pfx numInterests reTx lifetime start stop = Inr A0"
    and "run_result (consumer_exec tok) evs A0 = Inr A" "0 \<le> reTx" "reTx < 2 ^ 15"
  shows "int (length (co_resent A)) \<le> reTx * co_numIntSent A"
proof -
  have inv: "consumer_inv numInterests reTx A"
    by (rule consumer_runs.run_keeps [OF consumer_inv_initialize [OF assms(1)] assms(2)])
  then have inv: "retx_inv A" and n: "co_numIntSent A = co_intSeqNo A" and R: "co_interestReTx A = reTx"
    using assms(3,4) by (simp_all add: consumer_inv_def history_inv_def)
  have "0 \<le> sum_list (map (retx_credit reTx) (co_numRetxHistory A))"
    using inv R by (intro sum_list_nonneg) (auto simp: retx_inv_def list_all_iff)
  then show ?thesis using inv by (simp add: retx_inv_def R n)
qed

text \<open>Two Interests; the first one times out twice and may be sent again once.\<close>

definition lost_interest :: interest where
  "lost_interest = (new_Interest ''/air/1/7'')\<lparr>pk_type := 5, pk_seqNo := 0, pk_kind := APP_TIMEOUT_CODE\<rparr>"

definition lossy_events :: "consumer_event list" where
  "lossy_events =
     [Fire \<lparr>draw_l1 = 0, draw_l2 = 7, draw_nonce = [1, 2, 3, 4]\<rparr> 10, Fire \<lparr>draw_l1 = 3, draw_l2 = 9, draw_nonce = [5, 6, 7, 8]\<rparr> 10,
      Deliver 4005 1 (AppPacket (Interest lost_interest)), Deliver 8010 1 (AppPacket (Interest lost_interest))]"

lemma lossy_run:
  "case consumer_initialize 0 True ''/air'' 2 1 4000 5 (-1) of Inl e \<Rightarrow> False
   | Inr A0 \<Rightarrow> (case run_result (consumer_exec (\<lambda>s. [s])) lossy_events A0 of Inl e \<Rightarrow> False
       | Inr A \<Rightarrow> length (co_resent A) = 1 \<and> co_numIntSent A = 2 \<and> co_numUnsatisfied A = 1)"
  by code_simp

theorem consumer_retransmissions_bounded_witness:
  "\<exists>A0 A. consumer_initialize 0 True ''/air'' 2 1 4000 5 (-1) = Inr A0
     \<and> run_result (consumer_exec (\<lambda>s. [s])) lossy_events A0 = Inr A
     \<and> length (co_resent A) = 1 \<and> co_numIntSent A = 2 \<and> co_numUnsatisfied A = 1
     \<and> int (length (co_resent A)) \<le> 1 * co_numIntSent A"
proof -
  obtain A0 A where A: "consumer_initialize 0 True ''/air'' 2 1 4000 5 (-1) = Inr A0"
    "run_result (consumer_exec (\<lambda>s. [s])) lossy_events A0 = Inr A"
    "length (co_resent A) = 1 \<and> co_numIntSent A = 2 \<and> co_numUnsatisfied A = 1"
    using lossy_run by (auto split: sum.splits)
  from consumer_retransmissions_bounded [OF A(1,2)] have "int (length (co_resent A)) \<le> 1 * co_numIntSent A" by simp
  with A show ?thesis by blast
qed

text \<open>
  A consumer expresses at most \<^verbatim>\<open>numInterests\<close> Interests; but the value -1, with which it is
  started as if it meant no limit, stops it after a single Interest.
\<close>

theorem consumer_number_of_interests:
  assumes "consumer_initialize t0 up pfx numInterests reTx lifetime start stop = Inr A0"
    and "run_result (consumer_exec tok) evs A0 = Inr A"
  shows "int (length (co_expressed A)) \<le> (if numInterests = -1 then 1 else max 0 numInterests)"
proof -
  have inv: "consumer_inv numInterests reTx A"
    by (rule consumer_runs.run_keeps [OF consumer_inv_initialize [OF assms(1)] assms(2)])
  then show ?thesis by (auto simp: consumer_inv_def history_inv_def timer_inv_def split: if_splits)
qed

theorem consumer_number_of_interests_witness:
  "\<exists>A0. consumer_initialize 0 True ''/air'' (-1) 1 4000 5 (-1) = Inr A0 \<and> int (length (co_expressed A0)) \<le> 1"
proof -
  obtain A0 where A0: "consumer_initialize 0 True ''/air'' (-1) 1 4000 5 (-1) = Inr A0"
    by (simp add: consumer_initialize_def startApp_def scheduleNextInterest_def Let_def)
  have "run_result (consumer_exec (\<lambda>s. [s])) [] A0 = Inr A0" by simp
  from consumer_number_of_interests [OF A0 this] A0 show ?thesis by simp
qed

lemma one_and_a_half_ms: "SimTime_ms (c_int_of_double (3 / 2)) = SimTime_ms 1"
  by (simp add: c_int_of_double_def floor_divide_of_int_eq [of 3 2, simplified])

text \<open>
  A producer answers each Interest it is given while it is active with exactly one Data of the
  same name and sequence number, one millisecond later (the 1.5 of the code loses its fraction),
  and its prefix length is a length the FIB can cut from that name.
\<close>

theorem producer_answers:
  assumes "pr_up R" "pk_type i = 5" "prefix (pr_pPrefix R) (pk_name i)"
    and "pr_startTime R \<le> now" "pr_stopTime R < 0 \<or> now < pr_stopTime R"
  shows "\<exists>R' d. producer_handleMessage tok now (AppPacket (Interest i)) R = Inr R'
    \<and> pr_sent R' = pr_sent R @ [(now + SimTime_ms 1, Data d)] \<and> pk_name d = pk_name i \<and> pk_seqNo d = pk_seqNo i
    \<and> pk_type d = DATA \<and> freshnessPeriod d = of_int (pr_dataFreshness R)
    \<and> 0 \<le> pk_prefixLength d \<and> pk_prefixLength d \<le> int (length (pk_name d))
    \<and> pr_numDataSent R' = pr_numDataSent R + 1 \<and> pr_numIntReceived R' = pr_numIntReceived R + 1"
  using assms
  by (auto simp: processInterest_def Let_def computeTlvPacketSize_def INTEREST_def DATA_def new_Data_def
      one_and_a_half_ms prefix_length_le)

theorem producer_answers_witness:
  "\<exists>R'. producer_handleMessage (\<lambda>s. [s]) 7 (AppPacket (Interest ((new_Interest ''/air/1'')\<lparr>pk_type := 5\<rparr>)))
     (producer_initialize 0 True ''/air'' 100 0 (-1)) = Inr R' \<and> pr_numDataSent R' = 1"
proof -
  let ?R = "producer_initialize 0 True ''/air'' 100 0 (-1)"
  have R: "pr_up ?R" "pr_pPrefix ?R = ''/air''" "pr_startTime ?R = 0" "pr_stopTime ?R = -1" "pr_numDataSent ?R = 0"
    by (simp_all add: producer_initialize_def producer_registerPrefix_def Let_def)
  have "prefix (pr_pPrefix ?R) (pk_name ((new_Interest ''/air/1'')\<lparr>pk_type := 5\<rparr>))"
    by (simp add: R new_Interest_def)
  from producer_answers [OF R(1) _ this, of 7 "\<lambda>s. [s]"] R show ?thesis
    by (auto simp del: producer_handleMessage.simps)
qed

end
