(* ===== verification/NdnNetwork.thy ===== *)
theory NdnNetwork
  imports ForwardingProperties NdnApplications
begin

text \<open>
  Several nodes joined by wires: the way of an Interest from a consumer along the forwarding tables to
  the producer, and of the Data back along the pending Interests, through the models of the forwarder and
  of both applications.  The wires stand for the link layer: what leaves a node on a face reaches the node
  at the other end if it is addressed to that node or to all.
\<close>

section \<open>The network\<close>

definition lower_gate :: "int \<Rightarrow> gate" where
  "lower_gate k = \<lparr>gate_name = ''lowerLayerIn'', gate_index = k\<rparr>"

definition upper_gate :: "int \<Rightarrow> gate" where
  "upper_gate k = \<lparr>gate_name = ''upperLayerIn'', gate_index = k\<rparr>"

fun arriving :: "gate \<Rightarrow> packet \<Rightarrow> packet" where
  "arriving g (Interest i) = Interest (i\<lparr>pk_arrivalGate := g\<rparr>)"
| "arriving g (Data d) = Data (d\<lparr>pk_arrivalGate := g\<rparr>)"
| "arriving g (NdnPacket b) = NdnPacket (b\<lparr>pk_arrivalGate := g\<rparr>)"

type_synonym wiring = "nat \<times> int \<Rightarrow> (nat \<times> int) option"

definition delivered :: "wiring \<Rightarrow> (nat \<Rightarrow> fw) \<Rightarrow> nat \<Rightarrow> packet \<Rightarrow> int \<Rightarrow> (nat \<times> packet) option" where
  "delivered w Ns n p face =
     (case w (n, face) of None \<Rightarrow> None
      | Some (m, g) \<Rightarrow>
          (case getControlInfo p of None \<Rightarrow> None
           | Some c \<Rightarrow>
               if ctrl_dest c = fw_myMacAddress (Ns m) \<or> ctrl_dest c = BROADCAST_ADDRESS
               then Some (m, arriving (lower_gate g) p) else None))"

text \<open>
  A packet followed through the network while nothing else happens: each node handles it at some time
  with some random draw, sends the packet it delays when its timer fires, and the packet goes on over the
  wire.  The journey ends where the packet is handed to an application, or is not sent on.
\<close>

fun follow :: "(simtime \<times> rat) list \<Rightarrow> wiring \<Rightarrow> nat \<times> packet \<Rightarrow> (nat \<Rightarrow> fw)
    \<Rightarrow> sim_error + (nat \<times> packet \<times> int) option \<times> (nat \<Rightarrow> fw)" where
  "follow [] w (n, p) Ns = Inr (None, Ns)"
| "follow ((now, u) # ds) w (n, p) Ns =
     bind_result (fw_handleMessage now u (NdnMsg p) (Ns n)) (\<lambda>F1.
     bind_result (if fw_waiting F1 then fw_exec DelayTimer F1 else Inr F1) (\<lambda>F2.
       let Ns' = Ns(n := F2)
       in case drop (length (fw_sent (Ns n))) (fw_sent F2) of
            [SendUpper q k] \<Rightarrow> Inr (Some (n, q, k), Ns')
          | [SendLower q face] \<Rightarrow>
              (case delivered w Ns' n q face of None \<Rightarrow> Inr (None, Ns') | Some mq \<Rightarrow> follow ds w mq Ns')
          | _ \<Rightarrow> Inr (None, Ns')))"

section \<open>Routes and trails\<close>

definition quiet :: "fw \<Rightarrow> bool" where
  "quiet F \<longleftrightarrow> fw_idle (fw_lowerGates F) (fw_upperGates F) F \<and> fw_forwarding F"

definition lower_port :: "fw \<Rightarrow> int \<Rightarrow> bool" where
  "lower_port F g \<longleftrightarrow> 0 \<le> g \<and> g < int (fw_lowerGates F)"

text \<open>The forwarding tables lead an Interest from a node along \<open>ms\<close> to the application \<open>k\<close> of the last one.\<close>

fun route :: "wiring \<Rightarrow> (nat \<Rightarrow> fw) \<Rightarrow> interest \<Rightarrow> nat \<Rightarrow> nat list \<Rightarrow> int \<Rightarrow> bool" where
  "route w Ns i n [] k \<longleftrightarrow> quiet (Ns n) \<and> open_to i (Ns n) \<and>
     (case fst (fib_lookup (pk_name i) (fw_fib (Ns n))) of None \<Rightarrow> False
      | Some e \<Rightarrow> isName (fe_face e) ''upperLayerIn'' \<and> gate_index (fe_face e) = k)"
| "route w Ns i n (m # ms) k \<longleftrightarrow> quiet (Ns n) \<and> open_to i (Ns n) \<and>
     (case fst (fib_lookup (pk_name i) (fw_fib (Ns n))) of None \<Rightarrow> False
      | Some e \<Rightarrow> isName (fe_face e) ''lowerLayerIn'' \<and> fe_macDest e = fw_myMacAddress (Ns m) \<and>
          (case w (n, gate_index (fe_face e)) of None \<Rightarrow> False
           | Some (m', g) \<Rightarrow> m' = m \<and> lower_port (Ns m) g \<and> w (m, g) = Some (n, gate_index (fe_face e))))
     \<and> route w Ns i m ms k"

text \<open>The pending Interests lead Data from a node back along \<open>ms\<close> to the application \<open>k\<close> of the last one.\<close>

fun trail :: "wiring \<Rightarrow> (nat \<Rightarrow> fw) \<Rightarrow> string \<Rightarrow> nat \<Rightarrow> nat list \<Rightarrow> int \<Rightarrow> bool" where
  "trail w Ns nm n [] k \<longleftrightarrow> quiet (Ns n) \<and>
     (case fst (pit_lookup nm (fw_pit (Ns n))) of None \<Rightarrow> False
      | Some e \<Rightarrow> isName (pe_face e) ''upperLayerIn'' \<and> gate_index (pe_face e) = k)"
| "trail w Ns nm n (m # ms) k \<longleftrightarrow> quiet (Ns n) \<and>
     (case fst (pit_lookup nm (fw_pit (Ns n))) of None \<Rightarrow> False
      | Some e \<Rightarrow> isName (pe_face e) ''lowerLayerIn'' \<and> pe_macSrc e = fw_myMacAddress (Ns m) \<and>
          (case w (n, gate_index (pe_face e)) of None \<Rightarrow> False
           | Some (m', f) \<Rightarrow> m' = m \<and> lower_port (Ns m) f))
     \<and> trail w Ns nm m ms k"

lemma gate_simps [simp]:
  "isName (lower_gate k) ''lowerLayerIn''" "\<not> isName (lower_gate k) ''upperLayerIn''"
  "isName (upper_gate k) ''upperLayerIn''" "\<not> isName (upper_gate k) ''lowerLayerIn''"
  "gate_index (lower_gate k) = k" "gate_index (upper_gate k) = k"
  by (simp_all add: lower_gate_def upper_gate_def isName_def)

lemma route_cong: "x \<notin> set (n # ms) \<Longrightarrow> route w (Ns(x := F)) i n ms k = route w Ns i n ms k"
proof (induction ms arbitrary: n)
  case (Cons m ms)
  then show ?case by (auto simp: lower_port_def)
qed auto

lemma trail_cong: "x \<notin> set (n # ms) \<Longrightarrow> trail w (Ns(x := F)) nm n ms k = trail w Ns nm n ms k"
proof (induction ms arbitrary: n)
  case (Cons m ms)
  then show ?case by (auto simp: lower_port_def)
qed auto

lemma trail_extend:
  assumes "trail w Ns nm b tr k" "n \<notin> set (b # tr)" "quiet F" "fst (pit_lookup nm (fw_pit F)) = Some e"
    and "isName (pe_face e) ''lowerLayerIn''" "pe_macSrc e = fw_myMacAddress (Ns b)"
    and "w (n, gate_index (pe_face e)) = Some (b, f)" "lower_port (Ns b) f"
  shows "trail w (Ns(n := F)) nm n (b # tr) k"
proof -
  have "trail w (Ns(n := F)) nm b tr k" using assms(1) trail_cong [OF assms(2)] by blast
  moreover have "(Ns(n := F)) b = Ns b" using assms(2) by auto
  ultimately show ?thesis using assms(3-8) by simp
qed

lemma trail_quiet: "trail w Ns nm n ms k \<Longrightarrow> quiet (Ns n)"
  by (cases ms) auto

definition alike :: "interest \<Rightarrow> interest \<Rightarrow> bool" where
  "alike i j \<longleftrightarrow> pk_name j = pk_name i \<and> pk_type j = pk_type i \<and> pk_kind j = pk_kind i
     \<and> pk_seqNo j = pk_seqNo i \<and> mustBeFresh j = mustBeFresh i"

lemma cs_lookup_alike:
  "pk_name j = pk_name i \<Longrightarrow> mustBeFresh j = mustBeFresh i \<Longrightarrow> fst (cs_lookup j C) = fst (cs_lookup i C)"
  by (simp add: cs_lookup_def split: option.splits)

lemma fresh_simps [simp]:
  "mustBeFresh (i\<lparr>pk_controlInfo := c\<rparr>) = mustBeFresh i" "mustBeFresh (i\<lparr>pk_hopCount := h\<rparr>) = mustBeFresh i"
  "mustBeFresh (i\<lparr>pk_arrivalGate := g\<rparr>) = mustBeFresh i"
  by (cases i; simp)+

lemma open_to_alike: "alike i j \<Longrightarrow> open_to j F = open_to i F"
  unfolding open_to_def alike_def
  using cs_lookup_alike [of "j\<lparr>pk_controlInfo := None\<rparr>" "i\<lparr>pk_controlInfo := None\<rparr>" "fw_cs F"] by simp

lemma quiet_after:
  assumes "quiet F" "packet_ok (fw_lowerGates F) (fw_upperGates F) p" "pk_kind (packet_base p) \<noteq> REGISTER_PREFIX_CODE"
    and "0 \<le> u" "0 \<le> now" "fw_handleMessage now u (NdnMsg p) F = Inr F'" "same_node F F'" "\<not> fw_waiting F'"
  shows "quiet F'"
  using handled_idle [OF _ assms(2-6,8)] assms(1,7) by (simp add: quiet_def same_node_def)

lemma same_node_upd:
  assumes "same_node (Ns n) F" "\<forall>x. same_node ((Ns(n := F)) x) (Ns' x)"
  shows "\<forall>x. same_node (Ns x) (Ns' x)"
proof
  fix x
  show "same_node (Ns x) (Ns' x)"
    using assms(1) spec [OF assms(2), of x] by (cases "x = n") (auto intro: same_node_trans)
qed

lemma route_end: "route w Ns i n ms k \<Longrightarrow> 0 \<le> k \<and> k < int (fw_upperGates (Ns (last (n # ms))))"
proof (induction ms arbitrary: n)
  case Nil
  obtain e where e: "fst (fib_lookup (pk_name i) (fw_fib (Ns n))) = Some e" "isName (fe_face e) ''upperLayerIn''" "gate_index (fe_face e) = k"
    and "fw_idle (fw_lowerGates (Ns n)) (fw_upperGates (Ns n)) (Ns n)"
    using Nil.prems by (auto simp: quiet_def split: option.splits)
  then show ?case using gate_okD(2) [OF fib_found_gate [OF _ e(1)] e(2)] by simp
next
  case (Cons m ms)
  then have "route w Ns i m ms k" by simp
  then show ?case using Cons.IH by fastforce
qed

section \<open>The way of an Interest\<close>

lemma ll_interest_ok:
  assumes "lower_port F g" "pk_type j = INTEREST" "pk_arrivalGate j = lower_gate g" "pk_controlInfo j = Some c" "mac_wf (ctrl_src c)"
  shows "packet_ok (fw_lowerGates F) (fw_upperGates F) (Interest j)"
  using assms by (simp add: packet_ok_def gate_ok_def lower_port_def)

lemma delivered_interest:
  assumes "w (n, face) = Some (m, g)" "mac = fw_myMacAddress (Ns m)"
  shows "delivered w Ns n (with_ctrl_i F mac i) face =
    Some (m, Interest (i\<lparr>pk_arrivalGate := lower_gate g,
      pk_controlInfo := Some \<lparr>ctrl_src = fw_myMacAddress F, ctrl_dest = interest_dest F mac\<rparr>\<rparr>))"
  using assms by (simp add: delivered_def with_ctrl_i_def interest_dest_def)

lemma interest_follows:
  assumes "route w Ns i n ms k" "distinct (n # ms @ b # tr)" "trail w Ns (pk_name i) b tr k0"
    and "alike i j" "pk_type i = INTEREST" "pk_kind i \<noteq> REGISTER_PREFIX_CODE"
    and "pk_arrivalGate j = lower_gate g" "pk_controlInfo j = Some c" "ctrl_src c = fw_myMacAddress (Ns b)"
    and "w (n, g) = Some (b, f)" "lower_port (Ns n) g" "lower_port (Ns b) f"
    and "length ms < length ds" "list_all (\<lambda>(t, u). 0 \<le> t \<and> 0 \<le> u) ds"
  shows "\<exists>j' Ns'. follow ds w (n, Interest j) Ns = Inr (Some (last (n # ms), Interest j', k), Ns')
     \<and> alike i j' \<and> pk_hopCount j' = pk_hopCount j + int (length (n # ms))
     \<and> trail w Ns' (pk_name i) (last (n # ms)) (tl (rev (n # ms)) @ b # tr) k0
     \<and> (\<forall>x. x \<notin> set (n # ms) \<longrightarrow> Ns' x = Ns x) \<and> (\<forall>x. same_node (Ns x) (Ns' x))"
  using assms
proof (induction ms arbitrary: n b tr j c g f Ns ds)
  case Nil
  obtain t u ds' where ds: "ds = (t, u) # ds'" "0 \<le> t" "0 \<le> u" using Nil.prems(13,14) by (cases ds) auto
  have q: "quiet (Ns n)" "open_to j (Ns n)" and nm: "pk_name j = pk_name i" "pk_type j = INTEREST" "pk_kind j \<noteq> REGISTER_PREFIX_CODE"
    using Nil.prems(1,4-6) open_to_alike [OF Nil.prems(4)] by (simp_all add: alike_def)
  obtain e where e: "fst (fib_lookup (pk_name j) (fw_fib (Ns n))) = Some e" "isName (fe_face e) ''upperLayerIn''" "gate_index (fe_face e) = k"
    using Nil.prems(1) nm by (auto split: option.splits)
  have mac: "mac_wf (ctrl_src c)" using trail_quiet [OF Nil.prems(3)] Nil.prems(9) idle_nl by (auto simp: quiet_def)
  note ok = ll_interest_ok [OF Nil.prems(11) nm(2) Nil.prems(7,8) mac]
  obtain F' where F': "fw_handleMessage t u (NdnMsg (Interest j)) (Ns n) = Inr F'" "same_node (Ns n) F'" "\<not> fw_waiting F'"
    "fw_sent F' = fw_sent (Ns n) @ [SendUpper (Interest (j\<lparr>pk_controlInfo := None, pk_hopCount := pk_hopCount j + 1\<rparr>)) k]"
    "fst (pit_lookup (pk_name j) (fw_pit F')) =
       Some (new_PitEntry t (j\<lparr>pk_controlInfo := None, pk_hopCount := pk_hopCount j + 1\<rparr>) (pk_arrivalGate j) (ctrl_src c))"
    using ll_interest_local [OF _ ok _ nm(3) Nil.prems(8) q(2) e(1,2), of t u] q(1) e(3) Nil.prems(7) by (auto simp: quiet_def)
  have "quiet F'" using quiet_after [OF q(1) ok _ ds(3,2) F'(1-3)] nm(3) by simp
  with Nil.prems(2) have "trail w (Ns(n := F')) (pk_name i) n (b # tr) k0"
    by (intro trail_extend [OF Nil.prems(3) _ _ F'(5) [unfolded nm(1)] _ _ _ Nil.prems(12)])
      (use Nil.prems(7,9,10) in \<open>auto simp: new_PitEntry_def\<close>)
  then show ?case using F' by (simp add: ds alike_def) (use Nil.prems(4) in \<open>simp add: alike_def\<close>)
next
  case (Cons m ms)
  obtain t u ds' where ds: "ds = (t, u) # ds'" "0 \<le> t" "0 \<le> u" "length ms < length ds'" "list_all (\<lambda>(t, u). 0 \<le> t \<and> 0 \<le> u) ds'"
    using Cons.prems(13,14) by (cases ds) auto
  have q: "quiet (Ns n)" "open_to j (Ns n)" and nm: "pk_name j = pk_name i" "pk_type j = INTEREST" "pk_kind j \<noteq> REGISTER_PREFIX_CODE"
    using Cons.prems(1,4-6) open_to_alike [OF Cons.prems(4)] by (simp_all add: alike_def)
  obtain e g' where e: "fst (fib_lookup (pk_name j) (fw_fib (Ns n))) = Some e" "isName (fe_face e) ''lowerLayerIn''"
      "fe_macDest e = fw_myMacAddress (Ns m)" "w (n, gate_index (fe_face e)) = Some (m, g')" "lower_port (Ns m) g'"
      "w (m, g') = Some (n, gate_index (fe_face e))"
    and rt: "route w Ns i m ms k"
    using Cons.prems(1) nm by (auto split: option.splits)
  have fwd: "fw_forwarding (Ns n)" and idle: "fw_idle (fw_lowerGates (Ns n)) (fw_upperGates (Ns n)) (Ns n)"
    using q(1) by (simp_all add: quiet_def)
  have mac: "mac_wf (ctrl_src c)" using trail_quiet [OF Cons.prems(3)] Cons.prems(9) idle_nl by (auto simp: quiet_def)
  note ok = ll_interest_ok [OF Cons.prems(11) nm(2) Cons.prems(7,8) mac]
  define j1 where "j1 = j\<lparr>pk_controlInfo := None, pk_hopCount := pk_hopCount j + 1\<rparr>"
  obtain F' where F': "fw_handleMessage t u (NdnMsg (Interest j)) (Ns n) = Inr F'" "same_node (Ns n) F'" "\<not> fw_waiting F'"
    "fw_sent F' = fw_sent (Ns n) @ [SendLower (with_ctrl_i (Ns n) (fe_macDest e) j1) (gate_index (fe_face e))]"
    "fst (pit_lookup (pk_name j) (fw_pit F')) = Some (new_PitEntry t j1 (pk_arrivalGate j) (ctrl_src c))"
    using ll_interest_remote [OF idle ok _ nm(3) Cons.prems(8) q(2) e(1,2) fwd, of t u] Cons.prems(7) by (auto simp: j1_def)
  let ?Ns = "Ns(n := F')"
  have qF: "quiet F'" using quiet_after [OF q(1) ok _ ds(3,2) F'(1-3)] nm(3) by simp
  have ne: "m \<noteq> n" "n \<noteq> b" "n \<notin> set (b # tr)" "n \<notin> set (m # ms)" using Cons.prems(2) by auto
  then have tr: "trail w ?Ns (pk_name i) n (b # tr) k0"
    by (intro trail_extend [OF Cons.prems(3) _ qF F'(5) [unfolded nm(1)] _ _ _ Cons.prems(12)])
      (use Cons.prems(7,9,10) in \<open>auto simp: new_PitEntry_def\<close>)
  define j2 where "j2 = j1\<lparr>pk_arrivalGate := lower_gate g',
     pk_controlInfo := Some \<lparr>ctrl_src = fw_myMacAddress (Ns n), ctrl_dest = interest_dest (Ns n) (fe_macDest e)\<rparr>\<rparr>"
  have del: "delivered w ?Ns n (with_ctrl_i (Ns n) (fe_macDest e) j1) (gate_index (fe_face e)) = Some (m, Interest j2)"
    using delivered_interest [where w = w and mac = "fe_macDest e" and Ns = ?Ns and F = "Ns n" and i = j1, OF e(4)] e(3) ne
    by (simp add: j2_def)
  have "\<exists>j' Ns'. follow ds' w (m, Interest j2) ?Ns = Inr (Some (last (m # ms), Interest j', k), Ns')
     \<and> alike i j' \<and> pk_hopCount j' = pk_hopCount j2 + int (length (m # ms))
     \<and> trail w Ns' (pk_name i) (last (m # ms)) (tl (rev (m # ms)) @ n # b # tr) k0
     \<and> (\<forall>x. x \<notin> set (m # ms) \<longrightarrow> Ns' x = ?Ns x) \<and> (\<forall>x. same_node (?Ns x) (Ns' x))"
  proof (rule Cons.IH [where g = g' and f = "gate_index (fe_face e)"])
    show "route w ?Ns i m ms k" using rt ne(4) by (simp add: route_cong)
    show "distinct (m # ms @ n # b # tr)" using Cons.prems(2) by auto
    show "lower_port (?Ns n) (gate_index (fe_face e))"
      using gate_okD(1) [OF fib_found_gate [OF idle e(1)] e(2)] F'(2) by (simp add: lower_port_def same_node_def)
    show "trail w ?Ns (pk_name i) n (b # tr) k0" by (rule tr)
    show "pk_controlInfo j2 = Some \<lparr>ctrl_src = fw_myMacAddress (Ns n), ctrl_dest = interest_dest (Ns n) (fe_macDest e)\<rparr>"
      by (simp add: j2_def)
    show "ctrl_src \<lparr>ctrl_src = fw_myMacAddress (Ns n), ctrl_dest = interest_dest (Ns n) (fe_macDest e)\<rparr> = fw_myMacAddress (?Ns n)"
      using F'(2) by (simp add: same_node_def)
    show "alike i j2" using Cons.prems(4) by (simp add: j2_def j1_def alike_def)
  qed (use ds e ne Cons.prems(5,6) in \<open>simp_all add: j2_def\<close>)
  then obtain j' Ns' where res: "follow ds' w (m, Interest j2) ?Ns = Inr (Some (last (m # ms), Interest j', k), Ns')"
      "alike i j'" "pk_hopCount j' = pk_hopCount j2 + int (length (m # ms))"
      "trail w Ns' (pk_name i) (last (m # ms)) (tl (rev (m # ms)) @ n # b # tr) k0"
      "\<forall>x. x \<notin> set (m # ms) \<longrightarrow> Ns' x = ?Ns x" and kept: "\<forall>x. same_node (?Ns x) (Ns' x)" by blast
  have "\<forall>x. same_node (Ns x) (Ns' x)" by (rule same_node_upd [OF F'(2) kept])
  moreover have "follow ds w (n, Interest j) Ns = Inr (Some (last (n # m # ms), Interest j', k), Ns')"
    using F' del res(1) by (simp add: ds)
  moreover have "tl (rev (n # m # ms)) @ b # tr = tl (rev (m # ms)) @ n # b # tr"
    by (cases "rev ms") simp_all
  moreover have "pk_hopCount j2 = pk_hopCount j + 1" by (simp add: j2_def j1_def)
  ultimately show ?case using res by auto
qed

section \<open>The way of Data\<close>

definition same_data :: "data_packet \<Rightarrow> data_packet \<Rightarrow> bool" where
  "same_data d e \<longleftrightarrow> pk_name e = pk_name d \<and> pk_type e = pk_type d \<and> pk_kind e = pk_kind d \<and> pk_seqNo e = pk_seqNo d
     \<and> pk_prefixLength e = pk_prefixLength d \<and> freshnessPeriod e = freshnessPeriod d \<and> content e = content d"

lemma data_update_simps [simp]:
  "freshnessPeriod (d\<lparr>pk_controlInfo := c\<rparr>) = freshnessPeriod d" "freshnessPeriod (d\<lparr>pk_hopCount := h\<rparr>) = freshnessPeriod d"
  "freshnessPeriod (d\<lparr>pk_arrivalGate := g\<rparr>) = freshnessPeriod d"
  "content (d\<lparr>pk_controlInfo := c\<rparr>) = content d" "content (d\<lparr>pk_hopCount := h\<rparr>) = content d"
  "content (d\<lparr>pk_arrivalGate := g\<rparr>) = content d"
  by (cases d; simp)+

lemma same_data_refl [simp]: "same_data d d"
  by (simp add: same_data_def)

lemma same_data_trans: "same_data d e \<Longrightarrow> same_data e f \<Longrightarrow> same_data d f"
  by (simp add: same_data_def)

text \<open>What Data leaves behind at a node: the pending Interest is gone and the packet is in the content store.\<close>

definition served :: "data_packet \<Rightarrow> fw \<Rightarrow> fw \<Rightarrow> bool" where
  "served d F F' \<longleftrightarrow> pk_name d \<notin> set (pit_pending (fw_pit F'))
     \<and> (\<exists>t e. same_data d e \<and> fw_cs F' = snd (cs_add t e (fw_cs F)))"

lemma served_same: "served e F F' \<Longrightarrow> same_data d e \<Longrightarrow> served d F F'"
  unfolding served_def by (metis same_data_def same_data_trans)

lemma ll_data_ok:
  assumes "lower_port F g" "pk_type d = DATA" "0 \<le> pk_prefixLength d" "pk_prefixLength d \<le> int (length (pk_name d))"
    and "pk_arrivalGate d = lower_gate g" "pk_controlInfo d = Some c" "mac_wf (ctrl_src c)"
  shows "packet_ok (fw_lowerGates F) (fw_upperGates F) (Data d)"
  using assms by (simp add: packet_ok_def gate_ok_def lower_port_def)

lemma delivered_data:
  assumes "w (n, face) = Some (m, g)" "mac = fw_myMacAddress (Ns m)"
  shows "delivered w Ns n (with_ctrl_d F mac d) face =
    Some (m, Data (d\<lparr>pk_arrivalGate := lower_gate g,
      pk_controlInfo := Some \<lparr>ctrl_src = fw_myMacAddress F, ctrl_dest = data_dest F mac\<rparr>\<rparr>))"
  using assms by (simp add: delivered_def with_ctrl_d_def data_dest_def)

lemma data_follows:
  assumes "trail w Ns nm n ms k" "distinct (n # ms)" "pk_name d = nm" "pk_type d = DATA" "pk_kind d \<noteq> REGISTER_PREFIX_CODE"
    and "0 \<le> pk_prefixLength d" "pk_prefixLength d \<le> int (length nm)"
    and "pk_arrivalGate d = lower_gate g" "lower_port (Ns n) g" "pk_controlInfo d = Some c" "mac_wf (ctrl_src c)"
    and "length ms < length ds" "list_all (\<lambda>(t, u). 0 \<le> t \<and> 0 \<le> u) ds"
  shows "\<exists>d' Ns'. follow ds w (n, Data d) Ns = Inr (Some (last (n # ms), Data d', k), Ns')
     \<and> same_data d d' \<and> pk_hopCount d' = pk_hopCount d + int (length (n # ms))
     \<and> (\<forall>x. x \<notin> set (n # ms) \<longrightarrow> Ns' x = Ns x) \<and> (\<forall>x \<in> set (n # ms). served d (Ns x) (Ns' x))"
  using assms
proof (induction ms arbitrary: n d c g Ns ds)
  case Nil
  obtain t u ds' where ds: "ds = (t, u) # ds'" using Nil.prems(12) by (cases ds) auto
  obtain e where e: "fst (pit_lookup (pk_name d) (fw_pit (Ns n))) = Some e" "isName (pe_face e) ''upperLayerIn''" "gate_index (pe_face e) = k"
    and idle: "fw_idle (fw_lowerGates (Ns n)) (fw_upperGates (Ns n)) (Ns n)"
    using Nil.prems(1,3) by (auto simp: quiet_def split: option.splits)
  note ok = ll_data_ok [OF Nil.prems(9,4,6) Nil.prems(7) [folded Nil.prems(3)] Nil.prems(8,10,11)]
  define d' where "d' = d\<lparr>pk_controlInfo := None, pk_hopCount := pk_hopCount d + 1\<rparr>"
  obtain F' where F': "fw_handleMessage t u (NdnMsg (Data d)) (Ns n) = Inr F'" "\<not> fw_waiting F'"
    "fw_sent F' = fw_sent (Ns n) @ [SendUpper (Data d') k]"
    "pk_name d \<notin> set (pit_pending (fw_pit F'))" "fw_cs F' = snd (cs_add t d' (fw_cs (Ns n)))"
    using ll_data_local [OF idle ok _ Nil.prems(5,10) e(1,2), of t u] e(3) Nil.prems(8) by (auto simp: d'_def)
  have same: "same_data d d'" by (simp add: same_data_def d'_def)
  with F'(4,5) have "served d (Ns n) F'" by (auto simp: served_def)
  moreover have "pk_hopCount d' = pk_hopCount d + 1" by (simp add: d'_def)
  ultimately show ?case using F' same by (simp add: ds)
next
  case (Cons m ms)
  obtain t u ds' where ds: "ds = (t, u) # ds'" "0 \<le> t" "0 \<le> u" "length ms < length ds'" "list_all (\<lambda>(t, u). 0 \<le> t \<and> 0 \<le> u) ds'"
    using Cons.prems(12,13) by (cases ds) auto
  obtain e f where e: "fst (pit_lookup (pk_name d) (fw_pit (Ns n))) = Some e" "isName (pe_face e) ''lowerLayerIn''"
      "pe_macSrc e = fw_myMacAddress (Ns m)" "w (n, gate_index (pe_face e)) = Some (m, f)" "lower_port (Ns m) f"
    and tr: "trail w Ns nm m ms k" and q: "quiet (Ns n)"
    using Cons.prems(1,3) by (auto split: option.splits)
  have fwd: "fw_forwarding (Ns n)" and idle: "fw_idle (fw_lowerGates (Ns n)) (fw_upperGates (Ns n)) (Ns n)"
    using q by (simp_all add: quiet_def)
  note ok = ll_data_ok [OF Cons.prems(9,4,6) Cons.prems(7) [folded Cons.prems(3)] Cons.prems(8,10,11)]
  define d1 where "d1 = d\<lparr>pk_controlInfo := None, pk_hopCount := pk_hopCount d + 1\<rparr>"
  have g: "isName (pk_arrivalGate d) ''lowerLayerIn''" using Cons.prems(8) by simp
  from ll_data_remote [OF idle ok g Cons.prems(5,10) e(1,2) fwd ds(3), of t, folded d1_def]
  obtain F1 F2 where F: "fw_handleMessage t u (NdnMsg (Data d)) (Ns n) = Inr F1" "fw_waiting F1"
    "fw_exec DelayTimer F1 = Inr F2"
    "fw_sent F2 = fw_sent (Ns n) @ [SendLower (with_ctrl_d (Ns n) (pe_macSrc e) d1) (gate_index (pe_face e))]"
    "pk_name d \<notin> set (pit_pending (fw_pit F2))" "fw_cs F2 = snd (cs_add t d1 (fw_cs (Ns n)))"
    by (elim exE conjE) (simp del: fw_handleMessage.simps fw_exec.simps)
  let ?Ns = "Ns(n := F2)"
  define d2 where "d2 = d1\<lparr>pk_arrivalGate := lower_gate f,
     pk_controlInfo := Some \<lparr>ctrl_src = fw_myMacAddress (Ns n), ctrl_dest = data_dest (Ns n) (pe_macSrc e)\<rparr>\<rparr>"
  have same: "same_data d d1" "same_data d d2" by (simp_all add: same_data_def d1_def d2_def)
  have ne: "m \<noteq> n" "n \<notin> set (m # ms)" using Cons.prems(2) by auto
  have del: "delivered w ?Ns n (with_ctrl_d (Ns n) (pe_macSrc e) d1) (gate_index (pe_face e)) = Some (m, Data d2)"
    using delivered_data [where w = w and mac = "pe_macSrc e" and Ns = ?Ns and F = "Ns n" and d = d1, OF e(4)] e(3) ne
    by (simp add: d2_def)
  have "\<exists>d' Ns'. follow ds' w (m, Data d2) ?Ns = Inr (Some (last (m # ms), Data d', k), Ns')
     \<and> same_data d2 d' \<and> pk_hopCount d' = pk_hopCount d2 + int (length (m # ms))
     \<and> (\<forall>x. x \<notin> set (m # ms) \<longrightarrow> Ns' x = ?Ns x) \<and> (\<forall>x \<in> set (m # ms). served d2 (?Ns x) (Ns' x))"
  proof (rule Cons.IH [where g = f])
    show "trail w ?Ns nm m ms k" using tr trail_cong [OF ne(2)] by blast
    show "lower_port (?Ns m) f" using e(5) ne by simp
    show "mac_wf (ctrl_src \<lparr>ctrl_src = fw_myMacAddress (Ns n), ctrl_dest = data_dest (Ns n) (pe_macSrc e)\<rparr>)"
      using idle_nl [OF idle] by simp
  qed (use Cons.prems ds in \<open>simp_all add: d2_def d1_def\<close>)
  then obtain d' Ns' where res: "follow ds' w (m, Data d2) ?Ns = Inr (Some (last (m # ms), Data d', k), Ns')"
     "same_data d2 d'" "pk_hopCount d' = pk_hopCount d2 + int (length (m # ms))"
     "\<forall>x. x \<notin> set (m # ms) \<longrightarrow> Ns' x = ?Ns x" "\<forall>x \<in> set (m # ms). served d2 (?Ns x) (Ns' x)" by blast
  have "follow ds w (n, Data d) Ns = Inr (Some (last (n # m # ms), Data d', k), Ns')"
    using F del res(1) by (simp add: ds)
  moreover have "served d (Ns n) (Ns' n)" using F(5,6) same(1) res(4) ne(2) by (auto simp: served_def)
  moreover have "served d (Ns x) (Ns' x)" if x: "x \<in> set (m # ms)" for x
  proof -
    have "x \<noteq> n" using x ne(2) by metis
    then show ?thesis using bspec [OF res(5) x] served_same [OF _ same(2)] by simp
  qed
  moreover have "pk_hopCount d2 = pk_hopCount d + 1" by (simp add: d2_def d1_def)
  ultimately show ?case using res same_data_trans [OF same(2) res(2)] by auto
qed

section \<open>An exchange\<close>

lemma hl_packet_ok:
  assumes "0 \<le> k" "k < int (fw_upperGates F)"
  shows "pk_type i = INTEREST \<Longrightarrow> pk_arrivalGate i = upper_gate k \<Longrightarrow> pk_controlInfo i = None \<Longrightarrow>
      packet_ok (fw_lowerGates F) (fw_upperGates F) (Interest i)"
    and "pk_type d = DATA \<Longrightarrow> 0 \<le> pk_prefixLength d \<Longrightarrow> pk_prefixLength d \<le> int (length (pk_name d)) \<Longrightarrow>
      pk_arrivalGate d = upper_gate k \<Longrightarrow> pk_controlInfo d = None \<Longrightarrow>
      packet_ok (fw_lowerGates F) (fw_upperGates F) (Data d)"
  using assms by (simp_all add: packet_ok_def gate_ok_def)

lemma interest_travels:
  assumes "route w Ns i n0 (m # ms) k" "distinct (n0 # m # ms)"
    and "pk_type i = INTEREST" "pk_kind i \<noteq> REGISTER_PREFIX_CODE" "pk_controlInfo i = None"
    and "pk_arrivalGate i = upper_gate k0" "0 \<le> k0" "k0 < int (fw_upperGates (Ns n0))"
    and "length (m # ms) < length ds" "list_all (\<lambda>(t, u). 0 \<le> t \<and> 0 \<le> u) ds"
  shows "\<exists>j Ns'. follow ds w (n0, Interest i) Ns = Inr (Some (last (m # ms), Interest j, k), Ns')
     \<and> alike i j \<and> pk_hopCount j = pk_hopCount i + int (length (m # ms))
     \<and> trail w Ns' (pk_name i) (last (m # ms)) (tl (rev (m # ms)) @ [n0]) k0
     \<and> (\<forall>x. x \<notin> set (n0 # m # ms) \<longrightarrow> Ns' x = Ns x) \<and> (\<forall>x. same_node (Ns x) (Ns' x))"
proof -
  obtain t u ds' where ds: "ds = (t, u) # ds'" "0 \<le> t" "0 \<le> u" "length ms < length ds'" "list_all (\<lambda>(t, u). 0 \<le> t \<and> 0 \<le> u) ds'"
    using assms(9,10) by (cases ds) auto
  obtain e g where e: "fst (fib_lookup (pk_name i) (fw_fib (Ns n0))) = Some e" "isName (fe_face e) ''lowerLayerIn''"
      "fe_macDest e = fw_myMacAddress (Ns m)" "w (n0, gate_index (fe_face e)) = Some (m, g)" "lower_port (Ns m) g"
      "w (m, g) = Some (n0, gate_index (fe_face e))"
    and q: "quiet (Ns n0)" "open_to i (Ns n0)" and rt: "route w Ns i m ms k"
    using assms(1) by (auto split: option.splits)
  have idle: "fw_idle (fw_lowerGates (Ns n0)) (fw_upperGates (Ns n0)) (Ns n0)" using q(1) by (simp add: quiet_def)
  note ok = hl_packet_ok(1) [OF assms(7,8,3,6,5)]
  obtain F' where F': "fw_handleMessage t u (NdnMsg (Interest i)) (Ns n0) = Inr F'" "same_node (Ns n0) F'" "\<not> fw_waiting F'"
    "fw_sent F' = fw_sent (Ns n0) @ [SendLower (with_ctrl_i (Ns n0) (fe_macDest e) i) (gate_index (fe_face e))]"
    "fst (pit_lookup (pk_name i) (fw_pit F')) = Some (new_PitEntry t i (pk_arrivalGate i) (fw_myMacAddress (Ns n0)))"
    using hl_interest_remote [OF idle ok _ assms(4,5) q(2) e(1,2), of t u] assms(6) by auto
  let ?Ns = "Ns(n0 := F')"
  have qF: "quiet F'" using quiet_after [OF q(1) ok _ ds(3,2) F'(1-3)] assms(4) by simp
  have ne: "m \<noteq> n0" "n0 \<notin> set (m # ms)" using assms(2) by auto
  define c where "c = \<lparr>ctrl_src = fw_myMacAddress (Ns n0), ctrl_dest = interest_dest (Ns n0) (fe_macDest e)\<rparr>"
  define j where "j = i\<lparr>pk_arrivalGate := lower_gate g, pk_controlInfo := Some c\<rparr>"
  have del: "delivered w ?Ns n0 (with_ctrl_i (Ns n0) (fe_macDest e) i) (gate_index (fe_face e)) = Some (m, Interest j)"
    using delivered_interest [where w = w and mac = "fe_macDest e" and Ns = ?Ns and F = "Ns n0" and i = i, OF e(4)] e(3) ne
    by (simp add: j_def c_def)
  have tr: "trail w ?Ns (pk_name i) n0 [] k0"
    using qF F'(5) assms(6) by (simp add: new_PitEntry_def)
  have rt': "route w ?Ns i m ms k" using rt ne(2) by (simp add: route_cong)
  have port: "lower_port (?Ns n0) (gate_index (fe_face e))"
    using gate_okD(1) [OF fib_found_gate [OF idle e(1)] e(2)] F'(2) by (simp add: lower_port_def same_node_def)
  have d: "distinct (m # ms @ [n0])" using assms(2) by auto
  have j: "alike i j" "pk_arrivalGate j = lower_gate g" "pk_controlInfo j = Some c" "pk_hopCount j = pk_hopCount i"
    "ctrl_src c = fw_myMacAddress (?Ns n0)"
    using F'(2) by (simp_all add: j_def alike_def c_def same_node_def)
  have port': "lower_port (?Ns m) g" using e(5) ne by simp
  from interest_follows [OF rt' d tr j(1) assms(3,4) j(2,3,5) e(6) port' port ds(4,5)]
  obtain j' Ns' where res: "follow ds' w (m, Interest j) ?Ns = Inr (Some (last (m # ms), Interest j', k), Ns')" "alike i j'"
    "pk_hopCount j' = pk_hopCount j + int (length (m # ms))"
    "trail w Ns' (pk_name i) (last (m # ms)) (tl (rev (m # ms)) @ [n0]) k0"
    "\<forall>x. x \<notin> set (m # ms) \<longrightarrow> Ns' x = ?Ns x" and kept: "\<forall>x. same_node (?Ns x) (Ns' x)" by blast
  have "\<forall>x. same_node (Ns x) (Ns' x)" by (rule same_node_upd [OF F'(2) kept])
  moreover have "follow ds w (n0, Interest i) Ns = Inr (Some (last (m # ms), Interest j', k), Ns')"
    using F' del res(1) by (simp add: ds)
  ultimately show ?thesis using res j(4) by auto
qed

lemma data_travels:
  assumes "trail w Ns nm n (b # tr) k0" "distinct (n # b # tr)" "pk_name d = nm" "pk_type d = DATA"
    and "pk_kind d \<noteq> REGISTER_PREFIX_CODE" "pk_controlInfo d = None" "0 \<le> pk_prefixLength d" "pk_prefixLength d \<le> int (length nm)"
    and "pk_arrivalGate d = upper_gate k" "0 \<le> k" "k < int (fw_upperGates (Ns n))"
    and "length (b # tr) < length ds" "list_all (\<lambda>(t, u). 0 \<le> t \<and> 0 \<le> u) ds"
  shows "\<exists>d' Ns'. follow ds w (n, Data d) Ns = Inr (Some (last (b # tr), Data d', k0), Ns')
     \<and> same_data d d' \<and> pk_hopCount d' = pk_hopCount d + int (length (b # tr))
     \<and> (\<forall>x. x \<notin> set (n # b # tr) \<longrightarrow> Ns' x = Ns x) \<and> (\<forall>x \<in> set (n # b # tr). served d (Ns x) (Ns' x))"
proof -
  obtain t u ds' where ds: "ds = (t, u) # ds'" "0 \<le> t" "0 \<le> u" "length tr < length ds'" "list_all (\<lambda>(t, u). 0 \<le> t \<and> 0 \<le> u) ds'"
    using assms(12,13) by (cases ds) auto
  obtain e f where e: "fst (pit_lookup (pk_name d) (fw_pit (Ns n))) = Some e" "isName (pe_face e) ''lowerLayerIn''"
      "pe_macSrc e = fw_myMacAddress (Ns b)" "w (n, gate_index (pe_face e)) = Some (b, f)" "lower_port (Ns b) f"
    and tr: "trail w Ns nm b tr k0" and q: "quiet (Ns n)"
    using assms(1,3) by (auto split: option.splits)
  have idle: "fw_idle (fw_lowerGates (Ns n)) (fw_upperGates (Ns n)) (Ns n)" using q(1) by (simp add: quiet_def)
  note ok = hl_packet_ok(2) [OF assms(10,11,4,7) assms(8) [folded assms(3)] assms(9,6)]
  obtain F' where F': "fw_handleMessage t u (NdnMsg (Data d)) (Ns n) = Inr F'" "same_node (Ns n) F'" "\<not> fw_waiting F'"
    "fw_sent F' = fw_sent (Ns n) @ [SendLower (with_ctrl_d (Ns n) (pe_macSrc e) d) (gate_index (pe_face e))]"
    "pk_name d \<notin> set (pit_pending (fw_pit F'))" "fw_cs F' = snd (cs_add t d (fw_cs (Ns n)))"
    using hl_data_remote [OF idle ok _ assms(5,6) e(1,2), of t u] assms(9) by auto
  let ?Ns = "Ns(n := F')"
  have ne: "b \<noteq> n" "n \<notin> set (b # tr)" using assms(2) by auto
  define c where "c = \<lparr>ctrl_src = fw_myMacAddress (Ns n), ctrl_dest = data_dest (Ns n) (pe_macSrc e)\<rparr>"
  define d2 where "d2 = d\<lparr>pk_arrivalGate := lower_gate f, pk_controlInfo := Some c\<rparr>"
  have del: "delivered w ?Ns n (with_ctrl_d (Ns n) (pe_macSrc e) d) (gate_index (pe_face e)) = Some (b, Data d2)"
    using delivered_data [where w = w and mac = "pe_macSrc e" and Ns = ?Ns and F = "Ns n" and d = d, OF e(4)] e(3) ne
    by (simp add: d2_def c_def)
  have d2: "pk_name d2 = nm" "pk_type d2 = DATA" "pk_kind d2 \<noteq> REGISTER_PREFIX_CODE" "0 \<le> pk_prefixLength d2"
    "pk_prefixLength d2 \<le> int (length nm)" "pk_arrivalGate d2 = lower_gate f" "pk_controlInfo d2 = Some c"
    "pk_hopCount d2 = pk_hopCount d" "same_data d d2" "mac_wf (ctrl_src c)"
    using assms(3-8) idle_nl [OF idle] by (simp_all add: d2_def same_data_def c_def)
  have tr': "trail w ?Ns nm b tr k0" using tr trail_cong [OF ne(2)] by blast
  have port: "lower_port (?Ns b) f" and dist: "distinct (b # tr)" using e(5) ne assms(2) by auto
  from data_follows [OF tr' dist d2(1-6) port d2(7,10) ds(4,5)]
  obtain d' Ns' where res: "follow ds' w (b, Data d2) ?Ns = Inr (Some (last (b # tr), Data d', k0), Ns')"
     "same_data d2 d'" "pk_hopCount d' = pk_hopCount d2 + int (length (b # tr))"
     "\<forall>x. x \<notin> set (b # tr) \<longrightarrow> Ns' x = ?Ns x" "\<forall>x \<in> set (b # tr). served d2 (?Ns x) (Ns' x)" by blast
  have "follow ds w (n, Data d) Ns = Inr (Some (last (b # tr), Data d', k0), Ns')"
    using F' del res(1) by (simp add: ds)
  moreover have "served d (Ns n) (Ns' n)" using F'(5,6) res(4) ne(2) by (auto simp: served_def intro: same_data_refl)
  moreover have "served d (Ns x) (Ns' x)" if x: "x \<in> set (b # tr)" for x
  proof -
    have "x \<noteq> n" using x ne(2) by metis
    then show ?thesis using bspec [OF res(5) x] served_same [OF _ d2(9)] by simp
  qed
  ultimately show ?thesis using res d2(8) same_data_trans [OF d2(9) res(2)] by auto
qed

lemma producer_makes_data:
  assumes "pr_up R" "pk_type i = INTEREST" "prefix (pr_pPrefix R) (pk_name i)"
    and "pr_startTime R \<le> now" "pr_stopTime R < 0 \<or> now < pr_stopTime R"
  shows "\<exists>R' d. producer_handleMessage tok now (AppPacket (Interest i)) R = Inr R'
    \<and> pr_sent R' = pr_sent R @ [(now + SimTime_ms 1, Data d)] \<and> pk_name d = pk_name i \<and> pk_seqNo d = pk_seqNo i
    \<and> pk_type d = DATA \<and> pk_kind d \<noteq> REGISTER_PREFIX_CODE \<and> pk_controlInfo d = None \<and> pk_hopCount d = 0
    \<and> 0 \<le> pk_prefixLength d \<and> pk_prefixLength d \<le> int (length (pk_name d))"
  using assms
  by (auto simp: processInterest_def Let_def computeTlvPacketSize_def INTEREST_def DATA_def new_Data_def
      REGISTER_PREFIX_CODE_def one_and_a_half_ms prefix_length_le)

lemma consumer_accepts:
  assumes "consumer_initialize t0 up pfx numInterests reTx lifetime start stop = Inr A0"
    and "run_result (consumer_exec tok) evs A0 = Inr A" "0 \<le> pk_seqNo d" "pk_seqNo d < co_intSeqNo A"
  shows "\<exists>A'. onData now d A = Inr A' \<and> co_numDataReceived A' = co_numDataReceived A + 1
    \<and> co_hopCountStat A' = co_hopCountStat A @ [pk_hopCount d]"
proof -
  have "history_inv A"
    using consumer_runs.run_keeps [OF consumer_inv_initialize [OF assms(1)] assms(2)] by (simp add: consumer_inv_def)
  then obtain c where "co_numRetxHistory A ! (nat (pk_seqNo d) mod 100) = Some c"
    using assms(3,4) history_slot by blast
  then show ?thesis using assms(3) by (simp add: onData_def HISTORY_SIZE_def Let_def history_index_nonneg)
qed

text \<open>
  C2: a consumer gets its Data.  Where the forwarding tables of the nodes on a path lead an Interest of
  a consumer to an active producer, and nothing else happens in the network, the Interest reaches the
  producer, which answers it, and the Data comes back to the very application that asked, whatever the
  random delays are: it has the name and number of the Interest, has counted the hops, no node of the path
  has the Interest pending any more and each has cached the Data, no other node has changed, and the
  consumer counts it as received.
\<close>

theorem ndn_fetches_data:
  assumes "consumer_initialize t0 up pfx numInterests reTx lifetime start stop = Inr A0"
    and "run_result (consumer_exec tok) evs A0 = Inr A" "0 \<le> pk_seqNo i" "pk_seqNo i < co_intSeqNo A"
    and "pk_type i = INTEREST" "pk_kind i \<noteq> REGISTER_PREFIX_CODE" "pk_controlInfo i = None"
    and "pk_arrivalGate i = upper_gate k0" "0 \<le> k0" "k0 < int (fw_upperGates (Ns n0))"
    and "route w Ns i n0 (m # ms) k" "distinct (n0 # m # ms)"
    and "pr_up R" "prefix (pr_pPrefix R) (pk_name i)" "pr_startTime R \<le> t" "pr_stopTime R < 0 \<or> t < pr_stopTime R"
    and "length (m # ms) < length ds1" "list_all (\<lambda>(t, u). 0 \<le> t \<and> 0 \<le> u) ds1"
    and "length (m # ms) < length ds2" "list_all (\<lambda>(t, u). 0 \<le> t \<and> 0 \<le> u) ds2"
  shows "\<exists>j Ns1 R' d d' Ns2 A'.
     follow ds1 w (n0, Interest i) Ns = Inr (Some (last (m # ms), Interest j, k), Ns1)
     \<and> producer_handleMessage tok' t (AppPacket (Interest j)) R = Inr R'
     \<and> pr_sent R' = pr_sent R @ [(t + SimTime_ms 1, Data d)]
     \<and> follow ds2 w (last (m # ms), arriving (upper_gate k) (Data d)) Ns1 = Inr (Some (n0, Data d', k0), Ns2)
     \<and> pk_name d' = pk_name i \<and> pk_seqNo d' = pk_seqNo i \<and> pk_hopCount d' = int (length (m # ms))
     \<and> (\<forall>x \<in> set (n0 # m # ms). served d (Ns1 x) (Ns2 x)) \<and> (\<forall>x. x \<notin> set (n0 # m # ms) \<longrightarrow> Ns2 x = Ns x)
     \<and> onData t' d' A = Inr A' \<and> co_numDataReceived A' = co_numDataReceived A + 1
     \<and> co_hopCountStat A' = co_hopCountStat A @ [int (length (m # ms))]"
proof -
  let ?p = "last (m # ms)"
  from interest_travels [OF assms(11,12,5-10,17,18)] obtain j Ns1 where
    there: "follow ds1 w (n0, Interest i) Ns = Inr (Some (?p, Interest j, k), Ns1)" "alike i j"
      "trail w Ns1 (pk_name i) ?p (tl (rev (m # ms)) @ [n0]) k0"
      "\<forall>x. x \<notin> set (n0 # m # ms) \<longrightarrow> Ns1 x = Ns x" "\<forall>x. same_node (Ns x) (Ns1 x)" by blast
  have j: "pk_name j = pk_name i" "pk_type j = INTEREST" "pk_seqNo j = pk_seqNo i"
    using there(2) assms(5) by (simp_all add: alike_def)
  obtain R' d where made: "producer_handleMessage tok' t (AppPacket (Interest j)) R = Inr R'"
    "pr_sent R' = pr_sent R @ [(t + SimTime_ms 1, Data d)]"
    and d: "pk_name d = pk_name i" "pk_seqNo d = pk_seqNo i" "pk_type d = DATA" "pk_kind d \<noteq> REGISTER_PREFIX_CODE"
      "pk_controlInfo d = None" "pk_hopCount d = 0" "0 \<le> pk_prefixLength d" "pk_prefixLength d \<le> int (length (pk_name i))"
    using producer_makes_data [OF assms(13) j(2), of t tok'] assms(14-16) j by auto
  define e where "e = d\<lparr>pk_arrivalGate := upper_gate k\<rparr>"
  have e: "pk_name e = pk_name i" "pk_seqNo e = pk_seqNo i" "pk_type e = DATA" "pk_kind e \<noteq> REGISTER_PREFIX_CODE"
    "pk_controlInfo e = None" "pk_hopCount e = 0" "0 \<le> pk_prefixLength e" "pk_prefixLength e \<le> int (length (pk_name i))"
    "pk_arrivalGate e = upper_gate k" "arriving (upper_gate k) (Data d) = Data e" "same_data d e"
    using d by (simp_all add: e_def same_data_def)
  have k: "0 \<le> k" "k < int (fw_upperGates (Ns1 ?p))"
    using route_end [OF assms(11)] there(5) by (simp_all add: same_node_def)
  have split: "rev (m # ms) = ?p # tl (rev (m # ms))" by (cases ms rule: rev_cases) simp_all
  obtain b tr where tr: "tl (rev (m # ms)) @ [n0] = b # tr" "last (b # tr) = n0" by (metis append_is_Nil_conv list.exhaust last_snoc not_Cons_self2)
  have path: "?p # b # tr = rev (m # ms) @ [n0]" using split tr(1) by (metis append_Cons)
  have sets: "set (?p # b # tr) = set (n0 # m # ms)" "length (b # tr) = length (m # ms)" "distinct (?p # b # tr)"
    unfolding path using arg_cong [OF path, of length] assms(12) by auto
  have len: "length (b # tr) < length ds2" using assms(19) sets(2) by simp
  from data_travels [OF there(3) [unfolded tr(1)] sets(3) e(1,3-5,7-9) k len assms(20)] obtain d' Ns2 where
    home: "follow ds2 w (?p, Data e) Ns1 = Inr (Some (n0, Data d', k0), Ns2)" "same_data e d'"
      "pk_hopCount d' = int (length (m # ms))" "\<forall>x. x \<notin> set (n0 # m # ms) \<longrightarrow> Ns2 x = Ns1 x"
      "\<forall>x \<in> set (n0 # m # ms). served e (Ns1 x) (Ns2 x)"
    unfolding sets(1,2) tr(2) e(6) by auto
  have d': "pk_name d' = pk_name i" "pk_seqNo d' = pk_seqNo i" using home(2) e by (simp_all add: same_data_def)
  from consumer_accepts [OF assms(1,2), of d' t'] assms(3,4) d'(2) obtain A' where
    "onData t' d' A = Inr A'" "co_numDataReceived A' = co_numDataReceived A + 1"
    "co_hopCountStat A' = co_hopCountStat A @ [pk_hopCount d']" by auto
  then show ?thesis using there(1,4) made home(1,3-5) e(10) d' served_same [OF _ e(11)]
    by (intro exI [of _ j] exI [of _ Ns1] exI [of _ R'] exI [of _ d] exI [of _ d'] exI [of _ Ns2] exI [of _ A']) simp
qed

lemma first_interest:
  "\<exists>A0 A. consumer_initialize 0 True ''/a'' 3 1 4000 5 (-1) = Inr A0
     \<and> run_result (consumer_exec (\<lambda>s. [s])) [Fire \<lparr>draw_l1 = 0, draw_l2 = 1, draw_nonce = [1, 2, 3, 4]\<rparr> 10] A0 = Inr A
     \<and> 0 < co_intSeqNo A"
proof -
  obtain A0 where A0: "consumer_initialize 0 True ''/a'' 3 1 4000 5 (-1) = Inr A0" "co_timer A0 = Some 5"
    "co_numIntSent A0 = 0" "co_up A0" "co_stopTime A0 = -1"
    by (simp add: consumer_initialize_def startApp_def scheduleNextInterest_def Let_def)
  have inv: "history_inv A0" "co_numInterests A0 = 3"
    using consumer_inv_initialize [OF A0(1)] by (simp_all add: consumer_inv_def)
  have n0: "co_intSeqNo A0 = 0" using inv A0 by (simp add: history_inv_def)
  have "history_inv (A0\<lparr>co_timer := None\<rparr>)" using inv by (simp add: history_inv_def)
  from createNextInterest_eq [OF this, of "\<lambda>s. [s]" 5 "\<lparr>draw_l1 = 0, draw_l2 = 1, draw_nonce = [1, 2, 3, 4]\<rparr>"]
  show ?thesis using A0 n0 inv by (auto simp: expressInterest_def scheduleNextInterest_def Let_def)
qed

text \<open>Three nodes in a line, with the producer at the last; the prefix \<^verbatim>\<open>/a\<close> is registered at each.\<close>

definition line_wires :: wiring where
  "line_wires p = (if p = (0, 0) then Some (1, 0) else if p = (1, 0) then Some (0, 0)
     else if p = (1, 1) then Some (2, 0) else if p = (2, 0) then Some (1, 1) else None)"

definition line_node :: "nat \<Rightarrow> gate \<Rightarrow> fw" where
  "line_node n face =
     (sample_fw (pit_initialize 9 4000)
       (snd (fib_registerPrefix 0 ''/a'' face (MACAddress (word_of_nat (n + 2))) (fib_initialize 9 1000))) (cs_initialize 9))
       \<lparr>fw_myMacAddress := MACAddress (word_of_nat (n + 1))\<rparr>"

definition line_nodes :: "nat \<Rightarrow> fw" where
  "line_nodes n = line_node n (if n = 0 then lower_gate 0 else if n = 1 then lower_gate 1 else upper_gate 0)"

definition line_interest :: interest where
  "line_interest = (new_Interest ''/a/1'')\<lparr>pk_type := 5, pk_arrivalGate := upper_gate 1\<rparr>"

lemma line_quiet:
  assumes "n < 3" "gate_ok 2 2 face"
  shows "quiet (line_node n face)"
proof -
  have B: "fib_ok 2 2 (snd (fib_registerPrefix 0 ''/a'' face (MACAddress (word_of_nat (n + 2))) (fib_initialize 9 1000)))"
    by (rule fib_ok_registerPrefix [OF empty_tables(2) assms(2)])
  have "n = 0 \<or> n = 1 \<or> n = 2" using assms(1) by auto
  then have "mac_wf (MACAddress (word_of_nat (n + 1)))" by (auto simp: mac_wf_def MAC_ADDRESS_MASK_def)
  then show ?thesis
    using inv_not_waiting [OF sample_inv [OF empty_tables(1) B empty_tables(3)]] B empty_tables(1,3)
    by (simp add: quiet_def line_node_def sample_fw_def fw_idle_def fw_base_def)
qed

lemma line_node_fields [simp]:
  "fst (fib_lookup ''/a/1'' (fw_fib (line_node n face))) =
     Some (new_FibEntry 0 ''/a'' face (MACAddress (word_of_nat (n + 2))) 100000)"
  "fw_myMacAddress (line_node n face) = MACAddress (word_of_nat (n + 1))"
  "fw_lowerGates (line_node n face) = 2" "fw_upperGates (line_node n face) = 2"
  "open_to line_interest (line_node n face)"
proof -
  let ?B = "snd (fib_registerPrefix 0 ''/a'' face (MACAddress (word_of_nat (n + 2))) (fib_initialize 9 1000))"
  have "fib_entries ?B = [new_FibEntry 0 ''/a'' face (MACAddress (word_of_nat (n + 2))) 100000]"
    by (simp add: fib_registerPrefix_def fib_initialize_def fib_match_def)
  then show "fst (fib_lookup ''/a/1'' (fw_fib (line_node n face))) =
     Some (new_FibEntry 0 ''/a'' face (MACAddress (word_of_nat (n + 2))) 100000)"
    by (simp add: line_node_def fib_lookup_def fib_match_def fe_matches_def new_FibEntry_def Let_def)
qed (simp_all add: line_node_def sample_fw_def open_to_def line_interest_def empty_tables)

theorem ndn_fetches_data_witness:
  "\<exists>j Ns1 d d' Ns2. follow [(1, 0), (2, 0), (3, 0)] line_wires (0, Interest line_interest) line_nodes = Inr (Some (2, Interest j, 0), Ns1)
     \<and> follow [(4, 0), (5, 1), (6, 0)] line_wires (2, arriving (upper_gate 0) (Data d)) Ns1 = Inr (Some (0, Data d', 1), Ns2)
     \<and> pk_name d' = ''/a/1'' \<and> pk_hopCount d' = 2"
proof -
  let ?r = "\<lparr>draw_l1 = 0, draw_l2 = 1, draw_nonce = [1, 2, 3, 4 :: 8 word]\<rparr>"
  let ?R = "producer_initialize 0 True ''/a'' 100 0 (-1)"
  obtain A0 A where A: "consumer_initialize 0 True ''/a'' 3 1 4000 5 (-1) = Inr A0"
    "run_result (consumer_exec (\<lambda>s. [s])) [Fire ?r 10] A0 = Inr A" "0 < co_intSeqNo A"
    using first_interest by blast
  have i: "pk_type line_interest = INTEREST" "pk_kind line_interest \<noteq> REGISTER_PREFIX_CODE" "pk_controlInfo line_interest = None"
    "pk_arrivalGate line_interest = upper_gate 1" "pk_seqNo line_interest = 0" "pk_name line_interest = ''/a/1''"
    by (simp_all add: line_interest_def new_Interest_def INTEREST_def REGISTER_PREFIX_CODE_def)
  have n: "line_nodes 0 = line_node 0 (lower_gate 0)" "line_nodes 1 = line_node 1 (lower_gate 1)" "line_nodes 2 = line_node 2 (upper_gate 0)"
    by (simp_all add: line_nodes_def)
  have q: "quiet (line_node 0 (lower_gate 0))" "quiet (line_node 1 (lower_gate 1))" "quiet (line_node 2 (upper_gate 0))"
    by (rule line_quiet; simp add: gate_ok_def)+
  have rt: "route line_wires line_nodes line_interest 0 [1, 2] 0"
    by (simp add: n [simplified] q [simplified] i line_wires_def new_FibEntry_def lower_port_def)
  have R: "pr_up ?R" "prefix (pr_pPrefix ?R) (pk_name line_interest)" "pr_startTime ?R \<le> 4" "pr_stopTime ?R < 0 \<or> 4 < pr_stopTime ?R"
    by (simp_all add: producer_initialize_def producer_registerPrefix_def i)
  have k: "0 \<le> (1::int)" "1 < int (fw_upperGates (line_nodes 0))" "0 \<le> pk_seqNo line_interest" "pk_seqNo line_interest < co_intSeqNo A"
    using A(3) by (simp_all add: n i)
  have ds: "length [1, 2 :: nat] < length [(1, 0), (2, 0), (3 :: simtime, 0 :: rat)]" "length [1, 2 :: nat] < length [(4, 0), (5, 1), (6 :: simtime, 0 :: rat)]"
    "list_all (\<lambda>(t, u). 0 \<le> t \<and> 0 \<le> u) [(1, 0), (2, 0), (3 :: simtime, 0 :: rat)]"
    "list_all (\<lambda>(t, u). 0 \<le> t \<and> 0 \<le> u) [(4, 0), (5, 1), (6 :: simtime, 0 :: rat)]" by simp_all
  have dist: "distinct [0, 1, 2 :: nat]" by simp
  from ndn_fetches_data [OF A(1,2) k(3,4) i(1-4) k(1,2) rt dist R ds(1,3,2,4), of "\<lambda>s. [s]" 9]
  obtain j Ns1 d d' Ns2 where
    "follow [(1, 0), (2, 0), (3, 0)] line_wires (0, Interest line_interest) line_nodes = Inr (Some (2, Interest j, 0), Ns1)"
    "follow [(4, 0), (5, 1), (6, 0)] line_wires (2, arriving (upper_gate 0) (Data d)) Ns1 = Inr (Some (0, Data d', 1), Ns2)"
    "pk_name d' = ''/a/1''" "pk_hopCount d' = 2"
    by (auto simp: i simp del: follow.simps)
  then show ?thesis by blast
qed

end
