(* ===== verification/NdnTyping.thy ===== *)
theory NdnTyping
  imports NdnNetwork
begin

text \<open>
  What leaves a module of the NDN stack is what the next one accepts: the forwarder only sends Interests
  and Data with the fields of their class, with the control info of the link layer exactly towards the link
  layer, and the applications only send packets a forwarder takes.
\<close>

section \<open>Typed outputs\<close>

fun ndn_class :: "packet \<Rightarrow> bool" where
  "ndn_class (NdnPacket b) \<longleftrightarrow> False"
| "ndn_class p \<longleftrightarrow> class_ok p"

fun typed_output :: "nat \<Rightarrow> nat \<Rightarrow> MACAddress \<Rightarrow> fw_output \<Rightarrow> bool" where
  "typed_output nl nu mac (SendLower p g) \<longleftrightarrow> ndn_class p \<and> 0 \<le> g \<and> g < int nl
     \<and> (case getControlInfo p of None \<Rightarrow> False | Some c \<Rightarrow> ctrl_src c = mac)"
| "typed_output nl nu mac (SendUpper p g) \<longleftrightarrow> ndn_class p \<and> 0 \<le> g \<and> g < int nu \<and> getControlInfo p = None"

definition pit_typed :: "pit \<Rightarrow> bool" where
  "pit_typed P \<longleftrightarrow> list_all (\<lambda>e. pk_type (pe_interest e) = INTEREST) (pit_entries P)"

definition cs_typed :: "cs \<Rightarrow> bool" where
  "cs_typed C \<longleftrightarrow> list_all (\<lambda>d. class_ok (Data d)) (cs_items C)"

definition fw_typed :: "fw \<Rightarrow> bool" where
  "fw_typed F \<longleftrightarrow> list_all (typed_output (fw_lowerGates F) (fw_upperGates F) (fw_myMacAddress F)) (fw_sent F)
     \<and> pit_typed (fw_pit F) \<and> cs_typed (fw_cs F) \<and> pred_option class_ok (sd_packet F)"

lemma typed_fields [simp]:
  "fw_typed (F\<lparr>fw_numIntReceived := x\<rparr>) = fw_typed F" "fw_typed (F\<lparr>fw_numIntFwd := x\<rparr>) = fw_typed F"
  "fw_typed (F\<lparr>fw_numIntCanceled := x\<rparr>) = fw_typed F" "fw_typed (F\<lparr>fw_numIntDuplicated := x\<rparr>) = fw_typed F"
  "fw_typed (F\<lparr>fw_numDataCanceled := x\<rparr>) = fw_typed F" "fw_typed (F\<lparr>fw_numDataReceived := x\<rparr>) = fw_typed F"
  "fw_typed (F\<lparr>fw_numDataUnsolicited := x\<rparr>) = fw_typed F" "fw_typed (F\<lparr>fw_numDataFwd := x\<rparr>) = fw_typed F"
  "fw_typed (F\<lparr>fw_fib := B\<rparr>) = fw_typed F" "fw_typed (F\<lparr>fw_timer := t\<rparr>) = fw_typed F"
  "fw_typed (F\<lparr>fw_waiting := w\<rparr>) = fw_typed F" "fw_typed (F\<lparr>sd_type := y\<rparr>) = fw_typed F"
  "fw_typed (F\<lparr>sd_face := f\<rparr>) = fw_typed F" "fw_typed (F\<lparr>sd_macDest := s\<rparr>) = fw_typed F"
  "fw_typed (F\<lparr>sd_macSrc := s\<rparr>) = fw_typed F"
  by (simp_all add: fw_typed_def)

lemma typed_parts:
  "fw_typed F \<Longrightarrow> pit_typed P \<Longrightarrow> fw_typed (F\<lparr>fw_pit := P\<rparr>)"
  "fw_typed F \<Longrightarrow> cs_typed C \<Longrightarrow> fw_typed (F\<lparr>fw_cs := C\<rparr>)"
  "fw_typed F \<Longrightarrow> pred_option class_ok p \<Longrightarrow> fw_typed (F\<lparr>sd_packet := p\<rparr>)"
  "fw_typed F \<Longrightarrow> pit_typed (fw_pit F)" "fw_typed F \<Longrightarrow> cs_typed (fw_cs F)"
  by (simp_all add: fw_typed_def)

section \<open>The tables\<close>

lemma pit_typed_ops:
  "pit_typed P \<Longrightarrow> pk_type i = INTEREST \<Longrightarrow> pit_typed (snd (pit_create now i src P))"
  "pit_typed P \<Longrightarrow> pit_typed (snd (pit_lookup n P))"
  "pit_typed P \<Longrightarrow> pit_typed (snd (pit_remove n P))"
  using set_erase_first_subset [of "pe_live n" "pit_entries P"]
  by (auto simp: pit_typed_def pit_create_def new_PitEntry_def dup_interest_def pit_lookup_def pit_remove_def
      list_all_iff Let_def split: option.splits)

lemma cs_typed_ops:
  "cs_typed C \<Longrightarrow> class_ok (Data d) \<Longrightarrow> 0 \<le> now \<Longrightarrow> cs_typed (snd (cs_add now d C))"
  "cs_typed C \<Longrightarrow> cs_typed (snd (cs_lookup i C))"
  "cs_typed C \<Longrightarrow> cs_typed (cs_handleMessage now self C)"
  "cs_typed C \<Longrightarrow> fst (cs_lookup i C) = Some d \<Longrightarrow> class_ok (Data d)"
proof -
  have exec: "cs_typed C \<Longrightarrow> (\<And>d. cs_adds op = Some d \<Longrightarrow> class_ok (Data d)) \<Longrightarrow> cs_typed (cs_exec op C)" for op
    by (cases "cs_adds op") (auto simp: cs_typed_def cs.items_keep cs.items_add list_all_tl)
  show "cs_typed C \<Longrightarrow> class_ok (Data d) \<Longrightarrow> 0 \<le> now \<Longrightarrow> cs_typed (snd (cs_add now d C))"
    using exec [of "CsAdd (nat now) d"] by (simp add: dup_data_def)
  show "cs_typed C \<Longrightarrow> cs_typed (snd (cs_lookup i C))" using exec [of "CsLookup i"] by simp
  show "cs_typed C \<Longrightarrow> cs_typed (cs_handleMessage now self C)" by (simp add: cs_typed_def cs_items_handleMessage)
  show "cs_typed C \<Longrightarrow> fst (cs_lookup i C) = Some d \<Longrightarrow> class_ok (Data d)"
    by (auto simp: cs_typed_def cs_lookup_def cs_items_def list_all_iff find_Some_iff split: if_splits option.splits)
qed

lemma pit_typed_handleMessage:
  assumes "pit_typed P" "pit_handleMessage now True P = (ns, P')" "list_all (\<lambda>e. \<not> pe_erased e) (pit_entries P)"
  shows "pit_typed P' \<and> list_all (\<lambda>n. pk_type (pn_interest n) = INTEREST) ns"
proof -
  have "pit_entries P' = filter (\<lambda>e. now < pe_expireAt e) (pit_entries P)"
    "ns = map pe_notification (filter (\<lambda>e. pe_expireAt e \<le> now) (pit_entries P))"
    using assms(2,3) by (auto simp: pit_handleMessage_def pit_cleanTimedout_eq simp del: filter_empty_conv split: if_splits)
  then show ?thesis using assms(1) by (auto simp: pit_typed_def list_all_iff pe_notification_def)
qed

section \<open>The forwarder\<close>

lemma typed_sends:
  "fw_typed F \<Longrightarrow> typed_output (fw_lowerGates F) (fw_upperGates F) (fw_myMacAddress F) (SendLower p face) \<or> \<not> (0 \<le> face \<and> face < int (fw_lowerGates F))
    \<Longrightarrow> yields fw_typed (send_lower p face F)"
  "fw_typed F \<Longrightarrow> ndn_class p \<Longrightarrow> getControlInfo p = None \<Longrightarrow> yields fw_typed (send_upper p face F)"
  by (auto simp: send_lower_def send_upper_def fw_typed_def)

lemma typed_mapping:
  "ndn_class p \<Longrightarrow> yields (\<lambda>q. ndn_class q \<and> (\<exists>dest. getControlInfo q = Some \<lparr>ctrl_src = fw_myMacAddress F, ctrl_dest = dest\<rparr>))
     (ndnToMacMapping F p mac)"
  by (cases p) (auto simp: ndnToMacMapping_def broadcast_string Let_def)

lemma typed_to_lower:
  assumes "fw_typed F" "ndn_class p"
  shows "yields fw_typed (bind_result (ndnToMacMapping F p mac) (\<lambda>q. send_lower q face F))"
  by (rule yields_bind [OF typed_mapping [OF assms(2)]], rule typed_sends(1) [OF assms(1)]) auto

lemma typed_forward:
  "fw_typed F \<Longrightarrow> class_ok (Data d) \<Longrightarrow> yields fw_typed (forwardDataToRemote d face mac F)"
  "fw_typed F \<Longrightarrow> class_ok (Data d) \<Longrightarrow> pk_controlInfo d = None \<Longrightarrow> yields fw_typed (forwardDataToLocal d face F)"
  "fw_typed F \<Longrightarrow> pk_type i = INTEREST \<Longrightarrow> yields fw_typed (forwardInterestToRemote now i face src mac F)"
  "fw_typed F \<Longrightarrow> pk_type i = INTEREST \<Longrightarrow> pk_controlInfo i = None \<Longrightarrow> yields fw_typed (forwardInterestToLocal now i face src F)"
proof -
  have create: "fw_typed (F\<lparr>fw_pit := snd (pit_create now i src (fw_pit F))\<rparr>)" if "fw_typed F" "pk_type i = INTEREST" for i src
    using that typed_parts(1,4) pit_typed_ops(1) by blast
  show "fw_typed F \<Longrightarrow> class_ok (Data d) \<Longrightarrow> yields fw_typed (forwardDataToRemote d face mac F)"
    unfolding forwardDataToRemote_def by (rule typed_to_lower) simp_all
  show "fw_typed F \<Longrightarrow> class_ok (Data d) \<Longrightarrow> pk_controlInfo d = None \<Longrightarrow> yields fw_typed (forwardDataToLocal d face F)"
    unfolding forwardDataToLocal_def by (rule typed_sends(2)) simp_all
  show "fw_typed F \<Longrightarrow> pk_type i = INTEREST \<Longrightarrow> yields fw_typed (forwardInterestToRemote now i face src mac F)"
    using typed_to_lower [OF create [of i src], of "Interest i" mac face] create [of i src]
    by (simp add: forwardInterestToRemote_def Let_def case_prod_beta)
  show "fw_typed F \<Longrightarrow> pk_type i = INTEREST \<Longrightarrow> pk_controlInfo i = None \<Longrightarrow> yields fw_typed (forwardInterestToLocal now i face src F)"
    using typed_sends(2) [OF create [of i src], of "Interest i" face] create [of i src]
    by (simp add: forwardInterestToLocal_def Let_def case_prod_beta)
qed

lemma typed_looked_up: "fw_typed F \<Longrightarrow> fw_typed (looked_up i F)"
  unfolding looked_up_def by (simp add: typed_parts pit_typed_ops cs_typed_ops)

lemma typed_stored:
  "fw_typed F \<Longrightarrow> class_ok (Data d) \<Longrightarrow> 0 \<le> now \<Longrightarrow> fw_typed (fw_cs_add now d F)"
  "fw_typed F \<Longrightarrow> fw_typed (fw_pit_remove n F)"
  unfolding fw_cs_add_def fw_pit_remove_def by (simp_all add: typed_parts pit_typed_ops cs_typed_ops del: class_ok.simps)

lemma typed_scheduleAt: "fw_typed F \<Longrightarrow> yields fw_typed (fw_scheduleAt now t F)"
  by (simp add: fw_scheduleAt_def)

lemma typed_found:
  assumes "fw_typed F" "fst (cs_lookup i (fw_cs F)) = Some d"
  shows "class_ok (Data (dup_data d))" "pk_controlInfo (dup_data d) = None"
  using cs_typed_ops(4) [OF typed_parts(5) [OF assms(1)] assms(2)] by (simp_all add: dup_data_def)

lemma typed_HLInterest:
  assumes "fw_typed F" "pk_type i = INTEREST" "pk_controlInfo i = None"
  shows "yields fw_typed (processHLInterest now i F)"
  unfolding processHLInterest_eq
  using assms typed_found [OF assms(1)] typed_looked_up [OF assms(1), of i]
  by (auto split: option.split intro!: typed_forward typed_parts(1,2) pit_typed_ops(2) cs_typed_ops(2) simp del: class_ok.simps
      simp: typed_parts(4,5))

lemma typed_LLInterest:
  assumes "fw_typed F" "pk_type i = INTEREST" "pk_controlInfo i = None"
  shows "yields fw_typed (processLLInterest now u i src F)"
proof -
  let ?F = "F\<lparr>fw_numIntReceived := fw_numIntReceived F + 1\<rparr>" and ?i = "i\<lparr>pk_hopCount := pk_hopCount i + 1\<rparr>"
  have L: "fw_typed (looked_up i ?F)" using assms(1) by (simp add: typed_looked_up)
  have "yields fw_typed (bind_result (forwardInterestToRemote now ?i face src mac (looked_up i ?F))
      (\<lambda>F5. Inr (F5\<lparr>fw_numIntFwd := fw_numIntFwd F5 + 1\<rparr>)))" for face mac
    by (rule yields_bind [OF typed_forward(3) [OF L]]) (use assms in simp_all)
  moreover have "yields fw_typed (bind_result (fw_scheduleAt now t ((looked_up i ?F)\<lparr>sd_packet := Some (Interest ?i), sd_type := INTEREST,
      sd_face := DEFAULT_MAC_IF, sd_macDest := s, sd_macSrc := s'\<rparr>)) (\<lambda>F5. Inr (F5\<lparr>fw_waiting := True\<rparr>)))" for t s s'
    by (rule yields_bind [OF typed_scheduleAt]) (use assms(2) typed_parts(3) [OF L, of "Some (Interest ?i)"] in simp_all)
  moreover have "yields fw_typed (forwardInterestToLocal now ?i face src (looked_up i ?F))" for face
    by (rule typed_forward(4) [OF L]) (use assms in simp_all)
  ultimately show ?thesis unfolding processLLInterest_eq
    using assms(1) typed_found [OF assms(1)] L
    by (auto split: option.split intro!: typed_forward(1) typed_parts(1,2) pit_typed_ops(2) cs_typed_ops(2) simp del: class_ok.simps
        simp: typed_parts(4,5))
qed

lemma typed_lookup: "fw_typed F \<Longrightarrow> fw_typed (F\<lparr>fw_pit := snd (pit_lookup n (fw_pit F))\<rparr>)"
  by (simp add: typed_parts pit_typed_ops)

lemma typed_satisfy:
  assumes "fw_typed F" "class_ok (Data d)" "pk_controlInfo d = None" "0 \<le> now"
  shows "yields fw_typed (satisfyPitEntry now u d e F)"
proof -
  let ?d = "d\<lparr>pk_hopCount := pk_hopCount d + 1\<rparr>"
  have d: "class_ok (Data ?d)" "pk_controlInfo ?d = None" using assms by simp_all
  have "yields fw_typed (bind_result (fw_scheduleAt now t (F\<lparr>sd_packet := Some (Data ?d), sd_type := DATA, sd_face := face, sd_macDest := s\<rparr>))
      (\<lambda>F1. Inr (fw_cs_add now ?d (fw_pit_remove (pk_name d) (F1\<lparr>fw_waiting := True\<rparr>)))))" for t face s
    by (rule yields_bind [OF typed_scheduleAt])
      (use typed_parts(3) [OF assms(1), of "Some (Data ?d)"] d(1) typed_stored(1) [OF _ d(1) assms(4)] typed_stored(2) in simp_all)
  moreover have "yields fw_typed (bind_result (forwardDataToLocal ?d face F) (\<lambda>F1. Inr (fw_cs_add now ?d (fw_pit_remove (pk_name d) F1))))" for face
    by (rule yields_bind [OF typed_forward(2) [OF assms(1) d]])
      (use typed_stored(1) [OF _ d(1) assms(4)] typed_stored(2) in simp_all)
  moreover have "fw_typed (fw_cs_add now d (fw_pit_remove (pk_name d) F))"
    using typed_stored(1) [OF _ assms(2,4)] typed_stored(2) [OF assms(1)] by blast
  ultimately show ?thesis unfolding satisfyPitEntry_def Let_def by auto
qed

lemma typed_LLData:
  assumes "fw_typed F" "class_ok (Data d)" "pk_controlInfo d = None" "0 \<le> now"
  shows "yields fw_typed (processLLData now u d src F)"
proof -
  have L: "fw_typed (F\<lparr>fw_pit := snd (pit_lookup (pk_name d) (fw_pit F))\<rparr>)" using assms(1) by (rule typed_lookup)
  have "yields fw_typed (bind_result r (\<lambda>(_ :: bool, B). satisfyPitEntry now u d e
      (F\<lparr>fw_pit := snd (pit_lookup (pk_name d) (fw_pit F)), fw_numDataReceived := n, fw_fib := B\<rparr>)))" for r :: "sim_error + bool \<times> fib" and e n
    using typed_satisfy [OF _ assms(2-4)] L by (cases r) (simp_all add: case_prod_beta del: class_ok.simps)
  then show ?thesis unfolding processLLData_def case_prod_beta Let_def
    using L typed_stored(1) [OF L assms(2,4)] by (auto split: option.split simp del: class_ok.simps)
qed

lemma typed_HLData:
  assumes "fw_typed F" "class_ok (Data d)" "pk_controlInfo d = None" "0 \<le> now"
  shows "yields fw_typed (processHLData now d F)"
proof -
  have L: "fw_typed (F\<lparr>fw_pit := snd (pit_lookup (pk_name d) (fw_pit F))\<rparr>)" using assms(1) by (rule typed_lookup)
  have "yields fw_typed (bind_result r (\<lambda>F2. Inr (fw_cs_add now d (fw_pit_remove (pk_name d) F2))))" if "yields fw_typed r" for r
    by (rule yields_bind [OF that]) (use typed_stored(1) [OF _ assms(2,4)] typed_stored(2) in simp)
  then show ?thesis unfolding processHLData_def case_prod_beta Let_def
    using L typed_stored(1) [OF L assms(2,4)] typed_stored(1) [OF typed_stored(2) [OF L] assms(2,4)]
      typed_forward(1,2) [OF L assms(2)] assms(3)
    by (auto split: option.split simp del: class_ok.simps)
qed

lemma typed_sendDelayed:
  assumes "fw_typed F"
  shows "yields fw_typed (sendDelayed now F)"
proof (cases "sd_packet F")
  case (Some p)
  then have p: "class_ok p" using assms by (simp add: fw_typed_def)
  have fin: "yields fw_typed (bind_result r (\<lambda>F1. Inr (F1\<lparr>sd_packet := None, fw_waiting := False\<rparr>)))" if "yields fw_typed r" for r
    by (rule yields_bind [OF that]) (use typed_parts(3) [of _ None] in simp)
  have i: "yields fw_typed (bind_result (forwardInterestToRemote now (dup_interest i) face src dest F)
      (\<lambda>F1. Inr (F1\<lparr>fw_numIntFwd := fw_numIntFwd F1 + 1\<rparr>)))" if "p = Interest i" for i face src dest
    by (rule yields_bind [OF typed_forward(3) [OF assms]]) (use p that in simp_all)
  have d: "yields fw_typed (bind_result (forwardDataToRemote (dup_data d) face dest F)
      (\<lambda>F1. Inr (F1\<lparr>fw_numDataFwd := fw_numDataFwd F1 + 1\<rparr>)))" if "p = Data d" for d face dest
    by (rule yields_bind [OF typed_forward(1) [OF assms]]) (use p that in \<open>simp_all add: dup_data_def\<close>)
  show ?thesis unfolding sendDelayed_def Some option.case
  proof (rule fin)
    have any: "yields fw_typed (bind_result r f)" if "\<And>x. yields fw_typed (f x)" for r :: "sim_error + MACAddress" and f
      by (rule yields_bind [where Q = "\<lambda>_. True"]) (use that in \<open>auto simp: yields_def split: sum.split\<close>)
    show "yields fw_typed (if sd_type F = INTEREST then
               bind_result (cast_Interest p) (\<lambda>i.
               bind_result (MACAddress_of_string (sd_macSrc F)) (\<lambda>src.
               bind_result (MACAddress_of_string (sd_macDest F)) (\<lambda>dest.
               bind_result (forwardInterestToRemote now (dup_interest i) (sd_face F) src dest F) (\<lambda>F1.
                 Inr (F1\<lparr>fw_numIntFwd := fw_numIntFwd F1 + 1\<rparr>)))))
             else
               bind_result (cast_Data p) (\<lambda>d.
               bind_result (MACAddress_of_string (sd_macDest F)) (\<lambda>dest.
               bind_result (forwardDataToRemote (dup_data d) (sd_face F) dest F) (\<lambda>F1.
                 Inr (F1\<lparr>fw_numDataFwd := fw_numDataFwd F1 + 1\<rparr>)))))"
      using i d by (cases p) (auto intro!: any)
  qed
qed (simp add: sendDelayed_def)

lemma typed_handleMessage:
  assumes "fw_typed F" "message_ok nl nu m" "0 \<le> now"
  shows "yields fw_typed (fw_handleMessage now u m F)"
proof (cases m)
  case (NdnMsg p)
  have ok: "packet_ok nl nu p" using assms(2) NdnMsg by simp
  have "yields fw_typed (whileWaiting p F)"
    using assms(1) typed_parts(3) [of _ None] by (auto simp: whileWaiting_def Let_def split: option.split)
  moreover have "yields fw_typed (dispatchPacket now u p F)"
    using ok typed_LLInterest [OF assms(1)] typed_HLInterest [OF assms(1)]
      typed_LLData [OF assms(1) _ _ assms(3)] typed_HLData [OF assms(1) _ _ assms(3)] assms(1) lower_not_upper
    by (cases p) (auto simp: dispatchPacket_def packet_ok_def split: option.splits)
  ultimately show ?thesis using assms(1) by (simp add: NdnMsg fw_registerPrefix_def)
qed (use assms typed_sendDelayed in \<open>auto simp: fw_registerPrefix_def\<close>)

lemma typed_run_timeouts:
  "list_all (\<lambda>n. pk_type (pn_interest n) = INTEREST) ns \<Longrightarrow> fw_typed F \<Longrightarrow> yields fw_typed (run_result receiveTimeout ns F)"
proof (induction ns arbitrary: F)
  case (Cons n ns)
  have "yields fw_typed (receiveTimeout n F)"
    unfolding receiveTimeout_def using Cons.prems typed_sends(2) [OF Cons.prems(2)] by (simp add: dup_interest_def)
  then show ?case using Cons by (auto intro!: yields_bind)
qed simp

lemma typed_exec:
  assumes "fw_inv nl nu F" "fw_typed F" "fw_admissible nl nu ev"
  shows "yields fw_typed (fw_exec ev F)"
proof (cases ev)
  case (Arrive now u m)
  then show ?thesis using typed_handleMessage [OF assms(2), of nl nu m "int now" u] assms(3) by simp
next
  case DelayTimer
  then show ?thesis using typed_sendDelayed assms(2) by (auto split: option.split)
next
  case PitTimer
  show ?thesis
  proof (cases "pit_checkTimeout (fw_pit F)")
    case (Some t)
    obtain ns P where P: "pit_handleMessage t True (fw_pit F) = (ns, P)" by fastforce
    have "list_all (\<lambda>e. \<not> pe_erased e) (pit_entries (fw_pit F))"
      using inv_base [OF assms(1)] by (simp add: fw_base_def pit_ok_def pit_inv_def)
    from pit_typed_handleMessage [OF typed_parts(4) [OF assms(2)] P this] typed_parts(1) [OF assms(2)]
    show ?thesis by (simp add: PitTimer Some fw_pitTimer_def P typed_run_timeouts)
  qed (use assms PitTimer in simp)
qed (use assms typed_parts(2) cs_typed_ops(3) typed_parts(5) in \<open>auto split: option.split\<close>)

interpretation typed_runs: safe_component "fw_exec_ok nl nu" "\<lambda>F. fw_inv nl nu F \<and> fw_typed F" "fw_admissible nl nu"
proof unfold_locales
  fix F F' ev
  show "fw_inv nl nu F \<and> fw_typed F \<Longrightarrow> fw_exec_ok nl nu ev F = Inr F' \<Longrightarrow> fw_inv nl nu F' \<and> fw_typed F'"
    using fw_runs.exec_keeps [of nl nu F ev F'] yieldsD [OF typed_exec [of nl nu F ev]] by (auto simp: fw_exec_ok_def split: if_splits)
  show "fw_inv nl nu F \<and> fw_typed F \<Longrightarrow> fw_admissible nl nu ev \<Longrightarrow> \<exists>F'. fw_exec_ok nl nu ev F = Inr F'"
    using fw_runs.exec_returns [of nl nu F ev] by blast
qed

lemma initialize_typed:
  "fw_initialize mapping fwd unsol nl nu macs (pit_initialize n l) (fib_initialize n' l') (cs_initialize n'') = Inr F \<Longrightarrow> fw_typed F"
  by (auto simp: fw_initialize_def bind_result_Inr_iff fw_typed_def pit_typed_def cs_typed_def pit_initialize_def cs_initialize_def cs_items_def)

lemma typed_accepted:
  assumes "typed_output nl nu mac (SendLower p g)" "mac_wf mac" "0 \<le> g'" "g' < int nl'"
  shows "message_ok nl' nu' (NdnMsg (arriving (lower_gate g') p))"
  using assms by (cases p) (auto simp: packet_ok_def gate_ok_def split: option.splits)

section \<open>Properties\<close>

text \<open>What a module receives from another one: over the link, or through the gates of the applications.\<close>

fun accepted_elsewhere :: "nat \<Rightarrow> nat \<Rightarrow> int \<Rightarrow> fw_output \<Rightarrow> bool" where
  "accepted_elsewhere nl nu g (SendLower p face) \<longleftrightarrow> message_ok nl nu (NdnMsg (arriving (lower_gate g) p))"
| "accepted_elsewhere nl nu g (SendUpper p k) \<longleftrightarrow> ndn_class p \<and> getControlInfo p = None"

text \<open>
  C6: what a forwarder sends is well typed.  Started on any interfaces and with empty tables, whatever well-formed
  messages and timers it handles, a forwarder sends only Interests and Data with the type and the lengths
  of their class, through gates that exist, with control info of its own address towards the link layer and
  none towards the applications; so whatever it sends to another node is a message that node accepts, which
  is what its safety assumes.
\<close>

theorem fw_sends_typed:
  assumes "list_all mac_wf macs" "0 < nl" "list_all (fw_admissible nl nu) evs"
    and "fw_initialize mapping fwd unsol nl nu macs (pit_initialize n l) (fib_initialize n' l') (cs_initialize n'') = Inr F0"
    and "0 \<le> g" "g < int nl'"
  shows "\<exists>F. run_result fw_exec evs F0 = Inr F \<and> list_all (typed_output nl nu (fw_myMacAddress F)) (fw_sent F)
     \<and> list_all (accepted_elsewhere nl' nu' g) (fw_sent F)"
proof -
  have "fw_inv nl nu F0 \<and> fw_typed F0"
    using initialize_inv [OF assms(1,2)] initialize_typed [OF assms(4)] assms(4) by (metis returns_simps(1))
  from typed_runs.run_safe [OF this assms(3)] obtain F where
    F: "run_result fw_exec evs F0 = Inr F" "fw_inv nl nu F" "fw_typed F"
    unfolding run_exec_ok [OF assms(3)] by blast
  have base: "fw_lowerGates F = nl" "fw_upperGates F = nu" "mac_wf (fw_myMacAddress F)"
    using inv_base [OF F(2)] by (simp_all add: fw_base_def)
  then have typed: "list_all (typed_output nl nu (fw_myMacAddress F)) (fw_sent F)" using F(3) by (simp add: fw_typed_def)
  have "accepted_elsewhere nl' nu' g o'" if "typed_output nl nu (fw_myMacAddress F) o'" for o'
    using that typed_accepted [OF _ base(3) assms(5,6)] by (cases o') auto
  with typed have "list_all (accepted_elsewhere nl' nu' g) (fw_sent F)" by (auto simp: list_all_iff)
  with F(1) typed show ?thesis by blast
qed

theorem fw_sends_typed_witness:
  "\<exists>F0 F. fw_initialize 14 True False 1 1 [MACAddress 7] (pit_initialize 9 4000) (fib_initialize 9 1000) (cs_initialize 9) = Inr F0
     \<and> run_result fw_exec [Arrive 5 0 (NdnMsg (Interest ((new_Interest ''/a'')\<lparr>pk_type := 5, pk_arrivalGate := upper_gate 0\<rparr>)))] F0 = Inr F
     \<and> list_all (accepted_elsewhere 3 2 2) (fw_sent F)"
proof -
  have mac: "list_all mac_wf [MACAddress 7]" by (simp add: mac_wf_def MAC_ADDRESS_MASK_def)
  have adm: "list_all (fw_admissible 1 1) [Arrive 5 0 (NdnMsg (Interest ((new_Interest ''/a'')\<lparr>pk_type := 5, pk_arrivalGate := upper_gate 0\<rparr>)))]"
    by (simp add: packet_ok_def gate_ok_def INTEREST_def new_Interest_def)
  obtain F0 where F0: "fw_initialize 14 True False 1 1 [MACAddress 7] (pit_initialize 9 4000) (fib_initialize 9 1000)
      (cs_initialize 9) = Inr F0"
    using initialize_inv [OF mac, of 1 1] unfolding returns_def by fastforce
  have "0 < (1::nat)" "0 \<le> (2::int)" "2 < int 3" by simp_all
  from fw_sends_typed [OF mac this(1) adm F0 this(2,3)] F0 show ?thesis by blast
qed

text \<open>The applications: what they are delivered is typed, and so is what they send.\<close>

fun delivery_typed :: "consumer_event \<Rightarrow> bool" where
  "delivery_typed (Deliver now u (AppPacket p)) \<longleftrightarrow> ndn_class p \<and> getControlInfo p = None"
| "delivery_typed _ \<longleftrightarrow> True"

definition consumer_typed :: "consumer \<Rightarrow> bool" where
  "consumer_typed A \<longleftrightarrow> list_all (\<lambda>(t, i). pk_type i = INTEREST \<and> pk_controlInfo i = None) (co_expressed A @ co_resent A)"

lemma consumer_typed_fields [simp]:
  "consumer_typed (A\<lparr>co_timer := x\<rparr>) = consumer_typed A"
  by (simp add: consumer_typed_def)

lemma schedule_typed: "consumer_typed A \<Longrightarrow> yields consumer_typed (scheduleNextInterest now p iv A)"
  by (auto simp: scheduleNextInterest_def Let_def)

lemma createNextInterest_typed:
  assumes "consumer_typed A"
  shows "yields (\<lambda>(i, A'). consumer_typed (expressInterest now i A')) (createNextInterest tok now r A)"
  using assms
  by (cases "history_index (co_intSeqNo A)")
     (simp_all add: createNextInterest_def Let_def computeTlvPacketSize_def expressInterest_def consumer_typed_def
       INTEREST_def new_Interest_def)

lemma consumer_exec_typed:
  assumes "consumer_typed A" "delivery_typed ev"
  shows "yields consumer_typed (consumer_exec tok ev A)"
proof -
  have fire: "yields consumer_typed (consumer_handleMessage tok t r iv u ExpressTimer A)" for t r iv u
    using yields_bind [OF createNextInterest_typed, of "A\<lparr>co_timer := None\<rparr>"] assms(1) schedule_typed
    by (auto simp: Let_def intro!: yields_bind [OF createNextInterest_typed])
  have data: "yields consumer_typed (onData now d A)" for now d
    using assms(1) by (auto simp: yields_def onData_def consumer_typed_def Let_def bind_result_Inr_iff split: sum.split)
  have timeout: "yields consumer_typed (onTimeout now u i A)" if "pk_type i = INTEREST" "pk_controlInfo i = None" for now u i
    using assms(1) that by (auto simp: yields_def onTimeout_def consumer_typed_def bind_result_Inr_iff split: sum.split option.splits if_splits)
  show ?thesis
  proof (cases ev)
    case (Fire r iv)
    then show ?thesis using fire assms(1) by (auto simp del: consumer_handleMessage.simps split: option.split)
  next
    case (Deliver now u m)
    show ?thesis
    proof (cases m)
      case (AppPacket p)
      then show ?thesis using Deliver assms data timeout by (cases p) auto
    qed (use Deliver assms in simp_all)
  qed
qed

lemma consumer_run_typed:
  "consumer_typed A \<Longrightarrow> list_all delivery_typed evs \<Longrightarrow> run_result (consumer_exec tok) evs A = Inr A' \<Longrightarrow> consumer_typed A'"
proof (induction evs arbitrary: A)
  case (Cons ev evs)
  then obtain A1 where A1: "consumer_exec tok ev A = Inr A1" "run_result (consumer_exec tok) evs A1 = Inr A'"
    by (auto simp: bind_result_Inr_iff)
  have "consumer_typed A1" using yieldsD [OF consumer_exec_typed A1(1)] Cons.prems by simp
  then show ?case using Cons A1 by simp
qed simp

text \<open>
  C40: what the applications send is well typed.  As long as a consumer is only delivered typed packets, as a
  forwarder sends them, every Interest it expresses or sends again is a message the forwarder accepts from
  any of its upper gates; and so is the Data of a producer for an Interest below its prefix.
\<close>

theorem apps_send_typed:
  assumes "consumer_initialize t0 up pfx numInterests reTx lifetime start stop = Inr A0"
    and "list_all delivery_typed evs" "run_result (consumer_exec tok) evs A0 = Inr A"
    and "prefix (pr_pPrefix R) (pk_name i)" "producer_handleMessage tok now (AppPacket (Interest i)) R = Inr R'"
    and "0 \<le> k" "k < int nu"
  shows "list_all (\<lambda>(t, i). message_ok nl nu (NdnMsg (arriving (upper_gate k) (Interest i)))) (co_expressed A @ co_resent A)
     \<and> list_all (\<lambda>(t, p). message_ok nl nu (NdnMsg (arriving (upper_gate k) p))) (drop (length (pr_sent R)) (pr_sent R'))"
proof -
  have "yields consumer_typed (consumer_initialize t0 up pfx numInterests reTx lifetime start stop)"
    unfolding consumer_initialize_def Let_def startApp_def by (simp add: schedule_typed consumer_typed_def)
  then have "consumer_typed A0" using assms(1) by simp
  from consumer_run_typed [OF this assms(2,3)]
  have "list_all (\<lambda>(t, i). message_ok nl nu (NdnMsg (arriving (upper_gate k) (Interest i)))) (co_expressed A @ co_resent A)"
    using assms(6,7) by (auto simp: consumer_typed_def list_all_iff packet_ok_def gate_ok_def)
  moreover have "list_all (\<lambda>(t, p). message_ok nl nu (NdnMsg (arriving (upper_gate k) p))) (drop (length (pr_sent R)) (pr_sent R'))"
    using assms(4-7) prefix_length_le [OF assms(4)]
    by (auto simp: processInterest_def Let_def computeTlvPacketSize_def new_Data_def DATA_def packet_ok_def gate_ok_def
        bind_result_Inr_iff split: if_splits)
  ultimately show ?thesis by blast
qed

theorem apps_send_typed_witness:
  "\<exists>A0 A R'. consumer_initialize 0 True ''/a'' 3 1 4000 5 (-1) = Inr A0
     \<and> run_result (consumer_exec (\<lambda>s. [s])) [Fire \<lparr>draw_l1 = 0, draw_l2 = 1, draw_nonce = [1, 2, 3, 4]\<rparr> 10] A0 = Inr A
     \<and> producer_handleMessage (\<lambda>s. [s]) 7 (AppPacket (Interest line_interest)) (producer_initialize 0 True ''/a'' 100 0 (-1)) = Inr R'
     \<and> list_all (\<lambda>(t, i). message_ok 2 2 (NdnMsg (arriving (upper_gate 1) (Interest i)))) (co_expressed A @ co_resent A)"
proof -
  let ?R = "producer_initialize 0 True ''/a'' 100 0 (-1)"
  obtain A0 A where A: "consumer_initialize 0 True ''/a'' 3 1 4000 5 (-1) = Inr A0"
    "run_result (consumer_exec (\<lambda>s. [s])) [Fire \<lparr>draw_l1 = 0, draw_l2 = 1, draw_nonce = [1, 2, 3, 4]\<rparr> 10] A0 = Inr A"
    using first_interest by blast
  have R: "pr_up ?R" "pr_pPrefix ?R = ''/a''" "pr_startTime ?R = 0" "pr_stopTime ?R = -1"
    by (simp_all add: producer_initialize_def producer_registerPrefix_def Let_def)
  have i: "pk_type line_interest = INTEREST" and pfx: "prefix (pr_pPrefix ?R) (pk_name line_interest)"
    by (simp_all add: line_interest_def new_Interest_def INTEREST_def R)
  obtain R' where R': "producer_handleMessage (\<lambda>s. [s]) 7 (AppPacket (Interest line_interest)) ?R = Inr R'"
    using producer_makes_data [OF R(1) i pfx, of 7 "\<lambda>s. [s]"] R by auto
  have "list_all delivery_typed [Fire \<lparr>draw_l1 = 0, draw_l2 = 1, draw_nonce = [1, 2, 3, 4]\<rparr> 10]" "0 \<le> (1::int)" "1 < int 2"
    by simp_all
  from apps_send_typed [OF A(1) this(1) A(2) pfx R' this(2,3)] A R' show ?thesis by blast
qed

end
