(* ===== verification/TcpSequence.thy ===== *)
theory TcpSequence
  imports NdnPrelude
begin

text \<open>
  The comparison of 32-bit TCP sequence numbers, \<^verbatim>\<open>inet/transportlayer/tcp_common/TCPSegment.h\<close>:
  differences wrap around, and a number is before another if the distance to it is less than half
  of the number space.  The lemmas say that inside a window of less than \<open>2^31\<close> numbers this is the
  order of the offsets into the window, wherever the window lies.
\<close>

type_synonym seq = "32 word"

definition seqLess :: "seq \<Rightarrow> seq \<Rightarrow> bool" where
  "seqLess a b \<longleftrightarrow> a \<noteq> b \<and> b - a < 2 ^ 31"

definition seqLE :: "seq \<Rightarrow> seq \<Rightarrow> bool" where
  "seqLE a b \<longleftrightarrow> b - a < 2 ^ 31"

definition seqGreater :: "seq \<Rightarrow> seq \<Rightarrow> bool" where
  "seqGreater a b \<longleftrightarrow> a \<noteq> b \<and> a - b < 2 ^ 31"

definition seqGE :: "seq \<Rightarrow> seq \<Rightarrow> bool" where
  "seqGE a b \<longleftrightarrow> a - b < 2 ^ 31"

definition seqMin :: "seq \<Rightarrow> seq \<Rightarrow> seq" where
  "seqMin a b = (if b - a < 2 ^ 31 then a else b)"

definition seqMax :: "seq \<Rightarrow> seq \<Rightarrow> seq" where
  "seqMax a b = (if a - b < 2 ^ 31 then a else b)"

lemma seqGE_seqLE: "seqGE a b = seqLE b a"
  by (simp add: seqGE_def seqLE_def)

lemma seqGreater_seqLess: "seqGreater a b = seqLess b a"
  by (auto simp: seqGreater_def seqLess_def)

lemma seqLess_seqLE: "seqLess a b \<longleftrightarrow> seqLE a b \<and> a \<noteq> b"
  by (auto simp: seqLess_def seqLE_def)

lemma word_less_2p31: "(w :: seq) < 2147483648 \<longleftrightarrow> unat w < 2147483648"
  by (simp add: word_less_nat_alt)

lemma seqLE_unat: "seqLE a b \<longleftrightarrow> unat (b - a) < 2147483648"
  by (simp add: seqLE_def word_less_2p31)

lemma unat_of_nat_32: "n < 4294967296 \<Longrightarrow> unat (of_nat n :: seq) = n"
  by (simp add: unat_of_nat take_bit_eq_mod)

lemma unat_less_32: "unat (w :: seq) < 4294967296"
proof -
  have "unat w < 2 ^ LENGTH(32)" by (rule unsigned_less)
  then show ?thesis by simp
qed

lemma seqLE_window:
  assumes "k < 2147483648" "l < 2147483648"
  shows "seqLE (b + of_nat k) (b + of_nat l) \<longleftrightarrow> k \<le> l"
proof (cases "k \<le> l")
  case True
  then have "(b + of_nat l) - (b + of_nat k) = (of_nat (l - k) :: seq)" by simp
  then have "unat ((b + of_nat l) - (b + of_nat k) :: seq) = l - k" using assms unat_of_nat_32 [of "l - k"] by simp
  then show ?thesis using True assms unfolding seqLE_unat by simp
next
  case False
  define m where "m = k - l"
  have m: "0 < m" "m < 2147483648" using False assms by (simp_all add: m_def)
  have "(b + of_nat l) - (b + of_nat k) = - (of_nat m :: seq)" using False by (simp add: m_def)
  moreover have neg: "- (of_nat m :: seq) = of_nat (4294967296 - m)"
    using m by (simp add: of_nat_diff)
  have "4294967296 - m < 4294967296" using m by simp
  then have "unat (of_nat (4294967296 - m) :: seq) = 4294967296 - m" by (rule unat_of_nat_32)
  then have "unat (- (of_nat m :: seq)) = 4294967296 - m" unfolding neg .
  ultimately show ?thesis using False m unfolding seqLE_unat by simp
qed

lemma seq_eq_window:
  assumes "k < 2147483648" "l < 2147483648"
  shows "b + of_nat k = (b + of_nat l :: seq) \<longleftrightarrow> k = l"
proof
  assume "b + of_nat k = (b + of_nat l :: seq)"
  then have "unat (of_nat k :: seq) = unat (of_nat l :: seq)" by simp
  then show "k = l" using assms unat_of_nat_32 [of k] unat_of_nat_32 [of l] by simp
qed simp

lemma seqLess_window:
  assumes "k < 2147483648" "l < 2147483648"
  shows "seqLess (b + of_nat k) (b + of_nat l) \<longleftrightarrow> k < l"
  unfolding seqLess_seqLE seqLE_window [OF assms] seq_eq_window [OF assms] by auto

text \<open>The offset of a number from the start of a window, and when it lies inside.\<close>

lemma seq_offset: "b + of_nat (unat (s - b)) = s" for s :: seq
  by simp

lemma in_window:
  assumes "seqLE b s" "seqLE s (b + of_nat n)" "n < 2147483648"
  shows "unat (s - b) \<le> n"
proof -
  have "seqLE (b + of_nat (unat (s - b))) (b + of_nat n)" using assms(2) unfolding seq_offset .
  then show ?thesis using seqLE_window [of "unat (s - b)" n b] assms(1,3) unfolding seqLE_unat [of b s] by blast
qed

lemma offset_window: "n < 4294967296 \<Longrightarrow> unat ((b + of_nat n) - b :: seq) = n"
  by (simp add: unat_of_nat_32)

end
