(* ===== verification/SackRexmitQueue.thy ===== *)
theory SackRexmitQueue
  imports TcpSequence
begin

text \<open>
  The retransmission data of a TCP sender with selective acknowledgments,
  \<^verbatim>\<open>inet/transportlayer/tcp/TCPSACKRexmitQueue.{h,cc}\<close>: a list of contiguous regions of sent
  bytes, each with the flags sacked and rexmitted.  The specification forgets the regions: the
  queue is the list of the flags of its bytes, and every operation is an operation on that list.
\<close>

section \<open>The queue\<close>

record region =
  beginSeqNum :: seq
  endSeqNum :: seq
  sacked :: bool
  rexmitted :: bool

record sackq =
  rexmitQueue :: "region list"
  sq_begin :: seq
  sq_end :: seq

definition sack_new :: sackq where
  "sack_new = \<lparr>rexmitQueue = [], sq_begin = 0, sq_end = 0\<rparr>"

definition sack_init :: "seq \<Rightarrow> sackq \<Rightarrow> sackq" where
  "sack_init seqNum Q = Q\<lparr>sq_begin := seqNum, sq_end := seqNum\<rparr>"

text \<open>The loop of \<^verbatim>\<open>checkQueue\<close> with its variables \<open>b\<close> and \<open>f\<close>.\<close>

fun check_loop :: "region list \<Rightarrow> seq \<Rightarrow> bool \<Rightarrow> seq \<times> bool" where
  "check_loop [] b f = (b, f)"
| "check_loop (r # rs) b f =
     check_loop rs (endSeqNum r) (f \<and> b = beginSeqNum r \<and> seqLess (beginSeqNum r) (endSeqNum r))"

definition checkQueue :: "sackq \<Rightarrow> bool" where
  "checkQueue Q = (let (b, f) = check_loop (rexmitQueue Q) (sq_begin Q) True in f \<and> b = sq_end Q)"

text \<open>The loops \<^verbatim>\<open>while (i != end() && seqLE(i->endSeqNum, seqNum)) i++\<close>: the regions passed, the rest.\<close>

definition passed :: "seq \<Rightarrow> region list \<Rightarrow> region list" where
  "passed s rs = takeWhile (\<lambda>r. seqLE (endSeqNum r) s) rs"

definition remaining :: "seq \<Rightarrow> region list \<Rightarrow> region list" where
  "remaining s rs = dropWhile (\<lambda>r. seqLE (endSeqNum r) s) rs"

definition discardUpTo :: "seq \<Rightarrow> sackq \<Rightarrow> sim_error + sackq" where
  "discardUpTo seqNum Q =
     bind_result (assert_that (seqLE (sq_begin Q) seqNum \<and> seqLE seqNum (sq_end Q)) ''discardUpTo: seqNum'') (\<lambda>_.
     bind_result
       (case remaining seqNum (rexmitQueue Q) of
          [] \<Rightarrow> Inr []
        | i # rest \<Rightarrow>
            bind_result (assert_that (seqLE (beginSeqNum i) seqNum \<and> seqLess seqNum (endSeqNum i)) ''discardUpTo: region'')
              (\<lambda>_. Inr (i\<lparr>beginSeqNum := seqNum\<rparr> # rest)))
       (\<lambda>rs. let Q' = Q\<lparr>rexmitQueue := rs, sq_begin := seqNum\<rparr> in
         bind_result (assert_that (checkQueue Q') ''discardUpTo: checkQueue'') (\<lambda>_. Inr Q')))"

text \<open>Cutting the region at the iterator when it starts before the sequence number.\<close>

definition cut_before :: "seq \<Rightarrow> region \<Rightarrow> region list \<times> region" where
  "cut_before s i =
     (if beginSeqNum i \<noteq> s then ([i\<lparr>endSeqNum := s\<rparr>], i\<lparr>beginSeqNum := s\<rparr>) else ([], i))"

text \<open>Second loop of \<^verbatim>\<open>enqueueSentData\<close>: regions marked, the new \<^verbatim>\<open>fromSeqNum\<close>, the rest.\<close>

fun rexmit_loop :: "seq \<Rightarrow> seq \<Rightarrow> region list \<Rightarrow> region list \<times> seq \<times> region list" where
  "rexmit_loop toSeqNum fromSeqNum [] = ([], fromSeqNum, [])"
| "rexmit_loop toSeqNum fromSeqNum (i # rs) =
     (if seqLE (endSeqNum i) toSeqNum
      then let (done, from', rest) = rexmit_loop toSeqNum (endSeqNum i) rs
           in (i\<lparr>rexmitted := True\<rparr> # done, from', rest)
      else ([], fromSeqNum, i # rs))"

definition enqueueSentData :: "seq \<Rightarrow> seq \<Rightarrow> sackq \<Rightarrow> sim_error + sackq" where
  "enqueueSentData fromSeqNum toSeqNum Q =
     bind_result (assert_that (seqLE (sq_begin Q) fromSeqNum \<and> seqLE fromSeqNum (sq_end Q)) ''enqueueSentData: fromSeqNum'') (\<lambda>_.
     bind_result (assert_that (seqLess fromSeqNum toSeqNum) ''enqueueSentData: toSeqNum'') (\<lambda>_.
     bind_result
       (if rexmitQueue Q = [] \<or> sq_end Q = fromSeqNum
        then Inr (rexmitQueue Q @ [\<lparr>beginSeqNum = fromSeqNum, endSeqNum = toSeqNum, sacked = False, rexmitted = False\<rparr>],
                  True, toSeqNum)
        else (case remaining fromSeqNum (rexmitQueue Q) of
          [] \<Rightarrow> Inl (AssertionFailed ''enqueueSentData: i != end'')
        | i # rest \<Rightarrow>
            bind_result (assert_that (seqLE (beginSeqNum i) fromSeqNum \<and> seqLess fromSeqNum (endSeqNum i)) ''enqueueSentData: region'') (\<lambda>_.
            let (chunk, i') = cut_before fromSeqNum i;
                before = passed fromSeqNum (rexmitQueue Q) @ chunk;
                (done, from', rest') = rexmit_loop toSeqNum fromSeqNum (i' # rest);
                found = (done \<noteq> [])
            in if from' \<noteq> toSeqNum then
                 bind_result (assert_that (case rest' of [] \<Rightarrow> True | j # _ \<Rightarrow> seqLess (beginSeqNum j) toSeqNum) ''enqueueSentData: end'') (\<lambda>_.
                 Inr (before @ done @ \<lparr>beginSeqNum = from', endSeqNum = toSeqNum,
                        sacked = (case rest' of [] \<Rightarrow> False | j # _ \<Rightarrow> sacked j), rexmitted = (rest' \<noteq> [])\<rparr>
                      # (case rest' of [] \<Rightarrow> [] | j # js \<Rightarrow> j\<lparr>beginSeqNum := toSeqNum\<rparr> # js), True, toSeqNum))
               else Inr (before @ done @ rest', found, from'))))
       (\<lambda>(rs, found, from').
         bind_result (assert_that (from' = toSeqNum) ''enqueueSentData: fromSeqNum == toSeqNum'') (\<lambda>_.
         bind_result (assert_that found ''enqueueSentData: found'') (\<lambda>_.
         let Q' = Q\<lparr>rexmitQueue := rs, sq_begin := beginSeqNum (hd rs), sq_end := endSeqNum (last rs)\<rparr> in
         bind_result (assert_that (checkQueue Q') ''enqueueSentData: checkQueue'') (\<lambda>_. Inr Q'))))))"

text \<open>Second loop of \<^verbatim>\<open>setSackedBit\<close>.\<close>

fun sack_loop :: "seq \<Rightarrow> seq \<Rightarrow> region list \<Rightarrow> region list \<times> region list" where
  "sack_loop fromSeqNum toSeqNum [] = ([], [])"
| "sack_loop fromSeqNum toSeqNum (i # rs) =
     (if seqLE (endSeqNum i) toSeqNum
      then let (done, rest) = sack_loop fromSeqNum toSeqNum rs
           in ((if seqGE (beginSeqNum i) fromSeqNum then i\<lparr>sacked := True\<rparr> else i) # done, rest)
      else ([], i # rs))"

definition setSackedBit :: "seq \<Rightarrow> seq \<Rightarrow> sackq \<Rightarrow> sim_error + sackq" where
  "setSackedBit fromSeqNum0 toSeqNum Q =
     (let fromSeqNum = (if seqLess fromSeqNum0 (sq_begin Q) then sq_begin Q else fromSeqNum0) in
      bind_result (assert_that (seqLess fromSeqNum (sq_end Q)) ''setSackedBit: fromSeqNum'') (\<lambda>_.
      bind_result (assert_that (seqLess (sq_begin Q) toSeqNum \<and> seqLE toSeqNum (sq_end Q)) ''setSackedBit: toSeqNum'') (\<lambda>_.
      bind_result (assert_that (seqLess fromSeqNum toSeqNum) ''setSackedBit: order'') (\<lambda>_.
      bind_result
        (if rexmitQueue Q = [] then Inr []
         else (case remaining fromSeqNum (rexmitQueue Q) of
           [] \<Rightarrow> Inl (AssertionFailed ''setSackedBit: region'')
         | i # rest \<Rightarrow>
             bind_result (assert_that (seqLE (beginSeqNum i) fromSeqNum \<and> seqLess fromSeqNum (endSeqNum i)) ''setSackedBit: region'') (\<lambda>_.
             let (chunk, i') = cut_before fromSeqNum i;
                 before = passed fromSeqNum (rexmitQueue Q) @ chunk;
                 (done, rest') = sack_loop fromSeqNum toSeqNum (i' # rest);
                 rest'' = (case rest' of [] \<Rightarrow> []
                   | j # js \<Rightarrow> if seqLess (beginSeqNum j) toSeqNum \<and> seqLess toSeqNum (endSeqNum j)
                              then j\<lparr>endSeqNum := toSeqNum, sacked := True\<rparr> # j\<lparr>beginSeqNum := toSeqNum\<rparr> # js
                              else j # js)
             in Inr (before @ done @ rest''))))
        (\<lambda>rs. let Q' = Q\<lparr>rexmitQueue := rs\<rparr> in
          bind_result (assert_that (checkQueue Q') ''setSackedBit: checkQueue'') (\<lambda>_. Inr Q'))))))"

definition getSackedBit :: "seq \<Rightarrow> sackq \<Rightarrow> sim_error + bool" where
  "getSackedBit seqNum Q =
     bind_result (assert_that (seqLE (sq_begin Q) seqNum \<and> seqLE seqNum (sq_end Q)) ''getSackedBit: seqNum'') (\<lambda>_.
     if sq_end Q = seqNum then Inr False
     else (case remaining seqNum (rexmitQueue Q) of
       [] \<Rightarrow> Inl (AssertionFailed ''getSackedBit: region'')
     | i # _ \<Rightarrow> bind_result (assert_that (seqLE (beginSeqNum i) seqNum \<and> seqLess seqNum (endSeqNum i)) ''getSackedBit: region'')
         (\<lambda>_. Inr (sacked i))))"

definition getHighestSackedSeqNum :: "sackq \<Rightarrow> seq" where
  "getHighestSackedSeqNum Q = (case find sacked (rev (rexmitQueue Q)) of Some i \<Rightarrow> endSeqNum i | None \<Rightarrow> sq_begin Q)"

definition getHighestRexmittedSeqNum :: "sackq \<Rightarrow> seq" where
  "getHighestRexmittedSeqNum Q = (case find rexmitted (rev (rexmitQueue Q)) of Some i \<Rightarrow> endSeqNum i | None \<Rightarrow> sq_begin Q)"

fun skip_loop :: "seq \<Rightarrow> seq \<Rightarrow> region list \<Rightarrow> sim_error + seq" where
  "skip_loop fromSeqNum bytes [] = Inr bytes"
| "skip_loop fromSeqNum bytes (i # rs) =
     (if sacked i \<or> rexmitted i then
        bind_result (assert_that (seqLE (beginSeqNum i) fromSeqNum \<and> seqLess fromSeqNum (endSeqNum i)) ''skip: region'') (\<lambda>_.
          skip_loop (endSeqNum i) (bytes + (endSeqNum i - fromSeqNum)) rs)
      else Inr bytes)"

definition checkRexmitQueueForSackedOrRexmittedSegments :: "seq \<Rightarrow> sackq \<Rightarrow> sim_error + seq" where
  "checkRexmitQueueForSackedOrRexmittedSegments fromSeqNum Q =
     bind_result (assert_that (seqLE (sq_begin Q) fromSeqNum \<and> seqLE fromSeqNum (sq_end Q)) ''checkRexmitQueue: fromSeqNum'') (\<lambda>_.
     if rexmitQueue Q = [] \<or> sq_end Q = fromSeqNum then Inr 0
     else skip_loop fromSeqNum 0 (remaining fromSeqNum (rexmitQueue Q)))"

definition resetSackedBit :: "sackq \<Rightarrow> sackq" where
  "resetSackedBit Q = Q\<lparr>rexmitQueue := map (\<lambda>r. r\<lparr>sacked := False\<rparr>) (rexmitQueue Q)\<rparr>"

definition resetRexmittedBit :: "sackq \<Rightarrow> sackq" where
  "resetRexmittedBit Q = Q\<lparr>rexmitQueue := map (\<lambda>r. r\<lparr>rexmitted := False\<rparr>) (rexmitQueue Q)\<rparr>"

definition getTotalAmountOfSackedBytes :: "sackq \<Rightarrow> seq" where
  "getTotalAmountOfSackedBytes Q =
     fold (\<lambda>r bytes. if sacked r then bytes + (endSeqNum r - beginSeqNum r) else bytes) (rexmitQueue Q) 0"

definition getAmountOfSackedBytes :: "seq \<Rightarrow> sackq \<Rightarrow> sim_error + seq" where
  "getAmountOfSackedBytes fromSeqNum Q =
     bind_result (assert_that (seqLE (sq_begin Q) fromSeqNum \<and> seqLE fromSeqNum (sq_end Q)) ''getAmountOfSackedBytes: fromSeqNum'') (\<lambda>_.
     let whole = takeWhile (\<lambda>r. seqLE fromSeqNum (beginSeqNum r)) (rev (rexmitQueue Q));
         rest = dropWhile (\<lambda>r. seqLE fromSeqNum (beginSeqNum r)) (rev (rexmitQueue Q));
         bytes = fold (\<lambda>r bytes. if sacked r then bytes + (endSeqNum r - beginSeqNum r) else bytes) whole 0
     in Inr (case rest of [] \<Rightarrow> bytes
       | i # _ \<Rightarrow> if seqLess (beginSeqNum i) fromSeqNum \<and> seqLess fromSeqNum (endSeqNum i) \<and> sacked i
                 then bytes + (endSeqNum i - fromSeqNum) else bytes))"

fun discontiguous_loop :: "bool \<Rightarrow> seq \<Rightarrow> region list \<Rightarrow> seq" where
  "discontiguous_loop prevSacked counter [] = counter"
| "discontiguous_loop prevSacked counter (i # rs) =
     discontiguous_loop (sacked i) (if sacked i \<and> \<not> prevSacked then counter + 1 else counter) rs"

definition getNumOfDiscontiguousSacks :: "seq \<Rightarrow> sackq \<Rightarrow> sim_error + seq" where
  "getNumOfDiscontiguousSacks fromSeqNum Q =
     bind_result (assert_that (seqLE (sq_begin Q) fromSeqNum \<and> seqLE fromSeqNum (sq_end Q)) ''getNumOfDiscontiguousSacks: fromSeqNum'') (\<lambda>_.
     if rexmitQueue Q = [] \<or> fromSeqNum = sq_end Q then Inr 0
     else Inr (discontiguous_loop False 0 (remaining fromSeqNum (rexmitQueue Q))))"

definition checkSackBlock :: "seq \<Rightarrow> sackq \<Rightarrow> sim_error + (seq \<times> bool \<times> bool)" where
  "checkSackBlock fromSeqNum Q =
     bind_result (assert_that (seqLE (sq_begin Q) fromSeqNum \<and> seqLess fromSeqNum (sq_end Q)) ''checkSackBlock: fromSeqNum'') (\<lambda>_.
     case remaining fromSeqNum (rexmitQueue Q) of
       [] \<Rightarrow> Inl (AssertionFailed ''checkSackBlock: i != end'')
     | i # _ \<Rightarrow> bind_result (assert_that (seqLE (beginSeqNum i) fromSeqNum \<and> seqLess fromSeqNum (endSeqNum i)) ''checkSackBlock: region'')
         (\<lambda>_. Inr (endSeqNum i - fromSeqNum, sacked i, rexmitted i)))"

section \<open>The specification: the flags of the bytes\<close>

definition region_length :: "region \<Rightarrow> nat" where
  "region_length r = unat (endSeqNum r - beginSeqNum r)"

definition region_bytes :: "region list \<Rightarrow> (bool \<times> bool) list" where
  "region_bytes rs = concat (map (\<lambda>r. replicate (region_length r) (sacked r, rexmitted r)) rs)"

definition sack_bytes :: "sackq \<Rightarrow> (bool \<times> bool) list" where
  "sack_bytes Q = region_bytes (rexmitQueue Q)"

text \<open>Changing the flags of the bytes with offsets from \<open>a\<close> up to \<open>c\<close>.\<close>

definition mark :: "('a \<Rightarrow> 'a) \<Rightarrow> nat \<Rightarrow> nat \<Rightarrow> 'a list \<Rightarrow> 'a list" where
  "mark f a c xs = take a xs @ map f (take (c - a) (drop a xs)) @ drop c xs"

text \<open>Contiguous regions from \<open>b\<close> on, none of them empty.\<close>

fun chain :: "seq \<Rightarrow> region list \<Rightarrow> bool" where
  "chain b [] \<longleftrightarrow> True"
| "chain b (r # rs) \<longleftrightarrow> beginSeqNum r = b \<and> 0 < region_length r \<and> region_length r < 2147483648 \<and> chain (endSeqNum r) rs"

definition sack_inv :: "sackq \<Rightarrow> bool" where
  "sack_inv Q \<longleftrightarrow> chain (sq_begin Q) (rexmitQueue Q) \<and> length (sack_bytes Q) < 2147483648
     \<and> sq_end Q = sq_begin Q + of_nat (length (sack_bytes Q))"

lemma region_bytes_simps [simp]:
  "region_bytes [] = []"
  "region_bytes (r # rs) = replicate (region_length r) (sacked r, rexmitted r) @ region_bytes rs"
  "region_bytes (xs @ ys) = region_bytes xs @ region_bytes ys"
  by (simp_all add: region_bytes_def)

lemma region_end: "endSeqNum r = beginSeqNum r + of_nat (region_length r)"
  by (simp add: region_length_def)

lemma chain_append:
  "chain b (xs @ ys) \<longleftrightarrow> chain b xs \<and> chain (b + of_nat (length (region_bytes xs))) ys"
  by (induction xs arbitrary: b) (auto simp: region_end add.assoc)

lemma chain_end: "chain b rs \<Longrightarrow> rs \<noteq> [] \<Longrightarrow> endSeqNum (last rs) = b + of_nat (length (region_bytes rs))"
proof (induction rs arbitrary: b)
  case (Cons r rs)
  show ?case
  proof (cases "rs = []")
    case True
    then show ?thesis using Cons.prems region_end [of r] by simp
  next
    case False
    then show ?thesis using Cons.IH [of "endSeqNum r"] Cons.prems region_end [of r] by (auto simp: add.assoc)
  qed
qed simp

lemma seqLess_region: "0 < region_length r \<Longrightarrow> region_length r < 2147483648 \<Longrightarrow> seqLess (beginSeqNum r) (endSeqNum r)"
  using seqLess_window [of 0 "region_length r" "beginSeqNum r"] by (simp add: region_end [symmetric])

lemma check_loop_chain:
  "chain b rs \<Longrightarrow> check_loop rs b True = (b + of_nat (length (region_bytes rs)), True)"
proof (induction rs arbitrary: b)
  case (Cons r rs)
  then show ?case using seqLess_region [of r] region_end [of r] by (auto simp: add.assoc)
qed simp

lemma checkQueue_inv: "sack_inv Q \<Longrightarrow> checkQueue Q"
  by (simp add: checkQueue_def sack_inv_def check_loop_chain sack_bytes_def)

lemma remaining_split: "passed s rs @ remaining s rs = rs"
  by (simp add: passed_def remaining_def)

text \<open>Where the first loop stops.\<close>

lemma passed_all:
  assumes "chain b rs" "length (region_bytes rs) \<le> a" "a < 2147483648"
  shows "passed (b + of_nat a) rs = rs \<and> remaining (b + of_nat a) rs = []"
proof -
  have "\<forall>r \<in> set rs. seqLE (endSeqNum r) (b + of_nat a)" using assms
  proof (induction rs arbitrary: b a)
    case (Cons r rs)
    have "seqLE (endSeqNum r) (b + of_nat a)"
      using seqLE_window [of "region_length r" a b] region_end [of r] Cons.prems by simp
    moreover have "b + of_nat a = endSeqNum r + of_nat (a - region_length r)"
      using region_end [of r] Cons.prems by (simp add: of_nat_diff)
    moreover have "\<forall>r' \<in> set rs. seqLE (endSeqNum r') (endSeqNum r + of_nat (a - region_length r))"
      by (rule Cons.IH) (use Cons.prems in simp_all)
    ultimately show ?case by simp
  qed simp
  then show ?thesis by (simp add: passed_def remaining_def takeWhile_eq_all_conv dropWhile_eq_Nil_conv)
qed

lemma locate:
  assumes "chain b rs" "length (region_bytes rs) < 2147483648" "a < length (region_bytes rs)"
  obtains i rest k where "remaining (b + of_nat a) rs = i # rest"
    "a = length (region_bytes (passed (b + of_nat a) rs)) + k" "k < region_length i"
proof -
  have "\<exists>i rest k. remaining (b + of_nat a) rs = i # rest
      \<and> a = length (region_bytes (passed (b + of_nat a) rs)) + k \<and> k < region_length i"
    using assms
  proof (induction rs arbitrary: b a)
    case (Cons r rs)
    have le: "seqLE (endSeqNum r) (b + of_nat a) \<longleftrightarrow> region_length r \<le> a"
      using seqLE_window [of "region_length r" a b] region_end [of r] Cons.prems by simp
    show ?case
    proof (cases "region_length r \<le> a")
      case True
      then have eq: "b + of_nat a = endSeqNum r + of_nat (a - region_length r)"
        using region_end [of r] Cons.prems by (simp add: of_nat_diff)
      have "\<exists>i rest k. remaining (endSeqNum r + of_nat (a - region_length r)) rs = i # rest
        \<and> a - region_length r = length (region_bytes (passed (endSeqNum r + of_nat (a - region_length r)) rs)) + k
        \<and> k < region_length i"
        by (rule Cons.IH) (use Cons.prems True in simp_all)
      then obtain i rest k where IH: "remaining (b + of_nat a) rs = i # rest"
        "a - region_length r = length (region_bytes (passed (b + of_nat a) rs)) + k" "k < region_length i"
        unfolding eq by blast
      have "remaining (b + of_nat a) (r # rs) = i # rest" "passed (b + of_nat a) (r # rs) = r # passed (b + of_nat a) rs"
        using le True IH(1) by (simp_all add: remaining_def passed_def)
      moreover have "a = length (region_bytes (r # passed (b + of_nat a) rs)) + k" using IH(2) True by simp
      ultimately show ?thesis using IH(3) by (intro exI [of _ i] exI [of _ rest] exI [of _ k]) simp
    next
      case False
      then show ?thesis using le by (simp add: remaining_def passed_def)
    qed
  qed simp
  with that show thesis by blast
qed

lemma located_region:
  assumes "chain b (xs @ i # rest)" "length (region_bytes (xs @ i # rest)) < 2147483648" "k < region_length i"
  defines "s \<equiv> b + of_nat (length (region_bytes xs) + k)"
  shows "seqLE (beginSeqNum i) s" "seqLess s (endSeqNum i)" "beginSeqNum i + of_nat k = s"
proof -
  have b: "beginSeqNum i = b + of_nat (length (region_bytes xs))" using assms(1) by (simp add: chain_append)
  then show s: "beginSeqNum i + of_nat k = s" by (simp add: s_def add.assoc)
  show "seqLE (beginSeqNum i) s"
    using seqLE_window [of 0 k "beginSeqNum i"] assms(2,3) s by simp
  have "seqLess (beginSeqNum i + of_nat k) (beginSeqNum i + of_nat (region_length i))"
    using assms(2,3) by (subst seqLess_window) simp_all
  then show "seqLess s (endSeqNum i)" unfolding s region_end [of i] .
qed

text \<open>Cutting the region in which a position lies.\<close>

definition cut_at :: "nat \<Rightarrow> region \<Rightarrow> region list \<times> region" where
  "cut_at k i = (if k \<noteq> 0 then ([i\<lparr>endSeqNum := beginSeqNum i + of_nat k\<rparr>], i\<lparr>beginSeqNum := beginSeqNum i + of_nat k\<rparr>)
                 else ([], i))"

lemma region_length_offset: "k < 4294967296 \<Longrightarrow> unat (beginSeqNum i + of_nat k - beginSeqNum i) = k"
  using offset_window [of k "beginSeqNum i"] by simp

lemma region_length_rest:
  assumes "k \<le> region_length i"
  shows "unat (endSeqNum i - (beginSeqNum i + of_nat k)) = region_length i - k"
proof -
  have lt: "region_length i < 4294967296" using unat_less_32 [of "endSeqNum i - beginSeqNum i"] by (simp add: region_length_def)
  have "endSeqNum i - (beginSeqNum i + of_nat k) = (of_nat (region_length i - k) :: seq)"
    using assms region_end [of i] by (simp add: of_nat_diff)
  moreover have "unat (of_nat (region_length i - k) :: seq) = region_length i - k"
    by (rule unat_of_nat_32) (use lt in simp)
  ultimately show ?thesis by simp
qed

lemma cut_before_eq: "k < 4294967296 \<Longrightarrow> cut_before (beginSeqNum i + of_nat k) i = cut_at k i"
  using region_length_offset [of k i] by (auto simp: cut_before_def cut_at_def)

lemma cut_at_props:
  assumes "cut_at k i = (chunk, i')" "k < region_length i" "region_length i < 2147483648"
  shows "region_bytes chunk = replicate k (sacked i, rexmitted i)"
    "region_bytes [i'] = replicate (region_length i - k) (sacked i, rexmitted i)"
    "chain (beginSeqNum i) (chunk @ [i'])" "endSeqNum i' = endSeqNum i" "beginSeqNum i' = beginSeqNum i + of_nat k"
    "sacked i' = sacked i" "rexmitted i' = rexmitted i" "region_length i' = region_length i - k"
proof -
  have k: "k < 4294967296" using assms(2,3) by simp
  have r: "unat (endSeqNum i - (beginSeqNum i + of_nat k)) = region_length i - k"
    using region_length_rest assms(2) by simp
  note [simp] = unat_of_nat_32 [OF k] r
  show "region_bytes chunk = replicate k (sacked i, rexmitted i)"
    "region_bytes [i'] = replicate (region_length i - k) (sacked i, rexmitted i)"
    "chain (beginSeqNum i) (chunk @ [i'])" "endSeqNum i' = endSeqNum i" "beginSeqNum i' = beginSeqNum i + of_nat k"
    "sacked i' = sacked i" "rexmitted i' = rexmitted i" "region_length i' = region_length i - k"
    using assms by (auto simp: cut_at_def region_length_def less_imp_diff_less split: if_splits)
qed

lemma chain_cong:
  "map (\<lambda>r. (beginSeqNum r, endSeqNum r)) xs = map (\<lambda>r. (beginSeqNum r, endSeqNum r)) ys \<Longrightarrow> chain b xs = chain b ys"
proof (induction xs arbitrary: ys b)
  case (Cons x xs)
  then obtain y ys' where "ys = y # ys'" by (cases ys) auto
  then show ?case using Cons.prems Cons.IH [of ys'] by (auto simp: region_length_def)
qed simp

text \<open>The second loops.\<close>

lemma rexmit_loop_eq:
  "rexmit_loop t s rs = (map (\<lambda>i. i\<lparr>rexmitted := True\<rparr>) (passed t rs),
     (if passed t rs = [] then s else endSeqNum (last (passed t rs))), remaining t rs)"
  by (induction rs arbitrary: s) (auto simp: passed_def remaining_def)

lemma sack_loop_eq:
  "chain (s + of_nat p) rs \<Longrightarrow> p + length (region_bytes rs) < 2147483648 \<Longrightarrow>
   sack_loop s t rs = (map (\<lambda>i. i\<lparr>sacked := True\<rparr>) (passed t rs), remaining t rs)"
proof (induction rs arbitrary: p)
  case (Cons r rs)
  have "seqGE (beginSeqNum r) s"
    using seqLE_window [of 0 p s] Cons.prems by (simp add: seqGE_seqLE)
  moreover have "endSeqNum r = s + of_nat (p + region_length r)" using Cons.prems region_end [of r] by (simp add: add.assoc)
  then have "sack_loop s t rs = (map (\<lambda>i. i\<lparr>sacked := True\<rparr>) (passed t rs), remaining t rs)"
    using Cons.IH [of "p + region_length r"] Cons.prems by simp
  ultimately show ?case by (simp add: passed_def remaining_def)
qed (simp add: passed_def remaining_def)

lemma region_bytes_sacked: "region_bytes (map (\<lambda>i. i\<lparr>sacked := True\<rparr>) rs) = map (\<lambda>(s, r). (True, r)) (region_bytes rs)"
  by (induction rs) (simp_all add: region_length_def)

lemma region_bytes_rexmitted: "region_bytes (map (\<lambda>i. i\<lparr>rexmitted := True\<rparr>) rs) = map (\<lambda>(s, r). (s, True)) (region_bytes rs)"
  by (induction rs) (simp_all add: region_length_def)

lemma chain_map_sacked: "chain b (map (\<lambda>i. i\<lparr>sacked := v\<rparr>) rs) = chain b rs"
  by (rule chain_cong) simp

lemma chain_map_rexmitted: "chain b (map (\<lambda>i. i\<lparr>rexmitted := v\<rparr>) rs) = chain b rs"
  by (rule chain_cong) simp

section \<open>The operations implement the specification\<close>

definition offset_of :: "sackq \<Rightarrow> seq \<Rightarrow> nat" where
  "offset_of Q s = unat (s - sq_begin Q)"

lemma offset_in:
  assumes "sack_inv Q" "seqLE (sq_begin Q) s" "seqLE s (sq_end Q)"
  shows "offset_of Q s \<le> length (sack_bytes Q)" "s = sq_begin Q + of_nat (offset_of Q s)"
  using in_window [of "sq_begin Q" s "length (sack_bytes Q)"] assms seq_offset [of "sq_begin Q" s]
  by (simp_all add: sack_inv_def offset_of_def)

lemma offset_lt_end:
  assumes "sack_inv Q" "seqLE (sq_begin Q) s" "seqLE s (sq_end Q)" "s \<noteq> sq_end Q"
  shows "offset_of Q s < length (sack_bytes Q)"
proof -
  have "offset_of Q s \<noteq> length (sack_bytes Q)"
    using offset_in(2) [OF assms(1-3)] assms(1,4) by (auto simp: sack_inv_def)
  with offset_in(1) [OF assms(1-3)] show ?thesis by simp
qed

lemma offset_end: "sack_inv Q \<Longrightarrow> offset_of Q (sq_end Q) = length (sack_bytes Q)"
  using offset_window [of "length (sack_bytes Q)" "sq_begin Q"] by (simp add: sack_inv_def offset_of_def)

text \<open>A position inside the queue lies in one region.\<close>

lemma locate_region:
  assumes inv: "sack_inv Q" and s: "seqLE (sq_begin Q) s" "seqLE s (sq_end Q)" "s \<noteq> sq_end Q"
  obtains i rest k where "rexmitQueue Q = passed s (rexmitQueue Q) @ i # rest" "remaining s (rexmitQueue Q) = i # rest"
    "offset_of Q s = length (region_bytes (passed s (rexmitQueue Q))) + k" "k < region_length i"
    "seqLE (beginSeqNum i) s" "seqLess s (endSeqNum i)" "beginSeqNum i + of_nat k = s" "region_length i < 2147483648"
proof -
  let ?rs = "rexmitQueue Q"
  have chain: "chain (sq_begin Q) ?rs" and len: "length (region_bytes ?rs) < 2147483648"
    using inv by (simp_all add: sack_inv_def sack_bytes_def)
  have a: "offset_of Q s < length (region_bytes ?rs)" using offset_lt_end [OF inv s] by (simp add: sack_bytes_def)
  have eq: "sq_begin Q + of_nat (offset_of Q s) = s" using offset_in(2) [OF inv s(1,2)] by simp
  obtain i rest k where l: "remaining s ?rs = i # rest" "offset_of Q s = length (region_bytes (passed s ?rs)) + k"
    "k < region_length i"
    using locate [OF chain len a] unfolding eq by blast
  have split: "?rs = passed s ?rs @ i # rest" using remaining_split [of s ?rs] l(1) by simp
  have c: "chain (sq_begin Q) (passed s ?rs @ i # rest)" "length (region_bytes (passed s ?rs @ i # rest)) < 2147483648"
    using chain len split by metis+
  have "sq_begin Q + of_nat (length (region_bytes (passed s ?rs)) + k) = s" using eq l(2) by simp
  note located_region [OF c l(3), unfolded this]
  moreover have "region_length i < 2147483648" using c(1) by (simp add: chain_append)
  ultimately show thesis using that split l by blast
qed

lemma discardUpTo_spec:
  assumes inv: "sack_inv Q" and s: "seqLE (sq_begin Q) s" "seqLE s (sq_end Q)"
  shows "\<exists>Q'. discardUpTo s Q = Inr Q' \<and> sack_inv Q' \<and> sq_begin Q' = s \<and> sq_end Q' = sq_end Q
    \<and> sack_bytes Q' = drop (offset_of Q s) (sack_bytes Q)"
proof -
  let ?rs = "rexmitQueue Q" and ?n = "length (sack_bytes Q)" and ?a = "offset_of Q s"
  have a: "?a \<le> ?n" "s = sq_begin Q + of_nat ?a" using offset_in [OF inv s] by simp_all
  have n: "?n < 2147483648" and chain: "chain (sq_begin Q) ?rs" and e: "sq_end Q = sq_begin Q + of_nat ?n"
    using inv by (simp_all add: sack_inv_def)
  have "of_nat ?a + of_nat (?n - ?a) = (of_nat ?n :: seq)" using a(1) by (simp flip: of_nat_add)
  then have e': "sq_end Q = s + of_nat (?n - ?a)" using e a(2) by (metis add.assoc)
  have goal: ?thesis if "chain s rs'" "region_bytes rs' = drop ?a (sack_bytes Q)"
      "(case remaining s ?rs of [] \<Rightarrow> Inr []
        | i # rest \<Rightarrow> bind_result (assert_that (seqLE (beginSeqNum i) s \<and> seqLess s (endSeqNum i)) ''discardUpTo: region'')
              (\<lambda>_. Inr (i\<lparr>beginSeqNum := s\<rparr> # rest))) = Inr rs'" for rs'
  proof -
    let ?Q = "Q\<lparr>rexmitQueue := rs', sq_begin := s\<rparr>"
    have "sack_inv ?Q" using that(1,2) n e' by (simp add: sack_inv_def sack_bytes_def)
    then show ?thesis using that(2,3) s checkQueue_inv [of ?Q] by (simp add: discardUpTo_def Let_def sack_bytes_def)
  qed
  show ?thesis
  proof (cases "s = sq_end Q")
    case True
    then have "?a = ?n" using offset_end [OF inv] by simp
    moreover have "remaining s ?rs = []"
      using passed_all [OF chain, of ?n] n True e by (simp add: sack_bytes_def)
    ultimately show ?thesis using goal [of "[]"] by simp
  next
    case False
    obtain i rest k where l: "?rs = passed s ?rs @ i # rest" "remaining s ?rs = i # rest"
      "?a = length (region_bytes (passed s ?rs)) + k" "k < region_length i"
      "seqLE (beginSeqNum i) s" "seqLess s (endSeqNum i)" "beginSeqNum i + of_nat k = s" "region_length i < 2147483648"
      by (rule locate_region [OF inv s False])
    let ?i = "i\<lparr>beginSeqNum := s\<rparr>"
    have len: "region_length ?i = region_length i - k"
      using region_length_rest [of k i] l(4,7) by (simp add: region_length_def)
    have "chain (sq_begin Q) (passed s ?rs @ i # rest)" using chain l(1) by metis
    then have "chain s (?i # rest)" using l(4,8) len by (simp add: chain_append)
    moreover have "sack_bytes Q = region_bytes (passed s ?rs) @ replicate (region_length i) (sacked i, rexmitted i) @ region_bytes rest"
      using l(1) by (metis sack_bytes_def region_bytes_simps(2,3))
    then have "region_bytes (?i # rest) = drop ?a (sack_bytes Q)" using l(3,4) by (simp add: len)
    ultimately show ?thesis using goal [of "?i # rest"] l(2,5,6) by simp
  qed
qed

lemma getSackedBit_spec:
  assumes inv: "sack_inv Q" and s: "seqLE (sq_begin Q) s" "seqLE s (sq_end Q)"
  shows "getSackedBit s Q = Inr (if s = sq_end Q then False else fst (sack_bytes Q ! offset_of Q s))"
proof (cases "s = sq_end Q")
  case True
  then show ?thesis using s by (simp add: getSackedBit_def)
next
  case False
  obtain i rest k where l: "rexmitQueue Q = passed s (rexmitQueue Q) @ i # rest" "remaining s (rexmitQueue Q) = i # rest"
    "offset_of Q s = length (region_bytes (passed s (rexmitQueue Q))) + k" "k < region_length i"
    "seqLE (beginSeqNum i) s" "seqLess s (endSeqNum i)" "beginSeqNum i + of_nat k = s" "region_length i < 2147483648"
    by (rule locate_region [OF inv s False])
  have "sack_bytes Q = region_bytes (passed s (rexmitQueue Q)) @ replicate (region_length i) (sacked i, rexmitted i) @ region_bytes rest"
    using l(1) by (metis sack_bytes_def region_bytes_simps(2,3))
  then show ?thesis using l(2-6) s False by (auto simp: getSackedBit_def nth_append)
qed

lemma total_spec_aux:
  "chain b rs \<Longrightarrow> fold (\<lambda>r bytes. if sacked r then bytes + (endSeqNum r - beginSeqNum r) else bytes) rs w
     = w + of_nat (length (filter fst (region_bytes rs)))"
proof (induction rs arbitrary: b w)
  case (Cons r rs)
  then show ?case using Cons.IH [of "endSeqNum r"] region_end [of r] by (auto simp: add.assoc)
qed simp

lemma getTotalAmountOfSackedBytes_spec:
  "sack_inv Q \<Longrightarrow> getTotalAmountOfSackedBytes Q = of_nat (length (filter fst (sack_bytes Q)))"
  using total_spec_aux [of "sq_begin Q" "rexmitQueue Q" 0]
  by (simp add: getTotalAmountOfSackedBytes_def sack_inv_def sack_bytes_def)

text \<open>The state after the first loop and the cut: the front part, and the part from the position on.\<close>

lemma cut_queue:
  assumes inv: "sack_inv Q" and s: "seqLE (sq_begin Q) s" "seqLE s (sq_end Q)" "s \<noteq> sq_end Q"
  obtains i rest chunk i' where "remaining s (rexmitQueue Q) = i # rest" "cut_before s i = (chunk, i')"
    "seqLE (beginSeqNum i) s" "seqLess s (endSeqNum i)"
    "region_bytes (passed s (rexmitQueue Q) @ chunk) = take (offset_of Q s) (sack_bytes Q)"
    "region_bytes (i' # rest) = drop (offset_of Q s) (sack_bytes Q)"
    "chain (sq_begin Q) (passed s (rexmitQueue Q) @ chunk)" "chain s (i' # rest)"
proof -
  let ?rs = "rexmitQueue Q"
  obtain i rest k where l: "?rs = passed s ?rs @ i # rest" "remaining s ?rs = i # rest"
    "offset_of Q s = length (region_bytes (passed s ?rs)) + k" "k < region_length i"
    "seqLE (beginSeqNum i) s" "seqLess s (endSeqNum i)" "beginSeqNum i + of_nat k = s" "region_length i < 2147483648"
    by (rule locate_region [OF inv s])
  obtain chunk i' where cut: "cut_at k i = (chunk, i')" by (cases "cut_at k i")
  note c = cut_at_props [OF cut l(4,8)]
  have bytes: "sack_bytes Q = region_bytes (passed s ?rs) @ replicate (region_length i) (sacked i, rexmitted i) @ region_bytes rest"
    using l(1) by (metis sack_bytes_def region_bytes_simps(2,3))
  have "chain (sq_begin Q) ?rs" using inv by (simp add: sack_inv_def)
  then have chain: "chain (sq_begin Q) (passed s ?rs @ i # rest)" using l(1) by metis
  then have b: "beginSeqNum i = sq_begin Q + of_nat (length (region_bytes (passed s ?rs)))" by (simp add: chain_append)
  have "cut_before s i = (chunk, i')" using cut_before_eq [of k i] l(4,7,8) cut by simp
  moreover have "region_bytes (passed s ?rs @ chunk) = take (offset_of Q s) (sack_bytes Q)"
    using l(3,4) by (simp add: c bytes min_def)
  moreover have "region_bytes (i' # rest) = drop (offset_of Q s) (sack_bytes Q)"
    using l(3,4) c(2) by (simp add: bytes)
  moreover have "chain (sq_begin Q) (passed s ?rs @ chunk)" using chain c(3) b by (simp add: chain_append)
  moreover have "chain s (i' # rest)" using chain c(3-8) l(4,7,8) by (simp add: chain_append)
  ultimately show thesis using that l(2,5,6) by blast
qed

text \<open>Where the second loop stops.\<close>

lemma second_loop:
  assumes "chain s L" "length (region_bytes L) < 2147483648" "m \<le> length (region_bytes L)"
  defines "t \<equiv> s + of_nat m"
  obtains (all) "passed t L = L" "remaining t L = []" "m = length (region_bytes L)"
    | (inside) j js k where "L = passed t L @ j # js" "remaining t L = j # js" "m = length (region_bytes (passed t L)) + k"
      "k < region_length j" "beginSeqNum j + of_nat k = t" "region_length j < 2147483648" "chain (beginSeqNum j) (j # js)"
proof (cases "m = length (region_bytes L)")
  case True
  then show ?thesis using all passed_all [OF assms(1), of m] assms(2) by (simp add: t_def)
next
  case False
  then have m: "m < length (region_bytes L)" using assms(3) by simp
  from locate [OF assms(1,2) m] obtain j js k where l: "remaining t L = j # js"
    "m = length (region_bytes (passed t L)) + k" "k < region_length j" unfolding t_def by blast
  have split: "L = passed t L @ j # js" using remaining_split [of t L] l(1) by simp
  have chain: "chain s (passed t L @ j # js)" "length (region_bytes (passed t L @ j # js)) < 2147483648"
    using assms(1,2) split by metis+
  have "s + of_nat (length (region_bytes (passed t L)) + k) = t" using l(2) by (simp add: t_def)
  with located_region(3) [OF chain l(3)] have "beginSeqNum j + of_nat k = t" by (simp only:)
  moreover have "region_length j < 2147483648" "chain (beginSeqNum j) (j # js)"
    using chain(1) by (simp_all add: chain_append)
  ultimately show ?thesis using inside split l by blast
qed

lemma seqLess_cut:
  assumes "k < region_length j" "region_length j < 2147483648" "beginSeqNum j + of_nat k = t"
  shows "seqLess (beginSeqNum j) t \<longleftrightarrow> 0 < k" "seqLess t (endSeqNum j)"
proof -
  show "seqLess (beginSeqNum j) t \<longleftrightarrow> 0 < k"
    using seqLess_window [of 0 k "beginSeqNum j"] assms by simp
  have "seqLess (beginSeqNum j + of_nat k) (beginSeqNum j + of_nat (region_length j))"
    using assms by (subst seqLess_window) simp_all
  then show "seqLess t (endSeqNum j)" unfolding assms(3) region_end [of j] .
qed

lemma cut_front_back:
  assumes "k < region_length j" "region_length j < 2147483648" "beginSeqNum j + of_nat k = t"
  shows "region_length (j\<lparr>endSeqNum := t\<rparr>) = k" "region_length (j\<lparr>beginSeqNum := t\<rparr>) = region_length j - k"
proof -
  have "k < 4294967296" using assms by simp
  then show "region_length (j\<lparr>endSeqNum := t\<rparr>) = k"
    using region_length_offset [of k j] assms(3) by (simp add: region_length_def)
  show "region_length (j\<lparr>beginSeqNum := t\<rparr>) = region_length j - k"
    using region_length_rest [of k j] assms by (simp add: region_length_def)
qed

lemma setSackedBit_spec:
  fixes f0 t Q
  defines "f \<equiv> (if seqLess f0 (sq_begin Q) then sq_begin Q else f0)"
  assumes inv: "sack_inv Q" and f: "seqLE (sq_begin Q) f" "seqLess f (sq_end Q)"
    and t: "seqLess (sq_begin Q) t" "seqLE t (sq_end Q)" and ft: "seqLess f t"
  shows "\<exists>Q'. setSackedBit f0 t Q = Inr Q' \<and> sack_inv Q' \<and> sq_begin Q' = sq_begin Q \<and> sq_end Q' = sq_end Q
    \<and> sack_bytes Q' = mark (\<lambda>(s, r). (True, r)) (offset_of Q f) (offset_of Q t) (sack_bytes Q)"
proof -
  let ?rs = "rexmitQueue Q" and ?B = "sack_bytes Q" and ?a = "offset_of Q f" and ?c = "offset_of Q t"
  let ?F = "\<lambda>(s, r). (True, r) :: bool \<times> bool"
  have f': "seqLE f (sq_end Q)" "f \<noteq> sq_end Q" using f(2) by (simp_all add: seqLess_seqLE)
  have t': "seqLE (sq_begin Q) t" using t(1) by (simp add: seqLess_seqLE)
  have n: "length ?B < 2147483648" using inv by (simp add: sack_inv_def)
  note a = offset_in [OF inv f(1) f'(1)] and c = offset_in [OF inv t' t(2)]
  have "?a < ?c" using ft a c n seqLess_window [of ?a ?c "sq_begin Q"] by simp
  obtain i rest chunk i' where l: "remaining f ?rs = i # rest" "cut_before f i = (chunk, i')"
    "seqLE (beginSeqNum i) f" "seqLess f (endSeqNum i)"
    "region_bytes (passed f ?rs @ chunk) = take ?a ?B" "region_bytes (i' # rest) = drop ?a ?B"
    "chain (sq_begin Q) (passed f ?rs @ chunk)" "chain f (i' # rest)"
    by (rule cut_queue [OF inv f(1) f'])
  let ?L = "i' # rest" and ?m = "?c - ?a" and ?before = "passed f ?rs @ chunk"
  have "of_nat ?a + of_nat ?m = (of_nat ?c :: seq)" using \<open>?a < ?c\<close> by (simp flip: of_nat_add)
  then have teq: "f + of_nat ?m = t" using a(2) c(2) by (metis add.assoc)
  have m: "?m \<le> length (region_bytes ?L)" and len: "length (region_bytes ?L) < 2147483648"
    using c(1) n by (simp_all add: l(6) del: region_bytes_simps)
  have loop: "sack_loop f t ?L = (map (\<lambda>i. i\<lparr>sacked := True\<rparr>) (passed t ?L), remaining t ?L)"
    by (rule sack_loop_eq [where p = 0]) (use l(8) len in simp_all)
  have fin: ?thesis if chain': "chain f rs'" and bytes': "region_bytes rs' = map ?F (take ?m (region_bytes ?L)) @ drop ?m (region_bytes ?L)"
      and code: "(let (done, rest') = sack_loop f t ?L in done @ (case rest' of [] \<Rightarrow> []
                   | j # js \<Rightarrow> if seqLess (beginSeqNum j) t \<and> seqLess t (endSeqNum j)
                              then j\<lparr>endSeqNum := t, sacked := True\<rparr> # j\<lparr>beginSeqNum := t\<rparr> # js
                              else j # js)) = rs'" for rs'
  proof -
    let ?Q = "Q\<lparr>rexmitQueue := ?before @ rs'\<rparr>"
    have "sack_bytes ?Q = region_bytes ?before @ region_bytes rs'"
      by (simp add: sack_bytes_def)
    then have bytes: "sack_bytes ?Q = mark ?F ?a ?c ?B"
      unfolding mark_def l(5) bytes' l(6) using \<open>?a < ?c\<close> by simp
    moreover have "length (mark ?F ?a ?c ?B) = length ?B" using a(1) c(1) \<open>?a < ?c\<close> by (simp add: mark_def)
    moreover have "length (region_bytes ?before) = ?a" unfolding l(5) using a(1) by simp
    then have "chain (sq_begin Q) (?before @ rs')"
      unfolding chain_append [of _ ?before] using l(7) chain' a(2) by simp
    ultimately have "sack_inv ?Q" using inv by (simp add: sack_inv_def)
    moreover have "?rs \<noteq> []" using l(1) by (auto simp: remaining_def)
    then have "setSackedBit f0 t Q = Inr ?Q"
      using f(2) t ft l(1-4) code checkQueue_inv [OF \<open>sack_inv ?Q\<close>]
      by (simp add: setSackedBit_def f_def [symmetric] case_prod_beta Let_def)
    ultimately show ?thesis using bytes by simp
  qed
  show ?thesis
  proof (rule second_loop [OF l(8) len m], unfold teq)
    assume all: "passed t ?L = ?L" "remaining t ?L = []" "?m = length (region_bytes ?L)"
    show ?thesis
      by (rule fin [of "map (\<lambda>i. i\<lparr>sacked := True\<rparr>) ?L"])
        (simp_all only: chain_map_sacked l(8) region_bytes_sacked loop all prod.case Let_def list.case take_all
          drop_all order_refl append_Nil2)
  next
    fix j js k
    assume j: "?L = passed t ?L @ j # js" "remaining t ?L = j # js" "?m = length (region_bytes (passed t ?L)) + k"
      "k < region_length j" "beginSeqNum j + of_nat k = t" "region_length j < 2147483648" "chain (beginSeqNum j) (j # js)"
    have flags: "(\<lambda>(s, r). (True, r)) (sacked j, rexmitted j) = (True, rexmitted j)" by simp
    have L: "region_bytes ?L = region_bytes (passed t ?L) @ replicate (region_length j) (sacked j, rexmitted j) @ region_bytes js"
      using j(1) by (metis region_bytes_simps(2,3))
    have chainP: "chain f (passed t ?L)" "beginSeqNum j = f + of_nat (length (region_bytes (passed t ?L)))"
      using l(8) j(1) by (metis chain_append chain.simps(2))+
    note cutj = cut_front_back [OF j(4,6,5)] and lessj = seqLess_cut [OF j(4,6,5)]
    let ?P = "map (\<lambda>i. i\<lparr>sacked := True\<rparr>) (passed t ?L)"
    let ?J = "if 0 < k then j\<lparr>endSeqNum := t, sacked := True\<rparr> # j\<lparr>beginSeqNum := t\<rparr> # js else j # js"
    show ?thesis
    proof (rule fin [of "?P @ ?J"])
      show "chain f (?P @ ?J)"
        using chainP j(4-7) cutj by (simp add: chain_append chain_map_sacked region_bytes_sacked region_length_def less_imp_diff_less)
      show "region_bytes (?P @ ?J) = map ?F (take ?m (region_bytes ?L)) @ drop ?m (region_bytes ?L)"
        unfolding L j(3) using j(4) cutj by (simp add: region_bytes_sacked region_length_def flags min_def)
      show "(let (done, rest') = sack_loop f t ?L in done @ (case rest' of [] \<Rightarrow> []
           | j # js \<Rightarrow> if seqLess (beginSeqNum j) t \<and> seqLess t (endSeqNum j)
                      then j\<lparr>endSeqNum := t, sacked := True\<rparr> # j\<lparr>beginSeqNum := t\<rparr> # js else j # js)) = ?P @ ?J"
        using lessj by (simp only: loop j(2) Let_def prod.case list.case) simp
    qed
  qed
qed

lemma checkQueue_chain:
  assumes "chain b rs" "rs \<noteq> []"
  shows "checkQueue (Q\<lparr>rexmitQueue := rs, sq_begin := beginSeqNum (hd rs), sq_end := endSeqNum (last rs)\<rparr>)"
    "beginSeqNum (hd rs) = b" "endSeqNum (last rs) = b + of_nat (length (region_bytes rs))"
proof -
  show b: "beginSeqNum (hd rs) = b" using assms by (cases rs) simp_all
  show e: "endSeqNum (last rs) = b + of_nat (length (region_bytes rs))" by (rule chain_end [OF assms])
  show "checkQueue (Q\<lparr>rexmitQueue := rs, sq_begin := beginSeqNum (hd rs), sq_end := endSeqNum (last rs)\<rparr>)"
    using check_loop_chain [OF assms(1)] by (simp add: checkQueue_def b e)
qed

text \<open>
  The part of \<^verbatim>\<open>enqueueSentData\<close> before its last assertions, and what these do with its result.
\<close>

lemma enqueue_finish:
  assumes "chain b rs" "rs \<noteq> []" "length (region_bytes rs) < 2147483648" "found" "f' = t"
  shows "\<exists>Q'. bind_result (assert_that (f' = t) w1) (\<lambda>_. bind_result (assert_that found w2) (\<lambda>_.
         let Q' = Q\<lparr>rexmitQueue := rs, sq_begin := beginSeqNum (hd rs), sq_end := endSeqNum (last rs)\<rparr> in
         bind_result (assert_that (checkQueue Q') w3) (\<lambda>_. Inr Q'))) = Inr Q'
     \<and> sack_inv Q' \<and> sq_begin Q' = b \<and> sack_bytes Q' = region_bytes rs \<and> sq_end Q' = b + of_nat (length (region_bytes rs))"
proof -
  let ?Q = "Q\<lparr>rexmitQueue := rs, sq_begin := beginSeqNum (hd rs), sq_end := endSeqNum (last rs)\<rparr>"
  note e = checkQueue_chain(2,3) [OF assms(1,2)]
  have "checkQueue ?Q" by (rule checkQueue_chain(1) [OF assms(1,2)])
  moreover have "sack_inv ?Q" using assms(1,3) by (simp add: sack_inv_def sack_bytes_def e)
  ultimately show ?thesis using assms(4,5) e by (simp add: Let_def sack_bytes_def)
qed

text \<open>New data at the end of the queue, and data sent again.\<close>

lemma enqueue_at_end:
  assumes inv: "sack_inv Q" and ft: "seqLess (sq_end Q) t" "unat (t - sq_begin Q) < 2147483648"
  defines "c \<equiv> offset_of Q t"
  shows "\<exists>Q'. enqueueSentData (sq_end Q) t Q = Inr Q' \<and> sack_inv Q' \<and> sq_begin Q' = sq_begin Q \<and> sq_end Q' = t
    \<and> sack_bytes Q' = sack_bytes Q @ replicate (c - length (sack_bytes Q)) (False, False)"
proof -
  let ?rs = "rexmitQueue Q" and ?n = "length (sack_bytes Q)"
  let ?r = "\<lparr>beginSeqNum = sq_end Q, endSeqNum = t, sacked = False, rexmitted = False\<rparr>"
  have n: "?n < 2147483648" and chain: "chain (sq_begin Q) ?rs" and e: "sq_end Q = sq_begin Q + of_nat ?n"
    using inv by (simp_all add: sack_inv_def)
  have t: "t = sq_begin Q + of_nat c" and c: "c < 2147483648" using ft(2) by (simp_all add: c_def offset_of_def)
  have lt: "?n < c" using ft(1) seqLess_window [of ?n c "sq_begin Q"] n c t e by simp
  have "t - sq_end Q = (of_nat (c - ?n) :: seq)" using lt by (simp add: t e of_nat_diff)
  then have len: "region_length ?r = c - ?n" using unat_of_nat_32 [of "c - ?n"] c by (simp add: region_length_def)
  have le: "seqLE (sq_begin Q) (sq_end Q)" "seqLE (sq_end Q) (sq_end Q)"
    using seqLE_window [of 0 ?n "sq_begin Q"] seqLE_window [of 0 0 "sq_end Q"] n e by simp_all
  have "chain (sq_begin Q) (?rs @ [?r])"
    using chain lt c len by (simp add: chain_append sack_bytes_def [symmetric] e)
  moreover have "?rs @ [?r] \<noteq> []" by simp
  moreover have bytes: "region_bytes (?rs @ [?r]) = sack_bytes Q @ replicate (c - ?n) (False, False)"
    by (simp add: len sack_bytes_def)
  then have "length (region_bytes (?rs @ [?r])) = c" using lt by simp
  ultimately have "\<exists>Q'. bind_result (assert_that (t = t) ''enqueueSentData: fromSeqNum == toSeqNum'') (\<lambda>_.
       bind_result (assert_that True ''enqueueSentData: found'') (\<lambda>_.
       let Q' = Q\<lparr>rexmitQueue := ?rs @ [?r], sq_begin := beginSeqNum (hd (?rs @ [?r])), sq_end := endSeqNum (last (?rs @ [?r]))\<rparr> in
       bind_result (assert_that (checkQueue Q') ''enqueueSentData: checkQueue'') (\<lambda>_. Inr Q'))) = Inr Q'
     \<and> sack_inv Q' \<and> sq_begin Q' = sq_begin Q \<and> sack_bytes Q' = region_bytes (?rs @ [?r])
     \<and> sq_end Q' = sq_begin Q + of_nat (length (region_bytes (?rs @ [?r])))"
    using c by (intro enqueue_finish) simp_all
  then show ?thesis
    unfolding \<open>length (region_bytes (?rs @ [?r])) = c\<close> t [symmetric] unfolding bytes
    using le ft(1) by (auto simp: enqueueSentData_def)
qed

lemma enqueueSentData_spec:
  assumes inv: "sack_inv Q" and f: "seqLE (sq_begin Q) f" "seqLE f (sq_end Q)"
    and ft: "seqLess f t" "unat (t - sq_begin Q) < 2147483648"
  defines "n \<equiv> length (sack_bytes Q)"
  shows "\<exists>Q'. enqueueSentData f t Q = Inr Q' \<and> sack_inv Q' \<and> sq_begin Q' = sq_begin Q
    \<and> sack_bytes Q' = mark (\<lambda>(s, r). (s, True)) (offset_of Q f) (offset_of Q t) (sack_bytes Q)
        @ replicate (offset_of Q t - n) (False, False)"
proof (cases "f = sq_end Q")
  case True
  have "offset_of Q f = n" using offset_end [OF inv] True by (simp add: n_def)
  moreover have "offset_of Q t \<ge> n"
  proof -
    have e: "sq_end Q = sq_begin Q + of_nat n" and n: "n < 2147483648" using inv by (simp_all add: sack_inv_def n_def)
    have c: "offset_of Q t < 2147483648" using ft(2) by (simp add: offset_of_def)
    have "seqLess (sq_begin Q + of_nat n) (sq_begin Q + of_nat (offset_of Q t))"
      unfolding e [symmetric] offset_of_def seq_offset using ft(1) True by simp
    then show ?thesis unfolding seqLess_window [OF n c] by simp
  qed
  ultimately show ?thesis using enqueue_at_end [OF inv _ ft(2)] ft(1) True by (auto simp: mark_def n_def)
next
  case False
  let ?rs = "rexmitQueue Q" and ?B = "sack_bytes Q" and ?a = "offset_of Q f" and ?c = "offset_of Q t"
  let ?F = "\<lambda>(s, r). (s, True) :: bool \<times> bool"
  have nl: "n < 2147483648" using inv by (simp add: sack_inv_def n_def)
  note a = offset_in [OF inv f]
  have c: "t = sq_begin Q + of_nat ?c" "?c < 2147483648" using ft(2) by (simp_all add: offset_of_def)
  have "?a < ?c" using ft(1) a c nl seqLess_window [of ?a ?c "sq_begin Q"] by (simp add: n_def)
  obtain i rest chunk i' where l: "remaining f ?rs = i # rest" "cut_before f i = (chunk, i')"
    "seqLE (beginSeqNum i) f" "seqLess f (endSeqNum i)"
    "region_bytes (passed f ?rs @ chunk) = take ?a ?B" "region_bytes (i' # rest) = drop ?a ?B"
    "chain (sq_begin Q) (passed f ?rs @ chunk)" "chain f (i' # rest)"
    by (rule cut_queue [OF inv f False])
  let ?L = "i' # rest" and ?m = "?c - ?a" and ?before = "passed f ?rs @ chunk"
  have "of_nat ?a + of_nat ?m = (of_nat ?c :: seq)" using \<open>?a < ?c\<close> by (simp flip: of_nat_add)
  then have teq: "f + of_nat ?m = t" using a(2) c(1) by (metis add.assoc)
  have len: "length (region_bytes ?L) = n - ?a" by (simp add: l(6) n_def del: region_bytes_simps)
  have rs: "?rs \<noteq> []" using l(1) by (auto simp: remaining_def)
  have lenb: "length (region_bytes ?before) = ?a" unfolding l(5) using a(1) by simp
  let ?code = "(let (done, from', rest') = rexmit_loop t f ?L; found = (done \<noteq> [])
     in if from' \<noteq> t then
          bind_result (assert_that (case rest' of [] \<Rightarrow> True | j # _ \<Rightarrow> seqLess (beginSeqNum j) t) ''enqueueSentData: end'') (\<lambda>_.
          Inr (?before @ done @ \<lparr>beginSeqNum = from', endSeqNum = t,
                 sacked = (case rest' of [] \<Rightarrow> False | j # _ \<Rightarrow> sacked j), rexmitted = (rest' \<noteq> [])\<rparr>
               # (case rest' of [] \<Rightarrow> [] | j # js \<Rightarrow> j\<lparr>beginSeqNum := t\<rparr> # js), True, t))
        else Inr (?before @ done @ rest', found, from'))"
  have fin: ?thesis if "?code = Inr (?before @ rs', True, t)" "chain f rs'" "rs' \<noteq> []"
      "region_bytes rs' = map ?F (take ?m (region_bytes ?L)) @ drop ?m (region_bytes ?L) @ replicate (?c - n) (False, False)" for rs'
  proof -
    have bytes: "region_bytes (?before @ rs') = mark ?F ?a ?c ?B @ replicate (?c - n) (False, False)"
      unfolding region_bytes_simps(3) [of ?before] mark_def l(5) that(4) l(6) using \<open>?a < ?c\<close> by simp
    have "length (region_bytes (?before @ rs')) = max ?c n"
      unfolding bytes using a(1) \<open>?a < ?c\<close> by (simp add: mark_def n_def max_def)
    moreover have "chain (sq_begin Q) (?before @ rs')"
      unfolding chain_append [of _ ?before] using l(7) that(2) lenb a(2) by simp
    ultimately have "\<exists>Q'. bind_result (assert_that (t = t) ''enqueueSentData: fromSeqNum == toSeqNum'') (\<lambda>_.
         bind_result (assert_that True ''enqueueSentData: found'') (\<lambda>_.
         let Q' = Q\<lparr>rexmitQueue := ?before @ rs', sq_begin := beginSeqNum (hd (?before @ rs')), sq_end := endSeqNum (last (?before @ rs'))\<rparr> in
         bind_result (assert_that (checkQueue Q') ''enqueueSentData: checkQueue'') (\<lambda>_. Inr Q'))) = Inr Q'
       \<and> sack_inv Q' \<and> sq_begin Q' = sq_begin Q \<and> sack_bytes Q' = region_bytes (?before @ rs')
       \<and> sq_end Q' = sq_begin Q + of_nat (length (region_bytes (?before @ rs')))"
      using that(3) nl c(2) by (intro enqueue_finish) simp_all
    then obtain Q' where Q': "bind_result (Inr (?before @ rs', True, t)) (\<lambda>(rs, found, from').
         bind_result (assert_that (from' = t) ''enqueueSentData: fromSeqNum == toSeqNum'') (\<lambda>_.
         bind_result (assert_that found ''enqueueSentData: found'') (\<lambda>_.
         let Q' = Q\<lparr>rexmitQueue := rs, sq_begin := beginSeqNum (hd rs), sq_end := endSeqNum (last rs)\<rparr> in
         bind_result (assert_that (checkQueue Q') ''enqueueSentData: checkQueue'') (\<lambda>_. Inr Q')))) = Inr Q'"
      "sack_inv Q'" "sq_begin Q' = sq_begin Q" "sack_bytes Q' = region_bytes (?before @ rs')"
      by auto
    have conds: "(seqLE (sq_begin Q) f \<and> seqLE f (sq_end Q)) = True" "seqLess f t = True"
      "(?rs = [] \<or> sq_end Q = f) = False" "(seqLE (beginSeqNum i) f \<and> seqLess f (endSeqNum i)) = True"
      using f ft(1) False rs l(3,4) by auto
    note Q'(1) [folded that(1)]
    moreover have "enqueueSentData f t Q = bind_result ?code (\<lambda>(rs, found, from').
         bind_result (assert_that (from' = t) ''enqueueSentData: fromSeqNum == toSeqNum'') (\<lambda>_.
         bind_result (assert_that found ''enqueueSentData: found'') (\<lambda>_.
         let Q' = Q\<lparr>rexmitQueue := rs, sq_begin := beginSeqNum (hd rs), sq_end := endSeqNum (last rs)\<rparr> in
         bind_result (assert_that (checkQueue Q') ''enqueueSentData: checkQueue'') (\<lambda>_. Inr Q'))))"
      by (simp only: enqueueSentData_def conds l(1,2) list.case prod.case assert_that_simps if_True if_False Let_def)
    ultimately have "enqueueSentData f t Q = Inr Q'" by (simp only:)
    then show ?thesis using Q' bytes by simp
  qed
  have ne: "?L \<noteq> []" by simp
  have end_L: "endSeqNum (last ?L) = f + of_nat (n - ?a)" using chain_end [OF l(8) ne] unfolding len .
  have bounds: "n - ?a < 2147483648" "?m < 2147483648" using nl c(2) by simp_all
  have L_eq: "f + of_nat (n - ?a) = t \<longleftrightarrow> n = ?c"
    using seq_eq_window [OF bounds, of f] a(1) \<open>?a < ?c\<close> unfolding teq n_def by linarith
  let ?all = "map (\<lambda>i. i\<lparr>rexmitted := True\<rparr>) ?L"
  show ?thesis
  proof (cases "n < ?c")
    case True
    let ?r = "\<lparr>beginSeqNum = f + of_nat (n - ?a), endSeqNum = t, sacked = False, rexmitted = False\<rparr>"
    have pa: "passed t ?L = ?L \<and> remaining t ?L = []"
      using passed_all [OF l(8), of ?m] len c(2) True unfolding teq by simp
    have "t - (f + of_nat (n - ?a)) = (of_nat (?c - n) :: seq)"
    proof -
      have "of_nat (n - ?a) + of_nat (?c - n) = (of_nat ?m :: seq)" using True a(1) by (simp add: n_def flip: of_nat_add)
      then have "t = (f + of_nat (n - ?a)) + of_nat (?c - n)" using teq by (metis add.assoc)
      then show ?thesis by (metis add_diff_cancel_left')
    qed
    then have lenr: "region_length ?r = ?c - n" using unat_of_nat_32 [of "?c - n"] c(2) by (simp add: region_length_def)
    show ?thesis
    proof (rule fin [of "?all @ [?r]"])
      show "?code = Inr (?before @ ?all @ [?r], True, t)"
        using pa end_L L_eq True by (simp add: rexmit_loop_eq Let_def)
      show "chain f (?all @ [?r])"
        unfolding chain_append chain_map_rexmitted region_bytes_rexmitted
        using l(8) lenr True c(2) len by simp
      show "region_bytes (?all @ [?r]) = map ?F (take ?m (region_bytes ?L)) @ drop ?m (region_bytes ?L) @ replicate (?c - n) (False, False)"
        unfolding region_bytes_simps(3) region_bytes_rexmitted using len True lenr by simp
    qed simp
  next
    case False
    then have m: "?m \<le> length (region_bytes ?L)" and zero: "?c - n = 0" unfolding len by simp_all
    have len': "length (region_bytes ?L) < 2147483648" using nl unfolding len by simp
    show ?thesis
    proof (rule second_loop [OF l(8) len' m], unfold teq)
      assume all: "passed t ?L = ?L" "remaining t ?L = []" "?m = length (region_bytes ?L)"
      then have "n = ?c" using False \<open>?a < ?c\<close> unfolding len by simp
      then have "endSeqNum (last ?L) = t" using end_L L_eq by simp
      show ?thesis
      proof (rule fin [of ?all])
        show "?code = Inr (?before @ ?all, True, t)"
          using all(1,2) \<open>endSeqNum (last ?L) = t\<close> by (simp add: rexmit_loop_eq Let_def)
        show "chain f ?all" unfolding chain_map_rexmitted by (rule l(8))
        show "region_bytes ?all = map ?F (take ?m (region_bytes ?L)) @ drop ?m (region_bytes ?L) @ replicate (?c - n) (False, False)"
          unfolding region_bytes_rexmitted all(3) zero by simp
      qed simp
    next
      fix j js k
      assume j: "?L = passed t ?L @ j # js" "remaining t ?L = j # js" "?m = length (region_bytes (passed t ?L)) + k"
        "k < region_length j" "beginSeqNum j + of_nat k = t" "region_length j < 2147483648" "chain (beginSeqNum j) (j # js)"
      have L: "region_bytes ?L = region_bytes (passed t ?L) @ replicate (region_length j) (sacked j, rexmitted j) @ region_bytes js"
        using j(1) by (metis region_bytes_simps(2,3))
      have chainP: "chain f (passed t ?L)" "beginSeqNum j = f + of_nat (length (region_bytes (passed t ?L)))"
        using l(8) j(1) by (metis chain_append chain.simps(2))+
      have end_P: "(if passed t ?L = [] then f else endSeqNum (last (passed t ?L))) = beginSeqNum j"
        using chain_end [OF chainP(1)] chainP(2) by simp
      have "k < 2147483648" using j(4,6) by simp
      then have k0: "beginSeqNum j = t \<longleftrightarrow> k = 0" using j(5) seq_eq_window [of 0 k "beginSeqNum j"] by auto
      note cutj = cut_front_back [OF j(4,6,5)] and lessj = seqLess_cut [OF j(4,6,5)]
      let ?P = "map (\<lambda>i. i\<lparr>rexmitted := True\<rparr>) (passed t ?L)"
      let ?r = "\<lparr>beginSeqNum = beginSeqNum j, endSeqNum = t, sacked = sacked j, rexmitted = True\<rparr>"
      let ?J = "if 0 < k then ?r # j\<lparr>beginSeqNum := t\<rparr> # js else j # js"
      have lenr: "region_length ?r = k" using cutj(1) by (simp add: region_length_def)
      have flags: "(\<lambda>(s, r). (s, True)) (sacked j, rexmitted j) = (sacked j, True)" by simp
      have "passed t ?L \<noteq> []" if "k = 0" using j(3) that \<open>?a < ?c\<close> by auto
      show ?thesis
      proof (rule fin [of "?P @ ?J"])
        show "?code = Inr (?before @ ?P @ ?J, True, t)"
          using j(2) end_P lessj k0 \<open>k = 0 \<Longrightarrow> passed t ?L \<noteq> []\<close> by (simp add: rexmit_loop_eq Let_def)
        show "chain f (?P @ ?J)"
          using chainP j(4-7) cutj lenr
          by (simp add: chain_append chain_map_rexmitted region_bytes_rexmitted region_length_def less_imp_diff_less)
        show "region_bytes (?P @ ?J) = map ?F (take ?m (region_bytes ?L)) @ drop ?m (region_bytes ?L) @ replicate (?c - n) (False, False)"
          unfolding L j(3) zero using j(4) cutj lenr by (simp add: region_bytes_rexmitted flags min_def)
        show "?P @ ?J \<noteq> []" by simp
      qed
    qed
  qed
qed

section \<open>Queries\<close>

text \<open>The end of the queue's first and last marked byte, and the runs of sacked bytes.\<close>

fun sacked_runs :: "bool \<Rightarrow> bool list \<Rightarrow> nat" where
  "sacked_runs p [] = 0"
| "sacked_runs p (x # xs) = (if x \<and> \<not> p then 1 else 0) + sacked_runs x xs"

lemma sacked_runs_replicate:
  "0 < n \<Longrightarrow> sacked_runs p (replicate n x @ xs) = (if x \<and> \<not> p then 1 else 0) + sacked_runs x xs"
proof (induction n arbitrary: p)
  case (Suc n)
  then show ?case by (cases "n = 0") auto
qed simp

lemma discontiguous_loop_runs:
  "chain b rs \<Longrightarrow> discontiguous_loop p w rs = w + of_nat (sacked_runs p (map fst (region_bytes rs)))"
proof (induction rs arbitrary: b p w)
  case (Cons r rs)
  then show ?case
    using Cons.IH [of "endSeqNum r"] sacked_runs_replicate [of "region_length r" p "sacked r" "map fst (region_bytes rs)"]
    by auto
qed simp

lemma drop_region_bytes:
  assumes "rs = ps @ i # rest" "k < region_length i"
  shows "drop (length (region_bytes ps) + k) (region_bytes rs)
    = replicate (region_length i - k) (sacked i, rexmitted i) @ region_bytes rest"
  using assms by simp

text \<open>A queue split at a position inside it: the bytes from there on.\<close>

lemma split_queue:
  assumes inv: "sack_inv Q" and s: "seqLE (sq_begin Q) s" "seqLE s (sq_end Q)" "s \<noteq> sq_end Q"
  obtains i rest m where "rexmitQueue Q = passed s (rexmitQueue Q) @ i # rest" "remaining s (rexmitQueue Q) = i # rest"
    "seqLE (beginSeqNum i) s" "seqLess s (endSeqNum i)" "chain (endSeqNum i) rest"
    "drop (offset_of Q s) (sack_bytes Q) = replicate m (sacked i, rexmitted i) @ region_bytes rest"
    "0 < m" "endSeqNum i = s + of_nat m" "m + length (region_bytes rest) < 2147483648"
    "chain (sq_begin Q) (passed s (rexmitQueue Q))"
proof -
  let ?rs = "rexmitQueue Q"
  obtain i rest k where l: "?rs = passed s ?rs @ i # rest" "remaining s ?rs = i # rest"
    "offset_of Q s = length (region_bytes (passed s ?rs)) + k" "k < region_length i"
    "seqLE (beginSeqNum i) s" "seqLess s (endSeqNum i)" "beginSeqNum i + of_nat k = s" "region_length i < 2147483648"
    by (rule locate_region [OF inv s])
  have chain: "chain (sq_begin Q) (passed s ?rs @ i # rest)"
    using inv l(1) unfolding sack_inv_def by metis
  have drop: "drop (offset_of Q s) (sack_bytes Q) = replicate (region_length i - k) (sacked i, rexmitted i) @ region_bytes rest"
    unfolding sack_bytes_def l(3) by (rule drop_region_bytes [OF l(1,4)])
  have "length (sack_bytes Q) < 2147483648" using inv by (simp add: sack_inv_def)
  then have "length (drop (offset_of Q s) (sack_bytes Q)) < 2147483648" by simp
  then have len: "region_length i - k + length (region_bytes rest) < 2147483648" unfolding drop by simp
  have "of_nat k + of_nat (region_length i - k) = (of_nat (region_length i) :: seq)" using l(4) by (simp flip: of_nat_add)
  then have "endSeqNum i = s + of_nat (region_length i - k)" using region_end [of i] l(7) by (metis add.assoc)
  then show thesis using that [OF l(1,2,5,6) _ drop _ _ len] chain l(4) by (simp add: chain_append)
qed

lemma getNumOfDiscontiguousSacks_spec:
  assumes inv: "sack_inv Q" and s: "seqLE (sq_begin Q) s" "seqLE s (sq_end Q)"
  shows "getNumOfDiscontiguousSacks s Q
    = Inr (of_nat (sacked_runs False (map fst (drop (offset_of Q s) (sack_bytes Q)))))"
proof (cases "s = sq_end Q")
  case True
  then show ?thesis using s offset_end [OF inv] by (simp add: getNumOfDiscontiguousSacks_def)
next
  case False
  obtain i rest m where l: "rexmitQueue Q = passed s (rexmitQueue Q) @ i # rest" "remaining s (rexmitQueue Q) = i # rest"
    "seqLE (beginSeqNum i) s" "seqLess s (endSeqNum i)" "chain (endSeqNum i) rest"
    "drop (offset_of Q s) (sack_bytes Q) = replicate m (sacked i, rexmitted i) @ region_bytes rest"
    "0 < m" "endSeqNum i = s + of_nat m" "m + length (region_bytes rest) < 2147483648"
    by (rule split_queue [OF inv s False])
  have "rexmitQueue Q \<noteq> []" using l(2) by (auto simp: remaining_def)
  then show ?thesis
    using s False l(2) sacked_runs_replicate [OF l(7), of False "sacked i" "map fst (region_bytes rest)"]
      discontiguous_loop_runs [OF l(5)]
    by (simp add: getNumOfDiscontiguousSacks_def l(6))
qed

text \<open>The bytes that need not be sent: those from the position on up to the first one without a flag.\<close>

lemma takeWhile_replicate_append:
  "takeWhile P (replicate m x @ xs) = (if P x then replicate m x @ takeWhile P xs else if m = 0 then takeWhile P xs else [])"
  by (cases m) (simp_all add: takeWhile_append)

lemma skip_loop_spec:
  assumes "chain s rs" "length (region_bytes rs) < 2147483648"
  shows "skip_loop s w rs = Inr (w + of_nat (length (takeWhile (\<lambda>(a, b). a \<or> b) (region_bytes rs))))"
  using assms
proof (induction rs arbitrary: s w)
  case (Cons r rs)
  have "seqLE (beginSeqNum r) s" "seqLess s (endSeqNum r)"
    using Cons.prems located_region [of s "[]" r rs 0] by simp_all
  moreover have "endSeqNum r - s = of_nat (region_length r)" using Cons.prems(1) region_end [of r] by simp
  ultimately show ?case
    using Cons.prems Cons.IH [of "endSeqNum r" "w + of_nat (region_length r)"] by (simp add: takeWhile_replicate_append add.assoc)
qed simp

lemma checkRexmitQueue_spec:
  assumes inv: "sack_inv Q" and s: "seqLE (sq_begin Q) s" "seqLE s (sq_end Q)"
  shows "checkRexmitQueueForSackedOrRexmittedSegments s Q
    = Inr (of_nat (length (takeWhile (\<lambda>(a, b). a \<or> b) (drop (offset_of Q s) (sack_bytes Q)))))"
proof (cases "s = sq_end Q")
  case True
  then show ?thesis using s offset_end [OF inv] by (simp add: checkRexmitQueueForSackedOrRexmittedSegments_def)
next
  case False
  obtain i rest m where l: "rexmitQueue Q = passed s (rexmitQueue Q) @ i # rest" "remaining s (rexmitQueue Q) = i # rest"
    "seqLE (beginSeqNum i) s" "seqLess s (endSeqNum i)" "chain (endSeqNum i) rest"
    "drop (offset_of Q s) (sack_bytes Q) = replicate m (sacked i, rexmitted i) @ region_bytes rest"
    "0 < m" "endSeqNum i = s + of_nat m" "m + length (region_bytes rest) < 2147483648"
    by (rule split_queue [OF inv s False])
  have "rexmitQueue Q \<noteq> []" using l(2) by (auto simp: remaining_def)
  moreover have "skip_loop (endSeqNum i) w rest
      = Inr (w + of_nat (length (takeWhile (\<lambda>(a, b). a \<or> b) (region_bytes rest))))" for w
    using skip_loop_spec [OF l(5)] l(9) by simp
  moreover have "endSeqNum i - s = of_nat m" using l(8) by simp
  ultimately show ?thesis
    using s False l(2-4,7)
    by (simp add: checkRexmitQueueForSackedOrRexmittedSegments_def l(6) takeWhile_replicate_append)
qed

text \<open>The sacked bytes from a position on, counted from the back of the queue.\<close>

definition sacked_amount :: "region \<Rightarrow> seq" where
  "sacked_amount r = (if sacked r then endSeqNum r - beginSeqNum r else 0)"

lemma fold_sacked_amount:
  "fold (\<lambda>r bytes. if sacked r then bytes + (endSeqNum r - beginSeqNum r) else bytes) rs w
     = w + sum_list (map sacked_amount rs)"
  by (induction rs arbitrary: w) (simp_all add: sacked_amount_def add.assoc)

lemma sum_sacked_amount:
  "sum_list (map sacked_amount rs) = of_nat (length (filter fst (region_bytes rs)))"
  by (induction rs) (simp_all add: sacked_amount_def region_length_def)

lemma chain_after:
  assumes "chain (s + of_nat p) rs" "p + length (region_bytes rs) < 2147483648" "r \<in> set rs"
  shows "seqLE s (beginSeqNum r)"
  using assms
proof (induction rs arbitrary: p)
  case (Cons x rs)
  have "endSeqNum x = s + of_nat (p + region_length x)" using Cons.prems(1) region_end [of x] by (simp add: add.assoc)
  moreover have "seqLE s (beginSeqNum x)" using Cons.prems(1,2) seqLE_window [of 0 p s] by simp
  ultimately show ?case using Cons.prems Cons.IH [of "p + region_length x"] by auto
qed simp

lemma getAmountOfSackedBytes_spec:
  assumes inv: "sack_inv Q" and s: "seqLE (sq_begin Q) s" "seqLE s (sq_end Q)"
  shows "getAmountOfSackedBytes s Q = Inr (of_nat (length (filter fst (drop (offset_of Q s) (sack_bytes Q)))))"
proof -
  let ?P = "\<lambda>r. seqLE s (beginSeqNum r)"
  have stop: "(case dropWhile ?P (rev ps) of [] \<Rightarrow> bytes
       | i # _ \<Rightarrow> if seqLess (beginSeqNum i) s \<and> seqLess s (endSeqNum i) \<and> sacked i then bytes + (endSeqNum i - s) else bytes) = bytes
     \<and> takeWhile ?P (rev ps) = []"
    if "chain b ps" "b + of_nat (length (region_bytes ps)) = s" "length (region_bytes ps) < 2147483648" for ps b bytes
  proof (cases ps rule: rev_cases)
    case (snoc ps' p)
    have p: "endSeqNum p = s" "0 < region_length p" "region_length p < 2147483648"
      using that(1,2) snoc region_end [of p] by (simp_all add: chain_append add.assoc)
    have "seqLess (beginSeqNum p) s" using seqLess_region [OF p(2,3)] p(1) by simp
    moreover have "\<not> seqLE s (beginSeqNum p)"
      using seqLE_window [of "region_length p" 0 "beginSeqNum p"] p region_end [of p] by simp
    ultimately show ?thesis using p(1) snoc by (simp add: seqLess_def)
  qed simp
  show ?thesis
  proof (cases "s = sq_end Q")
    case True
    have "chain (sq_begin Q) (rexmitQueue Q)" "sq_begin Q + of_nat (length (region_bytes (rexmitQueue Q))) = s"
      "length (region_bytes (rexmitQueue Q)) < 2147483648"
      using inv True by (simp_all add: sack_inv_def sack_bytes_def)
    note st = stop [OF this]
    have "offset_of Q s = length (sack_bytes Q)" using offset_end [OF inv] True by simp
    then show ?thesis using st s by (simp add: getAmountOfSackedBytes_def Let_def)
  next
    case False
    obtain i rest k where l: "rexmitQueue Q = passed s (rexmitQueue Q) @ i # rest" "remaining s (rexmitQueue Q) = i # rest"
      "offset_of Q s = length (region_bytes (passed s (rexmitQueue Q))) + k" "k < region_length i"
      "seqLE (beginSeqNum i) s" "seqLess s (endSeqNum i)" "beginSeqNum i + of_nat k = s" "region_length i < 2147483648"
      by (rule locate_region [OF inv s False])
    let ?ps = "passed s (rexmitQueue Q)"
    have chain: "chain (sq_begin Q) (?ps @ i # rest)" and n: "length (region_bytes (?ps @ i # rest)) < 2147483648"
      using inv l(1) unfolding sack_inv_def sack_bytes_def by metis+
    have bytes: "drop (offset_of Q s) (sack_bytes Q) = replicate (region_length i - k) (sacked i, rexmitted i) @ region_bytes rest"
      unfolding sack_bytes_def l(3) by (rule drop_region_bytes [OF l(1,4)])
    have amount: "endSeqNum i - s = of_nat (region_length i - k)"
    proof -
      have "of_nat k + of_nat (region_length i - k) = (of_nat (region_length i) :: seq)" using l(4) by (simp flip: of_nat_add)
      then have "endSeqNum i = s + of_nat (region_length i - k)" using region_end [of i] l(7) by (metis add.assoc)
      then show ?thesis by (metis add_diff_cancel_left')
    qed
    have "endSeqNum i = s + of_nat (region_length i - k)" using amount by (metis add.commute diff_add_cancel)
    then have rest: "r \<in> set rest \<Longrightarrow> ?P r" for r
      using chain_after [of s "region_length i - k" rest r] chain n by (simp add: chain_append)
    have rev: "rev (rexmitQueue Q) = rev rest @ i # rev ?ps" using arg_cong [OF l(1), of rev] by simp
    have whole: "takeWhile ?P (rev (rexmitQueue Q)) = rev rest @ takeWhile ?P (i # rev ?ps)"
      "dropWhile ?P (rev (rexmitQueue Q)) = dropWhile ?P (i # rev ?ps)"
      unfolding rev using rest by (simp_all add: takeWhile_append dropWhile_append)
    have sum: "sum_list (map sacked_amount (rev rest)) = of_nat (length (filter fst (region_bytes rest)))"
      using sum_sacked_amount [of rest] by (simp add: rev_map [symmetric])
    have i: "?P i \<longleftrightarrow> k = 0" using seqLE_window [of k 0 "beginSeqNum i"] l(4,7,8) by simp
    have lessi: "seqLess (beginSeqNum i) s \<longleftrightarrow> 0 < k" using seqLess_window [of 0 k "beginSeqNum i"] l(4,7,8) by simp
    show ?thesis
    proof (cases "k = 0")
      case True
      have "sq_begin Q + of_nat (length (region_bytes ?ps)) = s" "chain (sq_begin Q) ?ps" "length (region_bytes ?ps) < 2147483648"
        using chain l(7) n True by (simp_all add: chain_append)
      note st = stop [OF this(2,1,3)]
      show ?thesis using s st True i sum amount l(7)
        by (simp add: getAmountOfSackedBytes_def Let_def whole fold_sacked_amount bytes) (simp add: sacked_amount_def)
    next
      case False
      then show ?thesis using s i lessi sum amount l(6)
        by (simp add: getAmountOfSackedBytes_def Let_def whole fold_sacked_amount bytes)
    qed
  qed
qed

text \<open>The block at a position: its length to the end of the region, and the flags all its bytes have.\<close>

lemma checkSackBlock_spec:
  assumes inv: "sack_inv Q" and s: "seqLE (sq_begin Q) s" "seqLess s (sq_end Q)"
  shows "\<exists>m flags. checkSackBlock s Q = Inr (of_nat m, flags) \<and> 0 < m
    \<and> take m (drop (offset_of Q s) (sack_bytes Q)) = replicate m flags"
proof -
  have s': "seqLE s (sq_end Q)" "s \<noteq> sq_end Q" using s(2) by (simp_all add: seqLess_seqLE)
  obtain i rest m where l: "rexmitQueue Q = passed s (rexmitQueue Q) @ i # rest" "remaining s (rexmitQueue Q) = i # rest"
    "seqLE (beginSeqNum i) s" "seqLess s (endSeqNum i)" "chain (endSeqNum i) rest"
    "drop (offset_of Q s) (sack_bytes Q) = replicate m (sacked i, rexmitted i) @ region_bytes rest"
    "0 < m" "endSeqNum i = s + of_nat m" "m + length (region_bytes rest) < 2147483648"
    by (rule split_queue [OF inv s(1) s'])
  have "checkSackBlock s Q = Inr (of_nat m, sacked i, rexmitted i)"
    using s l(2-4,8) by (simp add: checkSackBlock_def)
  then show ?thesis using l(6,7) by (intro exI [of _ m] exI [of _ "(sacked i, rexmitted i)"]) simp
qed

text \<open>The end of the last byte with a flag.\<close>

lemma dropWhile_replicate_append:
  "dropWhile P (replicate m x @ xs) = (if P x then dropWhile P xs else if m = 0 then dropWhile P xs else replicate m x @ xs)"
  by (cases m) (simp_all add: dropWhile_append)

lemma highest_spec:
  assumes "chain b rs" and flag: "\<And>r. F r = G (sacked r, rexmitted r)"
  shows "(case find F (rev rs) of Some i \<Rightarrow> endSeqNum i | None \<Rightarrow> b)
    = b + of_nat (length (dropWhile (\<lambda>x. \<not> G x) (rev (region_bytes rs))))"
  using assms(1)
proof (induction rs rule: rev_induct)
  case (snoc r rs)
  have "chain b rs" and r: "beginSeqNum r = b + of_nat (length (region_bytes rs))" "0 < region_length r"
    using snoc.prems by (simp_all add: chain_append)
  then show ?case
    using snoc.IH region_end [of r] flag [of r] by (auto simp: dropWhile_replicate_append add.assoc add.commute)
qed simp

lemma getHighest_spec:
  assumes "sack_inv Q"
  shows "getHighestSackedSeqNum Q = sq_begin Q + of_nat (length (dropWhile (\<lambda>x. \<not> fst x) (rev (sack_bytes Q))))"
    "getHighestRexmittedSeqNum Q = sq_begin Q + of_nat (length (dropWhile (\<lambda>x. \<not> snd x) (rev (sack_bytes Q))))"
  using highest_spec [of "sq_begin Q" "rexmitQueue Q" sacked fst] highest_spec [of "sq_begin Q" "rexmitQueue Q" rexmitted snd] assms
  by (simp_all add: getHighestSackedSeqNum_def getHighestRexmittedSeqNum_def sack_inv_def sack_bytes_def)

text \<open>Clearing a flag of the whole queue, and the queue of a new connection.\<close>

lemma reset_spec:
  assumes "sack_inv Q"
  shows "sack_inv (resetSackedBit Q)" "sack_bytes (resetSackedBit Q) = map (\<lambda>(s, r). (False, r)) (sack_bytes Q)"
    "sack_inv (resetRexmittedBit Q)" "sack_bytes (resetRexmittedBit Q) = map (\<lambda>(s, r). (s, False)) (sack_bytes Q)"
proof -
  have s: "region_bytes (map (\<lambda>r. r\<lparr>sacked := False\<rparr>) rs) = map (\<lambda>(s, r). (False, r)) (region_bytes rs)"
    and r: "region_bytes (map (\<lambda>r. r\<lparr>rexmitted := False\<rparr>) rs) = map (\<lambda>(s, r). (s, False)) (region_bytes rs)" for rs
    by (induction rs) (simp_all add: region_length_def)
  show "sack_bytes (resetSackedBit Q) = map (\<lambda>(s, r). (False, r)) (sack_bytes Q)"
    "sack_bytes (resetRexmittedBit Q) = map (\<lambda>(s, r). (s, False)) (sack_bytes Q)"
    by (simp_all add: resetSackedBit_def resetRexmittedBit_def sack_bytes_def s r)
  with assms show "sack_inv (resetSackedBit Q)" "sack_inv (resetRexmittedBit Q)"
    by (simp_all add: sack_inv_def resetSackedBit_def resetRexmittedBit_def chain_map_sacked chain_map_rexmitted)
qed

lemma sack_new_inv: "sack_inv (sack_init s sack_new)" "sack_bytes (sack_init s sack_new) = []"
  by (simp_all add: sack_init_def sack_new_def sack_inv_def sack_bytes_def)

section \<open>Runs\<close>

text \<open>
  The calls of a TCP connection on its queue, each with the condition under which the connection
  makes it: sent data starts inside the queue or at its end and the window stays below \<open>2^31\<close>;
  acknowledgments and SACK blocks lie inside the queue.
\<close>

datatype sack_call = Sent seq seq | Acked seq | Sacked seq seq | ClearSacked | ClearRexmitted

fun sack_exec :: "sack_call \<Rightarrow> sackq \<Rightarrow> sim_error + sackq" where
  "sack_exec (Sent f t) Q = enqueueSentData f t Q"
| "sack_exec (Acked s) Q = discardUpTo s Q"
| "sack_exec (Sacked f t) Q = setSackedBit f t Q"
| "sack_exec ClearSacked Q = Inr (resetSackedBit Q)"
| "sack_exec ClearRexmitted Q = Inr (resetRexmittedBit Q)"

fun sack_admissible :: "seq \<times> (bool \<times> bool) list \<Rightarrow> sack_call \<Rightarrow> bool" where
  "sack_admissible (b, B) (Sent f t) \<longleftrightarrow> seqLE b f \<and> seqLE f (b + of_nat (length B)) \<and> seqLess f t \<and> seqLE b t"
| "sack_admissible (b, B) (Acked s) \<longleftrightarrow> seqLE b s \<and> seqLE s (b + of_nat (length B))"
| "sack_admissible (b, B) (Sacked f t) \<longleftrightarrow> seqLess f t \<and> seqLess b t \<and> seqLE t (b + of_nat (length B))
     \<and> (seqLess f b \<or> seqLE b f)"
| "sack_admissible (b, B) ClearSacked \<longleftrightarrow> True"
| "sack_admissible (b, B) ClearRexmitted \<longleftrightarrow> True"

text \<open>The abstract machine: the number of the first byte, and the flags of the bytes.\<close>

definition sack_abs :: "sackq \<Rightarrow> seq \<times> (bool \<times> bool) list" where
  "sack_abs Q = (sq_begin Q, sack_bytes Q)"

fun sack_effect :: "sack_call \<Rightarrow> seq \<times> (bool \<times> bool) list \<Rightarrow> seq \<times> (bool \<times> bool) list" where
  "sack_effect (Sent f t) (b, B) =
     (b, mark (\<lambda>(s, r). (s, True)) (unat (f - b)) (unat (t - b)) B @ replicate (unat (t - b) - length B) (False, False))"
| "sack_effect (Acked s) (b, B) = (s, drop (unat (s - b)) B)"
| "sack_effect (Sacked f t) (b, B) =
     (b, mark (\<lambda>(s, r). (True, r)) (if seqLess f b then 0 else unat (f - b)) (unat (t - b)) B)"
| "sack_effect ClearSacked (b, B) = (b, map (\<lambda>(s, r). (False, r)) B)"
| "sack_effect ClearRexmitted (b, B) = (b, map (\<lambda>(s, r). (s, False)) B)"

lemma seqLess_between:
  assumes "seqLE b f" "seqLess f t" "seqLE t e" "seqLE b e" "seqLE b t"
  shows "seqLess f e"
proof -
  define k m l where "k = unat (f - b)" and "m = unat (t - b)" and "l = unat (e - b)"
  have eqs: "f = b + of_nat k" "t = b + of_nat m" "e = b + of_nat l" by (simp_all add: k_def m_def l_def)
  have lt: "k < 2147483648" "m < 2147483648" "l < 2147483648" using assms(1,4,5) by (simp_all add: k_def m_def l_def seqLE_unat)
  have "k < m" "m \<le> l" using assms(2,3) unfolding eqs seqLess_window [OF lt(1,2)] seqLE_window [OF lt(2,3)] by simp_all
  then show ?thesis unfolding eqs seqLess_window [OF lt(1,3)] by simp
qed

lemma sack_exec_spec:
  assumes "sack_inv Q" "sack_admissible (sack_abs Q) call"
  shows "\<exists>Q'. sack_exec call Q = Inr Q' \<and> sack_inv Q' \<and> sack_abs Q' = sack_effect call (sack_abs Q)"
proof (cases call)
  case (Sent f t)
  then show ?thesis using enqueueSentData_spec [of Q f t] assms
    by (auto simp: seqLE_unat sack_abs_def sack_inv_def offset_of_def)
next
  case (Acked s)
  then show ?thesis using discardUpTo_spec [OF assms(1), of s] assms by (auto simp: sack_abs_def sack_inv_def offset_of_def)
next
  case (Sacked f t)
  let ?f = "if seqLess f (sq_begin Q) then sq_begin Q else f"
  have e: "sq_end Q = sq_begin Q + of_nat (length (sack_bytes Q))" "seqLE (sq_begin Q) (sq_end Q)"
    using assms(1) seqLE_window [of 0 "length (sack_bytes Q)" "sq_begin Q"] by (simp_all add: sack_inv_def)
  have refl: "seqLE (sq_begin Q) (sq_begin Q)" by (simp add: seqLE_def)
  have t: "seqLess (sq_begin Q) t" "seqLE t (sq_end Q)" and ft: "seqLess f t"
    using assms(2) Sacked by (simp_all add: sack_abs_def e(1))
  have t': "seqLE (sq_begin Q) t" using t(1) by (simp add: seqLess_seqLE)
  have f: "seqLE (sq_begin Q) ?f" "seqLess ?f t" using assms(2) Sacked t refl by (auto simp: sack_abs_def)
  have "seqLess ?f (sq_end Q)" by (rule seqLess_between [OF f t(2) e(2) t'])
  moreover have "offset_of Q (sq_begin Q) = 0" by (simp add: offset_of_def)
  ultimately show ?thesis using setSackedBit_spec [OF assms(1) f(1) _ t f(2)] Sacked
    by (auto simp: sack_abs_def offset_of_def)
next
  case ClearSacked
  then show ?thesis using reset_spec [OF assms(1)] by (simp add: sack_abs_def resetSackedBit_def)
next
  case ClearRexmitted
  then show ?thesis using reset_spec [OF assms(1)] by (simp add: sack_abs_def resetRexmittedBit_def)
qed

interpretation sack_runs: data_refinement sack_exec sack_inv sack_abs sack_admissible sack_effect
  by unfold_locales (rule sack_exec_spec)

lemma sack_abs_new: "sack_abs (sack_init s sack_new) = (s, [])"
  unfolding sack_abs_def sack_new_inv(2) by (simp add: sack_init_def)

section \<open>Properties\<close>

text \<open>
  C15: runs of calls on the retransmission queue refine the machine of byte flags.  From a freshly
  initialised queue, any sequence of calls (data sent or sent again, acknowledgments, SACK blocks,
  resets) that is legal along the abstract run returns without any assertion failing, keeps the
  regions a contiguous chain from begin to end, and the flags of the bytes are exactly those of the
  abstract run, wherever the window lies in the sequence space (wrap-around included).
\<close>

theorem sack_runs_refine:
  assumes "legal_run sack_admissible sack_effect calls (s, [])"
  shows "\<exists>Q. run_result sack_exec calls (sack_init s sack_new) = Inr Q \<and> sack_inv Q
    \<and> (sq_begin Q, sack_bytes Q) = fold sack_effect calls (s, [])"
  using sack_runs.run_simulates [OF sack_new_inv(1) assms [folded sack_abs_new]] unfolding sack_abs_new
  by (simp add: sack_abs_def)

theorem sack_runs_refine_witness:
  "\<exists>Q. run_result sack_exec [Sent 4294967290 4, Sacked 4294967292 2, Sent 4294967290 4294967294, Acked 4294967291]
     (sack_init 4294967290 sack_new) = Inr Q
   \<and> sack_bytes Q = [(False, True), (True, True), (True, True), (True, False), (True, False), (True, False), (True, False),
       (False, False), (False, False)]"
proof -
  have legal: "legal_run sack_admissible sack_effect
    [Sent 4294967290 4, Sacked 4294967292 2, Sent 4294967290 4294967294, Acked 4294967291] (4294967290, [])"
    by code_simp
  have "fold sack_effect [Sent 4294967290 4, Sacked 4294967292 2, Sent 4294967290 4294967294, Acked 4294967291] (4294967290, [])
    = (4294967291, [(False, True), (True, True), (True, True), (True, False), (True, False), (True, False), (True, False),
       (False, False), (False, False)])"
    by code_simp
  then show ?thesis using sack_runs_refine [OF legal] by auto
qed

text \<open>
  The queries about selectively acknowledged bytes.  In a queue with the invariant and at a
  number inside it: the sacked bit is the flag of the byte (false at the end); the total amount and
  the amount from the number on are the counts of sacked bytes; the number of discontiguous sacks is
  the number of maximal runs of sacked bytes; the highest sacked number is the end of the last sacked
  byte.
\<close>

theorem sack_queries:
  assumes "sack_inv Q" "seqLE (sq_begin Q) s" "seqLE s (sq_end Q)"
  shows "getSackedBit s Q = Inr (s \<noteq> sq_end Q \<and> fst (sack_bytes Q ! unat (s - sq_begin Q)))
    \<and> getTotalAmountOfSackedBytes Q = of_nat (length (filter fst (sack_bytes Q)))
    \<and> getAmountOfSackedBytes s Q = Inr (of_nat (length (filter fst (drop (unat (s - sq_begin Q)) (sack_bytes Q)))))
    \<and> getNumOfDiscontiguousSacks s Q
      = Inr (of_nat (sacked_runs False (map fst (drop (unat (s - sq_begin Q)) (sack_bytes Q)))))
    \<and> getHighestSackedSeqNum Q = sq_begin Q + of_nat (length (dropWhile (\<lambda>x. \<not> fst x) (rev (sack_bytes Q))))"
  using getSackedBit_spec [OF assms] getTotalAmountOfSackedBytes_spec [OF assms(1)] getAmountOfSackedBytes_spec [OF assms]
    getNumOfDiscontiguousSacks_spec [OF assms] getHighest_spec(1) [OF assms(1)]
  by (simp add: offset_of_def)

definition sample_sackq :: sackq where
  "sample_sackq = \<lparr>rexmitQueue = [\<lparr>beginSeqNum = 4294967294, endSeqNum = 1, sacked = True, rexmitted = False\<rparr>,
       \<lparr>beginSeqNum = 1, endSeqNum = 3, sacked = False, rexmitted = True\<rparr>,
       \<lparr>beginSeqNum = 3, endSeqNum = 4, sacked = True, rexmitted = True\<rparr>], sq_begin = 4294967294, sq_end = 4\<rparr>"

lemma sample_sackq_bytes:
  "sack_bytes sample_sackq = [(True, False), (True, False), (True, False), (False, True), (False, True), (True, True)]"
  "unat (0 - sq_begin sample_sackq) = 2" "sq_begin sample_sackq = 4294967294"
proof -
  have "replicate 3 x = [x, x, x]" "replicate 2 x = [x, x]" for x :: "bool \<times> bool"
    by (simp_all add: numeral_eq_Suc)
  then show "sack_bytes sample_sackq = [(True, False), (True, False), (True, False), (False, True), (False, True), (True, True)]"
    by (simp add: sample_sackq_def sack_bytes_def region_length_def)
  show "unat (0 - sq_begin sample_sackq) = 2" "sq_begin sample_sackq = 4294967294" by (simp_all add: sample_sackq_def)
qed

lemma sample_sackq_inv: "sack_inv sample_sackq"
  by (simp add: sack_inv_def sample_sackq_def sack_bytes_def region_length_def)

theorem sack_queries_witness:
  "getAmountOfSackedBytes 0 sample_sackq = Inr 2 \<and> getNumOfDiscontiguousSacks 0 sample_sackq = Inr 2"
proof -
  have "seqLE (sq_begin sample_sackq) 0" "seqLE 0 (sq_end sample_sackq)" by code_simp+
  then have q: "getAmountOfSackedBytes 0 sample_sackq = Inr (of_nat (length (filter fst (drop (unat (0 - sq_begin sample_sackq)) (sack_bytes sample_sackq)))))"
    "getNumOfDiscontiguousSacks 0 sample_sackq
      = Inr (of_nat (sacked_runs False (map fst (drop (unat (0 - sq_begin sample_sackq)) (sack_bytes sample_sackq)))))"
    using sack_queries [OF sample_sackq_inv] by blast+
  then show ?thesis by (simp only: sample_sackq_bytes) simp
qed

text \<open>
  The queries that steer retransmission.  In a queue with the invariant and at a number inside
  it: the number of bytes to skip is the length of the run of bytes there that are sacked or
  retransmitted; a block reported at a number before the end is not empty and all its bytes have the
  reported flags; the highest retransmitted number is the end of the last retransmitted byte.
\<close>

theorem sack_rexmit_queries:
  assumes "sack_inv Q" "seqLE (sq_begin Q) s" "seqLess s (sq_end Q)"
  shows "checkRexmitQueueForSackedOrRexmittedSegments s Q
      = Inr (of_nat (length (takeWhile (\<lambda>(a, b). a \<or> b) (drop (unat (s - sq_begin Q)) (sack_bytes Q)))))
    \<and> (\<exists>m flags. checkSackBlock s Q = Inr (of_nat m, flags) \<and> 0 < m
        \<and> take m (drop (unat (s - sq_begin Q)) (sack_bytes Q)) = replicate m flags)
    \<and> getHighestRexmittedSeqNum Q = sq_begin Q + of_nat (length (dropWhile (\<lambda>x. \<not> snd x) (rev (sack_bytes Q))))"
proof -
  have "seqLE s (sq_end Q)" using assms(3) by (simp add: seqLess_seqLE)
  then show ?thesis
    using checkRexmitQueue_spec [OF assms(1,2)] checkSackBlock_spec [OF assms] getHighest_spec(2) [OF assms(1)]
    by (simp add: offset_of_def)
qed

theorem sack_rexmit_queries_witness:
  "checkRexmitQueueForSackedOrRexmittedSegments 0 sample_sackq = Inr 4 \<and> getHighestRexmittedSeqNum sample_sackq = 4"
proof -
  have "seqLE (sq_begin sample_sackq) 0" "seqLess 0 (sq_end sample_sackq)" by code_simp+
  then have q: "checkRexmitQueueForSackedOrRexmittedSegments 0 sample_sackq
      = Inr (of_nat (length (takeWhile (\<lambda>(a, b). a \<or> b) (drop (unat (0 - sq_begin sample_sackq)) (sack_bytes sample_sackq)))))"
    "getHighestRexmittedSeqNum sample_sackq
      = sq_begin sample_sackq + of_nat (length (dropWhile (\<lambda>x. \<not> snd x) (rev (sack_bytes sample_sackq))))"
    using sack_rexmit_queries [OF sample_sackq_inv] by blast+
  then show ?thesis by (simp only: sample_sackq_bytes) simp
qed

end
