(* ===== verification/ReceiveQueue.thy ===== *)
theory ReceiveQueue
  imports TcpSequence
begin

text \<open>
  The receive queue of a TCP connection that counts bytes,
  \<^verbatim>\<open>inet/transportlayer/tcp/queues/TCPVirtualDataRcvQueue.{h,cc}\<close>: the received ranges of sequence
  numbers that were not handed to the application yet, and the next number expected.  The
  specification is a byte stream of unlimited length, of which the queue sees the positions modulo
  \<open>2^32\<close>: which positions have arrived, and how many bytes were handed over.
\<close>

section \<open>Regions\<close>

record rregion =
  rr_begin :: seq
  rr_end :: seq

datatype CompareStatus = BEFORE | BEFORE_TOUCH | OVERLAP | AFTER_TOUCH | AFTER

definition rr_length :: "rregion \<Rightarrow> nat" where
  "rr_length r = unat (rr_end r - rr_begin r)"

text \<open>\<^verbatim>\<open>Region::merge\<close>: \<open>None\<close> when it returns false and leaves the region alone.\<close>

definition rr_merge :: "rregion \<Rightarrow> rregion \<Rightarrow> rregion option" where
  "rr_merge self other =
     (if seqLess (rr_end self) (rr_begin other) \<or> seqLess (rr_end other) (rr_begin self) then None
      else Some \<lparr>rr_begin = (if seqLess (rr_begin other) (rr_begin self) then rr_begin other else rr_begin self),
                 rr_end = (if seqLess (rr_end self) (rr_end other) then rr_end other else rr_end self)\<rparr>)"

text \<open>\<^verbatim>\<open>Region::split\<close>: the front part as a new region, and the region that remains.\<close>

definition rr_split :: "seq \<Rightarrow> rregion \<Rightarrow> sim_error + rregion \<times> rregion" where
  "rr_split s self =
     bind_result (assert_that (seqGreater s (rr_begin self) \<and> seqLess s (rr_end self)) ''split: seq'') (\<lambda>_.
     Inr (\<lparr>rr_begin = rr_begin self, rr_end = s\<rparr>, self\<lparr>rr_begin := s\<rparr>))"

definition rr_compare :: "rregion \<Rightarrow> rregion \<Rightarrow> CompareStatus" where
  "rr_compare self other =
     (if rr_end self = rr_begin other then BEFORE_TOUCH
      else if rr_begin self = rr_end other then AFTER_TOUCH
      else if seqLess (rr_end self) (rr_begin other) then BEFORE
      else if seqLess (rr_end other) (rr_begin self) then AFTER
      else OVERLAP)"

definition rr_lengthTo :: "seq \<Rightarrow> rregion \<Rightarrow> nat" where
  "rr_lengthTo s self =
     (if seqLE s (rr_begin self) then 0
      else if seqLess s (rr_end self) then unat (s - rr_begin self)
      else unat (rr_end self - rr_begin self))"

section \<open>The queue\<close>

record rcvq =
  rcv_nxt :: seq
  regionList :: "rregion list"

definition rcv_new :: rcvq where
  "rcv_new = \<lparr>rcv_nxt = - 1, regionList = []\<rparr>"

definition rcv_init :: "seq \<Rightarrow> rcvq \<Rightarrow> rcvq" where
  "rcv_init startSeq q = q\<lparr>rcv_nxt := startSeq, regionList := []\<rparr>"

definition createRegionFromSegment :: "seq \<Rightarrow> 32 word \<Rightarrow> rregion" where
  "createRegionFromSegment sequenceNo payloadLength = \<lparr>rr_begin = sequenceNo, rr_end = sequenceNo + payloadLength\<rparr>"

text \<open>
  The loop of \<^verbatim>\<open>merge\<close> walks the list from the back: the regions not visited yet, last one first,
  and the regions behind the iterator.
\<close>

fun rcv_merge_loop :: "rregion \<Rightarrow> rregion list \<Rightarrow> rregion list \<Rightarrow> sim_error + rregion list" where
  "rcv_merge_loop seg [] behind = Inr (seg # behind)"
| "rcv_merge_loop seg (i # rest) behind =
     (let cmp = rr_compare i seg in
      if cmp = BEFORE then Inr (rev (i # rest) @ seg # behind)
      else if cmp \<noteq> AFTER then
        (case rr_merge seg i of
           Some seg' \<Rightarrow> rcv_merge_loop seg' rest behind
         | None \<Rightarrow> Inl (RuntimeError ''Model error: merge of region unsuccessful''))
      else rcv_merge_loop seg rest (i # behind))"

definition rcv_merge :: "rregion \<Rightarrow> rcvq \<Rightarrow> sim_error + rcvq" where
  "rcv_merge seg q = bind_result (rcv_merge_loop seg (rev (regionList q)) []) (\<lambda>rs. Inr (q\<lparr>regionList := rs\<rparr>))"

text \<open>The check of debug builds (without \<^verbatim>\<open>NDEBUG\<close>), for a queue that is not empty.\<close>

definition out_of_range :: "rregion \<Rightarrow> rcvq \<Rightarrow> bool" where
  "out_of_range region q =
     (let ob = rr_begin (hd (regionList q)); oe = rr_end (last (regionList q));
          nb = rr_begin region; ne = rr_end region;
          minb = seqMin ob nb; maxe = seqMax oe ne
      in seqGE minb oe \<or> seqGE minb ne \<or> seqGE ob maxe \<or> seqGE nb maxe)"

definition insertBytesFromSegment :: "bool \<Rightarrow> seq \<Rightarrow> 32 word \<Rightarrow> rcvq \<Rightarrow> sim_error + seq \<times> rcvq" where
  "insertBytesFromSegment debug sequenceNo payloadLength q =
     (let region = createRegionFromSegment sequenceNo payloadLength in
      if debug \<and> regionList q \<noteq> [] \<and> out_of_range region q
      then Inl (RuntimeError ''The new segment is out of the acceptable range at the queue'')
      else bind_result (rcv_merge region q) (\<lambda>q1.
        let front = hd (regionList q1);
            q2 = (if seqGE (rcv_nxt q1) (rr_begin front) then q1\<lparr>rcv_nxt := rr_end front\<rparr> else q1)
        in Inr (rcv_nxt q2, q2)))"

definition extractTo :: "seq \<Rightarrow> rcvq \<Rightarrow> sim_error + rregion option \<times> rcvq" where
  "extractTo s q =
     bind_result (assert_that (seqLE s (rcv_nxt q)) ''extractTo: seq'') (\<lambda>_.
     case regionList q of
       [] \<Rightarrow> Inr (None, q)
     | reg # rs \<Rightarrow>
         if seqLE s (rr_begin reg) then Inr (None, q)
         else if seqGE s (rr_end reg) then Inr (Some reg, q\<lparr>regionList := rs\<rparr>)
         else bind_result (rr_split s reg) (\<lambda>(front, reg').
           Inr (Some front, q\<lparr>regionList := reg' # rs\<rparr>)))"

text \<open>The byte length of the message made, if one is made.\<close>

definition extractBytesUpTo :: "seq \<Rightarrow> rcvq \<Rightarrow> sim_error + nat option \<times> rcvq" where
  "extractBytesUpTo s q = bind_result (extractTo s q) (\<lambda>(reg, q'). Inr (map_option rr_length reg, q'))"

definition getAmountOfBufferedBytes :: "rcvq \<Rightarrow> 32 word" where
  "getAmountOfBufferedBytes q = fold (\<lambda>r bytes. bytes + of_nat (rr_length r)) (regionList q) 0"

definition getAmountOfFreeBytes :: "32 word \<Rightarrow> rcvq \<Rightarrow> 32 word" where
  "getAmountOfFreeBytes maxRcvBuffer q =
     (let usedRcvBuffer = getAmountOfBufferedBytes q; freeRcvBuffer = maxRcvBuffer - usedRcvBuffer
      in if maxRcvBuffer > usedRcvBuffer then freeRcvBuffer else 0)"

definition rcv_getQueueLength :: "rcvq \<Rightarrow> 32 word" where
  "rcv_getQueueLength q = of_nat (length (regionList q))"

definition getLE :: "seq \<Rightarrow> rcvq \<Rightarrow> seq" where
  "getLE fromSeqNum q =
     (case find (\<lambda>i. seqLE (rr_begin i) fromSeqNum \<and> seqLess fromSeqNum (rr_end i)) (regionList q) of
        Some i \<Rightarrow> rr_begin i | None \<Rightarrow> fromSeqNum)"

definition getRE :: "seq \<Rightarrow> rcvq \<Rightarrow> seq" where
  "getRE toSeqNum q =
     (case find (\<lambda>i. seqLess (rr_begin i) toSeqNum \<and> seqLE toSeqNum (rr_end i)) (regionList q) of
        Some i \<Rightarrow> rr_end i | None \<Rightarrow> toSeqNum)"

definition getFirstSeqNo :: "rcvq \<Rightarrow> seq" where
  "getFirstSeqNo q = (case regionList q of [] \<Rightarrow> rcv_nxt q | r # _ \<Rightarrow> seqMin (rr_begin r) (rcv_nxt q))"

section \<open>Positions of the stream\<close>

text \<open>
  A region of positions \<open>(k, l)\<close> of a stream that starts at the number \<open>iss\<close>.  Numbers of positions
  less than \<open>2^31\<close> apart compare like the positions.
\<close>

definition number :: "seq \<Rightarrow> nat \<Rightarrow> seq" where
  "number iss k = iss + of_nat k"

definition region_at :: "seq \<Rightarrow> nat \<times> nat \<Rightarrow> rregion" where
  "region_at iss = (\<lambda>(k, l). \<lparr>rr_begin = number iss k, rr_end = number iss l\<rparr>)"

definition near :: "nat \<Rightarrow> nat \<Rightarrow> bool" where
  "near k l \<longleftrightarrow> k < l + 2147483648 \<and> l < k + 2147483648"

lemma number_near:
  assumes "near k l"
  shows "seqLE (number iss k) (number iss l) \<longleftrightarrow> k \<le> l"
    "seqLess (number iss k) (number iss l) \<longleftrightarrow> k < l"
    "number iss k = number iss l \<longleftrightarrow> k = l"
proof -
  define m where "m = min k l"
  have eqs: "number iss k = number iss m + of_nat (k - m)" "number iss l = number iss m + of_nat (l - m)"
    by (simp_all add: number_def m_def add.assoc flip: of_nat_add)
  have lt: "k - m < 2147483648" "l - m < 2147483648" using assms by (auto simp: near_def m_def)
  show "seqLE (number iss k) (number iss l) \<longleftrightarrow> k \<le> l"
    unfolding eqs seqLE_window [OF lt] by (auto simp: m_def)
  show "seqLess (number iss k) (number iss l) \<longleftrightarrow> k < l"
    unfolding eqs seqLess_window [OF lt] by (auto simp: m_def)
  show "number iss k = number iss l \<longleftrightarrow> k = l"
    unfolding eqs seq_eq_window [OF lt] by (auto simp: m_def)
qed

lemma number_diff: "k \<le> l \<Longrightarrow> near k l \<Longrightarrow> unat (number iss l - number iss k) = l - k"
  using unat_of_nat_32 [of "l - k"] by (simp add: number_def near_def of_nat_diff)

lemma seqMin_number: "near k l \<Longrightarrow> seqMin (number iss k) (number iss l) = number iss (min k l)"
  using number_near(1) [of k l iss] by (simp add: seqMin_def seqLE_def min_def)

lemma seqMax_number: "near k l \<Longrightarrow> seqMax (number iss k) (number iss l) = number iss (max k l)"
  using number_near(1) [of l k iss] by (auto simp: seqMax_def seqLE_def max_def near_def)

text \<open>The operations on regions, on positions.\<close>

lemma region_at_sel [simp]:
  "rr_begin (region_at iss (k, l)) = number iss k" "rr_end (region_at iss (k, l)) = number iss l"
  by (simp_all add: region_at_def)

lemma rr_compare_at:
  assumes "near k f" "near k t" "near l f" "near l t" "k < l" "f < t"
  shows "rr_compare (region_at iss (k, l)) (region_at iss (f, t)) = BEFORE \<longleftrightarrow> l < f"
    "rr_compare (region_at iss (k, l)) (region_at iss (f, t)) = AFTER \<longleftrightarrow> t < k"
proof -
  note n = number_near [OF assms(3), of iss] number_near [OF assms(2), of iss]
  have "near t k" using assms(2) by (auto simp: near_def)
  note n' = n number_near [OF this, of iss]
  show "rr_compare (region_at iss (k, l)) (region_at iss (f, t)) = BEFORE \<longleftrightarrow> l < f"
    "rr_compare (region_at iss (k, l)) (region_at iss (f, t)) = AFTER \<longleftrightarrow> t < k"
    using assms(5,6) by (auto simp: rr_compare_def n')
qed

lemma rr_merge_at:
  assumes "near k f" "near k t" "near l f" "near l t" "\<not> l < f" "\<not> t < k"
  shows "rr_merge (region_at iss (f, t)) (region_at iss (k, l)) = Some (region_at iss (min k f, max l t))"
proof -
  have "near t k" "near t l" using assms(2,4) by (auto simp: near_def)
  note n = number_near [OF assms(1), of iss] number_near [OF assms(3), of iss]
    number_near [OF \<open>near t k\<close>, of iss] number_near [OF \<open>near t l\<close>, of iss]
  show ?thesis using assms(5,6) by (auto simp: rr_merge_def n min_def max_def region_at_def)
qed

section \<open>Merging on positions\<close>

fun merge_iv :: "nat \<times> nat \<Rightarrow> (nat \<times> nat) list \<Rightarrow> (nat \<times> nat) list \<Rightarrow> (nat \<times> nat) list" where
  "merge_iv ft [] behind = ft # behind"
| "merge_iv ft (kl # rest) behind =
     (if snd kl < fst ft then rev (kl # rest) @ ft # behind
      else if snd ft < fst kl then merge_iv ft rest (kl # behind)
      else merge_iv (min (fst kl) (fst ft), max (snd kl) (snd ft)) rest behind)"

definition near_all :: "nat list \<Rightarrow> bool" where
  "near_all ps \<longleftrightarrow> (\<forall>p \<in> set ps. \<forall>q \<in> set ps. near p q)"

definition bounds :: "(nat \<times> nat) list \<Rightarrow> nat list" where
  "bounds ivs = map fst ivs @ map snd ivs"

text \<open>Sorted regions that are not empty and do not touch.\<close>

definition gapped :: "(nat \<times> nat) list \<Rightarrow> bool" where
  "gapped ivs \<longleftrightarrow> sorted_wrt (\<lambda>x y. snd x < fst y) ivs \<and> (\<forall>(k, l) \<in> set ivs. k < l)"

definition positions :: "(nat \<times> nat) list \<Rightarrow> nat set" where
  "positions ivs = (\<Union>(k, l) \<in> set ivs. {k..<l})"

lemma positions_simps [simp]:
  "positions [] = {}" "positions ((k, l) # ivs) = {k..<l} \<union> positions ivs"
  "positions (xs @ ys) = positions xs \<union> positions ys" "positions (rev xs) = positions xs"
  by (auto simp: positions_def)

lemma rcv_merge_loop_at:
  assumes "near_all (bounds (ft # L))" "fst ft < snd ft" "\<forall>(k, l) \<in> set L. k < l"
  shows "rcv_merge_loop (region_at iss ft) (map (region_at iss) L) (map (region_at iss) behind)
    = Inr (map (region_at iss) (merge_iv ft L behind))"
  using assms
proof (induction L arbitrary: ft behind)
  case (Cons kl L)
  obtain k l f t where kl: "kl = (k, l)" and ft: "ft = (f, t)" by (cases kl, cases ft)
  have near: "near k f" "near k t" "near l f" "near l t" "k < l" "f < t"
    using Cons.prems by (simp_all add: near_all_def bounds_def kl ft)
  note cmp = rr_compare_at [OF near, of iss]
  consider "l < f" | "\<not> l < f" "t < k" | "\<not> l < f" "\<not> t < k" by blast
  then show ?case
  proof cases
    case 1
    then show ?thesis using cmp by (simp add: kl ft rev_map)
  next
    case 2
    have "rcv_merge_loop (region_at iss (f, t)) (map (region_at iss) L) (map (region_at iss) ((k, l) # behind))
        = Inr (map (region_at iss) (merge_iv (f, t) L ((k, l) # behind)))"
      using Cons.IH [of "(f, t)" "(k, l) # behind"] Cons.prems by (simp add: near_all_def bounds_def ft)
    moreover have "rr_compare (region_at iss (k, l)) (region_at iss (f, t)) = AFTER" using cmp(2) 2 by simp
    ultimately show ?thesis using 2 by (simp add: kl ft Let_def)
  next
    case 3
    have "near_all (bounds ((min k f, max l t) # L))"
      using Cons.prems(1) unfolding near_all_def bounds_def kl ft min_def max_def by (auto split: if_splits)
    then have "rcv_merge_loop (region_at iss (min k f, max l t)) (map (region_at iss) L) (map (region_at iss) behind)
        = Inr (map (region_at iss) (merge_iv (min k f, max l t) L behind))"
      using Cons.IH [of "(min k f, max l t)"] Cons.prems(3) near by (simp add: min_def max_def)
    moreover have "rr_compare (region_at iss (k, l)) (region_at iss (f, t)) \<noteq> BEFORE"
      "rr_compare (region_at iss (k, l)) (region_at iss (f, t)) \<noteq> AFTER"
      using cmp 3 by simp_all
    ultimately show ?thesis using 3 rr_merge_at [OF near(1-4) 3, of iss] by (simp add: kl ft Let_def)
  qed
qed simp

lemma merge_iv_spec:
  assumes "gapped (rev L @ behind)" "fst ft < snd ft" "\<forall>kl \<in> set behind. snd ft < fst kl"
  shows "gapped (merge_iv ft L behind)
    \<and> positions (merge_iv ft L behind) = positions L \<union> {fst ft..<snd ft} \<union> positions behind"
  using assms
proof (induction L arbitrary: ft behind)
  case Nil
  then show ?case by (cases ft) (auto simp: gapped_def)
next
  case (Cons kl L)
  obtain k l f t where kl: "kl = (k, l)" and ft: "ft = (f, t)" by (cases kl, cases ft)
  have g: "gapped (rev L)" "gapped behind" "\<forall>x \<in> set L. snd x < k" "\<forall>x \<in> set behind. l < fst x" "k < l" "f < t"
    "\<forall>x \<in> set L. \<forall>y \<in> set behind. snd x < fst y"
    using Cons.prems(1,2) by (auto simp: gapped_def kl ft sorted_wrt_append)
  consider "l < f" | "\<not> l < f" "t < k" | "\<not> l < f" "\<not> t < k" by blast
  then show ?case
  proof cases
    case 1
    have "gapped (rev L @ (k, l) # (f, t) # behind)"
      using g 1 Cons.prems(3) by (fastforce simp: gapped_def ft sorted_wrt_append)
    then show ?thesis using 1 by (auto simp: kl ft)
  next
    case 2
    have "\<forall>x \<in> set ((k, l) # behind). t < fst x" using 2 g Cons.prems(3) by (auto simp: ft)
    then show ?thesis using Cons.IH [of "(k, l) # behind" "(f, t)"] Cons.prems(1) g(6) 2 by (auto simp: kl ft)
  next
    case 3
    have "gapped (rev L @ behind)" using g by (auto simp: gapped_def sorted_wrt_append)
    moreover have "\<forall>x \<in> set behind. max l t < fst x" using g(4) Cons.prems(3) by (auto simp: ft)
    moreover have "{min k f..<max l t} = {k..<l} \<union> {f..<t}" using 3 g(5,6) by auto
    ultimately show ?thesis using Cons.IH [of behind "(min k f, max l t)"] g(5,6) 3
      by (auto simp: kl ft min_def max_def)
  qed
qed

section \<open>The stream behind the queue\<close>

text \<open>
  The abstract state is the number \<open>d\<close> of bytes handed over and the set of the positions that have
  arrived and were not handed over.  The first missing position is the one the peer is asked for.
\<close>

definition next_missing :: "nat \<Rightarrow> nat set \<Rightarrow> nat" where
  "next_missing d S = (LEAST k. d \<le> k \<and> k \<notin> S)"

lemma next_missing_eq:
  assumes "d \<le> n" "n \<notin> S" "{d..<n} \<subseteq> S"
  shows "next_missing d S = n"
  unfolding next_missing_def
proof (rule Least_equality)
  fix k
  assume k: "d \<le> k \<and> k \<notin> S"
  show "n \<le> k"
  proof (rule ccontr)
    assume "\<not> n \<le> k"
    with k assms(3) show False by (auto simp: subset_iff)
  qed
qed (use assms in simp)

lemma next_missing_props:
  assumes "finite S"
  shows "d \<le> next_missing d S" "next_missing d S \<notin> S" "{d..<next_missing d S} \<subseteq> S"
proof -
  have "\<exists>k. k \<notin> S \<union> {..<d}" using ex_new_if_finite [of "S \<union> {..<d}"] assms by blast
  then obtain k where k: "d \<le> k \<and> k \<notin> S" by (auto simp: not_less)
  show "d \<le> next_missing d S" "next_missing d S \<notin> S"
    using LeastI [of "\<lambda>k. d \<le> k \<and> k \<notin> S", OF k] unfolding next_missing_def by auto
  show "{d..<next_missing d S} \<subseteq> S"
  proof
    fix j
    assume "j \<in> {d..<next_missing d S}"
    then show "j \<in> S" using not_less_Least [of j "\<lambda>k. d \<le> k \<and> k \<notin> S"] unfolding next_missing_def by auto
  qed
qed

lemma finite_positions [simp]: "finite (positions ivs)"
  by (simp add: positions_def case_prod_beta)

lemma next_missing_front:
  assumes "gapped ((k, l) # ivs)" "positions ((k, l) # ivs) \<subseteq> {d..}"
  shows "next_missing d (positions ((k, l) # ivs)) = (if k = d then l else d)" "d \<le> k"
proof -
  have k: "k < l" and above: "\<And>x. x \<in> positions ivs \<Longrightarrow> l < x"
    using assms(1) by (auto simp: gapped_def positions_def)
  then have "k \<in> positions ((k, l) # ivs)" by simp
  with assms(2) show dk: "d \<le> k" by (meson atLeast_iff subsetD)
  show "next_missing d (positions ((k, l) # ivs)) = (if k = d then l else d)"
  proof (cases "k = d")
    case True
    have "l \<notin> positions ((k, l) # ivs)" using above by auto
    then have "next_missing d (positions ((k, l) # ivs)) = l" using k True by (intro next_missing_eq) auto
    then show ?thesis using True by simp
  next
    case False
    then have "d \<notin> positions ((k, l) # ivs)" using above k dk by force
    then have "next_missing d (positions ((k, l) # ivs)) = d" by (intro next_missing_eq) auto
    then show ?thesis using False by simp
  qed
qed

definition window :: nat where
  "window = 1073741824"

definition rcv_rel :: "seq \<Rightarrow> rcvq \<Rightarrow> nat \<times> nat set \<Rightarrow> bool" where
  "rcv_rel iss q = (\<lambda>(d, S). S \<subseteq> {d..<d + window} \<and> rcv_nxt q = number iss (next_missing d S)
     \<and> (\<exists>ivs. regionList q = map (region_at iss) ivs \<and> gapped ivs \<and> positions ivs = S))"

text \<open>All positions in play lie in one window.\<close>

lemma bounds_in_window:
  assumes "gapped ivs" "positions ivs \<subseteq> {d..<d + window}" "(k, l) \<in> set ivs"
  shows "d \<le> k" "k < l" "l \<le> d + window"
proof -
  show kl: "k < l" using assms(1,3) by (auto simp: gapped_def)
  have "{k..<l} \<subseteq> {d..<d + window}" using assms(2,3) by (force simp: positions_def)
  then have "k \<in> {d..<d + window}" "l - 1 \<in> {d..<d + window}" using kl by (auto simp: subset_iff)
  then show "d \<le> k" "l \<le> d + window" using kl by auto
qed

lemma near_in_window: "d \<le> p \<Longrightarrow> p \<le> d + window \<Longrightarrow> d \<le> q \<Longrightarrow> q \<le> d + window \<Longrightarrow> near p q"
  by (simp add: near_def window_def)

lemma near_all_window:
  assumes "gapped ivs" "positions ivs \<subseteq> {d..<d + window}" "d \<le> f" "f < t" "t \<le> d + window"
  shows "near_all (bounds ((f, t) # rev ivs))"
proof -
  have "d \<le> p \<and> p \<le> d + window" if "p \<in> set (bounds ((f, t) # rev ivs))" for p
    using that bounds_in_window [OF assms(1,2)] assms(3-5) by (force simp: bounds_def)
  then show ?thesis unfolding near_all_def by (blast intro: near_in_window [of d])
qed

lemma next_missing_in_window:
  assumes "S \<subseteq> {d..<d + window}"
  shows "d \<le> next_missing d S" "next_missing d S \<le> d + window" "next_missing d S \<notin> S" "{d..<next_missing d S} \<subseteq> S"
proof -
  have "finite S" using assms finite_subset by blast
  note p = next_missing_props [OF this, of d]
  then show "d \<le> next_missing d S" "next_missing d S \<notin> S" "{d..<next_missing d S} \<subseteq> S" by simp_all
  show "next_missing d S \<le> d + window"
  proof (rule ccontr)
    assume "\<not> next_missing d S \<le> d + window"
    then have "d + window \<in> {d..<next_missing d S}" by simp
    then have "d + window \<in> S" using p(3) by blast
    with assms show False by auto
  qed
qed

lemma not_out_of_range:
  assumes "gapped ivs" "ivs \<noteq> []" "positions ivs \<subseteq> {d..<d + window}" "d \<le> f" "f < t" "t \<le> d + window"
    "regionList q = map (region_at iss) ivs"
  shows "\<not> out_of_range (region_at iss (f, t)) q"
proof -
  obtain k l where hd: "hd ivs = (k, l)" by (cases "hd ivs")
  obtain k' l' where last: "last ivs = (k', l')" by (cases "last ivs")
  have in_ivs: "(k, l) \<in> set ivs" "(k', l') \<in> set ivs" using assms(2) hd last by (metis hd_in_set last_in_set)+
  note w = bounds_in_window [OF assms(1,3) in_ivs(1)] bounds_in_window [OF assms(1,3) in_ivs(2)]
  have "k \<le> k'"
  proof (cases ivs rule: rev_cases)
    case (snoc ys y)
    then show ?thesis using assms(1) hd last w by (cases ys) (auto simp: gapped_def sorted_wrt_append)
  qed (use assms(2) in simp)
  note near = near_in_window [of d]
  have ends: "rr_begin (hd (regionList q)) = number iss k" "rr_end (last (regionList q)) = number iss l'"
    using assms(2,7) hd last by (simp_all add: hd_map last_map)
  have "near k f" "near l' t" using near w assms(4-6) by simp_all
  note mm = seqMin_number [OF this(1), of iss] seqMax_number [OF this(2), of iss]
  have nears: "near l' (min k f)" "near t (min k f)" "near (max l' t) k" "near (max l' t) f"
    using near w assms(4-6) by (simp_all add: min_def max_def)
  show ?thesis
    using w assms(4-6) \<open>k \<le> k'\<close> number_near(1) [OF nears(1), of iss] number_near(1) [OF nears(2), of iss]
      number_near(1) [OF nears(3), of iss] number_near(1) [OF nears(4), of iss]
    by (simp add: out_of_range_def ends mm seqGE_seqLE Let_def)
qed

lemma insert_refines:
  assumes rel: "rcv_rel iss q (d, S)" and seg: "next_missing d S \<le> f" "f < t" "t \<le> d + window"
  shows "\<exists>q'. insertBytesFromSegment debug (number iss f) (of_nat (t - f)) q = Inr (rcv_nxt q', q')
    \<and> rcv_rel iss q' (d, S \<union> {f..<t})"
proof -
  obtain ivs where S: "S \<subseteq> {d..<d + window}" and nxt: "rcv_nxt q = number iss (next_missing d S)"
    and ivs: "regionList q = map (region_at iss) ivs" "gapped ivs" "positions ivs = S"
    using rel by (auto simp: rcv_rel_def)
  note n = next_missing_in_window [OF S]
  have df: "d \<le> f" by (rule le_trans [OF n(1) seg(1)])
  let ?new = "merge_iv (f, t) (rev ivs) []" and ?S = "S \<union> {f..<t}"
  have "number iss f + of_nat (t - f) = number iss t"
    using seg(2) by (simp add: number_def add.assoc flip: of_nat_add)
  then have region: "createRegionFromSegment (number iss f) (of_nat (t - f)) = region_at iss (f, t)"
    by (simp add: createRegionFromSegment_def region_at_def)
  have range: "regionList q \<noteq> [] \<Longrightarrow> \<not> out_of_range (region_at iss (f, t)) q"
    using not_out_of_range [OF ivs(2) _ _ df seg(2,3) ivs(1)] S ivs(1,3) by simp
  have "near_all (bounds ((f, t) # rev ivs))"
    using near_all_window [OF ivs(2) _ df seg(2,3)] S ivs(3) by simp
  then have merge: "rcv_merge (region_at iss (f, t)) q = Inr (q\<lparr>regionList := map (region_at iss) ?new\<rparr>)"
    using rcv_merge_loop_at [of "(f, t)" "rev ivs" iss "[]"] seg(2) ivs(1,2)
    by (simp add: rcv_merge_def rev_map gapped_def case_prod_beta)
  have new: "gapped ?new" "positions ?new = ?S"
    using merge_iv_spec [of "rev ivs" "[]" "(f, t)"] seg(2) ivs(2,3) by simp_all
  have win: "?S \<subseteq> {d..<d + window}" using S df seg(3) by auto
  have "?new \<noteq> []" using new(2) seg(2) by auto
  then obtain k l rest where front: "?new = (k, l) # rest" by (cases ?new) auto
  have win': "positions ?new \<subseteq> {d..<d + window}" unfolding new(2) by (rule win)
  have "(k, l) \<in> set ?new" unfolding front by simp
  note kl = bounds_in_window [OF new(1) win' this]
  have above: "positions ?new \<subseteq> {d..}" by (rule subset_trans [OF win']) auto
  have nm: "next_missing d ?S = (if k = d then l else d)"
    using next_missing_front(1) [OF new(1) [unfolded front] above [unfolded front]] unfolding front [symmetric] new(2) .
  have "near k (next_missing d S)" using near_in_window [of d] kl n(1,2) by simp
  then have ge: "seqGE (rcv_nxt q) (number iss k) \<longleftrightarrow> k \<le> next_missing d S"
    unfolding nxt seqGE_seqLE by (rule number_near(1))
  have "k = d" if "k \<le> next_missing d S"
  proof (rule ccontr)
    assume "k \<noteq> d"
    with nm n(1,3) kl have "d \<notin> ?S" using next_missing_in_window(3) [OF win] by simp
    then have "next_missing d S = d" by (intro next_missing_eq) auto
    with that kl \<open>k \<noteq> d\<close> show False by simp
  qed
  moreover have "next_missing d S = d" if "k \<noteq> d"
  proof -
    have "d \<notin> ?S" using next_missing_in_window(3) [OF win] nm that by simp
    then show ?thesis by (intro next_missing_eq) auto
  qed
  ultimately have nxt': "(if seqGE (rcv_nxt q) (number iss k) then number iss l else rcv_nxt q) = number iss (next_missing d ?S)"
    using ge n(1) by (auto simp: nm nxt)
  let ?q = "q\<lparr>regionList := map (region_at iss) ?new, rcv_nxt := number iss (next_missing d ?S)\<rparr>"
  have "rcv_rel iss ?q (d, ?S)" using win new by (auto simp: rcv_rel_def)
  moreover have "insertBytesFromSegment debug (number iss f) (of_nat (t - f)) q = Inr (rcv_nxt ?q, ?q)"
    using range nxt' by (auto simp: insertBytesFromSegment_def region merge front Let_def)
  ultimately show ?thesis by blast
qed

lemma next_missing_deliver:
  assumes "S \<subseteq> {d..<d + window}" "d \<le> s" "s \<le> next_missing d S"
  shows "next_missing s (S - {..<s}) = next_missing d S"
  using next_missing_in_window [OF assms(1)] assms(2,3) by (intro next_missing_eq) auto

lemma extract_refines:
  assumes rel: "rcv_rel iss q (d, S)" and s: "d \<le> s" "s \<le> next_missing d S"
  shows "\<exists>q'. extractBytesUpTo (number iss s) q = Inr (if d < s then Some (s - d) else None, q')
    \<and> rcv_rel iss q' (s, S - {..<s})"
proof -
  obtain ivs where S: "S \<subseteq> {d..<d + window}" and nxt: "rcv_nxt q = number iss (next_missing d S)"
    and ivs: "regionList q = map (region_at iss) ivs" "gapped ivs" "positions ivs = S"
    using rel by (auto simp: rcv_rel_def)
  note n = next_missing_in_window [OF S] and nm = next_missing_deliver [OF S s]
  have le: "seqLE (number iss s) (rcv_nxt q)"
    unfolding nxt using number_near(1) near_in_window [of d s "next_missing d S"] s n by simp
  have keep: "rcv_rel iss q (s, S - {..<s})" if "s = d"
  proof -
    have "S - {..<s} = S" using S that by auto
    then show ?thesis using rel that by simp
  qed
  show ?thesis
  proof (cases ivs)
    case Nil
    then have "S = {}" using ivs(3) by simp
    then have "next_missing d S = d" by (intro next_missing_eq) auto
    then have "s = d" using s by simp
    then show ?thesis using keep le Nil ivs(1) by (simp add: extractBytesUpTo_def extractTo_def)
  next
    case (Cons kl rest)
    obtain k l where kl: "kl = (k, l)" by (cases kl)
    have front: "gapped ((k, l) # rest)" "positions ((k, l) # rest) \<subseteq> {d..}" "positions ((k, l) # rest) = S"
      using ivs(2,3) S Cons kl by auto
    note fm = next_missing_front [OF front(1,2), unfolded front(3)]
    have "(k, l) \<in> set ivs" using Cons kl by simp
    note w = bounds_in_window(2,3) [OF ivs(2) S [folded ivs(3)] this]
    have sd: "s \<le> d + window" using s n by simp
    have cmp: "seqLE (number iss s) (number iss k) \<longleftrightarrow> s \<le> k" "seqLE (number iss l) (number iss s) \<longleftrightarrow> l \<le> s"
      "seqLess (number iss k) (number iss s) \<longleftrightarrow> k < s" "seqLess (number iss s) (number iss l) \<longleftrightarrow> s < l"
      using number_near near_in_window [of d] fm(2) w s(1) sd by simp_all
    show ?thesis
    proof (cases "d < s")
      case False
      then have "s = d" using s by simp
      then show ?thesis using keep le cmp fm(2) Cons kl ivs(1) by (simp add: extractBytesUpTo_def extractTo_def)
    next
      case True
      then have k: "k = d" "s \<le> l" using s(2) fm by (auto split: if_splits)
      have rest: "gapped rest" "\<And>x. x \<in> positions rest \<Longrightarrow> l < x" using front(1) by (auto simp: gapped_def positions_def)
      have len: "rr_length (region_at iss (d, s)) = s - d"
        using number_diff near_in_window [of d d s] s sd by (simp add: rr_length_def)
      have S_eq: "S = {d..<l} \<union> positions rest" using front(3) k by simp
      have win: "S - {..<s} \<subseteq> {s..<s + window}" using S True by auto
      show ?thesis
      proof (cases "l \<le> s")
        case True
        then have "s = l" using k by simp
        have "S - {..<s} = positions rest" using S_eq \<open>s = l\<close> rest(2) by force
        then have "rcv_rel iss (q\<lparr>regionList := map (region_at iss) rest\<rparr>) (s, S - {..<s})"
          using win rest(1) nxt nm by (auto simp: rcv_rel_def)
        then show ?thesis using le cmp Cons kl ivs(1) True \<open>d < s\<close> len k \<open>s = l\<close>
          by (auto simp: extractBytesUpTo_def extractTo_def seqGE_seqLE)
      next
        case False
        have "S - {..<s} = positions ((s, l) # rest)" using S_eq rest(2) s(1) False
          by (auto simp: not_less) (use less_trans in fastforce)+
        moreover have "gapped ((s, l) # rest)" using front(1) False by (auto simp: gapped_def)
        ultimately have "rcv_rel iss (q\<lparr>regionList := map (region_at iss) ((s, l) # rest)\<rparr>) (s, S - {..<s})"
          using win nxt nm unfolding rcv_rel_def by (intro case_prodI2) (auto simp del: positions_simps list.map intro: exI [of _ "(s, l) # rest"])
        moreover have "rr_split (number iss s) (region_at iss (d, l)) = Inr (region_at iss (d, s), region_at iss (s, l))"
          using cmp(3,4) k(1) False \<open>d < s\<close> by (simp add: rr_split_def region_at_def seqGreater_seqLess)
        ultimately show ?thesis using le cmp Cons kl ivs(1) False \<open>d < s\<close> len k(1)
          by (auto simp: extractBytesUpTo_def extractTo_def seqGE_seqLE)
      qed
    qed
  qed
qed

section \<open>Queries\<close>

lemma card_positions:
  assumes "gapped ivs"
  shows "card (positions ivs) = sum_list (map (\<lambda>(k, l). l - k) ivs)"
  using assms
proof (induction ivs)
  case (Cons kl ivs)
  obtain k l where kl: "kl = (k, l)" by (cases kl)
  have "{k..<l} \<inter> positions ivs = {}" "gapped ivs" using Cons.prems by (auto simp: gapped_def positions_def kl)
  then show ?case using Cons.IH by (simp add: kl card_Un_disjoint)
qed simp

lemma buffered_bytes:
  assumes "rcv_rel iss q (d, S)"
  shows "getAmountOfBufferedBytes q = of_nat (card S)"
proof -
  obtain ivs where S: "S \<subseteq> {d..<d + window}"
    and ivs: "regionList q = map (region_at iss) ivs" "gapped ivs" "positions ivs = S"
    using assms by (auto simp: rcv_rel_def)
  have "rr_length (region_at iss (k, l)) = l - k" if "(k, l) \<in> set ivs" for k l
    using bounds_in_window [OF ivs(2) S [folded ivs(3)] that] number_diff near_in_window [of d k l]
    by (simp add: rr_length_def)
  then have "map rr_length (regionList q) = map (\<lambda>(k, l). l - k) ivs" unfolding ivs(1) by auto
  moreover have "fold (\<lambda>r bytes. bytes + of_nat (rr_length r)) rs w = w + of_nat (sum_list (map rr_length rs))" for rs and w :: seq
    by (induction rs arbitrary: w) (simp_all add: add.assoc)
  ultimately show ?thesis
    using card_positions [OF ivs(2)] unfolding ivs(3) by (simp add: getAmountOfBufferedBytes_def)
qed

lemma first_seq_no:
  assumes "rcv_rel iss q (d, S)"
  shows "getFirstSeqNo q = number iss d"
proof -
  obtain ivs where S: "S \<subseteq> {d..<d + window}" and nxt: "rcv_nxt q = number iss (next_missing d S)"
    and ivs: "regionList q = map (region_at iss) ivs" "gapped ivs" "positions ivs = S"
    using assms by (auto simp: rcv_rel_def)
  show ?thesis
  proof (cases ivs)
    case Nil
    then have "next_missing d S = d" using ivs(3) by (intro next_missing_eq) auto
    then show ?thesis using Nil ivs(1) nxt by (simp add: getFirstSeqNo_def)
  next
    case (Cons kl rest)
    obtain k l where kl: "kl = (k, l)" by (cases kl)
    then have "(k, l) \<in> set ivs" using Cons by simp
    note w = bounds_in_window [OF ivs(2) S [folded ivs(3)] this]
    have "positions ivs \<subseteq> {d..}" using S unfolding ivs(3) by auto
    then have nm: "next_missing d S = (if k = d then l else d)"
      using next_missing_front(1) [of k l rest d] ivs(2,3) Cons kl by simp
    have "near k (next_missing d S)" using near_in_window [of d] w next_missing_in_window [OF S] by simp
    then have "getFirstSeqNo q = number iss (min k (next_missing d S))"
      using Cons kl ivs(1) nxt by (simp add: getFirstSeqNo_def seqMin_number)
    then show ?thesis using nm w by (auto simp: min_def split: if_splits)
  qed
qed

text \<open>The block of arrived positions around a position, for the first SACK block.\<close>

lemma gapped_block:
  assumes "gapped ivs" "(k, l) \<in> set ivs"
  shows "{k..<l} \<subseteq> positions ivs" "l \<notin> positions ivs" "k = 0 \<or> k - 1 \<notin> positions ivs"
proof -
  obtain xs ys where ivs: "ivs = xs @ (k, l) # ys" using assms(2) by (metis split_list)
  have kl: "k < l" "\<And>x. x \<in> positions xs \<Longrightarrow> Suc x < k" "\<And>x. x \<in> positions ys \<Longrightarrow> l < x"
    using assms(1) by (auto simp: gapped_def positions_def ivs sorted_wrt_append)
  show "{k..<l} \<subseteq> positions ivs" by (auto simp: ivs)
  show "l \<notin> positions ivs" "k = 0 \<or> k - 1 \<notin> positions ivs" using kl by (auto simp: ivs) fastforce+
qed

lemma find_map: "find P (map f xs) = map_option f (find (\<lambda>x. P (f x)) xs)"
  by (induction xs) auto

lemma find_cong_set: "(\<And>x. x \<in> set xs \<Longrightarrow> P x = Q x) \<Longrightarrow> find P xs = find Q xs"
  by (induction xs) auto

lemma find_block:
  assumes "gapped ivs" "(k, l) \<in> set ivs" "k \<le> p" "p < l"
  shows "find (\<lambda>(a, b). a \<le> p \<and> p < b) ivs = Some (k, l)"
proof -
  have "x = (k, l)" if "x \<in> set ivs" "fst x \<le> p" "p < snd x" for x
  proof (rule ccontr)
    assume "x \<noteq> (k, l)"
    obtain xs ys where ivs: "ivs = xs @ (k, l) # ys" using assms(2) by (metis split_list)
    with that(1) \<open>x \<noteq> (k, l)\<close> consider "x \<in> set xs" | "x \<in> set ys" by auto
    then show False using assms(1,3,4) that(2,3) by cases (auto simp: gapped_def ivs sorted_wrt_append)
  qed
  moreover obtain y where "find (\<lambda>(a, b). a \<le> p \<and> p < b) ivs = Some y"
    using assms(2-4) by (cases "find (\<lambda>(a, b). a \<le> p \<and> p < b) ivs") (auto simp: find_None_iff)
  moreover from this have "y \<in> set ivs \<and> fst y \<le> p \<and> p < snd y" by (auto simp: find_Some_iff) (metis nth_mem)
  ultimately show ?thesis by auto
qed

lemma sack_edges:
  assumes rel: "rcv_rel iss q (d, S)" and p: "d \<le> p" "p < d + window"
  shows "p \<notin> S \<Longrightarrow> getLE (number iss p) q = number iss p"
    "p \<notin> S \<Longrightarrow> getRE (number iss (Suc p)) q = number iss (Suc p)"
    "p \<in> S \<Longrightarrow> \<exists>k l. getLE (number iss p) q = number iss k \<and> getRE (number iss (Suc p)) q = number iss l
       \<and> p \<in> {k..<l} \<and> {k..<l} \<subseteq> S \<and> l \<notin> S \<and> (k = 0 \<or> k - 1 \<notin> S)"
proof -
  obtain ivs where S: "S \<subseteq> {d..<d + window}"
    and ivs: "regionList q = map (region_at iss) ivs" "gapped ivs" "positions ivs = S"
    using rel by (auto simp: rcv_rel_def)
  have le: "(seqLE (number iss k) (number iss p) \<and> seqLess (number iss p) (number iss l)) = (k \<le> p \<and> p < l)"
    and re: "(seqLess (number iss k) (number iss (Suc p)) \<and> seqLE (number iss (Suc p)) (number iss l)) = (k \<le> p \<and> p < l)"
    if "(k, l) \<in> set ivs" for k l
    using bounds_in_window [OF ivs(2) S [folded ivs(3)] that] p number_near(1,2) near_in_window [of d] by auto
  have LE: "getLE (number iss p) q = (case find (\<lambda>(k, l). k \<le> p \<and> p < l) ivs of Some (k, l) \<Rightarrow> number iss k | None \<Rightarrow> number iss p)"
    using find_cong_set [of ivs "\<lambda>x. seqLE (rr_begin (region_at iss x)) (number iss p) \<and> seqLess (number iss p) (rr_end (region_at iss x))"
        "\<lambda>(k, l). k \<le> p \<and> p < l"] le
    by (auto simp: getLE_def ivs(1) find_map split: option.splits)
  have RE: "getRE (number iss (Suc p)) q
      = (case find (\<lambda>(k, l). k \<le> p \<and> p < l) ivs of Some (k, l) \<Rightarrow> number iss l | None \<Rightarrow> number iss (Suc p))"
    using find_cong_set [of ivs "\<lambda>x. seqLess (rr_begin (region_at iss x)) (number iss (Suc p)) \<and> seqLE (number iss (Suc p)) (rr_end (region_at iss x))"
        "\<lambda>(k, l). k \<le> p \<and> p < l"] re
    by (auto simp: getRE_def ivs(1) find_map split: option.splits)
  have none: "find (\<lambda>(k, l). k \<le> p \<and> p < l) ivs = None" if "p \<notin> S"
    using that ivs(3) by (auto simp: find_None_iff positions_def)
  show "p \<notin> S \<Longrightarrow> getLE (number iss p) q = number iss p"
    "p \<notin> S \<Longrightarrow> getRE (number iss (Suc p)) q = number iss (Suc p)"
    using none LE RE by simp_all
  assume "p \<in> S"
  then obtain k l where kl: "(k, l) \<in> set ivs" "k \<le> p" "p < l" using ivs(3) by (auto simp: positions_def)
  note f = find_block [OF ivs(2) kl] and b = gapped_block [OF ivs(2) kl(1), unfolded ivs(3)]
  show "\<exists>k l. getLE (number iss p) q = number iss k \<and> getRE (number iss (Suc p)) q = number iss l
     \<and> p \<in> {k..<l} \<and> {k..<l} \<subseteq> S \<and> l \<notin> S \<and> (k = 0 \<or> k - 1 \<notin> S)"
    using LE RE f b kl by (intro exI [of _ k] exI [of _ l]) simp
qed

section \<open>Runs\<close>

text \<open>
  What a connection does with its queue: it puts in segments (position of the first byte, number of
  bytes), and it takes out the data up to a position.  The second component of the state adds up the
  lengths of the messages made for the application.
\<close>

datatype rcv_call = Segment nat nat | Deliver nat

fun rcv_exec :: "bool \<Rightarrow> seq \<Rightarrow> rcv_call \<Rightarrow> rcvq \<times> nat \<Rightarrow> sim_error + rcvq \<times> nat" where
  "rcv_exec debug iss (Segment f len) (q, c) =
     bind_result (insertBytesFromSegment debug (number iss f) (of_nat len) q) (\<lambda>(nxt, q'). Inr (q', c))"
| "rcv_exec debug iss (Deliver s) (q, c) =
     bind_result (extractBytesUpTo (number iss s) q)
       (\<lambda>(m, q'). Inr (q', c + (case m of None \<Rightarrow> 0 | Some len \<Rightarrow> len)))"

fun rcv_legal :: "nat \<times> nat set \<Rightarrow> rcv_call \<Rightarrow> bool" where
  "rcv_legal (d, S) (Segment f len) \<longleftrightarrow> next_missing d S \<le> f \<and> 0 < len \<and> f + len \<le> d + window"
| "rcv_legal (d, S) (Deliver s) \<longleftrightarrow> d \<le> s \<and> s \<le> next_missing d S"

fun rcv_spec :: "rcv_call \<Rightarrow> nat \<times> nat set \<Rightarrow> nat \<times> nat set" where
  "rcv_spec (Segment f len) (d, S) = (d, S \<union> {f..<f + len})"
| "rcv_spec (Deliver s) (d, S) = (s, S - {..<s})"

interpretation rcv_runs: forward_simulation "rcv_exec debug iss" "\<lambda>(q, c) (d, S). c = d \<and> rcv_rel iss q (d, S)"
  rcv_legal rcv_spec for debug iss
proof (unfold_locales, goal_cases)
  case (1 s a call)
  obtain q c d S where s: "s = (q, c)" "a = (d, S)" by (cases s, cases a)
  show ?case
  proof (cases call)
    case (Segment f len)
    then show ?thesis using 1 insert_refines [of iss q d S f "f + len" debug] by (auto simp: s)
  next
    case (Deliver p)
    then show ?thesis using 1 extract_refines [of iss q d S p] by (auto simp: s)
  qed
qed

lemma rcv_rel_init: "rcv_rel iss (rcv_init iss q) (0, {})"
proof -
  have "next_missing 0 {} = 0" by (intro next_missing_eq) auto
  then show ?thesis by (auto simp: rcv_rel_def rcv_init_def number_def gapped_def)
qed

section \<open>Properties\<close>

text \<open>
  C16: the receive queue delivers the byte stream.  Whatever segments arrive (in any order,
  overlapping, repeated above the next expected byte, within a window of \<open>2^30\<close> bytes) and however
  the application reads, no operation fails, the number expected next is that of the first byte that
  is missing, the messages made for the application have as many bytes as it has read, and the bytes
  buffered are those that arrived and were not read; the stream may be longer than the sequence
  space, whose numbers wrap around.
\<close>

theorem rcv_delivers_stream:
  assumes "legal_run rcv_legal rcv_spec calls (0, {})"
  shows "\<exists>q d S. run_result (rcv_exec debug iss) calls (rcv_init iss rcv_new, 0) = Inr (q, d)
    \<and> (d, S) = fold rcv_spec calls (0, {})
    \<and> rcv_nxt q = iss + of_nat (next_missing d S)
    \<and> getAmountOfBufferedBytes q = of_nat (card S)
    \<and> getFirstSeqNo q = iss + of_nat d"
proof -
  obtain q c d S where run: "run_result (rcv_exec debug iss) calls (rcv_init iss rcv_new, 0) = Inr (q, c)"
    "fold rcv_spec calls (0, {}) = (d, S)" "c = d" "rcv_rel iss q (d, S)"
    using rcv_runs.run_step [where s = "(rcv_init iss rcv_new, 0)" and a = "(0, {})" and iss = iss and debug = debug and ops = calls] assms rcv_rel_init by auto
  then show ?thesis
    using buffered_bytes [OF run(4)] first_seq_no [OF run(4)] by (auto simp: rcv_rel_def number_def)
qed

theorem rcv_delivers_stream_witness:
  "\<exists>q d S. run_result (rcv_exec True 4294967294) [Segment 5 3, Segment 0 3, Segment 3 3, Deliver 7]
      (rcv_init 4294967294 rcv_new, 0) = Inr (q, d) \<and> d = 7 \<and> rcv_nxt q = 6"
proof -
  have nm: "next_missing 0 {} = 0" "next_missing 0 {5..<8} = 0" "next_missing 0 ({5..<8} \<union> {0..<3}) = 3"
    "next_missing 0 ({5..<8} \<union> {0..<3} \<union> {3..<6}) = 8"
    "next_missing 7 ({5..<8} \<union> {0..<3} \<union> {3..<6} - {..<7}) = 8"
    by (intro next_missing_eq; auto)+
  have legal: "legal_run rcv_legal rcv_spec [Segment 5 3, Segment 0 3, Segment 3 3, Deliver 7] (0, {})"
    using nm by (simp add: window_def)
  have "fold rcv_spec [Segment 5 3, Segment 0 3, Segment 3 3, Deliver 7] (0, {})
      = (7, {5..<8} \<union> {0..<3} \<union> {3..<6} - {..<7})" by simp
  with rcv_delivers_stream [OF legal, of True 4294967294] nm(5) show ?thesis by auto
qed

text \<open>
  The edges of a SACK block.  In a queue that represents a stream, for a position in the
  window: if the byte has not arrived, both edges are the numbers passed in; if it has, they are the
  numbers of the two ends of the maximal block of arrived bytes around it.
\<close>

theorem rcv_sack_edges:
  assumes "rcv_rel iss q (d, S)" "d \<le> p" "p < d + window"
  shows "if p \<in> S then \<exists>k l. getLE (iss + of_nat p) q = iss + of_nat k \<and> getRE (iss + of_nat (Suc p)) q = iss + of_nat l
       \<and> p \<in> {k..<l} \<and> {k..<l} \<subseteq> S \<and> l \<notin> S \<and> (k = 0 \<or> k - 1 \<notin> S)
     else getLE (iss + of_nat p) q = iss + of_nat p \<and> getRE (iss + of_nat (Suc p)) q = iss + of_nat (Suc p)"
  using sack_edges [OF assms, unfolded number_def] by auto

theorem rcv_sack_edges_witness:
  "getLE 1 \<lparr>rcv_nxt = 4294967294, regionList = [\<lparr>rr_begin = 4294967295, rr_end = 3\<rparr>]\<rparr> = 4294967295
    \<and> getRE 2 \<lparr>rcv_nxt = 4294967294, regionList = [\<lparr>rr_begin = 4294967295, rr_end = 3\<rparr>]\<rparr> = 3"
proof -
  let ?q = "\<lparr>rcv_nxt = 4294967294, regionList = [\<lparr>rr_begin = 4294967295, rr_end = 3\<rparr>]\<rparr>"
  have "next_missing 0 {1..<5} = 0" by (intro next_missing_eq) auto
  then have rel: "rcv_rel 4294967294 ?q (0, {1..<5})"
    by (auto simp: rcv_rel_def number_def window_def gapped_def region_at_def intro!: exI [of _ "[(1, 5)]"])
  have "(0::nat) \<le> 3" "3 < 0 + window" "(3::nat) \<in> {1..<5}" by (simp_all add: window_def)
  with rcv_sack_edges [OF rel, of 3] obtain k l where kl: "getLE (4294967294 + of_nat 3) ?q = 4294967294 + of_nat k"
    "getRE (4294967294 + of_nat (Suc 3)) ?q = 4294967294 + of_nat l" "3 \<in> {k..<l}" "{k..<l} \<subseteq> {1..<5}"
    "l \<notin> {1..<5}" "k = 0 \<or> k - 1 \<notin> {1..<5}" by auto
  have "k = 1" "l = 5" using kl(3-6) by auto
  moreover have "4294967294 + of_nat 3 = (1 :: seq)" "4294967294 + of_nat (Suc 3) = (2 :: seq)"
    "4294967294 + of_nat 1 = (4294967295 :: seq)" "4294967294 + of_nat 5 = (3 :: seq)" by simp_all
  ultimately show ?thesis using kl(1,2) by metis
qed

end
