(* ===== verification/SortedTables.thy ===== *)
theory SortedTables
  imports NdnPrelude
begin

text \<open>
  Tables kept in order by a comparison: \<^verbatim>\<open>std::upper_bound\<close> as the standard library computes it, and the
  contract of a comparison under which inserting at that place keeps the table sorted.
\<close>

section \<open>Binary search\<close>

text \<open>\<open>below x\<close> says that the searched value is less than \<open>x\<close>; the range starts at \<open>first\<close> and has \<open>n\<close> elements.\<close>

function upper_bound_loop :: "('a \<Rightarrow> bool) \<Rightarrow> 'a list \<Rightarrow> nat \<Rightarrow> nat \<Rightarrow> nat" where
  "upper_bound_loop below xs first n =
     (if n = 0 then first
      else (let half = n div 2; middle = first + half in
        if below (xs ! middle) then upper_bound_loop below xs first half
        else upper_bound_loop below xs (middle + 1) (n - half - 1)))"
  by pat_completeness auto
termination
  by (relation "measure (\<lambda>(l, xs, first, n). n)") auto

declare upper_bound_loop.simps [simp del]

definition upper_bound :: "('a \<Rightarrow> bool) \<Rightarrow> 'a list \<Rightarrow> nat" where
  "upper_bound below xs = upper_bound_loop below xs 0 (length xs)"

definition vector_insert :: "nat \<Rightarrow> 'a \<Rightarrow> 'a list \<Rightarrow> 'a list" where
  "vector_insert pos x xs = take pos xs @ x # drop pos xs"

lemma set_vector_insert [simp]: "set (vector_insert pos x xs) = insert x (set xs)"
proof -
  have "set (take pos xs) \<union> set (drop pos xs) = set xs" by (metis append_take_drop_id set_append)
  then show ?thesis by (auto simp: vector_insert_def)
qed

text \<open>On a partitioned range the search finds the border.\<close>

lemma upper_bound_loop_border:
  assumes "first + n \<le> length xs" "first \<le> b" "b \<le> first + n"
    and "\<And>i. i < b \<Longrightarrow> \<not> l (xs ! i)" "\<And>i. b \<le> i \<Longrightarrow> i < length xs \<Longrightarrow> l (xs ! i)"
  shows "upper_bound_loop l xs first n = b"
  using assms
proof (induction l xs first n rule: upper_bound_loop.induct)
  case (1 l xs first n)
  show ?case
  proof (cases "n = 0")
    case True
    then show ?thesis using "1.prems" by (subst upper_bound_loop.simps) simp
  next
    case False
    let ?m = "first + n div 2"
    have m: "?m < length xs" using False "1.prems"(1) by auto
    show ?thesis
    proof (cases "l (xs ! ?m)")
      case True
      then have "b \<le> ?m" using "1.prems"(4) by (meson not_le)
      with True have "upper_bound_loop l xs first (n div 2) = b" using 1 False by simp
      then show ?thesis using True False by (subst upper_bound_loop.simps) (simp add: Let_def)
    next
      case no: False
      then have "?m + 1 \<le> b" using "1.prems"(5) [of ?m] m by (cases "b \<le> ?m") auto
      with no have "upper_bound_loop l xs (?m + 1) (n - n div 2 - 1) = b"
        using 1(2) [OF False refl refl no] "1.prems" by simp
      then show ?thesis using no False by (subst upper_bound_loop.simps) (simp add: Let_def)
    qed
  qed
qed

lemma upper_bound_short:
  "upper_bound l [] = 0" "upper_bound l [x] = (if l x then 0 else 1)"
proof -
  have end_of_range: "upper_bound_loop l xs b 0 = b" for xs b by (subst upper_bound_loop.simps) simp
  show "upper_bound l [] = 0" by (simp add: upper_bound_def end_of_range)
  show "upper_bound l [x] = (if l x then 0 else 1)"
    unfolding upper_bound_def by (subst upper_bound_loop.simps) (simp add: end_of_range)
qed

section \<open>The contract of a comparison\<close>

locale table_order =
  fixes less :: "'a \<Rightarrow> 'a \<Rightarrow> bool"
  assumes asym: "less a b \<Longrightarrow> \<not> less b a"
    and incomparable: "less a c \<Longrightarrow> less a b \<or> less b c"
begin

abbreviation in_order :: "'a list \<Rightarrow> bool" where
  "in_order \<equiv> sorted_wrt (\<lambda>a b. \<not> less b a)"

lemma not_less_trans: "\<not> less b a \<Longrightarrow> \<not> less c b \<Longrightarrow> \<not> less c a"
  using incomparable by blast

lemma upper_bound_sorted:
  assumes "in_order xs"
  shows "\<forall>x \<in> set (take (upper_bound (less v) xs) xs). \<not> less v x" "\<forall>x \<in> set (drop (upper_bound (less v) xs) xs). less v x"
proof -
  let ?b = "length (takeWhile (\<lambda>x. \<not> less v x) xs)"
  have b: "?b \<le> length xs" by (rule length_takeWhile_le)
  have before: "\<not> less v (xs ! i)" if "i < ?b" for i
    using that by (metis nth_mem set_takeWhileD takeWhile_nth)
  have after: "less v (xs ! i)" if "?b \<le> i" "i < length xs" for i
  proof -
    have border: "less v (xs ! ?b)" using nth_length_takeWhile [of "\<lambda>x. \<not> less v x" xs] that by auto
    show ?thesis
    proof (cases "i = ?b")
      case False
      then have "\<not> less (xs ! i) (xs ! ?b)" using that assms by (auto simp: sorted_wrt_iff_nth_less)
      with border show ?thesis using incomparable by blast
    qed (use border in simp)
  qed
  have "upper_bound (less v) xs = ?b"
    unfolding upper_bound_def by (rule upper_bound_loop_border) (use b before after in auto)
  then show "\<forall>x \<in> set (take (upper_bound (less v) xs) xs). \<not> less v x" "\<forall>x \<in> set (drop (upper_bound (less v) xs) xs). less v x"
    using before after b by (auto simp: in_set_conv_nth)
qed

lemma insert_in_order:
  assumes "in_order xs"
  shows "in_order (vector_insert (upper_bound (less v) xs) v xs)"
proof -
  let ?b = "upper_bound (less v) xs"
  have "in_order (take ?b xs @ drop ?b xs)" using assms by simp
  then have "in_order (take ?b xs)" "in_order (drop ?b xs)" "\<forall>x \<in> set (take ?b xs). \<forall>y \<in> set (drop ?b xs). \<not> less y x"
    unfolding sorted_wrt_append by blast+
  then show ?thesis using upper_bound_sorted [OF assms, of v] asym
    by (auto simp: vector_insert_def sorted_wrt_append)
qed

lemma filter_in_order: "in_order xs \<Longrightarrow> in_order (filter P xs)"
  by (simp add: sorted_wrt_filter)

lemma first_is_least: "in_order xs \<Longrightarrow> find P xs = Some x \<Longrightarrow> y \<in> set xs \<Longrightarrow> P y \<Longrightarrow> \<not> less y x"
proof (induction xs)
  case (Cons a xs)
  then show ?case using asym by (auto split: if_splits)
qed simp

end

end
