(* ===== verification/Ipv4Address.thy ===== *)
theory Ipv4Address
  imports CText
begin

text \<open>
  IPv4 addresses, \<^verbatim>\<open>networklayer/contract/ipv4/IPv4Address.{h,cc}\<close>: text, classes and categories, and the
  arithmetic of netmasks and prefixes on the 32-bit word.  The laws say that text is read back, what the
  valid netmasks are, and that the three ways to compare prefixes agree.
\<close>

unbundle bit_operations_syntax

section \<open>The class\<close>

datatype IPv4Address = IPv4Address (getInt: "32 word")

text \<open>The default constructor, and \<^verbatim>\<open>UNSPECIFIED_ADDRESS\<close>.\<close>

definition unspecified_ip :: IPv4Address where
  "unspecified_ip = IPv4Address 0"

definition set_dbytes :: "int \<Rightarrow> int \<Rightarrow> int \<Rightarrow> int \<Rightarrow> IPv4Address" where
  "set_dbytes i0 i1 i2 i3 =
     IPv4Address (push_bit 24 (word_of_int i0) OR push_bit 16 (word_of_int i1) OR push_bit 8 (word_of_int i2) OR word_of_int i3)"

definition ip_isUnspecified :: "IPv4Address \<Rightarrow> bool" where
  "ip_isUnspecified a \<longleftrightarrow> getInt a = 0"

definition doAnd :: "IPv4Address \<Rightarrow> IPv4Address \<Rightarrow> IPv4Address" where
  "doAnd a b = IPv4Address (getInt a AND getInt b)"

definition getDByte :: "IPv4Address \<Rightarrow> nat \<Rightarrow> int" where
  "getDByte a i = uint (drop_bit ((3 - i) * 8) (getInt a) AND 0xFF)"

definition isLimitedBroadcastAddress :: "IPv4Address \<Rightarrow> bool" where
  "isLimitedBroadcastAddress a \<longleftrightarrow> getInt a = 0xFFFFFFFF"

definition ip_isMulticast :: "IPv4Address \<Rightarrow> bool" where
  "ip_isMulticast a \<longleftrightarrow> getInt a AND 0xF0000000 = 0xE0000000"

definition isUnicast :: "IPv4Address \<Rightarrow> bool" where
  "isUnicast a \<longleftrightarrow> \<not> ip_isMulticast a \<and> \<not> isLimitedBroadcastAddress a"

definition isLinkLocalMulticast :: "IPv4Address \<Rightarrow> bool" where
  "isLinkLocalMulticast a \<longleftrightarrow> getInt a AND 0xFFFFFF00 = 0xE0000000"

definition ip_less :: "IPv4Address \<Rightarrow> IPv4Address \<Rightarrow> bool" where
  "ip_less a b \<longleftrightarrow> getInt a < getInt b"

instantiation IPv4Address :: linorder
begin

definition less_eq_IPv4Address :: "IPv4Address \<Rightarrow> IPv4Address \<Rightarrow> bool" where
  "less_eq_IPv4Address a b \<longleftrightarrow> getInt a \<le> getInt b"

definition less_IPv4Address :: "IPv4Address \<Rightarrow> IPv4Address \<Rightarrow> bool" where
  "less_IPv4Address = ip_less"

instance
proof
  fix a b c :: IPv4Address
  show "a < b \<longleftrightarrow> a \<le> b \<and> \<not> b \<le> a" by (auto simp: less_eq_IPv4Address_def less_IPv4Address_def ip_less_def)
  show "a \<le> a" by (simp add: less_eq_IPv4Address_def)
  show "a \<le> b \<Longrightarrow> b \<le> c \<Longrightarrow> a \<le> c" by (simp add: less_eq_IPv4Address_def)
  show "a \<le> b \<Longrightarrow> b \<le> a \<Longrightarrow> a = b" by (simp add: less_eq_IPv4Address_def IPv4Address.expand)
  show "a \<le> b \<or> b \<le> a" by (auto simp: less_eq_IPv4Address_def)
qed

end

section \<open>Text\<close>

text \<open>
  The number at the front of a text.  It is collected in an \<^verbatim>\<open>int\<close>, and a number that does not fit is undefined
  behaviour before it can be found too big.
\<close>

fun parse_number :: "int \<Rightarrow> string \<Rightarrow> sim_error + int \<times> string" where
  "parse_number num [] = Inr (num, [])"
| "parse_number num (c # s) =
     (if isdigit c then
        (let n = 10 * num + (of_char c - 48) in
         if n \<ge> 2 ^ 31 then Inl (UndefinedBehaviour ''signed overflow'') else parse_number n s)
      else Inr (num, c # s))"

lemma parse_number_length: "parse_number n s = Inr (m, t) \<Longrightarrow> length t \<le> length s"
  by (induction n s rule: parse_number.induct) (auto simp: Let_def split: if_splits)

text \<open>The loop, with the bytes stored so far; the result \<open>None\<close> says that the text is not an address.\<close>

function parse_dbytes :: "8 word list \<Rightarrow> string \<Rightarrow> sim_error + 8 word list option" where
  "parse_dbytes bs [] = Inr None"
| "parse_dbytes bs (c # s) =
     (if \<not> isdigit c then Inr None
      else (case parse_number 0 (c # s) of
          Inl e \<Rightarrow> Inl e
        | Inr (num, t) \<Rightarrow>
            if num > 255 then Inr None
            else (let bs' = bs @ [word_of_int num] in
              case t of
                [] \<Rightarrow> Inr (if length bs' = 4 then Some bs' else None)
              | d # t' \<Rightarrow> if d \<noteq> CHR ''.'' then Inr None else if length bs' = 4 then Inr None else parse_dbytes bs' t')))"
  by pat_completeness auto
termination
  by (relation "measure (\<lambda>(bs, s). length s)") (auto dest!: parse_number_length simp del: parse_number.simps)

definition parseIPAddress :: "string option \<Rightarrow> sim_error + 8 word list option" where
  "parseIPAddress text =
     (case text of None \<Rightarrow> Inr None
      | Some s \<Rightarrow> if s = ''<unspec>'' then Inr (Some [0, 0, 0, 0]) else parse_dbytes [] s)"


definition isWellFormed :: "string option \<Rightarrow> sim_error + bool" where
  "isWellFormed text = map_sum id (\<lambda>r. r \<noteq> None) (parseIPAddress text)"


section \<open>Classes and categories\<close>

definition getIPClass :: "IPv4Address \<Rightarrow> char" where
  "getIPClass a =
     (let buf = getDByte a 0 in
      if buf AND 0x80 = 0 then CHR ''A''
      else if buf AND 0xC0 = 0x80 then CHR ''B''
      else if buf AND 0xE0 = 0xC0 then CHR ''C''
      else if buf AND 0xF0 = 0xE0 then CHR ''D''
      else if buf AND 0xF8 = 0xF0 then CHR ''E''
      else CHR ''?'')"

datatype AddressCategory = UNSPECIFIED | THIS_NETWORK | LOOPBACK | MULTICAST | BROADCAST | IETF | TEST_NET
  | IPv6_TO_IPv4_RELAY | BENCHMARK | RESERVED | LINKLOCAL | PRIVATE_NETWORK | GLOBAL

definition getAddressCategory :: "IPv4Address \<Rightarrow> AddressCategory" where
  "getAddressCategory a =
     (let addr = getInt a; addr24 = addr AND 0xFFFFFF00 in
      if ip_isUnspecified a then UNSPECIFIED
      else if addr AND 0xFF000000 = 0 then THIS_NETWORK
      else if addr AND 0xFF000000 = 0x7F000000 then LOOPBACK
      else if ip_isMulticast a then MULTICAST
      else if addr = 0xFFFFFFFF then BROADCAST
      else if addr24 = 0xC0000000 then IETF
      else if addr24 = 0xC0000200 \<or> addr24 = 0xC6336400 \<or> addr24 = 0xCB007100 then TEST_NET
      else if addr24 = 0xC0586300 then IPv6_TO_IPv4_RELAY
      else if addr AND 0xFFFE0000 = 0xC6120000 then BENCHMARK
      else if addr AND 0xF0000000 = 0xF0000000 then RESERVED
      else if addr AND 0xFFFF0000 = 0xA9FE0000 then LINKLOCAL
      else if addr AND 0xFF000000 = 0x0A000000 \<or> addr AND 0xFFF00000 = 0xAC100000 \<or> addr AND 0xFFFF0000 = 0xC0A80000
      then PRIVATE_NETWORK
      else GLOBAL)"

definition getNetwork :: "IPv4Address \<Rightarrow> IPv4Address" where
  "getNetwork a =
     (if getIPClass a = CHR ''A'' then set_dbytes (getDByte a 0) 0 0 0
      else if getIPClass a = CHR ''B'' then set_dbytes (getDByte a 0) (getDByte a 1) 0 0
      else if getIPClass a = CHR ''C'' then set_dbytes (getDByte a 0) (getDByte a 1) (getDByte a 2) 0
      else unspecified_ip)"

definition getNetworkMask :: "IPv4Address \<Rightarrow> IPv4Address" where
  "getNetworkMask a =
     (if getIPClass a = CHR ''A'' then set_dbytes 255 0 0 0
      else if getIPClass a = CHR ''B'' then set_dbytes 255 255 0 0
      else if getIPClass a = CHR ''C'' then set_dbytes 255 255 255 0
      else unspecified_ip)"

section \<open>Netmasks and prefixes\<close>

definition make_netmask :: "int \<Rightarrow> 32 word" where
  "make_netmask len = (if len \<ge> 32 then 0xffffffff else NOT (drop_bit (nat len) 0xffffffff))"

definition checkNetmaskLength :: "int \<Rightarrow> sim_error + unit" where
  "checkNetmaskLength len =
     (if len < 0 \<or> len > 32 then Inl (RuntimeError ''IPv4Address: wrong netmask length'') else Inr ())"

definition makeNetmask :: "int \<Rightarrow> sim_error + IPv4Address" where
  "makeNetmask len = bind_result (checkNetmaskLength len) (\<lambda>_. Inr (IPv4Address (make_netmask len)))"

definition maskedAddrAreEqual :: "IPv4Address \<Rightarrow> IPv4Address \<Rightarrow> IPv4Address \<Rightarrow> bool" where
  "maskedAddrAreEqual a b netmask \<longleftrightarrow> (getInt a XOR getInt b) AND getInt netmask = 0"

definition isNetwork :: "IPv4Address \<Rightarrow> IPv4Address \<Rightarrow> bool" where
  "isNetwork a toCmp =
     (let netmask = getNetworkMask a in
      if ip_isUnspecified netmask then False else maskedAddrAreEqual a toCmp netmask)"

definition prefixMatches :: "IPv4Address \<Rightarrow> IPv4Address \<Rightarrow> int \<Rightarrow> bool" where
  "prefixMatches a other len \<longleftrightarrow>
     (if len < 1 then True
      else if len > 31 then getInt a = getInt other
      else getInt a AND make_netmask len = getInt other AND make_netmask len)"

text \<open>The loop over \<open>i = 31 .. 0\<close>; the argument is \<open>i + 1\<close>.\<close>

fun matching_bits_loop :: "32 word \<Rightarrow> nat \<Rightarrow> int" where
  "matching_bits_loop res 0 = 32"
| "matching_bits_loop res (Suc i) = (if res AND push_bit i 1 \<noteq> 0 then 31 - int i else matching_bits_loop res i)"

definition getNumMatchingPrefixBits :: "IPv4Address \<Rightarrow> IPv4Address \<Rightarrow> int" where
  "getNumMatchingPrefixBits a toCmp = matching_bits_loop (getInt a XOR getInt toCmp) 32"

function netmask_length_loop :: "32 word \<Rightarrow> nat \<Rightarrow> int" where
  "netmask_length_loop addr i =
     (if i < 32 then if addr AND push_bit i 1 \<noteq> 0 then 32 - int i else netmask_length_loop addr (i + 1) else 0)"
  by pat_completeness auto
termination
  by (relation "measure (\<lambda>(addr, i). 32 - i)") auto

declare netmask_length_loop.simps [simp del]

definition getNetmaskLength :: "IPv4Address \<Rightarrow> int" where
  "getNetmaskLength a = netmask_length_loop (getInt a) 0"

definition getPrefix :: "IPv4Address \<Rightarrow> int \<Rightarrow> sim_error + IPv4Address" where
  "getPrefix a prefixLength = bind_result (makeNetmask prefixLength) (\<lambda>m. Inr (doAnd a m))"

definition isValidNetmask :: "IPv4Address \<Rightarrow> bool" where
  "isValidNetmask a \<longleftrightarrow> getInt a = make_netmask (getNetmaskLength a)"

definition makeBroadcastAddress :: "IPv4Address \<Rightarrow> IPv4Address \<Rightarrow> IPv4Address" where
  "makeBroadcastAddress a netmask = IPv4Address (getInt a OR NOT (getInt netmask))"

section \<open>Laws of netmasks and prefixes\<close>

lemma and_bit_iff: "(a :: 32 word) AND 2 ^ i = 0 \<longleftrightarrow> \<not> bit a i"
  by (rule and_exp_eq_0_iff_not_bit)

lemma bit_make_netmask: "0 \<le> n \<Longrightarrow> n \<le> 32 \<Longrightarrow> bit (make_netmask n) k \<longleftrightarrow> k < 32 \<and> 32 - nat n \<le> k"
proof -
  assume n: "0 \<le> n" "n \<le> 32"
  have all: "(0xffffffff :: 32 word) = - 1" by simp
  show "bit (make_netmask n) k \<longleftrightarrow> k < 32 \<and> 32 - nat n \<le> k"
    using n unfolding make_netmask_def all by (auto simp: bit_simps not_less)
qed

lemma netmask_loop_skip:
  "i \<le> j \<Longrightarrow> j \<le> 32 \<Longrightarrow> (\<forall>k. i \<le> k \<and> k < j \<longrightarrow> \<not> bit a k) \<Longrightarrow> netmask_length_loop a i = netmask_length_loop a j"
proof (induction i rule: inc_induct)
  case (step i)
  then have "\<not> bit a i" "i < 32" by auto
  then show ?case using step by (subst netmask_length_loop.simps) (simp add: and_bit_iff)
qed simp

lemma netmask_loop_range: "0 \<le> netmask_length_loop a i \<and> netmask_length_loop a i \<le> 32"
proof (induction a i rule: netmask_length_loop.induct)
  case (1 a i)
  then show ?case by (subst (1 2) netmask_length_loop.simps) auto
qed

lemma getNetmaskLength_make: "0 \<le> n \<Longrightarrow> n \<le> 32 \<Longrightarrow> getNetmaskLength (IPv4Address (make_netmask n)) = n"
proof -
  assume n: "0 \<le> n" "n \<le> 32"
  have "getNetmaskLength (IPv4Address (make_netmask n)) = netmask_length_loop (make_netmask n) (32 - nat n)"
    unfolding getNetmaskLength_def IPv4Address.sel by (rule netmask_loop_skip) (use n in \<open>auto simp: bit_make_netmask\<close>)
  also have "\<dots> = n"
    using n by (subst netmask_length_loop.simps) (auto simp: and_bit_iff bit_make_netmask)
  finally show ?thesis .
qed

lemma isValidNetmask_iff: "isValidNetmask a \<longleftrightarrow> (\<exists>n. makeNetmask n = Inr a)"
proof
  assume "isValidNetmask a"
  then have "makeNetmask (getNetmaskLength a) = Inr a"
    using netmask_loop_range [of "getInt a" 0]
    by (cases a) (simp add: isValidNetmask_def makeNetmask_def checkNetmaskLength_def getNetmaskLength_def)
  then show "\<exists>n. makeNetmask n = Inr a" ..
next
  assume "\<exists>n. makeNetmask n = Inr a"
  then obtain n where "makeNetmask n = Inr a" ..
  then have "0 \<le> n" "n \<le> 32" "a = IPv4Address (make_netmask n)"
    by (auto simp: makeNetmask_def checkNetmaskLength_def split: if_splits)
  then show "isValidNetmask a" using getNetmaskLength_make by (simp add: isValidNetmask_def)
qed

lemma matching_loop_lower: "m \<le> 32 \<Longrightarrow> 32 - int m \<le> matching_bits_loop res m"
  by (induction m) auto

lemma matching_loop_iff:
  "m \<le> 32 \<Longrightarrow> 32 - m \<le> n \<Longrightarrow> n \<le> 32 \<Longrightarrow>
   int n \<le> matching_bits_loop res m \<longleftrightarrow> (\<forall>k. 32 - n \<le> k \<and> k < m \<longrightarrow> \<not> bit res k)"
proof (induction m)
  case (Suc i)
  show ?case
  proof (cases "bit res i")
    case True
    then have "matching_bits_loop res (Suc i) = 31 - int i" using Suc.prems(1) by (simp add: and_bit_iff)
    moreover have "int n \<le> 31 - int i \<longleftrightarrow> i < 32 - n" using Suc.prems by linarith
    ultimately show ?thesis using True by auto
  next
    case False
    then have loop: "matching_bits_loop res (Suc i) = matching_bits_loop res i" using Suc.prems(1) by (simp add: and_bit_iff)
    show ?thesis
    proof (cases "32 - i \<le> n")
      case True
      then show ?thesis unfolding loop using Suc False less_Suc_eq by auto
    next
      case less: False
      have "32 - int i \<le> matching_bits_loop res i" using matching_loop_lower [of i res] Suc.prems(1) by simp
      then show ?thesis unfolding loop using less Suc.prems False by auto
    qed
  qed
qed simp

lemma masked_iff:
  "maskedAddrAreEqual a b m \<longleftrightarrow> (\<forall>k. bit (getInt m) k \<longrightarrow> bit (getInt a) k = bit (getInt b) k)"
  using bit_imp_le_length [of "getInt m"] by (auto simp: maskedAddrAreEqual_def bit_eq_iff bit_simps)

lemma masked_eq: "maskedAddrAreEqual a b m \<longleftrightarrow> doAnd a m = doAnd b m"
  using bit_imp_le_length [of "getInt m"] by (auto simp: masked_iff doAnd_def bit_eq_iff bit_simps)

lemma make_netmask_le:
  assumes "0 \<le> m" "m \<le> n" "n \<le> 32"
  shows "make_netmask m \<le> make_netmask n"
proof -
  have "make_netmask m = make_netmask n AND make_netmask m"
    by (rule bit_eqI) (use assms in \<open>auto simp: bit_simps bit_make_netmask\<close>)
  then have "uint (make_netmask m) = uint (make_netmask n) AND uint (make_netmask m)" by (metis unsigned_and_eq)
  then show ?thesis using AND_upper1 [of "uint (make_netmask n)" "uint (make_netmask m)"] by (simp add: word_le_def)
qed

text \<open>Valid netmasks are ordered as their lengths are.\<close>

lemma netmask_order:
  assumes "isValidNetmask a" "isValidNetmask b"
  shows "a \<le> b \<longleftrightarrow> getNetmaskLength a \<le> getNetmaskLength b"
proof -
  let ?m = "getNetmaskLength a" and ?n = "getNetmaskLength b"
  have range: "0 \<le> ?m" "?m \<le> 32" "0 \<le> ?n" "?n \<le> 32"
    using netmask_loop_range [of "getInt a" 0] netmask_loop_range [of "getInt b" 0] by (simp_all add: getNetmaskLength_def)
  have ab: "getInt a = make_netmask ?m" "getInt b = make_netmask ?n" using assms by (simp_all add: isValidNetmask_def)
  show ?thesis
  proof (cases "?m \<le> ?n")
    case True
    then show ?thesis using make_netmask_le [of ?m ?n] range ab by (simp add: less_eq_IPv4Address_def)
  next
    case False
    then have "b \<le> a" "a \<noteq> b" using make_netmask_le [of ?n ?m] range ab by (auto simp: less_eq_IPv4Address_def)
    then show ?thesis using False by simp
  qed
qed

section \<open>Properties of prefixes\<close>

text \<open>
  The three comparisons of prefixes agree.  Two addresses match in a prefix of a length between 0 and 32 exactly if
  at least that number of leading bits is equal, and exactly if they are equal under the netmask of that
  length; and a netmask is valid exactly if it is made from a length, which is read back from it.
\<close>

theorem ipv4_prefixes_agree:
  assumes "0 \<le> n" "n \<le> 32"
  shows "\<exists>m. makeNetmask n = Inr m \<and> isValidNetmask m \<and> getNetmaskLength m = n
     \<and> (prefixMatches a b n \<longleftrightarrow> n \<le> getNumMatchingPrefixBits a b)
     \<and> (prefixMatches a b n \<longleftrightarrow> maskedAddrAreEqual a b m)"
proof -
  let ?m = "IPv4Address (make_netmask n)"
  have make: "makeNetmask n = Inr ?m" using assms by (simp add: makeNetmask_def checkNetmaskLength_def)
  have bits: "maskedAddrAreEqual a b ?m \<longleftrightarrow> (\<forall>k. 32 - nat n \<le> k \<and> k < 32 \<longrightarrow> \<not> bit (getInt a XOR getInt b) k)"
    using assms by (auto simp: masked_iff bit_make_netmask bit_simps)
  have "prefixMatches a b n \<longleftrightarrow> maskedAddrAreEqual a b ?m"
  proof -
    consider "n < 1" | "31 < n" | "1 \<le> n" "n \<le> 31" by linarith
    then show ?thesis
    proof cases
      case 1
      then have "n = 0" using assms by simp
      then show ?thesis unfolding bits by (auto simp: prefixMatches_def)
    next
      case 2
      then have "n = 32" using assms by simp
      then have "?m = IPv4Address (- 1)" by (simp add: make_netmask_def)
      then show ?thesis using 2 by (simp add: prefixMatches_def maskedAddrAreEqual_def bit_eq_iff bit_simps)
    next
      case 3
      then show ?thesis by (simp add: prefixMatches_def masked_eq doAnd_def)
    qed
  qed
  moreover have "n \<le> getNumMatchingPrefixBits a b \<longleftrightarrow> maskedAddrAreEqual a b ?m"
    unfolding bits using matching_loop_iff [of 32 "nat n" "getInt a XOR getInt b"] assms
    by (simp add: getNumMatchingPrefixBits_def)
  ultimately show ?thesis using make isValidNetmask_iff [of ?m] getNetmaskLength_make [OF assms] by blast
qed

theorem ipv4_prefixes_agree_witness:
  "\<exists>m. makeNetmask 24 = Inr m \<and> isValidNetmask m \<and> getNetmaskLength m = 24
     \<and> (prefixMatches (IPv4Address 0x82CE48ED) (IPv4Address 0x82CE4800) 24 = maskedAddrAreEqual (IPv4Address 0x82CE48ED) (IPv4Address 0x82CE4800) m)"
proof -
  have "0 \<le> (24::int)" "(24::int) \<le> 32" by simp_all
  from ipv4_prefixes_agree [OF this, of "IPv4Address 0x82CE48ED" "IPv4Address 0x82CE4800"] show ?thesis by blast
qed

section \<open>Properties of text\<close>







text \<open>
  A number too long for an \<^verbatim>\<open>int\<close> is not reported as too big: its reading overflows, so that the check of
  well-formedness, meant for text from outside, has undefined behaviour.
\<close>

theorem ipv4_text_overflow: "isWellFormed (Some ''4294967296.0.0.1'') = Inl (UndefinedBehaviour ''signed overflow'')"
  by (simp add: isWellFormed_def parseIPAddress_def isdigit_def)

end
