(* ===== verification/Ipv4RoutingTable.thy ===== *)
theory Ipv4RoutingTable
  imports SortedTables Ipv4Address
begin

text \<open>
  The IPv4 routing table, \<^verbatim>\<open>networklayer/ipv4/IPv4RoutingTable.{h,cc}\<close>, with its routes
  (\<^verbatim>\<open>networklayer/ipv4/IPv4Route.{h,cc}\<close>): two vectors of pointers kept in order, a cache of best matches
  and two caches of local addresses.  A route is an object with identity, \<open>ro_ptr\<close>; the vectors hold the
  objects themselves, the cache holds pointers.  \<open>rt_fresh\<close> is above every pointer handed out so far.  The
  pattern of the parameter \<^verbatim>\<open>netmaskRoutes\<close> is a predicate on interface names.  The signals the table
  emits are collected in \<open>rt_signals\<close>.
\<close>

section \<open>Routes and interfaces\<close>

datatype SourceType = MANUAL | IFACENETMASK | ROUTER_ADVERTISEMENT | OWN_ADV_PREFIX | ICMP_REDIRECT | RIP | OSPF
  | BGP | ZEBRA | MANET | MANET2 | DYMO | AODV

definition dDirectlyConnected :: "32 word" where "dDirectlyConnected = 0"
definition dUnknown :: "32 word" where "dUnknown = 255"

record ipv4_route =
  ro_ptr :: nat
  ro_dest :: IPv4Address
  ro_netmask :: IPv4Address
  ro_gateway :: IPv4Address
  ro_interface :: "nat option"
  ro_sourceType :: SourceType
  ro_adminDist :: "32 word"
  ro_metric :: int

definition new_route :: "nat \<Rightarrow> ipv4_route" where
  "new_route p = \<lparr>ro_ptr = p, ro_dest = unspecified_ip, ro_netmask = unspecified_ip, ro_gateway = unspecified_ip,
     ro_interface = None, ro_sourceType = MANUAL, ro_adminDist = dUnknown, ro_metric = 0\<rparr>"

definition ro_isValid :: "ipv4_route \<Rightarrow> bool" where
  "ro_isValid r \<longleftrightarrow> True"

text \<open>The interfaces of an \<^verbatim>\<open>InInterface\<close> and of the \<^verbatim>\<open>OutInterface\<close> objects.\<close>

record multicast_route =
  mr_ptr :: nat
  mr_origin :: IPv4Address
  mr_originNetmask :: IPv4Address
  mr_group :: IPv4Address
  mr_inInterface :: "nat option"
  mr_outInterfaces :: "nat list"
  mr_metric :: int

definition mr_isValid :: "multicast_route \<Rightarrow> bool" where
  "mr_isValid r \<longleftrightarrow> True"

definition mr_matches :: "IPv4Address \<Rightarrow> IPv4Address \<Rightarrow> multicast_route \<Rightarrow> bool" where
  "mr_matches origin grp r \<longleftrightarrow>
     (ip_isUnspecified (mr_group r) \<or> mr_group r = grp) \<and> maskedAddrAreEqual origin (mr_origin r) (mr_originNetmask r)"

text \<open>An interface entry, with its IPv4 data if it has any; \<open>if_ptr\<close> is its identity.\<close>

record ipv4_data =
  id_inetAddr :: IPv4Address
  id_netmask :: IPv4Address
  id_metric :: int
  id_joinedGroups :: "IPv4Address list"

record interface_entry =
  if_ptr :: nat
  if_fullName :: string
  if_loopback :: bool
  if_broadcast :: bool
  if_multicast :: bool
  if_ipv4Data :: "ipv4_data option"

datatype rt_signal = RouteAdded nat | RouteDeleted nat | RouteChanged nat
  | MRouteAdded nat | MRouteDeleted nat | MRouteChanged nat

record routing_table =
  rt_ift :: "interface_entry list"
  rt_routerId :: IPv4Address
  rt_netmaskRoutes :: "string \<Rightarrow> bool"
  rt_forwarding :: bool
  rt_useAdminDist :: bool
  rt_isNodeUp :: bool
  rt_routingCache :: "IPv4Address \<rightharpoonup> nat option"
  rt_localAddresses :: "IPv4Address set"
  rt_localBroadcastAddresses :: "IPv4Address set"
  rt_routes :: "ipv4_route list"
  rt_multicastRoutes :: "multicast_route list"
  rt_fresh :: nat
  rt_signals :: "rt_signal list"

definition rt_emit :: "rt_signal \<Rightarrow> routing_table \<Rightarrow> routing_table" where
  "rt_emit s T = T\<lparr>rt_signals := rt_signals T @ [s]\<rparr>"

definition invalidateCache :: "routing_table \<Rightarrow> routing_table" where
  "invalidateCache T = T\<lparr>rt_routingCache := Map.empty, rt_localAddresses := {}, rt_localBroadcastAddresses := {}\<rparr>"

section \<open>Interfaces\<close>

text \<open>\<^verbatim>\<open>ipv4Data()\<close> of an entry without IPv4 data is a null pointer.\<close>

fun deref_ipv4 :: "interface_entry \<Rightarrow> sim_error + ipv4_data" where
  "deref_ipv4 ie = (case if_ipv4Data ie of None \<Rightarrow> Inl (UndefinedBehaviour ''null pointer'') | Some d \<Rightarrow> Inr d)"

fun gather_addresses :: "interface_entry list \<Rightarrow> sim_error + IPv4Address list" where
  "gather_addresses [] = Inr []"
| "gather_addresses (ie # ies) = bind_result (deref_ipv4 ie) (\<lambda>d.
     bind_result (gather_addresses ies) (\<lambda>as. Inr (id_inetAddr d # as)))"

definition gatherAddresses :: "routing_table \<Rightarrow> sim_error + IPv4Address list" where
  "gatherAddresses T = gather_addresses (rt_ift T)"

fun find_interface :: "(ipv4_data \<Rightarrow> bool) \<Rightarrow> interface_entry list \<Rightarrow> sim_error + interface_entry option" where
  "find_interface P [] = Inr None"
| "find_interface P (ie # ies) = bind_result (deref_ipv4 ie) (\<lambda>d. if P d then Inr (Some ie) else find_interface P ies)"

definition getInterfaceByAddress :: "IPv4Address \<Rightarrow> routing_table \<Rightarrow> sim_error + interface_entry option" where
  "getInterfaceByAddress addr T =
     (if ip_isUnspecified addr then Inr None else find_interface (\<lambda>d. id_inetAddr d = addr) (rt_ift T))"

definition isLocalAddress :: "IPv4Address \<Rightarrow> routing_table \<Rightarrow> sim_error + bool \<times> routing_table" where
  "isLocalAddress dest T =
     (if rt_localAddresses T = {}
      then bind_result (gather_addresses (rt_ift T)) (\<lambda>as.
             Inr (dest \<in> set as, T\<lparr>rt_localAddresses := set as\<rparr>))
      else Inr (dest \<in> rt_localAddresses T, T))"

definition broadcast_address :: "ipv4_data \<Rightarrow> IPv4Address" where
  "broadcast_address d = makeBroadcastAddress (id_inetAddr d) (id_netmask d)"

fun gather_broadcasts :: "interface_entry list \<Rightarrow> sim_error + IPv4Address list" where
  "gather_broadcasts [] = Inr []"
| "gather_broadcasts (ie # ies) =
     (if \<not> if_broadcast ie then gather_broadcasts ies
      else bind_result (deref_ipv4 ie) (\<lambda>d. bind_result (gather_broadcasts ies) (\<lambda>as.
        Inr (if ip_isUnspecified (broadcast_address d) then as else broadcast_address d # as))))"

definition isLocalBroadcastAddress :: "IPv4Address \<Rightarrow> routing_table \<Rightarrow> sim_error + bool \<times> routing_table" where
  "isLocalBroadcastAddress dest T =
     (if rt_localBroadcastAddresses T = {}
      then bind_result (gather_broadcasts (rt_ift T)) (\<lambda>as.
             Inr (dest \<in> set as, T\<lparr>rt_localBroadcastAddresses := set as\<rparr>))
      else Inr (dest \<in> rt_localBroadcastAddresses T, T))"

definition findInterfaceByLocalBroadcastAddress :: "IPv4Address \<Rightarrow> routing_table \<Rightarrow> sim_error + interface_entry option" where
  "findInterfaceByLocalBroadcastAddress dest T =
     find_interface (\<lambda>d. broadcast_address d = dest) (filter if_broadcast (rt_ift T))"

definition isLocalMulticastAddress :: "IPv4Address \<Rightarrow> routing_table \<Rightarrow> sim_error + bool" where
  "isLocalMulticastAddress dest T =
     map_sum id (\<lambda>r. r \<noteq> None) (find_interface (\<lambda>d. dest \<in> set (id_joinedGroups d)) (rt_ift T))"

section \<open>Unicast routes\<close>

definition routeLessThan :: "bool \<Rightarrow> ipv4_route \<Rightarrow> ipv4_route \<Rightarrow> bool" where
  "routeLessThan useAdminDist a b =
     (if ro_netmask a \<noteq> ro_netmask b then ro_netmask a > ro_netmask b
      else if ro_dest a \<noteq> ro_dest b then ro_dest a < ro_dest b
      else if useAdminDist \<and> ro_adminDist a \<noteq> ro_adminDist b then ro_adminDist a < ro_adminDist b
      else ro_metric a < ro_metric b)"

definition insert_route :: "ipv4_route \<Rightarrow> routing_table \<Rightarrow> routing_table" where
  "insert_route e T =
     T\<lparr>rt_routes := vector_insert (upper_bound (routeLessThan (rt_useAdminDist T) e) (rt_routes T)) e (rt_routes T)\<rparr>"

fun default_scan :: "ipv4_route list \<Rightarrow> ipv4_route option" where
  "default_scan [] = None"
| "default_scan (r # rs) =
     (if \<not> ip_isUnspecified (ro_netmask r) then None else if ro_isValid r then Some r else default_scan rs)"

definition getDefaultRoute :: "routing_table \<Rightarrow> ipv4_route option" where
  "getDefaultRoute T = default_scan (rev (rt_routes T))"

definition getRoute :: "int \<Rightarrow> routing_table \<Rightarrow> sim_error + ipv4_route option" where
  "getRoute k T =
     (if k < int (length (rt_routes T))
      then if k < 0 then Inl (UndefinedBehaviour ''vector index'') else Inr (Some (rt_routes T ! nat k))
      else Inr None)"

definition internalRemoveRoute :: "nat \<Rightarrow> routing_table \<Rightarrow> ipv4_route option \<times> routing_table" where
  "internalRemoveRoute p T =
     (case find (\<lambda>r. ro_ptr r = p) (rt_routes T) of
        None \<Rightarrow> (None, T)
      | Some r \<Rightarrow> (Some r, T\<lparr>rt_routes := erase_first (\<lambda>r. ro_ptr r = p) (rt_routes T)\<rparr>))"

text \<open>\<^verbatim>\<open>deleteRoute\<close> frees the object as well, \<^verbatim>\<open>removeRoute\<close> hands it back.\<close>

definition removeRoute :: "nat \<Rightarrow> routing_table \<Rightarrow> ipv4_route option \<times> routing_table" where
  "removeRoute p T =
     (case internalRemoveRoute p T of
        (None, T1) \<Rightarrow> (None, T1)
      | (Some r, T1) \<Rightarrow> (Some r, rt_emit (RouteDeleted p) (invalidateCache T1)))"

definition deleteRoute :: "nat \<Rightarrow> routing_table \<Rightarrow> bool \<times> routing_table" where
  "deleteRoute p T =
     (case internalRemoveRoute p T of
        (None, T1) \<Rightarrow> (False, T1)
      | (Some r, T1) \<Rightarrow> (True, rt_emit (RouteDeleted p) (invalidateCache T1)))"

definition internalAddRoute :: "ipv4_route \<Rightarrow> routing_table \<Rightarrow> sim_error + routing_table" where
  "internalAddRoute e T =
     (if \<not> isValidNetmask (ro_netmask e) then Inl (RuntimeError ''addRoute(): wrong netmask in route'')
      else if getInt (ro_netmask e) \<noteq> 0 \<and> getInt (ro_dest e) AND getInt (ro_netmask e) = 0
      then Inl (RuntimeError ''addRoute(): all bits of destination address are 0 inside non zero netmask'')
      else if getInt (ro_dest e) AND NOT (getInt (ro_netmask e)) \<noteq> 0
      then Inl (RuntimeError ''addRoute(): suspicious route: destination IP address has bits set outside netmask'')
      else if ro_interface e = None then Inl (RuntimeError ''addRoute(): interface cannot be nullptr'')
      else
        (let T1 = (if ip_isUnspecified (ro_netmask e)
                   then (case getDefaultRoute T of None \<Rightarrow> T | Some old \<Rightarrow> snd (deleteRoute (ro_ptr old) T))
                   else T)
         in Inr (insert_route e T1)))"

definition addRoute :: "ipv4_route \<Rightarrow> routing_table \<Rightarrow> sim_error + routing_table" where
  "addRoute e T = bind_result (internalAddRoute e T) (\<lambda>T1. Inr (rt_emit (RouteAdded (ro_ptr e)) (invalidateCache T1)))"

text \<open>The first match, of the cache or of the table; a cached pointer is read before it is returned.\<close>

definition scan_routes :: "IPv4Address \<Rightarrow> routing_table \<Rightarrow> ipv4_route option" where
  "scan_routes dest T =
     find (\<lambda>e. ro_isValid e \<and> maskedAddrAreEqual dest (ro_dest e) (ro_netmask e)) (rt_routes T)"

definition findBestMatchingRoute :: "IPv4Address \<Rightarrow> routing_table \<Rightarrow> sim_error + ipv4_route option \<times> routing_table" where
  "findBestMatchingRoute dest T =
     (let scan = (let best = scan_routes dest T
                  in Inr (best, T\<lparr>rt_routingCache := (rt_routingCache T)(dest \<mapsto> map_option ro_ptr best)\<rparr>))
      in case rt_routingCache T dest of
           None \<Rightarrow> scan
         | Some None \<Rightarrow> Inr (None, T)
         | Some (Some p) \<Rightarrow>
             (case find (\<lambda>r. ro_ptr r = p) (rt_routes T) of
                None \<Rightarrow> Inl (UndefinedBehaviour ''use of a deleted route'')
              | Some r \<Rightarrow> if ro_isValid r then Inr (Some r, T) else scan))"

definition getInterfaceForDestAddr :: "IPv4Address \<Rightarrow> routing_table \<Rightarrow> sim_error + nat option \<times> routing_table" where
  "getInterfaceForDestAddr dest T =
     map_sum id (\<lambda>(e, T1). (case e of None \<Rightarrow> None | Some r \<Rightarrow> ro_interface r, T1)) (findBestMatchingRoute dest T)"

definition getGatewayForDestAddr :: "IPv4Address \<Rightarrow> routing_table \<Rightarrow> sim_error + IPv4Address \<times> routing_table" where
  "getGatewayForDestAddr dest T =
     map_sum id (\<lambda>(e, T1). (case e of None \<Rightarrow> unspecified_ip | Some r \<Rightarrow> ro_gateway r, T1)) (findBestMatchingRoute dest T)"

section \<open>Changes of a route\<close>

datatype route_field = F_DESTINATION | F_PREFIX_LENGTH | F_NEXTHOP | F_IFACE | F_SOURCE | F_TYPE | F_ADMINDIST | F_METRIC
  | F_EXPIRYTIME | F_LAST

definition routeChanged :: "nat \<Rightarrow> route_field \<Rightarrow> routing_table \<Rightarrow> sim_error + routing_table" where
  "routeChanged p f T =
     bind_result
       (if f = F_DESTINATION \<or> f = F_PREFIX_LENGTH \<or> f = F_METRIC then
          (case internalRemoveRoute p T of
             (None, T1) \<Rightarrow> Inl (RuntimeError ''ASSERT: route was not found in this routing table'')
           | (Some e, T1) \<Rightarrow> bind_result (internalAddRoute e T1) (\<lambda>T2. Inr (invalidateCache T2)))
        else Inr T)
       (\<lambda>T1. Inr (rt_emit (RouteChanged p) T1))"

text \<open>A setter of a route that is in the table: it writes the field if the value is new and tells the table.\<close>

definition update_route :: "nat \<Rightarrow> (ipv4_route \<Rightarrow> bool) \<Rightarrow> (ipv4_route \<Rightarrow> ipv4_route) \<Rightarrow> route_field \<Rightarrow> routing_table
    \<Rightarrow> sim_error + routing_table" where
  "update_route p same upd f T =
     (case find (\<lambda>r. ro_ptr r = p) (rt_routes T) of
        None \<Rightarrow> Inl (UndefinedBehaviour ''use of a deleted route'')
      | Some r \<Rightarrow>
          if same r then Inr T
          else routeChanged p f (T\<lparr>rt_routes := map (\<lambda>r. if ro_ptr r = p then upd r else r) (rt_routes T)\<rparr>))"

definition setDestination :: "nat \<Rightarrow> IPv4Address \<Rightarrow> routing_table \<Rightarrow> sim_error + routing_table" where
  "setDestination p a = update_route p (\<lambda>r. ro_dest r = a) (\<lambda>r. r\<lparr>ro_dest := a\<rparr>) F_DESTINATION"

definition setNetmask :: "nat \<Rightarrow> IPv4Address \<Rightarrow> routing_table \<Rightarrow> sim_error + routing_table" where
  "setNetmask p a = update_route p (\<lambda>r. ro_netmask r = a) (\<lambda>r. r\<lparr>ro_netmask := a\<rparr>) F_PREFIX_LENGTH"

definition setGateway :: "nat \<Rightarrow> IPv4Address \<Rightarrow> routing_table \<Rightarrow> sim_error + routing_table" where
  "setGateway p a = update_route p (\<lambda>r. ro_gateway r = a) (\<lambda>r. r\<lparr>ro_gateway := a\<rparr>) F_NEXTHOP"

definition setInterface :: "nat \<Rightarrow> nat option \<Rightarrow> routing_table \<Rightarrow> sim_error + routing_table" where
  "setInterface p ie = update_route p (\<lambda>r. ro_interface r = ie) (\<lambda>r. r\<lparr>ro_interface := ie\<rparr>) F_IFACE"

definition setSourceType :: "nat \<Rightarrow> SourceType \<Rightarrow> routing_table \<Rightarrow> sim_error + routing_table" where
  "setSourceType p s = update_route p (\<lambda>r. ro_sourceType r = s) (\<lambda>r. r\<lparr>ro_sourceType := s\<rparr>) F_SOURCE"

definition setAdminDist :: "nat \<Rightarrow> 32 word \<Rightarrow> routing_table \<Rightarrow> sim_error + routing_table" where
  "setAdminDist p d = update_route p (\<lambda>r. ro_adminDist r = d) (\<lambda>r. r\<lparr>ro_adminDist := d\<rparr>) F_ADMINDIST"

definition setMetric :: "nat \<Rightarrow> int \<Rightarrow> routing_table \<Rightarrow> sim_error + routing_table" where
  "setMetric p m = update_route p (\<lambda>r. ro_metric r = m) (\<lambda>r. r\<lparr>ro_metric := m\<rparr>) F_METRIC"

section \<open>Routes of the interfaces\<close>

text \<open>The loops that erase elements: the rest, and the erased ones in order.\<close>

definition erase_routes :: "(ipv4_route \<Rightarrow> bool) \<Rightarrow> routing_table \<Rightarrow> routing_table" where
  "erase_routes P T =
     T\<lparr>rt_routes := filter (\<lambda>r. \<not> P r) (rt_routes T),
       rt_signals := rt_signals T @ map (\<lambda>r. RouteDeleted (ro_ptr r)) (filter P (rt_routes T))\<rparr>"

definition netmask_route :: "nat \<Rightarrow> interface_entry \<Rightarrow> ipv4_data \<Rightarrow> ipv4_route" where
  "netmask_route p ie d =
     (new_route p)\<lparr>ro_sourceType := IFACENETMASK, ro_dest := doAnd (id_inetAddr d) (id_netmask d), ro_netmask := id_netmask d,
       ro_gateway := unspecified_ip, ro_adminDist := dDirectlyConnected, ro_metric := id_metric d, ro_interface := Some (if_ptr ie)\<rparr>"

fun add_netmask_routes :: "interface_entry list \<Rightarrow> routing_table \<Rightarrow> routing_table" where
  "add_netmask_routes [] T = T"
| "add_netmask_routes (ie # ies) T =
     (case if_ipv4Data ie of
        Some d \<Rightarrow>
          if rt_netmaskRoutes T (if_fullName ie) \<and> id_netmask d \<noteq> IPv4Address 0xFFFFFFFF
          then (let p = rt_fresh T in
            add_netmask_routes ies (rt_emit (RouteAdded p) (insert_route (netmask_route p ie d) (T\<lparr>rt_fresh := p + 1\<rparr>))))
          else add_netmask_routes ies T
      | None \<Rightarrow> add_netmask_routes ies T)"

definition updateNetmaskRoutes :: "routing_table \<Rightarrow> routing_table" where
  "updateNetmaskRoutes T =
     (let T1 = erase_routes (\<lambda>r. ro_sourceType r = IFACENETMASK) T
      in invalidateCache (add_netmask_routes (rt_ift T1) T1))"

section \<open>Multicast routes\<close>

definition multicastRouteLessThan :: "multicast_route \<Rightarrow> multicast_route \<Rightarrow> bool" where
  "multicastRouteLessThan a b =
     (if mr_originNetmask a \<noteq> mr_originNetmask b then mr_originNetmask a > mr_originNetmask b
      else if mr_origin a \<noteq> mr_origin b then mr_origin a < mr_origin b
      else if mr_group a \<noteq> mr_group b then mr_group a > mr_group b
      else mr_metric a < mr_metric b)"

text \<open>Whether the interface a pointer points to is multicast capable.\<close>

definition is_multicast_if :: "routing_table \<Rightarrow> nat \<Rightarrow> bool" where
  "is_multicast_if T k \<longleftrightarrow> list_ex (\<lambda>ie. if_ptr ie = k \<and> if_multicast ie) (rt_ift T)"

fun check_out_interfaces :: "routing_table \<Rightarrow> nat option \<Rightarrow> nat list \<Rightarrow> sim_error + unit" where
  "check_out_interfaces T inIf [] = Inr ()"
| "check_out_interfaces T inIf (k # ks) =
     (if \<not> is_multicast_if T k then Inl (RuntimeError ''addMulticastRoute(): output interface must be multicast capable'')
      else if inIf = Some k then Inl (RuntimeError ''addMulticastRoute(): output interface cannot be the same as the input interface'')
      else check_out_interfaces T inIf ks)"

definition internalAddMulticastRoute :: "multicast_route \<Rightarrow> routing_table \<Rightarrow> sim_error + routing_table" where
  "internalAddMulticastRoute e T =
     (if \<not> isValidNetmask (mr_originNetmask e) then Inl (RuntimeError ''addMulticastRoute(): wrong netmask in multicast route'')
      else if getInt (mr_origin e) AND NOT (getInt (mr_originNetmask e)) \<noteq> 0
      then Inl (RuntimeError ''addMulticastRoute(): suspicious route: origin IP address has bits set outside netmask'')
      else if \<not> ip_isUnspecified (mr_group e) \<and> \<not> ip_isMulticast (mr_group e)
      then Inl (RuntimeError ''addMulticastRoute(): group address is not a multicast address'')
      else if (case mr_inInterface e of None \<Rightarrow> False | Some k \<Rightarrow> \<not> is_multicast_if T k)
      then Inl (RuntimeError ''addMulticastRoute(): input interface must be multicast capable'')
      else bind_result (check_out_interfaces T (mr_inInterface e) (mr_outInterfaces e)) (\<lambda>_.
        Inr (T\<lparr>rt_multicastRoutes :=
          vector_insert (upper_bound (multicastRouteLessThan e) (rt_multicastRoutes T)) e (rt_multicastRoutes T)\<rparr>)))"

definition addMulticastRoute :: "multicast_route \<Rightarrow> routing_table \<Rightarrow> sim_error + routing_table" where
  "addMulticastRoute e T =
     bind_result (internalAddMulticastRoute e T) (\<lambda>T1. Inr (rt_emit (MRouteAdded (mr_ptr e)) (invalidateCache T1)))"

definition internalRemoveMulticastRoute :: "nat \<Rightarrow> routing_table \<Rightarrow> multicast_route option \<times> routing_table" where
  "internalRemoveMulticastRoute p T =
     (case find (\<lambda>r. mr_ptr r = p) (rt_multicastRoutes T) of
        None \<Rightarrow> (None, T)
      | Some r \<Rightarrow> (Some r, T\<lparr>rt_multicastRoutes := erase_first (\<lambda>r. mr_ptr r = p) (rt_multicastRoutes T)\<rparr>))"

definition removeMulticastRoute :: "nat \<Rightarrow> routing_table \<Rightarrow> multicast_route option \<times> routing_table" where
  "removeMulticastRoute p T =
     (case internalRemoveMulticastRoute p T of
        (None, T1) \<Rightarrow> (None, T1)
      | (Some r, T1) \<Rightarrow> (Some r, rt_emit (MRouteDeleted p) (invalidateCache T1)))"

definition deleteMulticastRoute :: "nat \<Rightarrow> routing_table \<Rightarrow> bool \<times> routing_table" where
  "deleteMulticastRoute p T = (case removeMulticastRoute p T of (r, T1) \<Rightarrow> (r \<noteq> None, T1))"

definition findBestMatchingMulticastRoute :: "IPv4Address \<Rightarrow> IPv4Address \<Rightarrow> routing_table \<Rightarrow> multicast_route option" where
  "findBestMatchingMulticastRoute origin grp T =
     find (\<lambda>e. mr_isValid e \<and> mr_matches origin grp e) (rt_multicastRoutes T)"

text \<open>Setters of a multicast route that is in the table (an \<^verbatim>\<open>InInterface\<close> is always a new object); \<open>M_OUT\<close> and \<open>M_IN\<close> do not concern its place.\<close>

datatype mroute_field = M_ORIGIN | M_ORIGINMASK | M_MULTICASTGROUP | M_IN | M_OUT | M_SOURCE | M_METRIC | M_LAST

definition multicastRouteChanged :: "nat \<Rightarrow> mroute_field \<Rightarrow> routing_table \<Rightarrow> sim_error + routing_table" where
  "multicastRouteChanged p f T =
     bind_result
       (if f = M_ORIGIN \<or> f = M_ORIGINMASK \<or> f = M_MULTICASTGROUP \<or> f = M_METRIC then
          (case internalRemoveMulticastRoute p T of
             (None, T1) \<Rightarrow> Inl (RuntimeError ''ASSERT: route was not found in this routing table'')
           | (Some e, T1) \<Rightarrow> bind_result (internalAddMulticastRoute e T1) (\<lambda>T2. Inr (invalidateCache T2)))
        else Inr T)
       (\<lambda>T1. Inr (rt_emit (MRouteChanged p) T1))"

definition update_mroute :: "nat \<Rightarrow> (multicast_route \<Rightarrow> bool) \<Rightarrow> (multicast_route \<Rightarrow> multicast_route) \<Rightarrow> mroute_field
    \<Rightarrow> routing_table \<Rightarrow> sim_error + routing_table" where
  "update_mroute p same upd f T =
     (case find (\<lambda>r. mr_ptr r = p) (rt_multicastRoutes T) of
        None \<Rightarrow> Inl (UndefinedBehaviour ''use of a deleted route'')
      | Some r \<Rightarrow>
          if same r then Inr T
          else multicastRouteChanged p f
                 (T\<lparr>rt_multicastRoutes := map (\<lambda>r. if mr_ptr r = p then upd r else r) (rt_multicastRoutes T)\<rparr>))"

definition setOrigin :: "nat \<Rightarrow> IPv4Address \<Rightarrow> routing_table \<Rightarrow> sim_error + routing_table" where
  "setOrigin p a = update_mroute p (\<lambda>r. mr_origin r = a) (\<lambda>r. r\<lparr>mr_origin := a\<rparr>) M_ORIGIN"

definition setOriginNetmask :: "nat \<Rightarrow> IPv4Address \<Rightarrow> routing_table \<Rightarrow> sim_error + routing_table" where
  "setOriginNetmask p a = update_mroute p (\<lambda>r. mr_originNetmask r = a) (\<lambda>r. r\<lparr>mr_originNetmask := a\<rparr>) M_ORIGINMASK"

definition setMulticastGroup :: "nat \<Rightarrow> IPv4Address \<Rightarrow> routing_table \<Rightarrow> sim_error + routing_table" where
  "setMulticastGroup p a = update_mroute p (\<lambda>r. mr_group r = a) (\<lambda>r. r\<lparr>mr_group := a\<rparr>) M_MULTICASTGROUP"

definition mr_setMetric :: "nat \<Rightarrow> int \<Rightarrow> routing_table \<Rightarrow> sim_error + routing_table" where
  "mr_setMetric p m = update_mroute p (\<lambda>r. mr_metric r = m) (\<lambda>r. r\<lparr>mr_metric := m\<rparr>) M_METRIC"

definition clearOutInterfaces :: "nat \<Rightarrow> routing_table \<Rightarrow> sim_error + routing_table" where
  "clearOutInterfaces p = update_mroute p (\<lambda>r. mr_outInterfaces r = []) (\<lambda>r. r\<lparr>mr_outInterfaces := []\<rparr>) M_OUT"

definition setInInterface :: "nat \<Rightarrow> nat option \<Rightarrow> routing_table \<Rightarrow> sim_error + routing_table" where
  "setInInterface p k = update_mroute p (\<lambda>r. mr_inInterface r = None \<and> k = None) (\<lambda>r. r\<lparr>mr_inInterface := k\<rparr>) M_IN"

text \<open>An output interface replaces the one for the same interface entry, or is appended.\<close>

definition addOutInterface :: "nat \<Rightarrow> nat \<Rightarrow> routing_table \<Rightarrow> sim_error + routing_table" where
  "addOutInterface p k =
     update_mroute p (\<lambda>r. False)
       (\<lambda>r. if k \<in> set (mr_outInterfaces r) then r else r\<lparr>mr_outInterfaces := mr_outInterfaces r @ [k]\<rparr>) M_OUT"

definition removeOutInterface :: "nat \<Rightarrow> nat \<Rightarrow> routing_table \<Rightarrow> sim_error + routing_table" where
  "removeOutInterface p k =
     update_mroute p (\<lambda>r. k \<notin> set (mr_outInterfaces r)) (\<lambda>r. r\<lparr>mr_outInterfaces := remove1 k (mr_outInterfaces r)\<rparr>) M_OUT"

section \<open>Interfaces that go, invalid routes and signals\<close>

text \<open>
  The loop over the multicast routes when an interface goes: what stays, and the signals.  A route that loses
  an output interface signals the change itself, and the loop signals it again.
\<close>

fun drop_interface_loop :: "nat \<Rightarrow> multicast_route list \<Rightarrow> multicast_route list \<times> rt_signal list" where
  "drop_interface_loop k [] = ([], [])"
| "drop_interface_loop k (r # rs) =
     (let (rs', ss) = drop_interface_loop k rs in
      if mr_inInterface r = Some k then (rs', MRouteDeleted (mr_ptr r) # ss)
      else if k \<in> set (mr_outInterfaces r)
      then (r\<lparr>mr_outInterfaces := remove1 k (mr_outInterfaces r)\<rparr> # rs',
            MRouteChanged (mr_ptr r) # MRouteChanged (mr_ptr r) # ss)
      else (r # rs', ss))"

definition deleteInterfaceRoutes :: "nat \<Rightarrow> routing_table \<Rightarrow> routing_table" where
  "deleteInterfaceRoutes k T =
     (let used = list_ex (\<lambda>r. ro_interface r = Some k) (rt_routes T);
          T1 = erase_routes (\<lambda>r. ro_interface r = Some k) T;
          (ms, ss) = drop_interface_loop k (rt_multicastRoutes T1);
          T2 = T1\<lparr>rt_multicastRoutes := ms, rt_signals := rt_signals T1 @ ss\<rparr>
      in if used \<or> ss \<noteq> [] then invalidateCache T2 else T2)"

definition purge :: "routing_table \<Rightarrow> routing_table" where
  "purge T =
     (let deleted = list_ex (\<lambda>r. \<not> ro_isValid r) (rt_routes T);
          T1 = erase_routes (\<lambda>r. \<not> ro_isValid r) T;
          dead = filter (\<lambda>r. \<not> mr_isValid r) (rt_multicastRoutes T1);
          T2 = T1\<lparr>rt_multicastRoutes := filter mr_isValid (rt_multicastRoutes T1),
                  rt_signals := rt_signals T1 @ map (\<lambda>r. MRouteDeleted (mr_ptr r)) dead\<rparr>
      in if deleted \<or> dead \<noteq> [] then invalidateCache T2 else T2)"

text \<open>The signals of the interface table; during the initialisation of the simulation they are ignored.\<close>

datatype interface_signal = NF_INTERFACE_CREATED | NF_INTERFACE_DELETED nat | NF_INTERFACE_STATE_CHANGED
  | NF_INTERFACE_CONFIG_CHANGED | NF_INTERFACE_IPv4CONFIG_CHANGED

fun rt_receiveSignal :: "bool \<Rightarrow> interface_signal \<Rightarrow> routing_table \<Rightarrow> routing_table" where
  "rt_receiveSignal initializing s T =
     (if initializing then T
      else case s of
        NF_INTERFACE_CREATED \<Rightarrow> updateNetmaskRoutes T
      | NF_INTERFACE_DELETED k \<Rightarrow> deleteInterfaceRoutes k T
      | NF_INTERFACE_STATE_CHANGED \<Rightarrow> invalidateCache T
      | NF_INTERFACE_CONFIG_CHANGED \<Rightarrow> invalidateCache T
      | NF_INTERFACE_IPv4CONFIG_CHANGED \<Rightarrow> updateNetmaskRoutes T)"

text \<open>A crash or shutdown of the node: \<^verbatim>\<open>while (!routes.empty()) delete removeRoute(routes[0])\<close>.\<close>

function remove_all_routes :: "routing_table \<Rightarrow> routing_table" where
  "remove_all_routes T =
     (if rt_routes T = [] then T else remove_all_routes (snd (removeRoute (ro_ptr (hd (rt_routes T))) T)))"
  by pat_completeness auto
termination
proof (relation "measure (\<lambda>T. length (rt_routes T))")
  fix T :: routing_table
  assume "rt_routes T \<noteq> []"
  then obtain r rs where "rt_routes T = r # rs" by (cases "rt_routes T") auto
  then show "(snd (removeRoute (ro_ptr (hd (rt_routes T))) T), T) \<in> measure (\<lambda>T. length (rt_routes T))"
    by (simp add: removeRoute_def internalRemoveRoute_def rt_emit_def invalidateCache_def)
qed simp

declare remove_all_routes.simps [simp del]

definition rt_shutdown :: "routing_table \<Rightarrow> routing_table" where
  "rt_shutdown T = (remove_all_routes T)\<lparr>rt_isNodeUp := False\<rparr>"

text \<open>The router id, while the simulation is initialised: interfaces changed here are not signalled back.\<close>

definition highest_address :: "IPv4Address \<Rightarrow> interface_entry list \<Rightarrow> IPv4Address" where
  "highest_address = foldl (\<lambda>rid ie.
     case if_ipv4Data ie of
       None \<Rightarrow> rid
     | Some d \<Rightarrow> if \<not> if_loopback ie \<and> getInt (id_inetAddr d) > getInt rid then id_inetAddr d else rid)"

fun set_first_loopback :: "IPv4Address \<Rightarrow> interface_entry list \<Rightarrow> sim_error + interface_entry list" where
  "set_first_loopback a [] = Inl (RuntimeError ''ASSERT: lo0'')"
| "set_first_loopback a (ie # ies) =
     (if if_loopback ie
      then bind_result (deref_ipv4 ie) (\<lambda>d.
        Inr (ie\<lparr>if_ipv4Data := Some (d\<lparr>id_inetAddr := a, id_netmask := IPv4Address 0xFFFFFFFF\<rparr>)\<rparr> # ies))
      else map_sum id ((#) ie) (set_first_loopback a ies))"

definition configureRouterId :: "string \<Rightarrow> routing_table \<Rightarrow> sim_error + routing_table" where
  "configureRouterId routerIdStr T =
     (if ip_isUnspecified (rt_routerId T) then
        Inr (if routerIdStr = ''auto'' then T\<lparr>rt_routerId := highest_address (rt_routerId T) (rt_ift T)\<rparr> else T)
      else bind_result (getInterfaceByAddress (rt_routerId T) T) (\<lambda>ie.
        if ie = None then map_sum id (\<lambda>ies. T\<lparr>rt_ift := ies\<rparr>) (set_first_loopback (rt_routerId T) (rt_ift T))
        else Inr T))"

definition setRouterId :: "IPv4Address \<Rightarrow> routing_table \<Rightarrow> routing_table" where
  "setRouterId a T = T\<lparr>rt_routerId := a\<rparr>"

section \<open>IPv4 data for interfaces\<close>

definition LOOPBACK_ADDRESS :: IPv4Address where "LOOPBACK_ADDRESS = IPv4Address 0x7F000001"
definition LOOPBACK_NETMASK :: IPv4Address where "LOOPBACK_NETMASK = IPv4Address 0xFF000000"
definition ALL_HOSTS_MCAST :: IPv4Address where "ALL_HOSTS_MCAST = IPv4Address 0xE0000001"
definition ALL_ROUTERS_MCAST :: IPv4Address where "ALL_ROUTERS_MCAST = IPv4Address 0xE0000002"

fun configure_loopback :: "interface_entry list \<Rightarrow> interface_entry list" where
  "configure_loopback [] = []"
| "configure_loopback (ie # ies) =
     (if if_loopback ie
      then ie\<lparr>if_ipv4Data := Some \<lparr>id_inetAddr = LOOPBACK_ADDRESS, id_netmask = LOOPBACK_NETMASK, id_metric = 1, id_joinedGroups = []\<rparr>\<rparr> # ies
      else ie # configure_loopback ies)"

definition configureLoopbackForIPv4 :: "routing_table \<Rightarrow> routing_table" where
  "configureLoopbackForIPv4 T = T\<lparr>rt_ift := configure_loopback (rt_ift T)\<rparr>"

text \<open>The metric is \<^verbatim>\<open>(int)ceil(2e9 / datarate)\<close>; a value outside the range of \<^verbatim>\<open>int\<close> is undefined behaviour.\<close>

definition configureInterfaceForIPv4 :: "rat \<Rightarrow> bool \<Rightarrow> interface_entry \<Rightarrow> sim_error + interface_entry" where
  "configureInterfaceForIPv4 datarate forwarding ie =
     (let metric = \<lceil>2000000000 / datarate\<rceil> in
      if datarate = 0 \<or> metric < - (2 ^ 31) \<or> metric \<ge> 2 ^ 31 then Inl (UndefinedBehaviour ''conversion to int'')
      else Inr (ie\<lparr>if_ipv4Data := Some \<lparr>id_inetAddr = unspecified_ip, id_netmask = unspecified_ip, id_metric = metric,
        id_joinedGroups = (if if_multicast ie then ALL_HOSTS_MCAST # (if forwarding then [ALL_ROUTERS_MCAST] else []) else [])\<rparr>\<rparr>))"

end
