(* ===== verification/Ipv4RoutingProperties.thy ===== *)
theory Ipv4RoutingProperties
  imports Ipv4RoutingTable
begin

text \<open>
  The IPv4 routing table in use: the order of the table, the coherence of the cache and the properties of
  the best matching route in every state the table can reach.
\<close>

section \<open>The order of the table\<close>

interpretation unicast: table_order "routeLessThan uad"
  by unfold_locales (auto simp: routeLessThan_def split: if_splits)

interpretation multicast: table_order multicastRouteLessThan
  by unfold_locales (auto simp: multicastRouteLessThan_def split: if_splits)

definition route_ok :: "ipv4_route \<Rightarrow> bool" where
  "route_ok r \<longleftrightarrow> getInt (ro_dest r) AND NOT (getInt (ro_netmask r)) = 0"

definition rt_ptrs :: "routing_table \<Rightarrow> nat set" where
  "rt_ptrs T = ro_ptr ` set (rt_routes T)"

definition rt_core :: "bool \<Rightarrow> routing_table \<Rightarrow> bool" where
  "rt_core uad T \<longleftrightarrow> rt_useAdminDist T = uad \<and> sorted_wrt (\<lambda>a b. \<not> routeLessThan uad b a) (rt_routes T)
     \<and> distinct (map ro_ptr (rt_routes T)) \<and> (\<forall>r \<in> set (rt_routes T). ro_ptr r < rt_fresh T \<and> route_ok r)"

definition cache_ok :: "routing_table \<Rightarrow> bool" where
  "cache_ok T \<longleftrightarrow> (\<forall>d x. rt_routingCache T d = Some x \<longrightarrow> x = map_option ro_ptr (scan_routes d T))"

lemma core_fields [simp]:
  "rt_core uad (rt_emit s T) = rt_core uad T" "rt_core uad (invalidateCache T) = rt_core uad T"
  "rt_core uad (T\<lparr>rt_signals := x\<rparr>) = rt_core uad T" "rt_core uad (T\<lparr>rt_ift := y\<rparr>) = rt_core uad T"
  "rt_core uad (T\<lparr>rt_routingCache := c\<rparr>) = rt_core uad T" "rt_core uad (T\<lparr>rt_localAddresses := l\<rparr>) = rt_core uad T"
  "rt_core uad (T\<lparr>rt_localBroadcastAddresses := l\<rparr>) = rt_core uad T"
  "rt_core uad (T\<lparr>rt_multicastRoutes := m\<rparr>) = rt_core uad T" "rt_core uad (T\<lparr>rt_isNodeUp := b\<rparr>) = rt_core uad T"
  by (simp_all add: rt_core_def rt_emit_def invalidateCache_def)

lemma cache_fields [simp]:
  "cache_ok (rt_emit s T) = cache_ok T" "cache_ok (invalidateCache T)"
  "cache_ok (T\<lparr>rt_signals := x\<rparr>) = cache_ok T" "cache_ok (T\<lparr>rt_ift := y\<rparr>) = cache_ok T"
  "cache_ok (T\<lparr>rt_localAddresses := l\<rparr>) = cache_ok T" "cache_ok (T\<lparr>rt_localBroadcastAddresses := l\<rparr>) = cache_ok T"
  "cache_ok (T\<lparr>rt_multicastRoutes := m\<rparr>) = cache_ok T" "cache_ok (T\<lparr>rt_isNodeUp := b\<rparr>) = cache_ok T"
  "cache_ok (T\<lparr>rt_fresh := n\<rparr>) = cache_ok T"
  by (simp_all add: cache_ok_def rt_emit_def invalidateCache_def scan_routes_def)

lemma core_insert:
  assumes "rt_core uad T" "ro_ptr e \<notin> rt_ptrs T" "ro_ptr e < rt_fresh T" "route_ok e"
  shows "rt_core uad (insert_route e T)"
proof -
  let ?rs = "rt_routes T" and ?b = "upper_bound (routeLessThan uad e) (rt_routes T)"
  have "sorted_wrt (\<lambda>a b. \<not> routeLessThan uad b a) (vector_insert ?b e ?rs)"
    by (rule unicast.insert_in_order) (use assms(1) in \<open>simp add: rt_core_def\<close>)
  moreover have "distinct (map ro_ptr (vector_insert ?b e ?rs))"
  proof -
    have "distinct (map ro_ptr (take ?b ?rs @ drop ?b ?rs))" using assms(1) by (simp add: rt_core_def)
    moreover have "ro_ptr e \<notin> ro_ptr ` set (take ?b ?rs)" "ro_ptr e \<notin> ro_ptr ` set (drop ?b ?rs)"
      using assms(2) set_take_subset set_drop_subset by (fastforce simp: rt_ptrs_def)+
    ultimately show ?thesis by (auto simp: vector_insert_def simp del: append_take_drop_id)
  qed
  ultimately show ?thesis using assms by (simp add: rt_core_def insert_route_def)
qed

lemma core_filter: "rt_core uad T \<Longrightarrow> rt_core uad (erase_routes P T)"
  by (auto simp: rt_core_def erase_routes_def sorted_wrt_filter distinct_map_filter)

lemma erase_first_sorted: "sorted_wrt P xs \<Longrightarrow> sorted_wrt P (erase_first Q xs)"
  using set_erase_first_subset by (induction xs) fastforce+

lemma erase_first_distinct:
  "distinct (map f xs) \<Longrightarrow> distinct (map f (erase_first (\<lambda>x. f x = p) xs)) \<and> p \<notin> f ` set (erase_first (\<lambda>x. f x = p) xs)"
proof (induction xs)
  case (Cons x xs)
  have "f ` set (erase_first (\<lambda>x. f x = p) xs) \<subseteq> f ` set xs" using set_erase_first_subset by fast
  then show ?case using Cons by (auto simp: image_iff)
qed simp

lemma core_remove:
  assumes "rt_core uad T" "internalRemoveRoute p T = (x, T1)"
  shows "rt_core uad T1 \<and> p \<notin> rt_ptrs T1 \<and> rt_ptrs T1 \<subseteq> rt_ptrs T \<and> rt_fresh T1 = rt_fresh T
    \<and> (\<forall>e. x = Some e \<longrightarrow> e \<in> set (rt_routes T) \<and> ro_ptr e = p) \<and> (x = None \<longrightarrow> T1 = T)"
proof (cases "find (\<lambda>r. ro_ptr r = p) (rt_routes T)")
  case None
  then have "x = None" "T1 = T" using assms(2) by (simp_all add: internalRemoveRoute_def)
  then show ?thesis using None assms(1) by (auto simp: find_None_iff rt_ptrs_def)
next
  case (Some e)
  have "e \<in> set (rt_routes T)" "ro_ptr e = p" using Some by (auto simp: find_Some_iff)
  then have e: "x = Some e" "T1 = T\<lparr>rt_routes := erase_first (\<lambda>r. ro_ptr r = p) (rt_routes T)\<rparr>" "e \<in> set (rt_routes T)" "ro_ptr e = p"
    using assms(2) Some by (simp_all add: internalRemoveRoute_def)
  have d: "distinct (map ro_ptr (rt_routes T))" using assms(1) by (simp add: rt_core_def)
  have "rt_core uad T1"
    using assms(1) erase_first_sorted [of _ "rt_routes T"] conjunct1 [OF erase_first_distinct [OF d]]
      set_erase_first_subset [of "\<lambda>r. ro_ptr r = p" "rt_routes T"]
    by (auto simp: rt_core_def e(2))
  then show ?thesis
    using e conjunct2 [OF erase_first_distinct [OF d, of p]] set_erase_first_subset [of "\<lambda>r. ro_ptr r = p" "rt_routes T"]
    by (auto simp: rt_ptrs_def)
qed

lemma core_delete:
  "rt_core uad T \<Longrightarrow> rt_core uad (snd (deleteRoute p T))" "rt_core uad T \<Longrightarrow> rt_core uad (snd (removeRoute p T))"
  "rt_ptrs (snd (deleteRoute p T)) \<subseteq> rt_ptrs T" "rt_fresh (snd (deleteRoute p T)) = rt_fresh T"
proof -
  obtain x T1 where r: "internalRemoveRoute p T = (x, T1)" by fastforce
  show "rt_core uad T \<Longrightarrow> rt_core uad (snd (deleteRoute p T))" "rt_core uad T \<Longrightarrow> rt_core uad (snd (removeRoute p T))"
    using core_remove [OF _ r] by (auto simp: deleteRoute_def removeRoute_def r split: option.split)
  show "rt_ptrs (snd (deleteRoute p T)) \<subseteq> rt_ptrs T" "rt_fresh (snd (deleteRoute p T)) = rt_fresh T"
    using set_erase_first_subset [of "\<lambda>r. ro_ptr r = p" "rt_routes T"]
    by (auto simp: deleteRoute_def internalRemoveRoute_def rt_ptrs_def rt_emit_def invalidateCache_def split: option.split)
qed

lemma core_add:
  assumes "rt_core uad T" "internalAddRoute e T = Inr T1" "ro_ptr e \<notin> rt_ptrs T" "ro_ptr e < rt_fresh T"
  shows "rt_core uad T1"
proof -
  let ?T = "if ip_isUnspecified (ro_netmask e) then (case getDefaultRoute T of None \<Rightarrow> T | Some old \<Rightarrow> snd (deleteRoute (ro_ptr old) T)) else T"
  have T1: "T1 = insert_route e ?T" and ok: "route_ok e"
    using assms(2) by (simp_all add: internalAddRoute_def Let_def route_ok_def split: if_splits)
  have "rt_core uad ?T" "rt_ptrs ?T \<subseteq> rt_ptrs T" "rt_fresh ?T = rt_fresh T"
    using assms(1) core_delete by (auto split: option.split)
  then show ?thesis unfolding T1 using assms(3,4) ok by (intro core_insert) auto
qed

section \<open>The operations keep it\<close>

lemma core_fresh: "rt_core uad T \<Longrightarrow> rt_core uad (T\<lparr>rt_fresh := Suc (rt_fresh T)\<rparr>)"
  by (auto simp: rt_core_def)

lemma fresh_not_in: "rt_core uad T \<Longrightarrow> rt_fresh T \<notin> rt_ptrs T"
  by (auto simp: rt_core_def rt_ptrs_def)

lemma netmask_route_ok: "route_ok (netmask_route p ie d)"
proof -
  have "(x AND y) AND NOT y = 0" for x y :: "32 word" by (simp add: bit_eq_iff bit_simps)
  then show ?thesis by (simp add: route_ok_def netmask_route_def new_route_def doAnd_def)
qed

lemma core_netmask_routes: "rt_core uad T \<Longrightarrow> rt_core uad (add_netmask_routes ies T)"
proof (induction ies T rule: add_netmask_routes.induct)
  case (2 ie ies T)
  have "rt_core uad (insert_route (netmask_route (rt_fresh T) ie d) (T\<lparr>rt_fresh := rt_fresh T + 1\<rparr>))" for d
    by (rule core_insert) (use 2 core_fresh fresh_not_in netmask_route_ok in
      \<open>auto simp: netmask_route_def new_route_def rt_ptrs_def\<close>)
  then show ?case using 2 by (auto simp: Let_def split: option.split)
qed simp

lemma core_updateNetmaskRoutes: "rt_core uad T \<Longrightarrow> rt_core uad (updateNetmaskRoutes T)"
  by (simp add: updateNetmaskRoutes_def Let_def core_netmask_routes core_filter)

lemma cache_updateNetmaskRoutes: "cache_ok (updateNetmaskRoutes T)"
  by (simp add: updateNetmaskRoutes_def Let_def)

lemma erase_first_map:
  "distinct (map f xs) \<Longrightarrow> (\<And>x. f (g x) = f x) \<Longrightarrow>
   erase_first (\<lambda>x. f x = p) (map (\<lambda>x. if f x = p then g x else x) xs) = erase_first (\<lambda>x. f x = p) xs"
proof (induction xs)
  case (Cons x xs)
  then show ?case by (cases "f x = p") (auto simp: image_iff intro!: map_idI)
qed simp

lemma find_map_same:
  "distinct (map f xs) \<Longrightarrow> (\<And>x. f (g x) = f x) \<Longrightarrow> find (\<lambda>x. f x = p) xs = Some r \<Longrightarrow>
   find (\<lambda>x. f x = p) (map (\<lambda>x. if f x = p then g x else x) xs) = Some (g r)"
  by (induction xs) (auto split: if_splits)

text \<open>A setter that moves the route: the table is the old one without the route, and the changed route is added.\<close>

lemma update_moves:
  assumes "rt_core uad T" "f = F_DESTINATION \<or> f = F_PREFIX_LENGTH \<or> f = F_METRIC" "\<And>r. ro_ptr (upd r) = ro_ptr r"
    and "update_route p same upd f T = Inr T'"
  shows "rt_core uad T' \<and> (cache_ok T \<longrightarrow> cache_ok T')"
proof (cases "find (\<lambda>r. ro_ptr r = p) (rt_routes T)")
  case (Some r)
  have d: "distinct (map ro_ptr (rt_routes T))" using assms(1) by (simp add: rt_core_def)
  have rp: "r \<in> set (rt_routes T)" "ro_ptr r = p" using Some by (auto simp: find_Some_iff)
  obtain T1 where r: "internalRemoveRoute p T = (Some r, T1)" using Some by (simp add: internalRemoveRoute_def)
  let ?T = "T\<lparr>rt_routes := map (\<lambda>r. if ro_ptr r = p then upd r else r) (rt_routes T)\<rparr>"
  have "internalRemoveRoute p ?T = (Some (upd r), T1)"
    using r find_map_same [OF d assms(3) Some] erase_first_map [OF d assms(3), of p] Some by (simp add: internalRemoveRoute_def)
  moreover note core_remove [OF assms(1) r]
  moreover have "ro_ptr (upd r) < rt_fresh T" using assms(1,3) rp by (auto simp: rt_core_def)
  ultimately show ?thesis
    using assms(1,2,4) Some rp core_add assms(3)
    by (auto simp: update_route_def routeChanged_def bind_result_Inr_iff split: if_splits)
qed (use assms in \<open>simp add: update_route_def\<close>)

text \<open>A setter of a field that neither the order nor the match reads.\<close>

lemma update_stays:
  assumes "rt_core uad T" "cache_ok T" "f \<notin> {F_DESTINATION, F_PREFIX_LENGTH, F_METRIC}"
    and keep: "\<And>r. ro_ptr (upd r) = ro_ptr r \<and> ro_dest (upd r) = ro_dest r \<and> ro_netmask (upd r) = ro_netmask r
      \<and> ro_metric (upd r) = ro_metric r \<and> (uad \<longrightarrow> ro_adminDist (upd r) = ro_adminDist r)"
    and "update_route p same upd f T = Inr T'"
  shows "rt_core uad T' \<and> cache_ok T'"
proof (cases "T' = T")
  case False
  define g where "g = (\<lambda>r. if ro_ptr r = p then upd r else r)"
  have T': "T' = rt_emit (RouteChanged p) (T\<lparr>rt_routes := map g (rt_routes T)\<rparr>)"
    using assms(3,5) False by (auto simp: update_route_def routeChanged_def g_def [symmetric] split: option.splits if_splits)
  have same: "ro_ptr (g r) = ro_ptr r" "ro_dest (g r) = ro_dest r" "ro_netmask (g r) = ro_netmask r" for r using keep by (auto simp: g_def)
  have less: "routeLessThan uad (g a) (g b) = routeLessThan uad a b" for a b
    using keep by (auto simp: routeLessThan_def g_def)
  have ptrs: "ro_ptr \<circ> g = ro_ptr" using same(1) by auto
  have find: "map_option ro_ptr (find (\<lambda>e. ro_isValid e \<and> maskedAddrAreEqual d (ro_dest e) (ro_netmask e)) (map g rs)) =
      map_option ro_ptr (find (\<lambda>e. ro_isValid e \<and> maskedAddrAreEqual d (ro_dest e) (ro_netmask e)) rs)" for d rs
    by (induction rs) (use same in \<open>auto simp: ro_isValid_def\<close>)
  have ok: "route_ok (g r) = route_ok r" for r using same by (simp add: route_ok_def)
  have "sorted_wrt (\<lambda>a b. \<not> routeLessThan uad b a) (map g (rt_routes T))"
    using assms(1) less by (simp add: rt_core_def sorted_wrt_map)
  then have "rt_core uad T'" using assms(1) ptrs same(1) ok by (simp add: T' rt_core_def rt_emit_def)
  moreover have "cache_ok T'" using assms(2) find by (simp add: T' cache_ok_def scan_routes_def rt_emit_def)
  ultimately show ?thesis ..
qed (use assms in simp)

section \<open>Runs of the table\<close>

text \<open>The table before anything is in it, with its parameters and the interfaces of the node.\<close>

definition rt_empty :: "bool \<Rightarrow> bool \<Rightarrow> (string \<Rightarrow> bool) \<Rightarrow> interface_entry list \<Rightarrow> routing_table" where
  "rt_empty forwarding uad pattern ies =
     \<lparr>rt_ift = ies, rt_routerId = unspecified_ip, rt_netmaskRoutes = pattern, rt_forwarding = forwarding,
      rt_useAdminDist = uad, rt_isNodeUp = True, rt_routingCache = Map.empty, rt_localAddresses = {},
      rt_localBroadcastAddresses = {}, rt_routes = [], rt_multicastRoutes = [], rt_fresh = 0, rt_signals = []\<rparr>"

text \<open>
  What is done to a table: a route is made and added (so that its pointer is new), removed or changed, the
  best match and the local addresses are asked for, and the interfaces change, which the interface table signals.
\<close>

datatype rt_op = OpAdd ipv4_route | OpRemove nat | OpDelete nat | OpFind IPv4Address | OpIsLocal IPv4Address
  | OpIsLocalBroadcast IPv4Address | OpSetDestination nat IPv4Address | OpSetNetmask nat IPv4Address
  | OpSetGateway nat IPv4Address | OpSetInterface nat "nat option" | OpSetSourceType nat SourceType
  | OpSetAdminDist nat "32 word" | OpSetMetric nat int | OpConfigureInterfaces "interface_entry list"
  | OpInterfaceState | OpDeleteInterface nat | OpPurge | OpShutdown

fun rt_exec :: "rt_op \<Rightarrow> routing_table \<Rightarrow> sim_error + routing_table" where
  "rt_exec (OpAdd e) T = addRoute (e\<lparr>ro_ptr := rt_fresh T\<rparr>) (T\<lparr>rt_fresh := Suc (rt_fresh T)\<rparr>)"
| "rt_exec (OpRemove p) T = Inr (snd (removeRoute p T))"
| "rt_exec (OpDelete p) T = Inr (snd (deleteRoute p T))"
| "rt_exec (OpFind d) T = map_sum id snd (findBestMatchingRoute d T)"
| "rt_exec (OpIsLocal d) T = map_sum id snd (isLocalAddress d T)"
| "rt_exec (OpIsLocalBroadcast d) T = map_sum id snd (isLocalBroadcastAddress d T)"
| "rt_exec (OpSetDestination p a) T = setDestination p a T"
| "rt_exec (OpSetNetmask p a) T = setNetmask p a T"
| "rt_exec (OpSetGateway p a) T = setGateway p a T"
| "rt_exec (OpSetInterface p ie) T = setInterface p ie T"
| "rt_exec (OpSetSourceType p s) T = setSourceType p s T"
| "rt_exec (OpSetAdminDist p d) T = setAdminDist p d T"
| "rt_exec (OpSetMetric p m) T = setMetric p m T"
| "rt_exec (OpConfigureInterfaces ies) T = Inr (rt_receiveSignal False NF_INTERFACE_IPv4CONFIG_CHANGED (T\<lparr>rt_ift := ies\<rparr>))"
| "rt_exec OpInterfaceState T = Inr (rt_receiveSignal False NF_INTERFACE_STATE_CHANGED T)"
| "rt_exec (OpDeleteInterface k) T =
     (let T1 = rt_receiveSignal False (NF_INTERFACE_DELETED k) T
      in Inr (T1\<lparr>rt_ift := filter (\<lambda>ie. if_ptr ie \<noteq> k) (rt_ift T1)\<rparr>))"
| "rt_exec OpPurge T = Inr (purge T)"
| "rt_exec OpShutdown T = Inr (rt_shutdown T)"

text \<open>Changing an administrative distance is left out where the table is ordered by it.\<close>

fun keeps_order :: "bool \<Rightarrow> rt_op \<Rightarrow> bool" where
  "keeps_order uad (OpSetAdminDist p d) \<longleftrightarrow> \<not> uad"
| "keeps_order uad _ \<longleftrightarrow> True"

definition rt_exec_ok :: "bool \<Rightarrow> rt_op \<Rightarrow> routing_table \<Rightarrow> sim_error + routing_table" where
  "rt_exec_ok uad op T = (if keeps_order uad op then rt_exec op T else Inr T)"

definition rt_inv :: "bool \<Rightarrow> routing_table \<Rightarrow> bool" where
  "rt_inv uad T \<longleftrightarrow> rt_core uad T \<and> cache_ok T"

lemma find_known:
  assumes "rt_inv uad T"
  shows "\<exists>T'. findBestMatchingRoute d T = Inr (scan_routes d T, T') \<and> rt_inv uad T' \<and> rt_routes T' = rt_routes T"
proof -
  let ?T = "T\<lparr>rt_routingCache := (rt_routingCache T)(d \<mapsto> map_option ro_ptr (scan_routes d T))\<rparr>"
  have T: "rt_inv uad ?T" using assms by (auto simp: rt_inv_def cache_ok_def scan_routes_def)
  show ?thesis
  proof (cases "rt_routingCache T d")
    case None
    then show ?thesis using T by (simp add: findBestMatchingRoute_def Let_def)
  next
    case (Some x)
    then have x: "x = map_option ro_ptr (scan_routes d T)" using assms by (simp add: rt_inv_def cache_ok_def)
    show ?thesis
    proof (cases "scan_routes d T")
      case none: None
      then show ?thesis using Some x assms by (simp add: findBestMatchingRoute_def Let_def)
    next
      case (Some r)
      then have "r \<in> set (rt_routes T)" by (auto simp: scan_routes_def find_Some_iff)
      moreover have "distinct (map ro_ptr (rt_routes T))" using assms by (simp add: rt_inv_def rt_core_def)
      ultimately have "find (\<lambda>q. ro_ptr q = ro_ptr r) (rt_routes T) = Some r" by (rule find_distinct_key [rotated])
      then show ?thesis using Some \<open>rt_routingCache T d = Some x\<close> x assms by (simp add: findBestMatchingRoute_def ro_isValid_def)
    qed
  qed
qed

lemma cache_erase:
  assumes "\<forall>r \<in> set (rt_routes T). \<not> P r"
  shows "cache_ok (erase_routes P T) = cache_ok T"
proof -
  have "filter (\<lambda>r. \<not> P r) (rt_routes T) = rt_routes T" using assms by (simp add: filter_id_conv)
  then show ?thesis by (simp add: erase_routes_def cache_ok_def scan_routes_def)
qed

lemma inv_removals:
  "rt_inv uad T \<Longrightarrow> rt_inv uad (snd (removeRoute p T))" "rt_inv uad T \<Longrightarrow> rt_inv uad (snd (deleteRoute p T))"
  "rt_inv uad T \<Longrightarrow> rt_inv uad (deleteInterfaceRoutes k T)" "rt_inv uad T \<Longrightarrow> rt_inv uad (purge T)"
proof -
  assume inv: "rt_inv uad T"
  obtain x T1 where r: "internalRemoveRoute p T = (x, T1)" by fastforce
  have "x = None \<longrightarrow> T1 = T" using core_remove [OF _ r] inv by (auto simp: rt_inv_def)
  then show "rt_inv uad (snd (removeRoute p T))" "rt_inv uad (snd (deleteRoute p T))"
    using core_delete(1,2) [of uad T p] inv by (auto simp: rt_inv_def removeRoute_def deleteRoute_def r split: option.split)
  show "rt_inv uad (deleteInterfaceRoutes k T)" "rt_inv uad (purge T)"
    using inv core_filter cache_erase
    by (auto simp: rt_inv_def deleteInterfaceRoutes_def purge_def Let_def list_ex_iff split: prod.split)
qed

lemma inv_remove_all: "rt_inv uad T \<Longrightarrow> rt_inv uad (remove_all_routes T)"
proof (induction T rule: remove_all_routes.induct)
  case (1 T)
  then show ?case using inv_removals(1) by (subst remove_all_routes.simps) simp
qed

lemma inv_moves:
  "rt_inv uad T \<Longrightarrow> update_route p same upd f T = Inr T' \<Longrightarrow> f = F_DESTINATION \<or> f = F_PREFIX_LENGTH \<or> f = F_METRIC \<Longrightarrow>
   (\<And>r. ro_ptr (upd r) = ro_ptr r) \<Longrightarrow> rt_inv uad T'"
  using update_moves [of uad T f upd p same T'] by (simp add: rt_inv_def)

lemma inv_stays:
  "rt_inv uad T \<Longrightarrow> update_route p same upd f T = Inr T' \<Longrightarrow> f \<notin> {F_DESTINATION, F_PREFIX_LENGTH, F_METRIC} \<Longrightarrow>
   (\<And>r. ro_ptr (upd r) = ro_ptr r \<and> ro_dest (upd r) = ro_dest r \<and> ro_netmask (upd r) = ro_netmask r
      \<and> ro_metric (upd r) = ro_metric r \<and> (uad \<longrightarrow> ro_adminDist (upd r) = ro_adminDist r)) \<Longrightarrow> rt_inv uad T'"
  using update_stays [of uad T f upd p same T'] by (simp add: rt_inv_def)

lemma inv_update:
  assumes "rt_inv uad T"
  shows "setDestination p a T = Inr T' \<Longrightarrow> rt_inv uad T'" "setNetmask p a T = Inr T' \<Longrightarrow> rt_inv uad T'"
    "setMetric p m T = Inr T' \<Longrightarrow> rt_inv uad T'" "setGateway p a T = Inr T' \<Longrightarrow> rt_inv uad T'"
    "setInterface p ie T = Inr T' \<Longrightarrow> rt_inv uad T'" "setSourceType p s T = Inr T' \<Longrightarrow> rt_inv uad T'"
    "\<not> uad \<Longrightarrow> setAdminDist p w T = Inr T' \<Longrightarrow> rt_inv uad T'"
proof -
  show "setDestination p a T = Inr T' \<Longrightarrow> rt_inv uad T'" "setNetmask p a T = Inr T' \<Longrightarrow> rt_inv uad T'"
    "setMetric p m T = Inr T' \<Longrightarrow> rt_inv uad T'"
    unfolding setDestination_def setNetmask_def setMetric_def by (erule inv_moves [OF assms]; simp)+
  show "setGateway p a T = Inr T' \<Longrightarrow> rt_inv uad T'"
    unfolding setGateway_def by (erule inv_stays [OF assms]) simp_all
  show "setInterface p ie T = Inr T' \<Longrightarrow> rt_inv uad T'"
    unfolding setInterface_def by (erule inv_stays [OF assms]) simp_all
  show "setSourceType p s T = Inr T' \<Longrightarrow> rt_inv uad T'"
    unfolding setSourceType_def by (erule inv_stays [OF assms]) simp_all
  show "\<not> uad \<Longrightarrow> setAdminDist p w T = Inr T' \<Longrightarrow> rt_inv uad T'"
    unfolding setAdminDist_def by (rule inv_stays [OF assms], assumption) simp_all
qed

lemma inv_addRoute: "rt_inv uad T \<Longrightarrow> rt_exec (OpAdd e) T = Inr T' \<Longrightarrow> rt_inv uad T'"
proof -
  let ?T = "T\<lparr>rt_fresh := Suc (rt_fresh T)\<rparr>" and ?e = "e\<lparr>ro_ptr := rt_fresh T\<rparr>"
  assume inv: "rt_inv uad T" and run: "rt_exec (OpAdd e) T = Inr T'"
  obtain T1 where T1: "internalAddRoute ?e ?T = Inr T1" "T' = rt_emit (RouteAdded (rt_fresh T)) (invalidateCache T1)"
    using run by (cases "internalAddRoute ?e ?T") (simp_all add: addRoute_def)
  have T: "rt_core uad T" "rt_core uad ?T" using inv core_fresh by (simp_all add: rt_inv_def)
  have "ro_ptr ?e \<notin> rt_ptrs ?T" using fresh_not_in [OF T(1)] by (simp add: rt_ptrs_def)
  from core_add [OF T(2) T1(1) this] show "rt_inv uad T'" by (simp add: T1(2) rt_inv_def)
qed

lemma inv_exec:
  assumes "rt_inv uad T" "keeps_order uad op" "rt_exec op T = Inr T'"
  shows "rt_inv uad T'"
proof (cases op)
  case (OpAdd e)
  then show ?thesis using inv_addRoute assms by blast
next
  case (OpFind d)
  then show ?thesis using find_known [OF assms(1), of d] assms(3) by auto
next
  case (OpIsLocal d)
  then show ?thesis using assms(1,3)
    by (cases "gather_addresses (rt_ift T)") (auto simp: isLocalAddress_def rt_inv_def split: if_splits)
next
  case (OpIsLocalBroadcast d)
  then show ?thesis using assms(1,3)
    by (cases "gather_broadcasts (rt_ift T)") (auto simp: isLocalBroadcastAddress_def rt_inv_def split: if_splits)
next
  case (OpConfigureInterfaces ies)
  then show ?thesis using assms(1,3) core_updateNetmaskRoutes cache_updateNetmaskRoutes by (auto simp: rt_inv_def)
next
  case (OpDeleteInterface k)
  then show ?thesis using assms(1,3) inv_removals(3) [OF assms(1), of k] by (auto simp: rt_inv_def Let_def)
next
  case OpShutdown
  then show ?thesis using assms(3) inv_remove_all [OF assms(1)] by (auto simp: rt_shutdown_def rt_inv_def)
qed (use assms inv_update [OF assms(1)] inv_removals [OF assms(1)] in \<open>auto simp: rt_inv_def\<close>)

interpretation rt_runs: fallible_component "rt_exec_ok uad" "rt_inv uad"
  by unfold_locales (auto simp: rt_exec_ok_def dest: inv_exec split: if_splits)

lemma run_rt_ok: "list_all (keeps_order uad) ops \<Longrightarrow> run_result (rt_exec_ok uad) ops T = run_result rt_exec ops T"
proof (induction ops arbitrary: T)
  case (Cons op ops)
  then show ?case by (cases "rt_exec op T") (simp_all add: rt_exec_ok_def)
qed simp

lemma rt_run_inv:
  assumes "list_all (keeps_order uad) ops" "run_result rt_exec ops (rt_empty fwd uad pat ies) = Inr T"
  shows "rt_inv uad T"
proof -
  have "rt_inv uad (rt_empty fwd uad pat ies)" by (simp add: rt_inv_def rt_core_def cache_ok_def rt_empty_def)
  then show ?thesis using rt_runs.run_keeps assms by (metis run_rt_ok)
qed

section \<open>Properties\<close>

definition route_matches :: "IPv4Address \<Rightarrow> ipv4_route \<Rightarrow> bool" where
  "route_matches d r \<longleftrightarrow> maskedAddrAreEqual d (ro_dest r) (ro_netmask r)"

text \<open>
  What the best route is, without an order or a cache: it matches, and any other match has a smaller netmask, or
  the same one and no better administrative distance or metric.
\<close>

fun best_route :: "bool \<Rightarrow> IPv4Address \<Rightarrow> ipv4_route list \<Rightarrow> ipv4_route option \<Rightarrow> bool" where
  "best_route uad d rs None \<longleftrightarrow> (\<forall>q \<in> set rs. \<not> route_matches d q)"
| "best_route uad d rs (Some r) \<longleftrightarrow> r \<in> set rs \<and> route_matches d r \<and> (\<forall>q \<in> set rs. route_matches d q \<longrightarrow>
     ro_netmask q < ro_netmask r \<or> ro_netmask q = ro_netmask r \<and>
     (if uad \<and> ro_adminDist q \<noteq> ro_adminDist r then ro_adminDist r < ro_adminDist q else ro_metric r \<le> ro_metric q))"

text \<open>Two networks with the same netmask that an address is in are the same.\<close>

lemma same_masked:
  assumes "getInt a AND NOT (getInt m) = 0" "getInt b AND NOT (getInt m) = 0" "maskedAddrAreEqual d a m" "maskedAddrAreEqual d b m"
  shows "a = b"
proof -
  have inside: "x = x AND y" if "x AND NOT y = 0" for x y :: "32 word"
    using that by (auto simp: bit_eq_iff bit_simps)
  have "getInt a = getInt b"
    using assms inside [of "getInt a" "getInt m"] inside [of "getInt b" "getInt m"] by (simp add: masked_eq doAnd_def)
  then show ?thesis by (simp add: IPv4Address.expand)
qed

lemma scan_is_best:
  assumes "rt_core uad T"
  shows "best_route uad d (rt_routes T) (scan_routes d T)"
proof (cases "scan_routes d T")
  case None
  then have "\<forall>q \<in> set (rt_routes T). \<not> route_matches d q"
    by (auto simp: scan_routes_def find_None_iff route_matches_def ro_isValid_def)
  then show ?thesis by (simp add: None)
next
  case (Some r)
  then have find: "find (\<lambda>e. route_matches d e) (rt_routes T) = Some r" by (simp add: scan_routes_def ro_isValid_def route_matches_def)
  then have r: "r \<in> set (rt_routes T)" "route_matches d r" by (auto simp: find_Some_iff)
  have "ro_netmask q < ro_netmask r \<or> ro_netmask q = ro_netmask r \<and>
     (if uad \<and> ro_adminDist q \<noteq> ro_adminDist r then ro_adminDist r < ro_adminDist q else ro_metric r \<le> ro_metric q)"
    if q: "q \<in> set (rt_routes T)" "route_matches d q" for q
  proof -
    have "\<not> routeLessThan uad q r"
      using unicast.first_is_least [of uad "rt_routes T" "route_matches d" r q] find q assms by (simp add: rt_core_def)
    moreover have "ro_netmask q = ro_netmask r \<longrightarrow> ro_dest q = ro_dest r"
      using same_masked [of "ro_dest q" "ro_netmask r" "ro_dest r" d] q r assms
      by (auto simp: rt_core_def route_ok_def route_matches_def)
    ultimately show ?thesis by (auto simp: routeLessThan_def split: if_splits)
  qed
  then show ?thesis using r by (simp add: Some)
qed

text \<open>
  C7: the best route is found.  In every state a routing table can reach, whatever routes and interfaces come and
  go and whatever has been asked before, the route found for a destination, in the cache or in the table,
  is a live route of the table that matches and has the longest netmask of those that match, and among
  those the least administrative distance and metric; no route is found only if none matches.  (Where
  administrative distances are used, none is changed in the table.)
\<close>

theorem routing_finds_best:
  assumes "list_all (keeps_order uad) ops" "run_result rt_exec ops (rt_empty fwd uad pat ies) = Inr T"
  shows "\<exists>r T'. findBestMatchingRoute d T = Inr (r, T') \<and> best_route uad d (rt_routes T) r \<and> rt_routes T' = rt_routes T"
proof -
  have inv: "rt_inv uad T" by (rule rt_run_inv [OF assms])
  then have "best_route uad d (rt_routes T) (scan_routes d T)" using scan_is_best by (simp add: rt_inv_def)
  then show ?thesis using find_known [OF inv, of d] by blast
qed

text \<open>Two routes to 10.0.0.0/8, the first direct and the second by a routing protocol.\<close>

definition route_a :: ipv4_route where
  "route_a = (new_route 0)\<lparr>ro_dest := IPv4Address 0x0A000000, ro_netmask := IPv4Address 0xFF000000,
     ro_interface := Some 1, ro_adminDist := 1\<rparr>"

definition route_b :: ipv4_route where
  "route_b = (new_route 1)\<lparr>ro_dest := IPv4Address 0x0A000000, ro_netmask := IPv4Address 0xFF000000,
     ro_interface := Some 2, ro_adminDist := 110\<rparr>"

lemma class_a_mask: "isValidNetmask (IPv4Address 0xFF000000)"
proof -
  have "makeNetmask 8 = Inr (IPv4Address 0xFF000000)"
    by (simp add: makeNetmask_def checkNetmaskLength_def make_netmask_def)
  then show ?thesis using isValidNetmask_iff by blast
qed

lemma adds_to_empty:
  assumes "isValidNetmask (ro_netmask e)" "getInt (ro_netmask e) \<noteq> 0" "getInt (ro_dest e) AND getInt (ro_netmask e) \<noteq> 0"
    "route_ok e" "ro_interface e \<noteq> None"
  shows "rt_exec (OpAdd e) T = Inr (rt_emit (RouteAdded (rt_fresh T)) (invalidateCache (insert_route (e\<lparr>ro_ptr := rt_fresh T\<rparr>)
      (T\<lparr>rt_fresh := Suc (rt_fresh T)\<rparr>))))"
  using assms by (simp add: addRoute_def internalAddRoute_def ip_isUnspecified_def route_ok_def)

lemma a_b_fields:
  "route_a\<lparr>ro_ptr := 0\<rparr> = route_a" "route_b\<lparr>ro_ptr := Suc 0\<rparr> = route_b" "route_ok route_a" "route_ok route_b"
  "ro_netmask route_a = IPv4Address 0xFF000000" "ro_netmask route_b = IPv4Address 0xFF000000"
  "ro_dest route_a = IPv4Address 0x0A000000" "ro_dest route_b = IPv4Address 0x0A000000"
  "ro_interface route_a = Some 1" "ro_interface route_b = Some 2" "\<not> routeLessThan uad route_b route_a"
  "ro_ptr route_a = 0" "ro_ptr route_b = 1" "ro_adminDist route_a = 1" "ro_adminDist route_b = 110"
  by (simp_all add: route_a_def route_b_def new_route_def route_ok_def routeLessThan_def)

lemma added_a_b:
  "run_result rt_exec [OpAdd route_a, OpAdd route_b] (rt_empty True uad (\<lambda>n. True) []) =
     Inr ((rt_empty True uad (\<lambda>n. True) [])\<lparr>rt_routes := [route_a, route_b], rt_fresh := 2, rt_signals := [RouteAdded 0, RouteAdded 1]\<rparr>)"
proof -
  have a: "rt_exec (OpAdd route_a) T = Inr (rt_emit (RouteAdded (rt_fresh T)) (invalidateCache (insert_route (route_a\<lparr>ro_ptr := rt_fresh T\<rparr>)
      (T\<lparr>rt_fresh := Suc (rt_fresh T)\<rparr>))))" for T
    by (rule adds_to_empty) (use class_a_mask in \<open>simp_all add: a_b_fields\<close>)
  have b: "rt_exec (OpAdd route_b) T = Inr (rt_emit (RouteAdded (rt_fresh T)) (invalidateCache (insert_route (route_b\<lparr>ro_ptr := rt_fresh T\<rparr>)
      (T\<lparr>rt_fresh := Suc (rt_fresh T)\<rparr>))))" for T
    by (rule adds_to_empty) (use class_a_mask in \<open>simp_all add: a_b_fields\<close>)
  show ?thesis
    by (simp add: a b a_b_fields insert_route_def invalidateCache_def rt_emit_def vector_insert_def
        upper_bound_short rt_empty_def numeral_2_eq_2 del: rt_exec.simps)
qed

theorem routing_finds_best_witness:
  "\<exists>T r T'. run_result rt_exec [OpAdd route_a, OpAdd route_b] (rt_empty True True (\<lambda>n. True) []) = Inr T
     \<and> findBestMatchingRoute (IPv4Address 0x0A010203) T = Inr (r, T') \<and> best_route True (IPv4Address 0x0A010203) (rt_routes T) r"
proof -
  have "list_all (keeps_order True) [OpAdd route_a, OpAdd route_b]" by simp
  from routing_finds_best [OF this added_a_b, of "IPv4Address 0x0A010203"] added_a_b [of True] show ?thesis by blast
qed

text \<open>
  C34: a changed administrative distance is not seen.  The table is ordered by the administrative distance, but a
  change of it does not move the route: after the distance of the better of two routes is raised above the
  other's, the raised one is still the route that is found.
\<close>

theorem adminDist_change_unseen:
  "\<exists>T r T'. run_result rt_exec [OpAdd route_a, OpAdd route_b, OpSetAdminDist 0 200] (rt_empty True True (\<lambda>n. True) []) = Inr T
     \<and> findBestMatchingRoute (IPv4Address 0x0A010203) T = Inr (Some r, T')
     \<and> ro_adminDist r = 200 \<and> \<not> best_route True (IPv4Address 0x0A010203) (rt_routes T) (Some r)"
proof -
  let ?T = "(rt_empty True True (\<lambda>n. True) [])\<lparr>rt_routes := [route_a, route_b], rt_fresh := 2, rt_signals := [RouteAdded 0, RouteAdded 1]\<rparr>"
  let ?a = "route_a\<lparr>ro_adminDist := 200\<rparr>"
  let ?T1 = "rt_emit (RouteChanged 0) (?T\<lparr>rt_routes := [?a, route_b]\<rparr>)"
  have set: "setAdminDist 0 200 ?T = Inr ?T1"
    by (simp add: setAdminDist_def update_route_def routeChanged_def a_b_fields)
  have split: "run_result rt_exec (xs @ ys) T = bind_result (run_result rt_exec xs T) (run_result rt_exec ys)" for xs ys T
    by (induction xs arbitrary: T) (auto simp: bind_result_def split: sum.split)
  have run: "run_result rt_exec ([OpAdd route_a, OpAdd route_b] @ [OpSetAdminDist 0 200]) (rt_empty True True (\<lambda>n. True) []) = Inr ?T1"
    unfolding split added_a_b using set by simp
  have m: "maskedAddrAreEqual (IPv4Address 0x0A010203) (IPv4Address 0x0A000000) (IPv4Address 0xFF000000)"
    by (simp add: maskedAddrAreEqual_def)
  then have "scan_routes (IPv4Address 0x0A010203) ?T1 = Some ?a"
    by (simp add: scan_routes_def rt_emit_def ro_isValid_def a_b_fields)
  then have "\<exists>T'. findBestMatchingRoute (IPv4Address 0x0A010203) ?T1 = Inr (Some ?a, T')"
    by (simp add: findBestMatchingRoute_def rt_emit_def rt_empty_def)
  moreover have "\<not> best_route True (IPv4Address 0x0A010203) (rt_routes ?T1) (Some ?a)"
    using m by (simp add: rt_emit_def route_matches_def a_b_fields)
  ultimately show ?thesis using run by fastforce
qed

text \<open>
  A deleted interface may stay local.  The cache of local addresses is cleared only if routes went with the
  interface: after an interface without routes is deleted, its address is still local for a node that had
  asked for local addresses before, and is not for a node that had not.
\<close>

definition sample_interface :: interface_entry where
  "sample_interface = \<lparr>if_ptr = 1, if_fullName = ''eth0'', if_loopback = False, if_broadcast = True, if_multicast = True,
     if_ipv4Data = Some \<lparr>id_inetAddr = IPv4Address 0x0A000001, id_netmask = IPv4Address 0xFFFFFFFF, id_metric = 1, id_joinedGroups = []\<rparr>\<rparr>"

theorem deleted_interface_stays_local:
  "\<exists>T1 T2 T3 T4. run_result rt_exec [OpIsLocal (IPv4Address 0x0A000001), OpDeleteInterface 1] (rt_empty True False (\<lambda>n. True) [sample_interface]) = Inr T1
     \<and> rt_ift T1 = [] \<and> isLocalAddress (IPv4Address 0x0A000001) T1 = Inr (True, T2)
     \<and> run_result rt_exec [OpDeleteInterface 1] (rt_empty True False (\<lambda>n. True) [sample_interface]) = Inr T3
     \<and> rt_ift T3 = [] \<and> isLocalAddress (IPv4Address 0x0A000001) T3 = Inr (False, T4)"
  by (simp add: rt_empty_def isLocalAddress_def sample_interface_def deleteInterfaceRoutes_def erase_routes_def Let_def)

section \<open>Multicast routes\<close>

definition mr_core :: "routing_table \<Rightarrow> bool" where
  "mr_core T \<longleftrightarrow> sorted_wrt (\<lambda>a b. \<not> multicastRouteLessThan b a) (rt_multicastRoutes T)"

definition mroute_ok :: "multicast_route \<Rightarrow> bool" where
  "mroute_ok r \<longleftrightarrow> getInt (mr_origin r) AND NOT (getInt (mr_originNetmask r)) = 0"

definition mr_inv :: "routing_table \<Rightarrow> bool" where
  "mr_inv T \<longleftrightarrow> mr_core T \<and> (\<forall>r \<in> set (rt_multicastRoutes T). mroute_ok r)"

text \<open>What is done to the multicast routes.\<close>

datatype mr_op = MAdd multicast_route | MRemove nat | MDelete nat | MDeleteInterface nat | MPurge

fun mr_exec :: "mr_op \<Rightarrow> routing_table \<Rightarrow> sim_error + routing_table" where
  "mr_exec (MAdd e) T = addMulticastRoute e T"
| "mr_exec (MRemove p) T = Inr (snd (removeMulticastRoute p T))"
| "mr_exec (MDelete p) T = Inr (snd (deleteMulticastRoute p T))"
| "mr_exec (MDeleteInterface k) T = Inr (deleteInterfaceRoutes k T)"
| "mr_exec MPurge T = Inr (purge T)"

lemma mr_inv_fields [simp]:
  "mr_inv (rt_emit s T) = mr_inv T" "mr_inv (invalidateCache T) = mr_inv T" "mr_inv (T\<lparr>rt_signals := x\<rparr>) = mr_inv T"
  "mr_inv (erase_routes P T) = mr_inv T"
  by (simp_all add: mr_inv_def mr_core_def rt_emit_def invalidateCache_def erase_routes_def)

lemma mr_inv_add:
  assumes "mr_inv T" "addMulticastRoute e T = Inr T'"
  shows "mr_inv T'"
proof -
  let ?b = "upper_bound (multicastRouteLessThan e) (rt_multicastRoutes T)"
  have "T' = rt_emit (MRouteAdded (mr_ptr e)) (invalidateCache (T\<lparr>rt_multicastRoutes := vector_insert ?b e (rt_multicastRoutes T)\<rparr>))" "mroute_ok e"
    using assms(2) by (auto simp: addMulticastRoute_def internalAddMulticastRoute_def bind_result_Inr_iff mroute_ok_def split: if_splits)
  moreover have "sorted_wrt (\<lambda>a b. \<not> multicastRouteLessThan b a) (vector_insert ?b e (rt_multicastRoutes T))"
    by (rule multicast.insert_in_order) (use assms(1) in \<open>simp add: mr_inv_def mr_core_def\<close>)
  ultimately show ?thesis using assms(1) by (simp add: mr_inv_def mr_core_def rt_emit_def invalidateCache_def)
qed

lemma mr_inv_remove: "mr_inv T \<Longrightarrow> mr_inv (snd (removeMulticastRoute p T))"
  using erase_first_sorted [of _ "rt_multicastRoutes T"] subsetD [OF set_erase_first_subset [of _ "rt_multicastRoutes T"]]
  by (auto simp: removeMulticastRoute_def internalRemoveMulticastRoute_def mr_inv_def mr_core_def rt_emit_def invalidateCache_def
      split: option.split)

text \<open>Losing an output interface changes neither the place nor the match of a route.\<close>

lemma drop_interface_keeps:
  assumes "sorted_wrt (\<lambda>a b. \<not> multicastRouteLessThan b a) rs" "\<forall>r \<in> set rs. mroute_ok r"
  shows "sorted_wrt (\<lambda>a b. \<not> multicastRouteLessThan b a) (fst (drop_interface_loop k rs))
     \<and> (\<forall>r \<in> set (fst (drop_interface_loop k rs)). mroute_ok r \<and> (\<exists>q \<in> set rs. \<exists>os. r = q\<lparr>mr_outInterfaces := os\<rparr>))"
  using assms
proof (induction rs)
  case (Cons r rs)
  have less: "multicastRouteLessThan (a\<lparr>mr_outInterfaces := x\<rparr>) (b\<lparr>mr_outInterfaces := y\<rparr>) = multicastRouteLessThan a b"
    "multicastRouteLessThan (a\<lparr>mr_outInterfaces := x\<rparr>) b = multicastRouteLessThan a b"
    "multicastRouteLessThan a (b\<lparr>mr_outInterfaces := y\<rparr>) = multicastRouteLessThan a b" for a b x y
    by (simp_all add: multicastRouteLessThan_def)
  have id: "\<exists>os. r = r\<lparr>mr_outInterfaces := os\<rparr>" for r :: multicast_route by (rule exI [of _ "mr_outInterfaces r"]) simp
  have ok: "mroute_ok (r\<lparr>mr_outInterfaces := os\<rparr>) = mroute_ok r" for os by (simp add: mroute_ok_def)
  have IH: "sorted_wrt (\<lambda>a b. \<not> multicastRouteLessThan b a) (fst (drop_interface_loop k rs))"
    "\<forall>r \<in> set (fst (drop_interface_loop k rs)). mroute_ok r \<and> (\<exists>q \<in> set rs. \<exists>os. r = q\<lparr>mr_outInterfaces := os\<rparr>)"
    using Cons by auto
  have "\<not> multicastRouteLessThan q r" if "q \<in> set (fst (drop_interface_loop k rs))" for q
    using IH(2) that Cons.prems(1) less(2) by fastforce
  moreover have "\<not> multicastRouteLessThan q (r\<lparr>mr_outInterfaces := os\<rparr>)" if "q \<in> set (fst (drop_interface_loop k rs))" for q os
    using calculation [OF that] by (simp add: less(3))
  ultimately show ?case using IH Cons.prems(2) id ok by (auto simp: Let_def case_prod_beta)
qed simp

interpretation mr_runs: fallible_component mr_exec mr_inv
proof unfold_locales
  fix T T' op
  assume inv: "mr_inv T" and run: "mr_exec op T = Inr T'"
  have del: "snd (deleteMulticastRoute p T) = snd (removeMulticastRoute p T)" for p by (simp add: deleteMulticastRoute_def case_prod_beta)
  have "mr_inv (deleteInterfaceRoutes k T)" for k
    using inv drop_interface_keeps [of "rt_multicastRoutes T" k]
    by (auto simp: deleteInterfaceRoutes_def Let_def case_prod_beta mr_inv_def mr_core_def erase_routes_def invalidateCache_def)
  moreover have "mr_inv (purge T)"
    using inv by (auto simp: purge_def Let_def mr_inv_def mr_core_def erase_routes_def invalidateCache_def sorted_wrt_filter)
  ultimately show "mr_inv T'" using run inv mr_inv_add mr_inv_remove del by (cases op) auto
qed

text \<open>
  C26: the best multicast route is found.  In every state reached by adding and removing multicast routes and
  interfaces, the route found for an origin and a group matches both and has the longest origin netmask of
  those that match; among those a route for the group comes before one for any group, and then the least
  metric decides.  No route is found only if none matches.
\<close>

theorem multicast_finds_best:
  assumes "run_result mr_exec ops (rt_empty fwd uad pat ies) = Inr T"
  shows "case findBestMatchingMulticastRoute origin grp T of
      None \<Rightarrow> \<forall>q \<in> set (rt_multicastRoutes T). \<not> mr_matches origin grp q
    | Some r \<Rightarrow> r \<in> set (rt_multicastRoutes T) \<and> mr_matches origin grp r \<and>
        (\<forall>q \<in> set (rt_multicastRoutes T). mr_matches origin grp q \<longrightarrow> mr_originNetmask q < mr_originNetmask r
           \<or> mr_originNetmask q = mr_originNetmask r \<and> (mr_group q < mr_group r \<or> mr_group q = mr_group r \<and> mr_metric r \<le> mr_metric q))"
proof -
  have "mr_inv (rt_empty fwd uad pat ies)" by (simp add: mr_inv_def mr_core_def rt_empty_def)
  then have inv: "mr_inv T" using mr_runs.run_keeps assms by blast
  show ?thesis
  proof (cases "findBestMatchingMulticastRoute origin grp T")
    case None
    then have "\<forall>q \<in> set (rt_multicastRoutes T). \<not> mr_matches origin grp q"
      by (auto simp: findBestMatchingMulticastRoute_def find_None_iff mr_isValid_def)
    then show ?thesis by (simp add: None)
  next
    case (Some r)
    then have find: "find (mr_matches origin grp) (rt_multicastRoutes T) = Some r"
      by (simp add: findBestMatchingMulticastRoute_def mr_isValid_def)
    then have r: "r \<in> set (rt_multicastRoutes T)" "mr_matches origin grp r" by (auto simp: find_Some_iff)
    have "mr_originNetmask q < mr_originNetmask r
       \<or> mr_originNetmask q = mr_originNetmask r \<and> (mr_group q < mr_group r \<or> mr_group q = mr_group r \<and> mr_metric r \<le> mr_metric q)"
      if q: "q \<in> set (rt_multicastRoutes T)" "mr_matches origin grp q" for q
    proof -
      have "\<not> multicastRouteLessThan q r"
        using multicast.first_is_least [of "rt_multicastRoutes T" "mr_matches origin grp" r q] find q inv
        by (simp add: mr_inv_def mr_core_def)
      moreover have "mr_origin q = mr_origin r" if "mr_originNetmask q = mr_originNetmask r"
        by (rule same_masked [of _ "mr_originNetmask r" _ origin])
          (use inv q r that in \<open>auto simp: mr_inv_def mroute_ok_def mr_matches_def\<close>)
      ultimately show ?thesis by (auto simp: multicastRouteLessThan_def split: if_splits)
    qed
    then show ?thesis using r by (simp add: Some)
  qed
qed

theorem multicast_finds_best_witness:
  "\<exists>T r. run_result mr_exec [MAdd \<lparr>mr_ptr = 0, mr_origin = IPv4Address 0x0A000000, mr_originNetmask = IPv4Address 0xFF000000,
       mr_group = IPv4Address 0xE0000009, mr_inInterface = None, mr_outInterfaces = [], mr_metric = 3\<rparr>] (rt_empty True False (\<lambda>n. True) []) = Inr T
     \<and> findBestMatchingMulticastRoute (IPv4Address 0x0A010203) (IPv4Address 0xE0000009) T = Some r
     \<and> r \<in> set (rt_multicastRoutes T) \<and> mr_metric r = 3"
proof -
  let ?r = "\<lparr>mr_ptr = 0, mr_origin = IPv4Address 0x0A000000, mr_originNetmask = IPv4Address 0xFF000000,
       mr_group = IPv4Address 0xE0000009, mr_inInterface = None, mr_outInterfaces = [], mr_metric = 3\<rparr>"
  obtain T where T: "run_result mr_exec [MAdd ?r] (rt_empty True False (\<lambda>n. True) []) = Inr T" "rt_multicastRoutes T = [?r]"
    using class_a_mask
    by (simp add: addMulticastRoute_def internalAddMulticastRoute_def ip_isMulticast_def rt_empty_def upper_bound_short vector_insert_def
        rt_emit_def invalidateCache_def)
  have "findBestMatchingMulticastRoute (IPv4Address 0x0A010203) (IPv4Address 0xE0000009) T = Some ?r"
    by (simp add: findBestMatchingMulticastRoute_def T(2) mr_isValid_def mr_matches_def maskedAddrAreEqual_def)
  with multicast_finds_best [OF T(1), of "IPv4Address 0x0A010203" "IPv4Address 0xE0000009"] T show ?thesis by force
qed

end
