(* ===== verification/ArpCache.thy ===== *)
theory ArpCache
  imports Ipv4RoutingTable MacAddresses "HOL-Library.AList"
begin

text \<open>
  The ARP module, \<^verbatim>\<open>networklayer/arp/ipv4/ARP.{h,cc}\<close> and \<^verbatim>\<open>ARPPacket.msg\<close>: the cache of MAC addresses, the
  resolution of an address with its retries, and the answers to the requests of others.  The cache, a
  \<^verbatim>\<open>std::map\<close>, is an association list in the order of the keys; an entry never changes its key, so the key
  stands for the pointer to the entry in a timer and in \<open>myIter\<close>.  The self messages that are scheduled are
  in \<open>arp_scheduled\<close>, with their arrival times and the entries they point to; the packets sent to the network
  protocol and the signals are collected in \<open>arp_out\<close> and \<open>arp_signals\<close>.  The routing table and the
  interface table are the ones of the node.
\<close>

section \<open>Interfaces and addresses\<close>

text \<open>A network interface: the part the routing table reads, its id, MAC address and gate.\<close>

record nic = interface_entry +
  nic_id :: int
  nic_mac :: MACAddress
  nic_gate :: int

definition INTERFACEIDS_START :: int where
  "INTERFACEIDS_START = 100"

text \<open>The table by id, with a null pointer in the place of a deleted interface.  A pointer is an \<open>if_ptr\<close>.\<close>

type_synonym id_table = "nic option list"

definition getInterfaceById :: "int \<Rightarrow> id_table \<Rightarrow> nat option" where
  "getInterfaceById i ift =
     (let k = i - INTERFACEIDS_START in
      if k < 0 \<or> int (length ift) \<le> k then None else map_option if_ptr (ift ! nat k))"

definition deref_nic :: "nat option \<Rightarrow> id_table \<Rightarrow> sim_error + nic" where
  "deref_nic p ift = (case p of None \<Rightarrow> Inl (UndefinedBehaviour ''null pointer'')
     | Some q \<Rightarrow> (case find (\<lambda>n. if_ptr n = q) (List.map_filter id ift) of
         None \<Rightarrow> Inl (UndefinedBehaviour ''use of a deleted interface'') | Some n \<Rightarrow> Inr n))"

definition nic_ipv4Data :: "nic \<Rightarrow> sim_error + ipv4_data" where
  "nic_ipv4Data n = (case if_ipv4Data n of None \<Rightarrow> Inl (UndefinedBehaviour ''null pointer'') | Some d \<Rightarrow> Inr d)"

text \<open>An \<^verbatim>\<open>L3Address\<close>, as far as the conversion to IPv4 looks at it.\<close>

datatype L3Address = L3_NONE | L3_IPv4 IPv4Address | L3_other

definition toIPv4 :: "L3Address \<Rightarrow> sim_error + IPv4Address" where
  "toIPv4 a = (case a of L3_NONE \<Rightarrow> Inr unspecified_ip | L3_IPv4 ip \<Rightarrow> Inr ip
     | L3_other \<Rightarrow> Inl (RuntimeError ''Address is not of the given type''))"

section \<open>The module\<close>

definition ARP_REQUEST :: int where "ARP_REQUEST = 1"
definition ARP_REPLY :: int where "ARP_REPLY = 2"
definition ARP_RARP_REQUEST :: int where "ARP_RARP_REQUEST = 3"
definition ARP_RARP_REPLY :: int where "ARP_RARP_REPLY = 4"
definition ARP_HEADER_BYTES :: int where "ARP_HEADER_BYTES = 28"
definition ETHERTYPE_ARP :: int where "ETHERTYPE_ARP = 0x0806"

lemmas arp_opcodes = ARP_REQUEST_def ARP_REPLY_def ARP_RARP_REQUEST_def ARP_RARP_REPLY_def

record arp_packet =
  ap_name :: string
  ap_byteLength :: int
  ap_opcode :: int
  ap_srcMAC :: MACAddress
  ap_destMAC :: MACAddress
  ap_srcIP :: IPv4Address
  ap_destIP :: IPv4Address

record arp_entry =
  en_ie :: "nat option"
  en_pending :: bool
  en_mac :: MACAddress
  en_lastUpdate :: simtime
  en_numRetries :: int
  en_timer :: "nat option"

definition new_entry :: "nat option \<Rightarrow> arp_entry" where
  "new_entry ie = \<lparr>en_ie = ie, en_pending = False, en_mac = UNSPECIFIED_ADDRESS, en_lastUpdate = 0,
     en_numRetries = 0, en_timer = None\<rparr>"

type_synonym arp_cache = "(IPv4Address \<times> arp_entry) list"

text \<open>A packet with its \<^verbatim>\<open>Ieee802Ctrl\<close>.\<close>

record arp_frame =
  fr_packet :: arp_packet
  fr_dest :: MACAddress
  fr_etherType :: int
  fr_interfaceId :: int

datatype arp_signal =
    InitiatedResolution IPv4Address MACAddress "nat option"
  | CompletedResolution IPv4Address MACAddress "nat option"
  | FailedResolution IPv4Address MACAddress "nat option"

record arp =
  arp_retryTimeout :: simtime
  arp_retryCount :: int
  arp_cacheTimeout :: simtime
  arp_respondToProxyARP :: bool
  arp_isUp :: bool
  arp_numResolutions :: int
  arp_numFailedResolutions :: int
  arp_numRequestsSent :: int
  arp_numRepliesSent :: int
  arp_cache :: arp_cache
  arp_ift :: id_table
  arp_rt :: routing_table
  arp_scheduled :: "(nat \<times> simtime \<times> IPv4Address) list"
  arp_fresh :: nat
  arp_out :: "arp_frame list"
  arp_signals :: "arp_signal list"

definition arp_initialize :: "simtime \<Rightarrow> int \<Rightarrow> simtime \<Rightarrow> bool \<Rightarrow> bool \<Rightarrow> id_table \<Rightarrow> routing_table \<Rightarrow> arp" where
  "arp_initialize retryTimeout retryCount cacheTimeout respondToProxyARP isNodeUp ift rt =
     \<lparr>arp_retryTimeout = retryTimeout, arp_retryCount = retryCount, arp_cacheTimeout = cacheTimeout,
      arp_respondToProxyARP = respondToProxyARP, arp_isUp = isNodeUp, arp_numResolutions = 0,
      arp_numFailedResolutions = 0, arp_numRequestsSent = 0, arp_numRepliesSent = 0, arp_cache = [],
      arp_ift = ift, arp_rt = rt, arp_scheduled = [], arp_fresh = 0, arp_out = [], arp_signals = []\<rparr>"

section \<open>The cache\<close>

text \<open>\<^verbatim>\<open>std::map::insert\<close>, which keeps an element that is there.\<close>

fun cache_insert :: "IPv4Address \<Rightarrow> arp_entry \<Rightarrow> arp_cache \<Rightarrow> arp_cache" where
  "cache_insert ip e [] = [(ip, e)]"
| "cache_insert ip e ((ip', e') # c) =
     (if ip < ip' then (ip, e) # (ip', e') # c
      else if ip = ip' then (ip', e') # c
      else (ip', e') # cache_insert ip e c)"

definition insert_entry :: "IPv4Address \<Rightarrow> arp_entry \<Rightarrow> arp \<Rightarrow> arp" where
  "insert_entry ip e A = A\<lparr>arp_cache := cache_insert ip e (arp_cache A)\<rparr>"

text \<open>Reading and changing an entry through its pointer.\<close>

definition deref_entry :: "IPv4Address \<Rightarrow> arp \<Rightarrow> sim_error + arp_entry" where
  "deref_entry ip A = (case map_of (arp_cache A) ip of
     None \<Rightarrow> Inl (UndefinedBehaviour ''use of a deleted entry'') | Some e \<Rightarrow> Inr e)"

definition put_entry :: "IPv4Address \<Rightarrow> arp_entry \<Rightarrow> arp \<Rightarrow> arp" where
  "put_entry ip e A = A\<lparr>arp_cache := AList.map_entry ip (\<lambda>_. e) (arp_cache A)\<rparr>"

definition arp_emit :: "arp_signal \<Rightarrow> arp \<Rightarrow> arp" where
  "arp_emit s A = A\<lparr>arp_signals := arp_signals A @ [s]\<rparr>"

text \<open>Scheduling a self message, and taking one back.\<close>

definition arp_scheduleAt :: "simtime \<Rightarrow> simtime \<Rightarrow> nat \<Rightarrow> IPv4Address \<Rightarrow> arp \<Rightarrow> sim_error + arp" where
  "arp_scheduleAt now t m ip A =
     (if t < now then Inl (RuntimeError ''scheduleAt(): cannot schedule message to the past'')
      else if m \<in> set (map fst (arp_scheduled A)) then Inl (RuntimeError ''scheduleAt(): message is already scheduled'')
      else Inr (A\<lparr>arp_scheduled := arp_scheduled A @ [(m, t, ip)]\<rparr>))"

definition arp_cancelEvent :: "nat option \<Rightarrow> arp \<Rightarrow> sim_error + arp" where
  "arp_cancelEvent t A = (case t of None \<Rightarrow> Inl (RuntimeError ''cancelEvent(): null message'')
     | Some m \<Rightarrow> Inr (A\<lparr>arp_scheduled := AList.delete m (arp_scheduled A)\<rparr>))"

section \<open>Sending\<close>

definition arp_sendPacketToNIC :: "arp_packet \<Rightarrow> nat option \<Rightarrow> MACAddress \<Rightarrow> int \<Rightarrow> arp \<Rightarrow> sim_error + arp" where
  "arp_sendPacketToNIC p ie mac etherType A =
     bind_result (deref_nic ie (arp_ift A)) (\<lambda>n.
       Inr (A\<lparr>arp_out := arp_out A @ [\<lparr>fr_packet = p, fr_dest = mac, fr_etherType = etherType, fr_interfaceId = nic_id n\<rparr>]\<rparr>))"

definition sendARPRequest :: "nat option \<Rightarrow> IPv4Address \<Rightarrow> arp \<Rightarrow> sim_error + arp" where
  "sendARPRequest ie ip A =
     bind_result (deref_nic ie (arp_ift A)) (\<lambda>n.
     bind_result (nic_ipv4Data n) (\<lambda>d.
     bind_result (assert_that (\<not> isUnspecified (nic_mac n)) ''!myMACAddress.isUnspecified()'') (\<lambda>_.
     bind_result (assert_that (\<not> ip_isUnspecified (id_inetAddr d)) ''!myIPAddress.isUnspecified()'') (\<lambda>_.
     bind_result (arp_sendPacketToNIC
         \<lparr>ap_name = ''arpREQ'', ap_byteLength = ARP_HEADER_BYTES, ap_opcode = ARP_REQUEST, ap_srcMAC = nic_mac n,
          ap_destMAC = UNSPECIFIED_ADDRESS, ap_srcIP = id_inetAddr d, ap_destIP = ip\<rparr>
         ie BROADCAST_ADDRESS ETHERTYPE_ARP A) (\<lambda>A.
       Inr (A\<lparr>arp_numRequestsSent := arp_numRequestsSent A + 1\<rparr>))))))"

section \<open>Resolution\<close>

definition initiateARPResolution :: "simtime \<Rightarrow> IPv4Address \<Rightarrow> arp \<Rightarrow> sim_error + arp" where
  "initiateARPResolution now ip A =
     bind_result (deref_entry ip A) (\<lambda>e.
       let e = e\<lparr>en_pending := True, en_numRetries := 0, en_lastUpdate := 0, en_mac := UNSPECIFIED_ADDRESS\<rparr> in
       bind_result (sendARPRequest (en_ie e) ip (put_entry ip e A)) (\<lambda>A.
         let m = arp_fresh A;
             A = put_entry ip (e\<lparr>en_timer := Some m\<rparr>) (A\<lparr>arp_fresh := m + 1\<rparr>) in
         bind_result (arp_scheduleAt now (now + arp_retryTimeout A) m ip A) (\<lambda>A.
           Inr (arp_emit (InitiatedResolution ip UNSPECIFIED_ADDRESS (en_ie e))
                 (A\<lparr>arp_numResolutions := arp_numResolutions A + 1\<rparr>)))))"

text \<open>The self message has left the schedule when the module gets it.\<close>

definition requestTimedOut :: "simtime \<Rightarrow> nat \<Rightarrow> IPv4Address \<Rightarrow> arp \<Rightarrow> sim_error + arp" where
  "requestTimedOut now m ip A =
     bind_result (deref_entry ip A) (\<lambda>e.
       let e = e\<lparr>en_numRetries := en_numRetries e + 1\<rparr>;
           A = put_entry ip e A in
       if en_numRetries e < arp_retryCount A then
         bind_result (sendARPRequest (en_ie e) ip A) (\<lambda>A. arp_scheduleAt now (now + arp_retryTimeout A) m ip A)
       else
         (let A = arp_emit (FailedResolution ip UNSPECIFIED_ADDRESS (en_ie e)) A in
          Inr (A\<lparr>arp_cache := AList.delete ip (arp_cache A), arp_numFailedResolutions := arp_numFailedResolutions A + 1\<rparr>)))"

definition updateARPCache :: "simtime \<Rightarrow> IPv4Address \<Rightarrow> MACAddress \<Rightarrow> arp \<Rightarrow> sim_error + arp" where
  "updateARPCache now ip mac A =
     bind_result (deref_entry ip A) (\<lambda>e.
     bind_result (if en_pending e then
         bind_result (arp_cancelEvent (en_timer e) A) (\<lambda>A.
           Inr (e\<lparr>en_pending := False, en_timer := None, en_numRetries := 0\<rparr>, A))
       else Inr (e, A)) (\<lambda>(e, A).
     let e = e\<lparr>en_mac := mac, en_lastUpdate := now\<rparr> in
     Inr (arp_emit (CompletedResolution ip mac (en_ie e)) (put_entry ip e A))))"

definition arp_addressRecognized :: "IPv4Address \<Rightarrow> nat option \<Rightarrow> arp \<Rightarrow> sim_error + bool \<times> arp" where
  "arp_addressRecognized dest ie A =
     bind_result (isLocalAddress dest (arp_rt A)) (\<lambda>(local, rt).
       let A = A\<lparr>arp_rt := rt\<rparr> in
       if local then Inr (True, A)
       else if arp_respondToProxyARP A then
         bind_result (getInterfaceForDestAddr dest (arp_rt A)) (\<lambda>(rtie, rt).
           Inr (rtie \<noteq> None \<and> rtie \<noteq> ie, A\<lparr>arp_rt := rt\<rparr>))
       else Inr (False, A))"

section \<open>Packets\<close>

definition arp_answer :: "arp_packet \<Rightarrow> nat option \<Rightarrow> arp \<Rightarrow> sim_error + arp" where
  "arp_answer p ie A =
     (if ap_opcode p = ARP_REQUEST then
        bind_result (deref_nic ie (arp_ift A)) (\<lambda>n.
        bind_result (nic_ipv4Data n) (\<lambda>d.
        bind_result (arp_sendPacketToNIC
            (p\<lparr>ap_name := ''arpREPLY'', ap_destIP := ap_srcIP p, ap_destMAC := ap_srcMAC p, ap_srcIP := ap_destIP p,
               ap_srcMAC := nic_mac n, ap_opcode := ARP_REPLY\<rparr>) ie (ap_srcMAC p) ETHERTYPE_ARP A) (\<lambda>A.
          Inr (A\<lparr>arp_numRepliesSent := arp_numRepliesSent A + 1\<rparr>))))
      else if ap_opcode p = ARP_REPLY then Inr A
      else if ap_opcode p = ARP_RARP_REQUEST then Inl (RuntimeError ''RARP request received: RARP is not supported'')
      else if ap_opcode p = ARP_RARP_REPLY then Inl (RuntimeError ''RARP reply received: RARP is not supported'')
      else Inl (RuntimeError ''Unsupported opcode in received ARP packet''))"

definition processARPPacket :: "simtime \<Rightarrow> arp_packet \<Rightarrow> int option \<Rightarrow> arp \<Rightarrow> sim_error + arp" where
  "processARPPacket now p ctrl A =
     (case ctrl of
        None \<Rightarrow> Inl (RuntimeError ''check_and_cast(): cannot cast nullptr to IMACProtocolControlInfo'')
      | Some i \<Rightarrow>
          (let ie = getInterfaceById i (arp_ift A);
               mac = ap_srcMAC p;
               ip = ap_srcIP p in
           if isUnspecified mac then Inl (RuntimeError ''wrong ARP packet: source MAC address is empty'')
           else if ip_isUnspecified ip then Inl (RuntimeError ''wrong ARP packet: source IPv4 address is empty'')
           else
             let mergeFlag = (map_of (arp_cache A) ip \<noteq> None) in
             bind_result (if mergeFlag then updateARPCache now ip mac A else Inr A) (\<lambda>A.
             bind_result (arp_addressRecognized (ap_destIP p) ie A) (\<lambda>(recognized, A).
               if recognized then
                 bind_result (if mergeFlag then Inr A
                              else updateARPCache now ip mac (insert_entry ip (new_entry ie) A)) (\<lambda>A.
                   arp_answer p ie A)
               else Inr A))))"

datatype arp_message = SelfMessage nat IPv4Address | ArpMessage arp_packet "int option" | OtherMessage

definition arp_handleMessageWhenDown :: "arp_message \<Rightarrow> arp \<Rightarrow> sim_error + arp" where
  "arp_handleMessageWhenDown msg A = (case msg of
     SelfMessage m ip \<Rightarrow> Inl (RuntimeError ''Model error: self msg received when protocol is down'') | _ \<Rightarrow> Inr A)"

definition arp_handleMessage :: "simtime \<Rightarrow> arp_message \<Rightarrow> arp \<Rightarrow> sim_error + arp" where
  "arp_handleMessage now msg A =
     (if \<not> arp_isUp A then arp_handleMessageWhenDown msg A
      else case msg of
        SelfMessage m ip \<Rightarrow> requestTimedOut now m ip A
      | ArpMessage p ctrl \<Rightarrow> processARPPacket now p ctrl A
      | OtherMessage \<Rightarrow> Inl (RuntimeError ''check_and_cast(): cannot cast to ARPPacket''))"

section \<open>Start and stop\<close>

text \<open>\<open>cancelAndDelete\<close> of the timer of every entry; a null timer is ignored.\<close>

definition arp_flush :: "arp \<Rightarrow> arp" where
  "arp_flush A =
     (let timers = map (\<lambda>(ip, e). en_timer e) (arp_cache A) in
      A\<lparr>arp_cache := [], arp_scheduled := filter (\<lambda>(m, t). Some m \<notin> set timers) (arp_scheduled A)\<rparr>)"

definition arp_start :: "arp \<Rightarrow> sim_error + arp" where
  "arp_start A = bind_result (assert_that (arp_cache A = []) ''arpCache.empty()'') (\<lambda>_. Inr (A\<lparr>arp_isUp := True\<rparr>))"

definition arp_stop :: "arp \<Rightarrow> arp" where
  "arp_stop A = arp_flush (A\<lparr>arp_isUp := False\<rparr>)"

text \<open>
  The stages: \<^verbatim>\<open>NodeStartOperation::STAGE_NETWORK_LAYER\<close> is 3, \<^verbatim>\<open>NodeShutdownOperation::STAGE_NETWORK_LAYER\<close>
  is 4 and \<^verbatim>\<open>NodeCrashOperation::STAGE_CRASH\<close> is 0.
\<close>

definition arp_handleOperationStage :: "lifecycle_operation \<Rightarrow> int \<Rightarrow> arp \<Rightarrow> sim_error + arp" where
  "arp_handleOperationStage operation stage A = (case operation of
     NodeStart \<Rightarrow> if stage = 3 then arp_start A else Inr A
   | NodeShutdown \<Rightarrow> Inr (if stage = 4 then arp_stop A else A)
   | NodeCrash \<Rightarrow> Inr (if stage = 0 then arp_stop A else A)
   | OtherOperation \<Rightarrow> Inl (RuntimeError ''Unsupported operation''))"

section \<open>Queries\<close>

definition resolveL3Address :: "simtime \<Rightarrow> L3Address \<Rightarrow> nat option \<Rightarrow> arp \<Rightarrow> sim_error + MACAddress \<times> arp" where
  "resolveL3Address now addr ie A =
     bind_result (toIPv4 addr) (\<lambda>ip.
       case map_of (arp_cache A) ip of
         None \<Rightarrow>
           map_sum id (Pair UNSPECIFIED_ADDRESS) (initiateARPResolution now ip (insert_entry ip (new_entry ie) A))
       | Some e \<Rightarrow>
           if en_pending e then Inr (UNSPECIFIED_ADDRESS, A)
           else if now \<le> en_lastUpdate e + arp_cacheTimeout A then Inr (en_mac e, A)
           else map_sum id (Pair UNSPECIFIED_ADDRESS) (initiateARPResolution now ip (put_entry ip (e\<lparr>en_ie := ie\<rparr>) A)))"

definition getL3AddressFor :: "simtime \<Rightarrow> MACAddress \<Rightarrow> arp \<Rightarrow> IPv4Address" where
  "getL3AddressFor now mac A =
     (if isUnspecified mac then unspecified_ip
      else case find (\<lambda>(ip, e). en_mac e = mac \<and> now \<le> en_lastUpdate e + arp_cacheTimeout A) (arp_cache A) of
             None \<Rightarrow> unspecified_ip | Some (ip, e) \<Rightarrow> ip)"

end
