(* ===== verification/ArpRuns.thy ===== *)
theory ArpRuns
  imports ArpCache Ipv4RoutingProperties
begin

text \<open>
  The ARP module at work.  The invariant: the cache is in order, an entry waits exactly while it has a timer,
  and the self messages that are scheduled are exactly these timers.  The history of a module is what it
  heard from each address; the main theorems say that the module never raises, that it answers only with what
  was heard last and is fresh, and that a resolution that nobody answers ends after the configured number of requests.
\<close>

section \<open>The cache as a map\<close>

abbreviation in_key_order :: "arp_cache \<Rightarrow> bool" where
  "in_key_order c \<equiv> sorted_wrt (<) (map fst c)"

lemma key_order_distinct: "in_key_order c \<Longrightarrow> distinct (map fst c)"
  by (simp add: strict_sorted_iff)

lemma set_cache_insert: "set (map fst (cache_insert ip e c)) = insert ip (set (map fst c))"
proof (induction c)
  case (Cons x c)
  then show ?case by (cases x) (simp add: insert_commute)
qed simp

lemma cache_insert_order: "in_key_order c \<Longrightarrow> in_key_order (cache_insert ip e c)"
proof (induction c)
  case (Cons x c)
  then show ?case using set_cache_insert [of ip e c] by (cases x) (auto simp del: set_map)
qed simp

lemma map_of_above: "(\<And>k. k \<in> set (map fst c) \<Longrightarrow> ip < k) \<Longrightarrow> map_of c (ip :: IPv4Address) = None"
  by (auto simp: map_of_eq_None_iff)

lemma map_of_cache_insert:
  assumes "in_key_order c" "map_of c ip = None"
  shows "map_of (cache_insert ip e c) = (map_of c)(ip \<mapsto> e)"
  using assms by (induction c) (auto split: if_splits)

lemma delete_cache_insert:
  assumes "map_of c ip = None"
  shows "AList.delete ip (cache_insert ip e c) = c"
proof -
  have absent: "ip \<notin> fst ` set c" using assms by (simp add: map_of_eq_None_iff)
  then show ?thesis by (induction c) (auto simp: AList.delete_eq intro!: filter_True, force)
qed

lemma map_entry_insert_same:
  assumes "map_of c ip = None"
  shows "AList.map_entry ip (\<lambda>_. e') (cache_insert ip e c) = cache_insert ip e' c"
  using assms by (induction c) (auto split: if_splits)

lemma keys_map_entry [simp]: "map fst (AList.map_entry k f c) = map fst c"
  by (induction c) auto

lemma map_of_set_entry: "map_of c k = Some e0 \<Longrightarrow> map_of (AList.map_entry k (\<lambda>_. e) c) = (map_of c)(k \<mapsto> e)"
  by (induction c) (auto split: if_splits)

lemma keys_delete: "in_key_order c \<Longrightarrow> in_key_order (AList.delete k c)"
  by (induction c) (auto simp: AList.delete_eq image_iff)

section \<open>The timers\<close>

text \<open>
  The timer of the entry of an address, if there is one.  The schedule holds these timers and nothing else.
\<close>

definition entry_timer_at :: "(IPv4Address \<rightharpoonup> arp_entry) \<Rightarrow> IPv4Address \<rightharpoonup> nat" where
  "entry_timer_at M ip = Option.bind (M ip) en_timer"

lemma entry_timer_at_update [simp]:
  "entry_timer_at (M(ip := x)) = (entry_timer_at M)(ip := Option.bind x en_timer)"
  by (auto simp: entry_timer_at_def)

definition schedule_ok :: "(IPv4Address \<rightharpoonup> nat) \<Rightarrow> (nat \<times> simtime \<times> IPv4Address) list \<Rightarrow> nat \<Rightarrow> bool" where
  "schedule_ok T S n \<longleftrightarrow> distinct (map fst S)
     \<and> (\<forall>m t ip. (m, t, ip) \<in> set S \<longrightarrow> m < n \<and> T ip = Some m)
     \<and> (\<forall>ip m. T ip = Some m \<longrightarrow> (\<exists>t. (m, t, ip) \<in> set S))"

lemma schedule_okI:
  assumes "distinct (map fst S)" "\<And>m t ip. (m, t, ip) \<in> set S \<Longrightarrow> m < n \<and> T ip = Some m"
    and "\<And>ip m. T ip = Some m \<Longrightarrow> \<exists>t. (m, t, ip) \<in> set S"
  shows "schedule_ok T S n"
  using assms unfolding schedule_ok_def by blast

lemma schedule_okD:
  assumes "schedule_ok T S n"
  shows "distinct (map fst S)" "(m, t, ip) \<in> set S \<Longrightarrow> m < n" "(m, t, ip) \<in> set S \<Longrightarrow> T ip = Some m"
    "T ip = Some m \<Longrightarrow> \<exists>t. (m, t, ip) \<in> set S"
  using assms unfolding schedule_ok_def by blast+

lemma timers_unique:
  assumes "schedule_ok T S n" "T ip = Some m" "T ip' = Some m"
  shows "ip' = ip"
proof -
  from assms obtain t t' where "(m, t, ip) \<in> set S" "(m, t', ip') \<in> set S" unfolding schedule_ok_def by blast
  moreover have "distinct (map fst S)" using assms(1) by (simp add: schedule_ok_def)
  ultimately show ?thesis by (meson Pair_inject eq_key_imp_eq_value)
qed

lemma set_delete: "x \<in> set (AList.delete m S) \<longleftrightarrow> x \<in> set S \<and> fst x \<noteq> m"
  by (auto simp: AList.delete_eq)

lemma timers_start:
  assumes "schedule_ok T S n" "T ip = None"
  shows "schedule_ok (T(ip \<mapsto> n)) (S @ [(n, t, ip)]) (Suc n)"
proof (rule schedule_okI)
  have "n \<notin> fst ` set S" using schedule_okD(2) [OF assms(1)] by fastforce
  then show "distinct (map fst (S @ [(n, t, ip)]))" using schedule_okD(1) [OF assms(1)] by simp
next
  fix m t' ip' assume "(m, t', ip') \<in> set (S @ [(n, t, ip)])"
  then show "m < Suc n \<and> (T(ip \<mapsto> n)) ip' = Some m"
    using schedule_okD(2,3) [OF assms(1), of m t' ip'] assms(2) by auto
next
  fix ip' m assume "(T(ip \<mapsto> n)) ip' = Some m"
  then show "\<exists>t'. (m, t', ip') \<in> set (S @ [(n, t, ip)])"
    using schedule_okD(4) [OF assms(1), of ip' m] by (auto split: if_splits)
qed

lemma timers_stop:
  assumes "schedule_ok T S n" "T ip = Some m"
  shows "schedule_ok (T(ip := None)) (AList.delete m S) n"
proof (rule schedule_okI)
  show "distinct (map fst (AList.delete m S))" using schedule_okD(1) [OF assms(1)] by (rule AList.distinct_delete)
next
  fix m' t ip' assume "(m', t, ip') \<in> set (AList.delete m S)"
  then have "(m', t, ip') \<in> set S" "m' \<noteq> m" by (auto simp: set_delete)
  then show "m' < n \<and> (T(ip := None)) ip' = Some m'"
    using schedule_okD(2,3) [OF assms(1), of m' t ip'] assms(2) by auto
next
  fix ip' m' assume T: "(T(ip := None)) ip' = Some m'"
  then have "ip' \<noteq> ip" "T ip' = Some m'" by (auto split: if_splits)
  then have "m' \<noteq> m" using timers_unique [OF assms, of ip'] by auto
  then show "\<exists>t. (m', t, ip') \<in> set (AList.delete m S)"
    using schedule_okD(4) [OF assms(1) \<open>T ip' = Some m'\<close>] by (auto simp: set_delete)
qed

lemma timers_again:
  assumes "schedule_ok T S n" "T ip = Some m"
  shows "schedule_ok T (AList.delete m S @ [(m, t, ip)]) n"
proof (rule schedule_okI)
  have stop: "schedule_ok (T(ip := None)) (AList.delete m S) n" by (rule timers_stop [OF assms])
  have "m \<notin> fst ` set (AList.delete m S)" by (auto simp: set_delete)
  then show "distinct (map fst (AList.delete m S @ [(m, t, ip)]))" using schedule_okD(1) [OF stop] by simp
next
  fix m' t' ip' assume "(m', t', ip') \<in> set (AList.delete m S @ [(m, t, ip)])"
  moreover obtain t0 where "(m, t0, ip) \<in> set S" using schedule_okD(4) [OF assms] by blast
  ultimately show "m' < n \<and> T ip' = Some m'"
    using schedule_okD(2,3) [OF assms(1), of m' t' ip'] schedule_okD(2) [OF assms(1), of m t0 ip] assms(2) by (auto simp: set_delete)
next
  fix ip' m' assume "T ip' = Some m'"
  then show "\<exists>t'. (m', t', ip') \<in> set (AList.delete m S @ [(m, t, ip)])"
    using schedule_okD(4) [OF assms(1), of ip' m'] timers_unique [OF assms, of ip'] by (cases "m' = m") (auto simp: set_delete)
qed

section \<open>What the operations do\<close>

text \<open>An interface that ARP requests can be sent from: it exists, and has a MAC address and an IPv4 address.\<close>

definition nic_ready :: "id_table \<Rightarrow> nat option \<Rightarrow> bool" where
  "nic_ready ift p \<longleftrightarrow> (case deref_nic p ift of Inl _ \<Rightarrow> False
     | Inr n \<Rightarrow> (case if_ipv4Data n of None \<Rightarrow> False
         | Some d \<Rightarrow> \<not> isUnspecified (nic_mac n) \<and> \<not> ip_isUnspecified (id_inetAddr d)))"

lemma nic_readyE:
  assumes "nic_ready ift p"
  obtains n d where "deref_nic p ift = Inr n" "if_ipv4Data n = Some d" "\<not> isUnspecified (nic_mac n)"
    "\<not> ip_isUnspecified (id_inetAddr d)"
  using assms by (auto simp: nic_ready_def split: sum.splits option.splits)

definition request_frame :: "nic \<Rightarrow> ipv4_data \<Rightarrow> IPv4Address \<Rightarrow> arp_frame" where
  "request_frame n d ip =
     \<lparr>fr_packet = \<lparr>ap_name = ''arpREQ'', ap_byteLength = ARP_HEADER_BYTES, ap_opcode = ARP_REQUEST, ap_srcMAC = nic_mac n,
        ap_destMAC = UNSPECIFIED_ADDRESS, ap_srcIP = id_inetAddr d, ap_destIP = ip\<rparr>,
      fr_dest = BROADCAST_ADDRESS, fr_etherType = ETHERTYPE_ARP, fr_interfaceId = nic_id n\<rparr>"

definition request_from :: "id_table \<Rightarrow> nat option \<Rightarrow> IPv4Address \<Rightarrow> arp_frame" where
  "request_from ift p ip = (case deref_nic p ift of Inr n \<Rightarrow> request_frame n (the (if_ipv4Data n)) ip)"

lemma sendARPRequest_eq:
  assumes "nic_ready (arp_ift A) ie"
  shows "sendARPRequest ie ip A =
    Inr (A\<lparr>arp_out := arp_out A @ [request_from (arp_ift A) ie ip], arp_numRequestsSent := arp_numRequestsSent A + 1\<rparr>)"
  using assms by (elim nic_readyE)
    (simp add: sendARPRequest_def nic_ipv4Data_def arp_sendPacketToNIC_def request_from_def request_frame_def)

text \<open>The routing table answers: it is in a state it can reach, and every interface has its IPv4 data.\<close>

definition rt_ready :: "routing_table \<Rightarrow> bool" where
  "rt_ready T \<longleftrightarrow> (\<exists>uad. rt_inv uad T) \<and> list_all (\<lambda>ie. if_ipv4Data ie \<noteq> None) (rt_ift T)"

lemma gather_returns: "list_all (\<lambda>ie. if_ipv4Data ie \<noteq> None) ies \<Longrightarrow> \<exists>as. gather_addresses ies = Inr as"
  by (induction ies) auto

lemma isLocalAddress_returns:
  assumes "rt_ready T"
  shows "\<exists>b as. isLocalAddress dest T = Inr (b, T\<lparr>rt_localAddresses := as\<rparr>) \<and> rt_ready (T\<lparr>rt_localAddresses := as\<rparr>)"
proof -
  obtain as where "gather_addresses (rt_ift T) = Inr as" using assms gather_returns by (auto simp: rt_ready_def)
  moreover have "rt_ready (T\<lparr>rt_localAddresses := x\<rparr>)" for x using assms by (auto simp: rt_ready_def rt_inv_def)
  ultimately show ?thesis by (cases "rt_localAddresses T = {}") (auto simp: isLocalAddress_def intro: exI [of _ "rt_localAddresses T"])
qed

lemma find_keeps_ift: "findBestMatchingRoute d T = Inr (r, T') \<Longrightarrow> rt_ift T' = rt_ift T"
  by (auto simp: findBestMatchingRoute_def Let_def split: option.splits if_splits)

lemma getInterface_returns:
  assumes "rt_ready T"
  shows "\<exists>p T'. getInterfaceForDestAddr dest T = Inr (p, T') \<and> rt_ready T'"
proof -
  obtain uad where "rt_inv uad T" using assms by (auto simp: rt_ready_def)
  from find_known [OF this, of dest] obtain T' where
    T': "findBestMatchingRoute dest T = Inr (scan_routes dest T, T')" "rt_inv uad T'" by blast
  then have "rt_ready T'" using assms find_keeps_ift [OF T'(1)] by (auto simp: rt_ready_def)
  then show ?thesis using T'(1) by (simp add: getInterfaceForDestAddr_def)
qed

lemma addressRecognized_returns:
  assumes "rt_ready (arp_rt A)"
  shows "\<exists>b T. arp_addressRecognized dest ie A = Inr (b, A\<lparr>arp_rt := T\<rparr>) \<and> rt_ready T"
proof -
  obtain b as where b: "isLocalAddress dest (arp_rt A) = Inr (b, (arp_rt A)\<lparr>rt_localAddresses := as\<rparr>)"
    "rt_ready ((arp_rt A)\<lparr>rt_localAddresses := as\<rparr>)" using isLocalAddress_returns [OF assms] by blast
  let ?T0 = "(arp_rt A)\<lparr>rt_localAddresses := as\<rparr>"
  obtain p T where p: "getInterfaceForDestAddr dest ?T0 = Inr (p, T)" "rt_ready T"
    using getInterface_returns [OF b(2)] by blast
  let ?T = "if b \<or> \<not> arp_respondToProxyARP A then ?T0 else T"
  have "arp_addressRecognized dest ie A
    = Inr (b \<or> arp_respondToProxyARP A \<and> p \<noteq> None \<and> p \<noteq> ie, A\<lparr>arp_rt := ?T\<rparr>)"
    by (simp add: arp_addressRecognized_def Let_def b(1) p(1))
  moreover have "rt_ready ?T" using b(2) p(2) by simp
  ultimately show ?thesis by blast
qed

section \<open>The invariant\<close>

definition arp_entry_ok :: "int \<Rightarrow> id_table \<Rightarrow> arp_entry \<Rightarrow> bool" where
  "arp_entry_ok rc ift e \<longleftrightarrow> (en_pending e \<longleftrightarrow> en_timer e \<noteq> None) \<and> (isUnspecified (en_mac e) \<longleftrightarrow> en_pending e)
     \<and> (en_pending e \<longrightarrow> 0 \<le> en_numRetries e \<and> en_numRetries e < max 1 rc \<and> nic_ready ift (en_ie e))"

definition arp_inv :: "arp \<Rightarrow> bool" where
  "arp_inv A \<longleftrightarrow> in_key_order (arp_cache A)
     \<and> schedule_ok (entry_timer_at (map_of (arp_cache A))) (arp_scheduled A) (arp_fresh A)
     \<and> (\<forall>ip e. map_of (arp_cache A) ip = Some e \<longrightarrow> arp_entry_ok (arp_retryCount A) (arp_ift A) e)
     \<and> (\<not> arp_isUp A \<longrightarrow> arp_cache A = [])
     \<and> 0 \<le> arp_retryTimeout A \<and> rt_ready (arp_rt A)"

text \<open>
  The history of a module: whether it is up, and for each address the sender address and the time of the last
  packet it has processed since it was started.  The invariant with a history: an entry that does not wait
  has what was heard last.
\<close>

type_synonym history = "bool \<times> (IPv4Address \<rightharpoonup> MACAddress \<times> simtime)"

definition heard_ok :: "(IPv4Address \<rightharpoonup> MACAddress \<times> simtime) \<Rightarrow> arp_cache \<Rightarrow> bool" where
  "heard_ok h c \<longleftrightarrow> (\<forall>ip e. map_of c ip = Some e \<longrightarrow> \<not> en_pending e \<longrightarrow> h ip = Some (en_mac e, en_lastUpdate e))"

definition arp_rel :: "id_table \<Rightarrow> simtime \<Rightarrow> arp \<Rightarrow> history \<Rightarrow> bool" where
  "arp_rel ift ct A uh \<longleftrightarrow> arp_inv A \<and> arp_ift A = ift \<and> arp_cacheTimeout A = ct \<and> arp_isUp A = fst uh
     \<and> heard_ok (snd uh) (arp_cache A)"

definition arp_config :: "arp \<Rightarrow> _" where
  "arp_config A = (arp_retryTimeout A, arp_retryCount A, arp_cacheTimeout A, arp_isUp A, arp_ift A, arp_rt A)"

lemma rel_put:
  assumes "arp_rel ift ct A (True, h)" "arp_config A' = arp_config A" "in_key_order (arp_cache A')"
    and "map_of (arp_cache A') = (map_of (arp_cache A))(ip \<mapsto> e)" "arp_entry_ok (arp_retryCount A) ift e"
    and "schedule_ok ((entry_timer_at (map_of (arp_cache A)))(ip := en_timer e)) (arp_scheduled A') (arp_fresh A')"
    and "\<And>k. k \<noteq> ip \<Longrightarrow> h' k = h k" "\<not> en_pending e \<Longrightarrow> h' ip = Some (en_mac e, en_lastUpdate e)"
  shows "arp_rel ift ct A' (True, h')"
  using assms by (auto simp: arp_rel_def arp_inv_def arp_config_def heard_ok_def simp flip: fun_upd_def)

lemma rel_drop:
  assumes "arp_rel ift ct A (True, h)" "arp_config A' = arp_config A" "in_key_order (arp_cache A')"
    and "map_of (arp_cache A') = (map_of (arp_cache A))(ip := None)"
    and "schedule_ok ((entry_timer_at (map_of (arp_cache A)))(ip := None)) (arp_scheduled A') (arp_fresh A')"
  shows "arp_rel ift ct A' (True, h)"
  using assms by (auto simp: arp_rel_def arp_inv_def arp_config_def heard_ok_def split: if_splits)

section \<open>Asking for an address\<close>

definition waiting_entry :: "nat option \<Rightarrow> nat \<Rightarrow> arp_entry" where
  "waiting_entry ie m = \<lparr>en_ie = ie, en_pending = True, en_mac = UNSPECIFIED_ADDRESS, en_lastUpdate = 0,
     en_numRetries = 0, en_timer = Some m\<rparr>"

text \<open>The state after a resolution is started, where \<open>c\<close> is the new cache.\<close>

definition resolution_started :: "simtime \<Rightarrow> IPv4Address \<Rightarrow> nat option \<Rightarrow> arp_cache \<Rightarrow> arp \<Rightarrow> arp" where
  "resolution_started now ip ie c A = A\<lparr>arp_cache := c, arp_fresh := Suc (arp_fresh A),
     arp_scheduled := arp_scheduled A @ [(arp_fresh A, now + arp_retryTimeout A, ip)],
     arp_out := arp_out A @ [request_from (arp_ift A) ie ip], arp_numRequestsSent := arp_numRequestsSent A + 1,
     arp_numResolutions := arp_numResolutions A + 1,
     arp_signals := arp_signals A @ [InitiatedResolution ip UNSPECIFIED_ADDRESS ie]\<rparr>"

lemma map_entry_twice: "AList.map_entry k (\<lambda>_. b) (AList.map_entry k (\<lambda>_. a) c) = AList.map_entry k (\<lambda>_. b) c"
  by (induction c) auto

lemma map_entry_Some: "map_of c k = Some e0 \<Longrightarrow> map_of (AList.map_entry k (\<lambda>_. e) c) k = Some e"
  by (simp add: map_of_set_entry)

lemma initiate_eq:
  assumes "map_of (arp_cache A) ip = Some e" "nic_ready (arp_ift A) (en_ie e)" "0 \<le> arp_retryTimeout A"
    and "arp_fresh A \<notin> fst ` set (arp_scheduled A)"
  shows "initiateARPResolution now ip A = Inr (resolution_started now ip (en_ie e)
    (AList.map_entry ip (\<lambda>_. waiting_entry (en_ie e) (arp_fresh A)) (arp_cache A)) A)"
  using assms by (cases e, cases A) (simp add: initiateARPResolution_def deref_entry_def put_entry_def sendARPRequest_eq Let_def
      arp_scheduleAt_def arp_emit_def map_entry_twice resolution_started_def waiting_entry_def)

lemma fresh_not_scheduled: "schedule_ok T S n \<Longrightarrow> n \<notin> fst ` set S"
  using schedule_okD(2) by fastforce

lemma rel_fields:
  assumes "arp_rel ift ct A (up, h)"
  shows "in_key_order (arp_cache A)" "schedule_ok (entry_timer_at (map_of (arp_cache A))) (arp_scheduled A) (arp_fresh A)"
    "map_of (arp_cache A) ip = Some e \<Longrightarrow> arp_entry_ok (arp_retryCount A) ift e" "0 \<le> arp_retryTimeout A" "rt_ready (arp_rt A)"
    "arp_ift A = ift" "arp_cacheTimeout A = ct" "arp_isUp A = up" "\<not> up \<Longrightarrow> arp_cache A = []"
    "map_of (arp_cache A) ip = Some e \<Longrightarrow> \<not> en_pending e \<Longrightarrow> h ip = Some (en_mac e, en_lastUpdate e)"
  using assms by (auto simp: arp_rel_def arp_inv_def heard_ok_def)

lemma entry_ok_waiting: "nic_ready ift ie \<Longrightarrow> arp_entry_ok rc ift (waiting_entry ie m)"
  by (simp add: arp_entry_ok_def waiting_entry_def isUnspecified_def UNSPECIFIED_ADDRESS_def)

text \<open>A resolution is started for an address that has no entry or one that does not wait.\<close>

lemma rel_started:
  assumes "arp_rel ift ct A (True, h)" "nic_ready ift ie" "in_key_order c"
    and "map_of c = (map_of (arp_cache A))(ip \<mapsto> waiting_entry ie (arp_fresh A))"
    and "entry_timer_at (map_of (arp_cache A)) ip = None"
  shows "arp_rel ift ct (resolution_started now ip ie c A) (True, h)"
proof (rule rel_put [OF assms(1)])
  show "arp_entry_ok (arp_retryCount A) ift (waiting_entry ie (arp_fresh A))" by (rule entry_ok_waiting [OF assms(2)])
  show "schedule_ok ((entry_timer_at (map_of (arp_cache A)))(ip := en_timer (waiting_entry ie (arp_fresh A))))
      (arp_scheduled (resolution_started now ip ie c A)) (arp_fresh (resolution_started now ip ie c A))"
    using timers_start [OF rel_fields(2) [OF assms(1)] assms(5)] by (simp add: resolution_started_def waiting_entry_def)
qed (use assms(3,4) in \<open>simp_all add: resolution_started_def arp_config_def waiting_entry_def\<close>)

lemma resolve_absent:
  assumes "arp_rel ift ct A (True, h)" "map_of (arp_cache A) ip = None" "nic_ready ift ie"
  shows "resolveL3Address now (L3_IPv4 ip) ie A = Inr (UNSPECIFIED_ADDRESS,
    resolution_started now ip ie (cache_insert ip (waiting_entry ie (arp_fresh A)) (arp_cache A)) A)"
proof -
  note f = rel_fields [OF assms(1)]
  have "map_of (cache_insert ip (new_entry ie) (arp_cache A)) ip = Some (new_entry ie)"
    using map_of_cache_insert [OF f(1) assms(2)] by simp
  then show ?thesis using assms(2,3) f(4,6) fresh_not_scheduled [OF f(2)]
    by (simp add: resolveL3Address_def toIPv4_def insert_entry_def initiate_eq new_entry_def map_entry_insert_same
        resolution_started_def)
qed

lemma resolve_expired:
  assumes "arp_rel ift ct A (True, h)" "map_of (arp_cache A) ip = Some e" "\<not> en_pending e" "\<not> now \<le> en_lastUpdate e + ct"
    and "nic_ready ift ie"
  shows "resolveL3Address now (L3_IPv4 ip) ie A = Inr (UNSPECIFIED_ADDRESS,
    resolution_started now ip ie (AList.map_entry ip (\<lambda>_. waiting_entry ie (arp_fresh A)) (arp_cache A)) A)"
proof -
  note f = rel_fields [OF assms(1)]
  let ?e = "e\<lparr>en_ie := ie\<rparr>" and ?c = "AList.map_entry ip (\<lambda>_. waiting_entry ie (arp_fresh A)) (arp_cache A)"
  have "initiateARPResolution now ip (put_entry ip ?e A) = Inr (resolution_started now ip ie ?c (put_entry ip ?e A))"
    using f(4,6) assms(5) fresh_not_scheduled [OF f(2)]
    by (simp add: initiate_eq put_entry_def map_entry_Some [OF assms(2)] map_entry_twice)
  also have "resolution_started now ip ie ?c (put_entry ip ?e A) = resolution_started now ip ie ?c A"
    by (simp add: resolution_started_def put_entry_def)
  finally show ?thesis using assms(2-4) f(7) by (simp add: resolveL3Address_def toIPv4_def)
qed

lemma resolve_step:
  assumes "arp_rel ift ct A (True, h)" "nic_ready ift ie"
  shows "returns (\<lambda>(mac, A'). arp_rel ift ct A' (True, h) \<and>
      (isUnspecified mac \<or> (\<exists>t. h ip = Some (mac, t) \<and> now \<le> t + ct)))
    (resolveL3Address now (L3_IPv4 ip) ie A)"
proof (cases "map_of (arp_cache A) ip")
  note f = rel_fields [OF assms(1)]
  have unspec: "isUnspecified UNSPECIFIED_ADDRESS" by (simp add: isUnspecified_def UNSPECIFIED_ADDRESS_def)
  {
    case None
    have "arp_rel ift ct (resolution_started now ip ie (cache_insert ip (waiting_entry ie (arp_fresh A)) (arp_cache A)) A) (True, h)"
      by (rule rel_started [OF assms(1,2) cache_insert_order [OF f(1)]])
        (use None map_of_cache_insert [OF f(1) None] in \<open>simp_all add: entry_timer_at_def\<close>)
    then show ?thesis using unspec by (simp add: resolve_absent [OF assms(1) None assms(2)])
  next
    case (Some e)
    note e_ok = f(3) [OF Some]
    show ?thesis
    proof (cases "en_pending e \<or> now \<le> en_lastUpdate e + ct")
      case True
      then show ?thesis using Some assms(1) e_ok f(7) f(10) [OF Some] unspec
        by (auto simp: resolveL3Address_def toIPv4_def arp_entry_ok_def)
    next
      case False
      let ?c = "AList.map_entry ip (\<lambda>_. waiting_entry ie (arp_fresh A)) (arp_cache A)"
      have started: "resolveL3Address now (L3_IPv4 ip) ie A = Inr (UNSPECIFIED_ADDRESS, resolution_started now ip ie ?c A)"
        by (rule resolve_expired [OF assms(1) Some _ _ assms(2)]) (use False in simp_all)
      have "arp_rel ift ct (resolution_started now ip ie ?c A) (True, h)"
        by (rule rel_started [OF assms]) (use Some False e_ok f(1) in \<open>simp_all add: map_of_set_entry entry_timer_at_def arp_entry_ok_def\<close>)
      then show ?thesis using started unspec by simp
    qed
  }
qed

section \<open>Packets\<close>

definition heard_entry :: "simtime \<Rightarrow> MACAddress \<Rightarrow> arp_entry \<Rightarrow> arp_entry" where
  "heard_entry now mac e = e\<lparr>en_pending := False, en_mac := mac, en_lastUpdate := now,
     en_numRetries := if en_pending e then 0 else en_numRetries e, en_timer := if en_pending e then None else en_timer e\<rparr>"

definition entry_heard :: "simtime \<Rightarrow> IPv4Address \<Rightarrow> MACAddress \<Rightarrow> arp_entry \<Rightarrow> arp \<Rightarrow> arp" where
  "entry_heard now ip mac e A = A\<lparr>arp_cache := AList.map_entry ip (\<lambda>_. heard_entry now mac e) (arp_cache A),
     arp_scheduled := (if en_pending e then AList.delete (the (en_timer e)) (arp_scheduled A) else arp_scheduled A),
     arp_signals := arp_signals A @ [CompletedResolution ip mac (en_ie e)]\<rparr>"

lemma updateARPCache_eq:
  assumes "map_of (arp_cache A) ip = Some e" "en_pending e \<Longrightarrow> en_timer e \<noteq> None"
  shows "updateARPCache now ip mac A = Inr (entry_heard now ip mac e A)"
proof (cases "en_pending e")
  case True
  with assms obtain m where "en_timer e = Some m" by auto
  with True assms(1) show ?thesis by (cases e, cases A)
    (simp add: updateARPCache_def deref_entry_def arp_cancelEvent_def put_entry_def arp_emit_def entry_heard_def heard_entry_def)
next
  case False
  with assms(1) show ?thesis by (cases e, cases A)
    (simp add: updateARPCache_def deref_entry_def put_entry_def arp_emit_def entry_heard_def heard_entry_def)
qed

lemma rel_heard:
  assumes "arp_rel ift ct A (True, h)" "map_of (arp_cache A) ip = Some e" "\<not> isUnspecified mac"
  shows "arp_rel ift ct (entry_heard now ip mac e A) (True, h(ip \<mapsto> (mac, now)))"
proof (rule rel_put [OF assms(1), where ip = ip and e = "heard_entry now mac e"])
  note f = rel_fields [OF assms(1)]
  have e: "en_pending e \<longleftrightarrow> en_timer e \<noteq> None" using f(3) [OF assms(2)] by (simp add: arp_entry_ok_def)
  then show "arp_entry_ok (arp_retryCount A) ift (heard_entry now mac e)"
    using assms(3) by (auto simp: arp_entry_ok_def heard_entry_def)
  have T: "entry_timer_at (map_of (arp_cache A)) ip = en_timer e" using assms(2) by (simp add: entry_timer_at_def)
  have "schedule_ok ((entry_timer_at (map_of (arp_cache A)))(ip := en_timer (heard_entry now mac e)))
      (arp_scheduled (entry_heard now ip mac e A)) (arp_fresh A)"
  proof (cases "en_pending e")
    case True
    with e obtain m where m: "en_timer e = Some m" by auto
    with T have "entry_timer_at (map_of (arp_cache A)) ip = Some m" by simp
    from timers_stop [OF f(2) this] True m show ?thesis by (simp add: entry_heard_def heard_entry_def)
  next
    case False
    with e T have "(entry_timer_at (map_of (arp_cache A)))(ip := None) = entry_timer_at (map_of (arp_cache A))" by (simp add: fun_upd_idem)
    with False e f(2) show ?thesis by (simp add: entry_heard_def heard_entry_def)
  qed
  then show "schedule_ok ((entry_timer_at (map_of (arp_cache A)))(ip := en_timer (heard_entry now mac e)))
      (arp_scheduled (entry_heard now ip mac e A)) (arp_fresh (entry_heard now ip mac e A))"
    by (simp add: entry_heard_def)
qed (use rel_fields(1) [OF assms(1)] in \<open>simp_all add: entry_heard_def heard_entry_def arp_config_def map_of_set_entry [OF assms(2)]\<close>)

lemma rel_heard_absent:
  assumes "arp_rel ift ct A (True, h)" "map_of (arp_cache A) ip = None"
  shows "arp_rel ift ct A (True, h(ip \<mapsto> x))"
  using assms by (auto simp: arp_rel_def heard_ok_def)

lemma updateARPCache_new:
  assumes "arp_rel ift ct A (True, h)" "map_of (arp_cache A) ip = None"
  shows "updateARPCache now ip mac (insert_entry ip (new_entry ie) A) = Inr (A\<lparr>
      arp_cache := cache_insert ip (heard_entry now mac (new_entry ie)) (arp_cache A),
      arp_signals := arp_signals A @ [CompletedResolution ip mac ie]\<rparr>)"
proof -
  have "map_of (arp_cache (insert_entry ip (new_entry ie) A)) ip = Some (new_entry ie)"
    using map_of_cache_insert [OF rel_fields(1) [OF assms(1)] assms(2)] by (simp add: insert_entry_def)
  then have "updateARPCache now ip mac (insert_entry ip (new_entry ie) A)
    = Inr (entry_heard now ip mac (new_entry ie) (insert_entry ip (new_entry ie) A))"
    by (rule updateARPCache_eq) (simp add: new_entry_def)
  then show ?thesis by (simp add: entry_heard_def insert_entry_def map_entry_insert_same [OF assms(2)] new_entry_def)
qed

lemma rel_heard_new:
  assumes "arp_rel ift ct A (True, h)" "map_of (arp_cache A) ip = None" "\<not> isUnspecified mac"
  shows "arp_rel ift ct (A\<lparr>arp_cache := cache_insert ip (heard_entry now mac (new_entry ie)) (arp_cache A),
      arp_signals := s\<rparr>) (True, h(ip \<mapsto> (mac, now)))"
proof (rule rel_put [OF assms(1), where ip = ip and e = "heard_entry now mac (new_entry ie)"])
  note f = rel_fields [OF assms(1)]
  show "in_key_order (arp_cache (A\<lparr>arp_cache := cache_insert ip (heard_entry now mac (new_entry ie)) (arp_cache A), arp_signals := s\<rparr>))"
    using cache_insert_order [OF f(1)] by simp
  show "map_of (arp_cache (A\<lparr>arp_cache := cache_insert ip (heard_entry now mac (new_entry ie)) (arp_cache A), arp_signals := s\<rparr>))
      = (map_of (arp_cache A))(ip \<mapsto> heard_entry now mac (new_entry ie))"
    using map_of_cache_insert [OF f(1) assms(2)] by simp
  have "(entry_timer_at (map_of (arp_cache A)))(ip := None) = entry_timer_at (map_of (arp_cache A))"
    using assms(2) by (simp add: fun_upd_idem entry_timer_at_def)
  then show "schedule_ok ((entry_timer_at (map_of (arp_cache A)))(ip := en_timer (heard_entry now mac (new_entry ie))))
      (arp_scheduled (A\<lparr>arp_cache := cache_insert ip (heard_entry now mac (new_entry ie)) (arp_cache A), arp_signals := s\<rparr>))
      (arp_fresh (A\<lparr>arp_cache := cache_insert ip (heard_entry now mac (new_entry ie)) (arp_cache A), arp_signals := s\<rparr>))"
    using f(2) by (simp add: heard_entry_def new_entry_def)
qed (use assms(3) in \<open>simp_all add: arp_config_def arp_entry_ok_def heard_entry_def new_entry_def\<close>)

text \<open>Sending changes nothing that the invariant speaks of.\<close>

lemma rel_same:
  assumes "arp_rel ift ct A uh" "arp_config A' = (arp_config A)" "arp_cache A' = arp_cache A"
    "arp_scheduled A' = arp_scheduled A" "arp_fresh A' = arp_fresh A"
  shows "arp_rel ift ct A' uh"
  using assms by (clarsimp simp: arp_rel_def arp_inv_def arp_config_def)

lemma rel_rt: "arp_rel ift ct A uh \<Longrightarrow> rt_ready T \<Longrightarrow> arp_rel ift ct (A\<lparr>arp_rt := T\<rparr>) uh"
  by (clarsimp simp: arp_rel_def arp_inv_def)

text \<open>A packet a module can meet: it names its sender, and it is a request or a reply.\<close>

definition packet_ready :: "id_table \<Rightarrow> arp_packet \<Rightarrow> int \<Rightarrow> bool" where
  "packet_ready ift p i \<longleftrightarrow> \<not> isUnspecified (ap_srcMAC p) \<and> \<not> ip_isUnspecified (ap_srcIP p)
     \<and> ap_opcode p \<in> {ARP_REQUEST, ARP_REPLY} \<and> nic_ready ift (getInterfaceById i ift)"

definition reply_frame :: "arp_packet \<Rightarrow> nic \<Rightarrow> arp_frame" where
  "reply_frame p n =
     \<lparr>fr_packet = p\<lparr>ap_name := ''arpREPLY'', ap_destIP := ap_srcIP p, ap_destMAC := ap_srcMAC p, ap_srcIP := ap_destIP p,
        ap_srcMAC := nic_mac n, ap_opcode := ARP_REPLY\<rparr>,
      fr_dest = ap_srcMAC p, fr_etherType = ETHERTYPE_ARP, fr_interfaceId = nic_id n\<rparr>"

lemma arp_answer_eq:
  assumes "ap_opcode p = ARP_REQUEST" "deref_nic ie (arp_ift A) = Inr n" "if_ipv4Data n = Some d"
  shows "arp_answer p ie A = Inr (A\<lparr>arp_out := arp_out A @ [reply_frame p n], arp_numRepliesSent := arp_numRepliesSent A + 1\<rparr>)"
  using assms by (simp add: arp_answer_def nic_ipv4Data_def arp_sendPacketToNIC_def reply_frame_def)

lemma answer_step:
  assumes "arp_rel ift ct A uh" "packet_ready ift p i"
  shows "returns (\<lambda>A'. arp_rel ift ct A' uh) (arp_answer p (getInterfaceById i ift) A)"
proof (cases "ap_opcode p = ARP_REQUEST")
  case True
  from assms(2) obtain n d where "deref_nic (getInterfaceById i ift) ift = Inr n" "if_ipv4Data n = Some d"
    by (auto simp: packet_ready_def elim: nic_readyE)
  moreover have "arp_ift A = ift" using assms(1) by (simp add: arp_rel_def)
  ultimately show ?thesis using True rel_same [OF assms(1)] by (simp add: arp_answer_eq arp_config_def)
next
  case False
  then show ?thesis using assms by (auto simp: arp_answer_def packet_ready_def)
qed

lemma packet_step:
  assumes "arp_rel ift ct A (True, h)" "packet_ready ift p i"
  shows "returns (\<lambda>A'. arp_rel ift ct A' (True, h(ap_srcIP p \<mapsto> (ap_srcMAC p, now)))) (processARPPacket now p (Some i) A)"
proof -
  let ?h = "h(ap_srcIP p \<mapsto> (ap_srcMAC p, now))" and ?ie = "getInterfaceById i ift"
  note f = rel_fields [OF assms(1)]
  have mac: "\<not> isUnspecified (ap_srcMAC p)" "\<not> ip_isUnspecified (ap_srcIP p)" using assms(2) by (simp_all add: packet_ready_def)
  note defs = processARPPacket_def Let_def mac f(6)
  show ?thesis
  proof (cases "map_of (arp_cache A) (ap_srcIP p)")
    case (Some e)
    let ?A = "entry_heard now (ap_srcIP p) (ap_srcMAC p) e A"
    have up: "updateARPCache now (ap_srcIP p) (ap_srcMAC p) A = Inr ?A"
      by (rule updateARPCache_eq [OF Some]) (use f(3) [OF Some] in \<open>simp add: arp_entry_ok_def\<close>)
    have rel: "arp_rel ift ct ?A (True, ?h)" by (rule rel_heard [OF assms(1) Some mac(1)])
    obtain b T where b: "arp_addressRecognized (ap_destIP p) ?ie ?A = Inr (b, ?A\<lparr>arp_rt := T\<rparr>)" "rt_ready T"
      using addressRecognized_returns [OF rel_fields(5) [OF rel]] by blast
    note T = rel_rt [OF rel b(2)]
    show ?thesis using answer_step [OF T assms(2)] T by (simp add: defs Some up b(1))
  next
    case None
    obtain b T where b: "arp_addressRecognized (ap_destIP p) ?ie A = Inr (b, A\<lparr>arp_rt := T\<rparr>)" "rt_ready T"
      using addressRecognized_returns [OF f(5)] by blast
    note T = rel_rt [OF assms(1) b(2)]
    show ?thesis
    proof (cases b)
      case True
      have new: "arp_rel ift ct ((A\<lparr>arp_rt := T\<rparr>)\<lparr>arp_cache := cache_insert (ap_srcIP p) (heard_entry now (ap_srcMAC p) (new_entry ?ie))
          (arp_cache (A\<lparr>arp_rt := T\<rparr>)), arp_signals := arp_signals (A\<lparr>arp_rt := T\<rparr>) @ [CompletedResolution (ap_srcIP p) (ap_srcMAC p) ?ie]\<rparr>) (True, ?h)"
        by (rule rel_heard_new [OF T _ mac(1)]) (simp add: None)
      show ?thesis using answer_step [OF new assms(2)] True None
        by (simp add: defs b(1) updateARPCache_new [OF T])
    next
      case False
      then show ?thesis using rel_heard_absent [OF T] None by (simp add: defs b(1))
    qed
  qed
qed

section \<open>Timeouts\<close>

definition request_repeated :: "simtime \<Rightarrow> nat \<Rightarrow> IPv4Address \<Rightarrow> arp_entry \<Rightarrow> arp \<Rightarrow> arp" where
  "request_repeated now m ip e A = A\<lparr>
     arp_cache := AList.map_entry ip (\<lambda>_. e\<lparr>en_numRetries := en_numRetries e + 1\<rparr>) (arp_cache A),
     arp_scheduled := AList.delete m (arp_scheduled A) @ [(m, now + arp_retryTimeout A, ip)],
     arp_out := arp_out A @ [request_from (arp_ift A) (en_ie e) ip], arp_numRequestsSent := arp_numRequestsSent A + 1\<rparr>"

definition resolution_failed :: "nat \<Rightarrow> IPv4Address \<Rightarrow> arp_entry \<Rightarrow> arp \<Rightarrow> arp" where
  "resolution_failed m ip e A = A\<lparr>arp_cache := AList.delete ip (arp_cache A),
     arp_scheduled := AList.delete m (arp_scheduled A), arp_numFailedResolutions := arp_numFailedResolutions A + 1,
     arp_signals := arp_signals A @ [FailedResolution ip UNSPECIFIED_ADDRESS (en_ie e)]\<rparr>"

lemma timeout_eq:
  assumes "map_of (arp_cache A) ip = Some e" "nic_ready (arp_ift A) (en_ie e)" "0 \<le> arp_retryTimeout A"
  shows "requestTimedOut now m ip (A\<lparr>arp_scheduled := AList.delete m (arp_scheduled A)\<rparr>) = Inr
    (if en_numRetries e + 1 < arp_retryCount A then request_repeated now m ip e A else resolution_failed m ip e A)"
proof -
  have "m \<notin> fst ` set (AList.delete m (arp_scheduled A))" by (auto simp: set_delete)
  moreover have "AList.delete ip (AList.map_entry ip f c) = AList.delete ip c" for f and c :: arp_cache
    by (induction c) (auto simp: AList.delete_eq)
  ultimately show ?thesis using assms
    by (cases A) (simp add: requestTimedOut_def deref_entry_def put_entry_def Let_def sendARPRequest_eq arp_scheduleAt_def
        arp_emit_def request_repeated_def resolution_failed_def)
qed

lemma scheduled_entry:
  assumes "arp_rel ift ct A (True, h)" "(m, t, ip) \<in> set (arp_scheduled A)"
  obtains e where "map_of (arp_cache A) ip = Some e" "en_timer e = Some m" "en_pending e" "nic_ready ift (en_ie e)"
    "0 \<le> en_numRetries e" "entry_timer_at (map_of (arp_cache A)) ip = Some m"
proof -
  note f = rel_fields [OF assms(1)]
  have T: "entry_timer_at (map_of (arp_cache A)) ip = Some m" by (rule schedule_okD(3) [OF f(2) assms(2)])
  then obtain e where e: "map_of (arp_cache A) ip = Some e" "en_timer e = Some m"
    by (auto simp: entry_timer_at_def bind_eq_Some_conv)
  with f(3) [OF e(1)] show ?thesis using that [OF e _ _ _ T] by (simp add: arp_entry_ok_def)
qed

lemma rel_repeated:
  assumes "arp_rel ift ct A (True, h)" "(m, t, ip) \<in> set (arp_scheduled A)" "map_of (arp_cache A) ip = Some e"
    and "en_numRetries e + 1 < arp_retryCount A"
  shows "arp_rel ift ct (request_repeated now m ip e A) (True, h)"
proof -
  let ?e = "e\<lparr>en_numRetries := en_numRetries e + 1\<rparr>"
  note f = rel_fields [OF assms(1)]
  obtain e' where "map_of (arp_cache A) ip = Some e'" and e': "en_timer e' = Some m" "en_pending e'"
    "nic_ready ift (en_ie e')" "0 \<le> en_numRetries e'" "entry_timer_at (map_of (arp_cache A)) ip = Some m"
    by (rule scheduled_entry [OF assms(1,2)]) blast
  with assms(3) have e: "en_timer e = Some m" "en_pending e" "nic_ready ift (en_ie e)" "0 \<le> en_numRetries e" by auto
  have T: "(entry_timer_at (map_of (arp_cache A)))(ip := en_timer ?e) = entry_timer_at (map_of (arp_cache A))"
    using e(1) e'(5) by (simp add: fun_upd_idem)
  show ?thesis
  proof (rule rel_put [OF assms(1), where ip = ip and e = ?e])
    show "schedule_ok ((entry_timer_at (map_of (arp_cache A)))(ip := en_timer ?e)) (arp_scheduled (request_repeated now m ip e A))
        (arp_fresh (request_repeated now m ip e A))"
      unfolding T using timers_again [OF f(2) e'(5)] by (simp add: request_repeated_def)
    show "arp_entry_ok (arp_retryCount A) ift ?e" using f(3) [OF assms(3)] e assms(4) by (simp add: arp_entry_ok_def)
  qed (use f(1) e in \<open>simp_all add: request_repeated_def arp_config_def map_of_set_entry [OF assms(3)]\<close>)
qed

lemma rel_failed:
  assumes "arp_rel ift ct A (True, h)" "(m, t, ip) \<in> set (arp_scheduled A)"
  shows "arp_rel ift ct (resolution_failed m ip e A) (True, h)"
proof (rule rel_drop [OF assms(1), where ip = ip])
  note f = rel_fields [OF assms(1)]
  have "entry_timer_at (map_of (arp_cache A)) ip = Some m" by (rule schedule_okD(3) [OF f(2) assms(2)])
  from timers_stop [OF f(2) this]
  show "schedule_ok ((entry_timer_at (map_of (arp_cache A)))(ip := None)) (arp_scheduled (resolution_failed m ip e A))
      (arp_fresh (resolution_failed m ip e A))" by (simp add: resolution_failed_def)
qed (use rel_fields(1) [OF assms(1)] in \<open>simp_all add: resolution_failed_def arp_config_def keys_delete AList.delete_conv'\<close>)

section \<open>Runs\<close>

text \<open>
  What happens to a module: a packet arrives, a self message comes due, the network protocol asks for an
  address, and the node is started, shut down or crashes.  \<open>arp_exec\<close> has no order of time: it covers more
  than the simulator does.
\<close>

datatype arp_op = Arrives simtime arp_packet int | TimerFires nat | Asks simtime IPv4Address "nat option"
  | Lifecycle lifecycle_operation int

definition fire_timer :: "nat \<Rightarrow> arp \<Rightarrow> sim_error + arp" where
  "fire_timer m A = (case map_of (arp_scheduled A) m of None \<Rightarrow> Inr A
     | Some (t, ip) \<Rightarrow> arp_handleMessage t (SelfMessage m ip) (A\<lparr>arp_scheduled := AList.delete m (arp_scheduled A)\<rparr>))"

fun arp_exec :: "arp_op \<Rightarrow> arp \<Rightarrow> sim_error + arp" where
  "arp_exec (Arrives now p i) A = arp_handleMessage now (ArpMessage p (Some i)) A"
| "arp_exec (TimerFires m) A = fire_timer m A"
| "arp_exec (Asks now ip ie) A = map_sum id snd (resolveL3Address now (L3_IPv4 ip) ie A)"
| "arp_exec (Lifecycle operation stage) A = arp_handleOperationStage operation stage A"

fun arp_pre :: "id_table \<Rightarrow> history \<Rightarrow> arp_op \<Rightarrow> bool" where
  "arp_pre ift (up, h) (Arrives now p i) \<longleftrightarrow> packet_ready ift p i"
| "arp_pre ift (up, h) (TimerFires m) \<longleftrightarrow> True"
| "arp_pre ift (up, h) (Asks now ip ie) \<longleftrightarrow> up \<and> nic_ready ift ie"
| "arp_pre ift (up, h) (Lifecycle operation stage) \<longleftrightarrow> operation \<noteq> OtherOperation \<and> (operation = NodeStart \<longrightarrow> \<not> up)"

fun arp_spec :: "arp_op \<Rightarrow> history \<Rightarrow> history" where
  "arp_spec (Arrives now p i) (up, h) = (up, if up then h(ap_srcIP p \<mapsto> (ap_srcMAC p, now)) else h)"
| "arp_spec (TimerFires m) (up, h) = (up, h)"
| "arp_spec (Asks now ip ie) (up, h) = (up, h)"
| "arp_spec (Lifecycle operation stage) (up, h) = (case operation of
     NodeStart \<Rightarrow> (if stage = 3 then True else up, h)
   | NodeShutdown \<Rightarrow> if stage = 4 then (False, Map.empty) else (up, h)
   | NodeCrash \<Rightarrow> if stage = 0 then (False, Map.empty) else (up, h)
   | OtherOperation \<Rightarrow> (up, h))"

lemma fire_step:
  assumes "arp_rel ift ct A (up, h)"
  shows "returns (\<lambda>A'. arp_rel ift ct A' (up, h)) (fire_timer m A)"
proof (cases "map_of (arp_scheduled A) m")
  case None
  then show ?thesis using assms by (simp add: fire_timer_def)
next
  case (Some x)
  note f = rel_fields [OF assms]
  obtain t ip where x: "x = (t, ip)" by (cases x)
  with Some have in_S: "(m, t, ip) \<in> set (arp_scheduled A)" by (auto dest: map_of_SomeD)
  then have "entry_timer_at (map_of (arp_cache A)) ip = Some m" by (rule schedule_okD(3) [OF f(2)])
  then have up: "up" using f(9) by (cases up) (auto simp: entry_timer_at_def)
  with assms have rel: "arp_rel ift ct A (True, h)" by simp
  obtain e where e: "map_of (arp_cache A) ip = Some e" "nic_ready ift (en_ie e)" by (rule scheduled_entry [OF rel in_S]) blast
  have "fire_timer m A = Inr (if en_numRetries e + 1 < arp_retryCount A then request_repeated t m ip e A else resolution_failed m ip e A)"
    using timeout_eq [OF e(1)] e(2) f(4,6,8) up by (simp add: fire_timer_def Some x arp_handleMessage_def)
  then show ?thesis using rel_repeated [OF rel in_S e(1)] rel_failed [OF rel in_S] up by simp
qed

lemma rel_flush:
  assumes "arp_rel ift ct A (up, h)"
  shows "arp_rel ift ct (arp_stop A) (False, Map.empty)"
proof -
  note f = rel_fields [OF assms]
  let ?timers = "set (map (\<lambda>(ip, e). en_timer e) (arp_cache A))"
  have "Some m \<in> ?timers" if in_S: "(m, t, ip) \<in> set (arp_scheduled A)" for m t ip
  proof -
    have "entry_timer_at (map_of (arp_cache A)) ip = Some m" by (rule schedule_okD(3) [OF f(2) in_S])
    then obtain e where "map_of (arp_cache A) ip = Some e" "en_timer e = Some m" by (auto simp: entry_timer_at_def bind_eq_Some_conv)
    then show ?thesis by (force dest: map_of_SomeD)
  qed
  then have "filter (\<lambda>(m, t). Some m \<notin> ?timers) (arp_scheduled A) = []" by (fastforce simp: filter_empty_conv)
  then show ?thesis using f(4-7) by (simp add: arp_stop_def arp_flush_def Let_def arp_rel_def arp_inv_def heard_ok_def
        schedule_ok_def entry_timer_at_def)
qed

lemma arp_step:
  assumes "arp_rel ift ct A uh" "arp_pre ift uh op"
  shows "\<exists>A'. arp_exec op A = Inr A' \<and> arp_rel ift ct A' (arp_spec op uh)"
proof -
  obtain up h where uh: "uh = (up, h)" by (cases uh)
  note f = rel_fields [OF assms(1) [unfolded uh]]
  have "returns (\<lambda>A'. arp_rel ift ct A' (arp_spec op (up, h))) (arp_exec op A)"
  proof (cases op)
    case (Arrives now p i)
    then show ?thesis using packet_step [of ift ct A h p i now] assms f(8) unfolding uh
      by (cases up) (simp_all add: arp_handleMessage_def arp_handleMessageWhenDown_def)
  next
    case (TimerFires m)
    then show ?thesis using fire_step [OF assms(1) [unfolded uh]] by simp
  next
    case (Asks now ip ie)
    with assms have "arp_rel ift ct A (True, h)" "nic_ready ift ie" up unfolding uh by simp_all
    from resolve_step [OF this(1,2), of ip now] this(3) Asks show ?thesis by (auto simp: returns_def)
  next
    case (Lifecycle operation stage)
    then show ?thesis using rel_flush [OF assms(1) [unfolded uh]] assms f(8,9) unfolding uh
      by (cases operation) (auto simp: arp_handleOperationStage_def arp_start_def arp_rel_def arp_inv_def)
  qed
  then show ?thesis unfolding uh by (simp add: returns_def)
qed

interpretation arp_runs: forward_simulation arp_exec "arp_rel ift ct" "arp_pre ift" arp_spec
  by unfold_locales (rule arp_step)

text \<open>A module that is just made is in the relation with the empty history.\<close>

lemma rel_initialize:
  "0 \<le> rto \<Longrightarrow> rt_ready rt \<Longrightarrow> arp_rel ift ct (arp_initialize rto rc ct proxy up ift rt) (up, Map.empty)"
  by (simp add: arp_rel_def arp_inv_def arp_initialize_def heard_ok_def schedule_ok_def entry_timer_at_def)

lemma initiate_unspecified:
  "map_sum id (Pair UNSPECIFIED_ADDRESS) r = Inr (mac, A') \<Longrightarrow> isUnspecified mac"
  by (cases r) (auto simp: isUnspecified_def UNSPECIFIED_ADDRESS_def)

lemma resolve_answers:
  assumes "resolveL3Address now (L3_IPv4 ip) ie A = Inr (mac, A')" "\<not> isUnspecified mac"
  obtains e where "map_of (arp_cache A) ip = Some e" "\<not> en_pending e" "now \<le> en_lastUpdate e + arp_cacheTimeout A"
    "mac = en_mac e" "A' = A"
  using assms by (auto simp: resolveL3Address_def toIPv4_def isUnspecified_def UNSPECIFIED_ADDRESS_def map_sum_def
      split: option.splits if_splits sum.splits)

lemma address_of_mac:
  assumes "arp_rel ift ct A (up, h)" "\<not> ip_isUnspecified (getL3AddressFor now mac A)"
  shows "\<exists>t. h (getL3AddressFor now mac A) = Some (mac, t) \<and> now \<le> t + ct"
proof -
  note f = rel_fields [OF assms(1)]
  have unspec: "ip_isUnspecified unspecified_ip" by (simp add: ip_isUnspecified_def unspecified_ip_def)
  obtain ip e where found: "find (\<lambda>(ip, e). en_mac e = mac \<and> now \<le> en_lastUpdate e + ct) (arp_cache A) = Some (ip, e)"
    and mac: "\<not> isUnspecified mac"
    using assms(2) unspec f(7) by (auto simp: getL3AddressFor_def split: if_splits option.splits)
  then have "getL3AddressFor now mac A = ip" using f(7) by (simp add: getL3AddressFor_def)
  moreover from found have "(ip, e) \<in> set (arp_cache A)" "en_mac e = mac" "now \<le> en_lastUpdate e + ct"
    by (auto simp: find_Some_iff in_set_conv_nth)
  ultimately have e: "(ip, e) \<in> set (arp_cache A)" "en_mac e = mac" "now \<le> en_lastUpdate e + ct" "getL3AddressFor now mac A = ip"
    by blast+
  from e(1) have m: "map_of (arp_cache A) ip = Some e" using key_order_distinct [OF f(1)] by simp
  with f(3) [OF m] mac e(2) have "\<not> en_pending e" unfolding arp_entry_ok_def by blast
  from f(10) [OF m this] e show ?thesis by auto
qed

text \<open>
  C9: ARP answers with what it heard.  On every run of packets, timeouts, questions and restarts, of a module with a
  working routing table whose packets name their senders and are requests or replies on interfaces that have
  addresses, nothing raises an error; and an address that the module then gives for an IPv4 address is the one
  in the last packet from there, heard since the module was started and not longer ago than the timeout of
  the cache.  The same holds for the way back, from a MAC address to an IPv4 address.
\<close>

theorem arp_resolution_sound:
  assumes "0 \<le> rto" "rt_ready rt" "legal_run (arp_pre ift) arp_spec ops (up, Map.empty)"
  shows "\<exists>A. run_result arp_exec ops (arp_initialize rto rc ct proxy up ift rt) = Inr A
    \<and> (\<forall>now ip ie mac A'. resolveL3Address now (L3_IPv4 ip) ie A = Inr (mac, A') \<longrightarrow> \<not> isUnspecified mac \<longrightarrow>
         A' = A \<and> (\<exists>t. snd (fold arp_spec ops (up, Map.empty)) ip = Some (mac, t) \<and> now \<le> t + ct))
    \<and> (\<forall>now mac. \<not> ip_isUnspecified (getL3AddressFor now mac A) \<longrightarrow>
         (\<exists>t. snd (fold arp_spec ops (up, Map.empty)) (getL3AddressFor now mac A) = Some (mac, t) \<and> now \<le> t + ct))"
proof -
  from arp_runs.run_step [OF rel_initialize [OF assms(1,2)] assms(3)] obtain A where
    A: "run_result arp_exec ops (arp_initialize rto rc ct proxy up ift rt) = Inr A"
      "arp_rel ift ct A (fold arp_spec ops (up, Map.empty))" by blast
  obtain up' h where h: "fold arp_spec ops (up, Map.empty) = (up', h)" by fastforce
  note rel = A(2) [unfolded h]
  have "A' = A \<and> (\<exists>t. h ip = Some (mac, t) \<and> now \<le> t + ct)"
    if "resolveL3Address now (L3_IPv4 ip) ie A = Inr (mac, A')" "\<not> isUnspecified mac" for now ip ie mac A'
    using that by (rule resolve_answers) (use rel_fields(7,10) [OF rel] in auto)
  then show ?thesis using A(1) address_of_mac [OF rel] unfolding h by auto
qed

section \<open>A resolution nobody answers\<close>

lemma inv_rel:
  assumes "arp_inv A" "arp_isUp A"
  shows "\<exists>h. arp_rel (arp_ift A) (arp_cacheTimeout A) A (True, h)"
proof -
  let ?h = "\<lambda>ip. map_option (\<lambda>e. (en_mac e, en_lastUpdate e)) (map_of (arp_cache A) ip)"
  have "arp_rel (arp_ift A) (arp_cacheTimeout A) A (True, ?h)" using assms by (simp add: arp_rel_def heard_ok_def)
  then show ?thesis by blast
qed

text \<open>The state after \<open>k\<close> timeouts of a resolution of \<open>ip\<close> that was started at time \<open>t\<close>.\<close>

definition unanswered :: "simtime \<Rightarrow> IPv4Address \<Rightarrow> nat option \<Rightarrow> nat \<Rightarrow> arp \<Rightarrow> arp" where
  "unanswered t ip ie k A = A\<lparr>
     arp_cache := cache_insert ip ((waiting_entry ie (arp_fresh A))\<lparr>en_numRetries := int k\<rparr>) (arp_cache A),
     arp_fresh := Suc (arp_fresh A),
     arp_scheduled := arp_scheduled A @ [(arp_fresh A, t + (int k + 1) * arp_retryTimeout A, ip)],
     arp_out := arp_out A @ replicate (Suc k) (request_from (arp_ift A) ie ip),
     arp_numRequestsSent := arp_numRequestsSent A + int k + 1, arp_numResolutions := arp_numResolutions A + 1,
     arp_signals := arp_signals A @ [InitiatedResolution ip UNSPECIFIED_ADDRESS ie]\<rparr>"

text \<open>The state after the last one.\<close>

definition given_up :: "IPv4Address \<Rightarrow> nat option \<Rightarrow> nat \<Rightarrow> arp \<Rightarrow> arp" where
  "given_up ip ie n A = A\<lparr>arp_fresh := Suc (arp_fresh A),
     arp_out := arp_out A @ replicate n (request_from (arp_ift A) ie ip),
     arp_numRequestsSent := arp_numRequestsSent A + int n, arp_numResolutions := arp_numResolutions A + 1,
     arp_numFailedResolutions := arp_numFailedResolutions A + 1,
     arp_signals := arp_signals A @ [InitiatedResolution ip UNSPECIFIED_ADDRESS ie, FailedResolution ip UNSPECIFIED_ADDRESS ie]\<rparr>"

lemma delete_fresh:
  assumes "m \<notin> fst ` set S"
  shows "AList.delete m (S @ [(m, x)]) = S"
proof -
  have "filter (\<lambda>(k, v). m \<noteq> k) S = S" using assms by (force intro: filter_True)
  then show ?thesis by (simp add: AList.delete_eq)
qed

lemma map_of_fresh: "m \<notin> fst ` set S \<Longrightarrow> map_of (S @ [(m, x)]) m = Some x"
  using map_of_eq_None_iff [of S m] by (simp add: map_add_def)

lemma unanswered_fires:
  assumes "arp_rel ift ct A (True, h)" "map_of (arp_cache A) ip = None" "nic_ready ift ie"
  shows "fire_timer (arp_fresh A) (unanswered t ip ie k A) = Inr
    (if int k + 1 < arp_retryCount A then unanswered t ip ie (Suc k) A else given_up ip ie (Suc k) A)"
proof -
  note f = rel_fields [OF assms(1)]
  let ?m = "arp_fresh A" and ?e = "(waiting_entry ie (arp_fresh A))\<lparr>en_numRetries := int k\<rparr>" and ?U = "unanswered t ip ie k A"
  let ?t = "t + (int k + 1) * arp_retryTimeout A"
  have fresh: "?m \<notin> fst ` set (arp_scheduled A)" by (rule fresh_not_scheduled [OF f(2)])
  have S: "map_of (arp_scheduled ?U) ?m = Some (?t, ip)" using map_of_fresh [OF fresh] by (simp add: unanswered_def)
  have e: "map_of (arp_cache ?U) ip = Some ?e" using map_of_cache_insert [OF f(1) assms(2)] by (simp add: unanswered_def)
  have "requestTimedOut ?t ?m ip (?U\<lparr>arp_scheduled := AList.delete ?m (arp_scheduled ?U)\<rparr>) = Inr
    (if en_numRetries ?e + 1 < arp_retryCount ?U then request_repeated ?t ?m ip ?e ?U else resolution_failed ?m ip ?e ?U)"
    by (rule timeout_eq [OF e]) (use assms(3) f(4,6) in \<open>simp_all add: unanswered_def waiting_entry_def\<close>)
  moreover have "request_repeated ?t ?m ip ?e ?U = unanswered t ip ie (Suc k) A"
    by (cases A) (use fresh assms(2) in \<open>simp add: request_repeated_def unanswered_def waiting_entry_def
      delete_fresh map_entry_insert_same replicate_append_same algebra_simps\<close>)
  moreover have "resolution_failed ?m ip ?e ?U = given_up ip ie (Suc k) A"
    by (cases A) (use fresh assms(2) in \<open>simp add: resolution_failed_def unanswered_def given_up_def waiting_entry_def
      delete_fresh delete_cache_insert\<close>)
  ultimately show ?thesis using f(8) by (simp add: fire_timer_def S arp_handleMessage_def)
    (simp add: unanswered_def waiting_entry_def)
qed

lemma unanswered_run:
  assumes "arp_rel ift ct A (True, h)" "map_of (arp_cache A) ip = None" "nic_ready ift ie" "k < nat (max 1 (arp_retryCount A))"
  shows "run_result arp_exec (Asks t ip ie # replicate k (TimerFires (arp_fresh A))) A = Inr (unanswered t ip ie k A)"
  using assms(4)
proof (induction k)
  case 0
  show ?case using resolve_absent [OF assms(1-3), of t] rel_fields(6) [OF assms(1)]
    by (cases A) (simp add: resolution_started_def unanswered_def waiting_entry_def)
next
  case (Suc k)
  have "Asks t ip ie # replicate (Suc k) (TimerFires (arp_fresh A)) = (Asks t ip ie # replicate k (TimerFires (arp_fresh A))) @ [TimerFires (arp_fresh A)]"
    by (simp add: replicate_append_same)
  moreover have "int k + 1 < arp_retryCount A" using Suc.prems by simp
  ultimately show ?case using Suc unanswered_fires [OF assms(1-3), of t k] by (simp only: run_result_append) simp
qed

lemma unanswered_waits:
  assumes "arp_rel ift ct A (True, h)" "map_of (arp_cache A) ip = None"
  shows "arp_out (unanswered t ip ie k A) = arp_out A @ replicate (Suc k) (request_from (arp_ift A) ie ip)"
    and "map_of (arp_scheduled (unanswered t ip ie k A)) (arp_fresh A) = Some (t + (int k + 1) * arp_retryTimeout A, ip)"
    and "resolveL3Address now (L3_IPv4 ip) ie' (unanswered t ip ie k A) = Inr (UNSPECIFIED_ADDRESS, unanswered t ip ie k A)"
  using map_of_cache_insert [OF rel_fields(1) [OF assms(1)] assms(2)]
    map_of_fresh [OF fresh_not_scheduled [OF rel_fields(2) [OF assms(1)]]]
  by (simp_all add: unanswered_def resolveL3Address_def toIPv4_def waiting_entry_def)

lemma given_up_run:
  assumes "arp_rel ift ct A (True, h)" "map_of (arp_cache A) ip = None" "nic_ready ift ie"
  shows "run_result arp_exec (Asks t ip ie # replicate (nat (max 1 (arp_retryCount A))) (TimerFires (arp_fresh A))) A
    = Inr (given_up ip ie (nat (max 1 (arp_retryCount A))) A)"
proof -
  obtain k where k: "nat (max 1 (arp_retryCount A)) = Suc k" by (cases "nat (max 1 (arp_retryCount A))") auto
  have eq: "Asks t ip ie # replicate (Suc k) (TimerFires (arp_fresh A)) = (Asks t ip ie # replicate k (TimerFires (arp_fresh A))) @ [TimerFires (arp_fresh A)]"
    by (simp add: replicate_append_same)
  have "k < nat (max 1 (arp_retryCount A))" "\<not> int k + 1 < arp_retryCount A" using k by linarith+
  with unanswered_run [OF assms this(1)] unanswered_fires [OF assms, of t k] show ?thesis
    unfolding k eq run_result_append by (simp del: replicate.simps)
qed

text \<open>
  C24: a resolution that nobody answers ends.  Asked for an address it has no entry for, the module sends a request,
  repeats it each time the retry timeout has passed, and after the configured number of requests (at least one)
  gives up: it reports the failure, and its cache and its timers are as they were before.  Until then it waits,
  and says so to whoever asks.
\<close>

theorem arp_gives_up:
  assumes "arp_inv A" "arp_isUp A" "map_of (arp_cache A) ip = None" "nic_ready (arp_ift A) ie"
  shows "(\<forall>k < nat (max 1 (arp_retryCount A)). \<exists>B.
      run_result arp_exec (Asks t ip ie # replicate k (TimerFires (arp_fresh A))) A = Inr B
      \<and> arp_out B = arp_out A @ replicate (Suc k) (request_from (arp_ift A) ie ip)
      \<and> map_of (arp_scheduled B) (arp_fresh A) = Some (t + (int k + 1) * arp_retryTimeout A, ip)
      \<and> (\<forall>now ie. resolveL3Address now (L3_IPv4 ip) ie B = Inr (UNSPECIFIED_ADDRESS, B)))
    \<and> (\<exists>B. run_result arp_exec (Asks t ip ie # replicate (nat (max 1 (arp_retryCount A))) (TimerFires (arp_fresh A))) A = Inr B
      \<and> arp_cache B = arp_cache A \<and> arp_scheduled B = arp_scheduled A
      \<and> arp_out B = arp_out A @ replicate (nat (max 1 (arp_retryCount A))) (request_from (arp_ift A) ie ip)
      \<and> arp_signals B = arp_signals A @ [InitiatedResolution ip UNSPECIFIED_ADDRESS ie, FailedResolution ip UNSPECIFIED_ADDRESS ie])"
proof -
  obtain h where rel: "arp_rel (arp_ift A) (arp_cacheTimeout A) A (True, h)" using inv_rel [OF assms(1,2)] by blast
  note run = unanswered_run [OF rel assms(3,4)] and waits = unanswered_waits [OF rel assms(3)]
  have "arp_cache (given_up ip ie n A) = arp_cache A" "arp_scheduled (given_up ip ie n A) = arp_scheduled A"
    "arp_out (given_up ip ie n A) = arp_out A @ replicate n (request_from (arp_ift A) ie ip)"
    "arp_signals (given_up ip ie n A) = arp_signals A @ [InitiatedResolution ip UNSPECIFIED_ADDRESS ie, FailedResolution ip UNSPECIFIED_ADDRESS ie]"
    for n by (simp_all add: given_up_def)
  with run waits given_up_run [OF rel assms(3,4)] show ?thesis by blast
qed

end
