(* ===== verification/ArpExchange.thy ===== *)
theory ArpExchange
  imports ArpRuns
begin

text \<open>
  Two ARP modules on one network: the request of one is answered by the other, and afterwards each knows the
  address of the other.  The theory ends with a small network of concrete nodes, on which the properties of
  the module are applied.
\<close>

section \<open>Request and reply\<close>

lemma rel_of_inv:
  assumes "arp_inv A" "arp_isUp A"
  obtains h where "arp_rel (arp_ift A) (arp_cacheTimeout A) A (True, h)"
  using inv_rel [OF assms] by blast

text \<open>After a packet whose sender has an entry, or that is for an address the module recognizes, the sender is known.\<close>

definition knows :: "IPv4Address \<Rightarrow> MACAddress \<Rightarrow> simtime \<Rightarrow> arp \<Rightarrow> bool" where
  "knows ip mac t A \<longleftrightarrow>
     (\<exists>e. map_of (arp_cache A) ip = Some e \<and> \<not> en_pending e \<and> en_mac e = mac \<and> en_lastUpdate e = t)"

lemma knows_resolves:
  "knows ip mac t A \<Longrightarrow> now \<le> t + arp_cacheTimeout A \<Longrightarrow> resolveL3Address now (L3_IPv4 ip) ie A = Inr (mac, A)"
  by (auto simp: knows_def resolveL3Address_def toIPv4_def)

lemma knows_fields [simp]:
  "knows ip mac t (A\<lparr>arp_rt := T\<rparr>) = knows ip mac t A"
  "knows ip mac t (A\<lparr>arp_out := x\<rparr>) = knows ip mac t A"
  "knows ip mac t (A\<lparr>arp_numRepliesSent := y\<rparr>) = knows ip mac t A"
  by (simp_all add: knows_def)

lemma request_answered:
  assumes "arp_rel ift ct B (True, h)" "packet_ready ift p i" "ap_opcode p = ARP_REQUEST"
    and "isLocalAddress (ap_destIP p) (arp_rt B) = Inr (True, T)"
    and "deref_nic (getInterfaceById i ift) ift = Inr n"
  shows "\<exists>B'. processARPPacket now p (Some i) B = Inr B' \<and> arp_out B' = arp_out B @ [reply_frame p n]
    \<and> knows (ap_srcIP p) (ap_srcMAC p) now B' \<and> arp_cacheTimeout B' = ct"
proof -
  note f = rel_fields [OF assms(1)]
  have mac: "\<not> isUnspecified (ap_srcMAC p)" "\<not> ip_isUnspecified (ap_srcIP p)" using assms(2) by (simp_all add: packet_ready_def)
  obtain n' d where "deref_nic (getInterfaceById i ift) ift = Inr n'" "if_ipv4Data n' = Some d"
    using assms(2) by (auto simp: packet_ready_def elim: nic_readyE)
  with assms(5) have d: "if_ipv4Data n = Some d" by simp
  have local: "arp_addressRecognized (ap_destIP p) ie X = Inr (True, X\<lparr>arp_rt := T\<rparr>)" if "arp_rt X = arp_rt B" for ie X
    using assms(4) that by (simp add: arp_addressRecognized_def Let_def)
  note defs = processARPPacket_def Let_def mac f(6)
  show ?thesis
  proof (cases "map_of (arp_cache B) (ap_srcIP p)")
    case (Some e)
    let ?B = "entry_heard now (ap_srcIP p) (ap_srcMAC p) e B"
    have up: "updateARPCache now (ap_srcIP p) (ap_srcMAC p) B = Inr ?B"
      by (rule updateARPCache_eq [OF Some]) (use f(3) [OF Some] in \<open>simp add: arp_entry_ok_def\<close>)
    have knows: "knows (ap_srcIP p) (ap_srcMAC p) now ?B"
      using map_entry_Some [OF Some] by (simp add: knows_def entry_heard_def heard_entry_def)
    have "arp_rt ?B = arp_rt B" "arp_ift ?B = ift" "arp_out ?B = arp_out B" "arp_cacheTimeout ?B = ct"
      using f(6,7) by (simp_all add: entry_heard_def)
    with knows show ?thesis using arp_answer_eq [OF assms(3) _ d] assms(5) by (simp add: defs Some up local)
  next
    case None
    have rel: "arp_rel ift ct (B\<lparr>arp_rt := rt\<rparr>) (True, h)" if "rt_ready rt" for rt using rel_rt [OF assms(1) that] .
    have "rt_ready T" using isLocalAddress_returns [OF f(5), of "ap_destIP p"] assms(4) by auto
    note up = updateARPCache_new [OF rel [OF this], of "ap_srcIP p" now "ap_srcMAC p"]
    have "map_of (cache_insert (ap_srcIP p) x (arp_cache B)) (ap_srcIP p) = Some x" for x
      using map_of_cache_insert [OF f(1) None] by simp
    then show ?thesis using arp_answer_eq [OF assms(3) _ d] assms(5) f(7) None
      by (simp add: defs local up knows_def heard_entry_def)
  qed
qed

lemma reply_heard:
  assumes "arp_rel ift ct A (True, h)" "packet_ready ift p i" "ap_opcode p = ARP_REPLY" "map_of (arp_cache A) (ap_srcIP p) = Some e"
  shows "\<exists>A'. processARPPacket now p (Some i) A = Inr A' \<and> arp_out A' = arp_out A
    \<and> knows (ap_srcIP p) (ap_srcMAC p) now A' \<and> arp_cacheTimeout A' = ct"
proof -
  note f = rel_fields [OF assms(1)]
  have mac: "\<not> isUnspecified (ap_srcMAC p)" "\<not> ip_isUnspecified (ap_srcIP p)" using assms(2) by (simp_all add: packet_ready_def)
  let ?A = "entry_heard now (ap_srcIP p) (ap_srcMAC p) e A"
  have up: "updateARPCache now (ap_srcIP p) (ap_srcMAC p) A = Inr ?A"
    by (rule updateARPCache_eq [OF assms(4)]) (use f(3) [OF assms(4)] in \<open>simp add: arp_entry_ok_def\<close>)
  have knows: "knows (ap_srcIP p) (ap_srcMAC p) now ?A"
    using map_entry_Some [OF assms(4)] by (simp add: knows_def entry_heard_def heard_entry_def)
  have same: "arp_out ?A = arp_out A" "arp_cacheTimeout ?A = ct" using f(7) by (simp_all add: entry_heard_def)
  obtain b T where b: "arp_addressRecognized (ap_destIP p) (getInterfaceById i ift) ?A = Inr (b, ?A\<lparr>arp_rt := T\<rparr>)"
    using addressRecognized_returns [OF rel_fields(5) [OF rel_heard [OF assms(1,4) mac(1)]]] by blast
  have "arp_answer p ie X = Inr X" for ie X using assms(3) by (simp add: arp_answer_def arp_opcodes)
  with knows same show ?thesis by (simp add: processARPPacket_def Let_def mac f(6) assms(4) up b)
qed

text \<open>
  C10: a resolution that is answered.  A module asks for an address of another one, which it has no entry for; its
  broadcast request reaches the other one, whose own address it asks for; the reply goes back to the sender
  alone, and when it arrives, both know each other: until the timeout of its cache each gives the MAC address of
  the interface the other one used, without sending anything.
\<close>

theorem arp_exchange:
  assumes "arp_inv A" "arp_isUp A" "arp_inv B" "arp_isUp B" "map_of (arp_cache A) ip = None" "\<not> ip_isUnspecified ip"
    and "nic_ready (arp_ift A) ie" "deref_nic ie (arp_ift A) = Inr nA" "if_ipv4Data nA = Some dA"
    and "nic_ready (arp_ift B) (getInterfaceById iB (arp_ift B))"
    and "deref_nic (getInterfaceById iB (arp_ift B)) (arp_ift B) = Inr nB" "isLocalAddress ip (arp_rt B) = Inr (True, T)"
    and "nic_ready (arp_ift A) (getInterfaceById iA (arp_ift A))"
  shows "\<exists>A1 B1 A2 req rep. resolveL3Address t (L3_IPv4 ip) ie A = Inr (UNSPECIFIED_ADDRESS, A1)
    \<and> arp_out A1 = arp_out A @ [req] \<and> fr_dest req = BROADCAST_ADDRESS \<and> fr_interfaceId req = nic_id nA
    \<and> arp_handleMessage t1 (ArpMessage (fr_packet req) (Some iB)) B = Inr B1
    \<and> arp_out B1 = arp_out B @ [rep] \<and> fr_dest rep = nic_mac nA \<and> fr_interfaceId rep = nic_id nB
    \<and> arp_handleMessage t2 (ArpMessage (fr_packet rep) (Some iA)) A1 = Inr A2 \<and> arp_out A2 = arp_out A1
    \<and> (\<forall>now ie. now \<le> t2 + arp_cacheTimeout A \<longrightarrow> resolveL3Address now (L3_IPv4 ip) ie A2 = Inr (nic_mac nB, A2))
    \<and> (\<forall>now ie. now \<le> t1 + arp_cacheTimeout B \<longrightarrow>
         resolveL3Address now (L3_IPv4 (id_inetAddr dA)) ie B1 = Inr (nic_mac nA, B1))"
proof -
  obtain hA where relA: "arp_rel (arp_ift A) (arp_cacheTimeout A) A (True, hA)" by (rule rel_of_inv [OF assms(1,2)])
  obtain hB where relB: "arp_rel (arp_ift B) (arp_cacheTimeout B) B (True, hB)" by (rule rel_of_inv [OF assms(3,4)])
  let ?req = "request_frame nA dA ip" and ?rep = "reply_frame (fr_packet (request_frame nA dA ip)) nB"
  let ?A1 = "resolution_started t ip ie (cache_insert ip (waiting_entry ie (arp_fresh A)) (arp_cache A)) A"
  have A1: "resolveL3Address t (L3_IPv4 ip) ie A = Inr (UNSPECIFIED_ADDRESS, ?A1)" by (rule resolve_absent [OF relA assms(5,7)])
  have rel1: "arp_rel (arp_ift A) (arp_cacheTimeout A) ?A1 (True, hA)"
    using resolve_step [OF relA assms(7), of ip t] A1 by simp
  have out: "arp_out ?A1 = arp_out A @ [?req]" using assms(8,9) by (simp add: resolution_started_def request_from_def)
  have specified: "\<not> isUnspecified (nic_mac nA)" "\<not> ip_isUnspecified (id_inetAddr dA)" "\<not> isUnspecified (nic_mac nB)"
    using assms(7-11) by (auto elim!: nic_readyE)
  have "packet_ready (arp_ift B) (fr_packet ?req) iB"
    using assms(10) specified by (simp add: packet_ready_def request_frame_def)
  then obtain B1 where B1: "processARPPacket t1 (fr_packet ?req) (Some iB) B = Inr B1" "arp_out B1 = arp_out B @ [?rep]"
    "knows (id_inetAddr dA) (nic_mac nA) t1 B1" "arp_cacheTimeout B1 = arp_cacheTimeout B"
    using request_answered [OF relB, of "fr_packet ?req" iB T nB t1] assms(11,12) by (auto simp: request_frame_def)
  have entry: "map_of (arp_cache ?A1) ip = Some (waiting_entry ie (arp_fresh A))"
    using map_of_cache_insert [OF rel_fields(1) [OF relA] assms(5)] by (simp add: resolution_started_def)
  have "packet_ready (arp_ift A) (fr_packet ?rep) iA"
    using assms(6,13) specified by (simp add: packet_ready_def request_frame_def reply_frame_def)
  then obtain A2 where A2: "processARPPacket t2 (fr_packet ?rep) (Some iA) ?A1 = Inr A2" "arp_out A2 = arp_out ?A1"
    "knows ip (nic_mac nB) t2 A2" "arp_cacheTimeout A2 = arp_cacheTimeout A"
    using reply_heard [OF rel1, of "fr_packet ?rep" iA _ t2] entry by (auto simp: request_frame_def reply_frame_def)
  have up: "arp_isUp ?A1" using assms(2) by (simp add: resolution_started_def)
  show ?thesis
  proof (intro exI conjI)
    show "arp_handleMessage t1 (ArpMessage (fr_packet ?req) (Some iB)) B = Inr B1"
      using B1(1) assms(4) by (simp add: arp_handleMessage_def)
    show "arp_handleMessage t2 (ArpMessage (fr_packet ?rep) (Some iA)) ?A1 = Inr A2"
      using A2(1) up by (simp add: arp_handleMessage_def)
    show "\<forall>now ie. now \<le> t2 + arp_cacheTimeout A \<longrightarrow> resolveL3Address now (L3_IPv4 ip) ie A2 = Inr (nic_mac nB, A2)"
      using knows_resolves [OF A2(3)] A2(4) by simp
    show "\<forall>now ie. now \<le> t1 + arp_cacheTimeout B \<longrightarrow>
        resolveL3Address now (L3_IPv4 (id_inetAddr dA)) ie B1 = Inr (nic_mac nA, B1)"
      using knows_resolves [OF B1(3)] B1(4) by simp
  qed (use A1 out B1 A2 in \<open>simp_all add: request_frame_def reply_frame_def\<close>)
qed

section \<open>A small network\<close>

text \<open>Hosts with one Ethernet interface, of id 100, and addresses in 10.0.0.0/24.\<close>

definition host_data :: "IPv4Address \<Rightarrow> ipv4_data" where
  "host_data ip = \<lparr>id_inetAddr = ip, id_netmask = IPv4Address 0xFFFFFF00, id_metric = 1, id_joinedGroups = []\<rparr>"

definition sample_nic :: "MACAddress \<Rightarrow> IPv4Address \<Rightarrow> nic" where
  "sample_nic mac ip = \<lparr>if_ptr = 7, if_fullName = ''eth0'', if_loopback = False, if_broadcast = True, if_multicast = True,
     if_ipv4Data = Some (host_data ip), nic_id = 100, nic_mac = mac, nic_gate = 0\<rparr>"

definition sample_rt :: "IPv4Address \<Rightarrow> routing_table" where
  "sample_rt ip = rt_empty False False (\<lambda>n. True) [\<lparr>if_ptr = 7, if_fullName = ''eth0'', if_loopback = False,
     if_broadcast = True, if_multicast = True, if_ipv4Data = Some (host_data ip)\<rparr>]"

definition sample_arp :: "MACAddress \<Rightarrow> IPv4Address \<Rightarrow> arp" where
  "sample_arp mac ip = arp_initialize (SimTime_s 1) 3 (SimTime_s 120) False True [Some (sample_nic mac ip)] (sample_rt ip)"

definition mac1 :: MACAddress where "mac1 = MACAddress 0x0AAA00000001"
definition mac2 :: MACAddress where "mac2 = MACAddress 0x0AAA00000002"
definition ip1 :: IPv4Address where "ip1 = IPv4Address 0x0A000001"
definition ip2 :: IPv4Address where "ip2 = IPv4Address 0x0A000002"

lemma sample_addresses [simp]:
  "\<not> isUnspecified mac1" "\<not> isUnspecified mac2" "\<not> ip_isUnspecified ip1" "\<not> ip_isUnspecified ip2" "ip1 \<noteq> ip2"
  by (simp_all add: isUnspecified_def ip_isUnspecified_def mac1_def mac2_def ip1_def ip2_def)

lemma sample_interface_id [simp]: "getInterfaceById 100 [Some (sample_nic mac ip)] = Some 7"
  by (simp add: getInterfaceById_def INTERFACEIDS_START_def sample_nic_def)

lemma sample_deref [simp]: "deref_nic (Some 7) [Some (sample_nic mac ip)] = Inr (sample_nic mac ip)"
  by (simp add: deref_nic_def sample_nic_def map_filter_def)

lemma sample_ready [simp]:
  "nic_ready [Some (sample_nic mac ip)] (Some 7) \<longleftrightarrow> \<not> isUnspecified mac \<and> \<not> ip_isUnspecified ip"
  unfolding nic_ready_def sample_deref by (simp add: sample_nic_def host_data_def)

lemma sample_rt_ready [simp]: "rt_ready (sample_rt ip)"
  by (auto simp: rt_ready_def sample_rt_def rt_inv_def rt_core_def cache_ok_def rt_empty_def)

lemma sample_arp_fields [simp]:
  "arp_ift (sample_arp mac ip) = [Some (sample_nic mac ip)]" "arp_isUp (sample_arp mac ip)"
  "arp_cache (sample_arp mac ip) = []" "arp_cacheTimeout (sample_arp mac ip) = SimTime_s 120"
  "arp_retryCount (sample_arp mac ip) = 3" "arp_rt (sample_arp mac ip) = sample_rt ip" "arp_out (sample_arp mac ip) = []"
  by (simp_all add: sample_arp_def arp_initialize_def)

lemma sample_rel: "arp_rel [Some (sample_nic mac ip)] (SimTime_s 120) (sample_arp mac ip) (True, Map.empty)"
  using rel_initialize [of "SimTime_s 1" "sample_rt ip"] by (simp add: sample_arp_def SimTime_s_def)

lemma host_inv: "arp_inv (sample_arp mac ip)"
  using sample_rel by (simp add: arp_rel_def)

text \<open>Host 1 asks for host 2, and a reply of host 2 arrives.\<close>

definition sample_reply :: arp_packet where
  "sample_reply = \<lparr>ap_name = ''arpREPLY'', ap_byteLength = 28, ap_opcode = ARP_REPLY, ap_srcMAC = mac2, ap_destMAC = mac1,
     ap_srcIP = ip2, ap_destIP = ip1\<rparr>"

definition sample_ops :: "arp_op list" where
  "sample_ops = [Asks 0 ip2 (Some 7), Arrives 5 sample_reply 100]"

lemma sample_packet_ready: "packet_ready [Some (sample_nic mac1 ip1)] sample_reply 100"
  by (simp add: packet_ready_def sample_reply_def)

lemma sample_run:
  "\<exists>A. run_result arp_exec sample_ops (sample_arp mac1 ip1) = Inr A \<and> resolveL3Address 10 (L3_IPv4 ip2) (Some 7) A = Inr (mac2, A)"
proof -
  note rel = sample_rel [of mac1 ip1]
  let ?A1 = "resolution_started 0 ip2 (Some 7) (cache_insert ip2 (waiting_entry (Some 7) (arp_fresh (sample_arp mac1 ip1))) []) (sample_arp mac1 ip1)"
  have A1: "resolveL3Address 0 (L3_IPv4 ip2) (Some 7) (sample_arp mac1 ip1) = Inr (UNSPECIFIED_ADDRESS, ?A1)"
    using resolve_absent [OF rel, where ie = "Some 7" and ip = ip2 and now = 0] by simp
  have rel1: "arp_rel [Some (sample_nic mac1 ip1)] (SimTime_s 120) ?A1 (True, Map.empty)"
    using resolve_step [OF rel, where ie = "Some 7" and ip = ip2 and now = 0] A1 by simp
  obtain A2 where "processARPPacket 5 sample_reply (Some 100) ?A1 = Inr A2" "knows ip2 mac2 5 A2" "arp_cacheTimeout A2 = SimTime_s 120"
    using reply_heard [OF rel1 sample_packet_ready, where now = 5] by (auto simp: sample_reply_def resolution_started_def)
  moreover have "arp_isUp ?A1" by (simp add: resolution_started_def)
  ultimately show ?thesis using A1 knows_resolves [where ip = ip2 and mac = mac2 and t = 5 and now = 10 and ie = "Some 7"]
    by (simp add: sample_ops_def arp_handleMessage_def SimTime_s_def)
qed

theorem arp_resolution_sound_witness:
  "\<exists>A. run_result arp_exec sample_ops (sample_arp mac1 ip1) = Inr A
    \<and> resolveL3Address 10 (L3_IPv4 ip2) (Some 7) A = Inr (mac2, A)
    \<and> (\<exists>t. snd (fold arp_spec sample_ops (True, Map.empty)) ip2 = Some (mac2, t) \<and> 10 \<le> t + SimTime_s 120)"
proof -
  obtain A where A: "run_result arp_exec sample_ops (sample_arp mac1 ip1) = Inr A"
    "resolveL3Address 10 (L3_IPv4 ip2) (Some 7) A = Inr (mac2, A)" using sample_run by blast
  have "legal_run (arp_pre [Some (sample_nic mac1 ip1)]) arp_spec sample_ops (True, Map.empty)"
    by (simp add: sample_ops_def sample_packet_ready)
  from arp_resolution_sound [OF _ sample_rt_ready this, of "SimTime_s 1" 3 "SimTime_s 120" False ip1]
  have "\<exists>B. run_result arp_exec sample_ops (sample_arp mac1 ip1) = Inr B \<and>
      (\<forall>now ip ie mac A'. resolveL3Address now (L3_IPv4 ip) ie B = Inr (mac, A') \<longrightarrow> \<not> isUnspecified mac \<longrightarrow>
         A' = B \<and> (\<exists>t. snd (fold arp_spec sample_ops (True, Map.empty)) ip = Some (mac, t) \<and> now \<le> t + SimTime_s 120))"
    unfolding sample_arp_def by (auto simp: SimTime_s_def)
  with A show ?thesis using sample_addresses(2) by fastforce
qed

theorem arp_gives_up_witness:
  "\<exists>B. run_result arp_exec [Asks 0 ip2 (Some 7), TimerFires 0, TimerFires 0, TimerFires 0] (sample_arp mac1 ip1) = Inr B
    \<and> arp_cache B = [] \<and> arp_out B = replicate 3 (request_frame (sample_nic mac1 ip1) (host_data ip1) ip2)"
proof -
  have fresh: "arp_fresh (sample_arp mac1 ip1) = 0" by (simp add: sample_arp_def arp_initialize_def)
  have req: "request_from [Some (sample_nic mac1 ip1)] (Some 7) ip2 = request_frame (sample_nic mac1 ip1) (host_data ip1) ip2"
    by (simp add: request_from_def) (simp add: sample_nic_def)
  from arp_gives_up [OF host_inv, where ip = ip2 and ie = "Some 7" and t = 0, of mac1 ip1] show ?thesis
    by (auto simp: fresh req numeral_3_eq_3 simp del: arp_exec.simps)
qed

theorem arp_exchange_witness:
  "\<exists>A1 B1 A2 req rep. resolveL3Address 0 (L3_IPv4 ip2) (Some 7) (sample_arp mac1 ip1) = Inr (UNSPECIFIED_ADDRESS, A1)
    \<and> arp_out A1 = [req] \<and> arp_handleMessage 1 (ArpMessage (fr_packet req) (Some 100)) (sample_arp mac2 ip2) = Inr B1
    \<and> arp_out B1 = [rep] \<and> arp_handleMessage 2 (ArpMessage (fr_packet rep) (Some 100)) A1 = Inr A2
    \<and> resolveL3Address 9 (L3_IPv4 ip2) (Some 7) A2 = Inr (mac2, A2) \<and> resolveL3Address 9 (L3_IPv4 ip1) (Some 7) B1 = Inr (mac1, B1)"
proof -
  have local: "isLocalAddress ip2 (sample_rt ip2) = Inr (True, (sample_rt ip2)\<lparr>rt_localAddresses := {ip2}\<rparr>)"
    by (simp add: isLocalAddress_def sample_rt_def rt_empty_def host_data_def)
  have nic: "if_ipv4Data (sample_nic mac ip) = Some (host_data ip)" "nic_mac (sample_nic mac ip) = mac"
    "id_inetAddr (host_data ip) = ip" for mac ip by (simp_all add: sample_nic_def host_data_def)
  from arp_exchange [OF host_inv [of mac1 ip1] _ host_inv [of mac2 ip2], where ip = ip2 and ie = "Some 7" and iA = 100
      and iB = 100 and t = 0 and ?t1.0 = 1 and ?t2.0 = 2 and nA = "sample_nic mac1 ip1" and nB = "sample_nic mac2 ip2"
      and dA = "host_data ip1"] local
  obtain A1 B1 A2 req rep where "resolveL3Address 0 (L3_IPv4 ip2) (Some 7) (sample_arp mac1 ip1) = Inr (UNSPECIFIED_ADDRESS, A1)"
    "arp_out A1 = [req]" "arp_handleMessage 1 (ArpMessage (fr_packet req) (Some 100)) (sample_arp mac2 ip2) = Inr B1"
    "arp_out B1 = [rep]" "arp_handleMessage 2 (ArpMessage (fr_packet rep) (Some 100)) A1 = Inr A2"
    "\<forall>now ie. now \<le> 2 + SimTime_s 120 \<longrightarrow> resolveL3Address now (L3_IPv4 ip2) ie A2 = Inr (mac2, A2)"
    "\<forall>now ie. now \<le> 1 + SimTime_s 120 \<longrightarrow> resolveL3Address now (L3_IPv4 ip1) ie B1 = Inr (mac1, B1)"
    by (auto simp: nic)
  moreover have "9 \<le> 2 + SimTime_s 120" "9 \<le> 1 + SimTime_s 120" by (simp_all add: SimTime_s_def)
  ultimately show ?thesis by blast
qed

end
