(* ===== verification/Ipv4OutputRuns.thy ===== *)
theory Ipv4OutputRuns
  imports Ipv4Output "HOL-Library.Multiset"
begin

text \<open>
  The composition of IPv4 and ARP on every run: what the operations of the ARP module report by their signals
  is what the queues of IPv4 need, so that a queue exists only for a next hop whose resolution is under way,
  no datagram is lost or sent twice, and the assertion of the sending operation holds.
\<close>

section \<open>What ARP reports\<close>

definition waiting :: "arp \<Rightarrow> IPv4Address \<Rightarrow> bool" where
  "waiting A ip \<longleftrightarrow> (\<exists>e. map_of (arp_cache A) ip = Some e \<and> en_pending e)"

definition resolutions_over :: "arp_signal list \<Rightarrow> IPv4Address set" where
  "resolutions_over S = {ip. \<exists>mac ie. CompletedResolution ip mac ie \<in> set S \<or> FailedResolution ip mac ie \<in> set S}"

lemma resolutions_over_simps [simp]:
  "resolutions_over [] = {}"
  "resolutions_over (CompletedResolution ip mac ie # S) = insert ip (resolutions_over S)"
  "resolutions_over (FailedResolution ip mac ie # S) = insert ip (resolutions_over S)"
  "resolutions_over (InitiatedResolution ip mac ie # S) = resolutions_over S"
  by (auto simp: resolutions_over_def)

text \<open>
  Every resolution that is over has been reported, and one that has completed is reported with an interface
  that exists.
\<close>

definition reports :: "arp \<Rightarrow> arp_signal list \<Rightarrow> arp \<Rightarrow> bool" where
  "reports A S A' \<longleftrightarrow> arp_signals A' = arp_signals A @ S \<and> arp_ift A' = arp_ift A
     \<and> (\<forall>ip. waiting A ip \<longrightarrow> \<not> waiting A' ip \<longrightarrow> ip \<in> resolutions_over S)
     \<and> (\<forall>ip mac ie. CompletedResolution ip mac ie \<in> set S \<longrightarrow> waiting A ip \<longrightarrow> nic_ready (arp_ift A) ie)"

lemma answer_fields:
  assumes "arp_answer p ie A = Inr A'"
  shows "arp_cache A' = arp_cache A" "arp_signals A' = arp_signals A" "arp_ift A' = arp_ift A"
  using assms by (auto simp: arp_answer_def arp_sendPacketToNIC_def bind_result_Inr_iff split: if_splits)

lemma recognized_fields:
  assumes "arp_addressRecognized dest ie A = Inr (b, A')"
  shows "arp_cache A' = arp_cache A" "arp_signals A' = arp_signals A" "arp_ift A' = arp_ift A"
proof -
  have "\<exists>T. A' = A\<lparr>arp_rt := T\<rparr>"
  proof (cases "isLocalAddress dest (arp_rt A)")
    case (Inr r)
    obtain loc T where r: "r = (loc, T)" by (cases r)
    show ?thesis
    proof (cases "getInterfaceForDestAddr dest T")
      case (Inl e)
      then show ?thesis using assms Inr r by (simp add: arp_addressRecognized_def Let_def split: if_splits) blast+
    next
      case (Inr q)
      then show ?thesis using assms \<open>isLocalAddress dest (arp_rt A) = Inr r\<close> r
        by (cases q) (simp add: arp_addressRecognized_def Let_def split: if_splits, blast+)
    qed
  qed (use assms in \<open>simp add: arp_addressRecognized_def\<close>)
  then show "arp_cache A' = arp_cache A" "arp_signals A' = arp_signals A" "arp_ift A' = arp_ift A" by auto
qed

lemma waiting_same: "arp_cache A' = arp_cache A \<Longrightarrow> waiting A' = waiting A"
  by (simp add: waiting_def fun_eq_iff)

lemma reports_then:
  assumes "reports A S B" "arp_cache A' = arp_cache B" "arp_signals A' = arp_signals B" "arp_ift A' = arp_ift B"
  shows "reports A S A'"
  using assms by (simp add: reports_def waiting_same [OF assms(2)])

lemma reports_nothing: "reports A [] A"
  by (simp add: reports_def)

lemma heard_reports:
  assumes "arp_rel ift ct A (True, h)" "map_of (arp_cache A) ip = Some e"
  shows "reports A [CompletedResolution ip mac (en_ie e)] (entry_heard now ip mac e A)"
proof -
  note f = rel_fields [OF assms(1)]
  have "waiting A ip \<Longrightarrow> nic_ready (arp_ift A) (en_ie e)"
    using f(3) [OF assms(2)] f(6) assms(2) by (simp add: waiting_def arp_entry_ok_def)
  moreover have "waiting (entry_heard now ip mac e A) k \<longleftrightarrow> k \<noteq> ip \<and> waiting A k" for k
    using map_of_set_entry [OF assms(2)] by (simp add: waiting_def entry_heard_def heard_entry_def)
  ultimately show ?thesis by (auto simp: reports_def entry_heard_def)
qed

lemma new_reports:
  assumes "arp_rel ift ct A (True, h)" "map_of (arp_cache A) ip = None"
    and "updateARPCache now ip mac (insert_entry ip (new_entry ie) A) = Inr A'"
  shows "reports A [CompletedResolution ip mac ie] A'"
proof -
  have A': "A' = A\<lparr>arp_cache := cache_insert ip (heard_entry now mac (new_entry ie)) (arp_cache A),
      arp_signals := arp_signals A @ [CompletedResolution ip mac ie]\<rparr>"
    using updateARPCache_new [OF assms(1,2)] assms(3) by simp
  have "waiting A' k \<longleftrightarrow> waiting A k" for k
    using map_of_cache_insert [OF rel_fields(1) [OF assms(1)] assms(2)] assms(2) by (simp add: A' waiting_def heard_entry_def)
  moreover have "\<not> waiting A ip" using assms(2) by (simp add: waiting_def)
  ultimately show ?thesis by (auto simp: reports_def A')
qed

lemma packet_completes:
  assumes "arp_rel ift ct A (True, h)" "packet_ready ift p i" "processARPPacket now p (Some i) A = Inr A'"
    and "map_of (arp_cache A) (ap_srcIP p) = Some e"
  shows "reports A [CompletedResolution (ap_srcIP p) (ap_srcMAC p) (en_ie e)] A'"
proof -
  let ?ie = "getInterfaceById i ift" and ?ip = "ap_srcIP p" and ?mac = "ap_srcMAC p"
  note f = rel_fields [OF assms(1)]
  have mac: "\<not> isUnspecified ?mac" "\<not> ip_isUnspecified ?ip" using assms(2) by (simp_all add: packet_ready_def)
  have up: "updateARPCache now ?ip ?mac A = Inr (entry_heard now ?ip ?mac e A)"
    by (rule updateARPCache_eq [OF assms(4)]) (use f(3) [OF assms(4)] in \<open>simp add: arp_entry_ok_def\<close>)
  obtain b B where B: "arp_addressRecognized (ap_destIP p) ?ie (entry_heard now ?ip ?mac e A) = Inr (b, B)"
    "if b then arp_answer p ?ie B = Inr A' else A' = B"
    using assms(3) by (auto simp: processARPPacket_def Let_def mac f(6) bind_result_Inr_iff assms(4) up split: if_splits)
  note r = reports_then [OF heard_reports [OF assms(1,4)] recognized_fields [OF B(1)]]
  show ?thesis
  proof (cases b)
    case True
    with B(2) have "arp_answer p ?ie B = Inr A'" by simp
    from reports_then [OF r answer_fields [OF this]] show ?thesis .
  next
    case False
    then show ?thesis using B(2) r by simp
  qed
qed

lemma packet_reports:
  assumes "arp_rel ift ct A (True, h)" "packet_ready ift p i" "processARPPacket now p (Some i) A = Inr A'"
  shows "\<exists>S. reports A S A'"
proof -
  let ?ie = "getInterfaceById i ift" and ?ip = "ap_srcIP p" and ?mac = "ap_srcMAC p"
  note f = rel_fields [OF assms(1)]
  have mac: "\<not> isUnspecified ?mac" "\<not> ip_isUnspecified ?ip" using assms(2) by (simp_all add: packet_ready_def)
  note defs = processARPPacket_def Let_def mac f(6) bind_result_Inr_iff
  show ?thesis
  proof (cases "map_of (arp_cache A) ?ip")
    case (Some e)
    then show ?thesis using packet_completes [OF assms] by blast
  next
    case None
    obtain b B where B: "arp_addressRecognized (ap_destIP p) ?ie A = Inr (b, B)"
      "if b then \<exists>C. updateARPCache now ?ip ?mac (insert_entry ?ip (new_entry ?ie) B) = Inr C \<and> arp_answer p ?ie C = Inr A' else A' = B"
      using assms(3) by (auto simp: defs None split: if_splits)
    obtain b' T where T: "arp_addressRecognized (ap_destIP p) ?ie A = Inr (b', A\<lparr>arp_rt := T\<rparr>)" "rt_ready T"
      using addressRecognized_returns [OF f(5)] by blast
    with B(1) have BT: "B = A\<lparr>arp_rt := T\<rparr>" by simp
    have same: "reports A S C \<longleftrightarrow> reports B S C" for S C by (simp add: BT reports_def waiting_def)
    show ?thesis
    proof (cases b)
      case True
      with B(2) obtain C where C: "updateARPCache now ?ip ?mac (insert_entry ?ip (new_entry ?ie) B) = Inr C" "arp_answer p ?ie C = Inr A'"
        by auto
      have "reports B [CompletedResolution ?ip ?mac ?ie] C"
        by (rule new_reports [OF _ _ C(1)]) (use rel_rt [OF assms(1) T(2)] None BT in auto)
      then have "reports A [CompletedResolution ?ip ?mac ?ie] C" unfolding same .
      from reports_then [OF this answer_fields [OF C(2)]] show ?thesis by blast
    next
      case False
      then show ?thesis using B(2) reports_nothing [of B] same by auto
    qed
  qed
qed

lemma fire_reports:
  assumes "arp_rel ift ct A (True, h)" "fire_timer m A = Inr A'"
  shows "\<exists>S. reports A S A'"
proof (cases "map_of (arp_scheduled A) m")
  case None
  then show ?thesis using assms(2) reports_nothing by (auto simp: fire_timer_def)
next
  case (Some x)
  note f = rel_fields [OF assms(1)]
  obtain t ip where x: "x = (t, ip)" by (cases x)
  with Some have in_S: "(m, t, ip) \<in> set (arp_scheduled A)" by (auto dest: map_of_SomeD)
  obtain e where e: "map_of (arp_cache A) ip = Some e" "nic_ready ift (en_ie e)" "en_pending e"
    by (rule scheduled_entry [OF assms(1) in_S]) blast
  have A': "A' = (if en_numRetries e + 1 < arp_retryCount A then request_repeated t m ip e A else resolution_failed m ip e A)"
    using timeout_eq [OF e(1)] e(2) f(4,6,8) assms(2) by (simp add: fire_timer_def Some x arp_handleMessage_def)
  have "waiting (request_repeated t m ip e A) k \<longleftrightarrow> waiting A k" for k
    using map_of_set_entry [OF e(1)] e(1,3) by (simp add: waiting_def request_repeated_def)
  then have "reports A [] (request_repeated t m ip e A)" by (simp add: reports_def) (simp add: request_repeated_def)
  moreover have "waiting (resolution_failed m ip e A) k \<longleftrightarrow> k \<noteq> ip \<and> waiting A k" for k
    by (auto simp: waiting_def resolution_failed_def AList.delete_conv')
  then have "reports A [FailedResolution ip UNSPECIFIED_ADDRESS (en_ie e)] (resolution_failed m ip e A)"
    by (simp add: reports_def) (simp add: resolution_failed_def)
  ultimately show ?thesis unfolding A' by auto
qed

lemma started_reports:
  assumes "map_of c = (map_of (arp_cache A))(ip \<mapsto> waiting_entry ie m)"
  shows "reports A [InitiatedResolution ip UNSPECIFIED_ADDRESS ie] (resolution_started now ip ie c A)"
    "waiting (resolution_started now ip ie c A) ip"
  using assms by (auto simp: reports_def resolution_started_def waiting_def waiting_entry_def)

section \<open>Delivering the signals\<close>

definition queued :: "'p ip_node \<Rightarrow> 'p out_datagram multiset" where
  "queued X = \<Sum>\<^sub># (mset (map (\<lambda>(ip, q). mset q) (ipn_pending X)))"

text \<open>Every datagram IPv4 holds or is done with.\<close>

definition accounted :: "'p ip_node \<Rightarrow> 'p out_datagram multiset" where
  "accounted X = mset (map nf_packet (ipn_sent X)) + queued X + mset (ipn_deleted X)"

lemma queued_concat: "queued X = mset (concat (map snd (ipn_pending X)))"
proof -
  have "\<Sum>\<^sub># (mset (map (\<lambda>(ip, q). mset q) P)) = mset (concat (map snd P))" for P :: "(IPv4Address \<times> 'a out_datagram list) list"
    by (induction P) auto
  then show ?thesis by (simp add: queued_def)
qed

lemma queued_none: "ipn_pending X = [] \<Longrightarrow> queued X = {#}"
  by (simp add: queued_def)

lemma queued_delete:
  assumes "distinct (map fst P)" "map_of P ip = Some q"
  shows "\<Sum>\<^sub># (mset (map (\<lambda>(ip, q). mset q) P)) = mset q + \<Sum>\<^sub># (mset (map (\<lambda>(ip, q). mset q) (AList.delete ip P)))"
  using assms
proof (induction P)
  case (Cons x P)
  obtain k r where x: "x = (k, r)" by (cases x)
  show ?case
  proof (cases "k = ip")
    case True
    then have "ip \<notin> fst ` set P" using Cons.prems(1) x by simp
    then have "AList.delete ip P = P" by (force simp: AList.delete_eq intro: filter_True)
    then show ?thesis using True Cons.prems(2) x by simp
  next
    case False
    then show ?thesis using Cons x by (simp add: ac_simps)
  qed
qed simp

lemma queue_sent:
  assumes "nic_ready (arp_ift (ipn_arp X)) ie"
  shows "\<exists>g. run_result (\<lambda>d. sendPacketToIeee802NIC d ie mac et) q X
    = Inr (X\<lparr>ipn_sent := ipn_sent X @ map (\<lambda>d. \<lparr>nf_packet = d, nf_ctrl = Some (mac, et), nf_gate = g\<rparr>) q\<rparr>)"
proof -
  obtain n d where n: "deref_nic ie (arp_ift (ipn_arp X)) = Inr n" using assms by (rule nic_readyE)
  have "run_result (\<lambda>d. sendPacketToIeee802NIC d ie mac et) q Y
    = Inr (Y\<lparr>ipn_sent := ipn_sent Y @ map (\<lambda>d. \<lparr>nf_packet = d, nf_ctrl = Some (mac, et), nf_gate = nic_gate n\<rparr>) q\<rparr>)"
    if "ipn_arp Y = ipn_arp X" for Y
    using that by (induction q arbitrary: Y) (simp_all add: sendPacketToIeee802NIC_def ip_sendPacketToNIC_def n)
  then show ?thesis by blast
qed

lemma restrict_all [simp]: "m |` UNIV = m"
  by (simp add: restrict_map_def)

text \<open>The part of a node the handlers of the signals leave alone.\<close>

definition same_frame :: "'p ip_node \<Rightarrow> 'p ip_node \<Rightarrow> bool" where
  "same_frame X Y \<longleftrightarrow> ipn_arp Y = ipn_arp X \<and> ipn_isUp Y = ipn_isUp X \<and> ipn_useProxyARP Y = ipn_useProxyARP X \<and> accounted Y = accounted X"

lemma map_of_dropped: "map_of (AList.delete ip P) = map_of P |` (- {ip})"
  by (simp add: AList.delete_conv' restrict_complement_singleton_eq)

lemma absent_dropped: "m ip = None \<Longrightarrow> m |` (- {ip}) = m"
  by (auto simp: restrict_map_def fun_eq_iff)

lemma accounted_dropped:
  assumes "distinct (map fst (ipn_pending X))" "map_of (ipn_pending X) ip = Some q"
    and "ipn_pending Y = AList.delete ip (ipn_pending X)"
    and "mset (map nf_packet (ipn_sent Y)) + mset (ipn_deleted Y) = mset (map nf_packet (ipn_sent X)) + mset (ipn_deleted X) + mset q"
  shows "accounted Y = accounted X"
proof -
  have "queued X = mset q + queued Y" unfolding queued_def assms(3) by (rule queued_delete [OF assms(1,2)])
  then have "accounted X = (mset (map nf_packet (ipn_sent X)) + mset (ipn_deleted X) + mset q) + queued Y"
    by (simp add: accounted_def)
  also have "\<dots> = accounted Y" unfolding assms(4) [symmetric] by (simp add: accounted_def)
  finally show ?thesis by simp
qed

lemma signal_handled:
  assumes "distinct (map fst (ipn_pending X))"
    and "\<And>ip mac ie. s = CompletedResolution ip mac ie \<Longrightarrow> map_of (ipn_pending X) ip \<noteq> None \<Longrightarrow> nic_ready (arp_ift (ipn_arp X)) ie"
  shows "\<exists>Y. ip_receiveSignal s X = Inr Y \<and> same_frame X Y \<and> distinct (map fst (ipn_pending Y))
    \<and> map_of (ipn_pending Y) = map_of (ipn_pending X) |` (- resolutions_over [s])"
proof (cases s)
  case (InitiatedResolution ip mac ie)
  then show ?thesis using assms(1) by (simp add: same_frame_def)
next
  case (FailedResolution ip mac ie)
  show ?thesis
  proof (cases "map_of (ipn_pending X) ip")
    case None
    then show ?thesis using FailedResolution assms(1) absent_dropped [of "map_of (ipn_pending X)" ip]
      by (simp add: same_frame_def arpResolutionTimedOut_def)
  next
    case (Some q)
    let ?Y = "X\<lparr>ipn_pending := AList.delete ip (ipn_pending X), ipn_deleted := ipn_deleted X @ q\<rparr>"
    have "accounted ?Y = accounted X" by (rule accounted_dropped [OF assms(1) Some]) simp_all
    then have "same_frame X ?Y" by (simp add: same_frame_def)
    moreover have "ip_receiveSignal s X = Inr ?Y" using FailedResolution Some by (simp add: arpResolutionTimedOut_def)
    ultimately show ?thesis using FailedResolution assms(1) map_of_dropped [of ip "ipn_pending X"]
      by (intro exI [of _ ?Y]) (simp add: AList.distinct_delete)
  qed
next
  case (CompletedResolution ip mac ie)
  show ?thesis
  proof (cases "map_of (ipn_pending X) ip")
    case None
    then show ?thesis using CompletedResolution assms(1) absent_dropped [of "map_of (ipn_pending X)" ip]
      by (simp add: same_frame_def arpResolutionCompleted_def)
  next
    case (Some q)
    then obtain g where sent: "run_result (\<lambda>d. sendPacketToIeee802NIC d ie mac ETHERTYPE_IPv4) q X
      = Inr (X\<lparr>ipn_sent := ipn_sent X @ map (\<lambda>d. \<lparr>nf_packet = d, nf_ctrl = Some (mac, ETHERTYPE_IPv4), nf_gate = g\<rparr>) q\<rparr>)"
      using queue_sent [OF assms(2) [OF CompletedResolution]] by (metis option.distinct(1))
    let ?Y = "X\<lparr>ipn_sent := ipn_sent X @ map (\<lambda>d. \<lparr>nf_packet = d, nf_ctrl = Some (mac, ETHERTYPE_IPv4), nf_gate = g\<rparr>) q,
        ipn_pending := AList.delete ip (ipn_pending X)\<rparr>"
    have "accounted ?Y = accounted X" by (rule accounted_dropped [OF assms(1) Some]) (simp_all add: comp_def)
    then have "same_frame X ?Y" by (simp add: same_frame_def)
    moreover have "ip_receiveSignal s X = Inr ?Y" using CompletedResolution Some sent by (simp add: arpResolutionCompleted_def)
    ultimately show ?thesis using CompletedResolution assms(1) map_of_dropped [of ip "ipn_pending X"]
      by (intro exI [of _ ?Y]) (simp add: AList.distinct_delete)
  qed
qed

lemma signals_handled:
  assumes "distinct (map fst (ipn_pending X))"
    and "\<And>ip mac ie. CompletedResolution ip mac ie \<in> set S \<Longrightarrow> map_of (ipn_pending X) ip \<noteq> None \<Longrightarrow> nic_ready (arp_ift (ipn_arp X)) ie"
  shows "\<exists>Y. run_result ip_receiveSignal S X = Inr Y \<and> same_frame X Y \<and> distinct (map fst (ipn_pending Y))
    \<and> map_of (ipn_pending Y) = map_of (ipn_pending X) |` (- resolutions_over S)"
  using assms
proof (induction S arbitrary: X)
  case Nil
  then show ?case by (simp add: same_frame_def)
next
  case (Cons s S)
  obtain Y where Y: "ip_receiveSignal s X = Inr Y" "same_frame X Y" "distinct (map fst (ipn_pending Y))"
    "map_of (ipn_pending Y) = map_of (ipn_pending X) |` (- resolutions_over [s])"
    using signal_handled [OF Cons.prems(1), of s] Cons.prems(2) by (metis list.set_intros(1))
  have ready: "nic_ready (arp_ift (ipn_arp Y)) ie"
    if "CompletedResolution ip mac ie \<in> set S" "map_of (ipn_pending Y) ip \<noteq> None" for ip mac ie
    using Cons.prems(2) [of ip mac ie] that Y(2,4) by (auto simp: same_frame_def restrict_map_def split: if_splits)
  obtain Z where Z: "run_result ip_receiveSignal S Y = Inr Z" "same_frame Y Z" "distinct (map fst (ipn_pending Z))"
    "map_of (ipn_pending Z) = map_of (ipn_pending Y) |` (- resolutions_over S)" using Cons.IH [OF Y(3)] ready by metis
  have "resolutions_over (s # S) = resolutions_over [s] \<union> resolutions_over S" by (cases s) auto
  then have "map_of (ipn_pending Z) = map_of (ipn_pending X) |` (- resolutions_over (s # S))"
    using Y(4) Z(4) by (simp add: Compl_Un)
  with Y Z show ?case by (auto simp: same_frame_def)
qed

section \<open>Addresses that need no resolution\<close>

lemma multicast_byte:
  assumes "ip_isMulticast a"
  shows "(word_of_int (getDByte a 0) :: 8 word) AND 0xf0 = 0xe0"
proof (rule bit_word_eqI)
  fix n assume "n < LENGTH(8)"
  then have n: "n < 8" by simp
  have "bit (getInt a AND 0xF0000000) (24 + n) = bit (0xE0000000 :: 32 word) (24 + n)"
    using assms by (simp add: ip_isMulticast_def)
  moreover have "bit (0xF0000000 :: 32 word) (24 + n) = bit (0xf0 :: 8 word) n"
    "bit (0xE0000000 :: 32 word) (24 + n) = bit (0xe0 :: 8 word) n" "bit (0xFF :: 32 word) n"
    using n by (auto simp: less_Suc_eq numeral_eq_Suc)
  ultimately show "bit ((word_of_int (getDByte a 0) :: 8 word) AND 0xf0) n = bit (0xe0 :: 8 word) n"
    using n by (simp add: getDByte_def bit_simps add.commute)
qed

lemma multicast_mac:
  assumes "ip_isMulticast a"
  shows "\<exists>mac. makeMulticastAddress (ip_bytes a) = Inr mac \<and> \<not> isUnspecified mac"
proof -
  let ?mac = "put_byte 5 (ip_bytes a ! 3) (put_byte 4 (ip_bytes a ! 2) (put_byte 3 (ip_bytes a ! 1 AND 0x7f)
    (put_byte 2 0x5e (put_byte 1 0x00 (put_byte 0 0x01 (MACAddress 0))))))"
  have "get_byte ?mac 0 = 1" by (simp add: get_put_byte)
  moreover have "get_byte ?mac 0 = 0" if "isUnspecified ?mac" using that by (simp add: isUnspecified_def get_byte_def)
  ultimately have "\<not> isUnspecified ?mac" by force
  moreover have "makeMulticastAddress (ip_bytes a) = Inr ?mac"
    using multicast_byte [OF assms] by (simp add: makeMulticastAddress_def ip_bytes_def)
  ultimately show ?thesis by blast
qed

lemma broadcast_specified: "\<not> isUnspecified BROADCAST_ADDRESS"
proof
  assume "isUnspecified BROADCAST_ADDRESS"
  then have "get_byte BROADCAST_ADDRESS 0 = 0" by (simp add: isUnspecified_def get_byte_def)
  moreover have "get_byte BROADCAST_ADDRESS 0 = hex_pairs (filter isxdigit ''ff:ff:ff:ff:ff:ff'') ! 0"
  proof -
    have "list_all (\<lambda>c. isxdigit c \<or> separator c) ''ff:ff:ff:ff:ff:ff'' \<and> length (filter isxdigit ''ff:ff:ff:ff:ff:ff'') = 12"
      by code_simp
    then have "tryParse (Some ''ff:ff:ff:ff:ff:ff'') (MACAddress 0) = (True, setAddressBytes (hex_pairs (filter isxdigit ''ff:ff:ff:ff:ff:ff'')))"
      unfolding tryParse_eq by (rule if_P)
    then show ?thesis unfolding BROADCAST_ADDRESS_def by (simp only: snd_conv) (rule get_byte_setAddressBytes, simp)
  qed
  moreover have "hex_pairs (filter isxdigit ''ff:ff:ff:ff:ff:ff'') ! 0 \<noteq> 0" by code_simp
  ultimately show False by simp
qed

section \<open>The two modules together\<close>

text \<open>
  A queue exists only for a next hop whose resolution is under way, and for no limited broadcast or multicast
  address, which is sent to without resolution.
\<close>

definition queues_ok :: "'p ip_node \<Rightarrow> bool" where
  "queues_ok X \<longleftrightarrow> distinct (map fst (ipn_pending X))
     \<and> (\<forall>ip. map_of (ipn_pending X) ip \<noteq> None \<longrightarrow> waiting (ipn_arp X) ip \<and> \<not> isLimitedBroadcastAddress ip
          \<and> \<not> ip_isMulticast ip)"

type_synonym 'p ip_history = "history \<times> 'p out_datagram list"

definition ip_rel :: "id_table \<Rightarrow> simtime \<Rightarrow> bool \<Rightarrow> 'p ip_node \<Rightarrow> 'p ip_history \<Rightarrow> bool" where
  "ip_rel ift ct proxy X H \<longleftrightarrow> arp_rel ift ct (ipn_arp X) (fst H) \<and> ipn_isUp X = fst (fst H)
     \<and> ipn_useProxyARP X = proxy \<and> queues_ok X \<and> accounted X = mset (snd H)"

lemma accounted_arp [simp]: "accounted (X\<lparr>ipn_arp := A\<rparr>) = accounted X"
  by (simp add: accounted_def queued_def)

text \<open>An operation of ARP that reports what it ends keeps the queues in order.\<close>

lemma with_arp_step:
  assumes "ip_rel ift ct proxy X (uh, ds)" "f (ipn_arp X) = Inr (r, A)" "reports (ipn_arp X) S A"
    and "arp_rel ift ct A uh'" "fst uh' = fst uh"
  shows "\<exists>Y. with_arp f X = Inr (r, Y) \<and> ip_rel ift ct proxy Y (uh', ds) \<and> ipn_arp Y = A
    \<and> map_of (ipn_pending Y) = map_of (ipn_pending X) |` (- resolutions_over S)"
proof -
  let ?X = "X\<lparr>ipn_arp := A\<rparr>"
  have new: "new_signals (ipn_arp X) A = S" using assms(3) by (simp add: reports_def new_signals_def)
  have ift: "arp_ift A = arp_ift (ipn_arp X)" using assms(3) by (simp add: reports_def)
  have q: "queues_ok X" "distinct (map fst (ipn_pending ?X))" using assms(1) by (simp_all add: ip_rel_def queues_ok_def)
  have ready: "nic_ready (arp_ift (ipn_arp ?X)) ie"
    if "CompletedResolution ip mac ie \<in> set S" "map_of (ipn_pending ?X) ip \<noteq> None" for ip mac ie
  proof -
    have "waiting (ipn_arp X) ip" using q(1) that(2) by (simp add: queues_ok_def)
    then show ?thesis using assms(3) that(1) ift by (simp add: reports_def)
  qed
  obtain Y where Y: "run_result ip_receiveSignal S ?X = Inr Y" "same_frame ?X Y" "distinct (map fst (ipn_pending Y))"
    "map_of (ipn_pending Y) = map_of (ipn_pending ?X) |` (- resolutions_over S)" using signals_handled [OF q(2), of S] ready by metis
  have arp: "ipn_arp Y = A" using Y(2) by (simp add: same_frame_def)
  have "waiting A ip \<and> \<not> isLimitedBroadcastAddress ip \<and> \<not> ip_isMulticast ip"
    if "map_of (ipn_pending Y) ip \<noteq> None" for ip
  proof -
    have "map_of (ipn_pending X) ip \<noteq> None" "ip \<notin> resolutions_over S" using that Y(4) by (auto simp: restrict_map_def split: if_splits)
    then show ?thesis using q(1) assms(3) ift unfolding queues_ok_def reports_def by metis
  qed
  then have "queues_ok Y" using Y(3) arp by (simp add: queues_ok_def)
  then have "ip_rel ift ct proxy Y (uh', ds)" using assms(1,4,5) Y(2) arp by (simp add: ip_rel_def same_frame_def)
  moreover have "with_arp f X = Inr (r, Y)" using assms(2) Y(1) by (simp add: with_arp_def new)
  ultimately show ?thesis using arp Y(4) by auto
qed

lemma with_arp_op_step:
  assumes "ip_rel ift ct proxy X (uh, ds)" "f (ipn_arp X) = Inr A" "reports (ipn_arp X) S A" "arp_rel ift ct A uh'" "fst uh' = fst uh"
  shows "returns (\<lambda>Y. ip_rel ift ct proxy Y (uh', ds)) (with_arp_op f X)"
proof -
  have "map_sum id (Pair ()) (f (ipn_arp X)) = Inr ((), A)" using assms(2) by simp
  from with_arp_step [where f = "\<lambda>A. map_sum id (Pair ()) (f A)", OF assms(1) this assms(3-5)]
  show ?thesis by (auto simp: with_arp_op_def)
qed

lemma resolve_reports:
  assumes "arp_rel ift ct A (True, h)" "nic_ready ift ie"
  shows "\<exists>mac A' S. resolveL3Address now (L3_IPv4 ip) ie A = Inr (mac, A') \<and> reports A S A' \<and> resolutions_over S = {}
    \<and> arp_rel ift ct A' (True, h) \<and> (if isUnspecified mac then waiting A' ip else \<not> waiting A ip)"
proof (cases "map_of (arp_cache A) ip")
  note f = rel_fields [OF assms(1)]
  have unspec: "isUnspecified UNSPECIFIED_ADDRESS" by (simp add: isUnspecified_def UNSPECIFIED_ADDRESS_def)
  {
    case None
    let ?A = "resolution_started now ip ie (cache_insert ip (waiting_entry ie (arp_fresh A)) (arp_cache A)) A"
    note r = resolve_absent [OF assms(1) None assms(2), of now]
    have "arp_rel ift ct ?A (True, h)" using resolve_step [OF assms, of ip now] r by simp
    moreover note started_reports [OF map_of_cache_insert [OF f(1) None], where ie = ie and m = "arp_fresh A" and now = now]
    ultimately show ?thesis using r unspec by (intro exI conjI) auto
  next
    case (Some e)
    show ?thesis
    proof (cases "en_pending e \<or> now \<le> en_lastUpdate e + ct")
      case True
      then have "resolveL3Address now (L3_IPv4 ip) ie A = Inr (if en_pending e then UNSPECIFIED_ADDRESS else en_mac e, A)"
        using Some f(7) by (auto simp: resolveL3Address_def toIPv4_def)
      moreover have "en_pending e \<longleftrightarrow> isUnspecified (en_mac e)" using f(3) [OF Some] by (simp add: arp_entry_ok_def)
      ultimately show ?thesis using Some assms(1) reports_nothing [of A] unspec
        by (intro exI [of _ "[]"] exI conjI) (auto simp: waiting_def)
    next
      case False
      let ?c = "AList.map_entry ip (\<lambda>_. waiting_entry ie (arp_fresh A)) (arp_cache A)"
      have started: "resolveL3Address now (L3_IPv4 ip) ie A = Inr (UNSPECIFIED_ADDRESS, resolution_started now ip ie ?c A)"
        by (rule resolve_expired [OF assms(1) Some _ _ assms(2)]) (use False in simp_all)
      have "arp_rel ift ct (resolution_started now ip ie ?c A) (True, h)" using resolve_step [OF assms, of ip now] started by simp
      moreover note started_reports [OF map_of_set_entry [OF Some], where ie = ie and m = "arp_fresh A" and now = now]
      ultimately show ?thesis using started unspec by (intro exI conjI) auto
    qed
  }
qed

section \<open>Sending\<close>

definition next_hop :: "'p out_datagram \<Rightarrow> IPv4Address \<Rightarrow> IPv4Address" where
  "next_hop d nextHop = (if ip_isUnspecified nextHop then od_dest d else nextHop)"

text \<open>
  A datagram that can be sent: the interface exists; on a LAN it has its addresses, and the next hop is given, or
  the destination is on the link or reached by proxy ARP.
\<close>

definition sendable :: "id_table \<Rightarrow> bool \<Rightarrow> 'p out_datagram \<Rightarrow> nat option \<Rightarrow> IPv4Address \<Rightarrow> bool" where
  "sendable ift proxy d ie nextHop \<longleftrightarrow> (case deref_nic ie ift of Inl _ \<Rightarrow> False
     | Inr n \<Rightarrow> if_broadcast n \<and> \<not> isUnspecified (nic_mac n) \<longrightarrow> nic_ready ift ie \<and>
         (case if_ipv4Data n of None \<Rightarrow> False | Some data \<Rightarrow>
            ip_isUnspecified nextHop \<longrightarrow> proxy \<or> maskedAddrAreEqual (od_dest d) (id_inetAddr data) (id_netmask data)))"

lemma accounted_sent:
  "accounted (X\<lparr>ipn_sent := ipn_sent X @ [f]\<rparr>) = accounted X + {# nf_packet f #}"
  by (simp add: accounted_def queued_def)

lemma queued_update:
  assumes "distinct (map fst P)"
  shows "\<Sum>\<^sub># (mset (map (\<lambda>(ip, q). mset q) (AList.update ip ((case map_of P ip of None \<Rightarrow> [] | Some q \<Rightarrow> q) @ [d]) P)))
    = \<Sum>\<^sub># (mset (map (\<lambda>(ip, q). mset q) P)) + {# d #}"
  using assms
proof (induction P)
  case (Cons x P)
  then show ?case by (cases x) auto
qed simp

lemma enqueue_step:
  assumes "ip_rel ift ct proxy X (uh, ds)" "waiting (ipn_arp X) ip" "\<not> isLimitedBroadcastAddress ip" "\<not> ip_isMulticast ip"
  shows "ip_rel ift ct proxy (enqueue_pending ip d X) (uh, ds @ [d])"
proof -
  let ?Y = "enqueue_pending ip d X"
  have q: "queues_ok X" using assms(1) by (simp add: ip_rel_def)
  have "accounted ?Y = accounted X + {# d #}"
    using q queued_update [of "ipn_pending X" ip d] by (simp add: queues_ok_def accounted_def queued_def enqueue_pending_def)
  moreover have "queues_ok ?Y"
    using q assms(2-4) by (simp add: queues_ok_def enqueue_pending_def AList.update_conv' AList.distinct_update)
  ultimately show ?thesis using assms(1) by (simp add: ip_rel_def enqueue_pending_def)
qed

lemma sent_step:
  assumes "ip_rel ift ct proxy X (uh, ds)" "deref_nic ie ift = Inr n"
  shows "returns (\<lambda>Y. ip_rel ift ct proxy Y (uh, ds @ [d])) (ip_sendPacketToNIC d ctrl ie X)"
proof -
  have ift: "arp_ift (ipn_arp X) = ift" using assms(1) by (simp add: ip_rel_def arp_rel_def)
  have "queues_ok (X\<lparr>ipn_sent := s\<rparr>) = queues_ok X" for s by (simp add: queues_ok_def)
  then show ?thesis using assms ift by (simp add: ip_sendPacketToNIC_def ip_rel_def accounted_sent)
qed

lemma default_next_hop_eq:
  assumes "if_ipv4Data n = Some data"
    and "ip_isUnspecified nextHop \<longrightarrow> ipn_useProxyARP X \<or> maskedAddrAreEqual (od_dest d) (id_inetAddr data) (id_netmask data)"
  shows "default_next_hop d n nextHop X = Inr (next_hop d nextHop)"
  using assms by (auto simp: default_next_hop_def nic_ipv4Data_def next_hop_def)

text \<open>What the next hop is resolved to, and what that says of its queue.\<close>

lemma resolve_next_hop:
  assumes "ip_rel ift ct proxy X ((True, h), ds)" "nic_ready ift ie" "deref_nic ie ift = Inr n" "if_ipv4Data n = Some data"
  shows "\<exists>mac Y. resolveNextHopMacAddress now hop ie X = Inr (mac, Y) \<and> ip_rel ift ct proxy Y ((True, h), ds)
    \<and> (if isUnspecified mac then waiting (ipn_arp Y) hop \<and> \<not> isLimitedBroadcastAddress hop \<and> \<not> ip_isMulticast hop
       else map_of (ipn_pending Y) hop = None \<or> hop = broadcast_address data \<and> Y = X)"
proof -
  have q: "queues_ok X" and rel: "arp_rel ift ct (ipn_arp X) (True, h)" and ift: "arp_ift (ipn_arp X) = ift"
    using assms(1) by (simp_all add: ip_rel_def arp_rel_def)
  have q_ip: "map_of (ipn_pending X) hop \<noteq> None \<Longrightarrow> waiting (ipn_arp X) hop \<and> \<not> isLimitedBroadcastAddress hop
      \<and> \<not> ip_isMulticast hop" using q by (simp add: queues_ok_def)
  consider (broadcast) "isLimitedBroadcastAddress hop \<or> hop = broadcast_address data"
    | (multicast) "\<not> (isLimitedBroadcastAddress hop \<or> hop = broadcast_address data)" "ip_isMulticast hop"
    | (resolved) "\<not> isLimitedBroadcastAddress hop" "hop \<noteq> broadcast_address data" "\<not> ip_isMulticast hop" by blast
  then show ?thesis
  proof cases
    case broadcast
    then have "resolveNextHopMacAddress now hop ie X = Inr (BROADCAST_ADDRESS, X)"
      using assms(3,4) ift by (auto simp: resolveNextHopMacAddress_def nic_ipv4Data_def)
    moreover have "map_of (ipn_pending X) hop = None \<or> hop = broadcast_address data" using broadcast q_ip by blast
    ultimately show ?thesis using assms(1) broadcast_specified by auto
  next
    case multicast
    obtain mac where "makeMulticastAddress (ip_bytes hop) = Inr mac" "\<not> isUnspecified mac"
      using multicast_mac [OF multicast(2)] by blast
    moreover have "map_of (ipn_pending X) hop = None" using multicast q_ip by blast
    ultimately show ?thesis using assms(1,3,4) multicast ift by (simp add: resolveNextHopMacAddress_def nic_ipv4Data_def)
  next
    case resolved
    obtain mac A S where A: "resolveL3Address now (L3_IPv4 hop) ie (ipn_arp X) = Inr (mac, A)" "reports (ipn_arp X) S A"
      "resolutions_over S = {}" "arp_rel ift ct A (True, h)" "if isUnspecified mac then waiting A hop else \<not> waiting (ipn_arp X) hop"
      using resolve_reports [OF rel assms(2)] by blast
    obtain Y where Y: "with_arp (resolveL3Address now (L3_IPv4 hop) ie) X = Inr (mac, Y)" "ip_rel ift ct proxy Y ((True, h), ds)"
      "ipn_arp Y = A" "map_of (ipn_pending Y) = map_of (ipn_pending X)"
      using with_arp_step [where f = "resolveL3Address now (L3_IPv4 hop) ie", OF assms(1) A(1,2,4)] A(3) by auto
    have "resolveNextHopMacAddress now hop ie X = Inr (mac, Y)"
      using resolved assms(3,4) ift Y(1) by (simp add: resolveNextHopMacAddress_def nic_ipv4Data_def)
    moreover have "map_of (ipn_pending Y) hop = None" if "\<not> isUnspecified mac" using A(5) that q_ip unfolding Y(4) by (metis (full_types))
    ultimately show ?thesis using Y(2,3) A(5) resolved by auto
  qed
qed

text \<open>
  The state in which sending stops: the next hop is the directed broadcast address of the interface, and a queue
  with that address is waiting for ARP.
\<close>

definition queued_broadcast :: "id_table \<Rightarrow> 'p out_datagram \<Rightarrow> nat option \<Rightarrow> IPv4Address \<Rightarrow> 'p ip_node \<Rightarrow> bool" where
  "queued_broadcast ift d ie nextHop X \<longleftrightarrow> (\<exists>n data. deref_nic ie ift = Inr n \<and> if_ipv4Data n = Some data
     \<and> next_hop d nextHop = broadcast_address data \<and> map_of (ipn_pending X) (next_hop d nextHop) \<noteq> None)"

definition queue_not_empty :: sim_error where
  "queue_not_empty = AssertionFailed ''IPv4-ARP error: nextHopAddr found in ARP table, but IPv4 queue for nextHopAddr not empty''"

lemma send_step:
  assumes "ip_rel ift ct proxy X ((True, h), ds)" "sendable ift proxy d ie nextHop"
  shows "returns (\<lambda>Y. ip_rel ift ct proxy Y ((True, h), ds @ [d])) (sendDatagramToOutput now d ie nextHop X)
    \<or> queued_broadcast ift d ie nextHop X \<and> sendDatagramToOutput now d ie nextHop X = Inl queue_not_empty"
proof -
  have ift: "arp_ift (ipn_arp X) = ift" and proxy: "ipn_useProxyARP X = proxy" using assms(1) by (simp_all add: ip_rel_def arp_rel_def)
  obtain n where n: "deref_nic ie ift = Inr n" using assms(2) by (auto simp: sendable_def split: sum.splits)
  let ?hop = "next_hop d nextHop"
  show ?thesis
  proof (cases "if_broadcast n \<and> \<not> isUnspecified (nic_mac n)")
    case False
    then show ?thesis using sent_step [OF assms(1) n, of d None] n ift by (auto simp: sendDatagramToOutput_def)
  next
    case True
    with assms(2) n obtain data where data: "if_ipv4Data n = Some data" and ready: "nic_ready ift ie"
      and hop: "ip_isUnspecified nextHop \<longrightarrow> ipn_useProxyARP X \<or> maskedAddrAreEqual (od_dest d) (id_inetAddr data) (id_netmask data)"
      by (auto simp: sendable_def proxy split: option.splits)
    obtain mac Y where Y: "resolveNextHopMacAddress now ?hop ie X = Inr (mac, Y)" "ip_rel ift ct proxy Y ((True, h), ds)"
      "if isUnspecified mac then waiting (ipn_arp Y) ?hop \<and> \<not> isLimitedBroadcastAddress ?hop \<and> \<not> ip_isMulticast ?hop
       else map_of (ipn_pending Y) ?hop = None \<or> ?hop = broadcast_address data \<and> Y = X"
      using resolve_next_hop [OF assms(1) ready n data] by blast
    have send: "sendDatagramToOutput now d ie nextHop X =
      (if isUnspecified mac then Inr (enqueue_pending ?hop d Y)
       else if map_of (ipn_pending Y) ?hop = None then sendPacketToIeee802NIC d ie mac ETHERTYPE_IPv4 Y
       else Inl queue_not_empty)"
      using True n ift Y(1) default_next_hop_eq [OF data hop] by (simp add: sendDatagramToOutput_def queue_not_empty_def)
    consider (waits) "isUnspecified mac" | (sent) "\<not> isUnspecified mac" "map_of (ipn_pending Y) ?hop = None"
      | (stops) "\<not> isUnspecified mac" "map_of (ipn_pending Y) ?hop \<noteq> None" "?hop = broadcast_address data" "Y = X"
      using Y(3) by (metis (full_types))
    then show ?thesis
    proof cases
      case waits
      then show ?thesis using enqueue_step [OF Y(2)] Y(3) by (simp add: send)
    next
      case sent
      then show ?thesis using sent_step [OF Y(2) n] by (simp add: send sendPacketToIeee802NIC_def)
    next
      case stops
      then have "queued_broadcast ift d ie nextHop X" using n data by (auto simp: queued_broadcast_def)
      then show ?thesis using stops unfolding send by auto
    qed
  qed
qed

section \<open>Runs of the node\<close>

fun ip_pre :: "id_table \<Rightarrow> bool \<Rightarrow> 'p ip_history \<Rightarrow> 'p ip_op \<Rightarrow> bool" where
  "ip_pre ift proxy ((up, h), ds) (SendsDatagram now d ie nextHop) \<longleftrightarrow> up \<and> sendable ift proxy d ie nextHop"
| "ip_pre ift proxy ((up, h), ds) (GetsArpPacket now p gate) \<longleftrightarrow>
     (case deref_nic (getInterfaceByNetworkLayerGateIndex gate ift) ift of Inl _ \<Rightarrow> False | Inr n \<Rightarrow> packet_ready ift p (nic_id n))"
| "ip_pre ift proxy ((up, h), ds) (SendsArpPacket f) \<longleftrightarrow>
     (case deref_nic (getInterfaceById (fr_interfaceId f) ift) ift of Inl _ \<Rightarrow> False | Inr n \<Rightarrow> True)"
| "ip_pre ift proxy ((up, h), ds) (ArpTimer m) \<longleftrightarrow> True"
| "ip_pre ift proxy ((up, h), ds) (NodeOperation operation stage queueEmpty) \<longleftrightarrow>
     operation \<noteq> OtherOperation \<and> (operation = NodeStart \<longrightarrow> \<not> up \<and> queueEmpty)"

fun ip_spec :: "'p ip_op \<Rightarrow> 'p ip_history \<Rightarrow> 'p ip_history" where
  "ip_spec (SendsDatagram now d ie nextHop) (uh, ds) = (uh, ds @ [d])"
| "ip_spec (GetsArpPacket now p gate) (uh, ds) = (arp_spec (Arrives now p 0) uh, ds)"
| "ip_spec (SendsArpPacket f) (uh, ds) = (uh, ds)"
| "ip_spec (ArpTimer m) (uh, ds) = (uh, ds)"
| "ip_spec (NodeOperation operation stage queueEmpty) (uh, ds) = (arp_spec (Lifecycle operation stage) uh, ds)"

lemma silent_reports: "arp_signals A' = arp_signals A \<Longrightarrow> arp_ift A' = arp_ift A \<Longrightarrow> waiting A' = waiting A \<Longrightarrow> reports A [] A'"
  by (simp add: reports_def)

lemma packet_in_step:
  assumes "ip_rel ift ct proxy X ((up, h), ds)" "ip_pre ift proxy ((up, h), ds) (GetsArpPacket now p gate)"
  shows "returns (\<lambda>Y. ip_rel ift ct proxy Y (ip_spec (GetsArpPacket now p gate) ((up, h), ds))) (ip_exec (GetsArpPacket now p gate) X)"
proof (cases up)
  case False
  then show ?thesis using assms(1) by (simp add: ip_rel_def)
next
  case True
  have rel: "arp_rel ift ct (ipn_arp X) (True, h)" and ift: "arp_ift (ipn_arp X) = ift" and up: "ipn_isUp X"
    using assms(1) True by (simp_all add: ip_rel_def arp_rel_def)
  obtain n where n: "deref_nic (getInterfaceByNetworkLayerGateIndex gate ift) ift = Inr n" "packet_ready ift p (nic_id n)"
    using assms(2) by (auto split: sum.splits)
  obtain A where A: "processARPPacket now p (Some (nic_id n)) (ipn_arp X) = Inr A"
    "arp_rel ift ct A (True, h(ap_srcIP p \<mapsto> (ap_srcMAC p, now)))" using packet_step [OF rel n(2), of now] by (auto simp: returns_def)
  obtain S where S: "reports (ipn_arp X) S A" using packet_reports [OF rel n(2) A(1)] by blast
  have "arp_handleMessage now (ArpMessage p (Some (nic_id n))) (ipn_arp X) = Inr A"
    using A(1) rel_fields(8) [OF rel] by (simp add: arp_handleMessage_def)
  from with_arp_op_step [where f = "arp_handleMessage now (ArpMessage p (Some (nic_id n)))", OF assms(1) this S A(2)] True show ?thesis by (simp add: handleIncomingARPPacket_def ift n(1) up)
qed

lemma timer_step:
  assumes "ip_rel ift ct proxy X ((up, h), ds)"
  shows "returns (\<lambda>Y. ip_rel ift ct proxy Y ((up, h), ds)) (with_arp_op (fire_timer m) X)"
proof -
  have rel: "arp_rel ift ct (ipn_arp X) (up, h)" using assms by (simp add: ip_rel_def)
  obtain A where A: "fire_timer m (ipn_arp X) = Inr A" "arp_rel ift ct A (up, h)"
    using fire_step [OF rel, of m] by (auto simp: returns_def)
  have "\<exists>S. reports (ipn_arp X) S A"
  proof (cases up)
    case True
    then show ?thesis using fire_reports [OF _ A(1)] rel by simp
  next
    case False
    with rel_fields(2,9) [OF rel] have T: "schedule_ok (\<lambda>ip. None) (arp_scheduled (ipn_arp X)) (arp_fresh (ipn_arp X))"
      by (simp add: entry_timer_at_def [abs_def])
    have "map_of (arp_scheduled (ipn_arp X)) m = None"
    proof (rule ccontr)
      assume "map_of (arp_scheduled (ipn_arp X)) m \<noteq> None"
      then obtain t ip where "(m, t, ip) \<in> set (arp_scheduled (ipn_arp X))" by (auto dest: map_of_SomeD)
      from schedule_okD(3) [OF T this] show False by simp
    qed
    then have "A = ipn_arp X" using A(1) by (simp add: fire_timer_def)
    then show ?thesis using reports_nothing by blast
  qed
  then show ?thesis using with_arp_op_step [where f = "fire_timer m", OF assms A(1) _ A(2)] by auto
qed

lemma lifecycle_step:
  assumes "ip_rel ift ct proxy X ((up, h), ds)" "ip_pre ift proxy ((up, h), ds) (NodeOperation operation stage queueEmpty)"
  shows "returns (\<lambda>Y. ip_rel ift ct proxy Y (ip_spec (NodeOperation operation stage queueEmpty) ((up, h), ds)))
    (ip_exec (NodeOperation operation stage queueEmpty) X)"
proof -
  have rel: "arp_rel ift ct (ipn_arp X) (up, h)" using assms(1) by (simp add: ip_rel_def)
  have quiet: "with_arp_op f Y = Inr (Y\<lparr>ipn_arp := A\<rparr>)" if "f (ipn_arp Y) = Inr A" "arp_signals A = arp_signals (ipn_arp Y)"
    for f A and Y :: "'a ip_node" using that by (simp add: with_arp_op_def with_arp_def new_signals_def)
  have idle_stage: "with_arp_op Inr X = Inr X" by (simp add: with_arp_op_def with_arp_def new_signals_def)
  have stopped: "ip_rel ift ct proxy ((ip_stop X)\<lparr>ipn_arp := arp_stop (ipn_arp X)\<rparr>) ((False, Map.empty), ds)"
    using assms(1) rel_flush [OF rel] queued_concat [of X]
    by (simp add: ip_rel_def ip_stop_def ip_flush_def queues_ok_def accounted_def queued_none add_ac)
  have stop: "returns (\<lambda>Y. ip_rel ift ct proxy Y ((False, Map.empty), ds)) (with_arp_op (\<lambda>A. Inr (arp_stop A)) (ip_stop X))"
  proof -
    have "ipn_arp (ip_stop X) = ipn_arp X" by (simp add: ip_stop_def ip_flush_def)
    then show ?thesis using stopped quiet [of "\<lambda>A. Inr (arp_stop A)" "ip_stop X"]
      by (simp add: arp_stop_def arp_flush_def Let_def)
  qed
  let ?up = "X\<lparr>ipn_isUp := True\<rparr>"
  have start: "returns (\<lambda>Y. ip_rel ift ct proxy Y ((True, h), ds)) (with_arp_op arp_start ?up)" if "\<not> up"
  proof -
    have empty: "arp_cache (ipn_arp X) = []" using rel_fields(9) [OF rel] that by simp
    have none: "map_of (ipn_pending X) = Map.empty"
      using assms(1) empty by (fastforce simp: ip_rel_def queues_ok_def waiting_def)
    have "arp_start (ipn_arp ?up) = Inr ((ipn_arp X)\<lparr>arp_isUp := True\<rparr>)"
      using empty by (simp add: arp_start_def)
    then have "with_arp_op arp_start ?up = Inr (?up\<lparr>ipn_arp := (ipn_arp X)\<lparr>arp_isUp := True\<rparr>\<rparr>)"
      by (rule quiet) simp
    moreover have "ip_rel ift ct proxy (?up\<lparr>ipn_arp := (ipn_arp X)\<lparr>arp_isUp := True\<rparr>\<rparr>) ((True, h), ds)"
      using assms(1) none empty by (simp add: ip_rel_def queues_ok_def arp_rel_def arp_inv_def accounted_def queued_def)
    ultimately show ?thesis by simp
  qed
  have ops: "arp_handleOperationStage NodeStart k = (if k = 3 then arp_start else Inr)"
    "arp_handleOperationStage NodeShutdown k = (if k = 4 then \<lambda>A. Inr (arp_stop A) else Inr)"
    "arp_handleOperationStage NodeCrash k = (if k = 0 then \<lambda>A. Inr (arp_stop A) else Inr)" for k
    by (simp_all add: arp_handleOperationStage_def fun_eq_iff)
  have still: "returns (\<lambda>Y. ip_rel ift ct proxy Y ((up, h), ds)) (with_arp_op Inr X)"
    unfolding idle_stage using assms(1) by simp
  show ?thesis
  proof (cases operation)
    case NodeStart
    then show ?thesis using assms(2) start still by (cases "stage = 3") (simp_all add: ip_handleOperationStage_def ipv4_start_def ops)
  next
    case NodeShutdown
    then show ?thesis using stop still by (cases "stage = 4") (simp_all add: ip_handleOperationStage_def ops)
  next
    case NodeCrash
    then show ?thesis using stop still by (cases "stage = 0") (simp_all add: ip_handleOperationStage_def ops)
  qed (use assms(2) in simp)
qed

text \<open>The only way a permitted operation can stop the simulation.\<close>

definition ip_stops :: "id_table \<Rightarrow> 'p ip_node \<Rightarrow> 'p ip_op \<Rightarrow> sim_error \<Rightarrow> bool" where
  "ip_stops ift X op e \<longleftrightarrow> (\<exists>now d ie nextHop. op = SendsDatagram now d ie nextHop
     \<and> queued_broadcast ift d ie nextHop X \<and> e = queue_not_empty)"

lemma ip_step:
  assumes "ip_rel ift ct proxy X H" "ip_pre ift proxy H op"
  shows "(\<exists>Y. ip_exec op X = Inr Y \<and> ip_rel ift ct proxy Y (ip_spec op H)) \<or> (\<exists>e. ip_exec op X = Inl e \<and> ip_stops ift X op e)"
proof -
  obtain up h ds where H: "H = ((up, h), ds)" by (metis surj_pair)
  note rel = assms(1) [unfolded H] and pre = assms(2) [unfolded H]
  have "returns (\<lambda>Y. ip_rel ift ct proxy Y (ip_spec op ((up, h), ds))) (ip_exec op X) \<or> (\<exists>e. ip_exec op X = Inl e \<and> ip_stops ift X op e)"
  proof (cases op)
    case (SendsDatagram now d ie nextHop)
    then show ?thesis using send_step [of ift ct proxy X h ds d ie nextHop now] rel pre by (auto simp: ip_stops_def)
  next
    case (GetsArpPacket now p gate)
    then show ?thesis using packet_in_step [OF rel pre [unfolded GetsArpPacket]] by simp
  next
    case (SendsArpPacket f)
    have "ip_rel ift ct proxy (X\<lparr>ipn_arpSent := s\<rparr>) ((up, h), ds)" for s
      using rel by (simp add: ip_rel_def queues_ok_def accounted_def queued_def)
    then show ?thesis using rel pre SendsArpPacket
      by (auto simp: handlePacketFromARP_def ip_rel_def [of ift ct proxy X] arp_rel_def split: sum.splits)
  next
    case (ArpTimer m)
    then show ?thesis using timer_step [OF rel] by simp
  next
    case (NodeOperation operation stage queueEmpty)
    then show ?thesis using lifecycle_step [OF rel pre [unfolded NodeOperation]] by simp
  qed
  then show ?thesis unfolding H by (auto simp: returns_def)
qed

interpretation ip_runs: stopping_simulation ip_exec "ip_rel ift ct proxy" "ip_pre ift proxy" ip_spec "ip_stops ift"
  by unfold_locales (rule ip_step)

text \<open>The datagrams a run is given to send.\<close>

fun handed :: "'p ip_op list \<Rightarrow> 'p out_datagram list" where
  "handed [] = []"
| "handed (SendsDatagram now d ie nextHop # ops) = d # handed ops"
| "handed (_ # ops) = handed ops"

lemma snd_ip_spec: "snd (fold ip_spec ops (uh, ds)) = ds @ handed ops"
  by (induction ops arbitrary: uh ds rule: handed.induct) simp_all

lemma ip_rel_new:
  assumes "0 \<le> rto" "rt_ready rt"
  shows "ip_rel ift ct proxy (ip_new proxy (arp_initialize rto rc ct pa up ift rt)) ((up, Map.empty), [])"
proof -
  have "arp_isUp (arp_initialize rto rc ct pa up ift rt) = up" by (simp add: arp_initialize_def)
  then show ?thesis using rel_initialize [OF assms] by (simp add: ip_rel_def ip_new_def queues_ok_def accounted_def queued_def)
qed

text \<open>Every datagram handed over has been sent once, waits in one queue for a resolution under way, or was deleted.\<close>

definition settled :: "'p ip_node \<Rightarrow> 'p out_datagram list \<Rightarrow> bool" where
  "settled X ds \<longleftrightarrow> mset (map nf_packet (ipn_sent X)) + mset (concat (map snd (ipn_pending X))) + mset (ipn_deleted X) = mset ds
     \<and> (\<forall>ip q. map_of (ipn_pending X) ip = Some q \<longrightarrow> waiting (ipn_arp X) ip)"

lemma ip_rel_settled: "ip_rel ift ct proxy X (fold ip_spec ops (uh, [])) \<Longrightarrow> settled X (handed ops)"
  by (auto simp: ip_rel_def snd_ip_spec settled_def accounted_def queued_concat queues_ok_def)

text \<open>
  C8: no datagram is lost between IPv4 and ARP.  Take any run of a node whose routing table works, with datagrams
  that can be sent (the interface exists, and on a LAN it has its addresses and a next hop can be told), ARP packets
  (requests or replies that name their senders, on interfaces that have addresses), timeouts and restarts (with an
  empty service queue) in any order.  Either nothing raises an error, and at the end
  every datagram that was given to be sent has been sent once, or waits in one queue, or was deleted, and a datagram
  waits only for a next hop whose resolution is under way.  Or the run stops at the assertion that there is no queue
  for a next hop that needs no resolution: then everything is accounted for up to that point, and the next hop is
  the directed broadcast address of the outgoing interface, and a queue with that address is waiting for ARP.
  Nothing else can make the assertion fail, or stop the run.
\<close>

theorem ip_datagrams_accounted:
  assumes "0 \<le> rto" "rt_ready rt" "legal_run (ip_pre ift proxy) ip_spec ops ((up, Map.empty), [])"
    and "X0 = ip_new proxy (arp_initialize rto rc ct pa up ift rt)"
  shows "(\<exists>X. run_result ip_exec ops X0 = Inr X \<and> settled X (handed ops))
    \<or> (\<exists>xs now d ie nextHop ys X. ops = xs @ SendsDatagram now d ie nextHop # ys
         \<and> run_result ip_exec xs X0 = Inr X \<and> settled X (handed xs)
         \<and> queued_broadcast ift d ie nextHop X \<and> run_result ip_exec ops X0 = Inl queue_not_empty)"
  using ip_runs.run_or_stop [OF ip_rel_new [OF assms(1,2)] assms(3), of rc ct pa, folded assms(4)]
  by (auto simp: ip_stops_def dest!: ip_rel_settled) blast

lemma legal_run_append:
  "legal_run pre spec (xs @ ys) a \<longleftrightarrow> legal_run pre spec xs a \<and> legal_run pre spec ys (fold spec xs a)"
  by (induction xs arbitrary: a) simp_all

text \<open>
  C25: a queue goes out when its next hop is heard.  When an ARP packet arrives from an address that datagrams wait
  for, all of them are sent, in the order in which they came, to the MAC address the packet names, and
  the queue is gone; no other queue changes and nothing is deleted.
\<close>

theorem ip_queue_released:
  assumes "0 \<le> rto" "rt_ready rt"
    and "legal_run (ip_pre ift proxy) ip_spec (ops @ [GetsArpPacket now p gate]) ((up, Map.empty), [])"
    and "run_result ip_exec ops (ip_new proxy (arp_initialize rto rc ct pa up ift rt)) = Inr X"
    and "map_of (ipn_pending X) (ap_srcIP p) = Some q"
  shows "\<exists>Y g. ip_exec (GetsArpPacket now p gate) X = Inr Y
    \<and> ipn_sent Y = ipn_sent X @ map (\<lambda>d. \<lparr>nf_packet = d, nf_ctrl = Some (ap_srcMAC p, ETHERTYPE_IPv4), nf_gate = g\<rparr>) q
    \<and> map_of (ipn_pending Y) = (map_of (ipn_pending X))(ap_srcIP p := None) \<and> ipn_deleted Y = ipn_deleted X"
proof -
  let ?ip = "ap_srcIP p" and ?mac = "ap_srcMAC p"
  obtain u h ds where H: "fold ip_spec ops ((up, Map.empty), []) = ((u, h), ds)" by (metis surj_pair)
  have legal: "legal_run (ip_pre ift proxy) ip_spec ops ((up, Map.empty), [])" "ip_pre ift proxy ((u, h), ds) (GetsArpPacket now p gate)"
    using assms(3) by (simp_all add: legal_run_append H del: ip_pre.simps)
  have node: "ip_rel ift ct proxy X ((u, h), ds)"
    using ip_runs.run_kept [OF ip_rel_new [OF assms(1,2)] legal(1) assms(4)] by (simp add: H)
  have "waiting (ipn_arp X) ?ip" using node assms(5) by (simp add: ip_rel_def queues_ok_def)
  then obtain e where e: "map_of (arp_cache (ipn_arp X)) ?ip = Some e" "en_pending e" by (auto simp: waiting_def)
  have rel_u: "arp_rel ift ct (ipn_arp X) (u, h)" using node by (simp add: ip_rel_def)
  have u: "u" using rel_fields(9) [OF rel_u] e(1) by (cases u) auto
  have rel: "arp_rel ift ct (ipn_arp X) (True, h)" and up: "ipn_isUp X" and ift: "arp_ift (ipn_arp X) = ift"
    using node u by (simp_all add: ip_rel_def arp_rel_def)
  obtain n where n: "deref_nic (getInterfaceByNetworkLayerGateIndex gate ift) ift = Inr n" "packet_ready ift p (nic_id n)"
    using legal(2) by (auto split: sum.splits)
  obtain A where A: "processARPPacket now p (Some (nic_id n)) (ipn_arp X) = Inr A" using packet_step [OF rel n(2), of now] by (auto simp: returns_def)
  note r = packet_completes [OF rel n(2) A e(1)]
  have new: "new_signals (ipn_arp X) A = [CompletedResolution ?ip ?mac (en_ie e)]" using r by (simp add: reports_def new_signals_def)
  have "nic_ready (arp_ift A) (en_ie e)" using r e by (simp add: reports_def waiting_def)
  then obtain g where sent: "run_result (\<lambda>d. sendPacketToIeee802NIC d (en_ie e) ?mac ETHERTYPE_IPv4) q (X\<lparr>ipn_arp := A\<rparr>)
    = Inr (X\<lparr>ipn_arp := A, ipn_sent := ipn_sent X @ map (\<lambda>d. \<lparr>nf_packet = d, nf_ctrl = Some (?mac, ETHERTYPE_IPv4), nf_gate = g\<rparr>) q\<rparr>)"
    using queue_sent [of "X\<lparr>ipn_arp := A\<rparr>" "en_ie e"] by fastforce
  have "ip_exec (GetsArpPacket now p gate) X = Inr (X\<lparr>ipn_arp := A,
      ipn_sent := ipn_sent X @ map (\<lambda>d. \<lparr>nf_packet = d, nf_ctrl = Some (?mac, ETHERTYPE_IPv4), nf_gate = g\<rparr>) q,
      ipn_pending := AList.delete ?ip (ipn_pending X)\<rparr>)"
    using up n(1) A rel_fields(8) [OF rel] sent assms(5)
    by (simp add: ift handleIncomingARPPacket_def with_arp_op_def with_arp_def arp_handleMessage_def new arpResolutionCompleted_def)
  then show ?thesis by (simp add: AList.delete_conv')
qed

section \<open>A host that sends\<close>

definition sample_node :: "nat ip_node" where
  "sample_node = ip_new False (sample_arp mac1 ip1)"

definition host_datagram :: "nat out_datagram" where
  "host_datagram = \<lparr>od_dest = ip2, od_rest = 0\<rparr>"

lemma sample_nic_fields [simp]:
  "if_broadcast (sample_nic mac ip)" "nic_mac (sample_nic mac ip) = mac" "if_ipv4Data (sample_nic mac ip) = Some (host_data ip)"
  "nic_gate (sample_nic mac ip) = 0" "nic_id (sample_nic mac ip) = 100" "if_ptr (sample_nic mac ip) = 7"
  by (simp_all add: sample_nic_def)

lemma sample_on_link: "maskedAddrAreEqual ip2 (id_inetAddr (host_data ip1)) (id_netmask (host_data ip1))"
  by (simp add: host_data_def maskedAddrAreEqual_def ip1_def ip2_def)

lemma sample_unspecified: "ip_isUnspecified unspecified_ip"
  by (simp add: ip_isUnspecified_def unspecified_ip_def)

lemma sample_sendable: "sendable [Some (sample_nic mac1 ip1)] False host_datagram (Some 7) unspecified_ip"
  using sample_on_link
  by (simp add: sendable_def host_datagram_def)

definition sample_sends :: "nat ip_op list" where
  "sample_sends = [SendsDatagram 0 host_datagram (Some 7) unspecified_ip]"

lemma sample_legal:
  "legal_run (ip_pre [Some (sample_nic mac1 ip1)] False) ip_spec (sample_sends @ [GetsArpPacket 5 sample_reply 0]) ((True, Map.empty), [])"
proof -
  have "getInterfaceByNetworkLayerGateIndex 0 [Some (sample_nic mac1 ip1)] = Some 7"
    by (simp add: getInterfaceByNetworkLayerGateIndex_def map_filter_def)
  then show ?thesis using sample_sendable sample_packet_ready by (simp add: sample_sends_def)
qed

lemma sample_waits:
  "\<exists>X. run_result ip_exec sample_sends sample_node = Inr X \<and> map_of (ipn_pending X) ip2 = Some [host_datagram] \<and> ipn_sent X = []"
proof -
  let ?A = "resolution_started 0 ip2 (Some 7) [(ip2, waiting_entry (Some 7) (arp_fresh (sample_arp mac1 ip1)))] (sample_arp mac1 ip1)"
  have A: "resolveL3Address 0 (L3_IPv4 ip2) (Some 7) (sample_arp mac1 ip1) = Inr (UNSPECIFIED_ADDRESS, ?A)"
    using resolve_absent [OF sample_rel [of mac1 ip1], where ie = "Some 7" and ip = ip2 and now = 0] by simp
  have new: "new_signals (sample_arp mac1 ip1) ?A = [InitiatedResolution ip2 UNSPECIFIED_ADDRESS (Some 7)]"
    by (simp add: new_signals_def resolution_started_def sample_arp_def arp_initialize_def)
  have plain: "\<not> isLimitedBroadcastAddress ip2" "ip2 \<noteq> broadcast_address (host_data ip1)" "\<not> ip_isMulticast ip2"
    by (simp_all add: isLimitedBroadcastAddress_def broadcast_address_def makeBroadcastAddress_def host_data_def ip_isMulticast_def ip1_def ip2_def)
  have unspec: "isUnspecified UNSPECIFIED_ADDRESS" by (simp add: isUnspecified_def UNSPECIFIED_ADDRESS_def)
  have node: "ipn_arp sample_node = sample_arp mac1 ip1" "ipn_pending sample_node = []" "ipn_sent sample_node = []"
    by (simp_all add: sample_node_def ip_new_def)
  have hop: "default_next_hop host_datagram (sample_nic mac1 ip1) unspecified_ip sample_node = Inr ip2"
    using sample_on_link by (simp add: default_next_hop_def nic_ipv4Data_def sample_unspecified host_datagram_def)
  have "resolveNextHopMacAddress 0 ip2 (Some 7) sample_node = Inr (UNSPECIFIED_ADDRESS, sample_node\<lparr>ipn_arp := ?A\<rparr>)"
    using plain by (simp add: resolveNextHopMacAddress_def nic_ipv4Data_def node with_arp_def A new)
  then show ?thesis
    by (simp add: sample_sends_def sendDatagramToOutput_def node hop unspec enqueue_pending_def)
qed

theorem ip_datagrams_accounted_witness:
  "\<exists>X. run_result ip_exec (sample_sends @ [GetsArpPacket 5 sample_reply 0]) sample_node = Inr X \<and> settled X [host_datagram]"
proof -
  let ?ops = "sample_sends @ [GetsArpPacket 5 sample_reply 0]"
  have new: "sample_node = ip_new False (arp_initialize (SimTime_s 1) 3 (SimTime_s 120) False True [Some (sample_nic mac1 ip1)] (sample_rt ip1))"
    by (simp add: sample_node_def sample_arp_def)
  have "0 \<le> SimTime_s 1" by (simp add: SimTime_s_def)
  note runs = ip_datagrams_accounted [OF this sample_rt_ready [of ip1] sample_legal new]
  have "\<not> queued_broadcast [Some (sample_nic mac1 ip1)] d ie nextHop X"
    if "?ops = xs @ SendsDatagram now d ie nextHop # ys" "run_result ip_exec xs sample_node = Inr X" for xs now d ie nextHop ys X
  proof -
    have "xs = []" using that(1) by (cases xs) (auto simp: sample_sends_def Cons_eq_append_conv)
    then have "ipn_pending X = []" using that(2) by (auto simp: sample_node_def ip_new_def)
    then show ?thesis by (simp add: queued_broadcast_def)
  qed
  moreover have "handed ?ops = [host_datagram]" by (simp add: sample_sends_def)
  ultimately show ?thesis using runs by fastforce
qed

theorem ip_queue_released_witness:
  "\<exists>X Y g. run_result ip_exec sample_sends sample_node = Inr X \<and> ip_exec (GetsArpPacket 5 sample_reply 0) X = Inr Y
    \<and> ipn_sent Y = [\<lparr>nf_packet = host_datagram, nf_ctrl = Some (mac2, ETHERTYPE_IPv4), nf_gate = g\<rparr>]"
proof -
  obtain X where X: "run_result ip_exec sample_sends sample_node = Inr X" "map_of (ipn_pending X) ip2 = Some [host_datagram]"
    "ipn_sent X = []" using sample_waits by blast
  have reply: "ap_srcIP sample_reply = ip2" "ap_srcMAC sample_reply = mac2" by (simp_all add: sample_reply_def)
  have "0 \<le> SimTime_s 1" by (simp add: SimTime_s_def)
  from ip_queue_released [OF this sample_rt_ready [of ip1] sample_legal, where rc = 3 and ct = "SimTime_s 120" and pa = False
      and X = X and q = "[host_datagram]"] X
  show ?thesis by (auto simp: reply sample_node_def sample_arp_def simp del: ip_exec.simps)
qed

section \<open>A next hop that is a host on one link and the broadcast address of another\<close>

text \<open>A node with 10.0.0.1/24 on one interface and 10.0.1.1/16 on another.\<close>

definition wide_nic :: nic where
  "wide_nic = \<lparr>if_ptr = 8, if_fullName = ''eth1'', if_loopback = False, if_broadcast = True, if_multicast = True,
     if_ipv4Data = Some \<lparr>id_inetAddr = IPv4Address 0x0A000101, id_netmask = IPv4Address 0xFFFF0000, id_metric = 1,
       id_joinedGroups = []\<rparr>, nic_id = 101, nic_mac = mac2, nic_gate = 1\<rparr>"

definition two_links :: id_table where
  "two_links = [Some (sample_nic mac1 ip1), Some wide_nic]"

definition edge_node :: "nat ip_node" where
  "edge_node = ip_new False (arp_initialize (SimTime_s 1) 3 (SimTime_s 120) False True two_links (sample_rt ip1))"

definition edge_address :: IPv4Address where
  "edge_address = IPv4Address 0x0A0000FF"

definition edge_datagram :: "nat out_datagram" where
  "edge_datagram = \<lparr>od_dest = edge_address, od_rest = 0\<rparr>"

lemma edge_waits:
  "\<exists>X. sendDatagramToOutput 0 edge_datagram (Some 8) edge_address edge_node = Inr X
    \<and> arp_ift (ipn_arp X) = two_links \<and> map_of (ipn_pending X) edge_address = Some [edge_datagram]"
proof -
  let ?A = "arp_initialize (SimTime_s 1) 3 (SimTime_s 120) False True two_links (sample_rt ip1)"
  have wide: "deref_nic (Some 8) two_links = Inr wide_nic" by (simp add: deref_nic_def two_links_def wide_nic_def map_filter_def)
  have nic: "if_broadcast wide_nic" "nic_mac wide_nic = mac2"
    "nic_ipv4Data wide_nic = Inr \<lparr>id_inetAddr = IPv4Address 0x0A000101, id_netmask = IPv4Address 0xFFFF0000, id_metric = 1, id_joinedGroups = []\<rparr>"
    by (simp_all add: wide_nic_def nic_ipv4Data_def)
  have ready: "nic_ready two_links (Some 8)"
    unfolding nic_ready_def wide by (simp add: nic) (simp add: wide_nic_def ip_isUnspecified_def)
  have rel: "arp_rel two_links (SimTime_s 120) ?A (True, Map.empty)" by (rule rel_initialize) (simp_all add: SimTime_s_def)
  have A: "resolveL3Address 0 (L3_IPv4 edge_address) (Some 8) ?A = Inr (UNSPECIFIED_ADDRESS,
      resolution_started 0 edge_address (Some 8) [(edge_address, waiting_entry (Some 8) 0)] ?A)"
    using resolve_absent [OF rel _ ready, of edge_address 0] by (simp add: arp_initialize_def)
  have fields: "ipn_arp edge_node = ?A" "arp_ift ?A = two_links" "ipn_pending edge_node = []" "arp_signals ?A = []"
    by (simp_all add: edge_node_def ip_new_def arp_initialize_def)
  have plain: "\<not> isLimitedBroadcastAddress edge_address" "\<not> ip_isMulticast edge_address" "\<not> ip_isUnspecified edge_address"
    "edge_address \<noteq> broadcast_address \<lparr>id_inetAddr = IPv4Address 0x0A000101, id_netmask = IPv4Address 0xFFFF0000, id_metric = 1, id_joinedGroups = []\<rparr>"
    by (simp_all add: edge_address_def isLimitedBroadcastAddress_def ip_isMulticast_def ip_isUnspecified_def broadcast_address_def makeBroadcastAddress_def)
  have unspec: "isUnspecified UNSPECIFIED_ADDRESS" by (simp add: isUnspecified_def UNSPECIFIED_ADDRESS_def)
  have "resolveNextHopMacAddress 0 edge_address (Some 8) edge_node = Inr (UNSPECIFIED_ADDRESS, edge_node\<lparr>ipn_arp :=
      resolution_started 0 edge_address (Some 8) [(edge_address, waiting_entry (Some 8) 0)] ?A\<rparr>)"
    using plain by (simp add: resolveNextHopMacAddress_def fields wide nic with_arp_def A new_signals_def)
      (simp add: resolution_started_def fields)
  then show ?thesis using plain
    by (simp add: sendDatagramToOutput_def fields wide nic default_next_hop_def unspec enqueue_pending_def)
      (simp add: resolution_started_def fields)
qed

text \<open>
  C32: the assertion can fail.  A datagram to 10.0.0.255, a host on the wide link, waits for ARP; a second one, sent
  on the narrow link, whose broadcast address that is, needs no resolution, finds the queue of the first one
  under the same address, and stops the simulation with an assertion that speaks of a resolved address.
\<close>

theorem ip_broadcast_assertion_fails:
  "run_result ip_exec [SendsDatagram 0 edge_datagram (Some 8) edge_address, SendsDatagram 1 edge_datagram (Some 7) edge_address] edge_node
    = Inl (AssertionFailed ''IPv4-ARP error: nextHopAddr found in ARP table, but IPv4 queue for nextHopAddr not empty'')"
proof -
  obtain X where X: "sendDatagramToOutput 0 edge_datagram (Some 8) edge_address edge_node = Inr X"
    "arp_ift (ipn_arp X) = two_links" "map_of (ipn_pending X) edge_address = Some [edge_datagram]" using edge_waits by blast
  have narrow: "deref_nic (Some 7) two_links = Inr (sample_nic mac1 ip1)"
    by (simp add: deref_nic_def two_links_def map_filter_def)
  have "edge_address = broadcast_address (host_data ip1)"
    by (simp add: edge_address_def broadcast_address_def makeBroadcastAddress_def host_data_def ip1_def)
  then have "resolveNextHopMacAddress 1 edge_address (Some 7) X = Inr (BROADCAST_ADDRESS, X)"
    by (simp add: resolveNextHopMacAddress_def X(2) narrow nic_ipv4Data_def)
  moreover have "\<not> ip_isUnspecified edge_address" by (simp add: edge_address_def ip_isUnspecified_def)
  ultimately have "sendDatagramToOutput 1 edge_datagram (Some 7) edge_address X
    = Inl (AssertionFailed ''IPv4-ARP error: nextHopAddr found in ARP table, but IPv4 queue for nextHopAddr not empty'')"
    using broadcast_specified by (simp add: sendDatagramToOutput_def X(2,3) narrow default_next_hop_def)
  then show ?thesis by (simp add: X(1))
qed

end
