(* ===== verification/Reassembly.thy ===== *)
theory Reassembly
  imports NdnPrelude
begin

text \<open>
  The reassembly buffer of the fragment buffers of IPv4 and IPv6,
  \<^verbatim>\<open>inet/common/ReassemblyBuffer.{h,cc}\<close>: the range of offsets received so far from the front of the
  datagram, and the fragments put aside because they do not touch it.  The specification is the set of
  the fragments that have arrived.
\<close>

section \<open>The buffer\<close>

type_synonym ushort = "16 word"

record fragment_region =
  rb_beg :: ushort
  rb_end :: ushort
  rb_islast :: bool

record rbuf =
  rb_main :: fragment_region
  rb_fragments :: "fragment_region list option"

definition rb_new :: rbuf where
  "rb_new = \<lparr>rb_main = \<lparr>rb_beg = 0, rb_end = 0, rb_islast = False\<rparr>, rb_fragments = None\<rparr>"

text \<open>One pass of \<^verbatim>\<open>mergeFragments\<close> over the fragments: the range, the fragments kept, \<open>oncemore\<close>.\<close>

fun merge_pass :: "fragment_region \<Rightarrow> fragment_region list \<Rightarrow> fragment_region \<times> fragment_region list \<times> bool" where
  "merge_pass m [] = (m, [], False)"
| "merge_pass m (frag # frags) =
     (if rb_end m = rb_beg frag then
        (let (m', kept, _) = merge_pass (m\<lparr>rb_end := rb_end frag, rb_islast := rb_islast m \<or> rb_islast frag\<rparr>) frags
         in (m', kept, True))
      else if rb_beg m = rb_end frag then
        (let (m', kept, _) = merge_pass (m\<lparr>rb_beg := rb_beg frag\<rparr>) frags in (m', kept, True))
      else if rb_beg m \<le> rb_beg frag \<and> rb_end m \<ge> rb_end frag then
        (let (m', kept, _) = merge_pass m frags in (m', kept, True))
      else (let (m', kept, oncemore) = merge_pass m frags in (m', frag # kept, oncemore)))"

lemma merge_pass_shrinks:
  "merge_pass m frags = (m', kept, oncemore) \<Longrightarrow>
   length kept \<le> length frags \<and> (oncemore \<longrightarrow> length kept < length frags)"
proof (induction m frags arbitrary: m' kept oncemore rule: merge_pass.induct)
  case (2 m frag frags)
  obtain m1 k1 o1 where 1: "merge_pass (m\<lparr>rb_end := rb_end frag, rb_islast := rb_islast m \<or> rb_islast frag\<rparr>) frags = (m1, k1, o1)"
    by (cases "merge_pass (m\<lparr>rb_end := rb_end frag, rb_islast := rb_islast m \<or> rb_islast frag\<rparr>) frags")
  obtain m2 k2 o2 where 2: "merge_pass (m\<lparr>rb_beg := rb_beg frag\<rparr>) frags = (m2, k2, o2)"
    by (cases "merge_pass (m\<lparr>rb_beg := rb_beg frag\<rparr>) frags")
  obtain m3 k3 o3 where 3: "merge_pass m frags = (m3, k3, o3)" by (cases "merge_pass m frags")
  show ?case using "2.prems" "2.IH"(1) [OF _ 1] "2.IH"(2) [OF _ _ 2] "2.IH"(3) [OF _ _ _ 3] "2.IH"(4) [OF _ _ _ 3]
    by (auto simp: 1 2 3 split: if_splits)
qed simp

text \<open>The \<^verbatim>\<open>do ... while (oncemore)\<close> loop ends because a pass that asks for another one deletes a fragment.\<close>

function merge_fragments :: "fragment_region \<Rightarrow> fragment_region list \<Rightarrow> fragment_region \<times> fragment_region list" where
  "merge_fragments m frags =
     (case merge_pass m frags of (m', kept, oncemore) \<Rightarrow>
        if oncemore then merge_fragments m' kept else (m', kept))"
  by auto

termination
  by (relation "measure (length \<circ> snd)") (auto dest!: merge_pass_shrinks [OF sym])

declare merge_fragments.simps [simp del]

definition mergeFragments :: "rbuf \<Rightarrow> rbuf" where
  "mergeFragments b =
     (case rb_fragments b of
        None \<Rightarrow> b
      | Some frags \<Rightarrow> let (m, kept) = merge_fragments (rb_main b) frags
                     in b\<lparr>rb_main := m, rb_fragments := Some kept\<rparr>)"

definition rb_merge :: "ushort \<Rightarrow> ushort \<Rightarrow> bool \<Rightarrow> rbuf \<Rightarrow> rbuf" where
  "rb_merge beg end islast b =
     (let m = rb_main b in
      if rb_end m = beg then
        mergeFragments (b\<lparr>rb_main := m\<lparr>rb_end := end, rb_islast := rb_islast m \<or> islast\<rparr>\<rparr>)
      else if rb_beg m = end then
        mergeFragments (b\<lparr>rb_main := m\<lparr>rb_beg := beg\<rparr>\<rparr>)
      else if rb_end m < beg \<or> rb_beg m > end then
        b\<lparr>rb_fragments := Some ((case rb_fragments b of None \<Rightarrow> [] | Some frags \<Rightarrow> frags)
             @ [\<lparr>rb_beg = beg, rb_end = end, rb_islast = islast\<rparr>])\<rparr>
      else b)"

definition addFragment :: "ushort \<Rightarrow> ushort \<Rightarrow> bool \<Rightarrow> rbuf \<Rightarrow> bool \<times> rbuf" where
  "addFragment beg end islast b =
     (let b' = rb_merge beg end islast b
      in (rb_beg (rb_main b') = 0 \<and> rb_islast (rb_main b'), b'))"

definition getTotalLength :: "rbuf \<Rightarrow> ushort" where
  "getTotalLength b = rb_end (rb_main b)"

section \<open>The fragments of one datagram\<close>

text \<open>
  A fragmentation of a datagram is given by its cuts: the offsets \<open>0 = c\<^sub>0 < \<dots> < c\<^sub>m\<close> of which the last
  one is the length of the datagram.  Fragment \<open>i\<close> reaches from cut \<open>i\<close> to cut \<open>i + 1\<close>.
\<close>

definition fragmentation :: "nat list \<Rightarrow> bool" where
  "fragmentation cuts \<longleftrightarrow> 2 \<le> length cuts \<and> hd cuts = 0 \<and> sorted_wrt (<) cuts \<and> last cuts < 65536"

definition fragment :: "nat list \<Rightarrow> nat \<Rightarrow> fragment_region" where
  "fragment cuts i = \<lparr>rb_beg = of_nat (cuts ! i), rb_end = of_nat (cuts ! Suc i), rb_islast = (i + 2 = length cuts)\<rparr>"

lemma fragment_sel:
  "rb_beg (fragment cuts i) = of_nat (cuts ! i)" "rb_end (fragment cuts i) = of_nat (cuts ! Suc i)"
  "rb_islast (fragment cuts i) = (i + 2 = length cuts)"
  by (simp_all add: fragment_def)

definition main_at :: "nat list \<Rightarrow> nat \<Rightarrow> fragment_region" where
  "main_at cuts j = \<lparr>rb_beg = 0, rb_end = of_nat (cuts ! j), rb_islast = (j + 1 = length cuts)\<rparr>"

lemma cut_less:
  assumes "fragmentation cuts" "i < length cuts"
  shows "cuts ! i < 65536"
proof -
  have "cuts \<noteq> []" using assms(2) by auto
  then have last: "last cuts = cuts ! (length cuts - 1)" by (rule last_conv_nth)
  have "cuts ! i \<le> cuts ! (length cuts - 1)"
  proof (cases "i = length cuts - 1")
    case False
    then have "cuts ! i < cuts ! (length cuts - 1)"
      using assms by (intro sorted_wrt_nth_less [where P = "(<)"]) (auto simp: fragmentation_def)
    then show ?thesis by simp
  qed simp
  then show ?thesis using assms(1) last by (simp add: fragmentation_def)
qed

lemma cut_order:
  assumes "fragmentation cuts" "i < length cuts" "j < length cuts"
  shows "(of_nat (cuts ! i) :: ushort) < of_nat (cuts ! j) \<longleftrightarrow> i < j"
    "(of_nat (cuts ! i) :: ushort) \<le> of_nat (cuts ! j) \<longleftrightarrow> i \<le> j"
    "(of_nat (cuts ! i) :: ushort) = of_nat (cuts ! j) \<longleftrightarrow> i = j"
proof -
  have u: "unat (of_nat (cuts ! k) :: ushort) = cuts ! k" if "k < length cuts" for k
    using cut_less [OF assms(1) that] by (simp add: unat_of_nat take_bit_eq_mod)
  have lt: "cuts ! k < cuts ! l" if "k < l" "l < length cuts" for k l
    using assms(1) that by (intro sorted_wrt_nth_less [where P = "(<)"]) (auto simp: fragmentation_def)
  have c: "cuts ! i < cuts ! j \<longleftrightarrow> i < j" "cuts ! i = cuts ! j \<longleftrightarrow> i = j"
    using lt [of i j] lt [of j i] assms(2,3) by (cases i j rule: linorder_cases; simp)+
  show less: "(of_nat (cuts ! i) :: ushort) < of_nat (cuts ! j) \<longleftrightarrow> i < j"
    unfolding word_less_nat_alt u [OF assms(2)] u [OF assms(3)] by (rule c)
  show eq: "(of_nat (cuts ! i) :: ushort) = of_nat (cuts ! j) \<longleftrightarrow> i = j"
    using u assms(2,3) c(2) by metis
  show "(of_nat (cuts ! i) :: ushort) \<le> of_nat (cuts ! j) \<longleftrightarrow> i \<le> j"
    unfolding le_less less eq by auto
qed

lemma cut_0: "fragmentation cuts \<Longrightarrow> cuts ! 0 = 0"
  by (cases cuts) (auto simp: fragmentation_def)

text \<open>A pass over stored fragments of the datagram, when the first \<open>j\<close> fragments are in the range.\<close>

lemma merge_pass_at:
  assumes "fragmentation cuts" "j < length cuts" "\<forall>i \<in> set F. i + 1 < length cuts"
  shows "\<exists>j' F' more. merge_pass (main_at cuts j) (map (fragment cuts) F) = (main_at cuts j', map (fragment cuts) F', more)
    \<and> j \<le> j' \<and> j' < length cuts \<and> {..<j'} \<union> set F' = {..<j} \<union> set F
    \<and> (\<not> more \<longrightarrow> j' = j \<and> F' = F \<and> (\<forall>i \<in> set F. j < i))"
  using assms(2,3)
proof (induction F arbitrary: j)
  case Nil
  then show ?case by (intro exI [of _ j] exI [of _ "[]"] exI [of _ False]) simp
next
  case (Cons i F)
  have i: "Suc i < length cuts" "i < length cuts" using Cons.prems by simp_all
  note o = cut_order [OF assms(1)]
  have beg: "rb_end (main_at cuts j) = rb_beg (fragment cuts i) \<longleftrightarrow> j = i"
    using o(3) [OF Cons.prems(1) i(2)] by (simp add: main_at_def fragment_def)
  have "cuts \<noteq> []" "(0 :: ushort) = of_nat (cuts ! 0)" using i cut_0 [OF assms(1)] by auto
  then have fin: "rb_beg (main_at cuts j) \<noteq> rb_end (fragment cuts i)"
    using o(3) [of 0 "Suc i"] i by (simp add: main_at_def fragment_def)
  have inside: "rb_beg (main_at cuts j) \<le> rb_beg (fragment cuts i) \<and> rb_end (fragment cuts i) \<le> rb_end (main_at cuts j)
      \<longleftrightarrow> i < j"
    using o(2) [OF i(1) Cons.prems(1)] by (simp add: main_at_def fragment_def Suc_le_eq)
  consider "i = j" | "i < j" | "j < i" by linarith
  then show ?case
  proof cases
    case 1
    have next_main: "(main_at cuts j)\<lparr>rb_end := rb_end (fragment cuts i), rb_islast := rb_islast (main_at cuts j) \<or> rb_islast (fragment cuts i)\<rparr>
        = main_at cuts (Suc j)"
      using 1 i by (auto simp: main_at_def fragment_def)
    obtain j' F' more where IH: "merge_pass (main_at cuts (Suc j)) (map (fragment cuts) F) = (main_at cuts j', map (fragment cuts) F', more)"
      "Suc j \<le> j'" "j' < length cuts" "{..<j'} \<union> set F' = {..<Suc j} \<union> set F"
      using Cons.IH [of "Suc j"] Cons.prems 1 by auto
    have "{..<j'} \<union> set F' = {..<j} \<union> set (i # F)" using IH(4) 1 by (auto simp: lessThan_Suc)
    then show ?thesis using beg 1 IH(1-3)
      by (intro exI [of _ j'] exI [of _ F'] exI [of _ True]) (simp add: next_main [unfolded 1])
  next
    case 2
    obtain j' F' more where IH: "merge_pass (main_at cuts j) (map (fragment cuts) F) = (main_at cuts j', map (fragment cuts) F', more)"
      "j \<le> j'" "j' < length cuts" "{..<j'} \<union> set F' = {..<j} \<union> set F"
      using Cons.IH [of j] Cons.prems by auto
    have "{..<j'} \<union> set F' = {..<j} \<union> set (i # F)" using IH(4) 2 by auto
    then show ?thesis using beg fin inside 2 IH(1-3)
      by (intro exI [of _ j'] exI [of _ F'] exI [of _ True]) simp
  next
    case 3
    obtain j' F' more where IH: "merge_pass (main_at cuts j) (map (fragment cuts) F) = (main_at cuts j', map (fragment cuts) F', more)"
      "j \<le> j'" "j' < length cuts" "{..<j'} \<union> set F' = {..<j} \<union> set F"
      "\<not> more \<longrightarrow> j' = j \<and> F' = F \<and> (\<forall>i \<in> set F. j < i)"
      using Cons.IH [of j] Cons.prems by auto
    have "{..<j'} \<union> set (i # F') = {..<j} \<union> set (i # F)" using IH(4) by auto
    then show ?thesis using beg fin inside 3 IH
      by (intro exI [of _ j'] exI [of _ "i # F'"] exI [of _ more]) auto
  qed
qed

lemma merge_fragments_at:
  assumes "fragmentation cuts" "j < length cuts" "\<forall>i \<in> set F. i + 1 < length cuts"
  shows "\<exists>j' F'. merge_fragments (main_at cuts j) (map (fragment cuts) F) = (main_at cuts j', map (fragment cuts) F')
    \<and> j' < length cuts \<and> {..<j'} \<union> set F' = {..<j} \<union> set F \<and> (\<forall>i \<in> set F'. j' < i)"
  using assms(2,3)
proof (induction "length F" arbitrary: j F rule: less_induct)
  case less
  obtain j' F' more where p: "merge_pass (main_at cuts j) (map (fragment cuts) F) = (main_at cuts j', map (fragment cuts) F', more)"
    "j \<le> j'" "j' < length cuts" "{..<j'} \<union> set F' = {..<j} \<union> set F"
    "\<not> more \<longrightarrow> j' = j \<and> F' = F \<and> (\<forall>i \<in> set F. j < i)"
    using merge_pass_at [OF assms(1) less.prems] by blast
  show ?case
  proof (cases more)
    case False
    then show ?thesis using p less.prems by (subst merge_fragments.simps) auto
  next
    case True
    have "length F' < length F" using merge_pass_shrinks [OF p(1)] True by simp
    moreover have "i + 1 < length cuts" if "i \<in> set F'" for i
    proof -
      have "i \<in> {..<j} \<union> set F" using that p(4) by blast
      then show ?thesis using less.prems that p(1-5) by (cases "i < j") auto
    qed
    ultimately obtain j'' F'' where "merge_fragments (main_at cuts j') (map (fragment cuts) F') = (main_at cuts j'', map (fragment cuts) F'')
        \<and> j'' < length cuts \<and> {..<j''} \<union> set F'' = {..<j'} \<union> set F' \<and> (\<forall>i \<in> set F''. j'' < i)"
      using less.hyps [of F' j'] p(3) by blast
    then show ?thesis using p(1,4) True by (subst merge_fragments.simps) auto
  qed
qed

text \<open>
  The state after the fragments with the indices in \<open>R\<close>: the first \<open>j\<close> are in the range, those
  after the gap are put aside.
\<close>

definition holds :: "nat list \<Rightarrow> nat set \<Rightarrow> rbuf \<Rightarrow> bool" where
  "holds cuts R b \<longleftrightarrow> (\<exists>j F. rb_main b = main_at cuts j \<and> j < length cuts
     \<and> (case rb_fragments b of None \<Rightarrow> [] | Some frags \<Rightarrow> frags) = map (fragment cuts) F
     \<and> R = {..<j} \<union> set F \<and> (\<forall>i \<in> set F. j < i \<and> i + 1 < length cuts))"

lemma mergeFragments_at:
  assumes "fragmentation cuts" "j < length cuts" "rb_main b = main_at cuts j"
    "(case rb_fragments b of None \<Rightarrow> [] | Some frags \<Rightarrow> frags) = map (fragment cuts) F"
    "\<forall>i \<in> set F. i + 1 < length cuts"
  shows "holds cuts ({..<j} \<union> set F) (mergeFragments b)"
proof -
  obtain j' F' where m: "merge_fragments (main_at cuts j) (map (fragment cuts) F) = (main_at cuts j', map (fragment cuts) F')"
    "j' < length cuts" "{..<j'} \<union> set F' = {..<j} \<union> set F" "\<forall>i \<in> set F'. j' < i"
    using merge_fragments_at [OF assms(1,2,5)] by blast
  have F': "i + 1 < length cuts" if "i \<in> set F'" for i
  proof -
    have "i \<in> {..<j} \<union> set F" "j' < i" using that m(3,4) by blast+
    then show ?thesis using assms(2,5) m(2,3) by (cases "i \<in> set F") auto
  qed
  show ?thesis
  proof (cases "rb_fragments b")
    case None
    then show ?thesis using assms(2-4) by (auto simp: holds_def mergeFragments_def)
  next
    case (Some frags)
    then have "mergeFragments b = b\<lparr>rb_main := main_at cuts j', rb_fragments := Some (map (fragment cuts) F')\<rparr>"
      using assms(3,4) m(1) by (simp add: mergeFragments_def)
    then show ?thesis using m(2-4) F' by (auto simp: holds_def intro!: exI [of _ j'] exI [of _ F'])
  qed
qed

lemma rb_merge_at:
  assumes cuts: "fragmentation cuts" and inv: "holds cuts R b" and i: "i + 1 < length cuts"
  shows "holds cuts (insert i R) (rb_merge (of_nat (cuts ! i)) (of_nat (cuts ! Suc i)) (i + 2 = length cuts) b)"
proof -
  obtain j F where s: "rb_main b = main_at cuts j" "j < length cuts"
    "(case rb_fragments b of None \<Rightarrow> [] | Some frags \<Rightarrow> frags) = map (fragment cuts) F"
    "R = {..<j} \<union> set F" "\<forall>i \<in> set F. j < i \<and> i + 1 < length cuts"
    using inv by (auto simp: holds_def)
  note o = cut_order [OF cuts]
  have i': "i < length cuts" "Suc i < length cuts" "cuts \<noteq> []" using i by auto
  have eq: "rb_end (main_at cuts j) = of_nat (cuts ! i) \<longleftrightarrow> j = i"
    "rb_end (main_at cuts j) < of_nat (cuts ! i) \<longleftrightarrow> j < i"
    using o(1,3) [OF s(2) i'(1)] by (simp_all add: main_at_def)
  have "(0 :: ushort) = of_nat (cuts ! 0)" using cut_0 [OF cuts] by simp
  then have fin: "rb_beg (main_at cuts j) \<noteq> of_nat (cuts ! Suc i)" "\<not> rb_beg (main_at cuts j) > of_nat (cuts ! Suc i)"
    using o(1,3) [of 0 "Suc i"] i' by (simp_all add: main_at_def)
  consider "i = j" | "i < j" | "j < i" by linarith
  then show ?thesis
  proof cases
    case 1
    have "(main_at cuts j)\<lparr>rb_end := of_nat (cuts ! Suc i), rb_islast := rb_islast (main_at cuts j) \<or> i + 2 = length cuts\<rparr>
        = main_at cuts (Suc j)"
      using 1 i by (auto simp: main_at_def)
    then have "rb_merge (of_nat (cuts ! i)) (of_nat (cuts ! Suc i)) (i + 2 = length cuts) b
        = mergeFragments (b\<lparr>rb_main := main_at cuts (Suc j)\<rparr>)"
      using eq(1) 1 s(1) by (simp add: rb_merge_def)
    moreover have "holds cuts ({..<Suc j} \<union> set F) (mergeFragments (b\<lparr>rb_main := main_at cuts (Suc j)\<rparr>))"
      using 1 i s by (intro mergeFragments_at [OF cuts]) auto
    moreover have "{..<Suc j} \<union> set F = insert i R" using s(4) 1 by (auto simp: lessThan_Suc)
    ultimately show ?thesis by simp
  next
    case 2
    then have "rb_merge (of_nat (cuts ! i)) (of_nat (cuts ! Suc i)) (i + 2 = length cuts) b = b"
      using eq fin s(1) by (simp add: rb_merge_def)
    moreover have "insert i R = R" using s(4) 2 by auto
    ultimately show ?thesis using inv by simp
  next
    case 3
    then have "rb_merge (of_nat (cuts ! i)) (of_nat (cuts ! Suc i)) (i + 2 = length cuts) b
        = b\<lparr>rb_fragments := Some (map (fragment cuts) (F @ [i]))\<rparr>"
      using eq fin s(1,3) by (simp add: rb_merge_def fragment_def)
    then show ?thesis using s 3 i by (auto simp: holds_def intro!: exI [of _ j] exI [of _ "F @ [i]"])
  qed
qed

text \<open>Arrivals in a row: what the last call returned, and the buffer.\<close>

fun add_all :: "fragment_region list \<Rightarrow> bool \<times> rbuf \<Rightarrow> bool \<times> rbuf" where
  "add_all [] rb = rb"
| "add_all (f # fs) rb = add_all fs (addFragment (rb_beg f) (rb_end f) (rb_islast f) (snd rb))"

lemma add_all_snoc:
  "add_all (fs @ [f]) rb = addFragment (rb_beg f) (rb_end f) (rb_islast f) (snd (add_all fs rb))"
  by (induction fs arbitrary: rb) simp_all

lemma add_all_holds:
  assumes "fragmentation cuts" "\<forall>i \<in> set is. i + 1 < length cuts"
  shows "holds cuts (set is) (snd (add_all (map (fragment cuts) is) (False, rb_new)))"
  using assms(2)
proof (induction "is" rule: rev_induct)
  case Nil
  have "cuts \<noteq> []" "length cuts \<noteq> 1" using assms(1) by (auto simp: fragmentation_def)
  then show ?case using cut_0 [OF assms(1)] by (auto simp: holds_def rb_new_def main_at_def intro!: exI [of _ 0])
next
  case (snoc i "is")
  then have "holds cuts (insert i (set is)) (snd (add_all (map (fragment cuts) (is @ [i])) (False, rb_new)))"
    using rb_merge_at [OF assms(1), of "set is" _ i] by (simp add: add_all_snoc addFragment_def fragment_sel Let_def)
  then show ?case by simp
qed

section \<open>Soundness for any fragments\<close>

text \<open>Everything in the range was received, whatever fragments were put in.\<close>

definition covered :: "fragment_region list \<Rightarrow> fragment_region \<Rightarrow> bool" where
  "covered R m \<longleftrightarrow> rb_beg m = 0
     \<and> (\<forall>p < unat (rb_end m). \<exists>r \<in> set R. unat (rb_beg r) \<le> p \<and> p < unat (rb_end r))
     \<and> (rb_islast m \<longrightarrow> (\<exists>r \<in> set R. rb_islast r \<and> rb_end r \<le> rb_end m))"

lemma covered_extend:
  assumes "covered R m" "r \<in> set R" "rb_beg r \<le> rb_end r" "rb_end m = rb_beg r"
  shows "covered R (m\<lparr>rb_end := rb_end r, rb_islast := rb_islast m \<or> rb_islast r\<rparr>)"
proof -
  have "\<exists>r' \<in> set R. unat (rb_beg r') \<le> p \<and> p < unat (rb_end r')" if "p < unat (rb_end r)" for p
  proof (cases "p < unat (rb_end m)")
    case True
    then show ?thesis using assms(1) by (simp add: covered_def)
  next
    case False
    then show ?thesis using assms(2,4) that by (intro bexI [of _ r]) auto
  qed
  moreover have "rb_end m \<le> rb_end r" using assms(3,4) by simp
  ultimately show ?thesis using assms(1,2) unfolding covered_def by (auto intro: order_trans)
qed

lemma covered_front:
  assumes "covered R m" "rb_beg r \<le> rb_end r" "rb_beg m = rb_end r"
  shows "covered R (m\<lparr>rb_beg := rb_beg r\<rparr>)"
proof -
  have "rb_beg r = 0" using assms by (simp add: covered_def)
  then show ?thesis using assms(1) by (simp add: covered_def)
qed

lemma merge_pass_covered:
  "covered R m \<Longrightarrow> set frags \<subseteq> set R \<Longrightarrow> (\<forall>r \<in> set R. rb_beg r \<le> rb_end r) \<Longrightarrow>
   covered R (fst (merge_pass m frags)) \<and> set (fst (snd (merge_pass m frags))) \<subseteq> set frags"
proof (induction m frags rule: merge_pass.induct)
  case (2 m frag frags)
  have r: "frag \<in> set R" "rb_beg frag \<le> rb_end frag" using "2.prems" by auto
  show ?case
    using "2.IH" "2.prems" covered_extend [OF "2.prems"(1) r] covered_front [OF "2.prems"(1) r(2)]
    by (auto simp: Let_def split: prod.splits)
qed simp

lemma merge_fragments_covered:
  "covered R m \<Longrightarrow> set frags \<subseteq> set R \<Longrightarrow> (\<forall>r \<in> set R. rb_beg r \<le> rb_end r) \<Longrightarrow>
   covered R (fst (merge_fragments m frags)) \<and> set (snd (merge_fragments m frags)) \<subseteq> set frags"
proof (induction m frags rule: merge_fragments.induct)
  case (1 m frags)
  obtain m' kept more where p: "merge_pass m frags = (m', kept, more)" by (cases "merge_pass m frags")
  have c: "covered R m'" "set kept \<subseteq> set frags" using merge_pass_covered [OF 1(2-4)] p by simp_all
  then show ?case using "1.IH" [of m' "(kept, more)" kept more] 1(3,4) p
    by (subst (1 2) merge_fragments.simps) (auto simp: p)
qed

definition buffer_covered :: "fragment_region list \<Rightarrow> rbuf \<Rightarrow> bool" where
  "buffer_covered R b \<longleftrightarrow> covered R (rb_main b)
     \<and> set (case rb_fragments b of None \<Rightarrow> [] | Some frags \<Rightarrow> frags) \<subseteq> set R"

lemma mergeFragments_covered:
  assumes "buffer_covered R b" "\<forall>r \<in> set R. rb_beg r \<le> rb_end r"
  shows "buffer_covered R (mergeFragments b)"
proof (cases "rb_fragments b")
  case (Some frags)
  then show ?thesis
    using assms merge_fragments_covered [of R "rb_main b" frags]
    by (cases "merge_fragments (rb_main b) frags") (auto simp: buffer_covered_def mergeFragments_def)
qed (use assms in \<open>simp add: mergeFragments_def\<close>)

lemma rb_merge_covered:
  assumes "buffer_covered R b" "\<forall>r \<in> set R. rb_beg r \<le> rb_end r" "r \<in> set R"
  shows "buffer_covered R (rb_merge (rb_beg r) (rb_end r) (rb_islast r) b)"
proof -
  have r: "rb_beg r \<le> rb_end r" using assms(2,3) by blast
  have m: "covered R (rb_main b)" using assms(1) by (simp add: buffer_covered_def)
  let ?front = "b\<lparr>rb_main := (rb_main b)\<lparr>rb_end := rb_end r, rb_islast := rb_islast (rb_main b) \<or> rb_islast r\<rparr>\<rparr>"
  have "buffer_covered R (mergeFragments ?front)" if "rb_end (rb_main b) = rb_beg r"
    using assms(1) covered_extend [OF m assms(3) r that] by (intro mergeFragments_covered assms(2)) (simp add: buffer_covered_def)
  moreover have "buffer_covered R (mergeFragments (b\<lparr>rb_main := (rb_main b)\<lparr>rb_beg := rb_beg r\<rparr>\<rparr>))"
    if "rb_beg (rb_main b) = rb_end r"
    using assms(1) covered_front [OF m r that] by (intro mergeFragments_covered assms(2)) (simp add: buffer_covered_def)
  moreover have "\<lparr>rb_beg = rb_beg r, rb_end = rb_end r, rb_islast = rb_islast r\<rparr> = r" by simp
  then have "\<lparr>rb_beg = rb_beg r, rb_end = rb_end r, rb_islast = rb_islast r\<rparr> \<in> set R" using assms(3) by (simp only:)
  ultimately show ?thesis
    using assms(1,3) by (auto simp: rb_merge_def Let_def buffer_covered_def split: option.splits)
qed

lemma add_all_covered:
  assumes "\<forall>r \<in> set R. rb_beg r \<le> rb_end r" "set fs \<subseteq> set R"
  shows "buffer_covered R (snd (add_all fs (False, rb_new)))"
  using assms(2)
proof (induction fs rule: rev_induct)
  case Nil
  then show ?case by (simp add: buffer_covered_def rb_new_def covered_def)
next
  case (snoc f fs)
  then show ?case using rb_merge_covered [OF _ assms(1), of _ f] by (simp add: add_all_snoc addFragment_def Let_def)
qed

section \<open>Properties\<close>

lemma add_all_complete:
  assumes "fragmentation cuts" "\<forall>i \<in> set is. i + 1 < length cuts" "i + 1 < length cuts"
  shows "fst (add_all (map (fragment cuts) (is @ [i])) (False, rb_new)) \<longleftrightarrow> {i. i + 1 < length cuts} \<subseteq> set (is @ [i])"
    and "fst (add_all (map (fragment cuts) (is @ [i])) (False, rb_new)) \<Longrightarrow>
      getTotalLength (snd (add_all (map (fragment cuts) (is @ [i])) (False, rb_new))) = of_nat (last cuts)"
proof -
  let ?r = "add_all (map (fragment cuts) (is @ [i])) (False, rb_new)"
  have "\<forall>i \<in> set (is @ [i]). i + 1 < length cuts" using assms(2,3) by simp
  from add_all_holds [OF assms(1) this] obtain j F where h: "rb_main (snd ?r) = main_at cuts j" "j < length cuts"
    "set (is @ [i]) = {..<j} \<union> set F" "\<forall>i \<in> set F. j < i \<and> i + 1 < length cuts"
    by (auto simp: holds_def)
  have fst: "fst ?r \<longleftrightarrow> j + 1 = length cuts"
    using h(1) by (simp add: add_all_snoc addFragment_def Let_def main_at_def)
  show "fst ?r \<longleftrightarrow> {i. i + 1 < length cuts} \<subseteq> set (is @ [i])"
  proof
    assume "fst ?r"
    then show "{i. i + 1 < length cuts} \<subseteq> set (is @ [i])" using fst unfolding h(3) by auto
  next
    assume sub: "{i. i + 1 < length cuts} \<subseteq> set (is @ [i])"
    have "j \<notin> {..<j} \<union> set F" using h(4) by auto
    then have "\<not> j + 1 < length cuts" using sub unfolding h(3) by blast
    then show "fst ?r" using h(2) fst by simp
  qed
  assume "fst ?r"
  then show "getTotalLength (snd ?r) = of_nat (last cuts)"
  proof -
    have "cuts \<noteq> []" "length cuts - 1 = j" using h(2) fst \<open>fst ?r\<close> by auto
    then have "last cuts = cuts ! j" by (simp add: last_conv_nth)
    then show ?thesis unfolding getTotalLength_def h(1) by (simp add: main_at_def)
  qed
qed

text \<open>
  C18: reassembly is complete exactly when it should be.  Let a datagram be cut into fragments in any
  way.  Whatever of its fragments arrive, in whatever order and however often, the last call of
  \<^verbatim>\<open>addFragment\<close> reports a complete datagram if and only if every fragment has arrived, and the
  total length is then that of the datagram.
\<close>

theorem reassembly_complete:
  assumes "fragmentation cuts" "\<forall>i \<in> set is. i + 1 < length cuts" "i + 1 < length cuts"
  shows "(fst (add_all (map (fragment cuts) (is @ [i])) (False, rb_new)) \<longleftrightarrow> {i. i + 1 < length cuts} \<subseteq> set (is @ [i]))
    \<and> (fst (add_all (map (fragment cuts) (is @ [i])) (False, rb_new)) \<longrightarrow>
      getTotalLength (snd (add_all (map (fragment cuts) (is @ [i])) (False, rb_new))) = of_nat (last cuts))"
  using add_all_complete [OF assms] by simp

theorem reassembly_complete_witness:
  "getTotalLength (snd (add_all (map (fragment [0, 8, 16, 20]) ([2, 0, 0] @ [1])) (False, rb_new))) = of_nat (last [0, 8, 16, 20])"
proof -
  have cuts: "fragmentation [0, 8, 16, 20]" by (simp add: fragmentation_def)
  have i: "\<forall>i \<in> set [2, 0, 0]. i + 1 < length [0::nat, 8, 16, 20]" "1 + 1 < length [0::nat, 8, 16, 20]" by simp_all
  have "{i. i + 1 < length [0::nat, 8, 16, 20]} \<subseteq> set ([2, 0, 0] @ [1])" by auto
  then show ?thesis using reassembly_complete [OF cuts i] by blast
qed

text \<open>
  Reassembly never makes up data.  Whatever fragments are put in (overlapping ones too), when a
  call reports a complete datagram, every offset below the total length lies in a fragment that was
  put in, and a fragment marked as the last one, ending within the total length, was put in.
\<close>

theorem reassembly_sound:
  assumes "\<forall>r \<in> set (fs @ [f]). rb_beg r \<le> rb_end r"
    and "add_all (fs @ [f]) (False, rb_new) = (True, b)"
  shows "(\<forall>p < unat (getTotalLength b). \<exists>r \<in> set (fs @ [f]). unat (rb_beg r) \<le> p \<and> p < unat (rb_end r))
    \<and> (\<exists>r \<in> set (fs @ [f]). rb_islast r \<and> rb_end r \<le> getTotalLength b)"
proof -
  have "buffer_covered (fs @ [f]) b" using add_all_covered [OF assms(1), of "fs @ [f]"] assms(2) by simp
  moreover have "rb_islast (rb_main b)"
    using assms(2) unfolding add_all_snoc by (auto simp: addFragment_def Let_def)
  ultimately show ?thesis by (simp add: buffer_covered_def covered_def getTotalLength_def)
qed

theorem reassembly_sound_witness:
  "\<exists>r \<in> set [\<lparr>rb_beg = 8, rb_end = 12, rb_islast = True\<rparr>, \<lparr>rb_beg = 0, rb_end = 8, rb_islast = False\<rparr>]. unat (rb_beg r) \<le> 9 \<and> 9 < unat (rb_end r)"
proof -
  let ?fs = "[\<lparr>rb_beg = 8, rb_end = 12, rb_islast = True\<rparr>] @ [\<lparr>rb_beg = 0, rb_end = 8, rb_islast = False\<rparr>]"
  have ok: "\<forall>r \<in> set ?fs. rb_beg r \<le> rb_end r" by simp
  have run: "add_all ?fs (False, rb_new) = (True, \<lparr>rb_main = \<lparr>rb_beg = 0, rb_end = 12, rb_islast = True\<rparr>, rb_fragments = Some []\<rparr>)"
    by code_simp
  from reassembly_sound [OF ok run] show ?thesis by (auto simp: getTotalLength_def)
qed

text \<open>
  A fragment that overlaps the range only in part is dropped, although it holds data that is
  missing: the comment in the code takes it for a duplicate.
\<close>

lemma partial_overlap_dropped:
  "add_all [\<lparr>rb_beg = 0, rb_end = 8, rb_islast = False\<rparr>, \<lparr>rb_beg = 4, rb_end = 16, rb_islast = True\<rparr>] (False, rb_new)
     = (False, \<lparr>rb_main = \<lparr>rb_beg = 0, rb_end = 8, rb_islast = False\<rparr>, rb_fragments = None\<rparr>)"
  by code_simp

end
