(* ===== verification/ByteArrays.thy ===== *)
theory ByteArrays
  imports NdnPrelude
begin

text \<open>
  Raw bytes: the class of \<^verbatim>\<open>common/ByteArray.{h,cc}\<close> and the queue of byte arrays of
  \<^verbatim>\<open>common/ByteArrayBuffer.{h,cc}\<close>, which the byte-stream queues of TCP use.  A byte array is an allocated
  block of memory and the number of its bytes in use; a cell of the block that was never written is
  \<open>None\<close>.  Sizes are natural numbers (the code's \<^verbatim>\<open>unsigned int\<close> does not wrap below 4 GB).  The queue
  of arrays is proved to be a first-in first-out stream of bytes.
\<close>

section \<open>Byte arrays\<close>

type_synonym cell = "8 word option"

record byte_array =
  ba_data :: "cell list"
  ba_size :: nat

definition ba_empty :: byte_array where
  "ba_empty = \<lparr>ba_data = [], ba_size = 0\<rparr>"

text \<open>\<^verbatim>\<open>new char[n]\<close>, and \<^verbatim>\<open>memcpy\<close> of bytes to an offset of a block; writing past its end is undefined.\<close>

definition new_char :: "nat \<Rightarrow> cell list" where
  "new_char n = replicate n None"

definition memcpy_at :: "nat \<Rightarrow> cell list \<Rightarrow> cell list \<Rightarrow> sim_error + cell list" where
  "memcpy_at off src block =
     (if off + length src \<le> length block then Inr (take off block @ src @ drop (off + length src) block)
      else Inl (UndefinedBehaviour ''memcpy past the end of a block''))"

text \<open>The copy constructor copies the bytes in use.\<close>

definition ba_dup :: "byte_array \<Rightarrow> byte_array" where
  "ba_dup b = \<lparr>ba_data = take (ba_size b) (ba_data b), ba_size = ba_size b\<rparr>"

definition setDataFromBuffer :: "cell list \<Rightarrow> byte_array \<Rightarrow> sim_error + byte_array" where
  "setDataFromBuffer src b =
     (let b = (if length src \<noteq> ba_size b then \<lparr>ba_data = new_char (length src), ba_size = length src\<rparr> else b)
      in if src \<noteq> [] then bind_result (memcpy_at 0 src (ba_data b)) (\<lambda>d. Inr (b\<lparr>ba_data := d\<rparr>)) else Inr b)"

definition copyDataFromBuffer :: "nat \<Rightarrow> cell list \<Rightarrow> byte_array \<Rightarrow> sim_error + byte_array" where
  "copyDataFromBuffer destOffset src b =
     (let nlength = destOffset + length src in
      bind_result
        (if ba_size b < nlength then
           (if ba_size b > 0 then memcpy_at 0 (take (ba_size b) (ba_data b)) (new_char nlength) else Inr (new_char nlength))
         else Inr (ba_data b))
        (\<lambda>block. bind_result (memcpy_at destOffset src block) (\<lambda>d. Inr (b\<lparr>ba_data := d\<rparr>))))"

definition setDataFromByteArray :: "byte_array \<Rightarrow> nat \<Rightarrow> nat \<Rightarrow> byte_array \<Rightarrow> sim_error + byte_array" where
  "setDataFromByteArray other srcOffs len b =
     (if srcOffs + len \<le> ba_size other then setDataFromBuffer (take len (drop srcOffs (ba_data other))) b
      else Inl (AssertionFailed ''srcOffs + length <= other.data_arraysize''))"

definition copyDataFromByteArray :: "nat \<Rightarrow> byte_array \<Rightarrow> nat \<Rightarrow> nat \<Rightarrow> byte_array \<Rightarrow> sim_error + byte_array" where
  "copyDataFromByteArray destOffset other srcOffset len b =
     (if srcOffset + len \<le> ba_size other then copyDataFromBuffer destOffset (take len (drop srcOffset (ba_data other))) b
      else Inl (AssertionFailed ''srcOffset + length <= other.data_arraysize''))"

definition addDataFromBuffer :: "cell list \<Rightarrow> byte_array \<Rightarrow> sim_error + byte_array" where
  "addDataFromBuffer src b =
     (if src = [] then Inr b
      else
        (let nlength = ba_size b + length src in
         bind_result (memcpy_at 0 (take (ba_size b) (ba_data b)) (new_char nlength)) (\<lambda>block.
           bind_result (memcpy_at (ba_size b) src block) (\<lambda>d. Inr \<lparr>ba_data = d, ba_size = nlength\<rparr>))))"

text \<open>\<^verbatim>\<open>copyDataToBuffer\<close>: the bytes written to the buffer; their number is its result.\<close>

definition copyDataToBuffer :: "nat \<Rightarrow> nat \<Rightarrow> byte_array \<Rightarrow> cell list" where
  "copyDataToBuffer len srcOffs b =
     (if srcOffs \<ge> ba_size b then []
      else
        (let len = (if srcOffs + len > ba_size b then ba_size b - srcOffs else len)
         in take len (drop srcOffs (ba_data b))))"

definition assignBuffer :: "cell list \<Rightarrow> nat \<Rightarrow> byte_array" where
  "assignBuffer block len = \<lparr>ba_data = block, ba_size = len\<rparr>"

definition truncateData :: "nat \<Rightarrow> nat \<Rightarrow> byte_array \<Rightarrow> sim_error + byte_array" where
  "truncateData truncleft truncright b =
     (if ba_size b \<ge> truncleft + truncright then
        (if truncleft > 0 \<or> truncright > 0 then
           (let nlength = ba_size b - (truncleft + truncright)
            in Inr \<lparr>ba_data = (if nlength > 0 then take nlength (drop truncleft (ba_data b)) else []), ba_size = nlength\<rparr>)
         else Inr b)
      else Inl (AssertionFailed ''data_arraysize >= (truncleft + truncright)''))"

definition expandData :: "nat \<Rightarrow> nat \<Rightarrow> byte_array \<Rightarrow> byte_array" where
  "expandData addleft addright b =
     (if addleft > 0 \<or> addright > 0 then
        \<lparr>ba_data = new_char addleft @ take (ba_size b) (ba_data b) @ new_char addright,
         ba_size = ba_size b + (addleft + addright)\<rparr>
      else b)"

text \<open>A well-formed array uses its whole block; \<open>contents\<close> is its bytes.\<close>

definition ba_wf :: "byte_array \<Rightarrow> bool" where
  "ba_wf b \<longleftrightarrow> length (ba_data b) = ba_size b"

definition contents :: "byte_array \<Rightarrow> cell list" where
  "contents b = take (ba_size b) (ba_data b)"

lemma contents_wf: "ba_wf b \<Longrightarrow> contents b = ba_data b"
  by (simp add: contents_def ba_wf_def)

lemma length_contents: "ba_wf b \<Longrightarrow> length (contents b) = ba_size b"
  by (simp add: contents_def ba_wf_def)

lemma ba_dup_wf: "ba_wf b \<Longrightarrow> ba_dup b = b"
  by (simp add: ba_dup_def ba_wf_def)

lemma setDataFromBuffer_contents:
  "ba_wf b \<Longrightarrow> returns (\<lambda>b'. ba_wf b' \<and> contents b' = src) (setDataFromBuffer src b)"
  by (auto simp: setDataFromBuffer_def memcpy_at_def new_char_def ba_wf_def contents_def Let_def)

lemma addDataFromBuffer_contents:
  "ba_wf b \<Longrightarrow> returns (\<lambda>b'. ba_wf b' \<and> contents b' = contents b @ src) (addDataFromBuffer src b)"
  by (auto simp: addDataFromBuffer_def memcpy_at_def new_char_def ba_wf_def contents_def Let_def)

lemma truncateData_contents:
  "ba_wf b \<Longrightarrow> l + r \<le> ba_size b \<Longrightarrow>
   returns (\<lambda>b'. ba_wf b' \<and> contents b' = take (ba_size b - (l + r)) (drop l (contents b))) (truncateData l r b)"
  by (auto simp: truncateData_def ba_wf_def contents_def Let_def drop_take)

lemma copyDataToBuffer_contents: "copyDataToBuffer len srcOffs b = take len (drop srcOffs (contents b))"
  by (auto simp: copyDataToBuffer_def contents_def Let_def drop_take min_def)

lemma expandData_contents:
  "ba_wf b \<Longrightarrow> ba_wf (expandData l r b) \<and> contents (expandData l r b) = replicate l None @ contents b @ replicate r None"
  by (simp add: expandData_def ba_wf_def contents_def new_char_def)

text \<open>
  \<open>copyDataFromBuffer\<close> past the end of the array allocates a larger block but does not record the new
  size: the array keeps its old size, its block is larger than that, and the next copy of the array
  loses the bytes just written.
\<close>

lemma copyDataFromBuffer_size: "copyDataFromBuffer off src b = Inr b' \<Longrightarrow> ba_size b' = ba_size b"
  by (auto simp: copyDataFromBuffer_def Let_def bind_result_Inr_iff split: if_splits)

lemma copyDataFromBuffer_inside:
  "ba_wf b \<Longrightarrow> off + length src \<le> ba_size b \<Longrightarrow>
   returns (\<lambda>b'. ba_wf b' \<and> contents b' = take off (contents b) @ src @ drop (off + length src) (contents b))
     (copyDataFromBuffer off src b)"
  by (auto simp: copyDataFromBuffer_def memcpy_at_def ba_wf_def contents_def Let_def)

lemma copyDataFromBuffer_loses:
  assumes "ba_wf b" "ba_size b \<le> off" "src \<noteq> []"
  shows "returns (\<lambda>b'. \<not> ba_wf b' \<and> contents b' = contents b) (copyDataFromBuffer off src b)"
  using assms by (cases src) (auto simp: copyDataFromBuffer_def memcpy_at_def ba_wf_def contents_def new_char_def Let_def)

section \<open>The queue of byte arrays\<close>

record byte_array_buffer =
  dataList :: "byte_array list"
  dataLength :: nat

definition bab_new :: byte_array_buffer where
  "bab_new = \<lparr>dataList = [], dataLength = 0\<rparr>"

text \<open>The copy constructor and the assignment copy the list, and so every array in it.\<close>

definition bab_dup :: "byte_array_buffer \<Rightarrow> byte_array_buffer" where
  "bab_dup q = \<lparr>dataList = map ba_dup (dataList q), dataLength = dataLength q\<rparr>"

definition push_array :: "byte_array \<Rightarrow> byte_array_buffer \<Rightarrow> byte_array_buffer" where
  "push_array b q = q\<lparr>dataList := dataList q @ [ba_dup b], dataLength := dataLength q + ba_size b\<rparr>"

definition push_bytes :: "cell list \<Rightarrow> byte_array_buffer \<Rightarrow> sim_error + byte_array_buffer" where
  "push_bytes src q =
     bind_result (setDataFromBuffer src ba_empty)
       (\<lambda>b. Inr (q\<lparr>dataList := dataList q @ [b], dataLength := dataLength q + length src\<rparr>))"

fun getBytes_loop :: "byte_array list \<Rightarrow> nat \<Rightarrow> nat \<Rightarrow> cell list" where
  "getBytes_loop [] n srcOffs = []"
| "getBytes_loop (b # bs) n srcOffs =
     (if n = 0 then []
      else
        (let c = copyDataToBuffer n srcOffs b in
         if c \<noteq> [] then c @ getBytes_loop bs (n - length c) 0
         else getBytes_loop bs n (srcOffs - ba_size b)))"

definition getBytesToBuffer :: "nat \<Rightarrow> nat \<Rightarrow> byte_array_buffer \<Rightarrow> cell list" where
  "getBytesToBuffer len srcOffs q = getBytes_loop (dataList q) len srcOffs"

text \<open>The loop of \<open>drop\<close>: \<^verbatim>\<open>front()\<close> of an empty list is undefined.\<close>

fun drop_loop :: "nat \<Rightarrow> byte_array list \<Rightarrow> nat \<Rightarrow> sim_error + byte_array_buffer" where
  "drop_loop len [] dlen =
     (if len = 0 then Inr \<lparr>dataList = [], dataLength = dlen\<rparr> else Inl (UndefinedBehaviour ''front of an empty list''))"
| "drop_loop len (b # bs) dlen =
     (if len = 0 then Inr \<lparr>dataList = b # bs, dataLength = dlen\<rparr>
      else if ba_size b \<le> len then drop_loop (len - ba_size b) bs (dlen - ba_size b)
      else bind_result (truncateData len 0 b) (\<lambda>b'. Inr \<lparr>dataList = b' # bs, dataLength = dlen - len\<rparr>))"

definition bab_drop :: "nat \<Rightarrow> byte_array_buffer \<Rightarrow> sim_error + byte_array_buffer" where
  "bab_drop len q =
     (if len \<le> dataLength q then drop_loop len (dataList q) (dataLength q)
      else Inl (AssertionFailed ''lengthP <= dataLengthM''))"

definition popBytesToBuffer :: "nat \<Rightarrow> byte_array_buffer \<Rightarrow> sim_error + cell list \<times> byte_array_buffer" where
  "popBytesToBuffer len q =
     (let bytes = getBytesToBuffer len 0 q
      in bind_result (bab_drop (length bytes) q) (\<lambda>q'. Inr (bytes, q')))"

definition bab_clear :: "byte_array_buffer \<Rightarrow> byte_array_buffer" where
  "bab_clear q = \<lparr>dataList = [], dataLength = 0\<rparr>"

section \<open>A stream of bytes\<close>

definition bab_bytes :: "byte_array_buffer \<Rightarrow> cell list" where
  "bab_bytes q = concat (map contents (dataList q))"

definition bab_inv :: "byte_array_buffer \<Rightarrow> bool" where
  "bab_inv q \<longleftrightarrow> (\<forall>b \<in> set (dataList q). ba_wf b) \<and> dataLength q = length (bab_bytes q)"

lemma getBytes_loop_eq:
  "\<forall>b \<in> set bs. ba_wf b \<Longrightarrow> getBytes_loop bs n off = take n (drop off (concat (map contents bs)))"
proof (induction bs n off rule: getBytes_loop.induct)
  case (2 b bs n off)
  let ?c = "copyDataToBuffer n off b"
  have size: "length (contents b) = ba_size b" using 2(3) by (simp add: length_contents)
  have c: "?c = take n (drop off (contents b))" by (rule copyDataToBuffer_contents)
  consider "n = 0" | "n \<noteq> 0" "?c \<noteq> []" | "n \<noteq> 0" "?c = []" by blast
  then show ?case
  proof cases
    case 2
    have "off < ba_size b" using 2 size unfolding c by (cases "off < ba_size b") auto
    then show ?thesis using "2.IH"(1) [OF 2(1) refl 2(2)] "2.prems" 2 size
      by (simp add: Let_def c min_def take_drop)
  next
    case 3
    then have "ba_size b \<le> off" using size unfolding c by auto
    then show ?thesis using "2.IH"(2) [OF 3(1) refl] "2.prems" 3 size by (simp add: Let_def)
  qed simp
qed simp

lemma drop_loop_bytes:
  "\<forall>b \<in> set bs. ba_wf b \<Longrightarrow> dlen = length (concat (map contents bs)) \<Longrightarrow> len \<le> dlen \<Longrightarrow>
   returns (\<lambda>q. bab_inv q \<and> bab_bytes q = drop len (concat (map contents bs))) (drop_loop len bs dlen)"
proof (induction len bs dlen rule: drop_loop.induct)
  case (2 len b bs dlen)
  have size: "length (contents b) = ba_size b" using 2(2) by (simp add: length_contents)
  consider "len = 0" | "len \<noteq> 0" "ba_size b \<le> len" | "len \<noteq> 0" "len < ba_size b" by linarith
  then show ?case
  proof cases
    case 1
    then show ?thesis using 2(2,3) by (simp add: bab_inv_def bab_bytes_def)
  next
    case 2
    then show ?thesis using "2.IH" [OF 2] "2.prems" size by simp
  next
    case 3
    have "returns (\<lambda>b'. ba_wf b' \<and> contents b' = drop len (contents b)) (truncateData len 0 b)"
      using truncateData_contents [of b len 0] 2(2) 3 size by (auto intro!: returns_mono [where P = "\<lambda>b'. ba_wf b' \<and> _ b'"])
    then show ?thesis using 3 2(2,3) size
      by (auto simp: returns_def bab_inv_def bab_bytes_def)
  qed
qed (simp add: bab_inv_def bab_bytes_def)

lemma bab_inv_new [simp]: "bab_inv bab_new" "bab_bytes bab_new = []"
  by (simp_all add: bab_inv_def bab_new_def bab_bytes_def)

lemma push_array_bytes:
  "bab_inv q \<Longrightarrow> ba_wf b \<Longrightarrow> bab_inv (push_array b q) \<and> bab_bytes (push_array b q) = bab_bytes q @ contents b"
  by (auto simp: bab_inv_def bab_bytes_def push_array_def ba_dup_wf length_contents)

lemma push_bytes_bytes:
  assumes "bab_inv q"
  shows "returns (\<lambda>q'. bab_inv q' \<and> bab_bytes q' = bab_bytes q @ src) (push_bytes src q)"
proof -
  have "ba_wf ba_empty" by (simp add: ba_wf_def ba_empty_def)
  from setDataFromBuffer_contents [OF this, of src] show ?thesis
    unfolding push_bytes_def by (rule returns_bind) (use assms in \<open>auto simp: bab_inv_def bab_bytes_def\<close>)
qed

lemma getBytesToBuffer_bytes: "bab_inv q \<Longrightarrow> getBytesToBuffer n off q = take n (drop off (bab_bytes q))"
  by (simp add: getBytesToBuffer_def getBytes_loop_eq bab_inv_def bab_bytes_def)

lemma bab_drop_bytes:
  "bab_inv q \<Longrightarrow> len \<le> length (bab_bytes q) \<Longrightarrow>
   returns (\<lambda>q'. bab_inv q' \<and> bab_bytes q' = drop len (bab_bytes q)) (bab_drop len q)"
  using drop_loop_bytes [of "dataList q" "dataLength q" len] by (auto simp: bab_drop_def bab_inv_def bab_bytes_def)

lemma popBytesToBuffer_bytes:
  assumes "bab_inv q"
  shows "returns (\<lambda>(bytes, q'). bytes = take n (bab_bytes q) \<and> bab_inv q' \<and> bab_bytes q' = drop n (bab_bytes q))
    (popBytesToBuffer n q)"
  unfolding popBytesToBuffer_def Let_def getBytesToBuffer_bytes [OF assms]
  by (rule returns_bind, rule bab_drop_bytes) (use assms in \<open>auto simp: min_def\<close>)

text \<open>The operations with what was popped so far, and their specification on a list of bytes.\<close>

datatype bab_op = Push "cell list" | PushArray byte_array | Pop nat | Drop nat | BabClear

fun bab_exec :: "bab_op \<Rightarrow> byte_array_buffer \<times> cell list \<Rightarrow> sim_error + byte_array_buffer \<times> cell list" where
  "bab_exec (Push src) (q, popped) = bind_result (push_bytes src q) (\<lambda>q'. Inr (q', popped))"
| "bab_exec (PushArray b) (q, popped) = Inr (push_array b q, popped)"
| "bab_exec (Pop n) (q, popped) = bind_result (popBytesToBuffer n q) (\<lambda>(bytes, q'). Inr (q', popped @ bytes))"
| "bab_exec (Drop n) (q, popped) = bind_result (bab_drop n q) (\<lambda>q'. Inr (q', popped))"
| "bab_exec BabClear (q, popped) = Inr (bab_clear q, popped)"

fun stream_pre :: "cell list \<times> cell list \<Rightarrow> bab_op \<Rightarrow> bool" where
  "stream_pre (bytes, popped) (PushArray b) \<longleftrightarrow> ba_wf b"
| "stream_pre (bytes, popped) (Drop n) \<longleftrightarrow> n \<le> length bytes"
| "stream_pre (bytes, popped) op \<longleftrightarrow> True"

fun stream_spec :: "bab_op \<Rightarrow> cell list \<times> cell list \<Rightarrow> cell list \<times> cell list" where
  "stream_spec (Push src) (bytes, popped) = (bytes @ src, popped)"
| "stream_spec (PushArray b) (bytes, popped) = (bytes @ contents b, popped)"
| "stream_spec (Pop n) (bytes, popped) = (drop n bytes, popped @ take n bytes)"
| "stream_spec (Drop n) (bytes, popped) = (drop n bytes, popped)"
| "stream_spec BabClear (bytes, popped) = ([], popped)"

lemma bab_exec_simulates:
  assumes "bab_inv q" "stream_pre (bab_bytes q, popped) op"
  shows "returns (\<lambda>(q', popped'). bab_inv q' \<and> (bab_bytes q', popped') = stream_spec op (bab_bytes q, popped))
    (bab_exec op (q, popped))"
proof (cases op)
  case (Push src)
  then show ?thesis using push_bytes_bytes [OF assms(1), of src] by (auto dest!: returns_D)
next
  case (PushArray b)
  then show ?thesis using push_array_bytes [OF assms(1), of b] assms(2) by simp
next
  case (Pop n)
  then show ?thesis using popBytesToBuffer_bytes [OF assms(1), of n] by (auto dest!: returns_D)
next
  case (Drop n)
  then show ?thesis using bab_drop_bytes [OF assms(1), of n] assms(2) by (auto dest!: returns_D)
next
  case BabClear
  then show ?thesis by (simp add: bab_clear_def bab_inv_def bab_bytes_def)
qed

interpretation bab_runs: data_refinement
  bab_exec "\<lambda>(q, popped). bab_inv q" "\<lambda>(q, popped). (bab_bytes q, popped)" stream_pre stream_spec
  by unfold_locales (use bab_exec_simulates in \<open>fastforce simp: returns_def\<close>)

text \<open>
  The queue of byte arrays is a stream of bytes: any operations (pushes of raw bytes and of arrays,
  pops, drops of no more than there is, clears) succeed from the empty queue and move the bytes the way the
  list of bytes prescribes, however the bytes are split over arrays; the length is the number of bytes held,
  and a read at any offset returns exactly the bytes at that offset.
\<close>

theorem byte_stream_runs:
  assumes "legal_run stream_pre stream_spec ops ([], [])"
  shows "returns (\<lambda>(q, popped). (bab_bytes q, popped) = fold stream_spec ops ([], []) \<and>
      dataLength q = length (bab_bytes q) \<and>
      (\<forall>n off. getBytesToBuffer n off q = take n (drop off (bab_bytes q))))
    (run_result bab_exec ops (bab_new, []))"
proof -
  obtain q popped where "run_result bab_exec ops (bab_new, []) = Inr (q, popped)" "bab_inv q"
    "(bab_bytes q, popped) = fold stream_spec ops ([], [])"
    using bab_runs.run_simulates [of "(bab_new, [])" ops] assms by auto
  then show ?thesis using getBytesToBuffer_bytes [of q] by (simp add: bab_inv_def)
qed

theorem byte_stream_runs_witness:
  "returns (\<lambda>(q, popped). (bab_bytes q, popped) = ([Some 5], [Some 1, Some 2, Some 3]))
    (run_result bab_exec [Push [Some 1, Some 2], Push [Some 3, Some 4, Some 5], Pop 3, Drop 1] (bab_new, []))"
  using byte_stream_runs [of "[Push [Some 1, Some 2], Push [Some 3, Some 4, Some 5], Pop 3, Drop 1]"]
  by (auto elim!: returns_mono)

end
