(* ===== verification/TcpSegments.thy ===== *)
theory TcpSegments
  imports ReceiveQueue ByteArrays
begin

text \<open>
  Segments of TCP: \<^verbatim>\<open>inet/transportlayer/tcp_common/TCPSegment.{h,cc}\<close> with the fields of
  \<^verbatim>\<open>TCPSegment.msg\<close> that the queues and the window tests use, the blocks of the SACK option, and the
  truncation of a segment to the receive window.  A segment carries its data as a number of bytes
  (\<open>payloadLength\<close>), and also as the bytes themselves (\<open>byteArray\<close>) or as message objects
  (\<open>payloadList\<close>), each with the number after its last byte.
\<close>

section \<open>SACK blocks\<close>

record sack_block =
  sb_start :: seq
  sb_end :: seq

definition sack_empty :: "sack_block \<Rightarrow> bool" where
  "sack_empty s \<longleftrightarrow> sb_start s = 0 \<and> sb_end s = 0"

definition sack_contains :: "sack_block \<Rightarrow> sack_block \<Rightarrow> bool" where
  "sack_contains s other \<longleftrightarrow> seqLE (sb_start s) (sb_start other) \<and> seqLE (sb_end other) (sb_end s)"

definition sack_clear :: "sack_block \<Rightarrow> sack_block" where
  "sack_clear s = s\<lparr>sb_start := 0, sb_end := 0\<rparr>"

definition sack_setSegment :: "seq \<Rightarrow> seq \<Rightarrow> sack_block \<Rightarrow> sack_block" where
  "sack_setSegment start_par end_par s = s\<lparr>sb_start := start_par, sb_end := end_par\<rparr>"

section \<open>Segments\<close>

text \<open>A message of the application: its identity and its length in bytes.\<close>

record app_packet =
  pk_id :: nat
  pk_length :: nat

record payload_message =
  endSequenceNo :: seq
  pm_msg :: app_packet

record tcp_segment =
  sequenceNo :: seq
  ackNo :: seq
  synBit :: bool
  finBit :: bool
  payloadLength :: "32 word"
  byteArray :: byte_array
  payloadList :: "payload_message list"
  headerOptionList :: "16 word list"

definition new_segment :: tcp_segment where
  "new_segment = \<lparr>sequenceNo = 0, ackNo = 0, synBit = False, finBit = False, payloadLength = 0,
     byteArray = ba_empty, payloadList = [], headerOptionList = []\<rparr>"

definition getSegLen :: "tcp_segment \<Rightarrow> 32 word" where
  "getSegLen g = payloadLength g + (if finBit g then 1 else 0) + (if synBit g then 1 else 0)"

text \<open>\<^verbatim>\<open>truncateData\<close>: the messages that do not lie within the segment any more are dropped.\<close>

definition truncate_segment_data :: "32 word \<Rightarrow> 32 word \<Rightarrow> tcp_segment \<Rightarrow> sim_error + tcp_segment" where
  "truncate_segment_data truncleft truncright g =
     bind_result (assert_that (payloadLength g \<ge> truncleft + truncright) ''payloadLength >= truncleft + truncright'') (\<lambda>_.
     bind_result
       (if ba_size (byteArray g) \<noteq> 0 then truncateData (unat truncleft) (unat truncright) (byteArray g) else Inr (byteArray g))
       (\<lambda>bytes.
         let front = dropWhile (\<lambda>p. endSequenceNo p - sequenceNo g \<le> truncleft) (payloadList g);
             sequenceNo' = sequenceNo g + truncleft;
             payloadLength' = payloadLength g - (truncleft + truncright);
             back = rev (dropWhile (\<lambda>p. endSequenceNo p - sequenceNo' > payloadLength') (rev front))
         in Inr (g\<lparr>byteArray := bytes, sequenceNo := sequenceNo', payloadLength := payloadLength', payloadList := back\<rparr>)))"

text \<open>\<^verbatim>\<open>truncateSegment\<close>; the test for a common part is made in debug builds.\<close>

definition truncateSegment :: "bool \<Rightarrow> seq \<Rightarrow> seq \<Rightarrow> tcp_segment \<Rightarrow> sim_error + tcp_segment" where
  "truncateSegment debug firstSeqNo endSeqNo g =
     bind_result (assert_that (payloadLength g > 0) ''payloadLength > 0'') (\<lambda>_.
     if debug \<and> \<not> (seqLess (sequenceNo g) endSeqNo \<and> seqLess firstSeqNo (sequenceNo g + payloadLength g))
     then Inl (RuntimeError ''truncateSegment() called on a segment outside'')
     else
       (let truncleft = (if seqLess (sequenceNo g) firstSeqNo then firstSeqNo - sequenceNo g else 0);
            truncright = (if seqGreater (sequenceNo g + payloadLength g) endSeqNo
                          then sequenceNo g + payloadLength g - endSeqNo else 0)
        in truncate_segment_data truncleft truncright g))"

definition getHeaderOptionArrayLength :: "tcp_segment \<Rightarrow> 16 word" where
  "getHeaderOptionArrayLength g = fold (\<lambda>opt usedLength. usedLength + opt) (headerOptionList g) 0"

definition addHeaderOption :: "16 word \<Rightarrow> tcp_segment \<Rightarrow> tcp_segment" where
  "addHeaderOption option g = g\<lparr>headerOptionList := headerOptionList g @ [option]\<rparr>"

definition dropHeaderOptions :: "tcp_segment \<Rightarrow> tcp_segment" where
  "dropHeaderOptions g = g\<lparr>headerOptionList := []\<rparr>"

definition addPayloadMessage :: "app_packet \<Rightarrow> seq \<Rightarrow> tcp_segment \<Rightarrow> tcp_segment" where
  "addPayloadMessage m endSeq g = g\<lparr>payloadList := payloadList g @ [\<lparr>endSequenceNo = endSeq, pm_msg = m\<rparr>]\<rparr>"

definition removeFirstPayloadMessage :: "tcp_segment \<Rightarrow> (payload_message \<times> tcp_segment) option" where
  "removeFirstPayloadMessage g =
     (case payloadList g of [] \<Rightarrow> None | p # ps \<Rightarrow> Some (p, g\<lparr>payloadList := ps\<rparr>))"

definition getPayload :: "nat \<Rightarrow> tcp_segment \<Rightarrow> sim_error + payload_message" where
  "getPayload k g =
     (if k < length (payloadList g) then Inr (payloadList g ! k)
      else Inl (RuntimeError ''Model error at getPayload(): index out of range''))"

section \<open>Segments of a stream of bytes\<close>

text \<open>The data of the positions \<open>[k, l)\<close> of a stream.\<close>

definition stream_array :: "(nat \<Rightarrow> 8 word) \<Rightarrow> nat \<Rightarrow> nat \<Rightarrow> byte_array" where
  "stream_array B k l = \<lparr>ba_data = map (\<lambda>p. Some (B p)) [k..<l], ba_size = l - k\<rparr>"

lemma stream_array_sel [simp]: "ba_size (stream_array B k l) = l - k" "ba_wf (stream_array B k l)"
  "contents (stream_array B k l) = map (\<lambda>p. Some (B p)) [k..<l]"
  by (simp_all add: stream_array_def ba_wf_def contents_def)

lemma byte_array_eqI: "ba_wf a \<Longrightarrow> ba_wf b \<Longrightarrow> contents a = contents b \<Longrightarrow> a = b"
  by (metis byte_array.equality contents_wf length_contents unit.exhaust)

lemma stream_array_eqI: "ba_wf b \<Longrightarrow> contents b = map (\<lambda>p. Some (B p)) [k..<l] \<Longrightarrow> b = stream_array B k l"
  by (auto intro: byte_array_eqI)

lemma truncate_stream_array:
  assumes "a + b \<le> l - k"
  shows "truncateData a b (stream_array B k l) = Inr (stream_array B (k + a) (l - b))"
proof -
  have eq: "take (l - (k + (a + b))) (drop a (map (\<lambda>p. Some (B p)) [k..<l])) = map (\<lambda>p. Some (B p)) [k + a..<l - b]"
    using assms by (intro nth_equalityI) (auto simp: add.assoc)
  from truncateData_contents [of "stream_array B k l" a b] assms
  obtain c where "truncateData a b (stream_array B k l) = Inr c" "ba_wf c"
    "contents c = map (\<lambda>p. Some (B p)) [k + a..<l - b]"
    by (auto simp: eq dest!: returns_D)
  then show ?thesis by (auto intro: byte_array_eqI)
qed

definition segment_at :: "seq \<Rightarrow> (nat \<Rightarrow> 8 word) \<Rightarrow> nat \<times> nat \<Rightarrow> tcp_segment" where
  "segment_at iss B = (\<lambda>(f, t). new_segment\<lparr>sequenceNo := number iss f, payloadLength := of_nat (t - f),
     byteArray := stream_array B f t\<rparr>)"

lemma segment_at_end:
  "f \<le> t \<Longrightarrow> sequenceNo (segment_at iss B (f, t)) + payloadLength (segment_at iss B (f, t)) = number iss t"
  by (simp add: segment_at_def number_def add.assoc flip: of_nat_add)

lemma unat_number_diff: "k \<le> l \<Longrightarrow> near k l \<Longrightarrow> number iss l - number iss k = of_nat (l - k)"
  by (simp add: number_def of_nat_diff)

lemma segment_at_sel [simp]:
  "sequenceNo (segment_at iss B (f, t)) = number iss f"
  "payloadLength (segment_at iss B (f, t)) = of_nat (t - f)"
  "byteArray (segment_at iss B (f, t)) = stream_array B f t"
  "payloadList (segment_at iss B (f, t)) = []"
  by (simp_all add: segment_at_def new_segment_def)

lemma truncate_segment_data_at:
  assumes "a + b < t - f" "t - f < 4294967296"
  shows "truncate_segment_data (of_nat a) (of_nat b) (segment_at iss B (f, t)) = Inr (segment_at iss B (f + a, t - b))"
proof -
  have u: "unat (of_nat a :: seq) = a" "unat (of_nat b :: seq) = b" "unat (of_nat (t - f) :: seq) = t - f"
    "unat (of_nat (a + b) :: seq) = a + b"
    using assms by (auto intro!: unat_of_nat_32 simp del: of_nat_diff of_nat_add)
  have le: "(of_nat (a + b) :: seq) \<le> of_nat (t - f)" unfolding word_le_nat_alt u using assms(1) by simp
  have "t - f = (t - b - (f + a)) + (a + b)" using assms(1) by simp
  then have "(of_nat (t - f) :: seq) = of_nat (t - b - (f + a)) + of_nat (a + b)" by (metis of_nat_add)
  then have len: "of_nat (t - f) - (of_nat (a + b) :: seq) = of_nat (t - b - (f + a))" by (metis add_diff_cancel_right')
  have "truncateData a b (stream_array B f t) = Inr (stream_array B (f + a) (t - b))"
    using assms(1) by (intro truncate_stream_array) simp
  moreover have "number iss f + of_nat a = number iss (f + a)" by (simp add: number_def add.assoc)
  ultimately show ?thesis
    using le len u assms(1) unfolding truncate_segment_data_def of_nat_add [symmetric] segment_at_sel
    by (simp del: of_nat_diff of_nat_add add: segment_at_def new_segment_def)
qed

text \<open>Truncation to the window \<open>[n, m)\<close> leaves the part of the segment that lies in it.\<close>

lemma truncateSegment_at:
  assumes "f < t" "near f t" "near f n" "near t n" "near f m" "near t m" "f < m" "n < t" "n < m"
  shows "truncateSegment debug (number iss n) (number iss m) (segment_at iss B (f, t))
    = Inr (segment_at iss B (max f n, min t m))"
proof -
  let ?l = "n - f" and ?r = "t - m"
  have small: "t - f < 4294967296" "?l < 4294967296" "?r < 4294967296" using assms(2-6) by (auto simp: near_def)
  have "unat (of_nat (t - f) :: seq) = t - f" by (rule unat_of_nat_32 [OF small(1)])
  then have pos: "(of_nat (t - f) :: seq) > 0" unfolding word_less_nat_alt using assms(1) by (simp del: of_nat_diff)
  have fin: "number iss f + of_nat (t - f) = number iss t"
    using segment_at_end [of f t iss B] assms(1) by (simp del: of_nat_diff)
  have nears: "near n t" "near m t" using assms(4,6) by (auto simp: near_def)
  note cmp = number_near(2) [OF assms(3), of iss] number_near(2) [OF nears(1), of iss]
    number_near(2) [OF assms(5), of iss] number_near(2) [OF nears(2), of iss]
  have left: "(if seqLess (number iss f) (number iss n) then number iss n - number iss f else 0) = (of_nat ?l :: seq)"
    and right: "(if seqGreater (number iss t) (number iss m) then number iss t - number iss m else 0) = (of_nat ?r :: seq)"
    using cmp by (auto simp: number_def of_nat_diff seqGreater_seqLess)
  have sum: "?l + ?r < t - f" using assms(1,7,8,9) by arith
  have "f + ?l = max f n" "t - ?r = min t m" by (simp_all add: max_def min_def)
  then show ?thesis
    using truncate_segment_data_at [OF sum small(1), of iss B] pos cmp(2,3) assms(7,8)
    unfolding truncateSegment_def segment_at_sel fin Let_def left right by (simp del: of_nat_diff)
qed

end
