(* ===== verification/TcpSendQueues.thy ===== *)
theory TcpSendQueues
  imports TcpSegments
begin

text \<open>
  The send queues of a TCP connection: the abstract class \<^verbatim>\<open>tcp/TCPSendQueue.h\<close> as a locale, and its
  three implementations in \<^verbatim>\<open>tcp/queues\<close> (\<^verbatim>\<open>TCPVirtualDataSendQueue\<close> counts bytes,
  \<^verbatim>\<open>TCPByteStreamSendQueue\<close> keeps them, \<^verbatim>\<open>TCPMsgBasedSendQueue\<close> keeps the application's messages).
  The contract speaks about the stream of the messages sent so far: the queue holds what lies between
  the first byte that is not acknowledged and the end of the stream.
\<close>

section \<open>The interface\<close>

text \<open>The inline utility of the abstract class, given the result of the virtual call it makes.\<close>

definition getBytesAvailable :: "seq \<Rightarrow> seq \<Rightarrow> 32 word" where
  "getBytesAvailable bufEndSeq fromSeq = (if seqLess fromSeq bufEndSeq then bufEndSeq - fromSeq else 0)"

text \<open>
  A queue stands for \<open>(a, ms)\<close>: the messages \<open>ms\<close> were enqueued and their first \<open>a\<close> bytes discarded.
  \<open>carries ms f n g\<close> says that a segment has the data of the \<open>n\<close> bytes at position \<open>f\<close>.
\<close>

definition stream_length :: "('m \<Rightarrow> nat) \<Rightarrow> 'm list \<Rightarrow> nat" where
  "stream_length len ms = sum_list (map len ms)"

lemma stream_length_simps [simp]:
  "stream_length len [] = 0" "stream_length len (m # ms) = len m + stream_length len ms"
  "stream_length len (xs @ ys) = stream_length len xs + stream_length len ys"
  by (simp_all add: stream_length_def)

locale send_queue =
  fixes start fin :: "'q \<Rightarrow> seq"
    and init :: "seq \<Rightarrow> 'q \<Rightarrow> 'q"
    and enqueue :: "'m \<Rightarrow> 'q \<Rightarrow> sim_error + 'q"
    and create :: "seq \<Rightarrow> nat \<Rightarrow> 'q \<Rightarrow> sim_error + tcp_segment"
    and discard :: "seq \<Rightarrow> 'q \<Rightarrow> sim_error + 'q"
    and len :: "'m \<Rightarrow> nat"
    and wf :: "'m \<Rightarrow> bool"
    and rel :: "seq \<Rightarrow> 'q \<Rightarrow> nat \<times> 'm list \<Rightarrow> bool"
    and carries :: "seq \<Rightarrow> 'm list \<Rightarrow> nat \<Rightarrow> nat \<Rightarrow> tcp_segment \<Rightarrow> bool"
  assumes init_law: "rel iss (init iss q) (0, [])"
    and ends_law: "rel iss q (a, ms) \<Longrightarrow> start q = number iss a \<and> fin q = number iss (stream_length len ms)"
    and bounds_law: "rel iss q (a, ms) \<Longrightarrow> a \<le> stream_length len ms \<and> stream_length len ms \<le> a + window"
    and enqueue_law: "rel iss q (a, ms) \<Longrightarrow> wf m \<Longrightarrow> stream_length len ms + len m \<le> a + window \<Longrightarrow>
      returns (\<lambda>q'. rel iss q' (a, ms @ [m])) (enqueue m q)"
    and create_law: "rel iss q (a, ms) \<Longrightarrow> a \<le> f \<Longrightarrow> f + n \<le> stream_length len ms \<Longrightarrow>
      returns (\<lambda>g. sequenceNo g = number iss f \<and> payloadLength g = of_nat n \<and> carries iss ms f n g) (create (number iss f) n q)"
    and discard_law: "rel iss q (a, ms) \<Longrightarrow> a \<le> b \<Longrightarrow> b \<le> stream_length len ms \<Longrightarrow>
      returns (\<lambda>q'. rel iss q' (b, ms)) (discard (number iss b) q)"
begin

lemma available:
  assumes "rel iss q (a, ms)" "a \<le> f" "f \<le> stream_length len ms"
  shows "getBytesAvailable (fin q) (number iss f) = of_nat (stream_length len ms - f)"
proof -
  have "near f (stream_length len ms)" using bounds_law [OF assms(1)] assms(2,3) by (auto simp: near_def window_def)
  from number_near(2) [OF this] show ?thesis
    using ends_law [OF assms(1)] assms(3) unat_number_diff [OF assms(3) \<open>near f _\<close>]
    by (auto simp: getBytesAvailable_def)
qed

text \<open>A segment can be made again with the same data as long as its first byte is not discarded.\<close>

lemma retransmission:
  assumes "rel iss q (a, ms)" "a \<le> b" "b \<le> f" "f + n \<le> stream_length len ms"
  shows "returns (\<lambda>q'. returns (\<lambda>g. sequenceNo g = number iss f \<and> payloadLength g = of_nat n \<and> carries iss ms f n g)
    (create (number iss f) n q')) (discard (number iss b) q)"
  by (rule returns_mono [OF discard_law [OF assms(1,2)]]) (use assms in \<open>auto intro: create_law\<close>)

end

section \<open>Virtual data\<close>

record virtual_sendq =
  vsq_begin :: seq
  vsq_end :: seq

definition vsq_new :: virtual_sendq where
  "vsq_new = \<lparr>vsq_begin = 0, vsq_end = 0\<rparr>"

definition vsq_init :: "seq \<Rightarrow> virtual_sendq \<Rightarrow> virtual_sendq" where
  "vsq_init startSeq q = q\<lparr>vsq_begin := startSeq, vsq_end := startSeq\<rparr>"

definition vsq_enqueueAppData :: "app_packet \<Rightarrow> virtual_sendq \<Rightarrow> sim_error + virtual_sendq" where
  "vsq_enqueueAppData m q =
     (let q' = q\<lparr>vsq_end := vsq_end q + of_nat (pk_length m)\<rparr> in
      if seqLess (vsq_end q') (vsq_begin q') then Inl (RuntimeError ''Send queue is full'') else Inr q')"

definition vsq_createSegmentWithBytes :: "seq \<Rightarrow> nat \<Rightarrow> virtual_sendq \<Rightarrow> sim_error + tcp_segment" where
  "vsq_createSegmentWithBytes fromSeq numBytes q =
     bind_result (assert_that (seqLE (vsq_begin q) fromSeq \<and> seqLE (fromSeq + of_nat numBytes) (vsq_end q)) ''range'') (\<lambda>_.
     Inr (new_segment\<lparr>sequenceNo := fromSeq, payloadLength := of_nat numBytes\<rparr>))"

definition vsq_discardUpTo :: "seq \<Rightarrow> virtual_sendq \<Rightarrow> sim_error + virtual_sendq" where
  "vsq_discardUpTo seqNum q =
     bind_result (assert_that (seqLE (vsq_begin q) seqNum \<and> seqLE seqNum (vsq_end q)) ''range'') (\<lambda>_.
     Inr (q\<lparr>vsq_begin := seqNum\<rparr>))"

definition vsq_rel :: "seq \<Rightarrow> virtual_sendq \<Rightarrow> nat \<times> app_packet list \<Rightarrow> bool" where
  "vsq_rel iss q = (\<lambda>(a, ms). let e = stream_length pk_length ms in
     vsq_begin q = number iss a \<and> vsq_end q = number iss e \<and> a \<le> e \<and> e \<le> a + window)"

lemma number_add [simp]: "number iss k + of_nat n = number iss (k + n)"
  by (simp add: number_def add.assoc)

lemma seqLE_in_window:
  "a \<le> p \<Longrightarrow> p \<le> a + window \<Longrightarrow> a \<le> q \<Longrightarrow> q \<le> a + window \<Longrightarrow> seqLE (number iss p) (number iss q) \<longleftrightarrow> p \<le> q"
  "a \<le> p \<Longrightarrow> p \<le> a + window \<Longrightarrow> a \<le> q \<Longrightarrow> q \<le> a + window \<Longrightarrow> seqLess (number iss p) (number iss q) \<longleftrightarrow> p < q"
  using number_near(1,2) near_in_window [of a p q] by blast+

interpretation vsq: send_queue vsq_begin vsq_end vsq_init vsq_enqueueAppData vsq_createSegmentWithBytes
  vsq_discardUpTo pk_length "\<lambda>_. True" vsq_rel "\<lambda>iss ms f n g. True"
proof (unfold_locales, goal_cases)
  case (1 iss q)
  then show ?case by (simp add: vsq_rel_def vsq_init_def number_def)
next
  case (4 iss q a ms m)
  then show ?case by (auto simp: vsq_rel_def vsq_enqueueAppData_def Let_def seqLE_in_window [of a])
next
  case (5 iss q a ms f n)
  then show ?case by (auto simp: vsq_rel_def vsq_createSegmentWithBytes_def Let_def seqLE_in_window [of a])
next
  case (6 iss q a ms b)
  then show ?case by (auto simp: vsq_rel_def vsq_discardUpTo_def Let_def seqLE_in_window [of a])
qed (auto simp: vsq_rel_def Let_def)

section \<open>A stream of bytes\<close>

text \<open>A \<^verbatim>\<open>RawPacket\<close>: its byte length and its bytes.\<close>

record raw_packet =
  rp_length :: nat
  rp_bytes :: byte_array

record byte_sendq =
  bsq_begin :: seq
  bsq_end :: seq
  dataBuffer :: byte_array_buffer

definition bsq_new :: byte_sendq where
  "bsq_new = \<lparr>bsq_begin = 0, bsq_end = 0, dataBuffer = bab_new\<rparr>"

definition bsq_init :: "seq \<Rightarrow> byte_sendq \<Rightarrow> byte_sendq" where
  "bsq_init startSeq q = q\<lparr>bsq_begin := startSeq, bsq_end := startSeq, dataBuffer := bab_clear (dataBuffer q)\<rparr>"

definition bsq_enqueueAppData :: "raw_packet \<Rightarrow> byte_sendq \<Rightarrow> sim_error + byte_sendq" where
  "bsq_enqueueAppData m q =
     bind_result (assert_that (rp_length m = ba_size (rp_bytes m)) ''bytes == getDataArraySize()'') (\<lambda>_.
     Inr (q\<lparr>dataBuffer := push_array (rp_bytes m) (dataBuffer q), bsq_end := bsq_end q + of_nat (rp_length m)\<rparr>))"

definition bsq_createSegmentWithBytes :: "seq \<Rightarrow> nat \<Rightarrow> byte_sendq \<Rightarrow> sim_error + tcp_segment" where
  "bsq_createSegmentWithBytes fromSeq numBytes q =
     bind_result (assert_that (seqLE (bsq_begin q) fromSeq \<and> seqLE (fromSeq + of_nat numBytes) (bsq_end q)) ''range'') (\<lambda>_.
     let fromOffs = unat (fromSeq - bsq_begin q);
         buffer = getBytesToBuffer (unat (of_nat numBytes :: 32 word)) fromOffs (dataBuffer q)
     in bind_result (assert_that (length buffer = numBytes) ''bytes == numBytes'') (\<lambda>_.
        Inr (new_segment\<lparr>sequenceNo := fromSeq, payloadLength := of_nat numBytes, byteArray := assignBuffer buffer (length buffer)\<rparr>)))"

definition bsq_discardUpTo :: "seq \<Rightarrow> byte_sendq \<Rightarrow> sim_error + byte_sendq" where
  "bsq_discardUpTo seqNum q =
     bind_result (assert_that (seqLE (bsq_begin q) seqNum \<and> seqLE seqNum (bsq_end q)) ''range'') (\<lambda>_.
     bind_result (bab_drop (unat (seqNum - bsq_begin q)) (dataBuffer q)) (\<lambda>d.
     Inr (q\<lparr>dataBuffer := d, bsq_begin := seqNum\<rparr>)))"

text \<open>The cells of the stream; a packet is well formed when its length is that of its bytes.\<close>

definition raw_cells :: "raw_packet list \<Rightarrow> cell list" where
  "raw_cells ms = concat (map (\<lambda>m. contents (rp_bytes m)) ms)"

definition raw_wf :: "raw_packet \<Rightarrow> bool" where
  "raw_wf m \<longleftrightarrow> ba_wf (rp_bytes m) \<and> rp_length m = ba_size (rp_bytes m)"

definition bsq_rel :: "seq \<Rightarrow> byte_sendq \<Rightarrow> nat \<times> raw_packet list \<Rightarrow> bool" where
  "bsq_rel iss q = (\<lambda>(a, ms). let e = stream_length rp_length ms in
     bsq_begin q = number iss a \<and> bsq_end q = number iss e \<and> a \<le> e \<and> e \<le> a + window
     \<and> list_all raw_wf ms \<and> bab_inv (dataBuffer q) \<and> bab_bytes (dataBuffer q) = drop a (raw_cells ms))"

definition carries_bytes :: "seq \<Rightarrow> raw_packet list \<Rightarrow> nat \<Rightarrow> nat \<Rightarrow> tcp_segment \<Rightarrow> bool" where
  "carries_bytes iss ms f n g \<longleftrightarrow> ba_wf (byteArray g) \<and> contents (byteArray g) = take n (drop f (raw_cells ms))
     \<and> g = new_segment\<lparr>sequenceNo := number iss f, payloadLength := of_nat n, byteArray := byteArray g\<rparr>"

lemma length_raw_cells: "list_all raw_wf ms \<Longrightarrow> length (raw_cells ms) = stream_length rp_length ms"
  by (induction ms) (auto simp: raw_cells_def raw_wf_def length_contents)

lemma raw_cells_append [simp]: "raw_cells (xs @ ys) = raw_cells xs @ raw_cells ys" "raw_cells [m] = contents (rp_bytes m)"
  by (simp_all add: raw_cells_def)

lemma unat_window: "n \<le> window \<Longrightarrow> unat (of_nat n :: seq) = n"
  by (rule unat_of_nat_32) (simp add: window_def)

lemma offset_in_window: "a \<le> f \<Longrightarrow> f \<le> a + window \<Longrightarrow> unat (number iss f - number iss a) = f - a"
  using number_diff [of a f] near_in_window [of a a f] by simp

interpretation bsq: send_queue bsq_begin bsq_end bsq_init bsq_enqueueAppData bsq_createSegmentWithBytes
  bsq_discardUpTo rp_length raw_wf bsq_rel carries_bytes
proof (unfold_locales, goal_cases)
  case (1 iss q)
  then show ?case by (simp add: bsq_rel_def bsq_init_def bab_clear_def number_def bab_inv_def bab_bytes_def raw_cells_def)
next
  case (4 iss q a ms m)
  then have "bab_inv (push_array (rp_bytes m) (dataBuffer q))
      \<and> bab_bytes (push_array (rp_bytes m) (dataBuffer q)) = bab_bytes (dataBuffer q) @ contents (rp_bytes m)"
    by (intro push_array_bytes) (auto simp: bsq_rel_def raw_wf_def Let_def)
  with 4 show ?case by (auto simp: bsq_rel_def bsq_enqueueAppData_def raw_wf_def Let_def length_raw_cells)
next
  case (5 iss q a ms f n)
  then have rel: "bab_inv (dataBuffer q)" "bab_bytes (dataBuffer q) = drop a (raw_cells ms)"
    "length (raw_cells ms) = stream_length rp_length ms" "stream_length rp_length ms \<le> a + window"
    "bsq_begin q = number iss a" "bsq_end q = number iss (stream_length rp_length ms)"
    by (auto simp: bsq_rel_def Let_def length_raw_cells)
  have "getBytesToBuffer n (f - a) (dataBuffer q) = take n (drop f (raw_cells ms))"
    using rel 5(2) by (simp add: getBytesToBuffer_bytes)
  moreover have "n \<le> window" "f \<le> a + window" using 5(2,3) rel(4) by simp_all
  ultimately show ?case using 5(2,3) rel
    by (simp add: bsq_createSegmentWithBytes_def seqLE_in_window [of a] offset_in_window unat_window Let_def)
      (simp add: carries_bytes_def assignBuffer_def ba_wf_def contents_def new_segment_def)
next
  case (6 iss q a ms b)
  then have "returns (\<lambda>d. bab_inv d \<and> bab_bytes d = drop (b - a) (bab_bytes (dataBuffer q))) (bab_drop (b - a) (dataBuffer q))"
    by (intro bab_drop_bytes) (auto simp: bsq_rel_def Let_def length_raw_cells)
  with 6 show ?case
    by (auto simp: bsq_rel_def bsq_discardUpTo_def Let_def seqLE_in_window [of a] offset_in_window dest!: returns_D)
qed (auto simp: bsq_rel_def Let_def)

section \<open>Messages\<close>

record msg_sendq =
  msq_begin :: seq
  msq_end :: seq
  payloadQueue :: "payload_message list"

definition msq_new :: msg_sendq where
  "msq_new = \<lparr>msq_begin = 0, msq_end = 0, payloadQueue = []\<rparr>"

text \<open>\<^verbatim>\<open>init\<close> does not flush the messages, although the abstract class asks for it.\<close>

definition msq_init :: "seq \<Rightarrow> msg_sendq \<Rightarrow> msg_sendq" where
  "msq_init startSeq q = q\<lparr>msq_begin := startSeq, msq_end := startSeq\<rparr>"

definition msq_enqueueAppData :: "app_packet \<Rightarrow> msg_sendq \<Rightarrow> sim_error + msg_sendq" where
  "msq_enqueueAppData m q =
     (let q' = q\<lparr>msq_end := msq_end q + of_nat (pk_length m)\<rparr> in
      if seqLess (msq_end q') (msq_begin q') then Inl (RuntimeError ''Send queue is full'')
      else Inr (q'\<lparr>payloadQueue := payloadQueue q' @ [\<lparr>endSequenceNo = msq_end q', pm_msg = m\<rparr>]\<rparr>))"

definition msq_createSegmentWithBytes :: "seq \<Rightarrow> nat \<Rightarrow> msg_sendq \<Rightarrow> sim_error + tcp_segment" where
  "msq_createSegmentWithBytes fromSeq numBytes q =
     bind_result (assert_that (seqLE (msq_begin q) fromSeq \<and> seqLE (fromSeq + of_nat numBytes) (msq_end q)) ''range'') (\<lambda>_.
     let i = dropWhile (\<lambda>p. seqLE (endSequenceNo p) fromSeq) (payloadQueue q);
         toSeq = fromSeq + of_nat numBytes
     in Inr (fold (\<lambda>p. addPayloadMessage (pm_msg p) (endSequenceNo p)) (takeWhile (\<lambda>p. seqLE (endSequenceNo p) toSeq) i)
          (new_segment\<lparr>sequenceNo := fromSeq, payloadLength := of_nat numBytes\<rparr>)))"

definition msq_discardUpTo :: "seq \<Rightarrow> msg_sendq \<Rightarrow> sim_error + msg_sendq" where
  "msq_discardUpTo seqNum q =
     bind_result (assert_that (seqLE (msq_begin q) seqNum \<and> seqLE seqNum (msq_end q)) ''range'') (\<lambda>_.
     Inr (q\<lparr>msq_begin := seqNum, payloadQueue := dropWhile (\<lambda>p. seqLE (endSequenceNo p) seqNum) (payloadQueue q)\<rparr>))"

text \<open>The messages with the positions after their last bytes.\<close>

fun ended :: "nat \<Rightarrow> app_packet list \<Rightarrow> (nat \<times> app_packet) list" where
  "ended k [] = []"
| "ended k (m # ms) = (k + pk_length m, m) # ended (k + pk_length m) ms"

lemma ended_append: "ended k (xs @ ys) = ended k xs @ ended (k + stream_length pk_length xs) ys"
  by (induction xs arbitrary: k) (simp_all add: add.assoc)

lemma ended_sorted:
  assumes "list_all (\<lambda>m. 0 < pk_length m) ms"
  shows "sorted_wrt (\<lambda>x y. fst x < fst y) (ended k ms)" "x \<in> set (ended k ms) \<Longrightarrow> k < fst x \<and> fst x \<le> k + stream_length pk_length ms"
proof -
  have *: "sorted_wrt (\<lambda>x y. fst x < fst y) (ended k ms)
      \<and> (\<forall>x \<in> set (ended k ms). k < fst x \<and> fst x \<le> k + stream_length pk_length ms)"
    using assms by (induction ms arbitrary: k) force+
  show "sorted_wrt (\<lambda>x y. fst x < fst y) (ended k ms)" "x \<in> set (ended k ms) \<Longrightarrow> k < fst x \<and> fst x \<le> k + stream_length pk_length ms"
    using * by auto
qed

lemma sorted_takeWhile_filter:
  "sorted_wrt (\<lambda>x y. fst x < fst y) xs \<Longrightarrow> takeWhile (\<lambda>x. fst x \<le> (b :: nat)) xs = filter (\<lambda>x. fst x \<le> b) xs"
  "sorted_wrt (\<lambda>x y. fst x < fst y) xs \<Longrightarrow> dropWhile (\<lambda>x. fst x \<le> b) xs = filter (\<lambda>x. b < fst x) xs"
proof (induction xs)
  case (Cons a xs)
  {
    case 1
    then show ?case using Cons.IH by (cases "fst a \<le> b") (fastforce simp: empty_filter_conv)+
  next
    case 2
    then show ?case using Cons.IH by (cases "fst a \<le> b") (fastforce intro: filter_True [symmetric])+
  }
qed simp_all

definition payload_at :: "seq \<Rightarrow> nat \<times> app_packet \<Rightarrow> payload_message" where
  "payload_at iss = (\<lambda>(e, m). \<lparr>endSequenceNo = number iss e, pm_msg = m\<rparr>)"

lemma payload_at_sel [simp]: "endSequenceNo (payload_at iss x) = number iss (fst x)" "pm_msg (payload_at iss x) = snd x"
  by (simp_all add: payload_at_def case_prod_beta)

definition messages_between :: "nat \<Rightarrow> nat \<Rightarrow> app_packet list \<Rightarrow> (nat \<times> app_packet) list" where
  "messages_between a b ms = filter (\<lambda>x. a < fst x \<and> fst x \<le> b) (ended 0 ms)"

definition msq_rel :: "seq \<Rightarrow> msg_sendq \<Rightarrow> nat \<times> app_packet list \<Rightarrow> bool" where
  "msq_rel iss q = (\<lambda>(a, ms). let e = stream_length pk_length ms in
     msq_begin q = number iss a \<and> msq_end q = number iss e \<and> a \<le> e \<and> e \<le> a + window
     \<and> list_all (\<lambda>m. 0 < pk_length m) ms \<and> payloadQueue q = map (payload_at iss) (messages_between a e ms))"

definition carries_messages :: "seq \<Rightarrow> app_packet list \<Rightarrow> nat \<Rightarrow> nat \<Rightarrow> tcp_segment \<Rightarrow> bool" where
  "carries_messages iss ms f n g \<longleftrightarrow> payloadList g = map (payload_at iss) (messages_between f (f + n) ms) \<and> byteArray g = ba_empty"

lemma dropWhile_cong_set: "(\<And>x. x \<in> set xs \<Longrightarrow> P x = Q x) \<Longrightarrow> dropWhile P xs = dropWhile Q xs"
  by (rule dropWhile_cong) auto

lemma payloads_after:
  assumes "list_all (\<lambda>m. 0 < pk_length m) ms" "e = stream_length pk_length ms" "e \<le> a + window" "a \<le> b" "b \<le> e"
  shows "dropWhile (\<lambda>p. seqLE (endSequenceNo p) (number iss b)) (map (payload_at iss) (messages_between a e ms))
    = map (payload_at iss) (messages_between b e ms)"
proof -
  have s: "sorted_wrt (\<lambda>x y. fst x < fst y) (messages_between a e ms)"
    unfolding messages_between_def by (intro sorted_wrt_filter ended_sorted assms(1))
  have "seqLE (number iss (fst x)) (number iss b) \<longleftrightarrow> fst x \<le> b" if "x \<in> set (messages_between a e ms)" for x
    using that assms(3-5) by (intro seqLE_in_window [of a]) (auto simp: messages_between_def)
  then have "dropWhile (\<lambda>x. seqLE (number iss (fst x)) (number iss b)) (messages_between a e ms)
      = dropWhile (\<lambda>x. fst x \<le> b) (messages_between a e ms)" by (rule dropWhile_cong_set)
  also have "\<dots> = messages_between b e ms"
    using assms(4) unfolding sorted_takeWhile_filter(2) [OF s] by (auto simp: messages_between_def intro: filter_cong)
  finally show ?thesis by (simp add: dropWhile_map comp_def)
qed

lemma payloads_until:
  assumes "list_all (\<lambda>m. 0 < pk_length m) ms" "e = stream_length pk_length ms" "e \<le> f + window" "f \<le> t" "t \<le> e"
  shows "takeWhile (\<lambda>p. seqLE (endSequenceNo p) (number iss t)) (map (payload_at iss) (messages_between f e ms))
    = map (payload_at iss) (messages_between f t ms)"
proof -
  have s: "sorted_wrt (\<lambda>x y. fst x < fst y) (messages_between f e ms)"
    unfolding messages_between_def by (intro sorted_wrt_filter ended_sorted assms(1))
  have "seqLE (number iss (fst x)) (number iss t) \<longleftrightarrow> fst x \<le> t" if "x \<in> set (messages_between f e ms)" for x
    using that assms(3-5) by (intro seqLE_in_window [of f]) (auto simp: messages_between_def)
  then have "takeWhile (\<lambda>x. seqLE (number iss (fst x)) (number iss t)) (messages_between f e ms)
      = takeWhile (\<lambda>x. fst x \<le> t) (messages_between f e ms)" by (intro takeWhile_cong) auto
  also have "\<dots> = messages_between f t ms"
    using assms(5) unfolding sorted_takeWhile_filter(1) [OF s] by (auto simp: messages_between_def intro: filter_cong)
  finally show ?thesis by (simp add: takeWhile_map comp_def)
qed

lemma fold_addPayloadMessage:
  "fold (\<lambda>p. addPayloadMessage (pm_msg p) (endSequenceNo p)) ps g = g\<lparr>payloadList := payloadList g @ ps\<rparr>"
  by (induction ps arbitrary: g) (simp_all add: addPayloadMessage_def)

text \<open>
  The contract, for a queue whose \<open>init\<close> finds no messages.
\<close>

definition msq_init_empty :: "seq \<Rightarrow> msg_sendq \<Rightarrow> msg_sendq" where
  "msq_init_empty startSeq q = msq_init startSeq msq_new"

interpretation msq: send_queue msq_begin msq_end msq_init_empty msq_enqueueAppData msq_createSegmentWithBytes
  msq_discardUpTo pk_length "\<lambda>m. 0 < pk_length m" msq_rel carries_messages
proof (unfold_locales, goal_cases)
  case (1 iss q)
  then show ?case by (simp add: msq_rel_def msq_init_empty_def msq_init_def msq_new_def number_def messages_between_def)
next
  case (4 iss q a ms m)
  then have r: "msq_begin q = number iss a" "msq_end q = number iss (stream_length pk_length ms)"
    "a \<le> stream_length pk_length ms" "list_all (\<lambda>m. 0 < pk_length m) ms"
    "payloadQueue q = map (payload_at iss) (messages_between a (stream_length pk_length ms) ms)"
    by (simp_all add: msq_rel_def Let_def)
  let ?e = "stream_length pk_length ms + pk_length m"
  have "messages_between a ?e (ms @ [m]) = messages_between a (stream_length pk_length ms) ms @ [(?e, m)]"
    using r(3) 4(2) ended_sorted(2) [OF r(4), of _ 0] unfolding messages_between_def ended_append
    by (fastforce intro!: filter_cong)
  with 4(2,3) r show ?case
    by (auto simp: msq_rel_def msq_enqueueAppData_def Let_def seqLE_in_window [of a] payload_at_def)
next
  case (5 iss q a ms f n)
  then have r: "msq_begin q = number iss a" "msq_end q = number iss (stream_length pk_length ms)"
    "stream_length pk_length ms \<le> a + window" "list_all (\<lambda>m. 0 < pk_length m) ms"
    "payloadQueue q = map (payload_at iss) (messages_between a (stream_length pk_length ms) ms)"
    by (simp_all add: msq_rel_def Let_def)
  have "f \<le> stream_length pk_length ms" "stream_length pk_length ms \<le> f + window" using 5(2,3) r(3) by simp_all
  note p = payloads_after [OF r(4) refl r(3) 5(2) this(1), of iss] payloads_until [OF r(4) refl this(2) _ 5(3), of iss]
  show ?case using 5(2,3) r
    by (simp add: msq_createSegmentWithBytes_def seqLE_in_window [of a] Let_def p fold_addPayloadMessage)
      (simp add: carries_messages_def new_segment_def)
next
  case (6 iss q a ms b)
  then have r: "msq_begin q = number iss a" "msq_end q = number iss (stream_length pk_length ms)"
    "stream_length pk_length ms \<le> a + window" "list_all (\<lambda>m. 0 < pk_length m) ms"
    "payloadQueue q = map (payload_at iss) (messages_between a (stream_length pk_length ms) ms)"
    by (simp_all add: msq_rel_def Let_def)
  show ?case using 6(2,3) r payloads_after [OF r(4) refl r(3) 6(2,3), of iss]
    by (auto simp: msq_rel_def msq_discardUpTo_def Let_def seqLE_in_window [of a])
qed (auto simp: msq_rel_def Let_def)

end
