(* ===== verification/TcpByteStream.thy ===== *)
theory TcpByteStream
  imports TcpSendQueues
begin

text \<open>
  The receive queue of a TCP connection that keeps the bytes,
  \<^verbatim>\<open>inet/transportlayer/tcp/queues/TCPByteStreamRcvQueue.{h,cc}\<close>.  Its class derives from the queue
  that counts bytes: a region is the base class's region with its data, the loops over the regions are
  inherited and call the overriding \<^verbatim>\<open>merge\<close>, \<^verbatim>\<open>split\<close> and \<^verbatim>\<open>copyTo\<close>.  The queue is proved to deliver
  the bytes of the stream under two conditions on the segments, and shown to fail without either.
\<close>

section \<open>Regions with data\<close>

record byte_region = rregion +
  br_data :: byte_array

text \<open>The base class's part of a region, which its methods see.\<close>

definition base_region :: "byte_region \<Rightarrow> rregion" where
  "base_region r = \<lparr>rr_begin = rr_begin r, rr_end = rr_end r\<rparr>"

lemma base_region_sel [simp]: "rr_begin (base_region r) = rr_begin r" "rr_end (base_region r) = rr_end r"
  by (simp_all add: base_region_def)

text \<open>
  \<^verbatim>\<open>memcpy\<close> to the address \<^verbatim>\<open>buff + a - b\<close>.  The numbers are 32 bits wide and the address 64 bits, so
  the sum does not wrap: when \<open>a < b\<close> as numbers, the address lies before the buffer.
\<close>

definition memcpy_address :: "seq \<Rightarrow> seq \<Rightarrow> cell list \<Rightarrow> cell list \<Rightarrow> sim_error + cell list" where
  "memcpy_address a b src buff =
     (if src = [] then Inr buff
      else if uint a < uint b then Inl (UndefinedBehaviour ''memcpy before a buffer'')
      else memcpy_at (nat (uint a - uint b)) src buff)"

definition br_merge :: "byte_region \<Rightarrow> byte_region \<Rightarrow> sim_error + byte_region option" where
  "br_merge self other =
     (if seqLess (rr_end self) (rr_begin other) \<or> seqLess (rr_end other) (rr_begin self) then Inr None
      else
        (let nbegin = seqMin (rr_begin self) (rr_begin other);
             nend = seqMax (rr_end self) (rr_end other)
         in if nbegin \<noteq> rr_begin self \<or> nend \<noteq> rr_end self then
              bind_result
                (if nbegin \<noteq> rr_begin self
                 then memcpy_at 0 (copyDataToBuffer (unat (rr_begin self - nbegin)) 0 (br_data other)) (new_char (unat (nend - nbegin)))
                 else Inr (new_char (unat (nend - nbegin)))) (\<lambda>buff.
              bind_result
                (memcpy_address (rr_begin self) nbegin
                   (copyDataToBuffer (unat (rr_end self - rr_begin self)) 0 (br_data self)) buff) (\<lambda>buff.
              bind_result
                (if nend \<noteq> rr_end self
                 then memcpy_address (rr_end self) nbegin
                        (copyDataToBuffer (unat (nend - rr_end self)) 0 (br_data other)) buff
                 else Inr buff) (\<lambda>buff.
              Inr (Some (self\<lparr>rr_begin := nbegin, rr_end := nend, br_data := assignBuffer buff (unat (nend - nbegin))\<rparr>)))))
            else Inr (Some self)))"

definition br_split :: "seq \<Rightarrow> byte_region \<Rightarrow> sim_error + byte_region \<times> byte_region" where
  "br_split s self =
     bind_result (assert_that (seqGreater s (rr_begin self) \<and> seqLess s (rr_end self)) ''split: seq'') (\<lambda>_.
     bind_result (setDataFromByteArray (br_data self) 0 (unat (s - rr_begin self)) ba_empty) (\<lambda>front.
     bind_result (truncateData (unat (s - rr_begin self)) 0 (br_data self)) (\<lambda>back.
     Inr (\<lparr>rr_begin = rr_begin self, rr_end = s, br_data = front\<rparr>, self\<lparr>rr_begin := s, br_data := back\<rparr>))))"

definition br_copyTo :: "byte_region \<Rightarrow> sim_error + raw_packet" where
  "br_copyTo self =
     bind_result (assert_that (rr_length (base_region self) = ba_size (br_data self)) ''getLength() == getDataArraySize()'') (\<lambda>_.
     Inr \<lparr>rp_length = rr_length (base_region self), rp_bytes = br_data self\<rparr>)"

section \<open>The queue\<close>

record byte_rcvq =
  brq_rcv_nxt :: seq
  brq_regionList :: "byte_region list"

definition base_queue :: "byte_rcvq \<Rightarrow> rcvq" where
  "base_queue q = \<lparr>rcv_nxt = brq_rcv_nxt q, regionList = map base_region (brq_regionList q)\<rparr>"

definition brq_new :: byte_rcvq where
  "brq_new = \<lparr>brq_rcv_nxt = - 1, brq_regionList = []\<rparr>"

definition brq_init :: "seq \<Rightarrow> byte_rcvq \<Rightarrow> byte_rcvq" where
  "brq_init startSeq q = q\<lparr>brq_rcv_nxt := startSeq, brq_regionList := []\<rparr>"

definition brq_createRegionFromSegment :: "tcp_segment \<Rightarrow> sim_error + byte_region" where
  "brq_createRegionFromSegment g =
     bind_result (assert_that (unat (payloadLength g) = ba_size (byteArray g)) ''getPayloadLength() == getDataArraySize()'') (\<lambda>_.
     Inr \<lparr>rr_begin = sequenceNo g, rr_end = sequenceNo g + payloadLength g, br_data = ba_dup (byteArray g)\<rparr>)"

text \<open>The inherited loops, with the overriding methods of the regions.\<close>

fun brq_merge_loop :: "byte_region \<Rightarrow> byte_region list \<Rightarrow> byte_region list \<Rightarrow> sim_error + byte_region list" where
  "brq_merge_loop seg [] behind = Inr (seg # behind)"
| "brq_merge_loop seg (i # rest) behind =
     (let cmp = rr_compare (base_region i) (base_region seg) in
      if cmp = BEFORE then Inr (rev (i # rest) @ seg # behind)
      else if cmp \<noteq> AFTER then
        bind_result (br_merge seg i) (\<lambda>m. case m of
           Some seg' \<Rightarrow> brq_merge_loop seg' rest behind
         | None \<Rightarrow> Inl (RuntimeError ''Model error: merge of region unsuccessful''))
      else brq_merge_loop seg rest (i # behind))"

definition brq_insertBytesFromSegment :: "bool \<Rightarrow> tcp_segment \<Rightarrow> byte_rcvq \<Rightarrow> sim_error + seq \<times> byte_rcvq" where
  "brq_insertBytesFromSegment debug g q =
     bind_result (brq_createRegionFromSegment g) (\<lambda>region.
     if debug \<and> brq_regionList q \<noteq> [] \<and> out_of_range (base_region region) (base_queue q)
     then Inl (RuntimeError ''The new segment is out of the acceptable range at the queue'')
     else bind_result (brq_merge_loop region (rev (brq_regionList q)) []) (\<lambda>rs.
       let q1 = q\<lparr>brq_regionList := rs\<rparr>;
           front = hd rs;
           q2 = (if seqGE (brq_rcv_nxt q1) (rr_begin front) then q1\<lparr>brq_rcv_nxt := rr_end front\<rparr> else q1)
       in Inr (brq_rcv_nxt q2, q2)))"

definition brq_extractTo :: "seq \<Rightarrow> byte_rcvq \<Rightarrow> sim_error + byte_region option \<times> byte_rcvq" where
  "brq_extractTo s q =
     bind_result (assert_that (seqLE s (brq_rcv_nxt q)) ''extractTo: seq'') (\<lambda>_.
     case brq_regionList q of
       [] \<Rightarrow> Inr (None, q)
     | reg # rs \<Rightarrow>
         if seqLE s (rr_begin reg) then Inr (None, q)
         else if seqGE s (rr_end reg) then Inr (Some reg, q\<lparr>brq_regionList := rs\<rparr>)
         else bind_result (br_split s reg) (\<lambda>(front, reg').
           Inr (Some front, q\<lparr>brq_regionList := reg' # rs\<rparr>)))"

definition brq_extractBytesUpTo :: "seq \<Rightarrow> byte_rcvq \<Rightarrow> sim_error + raw_packet option \<times> byte_rcvq" where
  "brq_extractBytesUpTo s q =
     bind_result (brq_extractTo s q) (\<lambda>(reg, q').
     case reg of None \<Rightarrow> Inr (None, q')
     | Some r \<Rightarrow> bind_result (br_copyTo r) (\<lambda>m. Inr (Some m, q')))"

section \<open>Regions of a stream\<close>

definition byte_region_at :: "seq \<Rightarrow> (nat \<Rightarrow> 8 word) \<Rightarrow> nat \<times> nat \<Rightarrow> byte_region" where
  "byte_region_at iss B = (\<lambda>(k, l). \<lparr>rr_begin = number iss k, rr_end = number iss l, br_data = stream_array B k l\<rparr>)"

lemma byte_region_at_sel [simp]:
  "rr_begin (byte_region_at iss B (k, l)) = number iss k" "rr_end (byte_region_at iss B (k, l)) = number iss l"
  "br_data (byte_region_at iss B (k, l)) = stream_array B k l"
  "base_region (byte_region_at iss B kl) = region_at iss kl"
  by (simp_all add: byte_region_at_def region_at_def base_region_def case_prod_beta)

text \<open>Below the last sequence number the numbers of the positions do not wrap.\<close>

lemma uint_number: "unat iss + k < 4294967296 \<Longrightarrow> uint (number iss k) = int (unat iss + k)"
proof -
  assume small: "unat iss + k < 4294967296"
  have "number iss k = of_nat (unat iss + k)" by (simp add: number_def)
  then have "unat (number iss k) = unat iss + k" using unat_of_nat_32 [OF small] by simp
  then show ?thesis by (metis uint_nat)
qed

lemma copy_stream: "n \<le> l - k \<Longrightarrow> copyDataToBuffer n 0 (stream_array B k l) = map (\<lambda>p. Some (B p)) [k..<k + n]"
  by (cases "n = 0") (auto simp: copyDataToBuffer_contents take_map)

lemma memcpy_number:
  assumes "unat iss + p < 4294967296" "q \<le> p"
  shows "memcpy_address (number iss p) (number iss q) src buff = (if src = [] then Inr buff else memcpy_at (p - q) src buff)"
  using assms uint_number [of iss p] uint_number [of iss q] by (simp add: memcpy_address_def flip: of_nat_diff)

lemma memcpy_prefix:
  "memcpy_at (length xs) src (xs @ replicate n c) =
     (if length src \<le> n then Inr (xs @ src @ replicate (n - length src) c)
      else Inl (UndefinedBehaviour ''memcpy past the end of a block''))"
  by (simp add: memcpy_at_def)

text \<open>
  The bytes of a merged region are those of the stream when the other region does not reach over the
  end of this one, or begins where this one ends.
\<close>

lemma stream_glue: "k \<le> l \<Longrightarrow> l \<le> m \<Longrightarrow> map f [k..<l] @ map f [l..<m] = map f [k..<m]"
  by (metis map_append upt_add_eq_append le_add_diff_inverse)

lemma br_merge_left:
  assumes near: "near k f" "near k t" "near l f" "near l t" and "f < t" "k < f" "f \<le> l" "l \<le> t"
    and small: "unat iss + t < 4294967296"
  shows "br_merge (byte_region_at iss B (f, t)) (byte_region_at iss B (k, l)) = Inr (Some (byte_region_at iss B (k, t)))"
proof -
  have nears: "near f k" "near t k" "near t l" "near k t" "near t f" "near f t" using near assms(5-8) by (auto simp: near_def)
  note n = number_near [OF nears(1), of iss] number_near [OF nears(2), of iss] number_near [OF near(3), of iss]
    number_near [OF near(4), of iss] number_near [OF near(1), of iss]
  have ends: "seqMin (number iss f) (number iss k) = number iss k" "seqMax (number iss t) (number iss l) = number iss t"
    using seqMin_number [OF nears(1), of iss] seqMax_number [OF nears(3), of iss] assms(5-8) by (simp_all add: min_def max_def)
  have lens: "unat (number iss f - number iss k) = f - k" "unat (number iss t - number iss k) = t - k"
    "unat (number iss t - number iss f) = t - f"
    using number_diff [of k f iss] number_diff [of k t iss] number_diff [of f t iss] near(1) nears(4,6) assms(5-8) by simp_all
  let ?m = "map (\<lambda>p. Some (B p))"
  have c1: "copyDataToBuffer (f - k) 0 (stream_array B k l) = ?m [k..<f]"
    using copy_stream [of "f - k" l k B] assms(6,7) by simp
  have c2: "copyDataToBuffer (t - f) 0 (stream_array B f t) = ?m [f..<t]"
    using copy_stream [of "t - f" t f B] assms(5) by simp
  have m1: "memcpy_at 0 (?m [k..<f]) (new_char (t - k)) = Inr (?m [k..<f] @ replicate (t - f) None)"
    using memcpy_prefix [of "[]" "?m [k..<f]" "t - k" None] assms(5,6) by (simp add: new_char_def)
  have m2: "memcpy_at (f - k) (?m [f..<t]) (?m [k..<f] @ replicate (t - f) None) = Inr (?m [k..<t])"
    using memcpy_prefix [of "?m [k..<f]" "?m [f..<t]" "t - f" None] stream_glue [of k f t] assms(5,6) by simp
  have "f \<noteq> k" "\<not> t < k" "\<not> l < f" using assms(5-8) by simp_all
  then show ?thesis
    using memcpy_number [of iss f k "?m [f..<t]"] small assms(5,6)
    by (simp add: br_merge_def n ends lens c1 c2 m1 m2 Let_def)
      (simp add: byte_region_at_def stream_array_def assignBuffer_def)
qed

lemma br_merge_inside:
  assumes near: "near k f" "near k t" "near l f" "near l t" and "f < t" "f \<le> k" "l \<le> t" "k < l"
  shows "br_merge (byte_region_at iss B (f, t)) (byte_region_at iss B (k, l)) = Inr (Some (byte_region_at iss B (f, t)))"
proof -
  have nears: "near f k" "near t k" "near t l" using near by (auto simp: near_def)
  note n = number_near [OF nears(1), of iss] number_near [OF nears(2), of iss] number_near [OF near(3), of iss]
    number_near [OF near(4), of iss]
  have ends: "seqMin (number iss f) (number iss k) = number iss f" "seqMax (number iss t) (number iss l) = number iss t"
    using seqMin_number [OF nears(1), of iss] seqMax_number [OF nears(3), of iss] assms(5-8) by (simp_all add: min_def max_def)
  show ?thesis using assms(5-8) by (simp add: br_merge_def n ends)
qed

lemma br_merge_right:
  assumes near: "near k f" "near k t" "near l f" "near l t" and "f < t" "f \<le> k" "k \<le> t" "t < l"
    and small: "unat iss + l < 4294967296"
  shows "br_merge (byte_region_at iss B (f, t)) (byte_region_at iss B (k, l)) = Inr (Some
    \<lparr>rr_begin = number iss f, rr_end = number iss l,
     br_data = \<lparr>ba_data = map (\<lambda>p. Some (B p)) ([f..<t] @ [k..<k + (l - t)]), ba_size = l - f\<rparr>\<rparr>)"
proof -
  have nears: "near f k" "near t k" "near t l" "near f l" "near t f" "near f t" using near assms(5-8) by (auto simp: near_def)
  note n = number_near [OF nears(1), of iss] number_near [OF nears(2), of iss] number_near [OF near(3), of iss]
    number_near [OF near(4), of iss]
  have ends: "seqMin (number iss f) (number iss k) = number iss f" "seqMax (number iss t) (number iss l) = number iss l"
    using seqMin_number [OF nears(1), of iss] seqMax_number [OF nears(3), of iss] assms(5-8) by (simp_all add: min_def max_def)
  have lens: "unat (number iss l - number iss t) = l - t" "unat (number iss l - number iss f) = l - f"
    "unat (number iss t - number iss f) = t - f"
    using number_diff [of t l iss] number_diff [of f l iss] number_diff [of f t iss] nears(3,4,6) assms(5-8) by simp_all
  let ?m = "map (\<lambda>p. Some (B p))"
  have c1: "copyDataToBuffer (t - f) 0 (stream_array B f t) = ?m [f..<t]"
    using copy_stream [of "t - f" t f B] assms(5) by simp
  have c2: "copyDataToBuffer (l - t) 0 (stream_array B k l) = ?m [k..<k + (l - t)]"
    using copy_stream [of "l - t" l k B] assms(7) by simp
  have m1: "memcpy_at 0 (?m [f..<t]) (new_char (l - f)) = Inr (?m [f..<t] @ replicate (l - t) None)"
    using memcpy_prefix [of "[]" "?m [f..<t]" "l - f" None] assms(5,8) by (simp add: new_char_def)
  have m2: "memcpy_at (t - f) (?m [k..<k + (l - t)]) (?m [f..<t] @ replicate (l - t) None) = Inr (?m [f..<t] @ ?m [k..<k + (l - t)])"
    using memcpy_prefix [of "?m [f..<t]" "?m [k..<k + (l - t)]" "l - t" None] assms(5) by simp
  have ne: "t \<noteq> l" "\<not> t < k" "\<not> l < f" "?m [k..<k + (l - t)] \<noteq> []" "?m [f..<t] \<noteq> []" using assms(5-8) by simp_all
  have a1: "memcpy_address (number iss f) (number iss f) (?m [f..<t]) b = memcpy_at 0 (?m [f..<t]) b" for b
    using memcpy_number [of iss f f "?m [f..<t]" b] small assms(5-8) by simp
  have a2: "memcpy_address (number iss t) (number iss f) (?m [k..<k + (l - t)]) b = memcpy_at (t - f) (?m [k..<k + (l - t)]) b" for b
    using memcpy_number [of iss t f "?m [k..<k + (l - t)]" b] small assms(5,8) ne(4) by (simp only: if_False)
  define e where "e = k + (l - t)"
  note c2 = c2 [folded e_def] and m2 = m2 [folded e_def] and a2 = a2 [folded e_def]
  show ?thesis using ne(1-3) assms(5-8) unfolding e_def [symmetric]
    by (simp add: br_merge_def n ends lens c1 c2 a1 a2 m1 m2 Let_def)
      (simp add: byte_region_at_def assignBuffer_def)
qed

text \<open>A region that does not reach over the end of the segment, or begins there.\<close>

definition no_overhang :: "nat \<Rightarrow> nat \<times> nat \<Rightarrow> bool" where
  "no_overhang t = (\<lambda>(k, l). \<not> (k < t \<and> t < l))"

lemma br_merge_at:
  assumes near: "near k f" "near k t" "near l f" "near l t" and "\<not> l < f" "\<not> t < k" "k < l" "f < t"
    and small: "unat iss + max l t < 4294967296" and "no_overhang t (k, l)"
  shows "br_merge (byte_region_at iss B (f, t)) (byte_region_at iss B (k, l))
    = Inr (Some (byte_region_at iss B (min k f, max l t)))"
proof -
  consider "k < f" "l \<le> t" | "f \<le> k" "l \<le> t" | "k = t" "t < l" using assms(6,7,10) by (force simp: no_overhang_def)
  then show ?thesis
  proof cases
    case 1
    then show ?thesis using br_merge_left [OF near assms(8) 1(1) _ 1(2), of iss B] assms(5,9) by (simp add: min_def max_def)
  next
    case 2
    then show ?thesis using br_merge_inside [OF near assms(8) 2 assms(7), of iss B] by (simp add: min_def max_def)
  next
    case 3
    have "[f..<t] @ [t..<t + (l - t)] = [f..<l]" using stream_glue [of f t l "\<lambda>x. x"] 3(2) assms(8) by simp
    then show ?thesis
      using br_merge_right [OF near assms(8), of iss B] 3 assms(8,9)
      by (simp add: min_def max_def byte_region_at_def stream_array_def flip: map_append)
  qed
qed

lemma brq_merge_loop_at:
  assumes "near_all (bounds (ft # L))" "fst ft < snd ft" "gapped (rev L)" "\<forall>x \<in> set L. no_overhang (snd ft) x"
    "\<forall>p \<in> set (bounds (ft # L)). unat iss + p < 4294967296"
  shows "brq_merge_loop (byte_region_at iss B ft) (map (byte_region_at iss B) L) (map (byte_region_at iss B) behind)
    = Inr (map (byte_region_at iss B) (merge_iv ft L behind))"
  using assms
proof (induction L arbitrary: ft behind)
  case (Cons kl L)
  obtain k l f t where kl: "kl = (k, l)" and ft: "ft = (f, t)" by (cases kl, cases ft)
  have near: "near k f" "near k t" "near l f" "near l t" and lt: "k < l" "f < t"
    using Cons.prems by (auto simp: near_all_def bounds_def kl ft gapped_def)
  have small: "unat iss + max l t < 4294967296" using Cons.prems(5) by (simp add: bounds_def kl ft max_def)
  have g: "gapped (rev L)" "\<forall>x \<in> set L. snd x < k" using Cons.prems(3) by (auto simp: gapped_def kl sorted_wrt_append)
  note cmp = rr_compare_at [OF near lt, of iss]
  consider "l < f" | "\<not> l < f" "t < k" | "\<not> l < f" "\<not> t < k" by blast
  then show ?case
  proof cases
    case 1
    then show ?thesis using cmp by (simp add: kl ft rev_map)
  next
    case 2
    have "brq_merge_loop (byte_region_at iss B (f, t)) (map (byte_region_at iss B) L) (map (byte_region_at iss B) ((k, l) # behind))
        = Inr (map (byte_region_at iss B) (merge_iv (f, t) L ((k, l) # behind)))"
      using Cons.IH [of "(f, t)" "(k, l) # behind"] Cons.prems g by (simp add: near_all_def bounds_def ft)
    moreover have "rr_compare (region_at iss (k, l)) (region_at iss (f, t)) = AFTER" using cmp(2) 2 by simp
    ultimately show ?thesis using 2 by (simp add: kl ft Let_def)
  next
    case 3
    have "near_all (bounds ((min k f, max l t) # L))" "\<forall>p \<in> set (bounds ((min k f, max l t) # L)). unat iss + p < 4294967296"
      using Cons.prems(1,5) unfolding near_all_def bounds_def kl ft min_def max_def by (auto split: if_splits)
    moreover have "\<forall>x \<in> set L. no_overhang (max l t) x" using g(2) lt by (auto simp: no_overhang_def max_def)
    ultimately have "brq_merge_loop (byte_region_at iss B (min k f, max l t)) (map (byte_region_at iss B) L) (map (byte_region_at iss B) behind)
        = Inr (map (byte_region_at iss B) (merge_iv (min k f, max l t) L behind))"
      using Cons.IH [of "(min k f, max l t)"] g(1) lt by (simp add: min_def max_def)
    moreover have "rr_compare (region_at iss (k, l)) (region_at iss (f, t)) \<noteq> BEFORE"
      "rr_compare (region_at iss (k, l)) (region_at iss (f, t)) \<noteq> AFTER"
      using cmp 3 by simp_all
    moreover have "no_overhang t (k, l)" using Cons.prems(4) by (simp add: kl ft)
    ultimately show ?thesis using 3 br_merge_at [OF near 3 lt small, of B] by (simp add: kl ft Let_def)
  qed
qed simp

section \<open>The stream behind the queue\<close>

text \<open>
  The queue holds the bytes \<open>B\<close> of the stream at the positions that arrived and were not handed over;
  the counting queue it contains is related to the same positions.
\<close>

definition brq_rel :: "seq \<Rightarrow> (nat \<Rightarrow> 8 word) \<Rightarrow> byte_rcvq \<Rightarrow> nat \<times> nat set \<Rightarrow> bool" where
  "brq_rel iss B q = (\<lambda>(d, S). S \<subseteq> {d..<d + window} \<and> brq_rcv_nxt q = number iss (next_missing d S)
     \<and> (\<forall>p \<in> S. unat iss + p < 4294967295)
     \<and> (\<exists>ivs. brq_regionList q = map (byte_region_at iss B) ivs \<and> gapped ivs \<and> positions ivs = S))"

lemma base_queue_sel [simp]:
  "rcv_nxt (base_queue q) = brq_rcv_nxt q" "regionList (base_queue q) = map base_region (brq_regionList q)"
  by (simp_all add: base_queue_def)

lemma base_regions_at [simp]: "base_region \<circ> byte_region_at iss B = region_at iss"
  by (simp add: comp_def)

lemma brq_rel_base: "brq_rel iss B q (d, S) \<Longrightarrow> rcv_rel iss (base_queue q) (d, S)"
  by (auto simp: brq_rel_def rcv_rel_def)

lemma brq_relI:
  assumes "rcv_rel iss (base_queue q) (d, S)" "brq_regionList q = map (byte_region_at iss B) ivs" "gapped ivs" "positions ivs = S"
    "\<forall>p \<in> S. unat iss + p < 4294967295"
  shows "brq_rel iss B q (d, S)"
  using assms by (auto simp: brq_rel_def rcv_rel_def)

lemma no_overhang_positions:
  assumes "gapped ivs" "x \<in> set ivs" "\<not> (t \<in> positions ivs \<and> 0 < t \<and> t - 1 \<in> positions ivs)"
  shows "no_overhang t x"
proof -
  obtain k l where x: "x = (k, l)" by (cases x)
  have "{k..<l} \<subseteq> positions ivs" using assms(1,2) by (simp add: x gapped_block(1))
  moreover have "k < t \<Longrightarrow> t < l \<Longrightarrow> t \<in> {k..<l} \<and> 0 < t \<and> t - 1 \<in> {k..<l}" by auto
  ultimately have "k < t \<Longrightarrow> t < l \<Longrightarrow> t \<in> positions ivs \<and> 0 < t \<and> t - 1 \<in> positions ivs" by blast
  with assms(3) show ?thesis by (auto simp: x no_overhang_def)
qed

lemma merge_iv_not_Nil: "merge_iv ft L behind \<noteq> []"
  by (induction ft L behind rule: merge_iv.induct) auto

lemma brq_insert_base:
  assumes loop: "brq_merge_loop region (rev (brq_regionList q)) [] = Inr rs" "rs \<noteq> []"
    and base: "rcv_merge (base_region region) (base_queue q) = Inr ((base_queue q)\<lparr>regionList := map base_region rs\<rparr>)"
    and create: "brq_createRegionFromSegment g = Inr region"
      "createRegionFromSegment (sequenceNo g) (payloadLength g) = base_region region"
    and ins: "insertBytesFromSegment debug (sequenceNo g) (payloadLength g) (base_queue q) = Inr (nxt, b)"
  shows "\<exists>q'. brq_insertBytesFromSegment debug g q = Inr (nxt, q') \<and> base_queue q' = b \<and> brq_regionList q' = rs"
proof -
  obtain r rs' where rs: "rs = r # rs'" using loop(2) by (cases rs) auto
  show ?thesis using ins loop(1) base create
    by (auto simp: brq_insertBytesFromSegment_def insertBytesFromSegment_def rs base_queue_def Let_def split: if_splits)
qed

text \<open>
  An insertion, given the data that the loop over the regions leaves: it is that of a stream \<open>B'\<close>.
\<close>

lemma brq_insert_loop:
  assumes rel: "brq_rel iss B q (d, S)" and seg: "next_missing d S \<le> f" "f < t" "t \<le> d + window"
    and small: "unat iss + t < 4294967296"
    and g: "sequenceNo g = number iss f" "payloadLength g = of_nat (t - f)" "byteArray g = stream_array B f t"
    and loops: "\<And>ivs. gapped ivs \<Longrightarrow> positions ivs = S \<Longrightarrow> near_all (bounds ((f, t) # rev ivs)) \<Longrightarrow>
      \<forall>p \<in> set (bounds ((f, t) # rev ivs)). unat iss + p < 4294967296 \<Longrightarrow>
      brq_merge_loop (byte_region_at iss B (f, t)) (map (byte_region_at iss B) (rev ivs)) []
        = Inr (map (byte_region_at iss B') (merge_iv (f, t) (rev ivs) []))"
  shows "\<exists>q'. brq_insertBytesFromSegment debug g q = Inr (brq_rcv_nxt q', q') \<and> brq_rel iss B' q' (d, S \<union> {f..<t})"
proof -
  obtain ivs where S: "S \<subseteq> {d..<d + window}" and below: "\<forall>p \<in> S. unat iss + p < 4294967295"
    and ivs: "brq_regionList q = map (byte_region_at iss B) ivs" "gapped ivs" "positions ivs = S"
    using rel by (auto simp: brq_rel_def)
  have df: "d \<le> f" by (rule le_trans [OF next_missing_in_window(1) [OF S] seg(1)])
  note base = insert_refines [OF brq_rel_base [OF rel] seg, of debug]
  have "f + (t - f) = t" using seg(2) by simp
  then have fin: "number iss f + of_nat (t - f) = number iss t" by (simp only: number_add)
  have "t - f < 4294967296" using seg(2,3) df by (simp add: window_def)
  then have len: "unat (of_nat (t - f) :: seq) = t - f" by (rule unat_of_nat_32)
  have create: "brq_createRegionFromSegment g = Inr (byte_region_at iss B (f, t))"
    "createRegionFromSegment (sequenceNo g) (payloadLength g) = base_region (byte_region_at iss B (f, t))"
    using g len fin
    by (simp_all add: brq_createRegionFromSegment_def createRegionFromSegment_def byte_region_at_def region_at_def ba_dup_wf
        base_region_def del: of_nat_diff)
  have near: "near_all (bounds ((f, t) # rev ivs))"
    using near_all_window [OF ivs(2) _ df seg(2,3)] S ivs(3) by simp
  have "\<forall>p \<in> set (bounds ((f, t) # rev ivs)). unat iss + p < 4294967296"
  proof -
    have "unat iss + l < 4294967296" "k < l" if "(k, l) \<in> set ivs" for k l
    proof -
      show "k < l" using that ivs(2) by (auto simp: gapped_def)
      then have "l - 1 \<in> S" using gapped_block(1) [OF ivs(2) that] ivs(3) by auto
      with below show "unat iss + l < 4294967296" by fastforce
    qed
    then show ?thesis using small seg(2) by (fastforce simp: bounds_def)
  qed
  note loop = loops [OF ivs(2,3) near this]
  have loop': "brq_merge_loop (byte_region_at iss B (f, t)) (rev (brq_regionList q)) []
      = Inr (map (byte_region_at iss B') (merge_iv (f, t) (rev ivs) []))"
    using loop ivs(1) by (simp add: rev_map)
  have "rcv_merge (base_region (byte_region_at iss B (f, t))) (base_queue q)
      = Inr ((base_queue q)\<lparr>regionList := map base_region (map (byte_region_at iss B') (merge_iv (f, t) (rev ivs) []))\<rparr>)"
    using rcv_merge_loop_at [of "(f, t)" "rev ivs" iss "[]"] near seg(2) ivs(1,2)
    by (simp add: rcv_merge_def rev_map gapped_def case_prod_beta)
  from brq_insert_base [OF loop' _ this create] obtain q' where q': "brq_insertBytesFromSegment debug g q = Inr (brq_rcv_nxt q', q')"
    "rcv_rel iss (base_queue q') (d, S \<union> {f..<t})" "brq_regionList q' = map (byte_region_at iss B') (merge_iv (f, t) (rev ivs) [])"
    using base merge_iv_not_Nil g(1,2) by (metis Nil_is_map_conv base_queue_sel(1))
  moreover have "\<forall>p \<in> S \<union> {f..<t}. unat iss + p < 4294967295" using below small by auto
  moreover have "gapped (merge_iv (f, t) (rev ivs) [])" "positions (merge_iv (f, t) (rev ivs) []) = S \<union> {f..<t}"
    using merge_iv_spec [of "rev ivs" "[]" "(f, t)"] seg(2) ivs(2,3) by simp_all
  ultimately show ?thesis using brq_relI by blast
qed

lemma brq_insert_refines:
  assumes rel: "brq_rel iss B q (d, S)" and seg: "next_missing d S \<le> f" "f < t" "t \<le> d + window"
    and small: "unat iss + t < 4294967296" and clear: "\<not> (t \<in> S \<and> t - 1 \<in> S)"
    and g: "sequenceNo g = number iss f" "payloadLength g = of_nat (t - f)" "byteArray g = stream_array B f t"
  shows "\<exists>q'. brq_insertBytesFromSegment debug g q = Inr (brq_rcv_nxt q', q') \<and> brq_rel iss B q' (d, S \<union> {f..<t})"
proof (rule brq_insert_loop [OF rel seg small g])
  fix ivs
  assume ivs: "gapped ivs" "positions ivs = S"
    and near: "near_all (bounds ((f, t) # rev ivs))" "\<forall>p \<in> set (bounds ((f, t) # rev ivs)). unat iss + p < 4294967296"
  have "\<forall>x \<in> set (rev ivs). no_overhang t x"
    using no_overhang_positions [OF ivs(1), of _ t] clear unfolding ivs(2) by auto
  then show "brq_merge_loop (byte_region_at iss B (f, t)) (map (byte_region_at iss B) (rev ivs)) []
      = Inr (map (byte_region_at iss B) (merge_iv (f, t) (rev ivs) []))"
    using brq_merge_loop_at [of "(f, t)" "rev ivs" iss B "[]"] near seg(2) ivs(1) by simp
qed

lemma gapped_front:
  assumes "gapped ((d, l) # rest)" "d < s" "s \<le> l"
  shows "gapped (if s = l then rest else (s, l) # rest)"
    "positions (if s = l then rest else (s, l) # rest) = positions ((d, l) # rest) - {..<s}"
proof -
  have r: "gapped rest" "\<forall>x \<in> set rest. l < fst x" "\<And>x. x \<in> positions rest \<Longrightarrow> l < x"
    using assms(1) by (auto simp: gapped_def positions_def)
  then show "gapped (if s = l then rest else (s, l) # rest)" using assms(3) by (auto simp: gapped_def)
  show "positions (if s = l then rest else (s, l) # rest) = positions ((d, l) # rest) - {..<s}"
    using r(3) assms(2,3) by (auto dest: r(3) less_le_trans)
qed

lemma br_split_at:
  assumes "d < s" "s < l" "near d s" "near s l"
  shows "br_split (number iss s) (byte_region_at iss B (d, l)) = Inr (byte_region_at iss B (d, s), byte_region_at iss B (s, l))"
proof -
  have cmp: "seqLess (number iss d) (number iss s)" "seqLess (number iss s) (number iss l)"
    using number_near(2) assms by blast+
  have len: "unat (number iss s - number iss d) = s - d" using assms by (simp add: number_diff)
  have "returns (\<lambda>b. ba_wf b \<and> contents b = take (s - d) (map (\<lambda>p. Some (B p)) [d..<l]))
      (setDataFromByteArray (stream_array B d l) 0 (s - d) ba_empty)"
    using setDataFromBuffer_contents [of ba_empty] assms by (simp add: setDataFromByteArray_def ba_wf_def ba_empty_def stream_array_def)
  moreover have "take (s - d) (map (\<lambda>p. Some (B p)) [d..<l]) = map (\<lambda>p. Some (B p)) [d..<s]" using assms by (simp add: take_map)
  ultimately have "setDataFromByteArray (stream_array B d l) 0 (s - d) ba_empty = Inr (stream_array B d s)"
    by (auto dest!: returns_D simp: stream_array_eqI)
  moreover have "truncateData (s - d) 0 (stream_array B d l) = Inr (stream_array B s l)"
    using truncate_stream_array [of "s - d" 0 l d B] assms by simp
  ultimately show ?thesis using cmp by (simp add: br_split_def seqGreater_seqLess len)
qed

lemma brq_extract_refines:
  assumes rel: "brq_rel iss B q (d, S)" and s: "d \<le> s" "s \<le> next_missing d S"
  shows "\<exists>q'. brq_extractBytesUpTo (number iss s) q
      = Inr (if d < s then Some \<lparr>rp_length = s - d, rp_bytes = stream_array B d s\<rparr> else None, q')
    \<and> brq_rel iss B q' (s, S - {..<s}) \<and> brq_rcv_nxt q' = brq_rcv_nxt q"
proof -
  obtain ivs where S: "S \<subseteq> {d..<d + window}" and nxt: "brq_rcv_nxt q = number iss (next_missing d S)"
    and below: "\<forall>p \<in> S. unat iss + p < 4294967295"
    and ivs: "brq_regionList q = map (byte_region_at iss B) ivs" "gapped ivs" "positions ivs = S"
    using rel by (auto simp: brq_rel_def)
  note n = next_missing_in_window [OF S] and nm = next_missing_deliver [OF S s]
  have le: "seqLE (number iss s) (brq_rcv_nxt q)" unfolding nxt using s n by (subst seqLE_in_window [of d]) simp_all
  show ?thesis
  proof (cases "d < s")
    case False
    then have sd: "s = d" using s(1) by simp
    have "S - {..<s} = S" using S sd by auto
    then have keep: "brq_rel iss B q (s, S - {..<s})" using rel sd by simp
    show ?thesis
    proof (cases ivs)
      case Nil
      then show ?thesis using keep le False ivs(1) by (simp add: brq_extractBytesUpTo_def brq_extractTo_def)
    next
      case (Cons kl rest)
      obtain k l where kl: "kl = (k, l)" by (cases kl)
      have "(k, l) \<in> set ivs" using Cons kl by simp
      note w = bounds_in_window [OF ivs(2) S [folded ivs(3)] this]
      have "seqLE (number iss s) (number iss k)" using w sd by (subst seqLE_in_window [of d]) simp_all
      then show ?thesis using keep le False Cons kl ivs(1) by (simp add: brq_extractBytesUpTo_def brq_extractTo_def)
    qed
  next
    case True
    then have "d \<in> S" using n(4) s(2) by (auto simp: subset_iff)
    then obtain kl rest where Cons: "ivs = kl # rest" using ivs(3) by (cases ivs) auto
    obtain l where kl: "kl = (d, l)" and sl: "s \<le> l"
    proof -
      obtain k l where kl: "kl = (k, l)" by (cases kl)
      have "positions ((k, l) # rest) \<subseteq> {d..}" using S ivs(3) Cons kl by auto
      then have "next_missing d S = (if k = d then l else d)"
        using next_missing_front(1) [of k l rest d] ivs(2,3) Cons kl by simp
      then show ?thesis using that [of l] kl s True by (simp split: if_splits)
    qed
    have "(d, l) \<in> set ivs" using Cons kl by simp
    note w = bounds_in_window [OF ivs(2) S [folded ivs(3)] this]
    have cmp: "\<not> seqLE (number iss s) (number iss d)" "seqLE (number iss l) (number iss s) \<longleftrightarrow> l \<le> s"
      using w True sl by (simp_all add: seqLE_in_window [of d])
    note front = gapped_front [OF ivs(2) [unfolded Cons kl] True sl]
    let ?ivs = "if s = l then rest else (s, l) # rest" and ?q = "q\<lparr>brq_regionList := map (byte_region_at iss B) (if s = l then rest else (s, l) # rest)\<rparr>"
    have "brq_extractTo (number iss s) q = Inr (Some (byte_region_at iss B (d, s)), ?q)"
    proof (cases "s = l")
      case False
      then have "br_split (number iss s) (byte_region_at iss B (d, l)) = Inr (byte_region_at iss B (d, s), byte_region_at iss B (s, l))"
        using sl w s(1) by (intro br_split_at [OF True] near_in_window [of d]) simp_all
      then show ?thesis using le cmp False sl by (simp add: brq_extractTo_def ivs(1) Cons kl seqGE_seqLE)
    qed (use le cmp in \<open>simp add: brq_extractTo_def ivs(1) Cons kl seqGE_seqLE\<close>)
    moreover have "br_copyTo (byte_region_at iss B (d, s)) = Inr \<lparr>rp_length = s - d, rp_bytes = stream_array B d s\<rparr>"
      using number_diff [of d s iss] near_in_window [of d d s] w sl s(1) by (simp add: br_copyTo_def rr_length_def)
    moreover have "brq_rel iss B ?q (s, S - {..<s})"
    proof -
      have "S - {..<s} \<subseteq> {s..<s + window}" "\<forall>p \<in> S - {..<s}. unat iss + p < 4294967295" using S s(1) below by auto
      moreover have "gapped ?ivs" "positions ?ivs = S - {..<s}" using front ivs(3) Cons kl by simp_all
      ultimately show ?thesis using nxt nm by (auto simp: brq_rel_def simp del: positions_simps)
    qed
    ultimately show ?thesis using True by (auto simp: brq_extractBytesUpTo_def)
  qed
qed

section \<open>Where the queue fails\<close>

text \<open>
  The tail of a merged region is copied from the start of the other region's data, not from the offset
  where the tail lies.  \<open>overwritten\<close> is the stream the queue then holds.
\<close>

definition overwritten :: "nat \<Rightarrow> nat \<Rightarrow> nat \<Rightarrow> (nat \<Rightarrow> 8 word) \<Rightarrow> nat \<Rightarrow> 8 word" where
  "overwritten k t l B p = (if t \<le> p \<and> p < l then B (k + (p - t)) else B p)"

lemma map_overwritten_tail: "t \<le> l \<Longrightarrow> map (\<lambda>p. Some (overwritten k t l B p)) [t..<l] = map (\<lambda>p. Some (B p)) [k..<k + (l - t)]"
  by (intro nth_equalityI) (auto simp: overwritten_def)

lemma map_overwritten_below: "m \<le> t \<Longrightarrow> map (\<lambda>p. Some (overwritten k t l B p)) [n..<m] = map (\<lambda>p. Some (B p)) [n..<m]"
  by (auto simp: overwritten_def)

lemma br_merge_over:
  assumes near: "near k f" "near k t" "near l f" "near l t" and "f < t" "k < t" "t < l" "f \<le> l"
    and "near k l" and small: "unat iss + l < 4294967296"
  shows "br_merge (byte_region_at iss B (f, t)) (byte_region_at iss B (k, l))
    = Inr (Some (byte_region_at iss (overwritten k t l B) (min k f, l)))"
proof (cases "f \<le> k")
  case True
  have "map (\<lambda>p. Some (overwritten k t l B p)) [f..<l]
      = map (\<lambda>p. Some (B p)) [f..<t] @ map (\<lambda>p. Some (B p)) [k..<k + (l - t)]"
    using stream_glue [of f t l "\<lambda>p. Some (overwritten k t l B p)", symmetric] map_overwritten_tail [of t l k B]
      map_overwritten_below [of t t k l B f] assms(5,7) by simp
  then show ?thesis
    using br_merge_right [OF near assms(5) True _ assms(7) small, of B] assms(6) min_absorb2 [OF True]
    by (simp add: byte_region_at_def stream_array_def)
next
  case False
  have nears: "near f k" "near t k" "near t l" "near k t" "near f t" "near k l" using near assms(5-9) False by (auto simp: near_def)
  note n = number_near [OF nears(1), of iss] number_near [OF nears(2), of iss] number_near [OF near(3), of iss]
    number_near [OF near(4), of iss]
  have ends: "seqMin (number iss f) (number iss k) = number iss k" "seqMax (number iss t) (number iss l) = number iss l"
    using seqMin_number [OF nears(1), of iss] seqMax_number [OF nears(3), of iss] assms(5-8) False by (simp_all add: min_def max_def)
  have lens: "unat (number iss f - number iss k) = f - k" "unat (number iss l - number iss k) = l - k"
    "unat (number iss t - number iss f) = t - f" "unat (number iss l - number iss t) = l - t"
    using number_diff [of k f iss] number_diff [of k l iss] number_diff [of f t iss] number_diff [of t l iss]
      near nears assms(5-8) False by simp_all
  let ?m = "map (\<lambda>p. Some (B p))"
  define e where "e = k + (l - t)"
  have c1: "copyDataToBuffer (f - k) 0 (stream_array B k l) = ?m [k..<f]"
    using copy_stream [of "f - k" l k B] assms(8) False by simp
  have c2: "copyDataToBuffer (t - f) 0 (stream_array B f t) = ?m [f..<t]"
    using copy_stream [of "t - f" t f B] assms(5) by simp
  have c3: "copyDataToBuffer (l - t) 0 (stream_array B k l) = ?m [k..<e]"
    using copy_stream [of "l - t" l k B] assms(6) by (simp add: e_def)
  have glue: "?m [k..<f] @ ?m [f..<t] = ?m [k..<t]" by (rule stream_glue) (use False assms(5) in simp_all)
  have m1: "memcpy_at 0 (?m [k..<f]) (new_char (l - k)) = Inr (?m [k..<f] @ replicate (l - f) None)"
    using memcpy_prefix [of "[]" "?m [k..<f]" "l - k" None] assms(5,7) False by (simp add: new_char_def)
  have m2: "memcpy_at (f - k) (?m [f..<t]) (?m [k..<f] @ replicate (l - f) None) = Inr (?m [k..<t] @ replicate (l - t) None)"
    using memcpy_prefix [of "?m [k..<f]" "?m [f..<t]" "l - f" None] glue assms(5,7) by simp
  have m3: "memcpy_at (t - k) (?m [k..<e]) (?m [k..<t] @ replicate (l - t) None) = Inr (?m [k..<t] @ ?m [k..<e])"
    using memcpy_prefix [of "?m [k..<t]" "?m [k..<e]" "l - t" None] assms(6) by (simp add: e_def)
  have ne: "f \<noteq> k" "t \<noteq> l" "\<not> t < k" "\<not> l < f" "?m [k..<e] \<noteq> []" "?m [f..<t] \<noteq> []"
    using assms(5-8) False by (simp_all add: e_def)
  have a2: "memcpy_address (number iss f) (number iss k) (?m [f..<t]) b = memcpy_at (f - k) (?m [f..<t]) b" for b
    using memcpy_number [of iss f k "?m [f..<t]" b] small assms(5,7) False ne(6) by (simp only: if_False)
  have a3: "memcpy_address (number iss t) (number iss k) (?m [k..<e]) b = memcpy_at (t - k) (?m [k..<e]) b" for b
    using memcpy_number [of iss t k "?m [k..<e]" b] small assms(6,7) ne(5) by (simp only: if_False)
  have "map (\<lambda>p. Some (overwritten k t l B p)) [k..<l] = ?m [k..<t] @ ?m [k..<e]"
    using stream_glue [of k t l "\<lambda>p. Some (overwritten k t l B p)", symmetric] map_overwritten_tail [of t l k B]
      map_overwritten_below [of t t k l B k] assms(6,7) by (simp add: e_def)
  moreover have "number iss k \<noteq> number iss f" using n(3) ne(1) by simp
  ultimately show ?thesis using ne(1-4) False assms(5-8)
    by (simp add: br_merge_def n ends lens c1 c2 c3 a2 a3 m1 m2 m3 Let_def)
      (simp add: byte_region_at_def stream_array_def assignBuffer_def min_def)
qed

lemma byte_region_overwritten:
  "l' \<le> t \<or> l \<le> k' \<Longrightarrow> byte_region_at iss (overwritten k t l B) (k', l') = byte_region_at iss B (k', l')"
  by (auto simp: byte_region_at_def stream_array_def overwritten_def)

lemma merge_loop_skip:
  assumes "\<forall>(k, l) \<in> set L. t < k \<and> k < l \<and> near k f \<and> near k t \<and> near l f \<and> near l t" "f < t"
  shows "brq_merge_loop (byte_region_at iss B (f, t)) (map (byte_region_at iss B) L @ M) behind
      = brq_merge_loop (byte_region_at iss B (f, t)) M (map (byte_region_at iss B) (rev L) @ behind)"
    "merge_iv (f, t) (L @ N) cs = merge_iv (f, t) N (rev L @ cs)"
proof -
  show "brq_merge_loop (byte_region_at iss B (f, t)) (map (byte_region_at iss B) L @ M) behind
      = brq_merge_loop (byte_region_at iss B (f, t)) M (map (byte_region_at iss B) (rev L) @ behind)"
    using assms(1)
  proof (induction L arbitrary: behind)
    case (Cons kl L)
    obtain k l where kl: "kl = (k, l)" by (cases kl)
    have "rr_compare (region_at iss (k, l)) (region_at iss (f, t)) = AFTER"
      using rr_compare_at(2) [of k f t l iss] Cons.prems assms(2) by (simp add: kl)
    then show ?case using Cons.IH [of "byte_region_at iss B (k, l) # behind"] Cons.prems by (simp add: kl)
  qed simp
  show "merge_iv (f, t) (L @ N) cs = merge_iv (f, t) N (rev L @ cs)"
    using assms(1)
  proof (induction L arbitrary: cs)
    case (Cons kl L)
    obtain k l where kl: "kl = (k, l)" by (cases kl)
    have "\<not> l < f" "t < k" using Cons.prems assms(2) by (auto simp: kl)
    then show ?case using Cons.IH [of "(k, l) # cs"] Cons.prems by (simp add: kl)
  qed simp
qed

lemma brq_merge_loop_over:
  assumes near: "near_all (bounds ((f, t) # rev ivs))" and "f < t" and g: "gapped ivs" and kl: "(k, l) \<in> set ivs" "k < t" "t < l" "f \<le> l"
    and small: "\<forall>p \<in> set (bounds ((f, t) # rev ivs)). unat iss + p < 4294967296"
  shows "brq_merge_loop (byte_region_at iss B (f, t)) (map (byte_region_at iss B) (rev ivs)) []
    = Inr (map (byte_region_at iss (overwritten k t l B)) (merge_iv (f, t) (rev ivs) []))"
proof -
  obtain xs ys where ivs: "ivs = xs @ (k, l) # ys" using kl(1) by (metis split_list)
  let ?B = "overwritten k t l B"
  have parts: "gapped xs" "\<forall>x \<in> set xs. snd x < k" "\<forall>y \<in> set ys. l < fst y" "\<forall>y \<in> set ys. fst y < snd y"
    using g by (auto simp: gapped_def ivs sorted_wrt_append)
  have nears: "near k f" "near k t" "near l f" "near l t" and "near k l" using near by (auto simp: near_all_def bounds_def ivs)
  have "\<forall>(k', l') \<in> set (rev ys). t < k' \<and> k' < l' \<and> near k' f \<and> near k' t \<and> near l' f \<and> near l' t"
  proof (intro ballI case_prodI2)
    fix x k' l'
    assume x: "x \<in> set (rev ys)" "x = (k', l')"
    then have "{k', l', f, t} \<subseteq> set (bounds ((f, t) # rev ivs))" by (force simp: bounds_def ivs)
    then show "t < k' \<and> k' < l' \<and> near k' f \<and> near k' t \<and> near l' f \<and> near l' t"
      using near parts(3,4) kl(3) x unfolding near_all_def by auto
  qed
  note skip = merge_loop_skip [OF this assms(2)]
  have cmp: "rr_compare (region_at iss (k, l)) (region_at iss (f, t)) \<noteq> BEFORE"
    "rr_compare (region_at iss (k, l)) (region_at iss (f, t)) \<noteq> AFTER"
    using rr_compare_at [OF nears _ assms(2), of iss] kl(2-4) by simp_all
  have "unat iss + l < 4294967296" using small by (simp add: bounds_def ivs)
  note merge = br_merge_over [OF nears assms(2) kl(2-4) \<open>near k l\<close> this, of B]
  have xs: "map (byte_region_at iss B) (rev xs) = map (byte_region_at iss ?B) (rev xs)"
    and ys: "map (byte_region_at iss B) ys = map (byte_region_at iss ?B) ys"
    using parts(2,3) kl(2) by (auto simp: byte_region_overwritten)
  have sub: "set (bounds ((min k f, l) # rev xs)) \<subseteq> set (bounds ((f, t) # rev ivs))"
    by (auto simp: bounds_def ivs min_def)
  have "near_all (bounds ((min k f, l) # rev xs))" "\<forall>p \<in> set (bounds ((min k f, l) # rev xs)). unat iss + p < 4294967296"
    using near small sub unfolding near_all_def by blast+
  moreover have "\<forall>x \<in> set (rev xs). no_overhang l x" using parts(2) kl(2,3) by (auto simp: no_overhang_def)
  moreover have "min k f < l" using kl(2,3) by simp
  ultimately have rest: "brq_merge_loop (byte_region_at iss ?B (min k f, l)) (map (byte_region_at iss ?B) (rev xs)) (map (byte_region_at iss ?B) ys)
      = Inr (map (byte_region_at iss ?B) (merge_iv (min k f, l) (rev xs) ys))"
    using brq_merge_loop_at [of "(min k f, l)" "rev xs" iss ?B ys] parts(1) by simp
  have "merge_iv (f, t) (rev ivs) [] = merge_iv (min k f, l) (rev xs) ys"
    using skip(2) kl(2-4) by (simp add: ivs max_def)
  moreover have "brq_merge_loop (byte_region_at iss B (f, t)) (map (byte_region_at iss B) (rev ivs)) []
      = brq_merge_loop (byte_region_at iss B (f, t)) (byte_region_at iss B (k, l) # map (byte_region_at iss B) (rev xs))
          (map (byte_region_at iss B) ys)"
    using skip(1) [of iss B "byte_region_at iss B (k, l) # map (byte_region_at iss B) (rev xs)" "[]"] by (simp add: ivs)
  moreover have "brq_merge_loop (byte_region_at iss B (f, t)) (byte_region_at iss B (k, l) # M) cs
      = brq_merge_loop (byte_region_at iss ?B (min k f, l)) M cs" for M cs
    using cmp merge by (simp add: Let_def)
  ultimately show ?thesis unfolding xs ys using rest by simp
qed

lemma block_region:
  assumes "gapped ivs" "positions ivs = S" "{k..<l} \<subseteq> S" "k < l" "l \<notin> S" "k = 0 \<or> k - 1 \<notin> S"
  shows "(k, l) \<in> set ivs"
proof -
  have "k \<in> positions ivs" using assms(2-4) by auto
  then obtain a b where ab: "(a, b) \<in> set ivs" "a \<le> k" "k < b" by (auto simp: positions_def)
  note block = gapped_block [OF assms(1) ab(1), unfolded assms(2)]
  have "a = k"
  proof (rule ccontr)
    assume "a \<noteq> k"
    then have "k - 1 \<in> {a..<b}" "k \<noteq> 0" using ab(2,3) by auto
    then show False using block(1) assms(6) by blast
  qed
  moreover have "b = l"
  proof (rule ccontr)
    assume "b \<noteq> l"
    then consider "b < l" | "l < b" by linarith
    then show False
    proof cases
      case 1
      then have "b \<in> {k..<l}" using ab(3) by simp
      then show False using assms(3) block(2) by blast
    next
      case 2
      then have "l \<in> {a..<b}" using ab(2) assms(4) by simp
      then show False using block(1) assms(5) by blast
    qed
  qed
  ultimately show ?thesis using ab(1) by simp
qed

section \<open>Properties\<close>

text \<open>
  C38: a segment that ends inside waiting data spoils it.  When the bytes at the end of a new segment
  have already arrived as the inner part of a block \<open>[k, l)\<close> (a repeated segment of a block that
  waits for an earlier one is enough), the queue replaces the bytes of the block from the end \<open>t\<close> of the
  segment on by the bytes at the start of the block: from then on it holds a different stream, without
  an error.
\<close>

theorem brq_overhang_corrupts:
  assumes rel: "brq_rel iss B q (d, S)" and seg: "next_missing d S \<le> f" "f < t" "t \<le> d + window"
    and small: "unat iss + t < 4294967296"
    and block: "{k..<l} \<subseteq> S" "l \<notin> S" "k = 0 \<or> k - 1 \<notin> S" "k < t" "t < l"
    and g: "sequenceNo g = iss + of_nat f" "payloadLength g = of_nat (t - f)" "byteArray g = stream_array B f t"
  shows "\<exists>q'. brq_insertBytesFromSegment debug g q = Inr (brq_rcv_nxt q', q')
    \<and> brq_rel iss (overwritten k t l B) q' (d, S \<union> {f..<t})"
proof (rule brq_insert_loop [OF rel seg small g [folded number_def]])
  fix ivs
  assume ivs: "gapped ivs" "positions ivs = S"
    and near: "near_all (bounds ((f, t) # rev ivs))" "\<forall>p \<in> set (bounds ((f, t) # rev ivs)). unat iss + p < 4294967296"
  have "(k, l) \<in> set ivs" by (rule block_region [OF ivs block(1) _ block(2,3)]) (use block(4,5) in simp)
  then show "brq_merge_loop (byte_region_at iss B (f, t)) (map (byte_region_at iss B) (rev ivs)) []
      = Inr (map (byte_region_at iss (overwritten k t l B)) (merge_iv (f, t) (rev ivs) []))"
    using brq_merge_loop_over [OF near(1) seg(2) ivs(1) _ block(4,5) _ near(2)] seg(2) block(5) by simp
qed

theorem brq_overhang_corrupts_witness:
  "\<exists>q'. brq_insertBytesFromSegment True (segment_at 0 of_nat (2, 4))
       \<lparr>brq_rcv_nxt = 0, brq_regionList = [byte_region_at 0 of_nat (2, 6)]\<rparr> = Inr (brq_rcv_nxt q', q')
     \<and> brq_rel 0 (overwritten 2 4 6 of_nat) q' (0, {2..<6}) \<and> overwritten 2 4 6 of_nat 4 = 2"
proof -
  have nm: "next_missing 0 {2..<6} = 0" by (intro next_missing_eq) auto
  have rel: "brq_rel 0 of_nat \<lparr>brq_rcv_nxt = 0, brq_regionList = [byte_region_at 0 of_nat (2, 6)]\<rparr> (0, {2..<6})"
    using nm by (auto simp: brq_rel_def window_def number_def gapped_def intro!: exI [of _ "[(2, 6)]"])
  have "\<exists>q'. brq_insertBytesFromSegment True (segment_at 0 of_nat (2, 4))
       \<lparr>brq_rcv_nxt = 0, brq_regionList = [byte_region_at 0 of_nat (2, 6)]\<rparr> = Inr (brq_rcv_nxt q', q')
     \<and> brq_rel 0 (overwritten 2 4 6 of_nat) q' (0, {2..<6} \<union> {2..<4})"
    by (rule brq_overhang_corrupts [OF rel]) (auto simp: nm window_def number_def)
  moreover have "{2..<6} \<union> {2..<4} = {2..<(6::nat)}" by auto
  ultimately show ?thesis by (simp add: overwritten_def)
qed

lemma uint_number_wrapped:
  assumes "4294967296 \<le> unat iss + k" "unat iss + k < 8589934592"
  shows "uint (number iss k) = int (unat iss + k - 4294967296)"
proof -
  have "(4294967296 :: seq) = 0" by simp
  then have "number iss k = of_nat (unat iss + k - 4294967296)" using assms(1) by (simp add: number_def of_nat_diff)
  moreover have "unat (of_nat (unat iss + k - 4294967296) :: seq) = unat iss + k - 4294967296"
    using assms by (intro unat_of_nat_32) simp
  ultimately show ?thesis by (metis uint_nat)
qed

lemma br_merge_wraps:
  assumes near: "near k f" "near k t" "near f t" and "k < f" "f < t"
    and wrap: "unat iss + k < 4294967296" "4294967296 \<le> unat iss + f"
  shows "br_merge (byte_region_at iss B (f, t)) (byte_region_at iss B (k, f))
    = Inl (UndefinedBehaviour ''memcpy before a buffer'')"
proof -
  have nears: "near f f" "near f k" "near t k" "near t f" using near by (auto simp: near_def)
  note n = number_near [OF nears(1), of iss] number_near [OF nears(2), of iss] number_near [OF nears(3), of iss]
    number_near [OF near(3), of iss] number_near [OF near(1), of iss]
  have ends: "seqMin (number iss f) (number iss k) = number iss k" "seqMax (number iss t) (number iss f) = number iss t"
    using seqMin_number [OF nears(2), of iss] seqMax_number [OF nears(4), of iss] assms(4,5) by (simp_all add: min_def max_def)
  have lens: "unat (number iss f - number iss k) = f - k" "unat (number iss t - number iss k) = t - k"
    "unat (number iss t - number iss f) = t - f"
    using number_diff [of k f iss] number_diff [of k t iss] number_diff [of f t iss] near assms(4,5) by simp_all
  let ?m = "map (\<lambda>p. Some (B p))"
  have c1: "copyDataToBuffer (f - k) 0 (stream_array B k f) = ?m [k..<f]"
    using copy_stream [of "f - k" f k B] assms(4) by simp
  have c2: "copyDataToBuffer (t - f) 0 (stream_array B f t) = ?m [f..<t]"
    using copy_stream [of "t - f" t f B] assms(5) by simp
  have m1: "memcpy_at 0 (?m [k..<f]) (new_char (t - k)) = Inr (?m [k..<f] @ replicate (t - f) None)"
    using memcpy_prefix [of "[]" "?m [k..<f]" "t - k" None] assms(4,5) by (simp add: new_char_def)
  have "unat iss < 4294967296" by (rule unat_less_32)
  then have small: "unat iss + f < 8589934592" using wrap(1) near(1) by (auto simp: near_def)
  have "uint (number iss f) < uint (number iss k)"
    unfolding uint_number_wrapped [OF wrap(2) small] uint_number [OF wrap(1)] of_nat_less_iff
    using near(1) wrap(2) by (auto simp: near_def)
  then have m2: "memcpy_address (number iss f) (number iss k) (?m [f..<t]) b = Inl (UndefinedBehaviour ''memcpy before a buffer'')" for b
    using assms(5) by (simp add: memcpy_address_def)
  show ?thesis using assms(4,5) by (simp add: br_merge_def n ends lens c1 c2 m1 m2 Let_def)
qed

text \<open>
  The queue fails where the sequence numbers wrap around.  If the data that waits begins below
  number \<open>2^32\<close> and the next segment continues it at or after the wrap-around, merging the two computes
  an address before the new buffer and writes there: the address arithmetic is done with 64 bits on
  numbers that wrap at 32.
\<close>

theorem brq_wrap_fails:
  assumes "k < f" "f < t" "t \<le> k + window" "unat iss + k < 2 ^ 32" "2 ^ 32 \<le> unat iss + f"
    and q: "brq_regionList q = [byte_region_at iss B (k, f)]"
    and g: "sequenceNo g = iss + of_nat f" "payloadLength g = of_nat (t - f)" "byteArray g = stream_array B f t"
  shows "brq_insertBytesFromSegment debug g q = Inl (UndefinedBehaviour ''memcpy before a buffer'')"
proof -
  have nears: "near k f" "near k t" "near f t" using assms(1-3) by (auto simp: near_def window_def)
  have "f + (t - f) = t" using assms(2) by simp
  then have fin: "number iss f + of_nat (t - f) = number iss t" by (simp only: number_add)
  have "t - f < 4294967296" using assms(1-3) by (simp add: window_def)
  then have len: "unat (of_nat (t - f) :: seq) = t - f" by (rule unat_of_nat_32)
  have create: "brq_createRegionFromSegment g = Inr (byte_region_at iss B (f, t))"
    using g [folded number_def] len fin
    by (simp add: brq_createRegionFromSegment_def byte_region_at_def ba_dup_wf del: of_nat_diff)
  have "gapped [(k, f)]" "positions [(k, f)] \<subseteq> {k..<k + window}" using assms(1-3) by (auto simp: gapped_def)
  then have "\<not> out_of_range (region_at iss (f, t)) (base_queue q)"
    using assms(1-3) q by (intro not_out_of_range [of "[(k, f)]" k]) simp_all
  moreover have "rr_compare (region_at iss (k, f)) (region_at iss (f, t)) = BEFORE_TOUCH" by (simp add: rr_compare_def)
  moreover have "br_merge (byte_region_at iss B (f, t)) (byte_region_at iss B (k, f))
      = Inl (UndefinedBehaviour ''memcpy before a buffer'')"
    using br_merge_wraps [OF nears assms(1,2)] assms(4,5) by simp
  ultimately show ?thesis by (simp add: brq_insertBytesFromSegment_def create q Let_def)
qed

theorem brq_wrap_fails_witness:
  "brq_insertBytesFromSegment False (segment_at 4294967290 of_nat (6, 9))
       \<lparr>brq_rcv_nxt = 4294967290, brq_regionList = [byte_region_at 4294967290 of_nat (2, 6)]\<rparr>
     = Inl (UndefinedBehaviour ''memcpy before a buffer'')"
  by (rule brq_wrap_fails [where k = 2 and f = 6 and t = 9 and iss = 4294967290 and B = of_nat])
    (simp_all add: window_def number_def)

end
