(* ===== verification/TcpByteLink.thy ===== *)
theory TcpByteLink
  imports TcpByteStream
begin

text \<open>
  A byte stream from the send queue of one TCP to the receive queue of another.  The network may lose,
  delay, repeat and reorder segments; a segment that arrives passes the tests of the connection
  (\<^verbatim>\<open>isSegmentAcceptable\<close>, truncation to the window, \<^verbatim>\<open>hasEnoughSpaceForSegmentInReceiveQueue\<close>) before
  its data is stored.  What the application reads is proved to be what the other application wrote.
\<close>

section \<open>Arrival of a segment\<close>

text \<open>The fields of \<^verbatim>\<open>TCPStateVariables\<close> that the tests read.\<close>

record tcp_tests =
  snd_una :: seq
  snd_nxt :: seq
  snd_max :: seq
  afterRto :: bool
  st_rcv_nxt :: seq
  rcv_wnd :: "32 word"
  maxRcvBuffer :: "32 word"

definition isSegmentAcceptable :: "tcp_tests \<Rightarrow> tcp_segment \<Rightarrow> bool" where
  "isSegmentAcceptable st g =
     (let len = payloadLength g; seqNo = sequenceNo g; ack = ackNo g;
          rcvWndEnd = st_rcv_nxt st + rcv_wnd st;
          ret =
            (if len = 0 then
               (if rcv_wnd st = 0 then seqNo = st_rcv_nxt st
                else seqLE (st_rcv_nxt st) seqNo \<and> seqLE seqNo rcvWndEnd)
             else
               (if rcv_wnd st = 0 then False
                else (seqLE (st_rcv_nxt st) seqNo \<and> seqLess seqNo rcvWndEnd)
                  \<or> (seqLess (st_rcv_nxt st) (seqNo + len) \<and> seqLE (seqNo + len) rcvWndEnd)))
      in if \<not> ret \<and> len = 0 then
           (if \<not> afterRto st then seqLess (snd_una st) ack \<and> seqLE ack (snd_nxt st)
            else seqLess (snd_una st) ack \<and> seqLE ack (snd_max st))
         else ret)"

definition hasEnoughSpaceForSegmentInReceiveQueue :: "tcp_tests \<Rightarrow> tcp_segment \<Rightarrow> byte_rcvq \<Rightarrow> bool" where
  "hasEnoughSpaceForSegmentInReceiveQueue st g q =
     (let firstSeq = getFirstSeqNo (base_queue q)
      in seqLE firstSeq (sequenceNo g) \<and> seqLE (sequenceNo g + payloadLength g) (firstSeq + maxRcvBuffer st))"

text \<open>
  The way of the data of a segment into the queue in a data transfer state; a segment that fails a test
  is dropped.
\<close>

definition store_segment_text :: "bool \<Rightarrow> tcp_tests \<Rightarrow> tcp_segment \<Rightarrow> byte_rcvq \<Rightarrow> sim_error + byte_rcvq" where
  "store_segment_text debug st g q =
     (if isSegmentAcceptable st g \<and> payloadLength g > 0 then
        bind_result (truncateSegment debug (st_rcv_nxt st) (st_rcv_nxt st + rcv_wnd st) g) (\<lambda>g'.
        if hasEnoughSpaceForSegmentInReceiveQueue st g' q
        then bind_result (brq_insertBytesFromSegment debug g' q) (\<lambda>(nxt, q'). Inr q')
        else Inr q)
      else Inr q)"

text \<open>The same on positions: the bytes stored of a segment \<open>[f, t)\<close>.\<close>

definition stored :: "nat \<Rightarrow> nat \<Rightarrow> nat \<Rightarrow> nat \<Rightarrow> nat \<times> nat \<Rightarrow> nat set" where
  "stored d nm wnd buf = (\<lambda>(f, t).
     if ((nm \<le> f \<and> f < nm + wnd) \<or> (nm < t \<and> t \<le> nm + wnd)) \<and> min t (nm + wnd) \<le> d + buf
     then {max f nm..<min t (nm + wnd)} else {})"

lemma acceptable_at:
  assumes "f < t" "nm < f + window" "t \<le> nm + window" "wnd \<le> window"
    and st: "st_rcv_nxt st = number iss nm" "rcv_wnd st = of_nat wnd"
  shows "isSegmentAcceptable st (segment_at iss B (f, t)) \<and> payloadLength (segment_at iss B (f, t)) > 0
    \<longleftrightarrow> (nm \<le> f \<and> f < nm + wnd) \<or> (nm < t \<and> t \<le> nm + wnd)"
proof -
  have "t - f \<le> 2 * window" "wnd \<le> window" using assms by simp_all
  then have u: "unat (of_nat (t - f) :: seq) = t - f" "unat (of_nat wnd :: seq) = wnd"
    by (auto intro!: unat_of_nat_32 simp: window_def simp del: of_nat_diff)
  have pos: "(of_nat (t - f) :: seq) > 0" "(of_nat (t - f) :: seq) \<noteq> 0"
    using u(1) assms(1) by (auto simp: word_less_nat_alt simp del: of_nat_diff)
  have w0: "(of_nat wnd :: seq) = 0 \<longleftrightarrow> wnd = 0" using unat_eq_zero [of "of_nat wnd :: seq"] unfolding u(2) by blast
  have "near nm f" "near f (nm + wnd)" "near nm t" "near t (nm + wnd)"
    using assms by (auto simp: near_def window_def)
  note cmp = this [THEN number_near(1), of iss] this [THEN number_near(2), of iss]
  have "f + (t - f) = t" using assms(1) by simp
  then have fin: "number iss f + of_nat (t - f) = number iss t" by (simp only: number_add)
  define len where "len = (of_nat (t - f) :: seq)"
  note len = pos [folded len_def] fin [folded len_def]
  have "isSegmentAcceptable st (segment_at iss B (f, t)) \<longleftrightarrow> wnd \<noteq> 0 \<and>
      ((seqLE (number iss nm) (number iss f) \<and> seqLess (number iss f) (number iss (nm + wnd)))
        \<or> (seqLess (number iss nm) (number iss t) \<and> seqLE (number iss t) (number iss (nm + wnd))))"
    unfolding isSegmentAcceptable_def segment_at_sel st number_add Let_def len_def [symmetric] len(3) w0
    using len(2) by (cases "wnd = 0") (simp_all only: if_False if_True simp_thms)
  then show ?thesis using len(1) unfolding segment_at_sel len_def [symmetric] cmp by auto
qed

lemma store_refines:
  assumes rel: "brq_rel iss B q (d, S)" and seg: "f < t" "next_missing d S < f + window" "t \<le> next_missing d S + window"
    and wnd: "wnd < window" "buf \<le> window" and small: "unat iss + t < 4294967296"
    and clear: "\<not> (min t (next_missing d S + wnd) \<in> S \<and> min t (next_missing d S + wnd) - 1 \<in> S)"
    and st: "st_rcv_nxt st = brq_rcv_nxt q" "rcv_wnd st = of_nat wnd" "maxRcvBuffer st = of_nat buf"
  shows "\<exists>q'. store_segment_text debug st (segment_at iss B (f, t)) q = Inr q'
    \<and> brq_rel iss B q' (d, S \<union> stored d (next_missing d S) wnd buf (f, t))"
proof -
  let ?nm = "next_missing d S" and ?g = "segment_at iss B (f, t)"
  let ?t = "min t (?nm + wnd)" and ?f = "max f ?nm"
  have S: "S \<subseteq> {d..<d + window}" and nxt: "brq_rcv_nxt q = number iss ?nm" using rel by (auto simp: brq_rel_def)
  note n = next_missing_in_window [OF S] and first = first_seq_no [OF brq_rel_base [OF rel]]
  note acc = acceptable_at [OF seg less_imp_le [OF wnd(1)] st(1) [unfolded nxt] st(2), of B]
  show ?thesis
  proof (cases "(?nm \<le> f \<and> f < ?nm + wnd) \<or> (?nm < t \<and> t \<le> ?nm + wnd)")
    case False
    have "store_segment_text debug st ?g q = Inr q"
      unfolding store_segment_text_def by (rule if_not_P) (use acc False in blast)
    moreover have "stored d ?nm wnd buf (f, t) = {}" using False by (auto simp: stored_def)
    ultimately show ?thesis using rel by simp
  next
    case True
    then have common: "f < ?nm + wnd" "?nm < t" "?nm < ?nm + wnd" using seg(1) by auto
    have ft: "?f < ?t" using common seg(1) by simp
    have nears: "near f t" "near f ?nm" "near t ?nm" "near f (?nm + wnd)" "near t (?nm + wnd)"
      using seg wnd(1) by (auto simp: near_def window_def)
    note trunc = truncateSegment_at [OF seg(1) nears common, of debug iss B]
    have nears': "near d ?f" "near ?t (d + buf)"
      using n(1,2) seg wnd common by (auto simp: near_def window_def max_def min_def)
    have fin: "?f + (?t - ?f) = ?t" using ft by simp
    have enough: "hasEnoughSpaceForSegmentInReceiveQueue st (segment_at iss B (?f, ?t)) q \<longleftrightarrow> ?t \<le> d + buf"
      using number_near(1) [OF nears'(1), of iss] number_near(1) [OF nears'(2), of iss] n(1)
      unfolding hasEnoughSpaceForSegmentInReceiveQueue_def segment_at_sel number_add fin first st(3) Let_def
      by (simp add: le_max_iff_disj)
    have head: "store_segment_text debug st ?g q =
        (if ?t \<le> d + buf then bind_result (brq_insertBytesFromSegment debug (segment_at iss B (?f, ?t)) q) (\<lambda>(nxt, q'). Inr q') else Inr q)"
      using acc [THEN iffD2, OF True] unfolding store_segment_text_def st(1,2) nxt number_add trunc bind_result_simps enough by simp
    show ?thesis
    proof (cases "?t \<le> d + buf")
      case False
      then show ?thesis using head rel by (simp add: stored_def)
    next
      case le: True
      have "?t \<le> d + window" "unat iss + ?t < 4294967296" "?nm \<le> ?f" using le wnd(2) small by simp_all
      from brq_insert_refines [OF rel this(3) ft this(1,2) clear, of "segment_at iss B (?f, ?t)" debug]
      obtain q' where "brq_insertBytesFromSegment debug (segment_at iss B (?f, ?t)) q = Inr (brq_rcv_nxt q', q')"
        "brq_rel iss B q' (d, S \<union> {?f..<?t})" by auto
      then show ?thesis using head le True by (simp add: stored_def)
    qed
  qed
qed

section \<open>The link\<close>

text \<open>
  The sending queue, every segment ever made (the network may still hold any of them), the receiving
  queue, and what the application has read.  A reader takes bytes, an arrival names the segment.
\<close>

record byte_link =
  bl_sender :: byte_sendq
  bl_segments :: "tcp_segment list"
  bl_receiver :: byte_rcvq
  bl_read :: "cell list"

datatype link_op =
    Write "8 word list"
  | Transmit nat nat
  | Acknowledge nat
  | Arrive nat nat nat
  | Read nat

definition link_start :: "seq \<Rightarrow> byte_link" where
  "link_start iss = \<lparr>bl_sender = bsq_init iss bsq_new, bl_segments = [], bl_receiver = brq_init iss brq_new, bl_read = []\<rparr>"

definition raw_of :: "8 word list \<Rightarrow> raw_packet" where
  "raw_of bs = \<lparr>rp_length = length bs, rp_bytes = assignBuffer (map Some bs) (length bs)\<rparr>"

text \<open>The state of the connection in the tests; the fields about the other direction do not matter for data.\<close>

definition tests_of :: "byte_rcvq \<Rightarrow> nat \<Rightarrow> nat \<Rightarrow> tcp_tests" where
  "tests_of q wnd buf = \<lparr>snd_una = 0, snd_nxt = 0, snd_max = 0, afterRto = False, st_rcv_nxt = brq_rcv_nxt q,
     rcv_wnd = of_nat wnd, maxRcvBuffer = of_nat buf\<rparr>"

fun link_exec :: "bool \<Rightarrow> seq \<Rightarrow> link_op \<Rightarrow> byte_link \<Rightarrow> sim_error + byte_link" where
  "link_exec debug iss (Write bs) l =
     bind_result (bsq_enqueueAppData (raw_of bs) (bl_sender l)) (\<lambda>q. Inr (l\<lparr>bl_sender := q\<rparr>))"
| "link_exec debug iss (Transmit f n) l =
     bind_result (bsq_createSegmentWithBytes (number iss f) n (bl_sender l)) (\<lambda>g.
     Inr (l\<lparr>bl_segments := bl_segments l @ [g]\<rparr>))"
| "link_exec debug iss (Acknowledge b) l =
     bind_result (bsq_discardUpTo (number iss b) (bl_sender l)) (\<lambda>q. Inr (l\<lparr>bl_sender := q\<rparr>))"
| "link_exec debug iss (Arrive i wnd buf) l =
     bind_result (store_segment_text debug (tests_of (bl_receiver l) wnd buf) (bl_segments l ! i) (bl_receiver l)) (\<lambda>q.
     Inr (l\<lparr>bl_receiver := q\<rparr>))"
| "link_exec debug iss (Read s) l =
     bind_result (brq_extractBytesUpTo (number iss s) (bl_receiver l)) (\<lambda>(m, q).
     Inr (l\<lparr>bl_receiver := q, bl_read := bl_read l @ (case m of None \<Rightarrow> [] | Some p \<Rightarrow> contents (rp_bytes p))\<rparr>))"

text \<open>
  The specification: the bytes written, how many were acknowledged, the segments made, how many bytes
  were read, and the positions that arrived.
\<close>

record link_spec =
  ls_written :: "8 word list"
  ls_acked :: nat
  ls_segments :: "(nat \<times> nat) list"
  ls_read :: nat
  ls_arrived :: "nat set"

definition spec_start :: link_spec where
  "spec_start = \<lparr>ls_written = [], ls_acked = 0, ls_segments = [], ls_read = 0, ls_arrived = {}\<rparr>"

definition expected :: "link_spec \<Rightarrow> nat" where
  "expected a = next_missing (ls_read a) (ls_arrived a)"

fun link_step :: "link_op \<Rightarrow> link_spec \<Rightarrow> link_spec" where
  "link_step (Write bs) a = a\<lparr>ls_written := ls_written a @ bs\<rparr>"
| "link_step (Transmit f n) a = a\<lparr>ls_segments := ls_segments a @ [(f, f + n)]\<rparr>"
| "link_step (Acknowledge b) a = a\<lparr>ls_acked := b\<rparr>"
| "link_step (Arrive i wnd buf) a =
     a\<lparr>ls_arrived := ls_arrived a \<union> stored (ls_read a) (expected a) wnd buf (ls_segments a ! i)\<rparr>"
| "link_step (Read s) a = a\<lparr>ls_read := s, ls_arrived := ls_arrived a - {..<s}\<rparr>"

text \<open>
  When the queues work: at most a window of unacknowledged bytes, no number past the last one of the
  sequence space, segments of bytes that are still there, acknowledgments of bytes that arrived, no
  segment older than a window, and none whose end lies inside the data that is waiting.
\<close>

fun link_legal :: "seq \<Rightarrow> link_spec \<Rightarrow> link_op \<Rightarrow> bool" where
  "link_legal iss a (Write bs) \<longleftrightarrow>
     length (ls_written a) + length bs \<le> ls_acked a + window \<and> unat iss + length (ls_written a) + length bs < 4294967296"
| "link_legal iss a (Transmit f n) \<longleftrightarrow> ls_acked a \<le> f \<and> 0 < n \<and> f + n \<le> length (ls_written a)"
| "link_legal iss a (Acknowledge b) \<longleftrightarrow> ls_acked a \<le> b \<and> b \<le> expected a"
| "link_legal iss a (Arrive i wnd buf) \<longleftrightarrow>
     i < length (ls_segments a) \<and> wnd < window \<and> buf \<le> window \<and> expected a < fst (ls_segments a ! i) + window
     \<and> (let e = min (snd (ls_segments a ! i)) (expected a + wnd) in \<not> (e \<in> ls_arrived a \<and> e - 1 \<in> ls_arrived a))"
| "link_legal iss a (Read s) \<longleftrightarrow> ls_read a \<le> s \<and> s \<le> expected a"

definition byte_at :: "8 word list \<Rightarrow> nat \<Rightarrow> 8 word" where
  "byte_at bs p = bs ! p"

definition link_rel :: "seq \<Rightarrow> byte_link \<Rightarrow> link_spec \<Rightarrow> bool" where
  "link_rel iss l a \<longleftrightarrow>
     (\<exists>ms. bsq_rel iss (bl_sender l) (ls_acked a, ms) \<and> raw_cells ms = map Some (ls_written a))
     \<and> bl_segments l = map (segment_at iss (byte_at (ls_written a))) (ls_segments a)
     \<and> (\<forall>(f, t) \<in> set (ls_segments a). f < t \<and> t \<le> length (ls_written a) \<and> t \<le> expected a + window)
     \<and> unat iss + length (ls_written a) < 4294967296
     \<and> ls_acked a \<le> expected a
     \<and> brq_rel iss (byte_at (ls_written a)) (bl_receiver l) (ls_read a, ls_arrived a)
     \<and> ls_arrived a \<subseteq> {..<length (ls_written a)} \<and> ls_read a \<le> length (ls_written a)
     \<and> bl_read l = map Some (take (ls_read a) (ls_written a))"

lemma stream_array_cong: "(\<And>p. k \<le> p \<Longrightarrow> p < l \<Longrightarrow> B p = B' p) \<Longrightarrow> stream_array B k l = stream_array B' k l"
  by (simp add: stream_array_def)

lemma byte_at_append: "p < length bs \<Longrightarrow> byte_at (bs @ cs) p = byte_at bs p"
  by (simp add: byte_at_def nth_append)

lemma brq_rel_cong:
  assumes "brq_rel iss B q (d, S)" "\<And>p. p \<in> S \<Longrightarrow> B p = B' p"
  shows "brq_rel iss B' q (d, S)"
proof -
  obtain ivs where ivs: "brq_regionList q = map (byte_region_at iss B) ivs" "gapped ivs" "positions ivs = S"
    using assms(1) by (auto simp: brq_rel_def)
  have "byte_region_at iss B x = byte_region_at iss B' x" if "x \<in> set ivs" for x
  proof -
    obtain k l where x: "x = (k, l)" by (cases x)
    have "{k..<l} \<subseteq> S" using gapped_block(1) [OF ivs(2)] that ivs(3) by (simp add: x)
    then have "stream_array B k l = stream_array B' k l" using assms(2) by (intro stream_array_cong) auto
    then show ?thesis by (simp add: x byte_region_at_def)
  qed
  then have "brq_regionList q = map (byte_region_at iss B') ivs" using ivs(1) by simp
  with assms(1) ivs show ?thesis by (auto simp: brq_rel_def)
qed

lemma next_missing_mono:
  assumes "S \<subseteq> S'" "finite S'"
  shows "next_missing d S \<le> next_missing d S'"
proof -
  have "d \<le> next_missing d S' \<and> next_missing d S' \<notin> S" using next_missing_props [OF assms(2), of d] assms(1) by blast
  then show ?thesis unfolding next_missing_def [of d S] by (rule Least_le)
qed

lemma next_missing_bound:
  assumes "S \<subseteq> {..<n}" "d \<le> n"
  shows "next_missing d S \<le> n"
proof (rule ccontr)
  assume "\<not> next_missing d S \<le> n"
  then have "n \<in> {d..<next_missing d S}" using assms(2) by simp
  moreover have "finite S" using assms(1) finite_subset by blast
  ultimately have "n \<in> S" using next_missing_props(3) [of S d] by blast
  with assms(1) show False by auto
qed

lemma raw_of_props: "raw_wf (raw_of bs)" "contents (rp_bytes (raw_of bs)) = map Some bs" "rp_length (raw_of bs) = length bs"
  by (simp_all add: raw_of_def raw_wf_def assignBuffer_def ba_wf_def contents_def)

lemma link_relD:
  assumes "link_rel iss l a"
  obtains ms where "bsq_rel iss (bl_sender l) (ls_acked a, ms)" "raw_cells ms = map Some (ls_written a)"
    "stream_length rp_length ms = length (ls_written a)" "expected a \<le> length (ls_written a)"
    "length (ls_written a) \<le> ls_acked a + window"
proof -
  obtain ms where ms: "bsq_rel iss (bl_sender l) (ls_acked a, ms)" "raw_cells ms = map Some (ls_written a)"
    using assms by (auto simp: link_rel_def)
  have "list_all raw_wf ms" using ms(1) by (auto simp: bsq_rel_def Let_def)
  then have len: "stream_length rp_length ms = length (ls_written a)" using length_raw_cells ms(2) by (metis length_map)
  moreover have "length (ls_written a) \<le> ls_acked a + window" using bsq.bounds_law [OF ms(1)] len by simp
  moreover have "expected a \<le> length (ls_written a)" using assms unfolding expected_def link_rel_def
    by (intro next_missing_bound) auto
  ultimately show thesis using ms that by blast
qed

lemma link_write:
  assumes rel: "link_rel iss l a" and pre: "link_legal iss a (Write bs)"
  shows "\<exists>l'. link_exec debug iss (Write bs) l = Inr l' \<and> link_rel iss l' (link_step (Write bs) a)"
proof -
  obtain ms where ms: "bsq_rel iss (bl_sender l) (ls_acked a, ms)" "raw_cells ms = map Some (ls_written a)"
    "stream_length rp_length ms = length (ls_written a)"
    using rel by (elim link_relD)
  have "returns (\<lambda>q. bsq_rel iss q (ls_acked a, ms @ [raw_of bs])) (bsq_enqueueAppData (raw_of bs) (bl_sender l))"
    using bsq.enqueue_law [OF ms(1) raw_of_props(1)] pre by (simp add: ms(3) raw_of_props(3))
  then obtain q where q: "bsq_enqueueAppData (raw_of bs) (bl_sender l) = Inr q" "bsq_rel iss q (ls_acked a, ms @ [raw_of bs])"
    by (auto dest: returns_D)
  have cells: "raw_cells (ms @ [raw_of bs]) = map Some (ls_written a @ bs)" by (simp add: ms(2) raw_of_props(2))
  let ?B = "byte_at (ls_written a)" and ?B' = "byte_at (ls_written a @ bs)"
  have "segment_at iss ?B x = segment_at iss ?B' x" if "x \<in> set (ls_segments a)" for x
  proof -
    obtain f t where x: "x = (f, t)" by (cases x)
    have "t \<le> length (ls_written a)" using rel that x by (auto simp: link_rel_def)
    then have "stream_array ?B f t = stream_array ?B' f t" by (intro stream_array_cong) (simp add: byte_at_append)
    then show ?thesis by (simp add: x segment_at_def)
  qed
  then have segs: "map (segment_at iss ?B) (ls_segments a) = map (segment_at iss ?B') (ls_segments a)" by simp
  have "brq_rel iss ?B' (bl_receiver l) (ls_read a, ls_arrived a)"
  proof (rule brq_rel_cong)
    show "brq_rel iss ?B (bl_receiver l) (ls_read a, ls_arrived a)" using rel by (simp add: link_rel_def)
    show "?B p = ?B' p" if "p \<in> ls_arrived a" for p
    proof -
      have "p < length (ls_written a)" using rel that unfolding link_rel_def by blast
      then show ?thesis by (simp add: byte_at_append)
    qed
  qed
  moreover have "\<exists>ms'. bsq_rel iss q (ls_acked a, ms') \<and> raw_cells ms' = map Some (ls_written a @ bs)"
    using q(2) cells by blast
  moreover have "take (ls_read a) (ls_written a @ bs) = take (ls_read a) (ls_written a)"
    "\<forall>(f, t) \<in> set (ls_segments a). f < t \<and> t \<le> length (ls_written a @ bs) \<and> t \<le> expected a + window"
    "ls_arrived a \<subseteq> {..<length (ls_written a @ bs)}"
    using rel by (auto simp: link_rel_def)
  ultimately have "link_rel iss (l\<lparr>bl_sender := q\<rparr>) (a\<lparr>ls_written := ls_written a @ bs\<rparr>)"
    using rel pre segs unfolding link_rel_def expected_def by simp
  with q(1) show ?thesis by simp
qed

lemma link_transmit:
  assumes rel: "link_rel iss l a" and pre: "link_legal iss a (Transmit f n)"
  shows "\<exists>l'. link_exec debug iss (Transmit f n) l = Inr l' \<and> link_rel iss l' (link_step (Transmit f n) a)"
proof -
  obtain ms where ms: "bsq_rel iss (bl_sender l) (ls_acked a, ms)" "raw_cells ms = map Some (ls_written a)"
    "stream_length rp_length ms = length (ls_written a)" "length (ls_written a) \<le> ls_acked a + window"
    using rel by (elim link_relD)
  obtain g where g: "bsq_createSegmentWithBytes (number iss f) n (bl_sender l) = Inr g" "carries_bytes iss ms f n g"
    using bsq.create_law [OF ms(1), of f n] pre by (auto simp: ms(3) dest: returns_D)
  have "take n (drop f (raw_cells ms)) = map (\<lambda>p. Some (byte_at (ls_written a) p)) [f..<f + n]"
    using pre unfolding ms(2) by (intro nth_equalityI) (auto simp: byte_at_def)
  then have "byteArray g = stream_array (byte_at (ls_written a)) f (f + n)"
    using g(2) by (intro stream_array_eqI) (simp_all add: carries_bytes_def)
  then have "g = segment_at iss (byte_at (ls_written a)) (f, f + n)"
    using g(2) by (simp add: carries_bytes_def segment_at_def)
  moreover have "f + n \<le> expected a + window" using pre rel ms(4) by (simp add: link_rel_def)
  ultimately show ?thesis using g(1) rel pre by (auto simp: link_rel_def expected_def)
qed

lemma link_acknowledge:
  assumes rel: "link_rel iss l a" and pre: "link_legal iss a (Acknowledge b)"
  shows "\<exists>l'. link_exec debug iss (Acknowledge b) l = Inr l' \<and> link_rel iss l' (link_step (Acknowledge b) a)"
proof -
  obtain ms where ms: "bsq_rel iss (bl_sender l) (ls_acked a, ms)" "raw_cells ms = map Some (ls_written a)"
    "stream_length rp_length ms = length (ls_written a)" "expected a \<le> length (ls_written a)"
    using rel by (elim link_relD)
  obtain q where "bsq_discardUpTo (number iss b) (bl_sender l) = Inr q" "bsq_rel iss q (b, ms)"
    using bsq.discard_law [OF ms(1), of b] pre ms(3,4) by (auto dest: returns_D)
  with rel pre ms(2) show ?thesis by (auto simp: link_rel_def expected_def)
qed

lemma link_arrive:
  assumes rel: "link_rel iss l a" and pre: "link_legal iss a (Arrive i wnd buf)"
  shows "\<exists>l'. link_exec debug iss (Arrive i wnd buf) l = Inr l' \<and> link_rel iss l' (link_step (Arrive i wnd buf) a)"
proof -
  obtain f t where ft: "ls_segments a ! i = (f, t)" by (cases "ls_segments a ! i")
  let ?B = "byte_at (ls_written a)"
  have "(f, t) \<in> set (ls_segments a)" using pre ft by (metis link_legal.simps(4) nth_mem)
  then have seg: "f < t" "t \<le> length (ls_written a)" "t \<le> expected a + window" using rel by (auto simp: link_rel_def)
  have g: "bl_segments l ! i = segment_at iss ?B (f, t)" using rel pre ft by (simp add: link_rel_def)
  have brq: "brq_rel iss ?B (bl_receiver l) (ls_read a, ls_arrived a)" using rel by (simp add: link_rel_def)
  have small: "unat iss + t < 4294967296" using rel seg(2) by (simp add: link_rel_def)
  have h: "expected a < f + window" "wnd < window" "buf \<le> window"
    "\<not> (min t (expected a + wnd) \<in> ls_arrived a \<and> min t (expected a + wnd) - 1 \<in> ls_arrived a)"
    using pre ft by (simp_all add: Let_def)
  let ?S = "ls_arrived a \<union> stored (ls_read a) (expected a) wnd buf (f, t)"
  obtain q where q: "store_segment_text debug (tests_of (bl_receiver l) wnd buf) (segment_at iss ?B (f, t)) (bl_receiver l) = Inr q"
    "brq_rel iss ?B q (ls_read a, ?S)"
    using store_refines [OF brq seg(1) h(1) [unfolded expected_def] seg(3) [unfolded expected_def] h(2,3) small
        h(4) [unfolded expected_def], of "tests_of (bl_receiver l) wnd buf" debug]
    unfolding expected_def [symmetric] by (auto simp: tests_of_def)
  have sub: "?S \<subseteq> {..<length (ls_written a)}" using rel seg(2) by (auto simp: link_rel_def stored_def)
  let ?a = "a\<lparr>ls_arrived := ?S\<rparr>"
  have "expected a \<le> expected ?a"
    unfolding expected_def by (simp, intro next_missing_mono finite_subset [OF sub [unfolded expected_def]]) auto
  moreover from this have "\<forall>(f, t) \<in> set (ls_segments a). f < t \<and> t \<le> length (ls_written a) \<and> t \<le> expected ?a + window"
    using rel unfolding link_rel_def by fastforce
  ultimately have "link_rel iss (l\<lparr>bl_receiver := q\<rparr>) ?a"
    using rel q(2) sub unfolding link_rel_def by simp
  moreover have "link_exec debug iss (Arrive i wnd buf) l = Inr (l\<lparr>bl_receiver := q\<rparr>)" using q(1) by (simp add: g)
  ultimately show ?thesis by (simp add: ft)
qed

lemma link_read:
  assumes rel: "link_rel iss l a" and pre: "link_legal iss a (Read s)"
  shows "\<exists>l'. link_exec debug iss (Read s) l = Inr l' \<and> link_rel iss l' (link_step (Read s) a)"
proof -
  have brq: "brq_rel iss (byte_at (ls_written a)) (bl_receiver l) (ls_read a, ls_arrived a)"
    and S: "ls_arrived a \<subseteq> {ls_read a..<ls_read a + window}"
    using rel by (auto simp: link_rel_def brq_rel_def)
  have s: "ls_read a \<le> s" "s \<le> next_missing (ls_read a) (ls_arrived a)" using pre by (simp_all add: expected_def)
  have len: "s \<le> length (ls_written a)"
  proof -
    have "expected a \<le> length (ls_written a)" using rel by (rule link_relD)
    then show ?thesis using pre by simp
  qed
  obtain q where q: "brq_extractBytesUpTo (number iss s) (bl_receiver l)
      = Inr (if ls_read a < s then Some \<lparr>rp_length = s - ls_read a, rp_bytes = stream_array (byte_at (ls_written a)) (ls_read a) s\<rparr> else None, q)"
    "brq_rel iss (byte_at (ls_written a)) q (s, ls_arrived a - {..<s})"
    using brq_extract_refines [OF brq s] by blast
  have "take s (ls_written a) = take (ls_read a) (ls_written a) @ map (byte_at (ls_written a)) [ls_read a..<s]"
    using s(1) len by (intro nth_equalityI) (auto simp: nth_append byte_at_def)
  then have "map Some (take (ls_read a) (ls_written a)) @ map (\<lambda>p. Some (byte_at (ls_written a) p)) [ls_read a..<s]
      = map Some (take s (ls_written a))" by simp
  moreover have "expected (a\<lparr>ls_read := s, ls_arrived := ls_arrived a - {..<s}\<rparr>) = expected a"
    using next_missing_deliver [OF S s] by (simp add: expected_def)
  moreover have "ls_arrived a - {..<s} \<subseteq> {..<length (ls_written a)}" using rel by (auto simp: link_rel_def)
  ultimately have "link_rel iss (l\<lparr>bl_receiver := q, bl_read := map Some (take s (ls_written a))\<rparr>)
      (a\<lparr>ls_read := s, ls_arrived := ls_arrived a - {..<s}\<rparr>)"
    using rel q(2) len by (simp add: link_rel_def)
  moreover have "bl_read l @ (if ls_read a < s then map (\<lambda>p. Some (byte_at (ls_written a) p)) [ls_read a..<s] else [])
      = map Some (take s (ls_written a))"
    using rel s(1) \<open>map Some _ @ _ = _\<close> by (auto simp: link_rel_def)
  moreover have "link_exec debug iss (Read s) l = Inr (l\<lparr>bl_receiver := q,
      bl_read := bl_read l @ (if ls_read a < s then map (\<lambda>p. Some (byte_at (ls_written a) p)) [ls_read a..<s] else [])\<rparr>)"
    using q(1) by simp
  ultimately show ?thesis by simp
qed

interpretation byte_link: forward_simulation "link_exec debug iss" "link_rel iss" "link_legal iss" link_step for debug iss
proof (unfold_locales, goal_cases)
  case (1 l a op)
  then show ?case by (cases op) (blast intro: link_write link_transmit link_acknowledge link_arrive link_read)+
qed

lemma link_rel_start: "link_rel iss (link_start iss) spec_start"
proof -
  have nm: "next_missing 0 {} = 0" by (intro next_missing_eq) auto
  have "unat iss < 4294967296" by (rule unat_less_32)
  moreover have "bsq_rel iss (bsq_init iss bsq_new) (0, [])" by (rule bsq.init_law)
  ultimately show ?thesis using nm
    by (auto simp: link_rel_def link_start_def spec_start_def expected_def raw_cells_def brq_rel_def brq_init_def number_def gapped_def
        intro!: exI [of _ "[]"])
qed

section \<open>Properties\<close>

text \<open>What the application wrote in a run.\<close>

fun written :: "link_op list \<Rightarrow> 8 word list" where
  "written [] = []"
| "written (Write bs # ops) = bs @ written ops"
| "written (_ # ops) = written ops"

lemma fold_written: "ls_written (fold link_step ops a) = ls_written a @ written ops"
  by (induction ops arbitrary: a rule: written.induct) simp_all

text \<open>
  C13: the byte stream arrives.  Whatever one application writes, however its TCP cuts the stream into
  segments and repeats them, in whatever order the network delivers them, once, several times or not at
  all, and however the other application reads, no operation of the two queues fails and what was read
  is a prefix of what was written, byte for byte; the number expected next is that of the first byte
  that has not arrived.  The run stays inside the limits of \<open>link_legal\<close>.
\<close>

theorem byte_link_delivers:
  assumes "legal_run (link_legal iss) link_step ops spec_start"
  shows "\<exists>l a. run_result (link_exec debug iss) ops (link_start iss) = Inr l
    \<and> a = fold link_step ops spec_start
    \<and> bl_read l = map Some (take (ls_read a) (written ops)) \<and> ls_read a \<le> length (written ops)
    \<and> brq_rcv_nxt (bl_receiver l) = iss + of_nat (expected a)
    \<and> getAmountOfBufferedBytes (base_queue (bl_receiver l)) = of_nat (card (ls_arrived a))"
proof -
  obtain l where l: "run_result (link_exec debug iss) ops (link_start iss) = Inr l"
    "link_rel iss l (fold link_step ops spec_start)"
    using byte_link.run_step [OF link_rel_start assms] by blast
  then have brq: "brq_rel iss (byte_at (written ops)) (bl_receiver l)
      (ls_read (fold link_step ops spec_start), ls_arrived (fold link_step ops spec_start))"
    by (simp add: link_rel_def fold_written spec_start_def)
  show ?thesis using l buffered_bytes [OF brq_rel_base [OF brq]] brq
    by (auto simp: link_rel_def fold_written spec_start_def brq_rel_def expected_def number_def)
qed

text \<open>Six bytes in three segments; the second arrives twice before the first, the third is lost.\<close>

theorem byte_link_delivers_witness:
  "\<exists>l. run_result (link_exec True 7)
      [Write [10, 11, 12], Transmit 0 2, Write [13, 14, 15], Transmit 2 2, Transmit 4 2,
       Arrive 1 100 100, Arrive 1 100 100, Arrive 0 100 100, Acknowledge 4, Read 3] (link_start 7) = Inr l
     \<and> bl_read l = [Some 10, Some 11, Some 12] \<and> brq_rcv_nxt (bl_receiver l) = 11"
proof -
  let ?ops = "[Write [10, 11, 12], Transmit 0 2, Write [13, 14, 15], Transmit 2 2, Transmit 4 2,
       Arrive 1 100 100, Arrive 1 100 100, Arrive 0 100 100, Acknowledge 4, Read 3] :: link_op list"
  have nm: "next_missing 0 {} = 0" "next_missing 0 {2..<4} = 0" "next_missing 0 {0..<4} = 4" "next_missing 3 {3..<4} = 4"
    by (intro next_missing_eq; auto)+
  have sets: "{2..<4} \<union> {0..<Suc (Suc 0)} = {0..<(4::nat)}" "{0..<4} - {..<3} = {3..<(4::nat)}" by auto
  have steps: "legal_run (link_legal 7) link_step ?ops spec_start"
    "expected (fold link_step ?ops spec_start) = 4" "ls_read (fold link_step ?ops spec_start) = 3"
    by (simp_all add: spec_start_def expected_def nm stored_def window_def sets)
  from byte_link_delivers [OF steps(1), of True] steps(2,3) show ?thesis by auto
qed

end
