(* ===== verification/TcpMessages.thy ===== *)
theory TcpMessages
  imports TcpSendQueues
begin

text \<open>
  The receive queue of a TCP connection that transports message objects,
  \<^verbatim>\<open>inet/transportlayer/tcp/queues/TCPMsgBasedRcvQueue.{h,cc}\<close>: the regions of the queue that counts
  bytes, and a list of the messages received, sorted by the number after their last byte.  A message
  travels with the segment that has its last byte, and it is handed over when that byte is read.  The
  queue is proved to deliver every message once and in order.
\<close>

section \<open>The queue\<close>

record msg_rcvq =
  mrq_base :: rcvq
  mrq_payloadList :: "payload_message list"

definition mrq_new :: msg_rcvq where
  "mrq_new = \<lparr>mrq_base = rcv_new, mrq_payloadList = []\<rparr>"

definition mrq_init :: "seq \<Rightarrow> msg_rcvq \<Rightarrow> msg_rcvq" where
  "mrq_init startSeq q = q\<lparr>mrq_base := rcv_init startSeq (mrq_base q)\<rparr>"

text \<open>
  The loop that stores the messages of a segment: the part of the list before the iterator, the part
  from the iterator on, and the messages that are still in the segment.
\<close>

fun mrq_store_loop :: "payload_message list \<Rightarrow> payload_message list \<Rightarrow> payload_message list \<Rightarrow> sim_error + payload_message list" where
  "mrq_store_loop before i [] = Inr (before @ i)"
| "mrq_store_loop before i (p # ps) =
     (let before' = before @ takeWhile (\<lambda>x. seqLess (endSequenceNo x) (endSequenceNo p)) i;
          i' = dropWhile (\<lambda>x. seqLess (endSequenceNo x) (endSequenceNo p)) i
      in if i' \<noteq> [] \<and> endSequenceNo (hd i') = endSequenceNo p then mrq_store_loop before' i' ps
         else
           (let all = before' @ p # i' in
            bind_result (assert_that (seqLE (endSequenceNo (hd all)) (endSequenceNo (last all))) ''front().seqNo <= back().seqNo'')
              (\<lambda>_. mrq_store_loop before' (p # i') ps)))"

definition mrq_insertBytesFromSegment :: "bool \<Rightarrow> tcp_segment \<Rightarrow> msg_rcvq \<Rightarrow> sim_error + seq \<times> msg_rcvq" where
  "mrq_insertBytesFromSegment debug g q =
     bind_result (insertBytesFromSegment debug (sequenceNo g) (payloadLength g) (mrq_base q)) (\<lambda>(nxt, b).
     bind_result (mrq_store_loop [] (mrq_payloadList q) (payloadList g)) (\<lambda>ps.
     Inr (rcv_nxt b, q\<lparr>mrq_base := b, mrq_payloadList := ps\<rparr>)))"

definition mrq_extractBytesUpTo :: "seq \<Rightarrow> msg_rcvq \<Rightarrow> sim_error + app_packet option \<times> msg_rcvq" where
  "mrq_extractBytesUpTo s q =
     (let s = (case mrq_payloadList q of [] \<Rightarrow> s
               | p # _ \<Rightarrow> if seqLess (endSequenceNo p) s then endSequenceNo p else s)
      in bind_result (extractTo s (mrq_base q)) (\<lambda>(reg, b).
         let q = q\<lparr>mrq_base := b\<rparr> in
         case reg of None \<Rightarrow> Inr (None, q)
         | Some r \<Rightarrow>
             (case mrq_payloadList q of
                p # ps \<Rightarrow> if endSequenceNo p = rr_end r then Inr (Some (pm_msg p), q\<lparr>mrq_payloadList := ps\<rparr>) else Inr (None, q)
              | [] \<Rightarrow> Inr (None, q))))"

section \<open>Storing messages\<close>

text \<open>The messages of the stream whose end positions lie in a set.\<close>

definition messages_in :: "nat set \<Rightarrow> app_packet list \<Rightarrow> (nat \<times> app_packet) list" where
  "messages_in E ms = filter (\<lambda>x. fst x \<in> E) (ended 0 ms)"

lemma messages_in_between: "messages_between a b ms = messages_in {a<..b} ms"
  by (simp add: messages_between_def messages_in_def)

text \<open>Inserting into a sorted list without repetitions, on positions.\<close>

fun insert_at :: "nat \<times> 'a \<Rightarrow> (nat \<times> 'a) list \<Rightarrow> (nat \<times> 'a) list" where
  "insert_at x [] = [x]"
| "insert_at x (y # ys) = (if fst y < fst x then y # insert_at x ys else if fst y = fst x then y # ys else x # y # ys)"

lemma set_insert_at: "set (insert_at x ys) \<subseteq> insert x (set ys)"
  by (induction ys) auto

lemma sorted_insert_at:
  "sorted_wrt (\<lambda>x y. fst x < fst y) ys \<Longrightarrow> sorted_wrt (\<lambda>x y. fst x < fst y) (insert_at x ys)"
proof (induction ys)
  case (Cons y ys)
  then show ?case using set_insert_at [of x ys] by (auto dest: less_trans)
qed simp

lemma insert_at_filter:
  assumes "sorted_wrt (\<lambda>x y. fst x < fst y) L" "x \<in> set L"
  shows "insert_at x (filter (\<lambda>y. fst y \<in> E) L) = filter (\<lambda>y. fst y \<in> insert (fst x) E) L"
  using assms
proof (induction L)
  case (Cons y L)
  show ?case
  proof (cases "x = y")
    case True
    then have above: "\<forall>z \<in> set L. fst x < fst z" using Cons.prems(1) by simp
    then have rest: "filter (\<lambda>z. fst z \<in> insert (fst x) E) L = filter (\<lambda>z. fst z \<in> E) L" by (intro filter_cong) auto
    have "insert_at x (filter (\<lambda>z. fst z \<in> E) L) = x # filter (\<lambda>z. fst z \<in> E) L"
    proof (cases "filter (\<lambda>z. fst z \<in> E) L")
      case (Cons z zs)
      then have "z \<in> set (filter (\<lambda>z. fst z \<in> E) L)" by simp
      then have "fst x < fst z" using above by simp
      then show ?thesis using Cons by simp
    qed simp
    then show ?thesis using True rest by auto
  next
    case False
    then have "x \<in> set L" "fst y < fst x" using Cons.prems by auto
    then show ?thesis using Cons.IH Cons.prems(1) by auto
  qed
qed simp

lemma insert_at_split:
  "insert_at x ys = (let b = takeWhile (\<lambda>y. fst y < fst x) ys; i = dropWhile (\<lambda>y. fst y < fst x) ys
     in b @ (if i \<noteq> [] \<and> fst (hd i) = fst x then i else x # i))"
  by (induction ys) (auto simp: Let_def)

lemma insert_at_append: "\<forall>y \<in> set bs. fst y < fst x \<Longrightarrow> insert_at x (bs @ ys) = bs @ insert_at x ys"
  by (induction bs) auto

lemma near_while:
  assumes "\<forall>x \<in> set xs. near (fst x) e"
  shows "takeWhile (\<lambda>p. seqLess (endSequenceNo p) (number iss e)) (map (payload_at iss) xs) = map (payload_at iss) (takeWhile (\<lambda>x. fst x < e) xs)"
    "dropWhile (\<lambda>p. seqLess (endSequenceNo p) (number iss e)) (map (payload_at iss) xs) = map (payload_at iss) (dropWhile (\<lambda>x. fst x < e) xs)"
  using assms number_near(2) by (induction xs) auto

lemma sorted_hd_last: "sorted_wrt (\<lambda>x y. fst x < fst y) xs \<Longrightarrow> xs \<noteq> [] \<Longrightarrow> fst (hd xs) \<le> (fst (last xs) :: nat)"
  by (cases xs) (auto intro: less_imp_le)

lemma payloads_ordered:
  assumes "sorted_wrt (\<lambda>x y. fst x < fst y) xs" "xs \<noteq> []" "\<forall>x \<in> set xs. \<forall>y \<in> set xs. near (fst x) (fst y)"
  shows "seqLE (endSequenceNo (hd (map (payload_at iss) xs))) (endSequenceNo (last (map (payload_at iss) xs)))"
proof -
  have "near (fst (hd xs)) (fst (last xs))" using assms(2,3) by simp
  then show ?thesis using sorted_hd_last [OF assms(1,2)] assms(2) by (simp add: hd_map last_map number_near(1))
qed

lemma mrq_store_loop_at:
  assumes "near_all (map fst (before @ i @ ps))" "sorted_wrt (\<lambda>x y. fst x < fst y) (before @ i)"
    "sorted_wrt (\<lambda>x y. fst x < fst y) ps" "\<forall>x \<in> set before. \<forall>p \<in> set ps. fst x < fst p"
  shows "mrq_store_loop (map (payload_at iss) before) (map (payload_at iss) i) (map (payload_at iss) ps)
    = Inr (map (payload_at iss) (fold insert_at ps (before @ i)))"
  using assms
proof (induction ps arbitrary: before i)
  case (Cons p ps)
  let ?b = "takeWhile (\<lambda>x. fst x < fst p) i" and ?i = "dropWhile (\<lambda>x. fst x < fst p) i"
  let ?x = "if ?i \<noteq> [] \<and> fst (hd ?i) = fst p then ?i else p # ?i"
  have near: "\<forall>x \<in> set (before @ i @ p # ps). \<forall>y \<in> set (before @ i @ p # ps). near (fst x) (fst y)"
    using Cons.prems(1) unfolding near_all_def by (simp only: set_map ball_simps)
  then have near': "\<forall>x \<in> set (before @ i @ [p]). \<forall>y \<in> set (before @ i @ [p]). near (fst x) (fst y)" by auto
  have ins: "insert_at p (before @ i) = (before @ ?b) @ ?x"
    using insert_at_append [of before p i] insert_at_split [of p i] Cons.prems(4) by (simp add: Let_def)
  have sorted: "sorted_wrt (\<lambda>x y. fst x < fst y) ((before @ ?b) @ ?x)"
    unfolding ins [symmetric] by (rule sorted_insert_at [OF Cons.prems(2)])
  have sub: "set ((before @ ?b) @ ?x) \<subseteq> set (before @ i @ [p])" using set_insert_at [of p "before @ i"] unfolding ins by auto
  have IH: "mrq_store_loop (map (payload_at iss) (before @ ?b)) (map (payload_at iss) ?x) (map (payload_at iss) ps)
      = Inr (map (payload_at iss) (fold insert_at ps ((before @ ?b) @ ?x)))"
  proof (rule Cons.IH [OF _ sorted])
    have "set ((before @ ?b) @ ?x @ ps) = set ((before @ ?b) @ ?x) \<union> set ps"
      by (simp only: set_append Un_assoc)
    also have "\<dots> \<subseteq> set (before @ i @ [p]) \<union> set ps" by (intro Un_mono sub order_refl)
    also have "\<dots> = set (before @ i @ p # ps)" by auto
    finally show "near_all (map fst ((before @ ?b) @ ?x @ ps))"
      unfolding near_all_def set_map ball_simps using near by blast
    show "sorted_wrt (\<lambda>x y. fst x < fst y) ps" using Cons.prems(3) by simp
    show "\<forall>x \<in> set (before @ ?b). \<forall>q \<in> set ps. fst x < fst q"
      using Cons.prems(3,4) by (auto dest!: set_takeWhileD intro: less_trans)
  qed
  have "\<forall>x \<in> set i. near (fst x) (fst p)" using near by simp
  note while = near_while [OF this, of iss]
  have same: "endSequenceNo (hd (map (payload_at iss) ?i)) = number iss (fst p) \<longleftrightarrow> fst (hd ?i) = fst p" if "?i \<noteq> []"
  proof -
    have "hd ?i \<in> set i" using that by (metis hd_in_set set_dropWhileD)
    then have "near (fst (hd ?i)) (fst p)" using near by simp
    then show ?thesis using that by (simp add: hd_map number_near(3))
  qed
  have assertion: "seqLE (endSequenceNo (hd (map (payload_at iss) ((before @ ?b) @ ?x)))) (endSequenceNo (last (map (payload_at iss) ((before @ ?b) @ ?x))))"
  proof (rule payloads_ordered [OF sorted])
    show "\<forall>x \<in> set ((before @ ?b) @ ?x). \<forall>y \<in> set ((before @ ?b) @ ?x). near (fst x) (fst y)"
      using near' sub by blast
  qed simp
  define b i' where "b = ?b" and "i' = ?i"
  note facts = while [folded b_def i'_def] same [folded i'_def] assertion [folded b_def i'_def] IH [folded b_def i'_def]
    ins [folded b_def i'_def]
  show ?case
  proof (cases "i' \<noteq> [] \<and> fst (hd i') = fst p")
    case True
    then have "i' \<noteq> []" "endSequenceNo (hd (map (payload_at iss) i')) = number iss (fst p)" using facts(3) by simp_all
    then show ?thesis using facts(1,2,5,6) True by (simp add: Let_def)
  next
    case False
    then have "\<not> (map (payload_at iss) i' \<noteq> [] \<and> endSequenceNo (hd (map (payload_at iss) i')) = number iss (fst p))"
      using facts(3) by auto
    then show ?thesis using facts(1,2,4-6) unfolding if_not_P [OF False] by (auto simp: Let_def)
  qed
qed simp

lemma fold_insert_filter:
  assumes "sorted_wrt (\<lambda>x y. fst x < fst y) L" "set xs \<subseteq> set L"
  shows "fold insert_at xs (filter (\<lambda>y. fst y \<in> E) L) = filter (\<lambda>y. fst y \<in> E \<union> fst ` set xs) L"
  using assms(2)
proof (induction xs arbitrary: E)
  case (Cons x xs)
  then show ?case using insert_at_filter [OF assms(1), of x E] Cons.IH [of "insert (fst x) E"] by simp
qed simp

lemma insert_messages:
  assumes "list_all (\<lambda>m. 0 < pk_length m) ms"
  shows "fold insert_at (messages_in F ms) (messages_in E ms) = messages_in (E \<union> F) ms"
proof -
  have "fold insert_at (messages_in F ms) (messages_in E ms) = filter (\<lambda>y. fst y \<in> E \<union> fst ` set (messages_in F ms)) (ended 0 ms)"
    unfolding messages_in_def [of E] by (intro fold_insert_filter ended_sorted assms) (auto simp: messages_in_def)
  also have "\<dots> = messages_in (E \<union> F) ms"
    unfolding messages_in_def by (intro filter_cong) auto
  finally show ?thesis .
qed

lemma sorted_messages_in:
  "list_all (\<lambda>m. 0 < pk_length m) ms \<Longrightarrow> sorted_wrt (\<lambda>x y. fst x < fst y) (messages_in E ms)"
  unfolding messages_in_def by (intro sorted_wrt_filter ended_sorted)

section \<open>The stream behind the queue\<close>

text \<open>A message is in the list when its last byte has arrived and was not read.\<close>

definition mrq_rel :: "seq \<Rightarrow> app_packet list \<Rightarrow> msg_rcvq \<Rightarrow> nat \<times> nat set \<Rightarrow> bool" where
  "mrq_rel iss ms q = (\<lambda>(d, S). rcv_rel iss (mrq_base q) (d, S) \<and> list_all (\<lambda>m. 0 < pk_length m) ms
     \<and> mrq_payloadList q = map (payload_at iss) (messages_in (Suc ` S) ms))"

text \<open>The segment that \<open>msq_createSegmentWithBytes\<close> makes of the bytes \<open>[f, t)\<close>.\<close>

definition message_segment :: "seq \<Rightarrow> app_packet list \<Rightarrow> nat \<Rightarrow> nat \<Rightarrow> tcp_segment" where
  "message_segment iss ms f t = new_segment\<lparr>sequenceNo := number iss f, payloadLength := of_nat (t - f),
     payloadList := map (payload_at iss) (messages_between f t ms)\<rparr>"

lemma mrq_insert_refines:
  assumes rel: "mrq_rel iss ms q (d, S)" and seg: "next_missing d S \<le> f" "f < t" "t \<le> d + window"
  shows "\<exists>q'. mrq_insertBytesFromSegment debug (message_segment iss ms f t) q = Inr (rcv_nxt (mrq_base q'), q')
    \<and> mrq_rel iss ms q' (d, S \<union> {f..<t})"
proof -
  have r: "rcv_rel iss (mrq_base q) (d, S)" "list_all (\<lambda>m. 0 < pk_length m) ms"
    "mrq_payloadList q = map (payload_at iss) (messages_in (Suc ` S) ms)" "S \<subseteq> {d..<d + window}"
    using rel by (auto simp: mrq_rel_def rcv_rel_def)
  obtain b where b: "insertBytesFromSegment debug (number iss f) (of_nat (t - f)) (mrq_base q) = Inr (rcv_nxt b, b)"
    "rcv_rel iss b (d, S \<union> {f..<t})"
    using insert_refines [OF r(1) seg, of debug] by blast
  have df: "d \<le> f" by (rule le_trans [OF next_missing_in_window(1) [OF r(4)] seg(1)])
  have "{f<..t} = Suc ` {f..<t}" by (auto simp: image_Suc_atLeastLessThan)
  then have sets: "Suc ` S \<union> {f<..t} = Suc ` (S \<union> {f..<t})" by (simp only: image_Un)
  have "d \<le> fst x \<and> fst x \<le> d + window" if "x \<in> set (messages_in (Suc ` S) ms @ messages_between f t ms)" for x
    using that r(4) df seg(3) by (auto simp: messages_in_def messages_between_def)
  then have "near_all (map fst ([] @ messages_in (Suc ` S) ms @ messages_between f t ms))"
    unfolding near_all_def append_Nil set_map ball_simps by (blast intro: near_in_window [of d])
  then have "mrq_store_loop [] (mrq_payloadList q) (map (payload_at iss) (messages_between f t ms))
      = Inr (map (payload_at iss) (messages_in (Suc ` (S \<union> {f..<t})) ms))"
    using mrq_store_loop_at [of "[]" "messages_in (Suc ` S) ms" "messages_between f t ms" iss]
      sorted_messages_in [OF r(2)] insert_messages [OF r(2), of "{f<..t}" "Suc ` S"]
    unfolding r(3) messages_in_between sets by simp
  then show ?thesis using b r(2)
    by (auto simp: mrq_insertBytesFromSegment_def message_segment_def mrq_rel_def new_segment_def)
qed

text \<open>How far a call of \<open>extractBytesUpTo\<close> reads: not over the end of the first message.\<close>

definition read_to :: "app_packet list \<Rightarrow> nat set \<Rightarrow> nat \<Rightarrow> nat" where
  "read_to ms S s = (case messages_in (Suc ` S) ms of [] \<Rightarrow> s | x # _ \<Rightarrow> min (fst x) s)"

lemma extractTo_region:
  assumes "extractTo s q = Inr (Some r, q')"
  shows "rr_begin r = rr_begin (hd (regionList q)) \<and> regionList q \<noteq> []"
  using assms by (auto simp: extractTo_def rr_split_def split: list.splits if_splits)

lemma extractTo_refines:
  assumes rel: "rcv_rel iss q (d, S)" and s: "d \<le> s" "s \<le> next_missing d S"
  shows "\<exists>q'. extractTo (number iss s) q = Inr (if d < s then Some (region_at iss (d, s)) else None, q')
    \<and> rcv_rel iss q' (s, S - {..<s})"
proof -
  obtain q' where q': "extractBytesUpTo (number iss s) q = Inr (if d < s then Some (s - d) else None, q')"
    "rcv_rel iss q' (s, S - {..<s})"
    using extract_refines [OF rel s] by blast
  obtain reg where reg: "extractTo (number iss s) q = Inr (reg, q')"
    "map_option rr_length reg = (if d < s then Some (s - d) else None)"
    using q'(1) by (auto simp: extractBytesUpTo_def bind_result_Inr_iff)
  have "reg = Some (region_at iss (d, s))" if "d < s"
  proof -
    obtain r where r: "reg = Some r" "rr_length r = s - d" using reg(2) \<open>d < s\<close> by auto
    obtain ivs where ivs: "regionList q = map (region_at iss) ivs" "gapped ivs" "positions ivs = S" "S \<subseteq> {d..<d + window}"
      using rel by (auto simp: rcv_rel_def)
    note front = extractTo_region [OF reg(1) [unfolded r(1)]]
    obtain k l rest where kl: "ivs = (k, l) # rest" using front ivs(1) by (cases ivs) auto
    have "positions ((k, l) # rest) \<subseteq> {d..}" using ivs(3,4) kl by auto
    then have "k = d" using next_missing_front(1) [of k l rest d] ivs(2,3) kl s \<open>d < s\<close> by (simp split: if_splits)
    then have "rr_begin r = number iss d" using front ivs(1) kl by simp
    moreover have "rr_end r = rr_begin r + of_nat (rr_length r)" by (simp add: rr_length_def)
    ultimately have "rr_end r = number iss s" using r(2) s(1) by (simp del: of_nat_diff)
    then show ?thesis using r(1) \<open>rr_begin r = number iss d\<close> by (simp add: region_at_def)
  qed
  then show ?thesis using reg q'(2) by (cases "d < s") auto
qed

text \<open>The messages up to a position, in the order of the stream.\<close>

lemma messages_upto:
  assumes "list_all (\<lambda>m. 0 < pk_length m) ms"
  shows "\<exists>n. map snd (messages_in {..d} ms) = take n ms \<and> stream_length pk_length (take n ms) \<le> d
    \<and> (n < length ms \<longrightarrow> d < stream_length pk_length (take (Suc n) ms))"
proof -
  have "\<exists>n. map snd (filter (\<lambda>x. fst x \<le> d) (ended k ms)) = take n ms \<and> k + stream_length pk_length (take n ms) \<le> d
      \<and> (n < length ms \<longrightarrow> d < k + stream_length pk_length (take (Suc n) ms))" if "k \<le> d" for k
    using assms that
  proof (induction ms arbitrary: k)
    case (Cons m ms)
    show ?case
    proof (cases "k + pk_length m \<le> d")
      case True
      then obtain n where "map snd (filter (\<lambda>x. fst x \<le> d) (ended (k + pk_length m) ms)) = take n ms"
        "k + pk_length m + stream_length pk_length (take n ms) \<le> d"
        "n < length ms \<longrightarrow> d < k + pk_length m + stream_length pk_length (take (Suc n) ms)"
        using Cons.IH [of "k + pk_length m"] Cons.prems(1) by auto
      then show ?thesis using True by (intro exI [of _ "Suc n"]) (simp add: add.assoc)
    next
      case False
      then have "filter (\<lambda>x. fst x \<le> d) (ended k (m # ms)) = []"
        using ended_sorted(2) [of ms _ "k + pk_length m"] Cons.prems(1) by (fastforce simp: filter_empty_conv)
      then show ?thesis using False Cons.prems(2) by (intro exI [of _ 0]) simp
    qed
  qed simp
  from this [of 0] show ?thesis by (simp add: messages_in_def)
qed

lemma read_to_bounds:
  assumes "S \<subseteq> {d..}" "d \<le> s"
  shows "d \<le> read_to ms S s" "read_to ms S s \<le> s"
proof -
  show "read_to ms S s \<le> s" by (simp add: read_to_def split: list.splits)
  have "d \<le> fst x" if "x \<in> set (messages_in (Suc ` S) ms)" for x
    using that assms(1) by (auto simp: messages_in_def)
  then show "d \<le> read_to ms S s" using assms(2) by (cases "messages_in (Suc ` S) ms") (auto simp: read_to_def)
qed

text \<open>The messages of the list after reading to \<open>s\<close>, which is not beyond the end of the first one.\<close>

lemma messages_after_read:
  assumes pos: "list_all (\<lambda>m. 0 < pk_length m) ms" and S: "{d..<s} \<subseteq> S" "S \<subseteq> {d..}" "d \<le> s"
    and first: "\<forall>x \<in> set (messages_in (Suc ` S) ms). s \<le> fst x"
  shows "messages_in (Suc ` (S - {..<s})) ms
      = (case messages_in (Suc ` S) ms of [] \<Rightarrow> [] | x # xs \<Rightarrow> if fst x = s then xs else x # xs)"
    "messages_in {..s} ms = messages_in {..d} ms
      @ (case messages_in (Suc ` S) ms of [] \<Rightarrow> [] | x # xs \<Rightarrow> if fst x = s then [x] else [])"
proof -
  let ?M = "messages_in (Suc ` S) ms"
  have sorted: "sorted_wrt (\<lambda>x y. fst x < fst y) ?M" by (rule sorted_messages_in [OF pos])
  have "n \<in> Suc ` (S - {..<s}) \<longleftrightarrow> n \<in> Suc ` S \<and> s < n" for n by auto
  then have after: "messages_in (Suc ` (S - {..<s})) ms = filter (\<lambda>x. s < fst x) ?M"
    unfolding messages_in_def filter_filter by (simp add: conj_commute)
  show "messages_in (Suc ` (S - {..<s})) ms = (case ?M of [] \<Rightarrow> [] | x # xs \<Rightarrow> if fst x = s then xs else x # xs)"
  proof (cases ?M)
    case (Cons x xs)
    then have "s \<le> fst x" "\<forall>y \<in> set xs. fst x < fst y" using sorted first by auto
    then have "filter (\<lambda>x. s < fst x) xs = xs" by (auto intro!: filter_True)
    then show ?thesis using after Cons \<open>s \<le> fst x\<close> by auto
  qed (simp add: after)
  have split: "filter (\<lambda>x. fst x \<le> s) L = filter (\<lambda>x. fst x \<le> d) L @ filter (\<lambda>x. d < fst x \<and> fst x \<le> s) L"
    if "sorted_wrt (\<lambda>x y. fst x < fst y) L" for L :: "(nat \<times> app_packet) list"
    using that
  proof (induction L)
    case (Cons x L)
    moreover have "filter (\<lambda>y. fst y \<le> d) L = []" if "\<not> fst x \<le> d"
      using that Cons.prems by (fastforce simp: filter_empty_conv)
    ultimately show ?case using S(3) by (cases "fst x \<le> d") auto
  qed simp
  have "d < fst x \<and> fst x \<le> s \<longleftrightarrow> fst x \<in> Suc ` S \<and> fst x = s" if "x \<in> set (ended 0 ms)" for x
  proof
    assume x: "d < fst x \<and> fst x \<le> s"
    then have "fst x - 1 \<in> {d..<s}" by auto
    then have "fst x - 1 \<in> S" using S(1) by blast
    then have E: "fst x \<in> Suc ` S" using x by (metis Suc_diff_1 gr_implies_not0 image_eqI not_gr_zero)
    with that have "x \<in> set ?M" by (simp add: messages_in_def)
    with E x first show "fst x \<in> Suc ` S \<and> fst x = s" by force
  qed (use S(2) in auto)
  then have "filter (\<lambda>x. d < fst x \<and> fst x \<le> s) (ended 0 ms) = filter (\<lambda>x. fst x = s) ?M"
    unfolding messages_in_def filter_filter by (intro filter_cong refl) auto
  also have "\<dots> = (case ?M of [] \<Rightarrow> [] | x # xs \<Rightarrow> if fst x = s then [x] else [])"
  proof (cases ?M)
    case (Cons x xs)
    then have "s \<le> fst x" "\<forall>y \<in> set xs. fst x < fst y" using sorted first by auto
    then have "filter (\<lambda>x. fst x = s) xs = []" by (auto simp: filter_empty_conv)
    then show ?thesis using Cons by auto
  qed simp
  finally show "messages_in {..s} ms = messages_in {..d} ms
      @ (case ?M of [] \<Rightarrow> [] | x # xs \<Rightarrow> if fst x = s then [x] else [])"
    using split [OF ended_sorted(1) [OF pos, of 0]] by (simp add: messages_in_def)
qed

lemma mrq_extract_refines:
  assumes rel: "mrq_rel iss ms q (d, S)" and s: "d \<le> s" "s \<le> next_missing d S"
  defines "e \<equiv> read_to ms S s"
  shows "\<exists>m q'. mrq_extractBytesUpTo (number iss s) q = Inr (m, q') \<and> mrq_rel iss ms q' (e, S - {..<e})
    \<and> messages_in {..e} ms = messages_in {..d} ms @ (case m of None \<Rightarrow> [] | Some m \<Rightarrow> [(e, m)])"
proof -
  let ?M = "messages_in (Suc ` S) ms"
  have r: "rcv_rel iss (mrq_base q) (d, S)" and pos: "list_all (\<lambda>m. 0 < pk_length m) ms"
    and list: "mrq_payloadList q = map (payload_at iss) ?M" and S: "S \<subseteq> {d..<d + window}"
    using rel by (auto simp: mrq_rel_def rcv_rel_def)
  have above: "S \<subseteq> {d..}" using S by auto
  note n = next_missing_in_window [OF S] and e = read_to_bounds [OF above s(1), of ms, folded e_def]
  have es: "d \<le> e" "e \<le> next_missing d S" "e \<le> d + window" using e s n by simp_all
  have arrived: "{d..<e} \<subseteq> S" using n(4) es(2) by auto
  have in_window: "d < fst x \<and> fst x \<le> d + window" if "x \<in> set ?M" for x
    using that S by (auto simp: messages_in_def)
  have first: "\<forall>x \<in> set ?M. e \<le> fst x"
    using sorted_messages_in [OF pos, of "Suc ` S"] unfolding e_def read_to_def by (cases ?M) auto
  note after = messages_after_read [OF pos arrived above es(1) first]
  have clamp: "(case mrq_payloadList q of [] \<Rightarrow> number iss s
      | p # _ \<Rightarrow> if seqLess (endSequenceNo p) (number iss s) then endSequenceNo p else number iss s) = number iss e"
  proof (cases ?M)
    case (Cons x xs)
    then have "seqLess (number iss (fst x)) (number iss s) \<longleftrightarrow> fst x < s"
      using in_window [of x] s n by (intro seqLE_in_window(2) [of d]) auto
    then show ?thesis unfolding list e_def read_to_def Cons by (simp add: min_def)
  qed (simp add: list e_def read_to_def)
  obtain b where b: "extractTo (number iss e) (mrq_base q) = Inr (if d < e then Some (region_at iss (d, e)) else None, b)"
    "rcv_rel iss b (e, S - {..<e})"
    using extractTo_refines [OF r es(1,2)] by blast
  have hit: "endSequenceNo (payload_at iss x) = number iss e \<longleftrightarrow> fst x = e" if "x \<in> set ?M" for x
    using in_window [OF that] es by (simp add: number_near(3) near_in_window [of d])
  show ?thesis
  proof (cases "d < e")
    case False
    then have "e = d" using es(1) by simp
    moreover from this have "S - {..<e} = S" using above by auto
    ultimately have "mrq_rel iss ms (q\<lparr>mrq_base := b\<rparr>) (e, S - {..<e})" using b(2) pos list by (simp add: mrq_rel_def)
    moreover have "mrq_extractBytesUpTo (number iss s) q = Inr (None, q\<lparr>mrq_base := b\<rparr>)"
      using b(1) False unfolding mrq_extractBytesUpTo_def clamp Let_def by simp
    ultimately show ?thesis using \<open>e = d\<close> by (intro exI [of _ None]) auto
  next
    case True
    show ?thesis
    proof (cases ?M)
      case Nil
      then have "mrq_extractBytesUpTo (number iss s) q = Inr (None, q\<lparr>mrq_base := b\<rparr>)"
        using b(1) True list unfolding mrq_extractBytesUpTo_def clamp Let_def by simp
      then show ?thesis using after Nil b(2) pos list by (auto simp: mrq_rel_def)
    next
      case (Cons x xs)
      then have "x \<in> set ?M" by simp
      note hit = hit [OF this]
      show ?thesis
      proof (cases "fst x = e")
        case hd: True
        have "mrq_extractBytesUpTo (number iss s) q = Inr (Some (snd x), q\<lparr>mrq_base := b, mrq_payloadList := map (payload_at iss) xs\<rparr>)"
          using b(1) True list Cons hit hd unfolding mrq_extractBytesUpTo_def clamp Let_def by simp
        then show ?thesis using after Cons b(2) pos hd by (auto simp: mrq_rel_def)
      next
        case hd: False
        have "mrq_extractBytesUpTo (number iss s) q = Inr (None, q\<lparr>mrq_base := b\<rparr>)"
          using b(1) True list Cons hit hd unfolding mrq_extractBytesUpTo_def clamp Let_def by simp
        then show ?thesis using after Cons b(2) pos list hd by (auto simp: mrq_rel_def)
      qed
    qed
  qed
qed

section \<open>Runs\<close>

text \<open>
  The segments that arrive carry the messages that end in them; the second component of the state
  collects the messages handed to the application.
\<close>

datatype msg_call = MsgSegment nat nat | MsgRead nat

fun mrq_exec :: "bool \<Rightarrow> seq \<Rightarrow> app_packet list \<Rightarrow> msg_call \<Rightarrow> msg_rcvq \<times> app_packet list \<Rightarrow> sim_error + msg_rcvq \<times> app_packet list" where
  "mrq_exec debug iss ms (MsgSegment f len) (q, out) =
     bind_result (mrq_insertBytesFromSegment debug (message_segment iss ms f (f + len)) q) (\<lambda>(nxt, q'). Inr (q', out))"
| "mrq_exec debug iss ms (MsgRead s) (q, out) =
     bind_result (mrq_extractBytesUpTo (number iss s) q) (\<lambda>(m, q').
       Inr (q', out @ (case m of None \<Rightarrow> [] | Some m \<Rightarrow> [m])))"

fun mrq_legal :: "nat \<times> nat set \<Rightarrow> msg_call \<Rightarrow> bool" where
  "mrq_legal (d, S) (MsgSegment f len) \<longleftrightarrow> next_missing d S \<le> f \<and> 0 < len \<and> f + len \<le> d + window"
| "mrq_legal (d, S) (MsgRead s) \<longleftrightarrow> d \<le> s \<and> s \<le> next_missing d S"

fun mrq_spec :: "app_packet list \<Rightarrow> msg_call \<Rightarrow> nat \<times> nat set \<Rightarrow> nat \<times> nat set" where
  "mrq_spec ms (MsgSegment f len) (d, S) = (d, S \<union> {f..<f + len})"
| "mrq_spec ms (MsgRead s) (d, S) = (read_to ms S s, S - {..<read_to ms S s})"

interpretation mrq: forward_simulation "mrq_exec debug iss ms"
  "\<lambda>(q, out) (d, S). mrq_rel iss ms q (d, S) \<and> out = map snd (messages_in {..d} ms)" mrq_legal "mrq_spec ms" for debug iss ms
proof (unfold_locales, goal_cases)
  case (1 s a call)
  obtain q out d S where s: "s = (q, out)" "a = (d, S)" by (cases s, cases a)
  show ?case
  proof (cases call)
    case (MsgSegment f len)
    then show ?thesis using 1 mrq_insert_refines [of iss ms q d S f "f + len" debug] by (auto simp: s)
  next
    case (MsgRead p)
    then show ?thesis using 1 mrq_extract_refines [of iss ms q d S p] by (fastforce simp: s split: option.splits)
  qed
qed

lemma mrq_rel_init:
  assumes "list_all (\<lambda>m. 0 < pk_length m) ms"
  shows "mrq_rel iss ms (mrq_init iss mrq_new) (0, {})" "map snd (messages_in {..0} ms) = []"
proof -
  show "mrq_rel iss ms (mrq_init iss mrq_new) (0, {})"
    using assms rcv_rel_init by (simp add: mrq_rel_def mrq_init_def mrq_new_def messages_in_def)
  show "map snd (messages_in {..0} ms) = []"
    using ended_sorted(2) [OF assms, where k = 0] by (auto simp: messages_in_def filter_empty_conv)
qed

section \<open>Properties\<close>

text \<open>
  C23: messages are delivered once and in order.  Whatever segments of a stream of messages arrive (in
  any order, overlapping, repeated above the next expected byte, within a window of \<open>2^30\<close> bytes) and
  however the application reads, no operation of the queue fails, and the messages handed over are the
  first ones of the stream: exactly those of which the last byte was read.
\<close>

theorem messages_delivered_in_order:
  assumes "list_all (\<lambda>m. 0 < pk_length m) ms" "legal_run mrq_legal (mrq_spec ms) calls (0, {})"
  shows "\<exists>q out n. run_result (mrq_exec debug iss ms) calls (mrq_init iss mrq_new, []) = Inr (q, out)
    \<and> out = take n ms
    \<and> stream_length pk_length (take n ms) \<le> fst (fold (mrq_spec ms) calls (0, {}))
    \<and> (n < length ms \<longrightarrow> fst (fold (mrq_spec ms) calls (0, {})) < stream_length pk_length (take (Suc n) ms))"
proof -
  obtain q out d S where run: "run_result (mrq_exec debug iss ms) calls (mrq_init iss mrq_new, []) = Inr (q, out)"
    "fold (mrq_spec ms) calls (0, {}) = (d, S)" "out = map snd (messages_in {..d} ms)"
    using mrq.run_step [where s = "(mrq_init iss mrq_new, [])" and a = "(0, {})" and ops = calls and iss = iss and ms = ms and debug = debug]
      assms(2) mrq_rel_init(1) [OF assms(1), of iss] mrq_rel_init(2) [OF assms(1)] by auto
  then show ?thesis using messages_upto [OF assms(1), of d] by auto
qed

text \<open>Three messages of three bytes; the second segment has the ends of two of them and arrives first, twice.\<close>

theorem messages_delivered_in_order_witness:
  "\<exists>q. run_result (mrq_exec True 4294967290 (map (\<lambda>i. \<lparr>pk_id = i, pk_length = 3\<rparr>) [0, 1, 2]))
      [MsgSegment 4 5, MsgSegment 4 5, MsgSegment 0 4, MsgRead 9, MsgRead 9] (mrq_init 4294967290 mrq_new, [])
    = Inr (q, [\<lparr>pk_id = 0, pk_length = 3\<rparr>, \<lparr>pk_id = 1, pk_length = 3\<rparr>])"
proof -
  let ?ms = "map (\<lambda>i. \<lparr>pk_id = i, pk_length = 3\<rparr>) [0, 1, 2]"
    and ?calls = "[MsgSegment 4 5, MsgSegment 4 5, MsgSegment 0 4, MsgRead 9, MsgRead 9]"
  have nm: "next_missing 0 {} = 0" "next_missing 0 {4..<9} = 0" "next_missing 0 {0..<9} = 9" "next_missing 3 {3..<9} = 9"
    by (intro next_missing_eq; auto)+
  have sets: "{4..<9} \<union> {0..<4} = {0..<(9::nat)}" "{0..<9} - {..<3} = {3..<(9::nat)}" by auto
  have ends: "messages_in (Suc ` {0..<9}) ?ms = ended 0 ?ms" "messages_in (Suc ` {3..<9}) ?ms = tl (ended 0 ?ms)"
    by (simp_all add: messages_in_def image_Suc_atLeastLessThan)
  have reads: "read_to ?ms {0..<9} 9 = 3" "read_to ?ms {3..<9} 9 = 6" unfolding read_to_def ends by simp_all
  have spec: "legal_run mrq_legal (mrq_spec ?ms) ?calls (0, {})" "fst (fold (mrq_spec ?ms) ?calls (0, {})) = 6"
    using nm sets reads by (simp_all add: window_def)
  have "list_all (\<lambda>m. 0 < pk_length m) ?ms" by simp
  from messages_delivered_in_order [OF this spec(1), of True 4294967290] obtain q n where
    run: "run_result (mrq_exec True 4294967290 ?ms) ?calls (mrq_init 4294967290 mrq_new, []) = Inr (q, take n ?ms)"
    and n: "stream_length pk_length (take n ?ms) \<le> 6" "n < length ?ms \<Longrightarrow> 6 < stream_length pk_length (take (Suc n) ?ms)"
    unfolding spec(2) by auto
  have "n = 2" using n by (cases n; cases "n - 1"; cases "n - 2") (auto simp: numeral_2_eq_2)
  with run show ?thesis by (simp add: numeral_2_eq_2)
qed

end
