(* ===== verification/TcpConnection.thy ===== *)
theory TcpConnection
  imports TcpSequence
begin

text \<open>
  The state machine of a TCP connection, \<^verbatim>\<open>inet/transportlayer/tcp/TCPConnection*.cc\<close>: the transitions
  and the work done on entering a state, the commands of the application, the four timers of the
  connection and those of its congestion control algorithm, and the control part of segment processing.  What the code finds out by comparing the
  sequence numbers of a segment with its state is an input of the model (\<open>seg_facts\<close>), so that the
  lemmas hold for all of it; the data path is in the theories of the queues.
\<close>

section \<open>States and events\<close>

datatype TcpState = S_INIT | S_CLOSED | S_LISTEN | S_SYN_SENT | S_SYN_RCVD | S_ESTABLISHED | S_CLOSE_WAIT | S_LAST_ACK
  | S_FIN_WAIT_1 | S_FIN_WAIT_2 | S_CLOSING | S_TIME_WAIT

datatype TCPEventCode = E_IGNORE | E_OPEN_ACTIVE | E_OPEN_PASSIVE | E_SEND | E_CLOSE | E_ABORT | E_STATUS
  | E_QUEUE_BYTES_LIMIT | E_READ | E_RCV_DATA | E_RCV_ACK | E_RCV_SYN | E_RCV_SYN_ACK | E_RCV_FIN | E_RCV_FIN_ACK
  | E_RCV_RST | E_RCV_UNEXP_SYN | E_TIMEOUT_2MSL | E_TIMEOUT_CONN_ESTAB | E_TIMEOUT_FIN_WAIT_2

datatype indication = I_DATA | I_URGENT_DATA | I_ESTABLISHED | I_PEER_CLOSED | I_CLOSED | I_CONNECTION_REFUSED
  | I_CONNECTION_RESET | I_TIMED_OUT | I_STATUS | I_SEND_MSG | I_DATA_NOTIFICATION

datatype sent_segment = SYN | SYN_ACK | ACK | FIN | RST

text \<open>A timer of the simulation: deleted, not scheduled, or scheduled.\<close>

datatype timer = NoTimer | Idle | Pending

definition scheduleTimeout :: "timer \<Rightarrow> sim_error + timer" where
  "scheduleTimeout t = (case t of NoTimer \<Rightarrow> Inl (UndefinedBehaviour ''null timer'')
     | Idle \<Rightarrow> Inr Pending | Pending \<Rightarrow> Inl (RuntimeError ''scheduleAt(): message is already scheduled''))"

definition cancelTimer :: "timer \<Rightarrow> sim_error + timer" where
  "cancelTimer t = (if t = NoTimer then Inl (RuntimeError ''cancelEvent(): null message'') else Inr Idle)"

definition cancel_if_set :: "timer \<Rightarrow> timer" where
  "cancel_if_set t = (if t = NoTimer then NoTimer else Idle)"

text \<open>
  \<open>rcv_ahead\<close> is the difference of two counters that should be one: \<^verbatim>\<open>rcv_nxt\<close> of the connection's state
  minus \<^verbatim>\<open>rcv_nxt\<close> of its receive queue.  They start as 0 and -1, a SYN sets both, data makes them equal,
  and a FIN moves the first one only.
\<close>

record tcp_conn =
  fsm :: TcpState
  active :: bool
  fork :: bool
  remote_set :: bool
  send_fin :: bool
  the2MSLTimer :: timer
  connEstabTimer :: timer
  finWait2Timer :: timer
  synRexmitTimer :: timer
  syn_rexmit_count :: int
  syn_rexmit_timeout :: int
  rcv_ahead :: int
  toApp :: "indication list"
  toIP :: "sent_segment list"

definition conn_new :: tcp_conn where
  "conn_new = \<lparr>fsm = S_INIT, active = False, fork = False, remote_set = False, send_fin = False,
     the2MSLTimer = Idle, connEstabTimer = Idle, finWait2Timer = Idle, synRexmitTimer = Idle,
     syn_rexmit_count = 0, syn_rexmit_timeout = 0, rcv_ahead = 1, toApp = [], toIP = []\<rparr>"

definition sendIndicationToApp :: "indication \<Rightarrow> tcp_conn \<Rightarrow> tcp_conn" where
  "sendIndicationToApp i c = c\<lparr>toApp := toApp c @ [i]\<rparr>"

definition sendToIP :: "sent_segment \<Rightarrow> tcp_conn \<Rightarrow> tcp_conn" where
  "sendToIP g c = c\<lparr>toIP := toIP c @ [g]\<rparr>"

section \<open>Transitions\<close>

definition from_INIT :: "TCPEventCode \<Rightarrow> TcpState" where
  "from_INIT ev = (case ev of E_OPEN_PASSIVE \<Rightarrow> S_LISTEN | E_OPEN_ACTIVE \<Rightarrow> S_SYN_SENT | _ \<Rightarrow> S_INIT)"

definition from_LISTEN :: "TCPEventCode \<Rightarrow> TcpState" where
  "from_LISTEN ev = (case ev of E_OPEN_ACTIVE \<Rightarrow> S_SYN_SENT | E_SEND \<Rightarrow> S_SYN_SENT | E_CLOSE \<Rightarrow> S_CLOSED
     | E_ABORT \<Rightarrow> S_CLOSED | E_RCV_SYN \<Rightarrow> S_SYN_RCVD | _ \<Rightarrow> S_LISTEN)"

definition from_SYN_RCVD :: "bool \<Rightarrow> TCPEventCode \<Rightarrow> TcpState" where
  "from_SYN_RCVD act ev = (case ev of E_CLOSE \<Rightarrow> S_FIN_WAIT_1 | E_ABORT \<Rightarrow> S_CLOSED
     | E_TIMEOUT_CONN_ESTAB \<Rightarrow> (if act then S_CLOSED else S_LISTEN)
     | E_RCV_RST \<Rightarrow> (if act then S_CLOSED else S_LISTEN)
     | E_RCV_ACK \<Rightarrow> S_ESTABLISHED | E_RCV_FIN \<Rightarrow> S_CLOSE_WAIT | E_RCV_UNEXP_SYN \<Rightarrow> S_CLOSED | _ \<Rightarrow> S_SYN_RCVD)"

definition from_SYN_SENT :: "TCPEventCode \<Rightarrow> TcpState" where
  "from_SYN_SENT ev = (case ev of E_CLOSE \<Rightarrow> S_CLOSED | E_ABORT \<Rightarrow> S_CLOSED | E_TIMEOUT_CONN_ESTAB \<Rightarrow> S_CLOSED
     | E_RCV_RST \<Rightarrow> S_CLOSED | E_RCV_SYN_ACK \<Rightarrow> S_ESTABLISHED | E_RCV_SYN \<Rightarrow> S_SYN_RCVD | _ \<Rightarrow> S_SYN_SENT)"

definition from_ESTABLISHED :: "TCPEventCode \<Rightarrow> TcpState" where
  "from_ESTABLISHED ev = (case ev of E_CLOSE \<Rightarrow> S_FIN_WAIT_1 | E_ABORT \<Rightarrow> S_CLOSED | E_RCV_FIN \<Rightarrow> S_CLOSE_WAIT
     | E_RCV_RST \<Rightarrow> S_CLOSED | E_RCV_UNEXP_SYN \<Rightarrow> S_CLOSED | _ \<Rightarrow> S_ESTABLISHED)"

definition from_CLOSE_WAIT :: "TCPEventCode \<Rightarrow> TcpState" where
  "from_CLOSE_WAIT ev = (case ev of E_CLOSE \<Rightarrow> S_LAST_ACK | E_ABORT \<Rightarrow> S_CLOSED | E_RCV_RST \<Rightarrow> S_CLOSED
     | E_RCV_UNEXP_SYN \<Rightarrow> S_CLOSED | _ \<Rightarrow> S_CLOSE_WAIT)"

definition from_LAST_ACK :: "TCPEventCode \<Rightarrow> TcpState" where
  "from_LAST_ACK ev = (case ev of E_ABORT \<Rightarrow> S_CLOSED | E_RCV_ACK \<Rightarrow> S_CLOSED | E_RCV_RST \<Rightarrow> S_CLOSED
     | E_RCV_UNEXP_SYN \<Rightarrow> S_CLOSED | _ \<Rightarrow> S_LAST_ACK)"

definition from_FIN_WAIT_1 :: "TCPEventCode \<Rightarrow> TcpState" where
  "from_FIN_WAIT_1 ev = (case ev of E_ABORT \<Rightarrow> S_CLOSED | E_RCV_FIN \<Rightarrow> S_CLOSING | E_RCV_ACK \<Rightarrow> S_FIN_WAIT_2
     | E_RCV_FIN_ACK \<Rightarrow> S_TIME_WAIT | E_RCV_RST \<Rightarrow> S_CLOSED | E_RCV_UNEXP_SYN \<Rightarrow> S_CLOSED | _ \<Rightarrow> S_FIN_WAIT_1)"

definition from_FIN_WAIT_2 :: "TCPEventCode \<Rightarrow> TcpState" where
  "from_FIN_WAIT_2 ev = (case ev of E_ABORT \<Rightarrow> S_CLOSED | E_RCV_FIN \<Rightarrow> S_TIME_WAIT | E_TIMEOUT_FIN_WAIT_2 \<Rightarrow> S_CLOSED
     | E_RCV_RST \<Rightarrow> S_CLOSED | E_RCV_UNEXP_SYN \<Rightarrow> S_CLOSED | _ \<Rightarrow> S_FIN_WAIT_2)"

definition from_CLOSING :: "TCPEventCode \<Rightarrow> TcpState" where
  "from_CLOSING ev = (case ev of E_ABORT \<Rightarrow> S_CLOSED | E_RCV_ACK \<Rightarrow> S_TIME_WAIT | E_RCV_RST \<Rightarrow> S_CLOSED
     | E_RCV_UNEXP_SYN \<Rightarrow> S_CLOSED | _ \<Rightarrow> S_CLOSING)"

definition from_TIME_WAIT :: "TCPEventCode \<Rightarrow> TcpState" where
  "from_TIME_WAIT ev = (case ev of E_ABORT \<Rightarrow> S_CLOSED | E_TIMEOUT_2MSL \<Rightarrow> S_CLOSED | E_RCV_RST \<Rightarrow> S_CLOSED
     | E_RCV_UNEXP_SYN \<Rightarrow> S_CLOSED | _ \<Rightarrow> S_TIME_WAIT)"

definition next_state :: "bool \<Rightarrow> TcpState \<Rightarrow> TCPEventCode \<Rightarrow> TcpState" where
  "next_state act s ev = (case s of
     S_INIT \<Rightarrow> from_INIT ev | S_LISTEN \<Rightarrow> from_LISTEN ev | S_SYN_RCVD \<Rightarrow> from_SYN_RCVD act ev
   | S_SYN_SENT \<Rightarrow> from_SYN_SENT ev | S_ESTABLISHED \<Rightarrow> from_ESTABLISHED ev | S_CLOSE_WAIT \<Rightarrow> from_CLOSE_WAIT ev
   | S_LAST_ACK \<Rightarrow> from_LAST_ACK ev | S_FIN_WAIT_1 \<Rightarrow> from_FIN_WAIT_1 ev | S_FIN_WAIT_2 \<Rightarrow> from_FIN_WAIT_2 ev
   | S_CLOSING \<Rightarrow> from_CLOSING ev | S_TIME_WAIT \<Rightarrow> from_TIME_WAIT ev | S_CLOSED \<Rightarrow> S_CLOSED)"

lemmas from_defs = from_INIT_def from_LISTEN_def from_SYN_RCVD_def from_SYN_SENT_def from_ESTABLISHED_def from_CLOSE_WAIT_def
  from_LAST_ACK_def from_FIN_WAIT_1_def from_FIN_WAIT_2_def from_CLOSING_def from_TIME_WAIT_def

text \<open>Entering a state: timers and notifications.\<close>

definition stateEntered :: "TcpState \<Rightarrow> TcpState \<Rightarrow> TCPEventCode \<Rightarrow> tcp_conn \<Rightarrow> sim_error + tcp_conn" where
  "stateEntered s oldState ev c = (case s of
     S_INIT \<Rightarrow> Inr c
   | S_LISTEN \<Rightarrow>
       bind_result (assert_that (connEstabTimer c \<noteq> NoTimer \<and> synRexmitTimer c \<noteq> NoTimer) ''connEstabTimer && synRexmitTimer'') (\<lambda>_.
       Inr (c\<lparr>connEstabTimer := Idle, synRexmitTimer := Idle\<rparr>))
   | S_SYN_RCVD \<Rightarrow> Inr c
   | S_SYN_SENT \<Rightarrow> Inr c
   | S_ESTABLISHED \<Rightarrow>
       bind_result (cancelTimer (connEstabTimer c)) (\<lambda>_.
       bind_result (cancelTimer (synRexmitTimer c)) (\<lambda>_.
       Inr (c\<lparr>connEstabTimer := NoTimer, synRexmitTimer := NoTimer\<rparr>)))
   | S_TIME_WAIT \<Rightarrow> Inr (sendIndicationToApp I_CLOSED c)
   | S_CLOSED \<Rightarrow>
       (let c1 = (if oldState \<noteq> S_TIME_WAIT \<and> ev \<noteq> E_ABORT then sendIndicationToApp I_CLOSED c else c)
        in Inr (c1\<lparr>the2MSLTimer := cancel_if_set (the2MSLTimer c1), connEstabTimer := cancel_if_set (connEstabTimer c1),
                   finWait2Timer := cancel_if_set (finWait2Timer c1), synRexmitTimer := cancel_if_set (synRexmitTimer c1)\<rparr>))
   | _ \<Rightarrow>
       (let c1 = (if s = S_CLOSE_WAIT then sendIndicationToApp I_PEER_CLOSED c else c)
        in Inr (c1\<lparr>connEstabTimer := cancel_if_set (connEstabTimer c1), synRexmitTimer := cancel_if_set (synRexmitTimer c1)\<rparr>)))"

definition performStateTransition :: "TCPEventCode \<Rightarrow> tcp_conn \<Rightarrow> sim_error + tcp_conn" where
  "performStateTransition ev c =
     bind_result (assert_that (fsm c \<noteq> S_CLOSED) ''fsm.getState() != TCP_S_CLOSED'') (\<lambda>_.
     if ev = E_IGNORE then Inr c
     else
       (let oldState = fsm c; c1 = c\<lparr>fsm := next_state (active c) oldState ev\<rparr>
        in if oldState \<noteq> fsm c1 then stateEntered (fsm c1) oldState ev c1 else Inr c1))"

section \<open>Commands of the application\<close>

definition startSynRexmitTimer :: "tcp_conn \<Rightarrow> sim_error + tcp_conn" where
  "startSynRexmitTimer c =
     (if synRexmitTimer c = NoTimer then Inl (UndefinedBehaviour ''null timer'')
      else bind_result (scheduleTimeout Idle) (\<lambda>t.
        Inr (c\<lparr>syn_rexmit_count := 0, syn_rexmit_timeout := 3, synRexmitTimer := t\<rparr>)))"

definition sendSyn :: "tcp_conn \<Rightarrow> sim_error + tcp_conn" where
  "sendSyn c = (if remote_set c then Inr (sendToIP SYN c)
     else Inl (RuntimeError ''Error processing command OPEN_ACTIVE: foreign socket unspecified''))"

text \<open>The common part of an active open: SYN, its timer, and the timer for the whole handshake.\<close>

definition start_handshake :: "tcp_conn \<Rightarrow> sim_error + tcp_conn" where
  "start_handshake c =
     bind_result (sendSyn c) (\<lambda>c. bind_result (startSynRexmitTimer c) (\<lambda>c.
     bind_result (scheduleTimeout (connEstabTimer c)) (\<lambda>t. Inr (c\<lparr>connEstabTimer := t\<rparr>))))"

definition process_OPEN_ACTIVE :: "bool \<Rightarrow> tcp_conn \<Rightarrow> sim_error + tcp_conn" where
  "process_OPEN_ACTIVE remote_given c =
     (if fsm c \<noteq> S_INIT then Inl (RuntimeError ''Error processing command OPEN_ACTIVE: connection already exists'')
      else if \<not> remote_given then Inl (RuntimeError ''remote address and port must be specified'')
      else start_handshake (c\<lparr>active := True, remote_set := True\<rparr>))"

definition process_OPEN_PASSIVE :: "bool \<Rightarrow> bool \<Rightarrow> tcp_conn \<Rightarrow> sim_error + tcp_conn" where
  "process_OPEN_PASSIVE forking port_given c =
     (if fsm c \<noteq> S_INIT then Inl (RuntimeError ''Error processing command OPEN_PASSIVE: connection already exists'')
      else if \<not> port_given then Inl (RuntimeError ''local port must be specified'')
      else Inr (c\<lparr>active := False, fork := forking, remote_set := False\<rparr>))"

text \<open>The data itself goes into the send queue.\<close>

definition process_SEND :: "tcp_conn \<Rightarrow> sim_error + tcp_conn" where
  "process_SEND c = (case fsm c of
     S_INIT \<Rightarrow> Inl (RuntimeError ''Error processing command SEND: connection not open'')
   | S_LISTEN \<Rightarrow> start_handshake (c\<lparr>active := True\<rparr>)
   | S_LAST_ACK \<Rightarrow> Inl (RuntimeError ''Error processing command SEND: connection closing'')
   | S_FIN_WAIT_1 \<Rightarrow> Inl (RuntimeError ''Error processing command SEND: connection closing'')
   | S_FIN_WAIT_2 \<Rightarrow> Inl (RuntimeError ''Error processing command SEND: connection closing'')
   | S_CLOSING \<Rightarrow> Inl (RuntimeError ''Error processing command SEND: connection closing'')
   | S_TIME_WAIT \<Rightarrow> Inl (RuntimeError ''Error processing command SEND: connection closing'')
   | _ \<Rightarrow> Inr c)"

text \<open>\<open>all_sent\<close>: \<^verbatim>\<open>snd_max == sendQueue->getBufferEndSeq()\<close>, nothing waits in the send queue.\<close>

definition process_CLOSE :: "bool \<Rightarrow> tcp_conn \<Rightarrow> sim_error + TCPEventCode \<times> tcp_conn" where
  "process_CLOSE all_sent c =
     (if fsm c = S_INIT then Inl (RuntimeError ''Error processing command CLOSE: connection not open'')
      else if fsm c \<in> {S_SYN_RCVD, S_ESTABLISHED, S_CLOSE_WAIT} then
        (if all_sent then Inr (E_CLOSE, (sendToIP FIN c)\<lparr>send_fin := True\<rparr>)
         else Inr (E_IGNORE, c\<lparr>send_fin := True\<rparr>))
      else if fsm c \<in> {S_FIN_WAIT_1, S_FIN_WAIT_2, S_CLOSING, S_LAST_ACK, S_TIME_WAIT} then
        Inl (RuntimeError ''Duplicate CLOSE command: connection already closing'')
      else Inr (E_CLOSE, c))"

definition process_ABORT :: "tcp_conn \<Rightarrow> sim_error + tcp_conn" where
  "process_ABORT c =
     (if fsm c = S_INIT then Inl (RuntimeError ''Error processing command ABORT: connection not open'')
      else if fsm c \<in> {S_SYN_RCVD, S_ESTABLISHED, S_FIN_WAIT_1, S_FIN_WAIT_2, S_CLOSE_WAIT} then Inr (sendToIP RST c)
      else Inr c)"

definition process_STATUS :: "tcp_conn \<Rightarrow> sim_error + tcp_conn" where
  "process_STATUS c =
     (if fsm c = S_INIT then Inl (RuntimeError ''Error processing command STATUS: connection not open'')
      else Inr (sendIndicationToApp I_STATUS c))"

text \<open>
  Reading takes out what the receive queue has up to \<^verbatim>\<open>rcv_nxt\<close> of the connection; the extraction asserts that
  the queue has come that far (\<^verbatim>\<open>TCPVirtualDataRcvQueue::extractTo\<close>, also when there is nothing to take out).
  The loop ends with such a call; a queue of messages makes it when it has given out what it has.  The data that is
  taken out belongs to the theories of the queues.
\<close>

definition process_READ_REQUEST :: "tcp_conn \<Rightarrow> sim_error + tcp_conn" where
  "process_READ_REQUEST c =
     (if fsm c = S_INIT then Inl (UndefinedBehaviour ''no receive queue'')
      else bind_result (assert_that (rcv_ahead c \<le> 0) ''seqLE(seq, rcv_nxt)'') (\<lambda>_. Inr c))"

datatype app_command = OpenActive bool | OpenPassive bool bool | Send | Close bool | Abort | Status | QueueBytesLimit | ReadRequest

fun processAppCommand :: "app_command \<Rightarrow> tcp_conn \<Rightarrow> sim_error + tcp_conn" where
  "processAppCommand (OpenActive remote_given) c =
     bind_result (process_OPEN_ACTIVE remote_given c) (performStateTransition E_OPEN_ACTIVE)"
| "processAppCommand (OpenPassive forking port_given) c =
     bind_result (process_OPEN_PASSIVE forking port_given c) (performStateTransition E_OPEN_PASSIVE)"
| "processAppCommand Send c = bind_result (process_SEND c) (performStateTransition E_SEND)"
| "processAppCommand (Close all_sent) c =
     bind_result (process_CLOSE all_sent c) (\<lambda>(ev, c). performStateTransition ev c)"
| "processAppCommand Abort c = bind_result (process_ABORT c) (performStateTransition E_ABORT)"
| "processAppCommand Status c = bind_result (process_STATUS c) (performStateTransition E_STATUS)"
| "processAppCommand QueueBytesLimit c =
     (if fsm c = S_INIT then Inl (RuntimeError ''Called process_QUEUE_BYTES_LIMIT on uninitialized TCPConnection!'')
      else performStateTransition E_QUEUE_BYTES_LIMIT c)"
| "processAppCommand ReadRequest c =
     bind_result (process_READ_REQUEST c) (performStateTransition E_READ)"

section \<open>Segments\<close>

text \<open>
  What the code reads from a segment (its flags and the length of its text), and the outcome of its
  comparisons with the connection's state: \<open>f_addressed\<close> (its addresses and ports are those of the connection, as far
  as this has them; \<^verbatim>\<open>TCP\<close> looks for such a connection), \<open>f_acceptable\<close> (\<^verbatim>\<open>isSegmentAcceptable\<close> and PAWS), \<open>f_ack_bad\<close> (in SYN_SENT: the number acknowledged is
  not one that was sent), \<open>f_syn_acked\<close> (in SYN_SENT: \<^verbatim>\<open>snd_una\<close> is after \<^verbatim>\<open>iss\<close>), \<open>f_ack_in_window\<close> (in
  SYN_RCVD), \<open>f_ack_ok\<close> (the result of \<^verbatim>\<open>processAckInEstabEtc\<close>), \<open>f_fin_acked\<close> (\<^verbatim>\<open>fin_ack_rcvd\<close> after that),
  \<open>f_last_ack\<close> (it acknowledges our FIN), \<open>f_space\<close> (\<^verbatim>\<open>hasEnoughSpaceForSegmentInReceiveQueue\<close>),
  \<open>f_gap_filled\<close> (the data reaches a FIN that arrived before), \<open>f_fin_next\<close> (the FIN of the segment is the
  next number expected), \<open>f_fin_sent\<close> (our FIN was sent), \<open>f_snd_nxt_moved\<close> (something was sent meanwhile).
\<close>

record seg_facts =
  f_addressed :: bool
  f_rst :: bool
  f_syn :: bool
  f_ack :: bool
  f_fin :: bool
  f_len :: nat
  f_acceptable :: bool
  f_ack_bad :: bool
  f_syn_acked :: bool
  f_ack_in_window :: bool
  f_ack_ok :: bool
  f_fin_acked :: bool
  f_last_ack :: bool
  f_space :: bool
  f_gap_filled :: bool
  f_fin_next :: bool
  f_fin_sent :: bool
  f_snd_nxt_moved :: bool

abbreviation f_text :: "seg_facts \<Rightarrow> bool" where
  "f_text f \<equiv> 0 < f_len f"

text \<open>
  A SYN starts the receive queue at the number after its own; text that comes with it is inserted as if it
  had the number of the SYN, and \<^verbatim>\<open>rcv_nxt\<close> of the connection stays where it is.
\<close>

definition syn_received :: "seg_facts \<Rightarrow> tcp_conn \<Rightarrow> tcp_conn" where
  "syn_received f c = c\<lparr>rcv_ahead := (if f_text f \<and> f_space f then 1 - int (f_len f) else 0)\<rparr>"

definition processSegmentInListen :: "seg_facts \<Rightarrow> tcp_conn \<Rightarrow> sim_error + TCPEventCode \<times> tcp_conn" where
  "processSegmentInListen f c =
     (if f_rst f then Inr (E_IGNORE, c)
      else if f_ack f then Inr (E_IGNORE, sendToIP RST c)
      else if f_syn f then
        bind_result (startSynRexmitTimer (sendToIP SYN_ACK (syn_received f (c\<lparr>remote_set := True\<rparr>)))) (\<lambda>c.
        bind_result (if connEstabTimer c \<noteq> Pending then scheduleTimeout (connEstabTimer c) else Inr Pending) (\<lambda>t.
        let c = c\<lparr>connEstabTimer := t\<rparr>
        in if f_text f \<and> \<not> f_space f then Inr (E_IGNORE, c) else Inr (E_RCV_SYN, c)))
      else Inr (E_IGNORE, c))"

definition processSegmentInSynSent :: "seg_facts \<Rightarrow> tcp_conn \<Rightarrow> sim_error + TCPEventCode \<times> tcp_conn" where
  "processSegmentInSynSent f c =
     (if f_ack f \<and> f_ack_bad f then Inr (E_IGNORE, if f_rst f then c else sendToIP RST c)
      else if f_rst f then
        (if f_ack f then Inr (E_RCV_RST, sendIndicationToApp I_CONNECTION_RESET c) else Inr (E_IGNORE, c))
      else if f_syn f then
        (let c = syn_received f c in
         if f_syn_acked f then
           (if f_text f \<and> \<not> f_space f then Inr (E_IGNORE, c)
            else Inr (E_RCV_SYN_ACK, sendIndicationToApp I_ESTABLISHED c))
         else
           bind_result (startSynRexmitTimer (sendToIP SYN_ACK c)) (\<lambda>c.
           if f_text f \<and> \<not> f_space f then Inr (E_IGNORE, c) else Inr (E_RCV_SYN, c)))
      else Inr (E_IGNORE, c))"

definition processRstInSynReceived :: "tcp_conn \<Rightarrow> TCPEventCode \<times> tcp_conn" where
  "processRstInSynReceived c = (E_RCV_RST, if active c then sendIndicationToApp I_CONNECTION_REFUSED c else c)"

text \<open>Stopping a timer and starting the 2MSL timer.\<close>

definition start_2MSL :: "tcp_conn \<Rightarrow> sim_error + tcp_conn" where
  "start_2MSL c = bind_result (scheduleTimeout (the2MSLTimer c)) (\<lambda>t. Inr (c\<lparr>the2MSLTimer := t\<rparr>))"

definition restart_2MSL :: "tcp_conn \<Rightarrow> sim_error + tcp_conn" where
  "restart_2MSL c = bind_result (cancelTimer (the2MSLTimer c)) (\<lambda>t. start_2MSL (c\<lparr>the2MSLTimer := t\<rparr>))"

definition cancel_finWait2 :: "tcp_conn \<Rightarrow> sim_error + tcp_conn" where
  "cancel_finWait2 c = bind_result (cancelTimer (finWait2Timer c)) (\<lambda>t. Inr (c\<lparr>finWait2Timer := t\<rparr>))"

text \<open>\<^verbatim>\<open>rcv_nxt\<close> of the connection moves over the FIN of the peer, that of the receive queue does not.\<close>

definition fin_received :: "seg_facts \<Rightarrow> tcp_conn \<Rightarrow> sim_error + TCPEventCode \<times> tcp_conn" where
  "fin_received f c0 =
     (let c = c0\<lparr>rcv_ahead := rcv_ahead c0 + 1\<rparr> in
      if fsm c = S_FIN_WAIT_1 \<and> f_fin_acked f then
        bind_result (cancel_finWait2 c) (\<lambda>c. bind_result (start_2MSL c) (\<lambda>c. Inr (E_RCV_FIN_ACK, c)))
      else if fsm c = S_FIN_WAIT_2 then
        bind_result (cancel_finWait2 c) (\<lambda>c. bind_result (start_2MSL c) (\<lambda>c. Inr (E_RCV_FIN, c)))
      else if fsm c = S_TIME_WAIT then bind_result (restart_2MSL c) (\<lambda>c. Inr (E_RCV_FIN, c))
      else Inr (E_RCV_FIN, c))"

text \<open>
  The steps from the text of a segment on: seventh, eighth, and a deferred CLOSE.  Inserting text gives the
  connection the \<^verbatim>\<open>rcv_nxt\<close> of the queue.
\<close>

definition process_text_and_fin :: "seg_facts \<Rightarrow> TCPEventCode \<Rightarrow> tcp_conn \<Rightarrow> sim_error + TCPEventCode \<times> tcp_conn" where
  "process_text_and_fin f ev c =
     (let text = fsm c \<in> {S_SYN_RCVD, S_ESTABLISHED, S_FIN_WAIT_1, S_FIN_WAIT_2} \<and> f_text f
      in if text \<and> \<not> f_space f then Inr (E_IGNORE, c)
         else
           (let c = (if text then c\<lparr>rcv_ahead := 0\<rparr> else c) in
           bind_result (if text \<and> f_gap_filled f then fin_received f c else Inr (ev, c)) (\<lambda>(ev, c).
           bind_result (if f_fin f \<and> f_fin_next f then fin_received f c else Inr (ev, c)) (\<lambda>(ev, c).
           if fsm c \<in> {S_ESTABLISHED, S_SYN_RCVD} \<and> f_fin_sent f then Inr (E_CLOSE, c)
           else if fsm c = S_CLOSE_WAIT \<and> f_fin_sent f \<and> f_snd_nxt_moved f then Inr (E_CLOSE, c)
           else Inr (ev, c)))))"

definition processSegment1stThru8th :: "seg_facts \<Rightarrow> tcp_conn \<Rightarrow> sim_error + TCPEventCode \<times> tcp_conn" where
  "processSegment1stThru8th f c =
     (if \<not> f_acceptable f then Inr (E_IGNORE, if f_rst f then c else sendToIP ACK c)
      else if f_rst f then
        (if fsm c = S_SYN_RCVD then Inr (processRstInSynReceived c)
         else if fsm c \<in> {S_ESTABLISHED, S_FIN_WAIT_1, S_FIN_WAIT_2, S_CLOSE_WAIT}
           then Inr (E_RCV_RST, sendIndicationToApp I_CONNECTION_RESET c)
         else if fsm c \<in> {S_CLOSING, S_LAST_ACK, S_TIME_WAIT} then Inr (E_RCV_RST, c)
         else Inl (AssertionFailed ''0''))
      else if f_syn f then Inr (E_RCV_UNEXP_SYN, sendIndicationToApp I_CONNECTION_RESET c)
      else if \<not> f_ack f then Inr (E_IGNORE, c)
      else if fsm c = S_SYN_RCVD \<and> \<not> f_ack_in_window f then Inr (E_IGNORE, sendToIP RST c)
      else
        (let ev = (if fsm c = S_SYN_RCVD then E_RCV_ACK else E_IGNORE);
             c = (if fsm c = S_SYN_RCVD then sendIndicationToApp I_ESTABLISHED c else c)
         in if fsm c \<in> {S_SYN_RCVD, S_ESTABLISHED, S_FIN_WAIT_1, S_FIN_WAIT_2, S_CLOSE_WAIT, S_CLOSING, S_LAST_ACK} \<and> \<not> f_ack_ok f
            then Inr (E_IGNORE, c)
            else
              bind_result
                (if fsm c = S_FIN_WAIT_1 \<and> f_fin_acked f then Inr (E_RCV_ACK, c)
                 else if fsm c = S_CLOSING \<and> f_fin_acked f then bind_result (start_2MSL c) (\<lambda>c. Inr (E_RCV_ACK, c))
                 else Inr (ev, c)) (\<lambda>(ev, c).
              if fsm c = S_LAST_ACK \<and> f_last_ack f then Inr (E_RCV_ACK, c)
              else
                bind_result (if fsm c = S_TIME_WAIT then restart_2MSL (sendToIP ACK c) else Inr c) (\<lambda>c.
                process_text_and_fin f ev c))))"

definition process_RCV_SEGMENT :: "seg_facts \<Rightarrow> tcp_conn \<Rightarrow> sim_error + TCPEventCode \<times> tcp_conn" where
  "process_RCV_SEGMENT f c =
     (if fsm c = S_LISTEN then processSegmentInListen f c
      else if fsm c = S_SYN_SENT then processSegmentInSynSent f c
      else processSegment1stThru8th f c)"

definition processTCPSegment :: "seg_facts \<Rightarrow> tcp_conn \<Rightarrow> sim_error + tcp_conn" where
  "processTCPSegment f c =
     bind_result (assert_that (f_addressed f) ''localAddr == segDestAddr'') (\<lambda>_.
     bind_result (process_RCV_SEGMENT f c) (\<lambda>(ev, c). performStateTransition ev c))"

section \<open>Timers\<close>

text \<open>
  The timers of the connection, and those of the algorithm object: which of these has expired, and whether it
  was the retransmission that was one too many, is an input.
\<close>

datatype conn_timer = T_2MSL | T_CONN_ESTAB | T_FIN_WAIT_2 | T_SYN_REXMIT | T_ALGORITHM bool

text \<open>
  The event of an algorithm timer (\<^verbatim>\<open>TCPBaseAlg::processTimer\<close>, \<^verbatim>\<open>processRexmitTimer\<close>): after too many
  retransmissions the application is told and the connection aborted; what is sent again belongs to the data path.
\<close>

definition alg_processTimer :: "bool \<Rightarrow> tcp_conn \<Rightarrow> TCPEventCode \<times> tcp_conn" where
  "alg_processTimer gives_up c = (if gives_up then (E_ABORT, sendIndicationToApp I_TIMED_OUT c) else (E_IGNORE, c))"

definition process_TIMEOUT_CONN_ESTAB :: "tcp_conn \<Rightarrow> sim_error + tcp_conn" where
  "process_TIMEOUT_CONN_ESTAB c =
     (if fsm c \<in> {S_SYN_RCVD, S_SYN_SENT} then Inr (if active c then sendIndicationToApp I_TIMED_OUT c else c)
      else Inl (RuntimeError ''Internal error: received CONN_ESTAB timeout''))"

definition process_TIMEOUT_2MSL :: "tcp_conn \<Rightarrow> sim_error + tcp_conn" where
  "process_TIMEOUT_2MSL c =
     (if fsm c = S_TIME_WAIT then Inr c else Inl (RuntimeError ''Internal error: received time-wait (2MSL) timeout''))"

definition process_TIMEOUT_FIN_WAIT_2 :: "tcp_conn \<Rightarrow> sim_error + tcp_conn" where
  "process_TIMEOUT_FIN_WAIT_2 c =
     (if fsm c = S_FIN_WAIT_2 then Inr c else Inl (RuntimeError ''Internal error: received FIN_WAIT_2 timeout''))"

definition process_TIMEOUT_SYN_REXMIT :: "tcp_conn \<Rightarrow> sim_error + TCPEventCode \<times> tcp_conn" where
  "process_TIMEOUT_SYN_REXMIT c =
     (let c = c\<lparr>syn_rexmit_count := syn_rexmit_count c + 1\<rparr> in
      if syn_rexmit_count c > 12 then Inr (E_ABORT, c)
      else
        bind_result
          (if fsm c = S_SYN_SENT then sendSyn c
           else if fsm c = S_SYN_RCVD then Inr (sendToIP SYN_ACK c)
           else Inl (RuntimeError ''Internal error: SYN-REXMIT timer expired'')) (\<lambda>c.
        let timeout = min (syn_rexmit_timeout c * 2) 240
        in bind_result (scheduleTimeout (synRexmitTimer c)) (\<lambda>t.
           Inr (E_IGNORE, c\<lparr>syn_rexmit_timeout := timeout, synRexmitTimer := t\<rparr>))))"

text \<open>The algorithm may have timers scheduled from the open command until the connection is closed.\<close>

definition timer_of :: "conn_timer \<Rightarrow> tcp_conn \<Rightarrow> timer" where
  "timer_of t c = (case t of T_2MSL \<Rightarrow> the2MSLTimer c | T_CONN_ESTAB \<Rightarrow> connEstabTimer c
     | T_FIN_WAIT_2 \<Rightarrow> finWait2Timer c | T_SYN_REXMIT \<Rightarrow> synRexmitTimer c
     | T_ALGORITHM gives_up \<Rightarrow> if fsm c = S_INIT \<or> fsm c = S_CLOSED then Idle else Pending)"

text \<open>A timer that expires is not scheduled any more when its handler runs.\<close>

fun processTimer :: "conn_timer \<Rightarrow> tcp_conn \<Rightarrow> sim_error + tcp_conn" where
  "processTimer T_2MSL c =
     bind_result (process_TIMEOUT_2MSL (c\<lparr>the2MSLTimer := Idle\<rparr>)) (performStateTransition E_TIMEOUT_2MSL)"
| "processTimer T_CONN_ESTAB c =
     bind_result (process_TIMEOUT_CONN_ESTAB (c\<lparr>connEstabTimer := Idle\<rparr>)) (performStateTransition E_TIMEOUT_CONN_ESTAB)"
| "processTimer T_FIN_WAIT_2 c =
     bind_result (process_TIMEOUT_FIN_WAIT_2 (c\<lparr>finWait2Timer := Idle\<rparr>)) (performStateTransition E_TIMEOUT_FIN_WAIT_2)"
| "processTimer T_SYN_REXMIT c =
     bind_result (process_TIMEOUT_SYN_REXMIT (c\<lparr>synRexmitTimer := Idle\<rparr>)) (\<lambda>(ev, c). performStateTransition ev c)"
| "processTimer (T_ALGORITHM gives_up) c = (case alg_processTimer gives_up c of (ev, c) \<Rightarrow> performStateTransition ev c)"

section \<open>Runs of a connection\<close>

text \<open>
  A closed connection is removed, a connection without an open command gets no segments, and only a
  scheduled timer expires.
\<close>

datatype conn_input = Command app_command | Segment seg_facts | Expire conn_timer

fun conn_handle :: "conn_input \<Rightarrow> tcp_conn \<Rightarrow> sim_error + tcp_conn" where
  "conn_handle (Command cmd) c = processAppCommand cmd c"
| "conn_handle (Segment f) c = processTCPSegment f c"
| "conn_handle (Expire t) c = processTimer t c"

fun may_happen :: "tcp_conn \<Rightarrow> conn_input \<Rightarrow> bool" where
  "may_happen c (Command cmd) \<longleftrightarrow> fsm c \<noteq> S_CLOSED"
| "may_happen c (Segment f) \<longleftrightarrow> fsm c \<noteq> S_CLOSED \<and> fsm c \<noteq> S_INIT"
| "may_happen c (Expire t) \<longleftrightarrow> timer_of t c = Pending"

text \<open>
  Regular segments: they are addressed to the connection; a SYN has no data that finds no space, and the peer sends one FIN.
\<close>

definition regular :: "tcp_conn \<Rightarrow> seg_facts \<Rightarrow> bool" where
  "regular c f \<longleftrightarrow> f_addressed f
     \<and> (fsm c \<in> {S_LISTEN, S_SYN_SENT} \<and> f_syn f \<longrightarrow> \<not> f_text f \<or> f_space f)
     \<and> (fsm c = S_CLOSING \<longrightarrow> \<not> (f_fin f \<and> f_fin_next f))
     \<and> \<not> (f_text f \<and> f_gap_filled f \<and> f_fin f \<and> f_fin_next f)"

inductive conn_step :: "tcp_conn \<Rightarrow> conn_input \<Rightarrow> tcp_conn \<Rightarrow> bool" where
  command: "may_happen c (Command cmd) \<Longrightarrow> processAppCommand cmd c = Inr c' \<Longrightarrow> conn_step c (Command cmd) c'"
| segment: "may_happen c (Segment f) \<Longrightarrow> regular c f \<Longrightarrow> processTCPSegment f c = Inr c' \<Longrightarrow> conn_step c (Segment f) c'"
| expire: "may_happen c (Expire t) \<Longrightarrow> processTimer t c = Inr c' \<Longrightarrow> conn_step c (Expire t) c'"

inductive_cases conn_step_CommandE: "conn_step c (Command cmd) c'"
inductive_cases conn_step_SegmentE: "conn_step c (Segment f) c'"
inductive_cases conn_step_ExpireE: "conn_step c (Expire t) c'"

text \<open>A run: the inputs handled one after another, each with the state it leads to.\<close>

inductive conn_run :: "tcp_conn \<Rightarrow> (conn_input \<times> TcpState) list \<Rightarrow> tcp_conn \<Rightarrow> bool" where
  start: "conn_run c [] c"
| more: "conn_run c tr c' \<Longrightarrow> conn_step c' i c'' \<Longrightarrow> conn_run c (tr @ [(i, fsm c'')]) c''"

text \<open>Changes of state in a run from a state on, and those that go back to LISTEN.\<close>

fun state_changes :: "TcpState \<Rightarrow> TcpState list \<Rightarrow> nat" where
  "state_changes s [] = 0"
| "state_changes s (s' # ss) = (if s' = s then 0 else 1) + state_changes s' ss"

fun fallbacks :: "TcpState \<Rightarrow> TcpState list \<Rightarrow> nat" where
  "fallbacks s [] = 0"
| "fallbacks s (s' # ss) = (if s = S_SYN_RCVD \<and> s' = S_LISTEN then 1 else 0) + fallbacks s' ss"

end
