(* ===== verification/TcpConnectionRuns.thy ===== *)
theory TcpConnectionRuns
  imports TcpConnection
begin

text \<open>
  What holds in every run of a TCP connection: which timers are scheduled in which state, that neither
  a segment nor a timer makes the code raise, which commands do, what the application is told about the
  end of the connection, and how often the state can change.
\<close>

section \<open>Timers and notifications of a state\<close>

definition handshaking :: "TcpState \<Rightarrow> bool" where
  "handshaking s \<longleftrightarrow> s = S_SYN_SENT \<or> s = S_SYN_RCVD"

definition timers_ok :: "TcpState \<Rightarrow> tcp_conn \<Rightarrow> bool" where
  "timers_ok s c \<longleftrightarrow>
     finWait2Timer c = Idle
     \<and> the2MSLTimer c = (if s = S_TIME_WAIT then Pending else Idle)
     \<and> (if handshaking s then connEstabTimer c = Pending \<and> synRexmitTimer c = Pending
        else if s = S_INIT \<or> s = S_LISTEN then connEstabTimer c = Idle \<and> synRexmitTimer c = Idle
        else connEstabTimer c \<noteq> Pending \<and> synRexmitTimer c \<noteq> Pending)"

definition closed_count :: "tcp_conn \<Rightarrow> nat" where
  "closed_count c = length (filter (\<lambda>i. i = I_CLOSED) (toApp c))"

definition conn_inv :: "tcp_conn \<Rightarrow> bool" where
  "conn_inv c \<longleftrightarrow> timers_ok (fsm c) c \<and> (fsm c = S_SYN_SENT \<longrightarrow> remote_set c)
     \<and> (fsm c \<noteq> S_CLOSED \<longrightarrow> closed_count c = (if fsm c = S_TIME_WAIT then 1 else 0))"

text \<open>What \<open>stateEntered\<close> needs of the timers, and what a handler leaves to \<open>performStateTransition\<close>.\<close>

definition can_enter :: "TcpState \<Rightarrow> tcp_conn \<Rightarrow> bool" where
  "can_enter s c \<longleftrightarrow>
     finWait2Timer c = Idle
     \<and> (if s = S_CLOSED then the2MSLTimer c \<noteq> NoTimer else the2MSLTimer c = (if s = S_TIME_WAIT then Pending else Idle))
     \<and> (handshaking s \<longrightarrow> connEstabTimer c = Pending \<and> synRexmitTimer c = Pending)
     \<and> (s = S_LISTEN \<or> s = S_ESTABLISHED \<longrightarrow> connEstabTimer c \<noteq> NoTimer \<and> synRexmitTimer c \<noteq> NoTimer)
     \<and> (s = S_TIME_WAIT \<longrightarrow> connEstabTimer c \<noteq> Pending \<and> synRexmitTimer c \<noteq> Pending)"

definition ready :: "TCPEventCode \<Rightarrow> tcp_conn \<Rightarrow> bool" where
  "ready ev c \<longleftrightarrow> fsm c \<noteq> S_CLOSED \<and> closed_count c = (if fsm c = S_TIME_WAIT then 1 else 0)
     \<and> (let s = next_state (active c) (fsm c) ev
        in (s = S_SYN_SENT \<longrightarrow> remote_set c) \<and> s \<noteq> S_INIT
           \<and> (if s = fsm c then timers_ok s c else can_enter s c))"

lemma closed_count_send [simp]:
  "closed_count (sendIndicationToApp i c) = closed_count c + (if i = I_CLOSED then 1 else 0)"
  "closed_count (sendToIP g c) = closed_count c"
  by (simp_all add: closed_count_def sendIndicationToApp_def sendToIP_def)

lemma send_simps [simp]:
  "fsm (sendIndicationToApp i c) = fsm c" "fsm (sendToIP g c) = fsm c"
  "active (sendIndicationToApp i c) = active c" "active (sendToIP g c) = active c"
  "remote_set (sendIndicationToApp i c) = remote_set c" "remote_set (sendToIP g c) = remote_set c"
  "the2MSLTimer (sendIndicationToApp i c) = the2MSLTimer c" "the2MSLTimer (sendToIP g c) = the2MSLTimer c"
  "connEstabTimer (sendIndicationToApp i c) = connEstabTimer c" "connEstabTimer (sendToIP g c) = connEstabTimer c"
  "finWait2Timer (sendIndicationToApp i c) = finWait2Timer c" "finWait2Timer (sendToIP g c) = finWait2Timer c"
  "synRexmitTimer (sendIndicationToApp i c) = synRexmitTimer c" "synRexmitTimer (sendToIP g c) = synRexmitTimer c"
  "syn_rexmit_timeout (sendIndicationToApp i c) = syn_rexmit_timeout c" "syn_rexmit_timeout (sendToIP g c) = syn_rexmit_timeout c"
  by (simp_all add: sendIndicationToApp_def sendToIP_def)

lemma timers_ok_cong [simp]:
  "timers_ok s (sendIndicationToApp i c) = timers_ok s c" "timers_ok s (sendToIP g c) = timers_ok s c"
  "timers_ok s (c\<lparr>send_fin := b\<rparr>) = timers_ok s c" "timers_ok s (c\<lparr>fsm := s'\<rparr>) = timers_ok s c"
  "can_enter s (sendIndicationToApp i c) = can_enter s c" "can_enter s (sendToIP g c) = can_enter s c"
  "can_enter s (c\<lparr>send_fin := b\<rparr>) = can_enter s c"
  by (simp_all add: timers_ok_def can_enter_def)

lemma closed_count_cong [simp]:
  "closed_count (c\<lparr>fsm := s\<rparr>) = closed_count c"
  "closed_count (c\<lparr>active := b\<rparr>) = closed_count c"
  "closed_count (c\<lparr>fork := b\<rparr>) = closed_count c"
  "closed_count (c\<lparr>remote_set := b\<rparr>) = closed_count c"
  "closed_count (c\<lparr>send_fin := b\<rparr>) = closed_count c"
  "closed_count (c\<lparr>the2MSLTimer := t\<rparr>) = closed_count c"
  "closed_count (c\<lparr>connEstabTimer := t\<rparr>) = closed_count c"
  "closed_count (c\<lparr>finWait2Timer := t\<rparr>) = closed_count c"
  "closed_count (c\<lparr>synRexmitTimer := t\<rparr>) = closed_count c"
  "closed_count (c\<lparr>syn_rexmit_count := n\<rparr>) = closed_count c"
  "closed_count (c\<lparr>syn_rexmit_timeout := n\<rparr>) = closed_count c"
  "closed_count (c\<lparr>rcv_ahead := k\<rparr>) = closed_count c"
  by (simp_all add: closed_count_def)

lemma next_state_ignore [simp]: "next_state act s E_IGNORE = s"
  by (cases s) (simp_all add: next_state_def from_defs)

lemma cancel_if_set_simps [simp]:
  "cancel_if_set t \<noteq> Pending" "cancel_if_set Idle = Idle" "t \<noteq> NoTimer \<Longrightarrow> cancel_if_set t = Idle"
  by (simp_all add: cancel_if_set_def)

text \<open>The transition itself.\<close>

lemma entered_inv:
  assumes "can_enter s c" "s \<noteq> S_INIT" "fsm c = s" "s = S_SYN_SENT \<Longrightarrow> remote_set c" "old \<noteq> S_CLOSED" "old \<noteq> s"
    and "closed_count c = (if old = S_TIME_WAIT then 1 else 0)"
    and "old = S_TIME_WAIT \<Longrightarrow> s = S_CLOSED"
  shows "returns (\<lambda>c'. conn_inv c' \<and> fsm c' = s \<and> active c' = active c
           \<and> (s = S_CLOSED \<longrightarrow> closed_count c' = (if old \<noteq> S_TIME_WAIT \<and> ev = E_ABORT then 0 else 1))) (stateEntered s old ev c)"
  using assms
  by (cases s)
    (simp_all add: stateEntered_def conn_inv_def can_enter_def timers_ok_def handshaking_def cancelTimer_def assert_that_def Let_def
      split: if_splits)

lemma from_TIME_WAIT_cases: "from_TIME_WAIT ev = S_TIME_WAIT \<or> from_TIME_WAIT ev = S_CLOSED"
  by (cases ev) (simp_all add: from_TIME_WAIT_def)

lemma transition_inv:
  assumes "ready ev c"
  shows "returns (\<lambda>c'. conn_inv c' \<and> fsm c' = next_state (active c) (fsm c) ev \<and> active c' = active c
           \<and> (fsm c' = S_CLOSED \<longrightarrow> closed_count c' = (if fsm c \<noteq> S_TIME_WAIT \<and> ev = E_ABORT then 0 else 1)))
         (performStateTransition ev c)"
proof (cases "next_state (active c) (fsm c) ev = fsm c")
  case True
  with assms show ?thesis
    by (auto simp: performStateTransition_def assert_that_def ready_def Let_def conn_inv_def)
next
  case False
  let ?s = "next_state (active c) (fsm c) ev"
  have "returns (\<lambda>c'. conn_inv c' \<and> fsm c' = ?s \<and> active c' = active (c\<lparr>fsm := ?s\<rparr>)
           \<and> (?s = S_CLOSED \<longrightarrow> closed_count c' = (if fsm c \<noteq> S_TIME_WAIT \<and> ev = E_ABORT then 0 else 1)))
         (stateEntered ?s (fsm c) ev (c\<lparr>fsm := ?s\<rparr>))"
    using assms False from_TIME_WAIT_cases [of ev]
    by (intro entered_inv) (auto simp: ready_def can_enter_def Let_def next_state_def split: if_splits)
  moreover from False have "ev \<noteq> E_IGNORE" by auto
  ultimately show ?thesis
    using assms False by (auto simp: performStateTransition_def assert_that_def ready_def Let_def elim!: returns_mono)
qed

text \<open>The outcome of handling an input with event \<open>ev\<close>.\<close>

definition moved :: "TCPEventCode \<Rightarrow> tcp_conn \<Rightarrow> tcp_conn \<Rightarrow> bool" where
  "moved ev c c' \<longleftrightarrow> fsm c \<noteq> S_CLOSED \<and> conn_inv c' \<and> fsm c' = next_state (active c') (fsm c) ev \<and> (fsm c \<noteq> S_INIT \<and> active c \<longrightarrow> active c')
     \<and> (fsm c' = S_CLOSED \<longrightarrow> closed_count c' = (if fsm c \<noteq> S_TIME_WAIT \<and> ev = E_ABORT then 0 else 1))"

text \<open>A handler that leaves the state to the transition.\<close>

definition prepared :: "tcp_conn \<Rightarrow> TCPEventCode \<times> tcp_conn \<Rightarrow> bool" where
  "prepared c r \<longleftrightarrow> ready (fst r) (snd r) \<and> fsm (snd r) = fsm c \<and> (fsm c \<noteq> S_INIT \<and> active c \<longrightarrow> active (snd r))"

lemma transition_moves:
  assumes "prepared c (ev, c1)"
  shows "returns (moved ev c) (performStateTransition ev c1)"
proof -
  from assms have r: "ready ev c1" and c1: "fsm c1 = fsm c" "fsm c \<noteq> S_INIT \<and> active c \<longrightarrow> active c1"
    by (simp_all add: prepared_def)
  from r c1(1) have "fsm c \<noteq> S_CLOSED" unfolding ready_def by metis
  with transition_inv [OF r] show ?thesis
    unfolding c1(1) using c1(2) by (elim returns_mono) (auto simp: moved_def)
qed

lemma prepared_moves:
  "returns (\<lambda>c1. prepared c (ev, c1)) r \<Longrightarrow> returns (moved ev c) (bind_result r (performStateTransition ev))"
  by (erule returns_bind) (rule transition_moves)

section \<open>The handlers prepare a transition\<close>

lemmas conn_defs = conn_inv_def ready_def can_enter_def timers_ok_def handshaking_def next_state_def Let_def

lemma start_handshake_prepared:
  assumes "conn_inv c" "fsm c = S_INIT \<or> fsm c = S_LISTEN" "remote_set c" "next_state (active c) (fsm c) ev = S_SYN_SENT"
  shows "returns (\<lambda>c1. ready ev c1 \<and> fsm c1 = fsm c \<and> active c1 = active c) (start_handshake c)"
  using assms
  by (auto simp: start_handshake_def sendSyn_def startSynRexmitTimer_def scheduleTimeout_def conn_defs)

text \<open>The commands that are refused: those for which the state is wrong, or the addresses are missing.\<close>

fun permitted :: "app_command \<Rightarrow> tcp_conn \<Rightarrow> bool" where
  "permitted (OpenActive remote_given) c \<longleftrightarrow> fsm c = S_INIT \<and> remote_given"
| "permitted (OpenPassive forking port_given) c \<longleftrightarrow> fsm c = S_INIT \<and> port_given"
| "permitted Send c \<longleftrightarrow> (fsm c = S_LISTEN \<and> remote_set c)
     \<or> fsm c \<in> {S_SYN_SENT, S_SYN_RCVD, S_ESTABLISHED, S_CLOSE_WAIT}"
| "permitted (Close all_sent) c \<longleftrightarrow> fsm c \<in> {S_LISTEN, S_SYN_SENT, S_SYN_RCVD, S_ESTABLISHED, S_CLOSE_WAIT}"
| "permitted Abort c \<longleftrightarrow> fsm c \<noteq> S_INIT \<and> fsm c \<noteq> S_CLOSED"
| "permitted Status c \<longleftrightarrow> fsm c \<noteq> S_INIT \<and> fsm c \<noteq> S_CLOSED"
| "permitted QueueBytesLimit c \<longleftrightarrow> fsm c \<noteq> S_INIT \<and> fsm c \<noteq> S_CLOSED"
| "permitted ReadRequest c \<longleftrightarrow> fsm c \<noteq> S_INIT \<and> fsm c \<noteq> S_CLOSED \<and> rcv_ahead c \<le> 0"

lemma process_SEND_prepared:
  assumes "conn_inv c" "permitted Send c"
  shows "returns (\<lambda>c1. prepared c (E_SEND, c1)) (process_SEND c)"
proof (cases "fsm c = S_LISTEN")
  case True
  with assms have "returns (\<lambda>c1. ready E_SEND c1 \<and> fsm c1 = fsm (c\<lparr>active := True\<rparr>) \<and> active c1 = active (c\<lparr>active := True\<rparr>))
      (start_handshake (c\<lparr>active := True\<rparr>))"
    by (intro start_handshake_prepared) (simp_all add: conn_inv_def next_state_def from_LISTEN_def timers_ok_def)
  with True show ?thesis by (auto simp: process_SEND_def prepared_def elim!: returns_mono)
next
  case False
  with assms show ?thesis
    by (auto simp: process_SEND_def prepared_def conn_defs from_defs)
qed

lemma process_CLOSE_prepared:
  assumes "conn_inv c" "permitted (Close b) c"
  shows "returns (\<lambda>(ev, c'). prepared c (ev, c') \<and> ev \<noteq> E_ABORT) (process_CLOSE b c)"
  using assms by (cases "fsm c") (auto simp: process_CLOSE_def prepared_def conn_defs from_defs)

lemma process_ABORT_prepared:
  assumes "conn_inv c" "permitted Abort c"
  shows "returns (\<lambda>c'. prepared c (E_ABORT, c')) (process_ABORT c)"
  using assms by (cases "fsm c") (auto simp: process_ABORT_def prepared_def conn_defs from_defs)

lemma fruitless_prepared:
  assumes "conn_inv c" "fsm c \<noteq> S_CLOSED" "fsm c \<noteq> S_INIT" "next_state (active c) (fsm c) ev = fsm c"
  shows "prepared c (ev, c)"
  using assms by (auto simp: prepared_def ready_def conn_inv_def Let_def)

text \<open>Segments.\<close>

lemma listen_prepared:
  assumes "conn_inv c" "fsm c = S_LISTEN" "regular c f"
  shows "returns (\<lambda>r. prepared c r \<and> fst r \<noteq> E_ABORT) (processSegmentInListen f c)"
  using assms
  by (auto simp: processSegmentInListen_def syn_received_def prepared_def startSynRexmitTimer_def scheduleTimeout_def regular_def conn_defs from_LISTEN_def)

lemma syn_sent_prepared:
  assumes "conn_inv c" "fsm c = S_SYN_SENT" "regular c f"
  shows "returns (\<lambda>r. prepared c r \<and> fst r \<noteq> E_ABORT) (processSegmentInSynSent f c)"
  using assms
  by (auto simp: processSegmentInSynSent_def syn_received_def prepared_def startSynRexmitTimer_def scheduleTimeout_def regular_def conn_defs from_SYN_SENT_def)

lemma later_prepared:
  assumes "conn_inv c" "fsm c \<notin> {S_INIT, S_CLOSED, S_LISTEN, S_SYN_SENT}" "regular c f"
  shows "returns (\<lambda>r. prepared c r \<and> fst r \<noteq> E_ABORT) (processSegment1stThru8th f c)"
proof (cases "f_acceptable f \<and> \<not> f_rst f \<and> \<not> f_syn f \<and> f_ack f \<and> (fsm c = S_SYN_RCVD \<longrightarrow> f_ack_in_window f)")
  case False
  with assms show ?thesis
    by (cases "fsm c")
      (auto simp: processSegment1stThru8th_def processRstInSynReceived_def prepared_def conn_defs from_defs)
next
  case True
  with assms show ?thesis
    by (cases "fsm c")
      (auto simp: processSegment1stThru8th_def prepared_def process_text_and_fin_def fin_received_def start_2MSL_def
        restart_2MSL_def cancel_finWait2_def cancelTimer_def scheduleTimeout_def regular_def conn_defs from_defs)
qed

text \<open>Timers: when one expires it was scheduled, so the state is known.\<close>

lemma syn_rexmit_prepared:
  assumes "conn_inv c" "fsm c = S_SYN_SENT \<or> fsm c = S_SYN_RCVD"
  shows "returns (\<lambda>r. prepared c r \<and> (fst r = E_ABORT \<or> fst r = E_IGNORE))
      (process_TIMEOUT_SYN_REXMIT (c\<lparr>synRexmitTimer := Idle\<rparr>))"
  using assms(2)
proof
  assume "fsm c = S_SYN_SENT"
  with assms(1) show ?thesis
    by (simp add: prepared_def process_TIMEOUT_SYN_REXMIT_def sendSyn_def scheduleTimeout_def conn_defs from_SYN_SENT_def)
next
  assume "fsm c = S_SYN_RCVD"
  with assms(1) show ?thesis
    by (simp add: prepared_def process_TIMEOUT_SYN_REXMIT_def scheduleTimeout_def conn_defs from_SYN_RCVD_def)
qed

lemma expire_inv:
  assumes "conn_inv c" "timer_of t c = Pending"
  shows "\<exists>ev. returns (moved ev c) (processTimer t c)
    \<and> (if t = T_SYN_REXMIT then ev = E_ABORT \<or> ev = E_IGNORE else (ev = E_ABORT) = (t = T_ALGORITHM True))"
proof (cases t)
  case T_2MSL
  with assms have ok: "fsm c = S_TIME_WAIT" "prepared c (E_TIMEOUT_2MSL, c\<lparr>the2MSLTimer := Idle\<rparr>)"
    by (auto simp: timer_of_def prepared_def conn_defs from_TIME_WAIT_def split: if_splits)
  from ok(1) T_2MSL transition_moves [OF ok(2)]
  have "returns (moved E_TIMEOUT_2MSL c) (processTimer t c)"
    by (simp add: process_TIMEOUT_2MSL_def)
  then show ?thesis using T_2MSL by (intro exI [of _ E_TIMEOUT_2MSL]) simp
next
  case T_CONN_ESTAB
  let ?c = "if active c then sendIndicationToApp I_TIMED_OUT (c\<lparr>connEstabTimer := Idle\<rparr>) else c\<lparr>connEstabTimer := Idle\<rparr>"
  from T_CONN_ESTAB assms have st: "fsm c = S_SYN_SENT \<or> fsm c = S_SYN_RCVD"
    by (auto simp: timer_of_def conn_inv_def timers_ok_def handshaking_def split: if_splits)
  with assms(1) have ok: "prepared c (E_TIMEOUT_CONN_ESTAB, ?c)"
    by (cases "active c") (auto simp: prepared_def conn_defs from_defs)
  from st have "processTimer t c = performStateTransition E_TIMEOUT_CONN_ESTAB ?c"
    by (auto simp: T_CONN_ESTAB process_TIMEOUT_CONN_ESTAB_def)
  with transition_moves [OF ok] have "returns (moved E_TIMEOUT_CONN_ESTAB c) (processTimer t c)" by simp
  then show ?thesis using T_CONN_ESTAB by (intro exI [of _ E_TIMEOUT_CONN_ESTAB]) simp
next
  case T_FIN_WAIT_2
  with assms show ?thesis by (simp add: timer_of_def conn_inv_def timers_ok_def)
next
  case T_SYN_REXMIT
  with assms have st: "fsm c = S_SYN_SENT \<or> fsm c = S_SYN_RCVD"
    by (auto simp: timer_of_def conn_inv_def timers_ok_def handshaking_def split: if_splits)
  then have "returns (\<lambda>r. prepared c r \<and> (fst r = E_ABORT \<or> fst r = E_IGNORE))
      (process_TIMEOUT_SYN_REXMIT (c\<lparr>synRexmitTimer := Idle\<rparr>))"
    by (rule syn_rexmit_prepared [OF assms(1)])
  then obtain ev c1 where c1: "process_TIMEOUT_SYN_REXMIT (c\<lparr>synRexmitTimer := Idle\<rparr>) = Inr (ev, c1)"
    "prepared c (ev, c1)" "ev = E_ABORT \<or> ev = E_IGNORE"
    by (auto dest!: returns_D)
  with transition_moves [OF c1(2)] have "returns (moved ev c) (processTimer t c)" by (simp add: T_SYN_REXMIT)
  with c1(3) T_SYN_REXMIT show ?thesis by auto
next
  case (T_ALGORITHM gives_up)
  then have st: "fsm c \<noteq> S_INIT" "fsm c \<noteq> S_CLOSED" using assms(2) by (auto simp: timer_of_def split: if_splits)
  then have "prepared c (alg_processTimer gives_up c)"
    using assms(1) by (cases "fsm c") (auto simp: alg_processTimer_def prepared_def conn_defs from_defs)
  moreover obtain ev c1 where c1: "alg_processTimer gives_up c = (ev, c1)" by fastforce
  ultimately have "returns (moved ev c) (processTimer t c)" using transition_moves [of c ev c1] T_ALGORITHM by simp
  moreover have "(ev = E_ABORT) = gives_up" using c1 by (auto simp: alg_processTimer_def split: if_splits)
  ultimately show ?thesis using T_ALGORITHM by (intro exI [of _ ev]) simp
qed

lemma segment_inv:
  assumes "conn_inv c" "may_happen c (Segment f)" "regular c f"
  shows "\<exists>ev. returns (moved ev c) (processTCPSegment f c) \<and> ev \<noteq> E_ABORT"
proof -
  have "returns (\<lambda>r. prepared c r \<and> fst r \<noteq> E_ABORT) (process_RCV_SEGMENT f c)"
    unfolding process_RCV_SEGMENT_def
    using listen_prepared [of c f] syn_sent_prepared [of c f] later_prepared [of c f] assms by simp
  then obtain ev c1 where c1: "process_RCV_SEGMENT f c = Inr (ev, c1)" "prepared c (ev, c1)" "ev \<noteq> E_ABORT"
    by (auto dest!: returns_D)
  with transition_moves [OF c1(2)] have "returns (moved ev c) (processTCPSegment f c)" using assms(3) by (simp add: processTCPSegment_def regular_def)
  with c1(3) show ?thesis by blast
qed

lemma open_active_prepared:
  assumes "conn_inv c" "permitted (OpenActive r) c"
  shows "returns (\<lambda>c1. prepared c (E_OPEN_ACTIVE, c1)) (process_OPEN_ACTIVE r c)"
proof -
  let ?c = "c\<lparr>active := True, remote_set := True\<rparr>"
  from assms have "returns (\<lambda>c1. ready E_OPEN_ACTIVE c1 \<and> fsm c1 = fsm ?c \<and> active c1 = active ?c) (start_handshake ?c)"
    by (intro start_handshake_prepared) (simp_all add: conn_inv_def next_state_def from_INIT_def timers_ok_def)
  with assms show ?thesis by (auto simp: process_OPEN_ACTIVE_def prepared_def elim!: returns_mono)
qed

lemma open_passive_prepared:
  assumes "conn_inv c" "permitted (OpenPassive k r) c"
  shows "returns (\<lambda>c1. prepared c (E_OPEN_PASSIVE, c1)) (process_OPEN_PASSIVE k r c)"
  using assms by (auto simp: process_OPEN_PASSIVE_def prepared_def conn_defs from_INIT_def)

lemma process_STATUS_prepared:
  assumes "conn_inv c" "permitted Status c"
  shows "returns (\<lambda>c1. prepared c (E_STATUS, c1)) (process_STATUS c)"
  using assms by (cases "fsm c") (auto simp: process_STATUS_def prepared_def conn_defs from_defs)

lemma command_inv:
  assumes "conn_inv c" "permitted cmd c"
  shows "\<exists>ev. returns (moved ev c) (processAppCommand cmd c) \<and> (ev = E_ABORT) = (cmd = Abort)"
proof (cases cmd)
  case (OpenActive r)
  with prepared_moves [OF open_active_prepared] assms show ?thesis by (auto simp del: permitted.simps)
next
  case (OpenPassive k r)
  with prepared_moves [OF open_passive_prepared] assms show ?thesis by (auto simp del: permitted.simps)
next
  case Send
  with prepared_moves [OF process_SEND_prepared] assms show ?thesis by (auto simp del: permitted.simps)
next
  case (Close b)
  with process_CLOSE_prepared [of c b] assms obtain ev c1 where "process_CLOSE b c = Inr (ev, c1)" "prepared c (ev, c1)" "ev \<noteq> E_ABORT"
    by (auto dest!: returns_D simp del: permitted.simps)
  with transition_moves [of c ev c1] Close show ?thesis by auto
next
  case Abort
  with prepared_moves [OF process_ABORT_prepared] assms show ?thesis by (auto simp del: permitted.simps)
next
  case Status
  with prepared_moves [OF process_STATUS_prepared] assms show ?thesis by (auto simp del: permitted.simps)
next
  case QueueBytesLimit
  with assms have "prepared c (E_QUEUE_BYTES_LIMIT, c)"
    by (cases "fsm c") (auto intro!: fruitless_prepared simp: next_state_def from_defs)
  from transition_moves [OF this] QueueBytesLimit assms show ?thesis by auto
next
  case ReadRequest
  with assms have "prepared c (E_READ, c)"
    by (cases "fsm c") (auto intro!: fruitless_prepared simp: next_state_def from_defs)
  from transition_moves [OF this] ReadRequest assms show ?thesis by (auto simp: process_READ_REQUEST_def)
qed

lemma command_refused:
  assumes "fsm c \<noteq> S_CLOSED" "\<not> permitted cmd c"
  shows "\<exists>e. processAppCommand cmd c = Inl e"
  using assms
  by (cases cmd; cases "fsm c")
    (auto simp: process_OPEN_ACTIVE_def process_OPEN_PASSIVE_def process_SEND_def process_CLOSE_def process_ABORT_def
      process_STATUS_def process_READ_REQUEST_def assert_that_def start_handshake_def sendSyn_def)

section \<open>Runs\<close>

lemma step_moved:
  assumes "conn_inv c" "conn_step c i c'"
  shows "\<exists>ev. moved ev c c'
    \<and> (if i = Command Abort \<or> i = Expire (T_ALGORITHM True) then ev = E_ABORT
       else if i = Expire T_SYN_REXMIT then ev = E_ABORT \<or> ev = E_IGNORE else ev \<noteq> E_ABORT)"
  using assms(2,1)
proof cases
  case (command cmd)
  with command_refused [of c cmd] have "permitted cmd c" by auto
  from command_inv [OF assms(1) this] command show ?thesis by auto
next
  case (segment f)
  from segment_inv [OF assms(1) segment(2,3)] segment(4) show ?thesis by (auto simp: segment(1))
next
  case (expire t)
  then have "timer_of t c = Pending" by simp
  from expire_inv [OF assms(1) this] expire show ?thesis by auto
qed

lemma conn_inv_new: "conn_inv conn_new"
  by (simp add: conn_inv_def conn_new_def timers_ok_def handshaking_def closed_count_def)

lemma run_keeps_inv: "conn_run c tr c' \<Longrightarrow> conn_inv c \<Longrightarrow> conn_inv c'"
  by (induction rule: conn_run.induct) (auto dest: step_moved simp: moved_def)

lemmas run_inv = run_keeps_inv [OF _ conn_inv_new]

text \<open>A measure of how far a connection has come.\<close>

fun progress :: "TcpState \<Rightarrow> nat" where
  "progress S_INIT = 0" | "progress S_LISTEN = 1" | "progress S_SYN_SENT = 2" | "progress S_SYN_RCVD = 3"
| "progress S_ESTABLISHED = 4" | "progress S_CLOSE_WAIT = 5" | "progress S_FIN_WAIT_1 = 5" | "progress S_LAST_ACK = 6"
| "progress S_FIN_WAIT_2 = 6" | "progress S_CLOSING = 6" | "progress S_TIME_WAIT = 7" | "progress S_CLOSED = 8"

lemma next_state_progress:
  "next_state act s ev = s \<or> progress s < progress (next_state act s ev)
   \<or> s = S_SYN_RCVD \<and> next_state act s ev = S_LISTEN \<and> \<not> act"
  by (cases s; cases ev) (simp_all add: next_state_def from_defs)

lemma progress_le: "progress s \<le> 8"
  by (cases s) simp_all

lemma state_changes_snoc: "state_changes s (ss @ [s']) = state_changes s ss + (if s' = last (s # ss) then 0 else 1)"
  by (induction ss arbitrary: s) simp_all

lemma fallbacks_snoc:
  "fallbacks s (ss @ [s']) = fallbacks s ss + (if last (s # ss) = S_SYN_RCVD \<and> s' = S_LISTEN then 1 else 0)"
  by (induction ss arbitrary: s) simp_all

lemma run_last: "conn_run c tr c' \<Longrightarrow> last (fsm c # map snd tr) = fsm c'"
  by (induction rule: conn_run.induct) simp_all

lemma changes_bound:
  assumes "conn_run c tr c'" "conn_inv c"
  shows "state_changes (fsm c) (map snd tr) + progress (fsm c) \<le> progress (fsm c') + 3 * fallbacks (fsm c) (map snd tr)"
  using assms
proof (induction rule: conn_run.induct)
  case (more c tr c' i c'')
  from step_moved [OF run_keeps_inv [OF more.hyps(1) more.prems] more.hyps(2)]
  obtain ev where "fsm c'' = next_state (active c'') (fsm c') ev" by (auto simp: moved_def)
  with next_state_progress [of "active c''" "fsm c'" ev]
  have "fsm c'' = fsm c' \<or> progress (fsm c') < progress (fsm c'') \<or> fsm c' = S_SYN_RCVD \<and> fsm c'' = S_LISTEN" by auto
  with more.IH [OF more.prems] run_last [OF more.hyps(1)] show ?case
    by (auto simp: state_changes_snoc fallbacks_snoc)
qed simp

lemma active_no_fallback:
  assumes "conn_run c tr c'" "conn_inv c" "active c" "fsm c \<noteq> S_INIT"
  shows "active c' \<and> fsm c' \<noteq> S_INIT \<and> fallbacks (fsm c) (map snd tr) = 0"
  using assms
proof (induction rule: conn_run.induct)
  case (more c tr c' i c'')
  then have c': "active c'" "fsm c' \<noteq> S_INIT" "fallbacks (fsm c) (map snd tr) = 0" by simp_all
  from step_moved [OF run_keeps_inv [OF more.hyps(1) more.prems(1)] more.hyps(2)] c'(1,2)
  obtain ev where ev: "fsm c'' = next_state (active c'') (fsm c') ev" "active c''" by (auto simp: moved_def)
  with next_state_progress [of "active c''" "fsm c'" ev] c'(2)
  have "fsm c'' = fsm c' \<or> progress (fsm c') < progress (fsm c'')" by auto
  with c' ev(2) run_last [OF more.hyps(1)] show ?case
    by (auto simp: fallbacks_snoc)
qed simp

text \<open>The run a list of inputs gives, for concrete runs.\<close>

fun regular_input :: "tcp_conn \<Rightarrow> conn_input \<Rightarrow> bool" where
  "regular_input c (Segment f) \<longleftrightarrow> regular c f"
| "regular_input c (Command cmd) \<longleftrightarrow> True"
| "regular_input c (Expire t) \<longleftrightarrow> True"

fun conn_trace :: "conn_input list \<Rightarrow> tcp_conn \<Rightarrow> ((conn_input \<times> TcpState) list \<times> tcp_conn) option" where
  "conn_trace [] c = Some ([], c)"
| "conn_trace (i # is) c =
     (if may_happen c i \<and> regular_input c i
      then (case conn_handle i c of Inl e \<Rightarrow> None
            | Inr c1 \<Rightarrow> map_option (\<lambda>(tr, c2). ((i, fsm c1) # tr, c2)) (conn_trace is c1))
      else None)"

lemma conn_stepI: "may_happen c i \<Longrightarrow> regular_input c i \<Longrightarrow> conn_handle i c = Inr c' \<Longrightarrow> conn_step c i c'"
  by (cases i) (auto intro: conn_step.intros)

lemma conn_run_Cons: "conn_run c1 tr c2 \<Longrightarrow> conn_step c i c1 \<Longrightarrow> conn_run c ((i, fsm c1) # tr) c2"
proof (induction rule: conn_run.induct)
  case (start c1)
  with conn_run.more [OF conn_run.start] show ?case by simp
next
  case (more c1 tr c2 j c3)
  with conn_run.more [OF more.IH] show ?case by simp
qed

lemma conn_trace_run: "conn_trace is c = Some (tr, c') \<Longrightarrow> conn_run c tr c'"
  by (induction "is" arbitrary: c tr)
    (auto split: if_splits sum.splits intro: conn_run.start conn_run_Cons conn_stepI)

lemma conn_trace_exists:
  "(case conn_trace is c of None \<Rightarrow> False | Some (tr, c') \<Rightarrow> P tr c') \<Longrightarrow> \<exists>tr c'. conn_run c tr c' \<and> P tr c'"
  by (auto split: option.splits dest: conn_trace_run)

text \<open>Segments of concrete runs.\<close>

definition plain_ack :: seg_facts where
  "plain_ack = \<lparr>f_addressed = True, f_rst = False, f_syn = False, f_ack = True, f_fin = False, f_len = 0, f_acceptable = True,
     f_ack_bad = False, f_syn_acked = True, f_ack_in_window = True, f_ack_ok = True, f_fin_acked = False, f_last_ack = False,
     f_space = True, f_gap_filled = False, f_fin_next = False, f_fin_sent = False, f_snd_nxt_moved = False\<rparr>"

definition open_close :: "conn_input list" where
  "open_close = [Command (OpenActive True), Segment (plain_ack\<lparr>f_syn := True\<rparr>), Command (Close True),
     Segment (plain_ack\<lparr>f_fin_acked := True\<rparr>), Segment (plain_ack\<lparr>f_fin := True, f_fin_next := True, f_fin_acked := True\<rparr>)]"

lemma open_close_trace:
  "(case conn_trace open_close conn_new of None \<Rightarrow> False
    | Some (tr, c) \<Rightarrow> fsm c = S_TIME_WAIT \<and> timer_of T_2MSL c = Pending \<and> state_changes S_INIT (map snd tr) = 5)"
  by code_simp

lemma open_close_run:
  "\<exists>tr c. conn_run conn_new tr c \<and> fsm c = S_TIME_WAIT \<and> timer_of T_2MSL c = Pending \<and> state_changes S_INIT (map snd tr) = 5"
  using open_close_trace by (auto split: option.splits dest: conn_trace_run)

section \<open>Properties\<close>

text \<open>
  C14: In a run with regular segments, the control part of a TCP connection (without header options,
  acknowledgement processing and what sends data) never raises when a regular segment arrives or a timer expires,
  its own four or one of its algorithm, in any state and for every outcome of the sequence number comparisons:
  no null timer is touched, no timer is scheduled twice, no timer runs out in a state that does not expect it.
  A command of the application to a connection that is not closed succeeds exactly when it is permitted: OPEN in
  INIT, with its addresses; SEND in SYN_SENT, SYN_RCVD, ESTABLISHED and CLOSE_WAIT, and in LISTEN if the remote
  address is known; CLOSE in LISTEN and in these four; ABORT, STATUS and the queue limit in every state but INIT;
  and READ in every state but INIT, if \<^verbatim>\<open>rcv_nxt\<close> of the connection is not ahead of that of the receive queue, as
  it is before the first SYN and, when no text came with the SYN, after the FIN of the peer.
\<close>

theorem conn_never_raises:
  assumes "conn_run conn_new tr c"
  shows "(may_happen c (Segment f) \<and> regular c f \<longrightarrow> returns (\<lambda>c'. timers_ok (fsm c') c') (processTCPSegment f c))
    \<and> (may_happen c (Expire t) \<longrightarrow> returns (\<lambda>c'. timers_ok (fsm c') c') (processTimer t c))
    \<and> (fsm c \<noteq> S_CLOSED \<longrightarrow> (\<exists>c'. processAppCommand cmd c = Inr c') = permitted cmd c)"
proof (intro conjI)
  note inv = run_inv [OF assms]
  show "may_happen c (Segment f) \<and> regular c f \<longrightarrow> returns (\<lambda>c'. timers_ok (fsm c') c') (processTCPSegment f c)"
    using segment_inv [OF inv, of f] by (auto elim!: returns_mono simp: moved_def conn_inv_def)
  show "may_happen c (Expire t) \<longrightarrow> returns (\<lambda>c'. timers_ok (fsm c') c') (processTimer t c)"
    using expire_inv [OF inv, of t] by (auto elim!: returns_mono simp: moved_def conn_inv_def)
  show "fsm c \<noteq> S_CLOSED \<longrightarrow> (\<exists>c'. processAppCommand cmd c = Inr c') = permitted cmd c"
    using command_inv [OF inv, of cmd] command_refused [of c cmd]
    by (cases "permitted cmd c") (auto simp: returns_def simp del: permitted.simps processAppCommand.simps)
qed

theorem conn_never_raises_witness:
  "\<exists>tr c. conn_run conn_new tr c \<and> fsm c = S_TIME_WAIT \<and> returns (\<lambda>c'. timers_ok (fsm c') c') (processTimer T_2MSL c)
     \<and> \<not> (\<exists>c'. processAppCommand (Close True) c = Inr c')"
proof -
  from open_close_run obtain tr c where run: "conn_run conn_new tr c" "fsm c = S_TIME_WAIT" "timer_of T_2MSL c = Pending" by blast
  with conn_never_raises [OF run(1), of plain_ack T_2MSL "Close True"] show ?thesis by auto
qed




lemma active_changes_bounded:
  assumes "processAppCommand (OpenActive True) conn_new = Inr c0" "conn_run c0 tr c"
  shows "state_changes S_SYN_SENT (map snd tr) \<le> 6"
proof -
  from command_inv [OF conn_inv_new, of "OpenActive True"] assms(1) have c0: "conn_inv c0" "fsm c0 = S_SYN_SENT" "active c0"
    by (auto simp: conn_new_def process_OPEN_ACTIVE_def start_handshake_def sendSyn_def startSynRexmitTimer_def scheduleTimeout_def
        performStateTransition_def assert_that_def next_state_def from_INIT_def stateEntered_def Let_def sendToIP_def moved_def)
  from changes_bound [OF assms(2) c0(1)] active_no_fallback [OF assms(2) c0(1,3)] c0(2) progress_le [of "fsm c"]
  show ?thesis by simp
qed

text \<open>
  C21: Along every run with regular segments, of any length and with any commands, timers of the connection
  and timers of its algorithm, a connection changes its state at most eight times, plus three times for each
  return of a passive open from SYN_RCVD to LISTEN.  How often it returns to LISTEN is not bounded; without
  such a return, all but eight of the events of a run leave the state as it is.
\<close>

theorem conn_state_changes_bounded:
  assumes "conn_run conn_new tr c"
  shows "state_changes S_INIT (map snd tr) \<le> 8 + 3 * fallbacks S_INIT (map snd tr)"
proof -
  have "fsm conn_new = S_INIT" by (simp add: conn_new_def)
  with changes_bound [OF assms conn_inv_new] progress_le [of "fsm c"] show ?thesis by simp
qed

theorem conn_state_changes_bounded_witness:
  "\<exists>tr c. conn_run conn_new tr c \<and> fsm c = S_TIME_WAIT \<and> 5 \<le> 8 + 3 * fallbacks S_INIT (map snd tr)"
  using open_close_run conn_state_changes_bounded by metis

text \<open>
  A connection in FIN_WAIT_2 has none of its four timers scheduled, whatever happened before:
  \<^verbatim>\<open>finWait2Timer\<close> is created, cancelled and handled, but never started, so only a segment of the peer, an
  abort or the algorithm ends the state.  The handler of its timeout is never reached.
\<close>

theorem conn_fin_wait_2_waits_forever:
  assumes "conn_run conn_new tr c" "fsm c = S_FIN_WAIT_2" "t \<notin> range T_ALGORITHM"
  shows "\<not> may_happen c (Expire t)"
  using run_inv [OF assms(1)] assms(2,3)
  by (cases t) (simp_all add: timer_of_def conn_inv_def timers_ok_def handshaking_def)

lemma open_close_trace_2:
  "(case conn_trace (take 4 open_close) conn_new of None \<Rightarrow> False | Some (tr, c) \<Rightarrow> fsm c = S_FIN_WAIT_2)"
  by code_simp

theorem conn_fin_wait_2_waits_forever_witness:
  "\<exists>tr c. conn_run conn_new tr c \<and> fsm c = S_FIN_WAIT_2 \<and> \<not> may_happen c (Expire T_FIN_WAIT_2)"
proof -
  from open_close_trace_2 obtain tr c where "conn_run conn_new tr c" "fsm c = S_FIN_WAIT_2"
    by (auto split: option.splits dest: conn_trace_run)
  with conn_fin_wait_2_waits_forever [of tr c T_FIN_WAIT_2] show ?thesis by blast
qed

text \<open>Inputs after which a connection whose FIN was sent waits for the FIN of the peer.\<close>

fun waits_on :: "conn_input \<Rightarrow> bool" where
  "waits_on (Command cmd) \<longleftrightarrow> cmd \<noteq> Abort"
| "waits_on (Segment f) \<longleftrightarrow> \<not> f_rst f \<and> \<not> f_syn f \<and> \<not> (f_fin f \<and> f_fin_next f) \<and> \<not> (f_text f \<and> f_gap_filled f)"
| "waits_on (Expire t) \<longleftrightarrow> t \<noteq> T_ALGORITHM True"

lemma waiting_segment:
  assumes "fsm c = S_FIN_WAIT_1 \<or> fsm c = S_FIN_WAIT_2" "waits_on (Segment f)" "processTCPSegment f c = Inr c'"
  shows "fsm c' = S_FIN_WAIT_1 \<or> fsm c' = S_FIN_WAIT_2"
  using assms
  by (auto simp: processTCPSegment_def process_RCV_SEGMENT_def processSegment1stThru8th_def process_text_and_fin_def
      performStateTransition_def assert_that_def Let_def next_state_def from_FIN_WAIT_1_def from_FIN_WAIT_2_def stateEntered_def
      split: if_splits)

lemma waiting_command:
  assumes "fsm c = S_FIN_WAIT_1 \<or> fsm c = S_FIN_WAIT_2" "cmd \<noteq> Abort" "processAppCommand cmd c = Inr c'"
  shows "fsm c' = S_FIN_WAIT_1 \<or> fsm c' = S_FIN_WAIT_2"
proof -
  from command_refused [of c cmd] assms have "permitted cmd c"
    by (cases "permitted cmd c") auto
  with assms show ?thesis
    by (cases cmd) (auto simp: process_STATUS_def process_READ_REQUEST_def performStateTransition_def assert_that_def Let_def next_state_def
        from_FIN_WAIT_1_def from_FIN_WAIT_2_def)
qed

lemma waiting_run:
  assumes "conn_run c tr c'" "conn_inv c" "fsm c = S_FIN_WAIT_1 \<or> fsm c = S_FIN_WAIT_2" "list_all waits_on (map fst tr)"
  shows "fsm c' = S_FIN_WAIT_1 \<or> fsm c' = S_FIN_WAIT_2"
  using assms
proof (induction rule: conn_run.induct)
  case (more c tr c' i c'')
  then have c': "fsm c' = S_FIN_WAIT_1 \<or> fsm c' = S_FIN_WAIT_2" "waits_on i" by simp_all
  have inv: "conn_inv c'" using run_keeps_inv more.hyps(1) more.prems(1) .
  from more.hyps(2) show ?case
  proof cases
    case (command cmd)
    with waiting_command c' show ?thesis by simp
  next
    case (segment f)
    with waiting_segment c' show ?thesis by blast
  next
    case (expire t)
    with inv c'(1,2) have "t = T_ALGORITHM False"
      by (cases t) (auto simp: timer_of_def conn_inv_def timers_ok_def handshaking_def)
    with expire c'(1) show ?thesis by (auto simp: alg_processTimer_def performStateTransition_def assert_that_def)
  qed
qed simp

text \<open>
  C28: A segment that brings the FIN of the peer, and whose acknowledgement lets our own long-deferred
  FIN go out, takes the connection to FIN_WAIT_1 as if the FIN had not come, although \<^verbatim>\<open>rcv_nxt\<close> has
  moved past it: the event of the deferred CLOSE overwrites the event of the FIN.  The application is
  never told, and as long as nobody resets or aborts the connection (not even the algorithm, after too many
  retransmissions) it stays in FIN_WAIT_1 or FIN_WAIT_2 for ever, because a FIN at the next sequence number can not come again.
\<close>

theorem conn_deferred_close_loses_fin:
  assumes "conn_run conn_new tr c" "fsm c = S_ESTABLISHED" "regular c f"
    and "f_acceptable f" "\<not> f_rst f" "\<not> f_syn f" "f_ack f" "f_ack_ok f" "\<not> f_text f"
    and "f_fin f" "f_fin_next f" "f_fin_sent f"
  shows "\<exists>c'. processTCPSegment f c = Inr c' \<and> fsm c' = S_FIN_WAIT_1 \<and> toApp c' = toApp c
    \<and> (\<forall>tr' c''. conn_run c' tr' c'' \<longrightarrow> list_all waits_on (map fst tr') \<longrightarrow> fsm c'' = S_FIN_WAIT_1 \<or> fsm c'' = S_FIN_WAIT_2)"
proof -
  from segment_inv [OF run_inv [OF assms(1)], of f] assms(2,3) obtain c' where c': "processTCPSegment f c = Inr c'" "conn_inv c'"
    by (auto simp: returns_def moved_def)
  with assms have "fsm c' = S_FIN_WAIT_1" "toApp c' = toApp c"
    by (auto simp: regular_def processTCPSegment_def process_RCV_SEGMENT_def processSegment1stThru8th_def process_text_and_fin_def fin_received_def
        performStateTransition_def assert_that_def Let_def next_state_def from_ESTABLISHED_def stateEntered_def)
  with c' waiting_run [of c' _ _] show ?thesis by blast
qed

lemma open_trace:
  "(case conn_trace (take 2 open_close @ [Command (Close False)]) conn_new of None \<Rightarrow> False
    | Some (tr, c) \<Rightarrow> fsm c = S_ESTABLISHED \<and> send_fin c)"
  by code_simp

theorem conn_deferred_close_loses_fin_witness:
  "\<exists>tr c c'. conn_run conn_new tr c \<and> fsm c = S_ESTABLISHED \<and> send_fin c
     \<and> processTCPSegment (plain_ack\<lparr>f_fin := True, f_fin_next := True, f_fin_sent := True\<rparr>) c = Inr c' \<and> fsm c' = S_FIN_WAIT_1"
proof -
  from open_trace obtain tr c where c: "conn_run conn_new tr c" "fsm c = S_ESTABLISHED" "send_fin c"
    by (auto split: option.splits dest: conn_trace_run)
  with conn_deferred_close_loses_fin [OF c(1,2), of "plain_ack\<lparr>f_fin := True, f_fin_next := True, f_fin_sent := True\<rparr>"]
  show ?thesis by (auto simp: plain_ack_def regular_def)
qed

text \<open>
  A SYN whose data finds no space leaves a passive connection in LISTEN with the timers of a handshake
  running; the first of them to expire is an internal error.
\<close>

lemma listen_syn_text_dropped:
  assumes "conn_run conn_new tr c" "fsm c = S_LISTEN" "f_addressed f" "\<not> f_rst f" "\<not> f_ack f" "f_syn f" "f_text f" "\<not> f_space f"
  shows "\<exists>c'. processTCPSegment f c = Inr c' \<and> fsm c' = S_LISTEN \<and> timer_of T_SYN_REXMIT c' = Pending
    \<and> (\<exists>e. processTimer T_SYN_REXMIT c' = Inl e) \<and> (\<exists>e. processTimer T_CONN_ESTAB c' = Inl e)"
proof -
  have timers: "synRexmitTimer c = Idle" "connEstabTimer c = Idle"
    using run_inv [OF assms(1)] assms(2) by (simp_all add: conn_inv_def timers_ok_def handshaking_def)
  have "processTCPSegment f c = Inr (sendToIP SYN_ACK (syn_received f (c\<lparr>remote_set := True\<rparr>))
      \<lparr>syn_rexmit_count := 0, syn_rexmit_timeout := 3, synRexmitTimer := Pending, connEstabTimer := Pending\<rparr>)"
    using assms(2-) timers
    by (simp add: processTCPSegment_def process_RCV_SEGMENT_def processSegmentInListen_def startSynRexmitTimer_def
        scheduleTimeout_def performStateTransition_def syn_received_def sendToIP_def)
  then show ?thesis using assms(2)
    by (auto simp: timer_of_def process_TIMEOUT_SYN_REXMIT_def process_TIMEOUT_CONN_ESTAB_def syn_received_def sendToIP_def)
qed

text \<open>
  Reading after the end.  The segment that brings the FIN of the peer in its place leaves \<^verbatim>\<open>rcv_nxt\<close> of the
  connection ahead of that of the receive queue, unless the queue had text from the SYN that the connection had
  not counted.  From then on READ stops the simulation, so an application that is notified of data and then
  reads can not get the last data of a peer that closes with it.
\<close>

theorem conn_read_after_fin_fails:
  assumes "conn_run conn_new tr c" "fsm c = S_ESTABLISHED" "regular c f"
    and "f_acceptable f" "\<not> f_rst f" "\<not> f_syn f" "f_ack f" "f_ack_ok f" "f_text f \<longrightarrow> f_space f"
    and "f_fin f" "f_fin_next f" "\<not> f_fin_sent f" "f_text f \<or> 0 \<le> rcv_ahead c"
  shows "\<exists>c'. processTCPSegment f c = Inr c' \<and> fsm c' = S_CLOSE_WAIT \<and> toApp c' = toApp c @ [I_PEER_CLOSED]
    \<and> processAppCommand ReadRequest c' = Inl (AssertionFailed ''seqLE(seq, rcv_nxt)'')"
proof -
  have "\<not> (f_text f \<and> f_gap_filled f)" using assms(3,10,11) by (auto simp: regular_def)
  then have "process_RCV_SEGMENT f c = Inr (E_RCV_FIN, c\<lparr>rcv_ahead := (if f_text f then 0 else rcv_ahead c) + 1\<rparr>)"
    using assms(2,4-12)
    by (auto simp: process_RCV_SEGMENT_def processSegment1stThru8th_def process_text_and_fin_def fin_received_def Let_def)
  then show ?thesis using assms(2,3,13)
    by (auto simp: regular_def processTCPSegment_def performStateTransition_def assert_that_def next_state_def from_ESTABLISHED_def Let_def
        stateEntered_def sendIndicationToApp_def process_READ_REQUEST_def)
qed

theorem conn_read_after_fin_fails_witness:
  "\<exists>tr c c'. conn_run conn_new tr c \<and> processTCPSegment (plain_ack\<lparr>f_fin := True, f_fin_next := True, f_len := 100\<rparr>) c = Inr c'
     \<and> processAppCommand ReadRequest c' = Inl (AssertionFailed ''seqLE(seq, rcv_nxt)'')"
proof -
  from open_trace obtain tr c where c: "conn_run conn_new tr c" "fsm c = S_ESTABLISHED"
    by (auto split: option.splits dest: conn_trace_run)
  with conn_read_after_fin_fails [OF c, of "plain_ack\<lparr>f_fin := True, f_fin_next := True, f_len := 100\<rparr>"]
  show ?thesis by (auto simp: plain_ack_def regular_def)
qed

end
