(* ===== verification/PassiveQueues.thy ===== *)
theory PassiveQueues
  imports NdnPrelude "HOL-Library.Sublist" "HOL-Library.Multiset"
begin

text \<open>
  The packet queues between layers, \<^verbatim>\<open>inet/common/queue/\<close>: \<^verbatim>\<open>PassiveQueueBase\<close> (packets are pulled
  out by requests), with the disciplines \<^verbatim>\<open>DropTailQueue\<close> and \<^verbatim>\<open>FIFOQueue\<close>.  The virtual functions
  \<^verbatim>\<open>enqueue\<close> and \<^verbatim>\<open>dequeue\<close> are arguments of the base class operations; their contract is the locale
  \<open>packet_queue\<close>, which both disciplines interpret.  \<^verbatim>\<open>cQueue\<close> of OMNeT++ is a list: \<^verbatim>\<open>insert\<close> appends,
  \<^verbatim>\<open>pop\<close> takes the front.
\<close>

section \<open>Messages and effects\<close>

datatype cmessage = Packet nat int | Message nat

fun getByteLength :: "cmessage \<Rightarrow> int" where
  "getByteLength (Packet i len) = len"
| "getByteLength (Message i) = 0"

text \<open>What an operation does to its surroundings, in order.\<close>

datatype queue_output = SendOut cmessage | Dropped cmessage | PacketEnqueued nat

text \<open>\<^verbatim>\<open>check_and_cast<cPacket *>\<close>.\<close>

fun cast_packet :: "cmessage \<Rightarrow> sim_error + cmessage" where
  "cast_packet (Packet i len) = Inr (Packet i len)"
| "cast_packet (Message i) = Inl (RuntimeError ''check_and_cast: cannot cast to cPacket'')"

section \<open>PassiveQueueBase\<close>

record 'q pqueue =
  discipline :: 'q
  packetRequested :: int
  numQueueReceived :: int
  numQueueDropped :: int
  listeners :: "nat list"

type_synonym 'q enqueue_fun = "cmessage \<Rightarrow> 'q \<Rightarrow> sim_error + cmessage option \<times> 'q"
type_synonym 'q dequeue_fun = "'q \<Rightarrow> sim_error + cmessage option \<times> 'q"

definition passive_initialize :: "'q \<Rightarrow> nat list \<Rightarrow> 'q pqueue" where
  "passive_initialize q ls =
     \<lparr>discipline = q, packetRequested = 0, numQueueReceived = 0, numQueueDropped = 0, listeners = ls\<rparr>"

definition notifyListeners :: "'q pqueue \<Rightarrow> queue_output list" where
  "notifyListeners s = map PacketEnqueued (listeners s)"

definition passive_handleMessage ::
  "'q enqueue_fun \<Rightarrow> cmessage \<Rightarrow> 'q pqueue \<Rightarrow> sim_error + queue_output list \<times> 'q pqueue" where
  "passive_handleMessage enqueue msg s0 =
     (let s = s0\<lparr>numQueueReceived := numQueueReceived s0 + 1\<rparr> in
      if packetRequested s > 0 then
        Inr ([SendOut msg], s\<lparr>packetRequested := packetRequested s - 1\<rparr>)
      else bind_result (enqueue msg (discipline s)) (\<lambda>(droppedMsg, q).
        let s1 = s\<lparr>discipline := q\<rparr> in
        case droppedMsg of
          Some d \<Rightarrow> Inr ([Dropped d], s1\<lparr>numQueueDropped := numQueueDropped s1 + 1\<rparr>)
        | None \<Rightarrow> Inr (notifyListeners s1, s1)))"

definition passive_requestPacket ::
  "'q dequeue_fun \<Rightarrow> 'q pqueue \<Rightarrow> sim_error + queue_output list \<times> 'q pqueue" where
  "passive_requestPacket dequeue s =
     bind_result (dequeue (discipline s)) (\<lambda>(msg, q).
       let s1 = s\<lparr>discipline := q\<rparr> in
       case msg of
         None \<Rightarrow> Inr ([], s1\<lparr>packetRequested := packetRequested s1 + 1\<rparr>)
       | Some m \<Rightarrow> Inr ([SendOut m], s1))"

definition passive_pop :: "'q dequeue_fun \<Rightarrow> 'q pqueue \<Rightarrow> sim_error + cmessage option \<times> 'q pqueue" where
  "passive_pop dequeue s = bind_result (dequeue (discipline s)) (\<lambda>(msg, q). Inr (msg, s\<lparr>discipline := q\<rparr>))"

text \<open>The loop of \<^verbatim>\<open>clear\<close> ends when \<^verbatim>\<open>dequeue\<close> has nothing more to give; \<open>None\<close> if it never does.\<close>

partial_function (option) clear_loop :: "'q dequeue_fun \<Rightarrow> 'q \<Rightarrow> (sim_error + 'q) option" where
  "clear_loop dequeue q =
     (case dequeue q of
        Inl e \<Rightarrow> Some (Inl e)
      | Inr (None, q') \<Rightarrow> Some (Inr q')
      | Inr (Some m, q') \<Rightarrow> clear_loop dequeue q')"

definition passive_clear :: "'q dequeue_fun \<Rightarrow> 'q pqueue \<Rightarrow> (sim_error + 'q pqueue) option" where
  "passive_clear dequeue s =
     map_option (\<lambda>r. bind_result r (\<lambda>q. Inr (s\<lparr>discipline := q, packetRequested := 0\<rparr>)))
       (clear_loop dequeue (discipline s))"

definition addListener :: "nat \<Rightarrow> 'q pqueue \<Rightarrow> 'q pqueue" where
  "addListener l s = (if l \<in> set (listeners s) then s else s\<lparr>listeners := listeners s @ [l]\<rparr>)"

definition removeListener :: "nat \<Rightarrow> 'q pqueue \<Rightarrow> 'q pqueue" where
  "removeListener l s = s\<lparr>listeners := remove1 l (listeners s)\<rparr>"

section \<open>Disciplines\<close>

record droptail =
  dt_frameCapacity :: int
  dt_queue :: "cmessage list"

definition droptail_initialize :: "int \<Rightarrow> droptail" where
  "droptail_initialize capacity = \<lparr>dt_frameCapacity = capacity, dt_queue = []\<rparr>"

definition droptail_enqueue :: "droptail enqueue_fun" where
  "droptail_enqueue msg q =
     (if dt_frameCapacity q \<noteq> 0 \<and> int (length (dt_queue q)) \<ge> dt_frameCapacity q then Inr (Some msg, q)
      else Inr (None, q\<lparr>dt_queue := dt_queue q @ [msg]\<rparr>))"

definition droptail_dequeue :: "droptail dequeue_fun" where
  "droptail_dequeue q =
     (case dt_queue q of [] \<Rightarrow> Inr (None, q) | msg # rest \<Rightarrow> Inr (Some msg, q\<lparr>dt_queue := rest\<rparr>))"

definition droptail_isEmpty :: "droptail \<Rightarrow> bool" where
  "droptail_isEmpty q = (dt_queue q = [])"

record fifo =
  fifo_queue :: "cmessage list"
  fifo_byteLength :: int

definition fifo_initialize :: fifo where
  "fifo_initialize = \<lparr>fifo_queue = [], fifo_byteLength = 0\<rparr>"

definition fifo_enqueue :: "fifo enqueue_fun" where
  "fifo_enqueue msg q =
     bind_result (cast_packet msg) (\<lambda>packet.
       Inr (None, q\<lparr>fifo_queue := fifo_queue q @ [packet], fifo_byteLength := fifo_byteLength q + getByteLength packet\<rparr>))"

definition fifo_dequeue :: "fifo dequeue_fun" where
  "fifo_dequeue q =
     (case fifo_queue q of
        [] \<Rightarrow> Inr (None, q)
      | msg # rest \<Rightarrow> bind_result (cast_packet msg) (\<lambda>packet.
          Inr (Some packet, q\<lparr>fifo_queue := rest, fifo_byteLength := fifo_byteLength q - getByteLength packet\<rparr>)))"

definition fifo_isEmpty :: "fifo \<Rightarrow> bool" where
  "fifo_isEmpty q = (fifo_queue q = [])"

definition fifo_getLength :: "fifo \<Rightarrow> int" where
  "fifo_getLength q = int (length (fifo_queue q))"

section \<open>Runs of a queue\<close>

text \<open>Arrivals and requests in any order, with the list of all that the queue did.\<close>

datatype queue_op = Arrive cmessage | Request

fun queue_exec :: "'q enqueue_fun \<Rightarrow> 'q dequeue_fun \<Rightarrow> queue_op \<Rightarrow> 'q pqueue \<times> queue_output list
    \<Rightarrow> sim_error + 'q pqueue \<times> queue_output list" where
  "queue_exec enqueue dequeue (Arrive m) (s, hist) =
     bind_result (passive_handleMessage enqueue m s) (\<lambda>(out, s'). Inr (s', hist @ out))"
| "queue_exec enqueue dequeue Request (s, hist) =
     bind_result (passive_requestPacket dequeue s) (\<lambda>(out, s'). Inr (s', hist @ out))"

fun sent :: "queue_output list \<Rightarrow> cmessage list" where
  "sent [] = []"
| "sent (SendOut m # out) = m # sent out"
| "sent (_ # out) = sent out"

fun dropped :: "queue_output list \<Rightarrow> cmessage list" where
  "dropped [] = []"
| "dropped (Dropped m # out) = m # dropped out"
| "dropped (_ # out) = dropped out"

fun arrivals :: "queue_op list \<Rightarrow> cmessage list" where
  "arrivals [] = []"
| "arrivals (Arrive m # ops) = m # arrivals ops"
| "arrivals (Request # ops) = arrivals ops"

lemma sent_append [simp]: "sent (xs @ ys) = sent xs @ sent ys"
  by (induction xs rule: sent.induct) simp_all

lemma dropped_append [simp]: "dropped (xs @ ys) = dropped xs @ dropped ys"
  by (induction xs rule: dropped.induct) simp_all

lemma notify_silent [simp]: "sent (map PacketEnqueued ls) = []" "dropped (map PacketEnqueued ls) = []"
  by (induction ls) simp_all

section \<open>The contract of a discipline\<close>

text \<open>
  \<open>items\<close> are the queued messages, \<open>okay\<close> the messages that may be put in.  A message is appended or
  refused; the front is taken out.
\<close>

locale packet_queue =
  fixes enqueue :: "'q enqueue_fun"
    and dequeue :: "'q dequeue_fun"
    and items :: "'q \<Rightarrow> cmessage list"
    and valid :: "'q \<Rightarrow> bool"
    and okay :: "cmessage \<Rightarrow> bool"
    and full :: "'q \<Rightarrow> bool"
  assumes enqueue_full: "valid q \<Longrightarrow> okay m \<Longrightarrow> full q \<Longrightarrow> enqueue m q = Inr (Some m, q)"
    and enqueue_room: "valid q \<Longrightarrow> okay m \<Longrightarrow> \<not> full q \<Longrightarrow>
      \<exists>q'. enqueue m q = Inr (None, q') \<and> valid q' \<and> items q' = items q @ [m]"
    and dequeue_empty: "valid q \<Longrightarrow> items q = [] \<Longrightarrow> dequeue q = Inr (None, q)"
    and dequeue_front: "valid q \<Longrightarrow> items q = m # ms \<Longrightarrow>
      \<exists>q'. dequeue q = Inr (Some m, q') \<and> valid q' \<and> items q' = ms"
begin

text \<open>Requests wait only in an empty queue.\<close>

definition queue_inv :: "'q pqueue \<Rightarrow> bool" where
  "queue_inv s \<longleftrightarrow> valid (discipline s) \<and> 0 \<le> packetRequested s
     \<and> (0 < packetRequested s \<longrightarrow> items (discipline s) = [])"

lemma arrival:
  assumes "queue_inv s" "okay m"
  shows "\<exists>out s'. passive_handleMessage enqueue m s = Inr (out, s') \<and> queue_inv s'
    \<and> listeners s' = listeners s \<and> numQueueReceived s' = numQueueReceived s + 1
    \<and> numQueueDropped s' = numQueueDropped s + (if 0 < packetRequested s \<or> \<not> full (discipline s) then 0 else 1)
    \<and> (if 0 < packetRequested s
       then out = [SendOut m] \<and> discipline s' = discipline s \<and> packetRequested s' = packetRequested s - 1
       else packetRequested s' = 0 \<and>
         (if full (discipline s) then out = [Dropped m] \<and> discipline s' = discipline s
          else out = map PacketEnqueued (listeners s) \<and> items (discipline s') = items (discipline s) @ [m]))"
proof (cases "0 < packetRequested s")
  case True
  then show ?thesis using assms by (auto simp: passive_handleMessage_def queue_inv_def)
next
  case False
  then have zero: "packetRequested s = 0" using assms(1) by (simp add: queue_inv_def)
  show ?thesis
  proof (cases "full (discipline s)")
    case True
    then show ?thesis using zero assms enqueue_full [of "discipline s" m]
      by (auto simp: passive_handleMessage_def queue_inv_def Let_def)
  next
    case full: False
    then obtain q' where "enqueue m (discipline s) = Inr (None, q')" "valid q'" "items q' = items (discipline s) @ [m]"
      using enqueue_room [of "discipline s" m] assms by (auto simp: queue_inv_def)
    then show ?thesis using zero full by (auto simp: passive_handleMessage_def queue_inv_def notifyListeners_def Let_def)
  qed
qed

lemma request:
  assumes "queue_inv s"
  shows "\<exists>out s'. passive_requestPacket dequeue s = Inr (out, s') \<and> queue_inv s'
    \<and> listeners s' = listeners s \<and> numQueueReceived s' = numQueueReceived s \<and> numQueueDropped s' = numQueueDropped s
    \<and> (case items (discipline s) of
         [] \<Rightarrow> out = [] \<and> items (discipline s') = [] \<and> packetRequested s' = packetRequested s + 1
       | m # ms \<Rightarrow> out = [SendOut m] \<and> items (discipline s') = ms \<and> packetRequested s' = packetRequested s)"
proof (cases "items (discipline s)")
  case Nil
  then show ?thesis using assms dequeue_empty [of "discipline s"]
    by (auto simp: passive_requestPacket_def queue_inv_def Let_def)
next
  case (Cons m ms)
  then obtain q' where "dequeue (discipline s) = Inr (Some m, q')" "valid q'" "items q' = ms"
    using dequeue_front [of "discipline s" m ms] assms by (auto simp: queue_inv_def)
  then show ?thesis using assms Cons by (auto simp: passive_requestPacket_def queue_inv_def Let_def)
qed

text \<open>One step: what leaves and what stays comes, in order, from what was there and what arrived.\<close>

lemma step:
  assumes "queue_inv s" "list_all okay (arrivals [op])"
  shows "\<exists>out s'. queue_exec enqueue dequeue op (s, hist) = Inr (s', hist @ out) \<and> queue_inv s'
    \<and> subseq (sent out @ items (discipline s')) (items (discipline s) @ arrivals [op])
    \<and> mset (items (discipline s)) + mset (arrivals [op]) = mset (sent out) + mset (items (discipline s')) + mset (dropped out)
    \<and> numQueueReceived s' = numQueueReceived s + int (length (arrivals [op]))
    \<and> numQueueDropped s' = numQueueDropped s + int (length (dropped out))
    \<and> ((\<forall>q. \<not> full q) \<longrightarrow> dropped out = [])"
proof (cases op)
  case (Arrive m)
  then show ?thesis using arrival [OF assms(1), of m] assms by (auto simp: queue_inv_def split: if_splits)
next
  case Request
  show ?thesis
  proof (cases "items (discipline s)")
    case Nil
    then show ?thesis using request [OF assms(1)] Request by fastforce
  next
    case (Cons m ms)
    then show ?thesis using request [OF assms(1)] Request by fastforce
  qed
qed

lemma run:
  assumes "queue_inv s" "list_all okay (arrivals ops)"
  shows "\<exists>out s'. run_result (queue_exec enqueue dequeue) ops (s, hist) = Inr (s', hist @ out) \<and> queue_inv s'
    \<and> subseq (sent out @ items (discipline s')) (items (discipline s) @ arrivals ops)
    \<and> mset (items (discipline s)) + mset (arrivals ops) = mset (sent out) + mset (items (discipline s')) + mset (dropped out)
    \<and> numQueueReceived s' = numQueueReceived s + int (length (arrivals ops))
    \<and> numQueueDropped s' = numQueueDropped s + int (length (dropped out))
    \<and> ((\<forall>q. \<not> full q) \<longrightarrow> dropped out = [])"
  using assms
proof (induction ops arbitrary: s hist)
  case Nil
  then show ?case by (intro exI [of _ "[]"] exI [of _ s]) simp
next
  case (Cons op ops)
  have arr: "arrivals (op # ops) = arrivals [op] @ arrivals ops" by (cases op) simp_all
  obtain out1 s1 where 1: "queue_exec enqueue dequeue op (s, hist) = Inr (s1, hist @ out1)" "queue_inv s1"
    "subseq (sent out1 @ items (discipline s1)) (items (discipline s) @ arrivals [op])"
    "mset (items (discipline s)) + mset (arrivals [op]) = mset (sent out1) + mset (items (discipline s1)) + mset (dropped out1)"
    "numQueueReceived s1 = numQueueReceived s + int (length (arrivals [op]))"
    "numQueueDropped s1 = numQueueDropped s + int (length (dropped out1))" "(\<forall>q. \<not> full q) \<longrightarrow> dropped out1 = []"
    using step [OF Cons.prems(1), of op hist] Cons.prems(2) unfolding arr list_all_append by blast
  obtain out2 s2 where 2: "run_result (queue_exec enqueue dequeue) ops (s1, hist @ out1) = Inr (s2, (hist @ out1) @ out2)" "queue_inv s2"
    "subseq (sent out2 @ items (discipline s2)) (items (discipline s1) @ arrivals ops)"
    "mset (items (discipline s1)) + mset (arrivals ops) = mset (sent out2) + mset (items (discipline s2)) + mset (dropped out2)"
    "numQueueReceived s2 = numQueueReceived s1 + int (length (arrivals ops))"
    "numQueueDropped s2 = numQueueDropped s1 + int (length (dropped out2))" "(\<forall>q. \<not> full q) \<longrightarrow> dropped out2 = []"
    using Cons.IH [OF 1(2), of "hist @ out1"] Cons.prems(2) unfolding arr list_all_append by blast
  have "subseq (sent out1 @ sent out2 @ items (discipline s2)) ((sent out1 @ items (discipline s1)) @ arrivals ops)"
    unfolding append_assoc by (rule list_emb_append_mono [OF _ 2(3)]) simp
  also have "subseq \<dots> ((items (discipline s) @ arrivals [op]) @ arrivals ops)"
    using 1(3) by (rule list_emb_append_mono) simp
  finally have sub: "subseq (sent (out1 @ out2) @ items (discipline s2)) (items (discipline s) @ arrivals (op # ops))"
    by (simp add: arr)
  have "mset (items (discipline s)) + mset (arrivals (op # ops))
      = mset (sent (out1 @ out2)) + mset (items (discipline s2)) + mset (dropped (out1 @ out2))"
    using 1(4) 2(4) unfolding arr by (simp add: algebra_simps)
  then show ?case using 1(1,5-7) 2(1,2,5-7) sub arr by (intro exI [of _ "out1 @ out2"] exI [of _ s2]) simp
qed

text \<open>\<^verbatim>\<open>clear\<close> ends, whatever is queued, and leaves an empty queue without requests.\<close>

lemma clear_loop_ends: "valid q \<Longrightarrow> \<exists>q'. clear_loop dequeue q = Some (Inr q') \<and> valid q' \<and> items q' = []"
proof (induction "items q" arbitrary: q)
  case Nil
  then show ?case using dequeue_empty [of q] by (auto simp: clear_loop.simps)
next
  case (Cons m ms)
  from Cons.hyps(2) have "items q = m # ms" by simp
  then obtain q1 where q1: "dequeue q = Inr (Some m, q1)" "valid q1" "items q1 = ms"
    using dequeue_front [OF Cons.prems] by blast
  then obtain q' where "clear_loop dequeue q1 = Some (Inr q')" "valid q'" "items q' = []"
    using Cons.hyps(1) by blast
  then show ?case using q1(1) by (auto simp: clear_loop.simps [of _ q])
qed

lemma clear:
  assumes "queue_inv s"
  shows "\<exists>s'. passive_clear dequeue s = Some (Inr s') \<and> queue_inv s' \<and> items (discipline s') = [] \<and> packetRequested s' = 0"
  using clear_loop_ends [of "discipline s"] assms by (auto simp: passive_clear_def queue_inv_def)

end

text \<open>Both disciplines keep the contract.\<close>

interpretation droptail: packet_queue droptail_enqueue droptail_dequeue dt_queue "\<lambda>q. True" "\<lambda>m. True"
  "\<lambda>q. dt_frameCapacity q \<noteq> 0 \<and> int (length (dt_queue q)) \<ge> dt_frameCapacity q"
  by unfold_locales (auto simp: droptail_enqueue_def droptail_dequeue_def)

fun is_packet :: "cmessage \<Rightarrow> bool" where
  "is_packet (Packet i len) \<longleftrightarrow> True"
| "is_packet (Message i) \<longleftrightarrow> False"

lemma cast_is_packet [simp]: "is_packet m \<Longrightarrow> cast_packet m = Inr m"
  by (cases m) simp_all

definition fifo_valid :: "fifo \<Rightarrow> bool" where
  "fifo_valid q \<longleftrightarrow> list_all is_packet (fifo_queue q) \<and> fifo_byteLength q = sum_list (map getByteLength (fifo_queue q))"

interpretation fifo: packet_queue fifo_enqueue fifo_dequeue fifo_queue fifo_valid is_packet "\<lambda>q. False"
  by unfold_locales (auto simp: fifo_enqueue_def fifo_dequeue_def fifo_valid_def)

section \<open>Bounds and contents\<close>

lemma droptail_bound:
  assumes "run_result (queue_exec droptail_enqueue droptail_dequeue) ops (s, hist) = Inr (s', hist')"
    and "0 < dt_frameCapacity (discipline s)" "int (length (dt_queue (discipline s))) \<le> dt_frameCapacity (discipline s)"
  shows "dt_frameCapacity (discipline s') = dt_frameCapacity (discipline s)
    \<and> int (length (dt_queue (discipline s'))) \<le> dt_frameCapacity (discipline s)"
  using assms
proof (induction ops arbitrary: s hist)
  case (Cons op ops)
  obtain s1 hist1 where 1: "queue_exec droptail_enqueue droptail_dequeue op (s, hist) = Inr (s1, hist1)"
    "run_result (queue_exec droptail_enqueue droptail_dequeue) ops (s1, hist1) = Inr (s', hist')"
    using Cons.prems(1) by (auto simp: bind_result_Inr_iff)
  have "dt_frameCapacity (discipline s1) = dt_frameCapacity (discipline s)
    \<and> int (length (dt_queue (discipline s1))) \<le> dt_frameCapacity (discipline s)"
    using 1(1) Cons.prems(2,3)
    by (cases op) (auto simp: passive_handleMessage_def passive_requestPacket_def droptail_enqueue_def
        droptail_dequeue_def Let_def bind_result_Inr_iff split: if_splits list.splits)
  then show ?case using Cons.IH [OF 1(2)] Cons.prems(2) by simp
qed simp

section \<open>Properties\<close>

text \<open>
  A drop-tail queue.  Whatever arrives and whatever is requested from a queue of positive
  capacity: the messages sent, followed by those still queued, are a subsequence of the arrivals in
  their order; every arrival is sent, queued or dropped, once; the queue never exceeds its capacity;
  a request waits only while nothing is queued; the counters agree with what happened.
\<close>

theorem droptail_runs:
  assumes "0 < capacity"
  shows "\<exists>s hist. run_result (queue_exec droptail_enqueue droptail_dequeue) ops
      (passive_initialize (droptail_initialize capacity) ls, []) = Inr (s, hist)
    \<and> subseq (sent hist @ dt_queue (discipline s)) (arrivals ops)
    \<and> mset (arrivals ops) = mset (sent hist) + mset (dt_queue (discipline s)) + mset (dropped hist)
    \<and> int (length (dt_queue (discipline s))) \<le> capacity
    \<and> (packetRequested s = 0 \<or> dt_queue (discipline s) = [])
    \<and> numQueueReceived s = int (length (arrivals ops)) \<and> numQueueDropped s = int (length (dropped hist))"
proof -
  let ?s = "passive_initialize (droptail_initialize capacity) ls"
  have inv: "droptail.queue_inv ?s" by (simp add: droptail.queue_inv_def passive_initialize_def)
  have "list_all (\<lambda>m. True) (arrivals ops)" by (simp add: list_all_iff)
  from droptail.run [OF inv this, of "[]"] obtain out s where
    r: "run_result (queue_exec droptail_enqueue droptail_dequeue) ops (?s, []) = Inr (s, out)" "droptail.queue_inv s"
      "subseq (sent out @ dt_queue (discipline s)) (dt_queue (discipline ?s) @ arrivals ops)"
      "mset (dt_queue (discipline ?s)) + mset (arrivals ops) = mset (sent out) + mset (dt_queue (discipline s)) + mset (dropped out)"
      "numQueueReceived s = numQueueReceived ?s + int (length (arrivals ops))"
      "numQueueDropped s = numQueueDropped ?s + int (length (dropped out))"
    unfolding append_Nil by blast
  then show ?thesis
    using droptail_bound [OF r(1)] assms
    by (auto simp: passive_initialize_def droptail_initialize_def droptail.queue_inv_def)
qed

theorem droptail_runs_witness:
  "\<exists>s hist. run_result (queue_exec droptail_enqueue droptail_dequeue) [Request, Arrive (Message 1), Arrive (Message 2), Arrive (Message 3)]
      (passive_initialize (droptail_initialize 1) [], []) = Inr (s, hist)
    \<and> subseq (sent hist @ dt_queue (discipline s)) [Message 1, Message 2, Message 3]
    \<and> int (length (dt_queue (discipline s))) \<le> 1"
  using droptail_runs [of 1 "[Request, Arrive (Message 1), Arrive (Message 2), Arrive (Message 3)]" "[]"] by auto

text \<open>
  A FIFO queue loses nothing.  If only packets arrive, the packets sent followed by those still
  queued are exactly the arrivals, in order; nothing is dropped, and the byte length is the sum of the
  lengths of the packets queued.
\<close>

theorem fifo_runs:
  assumes "list_all is_packet (arrivals ops)"
  shows "\<exists>s hist. run_result (queue_exec fifo_enqueue fifo_dequeue) ops (passive_initialize fifo_initialize ls, []) = Inr (s, hist)
    \<and> sent hist @ fifo_queue (discipline s) = arrivals ops \<and> dropped hist = []
    \<and> fifo_byteLength (discipline s) = sum_list (map getByteLength (fifo_queue (discipline s)))
    \<and> (packetRequested s = 0 \<or> fifo_queue (discipline s) = [])"
proof -
  let ?s = "passive_initialize fifo_initialize ls"
  have inv: "fifo.queue_inv ?s"
    by (simp add: fifo.queue_inv_def passive_initialize_def fifo_initialize_def fifo_valid_def)
  from fifo.run [OF inv assms, of "[]"] obtain out s where
    r: "run_result (queue_exec fifo_enqueue fifo_dequeue) ops (?s, []) = Inr (s, out)" "fifo.queue_inv s"
      "subseq (sent out @ fifo_queue (discipline s)) (fifo_queue (discipline ?s) @ arrivals ops)"
      "mset (fifo_queue (discipline ?s)) + mset (arrivals ops) = mset (sent out) + mset (fifo_queue (discipline s)) + mset (dropped out)" "dropped out = []"
    unfolding append_Nil by blast
  have "length (sent out @ fifo_queue (discipline s)) = length (arrivals ops)"
    using arg_cong [OF r(4), of size] r(5) by (simp add: passive_initialize_def fifo_initialize_def)
  then have "sent out @ fifo_queue (discipline s) = arrivals ops"
    using r(3) by (intro subseq_same_length) (simp_all add: passive_initialize_def fifo_initialize_def)
  then show ?thesis using r(1,2,5) by (auto simp: fifo.queue_inv_def fifo_valid_def)
qed

theorem fifo_runs_witness:
  "\<exists>s hist. run_result (queue_exec fifo_enqueue fifo_dequeue) [Arrive (Packet 1 100), Request, Arrive (Packet 2 50)]
      (passive_initialize fifo_initialize [], []) = Inr (s, hist)
    \<and> sent hist @ fifo_queue (discipline s) = [Packet 1 100, Packet 2 50] \<and> dropped hist = []"
  using fifo_runs [of "[Arrive (Packet 1 100), Request, Arrive (Packet 2 50)]" "[]"] by auto

end
