(* ===== verification/QueueServer.thy ===== *)
theory QueueServer
  imports PassiveQueues
begin

text \<open>
  Single-server queues, \<^verbatim>\<open>inet/common/queue/AbstractQueue.{h,cc}\<close> and \<^verbatim>\<open>QueueBase.{h,cc}\<close>: the
  message in service, the messages behind it and the timer of the end of service.  \<^verbatim>\<open>startService\<close> is
  an argument of the base class operations; what \<^verbatim>\<open>endService\<close> does with a message is up to the
  subclass, so a message handed to it is an output.
\<close>

record server =
  msgServiced :: "cmessage option"
  sv_queue :: "cmessage list"
  endServiceMsg :: "simtime option"

definition server_initialize :: server where
  "server_initialize = \<lparr>msgServiced = None, sv_queue = [], endServiceMsg = None\<rparr>"

text \<open>\<^verbatim>\<open>scheduleAt\<close> refuses a time in the past.\<close>

definition schedule_end :: "simtime \<Rightarrow> simtime \<Rightarrow> server \<Rightarrow> sim_error + server" where
  "schedule_end now t s =
     (if t < now then Inl (RuntimeError ''scheduleAt: cannot schedule message into the past'')
      else Inr (s\<lparr>endServiceMsg := Some t\<rparr>))"

text \<open>
  \<^verbatim>\<open>doStartService\<close> and \<^verbatim>\<open>doEndService\<close> call each other without a timer as long as the service time is
  zero; they stop because each round takes a message out of the queue.
\<close>

function doStartService :: "(cmessage \<Rightarrow> simtime) \<Rightarrow> simtime \<Rightarrow> cmessage \<Rightarrow> cmessage list \<Rightarrow> sim_error + cmessage list \<times> server"
  and doEndService :: "(cmessage \<Rightarrow> simtime) \<Rightarrow> simtime \<Rightarrow> cmessage \<Rightarrow> cmessage list \<Rightarrow> sim_error + cmessage list \<times> server" where
  "doStartService startService now msg queue =
     (if startService msg \<noteq> 0 then
        bind_result (schedule_end now (now + startService msg) \<lparr>msgServiced = Some msg, sv_queue = queue, endServiceMsg = None\<rparr>)
          (\<lambda>s. Inr ([], s))
      else doEndService startService now msg queue)"
| "doEndService startService now msg queue =
     (case queue of
        [] \<Rightarrow> Inr ([msg], \<lparr>msgServiced = None, sv_queue = [], endServiceMsg = None\<rparr>)
      | msg' # queue' \<Rightarrow>
          bind_result (doStartService startService now msg' queue') (\<lambda>(ended, s). Inr (msg # ended, s)))"
  by pat_completeness auto

termination
  by (relation "measure (\<lambda>x. case x of Inl (_, _, _, q) \<Rightarrow> 2 * length q + 1 | Inr (_, _, _, q) \<Rightarrow> 2 * length q)") auto

declare doStartService.simps [simp del] doEndService.simps [simp del]

datatype server_message = EndService | Arrival cmessage

text \<open>\<^verbatim>\<open>handleMessage\<close>: the timer, a message for an idle server, a message for a busy one.\<close>

definition server_handleMessage ::
  "(cmessage \<Rightarrow> simtime) \<Rightarrow> (cmessage \<Rightarrow> cmessage option) \<Rightarrow> (cmessage \<Rightarrow> cmessage list \<Rightarrow> cmessage list)
   \<Rightarrow> simtime \<Rightarrow> server_message \<Rightarrow> server \<Rightarrow> sim_error + cmessage list \<times> server" where
  "server_handleMessage startService arrivalWhenIdle arrival now msg s =
     (case msg of
        EndService \<Rightarrow>
          (case msgServiced s of
             Some m \<Rightarrow> doEndService startService now m (sv_queue s)
           | None \<Rightarrow> Inl (UndefinedBehaviour ''endService of nullptr''))
      | Arrival m0 \<Rightarrow>
          bind_result (cast_packet m0) (\<lambda>m.
            if msgServiced s = None then
              (case arrivalWhenIdle m of
                 None \<Rightarrow> Inr ([], s)
               | Some m2 \<Rightarrow> doStartService startService now m2 (sv_queue s))
            else Inr ([], s\<lparr>sv_queue := arrival m (sv_queue s)\<rparr>)))"

definition cancelService :: "server \<Rightarrow> cmessage option \<times> server" where
  "cancelService s =
     (case msgServiced s of
        None \<Rightarrow> (None, s)
      | Some m \<Rightarrow> (Some m, s\<lparr>endServiceMsg := None, msgServiced := None\<rparr>))"

section \<open>QueueBase\<close>

definition qb_arrival :: "cmessage \<Rightarrow> cmessage list \<Rightarrow> cmessage list" where
  "qb_arrival msg queue = queue @ [msg]"

definition qb_arrivalWhenIdle :: "cmessage \<Rightarrow> cmessage option" where
  "qb_arrivalWhenIdle msg = Some msg"

definition qb_startService :: "simtime \<Rightarrow> cmessage \<Rightarrow> simtime" where
  "qb_startService delay msg = delay"

definition qb_handleMessage :: "simtime \<Rightarrow> simtime \<Rightarrow> server_message \<Rightarrow> server \<Rightarrow> sim_error + cmessage list \<times> server" where
  "qb_handleMessage delay = server_handleMessage (qb_startService delay) qb_arrivalWhenIdle qb_arrival"

section \<open>Runs\<close>

text \<open>
  Messages arrive at given times; between two arrivals the timer fires whenever it is due.  A run has
  the current time, the server and what was handed to \<^verbatim>\<open>endService\<close>, with the times.
\<close>

fun serve_until :: "nat \<Rightarrow> simtime \<Rightarrow> simtime \<Rightarrow> server \<times> (simtime \<times> cmessage) list \<Rightarrow> sim_error + server \<times> (simtime \<times> cmessage) list" where
  "serve_until 0 delay now (s, ended) = Inr (s, ended)"
| "serve_until (Suc n) delay now (s, ended) =
     (case endServiceMsg s of
        None \<Rightarrow> Inr (s, ended)
      | Some t \<Rightarrow>
          if t \<le> now then
            bind_result (qb_handleMessage delay t EndService (s\<lparr>endServiceMsg := None\<rparr>))
              (\<lambda>(out, s'). serve_until n delay now (s', ended @ map (Pair t) out))
          else Inr (s, ended))"

fun qb_run :: "simtime \<Rightarrow> (simtime \<times> cmessage) list \<Rightarrow> server \<times> (simtime \<times> cmessage) list \<Rightarrow> sim_error + server \<times> (simtime \<times> cmessage) list" where
  "qb_run delay [] (s, ended) = Inr (s, ended)"
| "qb_run delay ((now, m) # arr) (s, ended) =
     bind_result (serve_until (Suc (length (sv_queue s))) delay now (s, ended)) (\<lambda>(s1, ended1).
     bind_result (qb_handleMessage delay now (Arrival m) s1) (\<lambda>(out, s2).
     qb_run delay arr (s2, ended1 @ map (Pair now) out)))"

text \<open>When each arrival leaves: it starts when it has arrived and its predecessor has left.\<close>

fun departures :: "simtime \<Rightarrow> simtime \<Rightarrow> (simtime \<times> cmessage) list \<Rightarrow> (simtime \<times> cmessage) list" where
  "departures delay free [] = []"
| "departures delay free ((now, m) # arr) =
     (let t = max free now + delay in (t, m) # departures delay t arr)"

text \<open>What is still to come from a server: the message in service at its time, the others after it.\<close>

fun later :: "simtime \<Rightarrow> simtime \<Rightarrow> cmessage list \<Rightarrow> (simtime \<times> cmessage) list" where
  "later delay t [] = []"
| "later delay t (m # queue) = (t + delay, m) # later delay (t + delay) queue"

definition to_come :: "simtime \<Rightarrow> server \<Rightarrow> (simtime \<times> cmessage) list" where
  "to_come delay s = (case (msgServiced s, endServiceMsg s) of
     (Some m, Some t) \<Rightarrow> (t, m) # later delay t (sv_queue s) | _ \<Rightarrow> [])"

definition idle :: "server \<Rightarrow> bool" where
  "idle s \<longleftrightarrow> s = server_initialize"

text \<open>A busy server that will be free at the time \<open>f\<close>.\<close>

definition busy_until :: "simtime \<Rightarrow> server \<Rightarrow> simtime \<Rightarrow> bool" where
  "busy_until delay s f \<longleftrightarrow> (\<exists>m t. msgServiced s = Some m \<and> endServiceMsg s = Some t \<and> f = t + delay * int (length (sv_queue s)))
     \<and> list_all is_packet (sv_queue s) \<and> 0 < delay"

lemma later_snoc: "later delay t (queue @ [m]) = later delay t queue @ [(t + delay * int (length queue) + delay, m)]"
  by (induction queue arbitrary: t) (simp_all add: algebra_simps)

lemma to_come_idle [simp]: "to_come delay server_initialize = []"
  by (simp add: to_come_def server_initialize_def)

lemma to_come_busy [simp]:
  "msgServiced s = Some m \<Longrightarrow> endServiceMsg s = Some t \<Longrightarrow> to_come delay s = (t, m) # later delay t (sv_queue s)"
  by (simp add: to_come_def)

lemma serve_until_spec:
  assumes "busy_until delay s f" "length (sv_queue s) < n"
  shows "\<exists>s' ended'. serve_until n delay now (s, ended) = Inr (s', ended') \<and> ended' @ to_come delay s' = ended @ to_come delay s
    \<and> (idle s' \<and> f \<le> now \<or> busy_until delay s' f \<and> (\<exists>t. endServiceMsg s' = Some t \<and> now < t))"
  using assms
proof (induction n arbitrary: s ended)
  case (Suc n)
  from Suc.prems(1) obtain m t where s: "msgServiced s = Some m" "endServiceMsg s = Some t"
    "f = t + delay * int (length (sv_queue s))" "list_all is_packet (sv_queue s)" "0 < delay"
    by (auto simp: busy_until_def)
  show ?case
  proof (cases "t \<le> now")
    case False
    then show ?thesis using s Suc.prems(1) by simp
  next
    case True
    show ?thesis
    proof (cases "sv_queue s")
      case Nil
      have "qb_handleMessage delay t EndService (s\<lparr>endServiceMsg := None\<rparr>) = Inr ([m], server_initialize)"
        using s Nil by (simp add: qb_handleMessage_def server_handleMessage_def doEndService.simps server_initialize_def)
      moreover have "serve_until n delay now (server_initialize, e) = Inr (server_initialize, e)" for e
        by (cases n) (simp_all add: server_initialize_def)
      ultimately show ?thesis using s Nil True by (simp add: idle_def)
    next
      case (Cons m' queue)
      let ?s = "\<lparr>msgServiced = Some m', sv_queue = queue, endServiceMsg = Some (t + delay)\<rparr>"
      have step: "qb_handleMessage delay t EndService (s\<lparr>endServiceMsg := None\<rparr>) = Inr ([m], ?s)"
        using s Cons by (simp add: qb_handleMessage_def server_handleMessage_def doEndService.simps doStartService.simps
            qb_startService_def schedule_end_def)
      have "busy_until delay ?s f" "length (sv_queue ?s) < n"
        using s Cons Suc.prems(2) by (simp_all add: busy_until_def algebra_simps)
      from Suc.IH [OF this, of "ended @ [(t, m)]"] show ?thesis using s Cons True step by simp
    qed
  qed
qed simp

lemma arrival_idle:
  assumes "is_packet m" "0 \<le> delay"
  shows "\<exists>out s'. qb_handleMessage delay now (Arrival m) server_initialize = Inr (out, s')
    \<and> map (Pair now) out @ to_come delay s' = [(now + delay, m)]
    \<and> (if delay = 0 then idle s' else busy_until delay s' (now + delay))"
  using assms
  by (auto simp: qb_handleMessage_def server_handleMessage_def server_initialize_def qb_arrivalWhenIdle_def idle_def
      doStartService.simps doEndService.simps qb_startService_def schedule_end_def busy_until_def to_come_def)

lemma arrival_busy:
  assumes "busy_until delay s f" "is_packet m"
  shows "\<exists>s'. qb_handleMessage delay now (Arrival m) s = Inr ([], s') \<and> to_come delay s' = to_come delay s @ [(f + delay, m)]
    \<and> busy_until delay s' (f + delay)"
  using assms
  by (auto simp: qb_handleMessage_def server_handleMessage_def busy_until_def qb_arrival_def later_snoc algebra_simps)

lemma qb_run_spec:
  assumes "0 \<le> delay" "sorted (map fst arr)" "list_all is_packet (map snd arr)"
    and "idle s \<and> list_all (\<lambda>t. f \<le> t) (map fst arr) \<or> busy_until delay s f"
  shows "\<exists>s' ended'. qb_run delay arr (s, ended) = Inr (s', ended')
    \<and> ended' @ to_come delay s' = ended @ to_come delay s @ departures delay f arr"
  using assms(2-)
proof (induction arr arbitrary: s f ended)
  case (Cons a arr)
  obtain now m where a: "a = (now, m)" by (cases a)
  have m: "is_packet m" and arr: "sorted (map fst arr)" "list_all is_packet (map snd arr)" "list_all (\<lambda>t. now \<le> t) (map fst arr)"
    using Cons.prems(1,2) by (auto simp: a list_all_iff)
  have "\<exists>s1 ended1. serve_until (Suc (length (sv_queue s))) delay now (s, ended) = Inr (s1, ended1)
    \<and> ended1 @ to_come delay s1 = ended @ to_come delay s
    \<and> (idle s1 \<and> f \<le> now \<or> busy_until delay s1 f \<and> (\<exists>t. endServiceMsg s1 = Some t \<and> now < t))"
  proof (cases "idle s")
    case True
    then show ?thesis using Cons.prems(3) by (auto simp: idle_def server_initialize_def a busy_until_def)
  next
    case False
    then show ?thesis using serve_until_spec [of delay s f "Suc (length (sv_queue s))" now ended] Cons.prems(3) by auto
  qed
  then obtain s1 ended1 where 1: "serve_until (Suc (length (sv_queue s))) delay now (s, ended) = Inr (s1, ended1)"
    "ended1 @ to_come delay s1 = ended @ to_come delay s"
    "idle s1 \<and> f \<le> now \<or> busy_until delay s1 f \<and> (\<exists>t. endServiceMsg s1 = Some t \<and> now < t)"
    by blast
  have "\<exists>out s2. qb_handleMessage delay now (Arrival m) s1 = Inr (out, s2)
    \<and> map (Pair now) out @ to_come delay s2 = to_come delay s1 @ [(max f now + delay, m)] \<and> (to_come delay s1 = [] \<or> out = [])
    \<and> (idle s2 \<and> max f now + delay \<le> now \<or> busy_until delay s2 (max f now + delay))"
    using 1(3)
  proof
    assume "idle s1 \<and> f \<le> now"
    then show ?thesis using arrival_idle [OF m assms(1), of now] by (auto simp: idle_def max_def split: if_splits)
  next
    assume b: "busy_until delay s1 f \<and> (\<exists>t. endServiceMsg s1 = Some t \<and> now < t)"
    then obtain t where t: "f = t + delay * int (length (sv_queue s1))" "now < t" "0 < delay" by (auto simp: busy_until_def)
    have "0 \<le> delay * int (length (sv_queue s1))" using t(3) by simp
    then have "max f now = f" using t(1,2) by (simp add: max_def)
    then show ?thesis using arrival_busy [of delay s1 f m now] b m by auto
  qed
  then obtain out s2 where 2: "qb_handleMessage delay now (Arrival m) s1 = Inr (out, s2)"
    "map (Pair now) out @ to_come delay s2 = to_come delay s1 @ [(max f now + delay, m)]" "to_come delay s1 = [] \<or> out = []"
    "idle s2 \<and> max f now + delay \<le> now \<or> busy_until delay s2 (max f now + delay)"
    by blast
  have "idle s2 \<and> list_all (\<lambda>t. max f now + delay \<le> t) (map fst arr) \<or> busy_until delay s2 (max f now + delay)"
    using 2(4) arr(3) by (auto simp: list_all_iff)
  from Cons.IH [OF arr(1,2) this, of "ended1 @ map (Pair now) out"] obtain s' ended' where
    3: "qb_run delay arr (s2, ended1 @ map (Pair now) out) = Inr (s', ended')"
      "ended' @ to_come delay s' = (ended1 @ map (Pair now) out) @ to_come delay s2 @ departures delay (max f now + delay) arr"
    by blast
  have "ended' @ to_come delay s' = ended1 @ (to_come delay s1 @ [(max f now + delay, m)]) @ departures delay (max f now + delay) arr"
    using 3(2) 2(2) by (metis append.assoc)
  then have "ended' @ to_come delay s' = ended @ to_come delay s @ departures delay f (a # arr)"
    using 1(2) by (simp add: a Let_def)
  then show ?case using 1(1) 2(1) 3(1) by (simp add: a del: serve_until.simps)
qed simp

section \<open>Property\<close>

text \<open>
  A queue with constant processing time serves in order and without idling.  For packets that
  arrive at times in order, what was handed to \<^verbatim>\<open>endService\<close>, followed by what is in service and
  queued, is every arrival in its order, at the time its predecessor left or it arrived, whichever is
  later, plus the processing time (zero included, for which no timer is used).
\<close>

theorem queue_server_departures:
  assumes "0 \<le> delay" "sorted (map fst arr)" "list_all is_packet (map snd arr)" "list_all (\<lambda>t. 0 \<le> t) (map fst arr)"
  shows "\<exists>s ended. qb_run delay arr (server_initialize, []) = Inr (s, ended)
    \<and> ended @ to_come delay s = departures delay 0 arr"
  using qb_run_spec [OF assms(1-3), of server_initialize 0 "[]"] assms(4) by (auto simp: idle_def)

theorem queue_server_departures_witness:
  "\<exists>s ended. qb_run 10 [(0, Packet 1 8), (5, Packet 2 8), (40, Packet 3 8)] (server_initialize, []) = Inr (s, ended)
    \<and> ended @ to_come 10 s = [(10, Packet 1 8), (20, Packet 2 8), (50, Packet 3 8)]"
proof -
  have "departures 10 0 [(0, Packet 1 8), (5, Packet 2 8), (40, Packet 3 8)] = [(10, Packet 1 8), (20, Packet 2 8), (50, Packet 3 8)]"
    by simp
  then show ?thesis using queue_server_departures [of 10 "[(0, Packet 1 8), (5, Packet 2 8), (40, Packet 3 8)]"] by simp
qed

end
