(* ===== verification/QueueSchedulers.thy ===== *)
theory QueueSchedulers
  imports PassiveQueues
begin

text \<open>
  Packet schedulers in front of passive queues, \<^verbatim>\<open>inet/common/queue/\<close>: \<^verbatim>\<open>SchedulerBase\<close> with the two
  strategies \<^verbatim>\<open>PriorityScheduler\<close> and \<^verbatim>\<open>WRRScheduler\<close>, and the droppers \<^verbatim>\<open>AlgorithmicDropperBase\<close> and
  \<^verbatim>\<open>ThresholdDropper\<close>.  A strategy looks at which inputs are empty and names the input to request from.
  The scheduler is modelled together with its input queues and the messages under way from them.
\<close>

section \<open>Strategies\<close>

type_synonym 'b strategy = "bool list \<Rightarrow> 'b \<Rightarrow> nat option \<times> 'b"

text \<open>The first input that is not empty.\<close>

fun first_nonempty :: "nat \<Rightarrow> bool list \<Rightarrow> nat option" where
  "first_nonempty i [] = None"
| "first_nonempty i (e # es) = (if \<not> e then Some i else first_nonempty (Suc i) es)"

definition prio_schedule :: "unit strategy" where
  "prio_schedule es u = (first_nonempty 0 es, u)"

text \<open>
  \<^verbatim>\<open>WRRScheduler\<close>: the first loop gives whether all inputs are empty and an input with a token left, the
  second one fills the buckets and takes a token for the first input that wants one.
\<close>

fun wrr_scan :: "nat \<Rightarrow> bool list \<Rightarrow> int list \<Rightarrow> bool \<times> nat option" where
  "wrr_scan i (e # es) (bucket # bs) =
     (if \<not> e then
        (if bucket > 0 then (False, Some i)
         else (case wrr_scan (Suc i) es bs of (_, r) \<Rightarrow> (False, r)))
      else wrr_scan (Suc i) es bs)"
| "wrr_scan i _ _ = (True, None)"

fun wrr_refill :: "bool \<Rightarrow> nat \<Rightarrow> bool list \<Rightarrow> int list \<Rightarrow> int list \<times> nat option" where
  "wrr_refill requested i (e # es) (weight # ws) =
     (if \<not> requested \<and> weight > 0 \<and> \<not> e then
        (case wrr_refill True (Suc i) es ws of (bs, _) \<Rightarrow> ((weight - 1) # bs, Some i))
      else (case wrr_refill requested (Suc i) es ws of (bs, r) \<Rightarrow> (weight # bs, r)))"
| "wrr_refill requested i _ ws = (ws, None)"

definition wrr_initialize :: "nat \<Rightarrow> int list \<Rightarrow> sim_error + int list \<times> int list" where
  "wrr_initialize numInputs tokens =
     (if length tokens < numInputs then Inl (RuntimeError ''Too few values given in the weights parameter.'')
      else if length tokens > numInputs then Inl (RuntimeError ''Too many values given in the weights parameter.'')
      else Inr (tokens, tokens))"

definition wrr_schedule :: "int list \<Rightarrow> int list strategy" where
  "wrr_schedule weights es buckets =
     (case wrr_scan 0 es buckets of
        (_, Some i) \<Rightarrow> (Some i, buckets[i := buckets ! i - 1])
      | (allQueueIsEmpty, None) \<Rightarrow>
          if allQueueIsEmpty then (None, buckets)
          else (case wrr_refill False 0 es weights of (bs, r) \<Rightarrow> (r, bs)))"

section \<open>SchedulerBase\<close>

record ('q, 'b) scheduler =
  packetsRequestedFromUs :: int
  packetsToBeRequestedFromInputs :: int
  inputQueues :: "'q pqueue list"
  buckets :: 'b
  under_way :: "cmessage list"
  sch_listeners :: "nat list"

definition scheduler_initialize :: "'q pqueue list \<Rightarrow> 'b \<Rightarrow> nat list \<Rightarrow> ('q, 'b) scheduler" where
  "scheduler_initialize inputs b ls =
     \<lparr>packetsRequestedFromUs = 0, packetsToBeRequestedFromInputs = 0,
      inputQueues = map (addListener 0) inputs, buckets = b, under_way = [], sch_listeners = ls\<rparr>"

definition schedulePacket ::
  "'q dequeue_fun \<Rightarrow> ('q \<Rightarrow> bool) \<Rightarrow> 'b strategy \<Rightarrow> ('q, 'b) scheduler \<Rightarrow> sim_error + bool \<times> ('q, 'b) scheduler" where
  "schedulePacket dequeue isEmpty strategy s =
     (case strategy (map (isEmpty \<circ> discipline) (inputQueues s)) (buckets s) of
        (None, b) \<Rightarrow> Inr (False, s\<lparr>buckets := b\<rparr>)
      | (Some i, b) \<Rightarrow>
          bind_result (passive_requestPacket dequeue (inputQueues s ! i)) (\<lambda>(out, q).
            Inr (True, s\<lparr>buckets := b, inputQueues := (inputQueues s)[i := q], under_way := under_way s @ sent out\<rparr>)))"

text \<open>Try to schedule, and take the request off the count if that succeeded.\<close>

definition try_schedule ::
  "'q dequeue_fun \<Rightarrow> ('q \<Rightarrow> bool) \<Rightarrow> 'b strategy \<Rightarrow> ('q, 'b) scheduler \<Rightarrow> sim_error + ('q, 'b) scheduler" where
  "try_schedule dequeue isEmpty strategy s =
     bind_result (schedulePacket dequeue isEmpty strategy s) (\<lambda>(success, s1).
       Inr (if success then s1\<lparr>packetsToBeRequestedFromInputs := packetsToBeRequestedFromInputs s1 - 1\<rparr> else s1))"

definition sch_requestPacket ::
  "'q dequeue_fun \<Rightarrow> ('q \<Rightarrow> bool) \<Rightarrow> 'b strategy \<Rightarrow> ('q, 'b) scheduler \<Rightarrow> sim_error + ('q, 'b) scheduler" where
  "sch_requestPacket dequeue isEmpty strategy s =
     try_schedule dequeue isEmpty strategy
       (s\<lparr>packetsRequestedFromUs := packetsRequestedFromUs s + 1,
          packetsToBeRequestedFromInputs := packetsToBeRequestedFromInputs s + 1\<rparr>)"

definition packetEnqueued ::
  "'q dequeue_fun \<Rightarrow> ('q \<Rightarrow> bool) \<Rightarrow> 'b strategy \<Rightarrow> ('q, 'b) scheduler \<Rightarrow> sim_error + queue_output list \<times> ('q, 'b) scheduler" where
  "packetEnqueued dequeue isEmpty strategy s =
     (if packetsToBeRequestedFromInputs s > 0 then
        bind_result (try_schedule dequeue isEmpty strategy s) (\<lambda>s1. Inr ([], s1))
      else if packetsRequestedFromUs s = 0 then Inr (map PacketEnqueued (sch_listeners s), s)
      else Inr ([], s))"

definition sch_handleMessage :: "cmessage \<Rightarrow> ('q, 'b) scheduler \<Rightarrow> sim_error + queue_output list \<times> ('q, 'b) scheduler" where
  "sch_handleMessage msg s =
     (if packetsRequestedFromUs s > 0 then
        Inr ([SendOut msg], s\<lparr>packetsRequestedFromUs := packetsRequestedFromUs s - 1\<rparr>)
      else Inl (AssertionFailed ''packetsRequestedFromUs > 0''))"

definition sch_isEmpty :: "('q \<Rightarrow> bool) \<Rightarrow> ('q, 'b) scheduler \<Rightarrow> bool" where
  "sch_isEmpty isEmpty s = list_all (isEmpty \<circ> discipline) (inputQueues s)"

definition sch_pop :: "'q dequeue_fun \<Rightarrow> ('q \<Rightarrow> bool) \<Rightarrow> ('q, 'b) scheduler \<Rightarrow> sim_error + cmessage option \<times> ('q, 'b) scheduler" where
  "sch_pop dequeue isEmpty s =
     (case first_nonempty 0 (map (isEmpty \<circ> discipline) (inputQueues s)) of
        None \<Rightarrow> Inr (None, s)
      | Some i \<Rightarrow> bind_result (passive_pop dequeue (inputQueues s ! i)) (\<lambda>(m, q).
          Inr (m, s\<lparr>inputQueues := (inputQueues s)[i := q]\<rparr>)))"

text \<open>\<^verbatim>\<open>clear\<close> clears every input; \<open>None\<close> if the loop of one of them does not end.\<close>

fun clear_all :: "'q dequeue_fun \<Rightarrow> 'q pqueue list \<Rightarrow> (sim_error + 'q pqueue list) option" where
  "clear_all dequeue [] = Some (Inr [])"
| "clear_all dequeue (q # qs) =
     (case passive_clear dequeue q of
        None \<Rightarrow> None
      | Some (Inl e) \<Rightarrow> Some (Inl e)
      | Some (Inr q') \<Rightarrow> map_option (\<lambda>r. bind_result r (\<lambda>qs'. Inr (q' # qs'))) (clear_all dequeue qs))"

definition sch_clear :: "'q dequeue_fun \<Rightarrow> ('q, 'b) scheduler \<Rightarrow> (sim_error + ('q, 'b) scheduler) option" where
  "sch_clear dequeue s =
     map_option (\<lambda>r. bind_result r (\<lambda>qs.
       Inr (s\<lparr>inputQueues := qs, packetsRequestedFromUs := 0, packetsToBeRequestedFromInputs := 0\<rparr>)))
       (clear_all dequeue (inputQueues s))"

section \<open>Droppers\<close>

text \<open>The queues behind the gates, as a set: a queue behind several gates counts once.\<close>

record dropper =
  outQueues :: "nat list"
  td_frameCapacity :: int
  td_byteCapacity :: int

definition total :: "(nat \<Rightarrow> int) \<Rightarrow> dropper \<Rightarrow> int" where
  "total f d = sum_list (map f (remdups (outQueues d)))"

definition threshold_shouldDrop :: "(nat \<Rightarrow> int) \<Rightarrow> (nat \<Rightarrow> int) \<Rightarrow> cmessage \<Rightarrow> dropper \<Rightarrow> bool" where
  "threshold_shouldDrop getLength getByteLen packet d =
     (if td_frameCapacity d \<ge> 0 \<and> total getLength d + 1 > td_frameCapacity d then True
      else if td_byteCapacity d \<ge> 0 \<and> total getByteLen d + getByteLength packet > td_byteCapacity d then True
      else False)"

text \<open>A packet goes on through the gate with the index of the one it came in by.\<close>

definition dropper_handleMessage ::
  "(cmessage \<Rightarrow> dropper \<Rightarrow> bool) \<Rightarrow> nat \<Rightarrow> cmessage \<Rightarrow> dropper \<Rightarrow> sim_error + (nat \<times> cmessage) option" where
  "dropper_handleMessage shouldDrop index msg d =
     bind_result (cast_packet msg) (\<lambda>packet. Inr (if shouldDrop packet d then None else Some (index, packet)))"

section \<open>The strategies choose well\<close>

lemma first_nonempty_shift: "first_nonempty (Suc i) es = map_option Suc (first_nonempty i es)"
  by (induction i es rule: first_nonempty.induct) auto

lemma wrr_scan_shift: "wrr_scan (Suc i) es bs = map_prod id (map_option Suc) (wrr_scan i es bs)"
  by (induction i es bs rule: wrr_scan.induct) (auto split: prod.splits)

lemma wrr_refill_shift: "wrr_refill p (Suc i) es ws = map_prod id (map_option Suc) (wrr_refill p i es ws)"
  by (induction p i es ws rule: wrr_refill.induct) (auto split: prod.splits)

lemma first_nonempty_spec:
  "case first_nonempty 0 es of
     None \<Rightarrow> list_all (\<lambda>e. e) es
   | Some k \<Rightarrow> k < length es \<and> \<not> es ! k \<and> list_all (\<lambda>e. e) (take k es)"
  by (induction es) (auto simp: first_nonempty_shift split: option.splits)

lemma wrr_scan_spec:
  "length es = length bs \<Longrightarrow>
   (case wrr_scan 0 es bs of
      (empty_all, None) \<Rightarrow> empty_all = list_all (\<lambda>e. e) es
    | (_, Some k) \<Rightarrow> k < length es \<and> \<not> es ! k \<and> 0 < bs ! k)"
  by (induction es bs rule: list_induct2) (auto simp: wrr_scan_shift split: option.splits prod.splits)

lemma wrr_refill_spec:
  "length es = length ws \<Longrightarrow> list_all (\<lambda>w. 0 < w) ws \<Longrightarrow>
   (case wrr_refill p 0 es ws of
      (bs, None) \<Rightarrow> length bs = length ws \<and> (p \<or> list_all (\<lambda>e. e) es)
    | (bs, Some k) \<Rightarrow> length bs = length ws \<and> \<not> p \<and> k < length es \<and> \<not> es ! k)"
  by (induction es ws arbitrary: p rule: list_induct2)
    (fastforce simp: wrr_refill_shift map_prod_def split: option.splits prod.splits if_splits)+

text \<open>
  The contract of a strategy: it names an input that is not empty, unless all are empty.  \<open>bvalid\<close>
  is what it needs of its own state.
\<close>

locale work_conserving =
  fixes strategy :: "'b strategy" and bvalid :: "nat \<Rightarrow> 'b \<Rightarrow> bool"
  assumes strategy_bvalid: "bvalid (length es) b \<Longrightarrow> strategy es b = (r, b') \<Longrightarrow> bvalid (length es) b'"
    and strategy_some: "bvalid (length es) b \<Longrightarrow> strategy es b = (Some i, b') \<Longrightarrow> i < length es \<and> \<not> es ! i"
    and strategy_none: "bvalid (length es) b \<Longrightarrow> strategy es b = (None, b') \<Longrightarrow> list_all (\<lambda>e. e) es"

interpretation prio: work_conserving prio_schedule "\<lambda>n u. True"
proof (unfold_locales, goal_cases)
  case (2 es b i b')
  then show ?case using first_nonempty_spec [of es] by (simp add: prio_schedule_def)
next
  case (3 es b b')
  then show ?case using first_nonempty_spec [of es] by (simp add: prio_schedule_def)
qed simp

lemma wrr_schedule_cases:
  assumes "length es = length weights" "length bs = length weights" "list_all (\<lambda>w. 0 < w) weights"
    and "wrr_schedule weights es bs = (r, bs')"
  shows "length bs' = length weights \<and> (case r of None \<Rightarrow> list_all (\<lambda>e. e) es | Some i \<Rightarrow> i < length es \<and> \<not> es ! i)"
proof -
  obtain a k where scan: "wrr_scan 0 es bs = (a, k)" by (cases "wrr_scan 0 es bs")
  obtain fs q where refill: "wrr_refill False 0 es weights = (fs, q)" by (cases "wrr_refill False 0 es weights")
  show ?thesis
    using wrr_scan_spec [of es bs] wrr_refill_spec [of es weights False] assms
    by (auto simp: wrr_schedule_def scan refill split: option.splits if_splits)
qed

interpretation wrr: work_conserving "wrr_schedule weights"
  "\<lambda>n bs. n = length weights \<and> length bs = n \<and> list_all (\<lambda>w. 0 < w) weights" for weights
proof (unfold_locales, goal_cases)
  case (1 es b r b')
  then show ?case using wrr_schedule_cases [of es weights b r b'] by simp
next
  case (2 es b i b')
  then show ?case using wrr_schedule_cases [of es weights b "Some i" b'] by simp
next
  case (3 es b b')
  then show ?case using wrr_schedule_cases [of es weights b None b'] by simp
qed

section \<open>A scheduler with its queues\<close>

text \<open>
  What happens to the whole: a message arrives at an input queue (which notifies the scheduler), a
  message under way reaches the scheduler, a request comes from downstream.
\<close>

datatype net_op = InputArrives nat cmessage | ReachesScheduler | Requested

fun notify_scheduler ::
  "'q dequeue_fun \<Rightarrow> ('q \<Rightarrow> bool) \<Rightarrow> 'b strategy \<Rightarrow> queue_output list \<Rightarrow> ('q, 'b) scheduler \<times> queue_output list
   \<Rightarrow> sim_error + ('q, 'b) scheduler \<times> queue_output list" where
  "notify_scheduler dequeue isEmpty strategy [] (s, hist) = Inr (s, hist)"
| "notify_scheduler dequeue isEmpty strategy (PacketEnqueued l # out) (s, hist) =
     bind_result (packetEnqueued dequeue isEmpty strategy s) (\<lambda>(o1, s1).
       notify_scheduler dequeue isEmpty strategy out (s1, hist @ o1))"
| "notify_scheduler dequeue isEmpty strategy (_ # out) (s, hist) =
     notify_scheduler dequeue isEmpty strategy out (s, hist)"

fun net_exec ::
  "'q enqueue_fun \<Rightarrow> 'q dequeue_fun \<Rightarrow> ('q \<Rightarrow> bool) \<Rightarrow> 'b strategy \<Rightarrow> net_op \<Rightarrow> ('q, 'b) scheduler \<times> queue_output list
   \<Rightarrow> sim_error + ('q, 'b) scheduler \<times> queue_output list" where
  "net_exec enqueue dequeue isEmpty strategy (InputArrives i m) (s, hist) =
     (if i < length (inputQueues s) then
        bind_result (passive_handleMessage enqueue m (inputQueues s ! i)) (\<lambda>(out, q).
          notify_scheduler dequeue isEmpty strategy out
            (s\<lparr>inputQueues := (inputQueues s)[i := q], under_way := under_way s @ sent out\<rparr>, hist))
      else Inl (RuntimeError ''no such gate''))"
| "net_exec enqueue dequeue isEmpty strategy ReachesScheduler (s, hist) =
     (case under_way s of
        [] \<Rightarrow> Inr (s, hist)
      | m # ms \<Rightarrow> bind_result (sch_handleMessage m (s\<lparr>under_way := ms\<rparr>)) (\<lambda>(out, s'). Inr (s', hist @ out)))"
| "net_exec enqueue dequeue isEmpty strategy Requested (s, hist) =
     bind_result (sch_requestPacket dequeue isEmpty strategy s) (\<lambda>s'. Inr (s', hist))"

fun requests :: "net_op list \<Rightarrow> nat" where
  "requests [] = 0"
| "requests (Requested # ops) = Suc (requests ops)"
| "requests (_ # ops) = requests ops"

locale scheduled_queues = packet_queue enqueue dequeue items valid okay full + work_conserving strategy bvalid
  for enqueue :: "'q enqueue_fun" and dequeue :: "'q dequeue_fun" and items :: "'q \<Rightarrow> cmessage list"
    and valid :: "'q \<Rightarrow> bool" and okay :: "cmessage \<Rightarrow> bool" and full :: "'q \<Rightarrow> bool"
    and strategy :: "'b strategy" and bvalid :: "nat \<Rightarrow> 'b \<Rightarrow> bool" +
  fixes isEmpty :: "'q \<Rightarrow> bool"
  assumes isEmpty_items: "valid q \<Longrightarrow> isEmpty q \<longleftrightarrow> items q = []"
begin

definition input_ok :: "'q pqueue \<Rightarrow> bool" where
  "input_ok q \<longleftrightarrow> queue_inv q \<and> packetRequested q = 0 \<and> listeners q = [0]"

text \<open>
  Every request is waiting for an input or its message is under way; requests wait for an input only
  while all inputs are empty.
\<close>

definition net_inv :: "('q, 'b) scheduler \<Rightarrow> bool" where
  "net_inv s \<longleftrightarrow> list_all input_ok (inputQueues s) \<and> bvalid (length (inputQueues s)) (buckets s)
     \<and> packetsRequestedFromUs s = packetsToBeRequestedFromInputs s + int (length (under_way s))
     \<and> 0 \<le> packetsToBeRequestedFromInputs s
     \<and> (0 < packetsToBeRequestedFromInputs s \<longrightarrow> list_all (\<lambda>q. items (discipline q) = []) (inputQueues s))"

lemma try_schedule_cases [consumes 2]:
  assumes "list_all input_ok (inputQueues s)" "bvalid (length (inputQueues s)) (buckets s)"
  obtains (all_empty) b where "try_schedule dequeue isEmpty strategy s = Inr (s\<lparr>buckets := b\<rparr>)"
      "bvalid (length (inputQueues s)) b" "list_all (\<lambda>q. items (discipline q) = []) (inputQueues s)"
    | (requested) i m q b where "try_schedule dequeue isEmpty strategy s = Inr (s\<lparr>buckets := b,
         inputQueues := (inputQueues s)[i := q], under_way := under_way s @ [m],
         packetsToBeRequestedFromInputs := packetsToBeRequestedFromInputs s - 1\<rparr>)"
      "bvalid (length (inputQueues s)) b" "i < length (inputQueues s)" "input_ok q"
      "items (discipline (inputQueues s ! i)) = m # items (discipline q)"
proof -
  let ?es = "map (isEmpty \<circ> discipline) (inputQueues s)"
  have empty: "isEmpty (discipline q) \<longleftrightarrow> items (discipline q) = []" if "q \<in> set (inputQueues s)" for q
    using assms(1) that isEmpty_items by (auto simp: list_all_iff input_ok_def queue_inv_def)
  obtain r b where st: "strategy ?es (buckets s) = (r, b)" by (cases "strategy ?es (buckets s)")
  have b: "bvalid (length (inputQueues s)) b" using strategy_bvalid [OF _ st] assms(2) by simp
  show thesis
  proof (cases r)
    case None
    then have "list_all (\<lambda>e. e) ?es" using strategy_none [of ?es "buckets s" b] st assms(2) by simp
    then show thesis using all_empty [of b] empty st None b
      by (simp add: try_schedule_def schedulePacket_def list_all_iff)
  next
    case (Some i)
    have "i < length ?es \<and> \<not> ?es ! i"
      using strategy_some [of ?es "buckets s" i b] st Some assms(2) by simp
    then have i: "i < length (inputQueues s)" "\<not> isEmpty (discipline (inputQueues s ! i))" by auto
    have ok: "input_ok (inputQueues s ! i)" using assms(1) i(1) by (simp add: list_all_length)
    obtain m ms where items: "items (discipline (inputQueues s ! i)) = m # ms"
      using empty [of "inputQueues s ! i"] i by (cases "items (discipline (inputQueues s ! i))") auto
    obtain q where q: "passive_requestPacket dequeue (inputQueues s ! i) = Inr ([SendOut m], q)" "queue_inv q"
      "listeners q = [0]" "items (discipline q) = ms" "packetRequested q = 0"
      using request [of "inputQueues s ! i"] ok items by (auto simp: input_ok_def)
    show thesis
      by (rule requested [where b = b and i = i and q = q and m = m])
        (use st Some b i(1) q items in \<open>simp_all add: try_schedule_def schedulePacket_def input_ok_def\<close>)
  qed
qed

lemma net_step:
  assumes "net_inv s" "\<forall>i m. op = InputArrives i m \<longrightarrow> i < length (inputQueues s) \<and> okay m"
  shows "\<exists>s' out. net_exec enqueue dequeue isEmpty strategy op (s, hist) = Inr (s', hist @ out) \<and> net_inv s'
    \<and> length (inputQueues s') = length (inputQueues s)
    \<and> int (length (sent out)) + packetsRequestedFromUs s' = packetsRequestedFromUs s + int (requests [op])"
proof (cases op)
  case (InputArrives i m)
  have i: "i < length (inputQueues s)" "okay m" using assms(2) InputArrives by simp_all
  have oks: "list_all input_ok (inputQueues s)" and bv: "bvalid (length (inputQueues s)) (buckets s)"
    using assms(1) by (simp_all add: net_inv_def)
  have ok: "input_ok (inputQueues s ! i)" using oks i(1) by (simp add: list_all_length)
  obtain o1 q where 1: "passive_handleMessage enqueue m (inputQueues s ! i) = Inr (o1, q)" "input_ok q"
    "o1 = [Dropped m] \<and> discipline q = discipline (inputQueues s ! i)
     \<or> o1 = [PacketEnqueued 0] \<and> items (discipline q) = items (discipline (inputQueues s ! i)) @ [m]"
    using arrival [of "inputQueues s ! i" m] ok i(2) by (auto simp: input_ok_def split: if_splits)
  let ?s = "s\<lparr>inputQueues := (inputQueues s)[i := q]\<rparr>"
  have oks': "list_all input_ok (inputQueues ?s)" using oks 1(2)
    by (auto intro!: list_all_update)
  from 1(3) show ?thesis
  proof
    assume d: "o1 = [Dropped m] \<and> discipline q = discipline (inputQueues s ! i)"
    have "list_all (\<lambda>q. items (discipline q) = []) (inputQueues ?s)"
      if "list_all (\<lambda>q. items (discipline q) = []) (inputQueues s)"
      using that d i(1) by (auto simp: list_all_length nth_list_update)
    then have "net_inv ?s" using assms(1) oks' by (simp add: net_inv_def)
    then show ?thesis using InputArrives i 1(1) d by (intro exI [of _ ?s] exI [of _ "[]"]) simp
  next
    assume e: "o1 = [PacketEnqueued 0] \<and> items (discipline q) = items (discipline (inputQueues s ! i)) @ [m]"
    show ?thesis
    proof (cases "0 < packetsToBeRequestedFromInputs s")
      case False
      then have "net_inv ?s" using assms(1) oks' by (simp add: net_inv_def)
      then show ?thesis using InputArrives i 1(1) e False
        by (intro exI [of _ ?s] exI [of _ "if packetsRequestedFromUs s = 0 then map PacketEnqueued (sch_listeners s) else []"])
          (simp add: packetEnqueued_def)
    next
      case True
      then have empty: "items (discipline (inputQueues s ! k)) = []" if "k < length (inputQueues s)" for k
        using assms(1) that by (simp add: net_inv_def list_all_length)
      have bv': "bvalid (length (inputQueues ?s)) (buckets ?s)" using bv by simp
      from oks' bv' show ?thesis
      proof (cases rule: try_schedule_cases)
        case (all_empty b)
        then show ?thesis using e i(1) by (auto simp: list_all_length nth_list_update)
      next
        case (requested k m' q' b)
        have "k = i"
        proof (rule ccontr)
          assume "k \<noteq> i"
          then have "items (discipline (inputQueues ?s ! k)) = []" using requested(3) empty by simp
          with requested(5) show False by simp
        qed
        then have items: "items (discipline q') = []" using requested(3,5) e empty i(1) by simp
        let ?s' = "?s\<lparr>buckets := b, inputQueues := (inputQueues ?s)[k := q'], under_way := under_way ?s @ [m'],
          packetsToBeRequestedFromInputs := packetsToBeRequestedFromInputs ?s - 1\<rparr>"
        have "list_all (\<lambda>q. items (discipline q) = []) (inputQueues ?s')"
          using empty items \<open>k = i\<close> i(1) by (auto simp: list_all_length nth_list_update)
        moreover have "list_all input_ok (inputQueues ?s')"
          using oks' requested(4) by (auto intro!: list_all_update)
        ultimately have "net_inv ?s'" using assms(1) requested(2) True by (simp add: net_inv_def)
        then show ?thesis using InputArrives i 1(1) e True requested(1)
          by (intro exI [of _ ?s'] exI [of _ "[]"]) (simp add: packetEnqueued_def)
      qed
    qed
  qed
next
  case ReachesScheduler
  show ?thesis
  proof (cases "under_way s")
    case Nil
    then show ?thesis using ReachesScheduler assms(1) by (intro exI [of _ s] exI [of _ "[]"]) simp
  next
    case (Cons m ms)
    let ?s = "s\<lparr>under_way := ms, packetsRequestedFromUs := packetsRequestedFromUs s - 1\<rparr>"
    have "0 < packetsRequestedFromUs s" using assms(1) Cons by (simp add: net_inv_def)
    moreover have "net_inv ?s" using assms(1) Cons by (simp add: net_inv_def)
    ultimately show ?thesis using ReachesScheduler Cons
      by (intro exI [of _ ?s] exI [of _ "[SendOut m]"]) (simp add: sch_handleMessage_def)
  qed
next
  case Requested
  let ?s = "s\<lparr>packetsRequestedFromUs := packetsRequestedFromUs s + 1,
    packetsToBeRequestedFromInputs := packetsToBeRequestedFromInputs s + 1\<rparr>"
  have oks: "list_all input_ok (inputQueues ?s)" and bv: "bvalid (length (inputQueues ?s)) (buckets ?s)"
    using assms(1) by (simp_all add: net_inv_def)
  from oks bv show ?thesis
  proof (cases rule: try_schedule_cases)
    case (all_empty b)
    then have "net_inv (?s\<lparr>buckets := b\<rparr>)" using assms(1) by (simp add: net_inv_def)
    then show ?thesis using Requested all_empty(1)
      by (intro exI [of _ "?s\<lparr>buckets := b\<rparr>"] exI [of _ "[]"]) (simp add: sch_requestPacket_def)
  next
    case (requested i m q b)
    have "\<not> 0 < packetsToBeRequestedFromInputs s"
      using assms(1) requested(3,5) by (auto simp: net_inv_def list_all_length)
    then have zero: "packetsToBeRequestedFromInputs s = 0" using assms(1) by (simp add: net_inv_def)
    let ?s' = "?s\<lparr>buckets := b, inputQueues := (inputQueues ?s)[i := q], under_way := under_way ?s @ [m],
      packetsToBeRequestedFromInputs := packetsToBeRequestedFromInputs ?s - 1\<rparr>"
    have "list_all input_ok (inputQueues ?s')"
      using oks requested(4) by (auto intro!: list_all_update)
    then have "net_inv ?s'" using assms(1) requested(2) zero by (simp add: net_inv_def)
    then show ?thesis using Requested requested(1)
      by (intro exI [of _ ?s'] exI [of _ "[]"]) (simp add: sch_requestPacket_def)
  qed
qed

lemma net_run:
  assumes "net_inv s" "\<forall>i m. InputArrives i m \<in> set ops \<longrightarrow> i < length (inputQueues s) \<and> okay m"
  shows "\<exists>s' out. run_result (net_exec enqueue dequeue isEmpty strategy) ops (s, hist) = Inr (s', hist @ out) \<and> net_inv s'
    \<and> int (length (sent out)) + packetsRequestedFromUs s' = packetsRequestedFromUs s + int (requests ops)"
  using assms
proof (induction ops arbitrary: s hist)
  case Nil
  then show ?case by (intro exI [of _ s] exI [of _ "[]"]) simp
next
  case (Cons op ops)
  obtain s1 out1 where 1: "net_exec enqueue dequeue isEmpty strategy op (s, hist) = Inr (s1, hist @ out1)" "net_inv s1"
    "length (inputQueues s1) = length (inputQueues s)"
    "int (length (sent out1)) + packetsRequestedFromUs s1 = packetsRequestedFromUs s + int (requests [op])"
    using net_step [OF Cons.prems(1), of op hist] Cons.prems(2) by auto
  obtain s2 out2 where 2: "run_result (net_exec enqueue dequeue isEmpty strategy) ops (s1, hist @ out1) = Inr (s2, (hist @ out1) @ out2)"
    "net_inv s2" "int (length (sent out2)) + packetsRequestedFromUs s2 = packetsRequestedFromUs s1 + int (requests ops)"
    using Cons.IH [OF 1(2), of "hist @ out1"] Cons.prems(2) 1(3) by auto
  have "requests (op # ops) = requests [op] + requests ops" by (cases op) simp_all
  then show ?case using 1(1,4) 2 by (intro exI [of _ s2] exI [of _ "out1 @ out2"]) simp
qed

end

text \<open>Both strategies, over both kinds of queue.\<close>

interpretation prio_fifo: scheduled_queues fifo_enqueue fifo_dequeue fifo_queue fifo_valid is_packet "\<lambda>q. False"
  prio_schedule "\<lambda>n u. True" fifo_isEmpty
  by unfold_locales (simp add: fifo_isEmpty_def)

interpretation wrr_droptail: scheduled_queues droptail_enqueue droptail_dequeue dt_queue "\<lambda>q. True" "\<lambda>m. True"
  "\<lambda>q. dt_frameCapacity q \<noteq> 0 \<and> int (length (dt_queue q)) \<ge> dt_frameCapacity q"
  "wrr_schedule weights" "\<lambda>n bs. n = length weights \<and> length bs = n \<and> list_all (\<lambda>w. 0 < w) weights" droptail_isEmpty for weights
  by unfold_locales (simp add: droptail_isEmpty_def)

section \<open>Weighted round robin is fair\<close>

text \<open>The inputs served by calls in a row, while no input is empty.\<close>

fun wrr_serve :: "nat \<Rightarrow> int list \<Rightarrow> int list \<Rightarrow> nat option list \<times> int list" where
  "wrr_serve 0 weights bs = ([], bs)"
| "wrr_serve (Suc n) weights bs =
     (case wrr_schedule weights (replicate (length weights) False) bs of
        (r, bs1) \<Rightarrow> (case wrr_serve n weights bs1 of (rs, bs2) \<Rightarrow> (r # rs, bs2)))"

definition round_of :: "nat list \<Rightarrow> nat option list" where
  "round_of ws = concat (map (\<lambda>(i, w). replicate w (Some i)) (enumerate 0 ws))"

fun tokens :: "nat \<Rightarrow> nat list \<Rightarrow> nat option list" where
  "tokens k [] = []"
| "tokens k (c # cs) = replicate c (Some k) @ tokens (Suc k) cs"

fun first_pos :: "nat \<Rightarrow> nat list \<Rightarrow> nat option" where
  "first_pos k [] = None"
| "first_pos k (c # cs) = (if 0 < c then Some k else first_pos (Suc k) cs)"

lemma round_of_tokens: "round_of ws = tokens 0 ws"
proof -
  have "concat (map (\<lambda>(i, w). replicate w (Some i)) (enumerate k ws)) = tokens k ws" for k
    by (induction ws arbitrary: k) simp_all
  then show ?thesis by (simp add: round_of_def)
qed

lemma first_pos_shift: "first_pos (Suc k) cs = map_option Suc (first_pos k cs)"
  by (induction k cs rule: first_pos.induct) auto

lemma tokens_first:
  "case first_pos k cs of
     None \<Rightarrow> tokens k cs = [] \<and> cs = replicate (length cs) 0
   | Some i \<Rightarrow> k \<le> i \<and> i < k + length cs \<and> 0 < cs ! (i - k)
       \<and> tokens k cs = Some i # tokens k (cs[i - k := cs ! (i - k) - 1])"
proof (induction cs arbitrary: k)
  case (Cons c cs)
  show ?case
  proof (cases c)
    case 0
    show ?thesis
    proof (cases "first_pos (Suc k) cs")
      case None
      then show ?thesis using Cons [of "Suc k"] 0 by simp
    next
      case (Some i)
      moreover from this have "Suc k \<le> i" using Cons [of "Suc k"] by simp
      moreover from this have "i - k = Suc (i - Suc k)" by arith
      ultimately show ?thesis using Cons [of "Suc k"] 0 by simp
    qed
  qed simp
qed simp

lemma wrr_scan_busy: "wrr_scan k (replicate (length cs) False) (map int cs) = (cs = [], first_pos k cs)"
  by (induction cs arbitrary: k) auto

lemma wrr_refill_busy:
  "wrr_refill False k (replicate (length ws) False) (map int ws)
    = (case first_pos k ws of None \<Rightarrow> (map int ws, None) | Some i \<Rightarrow> (map int (ws[i - k := ws ! (i - k) - 1]), Some i))"
proof -
  have T: "wrr_refill True k (replicate (length ws) False) (map int ws) = (map int ws, None)" for k ws
    by (induction ws arbitrary: k) simp_all
  show ?thesis
  proof (induction ws arbitrary: k)
    case (Cons w ws)
    have "case first_pos (Suc k) ws of None \<Rightarrow> True | Some i \<Rightarrow> i - k = Suc (i - Suc k)"
      using tokens_first [of "Suc k" ws] by (cases "first_pos (Suc k) ws") (simp_all add: Suc_diff_Suc)
    then show ?case using Cons [of "Suc k"] T [of "Suc k" ws] by (auto split: option.splits simp: of_nat_diff)
  qed simp
qed

lemma wrr_schedule_busy:
  assumes "length cs = length ws" "first_pos 0 ws = Some j"
  shows "wrr_schedule (map int ws) (replicate (length ws) False) (map int cs)
    = (case first_pos 0 cs of Some i \<Rightarrow> (Some i, map int (cs[i := cs ! i - 1]))
       | None \<Rightarrow> (Some j, map int (ws[j := ws ! j - 1])))"
proof -
  have "cs \<noteq> []" using assms by (cases ws) auto
  have cs: "wrr_scan 0 (replicate (length ws) False) (map int cs) = (False, first_pos 0 cs)"
    using wrr_scan_busy [of 0 cs] assms(1) \<open>cs \<noteq> []\<close> by simp
  show ?thesis
  proof (cases "first_pos 0 cs")
    case None
    then show ?thesis using cs wrr_refill_busy [of 0 ws] assms(2) by (simp add: wrr_schedule_def)
  next
    case (Some i)
    have "i < length cs" "0 < cs ! i" using tokens_first [of 0 cs] Some by simp_all
    then have "(map int cs)[i := map int cs ! i - 1] = map int (cs[i := cs ! i - 1])"
      by (simp add: map_update of_nat_diff)
    then show ?thesis using cs Some by (simp add: wrr_schedule_def)
  qed
qed

lemma wrr_serve_tokens:
  assumes "length cs = length ws" "first_pos 0 ws = Some j" "length (tokens 0 cs) = n"
  shows "wrr_serve n (map int ws) (map int cs) = (tokens 0 cs, replicate (length ws) 0)"
  using assms(1,3)
proof (induction n arbitrary: cs)
  case 0
  then have "first_pos 0 cs = None" using tokens_first [of 0 cs] by (cases "first_pos 0 cs") auto
  then have "cs = replicate (length cs) 0" using tokens_first [of 0 cs] by simp
  then have "map int cs = replicate (length cs) (int 0)" by (metis map_replicate)
  then show ?case using 0 by simp
next
  case (Suc n)
  then obtain i where i: "first_pos 0 cs = Some i" using tokens_first [of 0 cs] by (cases "first_pos 0 cs") auto
  then have t: "tokens 0 cs = Some i # tokens 0 (cs[i := cs ! i - 1])" using tokens_first [of 0 cs] by simp
  have "wrr_serve n (map int ws) (map int (cs[i := cs ! i - 1])) = (tokens 0 (cs[i := cs ! i - 1]), replicate (length ws) 0)"
    using Suc t by (intro Suc.IH) simp_all
  then show ?case using wrr_schedule_busy [OF Suc.prems(1) assms(2)] i t by simp
qed

lemma wrr_serve_add:
  "wrr_serve (m + n) weights bs = (case wrr_serve m weights bs of (rs, bs1) \<Rightarrow>
     (case wrr_serve n weights bs1 of (rs', bs2) \<Rightarrow> (rs @ rs', bs2)))"
  by (induction m arbitrary: bs) (auto split: prod.splits)

lemma wrr_serve_zero:
  assumes "first_pos 0 ws = Some j" "0 < n"
  shows "wrr_serve n (map int ws) (replicate (length ws) 0) = wrr_serve n (map int ws) (map int ws)"
proof -
  have "first_pos 0 (replicate (length ws) 0) = None"
    using tokens_first [of 0 "replicate (length ws) 0"] by (cases "first_pos 0 (replicate (length ws) (0::nat))") auto
  then have "wrr_schedule (map int ws) (replicate (length ws) False) (replicate (length ws) 0)
      = wrr_schedule (map int ws) (replicate (length ws) False) (map int ws)"
    using wrr_schedule_busy [of "replicate (length ws) 0" ws j] wrr_schedule_busy [of ws ws j] assms(1) by simp
  then show ?thesis using assms(2) by (cases n) simp_all
qed

lemma length_tokens: "length (tokens k cs) = sum_list cs"
  by (induction cs arbitrary: k) simp_all

lemma count_tokens: "i < length cs \<Longrightarrow> count_list (tokens k cs) (Some (k + i)) = cs ! i"
proof (induction cs arbitrary: k i)
  case (Cons c cs)
  have rep: "count_list (replicate c x) y = (if x = y then c else 0)" for c and x y :: "nat option"
    by (induction c) auto
  have "count_list (tokens (Suc k) cs) (Some k) = 0"
  proof -
    have "Some k \<notin> set (tokens m cs)" if "k < m" for m
      using that by (induction cs arbitrary: m) auto
    then show ?thesis by (simp add: count_list_0_iff)
  qed
  then show ?case using Cons.IH [of "i - 1" "Suc k"] Cons.prems by (cases i) (auto simp: rep)
qed simp

lemma wrr_serve_rounds:
  assumes "first_pos 0 ws = Some j"
  shows "wrr_serve (Suc r * sum_list ws) (map int ws) (map int ws) = (concat (replicate (Suc r) (tokens 0 ws)), replicate (length ws) 0)"
proof (induction r)
  case 0
  then show ?case using wrr_serve_tokens [OF refl assms, of "sum_list ws"] length_tokens by simp
next
  case (Suc r)
  have one: "wrr_serve (sum_list ws) (map int ws) (map int ws) = (tokens 0 ws, replicate (length ws) 0)"
    using wrr_serve_tokens [OF refl assms, of "sum_list ws"] length_tokens by simp
  have "tokens 0 ws \<noteq> []" using tokens_first [of 0 ws] assms by simp
  then have "0 < Suc r * sum_list ws" using length_tokens [of 0 ws] by (cases "sum_list ws") auto
  then have "wrr_serve (Suc r * sum_list ws) (map int ws) (replicate (length ws) 0)
      = (concat (replicate (Suc r) (tokens 0 ws)), replicate (length ws) 0)"
    using wrr_serve_zero [OF assms] Suc by simp
  then show ?case using wrr_serve_add [of "sum_list ws" "Suc r * sum_list ws" "map int ws" "map int ws"] one by simp
qed

section \<open>Properties\<close>

text \<open>
  A scheduler and its queues work without losing a request.  For a weighted round robin
  scheduler (positive weights) in front of drop-tail queues, started empty: whatever messages arrive
  at the queues, reach the scheduler and are requested, in any order, no assertion fails; each request
  was answered by one message or is still open; an open request has its message under way or waits,
  and one waits only while all the queues are empty.
\<close>

theorem wrr_scheduler_runs:
  assumes "length weights = n" "list_all (\<lambda>w. 0 < w) weights"
    and "\<forall>i m. InputArrives i m \<in> set ops \<longrightarrow> i < n"
  shows "\<exists>s hist. run_result (net_exec droptail_enqueue droptail_dequeue droptail_isEmpty (wrr_schedule weights)) ops
      (scheduler_initialize (replicate n (passive_initialize (droptail_initialize capacity) [])) weights ls, []) = Inr (s, hist)
    \<and> int (length (sent hist)) + packetsRequestedFromUs s = int (requests ops)
    \<and> packetsRequestedFromUs s = packetsToBeRequestedFromInputs s + int (length (under_way s))
    \<and> (packetsToBeRequestedFromInputs s = 0 \<or> list_all (\<lambda>q. dt_queue (discipline q) = []) (inputQueues s))"
proof -
  let ?s = "scheduler_initialize (replicate n (passive_initialize (droptail_initialize capacity) [])) weights ls"
  have inv: "wrr_droptail.net_inv weights ?s"
    unfolding wrr_droptail.net_inv_def using assms(1,2)
    by (simp add: wrr_droptail.input_ok_def scheduler_initialize_def passive_initialize_def
        addListener_def droptail.queue_inv_def list_all_length)
  have "\<forall>i m. InputArrives i m \<in> set ops \<longrightarrow> i < length (inputQueues ?s) \<and> True"
    using assms(3) by (simp add: scheduler_initialize_def)
  from wrr_droptail.net_run [OF inv this, of "[]"] obtain s out where
    "run_result (net_exec droptail_enqueue droptail_dequeue droptail_isEmpty (wrr_schedule weights)) ops (?s, []) = Inr (s, out)"
    "wrr_droptail.net_inv weights s" "int (length (sent out)) + packetsRequestedFromUs s = packetsRequestedFromUs ?s + int (requests ops)"
    by auto
  then show ?thesis by (auto simp: wrr_droptail.net_inv_def scheduler_initialize_def)
qed

theorem wrr_scheduler_runs_witness:
  "\<exists>s hist. run_result (net_exec droptail_enqueue droptail_dequeue droptail_isEmpty (wrr_schedule [2, 1]))
      [Requested, InputArrives 1 (Message 7), InputArrives 0 (Message 8), ReachesScheduler]
      (scheduler_initialize (replicate 2 (passive_initialize (droptail_initialize 3) [])) [2, 1] [], []) = Inr (s, hist)
    \<and> int (length (sent hist)) + packetsRequestedFromUs s = 1"
  using wrr_scheduler_runs [of "[2, 1]" 2 "[Requested, InputArrives 1 (Message 7), InputArrives 0 (Message 8), ReachesScheduler]" 3 "[]"]
  by (auto simp: numeral_2_eq_2)

text \<open>
  Strict priority.  A priority scheduler requests from the input with the smallest index among
  those that are not empty, and from none if and only if all are empty.
\<close>

theorem prio_schedule_strict:
  "case fst (prio_schedule es u) of
     None \<Rightarrow> list_all (\<lambda>e. e) es
   | Some k \<Rightarrow> k < length es \<and> \<not> es ! k \<and> list_all (\<lambda>e. e) (take k es)"
  using first_nonempty_spec [of es] by (simp add: prio_schedule_def)

text \<open>
  Weighted round robin is fair.  While no input is empty, each input is served exactly as often as
  its weight says in every round of as many calls as the weights sum up to (an input of weight zero
  never), and within a round the inputs are served one after the other.
\<close>

theorem wrr_fair:
  assumes "i < length ws" "0 < ws ! i" "l < length ws"
  shows "fst (wrr_serve (Suc r * sum_list ws) (map int ws) (map int ws)) = concat (replicate (Suc r) (round_of ws))
    \<and> count_list (fst (wrr_serve (Suc r * sum_list ws) (map int ws) (map int ws))) (Some l) = Suc r * ws ! l"
proof -
  have "first_pos 0 ws \<noteq> None"
  proof
    assume "first_pos 0 ws = None"
    then have "ws = replicate (length ws) 0" using tokens_first [of 0 ws] by simp
    then have "ws ! i = 0" using assms(1) by (metis nth_replicate)
    then show False using assms(2) by simp
  qed
  then obtain j where "first_pos 0 ws = Some j" by blast
  from wrr_serve_rounds [OF this, of r] have serve: "fst (wrr_serve (Suc r * sum_list ws) (map int ws) (map int ws)) = concat (replicate (Suc r) (tokens 0 ws))"
    by simp
  have "count_list (concat (replicate n (tokens 0 ws))) (Some l) = n * ws ! l" for n
    using count_tokens [OF assms(3), of 0] by (induction n) simp_all
  then show ?thesis unfolding serve round_of_tokens by blast
qed

theorem wrr_fair_witness:
  "count_list (fst (wrr_serve (Suc 1 * sum_list [3, 0, 2]) (map int [3, 0, 2]) (map int [3, 0, 2]))) (Some 2) = Suc 1 * [3, 0, 2] ! 2"
proof -
  have "(0::nat) < length [3::nat, 0, 2]" "0 < [3::nat, 0, 2] ! 0" "(2::nat) < length [3::nat, 0, 2]" by simp_all
  from wrr_fair [OF this, of 1] show ?thesis by blast
qed

end
