(* ===== verification/OrdinalFilters.thy ===== *)
theory OrdinalFilters
  imports PassiveQueues CText
begin

text \<open>
  The channels that drop or duplicate the packets with given numbers,
  \<^verbatim>\<open>inet/common/queue/OrdinalBasedDropper.{h,cc}\<close> and \<^verbatim>\<open>OrdinalBasedDuplicator.{h,cc}\<close>: the parser of
  the list of numbers, the state, and the packet handlers.
\<close>

section \<open>The list of numbers\<close>

lemma length_dropWhile_less: "v \<noteq> [] \<Longrightarrow> P (hd v) \<Longrightarrow> length (dropWhile P v) < length v"
  by (cases v) (auto simp: length_dropWhile_le le_imp_less_Suc)

function parseVector :: "string \<Rightarrow> nat list \<Rightarrow> sim_error + nat list" where
  "parseVector v vec =
     (let v1 = dropWhile isspace v in
      if v1 = [] \<or> hd v1 = CHR '';'' then Inr vec
      else if \<not> isdigit (hd v1) then Inl (RuntimeError ''Syntax error: packet number expected'')
      else (case atoi v1 of
        Inl e \<Rightarrow> Inl e
      | Inr k \<Rightarrow>
          let n = nat k in
          if vec \<noteq> [] \<and> last vec \<ge> n then Inl (RuntimeError ''Syntax error: packet numbers in ascending order expected'')
          else (let v3 = dropWhile isspace (dropWhile isdigit v1) in
            if v3 = [] then Inr (vec @ [n])
            else if hd v3 \<noteq> CHR '';'' then Inl (RuntimeError ''Syntax error: separator missing'')
            else parseVector (dropWhile isspace (tl v3)) (vec @ [n]))))"
  by auto

termination
proof (relation "measure (length \<circ> fst)", goal_cases)
  case (2 v vec v1 k n v3)
  have "length (dropWhile isspace (tl v3)) \<le> length (tl v3)" by (rule length_dropWhile_le)
  also have "\<dots> \<le> length v3" by simp
  also have "\<dots> \<le> length (dropWhile isdigit v1)" unfolding 2 by (rule length_dropWhile_le)
  also have "\<dots> < length v1" using 2 by (intro length_dropWhile_less) auto
  also have "\<dots> \<le> length v" unfolding 2(1) by (rule length_dropWhile_le)
  finally show ?case by simp
qed simp

declare parseVector.simps [simp del]

text \<open>The numbers parsed are in ascending order.\<close>

lemma sorted_wrt_less_snoc: "sorted_wrt (<) vec \<Longrightarrow> vec = [] \<or> last vec < n \<Longrightarrow> sorted_wrt (<) (vec @ [n])" for n :: nat
proof -
  assume s: "sorted_wrt (<) vec" and l: "vec = [] \<or> last vec < n"
  have "y \<le> last vec" if "y \<in> set vec" for y
    using s that by (cases vec rule: rev_cases) (auto simp: sorted_wrt_append)
  then show ?thesis using s l by (auto simp: sorted_wrt_append intro: le_less_trans)
qed

lemma parseVector_sorted: "parseVector v vec = Inr vec' \<Longrightarrow> sorted_wrt (<) vec \<Longrightarrow> sorted_wrt (<) vec'"
proof (induction v vec arbitrary: vec' rule: parseVector.induct)
  case (1 v vec)
  show ?case
    using 1(2,3) 1(1)
    by (subst (asm) parseVector.simps) (auto simp: Let_def sorted_wrt_less_snoc not_le split: if_splits sum.splits)
qed

section \<open>The handlers\<close>

record ordinal =
  numPackets :: nat
  numHits :: nat
  generateFurther :: bool
  numbers :: "nat list"

definition ordinal_initialize :: "string \<Rightarrow> sim_error + ordinal" where
  "ordinal_initialize vector =
     bind_result (parseVector vector []) (\<lambda>vec.
       Inr \<lparr>numPackets = 0, numHits = 0, generateFurther = (vec \<noteq> []), numbers = vec\<rparr>)"

text \<open>Whether the packet counted last is the next one on the list, and the state without it.\<close>

definition next_on_list :: "ordinal \<Rightarrow> bool" where
  "next_on_list s \<longleftrightarrow> generateFurther s \<and> numPackets s = hd (numbers s)"

definition strike :: "ordinal \<Rightarrow> ordinal" where
  "strike s = s\<lparr>numHits := numHits s + 1, numbers := tl (numbers s), generateFurther := (tl (numbers s) \<noteq> [])\<rparr>"

definition drop_handleMessage :: "cmessage \<Rightarrow> ordinal \<Rightarrow> cmessage list \<times> ordinal" where
  "drop_handleMessage msg s0 =
     (let s = s0\<lparr>numPackets := numPackets s0 + 1\<rparr> in
      if next_on_list s then ([], strike s) else ([msg], s))"

definition dup_handleMessage :: "cmessage \<Rightarrow> ordinal \<Rightarrow> cmessage list \<times> ordinal" where
  "dup_handleMessage msg s0 =
     (let s = s0\<lparr>numPackets := numPackets s0 + 1\<rparr> in
      if next_on_list s then ([msg, msg], strike s) else ([msg], s))"

fun channel :: "(cmessage \<Rightarrow> ordinal \<Rightarrow> cmessage list \<times> ordinal) \<Rightarrow> cmessage list \<Rightarrow> ordinal \<Rightarrow> cmessage list \<times> ordinal" where
  "channel handle [] s = ([], s)"
| "channel handle (m # ms) s =
     (case handle m s of (out, s1) \<Rightarrow> (case channel handle ms s1 of (outs, s2) \<Rightarrow> (out @ outs, s2)))"

definition hits :: "nat \<Rightarrow> nat list \<Rightarrow> nat" where
  "hits n vec = length (filter (\<lambda>k. k \<le> n) vec)"

lemma hits_above: "sorted_wrt (<) vec \<Longrightarrow> list_all (\<lambda>k. n < k) vec \<Longrightarrow> hits n vec = 0"
  by (auto simp: hits_def list_all_iff filter_empty_conv not_le)

text \<open>A handler that does one thing with the packets on the list and passes the others on.\<close>

lemma channel_spec:
  assumes handle: "\<And>m s. handle m s = (let s' = s\<lparr>numPackets := numPackets s + 1\<rparr> in
      if next_on_list s' then (act m, strike s') else ([m], s'))"
    and "sorted_wrt (<) (numbers s)" "list_all (\<lambda>k. numPackets s < k) (numbers s)" "generateFurther s \<longleftrightarrow> numbers s \<noteq> []"
  shows "\<exists>s'. channel handle ms s = (concat (map (\<lambda>(n, m). if n \<in> set (numbers s) then act m else [m]) (enumerate (Suc (numPackets s)) ms)), s')
    \<and> numHits s' = numHits s + hits (numPackets s + length ms) (numbers s)"
  using assms(2-)
proof (induction ms arbitrary: s)
  case Nil
  then show ?case using hits_above [of "numbers s" "numPackets s"] by simp
next
  case (Cons m ms)
  let ?s = "s\<lparr>numPackets := numPackets s + 1\<rparr>"
  show ?case
  proof (cases "next_on_list ?s")
    case True
    then obtain vec where vec: "numbers s = Suc (numPackets s) # vec"
      using Cons.prems(3) by (cases "numbers s") (auto simp: next_on_list_def)
    have prems: "sorted_wrt (<) (numbers (strike ?s))" "list_all (\<lambda>k. numPackets (strike ?s) < k) (numbers (strike ?s))"
      "generateFurther (strike ?s) \<longleftrightarrow> numbers (strike ?s) \<noteq> []"
      using Cons.prems(1) by (simp_all add: strike_def vec list_all_iff)
    obtain s' where "channel handle ms (strike ?s) = (concat (map (\<lambda>(n, m). if n \<in> set vec then act m else [m])
        (enumerate (Suc (Suc (numPackets s))) ms)), s')"
      "numHits s' = Suc (numHits s) + hits (Suc (numPackets s) + length ms) vec"
      using Cons.IH [OF prems] by (auto simp: strike_def vec)
    moreover have "map (\<lambda>(n, m). if n \<in> set vec then act m else [m]) (enumerate (Suc (Suc (numPackets s))) ms)
        = map (\<lambda>(n, m). if n \<in> set (numbers s) then act m else [m]) (enumerate (Suc (Suc (numPackets s))) ms)"
      by (auto simp: vec in_set_enumerate_eq)
    ultimately show ?thesis using True vec by (simp add: handle [of m s] hits_def Let_def)
  next
    case False
    then have notin: "Suc (numPackets s) \<notin> set (numbers s)" "list_all (\<lambda>k. Suc (numPackets s) < k) (numbers s)"
    proof -
      have "numbers s = [] \<or> Suc (numPackets s) < hd (numbers s)"
        using False Cons.prems(2,3) by (cases "numbers s") (auto simp: next_on_list_def)
      then show "list_all (\<lambda>k. Suc (numPackets s) < k) (numbers s)"
        using Cons.prems(1) by (cases "numbers s") (auto simp: list_all_iff)
      then show "Suc (numPackets s) \<notin> set (numbers s)" by (auto simp: list_all_iff)
    qed
    obtain s' where "channel handle ms ?s = (concat (map (\<lambda>(n, m). if n \<in> set (numbers s) then act m else [m])
        (enumerate (Suc (Suc (numPackets s))) ms)), s')"
      "numHits s' = numHits s + hits (Suc (numPackets s) + length ms) (numbers s)"
      using Cons.IH [of ?s] Cons.prems notin by auto
    then show ?thesis using False notin(1) by (simp add: handle [of m s] Let_def)
  qed
qed

text \<open>A zero at the head of the list is never reached: the channel then passes everything on.\<close>

lemma zero_blocks_list:
  "\<lbrakk>generateFurther s; hd (numbers s) = 0\<rbrakk> \<Longrightarrow> fst (channel drop_handleMessage ms s) = ms"
proof (induction ms arbitrary: s)
  case (Cons m ms)
  have "fst (channel drop_handleMessage ms (s\<lparr>numPackets := numPackets s + 1\<rparr>)) = ms"
    using Cons.IH [of "s\<lparr>numPackets := numPackets s + 1\<rparr>"] Cons.prems by simp
  then show ?case using Cons.prems
    by (simp add: drop_handleMessage_def [of m s] next_on_list_def case_prod_beta)
qed simp

section \<open>Property\<close>

text \<open>
  Exactly the listed packets are dropped.  If the vector parses to a list of positive numbers,
  the packets that pass the dropper are, in order, those whose number of arrival (from one on) is not
  in the list, and the counter of dropped packets is the number of listed ones that have arrived.  The
  duplicator with the same list sends exactly the listed packets twice.
\<close>

theorem ordinal_channels:
  assumes "ordinal_initialize vector = Inr s" "list_all (\<lambda>k. 0 < k) (numbers s)"
  shows "fst (channel drop_handleMessage ms s) = map snd (filter (\<lambda>(n, m). n \<notin> set (numbers s)) (enumerate 1 ms))
    \<and> numHits (snd (channel drop_handleMessage ms s)) = length (filter (\<lambda>k. k \<le> length ms) (numbers s))
    \<and> fst (channel dup_handleMessage ms s)
      = concat (map (\<lambda>(n, m). if n \<in> set (numbers s) then [m, m] else [m]) (enumerate 1 ms))"
proof -
  obtain vec where vec: "parseVector vector [] = Inr vec"
    "s = \<lparr>numPackets = 0, numHits = 0, generateFurther = (vec \<noteq> []), numbers = vec\<rparr>"
    using assms(1) by (auto simp: ordinal_initialize_def bind_result_Inr_iff)
  have prems: "sorted_wrt (<) (numbers s)" "list_all (\<lambda>k. numPackets s < k) (numbers s)" "generateFurther s \<longleftrightarrow> numbers s \<noteq> []"
    using parseVector_sorted [OF vec(1)] assms(2) vec(2) by simp_all
  have filter: "concat (map (\<lambda>(n, m). if n \<in> V then [] else [m]) xs) = map snd (filter (\<lambda>(n, m). n \<notin> V) xs)"
    for V :: "nat set" and xs :: "(nat \<times> cmessage) list"
    by (induction xs) auto
  obtain s1 where 1: "channel drop_handleMessage ms s
      = (concat (map (\<lambda>(n, m). if n \<in> set (numbers s) then [] else [m]) (enumerate (Suc (numPackets s)) ms)), s1)"
    "numHits s1 = numHits s + hits (numPackets s + length ms) (numbers s)"
    using channel_spec [of drop_handleMessage "\<lambda>m. []", OF drop_handleMessage_def prems] by blast
  obtain s2 where 2: "channel dup_handleMessage ms s
      = (concat (map (\<lambda>(n, m). if n \<in> set (numbers s) then [m, m] else [m]) (enumerate (Suc (numPackets s)) ms)), s2)"
    using channel_spec [of dup_handleMessage "\<lambda>m. [m, m]", OF dup_handleMessage_def prems] by blast
  have "numPackets s = 0" "numHits s = 0" using vec(2) by simp_all
  then show ?thesis using 1 2 by (simp add: filter hits_def)
qed

theorem ordinal_channels_witness:
  "fst (channel drop_handleMessage [Message 1, Message 2, Message 3] \<lparr>numPackets = 0, numHits = 0, generateFurther = True, numbers = [2, 5]\<rparr>)
    = [Message 1, Message 3]"
proof -
  have "ordinal_initialize ''2; 5'' = Inr \<lparr>numPackets = 0, numHits = 0, generateFurther = True, numbers = [2, 5]\<rparr>"
    by (simp add: ordinal_initialize_def parseVector.simps atoi_def strtol10_def isspace_def isdigit_def)
  from ordinal_channels [OF this, of "[Message 1, Message 2, Message 3]"] show ?thesis by (simp add: numeral_2_eq_2)
qed

end
