(* ===== verification/MacTable.thy ===== *)
theory MacTable
  imports CText "HOL-Library.AList"
begin

text \<open>
  The address table of the Ethernet switch, \<^verbatim>\<open>linklayer/ethernet/switch/MACAddressTable.{h,cc}\<close>:
  one table of learned addresses per VLAN, reached through the map \<open>vlanAddressTable\<close>, and for VLAN 0
  also through the pointer \<open>addressTable\<close>.  The tables live in an explicit store, so that the sharing
  of the VLAN 0 table is in the model.  A \<^verbatim>\<open>std::map\<close> is an association list with distinct keys; the
  code does not depend on the order of its elements.  Simulation time is an argument of the operations
  that read the clock.
\<close>

section \<open>The table\<close>

type_synonym uint = "32 word"
type_synonym table_ptr = nat

record AddressEntry =
  ae_vid :: uint
  ae_portno :: int
  ae_insertionTime :: simtime

type_synonym AddressTable = "(MACAddress \<times> AddressEntry) list"

record MACAddressTable =
  agingTime :: simtime
  lastPurge :: simtime
  addressTable :: "table_ptr option"
  vlanAddressTable :: "(uint \<times> table_ptr) list"
  tables :: "table_ptr \<Rightarrow> AddressTable option"
  next_table :: table_ptr

text \<open>The store: allocation, access and mutation of a table through a pointer.\<close>

definition new_AddressTable :: "MACAddressTable \<Rightarrow> table_ptr \<times> MACAddressTable" where
  "new_AddressTable st =
     (next_table st, st\<lparr>tables := (tables st)(next_table st \<mapsto> []), next_table := next_table st + 1\<rparr>)"

definition table_at :: "MACAddressTable \<Rightarrow> table_ptr \<Rightarrow> AddressTable" where
  "table_at st p = (case tables st p of Some t \<Rightarrow> t | None \<Rightarrow> [])"

definition change_table :: "table_ptr \<Rightarrow> (AddressTable \<Rightarrow> AddressTable) \<Rightarrow> MACAddressTable \<Rightarrow> MACAddressTable" where
  "change_table p f st = st\<lparr>tables := (tables st)(p := map_option f (tables st p))\<rparr>"

text \<open>The loops \<^verbatim>\<open>for (auto & elem : vlanAddressTable)\<close>.\<close>

definition for_all_tables :: "(AddressTable \<Rightarrow> AddressTable) \<Rightarrow> MACAddressTable \<Rightarrow> MACAddressTable" where
  "for_all_tables f st = fold (\<lambda>elem. change_table (snd elem) f) (vlanAddressTable st) st"

definition mt_new :: MACAddressTable where
  "mt_new = \<lparr>agingTime = 0, lastPurge = 0, addressTable = Some 0, vlanAddressTable = [(0, 0)],
             tables = [0 \<mapsto> []], next_table = 1\<rparr>"

definition getTableForVid :: "uint \<Rightarrow> MACAddressTable \<Rightarrow> table_ptr option" where
  "getTableForVid vid st = (if vid = 0 then addressTable st else map_of (vlanAddressTable st) vid)"

definition is_aged :: "simtime \<Rightarrow> simtime \<Rightarrow> AddressEntry \<Rightarrow> bool" where
  "is_aged aging now e \<longleftrightarrow> ae_insertionTime e + aging \<le> now"

definition getPortForAddress :: "simtime \<Rightarrow> MACAddress \<Rightarrow> uint \<Rightarrow> MACAddressTable \<Rightarrow> int \<times> MACAddressTable" where
  "getPortForAddress now a vid st =
     (case getTableForVid vid st of
        None \<Rightarrow> (-1, st)
      | Some p \<Rightarrow>
          (case map_of (table_at st p) a of
             None \<Rightarrow> (-1, st)
           | Some e \<Rightarrow>
               if is_aged (agingTime st) now e then (-1, change_table p (AList.delete a) st)
               else (ae_portno e, st)))"

definition remove_aged :: "simtime \<Rightarrow> simtime \<Rightarrow> AddressTable \<Rightarrow> AddressTable" where
  "remove_aged aging now t = filter (\<lambda>(a, e). \<not> is_aged aging now e) t"

definition removeAgedEntriesFromVlan :: "simtime \<Rightarrow> uint \<Rightarrow> MACAddressTable \<Rightarrow> MACAddressTable" where
  "removeAgedEntriesFromVlan now vid st =
     (case getTableForVid vid st of
        None \<Rightarrow> st
      | Some p \<Rightarrow> change_table p (remove_aged (agingTime st) now) st)"

definition removeAgedEntriesFromAllVlans :: "simtime \<Rightarrow> MACAddressTable \<Rightarrow> MACAddressTable" where
  "removeAgedEntriesFromAllVlans now st = for_all_tables (remove_aged (agingTime st) now) st"

definition removeAgedEntriesIfNeeded :: "simtime \<Rightarrow> MACAddressTable \<Rightarrow> MACAddressTable" where
  "removeAgedEntriesIfNeeded now st =
     (if now \<ge> lastPurge st + SimTime_s 1 then removeAgedEntriesFromAllVlans now st else st)\<lparr>lastPurge := now\<rparr>"

text \<open>The part of \<open>updateTableWithAddress\<close> that finds the table of the VLAN, or makes it.\<close>

definition table_for_update :: "uint \<Rightarrow> MACAddressTable \<Rightarrow> table_ptr \<times> MACAddressTable" where
  "table_for_update vid st =
     (case getTableForVid vid st of
        Some p \<Rightarrow> (p, st)
      | None \<Rightarrow>
          (let (p, st) = new_AddressTable st;
               st = (if vid = 0 then st\<lparr>addressTable := Some p\<rparr> else st)
           in (p, st\<lparr>vlanAddressTable := AList.update vid p (vlanAddressTable st)\<rparr>)))"

definition updateTableWithAddress ::
  "simtime \<Rightarrow> int \<Rightarrow> MACAddress \<Rightarrow> uint \<Rightarrow> MACAddressTable \<Rightarrow> bool \<times> MACAddressTable" where
  "updateTableWithAddress now portno a vid st =
     (if isBroadcast a then (False, st)
      else
        (let (p, st) = table_for_update vid st in
         case map_of (table_at st p) a of
           None \<Rightarrow>
             (let st = removeAgedEntriesIfNeeded now st in
              (False, change_table p (AList.update a
                        \<lparr>ae_vid = vid, ae_portno = portno, ae_insertionTime = now\<rparr>) st))
         | Some e \<Rightarrow>
             (True, change_table p (AList.update a (e\<lparr>ae_insertionTime := now, ae_portno := portno\<rparr>)) st)))"

definition flush :: "int \<Rightarrow> MACAddressTable \<Rightarrow> MACAddressTable" where
  "flush portno st = for_all_tables (filter (\<lambda>(a, e). ae_portno e \<noteq> portno)) st"

definition copyTable :: "int \<Rightarrow> int \<Rightarrow> MACAddressTable \<Rightarrow> MACAddressTable" where
  "copyTable portA portB st =
     for_all_tables (map (\<lambda>(a, e). (a, if ae_portno e = portA then e\<lparr>ae_portno := portB\<rparr> else e))) st"

definition clearTable :: "MACAddressTable \<Rightarrow> MACAddressTable" where
  "clearTable st =
     st\<lparr>tables := fold (\<lambda>elem m. m(snd elem := None)) (vlanAddressTable st) (tables st),
        vlanAddressTable := [], addressTable := None\<rparr>"

definition setAgingTime :: "simtime \<Rightarrow> MACAddressTable \<Rightarrow> MACAddressTable" where
  "setAgingTime t st = st\<lparr>agingTime := t\<rparr>"

definition resetDefaultAging :: "simtime \<Rightarrow> MACAddressTable \<Rightarrow> MACAddressTable" where
  "resetDefaultAging par_agingTime st = st\<lparr>agingTime := par_agingTime\<rparr>"

section \<open>The tables in the store\<close>

text \<open>
  \<open>learned st vid a\<close> is the entry of an address on a VLAN.  The invariant: \<open>addressTable\<close> is the table
  of VLAN 0, the VLANs have distinct tables, every table is allocated and has one entry for an address.
\<close>

definition learned :: "MACAddressTable \<Rightarrow> uint \<Rightarrow> MACAddress \<Rightarrow> AddressEntry option" where
  "learned st vid a = (case map_of (vlanAddressTable st) vid of None \<Rightarrow> None | Some p \<Rightarrow> map_of (table_at st p) a)"

definition mt_inv :: "MACAddressTable \<Rightarrow> bool" where
  "mt_inv st \<longleftrightarrow>
     addressTable st = map_of (vlanAddressTable st) 0 \<and>
     distinct (map fst (vlanAddressTable st)) \<and>
     distinct (map snd (vlanAddressTable st)) \<and>
     (\<forall>p \<in> snd ` set (vlanAddressTable st). p < next_table st \<and>
        (\<exists>t. tables st p = Some t \<and> distinct (map fst t)))"

lemma mt_inv_new: "mt_inv mt_new"
  by (simp add: mt_inv_def mt_new_def)

lemma learned_new [simp]: "learned mt_new vid a = None"
  by (simp add: learned_def mt_new_def table_at_def)

lemma getTableForVid_inv: "mt_inv st \<Longrightarrow> getTableForVid vid st = map_of (vlanAddressTable st) vid"
  by (simp add: getTableForVid_def mt_inv_def)

lemma change_table_select [simp]:
  "agingTime (change_table p f st) = agingTime st"
  "lastPurge (change_table p f st) = lastPurge st"
  "addressTable (change_table p f st) = addressTable st"
  "vlanAddressTable (change_table p f st) = vlanAddressTable st"
  "next_table (change_table p f st) = next_table st"
  by (simp_all add: change_table_def)

lemma tables_change_table:
  "tables (change_table p f st) q = (if q = p then map_option f (tables st p) else tables st q)"
  by (simp add: change_table_def)

lemma fold_change_table_select:
  "agingTime (fold (\<lambda>elem. change_table (snd elem) f) vs st) = agingTime st"
  "lastPurge (fold (\<lambda>elem. change_table (snd elem) f) vs st) = lastPurge st"
  "addressTable (fold (\<lambda>elem. change_table (snd elem) f) vs st) = addressTable st"
  "vlanAddressTable (fold (\<lambda>elem. change_table (snd elem) f) vs st) = vlanAddressTable st"
  "next_table (fold (\<lambda>elem. change_table (snd elem) f) vs st) = next_table st"
  by (induction vs arbitrary: st) simp_all

lemma for_all_tables_select [simp]:
  "agingTime (for_all_tables f st) = agingTime st"
  "lastPurge (for_all_tables f st) = lastPurge st"
  "addressTable (for_all_tables f st) = addressTable st"
  "vlanAddressTable (for_all_tables f st) = vlanAddressTable st"
  "next_table (for_all_tables f st) = next_table st"
  by (simp_all add: for_all_tables_def fold_change_table_select)

lemma tables_fold_change_table:
  "distinct (map snd vs) \<Longrightarrow>
   tables (fold (\<lambda>elem. change_table (snd elem) f) vs st) p =
     (if p \<in> snd ` set vs then map_option f (tables st p) else tables st p)"
  by (induction vs arbitrary: st) (auto simp: tables_change_table)

lemma tables_for_all_tables:
  "mt_inv st \<Longrightarrow> tables (for_all_tables f st) p =
     (if p \<in> snd ` set (vlanAddressTable st) then map_option f (tables st p) else tables st p)"
  by (simp add: for_all_tables_def tables_fold_change_table mt_inv_def)

text \<open>What a change of one table, and of all of them, means for the entries.\<close>

definition keeps_keys :: "(AddressTable \<Rightarrow> AddressTable) \<Rightarrow> bool" where
  "keeps_keys f \<longleftrightarrow> (\<forall>t. distinct (map fst t) \<longrightarrow> distinct (map fst (f t)))"

lemma keeps_keys_intros [simp, intro]:
  "keeps_keys (filter P)" "keeps_keys (AList.update a e)" "keeps_keys (AList.delete a)"
  "keeps_keys (map (\<lambda>(a, e). (a, g e)))" "keeps_keys (remove_aged aging now)"
  by (simp_all add: keeps_keys_def AList.distinct_update AList.distinct_delete distinct_map_filter
      remove_aged_def comp_def case_prod_unfold)

lemma mt_inv_change_table: "mt_inv st \<Longrightarrow> keeps_keys f \<Longrightarrow> mt_inv (change_table p f st)"
  by (fastforce simp: mt_inv_def tables_change_table keeps_keys_def)

lemma mt_inv_for_all_tables: "mt_inv st \<Longrightarrow> keeps_keys f \<Longrightarrow> mt_inv (for_all_tables f st)"
  by (subst mt_inv_def) (auto simp: tables_for_all_tables mt_inv_def keeps_keys_def)

lemma table_of_vlan:
  "mt_inv st \<Longrightarrow> map_of (vlanAddressTable st) vid = Some p \<Longrightarrow>
   tables st p = Some (table_at st p) \<and> distinct (map fst (table_at st p))"
  by (force simp: mt_inv_def table_at_def dest!: map_of_SomeD)

lemma vlan_tables_distinct:
  assumes "mt_inv st" "map_of (vlanAddressTable st) v = Some p" "map_of (vlanAddressTable st) v' = Some p"
  shows "v = v'"
proof -
  have "distinct (map snd (vlanAddressTable st))" "distinct (map fst (vlanAddressTable st))"
    using assms(1) by (simp_all add: mt_inv_def)
  with assms(2,3) show ?thesis
    by (metis distinct_map eq_fst_iff inj_onD map_of_SomeD snd_conv)
qed

lemma learned_change_table:
  assumes "mt_inv st" "map_of (vlanAddressTable st) vid = Some p"
  shows "learned (change_table p f st) v a = (if v = vid then map_of (f (table_at st p)) a else learned st v a)"
proof (cases "v = vid")
  case True
  moreover obtain t where "tables st p = Some t" using table_of_vlan [OF assms] by blast
  ultimately show ?thesis using assms
    by (simp add: learned_def table_at_def tables_change_table)
next
  case False
  with assms vlan_tables_distinct [OF assms(1) _ assms(2), of v] show ?thesis
    by (auto simp: learned_def table_at_def tables_change_table split: option.splits)
qed

lemma learned_for_all_tables:
  assumes "mt_inv st"
  shows "learned (for_all_tables f st) v a =
    (case map_of (vlanAddressTable st) v of None \<Rightarrow> None | Some p \<Rightarrow> map_of (f (table_at st p)) a)"
proof (cases "map_of (vlanAddressTable st) v")
  case None
  then show ?thesis by (simp add: learned_def)
next
  case (Some p)
  then have "p \<in> snd ` set (vlanAddressTable st)" by (force dest: map_of_SomeD)
  moreover obtain t where "tables st p = Some t" using table_of_vlan [OF assms Some] by blast
  ultimately show ?thesis using Some by (simp add: learned_def table_at_def tables_for_all_tables [OF assms])
qed

lemma map_of_map_values: "map_of (map (\<lambda>(a, e). (a, g e)) t) a = map_option g (map_of t a)"
  by (induction t) auto

section \<open>The operations on the entries\<close>

text \<open>The specification: the two clocks and the entry of each address on each VLAN.\<close>

record mac_spec =
  sp_aging :: simtime
  sp_purge :: simtime
  sp_learned :: "uint \<Rightarrow> MACAddress \<Rightarrow> AddressEntry option"

definition mt_abs :: "MACAddressTable \<Rightarrow> mac_spec" where
  "mt_abs st = \<lparr>sp_aging = agingTime st, sp_purge = lastPurge st, sp_learned = learned st\<rparr>"

definition entries_where :: "(AddressEntry \<Rightarrow> bool) \<Rightarrow> (uint \<Rightarrow> MACAddress \<Rightarrow> AddressEntry option) \<Rightarrow>
    uint \<Rightarrow> MACAddress \<Rightarrow> AddressEntry option" where
  "entries_where P L vid a = (case L vid a of None \<Rightarrow> None | Some e \<Rightarrow> if P e then Some e else None)"

definition set_entry :: "uint \<Rightarrow> MACAddress \<Rightarrow> AddressEntry option \<Rightarrow> (uint \<Rightarrow> MACAddress \<Rightarrow> AddressEntry option) \<Rightarrow>
    uint \<Rightarrow> MACAddress \<Rightarrow> AddressEntry option" where
  "set_entry vid a e L = L(vid := (L vid)(a := e))"

definition sp_age_all :: "simtime \<Rightarrow> mac_spec \<Rightarrow> mac_spec" where
  "sp_age_all now s = s\<lparr>sp_learned := entries_where (\<lambda>e. \<not> is_aged (sp_aging s) now e) (sp_learned s)\<rparr>"

definition sp_age_if_needed :: "simtime \<Rightarrow> mac_spec \<Rightarrow> mac_spec" where
  "sp_age_if_needed now s = (if now \<ge> sp_purge s + SimTime_s 1 then sp_age_all now s else s)\<lparr>sp_purge := now\<rparr>"

definition sp_port :: "simtime \<Rightarrow> MACAddress \<Rightarrow> uint \<Rightarrow> mac_spec \<Rightarrow> int" where
  "sp_port now a vid s =
     (case sp_learned s vid a of
        None \<Rightarrow> -1
      | Some e \<Rightarrow> if is_aged (sp_aging s) now e then -1 else ae_portno e)"

definition sp_lookup :: "simtime \<Rightarrow> MACAddress \<Rightarrow> uint \<Rightarrow> mac_spec \<Rightarrow> mac_spec" where
  "sp_lookup now a vid s =
     (case sp_learned s vid a of
        None \<Rightarrow> s
      | Some e \<Rightarrow> if is_aged (sp_aging s) now e then s\<lparr>sp_learned := set_entry vid a None (sp_learned s)\<rparr> else s)"

definition sp_learn :: "simtime \<Rightarrow> int \<Rightarrow> MACAddress \<Rightarrow> uint \<Rightarrow> mac_spec \<Rightarrow> mac_spec" where
  "sp_learn now portno a vid s =
     (if isBroadcast a then s
      else case sp_learned s vid a of
        None \<Rightarrow> (let s = sp_age_if_needed now s in
                 s\<lparr>sp_learned := set_entry vid a
                     (Some \<lparr>ae_vid = vid, ae_portno = portno, ae_insertionTime = now\<rparr>) (sp_learned s)\<rparr>)
      | Some e \<Rightarrow> s\<lparr>sp_learned := set_entry vid a (Some (e\<lparr>ae_insertionTime := now, ae_portno := portno\<rparr>))
                     (sp_learned s)\<rparr>)"

datatype mac_op =
    Learn simtime int MACAddress uint
  | Lookup simtime MACAddress uint
  | Flush int
  | CopyPort int int
  | AgeVlan simtime uint
  | AgeAll simtime
  | AgeIfNeeded simtime
  | Clear
  | SetAging simtime

fun mac_exec :: "mac_op \<Rightarrow> MACAddressTable \<Rightarrow> MACAddressTable" where
  "mac_exec (Learn now portno a vid) st = snd (updateTableWithAddress now portno a vid st)"
| "mac_exec (Lookup now a vid) st = snd (getPortForAddress now a vid st)"
| "mac_exec (Flush portno) st = flush portno st"
| "mac_exec (CopyPort portA portB) st = copyTable portA portB st"
| "mac_exec (AgeVlan now vid) st = removeAgedEntriesFromVlan now vid st"
| "mac_exec (AgeAll now) st = removeAgedEntriesFromAllVlans now st"
| "mac_exec (AgeIfNeeded now) st = removeAgedEntriesIfNeeded now st"
| "mac_exec Clear st = clearTable st"
| "mac_exec (SetAging t) st = setAgingTime t st"

fun mac_spec_exec :: "mac_op \<Rightarrow> mac_spec \<Rightarrow> mac_spec" where
  "mac_spec_exec (Learn now portno a vid) s = sp_learn now portno a vid s"
| "mac_spec_exec (Lookup now a vid) s = sp_lookup now a vid s"
| "mac_spec_exec (Flush portno) s = s\<lparr>sp_learned := entries_where (\<lambda>e. ae_portno e \<noteq> portno) (sp_learned s)\<rparr>"
| "mac_spec_exec (CopyPort portA portB) s =
     s\<lparr>sp_learned := \<lambda>vid a. map_option (\<lambda>e. if ae_portno e = portA then e\<lparr>ae_portno := portB\<rparr> else e)
                        (sp_learned s vid a)\<rparr>"
| "mac_spec_exec (AgeVlan now vid) s =
     s\<lparr>sp_learned := (sp_learned s)
         (vid := entries_where (\<lambda>e. \<not> is_aged (sp_aging s) now e) (sp_learned s) vid)\<rparr>"
| "mac_spec_exec (AgeAll now) s = sp_age_all now s"
| "mac_spec_exec (AgeIfNeeded now) s = sp_age_if_needed now s"
| "mac_spec_exec Clear s = s\<lparr>sp_learned := \<lambda>vid a. None\<rparr>"
| "mac_spec_exec (SetAging t) s = s\<lparr>sp_aging := t\<rparr>"

section \<open>The operations implement the specification\<close>

named_theorems mt_simps

lemma mt_abs_select [simp]:
  "sp_aging (mt_abs st) = agingTime st" "sp_purge (mt_abs st) = lastPurge st" "sp_learned (mt_abs st) = learned st"
  by (simp_all add: mt_abs_def)

lemma mac_spec_eqI:
  "sp_aging s = sp_aging s' \<Longrightarrow> sp_purge s = sp_purge s' \<Longrightarrow> (\<And>vid a. sp_learned s vid a = sp_learned s' vid a) \<Longrightarrow> s = s'"
  for s s' :: mac_spec
  by (cases s; cases s') auto

lemma filter_table_entry:
  "mt_inv st \<Longrightarrow> map_of (vlanAddressTable st) vid = Some p \<Longrightarrow>
   map_of (filter (\<lambda>(a, e). P e) (table_at st p)) a = entries_where P (learned st) vid a"
  using table_of_vlan [of st vid p] by (simp add: map_of_filter_values entries_where_def learned_def)

lemma filter_tables_abs:
  assumes "mt_inv st"
  shows "learned (for_all_tables (filter (\<lambda>(a, e). P e)) st) = entries_where P (learned st)"
proof (intro ext)
  fix vid a
  show "learned (for_all_tables (filter (\<lambda>(a, e). P e)) st) vid a = entries_where P (learned st) vid a"
    using assms by (cases "map_of (vlanAddressTable st) vid")
      (simp_all add: learned_for_all_tables filter_table_entry, simp add: entries_where_def learned_def)
qed

lemma learned_at: "map_of (vlanAddressTable st) vid = Some p \<Longrightarrow> learned st vid a = map_of (table_at st p) a"
  by (simp add: learned_def)

lemma learned_set_entry:
  "mt_inv st \<Longrightarrow> map_of (vlanAddressTable st) vid = Some p \<Longrightarrow>
   learned (change_table p (AList.update a e) st) = set_entry vid a (Some e) (learned st)"
  "mt_inv st \<Longrightarrow> map_of (vlanAddressTable st) vid = Some p \<Longrightarrow>
   learned (change_table p (AList.delete a) st) = set_entry vid a None (learned st)"
  by (auto intro!: ext simp: learned_change_table set_entry_def AList.update_conv' AList.delete_conv' learned_at)

lemma mt_abs_set_entry:
  "mt_inv st \<Longrightarrow> map_of (vlanAddressTable st) vid = Some p \<Longrightarrow>
   mt_abs (change_table p (AList.update a e) st) =
     (mt_abs st)\<lparr>sp_learned := set_entry vid a (Some e) (sp_learned (mt_abs st))\<rparr>"
  by (simp add: mt_abs_def learned_set_entry)

lemma age_all_abs [mt_simps]:
  "mt_inv st \<Longrightarrow> mt_abs (removeAgedEntriesFromAllVlans now st) = sp_age_all now (mt_abs st)"
  by (intro mac_spec_eqI)
    (simp_all add: removeAgedEntriesFromAllVlans_def sp_age_all_def remove_aged_def [abs_def] filter_tables_abs)

lemma mt_inv_age_all: "mt_inv st \<Longrightarrow> mt_inv (removeAgedEntriesFromAllVlans now st)"
  by (simp add: removeAgedEntriesFromAllVlans_def mt_inv_for_all_tables)

lemma age_all_vlans [simp]: "vlanAddressTable (removeAgedEntriesFromAllVlans now st) = vlanAddressTable st"
  by (simp add: removeAgedEntriesFromAllVlans_def)

lemma learned_clocks [simp]:
  "learned (st\<lparr>lastPurge := now\<rparr>) = learned st" "learned (st\<lparr>agingTime := t\<rparr>) = learned st"
  by (intro ext; simp add: learned_def table_at_def split: option.split)+

lemma purge_clock [simp]:
  "mt_inv (st\<lparr>lastPurge := now\<rparr>) = mt_inv st"
  "mt_abs (st\<lparr>lastPurge := now\<rparr>) = (mt_abs st)\<lparr>sp_purge := now\<rparr>"
  by (simp_all add: mt_inv_def mt_abs_def)

lemma age_if_needed_abs [mt_simps]:
  "mt_inv st \<Longrightarrow> mt_abs (removeAgedEntriesIfNeeded now st) = sp_age_if_needed now (mt_abs st)"
  by (simp add: removeAgedEntriesIfNeeded_def sp_age_if_needed_def age_all_abs)

lemma mt_inv_age_if_needed: "mt_inv st \<Longrightarrow> mt_inv (removeAgedEntriesIfNeeded now st)"
  by (simp add: removeAgedEntriesIfNeeded_def mt_inv_age_all)

lemma age_if_needed_vlans [simp]: "vlanAddressTable (removeAgedEntriesIfNeeded now st) = vlanAddressTable st"
  by (simp add: removeAgedEntriesIfNeeded_def)

lemma update_new_key: "k \<notin> fst ` set al \<Longrightarrow> AList.update k v al = al @ [(k, v)]"
  by (induction al) auto

lemma table_for_update_abs:
  assumes "mt_inv st" "table_for_update vid st = (p, st1)"
  shows "mt_inv st1 \<and> map_of (vlanAddressTable st1) vid = Some p \<and> mt_abs st1 = mt_abs st"
proof (cases "map_of (vlanAddressTable st) vid")
  case None
  have p: "p = next_table st"
    using None assms by (auto simp: table_for_update_def getTableForVid_inv new_AddressTable_def Let_def)
  have st1: "st1 = (if vid = 0 then st\<lparr>addressTable := Some p\<rparr> else st)
     \<lparr>tables := (tables st)(p \<mapsto> []), next_table := next_table st + 1,
      vlanAddressTable := AList.update vid p (vlanAddressTable st)\<rparr>"
    using None assms by (auto simp: table_for_update_def getTableForVid_inv new_AddressTable_def Let_def)
  have fresh: "\<forall>q \<in> snd ` set (vlanAddressTable st). q < p" and new: "vid \<notin> fst ` set (vlanAddressTable st)"
    using assms(1) None by (auto simp: p mt_inv_def map_of_eq_None_iff)
  have upd: "AList.update vid p (vlanAddressTable st) = vlanAddressTable st @ [(vid, p)]"
    using new by (rule update_new_key)
  have store: "tables st1 = (tables st)(p \<mapsto> [])" "vlanAddressTable st1 = vlanAddressTable st @ [(vid, p)]"
    "next_table st1 = Suc p" "addressTable st1 = (if vid = 0 then Some p else addressTable st)"
    by (simp_all add: st1 upd) (simp add: p)
  have notin: "p \<notin> snd ` set (vlanAddressTable st)" using fresh by blast
  have "mt_inv st1"
    using assms(1) None notin fresh new unfolding mt_inv_def
    by (auto simp: store less_Suc_eq map_add_def map_of_eq_None_iff image_iff split: option.split)
  moreover have "learned st1 v a = learned st v a" for v a
  proof (cases "map_of (vlanAddressTable st) v")
    case None
    then show ?thesis by (auto simp: learned_def store table_at_def map_add_def split: option.split)
  next
    case (Some q)
    then have "q \<noteq> p" using notin by (force dest: map_of_SomeD)
    then show ?thesis using Some by (simp add: learned_def store table_at_def)
  qed
  moreover have "agingTime st1 = agingTime st" "lastPurge st1 = lastPurge st" by (simp_all add: st1)
  ultimately show ?thesis using None new by (auto intro: mac_spec_eqI simp: store map_add_def)
next
  case (Some q)
  then show ?thesis using assms by (simp add: table_for_update_def getTableForVid_inv)
qed

lemma updateTableWithAddress_abs:
  assumes "mt_inv st" "updateTableWithAddress now portno a vid st = (refreshed, st')"
  shows "mt_inv st' \<and> mt_abs st' = sp_learn now portno a vid (mt_abs st) \<and>
         (refreshed \<longleftrightarrow> \<not> isBroadcast a \<and> learned st vid a \<noteq> None)"
proof (cases "isBroadcast a")
  case True
  then show ?thesis using assms by (simp add: updateTableWithAddress_def sp_learn_def)
next
  case False
  obtain p st1 where tab: "table_for_update vid st = (p, st1)" by (cases "table_for_update vid st")
  then have st1: "mt_inv st1" "map_of (vlanAddressTable st1) vid = Some p" "mt_abs st1 = mt_abs st"
    using table_for_update_abs [OF assms(1)] by simp_all
  have at: "map_of (table_at st1 p) a = learned st vid a"
    using st1(3) learned_at [OF st1(2), of a] by (simp add: mt_abs_def)
  show ?thesis
  proof (cases "learned st vid a")
    case None
    let ?st2 = "removeAgedEntriesIfNeeded now st1"
    have "mt_inv ?st2" "map_of (vlanAddressTable ?st2) vid = Some p"
      "mt_abs ?st2 = sp_age_if_needed now (mt_abs st)"
      using st1 by (simp_all add: mt_inv_age_if_needed age_if_needed_abs)
    then show ?thesis
      using assms(2) False tab at None
      by (auto simp: updateTableWithAddress_def sp_learn_def Let_def mt_abs_set_entry
          intro!: mt_inv_change_table)
  next
    case (Some e)
    then show ?thesis
      using assms(2) False tab at st1
      by (auto simp: updateTableWithAddress_def sp_learn_def Let_def mt_abs_set_entry
          intro!: mt_inv_change_table)
  qed
qed

lemma getPortForAddress_abs:
  assumes "mt_inv st" "getPortForAddress now a vid st = (port, st')"
  shows "mt_inv st' \<and> mt_abs st' = sp_lookup now a vid (mt_abs st) \<and> port = sp_port now a vid (mt_abs st)"
proof (cases "map_of (vlanAddressTable st) vid")
  case None
  then show ?thesis using assms
    by (simp add: getPortForAddress_def getTableForVid_inv sp_lookup_def sp_port_def learned_def)
next
  case (Some p)
  then show ?thesis using assms
    by (auto simp: getPortForAddress_def getTableForVid_inv sp_lookup_def sp_port_def learned_at
        learned_set_entry mt_abs_def mt_inv_change_table split: option.splits if_splits)
qed

lemma flush_abs:
  assumes "mt_inv st"
  shows "mt_inv (flush portno st)" "mt_abs (flush portno st) = mac_spec_exec (Flush portno) (mt_abs st)"
  using assms by (simp_all add: flush_def mt_inv_for_all_tables mt_abs_def filter_tables_abs)

lemma copyTable_abs:
  assumes "mt_inv st"
  shows "mt_inv (copyTable portA portB st)"
    "mt_abs (copyTable portA portB st) = mac_spec_exec (CopyPort portA portB) (mt_abs st)"
proof -
  show "mt_inv (copyTable portA portB st)"
    using assms by (simp add: copyTable_def mt_inv_for_all_tables)
  show "mt_abs (copyTable portA portB st) = mac_spec_exec (CopyPort portA portB) (mt_abs st)"
    using assms by (intro mac_spec_eqI)
      (simp_all add: copyTable_def learned_for_all_tables, simp add: learned_def map_of_map_values split: option.split)
qed

lemma removeAgedEntriesFromVlan_abs:
  assumes "mt_inv st"
  shows "mt_inv (removeAgedEntriesFromVlan now vid st)"
    "mt_abs (removeAgedEntriesFromVlan now vid st) = mac_spec_exec (AgeVlan now vid) (mt_abs st)"
proof -
  show "mt_inv (removeAgedEntriesFromVlan now vid st)"
    using assms by (auto simp: removeAgedEntriesFromVlan_def intro!: mt_inv_change_table split: option.split)
  show "mt_abs (removeAgedEntriesFromVlan now vid st) = mac_spec_exec (AgeVlan now vid) (mt_abs st)"
  proof (cases "map_of (vlanAddressTable st) vid")
    case None
    then have "entries_where P (learned st) vid = learned st vid" for P
      by (auto simp: entries_where_def learned_def)
    with None assms show ?thesis
      by (simp add: removeAgedEntriesFromVlan_def getTableForVid_inv mt_abs_def)
  next
    case (Some p)
    with assms show ?thesis
      by (intro mac_spec_eqI) (simp_all add: removeAgedEntriesFromVlan_def getTableForVid_inv
          learned_change_table remove_aged_def filter_table_entry)
  qed
qed

lemma clearTable_abs:
  "mt_inv (clearTable st)" "mt_abs (clearTable st) = mac_spec_exec Clear (mt_abs st)"
  by (simp_all add: clearTable_def mt_inv_def mt_abs_def learned_def [abs_def])

lemma setAgingTime_abs:
  "mt_inv st \<Longrightarrow> mt_inv (setAgingTime t st)" "mt_abs (setAgingTime t st) = mac_spec_exec (SetAging t) (mt_abs st)"
  by (simp_all add: setAgingTime_def mt_inv_def mt_abs_def)

lemma mac_exec_abs: "mt_inv st \<Longrightarrow> mt_inv (mac_exec op st) \<and> mt_abs (mac_exec op st) = mac_spec_exec op (mt_abs st)"
proof (cases op)
  case (Learn now portno a vid)
  assume "mt_inv st"
  from updateTableWithAddress_abs [OF this, of now portno a vid] show ?thesis
    by (cases "updateTableWithAddress now portno a vid st") (simp add: Learn)
next
  case (Lookup now a vid)
  assume "mt_inv st"
  from getPortForAddress_abs [OF this, of now a vid] show ?thesis
    by (cases "getPortForAddress now a vid st") (simp add: Lookup)
qed (simp_all add: flush_abs copyTable_abs removeAgedEntriesFromVlan_abs age_all_abs mt_inv_age_all
    age_if_needed_abs mt_inv_age_if_needed clearTable_abs setAgingTime_abs del: mac_spec_exec.simps(3,4,5,8,9))

interpretation mac_runs: data_refinement
  "\<lambda>op st. Inr (mac_exec op st) :: sim_error + MACAddressTable" mt_inv mt_abs "\<lambda>s op. True" mac_spec_exec
  by unfold_locales (use mac_exec_abs in blast)

lemma mac_fold_abs:
  "mt_inv st \<Longrightarrow> mt_inv (fold mac_exec ops st) \<and> mt_abs (fold mac_exec ops st) = fold mac_spec_exec ops (mt_abs st)"
  using mac_runs.run_simulates [of st ops] by (simp add: legal_run_True run_result_total)

text \<open>
  C20: the address table with one table per VLAN in the store, two ways to the table of VLAN 0, and
  purging while it is updated, implements the flat map from a VLAN and an address to an entry: after any
  operations from the initial table a lookup gives the port of the map's entry, or -1 when there is none
  or it has aged, and an update reports whether the map had an entry.
\<close>

theorem mac_table_runs:
  "fst (getPortForAddress now a vid (fold mac_exec ops mt_new)) =
     sp_port now a vid (fold mac_spec_exec ops \<lparr>sp_aging = 0, sp_purge = 0, sp_learned = \<lambda>vid a. None\<rparr>) \<and>
   (fst (updateTableWithAddress now portno a vid (fold mac_exec ops mt_new)) \<longleftrightarrow>
     \<not> isBroadcast a \<and>
     sp_learned (fold mac_spec_exec ops \<lparr>sp_aging = 0, sp_purge = 0, sp_learned = \<lambda>vid a. None\<rparr>) vid a \<noteq> None)"
proof -
  let ?st = "fold mac_exec ops mt_new"
  have new: "mt_abs mt_new = \<lparr>sp_aging = 0, sp_purge = 0, sp_learned = \<lambda>vid a. None\<rparr>"
    by (simp add: mt_abs_def fun_eq_iff) (simp add: mt_new_def)
  have st: "mt_inv ?st" "fold mac_spec_exec ops \<lparr>sp_aging = 0, sp_purge = 0, sp_learned = \<lambda>vid a. None\<rparr> = mt_abs ?st"
    using mac_fold_abs [OF mt_inv_new, of ops] by (simp_all add: new)
  have "fst (getPortForAddress now a vid ?st) = sp_port now a vid (mt_abs ?st)"
    using getPortForAddress_abs [OF st(1), of now a vid] by (cases "getPortForAddress now a vid ?st") simp
  moreover have "fst (updateTableWithAddress now portno a vid ?st) \<longleftrightarrow> \<not> isBroadcast a \<and> learned ?st vid a \<noteq> None"
    using updateTableWithAddress_abs [OF st(1), of now portno a vid]
    by (cases "updateTableWithAddress now portno a vid ?st") simp
  ultimately show ?thesis by (simp add: st(2))
qed

section \<open>The last port learned\<close>

text \<open>
  \<open>harmless vid a p end op\<close>: the operation does not update the address on the VLAN, leaves port \<open>p\<close>
  alone, does not change the aging time, and happens no later than \<open>end\<close>.
\<close>

fun harmless :: "uint \<Rightarrow> MACAddress \<Rightarrow> int \<Rightarrow> simtime \<Rightarrow> mac_op \<Rightarrow> bool" where
  "harmless vid a p until (Learn now q b w) \<longleftrightarrow> (w, b) \<noteq> (vid, a) \<and> now \<le> until"
| "harmless vid a p until (Lookup now b w) \<longleftrightarrow> now \<le> until"
| "harmless vid a p until (Flush q) \<longleftrightarrow> q \<noteq> p"
| "harmless vid a p until (CopyPort x y) \<longleftrightarrow> x \<noteq> p"
| "harmless vid a p until (AgeVlan now w) \<longleftrightarrow> now \<le> until"
| "harmless vid a p until (AgeAll now) \<longleftrightarrow> now \<le> until"
| "harmless vid a p until (AgeIfNeeded now) \<longleftrightarrow> now \<le> until"
| "harmless vid a p until Clear \<longleftrightarrow> False"
| "harmless vid a p until (SetAging t) \<longleftrightarrow> False"

definition learned_since :: "uint \<Rightarrow> MACAddress \<Rightarrow> int \<Rightarrow> simtime \<Rightarrow> simtime \<Rightarrow> simtime \<Rightarrow> mac_spec \<Rightarrow> bool" where
  "learned_since vid a p t aging until s \<longleftrightarrow> sp_aging s = aging \<and>
     (case sp_learned s vid a of
        Some e \<Rightarrow> ae_portno e = p \<and> ae_insertionTime e = t
      | None \<Rightarrow> t + aging \<le> until)"

lemma learned_since_age_all:
  "learned_since vid a p t aging until s \<Longrightarrow> now \<le> until \<Longrightarrow> learned_since vid a p t aging until (sp_age_all now s)"
  by (auto simp: learned_since_def sp_age_all_def entries_where_def is_aged_def split: option.splits)

lemma learned_since_purge [simp]:
  "learned_since vid a p t aging until (s\<lparr>sp_purge := now\<rparr>) = learned_since vid a p t aging until s"
  by (simp add: learned_since_def)

lemma learned_since_age_if_needed:
  "learned_since vid a p t aging until s \<Longrightarrow> now \<le> until \<Longrightarrow>
   learned_since vid a p t aging until (sp_age_if_needed now s)"
  by (simp add: sp_age_if_needed_def learned_since_age_all)

lemma learned_since_other:
  "(w, b) \<noteq> (vid, a) \<Longrightarrow>
   learned_since vid a p t aging until (s\<lparr>sp_learned := set_entry w b e (sp_learned s)\<rparr>) =
     learned_since vid a p t aging until s"
  by (auto simp: learned_since_def set_entry_def)

lemma learned_since_step:
  assumes "learned_since vid a p t aging until s" "harmless vid a p until op"
  shows "learned_since vid a p t aging until (mac_spec_exec op s)"
proof (cases op)
  case (Learn now q b w)
  with assms learned_since_age_if_needed [OF assms(1), of now] show ?thesis
    by (simp add: sp_learn_def Let_def learned_since_other split: option.split)
next
  case (Lookup now b w)
  show ?thesis
  proof (cases "(w, b) = (vid, a)")
    case True
    then show ?thesis using assms Lookup
      by (auto simp: sp_lookup_def learned_since_def set_entry_def is_aged_def split: option.splits)
  next
    case False
    then show ?thesis using assms Lookup by (simp add: sp_lookup_def learned_since_other split: option.split)
  qed
qed (use assms in \<open>auto simp: learned_since_age_all learned_since_age_if_needed,
      auto simp: learned_since_def entries_where_def is_aged_def split: option.splits if_splits\<close>)

text \<open>
  The switch table remembers: an address learned on a port at time \<open>t\<close> is answered with that port
  until the aging time has passed, and with -1 from then on, whatever else is learned, looked up or
  purged in between (the aging time is not changed, the port is not flushed or copied, the table is not
  cleared, and the clock does not run backwards).
\<close>

theorem mac_last_learned:
  assumes "\<not> isBroadcast a"
    and "st = fold mac_exec before mt_new"
    and "st1 = fold mac_exec since (snd (updateTableWithAddress t p a vid st))"
    and "list_all (harmless vid a p now) since"
  shows "fst (getPortForAddress now a vid st1) = (if t + agingTime st \<le> now then -1 else p)"
proof -
  let ?st0 = "snd (updateTableWithAddress t p a vid st)"
  have st: "mt_inv st" using mac_fold_abs [OF mt_inv_new] assms(2) by simp
  have st0: "mt_inv ?st0" "mt_abs ?st0 = sp_learn t p a vid (mt_abs st)"
    using updateTableWithAddress_abs [OF st, of t p a vid]
    by (cases "updateTableWithAddress t p a vid st", simp)+
  have "learned_since vid a p t (agingTime st) now (mt_abs ?st0)"
    using assms(1) by (simp add: st0 sp_learn_def Let_def learned_since_def set_entry_def sp_age_if_needed_def
        sp_age_all_def split: option.split)
  then have "learned_since vid a p t (agingTime st) now (fold mac_spec_exec since (mt_abs ?st0))"
    using assms(4) by (induction since arbitrary: st0 rule: rev_induct) (auto intro: learned_since_step)
  moreover have "mt_inv st1" "mt_abs st1 = fold mac_spec_exec since (mt_abs ?st0)"
    using mac_fold_abs [OF st0(1), of since] assms(3) by simp_all
  ultimately show ?thesis
    using getPortForAddress_abs [of st1 now a vid]
    by (cases "getPortForAddress now a vid st1")
      (auto simp: learned_since_def sp_port_def is_aged_def split: option.splits)
qed

lemma mac_last_learned_witness:
  "fst (getPortForAddress 50 (MACAddress 7) 3
     (fold mac_exec [Learn 20 2 (MACAddress 8) 3, AgeAll 30, Flush 2]
       (snd (updateTableWithAddress 10 1 (MACAddress 7) 3 (fold mac_exec [SetAging 100] mt_new))))) = 1"
  using mac_last_learned [of "MACAddress 7" "fold mac_exec [SetAging 100] mt_new" "[SetAging 100]" _
      "[Learn 20 2 (MACAddress 8) 3, AgeAll 30, Flush 2]" 10 1 3 50, OF _ refl refl]
  by (simp add: isBroadcast_def MAC_ADDRESS_MASK_def setAgingTime_def mt_new_def)

section \<open>The address table file\<close>

definition MAX_LINE :: nat where "MAX_LINE = 100"

definition chop_line :: "string \<Rightarrow> string" where
  "chop_line l = rev (dropWhile (\<lambda>c. c = CHR 0x0A \<or> c = CHR 0x0D) (rev l))"

definition fgetline :: "string \<Rightarrow> (string \<times> string) option" where
  "fgetline fp =
     (if fp = [] then None
      else (let (line, rest) = fgets (MAX_LINE - 1) fp in Some (chop_line line, rest)))"

text \<open>The body of the loop of \<open>readAddressTable\<close> on one line.\<close>

definition store_entry :: "uint \<Rightarrow> MACAddress \<Rightarrow> int \<Rightarrow> MACAddressTable \<Rightarrow> MACAddressTable" where
  "store_entry vid a portno st =
     (let (p, st) = (case getTableForVid vid st of
                       Some p \<Rightarrow> (p, st)
                     | None \<Rightarrow> (let (p, st) = new_AddressTable st
                               in (p, st\<lparr>vlanAddressTable := AList.update vid p (vlanAddressTable st)\<rparr>)))
      in change_table p (AList.update a \<lparr>ae_vid = vid, ae_portno = portno, ae_insertionTime = 0\<rparr>) st)"

definition read_line :: "string \<Rightarrow> MACAddressTable \<Rightarrow> sim_error + MACAddressTable" where
  "read_line line st =
     (if line \<noteq> [] \<and> hd line = CHR ''#'' then Inr st
      else
        (let (vlanID, r) = strtok line;
             (hexaddress, r) = strtok r;
             (portno, r) = strtok r
         in case vlanID of
              None \<Rightarrow> Inr st
            | Some v \<Rightarrow>
                (case (portno, hexaddress) of
                   (Some p, Some h) \<Rightarrow>
                     bind_result (atoi v) (\<lambda>vid. bind_result (atoi p) (\<lambda>pn.
                       bind_result (MACAddress_of_string h) (\<lambda>a. Inr (store_entry (word_of_int vid) a pn st))))
                 | _ \<Rightarrow> Inl (RuntimeError ''line invalid in address table file''))))"

function readAddressTable_lines :: "string \<Rightarrow> MACAddressTable \<Rightarrow> sim_error + MACAddressTable" where
  "readAddressTable_lines fp st =
     (case fgetline fp of
        None \<Rightarrow> Inr st
      | Some (line, rest) \<Rightarrow> bind_result (read_line line st) (\<lambda>st'. readAddressTable_lines rest st'))"
  by pat_completeness auto

termination
  using fgets_shorter [of "MAX_LINE - 1"]
  by (relation "measure (\<lambda>(fp, st). length fp)")
    (auto simp: fgetline_def MAX_LINE_def split: if_splits prod.splits, metis snd_conv)

declare readAddressTable_lines.simps [simp del]

definition readAddressTable :: "(string \<Rightarrow> string option) \<Rightarrow> string \<Rightarrow> MACAddressTable \<Rightarrow> sim_error + MACAddressTable" where
  "readAddressTable fopen fileName st =
     (case fopen fileName of
        None \<Rightarrow> Inl (RuntimeError ''cannot open address table file'')
      | Some fp \<Rightarrow> readAddressTable_lines fp st)"

definition mt_initialize ::
  "(string \<Rightarrow> string option) \<Rightarrow> simtime \<Rightarrow> string \<Rightarrow> MACAddressTable \<Rightarrow> sim_error + MACAddressTable" where
  "mt_initialize fopen par_agingTime addressTableFile st =
     (let st = st\<lparr>agingTime := par_agingTime, lastPurge := 0\<rparr> in
      if addressTableFile \<noteq> [] then readAddressTable fopen addressTableFile st else Inr st)"

text \<open>The text of a file with given entries, and the entries it stands for.\<close>

type_synonym file_entry = "uint \<times> MACAddress \<times> int"

definition entry_line :: "file_entry \<Rightarrow> string" where
  "entry_line e = (case e of (vid, a, portno) \<Rightarrow>
     decimal (sint vid) @ CHR '' '' # mac_str a @ CHR '' '' # decimal portno)"

definition entries_file :: "file_entry list \<Rightarrow> string" where
  "entries_file es = concat (map (\<lambda>e. entry_line e @ [CHR 0x0A]) es)"

definition entry_ok :: "file_entry \<Rightarrow> bool" where
  "entry_ok e = (case e of (vid, a, portno) \<Rightarrow> mac_wf a \<and> - (2 ^ 31) \<le> portno \<and> portno < 2 ^ 31)"

definition with_entry :: "file_entry \<Rightarrow> mac_spec \<Rightarrow> mac_spec" where
  "with_entry e s = (case e of (vid, a, portno) \<Rightarrow>
     s\<lparr>sp_learned := set_entry vid a (Some \<lparr>ae_vid = vid, ae_portno = portno, ae_insertionTime = 0\<rparr>) (sp_learned s)\<rparr>)"

text \<open>With the table of VLAN 0 in place, finding or making a table is the same as in an update.\<close>

definition has_vlan0 :: "MACAddressTable \<Rightarrow> bool" where
  "has_vlan0 st \<longleftrightarrow> addressTable st \<noteq> None"

lemma store_entry_abs:
  assumes "mt_inv st" "has_vlan0 st"
  shows "mt_inv (store_entry vid a portno st) \<and> has_vlan0 (store_entry vid a portno st) \<and>
         mt_abs (store_entry vid a portno st) = with_entry (vid, a, portno) (mt_abs st)"
proof -
  obtain p st1 where tab: "table_for_update vid st = (p, st1)" by (cases "table_for_update vid st")
  then have st1: "mt_inv st1" "map_of (vlanAddressTable st1) vid = Some p" "mt_abs st1 = mt_abs st"
    using table_for_update_abs [OF assms(1)] by simp_all
  have "has_vlan0 st1"
    using tab assms(2) by (auto simp: table_for_update_def has_vlan0_def new_AddressTable_def Let_def
        split: option.splits if_splits)
  moreover have "store_entry vid a portno st =
      change_table p (AList.update a \<lparr>ae_vid = vid, ae_portno = portno, ae_insertionTime = 0\<rparr>) st1"
    using tab assms(2) by (auto simp: store_entry_def table_for_update_def has_vlan0_def getTableForVid_def Let_def
        split: option.splits if_splits)
  ultimately show ?thesis
    using st1 by (simp add: mt_inv_change_table mt_abs_set_entry with_entry_def has_vlan0_def)
qed

lemma is_token_mac_str: "is_token (mac_str a)"
proof -
  have hex: "isxdigit c \<Longrightarrow> \<not> is_delim c \<and> c \<noteq> CHR 0x0A \<and> c \<noteq> CHR 0x0D" for c
    by (auto simp: isxdigit_def isdigit_def is_delim_def)
  have "set (mac_str a) \<subseteq> set (concat (map sprintf_byte (getAddressBytes a)))"
    by (auto simp: mac_str_snoc)
  moreover have "\<forall>c \<in> set (sprintf_byte b). \<not> is_delim c \<and> c \<noteq> CHR 0x0A \<and> c \<noteq> CHR 0x0D" for b
  proof -
    have "unat b < 256" using unsigned_less [of b] by simp
    then have "unat b div 16 < 16" by simp
    then have "isxdigit (hex_char (unat b div 16))" "isxdigit (hex_char (unat b mod 16))"
      by (simp_all add: hex_char_digit)
    then show ?thesis using hex by (simp add: sprintf_byte_def is_delim_def)
  qed
  moreover have "mac_str a \<noteq> []"
    by (simp add: mac_str_def MAC_ADDRESS_SIZE_def sprintf_byte_def upt_rec)
  ultimately show ?thesis by (auto simp: is_token_def)
qed

lemma length_mac_str: "length (mac_str a) = 17"
  by (simp add: mac_str_def MAC_ADDRESS_SIZE_def sprintf_byte_def upt_rec)

lemma read_entry_line:
  assumes "entry_ok (vid, a, portno)"
  shows "read_line (entry_line (vid, a, portno)) st = Inr (store_entry vid a portno st)"
proof -
  have "- (2 ^ 31) \<le> sint vid" "sint vid < 2 ^ 31" using sint_range_size [of vid] by (simp_all add: word_size)
  then have "atoi (decimal (sint vid)) = Inr (sint vid)" by (rule atoi_decimal)
  moreover have "atoi (decimal portno) = Inr portno"
    using assms by (intro atoi_decimal) (simp_all add: entry_ok_def)
  moreover have "MACAddress_of_string (mac_str a) = Inr a"
    using assms by (simp add: MACAddress_of_string_def setAddress_def tryParse_mac_str entry_ok_def)
  moreover have "hd (entry_line (vid, a, portno)) \<noteq> CHR ''#''"
  proof (cases "decimal (sint vid)")
    case (Cons c r)
    then have "c = CHR ''-'' \<or> isdigit c"
      using decimal_nat_digits [of "nat (sint vid)"] by (auto simp: decimal_def split: if_splits)
    then show ?thesis using Cons isdigit_facts [of c] by (auto simp: entry_line_def)
  qed (use is_token_decimal [of "sint vid"] in \<open>simp add: is_token_def\<close>)
  moreover have "is_delim CHR '' ''" by (simp add: is_delim_def)
  ultimately show ?thesis
    by (simp add: read_line_def entry_line_def strtok_token is_token_decimal is_token_mac_str)
qed

lemma fgetline_entry:
  assumes "entry_ok e"
  shows "fgetline (entry_line e @ CHR 0x0A # s) = Some (entry_line e, s)"
proof -
  obtain vid a portno where e: "e = (vid, a, portno)" by (cases e)
  have chars: "\<forall>c \<in> set (entry_line e). c \<noteq> CHR 0x0A \<and> c \<noteq> CHR 0x0D"
    using is_token_decimal [of "sint vid"] is_token_decimal [of portno] is_token_mac_str [of a]
    by (simp add: e entry_line_def is_token_def ball_Un)
  have "- (2 ^ 31) \<le> sint vid" "sint vid < 2 ^ 31" using sint_range_size [of vid] by (simp_all add: word_size)
  then have "length (decimal (sint vid)) \<le> 11" by (rule length_decimal)
  moreover have "length (decimal portno) \<le> 11"
    using assms by (intro length_decimal) (simp_all add: e entry_ok_def)
  ultimately have "length (entry_line e) < 99" by (simp add: e entry_line_def length_mac_str)
  then have "fgets 99 (entry_line e @ CHR 0x0A # s) = (entry_line e @ [CHR 0x0A], s)"
    using chars by (intro fgets_line) simp_all
  moreover have "chop_line (entry_line e @ [CHR 0x0A]) = entry_line e"
  proof -
    have "dropWhile (\<lambda>c. c = CHR 0x0A \<or> c = CHR 0x0D) (rev (entry_line e)) = rev (entry_line e)"
      using chars by (cases "rev (entry_line e)") (auto simp: rev_eq_Cons_iff)
    then show ?thesis by (simp add: chop_line_def)
  qed
  ultimately show ?thesis by (simp add: fgetline_def MAX_LINE_def)
qed

lemma read_entries_file:
  "mt_inv st \<Longrightarrow> has_vlan0 st \<Longrightarrow> list_all entry_ok es \<Longrightarrow>
   returns (\<lambda>st'. mt_inv st' \<and> mt_abs st' = fold with_entry es (mt_abs st)) (readAddressTable_lines (entries_file es) st)"
proof (induction es arbitrary: st)
  case Nil
  then show ?case by (subst readAddressTable_lines.simps) (simp add: entries_file_def fgetline_def)
next
  case (Cons e es)
  obtain vid a portno where e: "e = (vid, a, portno)" by (cases e)
  have "fgetline (entries_file (e # es)) = Some (entry_line e, entries_file es)"
    using Cons.prems fgetline_entry [of e "entries_file es"] by (simp add: entries_file_def)
  moreover have "read_line (entry_line e) st = Inr (store_entry vid a portno st)"
    using Cons.prems read_entry_line by (simp add: e)
  ultimately show ?case
    using Cons.IH [of "store_entry vid a portno st"] store_entry_abs [OF Cons.prems(1,2), of vid a portno] Cons.prems(3)
    by (subst readAddressTable_lines.simps) (simp add: e)
qed

text \<open>
  Initialization reads the address table file back: for a file with one line "VLAN address port" for each
  entry it does not fail, and the table then holds exactly the entries of the file, a later line for the same
  VLAN and address replacing an earlier one, with insertion time 0.
\<close>

theorem mac_table_file:
  "list_all entry_ok es \<Longrightarrow> addressTableFile \<noteq> [] \<Longrightarrow> fopen addressTableFile = Some (entries_file es) \<Longrightarrow>
   returns (\<lambda>st. mt_inv st \<and> mt_abs st = fold with_entry es \<lparr>sp_aging = aging, sp_purge = 0, sp_learned = \<lambda>vid a. None\<rparr>)
     (mt_initialize fopen aging addressTableFile mt_new)"
proof -
  assume prems: "list_all entry_ok es" "addressTableFile \<noteq> []" "fopen addressTableFile = Some (entries_file es)"
  let ?st = "mt_new\<lparr>agingTime := aging, lastPurge := 0\<rparr>"
  have "mt_inv ?st" "has_vlan0 ?st" "mt_abs ?st = \<lparr>sp_aging = aging, sp_purge = 0, sp_learned = \<lambda>vid a. None\<rparr>"
    by (simp_all add: mt_inv_def mt_new_def has_vlan0_def mt_abs_def fun_eq_iff learned_def table_at_def)
  with read_entries_file [of ?st es] prems show ?thesis
    by (simp add: mt_initialize_def readAddressTable_def)
qed

lemma mac_table_file_witness:
  "returns (\<lambda>st. mt_inv st \<and> mt_abs st = fold with_entry [(1, MACAddress 7, 2), (0, MACAddress 9, 3)]
        \<lparr>sp_aging = 120, sp_purge = 0, sp_learned = \<lambda>vid a. None\<rparr>)
     (mt_initialize (\<lambda>name. Some (entries_file [(1, MACAddress 7, 2), (0, MACAddress 9, 3)])) 120 ''t'' mt_new)"
  by (rule mac_table_file) (simp_all add: entry_ok_def mac_wf_def MAC_ADDRESS_MASK_def)

end
