(* ===== verification/MacRelay.thy ===== *)
theory MacRelay
  imports MacTable
begin

text \<open>
  The relay unit of the Ethernet switch, \<^verbatim>\<open>linklayer/ethernet/switch/MACRelayUnit.{h,cc}\<close>, on top of the
  address table: it learns the port of every source address, sends a frame to the port of its
  destination, and floods it when the port is not known.  The properties follow a frame through the two
  modules over a whole run of the switch.
\<close>

section \<open>The unit\<close>

record EtherFrame =
  ef_src :: MACAddress
  ef_dest :: MACAddress
  ef_payload :: "8 word list"

text \<open>A message from a port: a frame, or something that \<^verbatim>\<open>check_and_cast\<close> refuses.\<close>

datatype port_message = Frame EtherFrame | NotAFrame

record relay_unit =
  numPorts :: int
  numProcessedFrames :: int
  numDiscardedFrames :: int
  isOperational :: bool
  macTable :: MACAddressTable

text \<open>The frames that leave, with the index of the \<^verbatim>\<open>ifOut\<close> gate, in the order of sending.\<close>

type_synonym sent_frames = "(int \<times> EtherFrame) list"

datatype node_state = UP | DOWN | GOING_UP | GOING_DOWN

text \<open>Initialization in its two stages: the gate vectors, then the state of the node when it has one.\<close>

definition relay_initialize :: "int \<Rightarrow> int \<Rightarrow> node_state option \<Rightarrow> MACAddressTable \<Rightarrow> sim_error + relay_unit" where
  "relay_initialize ifOut_size ifIn_size nodeStatus table =
     (if ifIn_size \<noteq> ifOut_size then Inl (RuntimeError ''the sizes of the ifIn[] and ifOut[] gate vectors must be the same'')
      else Inr \<lparr>numPorts = ifOut_size, numProcessedFrames = 0, numDiscardedFrames = 0,
                isOperational = (case nodeStatus of None \<Rightarrow> True | Some s \<Rightarrow> s = UP), macTable = table\<rparr>)"

text \<open>\<^verbatim>\<open>send\<close> raises an error when the gate vector has no such index.\<close>

definition send_ifOut :: "EtherFrame \<Rightarrow> int \<Rightarrow> relay_unit \<Rightarrow> sim_error + sent_frames \<times> relay_unit" where
  "send_ifOut frame port r =
     (if 0 \<le> port \<and> port < numPorts r then Inr ([(port, frame)], r)
      else Inl (RuntimeError ''send(): no such gate''))"

definition broadcastFrame :: "EtherFrame \<Rightarrow> int \<Rightarrow> relay_unit \<Rightarrow> sent_frames" where
  "broadcastFrame frame inputport r = map (\<lambda>i. (i, frame)) (filter (\<lambda>i. i \<noteq> inputport) [0..numPorts r - 1])"

definition handleAndDispatchFrame ::
  "simtime \<Rightarrow> int \<Rightarrow> EtherFrame \<Rightarrow> relay_unit \<Rightarrow> sim_error + sent_frames \<times> relay_unit" where
  "handleAndDispatchFrame now inputport frame r =
     (let r = r\<lparr>numProcessedFrames := numProcessedFrames r + 1\<rparr>;
          r = r\<lparr>macTable := snd (updateTableWithAddress now inputport (ef_src frame) 0 (macTable r))\<rparr>
      in if isBroadcast (ef_dest frame) then Inr (broadcastFrame frame inputport r, r)
         else
           (let (outputport, table) = getPortForAddress now (ef_dest frame) 0 (macTable r);
                r = r\<lparr>macTable := table\<rparr>
            in if inputport = outputport then Inr ([], r\<lparr>numDiscardedFrames := numDiscardedFrames r + 1\<rparr>)
               else if outputport \<ge> 0 then send_ifOut frame outputport r
               else Inr (broadcastFrame frame inputport r, r)))"

fun relay_handleMessage ::
  "simtime \<Rightarrow> int \<Rightarrow> port_message \<Rightarrow> relay_unit \<Rightarrow> sim_error + sent_frames \<times> relay_unit" where
  "relay_handleMessage now inputport msg r =
     (if \<not> isOperational r then Inr ([], r)
      else case msg of
             Frame frame \<Rightarrow> handleAndDispatchFrame now inputport frame r
           | NotAFrame \<Rightarrow> Inl (RuntimeError ''check_and_cast''))"

definition relay_start :: "relay_unit \<Rightarrow> relay_unit" where
  "relay_start r = r\<lparr>macTable := clearTable (macTable r), isOperational := True\<rparr>"

definition relay_stop :: "relay_unit \<Rightarrow> relay_unit" where
  "relay_stop r = r\<lparr>macTable := clearTable (macTable r), isOperational := False\<rparr>"

text \<open>
  The stages of the lifecycle operations at which the link layer acts:
  \<^verbatim>\<open>NodeStartOperation::STAGE_LINK_LAYER\<close>, \<^verbatim>\<open>NodeShutdownOperation::STAGE_LINK_LAYER\<close> and
  \<^verbatim>\<open>NodeCrashOperation::STAGE_CRASH\<close> of \<^verbatim>\<open>common/lifecycle/NodeOperations.h\<close>.
\<close>

definition relay_handleOperationStage :: "lifecycle_operation \<Rightarrow> int \<Rightarrow> relay_unit \<Rightarrow> sim_error + relay_unit" where
  "relay_handleOperationStage operation stage r =
     (case operation of
        NodeStart \<Rightarrow> Inr (if stage = 2 then relay_start r else r)
      | NodeShutdown \<Rightarrow> Inr (if stage = 5 then relay_stop r else r)
      | NodeCrash \<Rightarrow> Inr (if stage = 0 then relay_stop r else r)
      | OtherOperation \<Rightarrow> Inl (RuntimeError ''Unsupported operation''))"

section \<open>Frames as operations of the table\<close>

text \<open>Arrival of a frame, and the run of the unit on a sequence of arrivals with everything it sends.\<close>

type_synonym arrival = "simtime \<times> int \<times> EtherFrame"

fun relay_run :: "arrival list \<Rightarrow> relay_unit \<Rightarrow> sim_error + sent_frames list \<times> relay_unit" where
  "relay_run [] r = Inr ([], r)"
| "relay_run ((now, port, frame) # arrivals) r =
     bind_result (relay_handleMessage now port (Frame frame) r) (\<lambda>(sent, r').
       bind_result (relay_run arrivals r') (\<lambda>(sents, r''). Inr (sent # sents, r'')))"

definition frame_ops :: "arrival \<Rightarrow> mac_op list" where
  "frame_ops a = (case a of (now, port, frame) \<Rightarrow>
     Learn now port (ef_src frame) 0 # (if isBroadcast (ef_dest frame) then [] else [Lookup now (ef_dest frame) 0]))"

text \<open>A unit whose table knows ports of the unit only.\<close>

definition ports_ok :: "int \<Rightarrow> mac_spec \<Rightarrow> bool" where
  "ports_ok n s \<longleftrightarrow> (\<forall>a e. sp_learned s 0 a = Some e \<longrightarrow> 0 \<le> ae_portno e \<and> ae_portno e < n)"

definition relay_inv :: "relay_unit \<Rightarrow> bool" where
  "relay_inv r \<longleftrightarrow> isOperational r \<and> mt_inv (macTable r) \<and> ports_ok (numPorts r) (mt_abs (macTable r))"

definition arrival_ok :: "int \<Rightarrow> arrival \<Rightarrow> bool" where
  "arrival_ok n a = (case a of (now, port, frame) \<Rightarrow> 0 \<le> port \<and> port < n)"

text \<open>What the unit sends for a frame, in terms of the entry of its destination.\<close>

definition relay_output :: "int \<Rightarrow> arrival \<Rightarrow> mac_spec \<Rightarrow> sent_frames" where
  "relay_output n a s = (case a of (now, port, frame) \<Rightarrow>
     (let out = (if isBroadcast (ef_dest frame) then -1 else sp_port now (ef_dest frame) 0 (sp_learn now port (ef_src frame) 0 s))
      in if out = port then []
         else if 0 \<le> out then [(out, frame)]
         else map (\<lambda>i. (i, frame)) (filter (\<lambda>i. i \<noteq> port) [0..n - 1])))"

lemma ports_ok_age_if_needed: "ports_ok n s \<Longrightarrow> ports_ok n (sp_age_if_needed now s)"
  by (auto simp: ports_ok_def sp_age_if_needed_def sp_age_all_def entries_where_def split: option.splits if_splits)

lemma ports_ok_learn: "ports_ok n s \<Longrightarrow> 0 \<le> port \<Longrightarrow> port < n \<Longrightarrow> ports_ok n (sp_learn now port a 0 s)"
  using ports_ok_age_if_needed [of n s now]
  by (auto simp: sp_learn_def Let_def ports_ok_def set_entry_def split: option.splits)

lemma ports_ok_lookup: "ports_ok n s \<Longrightarrow> ports_ok n (sp_lookup now a 0 s)"
  by (auto simp: sp_lookup_def ports_ok_def set_entry_def split: option.splits if_splits)

lemma relay_step:
  assumes "relay_inv r" "arrival_ok (numPorts r) (now, port, frame)"
  shows "\<exists>r'. relay_handleMessage now port (Frame frame) r =
      Inr (relay_output (numPorts r) (now, port, frame) (mt_abs (macTable r)), r') \<and>
    relay_inv r' \<and> numPorts r' = numPorts r \<and> numProcessedFrames r' = numProcessedFrames r + 1 \<and>
    macTable r' = fold mac_exec (frame_ops (now, port, frame)) (macTable r)"
proof -
  let ?n = "numPorts r"
  obtain refreshed t1 where u: "updateTableWithAddress now port (ef_src frame) 0 (macTable r) = (refreshed, t1)"
    by (cases "updateTableWithAddress now port (ef_src frame) 0 (macTable r)")
  have t1: "mt_inv t1" "mt_abs t1 = sp_learn now port (ef_src frame) 0 (mt_abs (macTable r))"
    using updateTableWithAddress_abs [OF _ u] assms(1) by (simp_all add: relay_inv_def)
  have p1: "ports_ok ?n (mt_abs t1)"
    using assms by (simp add: t1(2) ports_ok_learn relay_inv_def arrival_ok_def)
  obtain out t2 where g: "getPortForAddress now (ef_dest frame) 0 t1 = (out, t2)"
    by (cases "getPortForAddress now (ef_dest frame) 0 t1")
  have t2: "mt_inv t2" "mt_abs t2 = sp_lookup now (ef_dest frame) 0 (mt_abs t1)"
    "out = sp_port now (ef_dest frame) 0 (mt_abs t1)"
    using getPortForAddress_abs [OF t1(1) g] by simp_all
  have p2: "ports_ok ?n (mt_abs t2)" using p1 by (simp add: t2(2) ports_ok_lookup)
  have out: "0 \<le> out \<Longrightarrow> out < ?n"
    using p1 by (auto simp: t2(3) sp_port_def ports_ok_def split: option.splits if_splits)
  show ?thesis
    using assms u g t1 t2 p1 p2 out
    by (simp add: handleAndDispatchFrame_def relay_output_def Let_def relay_inv_def frame_ops_def send_ifOut_def
        broadcastFrame_def arrival_ok_def)
qed

lemma relay_run_append:
  "relay_run (xs @ ys) r = bind_result (relay_run xs r) (\<lambda>(sents, r').
     bind_result (relay_run ys r') (\<lambda>(sents', r''). Inr (sents @ sents', r'')))"
proof (induction xs arbitrary: r)
  case Nil
  then show ?case by (cases "relay_run ys r") auto
next
  case (Cons x xs)
  obtain now port frame where x: "x = (now, port, frame)" by (cases x)
  show ?case
  proof (cases "relay_handleMessage now port (Frame frame) r")
    case (Inr b)
    then obtain sent r1 where r1: "relay_handleMessage now port (Frame frame) r = Inr (sent, r1)" by (cases b) simp
    show ?thesis
    proof (cases "relay_run xs r1")
      case (Inr c)
      then obtain sents r2 where "relay_run xs r1 = Inr (sents, r2)" by (cases c) simp
      then show ?thesis using Cons.IH [of r1] r1
        by (cases "relay_run ys r2") (auto simp: x)
    qed (use Cons.IH [of r1] r1 in \<open>simp add: x\<close>)
  qed (simp add: x)
qed

lemma relay_run_returns:
  "relay_inv r \<Longrightarrow> list_all (arrival_ok (numPorts r)) arrivals \<Longrightarrow>
   \<exists>sents r'. relay_run arrivals r = Inr (sents, r') \<and> relay_inv r' \<and> numPorts r' = numPorts r \<and>
     length sents = length arrivals \<and> numProcessedFrames r' = numProcessedFrames r + int (length arrivals) \<and>
     macTable r' = fold mac_exec (concat (map frame_ops arrivals)) (macTable r) \<and>
     (\<forall>k < length arrivals. sents ! k = relay_output (numPorts r) (arrivals ! k)
        (mt_abs (fold mac_exec (concat (map frame_ops (take k arrivals))) (macTable r))))"
proof (induction arrivals arbitrary: r)
  case (Cons x arrivals)
  obtain now port frame where x: "x = (now, port, frame)" by (cases x)
  obtain r1 where r1: "relay_handleMessage now port (Frame frame) r =
      Inr (relay_output (numPorts r) x (mt_abs (macTable r)), r1)" "relay_inv r1" "numPorts r1 = numPorts r"
    "numProcessedFrames r1 = numProcessedFrames r + 1" "macTable r1 = fold mac_exec (frame_ops x) (macTable r)"
    using relay_step [OF Cons.prems(1), of now port frame] Cons.prems(2) by (auto simp: x)
  obtain sents r2 where r2: "relay_run arrivals r1 = Inr (sents, r2)" "relay_inv r2" "numPorts r2 = numPorts r"
    "length sents = length arrivals" "numProcessedFrames r2 = numProcessedFrames r1 + int (length arrivals)"
    "macTable r2 = fold mac_exec (concat (map frame_ops arrivals)) (macTable r1)"
    "\<forall>k < length arrivals. sents ! k = relay_output (numPorts r) (arrivals ! k)
        (mt_abs (fold mac_exec (concat (map frame_ops (take k arrivals))) (macTable r1)))"
    using Cons.IH [OF r1(2)] r1(3) Cons.prems(2) by auto
  have "(relay_output (numPorts r) x (mt_abs (macTable r)) # sents) ! k = relay_output (numPorts r) ((x # arrivals) ! k)
        (mt_abs (fold mac_exec (concat (map frame_ops (take k (x # arrivals)))) (macTable r)))"
    if "k < length (x # arrivals)" for k
    using that r2(7) r1(5) by (cases k) simp_all
  then show ?case using r1 r2 by (auto simp: x)
qed simp

section \<open>Properties\<close>

definition relay_fresh :: "int \<Rightarrow> simtime \<Rightarrow> relay_unit" where
  "relay_fresh n aging = \<lparr>numPorts = n, numProcessedFrames = 0, numDiscardedFrames = 0, isOperational = True,
     macTable = setAgingTime aging mt_new\<rparr>"

lemma relay_fresh_inv: "relay_inv (relay_fresh n aging)"
  by (simp add: relay_inv_def relay_fresh_def setAgingTime_abs mt_inv_new ports_ok_def)

lemma relay_output_ports:
  "(i, g) \<in> set (relay_output n (now, port, frame) s) \<Longrightarrow> ports_ok n s \<Longrightarrow> 0 \<le> port \<Longrightarrow> port < n \<Longrightarrow>
     g = frame \<and> i \<noteq> port \<and> 0 \<le> i \<and> i < n"
  using ports_ok_learn [of n s port now "ef_src frame"]
  by (auto simp: relay_output_def Let_def sp_port_def ports_ok_def split: if_splits option.splits)

lemma relay_output_distinct: "distinct (map fst (relay_output n a s))"
  by (auto simp: relay_output_def Let_def comp_def split: prod.split)

text \<open>
  The switch handles any sequence of frames from its ports without an error; for each frame it sends copies
  of that frame only, on ports of the switch, at most one on a port and none on the port the frame came from;
  every frame is counted as processed.
\<close>

theorem relay_never_echoes:
  "list_all (arrival_ok n) arrivals \<Longrightarrow>
   returns (\<lambda>(sents, r). length sents = length arrivals \<and> numProcessedFrames r = int (length arrivals) \<and>
       (\<forall>k < length arrivals. \<forall>now port frame. arrivals ! k = (now, port, frame) \<longrightarrow>
          distinct (map fst (sents ! k)) \<and>
          (\<forall>(i, g) \<in> set (sents ! k). g = frame \<and> i \<noteq> port \<and> 0 \<le> i \<and> i < n)))
     (relay_run arrivals (relay_fresh n aging))"
proof -
  assume ok: "list_all (arrival_ok n) arrivals"
  let ?r = "relay_fresh n aging"
  have n: "numPorts ?r = n" "numProcessedFrames ?r = 0" by (simp_all add: relay_fresh_def)
  obtain sents r where run: "relay_run arrivals ?r = Inr (sents, r)" "length sents = length arrivals"
    "numProcessedFrames r = int (length arrivals)"
    "\<forall>k < length arrivals. sents ! k = relay_output n (arrivals ! k)
        (mt_abs (fold mac_exec (concat (map frame_ops (take k arrivals))) (macTable ?r)))"
    using relay_run_returns [OF relay_fresh_inv, of n aging arrivals] ok by (auto simp: n)
  have ports: "ports_ok n (mt_abs (fold mac_exec (concat (map frame_ops (take k arrivals))) (macTable ?r)))" for k
  proof -
    have "list_all (arrival_ok n) (take k arrivals)" using ok by (auto simp: list_all_iff dest: in_set_takeD)
    then show ?thesis using relay_run_returns [OF relay_fresh_inv, of n aging "take k arrivals"]
      by (auto simp: n relay_inv_def)
  qed
  have "\<forall>(i, g) \<in> set (sents ! k). g = frame \<and> i \<noteq> port \<and> 0 \<le> i \<and> i < n"
    if "k < length arrivals" "arrivals ! k = (now, port, frame)" for k now port frame
  proof -
    have "arrival_ok n (now, port, frame)" using that ok by (metis list_all_length)
    then show ?thesis using run(4) that ports [of k] relay_output_ports [of _ _ n now port frame]
      by (fastforce simp: arrival_ok_def)
  qed
  moreover have "distinct (map fst (sents ! k))" if "k < length arrivals" for k
    using run(4) that relay_output_distinct by simp
  ultimately show ?thesis using run by (auto simp: relay_output_distinct)
qed

lemma relay_never_echoes_witness:
  "returns (\<lambda>(sents, r). length sents = 1 \<and> numProcessedFrames r = 1 \<and> 0 \<notin> fst ` set (sents ! 0))
     (relay_run [(1, 0, \<lparr>ef_src = MACAddress 1, ef_dest = MACAddress 2, ef_payload = []\<rparr>)] (relay_fresh 4 120))"
proof -
  have "list_all (arrival_ok 4) [(1, 0, \<lparr>ef_src = MACAddress 1, ef_dest = MACAddress 2, ef_payload = []\<rparr>)]"
    by (simp add: arrival_ok_def)
  from relay_never_echoes [OF this, of 120] show ?thesis by (rule returns_mono) fastforce
qed

lemma frame_ops_harmless:
  "ef_src frame \<noteq> a \<Longrightarrow> now \<le> until \<Longrightarrow> list_all (harmless 0 a p until) (frame_ops (now, port, frame))"
  by (simp add: frame_ops_def)

lemma learned_since_run:
  "learned_since vid a p t aging until s \<Longrightarrow> list_all (harmless vid a p until) ops \<Longrightarrow>
   learned_since vid a p t aging until (fold mac_spec_exec ops s)"
  by (induction ops arbitrary: s) (auto intro: learned_since_step)

lemma learned_since_learn:
  "\<not> isBroadcast a \<Longrightarrow> learned_since vid a p t (sp_aging s) until (sp_learn t p a vid s)"
  by (simp add: sp_learn_def Let_def learned_since_def set_entry_def sp_age_if_needed_def sp_age_all_def
      split: option.split)

lemma sp_aging_frames: "sp_aging (fold mac_spec_exec (concat (map frame_ops arrivals)) s) = sp_aging s"
proof (induction arrivals arbitrary: s)
  case (Cons x arrivals)
  have "sp_aging (sp_learn now port a vid s) = sp_aging s" "sp_aging (sp_lookup now a vid s) = sp_aging s"
    for now port a vid s
    by (simp_all add: sp_learn_def sp_lookup_def sp_age_if_needed_def sp_age_all_def Let_def split: option.split)
  then have "sp_aging (fold mac_spec_exec (frame_ops x) s) = sp_aging s" by (cases x) (simp add: frame_ops_def)
  with Cons show ?case by simp
qed simp

lemma frame_ops_split:
  "fold mac_spec_exec (frame_ops (t, p, f)) s = fold mac_spec_exec (tl (frame_ops (t, p, f))) (sp_learn t p (ef_src f) 0 s)"
  by (simp add: frame_ops_def)

text \<open>
  C19: learning and forwarding: when the station \<open>a\<close> sent its last frame on port \<open>p\<close> at time \<open>t\<close>, a frame for
  \<open>a\<close> that comes later, on port \<open>q\<close> at time \<open>now\<close>, is sent on port \<open>p\<close> alone, or dropped when \<open>q\<close> is \<open>p\<close>, as long as
  less than the aging time has passed; after that it is sent on every port but \<open>q\<close>.  This holds whatever other
  frames the switch handled before and in between.
\<close>

theorem relay_unicast:
  assumes "list_all (arrival_ok n) (before @ (t, p, f) # between @ [(now, q, g)])"
    and "\<not> isBroadcast (ef_src f)" "ef_dest g = ef_src f" "ef_src g \<noteq> ef_src f"
    and "\<forall>(t', port, h) \<in> set between. ef_src h \<noteq> ef_src f \<and> t' \<le> now"
    and "t \<le> now"
  shows "returns (\<lambda>(sents, r). last sents =
      (if now < t + aging then if q = p then [] else [(p, g)]
       else map (\<lambda>i. (i, g)) (filter (\<lambda>i. i \<noteq> q) [0..n - 1])))
    (relay_run (before @ (t, p, f) # between @ [(now, q, g)]) (relay_fresh n aging))"
proof -
  let ?r = "relay_fresh n aging" and ?run = "before @ (t, p, f) # between" and ?a = "ef_src f"
  let ?ops = "tl (frame_ops (t, p, f)) @ concat (map frame_ops between)"
  have n: "numPorts ?r = n" by (simp add: relay_fresh_def)
  obtain sents r where run: "relay_run (?run @ [(now, q, g)]) ?r = Inr (sents, r)"
    "length sents = Suc (length ?run)"
    "sents ! length ?run = relay_output n (now, q, g) (mt_abs (fold mac_exec (concat (map frame_ops ?run)) (macTable ?r)))"
    using relay_run_returns [OF relay_fresh_inv, of n aging "?run @ [(now, q, g)]"] assms(1)
    by (auto simp: n nth_append simp del: append_assoc)
  define s0 where "s0 = fold mac_spec_exec (concat (map frame_ops before)) (mt_abs (macTable ?r))"
  define s where "s = fold mac_spec_exec ?ops (sp_learn t p ?a 0 s0)"
  have "mt_inv (macTable ?r)" using relay_fresh_inv [of n aging] by (simp add: relay_inv_def)
  then have s: "mt_abs (fold mac_exec (concat (map frame_ops ?run)) (macTable ?r)) = s"
    using mac_fold_abs [of "macTable ?r" "concat (map frame_ops ?run)"]
    by (simp add: s_def s0_def frame_ops_split)
  have aging: "sp_aging s0 = aging" by (simp add: s0_def sp_aging_frames) (simp add: relay_fresh_def setAgingTime_def)
  have "list_all (harmless 0 ?a p now) ?ops"
    using assms(5,6) by (auto simp: list_all_iff frame_ops_def)
  then have "learned_since 0 ?a p t aging now s"
    unfolding s_def using learned_since_learn [OF assms(2), of 0 p t s0] by (intro learned_since_run) (simp_all add: aging)
  then have "learned_since 0 ?a p t aging now (sp_learn now q (ef_src g) 0 s)"
    using learned_since_step [of 0 ?a p t aging now s "Learn now q (ef_src g) 0"] assms(4) by simp
  moreover have "0 \<le> p" "0 \<le> q" using assms(1) by (simp_all add: arrival_ok_def)
  ultimately have "relay_output n (now, q, g) s =
      (if now < t + aging then if q = p then [] else [(p, g)] else map (\<lambda>i. (i, g)) (filter (\<lambda>i. i \<noteq> q) [0..n - 1]))"
    using assms(2,3) by (auto simp: relay_output_def Let_def sp_port_def learned_since_def is_aged_def split: option.splits)
  moreover have "last sents = relay_output n (now, q, g) s"
  proof -
    have "sents \<noteq> []" using run(2) by auto
    from last_conv_nth [OF this] show ?thesis by (simp only: run(2,3) diff_Suc_1 s)
  qed
  ultimately show ?thesis using run(1) by simp
qed

lemma relay_unicast_witness:
  "returns (\<lambda>(sents, r). last sents = [(2, \<lparr>ef_src = MACAddress 9, ef_dest = MACAddress 7, ef_payload = []\<rparr>)])
    (relay_run [(10, 2, \<lparr>ef_src = MACAddress 7, ef_dest = MACAddress 5, ef_payload = []\<rparr>),
                (11, 1, \<lparr>ef_src = MACAddress 5, ef_dest = MACAddress 7, ef_payload = []\<rparr>),
                (20, 3, \<lparr>ef_src = MACAddress 9, ef_dest = MACAddress 7, ef_payload = []\<rparr>)] (relay_fresh 4 100))"
  using relay_unicast [of 4 "[]" 10 2 "\<lparr>ef_src = MACAddress 7, ef_dest = MACAddress 5, ef_payload = []\<rparr>"
      "[(11, 1, \<lparr>ef_src = MACAddress 5, ef_dest = MACAddress 7, ef_payload = []\<rparr>)]" 20 3
      "\<lparr>ef_src = MACAddress 9, ef_dest = MACAddress 7, ef_payload = []\<rparr>" 100]
  by (simp add: arrival_ok_def isBroadcast_def MAC_ADDRESS_MASK_def)

end
