(* ===== verification/Ipv4Fragments.thy ===== *)
theory Ipv4Fragments
  imports Reassembly ByteArrays "HOL-Library.AList" "HOL-Library.Signed_Division"
begin

text \<open>
  Fragmentation and reassembly of IPv4 datagrams: the function \<^verbatim>\<open>fragmentAndSend\<close> and the reassembly
  part of \<^verbatim>\<open>reassembleAndDeliver\<close> of \<^verbatim>\<open>networklayer/ipv4/IPv4.cc\<close>, and the fragment buffers of
  \<^verbatim>\<open>networklayer/ipv4/IPv4FragBuf.{h,cc}\<close>, one reassembly buffer of \<^verbatim>\<open>Reassembly\<close> for each datagram.
  The deserializer of raw payloads is an argument.  The main theorem joins the two ends: what one node
  fragments, another one reassembles.
\<close>

section \<open>Datagrams\<close>

type_synonym IPv4Address = "32 word"

text \<open>An encapsulated packet with its length: raw bytes, or a packet object.\<close>

datatype 'p payload =
    RawPacket (raw_bytes: byte_array) (pl_byteLength: int)
  | Packet 'p (pl_byteLength: int)

fun is_raw :: "'p payload option \<Rightarrow> bool" where
  "is_raw (Some (RawPacket ba n)) = True"
| "is_raw _ = False"

record 'p datagram =
  dg_src :: IPv4Address
  dg_dest :: IPv4Address
  dg_identification :: int
  dg_transportProtocol :: int
  dg_timeToLive :: int
  dg_moreFragments :: bool
  dg_dontFragment :: bool
  dg_fragmentOffset :: int
  dg_headerLength :: int
  dg_byteLength :: int
  dg_encapsulated :: "'p payload option"

section \<open>Fragmentation\<close>

text \<open>What leaves the module: a datagram to the output interface, or to ICMP for an error message.\<close>

datatype 'p ip_output =
    SendOutput "'p datagram"
  | IcmpTimeExceeded "'p datagram"
  | IcmpFragmentationNeeded "'p datagram"

text \<open>
  The loop over the fragments.  It is entered with a positive fragment length only; the other case ends
  it at once.  The name of a fragment, that of the datagram with a suffix for the animation, is left out: names of
  datagrams are not modelled and nothing depends on them.
\<close>

definition make_fragment :: "'p datagram \<Rightarrow> int \<Rightarrow> int \<Rightarrow> int \<Rightarrow> 'p datagram" where
  "make_fragment d payloadLength fragmentLength offset =
     (let lastFragment = (offset + fragmentLength \<ge> payloadLength);
          thisFragmentLength = (if lastFragment then payloadLength - offset else fragmentLength);
          fragment = (if \<not> lastFragment then d\<lparr>dg_moreFragments := True\<rparr> else d)
      in fragment\<lparr>dg_byteLength := dg_headerLength d + thisFragmentLength,
                  dg_fragmentOffset := dg_fragmentOffset d + offset\<rparr>)"

function fragment_loop :: "'p datagram \<Rightarrow> int \<Rightarrow> int \<Rightarrow> int \<Rightarrow> 'p datagram list" where
  "fragment_loop d payloadLength fragmentLength offset =
     (if offset < payloadLength \<and> 0 < fragmentLength then
        make_fragment d payloadLength fragmentLength offset
          # fragment_loop d payloadLength fragmentLength (offset + fragmentLength)
      else [])"
  by auto

termination
  by (relation "measure (\<lambda>(d, payloadLength, fragmentLength, offset). nat (payloadLength - offset))") auto

declare fragment_loop.simps [simp del]

text \<open>The address and the MTU are those of the outgoing interface; the result holds the number of datagrams dropped.\<close>

definition fragmentAndSend :: "IPv4Address \<Rightarrow> int \<Rightarrow> 'p datagram \<Rightarrow> int \<Rightarrow> sim_error + 'p ip_output list \<times> int" where
  "fragmentAndSend ifaceAddress mtu d numDropped =
     (let d = (if dg_src d = 0 then d\<lparr>dg_src := ifaceAddress\<rparr> else d) in
      if dg_timeToLive d \<le> 0 then Inr ([IcmpTimeExceeded d], numDropped + 1)
      else if mtu = 0 \<or> dg_byteLength d \<le> mtu then Inr ([SendOutput d], numDropped)
      else if dg_dontFragment d then Inr ([IcmpFragmentationNeeded d], numDropped + 1)
      else
        (let headerLength = dg_headerLength d;
             payloadLength = dg_byteLength d - headerLength;
             fragmentLength = (mtu - headerLength) sdiv 8 * 8
         in if fragmentLength \<le> 0 then Inl (RuntimeError ''Cannot fragment datagram: MTU too small for header size'')
            else Inr (map SendOutput (fragment_loop d payloadLength fragmentLength 0), numDropped)))"

section \<open>Fragment buffers\<close>

text \<open>The key of a buffer, ordered by the operator of the code.\<close>

datatype frag_key = Key (key_id: ushort) (key_src: IPv4Address) (key_dest: IPv4Address)

definition key_before :: "frag_key \<Rightarrow> frag_key \<Rightarrow> bool" where
  "key_before a b \<longleftrightarrow>
     (if key_id a \<noteq> key_id b then key_id a < key_id b
      else if key_src a \<noteq> key_src b then key_src a < key_src b
      else key_dest a < key_dest b)"

instantiation frag_key :: linorder
begin

definition less_frag_key :: "frag_key \<Rightarrow> frag_key \<Rightarrow> bool" where
  "less_frag_key = key_before"

definition less_eq_frag_key :: "frag_key \<Rightarrow> frag_key \<Rightarrow> bool" where
  "less_eq_frag_key a b \<longleftrightarrow> a < b \<or> a = b"

instance
proof
  fix a b c :: frag_key
  show "a < b \<longleftrightarrow> a \<le> b \<and> \<not> b \<le> a"
    by (auto simp: less_eq_frag_key_def less_frag_key_def key_before_def split: if_splits)
  show "a \<le> a" by (simp add: less_eq_frag_key_def)
  show "a \<le> b \<Longrightarrow> b \<le> c \<Longrightarrow> a \<le> c"
    by (auto simp: less_eq_frag_key_def less_frag_key_def key_before_def split: if_splits)
  show "a \<le> b \<Longrightarrow> b \<le> a \<Longrightarrow> a = b"
    by (auto simp: less_eq_frag_key_def less_frag_key_def key_before_def split: if_splits)
  show "a \<le> b \<or> b \<le> a"
    by (cases a; cases b) (auto simp: less_eq_frag_key_def less_frag_key_def key_before_def)
qed

end

record 'p datagram_buffer =
  db_buf :: rbuf
  db_datagram :: "'p datagram option"
  db_lastupdate :: simtime

type_synonym 'p frag_bufs = "(frag_key \<times> 'p datagram_buffer) list"

definition new_buffer :: "'p datagram_buffer" where
  "new_buffer = \<lparr>db_buf = rb_new, db_datagram = None, db_lastupdate = 0\<rparr>"

text \<open>\<^verbatim>\<open>std::map\<close>: the list is sorted by key.\<close>

definition put_buffer :: "frag_key \<Rightarrow> 'p datagram_buffer \<Rightarrow> 'p frag_bufs \<Rightarrow> 'p frag_bufs" where
  "put_buffer k b bufs = (if map_of bufs k = None then insort_key fst (k, b) bufs else AList.update k b bufs)"

definition key_of :: "'p datagram \<Rightarrow> frag_key" where
  "key_of d = Key (of_int (dg_identification d)) (dg_src d) (dg_dest d)"

text \<open>The datagram kept in the buffer: the first one, then the first one with an encapsulated packet; raw bytes are collected.\<close>

definition shift_raw_first :: "'p datagram \<Rightarrow> 'p datagram" where
  "shift_raw_first d =
     (case dg_encapsulated d of
        Some (RawPacket ba n) \<Rightarrow>
          if dg_fragmentOffset d \<noteq> 0
          then d\<lparr>dg_encapsulated := Some (RawPacket (expandData (nat (dg_fragmentOffset d)) 0 ba) (n + dg_fragmentOffset d))\<rparr>
          else d
      | _ \<Rightarrow> d)"

definition shift_raw_later :: "'p datagram \<Rightarrow> 'p datagram" where
  "shift_raw_later d =
     (case dg_encapsulated d of
        Some (RawPacket ba n) \<Rightarrow>
          if dg_fragmentOffset d \<noteq> 0
          then (let ba' = expandData (nat (dg_fragmentOffset d)) 0 ba
                in d\<lparr>dg_encapsulated := Some (RawPacket ba' (int (ba_size ba')))\<rparr>)
          else d
      | _ \<Rightarrow> d)"

definition merge_raw :: "'p datagram \<Rightarrow> 'p datagram \<Rightarrow> sim_error + 'p datagram" where
  "merge_raw stored d =
     (case (dg_encapsulated stored, dg_encapsulated d) of
        (Some (RawPacket brp bn), Some (RawPacket rp n)) \<Rightarrow>
          bind_result (copyDataFromBuffer (nat (dg_fragmentOffset d)) (contents rp) brp)
            (\<lambda>brp'. Inr (stored\<lparr>dg_encapsulated := Some (RawPacket brp' (int (ba_size rp)))\<rparr>))
      | _ \<Rightarrow> Inr stored)"

definition store_datagram :: "'p datagram \<Rightarrow> 'p datagram option \<Rightarrow> sim_error + 'p datagram" where
  "store_datagram d stored =
     (case stored of
        None \<Rightarrow> Inr (shift_raw_first d)
      | Some s \<Rightarrow>
          if dg_encapsulated s = None \<and> dg_encapsulated d \<noteq> None then Inr (shift_raw_later d)
          else merge_raw s d)"

text \<open>
  The end of a complete datagram.  Raw bytes are handed to the deserializer (an argument, with the
  addresses and the protocol); the packet it gives, with its length, replaces them: \<^verbatim>\<open>decapsulate\<close> takes the
  length of the raw packet off and fails when that makes the length negative, \<^verbatim>\<open>encapsulate\<close> adds the
  new one.
\<close>

definition finish_datagram ::
  "(cell list \<Rightarrow> IPv4Address \<Rightarrow> IPv4Address \<Rightarrow> int \<Rightarrow> ('p \<times> int) option) \<Rightarrow> ushort \<Rightarrow> 'p datagram \<Rightarrow> sim_error + 'p datagram" where
  "finish_datagram deserialize totalLength d =
     (let ret = d\<lparr>dg_byteLength := dg_headerLength d + uint totalLength, dg_fragmentOffset := 0, dg_moreFragments := False\<rparr> in
      case dg_encapsulated ret of
        Some (RawPacket ba n) \<Rightarrow>
          (case deserialize (contents ba) (dg_src ret) (dg_dest ret) (dg_transportProtocol ret) of
             None \<Rightarrow> Inr ret
           | Some (enc, len) \<Rightarrow>
               if dg_byteLength ret - n < 0 then Inl (RuntimeError ''decapsulate(): packet length became negative'')
               else Inr (ret\<lparr>dg_byteLength := dg_byteLength ret - n + len, dg_encapsulated := Some (Packet enc len)\<rparr>))
      | _ \<Rightarrow> Inr ret)"

text \<open>
  The iterator \<open>i\<close> keeps the result of \<^verbatim>\<open>find\<close>: when the buffer is new, it is still \<^verbatim>\<open>end()\<close>, and erasing it
  would be undefined.
\<close>

definition fb_addFragment ::
  "(cell list \<Rightarrow> IPv4Address \<Rightarrow> IPv4Address \<Rightarrow> int \<Rightarrow> ('p \<times> int) option) \<Rightarrow> 'p datagram \<Rightarrow> simtime \<Rightarrow> 'p frag_bufs
     \<Rightarrow> sim_error + 'p datagram option \<times> 'p frag_bufs" where
  "fb_addFragment deserialize d now bufs =
     (let key = key_of d;
          i = map_of bufs key;
          buf = (case i of None \<Rightarrow> new_buffer | Some b \<Rightarrow> b);
          bytes = dg_byteLength d - dg_headerLength d;
          (isComplete, rb) = addFragment (of_int (dg_fragmentOffset d)) (of_int (dg_fragmentOffset d + bytes))
                               (\<not> dg_moreFragments d) (db_buf buf)
      in bind_result (store_datagram d (db_datagram buf)) (\<lambda>stored.
           let buf = buf\<lparr>db_buf := rb, db_datagram := Some stored\<rparr> in
           if isComplete then
             (if i = None then Inl (UndefinedBehaviour ''erase(end())'')
              else bind_result (finish_datagram deserialize (getTotalLength rb) stored)
                     (\<lambda>ret. Inr (Some ret, AList.delete key bufs)))
           else Inr (None, put_buffer key (buf\<lparr>db_lastupdate := now\<rparr>) bufs)))"

text \<open>The stale buffers go, each with an ICMP message for its datagram, in the order of the keys.\<close>

definition purgeStaleFragments :: "simtime \<Rightarrow> 'p frag_bufs \<Rightarrow> 'p datagram option list \<times> 'p frag_bufs" where
  "purgeStaleFragments lastupdate bufs =
     (map (db_datagram \<circ> snd) (filter (\<lambda>(k, b). db_lastupdate b < lastupdate) bufs),
      filter (\<lambda>(k, b). \<not> db_lastupdate b < lastupdate) bufs)"

section \<open>Delivery\<close>

record 'p ip_reassembly =
  ip_fragbuf :: "'p frag_bufs"
  ip_lastCheckTime :: simtime
  ip_fragmentTimeout :: simtime

text \<open>
  \<^verbatim>\<open>reassembleAndDeliver\<close> up to the local-in hooks: the datagrams given to ICMP, and the datagram that goes
  on, if any.
\<close>

definition reassemble_local ::
  "(cell list \<Rightarrow> IPv4Address \<Rightarrow> IPv4Address \<Rightarrow> int \<Rightarrow> ('p \<times> int) option) \<Rightarrow> simtime \<Rightarrow> 'p datagram \<Rightarrow> 'p ip_reassembly
     \<Rightarrow> sim_error + 'p datagram option list \<times> 'p datagram option \<times> 'p ip_reassembly" where
  "reassemble_local deserialize now d ip =
     (if dg_fragmentOffset d \<noteq> 0 \<or> dg_moreFragments d then
        (let (icmp, ip) =
           (if now \<ge> ip_lastCheckTime ip + SimTime_s 10 then
              (let (icmp, bufs) = purgeStaleFragments (now - ip_fragmentTimeout ip) (ip_fragbuf ip)
               in (icmp, ip\<lparr>ip_lastCheckTime := now, ip_fragbuf := bufs\<rparr>))
            else ([], ip))
         in bind_result (fb_addFragment deserialize d now (ip_fragbuf ip))
              (\<lambda>(r, bufs). Inr (icmp, r, ip\<lparr>ip_fragbuf := bufs\<rparr>)))
      else Inr ([], Some d, ip))"

section \<open>The fragments of a datagram\<close>

text \<open>The payload length and the fragment length as natural numbers, the number of fragments and the cuts.\<close>

definition frag_count :: "nat \<Rightarrow> nat \<Rightarrow> nat" where
  "frag_count L fl = (L + fl - 1) div fl"

definition frag_cuts :: "nat \<Rightarrow> nat \<Rightarrow> nat list" where
  "frag_cuts L fl = map (\<lambda>i. min (i * fl) L) [0..<Suc (frag_count L fl)]"

lemma less_frag_count: "0 < fl \<Longrightarrow> i < frag_count L fl \<longleftrightarrow> i * fl < L"
proof -
  assume fl: "0 < fl"
  have "i < frag_count L fl \<longleftrightarrow> Suc i * fl \<le> L + fl - 1"
    unfolding frag_count_def Suc_le_eq [symmetric] using fl by (rule less_eq_div_iff_mult_less_eq)
  also have "\<dots> \<longleftrightarrow> i * fl < L" using fl by auto
  finally show ?thesis .
qed

lemma fragment_loop_eq:
  "0 < fl \<Longrightarrow> k \<le> frag_count L fl \<Longrightarrow> off = int (k * fl) \<Longrightarrow>
   fragment_loop d (int L) (int fl) off = map (\<lambda>i. make_fragment d (int L) (int fl) (int (i * fl))) [k..<frag_count L fl]"
proof (induction "frag_count L fl - k" arbitrary: k off)
  case 0
  then have "\<not> k * fl < L" using less_frag_count [of fl k L] by simp
  then have "\<not> off < int L" using 0 by (simp only: of_nat_less_iff not_False_eq_True)
  then show ?case using 0 by (subst fragment_loop.simps) simp
next
  case (Suc m)
  then have k: "k < frag_count L fl" by simp
  then have "k * fl < L" using less_frag_count [of fl k L] Suc.prems by simp
  then have "off < int L" using Suc.prems(3) by (simp only: of_nat_less_iff)
  moreover have "off + int fl = int (Suc k * fl)" using Suc.prems(3) by simp
  then have "fragment_loop d (int L) (int fl) (off + int fl) =
      map (\<lambda>i. make_fragment d (int L) (int fl) (int (i * fl))) [Suc k..<frag_count L fl]"
  proof (intro Suc.hyps(1))
    show "m = frag_count L fl - Suc k" "Suc k \<le> frag_count L fl" using Suc.hyps(2) k by simp_all
  qed (use Suc.prems(1) in simp_all)
  ultimately show ?case using Suc.prems(1,3) k
    by (subst fragment_loop.simps) (simp add: upt_conv_Cons)
qed

lemma frag_cuts_nth: "i \<le> frag_count L fl \<Longrightarrow> frag_cuts L fl ! i = min (i * fl) L"
  unfolding frag_cuts_def by (subst nth_map) (auto simp del: upt_Suc)

lemma frag_cuts_fragmentation:
  assumes "0 < fl" "0 < L" "L < 65536"
  shows "fragmentation (frag_cuts L fl)" "last (frag_cuts L fl) = L" "length (frag_cuts L fl) = Suc (frag_count L fl)"
proof -
  let ?n = "frag_count L fl"
  show len: "length (frag_cuts L fl) = Suc ?n" by (simp add: frag_cuts_def)
  have n: "0 < ?n" using less_frag_count [of fl 0 L] assms by simp
  have "\<not> ?n * fl < L" using less_frag_count [of fl ?n L] assms by simp
  then have at_n: "min (?n * fl) L = L" by simp
  then show last: "last (frag_cuts L fl) = L" by (simp add: frag_cuts_def)
  have "frag_cuts L fl ! i < frag_cuts L fl ! j" if "i < j" "j < Suc ?n" for i j
  proof -
    have "i < ?n" "i * fl < j * fl" using that assms by simp_all
    then have "i * fl < L" using less_frag_count [of fl i L] assms by simp
    with \<open>i * fl < j * fl\<close> that show ?thesis by (simp add: frag_cuts_nth)
  qed
  then have "sorted_wrt (<) (frag_cuts L fl)" by (simp add: sorted_wrt_iff_nth_less len)
  moreover have "hd (frag_cuts L fl) = 0" by (simp add: frag_cuts_def upt_conv_Cons del: upt_Suc)
  ultimately show "fragmentation (frag_cuts L fl)" using n len last assms(3) by (simp add: fragmentation_def)
qed

text \<open>Fragment \<open>i\<close> of a whole datagram is the fragment between cut \<open>i\<close> and cut \<open>i + 1\<close>.\<close>

lemma make_fragment_region:
  assumes "0 < fl" "0 < L" "L < 65536" "i < frag_count L fl" "dg_fragmentOffset d = 0" "\<not> dg_moreFragments d"
    "f = make_fragment d (int L) (int fl) (int (i * fl))"
  shows "of_int (dg_fragmentOffset f) = rb_beg (fragment (frag_cuts L fl) i)"
    "of_int (dg_fragmentOffset f + (dg_byteLength f - dg_headerLength f)) = rb_end (fragment (frag_cuts L fl) i)"
    "(\<not> dg_moreFragments f) = rb_islast (fragment (frag_cuts L fl) i)"
proof -
  let ?n = "frag_count L fl"
  have beg: "i * fl < L" using less_frag_count [of fl i L] assms by simp
  have last: "Suc i * fl \<ge> L \<longleftrightarrow> Suc i = ?n"
    using less_frag_count [of fl "Suc i" L] assms(1,4) by auto
  have offset: "dg_fragmentOffset f = int (i * fl)" "dg_headerLength f = dg_headerLength d"
    "dg_byteLength f = dg_headerLength d + (if L \<le> Suc i * fl then int L - int (i * fl) else int fl)"
    "dg_moreFragments f = (\<not> L \<le> Suc i * fl)"
    using assms(5-7) by (simp_all add: make_fragment_def Let_def) (simp_all add: algebra_simps flip: of_nat_mult of_nat_add)
  have cut: "frag_cuts L fl ! i = i * fl" "frag_cuts L fl ! Suc i = min (Suc i * fl) L"
    using assms(4) beg by (simp_all add: frag_cuts_nth)
  show "of_int (dg_fragmentOffset f) = rb_beg (fragment (frag_cuts L fl) i)"
    by (simp add: offset fragment_sel cut flip: of_nat_mult)
  have "dg_fragmentOffset f + (dg_byteLength f - dg_headerLength f) = int (min (Suc i * fl) L)"
    by (simp add: offset min_def algebra_simps)
  then show "of_int (dg_fragmentOffset f + (dg_byteLength f - dg_headerLength f)) = rb_end (fragment (frag_cuts L fl) i)"
    by (simp only: fragment_sel cut of_int_of_nat_eq)
  show "(\<not> dg_moreFragments f) = rb_islast (fragment (frag_cuts L fl) i)"
    using last frag_cuts_fragmentation(3) [OF assms(1-3)] by (simp add: offset fragment_sel)
qed

section \<open>A receiver of fragments\<close>

lemma map_of_insort_key:
  "k \<notin> fst ` set xs \<Longrightarrow> map_of (insort_key fst (k, b) xs) = (map_of xs)(k \<mapsto> b)"
  by (induction xs) (auto simp: fun_eq_iff)

lemma map_of_put_buffer: "map_of (put_buffer k b bufs) = (map_of bufs)(k \<mapsto> b)"
  by (simp add: put_buffer_def map_of_insort_key map_of_eq_None_iff AList.update_conv')

lemma distinct_put_buffer: "distinct (map fst bufs) \<Longrightarrow> distinct (map fst (put_buffer k b bufs))"
proof -
  have "distinct (map fst (insort_key fst (k, b) bufs))" if "k \<notin> fst ` set bufs" "distinct (map fst bufs)" for bufs
    using that by (induction bufs) (auto simp: set_insort_key)
  then show "distinct (map fst bufs) \<Longrightarrow> distinct (map fst (put_buffer k b bufs))"
    by (simp add: put_buffer_def map_of_eq_None_iff AList.distinct_update)
qed

text \<open>Datagrams without raw payload: the datagram kept is one of those received.\<close>

lemma store_datagram_plain:
  "\<not> is_raw (dg_encapsulated d) \<Longrightarrow> (\<And>s. stored = Some s \<Longrightarrow> \<not> is_raw (dg_encapsulated s)) \<Longrightarrow>
   \<exists>s. store_datagram d stored = Inr s \<and> (s = d \<or> stored = Some s) \<and> (stored \<noteq> None \<longrightarrow>
     (\<exists>s'. stored = Some s' \<and> (dg_encapsulated s' = dg_encapsulated d \<longrightarrow> s = s')))"
proof -
  assume d: "\<not> is_raw (dg_encapsulated d)" and st: "\<And>s. stored = Some s \<Longrightarrow> \<not> is_raw (dg_encapsulated s)"
  have shift: "shift_raw_first d = d" "shift_raw_later d = d"
    using d by (cases "dg_encapsulated d"; cases "the (dg_encapsulated d)";
        simp add: shift_raw_first_def shift_raw_later_def)+
  show ?thesis
  proof (cases stored)
    case None
    then show ?thesis by (simp add: store_datagram_def shift)
  next
    case (Some s)
    then have "merge_raw s d = Inr s"
      using st [OF Some] by (cases "dg_encapsulated s"; cases "the (dg_encapsulated s)") (simp_all add: merge_raw_def)
    then show ?thesis using Some by (auto simp: store_datagram_def shift)
  qed
qed

lemma finish_datagram_plain:
  "\<not> is_raw (dg_encapsulated d) \<Longrightarrow>
   finish_datagram deserialize n d =
     Inr (d\<lparr>dg_byteLength := dg_headerLength d + uint n, dg_fragmentOffset := 0, dg_moreFragments := False\<rparr>)"
  by (cases "dg_encapsulated d"; cases "the (dg_encapsulated d)") (auto simp: finish_datagram_def Let_def)

text \<open>The first fragment of a datagram does not complete it when it is a fragment.\<close>

lemma addFragment_new: "fst (addFragment beg end islast rb_new) \<Longrightarrow> beg = 0 \<and> islast"
  by (auto simp: addFragment_def rb_merge_def rb_new_def mergeFragments_def Let_def split: if_splits)

definition receiver_inv :: "simtime \<Rightarrow> 'p ip_reassembly \<Rightarrow> bool" where
  "receiver_inv T ip \<longleftrightarrow> distinct (map fst (ip_fragbuf ip)) \<and> ip_fragmentTimeout ip = T \<and>
     (\<forall>(k, b) \<in> set (ip_fragbuf ip). \<exists>s. db_datagram b = Some s \<and> \<not> is_raw (dg_encapsulated s))"

lemma receiver_buffer:
  "receiver_inv T ip \<Longrightarrow> map_of (ip_fragbuf ip) k = Some b \<Longrightarrow> \<exists>s. db_datagram b = Some s \<and> \<not> is_raw (dg_encapsulated s)"
  by (auto simp: receiver_inv_def dest!: map_of_SomeD)

lemma receiver_inv_map:
  "receiver_inv T ip \<longleftrightarrow> distinct (map fst (ip_fragbuf ip)) \<and> ip_fragmentTimeout ip = T \<and>
     (\<forall>k b. map_of (ip_fragbuf ip) k = Some b \<longrightarrow> (\<exists>s. db_datagram b = Some s \<and> \<not> is_raw (dg_encapsulated s)))"
  unfolding receiver_inv_def by (auto dest: map_of_SomeD)

text \<open>A step on a fragment, by what happens to the buffers; the purge comes first.\<close>

definition purged :: "simtime \<Rightarrow> 'p ip_reassembly \<Rightarrow> 'p ip_reassembly" where
  "purged now ip =
     (if now \<ge> ip_lastCheckTime ip + SimTime_s 10
      then ip\<lparr>ip_lastCheckTime := now, ip_fragbuf := snd (purgeStaleFragments (now - ip_fragmentTimeout ip) (ip_fragbuf ip))\<rparr>
      else ip)"

lemma reassemble_local_eq:
  "dg_fragmentOffset d \<noteq> 0 \<or> dg_moreFragments d \<Longrightarrow>
   \<exists>icmp. reassemble_local deserialize now d ip =
     bind_result (fb_addFragment deserialize d now (ip_fragbuf (purged now ip)))
       (\<lambda>(r, bufs). Inr (icmp, r, (purged now ip)\<lparr>ip_fragbuf := bufs\<rparr>))"
  by (auto simp: reassemble_local_def purged_def Let_def split: prod.split)

lemma map_of_purged:
  "receiver_inv T ip \<Longrightarrow> map_of (ip_fragbuf (purged now ip)) k =
     (case map_of (ip_fragbuf ip) k of None \<Rightarrow> None
      | Some b \<Rightarrow> if now \<ge> ip_lastCheckTime ip + SimTime_s 10 \<and> db_lastupdate b < now - T then None else Some b)"
  by (auto simp: purged_def purgeStaleFragments_def receiver_inv_def map_of_filter_values split: option.split)

lemma receiver_inv_purged: "receiver_inv T ip \<Longrightarrow> receiver_inv T (purged now ip)"
  using map_of_purged [of T ip now]
  by (auto simp: receiver_inv_map split: option.splits if_splits)
    (auto simp: purged_def purgeStaleFragments_def distinct_map_filter)

text \<open>
  The buffer of one datagram, whose fragments are \<open>fr 0\<close>, \<dots>: \<open>is\<close> are the indices of those received,
  the last at \<open>t0\<close> or later.
\<close>

definition own_buffer :: "frag_key \<Rightarrow> nat list \<Rightarrow> (nat \<Rightarrow> 'p datagram) \<Rightarrow> simtime \<Rightarrow> nat list \<Rightarrow> 'p ip_reassembly \<Rightarrow> bool" where
  "own_buffer key cuts fr t0 is ip \<longleftrightarrow>
     (if is = [] then map_of (ip_fragbuf ip) key = None
      else \<exists>b j. map_of (ip_fragbuf ip) key = Some b \<and> db_buf b = snd (add_all (map (fragment cuts) is) (False, rb_new)) \<and>
        db_datagram b = Some (fr j) \<and> t0 \<le> db_lastupdate b)"

lemma own_buffer_purged:
  assumes "receiver_inv T ip" "own_buffer key cuts fr t0 is ip" "now - T \<le> t0"
  shows "own_buffer key cuts fr t0 is (purged now ip)"
  using assms by (auto simp: own_buffer_def map_of_purged split: if_splits)

text \<open>A datagram of another key does not touch the buffer.\<close>

lemma other_step:
  assumes inv: "receiver_inv T ip" and own: "own_buffer key cuts fr t0 is ip" and now: "now - T \<le> t0"
    and e: "key_of e \<noteq> key" "\<not> is_raw (dg_encapsulated e)" "0 \<le> dg_fragmentOffset e" "dg_fragmentOffset e < 65536"
  shows "returns (\<lambda>(icmp, r, ip'). receiver_inv T ip' \<and> own_buffer key cuts fr t0 is ip')
    (reassemble_local deserialize now e ip)"
proof (cases "dg_fragmentOffset e \<noteq> 0 \<or> dg_moreFragments e")
  case False
  then show ?thesis using inv own by (simp add: reassemble_local_def)
next
  case True
  let ?ip = "purged now ip" and ?k = "key_of e"
  let ?i = "map_of (ip_fragbuf ?ip) ?k"
  let ?buf = "case ?i of None \<Rightarrow> new_buffer | Some b \<Rightarrow> b"
  have p: "receiver_inv T ?ip" "own_buffer key cuts fr t0 is ?ip"
    using receiver_inv_purged [OF inv] own_buffer_purged [OF inv own now] by simp_all
  obtain complete rb where a: "addFragment (of_int (dg_fragmentOffset e))
      (of_int (dg_fragmentOffset e + (dg_byteLength e - dg_headerLength e))) (\<not> dg_moreFragments e) (db_buf ?buf) = (complete, rb)"
    by (cases "addFragment (of_int (dg_fragmentOffset e))
      (of_int (dg_fragmentOffset e + (dg_byteLength e - dg_headerLength e))) (\<not> dg_moreFragments e) (db_buf ?buf)")
  have plain: "\<not> is_raw (dg_encapsulated s)" if "db_datagram ?buf = Some s" for s
    using that receiver_buffer [OF p(1), of ?k] by (cases ?i) (auto simp: new_buffer_def)
  then obtain s where s: "store_datagram e (db_datagram ?buf) = Inr s" "\<not> is_raw (dg_encapsulated s)"
    using store_datagram_plain [OF e(2), of "db_datagram ?buf"] e(2) by blast
  have new: "\<not> complete" if "?i = None"
  proof
    assume complete
    with a that have "fst (addFragment (of_int (dg_fragmentOffset e))
      (of_int (dg_fragmentOffset e + (dg_byteLength e - dg_headerLength e))) (\<not> dg_moreFragments e) rb_new)"
      by (simp add: new_buffer_def)
    then have "(of_int (dg_fragmentOffset e) :: ushort) = 0" "\<not> dg_moreFragments e" using addFragment_new by blast+
    then have "dg_fragmentOffset e mod 65536 = 0" by (simp add: word_of_int_eq_0_iff dvd_eq_mod_eq_0)
    then show False using e(3,4) True \<open>\<not> dg_moreFragments e\<close> by simp
  qed
  obtain icmp where step: "reassemble_local deserialize now e ip =
     bind_result (fb_addFragment deserialize e now (ip_fragbuf ?ip)) (\<lambda>(r, bufs). Inr (icmp, r, ?ip\<lparr>ip_fragbuf := bufs\<rparr>))"
    using reassemble_local_eq [OF True] by blast
  show ?thesis
  proof (cases complete)
    case False
    then show ?thesis using p e(1) a s
      by (simp add: step fb_addFragment_def Let_def)
        (auto simp: receiver_inv_map own_buffer_def map_of_put_buffer distinct_put_buffer)
  next
    case True
    then obtain b where "?i = Some b" using new by (cases ?i) auto
    then show ?thesis using p e(1) a s True
      by (simp add: step fb_addFragment_def Let_def finish_datagram_plain)
        (auto simp: receiver_inv_map own_buffer_def AList.delete_conv' AList.distinct_delete)
  qed
qed

text \<open>A fragment of the datagram itself.\<close>

lemma own_step:
  fixes d :: "'p datagram"
  assumes inv: "receiver_inv T ip" and own: "own_buffer (key_of d) cuts fr t0 is ip" and now: "now - T \<le> t0" "t0 \<le> now"
    and regions: "of_int (dg_fragmentOffset (fr i)) = rb_beg (fragment cuts i)"
      "of_int (dg_fragmentOffset (fr i) + (dg_byteLength (fr i) - dg_headerLength (fr i))) = rb_end (fragment cuts i)"
      "(\<not> dg_moreFragments (fr i)) = rb_islast (fragment cuts i)"
    and is_frag: "dg_fragmentOffset (fr i) \<noteq> 0 \<or> dg_moreFragments (fr i)"
    and same: "\<And>j. dg_encapsulated (fr j) = dg_encapsulated d" "\<And>j. key_of (fr j) = key_of d"
      "\<not> is_raw (dg_encapsulated d)"
    and result: "\<And>j. (fr j)\<lparr>dg_byteLength := dg_headerLength (fr j) + uint (of_nat (last cuts) :: ushort),
        dg_fragmentOffset := 0, dg_moreFragments := False\<rparr> = d"
    and complete: "fst (add_all (map (fragment cuts) (is @ [i])) (False, rb_new)) \<longleftrightarrow> done"
      "done \<Longrightarrow> is \<noteq> []"
      "done \<Longrightarrow> getTotalLength (snd (add_all (map (fragment cuts) (is @ [i])) (False, rb_new))) = of_nat (last cuts)"
  shows "returns (\<lambda>(icmp, r, ip'). r = (if done then Some d else None) \<and>
      (\<not> done \<longrightarrow> receiver_inv T ip' \<and> own_buffer (key_of d) cuts fr t0 (is @ [i]) ip'))
    (reassemble_local deserialize now (fr i) ip)"
proof -
  let ?ip = "purged now ip" and ?key = "key_of d"
  let ?i = "map_of (ip_fragbuf ?ip) ?key" and ?rb = "add_all (map (fragment cuts) (is @ [i])) (False, rb_new)"
  have p: "receiver_inv T ?ip" "own_buffer ?key cuts fr t0 is ?ip"
    using receiver_inv_purged [OF inv] own_buffer_purged [OF inv own now(1)] by simp_all
  define buf where "buf = (case ?i of None \<Rightarrow> new_buffer | Some b \<Rightarrow> b)"
  have buf: "db_buf buf = snd (add_all (map (fragment cuts) is) (False, rb_new))"
    using p(2) by (auto simp: buf_def own_buffer_def new_buffer_def split: if_splits)
  have some: "?i = None \<longleftrightarrow> is = []" using p(2) by (auto simp: own_buffer_def split: if_splits)
  have rb: "addFragment (rb_beg (fragment cuts i)) (rb_end (fragment cuts i)) (rb_islast (fragment cuts i)) (db_buf buf) = ?rb"
    by (simp add: buf add_all_snoc)
  have "\<exists>j. store_datagram (fr i) (db_datagram buf) = Inr (fr j)"
  proof (cases "is = []")
    case True
    then have "db_datagram buf = None" using some by (simp add: buf_def new_buffer_def)
    then show ?thesis using store_datagram_plain [of "fr i" None] same(1,3) by (intro exI [of _ i]) auto
  next
    case False
    then obtain j where "db_datagram buf = Some (fr j)" using p(2) by (auto simp: own_buffer_def buf_def)
    then show ?thesis using store_datagram_plain [of "fr i" "Some (fr j)"] same(1,3) by auto
  qed
  then obtain j where stored: "store_datagram (fr i) (db_datagram buf) = Inr (fr j)" by blast
  have fin: "finish_datagram deserialize (getTotalLength (snd ?rb)) (fr j) = Inr d" if "done"
    using finish_datagram_plain [of "fr j"] same(1,3) result [of j] complete(3) [OF that] by simp
  obtain icmp where step: "reassemble_local deserialize now (fr i) ip =
     bind_result (fb_addFragment deserialize (fr i) now (ip_fragbuf ?ip)) (\<lambda>(r, bufs). Inr (icmp, r, ?ip\<lparr>ip_fragbuf := bufs\<rparr>))"
    using reassemble_local_eq [OF is_frag] by blast
  obtain c rb' where crb: "?rb = (c, rb')" by (cases ?rb)
  have add: "addFragment (of_int (dg_fragmentOffset (fr i))) (of_int (dg_fragmentOffset (fr i) + (dg_byteLength (fr i) - dg_headerLength (fr i))))
      (\<not> dg_moreFragments (fr i)) (db_buf buf) = (c, rb')"
    using rb crb by (simp only: regions)
  have fb: "fb_addFragment deserialize (fr i) now (ip_fragbuf ?ip) =
      (if done then Inr (Some d, AList.delete ?key (ip_fragbuf ?ip))
       else Inr (None, put_buffer ?key (buf\<lparr>db_buf := rb', db_datagram := Some (fr j), db_lastupdate := now\<rparr>) (ip_fragbuf ?ip)))"
    unfolding fb_addFragment_def Let_def same(2) buf_def [symmetric] add
    using some fin stored complete(1,2) crb by simp
  show ?thesis
  proof (cases "done")
    case True
    then show ?thesis by (simp add: step fb)
  next
    case False
    have "receiver_inv T (?ip\<lparr>ip_fragbuf := put_buffer ?key (buf\<lparr>db_buf := rb', db_datagram := Some (fr j), db_lastupdate := now\<rparr>) (ip_fragbuf ?ip)\<rparr>)"
      using p(1) same by (auto simp: receiver_inv_map map_of_put_buffer distinct_put_buffer)
    moreover have "own_buffer ?key cuts fr t0 (is @ [i])
        (?ip\<lparr>ip_fragbuf := put_buffer ?key (buf\<lparr>db_buf := rb', db_datagram := Some (fr j), db_lastupdate := now\<rparr>) (ip_fragbuf ?ip)\<rparr>)"
      using now(2) crb by (auto simp: own_buffer_def map_of_put_buffer)
    ultimately show ?thesis using False by (simp add: step fb)
  qed
qed

section \<open>From one node to another\<close>

text \<open>What \<open>fragmentAndSend\<close> sends when it sends more than one datagram.\<close>

lemma fragmentAndSend_fragments:
  fixes d :: "'p datagram"
  assumes "fragmentAndSend a mtu d n0 = Inr (map SendOutput frags, n)" "2 \<le> length frags" "dg_src d \<noteq> 0"
  obtains fl L where "0 < fl" "0 < L" "dg_byteLength d - dg_headerLength d = int L" "int fl = (mtu - dg_headerLength d) sdiv 8 * 8"
    "frags = map (\<lambda>i. make_fragment d (int L) (int fl) (int (i * fl))) [0..<frag_count L fl]" "n = n0"
    "mtu \<noteq> 0" "\<not> dg_byteLength d \<le> mtu" "\<not> dg_dontFragment d" "0 < dg_timeToLive d"
proof -
  define x where "x = (mtu - dg_headerLength d) sdiv 8 * 8"
  define fl where "fl = nat x"
  define L where "L = nat (dg_byteLength d - dg_headerLength d)"
  note send = assms(1) [unfolded fragmentAndSend_def Let_def if_not_P [OF assms(3)], folded x_def]
  have one: "map SendOutput frags \<noteq> [y]" for y using assms(2) by (cases frags; cases "tl frags") auto
  have guards: "0 < dg_timeToLive d" "\<not> (mtu = 0 \<or> dg_byteLength d \<le> mtu)" "\<not> dg_dontFragment d" "0 < x"
  proof -
    show ttl: "0 < dg_timeToLive d"
    proof (rule ccontr)
      assume "\<not> 0 < dg_timeToLive d"
      then have "map SendOutput frags = [IcmpTimeExceeded d]" using send by simp
      then show False using one by simp
    qed
    show big: "\<not> (mtu = 0 \<or> dg_byteLength d \<le> mtu)"
    proof
      assume "mtu = 0 \<or> dg_byteLength d \<le> mtu"
      then have "map SendOutput frags = [SendOutput d]" using send ttl by simp
      then show False using one by simp
    qed
    show df: "\<not> dg_dontFragment d"
    proof
      assume "dg_dontFragment d"
      then have "map SendOutput frags = [IcmpFragmentationNeeded d]" using send ttl big by simp
      then show False using one by simp
    qed
    show "0 < x" using send ttl big df by (simp split: if_splits)
  qed
  have loop: "n = n0" "frags = fragment_loop d (dg_byteLength d - dg_headerLength d) x 0"
  proof -
    have eq: "map SendOutput (fragment_loop d (dg_byteLength d - dg_headerLength d) x 0) = map SendOutput frags" "n0 = n"
      using send guards by simp_all
    have "inj (SendOutput :: 'p datagram \<Rightarrow> 'p ip_output)" by (simp add: inj_def)
    from iffD1 [OF inj_map_eq_map [OF this] eq(1)] show "frags = fragment_loop d (dg_byteLength d - dg_headerLength d) x 0"
      by (rule sym)
    show "n = n0" using eq(2) by (rule sym)
  qed
  have L: "0 < dg_byteLength d - dg_headerLength d"
    using assms(2) unfolding loop(2) by (subst (asm) fragment_loop.simps) (simp split: if_splits)
  have frags: "frags = map (\<lambda>i. make_fragment d (int L) (int fl) (int (i * fl))) [0..<frag_count L fl]"
    using loop(2) guards(4) L fragment_loop_eq [of fl 0 L 0 d] by (simp add: fl_def L_def)
  have "0 < fl" "0 < L" "int fl = (mtu - dg_headerLength d) sdiv 8 * 8" "dg_byteLength d - dg_headerLength d = int L"
    using L guards(4) by (simp_all add: fl_def L_def x_def)
  then show thesis using frags loop(1) guards by (intro that) auto
qed

text \<open>The arrivals at a node: each is given to \<open>reassemble_local\<close>.\<close>

definition receive ::
  "(cell list \<Rightarrow> IPv4Address \<Rightarrow> IPv4Address \<Rightarrow> int \<Rightarrow> ('p \<times> int) option) \<Rightarrow> simtime \<times> 'p datagram \<Rightarrow> 'p ip_reassembly
     \<Rightarrow> sim_error + 'p ip_reassembly" where
  "receive deserialize a ip = bind_result (reassemble_local deserialize (fst a) (snd a) ip) (\<lambda>(icmp, r, ip'). Inr ip')"

lemma receive_returns:
  "returns (\<lambda>(icmp, r, ip'). P ip') (reassemble_local deserialize t e ip) \<Longrightarrow> returns P (receive deserialize (t, e) ip)"
  unfolding receive_def fst_conv snd_conv by (erule returns_bind) auto

definition ip_start :: "simtime \<Rightarrow> 'p ip_reassembly" where
  "ip_start timeout = \<lparr>ip_fragbuf = [], ip_lastCheckTime = 0, ip_fragmentTimeout = timeout\<rparr>"

text \<open>A datagram of another key: no raw payload, and an offset as the header can hold.\<close>

definition other_datagram :: "frag_key \<Rightarrow> 'p datagram \<Rightarrow> bool" where
  "other_datagram key e \<longleftrightarrow> key_of e \<noteq> key \<and> \<not> is_raw (dg_encapsulated e) \<and> 0 \<le> dg_fragmentOffset e \<and> dg_fragmentOffset e < 65536"

lemma make_fragment_sel:
  "dg_encapsulated (make_fragment d L fl off) = dg_encapsulated d"
  "key_of (make_fragment d L fl off) = key_of d"
  "dg_headerLength (make_fragment d L fl off) = dg_headerLength d"
  "dg_fragmentOffset (make_fragment d L fl off) = dg_fragmentOffset d + off"
  "(make_fragment d L fl off)\<lparr>dg_byteLength := b, dg_fragmentOffset := c, dg_moreFragments := m\<rparr> =
     d\<lparr>dg_byteLength := b, dg_fragmentOffset := c, dg_moreFragments := m\<rparr>"
  by (simp_all add: make_fragment_def key_of_def Let_def)

lemma receive_all:
  fixes d :: "'p datagram"
  assumes cuts: "fragmentation cuts" "length cuts = Suc n" "2 \<le> n"
    and regions: "\<And>i. i < n \<Longrightarrow> of_int (dg_fragmentOffset (fr i)) = rb_beg (fragment cuts i)"
      "\<And>i. i < n \<Longrightarrow> of_int (dg_fragmentOffset (fr i) + (dg_byteLength (fr i) - dg_headerLength (fr i))) = rb_end (fragment cuts i)"
      "\<And>i. i < n \<Longrightarrow> (\<not> dg_moreFragments (fr i)) = rb_islast (fragment cuts i)"
      "\<And>i. i < n \<Longrightarrow> dg_fragmentOffset (fr i) \<noteq> 0 \<or> dg_moreFragments (fr i)"
    and same: "\<And>j. dg_encapsulated (fr j) = dg_encapsulated d" "\<And>j. key_of (fr j) = key_of d"
      "\<not> is_raw (dg_encapsulated d)"
    and result: "\<And>j. (fr j)\<lparr>dg_byteLength := dg_headerLength (fr j) + uint (of_nat (last cuts) :: ushort),
        dg_fragmentOffset := 0, dg_moreFragments := False\<rparr> = d"
    and arrivals: "\<forall>(t, e) \<in> set arrivals. t0 \<le> t \<and> t \<le> t0 + T \<and> (e \<in> fr ` {..<n} \<or> other_datagram (key_of d) e)"
    and some_missing: "\<not> fr ` {..<n} \<subseteq> snd ` set arrivals"
  shows "returns (\<lambda>ip. receiver_inv T ip \<and> (\<exists>is. set is \<subseteq> {..<n} \<and> fr ` set is = fr ` {..<n} \<inter> snd ` set arrivals \<and>
      own_buffer (key_of d) cuts fr t0 is ip))
    (run_result (receive deserialize) arrivals (ip_start T))"
  using arrivals some_missing
proof (induction arrivals rule: rev_induct)
  case Nil
  show ?case by (auto simp: receiver_inv_def ip_start_def own_buffer_def intro!: exI [of _ "[]"])
next
  case (snoc a arrivals)
  obtain t e where a: "a = (t, e)" by (cases a)
  have t: "t - T \<le> t0" "t0 \<le> t" using snoc.prems(1) by (auto simp: a)
  have "\<not> fr ` {..<n} \<subseteq> snd ` set arrivals" using snoc.prems(2) by auto
  then obtain ip "is" where ip: "run_result (receive deserialize) arrivals (ip_start T) = Inr ip" "receiver_inv T ip"
    "set is \<subseteq> {..<n}" "fr ` set is = fr ` {..<n} \<inter> snd ` set arrivals" "own_buffer (key_of d) cuts fr t0 is ip"
    using snoc.IH snoc.prems(1) by (auto simp: returns_def)
  show ?case
  proof (cases "e \<in> fr ` {..<n}")
    case False
    then have e: "other_datagram (key_of d) e" using snoc.prems(1) by (auto simp: a)
    have "returns (\<lambda>(icmp, r, ip'). receiver_inv T ip' \<and> own_buffer (key_of d) cuts fr t0 is ip')
      (reassemble_local deserialize t e ip)"
      using e by (intro other_step [OF ip(2,5) t(1)]) (auto simp: other_datagram_def)
    moreover have "fr ` set is = fr ` {..<n} \<inter> snd ` set (arrivals @ [a])" using ip(4) False by (auto simp: a)
    ultimately show ?thesis using ip(1,3) 
      by (intro returns_run_snoc [OF ip(1)]) (unfold a, rule receive_returns, auto elim!: returns_mono)
  next
    case True
    then obtain i where i: "i < n" "e = fr i" by auto
    have img: "fr ` set (is @ [i]) = fr ` {..<n} \<inter> snd ` set (arrivals @ [a])"
      using ip(4) i by (auto simp: a)
    have "\<not> fr ` {..<n} \<subseteq> fr ` set (is @ [i])" using snoc.prems(2) unfolding img by blast
    then have missing: "\<not> {i. i + 1 < length cuts} \<subseteq> set (is @ [i])" using cuts(2) by (auto simp: subset_iff image_iff)
    have idx: "\<forall>i \<in> set is. i + 1 < length cuts" "i + 1 < length cuts" using ip(3) i(1) cuts(2) by auto
    have "returns (\<lambda>(icmp, r, ip'). r = (if False then Some d else None) \<and>
      (\<not> False \<longrightarrow> receiver_inv T ip' \<and> own_buffer (key_of d) cuts fr t0 (is @ [i]) ip')) (reassemble_local deserialize t (fr i) ip)"
      using add_all_complete(1) [OF cuts(1) idx] missing
      by (intro own_step [OF ip(2,5) t regions [OF i(1)] same result]) simp_all
    then have "returns (\<lambda>(icmp, r, ip'). receiver_inv T ip' \<and> own_buffer (key_of d) cuts fr t0 (is @ [i]) ip')
      (reassemble_local deserialize t e ip)"
      unfolding i(2) by (auto elim!: returns_mono)
    from receive_returns [OF this] have "returns (\<lambda>ip'. receiver_inv T ip' \<and> own_buffer (key_of d) cuts fr t0 (is @ [i]) ip')
      (receive deserialize a ip)" by (simp add: a)
    moreover have "set (is @ [i]) \<subseteq> {..<n}" using ip(3) i(1) by simp
    ultimately show ?thesis using img
      by (intro returns_run_snoc [OF ip(1)]) (erule returns_mono, blast)
  qed
qed

text \<open>The fragments in terms of the fragment length \<open>x\<close>.\<close>

lemma fragment_shape:
  assumes "fragmentAndSend a mtu d n0 = Inr (map SendOutput frags, n)" "2 \<le> length frags" "dg_src d \<noteq> 0"
  obtains x where "0 < x" "x \<le> mtu - dg_headerLength d" "8 dvd x"
    "\<And>i. i < length frags \<Longrightarrow> dg_fragmentOffset (frags ! i) = dg_fragmentOffset d + int i * x"
    "\<And>i. i < length frags \<Longrightarrow> dg_byteLength (frags ! i) =
       dg_headerLength d + (if i + 1 < length frags then x else dg_byteLength d - dg_headerLength d - int i * x)"
    "\<And>i. i < length frags \<Longrightarrow> dg_moreFragments (frags ! i) = (dg_moreFragments d \<or> i + 1 < length frags)"
    "\<And>i. i < length frags \<Longrightarrow> int i * x < dg_byteLength d - dg_headerLength d"
    "dg_byteLength d - dg_headerLength d \<le> int (length frags) * x"
    "\<And>i b c m. i < length frags \<Longrightarrow> dg_headerLength (frags ! i) = dg_headerLength d \<and>
       (frags ! i)\<lparr>dg_byteLength := b, dg_fragmentOffset := c, dg_moreFragments := m\<rparr> =
         d\<lparr>dg_byteLength := b, dg_fragmentOffset := c, dg_moreFragments := m\<rparr>"
proof -
  obtain fl L where fl: "0 < fl" "0 < L" "dg_byteLength d - dg_headerLength d = int L" "int fl = (mtu - dg_headerLength d) sdiv 8 * 8"
    "frags = map (\<lambda>i. make_fragment d (int L) (int fl) (int (i * fl))) [0..<frag_count L fl]"
    using fragmentAndSend_fragments [OF assms] by metis
  have len: "length frags = frag_count L fl" by (simp add: fl(5))
  have "0 \<le> mtu - dg_headerLength d"
  proof (rule ccontr)
    assume neg: "\<not> 0 \<le> mtu - dg_headerLength d"
    then have "(mtu - dg_headerLength d) sdiv 8 = - ((dg_headerLength d - mtu) div 8)"
      by (simp add: signed_divide_int_def sgn_if)
    moreover have "0 \<le> (dg_headerLength d - mtu) div 8" using neg by simp
    ultimately show False using fl(1,4) by linarith
  qed
  then have mtu: "int fl \<le> mtu - dg_headerLength d" "8 dvd int fl"
    unfolding fl(4) by (auto simp: signed_divide_int_def sgn_if split: if_splits)
  have nat: "int i * int fl < int L" "i + 1 < length frags \<longleftrightarrow> int i * int fl + int fl < int L" if "i < length frags" for i
  proof -
    have "i * fl < L" "i + 1 < length frags \<longleftrightarrow> (i + 1) * fl < L"
      using less_frag_count [OF fl(1)] that len by simp_all
    then show "int i * int fl < int L" "i + 1 < length frags \<longleftrightarrow> int i * int fl + int fl < int L"
      by (simp_all add: algebra_simps flip: of_nat_mult of_nat_add)
  qed
  have frag: "frags ! i = make_fragment d (int L) (int fl) (int (i * fl))" if "i < length frags" for i
    using that by (simp add: fl(5))
  have "\<not> length frags * fl < L" using less_frag_count [OF fl(1), of "length frags" L] len by simp
  then have all: "int L \<le> int (length frags) * int fl" by (simp flip: of_nat_mult)
  show thesis
    by (rule that [of "int fl"])
      (use fl(1) mtu all in \<open>simp_all add: frag make_fragment_sel fl(3) nat(1)\<close>,
        use nat(2) in \<open>simp_all add: make_fragment_def Let_def\<close>)
qed

text \<open>
  Fragmentation: when \<^verbatim>\<open>fragmentAndSend\<close> splits a datagram, every fragment fits the MTU, starts at a
  multiple of 8 bytes from the start of the datagram, has its header and all its other fields, and all but
  the last are marked as having more fragments; the payloads follow each other without a gap and add up to
  the payload of the datagram.
\<close>

theorem ipv4_fragments_fit:
  assumes "fragmentAndSend a mtu d n0 = Inr (map SendOutput frags, n)" "2 \<le> length frags" "dg_src d \<noteq> 0"
  shows "\<forall>i < length frags. dg_byteLength (frags ! i) \<le> mtu \<and> dg_headerLength (frags ! i) < dg_byteLength (frags ! i) \<and>
      8 dvd dg_fragmentOffset (frags ! i) - dg_fragmentOffset d \<and>
      dg_moreFragments (frags ! i) = (dg_moreFragments d \<or> i + 1 < length frags) \<and>
      (if i = 0 then dg_fragmentOffset (frags ! i) = dg_fragmentOffset d
       else dg_fragmentOffset (frags ! i) = dg_fragmentOffset (frags ! (i - 1)) + (dg_byteLength (frags ! (i - 1)) - dg_headerLength d)) \<and>
      (i + 1 = length frags \<longrightarrow> dg_fragmentOffset (frags ! i) + (dg_byteLength (frags ! i) - dg_headerLength d) =
         dg_fragmentOffset d + (dg_byteLength d - dg_headerLength d)) \<and>
      (frags ! i)\<lparr>dg_byteLength := b, dg_fragmentOffset := c, dg_moreFragments := m\<rparr> =
        d\<lparr>dg_byteLength := b, dg_fragmentOffset := c, dg_moreFragments := m\<rparr>"
proof -
  obtain x where x: "0 < x" "x \<le> mtu - dg_headerLength d" "8 dvd x"
    "\<And>i. i < length frags \<Longrightarrow> dg_fragmentOffset (frags ! i) = dg_fragmentOffset d + int i * x"
    "\<And>i. i < length frags \<Longrightarrow> dg_byteLength (frags ! i) =
       dg_headerLength d + (if i + 1 < length frags then x else dg_byteLength d - dg_headerLength d - int i * x)"
    "\<And>i. i < length frags \<Longrightarrow> dg_moreFragments (frags ! i) = (dg_moreFragments d \<or> i + 1 < length frags)"
    "\<And>i. i < length frags \<Longrightarrow> int i * x < dg_byteLength d - dg_headerLength d"
    "dg_byteLength d - dg_headerLength d \<le> int (length frags) * x"
    "\<And>i b c m. i < length frags \<Longrightarrow> dg_headerLength (frags ! i) = dg_headerLength d \<and>
       (frags ! i)\<lparr>dg_byteLength := b, dg_fragmentOffset := c, dg_moreFragments := m\<rparr> =
         d\<lparr>dg_byteLength := b, dg_fragmentOffset := c, dg_moreFragments := m\<rparr>"
    using fragment_shape [OF assms] by blast
  have prev: "dg_fragmentOffset (frags ! i) = dg_fragmentOffset (frags ! (i - 1)) + (dg_byteLength (frags ! (i - 1)) - dg_headerLength d)"
    if "i < length frags" "i \<noteq> 0" for i
    using that x(4,5) [of "i - 1"] x(4) [of i] by (simp add: of_nat_diff algebra_simps)
  have last: "dg_byteLength d - int i * x \<le> mtu" if "i < length frags" "\<not> i + 1 < length frags" for i
  proof -
    have "length frags = i + 1" using that by simp
    then show ?thesis using x(2,8) by (simp add: algebra_simps)
  qed
  have first: "dg_fragmentOffset (frags ! 0) = dg_fragmentOffset d"
  proof -
    have "0 < length frags" using assms(2) by linarith
    from x(4) [OF this] show ?thesis by simp
  qed
  show ?thesis
    using x(1-3) prev last first by (intro allI impI conjI) (simp_all add: x(4-7,9))
qed

text \<open>The fragments of a whole datagram, as the fragments between the cuts of its payload.\<close>

lemma whole_datagram_fragments:
  fixes d :: "'p datagram"
  assumes "fragmentAndSend a mtu d n0 = Inr (map SendOutput frags, k)" "2 \<le> length frags" "dg_src d \<noteq> 0"
    and whole: "dg_fragmentOffset d = 0" "\<not> dg_moreFragments d" "dg_byteLength d - dg_headerLength d < 65536"
  obtains fr n cuts where "fragmentation cuts" "length cuts = Suc n" "2 \<le> n" "set frags = fr ` {..<n}" "inj_on fr {..<n}"
    "\<And>i. i < n \<Longrightarrow> of_int (dg_fragmentOffset (fr i)) = rb_beg (fragment cuts i)"
    "\<And>i. i < n \<Longrightarrow> of_int (dg_fragmentOffset (fr i) + (dg_byteLength (fr i) - dg_headerLength (fr i))) = rb_end (fragment cuts i)"
    "\<And>i. i < n \<Longrightarrow> (\<not> dg_moreFragments (fr i)) = rb_islast (fragment cuts i)"
    "\<And>i. i < n \<Longrightarrow> dg_fragmentOffset (fr i) \<noteq> 0 \<or> dg_moreFragments (fr i)"
    "\<And>j. dg_encapsulated (fr j) = dg_encapsulated d" "\<And>j. key_of (fr j) = key_of d"
    "\<And>j. (fr j)\<lparr>dg_byteLength := dg_headerLength (fr j) + uint (of_nat (last cuts) :: ushort),
        dg_fragmentOffset := 0, dg_moreFragments := False\<rparr> = d"
proof -
  obtain fl L where fl: "0 < fl" "0 < L" "dg_byteLength d - dg_headerLength d = int L"
    "frags = map (\<lambda>i. make_fragment d (int L) (int fl) (int (i * fl))) [0..<frag_count L fl]"
    using fragmentAndSend_fragments [OF assms(1-3)] by metis
  let ?n = "frag_count L fl" and ?cuts = "frag_cuts L fl" and ?fr = "\<lambda>i. make_fragment d (int L) (int fl) (int (i * fl))"
  have L: "L < 65536" using whole(3) fl(3) by simp
  have n: "2 \<le> ?n" using assms(2) by (simp add: fl(4))
  note cuts = frag_cuts_fragmentation [OF fl(1,2) L]
  note regions = make_fragment_region [OF fl(1,2) L _ whole(1,2) refl]
  have inj: "inj_on ?fr {..<?n}"
    using fl(1) by (intro inj_onI) (auto dest!: arg_cong [where f = dg_fragmentOffset] simp: make_fragment_sel)
  have is_frag: "dg_fragmentOffset (?fr i) \<noteq> 0 \<or> dg_moreFragments (?fr i)" if "i < ?n" for i
  proof (cases "i = 0")
    case True
    then have "rb_islast (fragment ?cuts i) = False" using n by (simp add: fragment_sel cuts(3))
    then show ?thesis using regions(3) [OF that] by simp
  qed (use fl(1) whole(1) in \<open>simp add: make_fragment_sel\<close>)
  have "uint (of_nat L :: ushort) = int L" using L by (simp add: uint_nat unat_of_nat take_bit_eq_mod)
  then have result: "(?fr j)\<lparr>dg_byteLength := dg_headerLength (?fr j) + uint (of_nat (last ?cuts) :: ushort),
      dg_fragmentOffset := 0, dg_moreFragments := False\<rparr> = d" for j
    using fl(3) whole(1,2) by (simp add: make_fragment_sel cuts(2))
  show thesis
    by (rule that [OF cuts(1,3) n _ inj regions is_frag _ _ result]) (simp_all add: fl(4) atLeast0LessThan make_fragment_sel)
qed

text \<open>One more fragment completes the datagram exactly when all have then arrived.\<close>

lemma complete_iff_all:
  assumes "length cuts = Suc n" "set is \<subseteq> {..<n}" "i < n" "inj_on fr {..<n}" "fr ` set is = fr ` {..<n} \<inter> A"
  shows "{i. i + 1 < length cuts} \<subseteq> set (is @ [i]) \<longleftrightarrow> fr ` {..<n} \<subseteq> insert (fr i) A"
proof
  assume "{i. i + 1 < length cuts} \<subseteq> set (is @ [i])"
  then have "{..<n} \<subseteq> set (is @ [i])" using assms(1) by auto
  then show "fr ` {..<n} \<subseteq> insert (fr i) A" using assms(5) by auto
next
  assume all: "fr ` {..<n} \<subseteq> insert (fr i) A"
  show "{i. i + 1 < length cuts} \<subseteq> set (is @ [i])"
  proof
    fix j assume "j \<in> {i. i + 1 < length cuts}"
    then have j: "j \<in> {..<n}" using assms(1) by simp
    then have "fr j \<in> fr ` set (is @ [i])" using all assms(5) by auto
    then obtain j' where j': "j' \<in> set (is @ [i])" "fr j = fr j'" by blast
    then have "j' \<in> {..<n}" using assms(2,3) by auto
    then show "j \<in> set (is @ [i])" using inj_onD [OF assms(4) j'(2) j] j'(1) by simp
  qed
qed

text \<open>
  C17: what one node fragments, another reassembles.  Let \<open>d\<close> be a whole datagram (its source address set, offset 0,
  no more fragments, payload below 64 KB and not raw bytes) that \<^verbatim>\<open>fragmentAndSend\<close> splits.  Its fragments arrive at
  a node in any order, repeatedly, between any other datagrams with other keys (these without raw bytes and with
  an offset the header can hold), all within the fragment timeout.  As long as one is missing nothing is delivered, and the arrival of the last missing one
  delivers a datagram equal to \<open>d\<close>; no purge in between loses a fragment.
\<close>

theorem ipv4_fragments_reassemble:
  fixes d :: "'p datagram"
  assumes "fragmentAndSend a mtu d n0 = Inr (map SendOutput frags, n)" "2 \<le> length frags" "dg_src d \<noteq> 0"
    and "dg_fragmentOffset d = 0" "\<not> dg_moreFragments d" "\<not> is_raw (dg_encapsulated d)"
    and "dg_byteLength d - dg_headerLength d < 65536"
    and "\<forall>(t, e) \<in> set arrivals. t0 \<le> t \<and> t \<le> t0 + T \<and> (e \<in> set frags \<or> other_datagram (key_of d) e)"
    and "\<not> set frags \<subseteq> snd ` set arrivals" "f \<in> set frags" "t0 \<le> now" "now \<le> t0 + T"
  shows "returns (\<lambda>ip. returns (\<lambda>(icmp, r, ip'). r = (if set frags \<subseteq> insert f (snd ` set arrivals) then Some d else None))
      (reassemble_local deserialize now f ip))
    (run_result (receive deserialize) arrivals (ip_start T))"
proof -
  obtain fr n cuts where fr: "fragmentation cuts" "length cuts = Suc n" "2 \<le> n" "set frags = fr ` {..<n}" "inj_on fr {..<n}"
    "\<And>i. i < n \<Longrightarrow> of_int (dg_fragmentOffset (fr i)) = rb_beg (fragment cuts i)"
    "\<And>i. i < n \<Longrightarrow> of_int (dg_fragmentOffset (fr i) + (dg_byteLength (fr i) - dg_headerLength (fr i))) = rb_end (fragment cuts i)"
    "\<And>i. i < n \<Longrightarrow> (\<not> dg_moreFragments (fr i)) = rb_islast (fragment cuts i)"
    "\<And>i. i < n \<Longrightarrow> dg_fragmentOffset (fr i) \<noteq> 0 \<or> dg_moreFragments (fr i)"
    "\<And>j. dg_encapsulated (fr j) = dg_encapsulated d" "\<And>j. key_of (fr j) = key_of d"
    "\<And>j. (fr j)\<lparr>dg_byteLength := dg_headerLength (fr j) + uint (of_nat (last cuts) :: ushort),
        dg_fragmentOffset := 0, dg_moreFragments := False\<rparr> = d"
    by (rule whole_datagram_fragments [OF assms(1-5,7)]) (rule that)
  have "returns (\<lambda>ip. receiver_inv T ip \<and> (\<exists>is. set is \<subseteq> {..<n} \<and> fr ` set is = fr ` {..<n} \<inter> snd ` set arrivals \<and>
      own_buffer (key_of d) cuts fr t0 is ip)) (run_result (receive deserialize) arrivals (ip_start T))"
    using assms(8,9) unfolding fr(4) by (intro receive_all [OF fr(1-3,6-11) assms(6) fr(12)]) auto
  then show ?thesis
  proof (rule returns_mono, elim conjE exE)
    fix ip "is"
    assume ip: "receiver_inv T ip" "set is \<subseteq> {..<n}" "fr ` set is = fr ` {..<n} \<inter> snd ` set arrivals"
      "own_buffer (key_of d) cuts fr t0 is ip"
    obtain i where i: "i < n" "f = fr i" using assms(10) unfolding fr(4) by auto
    let ?done = "{i. i + 1 < length cuts} \<subseteq> set (is @ [i])"
    have idx: "\<forall>i \<in> set is. i + 1 < length cuts" "i + 1 < length cuts" using ip(2) i(1) fr(2) by auto
    note d = complete_iff_all [OF fr(2) ip(2) i(1) fr(5) ip(3)]
    have "is \<noteq> []" if ?done
    proof
      assume "is = []"
      with that have "{0, 1} \<subseteq> {i}" using fr(2,3) by (auto simp: subset_iff)
      then show False by auto
    qed
    then have "returns (\<lambda>(icmp, r, ip'). r = (if ?done then Some d else None) \<and>
      (\<not> ?done \<longrightarrow> receiver_inv T ip' \<and> own_buffer (key_of d) cuts fr t0 (is @ [i]) ip'))
      (reassemble_local deserialize now (fr i) ip)"
      using add_all_complete [OF fr(1) idx] assms(11,12)
      by (intro own_step [OF ip(1,4) _ _ fr(6-8) [OF i(1)] fr(9) [OF i(1)] fr(10,11) assms(6) fr(12)]) auto
    then show "returns (\<lambda>(icmp, r, ip'). r = (if set frags \<subseteq> insert f (snd ` set arrivals) then Some d else None))
        (reassemble_local deserialize now f ip)"
      unfolding d fr(4) [symmetric] i(2) [symmetric] by (rule returns_mono) (simp add: case_prod_beta)
  qed
qed

section \<open>Witnesses\<close>

definition sample_datagram :: "nat datagram" where
  "sample_datagram = \<lparr>dg_src = 1, dg_dest = 2, dg_identification = 7, dg_transportProtocol = 17, dg_timeToLive = 32,
     dg_moreFragments = False, dg_dontFragment = False, dg_fragmentOffset = 0, dg_headerLength = 20,
     dg_byteLength = 44, dg_encapsulated = Some (Packet 9 24)\<rparr>"

definition sample_fragments :: "nat datagram list" where
  "sample_fragments =
     [sample_datagram\<lparr>dg_moreFragments := True, dg_byteLength := 36\<rparr>,
      sample_datagram\<lparr>dg_byteLength := 28, dg_fragmentOffset := 16\<rparr>]"

lemma sample_fragments: "fragmentAndSend 0 36 sample_datagram 0 = Inr (map SendOutput sample_fragments, 0)"
  by (simp add: fragmentAndSend_def sample_datagram_def sample_fragments_def fragment_loop.simps make_fragment_def)

theorem ipv4_fragments_fit_witness:
  "dg_byteLength (sample_fragments ! 0) \<le> 36 \<and> dg_byteLength (sample_fragments ! 1) \<le> 36"
  using ipv4_fragments_fit [OF sample_fragments, where m = False and b = 0 and c = 0]
  by (simp add: sample_fragments_def sample_datagram_def)

theorem ipv4_fragments_reassemble_witness:
  "returns (\<lambda>ip. returns (\<lambda>(icmp, r, ip'). r = Some sample_datagram)
      (reassemble_local (\<lambda>bytes src dest proto. None) 30 (sample_fragments ! 0) ip))
    (run_result (receive (\<lambda>bytes src dest proto. None))
      [(10, sample_fragments ! 1), (20, sample_datagram\<lparr>dg_identification := 8, dg_moreFragments := True\<rparr>)] (ip_start 60))"
proof -
  let ?arrivals = "[(10, sample_fragments ! 1), (20, sample_datagram\<lparr>dg_identification := 8, dg_moreFragments := True\<rparr>)]"
  have all: "set sample_fragments \<subseteq> insert (sample_fragments ! 0) (snd ` set ?arrivals)"
    by (simp add: sample_fragments_def)
  show ?thesis
    using ipv4_fragments_reassemble [OF sample_fragments, of ?arrivals 10 60 "sample_fragments ! 0" 30
        "\<lambda>bytes src dest proto. None"]
    unfolding if_P [OF all]
    by (simp add: sample_fragments_def sample_datagram_def other_datagram_def key_of_def)
qed

text \<open>
  Raw payloads are not put together: the bytes of a second fragment are written past the end of the stored
  array, which keeps its size, so the datagram is delivered with the bytes of the first fragment only.
\<close>

lemma raw_fragment_lost:
  "ba_wf brp \<Longrightarrow> ba_wf rp \<Longrightarrow> ba_data rp \<noteq> [] \<Longrightarrow> 0 \<le> dg_fragmentOffset d \<Longrightarrow> int (ba_size brp) \<le> dg_fragmentOffset d \<Longrightarrow>
   dg_encapsulated stored = Some (RawPacket brp n) \<Longrightarrow> dg_encapsulated d = Some (RawPacket rp m) \<Longrightarrow>
   returns (\<lambda>s. \<exists>brp' n'. dg_encapsulated s = Some (RawPacket brp' n') \<and> contents brp' = contents brp) (merge_raw stored d)"
proof -
  assume wf: "ba_wf brp" "ba_wf rp" "ba_data rp \<noteq> []" and off: "0 \<le> dg_fragmentOffset d" "int (ba_size brp) \<le> dg_fragmentOffset d"
    and raw: "dg_encapsulated stored = Some (RawPacket brp n)" "dg_encapsulated d = Some (RawPacket rp m)"
  have "ba_size brp \<le> nat (dg_fragmentOffset d)" "contents rp \<noteq> []" using wf off by (simp_all add: contents_wf)
  from returns_D [OF copyDataFromBuffer_loses [OF wf(1) this]] obtain b
    where "copyDataFromBuffer (nat (dg_fragmentOffset d)) (contents rp) brp = Inr b" "contents b = contents brp" by blast
  then show ?thesis by (simp add: merge_raw_def raw)
qed

end
