(* ===== verification/Spec2Isabelle.thy ===== *)
theory Spec2Isabelle
  imports TlvTools MacAddresses ForwardingProperties NdnApplications NdnTyping SackRexmitQueue ReceiveQueue Ipv4RoutingProperties Ipv4OutputRuns Reassembly
    TcpByteLink TcpMessages TcpConnectionRuns QueueServer QueueSchedulers OrdinalFilters MacRelay ByteArrays Ipv4Fragments
begin

text \<open>
  A verification of NDNOMNeT: the Named Data Networking extension of the INET framework for the
  OMNeT++ simulator, and of modules of INET around it.  All paths are below \<^verbatim>\<open>src/inet/src/inet/\<close>.

  The program and how its parts interact.
  A node with the NDN stack has applications (\<^verbatim>\<open>applications/ndnApps\<close>), a forwarder
  (\<^verbatim>\<open>networklayer/ndn/ForwardingBase\<close>) and three tables: the forwarding information base, the pending
  interest table and the content store (\<^verbatim>\<open>FibBase\<close>, \<^verbatim>\<open>PitBase\<close>, \<^verbatim>\<open>CsBase\<close>).  Interests and Data
  arrive at the forwarder from the applications and from the link layer.  It answers an Interest from the
  content store, or enters it in the PIT and sends it to the face with the longest matching prefix of the
  FIB, or floods it after a random delay; Data goes back to the faces recorded in the PIT and into the
  content store.  Tables and applications have timers of their own, and the tables signal removals, which
  the forwarder turns into messages.  Packet sizes come from a TLV encoder (\<^verbatim>\<open>packets/Tools\<close>).

  Theories and the code they model, in the order of import:
  \<^item> \<open>NdnPrelude\<close>: simulation time, errors, gates, C strings, list lemmas, and the locales for runs of
    operations: \<open>component\<close>, \<open>fallible_component\<close>, \<open>safe_component\<close> (invariants), \<open>forward_simulation\<close>
    and \<open>data_refinement\<close> (a component against its specification), \<open>stopping_simulation\<close> (the same for one that
    may stop at points of a known kind).
  \<^item> \<open>MacAddresses\<close>: \<^verbatim>\<open>linklayer/common/MACAddress\<close>.  \<open>CText\<close>: \<^verbatim>\<open>atoi\<close>, \<^verbatim>\<open>strtok\<close>, \<^verbatim>\<open>fgets\<close> and
    decimal numbers of the C library.
  \<^item> \<open>NdnPackets\<close> and \<open>TlvTools\<close>: the packet classes of \<^verbatim>\<open>networklayer/ndn/packets/NdnPackets.msg\<close>, and the
    encoder and the size computation of \<^verbatim>\<open>packets/Tools.{h,cc}\<close>.
  \<^item> \<open>FibTable\<close>, \<open>PitTable\<close>, \<open>ContentStore\<close>: the tables, each with its operations, its timer and its
    signals, the invariant of their runs, and lookups related to longest prefix match, exact match and
    prefix match with freshness.
  \<^item> \<open>NdnForwarding\<close>: \<^verbatim>\<open>ForwardingBase\<close>, the whole packet handler on the three tables with the delayed
    transmission; the random draws are arguments.  \<open>NdnHops\<close>: one hop of a packet through an idle
    forwarder.  \<open>FibPrinting\<close>: which events make the table print itself, over the end of its buffer.
    \<open>ForwardingProperties\<close>: what each kind of packet leads to, on every branch, and safety of
    all reachable states.
  \<^item> \<open>NdnApplications\<close>: \<^verbatim>\<open>ConsumerAppBase\<close> and \<^verbatim>\<open>ProducerAppBase\<close>.
  \<^item> \<open>NdnNetwork\<close>: nodes joined by wires, which stand for the link layer, and a packet followed through them;
    an Interest goes along the FIBs to the producer and the Data back along the PITs to the consumer.
    \<open>NdnTyping\<close>: what the forwarder and the applications send is what the next module accepts, which is what
    the safety of the forwarder assumes.
  \<^item> \<open>TcpSequence\<close>, \<open>SackRexmitQueue\<close>, \<open>ReceiveQueue\<close>: the comparison of 32-bit sequence numbers of
    \<^verbatim>\<open>transportlayer/tcp_common/TCPSegment.h\<close>, the SACK scoreboard \<^verbatim>\<open>transportlayer/tcp/TCPSACKRexmitQueue\<close>
    and the receive queue \<^verbatim>\<open>tcp/queues/TCPVirtualDataRcvQueue\<close>, proved to implement a map from sequence
    numbers to flags, and a set of received sequence numbers.
  \<^item> \<open>TcpSegments\<close>, \<open>TcpSendQueues\<close>, \<open>TcpByteStream\<close>, \<open>TcpMessages\<close>: \<^verbatim>\<open>tcp_common/TCPSegment\<close>, the
    three send queues of \<^verbatim>\<open>tcp/queues\<close> (interpretations of the locale \<open>send_queue\<close>), and the receive queues
    of bytes and of messages.  \<open>TcpByteLink\<close>: the acceptance tests of a segment, and a sender and a receiver
    joined by a network that loses, repeats and reorders segments; what is read is what was written.
  \<^item> \<open>TcpConnection\<close>, \<open>TcpConnectionRuns\<close>: the state machine of \<^verbatim>\<open>tcp/TCPConnection*.cc\<close>, with its
    commands, timers and the control part of segment processing, as a step relation; its invariants, the
    safety of all its handlers, and how it ends.
  \<^item> \<open>Reassembly\<close>: \<^verbatim>\<open>common/ReassemblyBuffer\<close>.  \<open>ByteArrays\<close>: \<^verbatim>\<open>common/ByteArray\<close> and
    \<^verbatim>\<open>common/ByteArrayBuffer\<close>.  \<open>Ipv4Fragments\<close>: \<^verbatim>\<open>networklayer/ipv4/IPv4FragBuf\<close> and the functions
    \<^verbatim>\<open>fragmentAndSend\<close> and \<^verbatim>\<open>reassembleAndDeliver\<close> of \<^verbatim>\<open>IPv4.cc\<close>; the last theorem joins the sender
    and the receiver.
  \<^item> \<open>Ipv4Address\<close>: \<^verbatim>\<open>networklayer/contract/ipv4/IPv4Address\<close>, text, netmasks and prefixes.
    \<open>SortedTables\<close>: \<^verbatim>\<open>std::upper_bound\<close> and the contract of a comparison (locale \<open>table_order\<close>).
    \<open>Ipv4RoutingTable\<close> and \<open>Ipv4RoutingProperties\<close>: \<^verbatim>\<open>networklayer/ipv4/IPv4RoutingTable\<close> with the routes
    of \<^verbatim>\<open>IPv4Route\<close>: sorted unicast and multicast routes, the routes of the interfaces, the caches and the
    signals; the order and the coherence of the cache in all reachable states, and the best match.
  \<^item> \<open>ArpCache\<close>: the ARP module \<^verbatim>\<open>networklayer/arp/ipv4/ARP\<close>.  \<open>ArpRuns\<close>: its invariant and what it gives
    against the history of what it heard; \<open>ArpExchange\<close>: request and reply between two modules.
    \<open>Ipv4Output\<close> and \<open>Ipv4OutputRuns\<close>: the output side of \<^verbatim>\<open>networklayer/ipv4/IPv4\<close>, with the queues of
    datagrams that wait for ARP, composed with the ARP module; no datagram is lost.
  \<^item> \<open>PassiveQueues\<close>, \<open>QueueServer\<close>, \<open>QueueSchedulers\<close>, \<open>OrdinalFilters\<close>: the queues of
    \<^verbatim>\<open>common/queue\<close>: \<^verbatim>\<open>PassiveQueueBase\<close> with \<^verbatim>\<open>DropTailQueue\<close> and \<^verbatim>\<open>FIFOQueue\<close> (locale
    \<open>packet_queue\<close>), \<^verbatim>\<open>AbstractQueue\<close> with \<^verbatim>\<open>QueueBase\<close>, \<^verbatim>\<open>SchedulerBase\<close> with \<^verbatim>\<open>PriorityScheduler\<close> and
    \<^verbatim>\<open>WRRScheduler\<close> (locales \<open>work_conserving\<close> and \<open>scheduled_queues\<close>), \<^verbatim>\<open>ThresholdDropper\<close>,
    \<^verbatim>\<open>OrdinalBasedDropper\<close> and \<^verbatim>\<open>OrdinalBasedDuplicator\<close>.
  \<^item> \<open>MacTable\<close> and \<open>MacRelay\<close>: the Ethernet switch, \<^verbatim>\<open>linklayer/ethernet/switch/MACAddressTable\<close> and
    \<^verbatim>\<open>MACRelayUnit\<close>; frames are followed through both.
\<close>

text \<open>
  How the code is modelled.
  A class is a record of its fields, a handler a function from the time, the message and the state to the
  new state with what it sends, in order; every raised error, failed assertion and undefined access is a
  value of \<open>sim_error\<close>, with which a run ends.  One undefined access does not end a run: \<^verbatim>\<open>FibBase::print\<close>,
  called by \<^verbatim>\<open>create\<close> after every insertion, writes some bytes past the end of a buffer on the stack; the model
  goes on as if they hit nothing that is used, records the access in the field \<open>fib_faults\<close>, and all
  statements about runs that learn a prefix from Data hold in this sense.  Simulation time is an integer number of picoseconds.  Machine integers whose
  wrap-around matters are words: TCP sequence numbers, offsets of the reassembly buffer, VLAN and address
  bits, TLV bytes, nonces, the automatic address counter; statistics counters are unbounded.  Lists model
  the vectors, and the ordered and keyed containers of the standard library with the order the code
  relies on.  The tables of the switch live in a store, since two pointers share the table of VLAN 0.
  Random draws, parameter values, the tokenizer of the standard library, files and the deserializer of raw
  packets are arguments.  Other statements that print, and signals nobody in the model listens to, are left out.

  In the TCP connection the outcome of each comparison of a segment with the window and the queues is an
  input (\<open>seg_facts\<close>), so the properties hold for every combination; which timer of the congestion control algorithm
  expires, and whether it gives the connection up, is an input as well; \<^verbatim>\<open>unsigned long\<close> payload lengths are
  taken modulo \<open>2 ^ 32\<close>, as all sums with sequence numbers are.

  Routes of the IPv4 table are objects with a number for their address; the table holds the objects and the
  cache the numbers, so that a number that is not in the table is a dangling pointer.  The pattern of the
  parameter \<^verbatim>\<open>netmaskRoutes\<close> is a predicate.  An entry of the ARP cache is named by its key, which it never changes;
  the self messages that are scheduled are part of the state, so that a lost or dangling timer would be seen.
  IPv4 handles the signals of an ARP operation at its end, in their order; runs of the two modules have no
  order of time, so they cover every schedule of the simulator.  The binary search of the standard library is written out, since a
  table may stop being sorted.

  Recursion and loops.  Loops over lists are structural.  The others have a measure: the merge loop of the
  reassembly buffer deletes a fragment in each round, the fragments of a datagram come closer to the end
  of its payload, a line of a file makes the rest shorter, a served queue loses an item.  Fuel occurs
  nowhere; every function is total, and properties about handlers state that they return.

  What the groups of lemmas show.  Each table and queue has an invariant that all its operations keep and
  a statement of what a lookup gives after any run (longest prefix, exact match, retention and eviction,
  ageing).  The TCP queues, the byte queue and the switch table refine abstract machines; the queues are joined to
  a reliable byte stream.  A TCP connection never raises with regular segments, tells its application about
  its end at most once, and changes its state a bounded number of times between returns to LISTEN; where the code
  falls short of that (data on a SYN, a FIN together with a deferred CLOSE, READ after the FIN of the peer,
  overlapping retransmissions in the byte queue) the failure is proved.  The forwarder
  raises no error in any reachable state, and its only undefined accesses are those of printing the FIB, at exactly
  the events at which it learns a prefix; each branch of the handling of Interests and Data is specified
  with the changes of all three tables, and the whole exchange between a consumer and a producer some nodes
  away is composed of them.  The IPv4 table always finds the best route, except that a changed
  administrative distance does not move a route; the failure is proved.  ARP gives only addresses it heard last
  and that are fresh, ends every resolution, and IPv4 accounts for every datagram that waits for it; the
  assertion of IPv4 that no queue is left for an address that needs no resolution can fail only for a next hop that
  is the broadcast address of the outgoing link, and it is proved to fail for one that is a host of another link.  Encoder and size computation agree, and an encoded Interest can be
  read back.

  Not modelled.  \<^verbatim>\<open>Xu\<close> has empty operations.  In the NDN modules: display strings, console output and
  final statistics, the lifecycle of the applications.  In IPv4: the routing of datagrams, encapsulation,
  netfilter hooks, ICMP, the service queue, and the reading of routing files; the global ARP cache.  In TCP: congestion control (but for the event of its timers), acknowledgement processing, the window and the options, forked listeners and
  what sends data.  The random early
  detection dropper computes with floating point.  The rest of INET (other protocols, radio, mobility,
  visualization, serializers, generated parsers and wrapped foreign stacks) is outside the NDN stack and
  is listed in the manifest.
\<close>

section \<open>The connection and its receive queue\<close>

text \<open>
  A SYN that carries data and reaches a listening connection is never accepted: the receive queue was
  just set to the number after the SYN, while the test for space compares with the number of the SYN
  itself, so there is no space for the data whatever the buffer.  The connection stays in LISTEN with the
  timers of a handshake running, and the first one to expire raises an internal error of the simulation.
\<close>

theorem syn_with_data_raises_later:
  assumes "conn_run conn_new tr c" "fsm c = S_LISTEN"
    and "f_addressed f" "\<not> f_rst f" "\<not> f_ack f" "f_syn f" "f_text f"
    and "f_space f = hasEnoughSpaceForSegmentInReceiveQueue st g (brq_init (sequenceNo g + 1) q)"
  shows "\<exists>c'. processTCPSegment f c = Inr c' \<and> fsm c' = S_LISTEN \<and> timer_of T_SYN_REXMIT c' = Pending
    \<and> (\<exists>e. processTimer T_SYN_REXMIT c' = Inl e) \<and> (\<exists>e. processTimer T_CONN_ESTAB c' = Inl e)"
proof -
  have "getFirstSeqNo (base_queue (brq_init (sequenceNo g + 1) q)) = sequenceNo g + 1"
    by (simp add: brq_init_def base_queue_def getFirstSeqNo_def)
  then have "\<not> hasEnoughSpaceForSegmentInReceiveQueue st g (brq_init (sequenceNo g + 1) q)"
    by (simp add: hasEnoughSpaceForSegmentInReceiveQueue_def seqLE_def)
  with assms show ?thesis by (intro listen_syn_text_dropped) simp_all
qed

lemma listen_trace:
  "(case conn_trace [Command (OpenPassive False True)] conn_new of None \<Rightarrow> False | Some (tr, c) \<Rightarrow> fsm c = S_LISTEN)"
  by code_simp

theorem syn_with_data_raises_later_witness:
  "\<exists>tr c c'. conn_run conn_new tr c \<and> fsm c = S_LISTEN
     \<and> processTCPSegment (plain_ack\<lparr>f_ack := False, f_syn := True, f_len := 100, f_space := False\<rparr>) c = Inr c'
     \<and> (\<exists>e. processTimer T_SYN_REXMIT c' = Inl e)"
proof -
  define st :: tcp_tests where
    "st = \<lparr>snd_una = 0, snd_nxt = 0, snd_max = 0, afterRto = False, st_rcv_nxt = 6, rcv_wnd = 1000, maxRcvBuffer = 1000\<rparr>"
  define g where "g = new_segment\<lparr>sequenceNo := 5, payloadLength := 10, synBit := True\<rparr>"
  have space: "hasEnoughSpaceForSegmentInReceiveQueue st g (brq_init (sequenceNo g + 1) brq_new) = False"
    unfolding st_def g_def by code_simp
  from conn_trace_exists [OF listen_trace] obtain tr c where "conn_run conn_new tr c" "fsm c = S_LISTEN" by blast
  with syn_with_data_raises_later
    [of tr c "plain_ack\<lparr>f_ack := False, f_syn := True, f_len := 100, f_space := False\<rparr>" st g brq_new] space
  show ?thesis by (auto simp: plain_ack_def)
qed

end
